(* ===== verification/Prelude.thy ===== *)
theory Prelude
  imports Main "HOL-Library.Word" "HOL-Library.Signed_Division"
begin

text \<open>
  Shared vocabulary of the development: the fixed-width integer types of the C sources, the
  result type in which every failure of a C function is a value, and the lemma collections that
  the component theories add to.

  \<^item> \<open>u8\<close>, \<open>u16\<close>, \<open>u32\<close> are the unsigned types of the sources; \<open>i32\<close> is \<open>int32_t\<close>, a 32-bit word
    that is read with \<open>sint\<close>.
  \<^item> \<open>'a res\<close> is \<open>Ok\<close> of a value, or \<open>Fault\<close> of the way in which the C execution has no result.
  \<^item> the collection \<open>res_iff\<close> inverts successful runs, \<open>list_spec\<close> holds the refinement rules of
    the list library.
\<close>

section \<open>Machine integers\<close>

type_synonym u8 = "8 word"
type_synonym u16 = "16 word"
type_synonym u32 = "32 word"
type_synonym i32 = "32 word"

definition s_div :: "i32 \<Rightarrow> int \<Rightarrow> i32" where
  "s_div a b = word_of_int (sint a sdiv b)"

lemma uint_word_of_int_small:
  fixes x :: int
  assumes "0 \<le> x" and "x < 2 ^ LENGTH('a::len)"
  shows "uint (word_of_int x :: 'a word) = x"
  using assms by (simp add: uint_word_of_int take_bit_int_eq_self)

lemma uint_plus_small:
  fixes a b :: "'a::len word"
  assumes "uint a + uint b < 2 ^ LENGTH('a)"
  shows "uint (a + b) = uint a + uint b"
  using assms by (simp add: uint_plus_if')

lemma uint_minus_small:
  fixes a b :: "'a::len word"
  assumes "uint b \<le> uint a"
  shows "uint (a - b) = uint a - uint b"
  using assms by (simp add: uint_sub_if')

lemma unat_Suc_less:
  fixes a b :: "'a::len word"
  assumes "a < b"
  shows "unat (a + 1) = Suc (unat a)"
proof -
  have "unat a < unat b" using assms by (simp add: word_less_nat_alt)
  moreover have "unat b < 2 ^ LENGTH('a)" by simp
  ultimately have "Suc (unat a) < 2 ^ LENGTH('a)" by linarith
  then show ?thesis by (simp add: unat_word_ariths)
qed

lemma unat_ucast_mod: "unat (ucast (x :: 'a::len word) :: 'b::len word) = unat x mod 2 ^ LENGTH('b)"
  by (simp add: unsigned_ucast_eq take_bit_eq_mod)

lemma unat_bound_pow: "unat (x :: 'a::len word) < 2 ^ LENGTH('a)"
  by simp

lemma unat_ucast_up:
  assumes "LENGTH('a) \<le> LENGTH('b)"
  shows "unat (ucast (x :: 'a::len word) :: 'b::len word) = unat x"
proof -
  have "unat x < 2 ^ LENGTH('b)"
    using less_le_trans [OF unat_bound_pow power_increasing [OF assms]] by simp
  then show ?thesis by (simp add: unat_ucast_mod)
qed

section \<open>Results\<close>

text \<open>
  How an execution can fail to produce a result: a read or write through a null pointer, a list
  node that is not of the list's element type, an access outside an array, a division by zero, a loop that never ends,
  and a run that needs more inputs (hardware captures, random numbers) than the environment trace
  supplies.
\<close>

datatype fault = NullDeref | BadNode | OutOfBounds | DivZero | Diverge | EnvExhausted

datatype 'a res = Ok 'a | Fault fault

fun bindR :: "'a res \<Rightarrow> ('a \<Rightarrow> 'b res) \<Rightarrow> 'b res" where
  "bindR (Ok a) f = f a"
| "bindR (Fault e) f = Fault e"

definition from_option :: "fault \<Rightarrow> 'a option \<Rightarrow> 'a res" where
  "from_option e x = (case x of None \<Rightarrow> Fault e | Some a \<Rightarrow> Ok a)"

named_theorems res_iff
named_theorems list_spec

lemma bindR_Ok_iff [res_iff]: "bindR r f = Ok y \<longleftrightarrow> (\<exists>x. r = Ok x \<and> f x = Ok y)"
  by (cases r) auto

lemma bindR_Fault_iff: "bindR r f = Fault e \<longleftrightarrow> r = Fault e \<or> (\<exists>x. r = Ok x \<and> f x = Fault e)"
  by (cases r) auto

lemma from_option_Ok_iff [res_iff]: "from_option e x = Ok a \<longleftrightarrow> x = Some a"
  by (simp add: from_option_def split: option.split)

lemma from_option_simps [simp]:
  "from_option e (Some a) = Ok a"
  "from_option e None = Fault e"
  by (simp_all add: from_option_def)

lemma bindR_Ok_right [simp]: "bindR r Ok = r"
  by (cases r) auto

lemma bindR_assoc: "bindR (bindR r f) g = bindR r (\<lambda>x. bindR (f x) g)"
  by (cases r) auto

lemma bindR_cong [fundef_cong]:
  "r = r' \<Longrightarrow> (\<And>x. r' = Ok x \<Longrightarrow> f x = g x) \<Longrightarrow> bindR r f = bindR r' g"
  by (cases r') auto

section \<open>Sequences of statements\<close>

text \<open>
  A statement of the sources is a function from the state to a result; \<open>run\<close> is the sequence of
  statements, \<open>up\<close> a statement that cannot fail.
\<close>

primrec run :: "('s \<Rightarrow> 's res) list \<Rightarrow> 's \<Rightarrow> 's res" where
  "run [] s = Ok s"
| "run (f # fs) s = bindR (f s) (run fs)"

definition up :: "('s \<Rightarrow> 's) \<Rightarrow> 's \<Rightarrow> 's res" where
  "up f s = Ok (f s)"

lemma up_eq [simp]: "up f s = Ok (f s)"
  by (simp add: up_def)

lemma run_append: "run (fs @ gs) s = bindR (run fs s) (run gs)"
  proof (induction fs arbitrary: s)
  case (Cons f fs)
  then show ?case by (cases "f s") auto
qed simp

text \<open>\<open>keeps I f\<close>: every run of \<open>f\<close> that returns keeps \<open>I\<close>.\<close>

definition keeps :: "('s \<Rightarrow> bool) \<Rightarrow> ('s \<Rightarrow> 's res) \<Rightarrow> bool" where
  "keeps I f \<longleftrightarrow> (\<forall>s s'. I s \<longrightarrow> f s = Ok s' \<longrightarrow> I s')"

named_theorems keeps_rules

lemma keepsD: "keeps I f \<Longrightarrow> I s \<Longrightarrow> f s = Ok s' \<Longrightarrow> I s'"
  by (auto simp: keeps_def)

lemma keepsI: "(\<And>s s'. I s \<Longrightarrow> f s = Ok s' \<Longrightarrow> I s') \<Longrightarrow> keeps I f"
  by (auto simp: keeps_def)

lemma keeps_run [keeps_rules]: "list_all (keeps I) fs \<Longrightarrow> keeps I (run fs)"
proof (induction fs)
  case Nil
  then show ?case by (simp add: keeps_def)
next
  case (Cons f fs)
  show ?case
  proof (rule keepsI)
    fix s s'
    assume s: "I s" and "run (f # fs) s = Ok s'"
    then obtain s1 where 1: "f s = Ok s1" and 2: "run fs s1 = Ok s'" by (auto simp: res_iff)
    have "I s1" using Cons.prems s 1 by (auto intro: keepsD)
    with Cons 2 show "I s'" by (auto intro: keepsD)
  qed
qed

lemma keeps_up: "(\<And>s. I s \<Longrightarrow> I (f s)) \<Longrightarrow> keeps I (up f)"
  by (simp add: keeps_def)

lemma keeps_if [keeps_rules]:
  "keeps I f \<Longrightarrow> keeps I g \<Longrightarrow> keeps I (\<lambda>s. if P s then f s else g s)"
  unfolding keeps_def by metis

lemma keeps_Ok [keeps_rules]: "keeps I Ok" "keeps I (\<lambda>s. Ok s)"
  by (simp_all add: keeps_def)

lemma keeps_bind [keeps_rules]:
  "keeps I f \<Longrightarrow> keeps I g \<Longrightarrow> keeps I (\<lambda>s. bindR (f s) g)"
  unfolding keeps_def res_iff by blast

text \<open>Runs that also return a value.\<close>

definition keeps_snd :: "('s \<Rightarrow> bool) \<Rightarrow> ('s \<Rightarrow> ('a \<times> 's) res) \<Rightarrow> bool" where
  "keeps_snd I f \<longleftrightarrow> (\<forall>s y s'. I s \<longrightarrow> f s = Ok (y, s') \<longrightarrow> I s')"

lemma keeps_sndI: "(\<And>s y s'. I s \<Longrightarrow> f s = Ok (y, s') \<Longrightarrow> I s') \<Longrightarrow> keeps_snd I f"
  by (simp add: keeps_snd_def)

lemma keeps_sndD: "keeps_snd I f \<Longrightarrow> I s \<Longrightarrow> f s = Ok (y, s') \<Longrightarrow> I s'"
  unfolding keeps_snd_def by blast

lemma keeps_snd_Ok [keeps_rules]: "(\<And>s. I s \<Longrightarrow> I (g s)) \<Longrightarrow> keeps_snd I (\<lambda>s. Ok (y s, g s))"
  by (simp add: keeps_snd_def)

lemma keeps_snd_if [keeps_rules]:
  "keeps_snd I f \<Longrightarrow> keeps_snd I g \<Longrightarrow> keeps_snd I (\<lambda>s. if P s then f s else g s)"
  unfolding keeps_snd_def by metis

lemma keeps_snd_bind [keeps_rules]:
  "keeps I f \<Longrightarrow> keeps_snd I g \<Longrightarrow> keeps_snd I (\<lambda>s. bindR (f s) g)"
  unfolding keeps_def keeps_snd_def res_iff by blast

lemma keeps_snd_bind_snd:
  "keeps_snd I f \<Longrightarrow> (\<And>y. keeps_snd I (g y)) \<Longrightarrow> keeps_snd I (\<lambda>s. bindR (f s) (\<lambda>(y, s'). g y s'))"
proof (rule keeps_sndI)
  fix s z s''
  assume f: "keeps_snd I f" and g: "\<And>y. keeps_snd I (g y)" and s: "I s"
    and r: "bindR (f s) (\<lambda>(y, s'). g y s') = Ok (z, s'')"
  then obtain y s' where "f s = Ok (y, s')" "g y s' = Ok (z, s'')" by (auto simp: res_iff)
  then show "I s''" using keeps_sndD [OF f s] keeps_sndD [OF g] by simp
qed

lemma keeps_bind_snd:
  "keeps_snd I f \<Longrightarrow> (\<And>y. keeps I (g y)) \<Longrightarrow> keeps I (\<lambda>s. bindR (f s) (\<lambda>(y, s'). g y s'))"
proof (rule keepsI)
  fix s s''
  assume f: "keeps_snd I f" and g: "\<And>y. keeps I (g y)" and s: "I s"
    and r: "bindR (f s) (\<lambda>(y, s'). g y s') = Ok s''"
  then obtain y s' where "f s = Ok (y, s')" "g y s' = Ok s''" by (auto simp: res_iff)
  then show "I s''" using keeps_sndD [OF f s] keepsD [OF g] by simp
qed

lemma keeps_Ok_fun [keeps_rules]: "(\<And>s. I s \<Longrightarrow> I (g s)) \<Longrightarrow> keeps I (\<lambda>s. Ok (g s))"
  by (simp add: keeps_def)

lemma keeps_comp: "(\<And>s. I s \<Longrightarrow> I (g s)) \<Longrightarrow> keeps I f \<Longrightarrow> keeps I (\<lambda>s. f (g s))"
  unfolding keeps_def by blast

lemma keeps_snd_comp: "(\<And>s. I s \<Longrightarrow> I (g s)) \<Longrightarrow> keeps_snd I f \<Longrightarrow> keeps_snd I (\<lambda>s. f (g s))"
  unfolding keeps_snd_def by blast

section \<open>Lists of pointers\<close>

lemma remove1_notin [simp]: "x \<notin> set xs \<Longrightarrow> remove1 x xs = xs"
  by (induction xs) auto

lemma remove1_append_in:
  "x \<in> set xs \<Longrightarrow> remove1 x (xs @ ys) = remove1 x xs @ ys"
  by (simp add: remove1_append)

lemma distinct_remove1_set: "distinct xs \<Longrightarrow> set (remove1 x xs) = set xs - {x}"
  by simp

lemma butlast_snoc_last: "xs \<noteq> [] \<Longrightarrow> butlast xs @ [last xs] = xs"
  by simp

lemma distinct_butlast_last: "distinct xs \<Longrightarrow> xs \<noteq> [] \<Longrightarrow> last xs \<notin> set (butlast xs)"
  by (metis append_butlast_last_id distinct.simps(2) distinct_append disjoint_insert(2) list.simps(15))

end
