(* ===== verification/Linked_List.thy ===== *)
theory Linked_List
  imports Prelude
begin

text \<open>
  The linked-list library \<^verbatim>\<open>src/core/lib/list.c\<close>. A list variable is the content of the head cell
  (\<open>None\<close> is \<open>NULL\<close>), the heap maps a node to its \<open>next\<close> field. The loops of the library do not end
  on a cyclic chain, so the functions that walk a list are partial functions into \<open>option\<close>.
  \<open>chain h l xs\<close> says that the list variable \<open>l\<close> holds the node sequence \<open>xs\<close>; every operation is
  shown to return on such a list and to implement the operation on sequences.
\<close>

section \<open>The operations of list.c\<close>

type_synonym ptr = nat
type_synonym heap = "ptr \<Rightarrow> ptr option"

definition list_init :: "ptr option \<Rightarrow> ptr option" where
  "list_init l = None"

definition list_head :: "ptr option \<Rightarrow> ptr option" where
  "list_head l = l"

definition list_copy :: "ptr option \<Rightarrow> ptr option \<Rightarrow> ptr option" where
  "list_copy dest src = src"

definition list_item_next :: "heap \<Rightarrow> ptr option \<Rightarrow> ptr option" where
  "list_item_next h item = (case item of None \<Rightarrow> None | Some p \<Rightarrow> h p)"

text \<open>The loop \<open>for(l = *list; l->next != NULL; l = l->next);\<close>\<close>

partial_function (option) tail_loop :: "heap \<Rightarrow> ptr \<Rightarrow> ptr option" where
  "tail_loop h l = (case h l of None \<Rightarrow> Some l | Some n \<Rightarrow> tail_loop h n)"

definition list_tail :: "heap \<Rightarrow> ptr option \<Rightarrow> ptr option option" where
  "list_tail h l = (case l of None \<Rightarrow> Some None | Some p \<Rightarrow> map_option Some (tail_loop h p))"

text \<open>The loop of \<open>list_remove\<close>: \<open>r\<close> trails \<open>l\<close> by one node.\<close>

partial_function (option) remove_loop ::
  "heap \<Rightarrow> ptr option \<Rightarrow> ptr option \<Rightarrow> ptr option \<Rightarrow> ptr \<Rightarrow> (heap \<times> ptr option) option" where
  "remove_loop h lst r l item = (case l of
       None \<Rightarrow> Some (h, lst)
     | Some p \<Rightarrow>
         if p = item then
           (case r of
              None \<Rightarrow> Some (h(p := None), h p)
            | Some q \<Rightarrow> Some ((h(q := h p))(p := None), lst))
         else remove_loop h lst (Some p) (h p) item)"

definition list_remove :: "heap \<Rightarrow> ptr option \<Rightarrow> ptr \<Rightarrow> (heap \<times> ptr option) option" where
  "list_remove h l item = (if l = None then Some (h, l) else remove_loop h l None l item)"

definition list_add :: "heap \<Rightarrow> ptr option \<Rightarrow> ptr \<Rightarrow> (heap \<times> ptr option) option" where
  "list_add h l item =
     Option.bind (list_remove h l item) (\<lambda>(h1, l1).
       let h2 = h1(item := None) in
       Option.bind (list_tail h2 l1) (\<lambda>t.
         case t of
           None \<Rightarrow> Some (h2, Some item)
         | Some p \<Rightarrow> Some (h2(p := Some item), l1)))"

definition list_push :: "heap \<Rightarrow> ptr option \<Rightarrow> ptr \<Rightarrow> (heap \<times> ptr option) option" where
  "list_push h l item =
     Option.bind (list_remove h l item) (\<lambda>(h1, l1).
       Some (h1(item := l1), Some item))"

text \<open>
  The loop \<open>for(l = *list; l->next->next != NULL; l = l->next);\<close>, started at a node that has a
  successor; it returns the last node but one.
\<close>

partial_function (option) chop_loop :: "heap \<Rightarrow> ptr \<Rightarrow> ptr option" where
  "chop_loop h l = (case h l of
       None \<Rightarrow> None
     | Some n \<Rightarrow> (case h n of None \<Rightarrow> Some l | Some m \<Rightarrow> chop_loop h n))"

definition list_chop :: "heap \<Rightarrow> ptr option \<Rightarrow> (ptr option \<times> heap \<times> ptr option) option" where
  "list_chop h l = (case l of
       None \<Rightarrow> Some (None, h, None)
     | Some p \<Rightarrow>
         if h p = None then Some (Some p, h, None)
         else Option.bind (chop_loop h p) (\<lambda>q. Some (h q, h(q := None), l)))"

definition list_pop :: "heap \<Rightarrow> ptr option \<Rightarrow> ptr option \<times> ptr option" where
  "list_pop h l = (l, case l of None \<Rightarrow> None | Some p \<Rightarrow> h p)"

partial_function (option) length_loop :: "heap \<Rightarrow> ptr option \<Rightarrow> nat \<Rightarrow> nat option" where
  "length_loop h l n = (case l of None \<Rightarrow> Some n | Some p \<Rightarrow> length_loop h (h p) (Suc n))"

definition list_length :: "heap \<Rightarrow> ptr option \<Rightarrow> nat option" where
  "list_length h l = length_loop h l 0"

definition list_insert ::
  "heap \<Rightarrow> ptr option \<Rightarrow> ptr option \<Rightarrow> ptr \<Rightarrow> (heap \<times> ptr option) option" where
  "list_insert h l previtem newitem = (case previtem of
       None \<Rightarrow> list_push h l newitem
     | Some p \<Rightarrow> Some ((h(newitem := h p))(p := Some newitem), l))"

section \<open>The sequence a list variable holds\<close>

fun chain :: "heap \<Rightarrow> ptr option \<Rightarrow> ptr list \<Rightarrow> bool" where
  "chain h l [] \<longleftrightarrow> l = None"
| "chain h l (p # ps) \<longleftrightarrow> l = Some p \<and> chain h (h p) ps"

text \<open>The operations on sequences that the library promises.\<close>

definition seq_add :: "ptr \<Rightarrow> ptr list \<Rightarrow> ptr list" where
  "seq_add p xs = remove1 p xs @ [p]"

definition seq_push :: "ptr \<Rightarrow> ptr list \<Rightarrow> ptr list" where
  "seq_push p xs = p # remove1 p xs"

fun seq_insert :: "ptr \<Rightarrow> ptr \<Rightarrow> ptr list \<Rightarrow> ptr list" where
  "seq_insert q p [] = []"
| "seq_insert q p (x # xs) = (if x = q then x # p # xs else x # seq_insert q p xs)"

lemma chain_None [simp]: "chain h None xs \<longleftrightarrow> xs = []"
  by (cases xs) auto

lemma chain_Some: "chain h (Some p) xs \<longleftrightarrow> (\<exists>ys. xs = p # ys \<and> chain h (h p) ys)"
  by (cases xs) auto

lemma chain_frame:
  "(\<And>q. q \<in> set xs \<Longrightarrow> h' q = h q) \<Longrightarrow> chain h' l xs = chain h l xs"
  by (induction xs arbitrary: l) auto

lemma chain_upd_notin [simp]: "p \<notin> set xs \<Longrightarrow> chain (h(p := v)) l xs = chain h l xs"
  by (rule chain_frame) auto

lemma chain_append_D:
  "chain h l (xs @ ys) \<Longrightarrow> \<exists>m. chain h m ys"
  by (induction xs arbitrary: l) auto

lemma chain_unique: "chain h l xs \<Longrightarrow> chain h l ys \<Longrightarrow> xs = ys"
proof (induction xs arbitrary: l ys)
  case Nil
  then show ?case by (cases ys) auto
next
  case (Cons x xs)
  then show ?case by (cases ys) auto
qed

text \<open>A chain that ends cannot visit a node twice.\<close>

lemma chain_distinct: "chain h l xs \<Longrightarrow> distinct xs"
proof (induction xs arbitrary: l)
  case Nil
  then show ?case by simp
next
  case (Cons p xs)
  have "p \<notin> set xs"
  proof
    assume "p \<in> set xs"
    then obtain as bs where xs: "xs = as @ p # bs"
      by (meson split_list)
    with Cons.prems have tail: "chain h (h p) (as @ p # bs)" by simp
    then obtain m where "chain h m (p # bs)" using chain_append_D by blast
    then have "chain h (h p) bs" by simp
    with tail have "as @ p # bs = bs" by (rule chain_unique)
    then have "length (as @ p # bs) = length bs" by simp
    then show False by simp
  qed
  with Cons show ?case by auto
qed

lemma chain_snoc:
  "chain h l (xs @ [p]) \<Longrightarrow> h p = None"
  by (induction xs arbitrary: l) auto

lemma chain_split:
  "chain h l (xs @ q # ys) \<Longrightarrow> chain h (h q) ys"
  by (induction xs arbitrary: l) auto

text \<open>Redirecting the \<open>next\<close> field of one node replaces the rest of the sequence.\<close>

lemma chain_splice:
  "chain h l (xs @ q # ys) \<Longrightarrow> chain h m zs \<Longrightarrow> q \<notin> set zs \<Longrightarrow>
   chain (h(q := m)) l (xs @ q # zs)"
proof (induction xs arbitrary: l)
  case Nil
  then have "chain (h(q := m)) m zs" by (simp only: chain_upd_notin not_False_eq_True)
  with Nil show ?case by (simp del: fun_upd_apply add: fun_upd_same)
next
  case (Cons x xs)
  have "x \<noteq> q" using chain_distinct [OF Cons.prems(1)] by auto
  with Cons show ?case by auto
qed

section \<open>The operations implement the operations on sequences\<close>

lemma tail_loop_chain: "chain h (Some p) xs \<Longrightarrow> tail_loop h p = Some (last xs)"
proof (induction xs arbitrary: p)
  case Nil
  then show ?case by simp
next
  case (Cons x xs)
  then show ?case
    by (cases xs) (auto simp: tail_loop.simps [of h x])
qed

lemma list_tail_chain [list_spec]:
  "chain h l xs \<Longrightarrow> list_tail h l = Some (if xs = [] then None else Some (last xs))"
  by (cases l) (auto simp: list_tail_def tail_loop_chain)

lemma remove_loop_chain:
  assumes "chain h lst (pre @ suf)" and "chain h l suf"
    and "r = (if pre = [] then None else Some (last pre))"
  shows "\<exists>h' l'. remove_loop h lst r l item = Some (h', l') \<and>
           chain h' l' (pre @ remove1 item suf) \<and> (\<forall>q. q \<notin> set (pre @ suf) \<longrightarrow> h' q = h q)"
  using assms
proof (induction suf arbitrary: pre l r)
  case Nil
  then show ?case by (simp add: remove_loop.simps)
next
  case (Cons p suf)
  note dist = chain_distinct [OF Cons.prems(1)]
  have l: "l = Some p" and rest: "chain h (h p) suf" using Cons.prems(2) by auto
  show ?case
  proof (cases "p = item")
    case False
    have "\<exists>h' l'. remove_loop h lst (Some p) (h p) item = Some (h', l') \<and>
        chain h' l' ((pre @ [p]) @ remove1 item suf) \<and>
        (\<forall>q. q \<notin> set ((pre @ [p]) @ suf) \<longrightarrow> h' q = h q)"
      by (rule Cons.IH) (use Cons.prems(1) rest in auto)
    with False l show ?thesis by (simp add: remove_loop.simps [of h lst r "Some p" item])
  next
    case True
    show ?thesis
    proof (cases pre rule: rev_cases)
      case Nil
      with True l rest dist Cons.prems show ?thesis
        by (simp add: remove_loop.simps [of h "Some item" None "Some item" item])
    next
      case (snoc as q)
      have "chain (h(q := h p)) lst (as @ q # suf)"
        by (rule chain_splice [of _ _ _ _ "p # suf"]) (use Cons.prems(1) snoc rest dist in auto)
      with True l snoc dist Cons.prems(3) show ?thesis
        by (simp add: remove_loop.simps [of h lst "Some q" "Some item" item])
    qed
  qed
qed

lemma list_remove_chain [list_spec]:
  assumes "chain h l xs"
  shows "\<exists>h' l'. list_remove h l p = Some (h', l') \<and> chain h' l' (remove1 p xs) \<and>
           (\<forall>q. q \<notin> set xs \<longrightarrow> h' q = h q)"
  using remove_loop_chain [of h l "[]" xs l None p] assms
  by (cases l) (auto simp: list_remove_def)

lemma list_add_chain [list_spec]:
  assumes "chain h l xs"
  shows "\<exists>h' l'. list_add h l p = Some (h', l') \<and> chain h' l' (seq_add p xs) \<and>
           (\<forall>q. q \<notin> insert p (set xs) \<longrightarrow> h' q = h q)"
proof -
  obtain h1 l1 where rm: "list_remove h l p = Some (h1, l1)"
    and ch: "chain h1 l1 (remove1 p xs)" and fr: "\<forall>q. q \<notin> set xs \<longrightarrow> h1 q = h q"
    using list_remove_chain [OF assms] by blast
  let ?ys = "remove1 p xs"
  have notin: "p \<notin> set ?ys" using chain_distinct [OF assms] by simp
  have ch2: "chain (h1(p := None)) l1 ?ys" using ch notin by simp
  show ?thesis
  proof (cases ?ys rule: rev_cases)
    case Nil
    with rm ch2 fr list_tail_chain [OF ch2] show ?thesis
      by (auto simp: list_add_def seq_add_def)
  next
    case (snoc as z)
    have "z \<in> set ?ys" using snoc by simp
    then have "z \<in> set xs" by (metis notin_set_remove1)
    have zp: "z \<noteq> p" using snoc notin by auto
    have "chain ((h1(p := None))(z := Some p)) l1 (as @ z # [p])"
      by (rule chain_splice [of _ _ _ _ "[]"]) (use ch2 snoc zp in auto)
    with rm snoc fr \<open>z \<in> set xs\<close> list_tail_chain [OF ch2] show ?thesis
      by (auto simp: list_add_def seq_add_def Let_def)
  qed
qed

lemma list_push_chain [list_spec]:
  assumes "chain h l xs"
  shows "\<exists>h' l'. list_push h l p = Some (h', l') \<and> chain h' l' (seq_push p xs) \<and>
           (\<forall>q. q \<notin> insert p (set xs) \<longrightarrow> h' q = h q)"
proof -
  obtain h1 l1 where rm: "list_remove h l p = Some (h1, l1)"
    and ch: "chain h1 l1 (remove1 p xs)" and fr: "\<forall>q. q \<notin> set xs \<longrightarrow> h1 q = h q"
    using list_remove_chain [OF assms] by blast
  have "p \<notin> set (remove1 p xs)" using chain_distinct [OF assms] by simp
  with rm ch fr show ?thesis by (auto simp: list_push_def seq_push_def)
qed

lemma chop_loop_chain:
  "chain h (Some p) (xs @ [y, z]) \<Longrightarrow> chop_loop h p = Some y"
proof (induction xs arbitrary: p)
  case Nil
  then show ?case by (simp add: chop_loop.simps)
next
  case (Cons x xs)
  then have p: "p = x" and rest: "chain h (h p) (xs @ [y, z])" by auto
  obtain n where n: "h p = Some n" using rest by (cases xs) auto
  obtain m where m: "h n = Some m"
    using rest n by (cases xs) (auto, cases "tl xs", auto)
  with n rest Cons.IH show ?case by (simp add: chop_loop.simps [of h p])
qed

lemma list_chop_chain [list_spec]:
  assumes "chain h l xs"
  shows "\<exists>h' l'. list_chop h l = Some (if xs = [] then None else Some (last xs), h', l') \<and>
           chain h' l' (butlast xs) \<and> (\<forall>q. q \<notin> set xs \<longrightarrow> h' q = h q)"
proof (cases xs rule: rev_cases)
  case Nil
  with assms show ?thesis by (simp add: list_chop_def)
next
  case (snoc ys z)
  show ?thesis
  proof (cases ys rule: rev_cases)
    case Nil
    with snoc assms show ?thesis by (auto simp: list_chop_def)
  next
    case (snoc as y)
    with \<open>xs = ys @ [z]\<close> have xs: "xs = as @ [y, z]" by simp
    obtain p where p: "l = Some p" "h p \<noteq> None"
      using assms xs by (cases as) (auto simp: neq_Nil_conv, cases "tl as", auto)
    have "chain h l (as @ y # [z])" using assms xs by simp
    then have hy: "h y = Some z" using chain_split by fastforce
    have "chain (h(y := None)) l (as @ y # [])"
      by (rule chain_splice [of _ _ _ _ "[z]"]) (use assms xs in auto)
    moreover have "chop_loop h p = Some y"
      by (rule chop_loop_chain [of h p as]) (use assms xs p in simp)
    ultimately show ?thesis using p xs hy by (auto simp: list_chop_def butlast_append)
  qed
qed

lemma list_pop_chain [list_spec]:
  "chain h l xs \<Longrightarrow>
   fst (list_pop h l) = (if xs = [] then None else Some (hd xs)) \<and> chain h (snd (list_pop h l)) (tl xs)"
  by (cases xs) (auto simp: list_pop_def)

lemma length_loop_chain: "chain h l xs \<Longrightarrow> length_loop h l n = Some (n + length xs)"
  by (induction xs arbitrary: l n) (auto simp: length_loop.simps)

lemma list_length_chain [list_spec]: "chain h l xs \<Longrightarrow> list_length h l = Some (length xs)"
  by (simp add: list_length_def length_loop_chain)

lemma seq_insert_append:
  "q \<notin> set as \<Longrightarrow> seq_insert q p (as @ q # bs) = as @ q # p # bs"
  by (induction as) auto

lemma list_insert_chain [list_spec]:
  assumes "chain h l xs" and "q \<in> set xs" and "p \<notin> set xs"
  shows "\<exists>h'. list_insert h l (Some q) p = Some (h', l) \<and> chain h' l (seq_insert q p xs) \<and>
           (\<forall>r. r \<notin> insert p (set xs) \<longrightarrow> h' r = h r)"
proof -
  obtain as bs where xs: "xs = as @ q # bs" and q: "q \<notin> set as"
    using split_list_first [OF assms(2)] by blast
  have ch: "chain (h(p := h q)) l (as @ q # bs)" using assms(1,3) xs by simp
  have "chain (h(p := h q)) (Some p) (p # bs)"
    using chain_split [of h l as q bs] assms(1,3) xs by simp
  moreover have "q \<notin> set (p # bs)" using chain_distinct [OF assms(1)] xs assms(3) by auto
  ultimately have "chain ((h(p := h q))(q := Some p)) l (as @ q # p # bs)"
    by (rule chain_splice [OF ch])
  with assms(2) q show ?thesis by (auto simp: list_insert_def xs seq_insert_append)
qed

section \<open>The interface of the library\<close>

text \<open>
  What a client of the library relies on: a representation relation between a list variable and a
  sequence of nodes, and what each operation does to the sequence. Queue behaviour follows from
  the laws alone.
\<close>

fun add_all :: "('h \<Rightarrow> 'l \<Rightarrow> ptr \<Rightarrow> ('h \<times> 'l) option) \<Rightarrow> 'h \<Rightarrow> 'l \<Rightarrow> ptr list \<Rightarrow> ('h \<times> 'l) option" where
  "add_all add h l [] = Some (h, l)"
| "add_all add h l (p # ps) = Option.bind (add h l p) (\<lambda>(h', l'). add_all add h' l' ps)"

fun pop_all :: "('h \<Rightarrow> 'l \<Rightarrow> ptr option \<times> 'l) \<Rightarrow> nat \<Rightarrow> 'h \<Rightarrow> 'l \<Rightarrow> ptr option list" where
  "pop_all pop 0 h l = []"
| "pop_all pop (Suc n) h l = (case pop h l of (p, l') \<Rightarrow> p # pop_all pop n h l')"

locale linked_list =
  fixes rep :: "'h \<Rightarrow> 'l \<Rightarrow> ptr list \<Rightarrow> bool"
    and nil :: "'l"
    and add :: "'h \<Rightarrow> 'l \<Rightarrow> ptr \<Rightarrow> ('h \<times> 'l) option"
    and push :: "'h \<Rightarrow> 'l \<Rightarrow> ptr \<Rightarrow> ('h \<times> 'l) option"
    and pop :: "'h \<Rightarrow> 'l \<Rightarrow> ptr option \<times> 'l"
  assumes rep_nil: "rep h nil []"
    and rep_add: "rep h l xs \<Longrightarrow> \<exists>h' l'. add h l p = Some (h', l') \<and> rep h' l' (seq_add p xs)"
    and rep_push: "rep h l xs \<Longrightarrow> \<exists>h' l'. push h l p = Some (h', l') \<and> rep h' l' (seq_push p xs)"
    and rep_pop: "rep h l xs \<Longrightarrow>
      fst (pop h l) = (if xs = [] then None else Some (hd xs)) \<and> rep h (snd (pop h l)) (tl xs)"
begin

lemma add_all_rep:
  "rep h l xs \<Longrightarrow> distinct (xs @ ps) \<Longrightarrow> \<exists>h' l'. add_all add h l ps = Some (h', l') \<and> rep h' l' (xs @ ps)"
proof (induction ps arbitrary: h l xs)
  case Nil
  then show ?case by simp
next
  case (Cons p ps)
  obtain h1 l1 where 1: "add h l p = Some (h1, l1)" "rep h1 l1 (seq_add p xs)"
    using rep_add [OF Cons.prems(1)] by blast
  have "seq_add p xs = xs @ [p]" using Cons.prems(2) by (simp add: seq_add_def)
  with 1 Cons.IH [of h1 l1 "xs @ [p]"] Cons.prems(2) show ?case by auto
qed

lemma pop_all_rep: "rep h l xs \<Longrightarrow> pop_all pop (length xs) h l = map Some xs"
proof (induction xs arbitrary: l)
  case Nil
  then show ?case by simp
next
  case (Cons x xs)
  with rep_pop [OF Cons.prems] show ?case by (auto split: prod.split)
qed

text \<open>Nodes come out of the list in the order in which they were added.\<close>

lemma fifo:
  assumes "distinct ps"
  shows "\<exists>h' l'. add_all add h nil ps = Some (h', l') \<and> pop_all pop (length ps) h' l' = map Some ps"
  using add_all_rep [OF rep_nil, of ps h] assms pop_all_rep by fastforce

lemma push_pop:
  assumes "rep h l xs" and "p \<notin> set xs"
  shows "\<exists>h' l'. push h l p = Some (h', l') \<and> fst (pop h' l') = Some p \<and> rep h' (snd (pop h' l')) xs"
proof -
  obtain h' l' where 1: "push h l p = Some (h', l')" "rep h' l' (seq_push p xs)"
    using rep_push [OF assms(1)] by blast
  with rep_pop [OF 1(2)] assms(2) show ?thesis by (simp add: seq_push_def)
qed

end

interpretation ll: linked_list chain "list_init l0" list_add list_push list_pop
proof unfold_locales
  show "chain h (list_init l0) []" for h by (simp add: list_init_def)
next
  fix h l xs p
  assume "chain h l xs"
  then show "\<exists>h' l'. list_add h l p = Some (h', l') \<and> chain h' l' (seq_add p xs)"
    and "\<exists>h' l'. list_push h l p = Some (h', l') \<and> chain h' l' (seq_push p xs)"
    using list_add_chain list_push_chain by blast+
next
  fix h l xs
  assume "chain h l xs"
  then show "fst (list_pop h l) = (if xs = [] then None else Some (hd xs)) \<and>
      chain h (snd (list_pop h l)) (tl xs)"
    by (rule list_pop_chain)
qed

section \<open>Properties of the list library\<close>

text \<open>
  C35: Adding an item to a well-formed list of list.c always returns, appends the item after removing
  an earlier occurrence of it, and changes no node outside the list and the item.
\<close>

theorem list_add_refines:
  assumes "chain h l xs"
  shows "\<exists>h' l'. list_add h l p = Some (h', l') \<and> chain h' l' (remove1 p xs @ [p]) \<and>
           (\<forall>q. q \<notin> insert p (set xs) \<longrightarrow> h' q = h q)"
  using list_add_chain [OF assms, of p] by (simp only: seq_add_def)

theorem list_add_refines_witness:
  "\<exists>h' l'. list_add (\<lambda>q. if q = 3 then Some 5 else None) (Some 3) 3 = Some (h', l') \<and> chain h' l' [5, 3]"
proof -
  have "chain (\<lambda>q. if q = 3 then Some 5 else None) (Some 3) [3, 5]" by simp
  from list_add_refines [OF this, of 3] show ?thesis by auto
qed

text \<open>
  Nodes leave a list of list.c in the order in which \<open>list_add\<close> put them in: \<open>list_pop\<close> returns
  distinct nodes first in, first out, whatever the contents of the node memory were.
\<close>

lemma list_is_fifo:
  assumes "distinct ps"
  shows "\<exists>h' l'. add_all list_add h (list_init l0) ps = Some (h', l') \<and>
           pop_all list_pop (length ps) h' l' = map Some ps"
  by (rule ll.fifo [OF assms])

lemma list_is_fifo_example:
  "\<exists>h' l'. add_all list_add (\<lambda>_. Some 9) (list_init None) [4, 2, 7] = Some (h', l') \<and>
     pop_all list_pop (length [4, 2, 7 :: ptr]) h' l' = map Some [4, 2, 7]"
  by (rule list_is_fifo) simp

end
