(* ===== verification/Memb.thy ===== *)
theory Memb
  imports Prelude
begin

text \<open>
  The block allocator \<^verbatim>\<open>src/core/lib/memb.c\<close>. A pool is its reference counts and its blocks; the
  pointer \<^verbatim>\<open>(char *)m->mem + i * m->size\<close> is the block number \<open>i\<close>, and a pointer outside the pool is
  a number that is not below the number of blocks.
\<close>

section \<open>The operations of memb.c\<close>

record 'a memb =
  mcount :: "u8 list"
  mmem :: "'a list"

abbreviation mnum :: "'a memb \<Rightarrow> nat" where
  "mnum m \<equiv> length (mcount m)"

definition memb_init :: "'a \<Rightarrow> 'a memb \<Rightarrow> 'a memb" where
  "memb_init zero m = \<lparr>mcount = replicate (mnum m) 0, mmem = replicate (mnum m) zero\<rparr>"

text \<open>The loop of \<open>memb_alloc\<close>: the first block from \<open>i\<close> on whose count is zero.\<close>

fun alloc_loop :: "u8 list \<Rightarrow> nat \<Rightarrow> nat option" where
  "alloc_loop [] i = None"
| "alloc_loop (c # cs) i = (if c = 0 then Some i else alloc_loop cs (Suc i))"

definition memb_alloc :: "'a memb \<Rightarrow> nat option \<times> 'a memb" where
  "memb_alloc m = (case alloc_loop (mcount m) 0 of
       None \<Rightarrow> (None, m)
     | Some i \<Rightarrow> (Some i, m\<lparr>mcount := (mcount m)[i := mcount m ! i + 1]\<rparr>))"

definition memb_free :: "'a memb \<Rightarrow> nat \<Rightarrow> int \<times> 'a memb" where
  "memb_free m p =
     (if p < mnum m then
        let c = (if 0 < sint (mcount m ! p) then mcount m ! p - 1 else mcount m ! p)
        in (sint c, m\<lparr>mcount := (mcount m)[p := c]\<rparr>)
      else (-1, m))"

definition memb_inmemb :: "'a memb \<Rightarrow> nat \<Rightarrow> bool" where
  "memb_inmemb m p \<longleftrightarrow> p < mnum m"

definition memb_numfree :: "'a memb \<Rightarrow> nat" where
  "memb_numfree m = length (filter (\<lambda>c. c = 0) (mcount m))"

section \<open>Blocks in use\<close>

definition memb_ok :: "'a memb \<Rightarrow> bool" where
  "memb_ok m \<longleftrightarrow> length (mmem m) = mnum m \<and> (\<forall>c \<in> set (mcount m). c = 0 \<or> c = 1)"

definition memb_used :: "'a memb \<Rightarrow> nat set" where
  "memb_used m = {i. i < mnum m \<and> mcount m ! i \<noteq> 0}"

lemma memb_used_code [code]: "memb_used m = set (filter (\<lambda>i. mcount m ! i \<noteq> 0) [0..<mnum m])"
  by (auto simp: memb_used_def)

lemma memb_used_bound: "memb_used m \<subseteq> {..<mnum m}"
  by (auto simp: memb_used_def)

lemma finite_memb_used [simp]: "finite (memb_used m)"
  by (rule finite_subset [OF memb_used_bound]) simp

lemma alloc_loop_Some:
  "alloc_loop cs i = Some j \<Longrightarrow> i \<le> j \<and> j < i + length cs \<and> cs ! (j - i) = 0"
  by (induction cs arbitrary: i) (fastforce split: if_splits simp: nth_Cons')+

lemma alloc_loop_None: "alloc_loop cs i = None \<longleftrightarrow> (\<forall>c \<in> set cs. c \<noteq> 0)"
  by (induction cs arbitrary: i) auto

lemma memb_init_ok: "memb_ok (memb_init z m)"
  by (simp add: memb_ok_def memb_init_def)

lemma memb_init_used: "memb_used (memb_init z m) = {}"
  by (simp add: memb_used_def memb_init_def)

lemma memb_alloc_Some:
  assumes "memb_alloc m = (Some i, m')"
  shows "i < mnum m" and "i \<notin> memb_used m" and "mmem m' = mmem m" and "mnum m' = mnum m"
    and "mcount m' = (mcount m)[i := 1]"
proof -
  from assms have "alloc_loop (mcount m) 0 = Some i"
    and m': "m' = m\<lparr>mcount := (mcount m)[i := mcount m ! i + 1]\<rparr>"
    by (auto simp: memb_alloc_def split: option.splits)
  then have i: "i < mnum m" "mcount m ! i = 0" using alloc_loop_Some by fastforce+
  with m' show "i < mnum m" and "i \<notin> memb_used m" and "mmem m' = mmem m" and "mnum m' = mnum m"
    and "mcount m' = (mcount m)[i := 1]"
    by (auto simp: memb_used_def)
qed

lemma memb_alloc_used:
  "memb_alloc m = (Some i, m') \<Longrightarrow> memb_used m' = insert i (memb_used m)"
  using memb_alloc_Some [of m i m'] by (auto simp: memb_used_def nth_list_update)

lemma memb_alloc_ok: "memb_ok m \<Longrightarrow> memb_alloc m = (r, m') \<Longrightarrow> memb_ok m'"
proof (cases r)
  case None
  then show "memb_ok m \<Longrightarrow> memb_alloc m = (r, m') \<Longrightarrow> memb_ok m'"
    by (auto simp: memb_alloc_def split: option.splits)
next
  case (Some i)
  assume "memb_ok m" and "memb_alloc m = (r, m')"
  with Some memb_alloc_Some [of m i m'] show "memb_ok m'"
    by (auto simp: memb_ok_def dest: set_update_subset_insert [THEN subsetD])
qed

lemma memb_alloc_None:
  assumes "memb_alloc m = (None, m')"
  shows "m' = m" and "memb_used m = {..<mnum m}"
proof -
  from assms have "alloc_loop (mcount m) 0 = None" and m': "m' = m"
    by (auto simp: memb_alloc_def split: option.splits)
  then show "m' = m" and "memb_used m = {..<mnum m}"
    by (auto simp: alloc_loop_None memb_used_def)
qed

lemma memb_free_ok:
  assumes "memb_ok m"
  shows "memb_ok (snd (memb_free m p))"
proof (cases "p < mnum m")
  case True
  with assms have "mcount m ! p = 0 \<or> mcount m ! p = 1" by (simp add: memb_ok_def)
  then have "snd (memb_free m p) = m\<lparr>mcount := (mcount m)[p := 0]\<rparr>"
  proof
    assume z: "mcount m ! p = 0"
    then have "(mcount m)[p := 0] = mcount m" by (metis list_update_id)
    with True z show ?thesis by (simp add: memb_free_def)
  next
    assume "mcount m ! p = 1"
    with True show ?thesis by (simp add: memb_free_def)
  qed
  with assms show ?thesis
    by (auto simp: memb_ok_def dest!: set_update_subset_insert [THEN subsetD])
next
  case False
  with assms show ?thesis by (simp add: memb_free_def)
qed

lemma memb_free_num [simp]: "mnum (snd (memb_free m p)) = mnum m"
  by (simp add: memb_free_def Let_def)

lemma memb_free_mem [simp]: "mmem (snd (memb_free m p)) = mmem m"
  by (simp add: memb_free_def Let_def)

lemma memb_free_used:
  assumes "memb_ok m"
  shows "memb_used (snd (memb_free m p)) = memb_used m - {p}"
proof (cases "p < mnum m")
  case True
  with assms have "mcount m ! p = 0 \<or> mcount m ! p = 1" by (simp add: memb_ok_def)
  with True show ?thesis
    by (auto simp: memb_free_def memb_used_def nth_list_update Let_def split: if_splits)
next
  case False
  then show ?thesis by (auto simp: memb_free_def memb_used_def)
qed

lemma memb_numfree_used: "memb_numfree m + card (memb_used m) = mnum m"
proof -
  have "length (filter (\<lambda>c. c = 0) cs) + length (filter (\<lambda>c. c \<noteq> 0) cs) = length cs" for cs :: "u8 list"
    by (induction cs) auto
  then show ?thesis
    by (simp add: memb_numfree_def memb_used_def length_filter_conv_card)
qed

section \<open>The interface of a block allocator\<close>

fun alloc_n :: "('m \<Rightarrow> nat option \<times> 'm) \<Rightarrow> nat \<Rightarrow> 'm \<Rightarrow> nat option list \<times> 'm" where
  "alloc_n alloc 0 m = ([], m)"
| "alloc_n alloc (Suc k) m =
     (case alloc m of (r, m1) \<Rightarrow> case alloc_n alloc k m1 of (rs, m2) \<Rightarrow> (r # rs, m2))"

locale block_pool =
  fixes invar :: "'m \<Rightarrow> bool"
    and alloc :: "'m \<Rightarrow> nat option \<times> 'm"
    and free :: "'m \<Rightarrow> nat \<Rightarrow> int \<times> 'm"
    and used :: "'m \<Rightarrow> nat set"
    and cap :: "'m \<Rightarrow> nat"
  assumes alloc_Some: "invar m \<Longrightarrow> alloc m = (Some i, m') \<Longrightarrow>
      i \<notin> used m \<and> used m' = insert i (used m) \<and> cap m' = cap m \<and> invar m'"
    and alloc_None: "invar m \<Longrightarrow> alloc m = (None, m') \<Longrightarrow> m' = m \<and> used m = {..<cap m}"
    and free_used: "invar m \<Longrightarrow>
      used (snd (free m p)) = used m - {p} \<and> cap (snd (free m p)) = cap m \<and> invar (snd (free m p))"
    and used_sub: "invar m \<Longrightarrow> used m \<subseteq> {..<cap m}"
begin

lemma alloc_succeeds:
  assumes "invar m" and "card (used m) < cap m"
  shows "\<exists>i m'. alloc m = (Some i, m')"
proof (cases "alloc m")
  case (Pair r m')
  with assms alloc_None [of m m'] show ?thesis by (cases r) auto
qed

lemma alloc_n_distinct:
  assumes "invar m" and "card (used m) + k \<le> cap m"
  shows "\<exists>ps m'. alloc_n alloc k m = (map Some ps, m') \<and> length ps = k \<and> distinct ps \<and>
           set ps \<inter> used m = {} \<and> used m' = used m \<union> set ps \<and> invar m'"
  using assms
proof (induction k arbitrary: m)
  case 0
  then show ?case by auto
next
  case (Suc k)
  obtain i m1 where a: "alloc m = (Some i, m1)"
    using alloc_succeeds [of m] Suc.prems by auto
  note m1 = alloc_Some [OF Suc.prems(1) a]
  have "finite (used m)" using used_sub [OF Suc.prems(1)] finite_subset by blast
  with m1 have "card (used m1) = Suc (card (used m))" by simp
  with m1 Suc.prems obtain ps m2 where
    "alloc_n alloc k m1 = (map Some ps, m2)" "length ps = k" "distinct ps"
    "set ps \<inter> used m1 = {}" "used m2 = used m1 \<union> set ps" "invar m2"
    using Suc.IH [of m1] by auto
  with a m1 have "alloc_n alloc (Suc k) m = (map Some (i # ps), m2) \<and> length (i # ps) = Suc k \<and>
      distinct (i # ps) \<and> set (i # ps) \<inter> used m = {} \<and> used m2 = used m \<union> set (i # ps) \<and> invar m2"
    by auto
  then show ?case by blast
qed

lemma free_alloc_used:
  assumes "invar m" and "alloc m = (Some i, m')"
  shows "used (snd (free m' i)) = used m"
  using alloc_Some [OF assms] free_used [of m' i] by auto

end

interpretation mb: block_pool memb_ok memb_alloc memb_free memb_used mnum
proof unfold_locales
  fix m m' :: "'a memb" and i
  assume "memb_ok m" and a: "memb_alloc m = (Some i, m')"
  then show "i \<notin> memb_used m \<and> memb_used m' = insert i (memb_used m) \<and> mnum m' = mnum m \<and> memb_ok m'"
    using memb_alloc_Some [OF a] memb_alloc_used [OF a] memb_alloc_ok by blast
next
  fix m m' :: "'a memb"
  assume "memb_alloc m = (None, m')"
  then show "m' = m \<and> memb_used m = {..<mnum m}" using memb_alloc_None by blast
next
  fix m :: "'a memb" and p
  assume "memb_ok m"
  then show "memb_used (snd (memb_free m p)) = memb_used m - {p} \<and>
      mnum (snd (memb_free m p)) = mnum m \<and> memb_ok (snd (memb_free m p))"
    by (simp add: memb_free_used memb_free_ok)
next
  show "memb_used m \<subseteq> {..<mnum m}" for m :: "'a memb" by (rule memb_used_bound)
qed

section \<open>Properties of the allocator\<close>

text \<open>
  As long as enough blocks are free, \<open>memb_alloc\<close> never fails: \<open>k\<close> calls return \<open>k\<close> distinct blocks
  that were not in use, and exactly these are in use afterwards.
\<close>

lemma memb_alloc_fresh:
  assumes "memb_ok m" and "card (memb_used m) + k \<le> mnum m"
  shows "\<exists>ps m'. alloc_n memb_alloc k m = (map Some ps, m') \<and> length ps = k \<and> distinct ps \<and>
           set ps \<inter> memb_used m = {} \<and> memb_used m' = memb_used m \<union> set ps \<and> memb_ok m'"
  by (rule mb.alloc_n_distinct [OF assms])

lemma memb_alloc_fresh_example:
  "\<exists>ps m'. alloc_n memb_alloc 2 (memb_init 0 \<lparr>mcount = [7, 7, 7], mmem = [1, 2, 3 :: nat]\<rparr>) = (map Some ps, m') \<and>
     distinct ps \<and> length ps = 2 \<and> memb_used m' = set ps"
proof -
  let ?m = "memb_init 0 \<lparr>mcount = [7, 7, 7], mmem = [1, 2, 3 :: nat]\<rparr>"
  have "card (memb_used ?m) + 2 \<le> mnum ?m" unfolding memb_init_used by (simp add: memb_init_def)
  from memb_alloc_fresh [OF memb_init_ok this] show ?thesis unfolding memb_init_used by auto
qed

text \<open>
  The count that \<open>memb_numfree\<close> reports is the number of blocks that are not in use, freeing a block
  that was just allocated restores the blocks in use, and a block outside the pool is refused.
\<close>

lemma memb_accounting:
  assumes "memb_ok m" and "memb_alloc m = (Some p, m')"
  shows "memb_numfree m + card (memb_used m) = mnum m \<and> memb_numfree m = Suc (memb_numfree m') \<and>
         memb_used (snd (memb_free m' p)) = memb_used m \<and> fst (memb_free m' (mnum m)) = -1"
proof -
  note a = mb.alloc_Some [OF assms]
  have "card (memb_used m') = Suc (card (memb_used m))" using a by simp
  then have "memb_numfree m = Suc (memb_numfree m')"
    using memb_numfree_used [of m] memb_numfree_used [of m'] a by simp
  then show ?thesis
    using memb_numfree_used [of m] mb.free_alloc_used [OF assms] a by (simp add: memb_free_def)
qed

lemma memb_accounting_example:
  "memb_numfree \<lparr>mcount = [1, 0], mmem = [10, 20 :: nat]\<rparr> = Suc (memb_numfree \<lparr>mcount = [1, 1], mmem = [10, 20 :: nat]\<rparr>)"
  using memb_accounting [of "\<lparr>mcount = [1, 0], mmem = [10, 20 :: nat]\<rparr>" 1 "\<lparr>mcount = [1, 1], mmem = [10, 20]\<rparr>"]
  by (simp add: memb_ok_def memb_alloc_def)

end
