(* ===== verification/Packetbuf.thy ===== *)
theory Packetbuf
  imports Prelude
begin

text \<open>
  The packet buffer \<^verbatim>\<open>src/core/net/packetbuf.c\<close>: one array of \<open>PACKETBUF_SIZE\<close> bytes with a header
  length, a read offset and a data length, and the packet attributes. A memory access outside the
  array is \<open>Fault OutOfBounds\<close>. The arithmetic is that of the target, whose \<^verbatim>\<open>int\<close> has 16 bits, so a
  comparison of an \<^verbatim>\<open>int\<close> with a \<^verbatim>\<open>uint16_t\<close> is one of unsigned 16-bit numbers.
\<close>

section \<open>Data\<close>

abbreviation PACKETBUF_SIZE :: nat where "PACKETBUF_SIZE \<equiv> 128"

text \<open>The attributes that the modelled code reads or writes; the remaining ones carry their number.\<close>

datatype pb_attr =
    ATTR_RSSI | ATTR_TIMESTAMP | ATTR_PACKET_TYPE | ATTR_DOAES | ATTR_XORPLAINTEXT_A
  | ATTR_XORPLAINTEXT_B | ATTR_MAX_MAC_TRANSMISSIONS | ATTR_MAC_SEQNO | ATTR_MAC_ACK | ATTR_PACKET_ID
  | ATTR_PENDING | ATTR_FRAME_TYPE | ATTR_SECURITY_LEVEL | ATTR_FRAME_COUNTER_BYTES_0_1
  | ATTR_FRAME_COUNTER_BYTES_2_3 | ATTR_KEY_ID_MODE | ATTR_KEY_INDEX | ATTR_KEY_SOURCE_BYTES_0_1
  | ATTR_OTHER nat

text \<open>The addresses by their distance from \<open>PACKETBUF_ADDR_FIRST\<close>.\<close>

abbreviation ADDR_SENDER :: nat where "ADDR_SENDER \<equiv> 0"
abbreviation ADDR_RECEIVER :: nat where "ADDR_RECEIVER \<equiv> 1"

record pbuf =
  pb_data :: "u8 list"
  pb_buflen :: u16
  pb_bufptr :: u16
  pb_hdrlen :: u8
  pb_attrs :: "pb_attr \<Rightarrow> u16"
  pb_addrs :: "nat \<Rightarrow> u16"

text \<open>\<open>memcpy\<close> out of and into the array.\<close>

definition get_bytes :: "nat \<Rightarrow> nat \<Rightarrow> u8 list \<Rightarrow> u8 list res" where
  "get_bytes off n mem = (if off + n \<le> length mem then Ok (take n (drop off mem)) else Fault OutOfBounds)"

definition put_bytes :: "nat \<Rightarrow> u8 list \<Rightarrow> u8 list \<Rightarrow> u8 list res" where
  "put_bytes off bs mem =
     (if off + length bs \<le> length mem
      then Ok (take off mem @ bs @ drop (off + length bs) mem) else Fault OutOfBounds)"

section \<open>Operations\<close>

definition packetbuf_attr_clear :: "pbuf \<Rightarrow> pbuf" where
  "packetbuf_attr_clear b = b\<lparr>pb_attrs := (\<lambda>_. 0), pb_addrs := (\<lambda>_. 0)\<rparr>"

definition packetbuf_clear :: "pbuf \<Rightarrow> pbuf" where
  "packetbuf_clear b = packetbuf_attr_clear (b\<lparr>pb_buflen := 0, pb_bufptr := 0, pb_hdrlen := 0\<rparr>)"

definition packetbuf_copyfrom :: "u8 list \<Rightarrow> u16 \<Rightarrow> pbuf \<Rightarrow> (nat \<times> pbuf) res" where
  "packetbuf_copyfrom from len b =
     (let b1 = packetbuf_clear b; l = min PACKETBUF_SIZE (unat len)
      in bindR (get_bytes 0 l from) (\<lambda>bs.
         bindR (put_bytes 0 bs (pb_data b1)) (\<lambda>mem.
           Ok (l, b1\<lparr>pb_data := mem, pb_buflen := of_nat l\<rparr>))))"

definition packetbuf_hdrlen :: "pbuf \<Rightarrow> u8" where
  "packetbuf_hdrlen b = ucast (pb_bufptr b + ucast (pb_hdrlen b))"

definition packetbuf_datalen :: "pbuf \<Rightarrow> u16" where
  "packetbuf_datalen b = pb_buflen b"

definition packetbuf_totlen :: "pbuf \<Rightarrow> u16" where
  "packetbuf_totlen b = ucast (packetbuf_hdrlen b) + packetbuf_datalen b"

definition packetbuf_remaininglen :: "pbuf \<Rightarrow> u16" where
  "packetbuf_remaininglen b = of_nat PACKETBUF_SIZE - packetbuf_totlen b"

definition packetbuf_set_datalen :: "u16 \<Rightarrow> pbuf \<Rightarrow> pbuf" where
  "packetbuf_set_datalen len b = b\<lparr>pb_buflen := len\<rparr>"

text \<open>The offset of the data in the array; the header starts at offset 0.\<close>

definition packetbuf_dataptr :: "pbuf \<Rightarrow> nat" where
  "packetbuf_dataptr b = unat (packetbuf_hdrlen b)"

text \<open>The shifting loops move one byte at a time, from the left end or from the right end.\<close>

definition move_byte :: "nat \<Rightarrow> nat \<Rightarrow> u8 list \<Rightarrow> u8 list res" where
  "move_byte src dst mem =
     (if src < length mem \<and> dst < length mem then Ok (mem[dst := mem ! src]) else Fault OutOfBounds)"

fun shift_left :: "nat \<Rightarrow> nat \<Rightarrow> nat \<Rightarrow> u8 list \<Rightarrow> u8 list res" where
  "shift_left src dst 0 mem = Ok mem"
| "shift_left src dst (Suc n) mem = bindR (move_byte src dst mem) (shift_left (Suc src) (Suc dst) n)"

fun shift_right :: "nat \<Rightarrow> nat \<Rightarrow> u8 list \<Rightarrow> u8 list res" where
  "shift_right n 0 mem = Ok mem"
| "shift_right n (Suc i) mem = bindR (move_byte i (i + n) mem) (shift_right n i)"

definition packetbuf_compact :: "pbuf \<Rightarrow> pbuf res" where
  "packetbuf_compact b =
     (if pb_bufptr b \<noteq> 0
      then bindR (shift_left (unat (packetbuf_hdrlen b)) (unat (pb_hdrlen b)) (unat (pb_buflen b)) (pb_data b))
             (\<lambda>mem. Ok (b\<lparr>pb_data := mem, pb_bufptr := 0\<rparr>))
      else Ok b)"

definition packetbuf_copyto :: "pbuf \<Rightarrow> u8 list res" where
  "packetbuf_copyto b =
     (if of_nat PACKETBUF_SIZE < ucast (pb_hdrlen b) + pb_buflen b then Ok []
      else bindR (get_bytes 0 (unat (pb_hdrlen b)) (pb_data b)) (\<lambda>hdr.
           bindR (get_bytes (packetbuf_dataptr b) (unat (pb_buflen b)) (pb_data b)) (\<lambda>bs.
             Ok (hdr @ bs))))"

definition packetbuf_hdralloc :: "u16 \<Rightarrow> pbuf \<Rightarrow> (bool \<times> pbuf) res" where
  "packetbuf_hdralloc sz b =
     (if of_nat PACKETBUF_SIZE < sz + packetbuf_totlen b then Ok (False, b)
      else bindR (shift_right (unat sz) (unat (packetbuf_totlen b)) (pb_data b)) (\<lambda>mem.
             Ok (True, b\<lparr>pb_data := mem, pb_hdrlen := pb_hdrlen b + ucast sz\<rparr>)))"

definition packetbuf_hdrreduce :: "u16 \<Rightarrow> pbuf \<Rightarrow> bool \<times> pbuf" where
  "packetbuf_hdrreduce sz b =
     (if pb_buflen b < sz then (False, b)
      else (True, b\<lparr>pb_bufptr := pb_bufptr b + sz, pb_buflen := pb_buflen b - sz\<rparr>))"

definition packetbuf_set_attr :: "pb_attr \<Rightarrow> u16 \<Rightarrow> pbuf \<Rightarrow> pbuf" where
  "packetbuf_set_attr type val b = b\<lparr>pb_attrs := (pb_attrs b)(type := val)\<rparr>"

definition packetbuf_attr :: "pb_attr \<Rightarrow> pbuf \<Rightarrow> u16" where
  "packetbuf_attr type b = pb_attrs b type"

definition packetbuf_set_addr :: "nat \<Rightarrow> u16 \<Rightarrow> pbuf \<Rightarrow> pbuf" where
  "packetbuf_set_addr type addr b = b\<lparr>pb_addrs := (pb_addrs b)(type := addr)\<rparr>"

definition packetbuf_addr :: "nat \<Rightarrow> pbuf \<Rightarrow> u16" where
  "packetbuf_addr type b = pb_addrs b type"

definition packetbuf_holds_broadcast :: "pbuf \<Rightarrow> bool" where
  "packetbuf_holds_broadcast b \<longleftrightarrow> pb_addrs b ADDR_RECEIVER = 0"

definition packetbuf_attr_copyto :: "pbuf \<Rightarrow> (pb_attr \<Rightarrow> u16) \<times> (nat \<Rightarrow> u16)" where
  "packetbuf_attr_copyto b = (pb_attrs b, pb_addrs b)"

definition packetbuf_attr_copyfrom :: "(pb_attr \<Rightarrow> u16) \<Rightarrow> (nat \<Rightarrow> u16) \<Rightarrow> pbuf \<Rightarrow> pbuf" where
  "packetbuf_attr_copyfrom attrs addrs b = b\<lparr>pb_attrs := attrs, pb_addrs := addrs\<rparr>"

section \<open>Bytes\<close>

text \<open>A 16-bit number in memory, low byte first.\<close>

definition enc_u16 :: "u16 \<Rightarrow> u8 list" where
  "enc_u16 x = [ucast x, ucast (drop_bit 8 x)]"

definition dec_u16 :: "u8 list \<Rightarrow> u16" where
  "dec_u16 bs = ucast (bs ! 0) + push_bit 8 (ucast (bs ! 1))"

lemma dec_enc_u16 [simp]: "dec_u16 (enc_u16 x) = x"
proof (rule bit_word_eqI)
  fix n
  assume "n < LENGTH(16)"
  then have n: "n < 16" by simp
  have disj: "and (ucast (ucast x :: u8)) (push_bit 8 (ucast (ucast (drop_bit 8 x) :: u8))) = (0 :: u16)"
    by (rule bit_word_eqI) (auto simp: bit_simps)
  have "dec_u16 (enc_u16 x) = or (ucast (ucast x :: u8)) (push_bit 8 (ucast (ucast (drop_bit 8 x) :: u8)))"
    using disj by (simp add: dec_u16_def enc_u16_def disjunctive_add_eq_or)
  with n show "bit (dec_u16 (enc_u16 x)) n = bit x n" by (auto simp: bit_simps)
qed

lemma length_enc_u16 [simp]: "length (enc_u16 x) = 2"
  by (simp add: enc_u16_def)

section \<open>Well-formed buffers\<close>

text \<open>Header, gap and data fit into the array, so no length computation wraps around.\<close>

definition pbuf_ok :: "pbuf \<Rightarrow> bool" where
  "pbuf_ok b \<longleftrightarrow> length (pb_data b) = PACKETBUF_SIZE \<and>
     unat (pb_bufptr b) + unat (pb_hdrlen b) + unat (pb_buflen b) \<le> PACKETBUF_SIZE"

text \<open>The header and the data that a buffer holds.\<close>

definition pb_header :: "pbuf \<Rightarrow> u8 list" where
  "pb_header b = take (unat (pb_hdrlen b)) (pb_data b)"

definition pb_payload :: "pbuf \<Rightarrow> u8 list" where
  "pb_payload b = take (unat (pb_buflen b)) (drop (packetbuf_dataptr b) (pb_data b))"

lemma unat_ucast_u8_u16 [simp]: "unat (ucast (x :: u8) :: u16) = unat x"
  by (rule unat_ucast_up) simp

lemma packetbuf_dataptr_eq:
  assumes "pbuf_ok b"
  shows "packetbuf_dataptr b = unat (pb_bufptr b) + unat (pb_hdrlen b)"
proof -
  have "unat (pb_bufptr b + ucast (pb_hdrlen b) :: u16) = unat (pb_bufptr b) + unat (pb_hdrlen b)"
    using assms by (subst unat_plus_simple [THEN iffD1]) (auto simp: pbuf_ok_def word_le_nat_alt unat_word_ariths no_olen_add_nat)
  with assms show ?thesis
    by (simp add: packetbuf_dataptr_def packetbuf_hdrlen_def pbuf_ok_def unat_ucast_mod)
qed

lemma packetbuf_totlen_eq:
  assumes "pbuf_ok b"
  shows "unat (packetbuf_totlen b) = unat (pb_bufptr b) + unat (pb_hdrlen b) + unat (pb_buflen b)"
  using assms packetbuf_dataptr_eq [OF assms]
  by (simp add: packetbuf_totlen_def packetbuf_datalen_def packetbuf_dataptr_def unat_word_ariths pbuf_ok_def)

lemma packetbuf_clear_ok: "length (pb_data b) = PACKETBUF_SIZE \<Longrightarrow> pbuf_ok (packetbuf_clear b)"
  by (simp add: pbuf_ok_def packetbuf_clear_def packetbuf_attr_clear_def)

lemma packetbuf_hdrreduce_ok:
  assumes "pbuf_ok b"
  shows "pbuf_ok (snd (packetbuf_hdrreduce sz b))"
proof (cases "pb_buflen b < sz")
  case True
  then show ?thesis using assms by (simp add: packetbuf_hdrreduce_def)
next
  case False
  then have le: "unat sz \<le> unat (pb_buflen b)" by (simp add: word_le_nat_alt not_less)
  then have "unat (pb_bufptr b + sz) = unat (pb_bufptr b) + unat sz"
    using assms by (simp add: unat_word_ariths pbuf_ok_def)
  moreover have "unat (pb_buflen b - sz) = unat (pb_buflen b) - unat sz"
    using le by (simp add: unat_sub word_le_nat_alt)
  ultimately show ?thesis using False le assms by (simp add: packetbuf_hdrreduce_def pbuf_ok_def)
qed

section \<open>Moving bytes\<close>

text \<open>What the shifting loops leave in the array.\<close>

lemma shift_left_eq:
  assumes "src + n \<le> length mem" and "dst < src"
  shows "shift_left src dst n mem =
           Ok (take dst mem @ take n (drop src mem) @ drop (dst + n) mem)"
  using assms
proof (induction n arbitrary: src dst mem)
  case 0
  then show ?case by simp
next
  case (Suc n)
  let ?m = "mem[dst := mem ! src]"
  have "shift_left (Suc src) (Suc dst) n ?m =
      Ok (take (Suc dst) ?m @ take n (drop (Suc src) ?m) @ drop (Suc dst + n) ?m)"
    using Suc.prems by (intro Suc.IH) simp_all
  moreover have "take (Suc dst) ?m = take dst mem @ [mem ! src]"
    using Suc.prems by (simp add: take_Suc_conv_app_nth)
  moreover have "drop (Suc src) ?m = drop (Suc src) mem" and "drop (Suc dst + n) ?m = drop (Suc dst + n) mem"
    using Suc.prems by (simp_all add: drop_update_cancel)
  moreover have "mem ! src # take n (drop (Suc src) mem) = take (Suc n) (drop src mem)"
  proof -
    have "src < length mem" using Suc.prems by simp
    then have "drop src mem = mem ! src # drop (Suc src) mem" by (simp add: Cons_nth_drop_Suc)
    then show ?thesis by simp
  qed
  ultimately show ?case using Suc.prems by (simp add: move_byte_def)
qed

lemma shift_right_eq:
  assumes "i + n \<le> length mem"
  shows "\<exists>mem'. shift_right n i mem = Ok mem' \<and> length mem' = length mem \<and>
           take i (drop n mem') = take i mem \<and> drop (n + i) mem' = drop (n + i) mem"
  using assms
proof (induction i arbitrary: mem)
  case 0
  then show ?case by simp
next
  case (Suc i)
  let ?m = "mem[i + n := mem ! i]"
  from Suc.prems obtain mem' where m': "shift_right n i ?m = Ok mem'" "length mem' = length ?m"
      "take i (drop n mem') = take i ?m" "drop (n + i) mem' = drop (n + i) ?m"
    using Suc.IH [of ?m] by auto
  have hd: "drop (n + i) ?m = mem ! i # drop (n + Suc i) mem"
    using Suc.prems by (simp add: drop_update_swap add.commute Cons_nth_drop_Suc [symmetric])
  have len: "n + i < length mem" using Suc.prems by simp
  have ith: "mem' ! (n + i) = mem ! i"
    using m'(2,4) hd len by (metis length_list_update nth_Cons_0 Cons_nth_drop_Suc)
  have "take (Suc i) (drop n mem') = take i (drop n mem') @ [mem' ! (n + i)]"
    using m'(2) len by (simp add: take_Suc_conv_app_nth)
  also have "\<dots> = take (Suc i) mem"
    using m'(3) ith Suc.prems by (cases "n = 0") (simp_all add: take_Suc_conv_app_nth)
  finally have "take (Suc i) (drop n mem') = take (Suc i) mem" .
  moreover have "drop (n + Suc i) mem' = drop (n + Suc i) mem"
  proof -
    have "drop 1 (drop (n + i) mem') = drop (n + Suc i) mem" using m'(4) hd by simp
    then show ?thesis by simp
  qed
  ultimately show ?case using m'(1,2) Suc.prems by (simp add: move_byte_def)
qed

section \<open>What the buffer operations promise\<close>

lemma copyfrom_eq:
  assumes "length (pb_data b) = PACKETBUF_SIZE" and "unat len \<le> PACKETBUF_SIZE" and "length frame = unat len"
  shows "packetbuf_copyfrom frame len b =
     Ok (unat len, (packetbuf_clear b)\<lparr>pb_data := frame @ drop (unat len) (pb_data b), pb_buflen := len\<rparr>)"
  using assms by (simp add: packetbuf_copyfrom_def get_bytes_def put_bytes_def Let_def
      packetbuf_clear_def packetbuf_attr_clear_def min_def)

lemma hdrreduce_payload:
  assumes "pbuf_ok b" and "sz \<le> pb_buflen b"
  shows "pb_payload (snd (packetbuf_hdrreduce sz b)) = drop (unat sz) (pb_payload b)"
proof -
  let ?b = "snd (packetbuf_hdrreduce sz b)"
  have le: "unat sz \<le> unat (pb_buflen b)" using assms(2) by (simp add: word_le_nat_alt)
  have b: "?b = b\<lparr>pb_bufptr := pb_bufptr b + sz, pb_buflen := pb_buflen b - sz\<rparr>"
    using assms(2) by (simp add: packetbuf_hdrreduce_def not_less)
  have ok: "pbuf_ok ?b" using assms(1) by (rule packetbuf_hdrreduce_ok)
  have "unat (pb_bufptr b + sz) = unat (pb_bufptr b) + unat sz"
    using assms(1) le by (simp add: unat_word_ariths pbuf_ok_def)
  moreover have "unat (pb_buflen b - sz) = unat (pb_buflen b) - unat sz"
    using assms(2) by (simp add: unat_sub)
  ultimately have "packetbuf_dataptr ?b = packetbuf_dataptr b + unat sz"
    using packetbuf_dataptr_eq [OF assms(1)] packetbuf_dataptr_eq [OF ok] b by simp
  with \<open>unat (pb_buflen b - sz) = unat (pb_buflen b) - unat sz\<close> show ?thesis
    by (simp add: pb_payload_def b drop_take add.commute)
qed

section \<open>Properties of the packet buffer\<close>

text \<open>
  A frame that is copied into the packet buffer is what \<open>packetbuf_copyto\<close> copies out of it, and
  after \<open>packetbuf_hdrreduce\<close> the payload is the frame without its header.
\<close>

lemma packetbuf_round_trip:
  assumes "length (pb_data b) = PACKETBUF_SIZE" and "unat len \<le> PACKETBUF_SIZE" and "length frame = unat len"
    and "sz \<le> len"
  shows "\<exists>b'. packetbuf_copyfrom frame len b = Ok (unat len, b') \<and> packetbuf_copyto b' = Ok frame \<and>
           pb_payload (snd (packetbuf_hdrreduce sz b')) = drop (unat sz) frame"
proof -
  let ?b = "(packetbuf_clear b)\<lparr>pb_data := frame @ drop (unat len) (pb_data b), pb_buflen := len\<rparr>"
  have ok: "pbuf_ok ?b"
    using assms by (simp add: pbuf_ok_def packetbuf_clear_def packetbuf_attr_clear_def)
  have ptr: "packetbuf_dataptr ?b = 0"
    using packetbuf_dataptr_eq [OF ok] by (simp add: packetbuf_clear_def packetbuf_attr_clear_def)
  have "\<not> 128 < len" using assms(2) by (simp add: word_less_nat_alt)
  then have "packetbuf_copyto ?b = Ok frame"
    using assms ptr by (simp add: packetbuf_copyto_def get_bytes_def packetbuf_clear_def packetbuf_attr_clear_def)
  moreover have "pb_payload ?b = frame" using assms ptr by (simp add: pb_payload_def)
  ultimately show ?thesis
    using copyfrom_eq [OF assms(1-3)] hdrreduce_payload [OF ok, of sz] assms(4) by simp
qed

lemma packetbuf_round_trip_example:
  "\<exists>b'. packetbuf_copyfrom [1, 2, 3] 3 \<lparr>pb_data = replicate 128 0, pb_buflen = 9, pb_bufptr = 4, pb_hdrlen = 2,
     pb_attrs = (\<lambda>_. 0), pb_addrs = (\<lambda>_. 0)\<rparr> = Ok (3, b') \<and>
     pb_payload (snd (packetbuf_hdrreduce 1 b')) = [2, 3]"
  using packetbuf_round_trip [of "\<lparr>pb_data = replicate 128 0, pb_buflen = 9, pb_bufptr = 4, pb_hdrlen = 2,
     pb_attrs = (\<lambda>_. 0), pb_addrs = (\<lambda>_. 0)\<rparr>" 3 "[1, 2, 3]" 1] by auto

text \<open>
  Making room for a header never damages the packet: when \<open>packetbuf_hdralloc\<close> succeeds on a buffer
  without a gap, the payload is unchanged and the old header follows the new space; it succeeds exactly
  when the packet and the header fit, and otherwise changes nothing.
\<close>

lemma hdralloc_keeps_packet:
  assumes ok: "pbuf_ok b" and gap: "pb_bufptr b = 0" and sz: "unat sz < 65408"
  shows "if unat sz + unat (pb_hdrlen b) + unat (pb_buflen b) \<le> PACKETBUF_SIZE
         then \<exists>b'. packetbuf_hdralloc sz b = Ok (True, b') \<and> pbuf_ok b' \<and> pb_payload b' = pb_payload b \<and>
                drop (unat sz) (pb_header b') = pb_header b
         else packetbuf_hdralloc sz b = Ok (False, b)"
proof -
  let ?h = "unat (pb_hdrlen b)" and ?n = "unat (pb_buflen b)"
  have tot: "unat (packetbuf_totlen b) = ?h + ?n" using packetbuf_totlen_eq [OF ok] gap by simp
  have bound: "?h + ?n \<le> 128" using ok gap by (simp add: pbuf_ok_def)
  have sum: "unat (sz + packetbuf_totlen b) = unat sz + (?h + ?n)"
    using sz bound tot by (simp add: unat_word_ariths)
  have test: "of_nat PACKETBUF_SIZE < sz + packetbuf_totlen b \<longleftrightarrow> \<not> unat sz + ?h + ?n \<le> PACKETBUF_SIZE"
    using sum by (auto simp: word_less_nat_alt)
  show ?thesis
  proof (cases "unat sz + ?h + ?n \<le> PACKETBUF_SIZE")
    case False
    then show ?thesis using test by (auto simp: packetbuf_hdralloc_def)
  next
    case True
    have "(?h + ?n) + unat sz \<le> length (pb_data b)" using True ok by (simp add: pbuf_ok_def)
    from shift_right_eq [OF this] obtain mem where
      mem: "shift_right (unat sz) (?h + ?n) (pb_data b) = Ok mem" "length mem = length (pb_data b)"
        "take (?h + ?n) (drop (unat sz) mem) = take (?h + ?n) (pb_data b)" by blast
    let ?b = "b\<lparr>pb_data := mem, pb_hdrlen := pb_hdrlen b + ucast sz\<rparr>"
    have hl: "unat (pb_hdrlen b + ucast sz) = ?h + unat sz"
      using True by (simp add: unat_word_ariths unat_ucast_mod)
    have ok': "pbuf_ok ?b" using ok True hl mem(2) gap by (simp add: pbuf_ok_def)
    have "take ?n (drop ?h (take (?h + ?n) (drop (unat sz) mem))) = take ?n (drop ?h (take (?h + ?n) (pb_data b)))"
      using mem(3) by simp
    then have pay: "take ?n (drop (?h + unat sz) mem) = take ?n (drop ?h (pb_data b))"
      by (simp add: drop_take)
    have "take ?h (take (?h + ?n) (drop (unat sz) mem)) = take ?h (take (?h + ?n) (pb_data b))"
      using mem(3) by simp
    then have hdr: "take ?h (drop (unat sz) mem) = take ?h (pb_data b)" by (simp add: min_def)
    have "packetbuf_hdralloc sz b = Ok (True, ?b)"
      using test True mem(1) tot by (simp add: packetbuf_hdralloc_def)
    moreover have "pb_payload ?b = pb_payload b"
      using pay hl gap packetbuf_dataptr_eq [OF ok] packetbuf_dataptr_eq [OF ok'] by (simp add: pb_payload_def)
    moreover have "drop (unat sz) (pb_header ?b) = pb_header b"
      using hdr hl by (simp add: pb_header_def drop_take)
    ultimately show ?thesis using True ok' by auto
  qed
qed

lemma hdralloc_keeps_packet_example:
  "\<exists>b'. packetbuf_hdralloc 3 \<lparr>pb_data = [1, 2] @ replicate 126 0, pb_buflen = 2, pb_bufptr = 0, pb_hdrlen = 0,
     pb_attrs = (\<lambda>_. 0), pb_addrs = (\<lambda>_. 0)\<rparr> = Ok (True, b') \<and> pb_payload b' = [1, 2]"
  using hdralloc_keeps_packet [of "\<lparr>pb_data = [1, 2] @ replicate 126 0, pb_buflen = 2, pb_bufptr = 0, pb_hdrlen = 0,
     pb_attrs = (\<lambda>_. 0), pb_addrs = (\<lambda>_. 0)\<rparr>" 3]
  by (auto simp: pbuf_ok_def pb_payload_def packetbuf_dataptr_def packetbuf_hdrlen_def)

end
