(* ===== verification/C_Double.thy ===== *)
theory C_Double
  imports Prelude Complex_Main
begin

text \<open>
  The type \<^verbatim>\<open>double\<close> of the sources. The values are the finite numbers, the two infinities and the
  not-a-number value. C leaves the accuracy of floating-point arithmetic to the implementation (the
  MSP430 compiler has doubles of 32 bits, other targets of 64), so the rounding of an exact result
  is a parameter of every operation: \<open>fp_rnd\<close> maps the exact result to a \<open>double\<close>, which is an
  infinity on overflow. A conversion to an integer type truncates towards zero; where the value does
  not fit C gives no result, and the parameter \<open>fp_ovf\<close> supplies one. Signed zeros are not
  distinguished.
\<close>

datatype dbl = Fin rat | PInf | NInf | NaN

record fp_env =
  fp_rnd :: "rat \<Rightarrow> dbl"
  fp_ovf :: "dbl \<Rightarrow> int"

text \<open>Exact arithmetic, the instance that witnesses use.\<close>

definition fp_exact :: fp_env where
  "fp_exact = \<lparr>fp_rnd = Fin, fp_ovf = (\<lambda>_. 0)\<rparr>"

definition d_of_int :: "fp_env \<Rightarrow> int \<Rightarrow> dbl" where
  "d_of_int fp i = fp_rnd fp (of_int i)"

fun d_add :: "fp_env \<Rightarrow> dbl \<Rightarrow> dbl \<Rightarrow> dbl" where
  "d_add fp (Fin a) (Fin b) = fp_rnd fp (a + b)"
| "d_add fp NaN _ = NaN"
| "d_add fp _ NaN = NaN"
| "d_add fp PInf NInf = NaN"
| "d_add fp NInf PInf = NaN"
| "d_add fp PInf _ = PInf"
| "d_add fp _ PInf = PInf"
| "d_add fp NInf _ = NInf"
| "d_add fp _ NInf = NInf"

fun d_neg :: "dbl \<Rightarrow> dbl" where
  "d_neg (Fin a) = Fin (- a)"
| "d_neg PInf = NInf"
| "d_neg NInf = PInf"
| "d_neg NaN = NaN"

definition d_sub :: "fp_env \<Rightarrow> dbl \<Rightarrow> dbl \<Rightarrow> dbl" where
  "d_sub fp a b = d_add fp a (d_neg b)"

text \<open>The infinity with the sign of a nonzero finite number.\<close>

definition d_inf :: "rat \<Rightarrow> dbl" where
  "d_inf a = (if 0 < a then PInf else NInf)"

fun d_mul :: "fp_env \<Rightarrow> dbl \<Rightarrow> dbl \<Rightarrow> dbl" where
  "d_mul fp (Fin a) (Fin b) = fp_rnd fp (a * b)"
| "d_mul fp NaN _ = NaN"
| "d_mul fp _ NaN = NaN"
| "d_mul fp (Fin a) PInf = (if a = 0 then NaN else d_inf a)"
| "d_mul fp (Fin a) NInf = (if a = 0 then NaN else d_inf (- a))"
| "d_mul fp PInf (Fin b) = (if b = 0 then NaN else d_inf b)"
| "d_mul fp NInf (Fin b) = (if b = 0 then NaN else d_inf (- b))"
| "d_mul fp PInf PInf = PInf"
| "d_mul fp NInf NInf = PInf"
| "d_mul fp PInf NInf = NInf"
| "d_mul fp NInf PInf = NInf"

fun d_div :: "fp_env \<Rightarrow> dbl \<Rightarrow> dbl \<Rightarrow> dbl" where
  "d_div fp (Fin a) (Fin b) =
     (if b = 0 then (if a = 0 then NaN else d_inf a) else fp_rnd fp (a / b))"
| "d_div fp NaN _ = NaN"
| "d_div fp _ NaN = NaN"
| "d_div fp (Fin a) PInf = Fin 0"
| "d_div fp (Fin a) NInf = Fin 0"
| "d_div fp PInf (Fin b) = (if b < 0 then NInf else PInf)"
| "d_div fp NInf (Fin b) = (if b < 0 then PInf else NInf)"
| "d_div fp _ _ = NaN"

text \<open>Comparison: false as soon as one operand is not a number.\<close>

fun d_less :: "dbl \<Rightarrow> dbl \<Rightarrow> bool" where
  "d_less (Fin a) (Fin b) = (a < b)"
| "d_less NInf (Fin _) = True"
| "d_less NInf PInf = True"
| "d_less (Fin _) PInf = True"
| "d_less _ _ = False"

definition d_is_zero :: "dbl \<Rightarrow> bool" where
  "d_is_zero a \<longleftrightarrow> a = Fin 0"

text \<open>Truncation towards zero, and the conversions to the integer types.\<close>

definition rat_trunc :: "rat \<Rightarrow> int" where
  "rat_trunc q = (if 0 \<le> q then \<lfloor>q\<rfloor> else \<lceil>q\<rceil>)"

definition d_to_int :: "fp_env \<Rightarrow> int \<Rightarrow> int \<Rightarrow> dbl \<Rightarrow> int" where
  "d_to_int fp lo hi d = (case d of
       Fin q \<Rightarrow> (if lo \<le> rat_trunc q \<and> rat_trunc q \<le> hi then rat_trunc q else fp_ovf fp d)
     | _ \<Rightarrow> fp_ovf fp d)"

definition d_to_u16 :: "fp_env \<Rightarrow> dbl \<Rightarrow> u16" where
  "d_to_u16 fp d = word_of_int (d_to_int fp 0 65535 d)"

definition d_to_u32 :: "fp_env \<Rightarrow> dbl \<Rightarrow> u32" where
  "d_to_u32 fp d = word_of_int (d_to_int fp 0 4294967295 d)"

section \<open>Representable numbers\<close>

text \<open>
  \<open>fp_repr fp q\<close>: the exact result \<open>q\<close> is representable, so rounding keeps it. It holds of every
  32-bit integer and half-integer in binary64.
\<close>

definition fp_repr :: "fp_env \<Rightarrow> rat \<Rightarrow> bool" where
  "fp_repr fp q \<longleftrightarrow> fp_rnd fp q = Fin q"

text \<open>
  What the clock needs of the arithmetic: numbers up to \<open>2 ^ 28\<close> are rounded by at most 8, and 1/2 and 3/2 are exact. It holds of
  binary64, and of binary32, which has a distance of 16 between neighbouring numbers from \<open>2 ^ 27\<close> to \<open>2 ^ 28\<close>. \<open>fp_sixteen\<close>, an arithmetic that is coarser
  than binary32 for the numbers in question, is an instance.
\<close>

definition fp_near :: "fp_env \<Rightarrow> bool" where
  "fp_near fp \<longleftrightarrow> fp_repr fp (1 / 2) \<and> fp_repr fp (3 / 2) \<and>
     (\<forall>q. 0 \<le> q \<and> q \<le> 2 ^ 28 \<longrightarrow> (\<exists>r. fp_rnd fp q = Fin r \<and> \<bar>r - q\<bar> \<le> 8))"

definition fp_sixteen :: fp_env where
  "fp_sixteen = \<lparr>fp_rnd = (\<lambda>q. if q < 2 ^ 24 then Fin q else Fin (16 * of_int \<lfloor>q / 16 + 1 / 2\<rfloor>)), fp_ovf = (\<lambda>_. 0)\<rparr>"

lemma fp_exact_rnd [simp]: "fp_rnd fp_exact = Fin"
  by (simp add: fp_exact_def)

lemma fp_exact_repr [simp]: "fp_repr fp_exact q"
  by (simp add: fp_repr_def)

lemma fp_near_sixteen: "fp_near fp_sixteen"
proof -
  have "\<bar>16 * rat_of_int \<lfloor>q / 16 + 1 / 2\<rfloor> - q\<bar> \<le> 8" for q :: rat
    using floor_correct [of "q / 16 + 1 / 2"] by linarith
  then show ?thesis by (simp add: fp_near_def fp_sixteen_def fp_repr_def)
qed

lemma fp_near_exact: "fp_near fp_exact"
  by (simp add: fp_near_def)

lemma fp_nearE:
  assumes "fp_near fp" "0 \<le> q" "q \<le> 2 ^ 28"
  obtains r where "fp_rnd fp q = Fin r" "\<bar>r - q\<bar> \<le> 8"
  using assms unfolding fp_near_def by blast

lemma rat_trunc_of_int [simp]: "rat_trunc (of_int i) = i"
  by (simp add: rat_trunc_def)

lemma rat_trunc_mono_bound: "0 \<le> q \<Longrightarrow> of_int (rat_trunc q) \<le> q \<and> q < of_int (rat_trunc q) + 1"
  unfolding rat_trunc_def by simp linarith

lemma d_to_int_Fin:
  "lo \<le> rat_trunc q \<Longrightarrow> rat_trunc q \<le> hi \<Longrightarrow> d_to_int fp lo hi (Fin q) = rat_trunc q"
  by (simp add: d_to_int_def)

end
