(* ===== verification/Rtimer.thy ===== *)
theory Rtimer
  imports C_Double
begin

unbundle bit_operations_syntax

text \<open>
  The real-time timer of C-sync, \<^verbatim>\<open>src/cpu/msp430/f1xxx/rtimer.c\<close> with the declarations of
  \<^verbatim>\<open>src/core/sys/rtimer.h\<close>, and the clock-rate measurement of \<^verbatim>\<open>src/cpu/msp430/f1xxx/clock.c\<close>.
  The hardware (dual) time of a node is the pair of \<open>coarse_count\<close> and the fine count computed from
  the captures of timers A and B; the logical time adds \<open>fine_offset\<close> to it.

  The capture registers are inputs: the state carries the sequence of register snapshots that the
  hardware will show, and each pass through a capture loop consumes one. The reads of one pass see
  one snapshot. A busy-wait on a flag that is set cannot end without an interrupt that clears
  it; no handler of the sources does, so such a wait is \<open>Fault Diverge\<close>.
\<close>

section \<open>Data\<close>

abbreviation RTIMER_AB_RESOLUTION :: u16 where "RTIMER_AB_RESOLUTION \<equiv> 1024"
abbreviation RTIMER_AB_UPDATE :: u16 where "RTIMER_AB_UPDATE \<equiv> 4"
abbreviation RTIMER_FINE_MAX :: u32 where "RTIMER_FINE_MAX \<equiv> 67108863"
abbreviation RTIMER_SCHEDULE_SAFETY_MARGIN :: u32 where "RTIMER_SCHEDULE_SAFETY_MARGIN \<equiv> 2000"

datatype rtimer_state_t =
  RTIMER_JUST_EXPIRED | RTIMER_INACTIVE | RTIMER_SCHEDULED | RTIMER_SINGLEPASS

fun rtimer_state_num :: "rtimer_state_t \<Rightarrow> nat" where
  "rtimer_state_num RTIMER_JUST_EXPIRED = 0"
| "rtimer_state_num RTIMER_INACTIVE = 1"
| "rtimer_state_num RTIMER_SCHEDULED = 2"
| "rtimer_state_num RTIMER_SINGLEPASS = 3"

datatype rtimer_scheduletype_t = RTIMER_DATE | RTIMER_INTERVAL_NOW | RTIMER_INTERVAL_REF

text \<open>The functions that the program installs as timer callbacks.\<close>

datatype rtimer_callback_t =
    cb_null | cb_election_revelation | cb_election_declaration | cb_connection_revelation
  | cb_connection_declaration | cb_convergence | cb_convergence_slot | cb_consensus_revelation
  | cb_consensus_synchronization | cb_synchronization_slot | cb_idle | cb_discovery

record rtimer_t =
  time_coarse_lg :: u32
  time_fine_lg :: u32
  time_coarse_hw :: u32
  time_fine_hw :: u32
  rt_ta :: u16
  rt_tb :: u16
  rt_func :: rtimer_callback_t
  rt_state :: rtimer_state_t

definition rtimer_zero :: rtimer_t where
  "rtimer_zero = \<lparr>time_coarse_lg = 0, time_fine_lg = 0, time_coarse_hw = 0, time_fine_hw = 0,
     rt_ta = 0, rt_tb = 0, rt_func = cb_null, rt_state = RTIMER_JUST_EXPIRED\<rparr>"

record timesync_frame_t =
  sf_coarse_now :: u32
  sf_fine_offset :: u32
  sf_clock_rate :: dbl
  sf_avg_rate :: dbl
  sf_ta :: u16
  sf_tb :: u16
  sf_ta_compare :: u16
  sf_tb_compare :: u16
  sf_hw_mac_timestamp :: u16

text \<open>The registers as one pass of a capture loop sees them.\<close>

record snapshot =
  s_TACCR0 :: u16
  s_TBCCR0 :: u16
  s_last_tbcrr0 :: u16
  s_TACCR1 :: u16
  s_TBCCR3 :: u16

text \<open>The time stamps of one capture.\<close>

record stamps =
  st_ta :: u16
  st_tb :: u16
  st_ta_compare :: u16
  st_tb_compare :: u16
  st_rate :: dbl

record rtimer_sys =
  coarse_count :: u32
  avg_rate :: dbl
  coarse_offset_ref :: u32
  fine_offset_ref :: u32
  fine_offset :: u32
  scheduler_fine_offset_ref :: u32
  scheduler_occupied :: bool
  coarse_schedule_ref :: u32
  fine_schedule_ref :: u32
  rt :: "rtimer_t list"
  clock_occupied :: bool
  clock_priority :: bool
  TACCR2 :: u16
  TACCTL2_CCIE :: bool
  TBCCR4 :: u16
  TBCCTL4_CCIE :: bool
  TBCCR5 :: u16
  TBCCTL5_CCIE :: bool
  hw :: "snapshot list"

section \<open>Initialisation and accessors\<close>

definition rtimer_init :: "rtimer_sys \<Rightarrow> rtimer_sys" where
  "rtimer_init s = s\<lparr>coarse_count := 0, avg_rate := Fin 0, coarse_offset_ref := 0,
     fine_offset_ref := 0, scheduler_occupied := False, coarse_schedule_ref := 0,
     fine_schedule_ref := 0, fine_offset := RTIMER_FINE_MAX,
     scheduler_fine_offset_ref := RTIMER_FINE_MAX, rt := [rtimer_zero, rtimer_zero]\<rparr>"

definition rtimer_coarse_now :: "rtimer_sys \<Rightarrow> u32" where
  "rtimer_coarse_now s = coarse_count s"

definition rtimer_fine_offset :: "rtimer_sys \<Rightarrow> u32" where
  "rtimer_fine_offset s = fine_offset s"

definition rtimer_avg_rate :: "rtimer_sys \<Rightarrow> dbl" where
  "rtimer_avg_rate s = avg_rate s"

definition rtimer_set_avg_rate :: "dbl \<Rightarrow> rtimer_sys \<Rightarrow> rtimer_sys" where
  "rtimer_set_avg_rate rate s = s\<lparr>avg_rate := rate\<rparr>"

definition rtimer_diff :: "i32 \<Rightarrow> i32 \<Rightarrow> i32" where
  "rtimer_diff time_a time_b = time_a - time_b"

section \<open>From time stamps to the fine time\<close>

text \<open>The loop \<^verbatim>\<open>while(tb_compare > tb)\<close>; both values grow by 1024 and wrap around.\<close>

partial_function (option) tb_loop :: "u16 \<Rightarrow> u16 \<Rightarrow> (u16 \<times> u16) option" where
  "tb_loop tb tb_compare =
     (if tb_compare > tb
      then tb_loop (tb + RTIMER_AB_RESOLUTION) (tb_compare + RTIMER_AB_RESOLUTION)
      else Some (tb, tb_compare))"

declare tb_loop.simps [code]

text \<open>The loop \<^verbatim>\<open>while(ta_compare < ta)\<close>.\<close>

function ta_loop :: "u16 \<Rightarrow> u16 \<Rightarrow> u16 \<Rightarrow> u16" where
  "ta_loop ta ta_compare tb =
     (if ta_compare < ta then ta_loop ta (ta_compare + 1) (tb - RTIMER_AB_RESOLUTION) else tb)"
  by pat_completeness auto
termination
proof (relation "measure (\<lambda>(ta, ta_compare, tb). unat ta - unat ta_compare)")
  fix ta ta_compare tb :: u16
  assume less: "ta_compare < ta"
  then have "unat (ta_compare + 1) = Suc (unat ta_compare)" by (rule unat_Suc_less)
  moreover have "unat ta_compare < unat ta" using less by (simp add: word_less_nat_alt)
  ultimately show "((ta, ta_compare + 1, tb - RTIMER_AB_RESOLUTION), ta, ta_compare, tb)
      \<in> measure (\<lambda>(ta, ta_compare, tb). unat ta - unat ta_compare)"
    by simp
qed simp

declare ta_loop.simps [simp del]

definition stamps_result :: "u32 \<Rightarrow> u16 \<Rightarrow> u32" where
  "stamps_result t_out tb =
     (if tb > 65535 - RTIMER_AB_RESOLUTION then t_out - ucast (65535 - tb)
      else if tb \<ge> RTIMER_AB_RESOLUTION then 0
      else t_out + ucast tb)"

definition rtimer_stamps_to_now :: "fp_env \<Rightarrow> u16 \<Rightarrow> u16 \<Rightarrow> u16 \<Rightarrow> u16 \<Rightarrow> dbl \<Rightarrow> u32 option" where
  "rtimer_stamps_to_now fp ta tb ta_compare tb_compare clock_rate =
     (let t_out = push_bit 10 (ucast ta :: u32) in
      Option.bind (tb_loop tb tb_compare) (\<lambda>(tb1, tb_compare1).
        let tb2 = tb1 - tb_compare1;
            tb3 = d_to_u16 fp (d_mul fp (d_of_int fp (uint tb2)) clock_rate);
            tb4 = ta_loop ta ta_compare tb3
        in Some (stamps_result t_out tb4)))"

section \<open>Captures\<close>

text \<open>\<open>clock_get_rate\<close> of clock.c: retried until the rate is plausible.\<close>

fun clock_get_rate :: "fp_env \<Rightarrow> snapshot list \<Rightarrow> (dbl \<times> snapshot \<times> snapshot list) option" where
  "clock_get_rate fp [] = None"
| "clock_get_rate fp (sn # sns) =
     (let new_rate = d_div fp (d_of_int fp 4096) (d_of_int fp (uint (s_TBCCR0 sn - s_last_tbcrr0 sn))) in
      if d_less new_rate (fp_rnd fp (7 / 10)) \<or> d_less (fp_rnd fp (13 / 10)) new_rate
      then clock_get_rate fp sns
      else Some (new_rate, sn, sns))"

lemma clock_get_rate_length:
  "clock_get_rate fp sns = Some (r, sn, rest) \<Longrightarrow> length rest < length sns"
  by (induction sns) (auto simp: Let_def split: if_splits)

definition stamps_of :: "dbl \<Rightarrow> snapshot \<Rightarrow> stamps" where
  "stamps_of rate sn = \<lparr>st_ta = s_TACCR1 sn, st_tb = s_TBCCR3 sn,
     st_ta_compare = s_TACCR0 sn - RTIMER_AB_UPDATE, st_tb_compare = s_TBCCR0 sn, st_rate = rate\<rparr>"

definition stamps_now :: "fp_env \<Rightarrow> stamps \<Rightarrow> u32 option" where
  "stamps_now fp st =
     rtimer_stamps_to_now fp (st_ta st) (st_tb st) (st_ta_compare st) (st_tb_compare st) (st_rate st)"

text \<open>The \<^verbatim>\<open>do ... while(now_my_fine == 0)\<close> loop around a capture.\<close>

function capture_loop :: "fp_env \<Rightarrow> snapshot list \<Rightarrow> (stamps \<times> u32 \<times> snapshot list) res" where
  "capture_loop fp sns =
     (case clock_get_rate fp sns of
        None \<Rightarrow> Fault EnvExhausted
      | Some (rate, sn, rest) \<Rightarrow>
          (case stamps_now fp (stamps_of rate sn) of
             None \<Rightarrow> Fault Diverge
           | Some now \<Rightarrow>
               if now = 0 then capture_loop fp rest else Ok (stamps_of rate sn, now, rest)))"
  by pat_completeness auto
termination
  by (relation "measure (\<lambda>(fp, sns). length sns)") (auto dest: clock_get_rate_length)

declare capture_loop.simps [simp del]

text \<open>
  The capture of \<open>rtimer_now_fine\<close> and \<open>rtimer_lginterval_to_hwdate\<close>, which takes priority and waits
  for \<open>clock_state\<close>.
\<close>

definition rtimer_now_fine :: "fp_env \<Rightarrow> rtimer_sys \<Rightarrow> (u32 \<times> rtimer_sys) res" where
  "rtimer_now_fine fp s =
     (if clock_occupied s then Fault Diverge
      else bindR (capture_loop fp (hw s)) (\<lambda>(st, now, rest).
        Ok (now, s\<lparr>clock_occupied := False, clock_priority := False, hw := rest\<rparr>)))"

text \<open>The capture of \<open>gtsp_recv\<close> and \<open>rtimer_sync_send\<close>, which waits for both flags.\<close>

definition capture_stamps :: "fp_env \<Rightarrow> rtimer_sys \<Rightarrow> (stamps \<times> u32 \<times> rtimer_sys) res" where
  "capture_stamps fp s =
     (if clock_occupied s \<or> clock_priority s then Fault Diverge
      else bindR (capture_loop fp (hw s)) (\<lambda>(st, now, rest).
        Ok (st, now, s\<lparr>clock_occupied := False, hw := rest\<rparr>)))"

definition rtimer_now :: "rtimer_sys \<Rightarrow> (u16 \<times> rtimer_sys) res" where
  "rtimer_now s = (case hw s of [] \<Rightarrow> Fault EnvExhausted | sn # sns \<Rightarrow> Ok (s_TACCR1 sn, s\<lparr>hw := sns\<rparr>))"

section \<open>Dates and intervals\<close>

text \<open>The elapsed time since the offset reference, shared by update and estimate.\<close>

definition offset_interval :: "rtimer_sys \<Rightarrow> u32 \<Rightarrow> u32 \<Rightarrow> u32" where
  "offset_interval s time_coarse time_fine =
     (let delta_coarse = time_coarse - coarse_offset_ref s;
          (delta_coarse, delta_fine) =
            (if fine_offset_ref s < time_fine
             then (delta_coarse, time_fine - fine_offset_ref s)
             else (delta_coarse - 1, time_fine + (RTIMER_FINE_MAX - fine_offset_ref s)))
      in push_bit 26 delta_coarse + delta_fine)"

definition rtimer_update_offset :: "fp_env \<Rightarrow> u32 \<Rightarrow> u32 \<Rightarrow> rtimer_sys \<Rightarrow> rtimer_sys" where
  "rtimer_update_offset fp time_coarse time_fine s =
     (let interval = offset_interval s time_coarse time_fine
      in s\<lparr>fine_offset := fine_offset s + d_to_u32 fp (d_mul fp (d_of_int fp (uint interval)) (avg_rate s)),
           coarse_offset_ref := time_coarse, fine_offset_ref := time_fine\<rparr>)"

definition rtimer_estimate_offset :: "fp_env \<Rightarrow> u32 \<Rightarrow> u32 \<Rightarrow> rtimer_sys \<Rightarrow> u32" where
  "rtimer_estimate_offset fp time_coarse time_fine s =
     (let interval = offset_interval s time_coarse time_fine
      in d_to_u32 fp (d_add fp (d_of_int fp (uint (fine_offset s)))
           (d_mul fp (d_of_int fp (uint interval)) (avg_rate s))))"

definition rtimer_hwdate_to_lgdate :: "u32 \<Rightarrow> u32 \<Rightarrow> u32 \<Rightarrow> u32 \<times> u32" where
  "rtimer_hwdate_to_lgdate time_coarse time_fine offset =
     (let (c1, o1) = (if offset > RTIMER_FINE_MAX then (time_coarse + 1, offset - RTIMER_FINE_MAX)
                      else (time_coarse, offset));
          f1 = time_fine + o1
      in if RTIMER_FINE_MAX < f1 then (c1 + 1, f1 - RTIMER_FINE_MAX) else (c1, f1))"

definition rtimer_lgdates_to_lg_interval :: "u32 \<Rightarrow> u32 \<Rightarrow> u32 \<Rightarrow> u32 \<Rightarrow> u32 \<times> u32" where
  "rtimer_lgdates_to_lg_interval time_coarse time_fine coarse_then fine_then =
     (let delta_coarse = time_coarse - coarse_then;
          (delta_coarse, delta_fine) =
            (if fine_then < time_fine then (delta_coarse, time_fine - fine_then)
             else (delta_coarse - 1, time_fine + (RTIMER_FINE_MAX - fine_then)))
      in (0, push_bit 26 delta_coarse + delta_fine))"

text \<open>
  \<open>rtimer_lginterval_to_hwdate\<close>: the result is the hardware date of the interval's end and the fine
  time at which it was computed.
\<close>

definition rtimer_lginterval_to_hwdate ::
  "fp_env \<Rightarrow> u32 \<Rightarrow> rtimer_scheduletype_t \<Rightarrow> rtimer_sys \<Rightarrow> (u32 \<times> u32 \<times> u32 \<times> rtimer_sys) res" where
  "rtimer_lginterval_to_hwdate fp time_fine interval s =
     (let f0 = d_to_u32 fp (d_mul fp (d_of_int fp (uint time_fine)) (d_add fp (d_of_int fp 1) (avg_rate s)));
          (c1, f1) = (if RTIMER_FINE_MAX < f0 then (f0 div RTIMER_FINE_MAX, f0 mod RTIMER_FINE_MAX)
                      else (0, f0))
      in bindR (if interval = RTIMER_INTERVAL_REF
                then Ok (coarse_schedule_ref s, fine_schedule_ref s, s)
                else bindR (rtimer_now_fine fp s) (\<lambda>(now, s'). Ok (rtimer_coarse_now s', now, s')))
           (\<lambda>(coarse_then, fine_then, s1).
              let f2 = f1 + fine_then;
                  (c3, f3) = (if RTIMER_FINE_MAX < f2 then (c1 + 1, f2 - RTIMER_FINE_MAX) else (c1, f2));
                  c4 = c3 + coarse_then
              in if interval = RTIMER_INTERVAL_REF
                 then bindR (rtimer_now_fine fp s1) (\<lambda>(now, s2). Ok (c4, f3, now, s2))
                 else Ok (c4, f3, fine_then, s1)))"

definition rtimer_lgdate_to_hwdate ::
  "fp_env \<Rightarrow> u32 \<Rightarrow> u32 \<Rightarrow> rtimer_sys \<Rightarrow> (u32 \<times> u32 \<times> u32 \<times> rtimer_sys) res" where
  "rtimer_lgdate_to_hwdate fp time_coarse time_fine s =
     (let coarse_now = rtimer_coarse_now s in
      bindR (rtimer_now_fine fp s) (\<lambda>(fine_now, s1).
        let s2 = s1\<lparr>coarse_schedule_ref := coarse_now, fine_schedule_ref := fine_now\<rparr>;
            s3 = rtimer_update_offset fp coarse_now fine_now s2;
            (lg_coarse, lg_fine) = rtimer_hwdate_to_lgdate coarse_now fine_now (fine_offset s3);
            (c, f) = rtimer_lgdates_to_lg_interval time_coarse time_fine lg_coarse lg_fine
        in rtimer_lginterval_to_hwdate fp f RTIMER_INTERVAL_REF s3))"

definition rtimer_lg_now :: "fp_env \<Rightarrow> rtimer_sys \<Rightarrow> (u32 \<times> rtimer_sys) res" where
  "rtimer_lg_now fp s =
     (let coarse_now = rtimer_coarse_now s in
      bindR (rtimer_now_fine fp s) (\<lambda>(fine_now, s1).
        let s2 = rtimer_update_offset fp coarse_now fine_now s1;
            (c, f) = rtimer_hwdate_to_lgdate coarse_now fine_now (fine_offset s2)
        in Ok (push_bit 26 c + f, s2)))"

definition rtimer_compare :: "nat \<Rightarrow> u32 \<Rightarrow> u32 \<Rightarrow> rtimer_sys \<Rightarrow> int" where
  "rtimer_compare timer coarse_lg fine_lg s =
     (let t = rt s ! timer in
      if rtimer_state_num (rt_state t) < rtimer_state_num RTIMER_SCHEDULED then 1
      else if time_coarse_lg t = coarse_lg then
        (if time_fine_lg t > fine_lg then -1 else if time_fine_lg t < fine_lg then 1 else 0)
      else if time_coarse_lg t > coarse_lg then -1 else 1)"

section \<open>Programming the compare registers\<close>

text \<open>The selection loop of \<open>rtimer_lf_update\<close>.\<close>

definition select_step :: "rtimer_sys \<Rightarrow> nat \<Rightarrow> u32 \<times> u32 \<times> nat option \<Rightarrow> u32 \<times> u32 \<times> nat option" where
  "select_step s timer acc = (case acc of (time_coarse, time_fine, use) \<Rightarrow>
     let t = rt s ! timer in
     if rt_state t = RTIMER_SCHEDULED \<and> time_coarse_hw t \<le> time_coarse then
       (if time_fine_hw t \<le> time_fine then (time_coarse_hw t, time_fine_hw t, Some timer)
        else (time_coarse_hw t, time_fine, use))
     else acc)"

definition rtimer_select :: "rtimer_sys \<Rightarrow> nat option" where
  "rtimer_select s = snd (snd (fold (select_step s) [0, 1] (0xFFFFFFFF, 0xFFFFFFFF, None)))"

text \<open>One block of the macro \<open>RTIMER_LF_CALLBACK\<close>: the new compare value of timer B.\<close>

definition lf_compare_value :: "fp_env \<Rightarrow> snapshot \<Rightarrow> u16 \<Rightarrow> rtimer_sys \<Rightarrow> (u16 \<times> rtimer_sys) res" where
  "lf_compare_value fp sn tb s =
     bindR (from_option EnvExhausted (clock_get_rate fp (hw s))) (\<lambda>(rate, sn', rest).
       Ok (s_TBCCR0 sn + d_to_u16 fp (d_div fp (d_of_int fp (uint tb + 4096)) rate), s\<lparr>hw := rest\<rparr>))"

definition rtimer_lf_callback :: "fp_env \<Rightarrow> snapshot \<Rightarrow> rtimer_sys \<Rightarrow> rtimer_sys res" where
  "rtimer_lf_callback fp sn s =
     (let t0 = rt s ! 0; t1 = rt s ! 1 in
      bindR (if rt_state t0 = RTIMER_SCHEDULED \<and> TACCR2 s = rt_ta t0 - RTIMER_AB_UPDATE \<and>
                time_coarse_hw t0 \<le> rtimer_coarse_now s
             then bindR (lf_compare_value fp sn (rt_tb t0) s) (\<lambda>(v, s'). Ok (s'\<lparr>TBCCR4 := v, TBCCTL4_CCIE := True\<rparr>))
             else Ok s)
        (\<lambda>s1. if rt_state t1 = RTIMER_SCHEDULED \<and> TACCR2 s1 = rt_ta t0 - RTIMER_AB_UPDATE \<and>
                 time_coarse_hw t1 \<le> rtimer_coarse_now s1
              then bindR (lf_compare_value fp sn (rt_tb t1) s1) (\<lambda>(v, s'). Ok (s'\<lparr>TBCCR5 := v, TBCCTL5_CCIE := True\<rparr>))
              else Ok s1))"

definition rtimer_lf_update :: "fp_env \<Rightarrow> rtimer_sys \<Rightarrow> rtimer_sys res" where
  "rtimer_lf_update fp s = (case rtimer_select s of
       None \<Rightarrow> Ok (s\<lparr>TACCTL2_CCIE := False\<rparr>)
     | Some use \<Rightarrow>
         (case hw s of
            [] \<Rightarrow> Fault EnvExhausted
          | sn # sns \<Rightarrow>
              let t = rt s ! use;
                  s1 = s\<lparr>TACCTL2_CCIE := True, TACCR2 := rt_ta t - RTIMER_AB_UPDATE, hw := sns\<rparr>
              in if rt_ta t < s_TACCR0 sn + RTIMER_AB_UPDATE \<or> s_TACCR1 sn = TACCR2 s1
                 then rtimer_lf_callback fp sn (s1\<lparr>TACCTL2_CCIE := False\<rparr>)
                 else Ok s1))"

definition rtimer_lf_overflow :: "fp_env \<Rightarrow> rtimer_sys \<Rightarrow> rtimer_sys res" where
  "rtimer_lf_overflow fp s =
     (if scheduler_occupied s then Fault Diverge
      else rtimer_lf_update fp (s\<lparr>coarse_count := coarse_count s + 1\<rparr>))"

section \<open>Scheduling\<close>

definition set_rt :: "nat \<Rightarrow> (rtimer_t \<Rightarrow> rtimer_t) \<Rightarrow> rtimer_sys \<Rightarrow> rtimer_sys" where
  "set_rt timer f s = s\<lparr>rt := (rt s)[timer := f (rt s ! timer)]\<rparr>"

definition hw_date_ta :: "u32 \<Rightarrow> u16" where
  "hw_date_ta fine = ucast (push_bit 2 (drop_bit 12 fine))"

definition hw_date_tb :: "u32 \<Rightarrow> u16" where
  "hw_date_tb fine = drop_bit 4 (push_bit 4 (ucast fine :: u16))"

definition too_late :: "u32 \<Rightarrow> u32 \<Rightarrow> u32 \<Rightarrow> rtimer_sys \<Rightarrow> bool" where
  "too_late coarse fine quick_ref s \<longleftrightarrow>
     coarse < rtimer_coarse_now s \<or>
     (coarse = rtimer_coarse_now s \<and> fine < quick_ref + RTIMER_SCHEDULE_SAFETY_MARGIN)"

definition rtimer_schedule ::
  "fp_env \<Rightarrow> nat \<Rightarrow> rtimer_scheduletype_t \<Rightarrow> u32 \<Rightarrow> u32 \<Rightarrow> rtimer_callback_t \<Rightarrow> rtimer_sys \<Rightarrow>
   (bool \<times> rtimer_sys) res" where
  "rtimer_schedule fp timer interval time_coarse time_fine func s =
     (if timer < 2 then
        if time_coarse = 0 \<and> time_fine = 0 then Ok (False, s)
        else if rt_state (rt s ! timer) = RTIMER_SINGLEPASS
        then Ok (True, set_rt timer (\<lambda>t. t\<lparr>rt_state := RTIMER_SCHEDULED\<rparr>) s)
        else
          let s0 = (set_rt timer (\<lambda>t. t\<lparr>rt_func := func\<rparr>) s)\<lparr>scheduler_occupied := True\<rparr> in
          if interval = RTIMER_DATE then
            bindR (rtimer_lgdate_to_hwdate fp time_coarse time_fine s0) (\<lambda>(c, f, quick_ref, s1).
              let s2 = s1\<lparr>scheduler_occupied := False\<rparr> in
              if too_late c f quick_ref s1 then Ok (False, s2)
              else
                let s3 = set_rt timer (\<lambda>t. t\<lparr>time_coarse_lg := time_coarse, time_fine_lg := time_fine,
                           time_coarse_hw := c, time_fine_hw := f, rt_ta := hw_date_ta f,
                           rt_tb := hw_date_tb f, rt_state := RTIMER_SCHEDULED\<rparr>) s2
                in bindR (rtimer_lf_update fp s3) (\<lambda>s4. Ok (True, s4)))
          else
            bindR (rtimer_lginterval_to_hwdate fp time_fine interval s0) (\<lambda>(c, f, quick_ref, s1).
              let s2 = s1\<lparr>scheduler_occupied := False\<rparr> in
              if too_late c f quick_ref s1 then Ok (False, s2)
              else
                let offset = rtimer_estimate_offset fp c f s2;
                    (lg_c, lg_f) = rtimer_hwdate_to_lgdate c f offset;
                    s3 = set_rt timer (\<lambda>t. t\<lparr>time_coarse_lg := lg_c, time_fine_lg := lg_f,
                           time_coarse_hw := c, time_fine_hw := f, rt_ta := hw_date_ta f,
                           rt_tb := hw_date_tb f, rt_state := RTIMER_SCHEDULED\<rparr>) s2
                in bindR (rtimer_lf_update fp s3) (\<lambda>s4. Ok (True, s4)))
      else Ok (False, s))"

section \<open>Adjusting the logical time\<close>

definition rtimer_adjust_coarse_count :: "i32 \<Rightarrow> rtimer_sys \<Rightarrow> rtimer_sys res" where
  "rtimer_adjust_coarse_count diff s =
     (if scheduler_occupied s then Fault Diverge
      else Ok (s\<lparr>coarse_count := coarse_count s - diff\<rparr>))"

text \<open>The part of \<open>rtimer_adjust_fine_offset\<close> that moves the offset and keeps it in its window.\<close>

definition shift_offset :: "fp_env \<Rightarrow> i32 \<Rightarrow> rtimer_sys \<Rightarrow> rtimer_sys" where
  "shift_offset fp diff s =
     (let offset = fine_offset s - diff;
          fine_max = d_of_int fp (uint RTIMER_FINE_MAX);
          offset_min = d_mul fp fine_max (fp_rnd fp (1 / 2));
          offset_max = d_mul fp fine_max (fp_rnd fp (3 / 2));
          d = d_of_int fp (uint offset)
      in if d_less d offset_min
         then s\<lparr>coarse_count := coarse_count s - 1, fine_offset := offset + RTIMER_FINE_MAX\<rparr>
         else if d_less offset_max d
         then s\<lparr>coarse_count := coarse_count s + 1, fine_offset := offset - RTIMER_FINE_MAX\<rparr>
         else s\<lparr>fine_offset := offset\<rparr>)"

text \<open>A scheduled timer is scheduled again for its logical date.\<close>

definition reschedule :: "fp_env \<Rightarrow> nat \<Rightarrow> rtimer_sys \<Rightarrow> rtimer_sys res" where
  "reschedule fp timer s =
     (let t = rt s ! timer in
      if rt_state t = RTIMER_SCHEDULED
      then bindR (rtimer_schedule fp timer RTIMER_DATE (time_coarse_lg t) (time_fine_lg t) (rt_func t) s)
             (\<lambda>(_, s'). Ok s')
      else Ok s)"

definition rtimer_adjust_fine_offset :: "fp_env \<Rightarrow> i32 \<Rightarrow> rtimer_sys \<Rightarrow> rtimer_sys res" where
  "rtimer_adjust_fine_offset fp diff s =
     (if scheduler_occupied s then Fault Diverge
      else
        let s1 = shift_offset fp diff s;
            d = rtimer_diff (scheduler_fine_offset_ref s1) (fine_offset s1)
        in bindR (if sint d < -200 \<or> sint d > 200
                  then bindR (reschedule fp 0 s1) (reschedule fp 1)
                  else Ok s1)
             (\<lambda>s2. Ok (s2\<lparr>scheduler_fine_offset_ref := fine_offset s2\<rparr>)))"

definition rtimer_sync_send :: "fp_env \<Rightarrow> rtimer_sys \<Rightarrow> (timesync_frame_t \<times> rtimer_sys) res" where
  "rtimer_sync_send fp s =
     bindR (capture_stamps fp s) (\<lambda>(st, now, s1).
       let s2 = rtimer_update_offset fp (rtimer_coarse_now s1) now s1 in
       Ok (\<lparr>sf_coarse_now = rtimer_coarse_now s1, sf_fine_offset = rtimer_fine_offset s2,
            sf_clock_rate = st_rate st, sf_avg_rate = rtimer_avg_rate s1,
            sf_ta = st_ta st, sf_tb = st_tb st, sf_ta_compare = st_ta_compare st,
            sf_tb_compare = st_tb_compare st, sf_hw_mac_timestamp = 0\<rparr>, s2))"

end
