(* ===== verification/Rtimer_Laws.thy ===== *)
theory Rtimer_Laws
  imports Rtimer
begin

text \<open>
  What rtimer.c guarantees: when \<open>rtimer_stamps_to_now\<close> returns and what it returns, the conversions
  between hardware dates, logical dates and intervals, the adjustment of the logical clock, and the
  scheduler on every branch.
\<close>

section \<open>Time stamps\<close>

definition same_block :: "u16 \<Rightarrow> u16 \<Rightarrow> bool" where
  "same_block a b \<longleftrightarrow> unat a div 1024 = unat b div 1024"

lemma unat_add_1024: "unat (a + 1024 :: u16) = (unat a + 1024) mod 65536"
  by (simp add: unat_word_ariths)

lemma unat_u16_bound: "unat (a :: u16) < 65536"
  using unsigned_less [of a, where ?'a = nat] by simp

lemma div_1024_less: "(n::nat) div 1024 < k \<longleftrightarrow> n < k * 1024"
  by (simp add: div_less_iff_less_mult)

lemma same_block_step:
  assumes "a < b" and "same_block a b"
  shows "a + 1024 < b + 1024 \<and> same_block (a + 1024) (b + 1024)"
proof -
  have ab: "unat a < unat b" using assms(1) by (simp add: word_less_nat_alt)
  note bounds = unat_u16_bound [of a] unat_u16_bound [of b]
  show ?thesis
  proof (cases "unat a div 1024 = 63")
    case True
    with assms(2) have "unat a \<ge> 64512" "unat b \<ge> 64512" by (auto simp: same_block_def)
    with ab bounds show ?thesis
      by (auto simp: word_less_nat_alt unat_add_1024 same_block_def mod_if)
  next
    case False
    with assms(2) bounds have "unat a < 64512" "unat b < 64512" by (auto simp: same_block_def)
    with ab assms(2) show ?thesis
      by (auto simp: word_less_nat_alt unat_add_1024 same_block_def)
  qed
qed

lemma tb_loop_no_return:
  assumes ret: "tb_loop tb tb_compare = Some r"
  shows "\<not> (tb < tb_compare \<and> same_block tb tb_compare)"
proof (rule tb_loop.raw_induct [where P = "\<lambda>tb tb_compare r. \<not> (tb < tb_compare \<and> same_block tb tb_compare)",
        OF _ ret])
  fix f and tb tb_compare :: u16 and r
  assume IH: "\<And>tb tb_compare r. f tb tb_compare = Some r \<Longrightarrow>
      \<not> (tb < tb_compare \<and> same_block tb tb_compare)"
    and eq: "(if tb < tb_compare then f (tb + 1024) (tb_compare + 1024) else Some (tb, tb_compare)) = Some r"
  show "\<not> (tb < tb_compare \<and> same_block tb tb_compare)"
  proof
    assume h: "tb < tb_compare \<and> same_block tb tb_compare"
    with eq have "f (tb + 1024) (tb_compare + 1024) = Some r" by simp
    from IH [OF this] same_block_step h show False by blast
  qed
qed

lemma tb_loop_returns:
  assumes "\<not> (tb < tb_compare \<and> same_block tb tb_compare)"
  shows "\<exists>tb' tb_compare'. tb_loop tb tb_compare = Some (tb', tb_compare') \<and>
           tb' - tb_compare' = tb - tb_compare"
  using assms
proof (induction "63 - unat tb_compare div 1024" arbitrary: tb tb_compare rule: less_induct)
  case less
  note bounds = unat_u16_bound [of tb] unat_u16_bound [of tb_compare]
  show ?case
  proof (cases "tb < tb_compare")
    case False
    then show ?thesis by (simp add: tb_loop.simps [of tb tb_compare])
  next
    case True
    then have lt: "unat tb < unat tb_compare" by (simp add: word_less_nat_alt)
    from less.prems True have blk: "unat tb div 1024 < unat tb_compare div 1024"
      using div_le_mono [of "unat tb" "unat tb_compare" 1024] lt
      by (simp add: same_block_def)
    have step: "tb_loop tb tb_compare = tb_loop (tb + 1024) (tb_compare + 1024)"
      using True by (simp add: tb_loop.simps [of tb tb_compare])
    have tb1: "unat (tb + 1024) = unat tb + 1024"
    proof -
      have "unat tb_compare div 1024 < 64" using bounds(2) by (simp add: div_1024_less)
      with blk have "unat tb div 1024 < 63" by linarith
      then have "unat tb < 64512" by (simp add: div_1024_less)
      then show ?thesis unfolding unat_add_1024 by simp
    qed
    show ?thesis
    proof (cases "unat tb_compare div 1024 = 63")
      case wrap: True
      then have "\<not> unat tb_compare div 1024 < 63" by simp
      then have "unat tb_compare \<ge> 64512" by (simp add: div_1024_less)
      then have "unat (tb_compare + 1024) < 1024" using bounds unfolding unat_add_1024 by (simp add: mod_if) linarith
      with tb1 have "\<not> tb + 1024 < tb_compare + 1024" by (simp add: word_less_nat_alt)
      then show ?thesis by (simp add: step tb_loop.simps [of "tb + 1024"])
    next
      case False
      moreover have "unat tb_compare div 1024 < 64" using bounds(2) by (simp add: div_1024_less)
      ultimately have "unat tb_compare div 1024 < 63" by linarith
      then have "unat tb_compare < 64512" by (simp add: div_1024_less)
      then have tc1: "unat (tb_compare + 1024) = unat tb_compare + 1024"
        unfolding unat_add_1024 by simp
      have "\<exists>tb' tb_compare'. tb_loop (tb + 1024) (tb_compare + 1024) = Some (tb', tb_compare') \<and>
          tb' - tb_compare' = (tb + 1024) - (tb_compare + 1024)"
      proof (rule less.hyps)
        show "63 - unat (tb_compare + 1024) div 1024 < 63 - unat tb_compare div 1024"
          using tc1 False bounds by auto
        show "\<not> (tb + 1024 < tb_compare + 1024 \<and> same_block (tb + 1024) (tb_compare + 1024))"
          using tb1 tc1 blk by (simp add: same_block_def)
      qed
      then show ?thesis by (simp add: step)
    qed
  qed
qed

lemma ta_loop_eq:
  "ta_loop ta ta_compare tb = tb - 1024 * (if ta_compare < ta then ta - ta_compare else 0)"
proof (induction ta ta_compare tb rule: ta_loop.induct)
  case (1 ta ta_compare tb)
  show ?case
  proof (cases "ta_compare < ta")
    case False
    then show ?thesis by (simp add: ta_loop.simps [of ta ta_compare])
  next
    case True
    have step: "ta_loop ta ta_compare tb = ta_loop ta (ta_compare + 1) (tb - 1024)"
      using True by (simp add: ta_loop.simps [of ta ta_compare])
    show ?thesis
    proof (cases "ta_compare + 1 < ta")
      case more: True
      with "1.IH" [OF True] step True show ?thesis by (simp add: algebra_simps)
    next
      case False
      have "unat (ta_compare + 1) = Suc (unat ta_compare)" using True by (rule unat_Suc_less)
      with True False have "ta = ta_compare + 1"
        by (metis Suc_leI linorder_not_less order_antisym_conv unsigned_word_eqI word_le_nat_alt word_less_nat_alt)
      with "1.IH" [OF True] step True show ?thesis by simp
    qed
  qed
qed

lemma rtimer_stamps_to_now_eq:
  "rtimer_stamps_to_now fp ta tb ta_compare tb_compare rate =
     (if tb < tb_compare \<and> same_block tb tb_compare then None
      else Some (stamps_result (push_bit 10 (ucast ta))
        (d_to_u16 fp (d_mul fp (d_of_int fp (uint (tb - tb_compare))) rate)
           - 1024 * (if ta_compare < ta then ta - ta_compare else 0))))"
proof (cases "tb < tb_compare \<and> same_block tb tb_compare")
  case True
  then have "tb_loop tb tb_compare = None" using tb_loop_no_return by (cases "tb_loop tb tb_compare") auto
  with True show ?thesis by (simp add: rtimer_stamps_to_now_def)
next
  case False
  then obtain tb' tb_compare' where "tb_loop tb tb_compare = Some (tb', tb_compare')"
    and "tb' - tb_compare' = tb - tb_compare"
    using tb_loop_returns by blast
  with False show ?thesis by (auto simp: rtimer_stamps_to_now_def ta_loop_eq Let_def)
qed

text \<open>
  C31: When \<open>rtimer_stamps_to_now\<close> returns and what it returns. It loops forever exactly when
  \<open>tb_compare\<close> is above \<open>tb\<close> within the same block of 1024 timer-B ticks; otherwise its result is the
  loop-free expression: the timer-B ticks since the capture \<open>tb_compare\<close>, scaled by the clock rate and
  reduced by 1024 for each timer-A tick since \<open>ta_compare\<close>, folded into the fine time of \<open>ta\<close>.
\<close>

theorem stamps_to_now_closed_form:
  "rtimer_stamps_to_now fp ta tb ta_compare tb_compare rate =
     (if tb < tb_compare \<and> same_block tb tb_compare then None
      else Some (stamps_result (push_bit 10 (ucast ta))
        (d_to_u16 fp (d_mul fp (d_of_int fp (uint (tb - tb_compare))) rate)
           - 1024 * (if ta_compare < ta then ta - ta_compare else 0))))"
  by (rule rtimer_stamps_to_now_eq)

lemma stamps_result_signed:
  assumes "-1024 \<le> dev" and "dev < 1024"
  shows "stamps_result t (word_of_int dev) = t + word_of_int (if 0 \<le> dev then dev else dev + 1)"
proof (cases "0 \<le> dev")
  case True
  with assms have u: "uint (word_of_int dev :: u16) = dev" by (intro uint_word_of_int_small) simp_all
  moreover have "(ucast (word_of_int dev :: u16) :: u32) = word_of_int dev"
    using u by (simp only: ucast_eq)
  ultimately show ?thesis using True assms by (simp add: stamps_result_def word_less_alt word_le_def)
next
  case False
  have "(word_of_int dev :: u16) = word_of_int (dev + 65536)" by simp
  moreover from False assms have u: "uint (word_of_int (dev + 65536) :: u16) = dev + 65536"
    by (intro uint_word_of_int_small) simp_all
  ultimately have u': "uint (word_of_int dev :: u16) = dev + 65536" by (simp only:)
  have "uint (65535 - word_of_int dev :: u16) = - dev - 1"
    using u' False by (subst uint_minus_small) simp_all
  then have "(ucast (65535 - word_of_int dev :: u16) :: u32) = word_of_int (- dev - 1)"
    by (simp only: ucast_eq)
  with u' False assms show ?thesis
    by (simp add: stamps_result_def word_less_alt)
qed

lemma stamps_to_now_signed:
  assumes ret: "\<not> (tb < tb_compare \<and> same_block tb tb_compare)"
    and dev: "dev = uint (d_to_u16 fp (d_mul fp (d_of_int fp (uint (tb - tb_compare))) rate))
               - 1024 * (if ta_compare < ta then uint ta - uint ta_compare else 0)"
    and range: "-1024 \<le> dev" "dev < 1024"
  shows "rtimer_stamps_to_now fp ta tb ta_compare tb_compare rate =
           Some (word_of_int (1024 * uint ta + (if 0 \<le> dev then dev else dev + 1)))"
proof -
  let ?x = "d_to_u16 fp (d_mul fp (d_of_int fp (uint (tb - tb_compare))) rate)"
  let ?k = "if ta_compare < ta then ta - ta_compare else 0"
  have "1024 * ?k = word_of_int (1024 * (if ta_compare < ta then uint ta - uint ta_compare else 0))"
    by simp
  then have w: "?x - 1024 * ?k = word_of_int dev" unfolding dev by simp
  have t: "push_bit 10 (ucast ta :: u32) = word_of_int (1024 * uint ta)"
    by (simp add: push_bit_eq_mult)
  show ?thesis
    unfolding rtimer_stamps_to_now_eq w stamps_result_signed [OF range] t of_int_add [symmetric]
    by (simp only: ret if_False)
qed

section \<open>Dates and intervals\<close>

text \<open>The time that a date denotes when one coarse unit is \<open>RTIMER_FINE_MAX\<close> fine ticks.\<close>

definition ticks :: "u32 \<Rightarrow> u32 \<Rightarrow> int" where
  "ticks c f = uint c * 67108863 + uint f"

lemma hwdate_to_lgdate_ticks:
  assumes f: "uint f \<le> 67108863" and off: "uint off \<le> 2 * 67108863" and c: "uint c + 2 < 2 ^ 32"
    and lg: "rtimer_hwdate_to_lgdate c f off = (c', f')"
  shows "ticks c' f' = ticks c f + uint off" and "uint f' \<le> 67108863"
proof -
  let ?M = "67108863 :: u32"
  define c1 o1 where "c1 = (if off > ?M then c + 1 else c)" and "o1 = (if off > ?M then off - ?M else off)"
  have o1: "uint o1 = (if off > ?M then uint off - 67108863 else uint off)"
    by (simp add: o1_def uint_minus_small word_less_alt)
  have c1: "uint c1 = (if off > ?M then uint c + 1 else uint c)"
    using c by (simp add: c1_def uint_plus_small)
  have o1b: "0 \<le> uint o1" "uint o1 \<le> 67108863"
    using off o1 by (auto simp: word_less_alt split: if_splits)
  have f1: "uint (f + o1) = uint f + uint o1" using f o1b by (intro uint_plus_small) simp
  have lg': "(if ?M < f + o1 then (c1 + 1, f + o1 - ?M) else (c1, f + o1)) = (c', f')"
    using lg by (auto simp: rtimer_hwdate_to_lgdate_def Let_def c1_def o1_def split: if_splits)
  show "ticks c' f' = ticks c f + uint off" and "uint f' \<le> 67108863"
  proof -
    consider (carry) "?M < f + o1" | (plain) "\<not> ?M < f + o1" by blast
    then have "ticks c' f' = ticks c f + uint off \<and> uint f' \<le> 67108863"
    proof cases
      case carry
      then have "67108863 < uint f + uint o1" using f1 by (simp add: word_less_alt)
      then have "uint (f + o1 - ?M) = uint f + uint o1 - 67108863"
        using f1 by (subst uint_minus_small) simp_all
      moreover have "uint (c1 + 1) = uint c1 + 1"
        using c c1 uint_plus_small [of c1 1] by (auto split: if_splits)
      ultimately show ?thesis using carry lg' c1 o1 o1b f by (auto simp: ticks_def)
    next
      case plain
      then have "uint f + uint o1 \<le> 67108863" using f1 by (simp add: word_less_alt)
      with plain lg' c1 o1 f1 show ?thesis by (auto simp: ticks_def)
    qed
    then show "ticks c' f' = ticks c f + uint off" and "uint f' \<le> 67108863" by auto
  qed
qed

lemma lg_interval_word:
  "rtimer_lgdates_to_lg_interval c f c0 f0 =
     (0, push_bit 26 (c - c0) + (f - f0) - (if f0 < f then 0 else 1))"
  by (simp add: rtimer_lgdates_to_lg_interval_def Let_def push_bit_eq_mult algebra_simps)

lemma lg_interval_ticks:
  assumes "delta = (uint c - uint c0) * 2 ^ 26 + uint f - uint f0 - (if f0 < f then 0 else 1)"
    and "0 \<le> delta" and "delta < 2 ^ 32"
  shows "fst (rtimer_lgdates_to_lg_interval c f c0 f0) = 0"
    and "uint (snd (rtimer_lgdates_to_lg_interval c f c0 f0)) = delta"
proof -
  have "snd (rtimer_lgdates_to_lg_interval c f c0 f0) = (word_of_int delta :: u32)"
    unfolding assms(1) by (simp add: lg_interval_word push_bit_eq_mult algebra_simps)
  with assms(2,3) show "uint (snd (rtimer_lgdates_to_lg_interval c f c0 f0)) = delta"
    by (simp add: uint_word_of_int_small)
qed (simp add: lg_interval_word)

section \<open>Shifting the logical clock\<close>

text \<open>
  The window of the offset, half of \<open>RTIMER_FINE_MAX\<close> to both sides of it. The tests are made in floating-point arithmetic, whose rounding moves the
  borders by less than 32.
\<close>

definition offset_in_window :: "u32 \<Rightarrow> bool" where
  "offset_in_window off \<longleftrightarrow> 67108863 - 64 \<le> 2 * uint off \<and> 2 * uint off \<le> 3 * 67108863 + 64"

lemma window_bounds:
  assumes "fp_near fp"
  obtains lo hi where "d_mul fp (d_of_int fp 67108863) (fp_rnd fp (1 / 2)) = Fin lo" "\<bar>lo - 67108863 / 2\<bar> \<le> 12"
    "d_mul fp (d_of_int fp 67108863) (fp_rnd fp (3 / 2)) = Fin hi" "\<bar>hi - 3 * 67108863 / 2\<bar> \<le> 20"
proof -
  have h: "fp_rnd fp (1 / 2) = Fin (1 / 2)" "fp_rnd fp (3 / 2) = Fin (3 / 2)"
    using assms by (simp_all add: fp_near_def fp_repr_def)
  obtain m where m: "d_of_int fp 67108863 = Fin m" "\<bar>m - 67108863\<bar> \<le> 8"
    using fp_nearE [OF assms, of 67108863] by (auto simp: d_of_int_def)
  obtain lo where lo: "fp_rnd fp (m * (1 / 2)) = Fin lo" "\<bar>lo - m * (1 / 2)\<bar> \<le> 8"
    using m(2) by (elim fp_nearE [OF assms, rotated 2]) auto
  obtain hi where hi: "fp_rnd fp (m * (3 / 2)) = Fin hi" "\<bar>hi - m * (3 / 2)\<bar> \<le> 8"
    using m(2) by (elim fp_nearE [OF assms, rotated 2]) auto
  show thesis
  proof (rule that)
    show "d_mul fp (d_of_int fp 67108863) (fp_rnd fp (1 / 2)) = Fin lo" using h m lo by simp
    show "d_mul fp (d_of_int fp 67108863) (fp_rnd fp (3 / 2)) = Fin hi" using h m hi by simp
    show "\<bar>lo - 67108863 / 2\<bar> \<le> 12" "\<bar>hi - 3 * 67108863 / 2\<bar> \<le> 20" using m(2) lo(2) hi(2) by linarith+
  qed
qed

text \<open>Each of the three branches is taken only where it leads into the window.\<close>

lemma shift_offset_cases:
  fixes s :: rtimer_sys
  assumes fp: "fp_near fp" and b: "uint (fine_offset s - diff) \<le> 2 ^ 28"
  defines "off \<equiv> fine_offset s - diff"
  obtains (low) "2 * uint off < 67108863 + 64" "shift_offset fp diff s = s\<lparr>coarse_count := coarse_count s - 1, fine_offset := off + 67108863\<rparr>"
  | (high) "3 * 67108863 - 64 < 2 * uint off" "shift_offset fp diff s = s\<lparr>coarse_count := coarse_count s + 1, fine_offset := off - 67108863\<rparr>"
  | (mid) "67108863 - 64 \<le> 2 * uint off" "2 * uint off \<le> 3 * 67108863 + 64" "shift_offset fp diff s = s\<lparr>fine_offset := off\<rparr>"
proof -
  obtain lo hi where lo: "d_mul fp (d_of_int fp 67108863) (fp_rnd fp (1 / 2)) = Fin lo" "\<bar>lo - 67108863 / 2\<bar> \<le> 12"
    and hi: "d_mul fp (d_of_int fp 67108863) (fp_rnd fp (3 / 2)) = Fin hi" "\<bar>hi - 3 * 67108863 / 2\<bar> \<le> 20"
    using window_bounds [OF fp] .
  have "rat_of_int (uint off) \<le> rat_of_int (2 ^ 28)" using b unfolding off_def by (simp only: of_int_le_iff)
  then have le: "rat_of_int (uint off) \<le> 2 ^ 28" by simp
  have ge: "0 \<le> rat_of_int (uint off)" unfolding of_int_0_le_iff by (rule uint_ge_0)
  obtain d where d: "d_of_int fp (uint off) = Fin d" "\<bar>d - rat_of_int (uint off)\<bar> \<le> 8"
    using fp_nearE [OF fp ge le] unfolding d_of_int_def by blast
  have eq: "shift_offset fp diff s =
      (if d < lo then s\<lparr>coarse_count := coarse_count s - 1, fine_offset := off + 67108863\<rparr>
       else if hi < d then s\<lparr>coarse_count := coarse_count s + 1, fine_offset := off - 67108863\<rparr> else s\<lparr>fine_offset := off\<rparr>)"
    unfolding shift_offset_def Let_def off_def [symmetric] using lo hi d by simp
  define x where "x = rat_of_int (uint off)"
  have r: "rat_of_int (2 * uint off) = 2 * x" "rat_of_int (67108863 + 64) = 67108927" "rat_of_int (3 * 67108863 - 64) = 201326525"
    "rat_of_int (67108863 - 64) = 67108799" "rat_of_int (3 * 67108863 + 64) = 201326653" by (simp_all add: x_def)
  note xd = d(2) [folded x_def]
  consider "d < lo" | "hi < d" "\<not> d < lo" | "\<not> d < lo" "\<not> hi < d" by blast
  then show thesis
  proof cases
    case 1
    then have "rat_of_int (2 * uint off) < rat_of_int (67108863 + 64)" unfolding r using lo(2) xd by linarith
    with 1 eq show thesis by (intro low) (simp_all only: of_int_less_iff if_True)
  next
    case 2
    then have "rat_of_int (3 * 67108863 - 64) < rat_of_int (2 * uint off)" unfolding r using hi(2) xd by linarith
    with 2 eq show thesis by (intro high) (simp_all only: of_int_less_iff if_True if_False)
  next
    case 3
    then have "rat_of_int (67108863 - 64) \<le> rat_of_int (2 * uint off)" "rat_of_int (2 * uint off) \<le> rat_of_int (3 * 67108863 + 64)"
      unfolding r using lo(2) hi(2) xd by linarith+
    with 3 eq show thesis by (intro mid) (simp_all only: of_int_le_iff if_False)
  qed
qed

text \<open>Whatever the rounding, the offset and the coarse count move together.\<close>

lemma shift_offset_word:
  "coarse_count (shift_offset fp diff s) * 67108863 + fine_offset (shift_offset fp diff s) =
     coarse_count s * 67108863 + fine_offset s - diff"
  by (simp add: shift_offset_def Let_def algebra_simps)

lemma uint_minus_signed:
  fixes a d :: u32
  assumes "0 \<le> uint a - sint d" and "uint a - sint d < 2 ^ 32"
  shows "uint (a - d) = uint a - sint d"
proof -
  have "uint (word_of_int (uint a - sint d) :: u32) = uint a - sint d"
    by (rule uint_word_of_int_small) (use assms in simp_all)
  moreover have "a - d = word_of_int (uint a - sint d)" by simp
  ultimately show ?thesis by (simp only:)
qed

lemma shift_offset_ticks:
  assumes fp: "fp_near fp" and win: "offset_in_window (fine_offset s)" and d: "\<bar>sint diff\<bar> \<le> 33554398"
    and c: "1 \<le> uint (coarse_count s)" "uint (coarse_count s) + 1 < 2 ^ 32"
  shows "offset_in_window (fine_offset (shift_offset fp diff s)) \<and>
    ticks (coarse_count (shift_offset fp diff s)) (fine_offset (shift_offset fp diff s)) =
         ticks (coarse_count s) (fine_offset s) - sint diff"
proof -
  define off where "off = fine_offset s - diff"
  have o: "uint off = uint (fine_offset s) - sint diff"
    unfolding off_def using win d by (intro uint_minus_signed) (auto simp: offset_in_window_def)
  have ob: "0 \<le> uint off" "uint off \<le> 134217727" using o win d by (auto simp: offset_in_window_def)
  have up: "uint (off + 67108863) = uint off + 67108863" using ob uint_plus_small [of off 67108863] by simp
  have cm: "uint (coarse_count s - 1) = uint (coarse_count s) - 1"
    using c uint_minus_small [of 1 "coarse_count s"] by simp
  have cp: "uint (coarse_count s + 1) = uint (coarse_count s) + 1"
    using c uint_plus_small [of "coarse_count s" 1] by simp
  have b: "uint (fine_offset s - diff) \<le> 2 ^ 28" using ob by (simp add: off_def)
  show ?thesis
  proof (cases rule: shift_offset_cases [OF fp b, case_names low high mid])
    case low
    with up cm o ob show ?thesis by (simp add: offset_in_window_def ticks_def off_def [symmetric])
  next
    case high
    have "uint (off - 67108863) = uint off - 67108863"
      using high(1) uint_minus_small [of 67108863 off] by (simp add: off_def)
    with high cp o ob d win show ?thesis by (simp add: offset_in_window_def ticks_def off_def [symmetric])
  next
    case mid
    with o show ?thesis by (simp add: offset_in_window_def ticks_def off_def [symmetric])
  qed
qed

section \<open>The scheduler\<close>

text \<open>What captures, date conversions and the programming of the registers leave alone.\<close>

definition same_timers :: "rtimer_sys \<Rightarrow> rtimer_sys \<Rightarrow> bool" where
  "same_timers s s' \<longleftrightarrow> rt s' = rt s \<and> coarse_count s' = coarse_count s \<and>
     scheduler_occupied s' = scheduler_occupied s \<and> avg_rate s' = avg_rate s \<and>
     scheduler_fine_offset_ref s' = scheduler_fine_offset_ref s"

lemma same_timers_refl [simp]: "same_timers s s"
  by (simp add: same_timers_def)

lemma same_timers_trans: "same_timers s s1 \<Longrightarrow> same_timers s1 s2 \<Longrightarrow> same_timers s s2"
  by (simp add: same_timers_def)

lemma capture_loop_nonzero: "capture_loop fp sns = Ok (st, now, rest) \<Longrightarrow> now \<noteq> 0"
proof (induction fp sns rule: capture_loop.induct)
  case (1 fp sns)
  note step = 1(2) [unfolded capture_loop.simps [of fp sns]]
  obtain rate sn rest' where c: "clock_get_rate fp sns = Some (rate, sn, rest')"
    using step by (auto split: option.splits)
  obtain n where n: "stamps_now fp (stamps_of rate sn) = Some n"
    using step c by (auto split: option.splits)
  show ?case
  proof (cases "n = 0")
    case True
    then show ?thesis using 1(1) [OF c _ _ n] step c n by simp
  next
    case False
    then show ?thesis using step c n by simp
  qed
qed

lemma rtimer_now_fine_same:
  "rtimer_now_fine fp s = Ok (now, s') \<Longrightarrow> same_timers s s' \<and> now \<noteq> 0"
  by (auto simp: rtimer_now_fine_def res_iff same_timers_def split: if_splits
      dest: capture_loop_nonzero)

lemma rtimer_update_offset_same [simp]: "same_timers s (rtimer_update_offset fp c f s)"
  by (simp add: rtimer_update_offset_def same_timers_def Let_def)

lemma rtimer_lginterval_same:
  assumes "rtimer_lginterval_to_hwdate fp f i s = Ok (c', f', q, s')"
  shows "same_timers s s'"
proof -
  obtain now where "rtimer_now_fine fp s = Ok (now, s')"
    using assms unfolding rtimer_lginterval_to_hwdate_def
    by (cases "i = RTIMER_INTERVAL_REF"; cases "rtimer_now_fine fp s")
      (auto simp: Let_def split: prod.splits if_splits)
  then show ?thesis by (simp add: rtimer_now_fine_same)
qed

lemma rtimer_lgdate_same:
  assumes "rtimer_lgdate_to_hwdate fp c f s = Ok (c', f', q, s')"
  shows "same_timers s s'"
proof -
  obtain now s1 where 1: "rtimer_now_fine fp s = Ok (now, s1)"
    using assms unfolding rtimer_lgdate_to_hwdate_def
    by (cases "rtimer_now_fine fp s") (auto simp: Let_def)
  let ?s2 = "s1\<lparr>coarse_schedule_ref := rtimer_coarse_now s, fine_schedule_ref := now\<rparr>"
  let ?s3 = "rtimer_update_offset fp (rtimer_coarse_now s) now ?s2"
  obtain g where "rtimer_lginterval_to_hwdate fp g RTIMER_INTERVAL_REF ?s3 = Ok (c', f', q, s')"
    using assms 1 by (auto simp: rtimer_lgdate_to_hwdate_def Let_def split: prod.splits)
  then have c: "same_timers ?s3 s'" by (rule rtimer_lginterval_same)
  have "same_timers s s1" using rtimer_now_fine_same [OF 1] by blast
  moreover have "same_timers s1 ?s2" by (simp add: same_timers_def)
  ultimately have "same_timers s ?s2" by (rule same_timers_trans)
  then have "same_timers s ?s3" using rtimer_update_offset_same by (rule same_timers_trans)
  then show ?thesis using c by (rule same_timers_trans)
qed

lemma lf_compare_value_same: "lf_compare_value fp sn tb s = Ok (v, s') \<Longrightarrow> same_timers s s'"
  by (auto simp: lf_compare_value_def res_iff same_timers_def)

lemma rtimer_lf_callback_same: "rtimer_lf_callback fp sn s = Ok s' \<Longrightarrow> same_timers s s'"
  by (auto simp: rtimer_lf_callback_def res_iff Let_def same_timers_def split: if_splits
      dest!: lf_compare_value_same)

lemma rtimer_lf_update_same: "rtimer_lf_update fp s = Ok s' \<Longrightarrow> same_timers s s'"
  by (auto simp: rtimer_lf_update_def Let_def same_timers_def split: option.splits list.splits if_splits
      dest!: rtimer_lf_callback_same)

text \<open>The date a scheduling request resolves to, and the state in which it is resolved.\<close>

definition resolve ::
  "fp_env \<Rightarrow> rtimer_scheduletype_t \<Rightarrow> u32 \<Rightarrow> u32 \<Rightarrow> rtimer_sys \<Rightarrow> (u32 \<times> u32 \<times> u32 \<times> rtimer_sys) res" where
  "resolve fp interval c f s =
     (if interval = RTIMER_DATE then rtimer_lgdate_to_hwdate fp c f s
      else rtimer_lginterval_to_hwdate fp f interval s)"

lemma resolve_same: "resolve fp i c f s = Ok (c', f', q, s') \<Longrightarrow> same_timers s s'"
  by (auto simp: resolve_def rtimer_lgdate_same rtimer_lginterval_same split: if_splits)

lemma rtimer_schedule_request:
  assumes "timer < 2" and "\<not> (c = 0 \<and> f = 0)" and "rt_state (rt s ! timer) \<noteq> RTIMER_SINGLEPASS"
    and "rtimer_schedule fp timer interval c f func s = Ok (b, s')"
  shows "\<exists>hc hf q s1.
     resolve fp interval c f ((set_rt timer (\<lambda>t. t\<lparr>rt_func := func\<rparr>) s)\<lparr>scheduler_occupied := True\<rparr>)
       = Ok (hc, hf, q, s1) \<and>
     (if too_late hc hf q s1 then b = False \<and> s' = s1\<lparr>scheduler_occupied := False\<rparr>
      else b = True \<and> (\<exists>lc lf. (interval = RTIMER_DATE \<longrightarrow> lc = c \<and> lf = f) \<and>
        rtimer_lf_update fp
          (set_rt timer (\<lambda>t. t\<lparr>time_coarse_lg := lc, time_fine_lg := lf,
               time_coarse_hw := hc, time_fine_hw := hf, rt_ta := hw_date_ta hf,
               rt_tb := hw_date_tb hf, rt_state := RTIMER_SCHEDULED\<rparr>)
             (s1\<lparr>scheduler_occupied := False\<rparr>)) = Ok s'))"
proof -
  let ?s0 = "(set_rt timer (\<lambda>t. t\<lparr>rt_func := func\<rparr>) s)\<lparr>scheduler_occupied := True\<rparr>"
  obtain hc hf q s1 where r: "resolve fp interval c f ?s0 = Ok (hc, hf, q, s1)"
    using assms by (cases "resolve fp interval c f ?s0")
      (auto simp: rtimer_schedule_def resolve_def Let_def split: if_splits)
  then show ?thesis
    using assms by (cases "interval = RTIMER_DATE"; cases "too_late hc hf q s1")
      (auto simp: rtimer_schedule_def resolve_def Let_def bindR_Ok_iff split: prod.splits)
qed

lemma set_rt_simps [simp]:
  "scheduler_occupied (set_rt i g s) = scheduler_occupied s"
  "coarse_count (set_rt i g s) = coarse_count s"
  "avg_rate (set_rt i g s) = avg_rate s"
  "scheduler_fine_offset_ref (set_rt i g s) = scheduler_fine_offset_ref s"
  "length (rt (set_rt i g s)) = length (rt s)"
  "i < length (rt s) \<Longrightarrow> rt (set_rt i g s) ! i = g (rt s ! i)"
  "j \<noteq> i \<Longrightarrow> rt (set_rt i g s) ! j = rt s ! j"
  by (simp_all add: set_rt_def)

lemma rtimer_schedule_accepted:
  assumes "length (rt s) = 2" and "timer < 2"
    and "rt_state (rt s ! timer) \<noteq> RTIMER_SINGLEPASS"
    and "rtimer_schedule fp timer interval c f func s = Ok (True, s')"
  shows "rt_state (rt s' ! timer) = RTIMER_SCHEDULED" and "rt_func (rt s' ! timer) = func"
    and "coarse_count s' = coarse_count s" and "\<not> scheduler_occupied s'"
    and "coarse_count s' \<le> time_coarse_hw (rt s' ! timer)"
    and "interval = RTIMER_DATE \<Longrightarrow> time_coarse_lg (rt s' ! timer) = c \<and> time_fine_lg (rt s' ! timer) = f"
    and "j \<noteq> timer \<Longrightarrow> rt s' ! j = rt s ! j" and "length (rt s') = 2"
proof -
  have nz: "\<not> (c = 0 \<and> f = 0)" using assms(2,4) by (auto simp: rtimer_schedule_def)
  let ?s0 = "(set_rt timer (\<lambda>t. t\<lparr>rt_func := func\<rparr>) s)\<lparr>scheduler_occupied := True\<rparr>"
  obtain hc hf q s1 lc lf where r: "resolve fp interval c f ?s0 = Ok (hc, hf, q, s1)"
    and nl: "\<not> too_late hc hf q s1" and lg: "interval = RTIMER_DATE \<longrightarrow> lc = c \<and> lf = f"
    and u: "rtimer_lf_update fp
          (set_rt timer (\<lambda>t. t\<lparr>time_coarse_lg := lc, time_fine_lg := lf,
               time_coarse_hw := hc, time_fine_hw := hf, rt_ta := hw_date_ta hf,
               rt_tb := hw_date_tb hf, rt_state := RTIMER_SCHEDULED\<rparr>)
             (s1\<lparr>scheduler_occupied := False\<rparr>)) = Ok s'"
    using rtimer_schedule_request [OF assms(2) nz assms(3,4)] by (elim exE conjE) (simp split: if_splits, blast)
  note r' = resolve_same [OF r] and u' = rtimer_lf_update_same [OF u]
  have len: "timer < length (rt s1)" using assms(1,2) r' by (simp add: same_timers_def)
  have s1: "coarse_count s1 = coarse_count s" "rt s1 = rt (set_rt timer (\<lambda>t. t\<lparr>rt_func := func\<rparr>) s)"
    using r' by (simp_all add: same_timers_def)
  have s': "coarse_count s' = coarse_count s" "\<not> scheduler_occupied s'" "length (rt s') = 2"
    using u' s1 assms(1) by (simp_all add: same_timers_def)
  have rt': "rt s' ! timer = (rt s1 ! timer)\<lparr>time_coarse_lg := lc, time_fine_lg := lf,
               time_coarse_hw := hc, time_fine_hw := hf, rt_ta := hw_date_ta hf,
               rt_tb := hw_date_tb hf, rt_state := RTIMER_SCHEDULED\<rparr>"
    using u' len by (simp add: same_timers_def)
  have hc: "coarse_count s \<le> hc"
    using nl s1(1) by (auto simp: too_late_def rtimer_coarse_now_def not_less)
  show "rt_state (rt s' ! timer) = RTIMER_SCHEDULED" and "rt_func (rt s' ! timer) = func"
    and "coarse_count s' = coarse_count s" and "\<not> scheduler_occupied s'"
    and "coarse_count s' \<le> time_coarse_hw (rt s' ! timer)"
    and "interval = RTIMER_DATE \<Longrightarrow> time_coarse_lg (rt s' ! timer) = c \<and> time_fine_lg (rt s' ! timer) = f"
    and "length (rt s') = 2"
    using rt' s' s1 lg hc assms(1,2) by simp_all
  show "rt s' ! j = rt s ! j" if "j \<noteq> timer"
    using u' s1 that by (simp add: same_timers_def)
qed

lemma rtimer_schedule_refused:
  assumes "length (rt s) = 2" and "timer < 2" and "\<not> (c = 0 \<and> f = 0)"
    and "rt_state (rt s ! timer) \<noteq> RTIMER_SINGLEPASS"
    and "rtimer_schedule fp timer interval c f func s = Ok (False, s')"
  shows "rt s' ! timer = (rt s ! timer)\<lparr>rt_func := func\<rparr>" and "coarse_count s' = coarse_count s"
    and "\<not> scheduler_occupied s'" and "j \<noteq> timer \<Longrightarrow> rt s' ! j = rt s ! j" and "length (rt s') = 2"
proof -
  let ?s0 = "(set_rt timer (\<lambda>t. t\<lparr>rt_func := func\<rparr>) s)\<lparr>scheduler_occupied := True\<rparr>"
  obtain hc hf q s1 where r: "resolve fp interval c f ?s0 = Ok (hc, hf, q, s1)"
    and s': "s' = s1\<lparr>scheduler_occupied := False\<rparr>"
    using rtimer_schedule_request [OF assms(2-5)] by (auto split: if_splits)
  with resolve_same [OF r] assms(1,2)
  show "rt s' ! timer = (rt s ! timer)\<lparr>rt_func := func\<rparr>" and "coarse_count s' = coarse_count s"
    and "\<not> scheduler_occupied s'" and "j \<noteq> timer \<Longrightarrow> rt s' ! j = rt s ! j" and "length (rt s') = 2"
    by (simp_all add: same_timers_def)
qed

lemma rtimer_schedule_singlepass:
  assumes "timer < 2" and "rt_state (rt s ! timer) = RTIMER_SINGLEPASS" and "\<not> (c = 0 \<and> f = 0)"
  shows "rtimer_schedule fp timer interval c f func s =
           Ok (True, set_rt timer (\<lambda>t. t\<lparr>rt_state := RTIMER_SCHEDULED\<rparr>) s)"
  using assms by (auto simp: rtimer_schedule_def)

section \<open>Properties of the real-time timer\<close>

text \<open>
  The accuracy of \<open>rtimer_stamps_to_now\<close>. When the capture returns and the scaled timer-B ticks
  differ from the timer-A ticks by less than one timer-A period, the fine time is 1024 ticks per
  timer-A tick plus the deviation, except that a negative deviation is reported one tick too high.
\<close>

lemma stamps_to_now_accuracy:
  assumes "\<not> (tb < tb_compare \<and> same_block tb tb_compare)"
    and "dev = uint (d_to_u16 fp (d_mul fp (d_of_int fp (uint (tb - tb_compare))) rate))
               - 1024 * (if ta_compare < ta then uint ta - uint ta_compare else 0)"
    and "-1024 \<le> dev" and "dev < 1024"
  shows "rtimer_stamps_to_now fp ta tb ta_compare tb_compare rate =
           Some (word_of_int (1024 * uint ta + (if 0 \<le> dev then dev else dev + 1)))"
  by (rule stamps_to_now_signed [OF assms])

lemma stamps_to_now_accuracy_example:
  "rtimer_stamps_to_now fp_exact 4 4100 4 4096 (Fin 1) = Some 4100"
  using stamps_to_now_accuracy [of 4100 4096 4 fp_exact "Fin 1" 4 4]
  by (simp add: same_block_def d_of_int_def d_to_u16_def d_to_int_def rat_trunc_def)

text \<open>
  The conversion of a hardware date to a logical date adds the offset: the time of the logical
  date is the time of the hardware date plus the offset, and its fine part is normalised.
\<close>

lemma hwdate_to_lgdate_adds_offset:
  assumes "uint f \<le> 67108863" and "uint off \<le> 2 * 67108863" and "uint c + 2 < 2 ^ 32"
  shows "case rtimer_hwdate_to_lgdate c f off of
           (c', f') \<Rightarrow> ticks c' f' = ticks c f + uint off \<and> uint f' \<le> 67108863"
  using hwdate_to_lgdate_ticks [OF assms] by (auto split: prod.split)

lemma hwdate_to_lgdate_adds_offset_example:
  "case rtimer_hwdate_to_lgdate 3 67108000 67108863 of
     (c', f') \<Rightarrow> ticks c' f' = ticks 3 67108000 + 67108863 \<and> uint f' \<le> 67108863"
  using hwdate_to_lgdate_adds_offset [of 67108000 67108863 3] by simp

text \<open>No operation of the timers dereferences a null pointer.\<close>

named_theorems no_null

lemma capture_loop_no_null [no_null]: "capture_loop fp sns \<noteq> Fault NullDeref"
proof (induction fp sns rule: capture_loop.induct)
  case (1 fp sns)
  show ?case
  proof (cases "clock_get_rate fp sns")
    case None
    then show ?thesis by (simp add: capture_loop.simps)
  next
    case (Some x)
    obtain rate sn rest where x: "x = (rate, sn, rest)" by (cases x)
    show ?thesis
    proof (cases "stamps_now fp (stamps_of rate sn)")
      case None
      then show ?thesis using Some x by (simp add: capture_loop.simps)
    next
      case now: (Some now)
      with 1 [OF Some x [symmetric] refl now] show ?thesis using Some x by (subst capture_loop.simps) simp
    qed
  qed
qed

lemma rtimer_now_fine_no_null [no_null]: "rtimer_now_fine fp s \<noteq> Fault NullDeref"
  by (simp add: rtimer_now_fine_def bindR_Fault_iff no_null split: prod.split)

lemma lginterval_no_null [no_null]: "rtimer_lginterval_to_hwdate fp f i s \<noteq> Fault NullDeref"
  by (auto simp: rtimer_lginterval_to_hwdate_def bindR_Fault_iff no_null Let_def split: prod.splits if_splits)

lemma lgdate_no_null [no_null]: "rtimer_lgdate_to_hwdate fp c f s \<noteq> Fault NullDeref"
  by (auto simp: rtimer_lgdate_to_hwdate_def bindR_Fault_iff no_null Let_def split: prod.splits)

lemma lf_compare_no_null [no_null]: "lf_compare_value fp sn tb s \<noteq> Fault NullDeref"
  by (auto simp: lf_compare_value_def bindR_Fault_iff from_option_def split: option.splits prod.splits)

lemma lf_callback_no_null [no_null]: "rtimer_lf_callback fp sn s \<noteq> Fault NullDeref"
  by (auto simp: rtimer_lf_callback_def bindR_Fault_iff no_null Let_def split: prod.splits if_splits)

lemma lf_update_no_null [no_null]: "rtimer_lf_update fp s \<noteq> Fault NullDeref"
  by (auto simp: rtimer_lf_update_def no_null Let_def split: option.splits list.splits if_splits)

lemma schedule_no_null [no_null]: "rtimer_schedule fp t i c f func s \<noteq> Fault NullDeref"
  by (auto simp: rtimer_schedule_def bindR_Fault_iff no_null Let_def split: prod.splits if_splits)

lemma reschedule_no_null [no_null]: "reschedule fp t s \<noteq> Fault NullDeref"
  by (auto simp: reschedule_def bindR_Fault_iff no_null Let_def split: prod.splits if_splits)

lemma adjust_fine_offset_no_null: "rtimer_adjust_fine_offset fp diff s \<noteq> Fault NullDeref"
  by (auto simp: rtimer_adjust_fine_offset_def bindR_Fault_iff no_null Let_def split: prod.splits if_splits)

lemma schedule_coarse_count:
  assumes "rtimer_schedule fp timer i c f func s = Ok (b, s')"
  shows "coarse_count s' = coarse_count s"
proof (cases "timer < 2 \<and> \<not> (c = 0 \<and> f = 0) \<and> rt_state (rt s ! timer) \<noteq> RTIMER_SINGLEPASS")
  case True
  then obtain hc hf q s1 where r: "resolve fp i c f ((set_rt timer (\<lambda>t. t\<lparr>rt_func := func\<rparr>) s)\<lparr>scheduler_occupied := True\<rparr>) = Ok (hc, hf, q, s1)"
    and e: "s' = s1\<lparr>scheduler_occupied := False\<rparr> \<or> (\<exists>g. rtimer_lf_update fp (set_rt timer g (s1\<lparr>scheduler_occupied := False\<rparr>)) = Ok s')"
    using rtimer_schedule_request [OF _ _ _ assms] by (auto split: if_splits) blast+
  have "coarse_count s1 = coarse_count s" using resolve_same [OF r] by (simp add: same_timers_def)
  with e show ?thesis by (auto simp: same_timers_def dest: rtimer_lf_update_same)
next
  case False
  with assms show ?thesis by (auto simp: rtimer_schedule_def split: if_splits)
qed

lemma reschedule_coarse_count: "reschedule fp t s = Ok s' \<Longrightarrow> coarse_count s' = coarse_count s"
  by (auto simp: reschedule_def Let_def res_iff schedule_coarse_count split: if_splits)

text \<open>No timer has to be scheduled again: none is scheduled, or the offset stays within 200 of the one at the last adjustment.\<close>

definition dates_kept :: "fp_env \<Rightarrow> i32 \<Rightarrow> rtimer_sys \<Rightarrow> bool" where
  "dates_kept fp diff s \<longleftrightarrow> (\<forall>t < 2. rt_state (rt s ! t) \<noteq> RTIMER_SCHEDULED) \<or>
     \<bar>sint (scheduler_fine_offset_ref s - fine_offset (shift_offset fp diff s))\<bar> \<le> 200"

lemma shift_offset_same [simp]:
  "rt (shift_offset fp diff s) = rt s" "scheduler_fine_offset_ref (shift_offset fp diff s) = scheduler_fine_offset_ref s"
  "scheduler_occupied (shift_offset fp diff s) = scheduler_occupied s" "avg_rate (shift_offset fp diff s) = avg_rate s"
  by (simp_all add: shift_offset_def Let_def)

lemma shift_offset_rate: "shift_offset fp diff (s\<lparr>avg_rate := rate\<rparr>) = (shift_offset fp diff s)\<lparr>avg_rate := rate\<rparr>"
  by (simp add: shift_offset_def Let_def)

lemma dates_kept_rate: "dates_kept fp diff (rtimer_set_avg_rate rate s) = dates_kept fp diff s"
  by (simp add: dates_kept_def rtimer_set_avg_rate_def shift_offset_rate)

lemma adjust_fine_offset_quiet:
  assumes "\<not> scheduler_occupied s" "dates_kept fp diff s"
  shows "rtimer_adjust_fine_offset fp diff s =
    Ok ((shift_offset fp diff s)\<lparr>scheduler_fine_offset_ref := fine_offset (shift_offset fp diff s)\<rparr>)"
  using assms by (auto simp: rtimer_adjust_fine_offset_def dates_kept_def Let_def rtimer_diff_def reschedule_def)

lemma adjust_fine_offset_coarse:
  "rtimer_adjust_fine_offset fp diff s = Ok s' \<Longrightarrow> coarse_count s' = coarse_count (shift_offset fp diff s)"
  by (auto simp: rtimer_adjust_fine_offset_def Let_def res_iff dest!: reschedule_coarse_count split: if_splits)

text \<open>
  C25: \<open>rtimer_adjust_fine_offset\<close> with a difference of up to half a coarse unit, a coarse count that does not wrap, a free scheduler and no timer
  that has to be scheduled again returns, with the logical time moved by exactly the difference: the coarse count and the fine offset change together, and the
  offset stays in its window around \<open>RTIMER_FINE_MAX\<close>. The arithmetic may be binary64 or binary32, as on the MSP430: numbers up to \<open>2 ^ 28\<close> may be
  rounded by 8.
\<close>

theorem adjust_offset_conserves_time:
  assumes "fp_near fp" and "offset_in_window (fine_offset s)" and "\<bar>sint diff\<bar> \<le> 33554398"
    and "1 \<le> uint (coarse_count s)" and "uint (coarse_count s) + 1 < 2 ^ 32"
    and "\<not> scheduler_occupied s" and "dates_kept fp diff s"
  shows "\<exists>s'. rtimer_adjust_fine_offset fp diff s = Ok s' \<and> offset_in_window (fine_offset s') \<and>
     ticks (coarse_count s') (fine_offset s') = ticks (coarse_count s) (fine_offset s) - sint diff \<and>
     rt s' = rt s \<and> avg_rate s' = avg_rate s \<and> scheduler_fine_offset_ref s' = fine_offset s'"
  using adjust_fine_offset_quiet [OF assms(6,7)] shift_offset_ticks [OF assms(1-5)] by simp

text \<open>A capture of the registers and a system that the witnesses use.\<close>

definition demo_snapshot :: snapshot where
  "demo_snapshot = \<lparr>s_TACCR0 = 8, s_TBCCR0 = 4096, s_last_tbcrr0 = 0, s_TACCR1 = 4, s_TBCCR3 = 4100\<rparr>"

definition demo_rtimer :: rtimer_sys where
  "demo_rtimer = \<lparr>coarse_count = 5, avg_rate = Fin 0, coarse_offset_ref = 0, fine_offset_ref = 0,
     fine_offset = 67108863, scheduler_fine_offset_ref = 67108863, scheduler_occupied = False,
     coarse_schedule_ref = 5, fine_schedule_ref = 4100, rt = [rtimer_zero, rtimer_zero],
     clock_occupied = False, clock_priority = False, TACCR2 = 0, TACCTL2_CCIE = False, TBCCR4 = 0,
     TBCCTL4_CCIE = False, TBCCR5 = 0, TBCCTL5_CCIE = False, hw = replicate 6 demo_snapshot\<rparr>"

theorem adjust_offset_conserves_time_witness:
  "\<exists>s'. rtimer_adjust_fine_offset fp_sixteen 1000 demo_rtimer = Ok s' \<and> offset_in_window (fine_offset s') \<and>
     ticks (coarse_count s') (fine_offset s') = ticks 5 67108863 - 1000"
  using adjust_offset_conserves_time [of fp_sixteen demo_rtimer 1000] fp_near_sixteen
  by (auto simp: demo_rtimer_def offset_in_window_def dates_kept_def less_2_cases_iff rtimer_zero_def)

text \<open>
  An accepted request of \<open>rtimer_schedule\<close> leaves the timer scheduled with the requested callback at
  a hardware date that is not in the past, keeps the requested logical date when a date was
  requested, releases the scheduler, and leaves the clock and the other timer alone.
\<close>

lemma schedule_accepted:
  assumes "length (rt s) = 2" and "timer < 2" and "rt_state (rt s ! timer) \<noteq> RTIMER_SINGLEPASS"
    and "rtimer_schedule fp timer interval c f func s = Ok (True, s')"
  shows "rt_state (rt s' ! timer) = RTIMER_SCHEDULED \<and> rt_func (rt s' ! timer) = func \<and>
         coarse_count s' = coarse_count s \<and> \<not> scheduler_occupied s' \<and>
         coarse_count s' \<le> time_coarse_hw (rt s' ! timer) \<and>
         (interval = RTIMER_DATE \<longrightarrow> time_coarse_lg (rt s' ! timer) = c \<and> time_fine_lg (rt s' ! timer) = f) \<and>
         (\<forall>j. j \<noteq> timer \<longrightarrow> rt s' ! j = rt s ! j)"
  using rtimer_schedule_accepted [OF assms] by blast

lemma schedule_accepted_example:
  "\<exists>s'. rtimer_schedule fp_exact 0 RTIMER_INTERVAL_NOW 0 524288 cb_idle demo_rtimer = Ok (True, s') \<and>
     rt_state (rt s' ! 0) = RTIMER_SCHEDULED \<and> rt_func (rt s' ! 0) = cb_idle"
proof -
  have "case rtimer_schedule fp_exact 0 RTIMER_INTERVAL_NOW 0 524288 cb_idle demo_rtimer of
      Ok (b, _) \<Rightarrow> b | Fault _ \<Rightarrow> False"
    by code_simp
  then obtain s' where
    "rtimer_schedule fp_exact 0 RTIMER_INTERVAL_NOW 0 524288 cb_idle demo_rtimer = Ok (True, s')"
    by (auto split: res.splits prod.splits)
  with schedule_accepted [of demo_rtimer 0 fp_exact RTIMER_INTERVAL_NOW 0 524288 cb_idle s'] show ?thesis
    by (auto simp: demo_rtimer_def rtimer_zero_def)
qed

text \<open>
  A refused request for a free timer leaves the dates and the state of the timer, the clock and the
  other timer as they were, but the callback of the timer has been replaced by the requested one.
\<close>

lemma schedule_refused:
  assumes "length (rt s) = 2" and "timer < 2" and "\<not> (c = 0 \<and> f = 0)"
    and "rt_state (rt s ! timer) \<noteq> RTIMER_SINGLEPASS"
    and "rtimer_schedule fp timer interval c f func s = Ok (False, s')"
  shows "rt s' ! timer = (rt s ! timer)\<lparr>rt_func := func\<rparr> \<and> coarse_count s' = coarse_count s \<and>
         \<not> scheduler_occupied s' \<and> (\<forall>j. j \<noteq> timer \<longrightarrow> rt s' ! j = rt s ! j)"
  using rtimer_schedule_refused [OF assms] by blast

lemma schedule_refused_example:
  "\<exists>s'. rtimer_schedule fp_exact 0 RTIMER_INTERVAL_REF 0 1 cb_idle demo_rtimer = Ok (False, s') \<and>
     rt_func (rt s' ! 0) = cb_idle \<and> rt_func (rt demo_rtimer ! 0) = cb_null"
proof -
  have "case rtimer_schedule fp_exact 0 RTIMER_INTERVAL_REF 0 1 cb_idle demo_rtimer of
      Ok (b, _) \<Rightarrow> \<not> b | Fault _ \<Rightarrow> False"
    by code_simp
  then obtain s' where
    "rtimer_schedule fp_exact 0 RTIMER_INTERVAL_REF 0 1 cb_idle demo_rtimer = Ok (False, s')"
    by (auto split: res.splits prod.splits)
  with schedule_refused [of demo_rtimer 0 0 1 fp_exact RTIMER_INTERVAL_REF cb_idle s'] show ?thesis
    by (auto simp: demo_rtimer_def rtimer_zero_def)
qed

text \<open>
  Which timer \<open>rtimer_lf_update\<close> programs when both are scheduled: timer 1 only if neither its coarse
  nor its fine time is above that of timer 0. So a timer 1 that is due a whole coarse period earlier is
  passed over when its fine time is larger.
\<close>

lemma select_between_two:
  assumes "length (rt s) = 2" and "rt_state (rt s ! 0) = RTIMER_SCHEDULED" and "rt_state (rt s ! 1) = RTIMER_SCHEDULED"
  shows "rtimer_select s = Some (if time_coarse_hw (rt s ! 1) \<le> time_coarse_hw (rt s ! 0) \<and>
                                    time_fine_hw (rt s ! 1) \<le> time_fine_hw (rt s ! 0) then 1 else 0)"
proof -
  have max: "x \<le> (0xFFFFFFFF :: u32)" for x
  proof -
    have "uint x < 2 ^ 32" using uint_lt2p [of x] by simp
    then show ?thesis by (simp add: word_le_def)
  qed
  show ?thesis using assms max by (auto simp: rtimer_select_def select_step_def Let_def)
qed

lemma select_between_two_example:
  "rtimer_select (demo_rtimer\<lparr>rt := [rtimer_zero\<lparr>rt_state := RTIMER_SCHEDULED, time_coarse_hw := 9, time_fine_hw := 10\<rparr>,
     rtimer_zero\<lparr>rt_state := RTIMER_SCHEDULED, time_coarse_hw := 8, time_fine_hw := 11\<rparr>]\<rparr>) = Some 0"
  using select_between_two [of "demo_rtimer\<lparr>rt := [rtimer_zero\<lparr>rt_state := RTIMER_SCHEDULED, time_coarse_hw := 9, time_fine_hw := 10\<rparr>,
     rtimer_zero\<lparr>rt_state := RTIMER_SCHEDULED, time_coarse_hw := 8, time_fine_hw := 11\<rparr>]\<rparr>"]
  by simp

text \<open>
  The length of the interval between two logical dates, for an interval below 2^32 ticks: it counts
  2^26 ticks per coarse unit, and it is one tick short whenever the fine part borrows. The interval
  between two equal dates is therefore 2^32 - 1.
\<close>

lemma interval_between_dates:
  assumes "delta = (uint c - uint c0) * 2 ^ 26 + uint f - uint f0 - (if f0 < f then 0 else 1)"
    and "0 \<le> delta" and "delta < 2 ^ 32"
  shows "map_prod uint uint (rtimer_lgdates_to_lg_interval c f c0 f0) = (0, delta) \<and>
         rtimer_lgdates_to_lg_interval c f c f = (0, 0xFFFFFFFF)"
  using lg_interval_ticks [OF assms] by (cases "rtimer_lgdates_to_lg_interval c f c0 f0") (simp add: lg_interval_word)

lemma interval_between_dates_example:
  "map_prod uint uint (rtimer_lgdates_to_lg_interval 7 100 6 200) = (0, 67108763) \<and>
   rtimer_lgdates_to_lg_interval 7 100 7 100 = (0, 0xFFFFFFFF)"
  using interval_between_dates [of 67108763 7 6 100 200] by simp

end
