(* ===== verification/Announcement.thy ===== *)
theory Announcement
  imports Rtimer Linked_List
begin

text \<open>
  The announcement primitive \<^verbatim>\<open>src/core/net/rime/announcement.c\<close>. The announcements are static
  objects of the program: a pointer to one is its number in the table \<open>ann_tab\<close>, and \<open>announcements\<close>
  is the list of the registered ones. The list operations are the sequence operations that list.c
  refines. A callback and an observer are named; their call is made by the layers above.
\<close>

section \<open>Data\<close>

datatype annstate_t = PENDING | DROPPED | SENT

record announcement_value =
  av_instr :: u8
  av_degree :: u8
  av_date_coarse :: u32
  av_date_fine :: u32
  av_ref_addr :: u16
  av_cons_rate :: dbl

datatype ann_callback =
    recv_discovery | recv_revelation | recv_declaration | recv_convergence | recv_synchronization

datatype ann_observer = observer_pa | observer_ba

record announcement =
  ann_id :: u16
  ann_has_value :: bool
  ann_value :: announcement_value
  ann_callback :: "ann_callback option"

abbreviation discovery_announcement :: ptr where "discovery_announcement \<equiv> 0"
abbreviation revelation_announcement :: ptr where "revelation_announcement \<equiv> 1"
abbreviation declaration_announcement :: ptr where "declaration_announcement \<equiv> 2"
abbreviation convergence_announcement :: ptr where "convergence_announcement \<equiv> 3"
abbreviation synchronization_announcement :: ptr where "synchronization_announcement \<equiv> 4"

record ann_sys =
  announcements :: "ptr list"
  ann_tab :: "announcement list"
  observer_callback :: "ann_observer option"

definition av_zero :: announcement_value where
  "av_zero = \<lparr>av_instr = 0, av_degree = 0, av_date_coarse = 0, av_date_fine = 0, av_ref_addr = 0,
     av_cons_rate = Fin 0\<rparr>"

definition ann_zero :: announcement where
  "ann_zero = \<lparr>ann_id = 0, ann_has_value = False, ann_value = av_zero, ann_callback = None\<rparr>"

text \<open>The static objects at program start.\<close>

definition ann_sys_start :: ann_sys where
  "ann_sys_start = \<lparr>announcements = [], ann_tab = replicate 5 ann_zero, observer_callback = None\<rparr>"

definition upd_ann :: "ptr \<Rightarrow> (announcement \<Rightarrow> announcement) \<Rightarrow> ann_sys \<Rightarrow> ann_sys" where
  "upd_ann a f s = s\<lparr>ann_tab := (ann_tab s)[a := f (ann_tab s ! a)]\<rparr>"

definition upd_value :: "ptr \<Rightarrow> (announcement_value \<Rightarrow> announcement_value) \<Rightarrow> ann_sys \<Rightarrow> ann_sys" where
  "upd_value a f = upd_ann a (\<lambda>x. x\<lparr>ann_value := f (ann_value x)\<rparr>)"

section \<open>Operations\<close>

definition announcement_init :: "ann_sys \<Rightarrow> ann_sys" where
  "announcement_init s = s\<lparr>announcements := []\<rparr>"

definition announcement_set_instr :: "ptr \<Rightarrow> u8 \<Rightarrow> ann_sys \<Rightarrow> ann_sys" where
  "announcement_set_instr a instr = upd_value a (\<lambda>v. v\<lparr>av_instr := instr\<rparr>)"

definition announcement_get_instr :: "ptr \<Rightarrow> ann_sys \<Rightarrow> u8" where
  "announcement_get_instr a s = av_instr (ann_value (ann_tab s ! a))"

definition announcement_set_degree :: "ptr \<Rightarrow> u8 \<Rightarrow> ann_sys \<Rightarrow> ann_sys" where
  "announcement_set_degree a degree = upd_value a (\<lambda>v. v\<lparr>av_degree := degree\<rparr>)"

definition announcement_set_date_coarse :: "ptr \<Rightarrow> u32 \<Rightarrow> ann_sys \<Rightarrow> ann_sys" where
  "announcement_set_date_coarse a date_coarse = upd_value a (\<lambda>v. v\<lparr>av_date_coarse := date_coarse\<rparr>)"

definition announcement_get_date_coarse :: "ptr \<Rightarrow> ann_sys \<Rightarrow> u32" where
  "announcement_get_date_coarse a s = av_date_coarse (ann_value (ann_tab s ! a))"

definition announcement_set_date_fine :: "ptr \<Rightarrow> u32 \<Rightarrow> ann_sys \<Rightarrow> ann_sys" where
  "announcement_set_date_fine a date_fine = upd_value a (\<lambda>v. v\<lparr>av_date_fine := date_fine\<rparr>)"

definition announcement_get_date_fine :: "ptr \<Rightarrow> ann_sys \<Rightarrow> u32" where
  "announcement_get_date_fine a s = av_date_fine (ann_value (ann_tab s ! a))"

definition announcement_set_ref_addr :: "ptr \<Rightarrow> u16 \<Rightarrow> ann_sys \<Rightarrow> ann_sys" where
  "announcement_set_ref_addr a ref_addr = upd_value a (\<lambda>v. v\<lparr>av_ref_addr := ref_addr\<rparr>)"

definition announcement_get_ref_addr :: "ptr \<Rightarrow> ann_sys \<Rightarrow> u16" where
  "announcement_get_ref_addr a s = av_ref_addr (ann_value (ann_tab s ! a))"

definition announcement_set_cons_rate :: "ptr \<Rightarrow> dbl \<Rightarrow> ann_sys \<Rightarrow> ann_sys" where
  "announcement_set_cons_rate a cons_rate = upd_value a (\<lambda>v. v\<lparr>av_cons_rate := cons_rate\<rparr>)"

definition announcement_get_cons_rate :: "ptr \<Rightarrow> ann_sys \<Rightarrow> dbl" where
  "announcement_get_cons_rate a s = av_cons_rate (ann_value (ann_tab s ! a))"

definition announcement_register :: "fp_env \<Rightarrow> ptr \<Rightarrow> u16 \<Rightarrow> ann_callback \<Rightarrow> ann_sys \<Rightarrow> ann_sys" where
  "announcement_register fp a ident callback s =
     (let s1 = upd_ann a (\<lambda>x. x\<lparr>ann_id := ident, ann_has_value := False\<rparr>) s;
          s2 = announcement_set_degree a 0 s1;
          s3 = announcement_set_instr a 0 s2;
          s4 = announcement_set_date_coarse a 0 s3;
          s5 = announcement_set_date_fine a 0 s4;
          s6 = announcement_set_ref_addr a 0 s5;
          s7 = announcement_set_cons_rate a (d_of_int fp 1) s6;
          s8 = upd_ann a (\<lambda>x. x\<lparr>ann_callback := Some callback\<rparr>) s7
      in s8\<lparr>announcements := seq_add a (announcements s8)\<rparr>)"

definition announcement_remove :: "ptr \<Rightarrow> ann_sys \<Rightarrow> ann_sys" where
  "announcement_remove a s = s\<lparr>announcements := remove1 a (announcements s)\<rparr>"

definition announcement_add_value :: "ptr \<Rightarrow> ann_sys \<Rightarrow> ann_sys" where
  "announcement_add_value a = upd_ann a (\<lambda>x. x\<lparr>ann_has_value := True\<rparr>)"

definition announcement_remove_value :: "ptr \<Rightarrow> ann_sys \<Rightarrow> ann_sys" where
  "announcement_remove_value a = upd_ann a (\<lambda>x. x\<lparr>ann_has_value := False\<rparr>)"

definition announcement_register_observer_callback :: "ann_observer \<Rightarrow> ann_sys \<Rightarrow> ann_sys" where
  "announcement_register_observer_callback callback s = s\<lparr>observer_callback := Some callback\<rparr>"

text \<open>
  \<open>announcement_heard\<close> looks for the first registered announcement with the identifier; the result is
  the announcement and the callback that is called.
\<close>

definition announcement_heard :: "u16 \<Rightarrow> ann_sys \<Rightarrow> (ptr \<times> ann_callback) option" where
  "announcement_heard ident s =
     (case List.find (\<lambda>a. ann_id (ann_tab s ! a) = ident) (announcements s) of
        None \<Rightarrow> None
      | Some a \<Rightarrow> map_option (Pair a) (ann_callback (ann_tab s ! a)))"

text \<open>The registered announcements that carry a value, as the senders collect them.\<close>

definition announcement_data :: "ann_sys \<Rightarrow> (u16 \<times> announcement_value) list" where
  "announcement_data s =
     map (\<lambda>a. (ann_id (ann_tab s ! a), ann_value (ann_tab s ! a)))
       (filter (\<lambda>a. ann_has_value (ann_tab s ! a)) (announcements s))"

section \<open>The table\<close>

lemma upd_ann_simps [simp]:
  "announcements (upd_ann a f s) = announcements s"
  "observer_callback (upd_ann a f s) = observer_callback s"
  "length (ann_tab (upd_ann a f s)) = length (ann_tab s)"
  "b \<noteq> a \<Longrightarrow> ann_tab (upd_ann a f s) ! b = ann_tab s ! b"
  "a < length (ann_tab s) \<Longrightarrow> ann_tab (upd_ann a f s) ! a = f (ann_tab s ! a)"
  by (simp_all add: upd_ann_def)

lemma upd_value_simps [simp]:
  "announcements (upd_value a f s) = announcements s"
  "observer_callback (upd_value a f s) = observer_callback s"
  "length (ann_tab (upd_value a f s)) = length (ann_tab s)"
  "b \<noteq> a \<Longrightarrow> ann_tab (upd_value a f s) ! b = ann_tab s ! b"
  "a < length (ann_tab s) \<Longrightarrow>
     ann_tab (upd_value a f s) ! a = (ann_tab s ! a)\<lparr>ann_value := f (ann_value (ann_tab s ! a))\<rparr>"
  by (simp_all add: upd_value_def)

lemmas ann_setters =
  announcement_set_instr_def announcement_set_degree_def announcement_set_date_coarse_def
  announcement_set_date_fine_def announcement_set_ref_addr_def announcement_set_cons_rate_def
  announcement_add_value_def announcement_remove_value_def

text \<open>Registration resets the value and makes the announcement the last one of the list.\<close>

lemma register_tab:
  assumes "a < length (ann_tab s)"
  shows "ann_tab (announcement_register fp a i cb s) ! a =
      \<lparr>ann_id = i, ann_has_value = False,
       ann_value = \<lparr>av_instr = 0, av_degree = 0, av_date_coarse = 0, av_date_fine = 0, av_ref_addr = 0,
                    av_cons_rate = d_of_int fp 1\<rparr>,
       ann_callback = Some cb\<rparr>"
    and "b \<noteq> a \<Longrightarrow> ann_tab (announcement_register fp a i cb s) ! b = ann_tab s ! b"
    and "announcements (announcement_register fp a i cb s) = remove1 a (announcements s) @ [a]"
    and "length (ann_tab (announcement_register fp a i cb s)) = length (ann_tab s)"
  using assms by (simp_all add: announcement_register_def Let_def ann_setters seq_add_def)

end
