(* ===== verification/Adv_Net.thy ===== *)
theory Adv_Net
  imports Announcement Packetbuf
begin

text \<open>
  The two senders of announcements: polite broadcasts (\<^verbatim>\<open>src/core/net/rime/ipolite.c\<close> and
  \<^verbatim>\<open>src/core/net/rime/polite-announcement.c\<close>) and periodic broadcasts
  (\<^verbatim>\<open>src/core/net/rime/broadcast-announcement.c\<close>), over the packet buffer and the real-time timer.

  The state is the record \<open>dev\<close>; the C-sync program extends it. A running callback timer is the
  interval it was set to. Random numbers, and whether the pool of queue buffers has a buffer left, are
  inputs. \<open>out\<close> records the frames handed to \<open>broadcast_send\<close>, newest first.

  The layout of the two C structs in a frame depends on the target: their sizes and their byte
  representations are parameters (\<open>netenv\<close>), as is the success of \<open>broadcast_send\<close>.
\<close>

section \<open>Data\<close>

record netenv =
  fpe :: fp_env
  sz_data :: nat
  enc_data :: "u16 \<times> announcement_value \<Rightarrow> u8 list"
  dec_data :: "u8 list \<Rightarrow> u16 \<times> announcement_value"
  sz_sync :: nat
  enc_sync :: "timesync_frame_t \<Rightarrow> u8 list"
  dec_sync :: "u8 list \<Rightarrow> timesync_frame_t"
  bc_ok :: bool

record queuebuf =
  qb_data :: "u8 list"
  qb_attrs :: "pb_attr \<Rightarrow> u16"
  qb_addrs :: "nat \<Rightarrow> u16"

record dev =
  rts :: rtimer_sys
  ann :: ann_sys
  pb :: pbuf
  ip_open :: "u16 option"
  ip_q :: "queuebuf option"
  ip_t :: "u32 option"
  ip_hdrsize :: u8
  ip_maxdups :: u8
  ip_dups :: u8
  ip_syncframe :: nat
  pa_interval :: u32
  pa_last_event :: annstate_t
  pa_send_dups :: u8
  pa_max_send_dups :: u8
  ba_open :: "u16 option"
  ba_send_timer :: "u32 option"
  ba_interval_timer :: "u32 option"
  ba_current_interval :: u32
  ba_min_interval :: u32
  ba_max_interval :: u32
  rnds :: "u16 list"
  qbs :: "bool list"
  out :: "(u8 list \<times> u16) list"

abbreviation ANNOUNCEMENT_MSG_HEADERLEN :: u16 where "ANNOUNCEMENT_MSG_HEADERLEN \<equiv> 2"
abbreviation PACKET_TYPE_TIMESTAMP :: u16 where "PACKET_TYPE_TIMESTAMP \<equiv> 4"
abbreviation POLITE_INTERVAL :: u32 where "POLITE_INTERVAL \<equiv> 4"

section \<open>Inputs and outputs\<close>

definition random_rand :: "'s dev_scheme \<Rightarrow> (u16 \<times> 's dev_scheme) res" where
  "random_rand s = (case rnds s of [] \<Rightarrow> Fault EnvExhausted | r # rs \<Rightarrow> Ok (r, s\<lparr>rnds := rs\<rparr>))"

text \<open>\<^verbatim>\<open>random_rand() % interval\<close>\<close>

definition random_mod :: "u32 \<Rightarrow> 's dev_scheme \<Rightarrow> (u32 \<times> 's dev_scheme) res" where
  "random_mod interval s =
     bindR (random_rand s) (\<lambda>(r, s1).
       if interval = 0 then Fault DivZero else Ok (ucast r mod interval, s1))"

definition queuebuf_new_from_packetbuf :: "'s dev_scheme \<Rightarrow> (queuebuf option \<times> 's dev_scheme) res" where
  "queuebuf_new_from_packetbuf s = (case qbs s of
       [] \<Rightarrow> Fault EnvExhausted
     | False # bs \<Rightarrow> Ok (None, s\<lparr>qbs := bs\<rparr>)
     | True # bs \<Rightarrow> bindR (packetbuf_copyto (pb s)) (\<lambda>d.
         Ok (Some \<lparr>qb_data = d, qb_attrs = pb_attrs (pb s), qb_addrs = pb_addrs (pb s)\<rparr>, s\<lparr>qbs := bs\<rparr>)))"

definition queuebuf_to_packetbuf :: "queuebuf \<Rightarrow> 's dev_scheme \<Rightarrow> 's dev_scheme res" where
  "queuebuf_to_packetbuf q s =
     bindR (packetbuf_copyfrom (qb_data q) (of_nat (length (qb_data q))) (pb s)) (\<lambda>(l, b).
       Ok (s\<lparr>pb := b\<lparr>pb_attrs := qb_attrs q, pb_addrs := qb_addrs q\<rparr>\<rparr>))"

text \<open>\<open>rtimer_sync_send\<close> fills the frame at the given offset of the packet buffer.\<close>

definition sync_send_at :: "'e netenv_scheme \<Rightarrow> nat \<Rightarrow> 's dev_scheme \<Rightarrow> 's dev_scheme res" where
  "sync_send_at e off s =
     bindR (rtimer_sync_send (fpe e) (rts s)) (\<lambda>(sf, r).
     bindR (put_bytes off (enc_sync e sf) (pb_data (pb s))) (\<lambda>mem.
       Ok (s\<lparr>rts := r, pb := (pb s)\<lparr>pb_data := mem\<rparr>\<rparr>)))"

text \<open>The frame that goes out is the data of the packet buffer, with its packet type.\<close>

definition broadcast_send :: "'e netenv_scheme \<Rightarrow> 's dev_scheme \<Rightarrow> (bool \<times> 's dev_scheme) res" where
  "broadcast_send e s =
     bindR (get_bytes (packetbuf_dataptr (pb s)) (unat (packetbuf_datalen (pb s))) (pb_data (pb s))) (\<lambda>d.
       Ok (bc_ok e, s\<lparr>out := (d, packetbuf_attr ATTR_PACKET_TYPE (pb s)) # out s\<rparr>))"

section \<open>ipolite.c\<close>

definition ipolite_open :: "u16 \<Rightarrow> u8 \<Rightarrow> 's dev_scheme \<Rightarrow> 's dev_scheme" where
  "ipolite_open channel dups s = s\<lparr>ip_open := Some channel, ip_maxdups := dups\<rparr>"

definition ipolite_close :: "'s dev_scheme \<Rightarrow> 's dev_scheme" where
  "ipolite_close s = s\<lparr>ip_open := None, ip_t := None, ip_q := None\<rparr>"

definition ipolite_cancel :: "'s dev_scheme \<Rightarrow> 's dev_scheme" where
  "ipolite_cancel s = s\<lparr>ip_t := None, ip_q := None\<rparr>"

definition ipolite_set_max_dups :: "u8 \<Rightarrow> 's dev_scheme \<Rightarrow> 's dev_scheme" where
  "ipolite_set_max_dups max_dups s = s\<lparr>ip_maxdups := max_dups\<rparr>"

definition ipolite_send ::
  "'e netenv_scheme \<Rightarrow> u32 \<Rightarrow> u8 \<Rightarrow> nat \<Rightarrow> 's dev_scheme \<Rightarrow> (bool \<times> 's dev_scheme) res" where
  "ipolite_send e interval hdrsize syncframe s =
     (let s1 = (if ip_q s \<noteq> None then s\<lparr>ip_q := None, ip_t := None\<rparr> else s);
          s2 = s1\<lparr>ip_dups := 0, ip_hdrsize := hdrsize\<rparr>
      in if interval = 0 then
           bindR (sync_send_at e syncframe s2) (\<lambda>s3.
             broadcast_send e (s3\<lparr>pb := packetbuf_set_attr ATTR_PACKET_TYPE PACKET_TYPE_TIMESTAMP (pb s3)\<rparr>))
         else
           bindR (queuebuf_new_from_packetbuf s2) (\<lambda>(q, s3).
             let s4 = s3\<lparr>ip_q := q\<rparr> in
             if q \<noteq> None then
               bindR (random_mod interval (s4\<lparr>ip_syncframe := syncframe\<rparr>)) (\<lambda>(r, s5).
                 Ok (True, s5\<lparr>ip_t := Some (interval + r)\<rparr>))
             else Ok (False, s4)))"

text \<open>The callback of the timer \<open>t\<close>.\<close>

definition ip_send :: "'e netenv_scheme \<Rightarrow> 's dev_scheme \<Rightarrow> 's dev_scheme res" where
  "ip_send e s = (case ip_q s of
       None \<Rightarrow> Ok s
     | Some q \<Rightarrow>
         bindR (queuebuf_to_packetbuf q s) (\<lambda>s1.
         bindR (sync_send_at e (ip_syncframe s1) (s1\<lparr>ip_q := None\<rparr>)) (\<lambda>s2.
         bindR (broadcast_send e (s2\<lparr>pb := packetbuf_set_attr ATTR_PACKET_TYPE PACKET_TYPE_TIMESTAMP (pb s2)\<rparr>))
           (\<lambda>(_, s3). Ok s3))))"

text \<open>The timer fires: it no longer runs when its callback is called.\<close>

definition ip_timer_fires :: "'e netenv_scheme \<Rightarrow> 's dev_scheme \<Rightarrow> 's dev_scheme res" where
  "ip_timer_fires e s = ip_send e (s\<lparr>ip_t := None\<rparr>)"

text \<open>The test of \<open>recv\<close> for a copy of the queued packet.\<close>

definition is_duplicate :: "'e netenv_scheme \<Rightarrow> 's dev_scheme \<Rightarrow> bool res" where
  "is_duplicate e s = (case ip_q s of
       None \<Rightarrow> Ok False
     | Some q \<Rightarrow>
         if packetbuf_datalen (pb s) = of_nat (length (qb_data q)) then
           let n = min (unat (ip_hdrsize s)) (unat (packetbuf_datalen (pb s) - of_nat (sz_sync e))) in
           bindR (get_bytes (packetbuf_dataptr (pb s)) n (pb_data (pb s))) (\<lambda>a.
           bindR (get_bytes 0 n (qb_data q)) (\<lambda>b. Ok (a = b)))
         else Ok False)"

text \<open>\<open>adv_packet_dropped\<close> of polite-announcement.c, the \<open>dropped\<close> callback of the connection.\<close>

definition adv_packet_dropped :: "'s dev_scheme \<Rightarrow> 's dev_scheme" where
  "adv_packet_dropped s = s\<lparr>pa_last_event := DROPPED\<rparr>"

text \<open>The first half of \<open>recv\<close>: counting a duplicate. The callback \<open>recv\<close> follows.\<close>

definition ip_recv_dups :: "'e netenv_scheme \<Rightarrow> 's dev_scheme \<Rightarrow> 's dev_scheme res" where
  "ip_recv_dups e s =
     bindR (is_duplicate e s) (\<lambda>dup.
       if dup then
         let s1 = s\<lparr>ip_dups := ip_dups s + 1\<rparr> in
         if ip_maxdups s1 \<le> ip_dups s1
         then Ok (adv_packet_dropped (s1\<lparr>ip_q := None, ip_t := None\<rparr>))
         else Ok s1
       else Ok s)"

section \<open>polite-announcement.c\<close>

text \<open>Writing the announcements behind the counter \<open>num\<close> of the message.\<close>

fun write_adata ::
  "'e netenv_scheme \<Rightarrow> u16 \<Rightarrow> (u16 \<times> announcement_value) list \<Rightarrow> u8 list \<Rightarrow> (u16 \<times> u8 list) res" where
  "write_adata e num [] mem = Ok (num, mem)"
| "write_adata e num (d # ds) mem =
     bindR (put_bytes (2 + sz_data e * unat num) (enc_data e d) mem) (\<lambda>mem1.
     bindR (put_bytes 0 (enc_u16 (num + 1)) mem1) (write_adata e (num + 1) ds))"

definition announcement_datalength :: "'e netenv_scheme \<Rightarrow> u16 \<Rightarrow> u16" where
  "announcement_datalength e num = ANNOUNCEMENT_MSG_HEADERLEN + of_nat (sz_data e) * num"

text \<open>The message in the packet buffer: the number of announcements, and its length set.\<close>

definition build_adv ::
  "'e netenv_scheme \<Rightarrow> (u16 \<times> announcement_value) list \<Rightarrow> 's dev_scheme \<Rightarrow> (u16 \<times> 's dev_scheme) res" where
  "build_adv e ds s =
     (let b = packetbuf_clear (pb s) in
      bindR (put_bytes 0 (enc_u16 0) (pb_data b)) (\<lambda>mem0.
      bindR (write_adata e 0 ds mem0) (\<lambda>(num, mem).
        Ok (num, s\<lparr>pb := b\<lparr>pb_data := mem\<rparr>\<rparr>))))"

definition pa_send_adv :: "'e netenv_scheme \<Rightarrow> u32 \<Rightarrow> 's dev_scheme \<Rightarrow> 's dev_scheme res" where
  "pa_send_adv e interval s =
     bindR (build_adv e (announcement_data (ann s)) s) (\<lambda>(num, s1).
       let len = announcement_datalength e num;
           b = packetbuf_set_datalen (len + of_nat (sz_sync e)) (pb s1);
           s2 = s1\<lparr>pb := b\<rparr>
       in if num > 0
          then bindR (ipolite_send e interval (ucast (packetbuf_datalen b)) (unat len) s2) (\<lambda>(_, s3). Ok s3)
          else Ok s2)"

text \<open>
  \<open>adv_packet_received\<close>, the same code in both senders: the counter and the time-sync frame are
  copied, the length is checked, and each announcement is copied and reported. What happens on a
  report is the parameter \<open>heard\<close>.
\<close>

fun adv_loop ::
  "'e netenv_scheme \<Rightarrow> (u16 \<Rightarrow> announcement_value \<Rightarrow> 's dev_scheme \<Rightarrow> 's dev_scheme res) \<Rightarrow>
   nat \<Rightarrow> nat \<Rightarrow> 's dev_scheme \<Rightarrow> 's dev_scheme res" where
  "adv_loop e heard 0 p s = Ok s"
| "adv_loop e heard (Suc n) p s =
     bindR (get_bytes p (sz_data e) (pb_data (pb s))) (\<lambda>bs.
       let d = dec_data e bs in
       bindR (heard (fst d) (snd d) s) (adv_loop e heard n (p + sz_data e)))"

definition adv_packet_received ::
  "'e netenv_scheme \<Rightarrow> (timesync_frame_t \<Rightarrow> u16 \<Rightarrow> announcement_value \<Rightarrow> 's dev_scheme \<Rightarrow> 's dev_scheme res) \<Rightarrow>
   's dev_scheme \<Rightarrow> 's dev_scheme res" where
  "adv_packet_received e heard s =
     (let p = packetbuf_dataptr (pb s) in
      bindR (get_bytes p 2 (pb_data (pb s))) (\<lambda>nb.
        let num = dec_u16 nb; len = announcement_datalength e num in
        bindR (get_bytes (p + unat len) (sz_sync e) (pb_data (pb s))) (\<lambda>sb.
          if packetbuf_datalen (pb s) < len + of_nat (sz_sync e) then Ok s
          else adv_loop e (heard (dec_sync e sb)) (unat num) (p + 2) s)))"

definition adv_packet_sent :: "'e netenv_scheme \<Rightarrow> 's dev_scheme \<Rightarrow> 's dev_scheme res" where
  "adv_packet_sent e s =
     (let s1 = s\<lparr>pa_send_dups := pa_send_dups s + 1\<rparr> in
      if pa_send_dups s1 < pa_max_send_dups s1
      then pa_send_adv e (pa_interval s1 + POLITE_INTERVAL * ucast (pa_send_dups s1)) s1
      else Ok (s1\<lparr>pa_last_event := SENT\<rparr>))"

definition run_observer_pa :: "'e netenv_scheme \<Rightarrow> 's dev_scheme \<Rightarrow> 's dev_scheme res" where
  "run_observer_pa e s = pa_send_adv e (pa_interval s) (s\<lparr>pa_send_dups := 0\<rparr>)"

definition polite_announcement_init :: "u16 \<Rightarrow> u32 \<Rightarrow> u8 \<Rightarrow> u8 \<Rightarrow> 's dev_scheme \<Rightarrow> 's dev_scheme" where
  "polite_announcement_init channel interval max_send_dups max_recv_dups s =
     (ipolite_open channel max_recv_dups s)
       \<lparr>pa_last_event := PENDING, pa_interval := interval, pa_send_dups := 0,
        pa_max_send_dups := max_send_dups,
        ann := announcement_register_observer_callback observer_pa (ann s)\<rparr>"

definition polite_announcement_stop :: "'s dev_scheme \<Rightarrow> 's dev_scheme" where
  "polite_announcement_stop s = ipolite_close (ipolite_cancel s)"

definition polite_announcement_cancel :: "'s dev_scheme \<Rightarrow> 's dev_scheme" where
  "polite_announcement_cancel s = ipolite_cancel (s\<lparr>pa_last_event := PENDING, pa_send_dups := 0xFF\<rparr>)"

definition polite_announcement_set_interval :: "u32 \<Rightarrow> 's dev_scheme \<Rightarrow> 's dev_scheme" where
  "polite_announcement_set_interval interval s = s\<lparr>pa_interval := interval\<rparr>"

definition polite_announcement_set_max_send_dups :: "u8 \<Rightarrow> 's dev_scheme \<Rightarrow> 's dev_scheme" where
  "polite_announcement_set_max_send_dups max_send_dups s = s\<lparr>pa_max_send_dups := max_send_dups\<rparr>"

definition polite_announcement_set_max_recv_dups :: "u8 \<Rightarrow> 's dev_scheme \<Rightarrow> 's dev_scheme" where
  "polite_announcement_set_max_recv_dups max_recv_dups s = ipolite_set_max_dups max_recv_dups s"

section \<open>broadcast-announcement.c\<close>

text \<open>This sender stops at the first registered announcement without a value.\<close>

definition announcement_prefix :: "ann_sys \<Rightarrow> (u16 \<times> announcement_value) list" where
  "announcement_prefix s =
     map (\<lambda>a. (ann_id (ann_tab s ! a), ann_value (ann_tab s ! a)))
       (takeWhile (\<lambda>a. ann_has_value (ann_tab s ! a)) (announcements s))"

definition ba_send_adv :: "'e netenv_scheme \<Rightarrow> 's dev_scheme \<Rightarrow> 's dev_scheme res" where
  "ba_send_adv e s =
     bindR (build_adv e (announcement_prefix (ann s)) s) (\<lambda>(num, s1).
       let len = announcement_datalength e num in
       bindR (sync_send_at e (unat len) s1) (\<lambda>s2.
         let s3 = s2\<lparr>pb := packetbuf_set_datalen (len + of_nat (sz_sync e)) (pb s2)\<rparr> in
         if num > 0
         then bindR (broadcast_send e (s3\<lparr>pb := packetbuf_set_attr ATTR_PACKET_TYPE PACKET_TYPE_TIMESTAMP (pb s3)\<rparr>))
                (\<lambda>(_, s4). Ok s4)
         else Ok s3))"

definition set_timers :: "'s dev_scheme \<Rightarrow> 's dev_scheme res" where
  "set_timers s =
     bindR (random_mod (ba_current_interval s) (s\<lparr>ba_interval_timer := Some (ba_current_interval s)\<rparr>))
       (\<lambda>(r, s1). Ok (s1\<lparr>ba_send_timer := Some r\<rparr>))"

definition run_send_timer :: "'s dev_scheme \<Rightarrow> 's dev_scheme res" where
  "run_send_timer s =
     (let interval = ba_current_interval s * 2;
          interval' = (if ba_max_interval s < interval then ba_max_interval s else interval)
      in set_timers (s\<lparr>ba_current_interval := interval'\<rparr>))"

definition broadcast_announcement_init :: "u16 \<Rightarrow> u32 \<Rightarrow> u32 \<Rightarrow> u32 \<Rightarrow> 's dev_scheme \<Rightarrow> 's dev_scheme res" where
  "broadcast_announcement_init channel initial min_i max_i s =
     set_timers (s\<lparr>ba_open := Some channel, ba_current_interval := initial, ba_min_interval := min_i,
       ba_max_interval := max_i, ann := announcement_register_observer_callback observer_ba (ann s)\<rparr>)"

definition broadcast_announcement_stop :: "'s dev_scheme \<Rightarrow> 's dev_scheme" where
  "broadcast_announcement_stop s = s\<lparr>ba_interval_timer := None, ba_send_timer := None, ba_open := None\<rparr>"

definition broadcast_announcement_pause :: "'s dev_scheme \<Rightarrow> 's dev_scheme" where
  "broadcast_announcement_pause s = s\<lparr>ba_interval_timer := None, ba_send_timer := None\<rparr>"

definition broadcast_announcement_continue :: "'s dev_scheme \<Rightarrow> 's dev_scheme res" where
  "broadcast_announcement_continue s = set_timers s"

definition run_observer_ba :: "'s dev_scheme \<Rightarrow> 's dev_scheme res" where
  "run_observer_ba s = broadcast_announcement_continue s"

definition broadcast_announcement_beacon_interval :: "'s dev_scheme \<Rightarrow> u32" where
  "broadcast_announcement_beacon_interval s = ba_current_interval s"

text \<open>\<open>announcement_bump\<close> of announcement.c calls the registered observer.\<close>

definition announcement_bump :: "'e netenv_scheme \<Rightarrow> ptr \<Rightarrow> 's dev_scheme \<Rightarrow> 's dev_scheme res" where
  "announcement_bump e a s = (case observer_callback (ann s) of
       None \<Rightarrow> Ok s
     | Some observer_pa \<Rightarrow> run_observer_pa e s
     | Some observer_ba \<Rightarrow> run_observer_ba s)"

end
