(* ===== verification/Adv_Laws.thy ===== *)
theory Adv_Laws
  imports Adv_Net Rtimer_Laws
begin

text \<open>
  What the senders of announcements guarantee: a message that one node builds is reported by another
  node announcement by announcement, the periodic sender backs off up to its maximum, and a duplicate
  is counted. Two flaws of the code are theorems too: the length check of a received message can wrap
  around, and cancelling a polite announcement does not stop its repetition.
\<close>

section \<open>Byte arrays\<close>

lemma put_bytes_Ok:
  "off + length bs \<le> length mem \<Longrightarrow>
     put_bytes off bs mem = Ok (take off mem @ bs @ drop (off + length bs) mem)"
  by (simp add: put_bytes_def)

section \<open>Layouts\<close>

text \<open>
  What copying a struct byte by byte guarantees: the two structs have their fixed sizes, and reading
  back gives the value that was written, for the values that the target's types hold.
\<close>

definition layout_ok :: "'e netenv_scheme \<Rightarrow> bool" where
  "layout_ok e \<longleftrightarrow> (\<forall>d. length (enc_data e d) = sz_data e) \<and> (\<forall>f. length (enc_sync e f) = sz_sync e)"

definition readable :: "'e netenv_scheme \<Rightarrow> (u16 \<times> announcement_value) list \<Rightarrow> timesync_frame_t \<Rightarrow> bool" where
  "readable e ds sf \<longleftrightarrow> list_all (\<lambda>d. dec_data e (enc_data e d) = d) ds \<and> dec_sync e (enc_sync e sf) = sf"

text \<open>The bytes of a message: the counter and the announcements.\<close>

definition adata_bytes :: "'e netenv_scheme \<Rightarrow> (u16 \<times> announcement_value) list \<Rightarrow> u8 list" where
  "adata_bytes e ds = enc_u16 (of_nat (length ds)) @ concat (map (enc_data e) ds)"

lemma length_concat_enc:
  "layout_ok e \<Longrightarrow> length (concat (map (enc_data e) ds)) = sz_data e * length ds"
  by (induction ds) (auto simp: layout_ok_def)

lemma length_adata_bytes: "layout_ok e \<Longrightarrow> length (adata_bytes e ds) = 2 + sz_data e * length ds"
  by (simp add: adata_bytes_def length_concat_enc)

text \<open>The writing loop appends the announcements and keeps the counter up to date.\<close>

lemma write_adata_eq:
  assumes "layout_ok e" and "length mem = N" and "2 + sz_data e * (length done + length ds) \<le> N"
    and "N < 65536" and "take (2 + sz_data e * length done) mem = adata_bytes e done" and "0 < sz_data e"
  shows "\<exists>mem'. write_adata e (of_nat (length done)) ds mem = Ok (of_nat (length done + length ds), mem') \<and>
     length mem' = N \<and> take (2 + sz_data e * (length done + length ds)) mem' = adata_bytes e (done @ ds)"
  using assms
proof (induction ds arbitrary: "done" mem)
  case Nil
  then show ?case by simp
next
  case (Cons d ds)
  let ?k = "length done"
  have len: "length (enc_data e d) = sz_data e" using Cons.prems(1) unfolding layout_ok_def by blast
  have "?k \<le> sz_data e * ?k" using Cons.prems(6) by (cases "sz_data e") simp_all
  moreover have "sz_data e * ?k \<le> N" using Cons.prems(3) by (simp add: distrib_left)
  ultimately have small: "?k < 65536" using Cons.prems(4) by linarith
  then have un: "unat (of_nat ?k :: u16) = ?k" by (simp add: unat_of_nat)
  let ?m1 = "take (2 + sz_data e * ?k) mem @ enc_data e d @ drop (2 + sz_data e * ?k + sz_data e) mem"
  have fit: "2 + sz_data e * ?k + sz_data e \<le> N" using Cons.prems(3) by (simp add: distrib_left)
  have 1: "put_bytes (2 + sz_data e * unat (of_nat ?k :: u16)) (enc_data e d) mem = Ok ?m1"
    using fit un len Cons.prems(2) by (simp add: put_bytes_Ok)
  let ?m2 = "enc_u16 (of_nat ?k + 1) @ drop 2 ?m1"
  have l1: "length ?m1 = N" using fit len Cons.prems(2) by simp
  have 2: "put_bytes 0 (enc_u16 (of_nat ?k + 1)) ?m1 = Ok ?m2"
    using l1 fit by (simp add: put_bytes_Ok numeral_2_eq_2)
  have body: "drop 2 (take (2 + sz_data e * ?k) mem) = concat (map (enc_data e) done)"
    using Cons.prems(5) by (simp add: adata_bytes_def)
  have t2: "take (2 + sz_data e * length (done @ [d])) ?m2 = adata_bytes e (done @ [d])"
  proof -
    have "length (take (2 + sz_data e * ?k) mem) = 2 + sz_data e * ?k" using fit Cons.prems(2) by simp
    then have "drop 2 ?m1 = concat (map (enc_data e) done) @ enc_data e d @ drop (2 + sz_data e * ?k + sz_data e) mem"
      using body by simp
    then show ?thesis
      using len length_concat_enc [OF Cons.prems(1), of "done"]
      by (simp add: adata_bytes_def add.commute distrib_left)
  qed
  have l2: "length ?m2 = N" using l1 fit by simp
  obtain mem' where m': "write_adata e (of_nat (length (done @ [d]))) ds ?m2 =
        Ok (of_nat (length (done @ [d]) + length ds), mem')"
      "length mem' = N"
      "take (2 + sz_data e * (length (done @ [d]) + length ds)) mem' = adata_bytes e ((done @ [d]) @ ds)"
    using Cons.IH [OF Cons.prems(1) l2 _ Cons.prems(4) t2 Cons.prems(6)] Cons.prems(3) by auto
  have "write_adata e (of_nat ?k) (d # ds) mem = write_adata e (of_nat (length (done @ [d]))) ds ?m2"
    using 1 2 by (simp add: add.commute)
  with m' show ?case by auto
qed

section \<open>From a sender to a receiver\<close>

lemma announcement_datalength_eq:
  assumes "2 + sz_data e * n < 65536" and "n < 65536"
  shows "unat (announcement_datalength e (of_nat n)) = 2 + sz_data e * n"
proof -
  have "announcement_datalength e (of_nat n) = of_nat (2 + sz_data e * n)"
    by (simp add: announcement_datalength_def)
  then show ?thesis using assms by (simp only: unat_of_nat) simp
qed

lemma count_fits: "0 < (k :: nat) \<Longrightarrow> 2 + k * n \<le> N \<Longrightarrow> N < 65536 \<Longrightarrow> n < 65536"
  by (cases k) auto

lemma build_adv_eq:
  assumes "layout_ok e" and "0 < sz_data e" and "length (pb_data (pb s)) = PACKETBUF_SIZE"
    and "2 + sz_data e * length ds \<le> PACKETBUF_SIZE"
  shows "\<exists>mem. build_adv e ds s = Ok (of_nat (length ds), s\<lparr>pb := (packetbuf_clear (pb s))\<lparr>pb_data := mem\<rparr>\<rparr>) \<and>
     length mem = PACKETBUF_SIZE \<and> take (2 + sz_data e * length ds) mem = adata_bytes e ds"
proof -
  let ?b = "packetbuf_clear (pb s)"
  have b: "pb_data ?b = pb_data (pb s)" by (simp add: packetbuf_clear_def packetbuf_attr_clear_def)
  let ?m = "enc_u16 0 @ drop 2 (pb_data (pb s))"
  have m0: "put_bytes 0 (enc_u16 0) (pb_data ?b) = Ok ?m"
    using assms(3) by (simp add: put_bytes_Ok b numeral_2_eq_2)
  have "take (2 + sz_data e * length []) ?m = adata_bytes e []"
    by (simp add: adata_bytes_def numeral_2_eq_2 enc_u16_def)
  from write_adata_eq [where ?done = "[]", OF assms(1) _ _ _ this assms(2)] assms(3,4)
  obtain mem where "write_adata e 0 ds ?m = Ok (of_nat (length ds), mem)" "length mem = 128"
      "take (2 + sz_data e * length ds) mem = adata_bytes e ds"
    by auto
  with m0 show ?thesis by (intro exI [of _ mem]) (simp add: build_adv_def Let_def)
qed

lemma ba_send_adv_frame:
  assumes lay: "layout_ok e" and pos: "0 < sz_data e" and len: "length (pb_data (pb s)) = PACKETBUF_SIZE"
    and fit: "2 + sz_data e * length (announcement_prefix (ann s)) + sz_sync e \<le> PACKETBUF_SIZE"
    and some: "announcement_prefix (ann s) \<noteq> []"
    and sync: "rtimer_sync_send (fpe e) (rts s) = Ok (sf, r)"
  shows "\<exists>s'. ba_send_adv e s = Ok s' \<and> rts s' = r \<and>
     out s' = (adata_bytes e (announcement_prefix (ann s)) @ enc_sync e sf, PACKET_TYPE_TIMESTAMP) # out s"
proof -
  let ?ds = "announcement_prefix (ann s)" and ?n = "2 + sz_data e * length (announcement_prefix (ann s))"
  have fit1: "?n \<le> PACKETBUF_SIZE" using fit by linarith
  obtain mem where b: "build_adv e ?ds s = Ok (of_nat (length ?ds), s\<lparr>pb := (packetbuf_clear (pb s))\<lparr>pb_data := mem\<rparr>\<rparr>)"
      and m: "length mem = PACKETBUF_SIZE" "take ?n mem = adata_bytes e ?ds"
    using build_adv_eq [OF lay pos len fit1] by blast
  have small: "length ?ds < 65536" using count_fits [OF pos fit1] by simp
  have dl: "unat (announcement_datalength e (of_nat (length ?ds))) = ?n"
    using fit1 small by (intro announcement_datalength_eq) simp_all
  have num: "(0 :: u16) < of_nat (length ?ds)"
    using some small by (simp add: word_less_nat_alt unat_of_nat)
  have sl: "length (enc_sync e sf) = sz_sync e" using lay unfolding layout_ok_def by blast
  let ?mem = "take ?n mem @ enc_sync e sf @ drop (?n + sz_sync e) mem"
  have put: "put_bytes ?n (enc_sync e sf) mem = Ok ?mem" using fit m(1) sl by (simp add: put_bytes_Ok)
  have tot: "unat (announcement_datalength e (of_nat (length ?ds)) + of_nat (sz_sync e)) = ?n + sz_sync e"
    using fit dl by (simp add: unat_word_ariths unat_of_nat)
  have frame: "take (?n + sz_sync e) ?mem = adata_bytes e ?ds @ enc_sync e sf"
    using m(2) sl length_adata_bytes [OF lay, of ?ds] by simp
  have lmem: "length ?mem = PACKETBUF_SIZE" using fit m(1) sl by simp
  show ?thesis
    using b sync put num tot frame lmem fit dl
    by (simp add: ba_send_adv_def sync_send_at_def Let_def broadcast_send_def get_bytes_def
        packetbuf_set_datalen_def packetbuf_set_attr_def packetbuf_dataptr_def packetbuf_hdrlen_def
        packetbuf_datalen_def packetbuf_attr_def packetbuf_clear_def packetbuf_attr_clear_def)
qed

text \<open>Reading inside the payload of a well-formed buffer.\<close>

lemma get_bytes_payload:
  assumes "pbuf_ok b" and "off + k \<le> length (pb_payload b)"
  shows "get_bytes (packetbuf_dataptr b + off) k (pb_data b) = Ok (take k (drop off (pb_payload b)))"
proof -
  have "packetbuf_dataptr b + unat (pb_buflen b) \<le> length (pb_data b)"
    using assms(1) packetbuf_dataptr_eq [OF assms(1)] by (simp add: pbuf_ok_def)
  with assms(2) show ?thesis
    by (simp add: get_bytes_def pb_payload_def drop_take min_def add.commute split: if_splits)
qed

lemma length_payload: "pbuf_ok b \<Longrightarrow> length (pb_payload b) = unat (pb_buflen b)"
  using packetbuf_dataptr_eq [of b] by (auto simp: pb_payload_def pbuf_ok_def min_def)

text \<open>
  The receiver reads the announcements out of the packet buffer while it calls their handlers. The
  handlers of a list of announcements do not disturb the reading when each one but the last leaves the
  packet buffer as it was; a handler that sends an announcement itself clears it.
\<close>

fun undisturbed ::
  "(u16 \<Rightarrow> announcement_value \<Rightarrow> 's dev_scheme \<Rightarrow> 's dev_scheme res) \<Rightarrow> (u16 \<times> announcement_value) list \<Rightarrow>
     's dev_scheme \<Rightarrow> bool" where
  "undisturbed h [] s = True"
| "undisturbed h [d] s = True"
| "undisturbed h (d # d' # ds) s =
     (case h (fst d) (snd d) s of Fault _ \<Rightarrow> True | Ok s' \<Rightarrow> pb s' = pb s \<and> undisturbed h (d' # ds) s')"

lemma adv_loop_reports:
  assumes lay: "layout_ok e" and rd: "list_all (\<lambda>d. dec_data e (enc_data e d) = d) ds" and ok: "pbuf_ok (pb s)"
    and pay: "pb_payload (pb s) = pre @ concat (map (enc_data e) ds) @ post" and keep: "undisturbed h ds s"
  shows "adv_loop e h (length ds + k) (packetbuf_dataptr (pb s) + length pre) s =
     bindR (run (map (\<lambda>d. h (fst d) (snd d)) ds) s)
       (adv_loop e h k (packetbuf_dataptr (pb s) + length pre + sz_data e * length ds))"
  using ok pay rd keep
proof (induction ds arbitrary: s pre)
  case Nil
  then show ?case by simp
next
  case (Cons d ds)
  have enc: "length (enc_data e d) = sz_data e" "dec_data e (enc_data e d) = d"
    using lay Cons.prems(3) unfolding layout_ok_def by (blast, simp)
  have "get_bytes (packetbuf_dataptr (pb s) + length pre) (sz_data e) (pb_data (pb s)) = Ok (enc_data e d)"
    using get_bytes_payload [OF Cons.prems(1), of "length pre" "sz_data e"] Cons.prems(2) enc(1) by simp
  moreover have "adv_loop e h (length ds + k) (packetbuf_dataptr (pb s) + length pre + sz_data e) s' =
      bindR (run (map (\<lambda>d. h (fst d) (snd d)) ds) s')
        (adv_loop e h k (packetbuf_dataptr (pb s) + length pre + sz_data e * Suc (length ds)))"
    if s': "h (fst d) (snd d) s = Ok s'" for s'
  proof (cases ds)
    case Nil
    then show ?thesis by simp
  next
    case (Cons d' ds')
    then have "pb s' = pb s" and "undisturbed h ds s'" using Cons.prems(4) s' by auto
    then show ?thesis
      using Cons.IH [of s' "pre @ enc_data e d"] Cons.prems enc(1) by (simp add: add.assoc)
  qed
  ultimately show ?case using enc(2) by (cases "h (fst d) (snd d) s") (simp_all add: Let_def)
qed

lemma adv_received_reports:
  assumes lay: "layout_ok e" and pos: "0 < sz_data e" and rd: "readable e ds sf" and ok: "pbuf_ok (pb s)"
    and pay: "pb_payload (pb s) = adata_bytes e ds @ enc_sync e sf"
    and split: "ds = ds1 @ ds2" and keep: "undisturbed (heard sf) ds1 s"
  shows "adv_packet_received e heard s =
    bindR (run (map (\<lambda>d. heard sf (fst d) (snd d)) ds1) s)
      (adv_loop e (heard sf) (length ds2) (packetbuf_dataptr (pb s) + 2 + sz_data e * length ds1))"
proof -
  let ?p = "packetbuf_dataptr (pb s)" and ?n = "2 + sz_data e * length ds"
  have sl: "length (enc_sync e sf) = sz_sync e" "dec_sync e (enc_sync e sf) = sf"
    using lay rd unfolding layout_ok_def readable_def by blast+
  have lp: "length (pb_payload (pb s)) = ?n + sz_sync e"
    using pay sl(1) length_adata_bytes [OF lay] by simp
  have bl: "unat (pb_buflen (pb s)) = ?n + sz_sync e" using lp length_payload [OF ok] by simp
  then have fit: "?n + sz_sync e \<le> 128" using ok by (simp add: pbuf_ok_def)
  have small: "length ds < 65536" using count_fits [OF pos, of "length ds" 128] fit by simp
  have nb: "get_bytes ?p 2 (pb_data (pb s)) = Ok (enc_u16 (of_nat (length ds)))"
    using get_bytes_payload [OF ok, of 0 2] lp pay by (simp add: adata_bytes_def numeral_2_eq_2)
  have dl: "unat (announcement_datalength e (of_nat (length ds))) = ?n"
    using fit small by (intro announcement_datalength_eq) simp_all
  have sb: "get_bytes (?p + ?n) (sz_sync e) (pb_data (pb s)) = Ok (enc_sync e sf)"
    using get_bytes_payload [OF ok, of ?n "sz_sync e"] lp pay sl(1) length_adata_bytes [OF lay, of ds] by simp
  have tot: "unat (announcement_datalength e (of_nat (length ds)) + of_nat (sz_sync e)) = ?n + sz_sync e"
    using fit dl by (simp add: unat_word_ariths unat_of_nat)
  then have pass: "\<not> packetbuf_datalen (pb s) < announcement_datalength e (of_nat (length ds)) + of_nat (sz_sync e)"
    using bl by (simp add: word_less_nat_alt packetbuf_datalen_def)
  have un: "unat (of_nat (length ds) :: u16) = length ds" using small by (simp add: unat_of_nat)
  have "pb_payload (pb s) =
      enc_u16 (of_nat (length ds)) @ concat (map (enc_data e) ds1) @ concat (map (enc_data e) ds2) @ enc_sync e sf"
    using pay by (simp add: adata_bytes_def split)
  moreover have "list_all (\<lambda>d. dec_data e (enc_data e d) = d) ds1" using rd by (simp add: readable_def split)
  ultimately have loop: "adv_loop e (heard sf) (length ds) (?p + 2) s =
    bindR (run (map (\<lambda>d. heard sf (fst d) (snd d)) ds1) s)
      (adv_loop e (heard sf) (length ds2) (?p + 2 + sz_data e * length ds1))"
    using adv_loop_reports [OF lay _ ok _ keep, of "enc_u16 (of_nat (length ds))" _ "length ds2"] by (simp add: split)
  show ?thesis
    unfolding adv_packet_received_def Let_def nb bindR.simps dec_enc_u16 dl sb sl(2) un if_not_P [OF pass]
    by (rule loop)
qed

section \<open>Properties of the senders\<close>

text \<open>
  C27: Every announcement with a value reaches the receiver. When the periodic sender builds its frame
  and a receiver finds that frame in its packet buffer, the receiver reports the announcements of the
  sender, in order, each with the time-sync frame that the sender captured. All of them are reported
  when no handler but the last changes the packet buffer, so a frame with one announcement is always
  reported. A handler that changes the packet buffer (\<open>announcement_bump\<close> sends a frame from it) does
  not affect the announcements up to its own; those behind it are read from the changed buffer, at the
  same place.
\<close>

theorem announcements_reach_receiver:
  assumes "layout_ok e" and "0 < sz_data e" and "length (pb_data (pb s)) = PACKETBUF_SIZE"
    and "2 + sz_data e * length (announcement_prefix (ann s)) + sz_sync e \<le> PACKETBUF_SIZE"
    and "announcement_prefix (ann s) \<noteq> []" and "rtimer_sync_send (fpe e) (rts s) = Ok (sf, r)"
    and "readable e (announcement_prefix (ann s)) sf"
    and "ba_send_adv e s = Ok s'" and "pbuf_ok (pb t)" and "pb_payload (pb t) = fst (hd (out s'))"
  shows "(undisturbed (heard sf) (announcement_prefix (ann s)) t \<longrightarrow>
      adv_packet_received e heard t =
        run (map (\<lambda>d. heard sf (fst d) (snd d)) (announcement_prefix (ann s))) t) \<and>
    (\<forall>ds1 ds2. announcement_prefix (ann s) = ds1 @ ds2 \<and> undisturbed (heard sf) ds1 t \<longrightarrow>
      adv_packet_received e heard t =
        bindR (run (map (\<lambda>d. heard sf (fst d) (snd d)) ds1) t)
          (adv_loop e (heard sf) (length ds2) (packetbuf_dataptr (pb t) + 2 + sz_data e * length ds1)))"
proof -
  have "out s' = (adata_bytes e (announcement_prefix (ann s)) @ enc_sync e sf, PACKET_TYPE_TIMESTAMP) # out s"
    using ba_send_adv_frame [OF assms(1-6)] assms(8) by auto
  then have "pb_payload (pb t) = adata_bytes e (announcement_prefix (ann s)) @ enc_sync e sf"
    using assms(10) by simp
  note reports = adv_received_reports [OF assms(1,2,7,9) this]
  have "adv_packet_received e heard t = run (map (\<lambda>d. heard sf (fst d) (snd d)) (announcement_prefix (ann s))) t"
    if "undisturbed (heard sf) (announcement_prefix (ann s)) t"
    using reports [of "announcement_prefix (ann s)" "[]"] that
    by (cases "run (map (\<lambda>d. heard sf (fst d) (snd d)) (announcement_prefix (ann s))) t") simp_all
  with reports show ?thesis by blast
qed

text \<open>A layout, a device and a receiver for the witnesses.\<close>

definition demo_sf :: timesync_frame_t where
  "demo_sf = (case rtimer_sync_send fp_exact demo_rtimer of
       Ok (f, _) \<Rightarrow> f
     | Fault _ \<Rightarrow> \<lparr>sf_coarse_now = 0, sf_fine_offset = 0, sf_clock_rate = Fin 0, sf_avg_rate = Fin 0, sf_ta = 0,
                   sf_tb = 0, sf_ta_compare = 0, sf_tb_compare = 0, sf_hw_mac_timestamp = 0\<rparr>)"

definition demo_netenv :: netenv where
  "demo_netenv = \<lparr>fpe = fp_exact, sz_data = 18,
     enc_data = (\<lambda>(i, v). enc_u16 i @ [av_instr v] @ replicate 15 0),
     dec_data = (\<lambda>bs. (dec_u16 (take 2 bs), av_zero\<lparr>av_instr := bs ! 2\<rparr>)),
     sz_sync = 26, enc_sync = (\<lambda>_. replicate 26 0), dec_sync = (\<lambda>_. demo_sf), bc_ok = True\<rparr>"

definition demo_pbuf :: "u8 list \<Rightarrow> pbuf" where
  "demo_pbuf bs = \<lparr>pb_data = bs @ replicate (128 - length bs) 0, pb_buflen = of_nat (length bs), pb_bufptr = 0,
     pb_hdrlen = 0, pb_attrs = (\<lambda>_. 0), pb_addrs = (\<lambda>_. 0)\<rparr>"

definition demo_anns :: ann_sys where
  "demo_anns = announcement_add_value discovery_announcement (ann_sys_start\<lparr>announcements := [0, 1]\<rparr>)"

definition demo_dev :: "u8 list \<Rightarrow> dev" where
  "demo_dev bs = \<lparr>rts = demo_rtimer, ann = demo_anns, pb = demo_pbuf bs, ip_open = None, ip_q = None, ip_t = None,
     ip_hdrsize = 0, ip_maxdups = 20, ip_dups = 0, ip_syncframe = 0, pa_interval = 0, pa_last_event = PENDING,
     pa_send_dups = 0, pa_max_send_dups = 10, ba_open = None, ba_send_timer = None, ba_interval_timer = None,
     ba_current_interval = 12, ba_min_interval = 12, ba_max_interval = 64, rnds = [100, 200, 300], qbs = [True],
     out = []\<rparr>"

lemma demo_layout_ok: "layout_ok demo_netenv"
  by (simp add: layout_ok_def demo_netenv_def split: prod.split)

text \<open>A handler that notes the announcement and clears the packet buffer.\<close>

definition demo_heard :: "timesync_frame_t \<Rightarrow> u16 \<Rightarrow> announcement_value \<Rightarrow> dev \<Rightarrow> dev res" where
  "demo_heard f i v t = Ok (t\<lparr>out := ([av_instr v], i) # out t, pb := packetbuf_clear (pb t)\<rparr>)"

theorem announcements_reach_receiver_witness:
  "\<exists>s'. ba_send_adv demo_netenv (demo_dev []) = Ok s' \<and>
     adv_packet_received demo_netenv demo_heard (demo_dev (fst (hd (out s')))) =
     demo_heard demo_sf 0 av_zero (demo_dev (fst (hd (out s'))))"
proof -
  let ?s = "demo_dev []"
  have pre: "announcement_prefix (ann ?s) = [(0, av_zero)]"
    by (simp add: demo_dev_def demo_anns_def announcement_prefix_def ann_sys_start_def announcement_add_value_def
        upd_ann_def ann_zero_def)
  have "case rtimer_sync_send fp_exact demo_rtimer of Ok _ \<Rightarrow> True | Fault _ \<Rightarrow> False" by code_simp
  then obtain r where r: "rtimer_sync_send (fpe demo_netenv) (rts ?s) = Ok (demo_sf, r)"
    by (auto simp: demo_sf_def demo_netenv_def demo_dev_def split: res.splits prod.splits)
  have len: "length (pb_data (pb ?s)) = 128" by (simp add: demo_dev_def demo_pbuf_def)
  have fit: "2 + sz_data demo_netenv * length (announcement_prefix (ann ?s)) + sz_sync demo_netenv \<le> 128"
    unfolding pre by (simp add: demo_netenv_def)
  have pos: "0 < sz_data demo_netenv" by (simp add: demo_netenv_def)
  have rd: "readable demo_netenv (announcement_prefix (ann ?s)) demo_sf"
    unfolding pre by (simp add: readable_def demo_netenv_def av_zero_def nth_append)
  have some: "announcement_prefix (ann ?s) \<noteq> []" unfolding pre by simp
  obtain s' where s': "ba_send_adv demo_netenv ?s = Ok s'"
      and o: "out s' = (adata_bytes demo_netenv (announcement_prefix (ann ?s)) @ enc_sync demo_netenv demo_sf,
                PACKET_TYPE_TIMESTAMP) # out ?s"
    using ba_send_adv_frame [OF demo_layout_ok pos len fit some r] by blast
  let ?t = "demo_dev (fst (hd (out s')))"
  have flen: "length (fst (hd (out s'))) = 46"
    unfolding o pre by (simp add: adata_bytes_def demo_netenv_def)
  have ok: "pbuf_ok (pb ?t)" and pay: "pb_payload (pb ?t) = fst (hd (out s'))"
    using flen by (simp_all add: demo_dev_def demo_pbuf_def pbuf_ok_def pb_payload_def packetbuf_dataptr_def
        packetbuf_hdrlen_def)
  have "undisturbed (demo_heard demo_sf) (announcement_prefix (ann ?s)) ?t" unfolding pre by simp
  with announcements_reach_receiver [OF demo_layout_ok pos len fit some r rd s' ok pay, of demo_heard]
  have "adv_packet_received demo_netenv demo_heard ?t =
      run (map (\<lambda>d. demo_heard demo_sf (fst d) (snd d)) (announcement_prefix (ann ?s))) ?t" by blast
  then show ?thesis using s' unfolding pre by (auto simp: demo_heard_def)
qed

lemma adv_loop_overrun:
  assumes pos: "0 < sz_data e"
    and heard: "\<And>i v t. \<exists>t'. heard i v t = Ok t' \<and> length (pb_data (pb t')) = length (pb_data (pb t))"
  shows "length (pb_data (pb s)) < p + sz_data e * n \<Longrightarrow> 0 < n \<Longrightarrow> adv_loop e heard n p s = Fault OutOfBounds"
proof (induction n arbitrary: p s)
  case (Suc n)
  show ?case
  proof (cases "p + sz_data e \<le> length (pb_data (pb s))")
    case False
    then show ?thesis by (simp add: get_bytes_def)
  next
    case True
    let ?d = "dec_data e (take (sz_data e) (drop p (pb_data (pb s))))"
    obtain t where t: "heard (fst ?d) (snd ?d) s = Ok t" "length (pb_data (pb t)) = length (pb_data (pb s))" using heard by blast
    have "0 < n" using True Suc.prems(1) by (cases n) auto
    moreover have "length (pb_data (pb t)) < p + sz_data e + sz_data e * n" using Suc.prems(1) t(2) by simp
    ultimately have "adv_loop e heard n (p + sz_data e) t = Fault OutOfBounds" by (intro Suc.IH)
    with True t(1) show ?thesis by (simp add: get_bytes_def Let_def)
  qed
qed simp

text \<open>
  C33: The length check of a received frame can be passed by a frame that is far too short. With
  announcements of 18 bytes, a counter of 3641 makes the 16-bit length computation wrap around to 4;
  the loop then reads behind the end of the packet buffer, whatever the handlers, which return, write
  into it.
\<close>

theorem length_check_wraps:
  assumes "pbuf_ok (pb s)" and "sz_data e = 18" and "sz_sync e = 26"
    and "30 \<le> unat (pb_buflen (pb s))" and "take 2 (pb_payload (pb s)) = enc_u16 3641"
    and "\<And>f i v t. \<exists>t'. heard f i v t = Ok t' \<and> length (pb_data (pb t')) = length (pb_data (pb t))"
  shows "adv_packet_received e heard s = Fault OutOfBounds"
proof -
  let ?p = "packetbuf_dataptr (pb s)"
  have lp: "length (pb_payload (pb s)) = unat (pb_buflen (pb s))" using assms(1) by (rule length_payload)
  have nb: "get_bytes ?p 2 (pb_data (pb s)) = Ok (enc_u16 3641)"
    using get_bytes_payload [OF assms(1), of 0 2] lp assms(4,5) by simp
  have dl: "announcement_datalength e 3641 = 4" by (simp add: announcement_datalength_def assms(2))
  have sb: "\<exists>sb. get_bytes (?p + 4) 26 (pb_data (pb s)) = Ok sb"
    using get_bytes_payload [OF assms(1), of 4 26] lp assms(4) by simp
  then obtain sb where sb: "get_bytes (?p + 4) 26 (pb_data (pb s)) = Ok sb" by blast
  have pass: "\<not> packetbuf_datalen (pb s) < 30"
    using assms(4) by (simp add: packetbuf_datalen_def word_less_nat_alt)
  have "adv_loop e (heard (dec_sync e sb)) 3641 (?p + 2) s = Fault OutOfBounds"
    using assms(1,2,6) by (intro adv_loop_overrun) (simp_all add: pbuf_ok_def)
  then show ?thesis using nb dl sb pass assms(3) by (simp add: adv_packet_received_def Let_def)
qed

theorem length_check_wraps_witness:
  "adv_packet_received demo_netenv (\<lambda>f i v t. Ok t) (demo_dev (enc_u16 3641 @ replicate 40 0)) = Fault OutOfBounds"
proof (rule length_check_wraps)
  let ?b = "pb (demo_dev (enc_u16 3641 @ replicate 40 0))"
  show "pbuf_ok ?b" by code_simp
  show "30 \<le> unat (pb_buflen ?b)" by code_simp
  show "take 2 (pb_payload ?b) = enc_u16 3641" by code_simp
qed (simp_all add: demo_netenv_def)

text \<open>
  C34: Cancelling a polite announcement does not stop it when its transmission is still reported
  afterwards: the cancellation sets the repetition counter to 255, the report increments it to 0, and
  the announcement is sent again.
\<close>

theorem cancel_is_undone_by_sent:
  assumes "0 < pa_max_send_dups s"
  shows "adv_packet_sent e (polite_announcement_cancel s) =
     pa_send_adv e (pa_interval s) ((polite_announcement_cancel s)\<lparr>pa_send_dups := 0\<rparr>)"
proof -
  have wrap: "(256 :: u8) = 0" by (simp add: word_uint_eq_iff)
  show ?thesis
    using assms by (simp add: adv_packet_sent_def polite_announcement_cancel_def ipolite_cancel_def Let_def wrap)
qed

theorem cancel_is_undone_by_sent_witness:
  "adv_packet_sent demo_netenv (polite_announcement_cancel (demo_dev [])) =
     pa_send_adv demo_netenv 0 ((polite_announcement_cancel (demo_dev []))\<lparr>pa_send_dups := 0\<rparr>)"
  using cancel_is_undone_by_sent [of "demo_dev []" demo_netenv] by (simp add: demo_dev_def)

fun timer_fires :: "nat \<Rightarrow> 's dev_scheme \<Rightarrow> 's dev_scheme res" where
  "timer_fires 0 s = Ok s"
| "timer_fires (Suc k) s = bindR (timer_fires k s) run_send_timer"

lemma run_send_timer_step:
  assumes "0 < c" and "c \<le> M" and "M < 2 ^ 31" and "uint (ba_current_interval s) = c"
    and "uint (ba_max_interval s) = M" and "rnds s \<noteq> []"
  shows "\<exists>s' t. run_send_timer s = Ok s' \<and> uint (ba_current_interval s') = min (2 * c) M \<and>
     ba_max_interval s' = ba_max_interval s \<and> rnds s' = tl (rnds s) \<and>
     ba_send_timer s' = Some t \<and> uint t < min (2 * c) M"
proof -
  define i where "i = (if ba_max_interval s < ba_current_interval s * 2 then ba_max_interval s
      else ba_current_interval s * 2)"
  have "uint (ba_current_interval s * 2) = 2 * c" using assms by (simp add: uint_word_ariths)
  then have ui: "uint i = min (2 * c) M" using assms by (simp add: i_def word_less_def)
  then have i: "i \<noteq> 0" "0 < uint i" using assms(1,2) by auto
  obtain r rs where r: "rnds s = r # rs" using assms(6) by (cases "rnds s") auto
  have lt: "uint (ucast r mod i) < uint i" using i(2) by (simp add: uint_mod)
  have "run_send_timer s = set_timers (s\<lparr>ba_current_interval := i\<rparr>)"
    by (simp add: run_send_timer_def i_def Let_def)
  also have "\<dots> = Ok (s\<lparr>ba_current_interval := i, ba_interval_timer := Some i, rnds := rs,
      ba_send_timer := Some (ucast r mod i)\<rparr>)"
    using r i(1) by (simp add: set_timers_def random_mod_def random_rand_def)
  finally show ?thesis using ui lt r by simp
qed

text \<open>
  The periodic sender backs off: after \<open>k\<close> expiries of its interval timer the interval is the
  initial one doubled \<open>k\<close> times, but at most the maximum, and the next frame is due within the interval.
\<close>

lemma broadcast_backs_off:
  assumes "0 < uint (ba_current_interval s)" and "ba_current_interval s \<le> ba_max_interval s"
    and "uint (ba_max_interval s) < 2 ^ 31" and "k \<le> length (rnds s)" and "0 < k"
  shows "\<exists>s' t. timer_fires k s = Ok s' \<and>
     uint (ba_current_interval s') = min (2 ^ k * uint (ba_current_interval s)) (uint (ba_max_interval s)) \<and>
     ba_send_timer s' = Some t \<and> t < ba_current_interval s'"
proof -
  let ?c = "uint (ba_current_interval s)" and ?M = "uint (ba_max_interval s)"
  have cM: "?c \<le> ?M" using assms(2) by (simp add: word_le_def)
  have "\<exists>s'. timer_fires j s = Ok s' \<and> uint (ba_current_interval s') = min (2 ^ j * ?c) ?M \<and>
      ba_max_interval s' = ba_max_interval s \<and> rnds s' = drop j (rnds s) \<and>
      (0 < j \<longrightarrow> (\<exists>t. ba_send_timer s' = Some t \<and> t < ba_current_interval s'))" if "j \<le> k" for j
    using that
  proof (induction j)
    case 0
    then show ?case using cM by simp
  next
    case (Suc j)
    then obtain s1 where s1: "timer_fires j s = Ok s1" "uint (ba_current_interval s1) = min (2 ^ j * ?c) ?M"
        "ba_max_interval s1 = ba_max_interval s" "rnds s1 = drop j (rnds s)" by auto
    have pos: "0 < min (2 ^ j * ?c) ?M" using assms(1) cM by simp
    have rn: "rnds s1 \<noteq> []" using s1(4) Suc.prems assms(4) by simp
    have M: "uint (ba_max_interval s1) = ?M" using s1(3) by simp
    obtain s' t where s': "run_send_timer s1 = Ok s'" "uint (ba_current_interval s') = min (2 * min (2 ^ j * ?c) ?M) ?M"
        "ba_max_interval s' = ba_max_interval s1" "rnds s' = tl (rnds s1)"
        "ba_send_timer s' = Some t" "uint t < min (2 * min (2 ^ j * ?c) ?M) ?M"
      using run_send_timer_step [OF pos _ assms(3) s1(2) M rn] by auto
    have "min (2 * min (2 ^ j * ?c) ?M) ?M = min (2 ^ Suc j * ?c) ?M" using assms(1) cM by (simp add: min_def)
    with s1 s' show ?case by (simp add: tl_drop drop_Suc word_less_def)
  qed
  from this [of k] assms(5) show ?thesis by auto
qed

lemma broadcast_backs_off_example:
  "\<exists>s' t. timer_fires 3 (demo_dev []) = Ok s' \<and> uint (ba_current_interval s') = 64 \<and>
     ba_send_timer s' = Some t \<and> t < ba_current_interval s'"
  using broadcast_backs_off [of "demo_dev []" 3] by (simp add: demo_dev_def)

end
