(* ===== verification/CSync_State.thy ===== *)
theory CSync_State
  imports Adv_Net Memb
begin

text \<open>
  The global state of the C-sync program: the variables of \<^verbatim>\<open>src/core/net/c-sync/c-sync.h\<close> and the
  static variables of \<^verbatim>\<open>src/examples/c-sync/c-sync.c\<close>, on top of the device state \<open>dev\<close>, with the
  constants of \<^verbatim>\<open>src/examples/c-sync/project-conf.h\<close>.

  A \<^verbatim>\<open>struct neighbour *\<close> or \<^verbatim>\<open>struct CHB *\<close> is the number of a block of its pool, and a list is the
  sequence of the blocks it links. The build options that select code with the preprocessor are the
  record \<open>cenv\<close>. The traversal variable \<^verbatim>\<open>ch\<close>, which every loop sets before it reads it, is local to
  the definitions. Console output is not modelled.
\<close>

section \<open>Build options and constants\<close>

record cenv = netenv +
  MOD_NEIGHBOURS :: bool
  MOD_TYPE :: nat
  TEST_GTSP :: bool
  TEST_BYZ :: bool
  IDLE_BROADCAST :: bool

abbreviation DISCOVERY :: u8 where "DISCOVERY \<equiv> 0"
abbreviation ELECTION_REVELATION :: u8 where "ELECTION_REVELATION \<equiv> 2"
abbreviation ELECTION_DECLARATION :: u8 where "ELECTION_DECLARATION \<equiv> 4"
abbreviation CONNECTION_REVELATION :: u8 where "CONNECTION_REVELATION \<equiv> 6"
abbreviation CONNECTION_DECLARATION :: u8 where "CONNECTION_DECLARATION \<equiv> 8"
abbreviation CONSENSUS_CONVERGENCE :: u8 where "CONSENSUS_CONVERGENCE \<equiv> 10"
abbreviation CONSENSUS_REVELATION :: u8 where "CONSENSUS_REVELATION \<equiv> 12"
abbreviation CONSENSUS_SYNCHRONIZATION :: u8 where "CONSENSUS_SYNCHRONIZATION \<equiv> 14"
abbreviation IDLE :: u8 where "IDLE \<equiv> 16"
abbreviation BYZANTINE_CONSENSUS :: u8 where "BYZANTINE_CONSENSUS \<equiv> 18"
abbreviation DISC_TO_EREV :: u8 where "DISC_TO_EREV \<equiv> 1"
abbreviation CONVERGENCE_PROACTIVE :: u8 where "CONVERGENCE_PROACTIVE \<equiv> 11"

abbreviation LOGICAL_CHANNEL :: u16 where "LOGICAL_CHANNEL \<equiv> 11"
abbreviation MAX_DEGREE :: nat where "MAX_DEGREE \<equiv> 64"
abbreviation NUM_CH_MAX :: nat where "NUM_CH_MAX \<equiv> 4"
abbreviation NUM_CB_MAX :: nat where "NUM_CB_MAX \<equiv> 8"
abbreviation NUM_BL_MAX :: nat where "NUM_BL_MAX \<equiv> 2"
abbreviation NUM_CONS_SLOTS :: u8 where "NUM_CONS_SLOTS \<equiv> 5"
abbreviation NUM_CONS_CTRL_ITERATIONS :: u8 where "NUM_CONS_CTRL_ITERATIONS \<equiv> 3"
abbreviation MAX_RX_SYNC_DISCOVERY :: u8 where "MAX_RX_SYNC_DISCOVERY \<equiv> 12"
abbreviation BYZANTINE_FINE_DIFF :: int where "BYZANTINE_FINE_DIFF \<equiv> 500"
abbreviation BYZANTINE_COARSE_DIFF :: int where "BYZANTINE_COARSE_DIFF \<equiv> 3"
abbreviation PA_REGULAR_MAX_RECV_DUPS :: u8 where "PA_REGULAR_MAX_RECV_DUPS \<equiv> 20"
abbreviation PA_RESILIENCE_MAX_SEND_DUPS :: u8 where "PA_RESILIENCE_MAX_SEND_DUPS \<equiv> 10"
abbreviation RTIMER_HF_SECOND :: int where "RTIMER_HF_SECOND \<equiv> 524288"
abbreviation CLOCK_SECOND :: int where "CLOCK_SECOND \<equiv> 128"

text \<open>
  The intervals that project-conf.h writes as products with a decimal fraction, converted to the
  unsigned integer type of the parameter they are passed to.
\<close>

definition frac_interval :: "'e netenv_scheme \<Rightarrow> int \<Rightarrow> rat \<Rightarrow> dbl" where
  "frac_interval e base q = d_mul (fpe e) (d_of_int (fpe e) base) (fp_rnd (fpe e) q)"

definition REGULAR_SLOT_INTERVAL :: "'e netenv_scheme \<Rightarrow> u32" where
  "REGULAR_SLOT_INTERVAL e = d_to_u32 (fpe e) (frac_interval e RTIMER_HF_SECOND (3 / 10))"

definition cons_ctrl_slots :: "'e netenv_scheme \<Rightarrow> int \<Rightarrow> u32" where
  "cons_ctrl_slots e k = d_to_u32 (fpe e)
     (d_mul (fpe e) (frac_interval e RTIMER_HF_SECOND (3 / 10)) (d_of_int (fpe e) k))"

definition MIN_INTERVAL :: "'e netenv_scheme \<Rightarrow> u32" where
  "MIN_INTERVAL e = d_to_u32 (fpe e) (frac_interval e CLOCK_SECOND (1 / 10))"

definition MAX_INTERVAL :: "'e netenv_scheme \<Rightarrow> u32" where
  "MAX_INTERVAL e = d_to_u32 (fpe e) (frac_interval e CLOCK_SECOND (1 / 2))"

abbreviation DISC_TO_EREV_INTERVAL :: u32 where "DISC_TO_EREV_INTERVAL \<equiv> 2621440"
abbreviation IDLE_SLOT_INTERVAL :: u32 where "IDLE_SLOT_INTERVAL \<equiv> 1572864"

definition BYZANTINE_INTERVAL :: "'e netenv_scheme \<Rightarrow> int \<Rightarrow> u32" where
  "BYZANTINE_INTERVAL e k = d_to_u32 (fpe e)
     (d_mul (fpe e) (frac_interval e RTIMER_HF_SECOND (1 / 20)) (d_of_int (fpe e) k))"

text \<open>\<^verbatim>\<open>POLITE_INTERVAL * my_placing + POLITE_PROACTIVE_OFFSET\<close>\<close>

definition proactive_interval :: "'e netenv_scheme \<Rightarrow> u8 \<Rightarrow> u32" where
  "proactive_interval e placing = d_to_u32 (fpe e)
     (d_add (fpe e) (d_of_int (fpe e) (4 * uint placing))
       (d_div (fpe e)
         (d_mul (fpe e) (d_div (fpe e) (frac_interval e RTIMER_HF_SECOND (3 / 10)) (d_of_int (fpe e) RTIMER_HF_SECOND))
            (d_of_int (fpe e) CLOCK_SECOND))
         (d_of_int (fpe e) 3)))"

text \<open>
  \<^verbatim>\<open>packetbuf_attr(PACKETBUF_ATTR_RSSI) >= RSSI_THRESHOLD\<close> compares an \<^verbatim>\<open>uint16_t\<close> with the \<^verbatim>\<open>int\<close> -80;
  with 16-bit integers the comparison is unsigned.
\<close>

definition rssi_ok :: "u16 \<Rightarrow> bool" where
  "rssi_ok r \<longleftrightarrow> r \<ge> - 80"

section \<open>Data\<close>

datatype role_t = CM | CH | CB

record neighbour =
  nb_addr :: u16
  nb_degree :: u8
  nb_role :: role_t
  nb_state :: u8
  jumped :: bool
  synced :: bool
  relative_rate :: dbl
  last_n_coarse :: u32
  last_lg_n_fine :: u32
  last_my_coarse :: u32
  last_hw_my_fine :: u32
  coarse_diff :: i32
  fine_diff :: i32

record chb =
  ch_addr :: u16
  ch_degree :: u8
  ch_cons_slot :: u8
  n_CHB_addr_A :: u16
  n_CHB_addr_B :: u16

record leds =
  led_red :: bool
  led_green :: bool
  led_blue :: bool

text \<open>
  The last field tells that the pool of cluster heads itself, the \<^verbatim>\<open>struct memb\<close>, has been linked in front
  of \<open>CHs_list\<close>, as two handlers do by mistake; \<open>CHs_list\<close> holds the entries behind it.
\<close>

record node = dev +
  linkaddr_node_addr :: u16
  my_addr :: u16
  my_degree :: u8
  my_state :: u8
  my_placing :: u8
  my_role :: role_t
  my_proactive_slot :: u8
  my_cons_slot :: u8
  this_sync_slot :: u8
  my_slot_ack :: u8
  my_sync_border :: bool
  cons_ctrl_counter :: u8
  ref_n_CHB_degree :: u8
  ref_n_CHB_addr :: u16
  synced_counter :: u8
  msg_count :: u8
  temp_state :: u8
  my_cons_rate :: dbl
  sync_LC_addr :: u16
  saved_proactive_slot :: u8
  saved_cons_slot :: u8
  saved_slot_ack :: u8
  saved_sync_border :: bool
  convergence_complete :: bool
  soft_reset_count :: u8
  neighbour_memb :: "neighbour memb"
  mod_neighbour_memb :: "neighbour memb"
  neighbour_list :: "ptr list"
  mod_neighbour_list :: "ptr list"
  CHs_memb :: "chb memb"
  CHs_list :: "ptr list"
  CBs_memb :: "chb memb"
  CBs_list :: "ptr list"
  bl_memb :: "u16 memb"
  blacklist :: "ptr list"
  polled :: bool
  radio_on :: bool
  led :: leds
  llsec_inits :: nat
  pool_linked :: bool

definition neighbour_zero :: neighbour where
  "neighbour_zero = \<lparr>nb_addr = 0, nb_degree = 0, nb_role = CM, nb_state = 0, jumped = False,
     synced = False, relative_rate = Fin 0, last_n_coarse = 0, last_lg_n_fine = 0,
     last_my_coarse = 0, last_hw_my_fine = 0, coarse_diff = 0, fine_diff = 0\<rparr>"

definition chb_zero :: chb where
  "chb_zero = \<lparr>ch_addr = 0, ch_degree = 0, ch_cons_slot = 0, n_CHB_addr_A = 0, n_CHB_addr_B = 0\<rparr>"

section \<open>Access to the pools\<close>

definition set_block :: "ptr \<Rightarrow> ('a \<Rightarrow> 'a) \<Rightarrow> 'a memb \<Rightarrow> 'a memb" where
  "set_block p f m = m\<lparr>mmem := (mmem m)[p := f (mmem m ! p)]\<rparr>"

definition nbr :: "node \<Rightarrow> ptr \<Rightarrow> neighbour" where
  "nbr s p = mmem (neighbour_memb s) ! p"

definition upd_nbr :: "ptr \<Rightarrow> (neighbour \<Rightarrow> neighbour) \<Rightarrow> node \<Rightarrow> node" where
  "upd_nbr p f s = s\<lparr>neighbour_memb := set_block p f (neighbour_memb s)\<rparr>"

definition the_CH :: "node \<Rightarrow> ptr \<Rightarrow> chb" where
  "the_CH s p = mmem (CHs_memb s) ! p"

definition the_CB :: "node \<Rightarrow> ptr \<Rightarrow> chb" where
  "the_CB s p = mmem (CBs_memb s) ! p"

definition upd_CH :: "ptr \<Rightarrow> (chb \<Rightarrow> chb) \<Rightarrow> node \<Rightarrow> node" where
  "upd_CH p f s = s\<lparr>CHs_memb := set_block p f (CHs_memb s)\<rparr>"

text \<open>A loop over a list that writes each of its blocks.\<close>

definition upd_CHs :: "(chb \<Rightarrow> chb) \<Rightarrow> node \<Rightarrow> node" where
  "upd_CHs f s = fold (\<lambda>p. upd_CH p f) (CHs_list s) s"

text \<open>The list that the sources select with the option \<open>MOD_NEIGHBOURS\<close>.\<close>

definition nbr_list :: "'e cenv_scheme \<Rightarrow> node \<Rightarrow> ptr list" where
  "nbr_list e s = (if MOD_NEIGHBOURS e then mod_neighbour_list s else neighbour_list s)"

section \<open>Statements\<close>

definition poll_c_gtsp_process :: "node \<Rightarrow> node" where
  "poll_c_gtsp_process s = s\<lparr>polled := True\<rparr>"

definition schedule ::
  "'e netenv_scheme \<Rightarrow> nat \<Rightarrow> rtimer_scheduletype_t \<Rightarrow> u32 \<Rightarrow> u32 \<Rightarrow> rtimer_callback_t \<Rightarrow> node \<Rightarrow>
   (bool \<times> node) res" where
  "schedule e timer interval c f func s =
     bindR (rtimer_schedule (fpe e) timer interval c f func (rts s)) (\<lambda>(b, r). Ok (b, s\<lparr>rts := r\<rparr>))"

text \<open>A call of \<open>rtimer_schedule\<close> as the condition of an \<^verbatim>\<open>if\<close>.\<close>

definition if_schedule ::
  "'e netenv_scheme \<Rightarrow> rtimer_scheduletype_t \<Rightarrow> u32 \<Rightarrow> u32 \<Rightarrow> rtimer_callback_t \<Rightarrow>
   (node \<Rightarrow> 'a res) \<Rightarrow> (node \<Rightarrow> 'a res) \<Rightarrow> node \<Rightarrow> 'a res" where
  "if_schedule e interval c f func yes no s =
     bindR (schedule e 0 interval c f func s) (\<lambda>(b, s1). if b then yes s1 else no s1)"

definition upd_rts :: "(rtimer_sys \<Rightarrow> rtimer_sys) \<Rightarrow> node \<Rightarrow> node" where
  "upd_rts f s = s\<lparr>rts := f (rts s)\<rparr>"

definition upd_rts_res :: "(rtimer_sys \<Rightarrow> rtimer_sys res) \<Rightarrow> node \<Rightarrow> node res" where
  "upd_rts_res f s = bindR (f (rts s)) (\<lambda>r. Ok (s\<lparr>rts := r\<rparr>))"

definition upd_anns :: "(ann_sys \<Rightarrow> ann_sys) \<Rightarrow> node \<Rightarrow> node" where
  "upd_anns f s = s\<lparr>ann := f (ann s)\<rparr>"

definition set_timer_state :: "rtimer_state_t \<Rightarrow> node \<Rightarrow> node" where
  "set_timer_state st = upd_rts (set_rt 0 (\<lambda>t. t\<lparr>rt_state := st\<rparr>))"

text \<open>Timer 0, and the assignment of its logical date to an announcement.\<close>

definition rt0 :: "node \<Rightarrow> rtimer_t" where
  "rt0 s = rt (rts s) ! 0"

definition announce_rt0_date :: "ptr \<Rightarrow> node \<Rightarrow> node" where
  "announce_rt0_date a s = upd_anns (announcement_set_date_fine a (time_fine_lg (rt0 s)))
     (upd_anns (announcement_set_date_coarse a (time_coarse_lg (rt0 s))) s)"

text \<open>The two assignments to the schedule reference that the state entries share.\<close>

definition set_schedule_ref :: "node \<Rightarrow> node" where
  "set_schedule_ref s = upd_rts (\<lambda>r. r\<lparr>coarse_schedule_ref := time_coarse_hw (rt r ! 0),
     fine_schedule_ref := time_fine_hw (rt r ! 0)\<rparr>) s"

end
