(* ===== verification/Gtsp.thy ===== *)
theory Gtsp
  imports CSync_State Rtimer_Laws
begin

text \<open>
  The gradient time synchronization protocol, \<^verbatim>\<open>src/core/net/c-sync/gtsp.c\<close>: \<open>gtsp_recv\<close> measures the
  offset and the relative rate of a neighbour from a time-sync frame, \<open>gtsp_update_rtimer\<close> moves the
  logical clock towards the neighbours. The code for \<^verbatim>\<open>MOD_TYPE == 5\<close> is left out: no definition of
  \<open>check_mod_neighbours\<close> exists for that option, so it does not link.
\<close>

section \<open>Measuring a neighbour\<close>

definition get_lg_delta_mac_netw :: "u16 \<Rightarrow> u16 \<Rightarrow> u16" where
  "get_lg_delta_mac_netw hw_a_timestamp hw_b_timestamp =
     (if hw_a_timestamp < hw_b_timestamp then hw_b_timestamp - hw_a_timestamp
      else hw_b_timestamp + (65535 - hw_a_timestamp))"

definition GTSP_MOVING_ALPHA :: "fp_env \<Rightarrow> dbl" where
  "GTSP_MOVING_ALPHA fp = fp_rnd fp (9 / 10)"

definition GTSP_DRIFT_THRESHOLD :: "fp_env \<Rightarrow> dbl" where
  "GTSP_DRIFT_THRESHOLD fp = fp_rnd fp (1 / 1000)"

abbreviation GTSP_JUMP_THRESHOLD :: int where "GTSP_JUMP_THRESHOLD \<equiv> 100"
abbreviation GTSP_COARSE_OVERFLOW_THRESHOLD :: u32 where "GTSP_COARSE_OVERFLOW_THRESHOLD \<equiv> 1000"

text \<open>The offset of the neighbour's frame: its own offset, the delays in the two stacks and in the air.\<close>

definition frame_offset :: "fp_env \<Rightarrow> timesync_frame_t \<Rightarrow> u16 \<Rightarrow> stamps \<Rightarrow> dbl \<Rightarrow> dbl \<Rightarrow> u32" where
  "frame_offset fp sf rx_timestamp st rel avg =
     (let one = d_of_int fp 1;
          send_delta_mac_netw = d_to_u16 fp
            (d_mul fp (d_mul fp (d_of_int fp (uint (get_lg_delta_mac_netw (sf_tb sf) (sf_hw_mac_timestamp sf)))) (sf_clock_rate sf))
               (d_add fp (sf_avg_rate sf) one));
          recv_delta_mac_netw = d_to_u16 fp
            (d_mul fp (d_mul fp (d_of_int fp (uint (get_lg_delta_mac_netw rx_timestamp (st_tb st)))) (st_rate st))
               (d_add fp rel one));
          delta_transmission = d_to_u16 fp
            (d_div fp (d_mul fp (d_of_int fp 3) (d_add fp one rel)) (d_add fp one avg))
      in sf_fine_offset sf + ucast send_delta_mac_netw + ucast recv_delta_mac_netw + ucast delta_transmission)"

text \<open>The rate estimate from the intervals since the previous frame of the neighbour.\<close>

definition update_relative_rate :: "fp_env \<Rightarrow> u32 \<Rightarrow> u32 \<Rightarrow> u32 \<Rightarrow> u32 \<Rightarrow> neighbour \<Rightarrow> neighbour" where
  "update_relative_rate fp now_n_coarse now_n_fine now_my_coarse now_my_fine n =
     (let (_, delta_lg_n_fine) = rtimer_lgdates_to_lg_interval now_n_coarse now_n_fine (last_n_coarse n) (last_lg_n_fine n);
          (_, delta_hw_my_fine) = rtimer_lgdates_to_lg_interval now_my_coarse now_my_fine (last_my_coarse n) (last_hw_my_fine n);
          current_rate = d_sub fp (d_div fp (d_of_int fp (uint delta_lg_n_fine)) (d_of_int fp (uint delta_hw_my_fine)))
                           (d_of_int fp 1)
      in if d_less (d_neg (GTSP_DRIFT_THRESHOLD fp)) current_rate \<and> d_less current_rate (GTSP_DRIFT_THRESHOLD fp)
         then n\<lparr>relative_rate := d_add fp (d_mul fp (GTSP_MOVING_ALPHA fp) (relative_rate n))
                  (d_mul fp (d_sub fp (d_of_int fp 1) (GTSP_MOVING_ALPHA fp)) current_rate),
                jumped := False\<rparr>
         else n\<lparr>jumped := True\<rparr>)"

text \<open>The difference of the two logical dates, with the special cases at a coarse overflow.\<close>

definition set_diffs :: "u32 \<Rightarrow> u32 \<Rightarrow> u32 \<Rightarrow> u32 \<Rightarrow> neighbour \<Rightarrow> neighbour" where
  "set_diffs now_my_coarse now_my_fine now_n_coarse now_n_fine n =
     (let cd = rtimer_diff now_my_coarse now_n_coarse in
      if cd = -1 \<and> now_my_fine > RTIMER_FINE_MAX - GTSP_COARSE_OVERFLOW_THRESHOLD \<and>
         now_n_fine < GTSP_COARSE_OVERFLOW_THRESHOLD
      then n\<lparr>fine_diff := rtimer_diff RTIMER_FINE_MAX now_my_fine + now_n_fine, coarse_diff := 0\<rparr>
      else if cd = 1 \<and> now_my_fine < GTSP_COARSE_OVERFLOW_THRESHOLD \<and>
         now_n_fine > RTIMER_FINE_MAX - GTSP_COARSE_OVERFLOW_THRESHOLD
      then n\<lparr>fine_diff := rtimer_diff RTIMER_FINE_MAX now_n_fine + now_my_fine, coarse_diff := 0\<rparr>
      else n\<lparr>coarse_diff := cd, fine_diff := rtimer_diff now_my_fine now_n_fine\<rparr>)"

text \<open>What \<open>gtsp_recv\<close> does to the neighbour and to the offset, given the capture.\<close>

definition gtsp_measure ::
  "fp_env \<Rightarrow> timesync_frame_t \<Rightarrow> u16 \<Rightarrow> bool \<Rightarrow> stamps \<Rightarrow> u32 \<Rightarrow> u32 \<Rightarrow> rtimer_sys \<Rightarrow> neighbour \<Rightarrow>
   rtimer_sys \<times> neighbour" where
  "gtsp_measure fp sf rx_timestamp new_neighbour st now_my_fine now_n_fine r n =
     (let now_my_coarse = rtimer_coarse_now r;
          n0 = (if new_neighbour then n\<lparr>relative_rate := d_of_int fp 0, jumped := False, synced := False\<rparr> else n);
          total_offset = frame_offset fp sf rx_timestamp st (relative_rate n0) (rtimer_avg_rate r);
          (n_coarse, n_fine) = rtimer_hwdate_to_lgdate (sf_coarse_now sf) now_n_fine total_offset;
          n1 = (if new_neighbour then n0
                else update_relative_rate fp n_coarse n_fine now_my_coarse now_my_fine n0);
          n2 = n1\<lparr>last_my_coarse := now_my_coarse, last_hw_my_fine := now_my_fine,
                   last_n_coarse := n_coarse, last_lg_n_fine := n_fine\<rparr>;
          r1 = rtimer_update_offset fp now_my_coarse now_my_fine r;
          (my_coarse, my_fine) = rtimer_hwdate_to_lgdate now_my_coarse now_my_fine (rtimer_fine_offset r1)
      in (r1, set_diffs my_coarse my_fine n_coarse n_fine n2))"

definition gtsp_recv :: "'e netenv_scheme \<Rightarrow> ptr \<Rightarrow> timesync_frame_t \<Rightarrow> bool \<Rightarrow> node \<Rightarrow> node res" where
  "gtsp_recv e p sf new_neighbour s =
     bindR (capture_stamps (fpe e) (rts s)) (\<lambda>(st, now_my_fine, r).
     bindR (from_option Diverge
         (rtimer_stamps_to_now (fpe e) (sf_ta sf) (sf_tb sf) (sf_ta_compare sf) (sf_tb_compare sf) (sf_clock_rate sf)))
       (\<lambda>now_n_fine.
         let (r1, n) = gtsp_measure (fpe e) sf (packetbuf_attr ATTR_TIMESTAMP (pb s)) new_neighbour st
                         now_my_fine now_n_fine r (nbr s p)
         in Ok (upd_nbr p (\<lambda>_. n) (s\<lparr>rts := r1\<rparr>))))"

section \<open>Moving the clock\<close>

definition within_jump :: "i32 \<Rightarrow> bool" where
  "within_jump d \<longleftrightarrow> - GTSP_JUMP_THRESHOLD < sint d \<and> sint d < GTSP_JUMP_THRESHOLD"

record gtsp_acc =
  g_avg_rate :: dbl
  g_coarse_diff_count :: u8
  g_coarse_synced_offset :: i32
  g_coarse_synced_count :: u8
  g_fine_diff_count :: u8
  g_fine_synced_offset :: i32
  g_fine_synced_count :: u8

definition gtsp_acc_start :: "dbl \<Rightarrow> gtsp_acc" where
  "gtsp_acc_start rate = \<lparr>g_avg_rate = rate, g_coarse_diff_count = 0, g_coarse_synced_offset = 0,
     g_coarse_synced_count = 0, g_fine_diff_count = 0, g_fine_synced_offset = 0, g_fine_synced_count = 0\<rparr>"

text \<open>The fine part of one iteration of the first loop.\<close>

definition gtsp_fine_step :: "fp_env \<Rightarrow> neighbour \<Rightarrow> gtsp_acc \<Rightarrow> gtsp_acc \<times> neighbour" where
  "gtsp_fine_step fp n acc =
     (if within_jump (fine_diff n)
      then (acc\<lparr>g_fine_synced_offset := g_fine_synced_offset acc + fine_diff n,
                g_avg_rate := d_add fp (g_avg_rate acc) (relative_rate n),
                g_fine_synced_count := g_fine_synced_count acc + 1\<rparr>, n\<lparr>synced := True\<rparr>)
      else (acc\<lparr>g_fine_diff_count := g_fine_diff_count acc + 1\<rparr>, n\<lparr>synced := False\<rparr>))"

text \<open>
  The inner search for the most frequent coarse difference among all neighbours, two nested loops over
  the whole list. Its loop variable is the variable \<^verbatim>\<open>n\<close> of the outer loop; the first component of the
  result is the value of \<^verbatim>\<open>n\<close> when the search is over, \<open>None\<close> for the null pointer.
\<close>

definition coarse_group :: "ptr list \<Rightarrow> node \<Rightarrow> i32 \<Rightarrow> u8" where
  "coarse_group all s d = fold (\<lambda>nn cnt. if d = coarse_diff (nbr s nn) then cnt + 1 else cnt) all 0"

fun coarse_search :: "ptr list \<Rightarrow> node \<Rightarrow> ptr list \<Rightarrow> gtsp_acc \<Rightarrow> ptr option \<times> gtsp_acc" where
  "coarse_search all s [] acc = (None, acc)"
| "coarse_search all s (n # ns) acc =
     (let d = coarse_diff (nbr s n);
          acc1 = acc\<lparr>g_coarse_diff_count := coarse_group all s d\<rparr>
      in coarse_search all s ns
           (if g_coarse_diff_count acc1 > g_coarse_synced_count acc1
            then acc1\<lparr>g_coarse_synced_count := g_coarse_diff_count acc1, g_coarse_synced_offset := d\<rparr>
            else acc1))"

text \<open>
  The first loop over the list \<open>all\<close>, of which \<open>p # ps\<close> is left. When the neighbours with another coarse
  time are in the majority so far, the inner search moves \<^verbatim>\<open>n\<close>; the fine part reads \<^verbatim>\<open>n->fine_diff\<close> of
  whatever \<^verbatim>\<open>n\<close> is then.
\<close>

fun gtsp_scan :: "'e netenv_scheme \<Rightarrow> ptr list \<Rightarrow> ptr list \<Rightarrow> gtsp_acc \<Rightarrow> node \<Rightarrow> (gtsp_acc \<times> node) res" where
  "gtsp_scan e all [] acc s = Ok (acc, s)"
| "gtsp_scan e all (p # ps) acc s =
     (let n = nbr s p in
      if nb_state n \<noteq> my_state s then gtsp_scan e all ps acc s
      else
        let acc1 = (if coarse_diff n = 0
                    then acc\<lparr>g_coarse_synced_count := g_coarse_synced_count acc + 1\<rparr>
                    else acc\<lparr>g_coarse_diff_count := g_coarse_diff_count acc + 1\<rparr>);
            (cur, acc2) = (if g_coarse_synced_count acc1 < g_coarse_diff_count acc1
                           then coarse_search all s all acc1 else (Some p, acc1))
        in case cur of
             None \<Rightarrow> Fault NullDeref
           | Some q \<Rightarrow>
               let (acc3, n') = gtsp_fine_step (fpe e) (nbr s q) acc2
               in gtsp_scan e all ps acc3 (upd_nbr q (\<lambda>_. n') s))"

text \<open>
  The search for the largest group of unsynchronized neighbours, made in DISCOVERY: the inner loop
  counts the neighbours behind \<open>d\<close> in the list that are close to it.
\<close>

definition group_step :: "i32 \<Rightarrow> neighbour \<Rightarrow> u8 \<times> i32 \<Rightarrow> u8 \<times> i32" where
  "group_step d nn acc = (case acc of (cnt, off) \<Rightarrow>
     if within_jump (rtimer_diff d (fine_diff nn)) then (cnt + 1, off + fine_diff nn) else acc)"

fun group_scan :: "neighbour list \<Rightarrow> u8 \<times> i32 \<Rightarrow> u8 \<times> i32" where
  "group_scan [] acc = acc"
| "group_scan (n # ns) (fine_synced_count, fine_synced_offset) =
     (if synced n then group_scan ns (fine_synced_count, fine_synced_offset)
      else
        let (cnt, off) = fold (group_step (fine_diff n)) ns (1, fine_diff n)
        in if cnt \<ge> fine_synced_count then group_scan ns (cnt, s_div off (uint cnt))
           else group_scan ns (fine_synced_count, fine_synced_offset))"

text \<open>The last loop: the neighbours are seen from the moved clock.\<close>

definition shift_nbr :: "i32 \<Rightarrow> i32 \<Rightarrow> neighbour \<Rightarrow> neighbour" where
  "shift_nbr coarse_off off n =
     n\<lparr>coarse_diff := coarse_diff n - coarse_off, fine_diff := fine_diff n - off, synced := within_jump (fine_diff n - off)\<rparr>"

definition gtsp_update_rtimer :: "'e netenv_scheme \<Rightarrow> ptr list \<Rightarrow> node \<Rightarrow> node res" where
  "gtsp_update_rtimer e ps s =
     bindR (gtsp_scan e ps ps (gtsp_acc_start (rtimer_avg_rate (rts s))) s) (\<lambda>(acc, s1).
     bindR (upd_rts_res (rtimer_adjust_coarse_count (g_coarse_synced_offset acc)) s1) (\<lambda>s2.
       let off = s_div (g_fine_synced_offset acc) (uint (g_fine_synced_count acc) + 1);
           (off', s3) =
             (if g_fine_synced_count acc > g_fine_diff_count acc
              then (off, upd_rts (rtimer_set_avg_rate (d_div (fpe e) (g_avg_rate acc)
                      (d_of_int (fpe e) (uint (g_fine_synced_count acc) + uint (g_fine_diff_count acc) + 1)))) s2)
              else if my_state s2 = DISCOVERY
              then (snd (group_scan (map (nbr s2) ps) (g_fine_synced_count acc, off)), s2)
              else (off, s2))
       in bindR (upd_rts_res (rtimer_adjust_fine_offset (fpe e) off') s3) (\<lambda>s4.
            Ok (fold (\<lambda>p. upd_nbr p (shift_nbr (g_coarse_synced_offset acc) off')) ps s4))))"

end
