(* ===== verification/Neighbours.thy ===== *)
theory Neighbours
  imports Gtsp
begin

text \<open>
  The neighbour table of \<^verbatim>\<open>src/examples/c-sync/c-sync.c\<close>: the fixed topologies of
  \<open>check_mod_neighbours\<close>, \<open>add_to_neighbour\<close>, the role and placing updates, and the synchronization to
  a trusted neighbour \<open>csync_trusted_synchronization\<close>. Its branch for \<^verbatim>\<open>AVG_CONSENSUS\<close> is left out: with
  that option the function uses a variable that is not declared.
\<close>

section \<open>Topologies\<close>

text \<open>The \<^verbatim>\<open>switch\<close> statements as tables: for each node address the addresses that are let through.\<close>

type_synonym topology = "(u16 \<times> u16 list) list"

definition topology_1a :: topology where
  "topology_1a =
    [(48, [40, 42, 44, 45, 46, 47]), (40, [48]), (42, [48]), (44, [48, 78]), (45, [48, 78]),
     (46, [48]), (47, [48]), (78, [44, 45, 72, 49]), (72, [69, 78]),
     (69, [62, 64, 66, 70, 71, 72, 75, 76]), (62, [69]), (65, [62]), (64, [69, 56]), (66, [69]),
     (70, [69, 71])]"

definition topology_1b :: topology where
  "topology_1b =
    [(71, [70]), (75, [69]), (76, [69]), (49, [58, 78]), (53, [58]), (54, [58, 61]), (55, [58]),
     (58, [49, 53, 54, 55]), (61, [54]), (60, [51]), (51, [57, 60]), (57, [23, 56]),
     (56, [51, 57, 64, 52])]"

definition topology_1c :: topology where
  "topology_1c =
    [(52, [23]), (23, [16, 19, 22, 24, 52, 57]), (24, [23]), (22, [23, 35]), (35, [22, 30]),
     (30, [35]), (19, [17, 23]), (17, [19, 23]), (16, [23])]"

definition topology_2 :: topology where
  "topology_2 =
    [(75, [62]), (62, [70, 75]), (70, [71, 62]), (71, [66, 70]), (66, [71, 69]), (69, [66, 76]),
     (76, [64, 69]), (64, [56, 76]), (56, [51, 64]), (51, [56, 60]), (60, [51])]"

definition topology_3 :: topology where
  "topology_3 =
    [(69, [64, 66, 70, 71, 75]), (70, [69]), (71, [69]), (75, [69]), (65, [62, 64, 66, 76]),
     (62, [65]), (76, [65]), (64, [65, 69, 66]), (66, [64, 65, 69])]"

definition topology :: "nat \<Rightarrow> topology" where
  "topology mt =
     (if mt = 1 then topology_1a @ topology_1b @ topology_1c
      else if mt = 2 then topology_2
      else if mt = 3 then topology_3
      else [])"

definition check_mod_neighbours :: "'e cenv_scheme \<Rightarrow> u16 \<Rightarrow> u16 \<Rightarrow> bool" where
  "check_mod_neighbours e addr n_id =
     (case map_of (topology (MOD_TYPE e)) addr of None \<Rightarrow> False | Some ns \<Rightarrow> n_id \<in> set ns)"

section \<open>The neighbour table\<close>

definition csync_all_synced :: "'e cenv_scheme \<Rightarrow> node \<Rightarrow> bool" where
  "csync_all_synced e s =
     list_all (\<lambda>p. \<not> (synced (nbr s p) = False \<or> nb_state (nbr s p) > 1)) (nbr_list e s)"

text \<open>A frame from a neighbour that is in the list.\<close>

definition known_neighbour ::
  "'e cenv_scheme \<Rightarrow> ptr \<Rightarrow> u8 \<Rightarrow> u8 \<Rightarrow> timesync_frame_t \<Rightarrow> node \<Rightarrow> (ptr option \<times> node) res" where
  "known_neighbour e p state degree sf s =
     bindR (gtsp_recv e p sf False s) (\<lambda>s1.
       if my_state s1 = IDLE then Ok (Some p, s1)
       else
         let st = (if state = DISC_TO_EREV \<or> state = CONVERGENCE_PROACTIVE then state - 1 else state);
             s2 = upd_nbr p (\<lambda>n. n\<lparr>nb_state := st\<rparr>) s1
         in bindR (if (my_state s2 < CONSENSUS_SYNCHRONIZATION \<and> st = my_state s2) \<or> my_state s2 = DISCOVERY
                   then gtsp_update_rtimer e (nbr_list e s2) s2 else Ok s2)
              (\<lambda>s3. Ok (Some p, if my_state s3 < CONNECTION_DECLARATION
                                 then upd_nbr p (\<lambda>n. n\<lparr>nb_degree := degree\<rparr>) s3 else s3)))"

text \<open>A frame from an unknown neighbour: a block is allocated and filled.\<close>

definition fill_neighbour :: "u16 \<Rightarrow> u8 \<Rightarrow> u8 \<Rightarrow> u8 \<Rightarrow> neighbour \<Rightarrow> neighbour" where
  "fill_neighbour addr state degree my_st n =
     (let n1 = n\<lparr>nb_addr := addr\<rparr>;
          n2 = (if my_st < CONNECTION_DECLARATION then n1\<lparr>nb_degree := degree\<rparr> else n1)
      in n2\<lparr>nb_role := CM, nb_state := state\<rparr>)"

definition new_neighbour ::
  "'e cenv_scheme \<Rightarrow> u16 \<Rightarrow> u8 \<Rightarrow> u8 \<Rightarrow> timesync_frame_t \<Rightarrow> node \<Rightarrow> (ptr option \<times> node) res" where
  "new_neighbour e addr state degree sf s =
     (case memb_alloc (neighbour_memb s) of
        (None, m) \<Rightarrow> Ok (None, s\<lparr>neighbour_memb := m\<rparr>)
      | (Some p, m) \<Rightarrow>
          let s1 = upd_nbr p (fill_neighbour addr state degree (my_state s)) (s\<lparr>neighbour_memb := m\<rparr>) in
          bindR (gtsp_recv e p sf True s1) (\<lambda>s2.
            if MOD_NEIGHBOURS e \<and> \<not> check_mod_neighbours e (my_addr s2) addr
            then Ok (None, s2\<lparr>neighbour_list := seq_add p (neighbour_list s2)\<rparr>)
            else
              let s3 = s2\<lparr>my_degree := my_degree s2 + 1\<rparr>;
                  s4 = (if MOD_NEIGHBOURS e
                        then s3\<lparr>mod_neighbour_list := seq_add p (mod_neighbour_list s3)\<rparr>
                        else s3\<lparr>neighbour_list := seq_add p (neighbour_list s3)\<rparr>)
              in Ok (Some p, upd_anns (announcement_set_degree discovery_announcement (my_degree s4)) s4)))"

definition add_to_neighbour ::
  "'e cenv_scheme \<Rightarrow> u16 \<Rightarrow> u8 \<Rightarrow> u8 \<Rightarrow> timesync_frame_t \<Rightarrow> node \<Rightarrow> (ptr option \<times> node) res" where
  "add_to_neighbour e addr state degree sf s =
     (if MOD_NEIGHBOURS e then
        case List.find (\<lambda>p. nb_addr (nbr s p) = addr \<and> check_mod_neighbours e (my_addr s) (nb_addr (nbr s p)))
               (mod_neighbour_list s) of
          Some p \<Rightarrow> known_neighbour e p state degree sf s
        | None \<Rightarrow>
            (case List.find (\<lambda>p. nb_addr (nbr s p) = addr) (neighbour_list s) of
               Some p \<Rightarrow> bindR (gtsp_recv e p sf False s) (\<lambda>s1. Ok (None, s1))
             | None \<Rightarrow> new_neighbour e addr state degree sf s)
      else
        case List.find (\<lambda>p. nb_addr (nbr s p) = addr) (neighbour_list s) of
          Some p \<Rightarrow> known_neighbour e p state degree sf s
        | None \<Rightarrow> new_neighbour e addr state degree sf s)"

definition update_neighbour_role :: "'e cenv_scheme \<Rightarrow> u16 \<Rightarrow> role_t \<Rightarrow> node \<Rightarrow> node" where
  "update_neighbour_role e addr role_sender s =
     fold (\<lambda>k s. if nb_addr (nbr s k) = addr \<and>
                     (MOD_NEIGHBOURS e \<longrightarrow> check_mod_neighbours e (my_addr s) (nb_addr (nbr s k)))
                 then (if role_sender = CH then upd_nbr k (\<lambda>n. n\<lparr>nb_role := CH\<rparr>) s
                       else if role_sender = CB then upd_nbr k (\<lambda>n. n\<lparr>nb_role := CB\<rparr>) s
                       else s)
                 else s)
       (nbr_list e s) s"

section \<open>Placing\<close>

definition placing_step :: "u8 \<Rightarrow> u16 \<Rightarrow> u8 \<Rightarrow> u16 \<Rightarrow> u8 \<Rightarrow> u8" where
  "placing_step my_deg my_ad degree addr placing =
     (if degree > my_deg then placing + (degree - my_deg)
      else if degree = my_deg \<and> addr > my_ad then placing + 1
      else placing)"

definition csync_update_placing :: "'e cenv_scheme \<Rightarrow> node \<Rightarrow> node" where
  "csync_update_placing e s =
     s\<lparr>my_placing := fold (\<lambda>p. placing_step (my_degree s) (my_addr s) (nb_degree (nbr s p)) (nb_addr (nbr s p)))
                       (nbr_list e s) 0\<rparr>"

definition csync_CHB_placing :: "node \<Rightarrow> u8" where
  "csync_CHB_placing s =
     fold (\<lambda>p placing.
        let c = the_CH s p in
        if ch_degree c > my_degree s \<and> my_role s = CB then placing + (ch_degree c - my_degree s)
        else if ch_degree c = my_degree s \<and> ch_addr c > my_addr s then placing + 1
        else placing) (CHs_list s) 0"

section \<open>Synchronization to a trusted neighbour\<close>

text \<open>The new consensus rate; a zero is replaced by one.\<close>

definition new_cons_rate :: "fp_env \<Rightarrow> dbl \<Rightarrow> dbl \<Rightarrow> dbl \<Rightarrow> dbl" where
  "new_cons_rate fp rel curr_rate cons_rate =
     (let r = d_mul fp (d_div fp rel curr_rate) cons_rate in if d_is_zero r then d_of_int fp 1 else r)"

text \<open>
  The address that \<^verbatim>\<open>ch->addr\<close> reads at the head of \<open>CHs_list\<close>. When the pool is linked there, this is its
  second \<^verbatim>\<open>unsigned short\<close>, the number of its blocks (pointers have 16 bits on the MSP430).
\<close>

definition first_head_addr :: "node \<Rightarrow> u16 option" where
  "first_head_addr s =
     (if pool_linked s then Some (of_nat (mnum (CHs_memb s)))
      else case CHs_list s of [] \<Rightarrow> None | c # _ \<Rightarrow> Some (ch_addr (the_CH s c)))"

text \<open>The part that depends on the role: the state, and whether the function goes on.\<close>

definition trusted_rate :: "'e netenv_scheme \<Rightarrow> ptr \<Rightarrow> u16 \<Rightarrow> dbl \<Rightarrow> node \<Rightarrow> (bool \<times> node) res" where
  "trusted_rate e p c_addr cons_rate s =
     (let fp = fpe e; n = nbr s p; curr_rate = rtimer_avg_rate (rts s);
          cons' = d_mul fp cons_rate (relative_rate n)
      in case my_role s of
        CM \<Rightarrow>
          (case first_head_addr s of
             None \<Rightarrow> Fault NullDeref
           | Some addr \<Rightarrow>
               if nb_addr n \<noteq> addr then Ok (False, s)
               else if my_cons_slot s = this_sync_slot s then Ok (True, upd_rts (rtimer_set_avg_rate cons') s)
               else Ok (True, s))
      | CB \<Rightarrow>
          if list_ex (\<lambda>c. nb_addr n = ch_addr (the_CB s c)) (CBs_list s) then Ok (False, s)
          else if my_cons_slot s > this_sync_slot s
          then Ok (True, upd_rts (rtimer_set_avg_rate cons')
                     (s\<lparr>my_cons_rate := new_cons_rate fp (relative_rate n) curr_rate cons_rate\<rparr>))
          else Ok (True, s)
      | CH \<Rightarrow>
          if list_ex (\<lambda>c. nb_addr n \<noteq> ch_addr (the_CB s c)) (CBs_list s) then Ok (False, s)
          else
            let s1 = s\<lparr>my_cons_rate := new_cons_rate fp (relative_rate n) curr_rate cons_rate\<rparr> in
            if my_cons_slot s1 = this_sync_slot s1 then Ok (True, upd_rts (rtimer_set_avg_rate cons') s1)
            else if sync_LC_addr s1 \<noteq> my_addr s1 \<and> sync_LC_addr s1 = c_addr
            then Ok (True, upd_rts (rtimer_set_avg_rate (d_div fp (d_add fp cons' curr_rate) (d_of_int fp 2))) s1)
            else Ok (False, s1))"

definition csync_trusted_synchronization ::
  "'e cenv_scheme \<Rightarrow> ptr \<Rightarrow> u16 \<Rightarrow> dbl \<Rightarrow> node \<Rightarrow> node res" where
  "csync_trusted_synchronization e p c_addr cons_rate s =
     (let n_fine_diff = fine_diff (nbr s p) in
      bindR (trusted_rate e p c_addr cons_rate s) (\<lambda>(go_on, s1).
        if go_on then
          bindR (upd_rts_res (rtimer_adjust_fine_offset (fpe e) n_fine_diff) s1) (\<lambda>s2.
            Ok (fold (\<lambda>q. upd_nbr q (\<lambda>nn. nn\<lparr>fine_diff := fine_diff nn - n_fine_diff\<rparr>)) (nbr_list e s2) s2))
        else Ok s1))"

end
