(* ===== verification/Cluster.thy ===== *)
theory Cluster
  imports Neighbours
begin

text \<open>
  The lists of cluster heads and bridges: \<^verbatim>\<open>src/core/net/c-sync/handle_lists.c\<close>,
  \<^verbatim>\<open>init_consensus_convergence.c\<close> and \<^verbatim>\<open>init_consensus_synchronization.c\<close>.
\<close>

section \<open>handle\_lists.c\<close>

text \<open>
  The function works on the list and the pool that the state selects. It is defined for any list and
  pool; \<open>fill_chb\<close> is the assignment of the fields of a new entry.
\<close>

definition fill_chb :: "role_t \<Rightarrow> u16 \<Rightarrow> u8 \<Rightarrow> announcement_value \<Rightarrow> neighbour \<Rightarrow> chb" where
  "fill_chb role my_ad my_deg av n =
     (if role = CH
      then \<lparr>ch_addr = nb_addr n, ch_degree = av_degree av - my_deg, ch_cons_slot = 0,
            n_CHB_addr_A = av_ref_addr av - my_ad, n_CHB_addr_B = 0\<rparr>
      else \<lparr>ch_addr = nb_addr n, ch_degree = nb_degree n, ch_cons_slot = 0,
            n_CHB_addr_A = av_ref_addr av, n_CHB_addr_B = 0\<rparr>)"

text \<open>
  The search loop: \<open>Inl ()\<close> when the address is in the list, otherwise the position (counted from 1)
  and whether it stopped before the end.
\<close>

fun find_position :: "chb memb \<Rightarrow> neighbour \<Rightarrow> ptr list \<Rightarrow> u8 \<Rightarrow> unit + (u8 \<times> bool)" where
  "find_position m n [] position = Inr (position, False)"
| "find_position m n (p # ps) position =
     (let c = mmem m ! p in
      if ch_addr c = nb_addr n then Inl ()
      else if nb_degree n > ch_degree c \<or> (nb_degree n = ch_degree c \<and> nb_addr n > ch_addr c)
      then Inr (position, True)
      else find_position m n ps (position + 1))"

text \<open>The loop that looks for the entry after which the new one is inserted.\<close>

fun find_before :: "ptr list \<Rightarrow> u8 \<Rightarrow> ptr option" where
  "find_before [] position = None"
| "find_before (p # ps) position = (if position \<le> 2 then Some p else find_before ps (position - 1))"

definition place_at :: "u8 \<Rightarrow> ptr \<Rightarrow> ptr list \<Rightarrow> ptr list" where
  "place_at position p ps =
     (if position = 1 then seq_push p ps
      else case find_before ps position of None \<Rightarrow> ps | Some q \<Rightarrow> seq_insert q p ps)"

text \<open>The block for the new entry, and the list after an entry was possibly removed for it.\<close>

definition alloc_slot :: "bool \<Rightarrow> ptr list \<Rightarrow> chb memb \<Rightarrow> (ptr list \<times> chb memb \<times> ptr option) option" where
  "alloc_slot stopped ps m =
     (if length ps < NUM_CH_MAX then
        case memb_alloc m of (r, m1) \<Rightarrow> Some (ps, m1, r)
      else if stopped \<and> length ps = NUM_CH_MAX then
        case memb_alloc (snd (memb_free m (last ps))) of (r, m1) \<Rightarrow> Some (butlast ps, m1, r)
      else None)"

definition insert_entry ::
  "neighbour \<Rightarrow> chb \<Rightarrow> ptr list \<Rightarrow> chb memb \<Rightarrow> ptr list \<times> chb memb" where
  "insert_entry n entry ps m =
     (case find_position m n ps 1 of
        Inl _ \<Rightarrow> (ps, m)
      | Inr (position, stopped) \<Rightarrow>
          (case alloc_slot stopped ps m of
             None \<Rightarrow> (ps, m)
           | Some (ps1, m1, None) \<Rightarrow> (ps1, m1)
           | Some (ps1, m1, Some p) \<Rightarrow> (place_at position p ps1, set_block p (\<lambda>_. entry) m1)))"

text \<open>The whole function. The first result is its return value.\<close>

definition handle_lists :: "announcement_value \<Rightarrow> ptr \<Rightarrow> node \<Rightarrow> u8 \<times> node" where
  "handle_lists av np s =
     (let n = nbr s np;
          heads = (my_state s = ELECTION_DECLARATION \<or> my_state s = CONSENSUS_CONVERGENCE)
      in if \<not> heads \<and> my_state s \<noteq> CONNECTION_DECLARATION then (0, s)
         else
           let ps = (if heads then CHs_list s else CBs_list s);
               m = (if heads then CHs_memb s else CBs_memb s);
               put = (\<lambda>(ps', m') t. if heads then t\<lparr>CHs_list := ps', CHs_memb := m'\<rparr>
                                    else t\<lparr>CBs_list := ps', CBs_memb := m'\<rparr>)
           in if ps = [] then
                (case memb_alloc m of
                   (None, m1) \<Rightarrow> (0, put (ps, m1) s)
                 | (Some p, m1) \<Rightarrow>
                     let s1 = (if heads then s\<lparr>my_role := CM\<rparr> else s);
                         entry = fill_chb (my_role s1) (my_addr s1) (my_degree s1) av n
                     in (1, put (seq_push p ps, set_block p (\<lambda>_. entry) m1) s1))
              else (1, put (insert_entry n (fill_chb (my_role s) (my_addr s) (my_degree s) av n) ps m) s))"

section \<open>init\_consensus\_convergence.c\<close>

text \<open>The inner loop: the first cluster head with the address.\<close>

definition find_head :: "u16 \<Rightarrow> ptr list \<Rightarrow> chb memb \<Rightarrow> ptr option" where
  "find_head addr ps m = List.find (\<lambda>p. ch_addr (mmem m ! p) = addr) ps"

text \<open>The outer loop over the bridges; the flag tells whether the pool ran out.\<close>

fun heads_of_bridges :: "chb list \<Rightarrow> ptr list \<Rightarrow> chb memb \<Rightarrow> bool \<times> ptr list \<times> chb memb" where
  "heads_of_bridges [] ps m = (True, ps, m)"
| "heads_of_bridges (b # bs) ps m =
     (case find_head (n_CHB_addr_A b) ps m of
        Some p \<Rightarrow> heads_of_bridges bs ps (set_block p (\<lambda>c. c\<lparr>n_CHB_addr_B := ch_addr b\<rparr>) m)
      | None \<Rightarrow>
          (case memb_alloc m of
             (None, m1) \<Rightarrow> (False, ps, m1)
           | (Some p, m1) \<Rightarrow>
               heads_of_bridges bs (seq_push p ps)
                 (set_block p (\<lambda>_. \<lparr>ch_addr = n_CHB_addr_A b, ch_degree = ch_degree b, ch_cons_slot = 0,
                    n_CHB_addr_A = ch_addr b, n_CHB_addr_B = 0\<rparr>) m1)))"

definition proactive_slot_of :: "nat \<Rightarrow> u8" where
  "proactive_slot_of n = (if n \<le> 1 then 0 else if n = 2 then 1 else 3)"

definition init_consensus_convergence :: "node \<Rightarrow> node" where
  "init_consensus_convergence s =
     (let bs = map (the_CB s) (CBs_list s);
          (complete, ps, m) = heads_of_bridges bs [] (memb_init chb_zero (CHs_memb s));
          s1 = s\<lparr>CHs_list := ps, CHs_memb := m\<rparr>
      in if complete
         then upd_anns (announcement_set_instr convergence_announcement (my_state s))
                (s1\<lparr>my_proactive_slot := proactive_slot_of (length ps)\<rparr>)
         else s1)"

section \<open>init\_consensus\_synchronization.c\<close>

definition flip_slot :: "u8 \<Rightarrow> u8" where
  "flip_slot x = (NUM_CONS_SLOTS + 1) - x"

text \<open>The loop that looks for the reference: the head with the smallest slot.\<close>

definition ref_step :: "chb \<Rightarrow> u16 \<times> u8 \<times> bool \<Rightarrow> u16 \<times> u8 \<times> bool" where
  "ref_step c acc = (case acc of (addr, deg, border) \<Rightarrow>
     if ch_cons_slot c < deg then (ch_addr c, ch_cons_slot c, False)
     else if ch_cons_slot c > NUM_CONS_SLOTS then (addr, deg, False)
     else acc)"

definition init_consensus_synchronization :: "node \<Rightarrow> node" where
  "init_consensus_synchronization s =
     (let s1 = upd_CHs (\<lambda>c. c\<lparr>ch_cons_slot := flip_slot (ch_cons_slot c)\<rparr>)
                 (s\<lparr>my_cons_slot := flip_slot (my_cons_slot s)\<rparr>);
          deg0 = (if my_role s1 = CH then my_cons_slot s1 else NUM_CONS_SLOTS);
          border0 = (if my_role s1 = CH then True else my_sync_border s1);
          (addr, deg, border) = fold (\<lambda>p. ref_step (the_CH s1 p)) (CHs_list s1) (my_addr s1, deg0, border0);
          s2 = s1\<lparr>ref_n_CHB_addr := addr, ref_n_CHB_degree := deg, my_sync_border := border\<rparr>
      in if my_role s2 = CB
         then s2\<lparr>my_cons_slot := fold (\<lambda>p slot. if ch_addr (the_CH s2 p) \<noteq> ref_n_CHB_addr s2
                                              then ch_cons_slot (the_CH s2 p) else slot)
                                  (CHs_list s2) (my_cons_slot s2)\<rparr>
         else s2)"

definition update_consensus_synchronization :: "node \<Rightarrow> node" where
  "update_consensus_synchronization s =
     s\<lparr>my_cons_slot := fold (\<lambda>p _. ch_cons_slot (the_CH s p))
                         (takeWhile (\<lambda>p. ch_addr (the_CH s p) \<noteq> ref_n_CHB_addr s) (CHs_list s)) (my_cons_slot s)\<rparr>"

end
