(* ===== verification/Cluster_Laws.thy ===== *)
theory Cluster_Laws
  imports Cluster Adv_Laws "HOL-Library.Multiset"
begin

text \<open>
  What handle\_lists.c and the consensus initialisation guarantee. The abstract content of a list of
  cluster heads or bridges is the sequence of its entries; \<open>handle_lists\<close> refines the insertion \<open>ins\<close>
  into that sequence, cut to \<open>NUM_CH_MAX\<close> entries, and keeps the pool and the list in step.
\<close>

section \<open>The abstract list\<close>

text \<open>The entries of a list of blocks.\<close>

definition entries :: "chb memb \<Rightarrow> ptr list \<Rightarrow> chb list" where
  "entries m ps = map ((!) (mmem m)) ps"

text \<open>The neighbour comes before the entry.\<close>

definition beats :: "neighbour \<Rightarrow> chb \<Rightarrow> bool" where
  "beats n c \<longleftrightarrow> nb_degree n > ch_degree c \<or> (nb_degree n = ch_degree c \<and> nb_addr n > ch_addr c)"

text \<open>Insertion of an entry for a neighbour: not behind an entry with its address.\<close>

fun ins :: "neighbour \<Rightarrow> chb \<Rightarrow> chb list \<Rightarrow> chb list" where
  "ins n c [] = [c]"
| "ins n c (x # xs) =
     (if ch_addr x = nb_addr n then x # xs
      else if beats n x then c # x # xs
      else x # ins n c xs)"

text \<open>The list and its pool: exactly the blocks of the list are in use.\<close>

definition pool_inv :: "chb memb \<Rightarrow> ptr list \<Rightarrow> bool" where
  "pool_inv m ps \<longleftrightarrow> memb_ok m \<and> distinct ps \<and> set ps = memb_used m \<and> length ps \<le> NUM_CH_MAX \<and>
     NUM_CH_MAX \<le> mnum m"

lemma entries_simps [simp]:
  "entries m [] = []"
  "entries m (p # ps) = mmem m ! p # entries m ps"
  "entries m (ps @ qs) = entries m ps @ entries m qs"
  "length (entries m ps) = length ps"
  by (simp_all add: entries_def)

lemma entries_take_drop:
  "entries m (take i ps) = take i (entries m ps)"
  "entries m (drop i ps) = drop i (entries m ps)"
  by (simp_all add: entries_def take_map drop_map)

lemma entries_mem: "mmem m' = mmem m \<Longrightarrow> entries m' ps = entries m ps"
  by (simp add: entries_def)

lemma set_block_simps [simp]:
  "mcount (set_block p f m) = mcount m"
  "length (mmem (set_block p f m)) = length (mmem m)"
  "q \<noteq> p \<Longrightarrow> mmem (set_block p f m) ! q = mmem m ! q"
  "p < length (mmem m) \<Longrightarrow> mmem (set_block p f m) ! p = f (mmem m ! p)"
  by (simp_all add: set_block_def)

lemma set_block_used [simp]: "memb_used (set_block p f m) = memb_used m"
  by (simp add: memb_used_def)

lemma set_block_ok: "memb_ok m \<Longrightarrow> memb_ok (set_block p f m)"
  by (simp add: memb_ok_def)

lemma entries_set_block: "p \<notin> set ps \<Longrightarrow> entries (set_block p f m) ps = entries m ps"
  by (induction ps) auto

lemma length_ins: "length (ins n c xs) \<le> Suc (length xs)"
  by (induction xs) auto

section \<open>Searching and placing\<close>

lemma find_position_Inl: "find_position m n ps k = Inl u \<Longrightarrow> ins n c (entries m ps) = entries m ps"
  by (induction ps arbitrary: k) (auto simp: Let_def beats_def split: if_splits)

lemma find_position_Inr:
  "find_position m n ps k = Inr (position, stopped) \<Longrightarrow>
   \<exists>i \<le> length ps. position = k + of_nat i \<and> (stopped \<longleftrightarrow> i < length ps) \<and>
     ins n c (entries m ps) = take i (entries m ps) @ c # drop i (entries m ps)"
proof (induction ps arbitrary: k)
  case Nil
  then show ?case by auto
next
  case (Cons p ps)
  let ?x = "mmem m ! p"
  have ne: "ch_addr ?x \<noteq> nb_addr n" using Cons.prems by (auto simp: Let_def)
  show ?case
  proof (cases "beats n ?x")
    case True
    then have "position = k \<and> stopped" using Cons.prems ne by (auto simp: Let_def beats_def)
    with True ne show ?thesis by (intro exI [of _ 0]) simp
  next
    case False
    then have "find_position m n ps (k + 1) = Inr (position, stopped)"
      using Cons.prems ne by (auto simp: Let_def beats_def split: if_splits)
    from Cons.IH [OF this] obtain i where i: "i \<le> length ps" "position = k + 1 + of_nat i"
        "stopped \<longleftrightarrow> i < length ps"
        "ins n c (entries m ps) = take i (entries m ps) @ c # drop i (entries m ps)" by blast
    with False ne show ?thesis by (intro exI [of _ "Suc i"]) (simp add: add.assoc)
  qed
qed

lemma find_before_nth:
  "i < length ps \<Longrightarrow> i < 200 \<Longrightarrow> find_before ps (2 + of_nat i) = Some (ps ! i)"
proof (induction ps arbitrary: i)
  case (Cons p ps)
  show ?case
  proof (cases i)
    case 0
    then show ?thesis by simp
  next
    case (Suc j)
    have "unat (2 + of_nat i :: u8) = 2 + i" using Cons.prems(2) by (simp add: unat_word_ariths unat_of_nat)
    then have "\<not> (2 + of_nat i :: u8) \<le> 2" using Suc by (simp add: word_le_nat_alt)
    moreover have "(2 + of_nat i :: u8) - 1 = 2 + of_nat j" using Suc by simp
    ultimately show ?thesis using Suc Cons.IH [of j] Cons.prems by simp
  qed
qed simp

lemma seq_insert_nth:
  assumes "distinct ps" and "i < length ps"
  shows "seq_insert (ps ! i) p ps = take (Suc i) ps @ p # drop (Suc i) ps"
  using assms
proof (induction ps arbitrary: i)
  case (Cons x ps)
  then show ?case by (cases i) auto
qed simp

lemma place_at_eq:
  assumes "distinct ps" and "p \<notin> set ps" and "i \<le> length ps" and "length ps < 200"
  shows "place_at (1 + of_nat i) p ps = take i ps @ p # drop i ps"
proof (cases i)
  case 0
  then show ?thesis using assms(2) by (simp add: place_at_def seq_push_def)
next
  case (Suc j)
  have "unat (1 + of_nat i :: u8) = 1 + i" using assms(3,4) by (simp add: unat_word_ariths unat_of_nat)
  then have "unat (1 + of_nat i :: u8) \<noteq> unat (1 :: u8)" using Suc by simp
  then have "(1 + of_nat i :: u8) \<noteq> 1" by metis
  moreover have "find_before ps (2 + of_nat j) = Some (ps ! j)"
    using Suc assms(3,4) by (intro find_before_nth) simp_all
  moreover have "(1 + of_nat i :: u8) = 2 + of_nat j" using Suc by simp
  ultimately show ?thesis
    using seq_insert_nth [OF assms(1), of j p] Suc assms(3) by (simp add: place_at_def)
qed

lemma distinct_insert_mid: "distinct (xs @ ys) \<Longrightarrow> p \<notin> set (xs @ ys) \<Longrightarrow> distinct (xs @ p # ys)"
  by auto

section \<open>handle\_lists refines the insertion\<close>

lemma place_new_block:
  assumes inv: "memb_ok m" "distinct qs" "set qs = memb_used m" "length qs < NUM_CH_MAX" "NUM_CH_MAX \<le> mnum m"
    and i: "i \<le> length qs"
  shows "\<exists>p m1. memb_alloc m = (Some p, m1) \<and>
     pool_inv (set_block p (\<lambda>_. c) m1) (place_at (1 + of_nat i) p qs) \<and>
     entries (set_block p (\<lambda>_. c) m1) (place_at (1 + of_nat i) p qs) =
       take i (entries m qs) @ c # drop i (entries m qs)"
proof -
  have "card (memb_used m) = length qs" using inv(2,3) by (metis distinct_card)
  then obtain p m1 where a: "memb_alloc m = (Some p, m1)"
    using mb.alloc_succeeds [OF inv(1)] inv(4,5) by auto
  note a' = mb.alloc_Some [OF inv(1) a] and mem = memb_alloc_Some [OF a]
  have fresh: "p \<notin> set qs" using a' inv(3) by simp
  have place: "place_at (1 + of_nat i) p qs = take i qs @ p # drop i qs"
    using inv(2,4) fresh i by (intro place_at_eq) simp_all
  have pb: "p < length (mmem m1)" using mem a' by (simp add: memb_ok_def)
  have "set (take i qs @ p # drop i qs) = insert p (set qs)"
    by (metis Un_insert_right append_take_drop_id list.simps(15) set_append)
  moreover have "distinct (take i qs @ p # drop i qs)"
    by (rule distinct_insert_mid) (use inv(2) fresh in simp_all)
  ultimately have "pool_inv (set_block p (\<lambda>_. c) m1) (place_at (1 + of_nat i) p qs)"
    using a' inv(3,4,5) i by (simp add: place pool_inv_def set_block_ok)
  moreover have "entries (set_block p (\<lambda>_. c) m1) (place_at (1 + of_nat i) p qs) =
      take i (entries m qs) @ c # drop i (entries m qs)"
    using pb fresh by (simp add: place entries_take_drop entries_set_block entries_mem [OF mem(3)])
  ultimately show ?thesis using a by blast
qed

lemma insert_entry_refines:
  assumes inv: "pool_inv m ps" and r: "insert_entry n c ps m = (ps', m')"
  shows "entries m' ps' = take NUM_CH_MAX (ins n c (entries m ps)) \<and> pool_inv m' ps'"
proof (cases "find_position m n ps 1")
  case (Inl u)
  then have "ps' = ps \<and> m' = m" using r by (simp add: insert_entry_def)
  with inv find_position_Inl [OF Inl, of c] show ?thesis by (simp add: pool_inv_def)
next
  case (Inr res)
  obtain position stopped where res: "res = (position, stopped)" by (cases res)
  obtain i where i: "i \<le> length ps" "position = 1 + of_nat i" "stopped \<longleftrightarrow> i < length ps"
      "ins n c (entries m ps) = take i (entries m ps) @ c # drop i (entries m ps)"
    using find_position_Inr [OF Inr [unfolded res], of c] by blast
  note inv' = inv [unfolded pool_inv_def]
  consider (room) "length ps < NUM_CH_MAX" | (chop) "length ps = NUM_CH_MAX" "i < NUM_CH_MAX"
    | (full) "length ps = NUM_CH_MAX" "i = NUM_CH_MAX"
    using inv' i(1) by linarith
  then show ?thesis
  proof cases
    case room
    then obtain p m1 where p: "memb_alloc m = (Some p, m1)"
        "pool_inv (set_block p (\<lambda>_. c) m1) (place_at (1 + of_nat i) p ps)"
        "entries (set_block p (\<lambda>_. c) m1) (place_at (1 + of_nat i) p ps) =
           take i (entries m ps) @ c # drop i (entries m ps)"
      using place_new_block [of m ps i c] inv' i(1) by blast
    have "ps' = place_at (1 + of_nat i) p ps \<and> m' = set_block p (\<lambda>_. c) m1"
      using r Inr res i(2) p(1) room by (simp add: insert_entry_def alloc_slot_def)
    moreover have "take NUM_CH_MAX (ins n c (entries m ps)) = ins n c (entries m ps)"
      unfolding i(4) by (rule take_all) (use room i(1) in simp)
    ultimately show ?thesis using p(2,3) i(4) by (simp only:)
  next
    case chop
    let ?m0 = "snd (memb_free m (last ps))" and ?qs = "butlast ps"
    have ne: "ps \<noteq> []" using chop by auto
    have "set ?qs = set ps - {last ps}"
    proof -
      have "ps = ?qs @ [last ps]" using ne by simp
      moreover have "last ps \<notin> set ?qs" using inv' ne distinct_butlast_last by blast
      ultimately show ?thesis by (metis Diff_insert_absorb Un_insert_right list.simps(15) set_append sup_bot.right_neutral empty_set)
    qed
    then have used: "set ?qs = memb_used ?m0" using inv' by (simp add: memb_free_used)
    have "\<exists>p m1. memb_alloc ?m0 = (Some p, m1) \<and>
        pool_inv (set_block p (\<lambda>_. c) m1) (place_at (1 + of_nat i) p ?qs) \<and>
        entries (set_block p (\<lambda>_. c) m1) (place_at (1 + of_nat i) p ?qs) =
           take i (entries ?m0 ?qs) @ c # drop i (entries ?m0 ?qs)"
      using chop inv' used by (intro place_new_block) (simp_all add: memb_free_ok distinct_butlast)
    then obtain p m1 where p: "memb_alloc ?m0 = (Some p, m1)"
        "pool_inv (set_block p (\<lambda>_. c) m1) (place_at (1 + of_nat i) p ?qs)"
        "entries (set_block p (\<lambda>_. c) m1) (place_at (1 + of_nat i) p ?qs) =
           take i (entries ?m0 ?qs) @ c # drop i (entries ?m0 ?qs)" by blast
    have ps': "ps' = place_at (1 + of_nat i) p ?qs \<and> m' = set_block p (\<lambda>_. c) m1"
      using r Inr res i(2,3) p(1) chop by (simp add: insert_entry_def alloc_slot_def)
    have cut: "entries ?m0 ?qs = take 3 (entries m ps)"
      using chop by (simp add: entries_mem [OF memb_free_mem] entries_take_drop [symmetric] butlast_conv_take)
    have "take i (take 3 (entries m ps)) @ c # drop i (take 3 (entries m ps)) =
        take NUM_CH_MAX (take i (entries m ps) @ c # drop i (entries m ps))"
    proof -
      have "i \<le> 3" and "length (take i (entries m ps)) = i" using chop by simp_all
      then show ?thesis by (simp add: min_def drop_take take_Cons' Suc_diff_le)
    qed
    then show ?thesis using p(2,3) ps' cut i(4) by simp
  next
    case full
    then have "ps' = ps \<and> m' = m" using r Inr res i(3) by (simp add: insert_entry_def alloc_slot_def)
    then show ?thesis using full inv i(4) by simp
  qed
qed

section \<open>The interface of a ranked list\<close>

text \<open>Cutting before or after an insertion makes no difference.\<close>

lemma take_ins_take: "take k (ins n c (take k xs)) = take k (ins n c xs)"
proof (induction xs arbitrary: k)
  case (Cons x xs)
  then show ?case by (cases k) (auto simp: take_Cons')
qed simp

text \<open>The order of the entries: by degree, then by address, the largest first.\<close>

definition ranks_above :: "chb \<Rightarrow> chb \<Rightarrow> bool" where
  "ranks_above c d \<longleftrightarrow> ch_degree c > ch_degree d \<or> (ch_degree c = ch_degree d \<and> ch_addr c > ch_addr d)"

definition entry_of :: "neighbour \<times> chb \<Rightarrow> bool" where
  "entry_of nc \<longleftrightarrow> ch_addr (snd nc) = nb_addr (fst nc) \<and> ch_degree (snd nc) = nb_degree (fst nc)"

lemma beats_ranks: "entry_of (n, c) \<Longrightarrow> beats n x \<longleftrightarrow> ranks_above c x"
  by (auto simp: entry_of_def beats_def ranks_above_def)

lemma ranks_above_trans: "ranks_above a b \<Longrightarrow> ranks_above b c \<Longrightarrow> ranks_above a c"
  by (auto simp: ranks_above_def)

lemma ranks_above_total: "ch_addr a \<noteq> ch_addr b \<Longrightarrow> \<not> ranks_above a b \<Longrightarrow> ranks_above b a"
  by (auto simp: ranks_above_def)

lemma ins_mset:
  "nb_addr n \<notin> ch_addr ` set xs \<Longrightarrow> mset (ins n c xs) = add_mset c (mset xs)"
  by (induction xs) auto

lemma set_ins_sub: "set (ins n c xs) \<subseteq> insert c (set xs)"
  by (induction xs) auto

lemma ins_sorted:
  assumes "entry_of (n, c)" and "sorted_wrt ranks_above xs"
  shows "sorted_wrt ranks_above (ins n c xs)"
  using assms(2)
proof (induction xs)
  case (Cons x xs)
  consider (same) "ch_addr x = nb_addr n" | (above) "ch_addr x \<noteq> nb_addr n" "beats n x"
    | (below) "ch_addr x \<noteq> nb_addr n" "\<not> beats n x" by blast
  then show ?case
  proof cases
    case above
    then have "ranks_above c x" using beats_ranks [OF assms(1)] by simp
    with above Cons.prems show ?thesis using ranks_above_trans by auto
  next
    case below
    have "ranks_above x c"
      using below beats_ranks [OF assms(1)] ranks_above_total [of c x] assms(1) by (auto simp: entry_of_def)
    with below Cons show ?thesis using set_ins_sub [of n c xs] by auto
  qed (use Cons.prems in simp)
qed simp

fun ins_all :: "(neighbour \<times> chb) list \<Rightarrow> chb list \<Rightarrow> chb list" where
  "ins_all [] xs = xs"
| "ins_all (nc # ncs) xs = ins_all ncs (ins (fst nc) (snd nc) xs)"

lemma take_ins_all_take: "take k (ins_all ncs (take k xs)) = take k (ins_all ncs xs)"
proof (induction ncs arbitrary: xs)
  case (Cons nc ncs)
  have "take k (ins_all (nc # ncs) (take k xs)) = take k (ins_all ncs (take k (ins (fst nc) (snd nc) (take k xs))))"
    by (simp only: ins_all.simps Cons.IH)
  also have "\<dots> = take k (ins_all (nc # ncs) xs)" by (simp only: take_ins_take Cons.IH ins_all.simps)
  finally show ?case .
qed simp

lemma disjoint_insert_sub: "A \<subseteq> insert a B \<Longrightarrow> a \<notin> S \<Longrightarrow> S \<inter> B = {} \<Longrightarrow> S \<inter> A = {}"
  by blast

lemma ins_all_sorted_mset:
  assumes "list_all entry_of ncs" and "distinct (map (nb_addr \<circ> fst) ncs)" and "sorted_wrt ranks_above xs"
    and "set (map (nb_addr \<circ> fst) ncs) \<inter> ch_addr ` set xs = {}"
  shows "sorted_wrt ranks_above (ins_all ncs xs) \<and> mset (ins_all ncs xs) = mset xs + mset (map snd ncs)"
  using assms
proof (induction ncs arbitrary: xs)
  case (Cons nc ncs)
  obtain n c where nc: "nc = (n, c)" by (cases nc)
  have e: "entry_of (n, c)" using Cons.prems(1) nc by simp
  have new: "nb_addr n \<notin> ch_addr ` set xs" using Cons.prems(4) nc unfolding list.map list.set by simp
  have "sorted_wrt ranks_above (ins n c xs)" by (rule ins_sorted [OF e Cons.prems(3)])
  moreover have "set (map (nb_addr \<circ> fst) ncs) \<inter> ch_addr ` set (ins n c xs) = {}"
  proof -
    have "ch_addr ` set (ins n c xs) \<subseteq> insert (nb_addr n) (ch_addr ` set xs)"
      using image_mono [OF set_ins_sub, of ch_addr n c xs] e by (simp add: entry_of_def)
    moreover have "nb_addr n \<notin> set (map (nb_addr \<circ> fst) ncs)" using Cons.prems(2) nc by simp
    moreover have "set (map (nb_addr \<circ> fst) ncs) \<inter> ch_addr ` set xs = {}"
      using Cons.prems(4) unfolding list.map list.set by blast
    ultimately show ?thesis by (rule disjoint_insert_sub)
  qed
  ultimately have "sorted_wrt ranks_above (ins_all ncs (ins n c xs)) \<and>
      mset (ins_all ncs (ins n c xs)) = mset (ins n c xs) + mset (map snd ncs)"
    using Cons.IH [of "ins n c xs"] Cons.prems by simp
  then show ?case using ins_mset [OF new] nc by simp
qed simp

text \<open>
  What a client of a ranked list relies on: an insertion keeps the representation in order and has the
  effect of \<open>ins\<close>, cut to the capacity.
\<close>

locale ranked_list =
  fixes inv :: "'l \<Rightarrow> bool"
    and content :: "'l \<Rightarrow> chb list"
    and insert :: "neighbour \<Rightarrow> chb \<Rightarrow> 'l \<Rightarrow> 'l"
    and cap :: nat
  assumes insert_inv: "inv l \<Longrightarrow> inv (insert n c l)"
    and insert_content: "inv l \<Longrightarrow> content (insert n c l) = take cap (ins n c (content l))"
    and content_cap: "inv l \<Longrightarrow> length (content l) \<le> cap"
begin

lemma inserts:
  "inv l \<Longrightarrow> inv (fold (\<lambda>nc. insert (fst nc) (snd nc)) ncs l) \<and>
     content (fold (\<lambda>nc. insert (fst nc) (snd nc)) ncs l) = take cap (ins_all ncs (content l))"
proof (induction ncs arbitrary: l)
  case Nil
  then show ?case using content_cap by simp
next
  case (Cons nc ncs)
  let ?l = "insert (fst nc) (snd nc) l"
  have "inv ?l" using Cons.prems by (rule insert_inv)
  from Cons.IH [OF this] show ?case
    using insert_content [OF Cons.prems, of "fst nc" "snd nc"] by (simp add: take_ins_all_take [of cap])
qed

text \<open>Whatever the order of the insertions, the list holds the entries of highest rank, in order.\<close>

lemma top_ranked:
  assumes "inv l" and "content l = []" and "list_all entry_of ncs" and "distinct (map (nb_addr \<circ> fst) ncs)"
  shows "\<exists>ys. mset ys = mset (map snd ncs) \<and> sorted_wrt ranks_above ys \<and>
     content (fold (\<lambda>nc. insert (fst nc) (snd nc)) ncs l) = take cap ys"
  using inserts [OF assms(1), of ncs] ins_all_sorted_mset [OF assms(3,4), of "[]"] assms(2) by auto

end

interpretation rl: ranked_list "\<lambda>(ps, m). pool_inv m ps" "\<lambda>(ps, m). entries m ps"
  "\<lambda>n c (ps, m). insert_entry n c ps m" NUM_CH_MAX
proof unfold_locales
  fix l :: "ptr list \<times> chb memb" and n c
  assume l: "case l of (ps, m) \<Rightarrow> pool_inv m ps"
  obtain ps m where lm: "l = (ps, m)" by (cases l)
  obtain ps' m' where r: "insert_entry n c ps m = (ps', m')" by (cases "insert_entry n c ps m")
  from insert_entry_refines [OF _ r] l lm r
  show "case (case l of (ps, m) \<Rightarrow> insert_entry n c ps m) of (ps, m) \<Rightarrow> pool_inv m ps"
    and "(case (case l of (ps, m) \<Rightarrow> insert_entry n c ps m) of (ps, m) \<Rightarrow> entries m ps) =
      take NUM_CH_MAX (ins n c (case l of (ps, m) \<Rightarrow> entries m ps))"
    by simp_all
next
  fix l :: "ptr list \<times> chb memb"
  assume "case l of (ps, m) \<Rightarrow> pool_inv m ps"
  then show "length (case l of (ps, m) \<Rightarrow> entries m ps) \<le> NUM_CH_MAX" by (auto simp: pool_inv_def)
qed

section \<open>handle\_lists on a node\<close>

definition heads_state :: "node \<Rightarrow> bool" where
  "heads_state s \<longleftrightarrow> my_state s = ELECTION_DECLARATION \<or> my_state s = CONSENSUS_CONVERGENCE"

text \<open>The role after the call: a node without a cluster head becomes a common node.\<close>

definition heads_role :: "node \<Rightarrow> role_t" where
  "heads_role s = (if CHs_list s = [] then CM else my_role s)"

definition heads_entry :: "announcement_value \<Rightarrow> ptr \<Rightarrow> node \<Rightarrow> chb" where
  "heads_entry av np s = fill_chb (heads_role s) (my_addr s) (my_degree s) av (nbr s np)"

definition put_heads :: "ptr list \<times> chb memb \<Rightarrow> node \<Rightarrow> node" where
  "put_heads x s = s\<lparr>my_role := heads_role s, CHs_list := fst x, CHs_memb := snd x\<rparr>"

lemma insert_entry_Nil:
  assumes "pool_inv m []"
  shows "\<exists>p m1. memb_alloc m = (Some p, m1) \<and> insert_entry n c [] m = ([p], set_block p (\<lambda>_. c) m1)"
proof -
  have inv: "memb_ok m" "memb_used m = {}" "NUM_CH_MAX \<le> mnum m" using assms by (auto simp: pool_inv_def)
  then have "card (memb_used m) < mnum m" by auto
  then obtain p m1 where "memb_alloc m = (Some p, m1)" using mb.alloc_succeeds [OF inv(1)] by blast
  then show ?thesis by (simp add: insert_entry_def alloc_slot_def place_at_def seq_push_def)
qed

lemma handle_lists_heads_eq:
  assumes "heads_state s" and "pool_inv (CHs_memb s) (CHs_list s)"
  shows "handle_lists av np s =
     (1, put_heads (insert_entry (nbr s np) (heads_entry av np s) (CHs_list s) (CHs_memb s)) s)"
proof (cases "CHs_list s = []")
  case True
  then have "pool_inv (CHs_memb s) []" using assms(2) by simp
  from insert_entry_Nil [OF this] obtain p m1 where "memb_alloc (CHs_memb s) = (Some p, m1)"
      "insert_entry (nbr s np) (heads_entry av np s) [] (CHs_memb s) = ([p], set_block p (\<lambda>_. heads_entry av np s) m1)"
    by blast
  with assms(1) True show ?thesis
    by (simp add: handle_lists_def heads_state_def put_heads_def heads_role_def heads_entry_def seq_push_def Let_def)
next
  case False
  with assms(1) show ?thesis
    by (simp add: handle_lists_def heads_state_def put_heads_def heads_role_def heads_entry_def Let_def case_prod_beta)
qed

text \<open>The same for the bridges, in the state in which the clusters are connected.\<close>

definition bridge_entry :: "announcement_value \<Rightarrow> ptr \<Rightarrow> node \<Rightarrow> chb" where
  "bridge_entry av np s = fill_chb (my_role s) (my_addr s) (my_degree s) av (nbr s np)"

definition put_bridges :: "ptr list \<times> chb memb \<Rightarrow> node \<Rightarrow> node" where
  "put_bridges x s = s\<lparr>CBs_list := fst x, CBs_memb := snd x\<rparr>"

lemma handle_lists_bridges_eq:
  assumes "my_state s = CONNECTION_DECLARATION" and "pool_inv (CBs_memb s) (CBs_list s)"
  shows "handle_lists av np s =
     (1, put_bridges (insert_entry (nbr s np) (bridge_entry av np s) (CBs_list s) (CBs_memb s)) s)"
proof (cases "CBs_list s = []")
  case True
  then have "pool_inv (CBs_memb s) []" using assms(2) by simp
  from insert_entry_Nil [OF this] obtain p m1 where "memb_alloc (CBs_memb s) = (Some p, m1)"
      "insert_entry (nbr s np) (bridge_entry av np s) [] (CBs_memb s) = ([p], set_block p (\<lambda>_. bridge_entry av np s) m1)"
    by blast
  with assms(1) True show ?thesis
    by (simp add: handle_lists_def put_bridges_def bridge_entry_def seq_push_def Let_def)
next
  case False
  with assms(1) show ?thesis
    by (simp add: handle_lists_def put_bridges_def bridge_entry_def Let_def case_prod_beta)
qed

lemma handle_lists_other_eq:
  assumes "\<not> heads_state s" and "my_state s \<noteq> CONNECTION_DECLARATION"
  shows "handle_lists av np s = (0, s)"
  using assms by (simp add: handle_lists_def heads_state_def Let_def)

text \<open>
  C2: \<open>handle_lists\<close> refines an insertion into a ranked list, in every state of the node. In the two states in
  which it maintains the cluster heads it returns 1 and inserts the neighbour into the list of heads,
  before the first entry that it outranks, unless its address comes earlier; the list is cut to
  \<open>NUM_CH_MAX\<close> entries and its blocks are exactly the blocks in use. The node becomes a common node when
  this is its first head; no other field of the node changes. While the clusters are connected the same
  happens to the list of bridges, and not even the role changes. In every other state it returns 0 and
  nothing changes. The list that is maintained is assumed to hold the blocks in use of its pool, which
  is so until the list is emptied without freeing its blocks.
\<close>

theorem handle_lists_refines:
  assumes "handle_lists av np s = (r, s')"
    and "heads_state s \<Longrightarrow> pool_inv (CHs_memb s) (CHs_list s)"
    and "my_state s = CONNECTION_DECLARATION \<Longrightarrow> pool_inv (CBs_memb s) (CBs_list s)"
  shows "if heads_state s then
       r = 1 \<and> (\<exists>ps m. pool_inv m ps \<and>
         entries m ps = take NUM_CH_MAX (ins (nbr s np) (heads_entry av np s) (entries (CHs_memb s) (CHs_list s))) \<and>
         s' = s\<lparr>my_role := (if CHs_list s = [] then CM else my_role s), CHs_list := ps, CHs_memb := m\<rparr>)
     else if my_state s = CONNECTION_DECLARATION then
       r = 1 \<and> (\<exists>ps m. pool_inv m ps \<and>
         entries m ps = take NUM_CH_MAX (ins (nbr s np) (bridge_entry av np s) (entries (CBs_memb s) (CBs_list s))) \<and>
         s' = s\<lparr>CBs_list := ps, CBs_memb := m\<rparr>)
     else r = 0 \<and> s' = s"
proof -
  consider (heads) "heads_state s"
    | (bridges) "\<not> heads_state s" "my_state s = CONNECTION_DECLARATION"
    | (other) "\<not> heads_state s" "my_state s \<noteq> CONNECTION_DECLARATION" by blast
  then show ?thesis
  proof cases
    case heads
    note inv = assms(2) [OF heads]
    obtain ps m where x: "insert_entry (nbr s np) (heads_entry av np s) (CHs_list s) (CHs_memb s) = (ps, m)"
      by (cases "insert_entry (nbr s np) (heads_entry av np s) (CHs_list s) (CHs_memb s)")
    have "r = 1 \<and> s' = put_heads (ps, m) s"
      using handle_lists_heads_eq [OF heads inv, of av np] x assms(1) by simp
    then show ?thesis using insert_entry_refines [OF inv x]
      unfolding if_P [OF heads] put_heads_def heads_role_def fst_conv snd_conv by blast
  next
    case bridges
    note inv = assms(3) [OF bridges(2)]
    obtain ps m where x: "insert_entry (nbr s np) (bridge_entry av np s) (CBs_list s) (CBs_memb s) = (ps, m)"
      by (cases "insert_entry (nbr s np) (bridge_entry av np s) (CBs_list s) (CBs_memb s)")
    have "r = 1 \<and> s' = put_bridges (ps, m) s"
      using handle_lists_bridges_eq [OF bridges(2) inv, of av np] x assms(1) by simp
    then show ?thesis using insert_entry_refines [OF inv x] bridges by (simp add: put_bridges_def) blast
  next
    case other
    then show ?thesis using handle_lists_other_eq assms(1) by simp
  qed
qed

text \<open>The node that the witnesses of the cluster properties use.\<close>

definition demo_neighbour :: "u16 \<Rightarrow> u8 \<Rightarrow> neighbour" where
  "demo_neighbour addr degree = neighbour_zero\<lparr>nb_addr := addr, nb_degree := degree, synced := True\<rparr>"

definition demo_node :: node where
  "demo_node = dev.extend (demo_dev [])
     (node.fields 69 69 5 DISCOVERY 0 CH 1 1 1 0 False 0 0 0 0 0 0 (Fin 1) 69 1 1 0 False False 1
       \<lparr>mcount = [1, 1, 1] @ replicate 61 0,
        mmem = [demo_neighbour 70 5, demo_neighbour 71 9, demo_neighbour 72 2] @ replicate 61 neighbour_zero\<rparr>
       \<lparr>mcount = replicate 14 0, mmem = replicate 14 neighbour_zero\<rparr>
       [] [0, 1, 2] \<lparr>mcount = replicate 4 0, mmem = replicate 4 chb_zero\<rparr> []
       \<lparr>mcount = replicate 8 0, mmem = replicate 8 chb_zero\<rparr> []
       \<lparr>mcount = replicate 2 0, mmem = replicate 2 0\<rparr> [] False True
       \<lparr>led_red = False, led_green = False, led_blue = False\<rparr> 0 False)"

lemma demo_pool_inv: "pool_inv (CHs_memb demo_node) []"
  by (simp add: demo_node_def node.defs dev.defs demo_dev_def pool_inv_def memb_ok_def memb_used_def)

text \<open>The demonstration node with the cluster heads 70 (degree 5) and 72 (degree 2).\<close>

definition demo_member :: node where
  "demo_member = demo_node\<lparr>my_role := CM, CHs_list := [0, 1],
     CHs_memb := \<lparr>mcount = [1, 1, 0, 0],
       mmem = [chb_zero\<lparr>ch_addr := 70, ch_degree := 5\<rparr>, chb_zero\<lparr>ch_addr := 72, ch_degree := 2\<rparr>, chb_zero, chb_zero]\<rparr>\<rparr>"

lemma demo_member_inv: "pool_inv (CHs_memb demo_member) (CHs_list demo_member)"
proof -
  have "{0, Suc 0} = {p. p < Suc (Suc (Suc (Suc 0))) \<and> [1, 1, 0, 0 :: u8] ! p \<noteq> 0}"
    by (auto simp: less_Suc_eq)
  then show ?thesis by (simp add: demo_member_def pool_inv_def memb_ok_def memb_used_def)
qed

theorem handle_lists_refines_witness:
  "let s = demo_member\<lparr>my_state := ELECTION_DECLARATION\<rparr>; s' = snd (handle_lists av_zero 1 s) in
   fst (handle_lists av_zero 1 s) = 1 \<and> map ch_addr (entries (CHs_memb s') (CHs_list s')) = [71, 70, 72] \<and>
   my_role s' = CM \<and> CBs_list s' = [] \<and> my_degree s' = my_degree demo_node"
proof -
  let ?s = "demo_member\<lparr>my_state := ELECTION_DECLARATION\<rparr>"
  have h: "heads_state ?s" by (simp add: heads_state_def)
  have inv: "pool_inv (CHs_memb ?s) (CHs_list ?s)" using demo_member_inv by simp
  have "ins (nbr ?s 1) (heads_entry av_zero 1 ?s) (entries (CHs_memb ?s) (CHs_list ?s)) =
      heads_entry av_zero 1 ?s # entries (CHs_memb ?s) (CHs_list ?s)" and "ch_addr (heads_entry av_zero 1 ?s) = 71"
    and "map ch_addr (entries (CHs_memb ?s) (CHs_list ?s)) = [70, 72]" and "CHs_list ?s \<noteq> []" and "my_role ?s = CM"
    and "CBs_list ?s = []" and "my_degree ?s = my_degree demo_node"
    by (simp_all add: demo_member_def demo_node_def node.defs dev.defs demo_dev_def demo_neighbour_def nbr_def
        heads_entry_def heads_role_def fill_chb_def beats_def neighbour_zero_def chb_zero_def)
  then show ?thesis
    using handle_lists_refines [of av_zero 1 ?s "fst (handle_lists av_zero 1 ?s)" "snd (handle_lists av_zero 1 ?s)"]
      h inv by (auto simp: Let_def heads_state_def)
qed

section \<open>The election\<close>

text \<open>A node that handles the declarations of its neighbours one after the other.\<close>

fun hear_declarations :: "(announcement_value \<times> ptr) list \<Rightarrow> node \<Rightarrow> node" where
  "hear_declarations [] s = s"
| "hear_declarations (h # hs) s = hear_declarations hs (snd (handle_lists (fst h) (snd h) s))"

definition common_entry :: "node \<Rightarrow> announcement_value \<times> ptr \<Rightarrow> chb" where
  "common_entry s h = fill_chb CM (my_addr s) (my_degree s) (fst h) (nbr s (snd h))"

lemma put_heads_simps:
  "my_state (put_heads x s) = my_state s" "my_addr (put_heads x s) = my_addr s"
  "my_degree (put_heads x s) = my_degree s" "neighbour_memb (put_heads x s) = neighbour_memb s"
  "CHs_list (put_heads x s) = fst x" "CHs_memb (put_heads x s) = snd x" "my_role (put_heads x s) = heads_role s"
  by (simp_all add: put_heads_def)

lemma hear_declarations_fold:
  assumes "heads_state s" and "heads_role s = CM" and "pool_inv (CHs_memb s) (CHs_list s)"
  shows "(CHs_list (hear_declarations hs s), CHs_memb (hear_declarations hs s)) =
     fold (\<lambda>nc (ps, m). insert_entry (fst nc) (snd nc) ps m)
       (map (\<lambda>h. (nbr s (snd h), common_entry s h)) hs) (CHs_list s, CHs_memb s)"
  using assms
proof (induction hs arbitrary: s)
  case (Cons h hs)
  obtain ps m where x: "insert_entry (nbr s (snd h)) (common_entry s h) (CHs_list s) (CHs_memb s) = (ps, m)"
    by (cases "insert_entry (nbr s (snd h)) (common_entry s h) (CHs_list s) (CHs_memb s)")
  let ?s = "put_heads (ps, m) s"
  have "heads_entry (fst h) (snd h) s = common_entry s h"
    using Cons.prems(2) by (simp add: heads_entry_def common_entry_def)
  then have step: "snd (handle_lists (fst h) (snd h) s) = ?s"
    using handle_lists_heads_eq [OF Cons.prems(1,3), of "fst h" "snd h"] x by simp
  have "heads_state ?s" using Cons.prems(1) by (simp add: heads_state_def put_heads_simps)
  moreover have "heads_role ?s = CM" using Cons.prems(2) by (simp add: heads_role_def [of ?s] put_heads_simps)
  moreover have "pool_inv (CHs_memb ?s) (CHs_list ?s)"
    using insert_entry_refines [OF Cons.prems(3) x] by (simp add: put_heads_simps)
  ultimately have "(CHs_list (hear_declarations hs ?s), CHs_memb (hear_declarations hs ?s)) =
     fold (\<lambda>nc (ps, m). insert_entry (fst nc) (snd nc) ps m)
       (map (\<lambda>h. (nbr ?s (snd h), common_entry ?s h)) hs) (CHs_list ?s, CHs_memb ?s)"
    by (rule Cons.IH)
  moreover have "nbr ?s = nbr s" by (rule ext) (simp add: nbr_def put_heads_simps)
  moreover have "common_entry ?s = common_entry s"
    by (rule ext) (simp add: common_entry_def put_heads_simps nbr_def)
  ultimately show ?case using step x by (simp add: put_heads_simps)
qed simp

text \<open>
  C1: The outcome of the election. A node without cluster heads that hears the declarations of any
  neighbours with distinct addresses, in any order, ends up with the \<open>NUM_CH_MAX\<close> neighbours of highest
  degree (the higher address first at equal degree) as its cluster heads, in that order.
\<close>

theorem election_keeps_top_ranked:
  assumes "my_state s = ELECTION_DECLARATION" and "CHs_list s = []" and "pool_inv (CHs_memb s) []"
    and "distinct (map (\<lambda>h. nb_addr (nbr s (snd h))) hs)"
  shows "\<exists>ys. mset ys = mset (map (common_entry s) hs) \<and> sorted_wrt ranks_above ys \<and>
     entries (CHs_memb (hear_declarations hs s)) (CHs_list (hear_declarations hs s)) = take NUM_CH_MAX ys"
proof -
  let ?ncs = "map (\<lambda>h. (nbr s (snd h), common_entry s h)) hs"
  let ?l = "fold (\<lambda>nc (ps, m). insert_entry (fst nc) (snd nc) ps m) ?ncs ([], CHs_memb s)"
  have l: "(CHs_list (hear_declarations hs s), CHs_memb (hear_declarations hs s)) = ?l"
    using hear_declarations_fold [of s hs] assms by (simp add: heads_state_def heads_role_def)
  have e: "list_all entry_of ?ncs"
    by (simp add: list_all_iff entry_of_def common_entry_def fill_chb_def)
  have "distinct (map (nb_addr \<circ> fst) ?ncs)" using assms(4) by (simp add: comp_def)
  then obtain ys where "mset ys = mset (map snd ?ncs)" "sorted_wrt ranks_above ys"
      "(\<lambda>(ps, m). entries m ps) ?l = take NUM_CH_MAX ys"
    using rl.top_ranked [of "([], CHs_memb s)" ?ncs] assms(3) e by auto
  then show ?thesis unfolding l [symmetric] prod.case
    by (intro exI [of _ ys]) (simp add: comp_def)
qed

theorem election_keeps_top_ranked_witness:
  "\<exists>ys. mset ys = mset (map (common_entry (demo_node\<lparr>my_state := ELECTION_DECLARATION\<rparr>)) [(av_zero, 0), (av_zero, 1), (av_zero, 2)]) \<and>
     sorted_wrt ranks_above ys \<and>
     entries (CHs_memb (hear_declarations [(av_zero, 0), (av_zero, 1), (av_zero, 2)] (demo_node\<lparr>my_state := ELECTION_DECLARATION\<rparr>)))
       (CHs_list (hear_declarations [(av_zero, 0), (av_zero, 1), (av_zero, 2)] (demo_node\<lparr>my_state := ELECTION_DECLARATION\<rparr>))) =
     take NUM_CH_MAX ys"
proof (rule election_keeps_top_ranked)
  show "pool_inv (CHs_memb (demo_node\<lparr>my_state := ELECTION_DECLARATION\<rparr>)) []" using demo_pool_inv by simp
qed (simp_all add: demo_node_def node.defs dev.defs demo_dev_def nbr_def demo_neighbour_def neighbour_zero_def)

section \<open>The heads that the bridges reach\<close>

definition heads_inv :: "chb memb \<Rightarrow> ptr list \<Rightarrow> bool" where
  "heads_inv m ps \<longleftrightarrow> memb_ok m \<and> distinct ps \<and> set ps = memb_used m \<and> distinct (map ch_addr (entries m ps))"

definition head_addrs :: "chb memb \<Rightarrow> ptr list \<Rightarrow> u16 set" where
  "head_addrs m ps = ch_addr ` set (entries m ps)"

text \<open>Every head was reached by a bridge that names it.\<close>

definition reached :: "chb list \<Rightarrow> chb memb \<Rightarrow> ptr list \<Rightarrow> bool" where
  "reached bs m ps \<longleftrightarrow>
     (\<forall>c \<in> set (entries m ps). \<exists>b \<in> set bs. ch_addr b = n_CHB_addr_A c \<and> n_CHB_addr_A b = ch_addr c)"

lemma entries_update:
  assumes "distinct ps" and "p < length (mmem m)" and "index < length ps" and "ps ! index = p"
  shows "entries (set_block p f m) ps = (entries m ps)[index := f (entries m ps ! index)]"
proof (rule nth_equalityI)
  fix i
  assume "i < length (entries (set_block p f m) ps)"
  then show "entries (set_block p f m) ps ! i = (entries m ps)[index := f (entries m ps ! index)] ! i"
    using assms by (cases "i = index") (auto simp: entries_def nth_eq_iff_index_eq)
qed simp

lemma find_head_Some:
  assumes "find_head a ps m = Some p"
  shows "\<exists>i < length ps. ps ! i = p \<and> ch_addr (entries m ps ! i) = a"
  using assms by (auto simp: find_head_def find_Some_iff entries_def)

lemma find_head_None: "find_head a ps m = None \<longleftrightarrow> a \<notin> head_addrs m ps"
  by (auto simp: find_head_def find_None_iff head_addrs_def entries_def)

lemma heads_inv_bound: "heads_inv m ps \<Longrightarrow> p \<in> set ps \<Longrightarrow> p < length (mmem m)"
  using memb_used_bound [of m] by (auto simp: heads_inv_def memb_ok_def)

text \<open>Writing the second bridge of a head changes neither addresses nor the first bridge.\<close>

lemma set_bridge_B:
  assumes inv: "heads_inv m ps" and f: "find_head a ps m = Some p"
  shows "heads_inv (set_block p (\<lambda>c. c\<lparr>n_CHB_addr_B := x\<rparr>) m) ps"
    and "head_addrs (set_block p (\<lambda>c. c\<lparr>n_CHB_addr_B := x\<rparr>) m) ps = head_addrs m ps"
    and "reached bs m ps \<Longrightarrow> reached bs (set_block p (\<lambda>c. c\<lparr>n_CHB_addr_B := x\<rparr>) m) ps"
proof -
  let ?m = "set_block p (\<lambda>c. c\<lparr>n_CHB_addr_B := x\<rparr>) m"
  obtain i where i: "i < length ps" "ps ! i = p" using find_head_Some [OF f] by blast
  have p: "p \<in> set ps" "p < length (mmem m)" using i heads_inv_bound [OF inv] by auto
  have e: "entries ?m ps = (entries m ps)[i := (entries m ps ! i)\<lparr>n_CHB_addr_B := x\<rparr>]"
    using entries_update [OF _ p(2) i] inv by (simp add: heads_inv_def)
  have addr: "map ch_addr (entries ?m ps) = map ch_addr (entries m ps)"
    unfolding e using i(1) by (simp add: map_update list_update_same_conv)
  then show "heads_inv ?m ps" using inv by (simp add: heads_inv_def set_block_ok)
  show "head_addrs ?m ps = head_addrs m ps" using addr by (metis head_addrs_def set_map)
  show "reached bs ?m ps" if r: "reached bs m ps"
    unfolding reached_def
  proof
    fix c
    assume "c \<in> set (entries ?m ps)"
    then have "c = (entries m ps ! i)\<lparr>n_CHB_addr_B := x\<rparr> \<or> c \<in> set (entries m ps)"
      unfolding e using set_update_subset_insert by fastforce
    moreover have "entries m ps ! i \<in> set (entries m ps)" using i(1) by simp
    ultimately show "\<exists>b \<in> set bs. ch_addr b = n_CHB_addr_A c \<and> n_CHB_addr_A b = ch_addr c"
      using r unfolding reached_def by auto
  qed
qed

text \<open>A new head.\<close>

lemma push_head:
  assumes inv: "heads_inv m ps" and new: "find_head (n_CHB_addr_A b) ps m = None"
    and a: "memb_alloc m = (Some p, m1)"
  defines "c \<equiv> \<lparr>ch_addr = n_CHB_addr_A b, ch_degree = ch_degree b, ch_cons_slot = 0,
                n_CHB_addr_A = ch_addr b, n_CHB_addr_B = 0\<rparr>"
  shows "heads_inv (set_block p (\<lambda>_. c) m1) (seq_push p ps)"
    and "entries (set_block p (\<lambda>_. c) m1) (seq_push p ps) = c # entries m ps"
    and "length (seq_push p ps) = Suc (length ps)"
proof -
  have ok: "memb_ok m" using inv by (simp add: heads_inv_def)
  note a' = mb.alloc_Some [OF ok a] and mem = memb_alloc_Some [OF a]
  have fresh: "p \<notin> set ps" using a' inv by (simp add: heads_inv_def)
  then have push: "seq_push p ps = p # ps" by (simp add: seq_push_def)
  have "p < length (mmem m1)" using mem a' by (simp add: memb_ok_def)
  then show e: "entries (set_block p (\<lambda>_. c) m1) (seq_push p ps) = c # entries m ps"
    using fresh by (simp add: push entries_set_block entries_mem [OF mem(3)])
  have "n_CHB_addr_A b \<notin> set (map ch_addr (entries m ps))"
    using new by (simp add: find_head_None head_addrs_def)
  then show "heads_inv (set_block p (\<lambda>_. c) m1) (seq_push p ps)"
    unfolding heads_inv_def e using a' inv fresh by (simp add: heads_inv_def set_block_ok push c_def)
  show "length (seq_push p ps) = Suc (length ps)" by (simp add: push)
qed

lemma heads_of_bridges_spec:
  assumes "heads_inv m ps" and "reached bl m ps" and "set bs \<subseteq> set bl"
    and "heads_of_bridges bs ps m = (fin, ps', m')"
  shows "heads_inv m' ps' \<and> reached bl m' ps' \<and> mnum m' = mnum m \<and>
     (fin \<longrightarrow> head_addrs m' ps' = head_addrs m ps \<union> n_CHB_addr_A ` set bs) \<and>
     (\<not> fin \<longrightarrow> mnum m \<le> length ps' \<and> head_addrs m' ps' \<subset> head_addrs m ps \<union> n_CHB_addr_A ` set bs)"
  using assms
proof (induction bs arbitrary: ps m)
  case Nil
  then show ?case by simp
next
  case (Cons b bs)
  show ?case
  proof (cases "find_head (n_CHB_addr_A b) ps m")
    case (Some p)
    let ?m = "set_block p (\<lambda>c. c\<lparr>n_CHB_addr_B := ch_addr b\<rparr>) m"
    note s = set_bridge_B [OF Cons.prems(1) Some, where x = "ch_addr b"]
    have "n_CHB_addr_A b \<in> head_addrs m ps" using Some find_head_None [of "n_CHB_addr_A b" ps m] by auto
    moreover have "heads_of_bridges bs ps ?m = (fin, ps', m')" using Cons.prems(4) Some by simp
    ultimately show ?thesis
      using Cons.IH [OF s(1) s(3) [OF Cons.prems(2)]] s(2) Cons.prems(3) by (simp add: insert_absorb)
  next
    case None
    show ?thesis
    proof (cases "memb_alloc m")
      case (Pair r m1)
      show ?thesis
      proof (cases r)
        case no: None
        then have "\<not> fin \<and> ps' = ps \<and> m' = m" and "memb_used m = {..<mnum m}"
          using Cons.prems(4) None Pair memb_alloc_None [of m m1] by auto
        moreover have "card (set ps) = length ps" using Cons.prems(1) distinct_card unfolding heads_inv_def by blast
        moreover have "set ps = memb_used m" using Cons.prems(1) by (simp add: heads_inv_def)
        moreover have "n_CHB_addr_A b \<notin> head_addrs m ps" using None find_head_None by blast
        ultimately show ?thesis using Cons.prems(1,2) by auto
      next
        case (Some p)
        let ?c = "\<lparr>ch_addr = n_CHB_addr_A b, ch_degree = ch_degree b, ch_cons_slot = 0,
                n_CHB_addr_A = ch_addr b, n_CHB_addr_B = 0\<rparr>"
        let ?m = "set_block p (\<lambda>_. ?c) m1"
        have a: "memb_alloc m = (Some p, m1)" using Pair Some by simp
        note ph = push_head [OF Cons.prems(1) None a]
        have r: "reached bl ?m (seq_push p ps)"
          using Cons.prems(2,3) unfolding reached_def ph(2) by auto
        have h: "head_addrs ?m (seq_push p ps) = insert (n_CHB_addr_A b) (head_addrs m ps)"
          unfolding head_addrs_def ph(2) by simp
        have "heads_of_bridges bs (seq_push p ps) ?m = (fin, ps', m')"
          using Cons.prems(4) None Pair Some by simp
        moreover have "mnum ?m = mnum m" using memb_alloc_Some [OF a] by simp
        ultimately show ?thesis
          using Cons.IH [OF ph(1) r] Cons.prems(3) unfolding h by auto
      qed
    qed
  qed
qed

lemma memb_init_heads: "heads_inv (memb_init z m) [] \<longleftrightarrow> memb_ok (memb_init z m)"
  by (auto simp: heads_inv_def memb_used_def memb_init_def)

text \<open>
  C28: The start of the convergence. A cluster head rebuilds its list of heads from its bridges. When
  the pool is large enough for all of them, the list holds each head that some bridge names exactly once,
  every head is linked through a bridge that names it, the blocks of the list are exactly the blocks in
  use, and the proactive slot is the one for that number of heads. When the pool runs out, the list
  holds only some of them and the proactive slot and the announcement are left as they were.
\<close>

theorem convergence_heads:
  "let s' = init_consensus_convergence s in
     distinct (map ch_addr (entries (CHs_memb s') (CHs_list s'))) \<and>
     reached (map (the_CB s) (CBs_list s)) (CHs_memb s') (CHs_list s') \<and>
     set (CHs_list s') = memb_used (CHs_memb s') \<and>
     (if card (n_CHB_addr_A ` the_CB s ` set (CBs_list s)) \<le> mnum (CHs_memb s)
      then ch_addr ` set (entries (CHs_memb s') (CHs_list s')) = n_CHB_addr_A ` the_CB s ` set (CBs_list s) \<and>
           my_proactive_slot s' = proactive_slot_of (length (CHs_list s'))
      else ch_addr ` set (entries (CHs_memb s') (CHs_list s')) \<subset> n_CHB_addr_A ` the_CB s ` set (CBs_list s) \<and>
           my_proactive_slot s' = my_proactive_slot s \<and> ann s' = ann s)"
proof -
  let ?bs = "map (the_CB s) (CBs_list s)" and ?m0 = "memb_init chb_zero (CHs_memb s)"
  let ?s' = "init_consensus_convergence s"
  obtain fin ps m where h: "heads_of_bridges ?bs [] ?m0 = (fin, ps, m)"
    by (cases "heads_of_bridges ?bs [] ?m0") auto
  have inv0: "heads_inv ?m0 []" unfolding memb_init_heads by (simp add: memb_ok_def memb_init_def)
  have "reached ?bs ?m0 []" by (simp add: reached_def)
  from heads_of_bridges_spec [OF inv0 this order_refl h]
  have r: "heads_inv m ps" "reached ?bs m ps" "mnum m = mnum ?m0"
    "fin \<Longrightarrow> head_addrs m ps = n_CHB_addr_A ` set ?bs"
    "\<not> fin \<Longrightarrow> mnum ?m0 \<le> length ps \<and> head_addrs m ps \<subset> n_CHB_addr_A ` set ?bs"
    by (auto simp: head_addrs_def)
  have n: "mnum ?m0 = mnum (CHs_memb s)" by (simp add: memb_init_def)
  have d: "distinct (map ch_addr (entries m ps))" using r(1) by (simp add: heads_inv_def)
  then have c: "card (head_addrs m ps) = length ps"
    using distinct_card [of "map ch_addr (entries m ps)"] by (simp add: head_addrs_def)
  have "length ps \<le> mnum m"
  proof -
    have "card (set ps) \<le> mnum m" using r(1) memb_used_bound [of m]
      by (metis card_lessThan card_mono finite_lessThan heads_inv_def)
    moreover have "card (set ps) = length ps" using r(1) distinct_card unfolding heads_inv_def by blast
    ultimately show ?thesis by simp
  qed
  then have fin: "fin \<longleftrightarrow> card (n_CHB_addr_A ` set ?bs) \<le> mnum (CHs_memb s)"
    using r(4,5) c n r(3) psubset_card_mono [of "n_CHB_addr_A ` set ?bs" "head_addrs m ps"] by fastforce
  have s': "CHs_list ?s' = ps" "CHs_memb ?s' = m"
      "my_proactive_slot ?s' = (if fin then proactive_slot_of (length ps) else my_proactive_slot s)"
      "\<not> fin \<Longrightarrow> ann ?s' = ann s"
    using h by (simp_all add: init_consensus_convergence_def upd_anns_def Let_def)
  show ?thesis
  proof (cases fin)
    case True
    then show ?thesis using r(1,2) r(4) [OF True] d s' fin by (simp add: Let_def head_addrs_def heads_inv_def image_image)
  next
    case False
    then show ?thesis using r(1,2) r(5) [OF False] d s' fin by (simp add: Let_def head_addrs_def heads_inv_def image_image)
  qed
qed

section \<open>The slots of the synchronization\<close>

lemma flip_flip [simp]: "flip_slot (flip_slot x) = x"
  by (simp add: flip_slot_def)

text \<open>A loop that writes each block of the list once.\<close>

definition map_blocks :: "('a \<Rightarrow> 'a) \<Rightarrow> ptr list \<Rightarrow> 'a memb \<Rightarrow> 'a memb" where
  "map_blocks f ps m = fold (\<lambda>p. set_block p f) ps m"

lemma map_blocks_simps [simp]:
  "mcount (map_blocks f ps m) = mcount m" "length (mmem (map_blocks f ps m)) = length (mmem m)"
  by (induction ps arbitrary: m) (simp_all add: map_blocks_def)

lemma map_blocks_nth:
  assumes "distinct ps" and "i < length (mmem m)"
  shows "mmem (map_blocks f ps m) ! i = (if i \<in> set ps then f (mmem m ! i) else mmem m ! i)"
  using assms
proof (induction ps arbitrary: m)
  case (Cons p ps)
  have "mmem (map_blocks f (p # ps) m) ! i = mmem (map_blocks f ps (set_block p f m)) ! i"
    by (simp add: map_blocks_def)
  also have "\<dots> = (if i \<in> set ps then f (mmem (set_block p f m) ! i) else mmem (set_block p f m) ! i)"
    using Cons by simp
  finally show ?case using Cons.prems by (cases "i = p") auto
qed (simp add: map_blocks_def)

lemma memb_eqI: "mcount m = mcount m' \<Longrightarrow> mmem m = mmem m' \<Longrightarrow> m = (m' :: 'a memb)"
  by simp

lemma map_blocks_involution:
  assumes "distinct ps" and "\<And>x. f (f x) = x"
  shows "map_blocks f ps (map_blocks f ps m) = m"
  by (rule memb_eqI) (simp, rule nth_equalityI, simp_all add: map_blocks_nth [OF assms(1)] assms(2))

definition put_CHs :: "chb memb \<Rightarrow> node \<Rightarrow> node" where
  "put_CHs m s = s\<lparr>CHs_memb := m\<rparr>"

lemma upd_CHs_eq: "upd_CHs f s = put_CHs (map_blocks f (CHs_list s) (CHs_memb s)) s"
proof -
  have "fold (\<lambda>p. upd_CH p f) ps s = put_CHs (map_blocks f ps (CHs_memb s)) s" for ps
    by (induction ps arbitrary: s) (simp_all add: put_CHs_def map_blocks_def upd_CH_def)
  then show ?thesis by (simp add: upd_CHs_def)
qed

lemma put_CHs_simps [simp]:
  "CHs_memb (put_CHs m s) = m" "CHs_list (put_CHs m s) = CHs_list s" "my_role (put_CHs m s) = my_role s"
  "my_addr (put_CHs m s) = my_addr s" "my_cons_slot (put_CHs m s) = my_cons_slot s"
  "my_sync_border (put_CHs m s) = my_sync_border s" "my_proactive_slot (put_CHs m s) = my_proactive_slot s"
  "my_slot_ack (put_CHs m s) = my_slot_ack s" "my_state (put_CHs m s) = my_state s"
  by (simp_all add: put_CHs_def)

definition flip_heads :: "ptr list \<Rightarrow> chb memb \<Rightarrow> chb memb" where
  "flip_heads = map_blocks (\<lambda>c. c\<lparr>ch_cons_slot := flip_slot (ch_cons_slot c)\<rparr>)"

lemma flip_heads_twice: "distinct ps \<Longrightarrow> flip_heads ps (flip_heads ps m) = m"
  by (simp add: flip_heads_def map_blocks_involution)

text \<open>The search for the reference over the entries of the list.\<close>

definition find_ref :: "chb list \<Rightarrow> u16 \<Rightarrow> u8 \<Rightarrow> bool \<Rightarrow> u16 \<times> u8 \<times> bool" where
  "find_ref cs addr deg border = fold ref_step cs (addr, deg, border)"

lemma find_ref_degree: "fst (snd (find_ref cs addr deg border)) = Min (insert deg (ch_cons_slot ` set cs))"
proof (induction cs arbitrary: addr deg border)
  case (Cons c cs)
  have fin: "finite (ch_cons_slot ` set cs)" by simp
  show ?case
  proof (cases "ch_cons_slot c < deg")
    case True
    then have "Min (insert deg (ch_cons_slot ` set (c # cs))) = Min (insert (ch_cons_slot c) (ch_cons_slot ` set cs))"
      using fin by (cases "set cs = {}") (auto simp: min_def Min_insert2)
    with True Cons show ?thesis by (simp add: find_ref_def ref_step_def)
  next
    case False
    then have "Min (insert deg (ch_cons_slot ` set (c # cs))) = Min (insert deg (ch_cons_slot ` set cs))"
      using fin by (cases "set cs = {}") (auto simp: min_def)
    with False Cons show ?thesis by (simp add: find_ref_def ref_step_def)
  qed
qed (simp add: find_ref_def)

lemma find_ref_addr:
  "find_ref cs addr deg border = (addr', deg', border') \<Longrightarrow>
   (addr' = addr \<and> deg' = deg) \<or> (deg' < deg \<and> (\<exists>c \<in> set cs. ch_addr c = addr' \<and> ch_cons_slot c = deg'))"
proof (induction cs arbitrary: addr deg border)
  case (Cons c cs)
  show ?case
  proof (cases "ch_cons_slot c < deg")
    case True
    then have "find_ref cs (ch_addr c) (ch_cons_slot c) False = (addr', deg', border')"
      using Cons.prems by (simp add: find_ref_def ref_step_def)
    from Cons.IH [OF this] True show ?thesis by auto
  next
    case False
    then obtain b where "find_ref cs addr deg b = (addr', deg', border')"
      using Cons.prems by (auto simp: find_ref_def ref_step_def split: if_splits)
    from Cons.IH [OF this] show ?thesis by auto
  qed
qed (simp add: find_ref_def)

lemma find_ref_border:
  "snd (snd (find_ref cs addr deg border)) \<longleftrightarrow>
     border \<and> (\<forall>c \<in> set cs. deg \<le> ch_cons_slot c \<and> ch_cons_slot c \<le> NUM_CONS_SLOTS)"
proof (induction cs arbitrary: addr deg border)
  case (Cons c cs)
  show ?case
  proof (cases "ch_cons_slot c < deg \<or> ch_cons_slot c > NUM_CONS_SLOTS")
    case True
    then have "\<not> snd (snd (find_ref (c # cs) addr deg border))"
      using Cons by (auto simp: find_ref_def ref_step_def)
    with True show ?thesis by auto
  next
    case False
    then have "find_ref (c # cs) addr deg border = find_ref cs addr deg border"
      by (simp add: find_ref_def ref_step_def)
    with False Cons show ?thesis by auto
  qed
qed (simp add: find_ref_def)

text \<open>The heads as the initialisation of the synchronization leaves them.\<close>

definition flipped :: "chb memb \<Rightarrow> ptr list \<Rightarrow> chb list" where
  "flipped m ps = map (\<lambda>c. c\<lparr>ch_cons_slot := flip_slot (ch_cons_slot c)\<rparr>) (entries m ps)"

definition in_pool :: "'a memb \<Rightarrow> ptr list \<Rightarrow> bool" where
  "in_pool m ps \<longleftrightarrow> distinct ps \<and> (\<forall>p \<in> set ps. p < length (mmem m))"

lemma entries_flip_heads: "in_pool m ps \<Longrightarrow> entries (flip_heads ps m) ps = flipped m ps"
  by (auto simp: flipped_def entries_def flip_heads_def in_pool_def map_blocks_nth)

text \<open>The slot of a bridge: the one of the last head that is not the reference.\<close>

definition bridge_slot :: "u16 \<Rightarrow> chb list \<Rightarrow> u8 \<Rightarrow> u8" where
  "bridge_slot ref cs slot = fold (\<lambda>c slot. if ch_addr c \<noteq> ref then ch_cons_slot c else slot) cs slot"

lemma fold_entries: "fold (\<lambda>p. g (mmem m ! p)) ps x = fold g (entries m ps) x"
  by (simp add: entries_def fold_map comp_def)

text \<open>The whole function as one update of the state.\<close>

lemma init_sync_eq:
  assumes "find_ref (entries (flip_heads (CHs_list s) (CHs_memb s)) (CHs_list s)) (my_addr s)
      (if my_role s = CH then flip_slot (my_cons_slot s) else NUM_CONS_SLOTS)
      (if my_role s = CH then True else my_sync_border s) = (addr, deg, border)"
  shows "init_consensus_synchronization s =
     s\<lparr>CHs_memb := flip_heads (CHs_list s) (CHs_memb s), ref_n_CHB_addr := addr, ref_n_CHB_degree := deg,
       my_sync_border := border,
       my_cons_slot := if my_role s = CB
         then bridge_slot addr (entries (flip_heads (CHs_list s) (CHs_memb s)) (CHs_list s)) (flip_slot (my_cons_slot s))
         else flip_slot (my_cons_slot s)\<rparr>"
proof -
  let ?m = "flip_heads (CHs_list s) (CHs_memb s)"
  let ?s1 = "put_CHs ?m (s\<lparr>my_cons_slot := flip_slot (my_cons_slot s)\<rparr>)"
  have s1: "upd_CHs (\<lambda>c. c\<lparr>ch_cons_slot := flip_slot (ch_cons_slot c)\<rparr>)
      (s\<lparr>my_cons_slot := flip_slot (my_cons_slot s)\<rparr>) = ?s1"
    by (simp add: upd_CHs_eq flip_heads_def)
  have "fold (\<lambda>p. ref_step (the_CH ?s1 p)) (CHs_list ?s1) (my_addr ?s1,
      if my_role ?s1 = CH then my_cons_slot ?s1 else NUM_CONS_SLOTS,
      if my_role ?s1 = CH then True else my_sync_border ?s1) = (addr, deg, border)"
    using assms by (cases "my_role s = CH") (simp_all add: the_CH_def fold_entries find_ref_def)
  then show ?thesis
    unfolding init_consensus_synchronization_def s1 Let_def
    by (simp add: the_CH_def put_CHs_def fold_entries [where g = "\<lambda>c slot. if ch_addr c \<noteq> addr then ch_cons_slot c else slot"] bridge_slot_def)
qed

text \<open>
  C29: The reference of the synchronization. After the slots of the convergence have been mirrored, the
  reference slot is the smallest one among the heads and the node's own slot (for a node that is not
  a head, \<open>NUM_CONS_SLOTS\<close>); the reference address belongs to it. A cluster head is a border node
  exactly when no head it knows has an earlier slot and all of them were given a slot.
\<close>

theorem sync_reference:
  assumes "in_pool (CHs_memb s) (CHs_list s)"
  shows "let s' = init_consensus_synchronization s;
             cs = flipped (CHs_memb s) (CHs_list s);
             own = (if my_role s = CH then flip_slot (my_cons_slot s) else NUM_CONS_SLOTS)
         in entries (CHs_memb s') (CHs_list s') = cs \<and>
            ref_n_CHB_degree s' = Min (insert own (ch_cons_slot ` set cs)) \<and>
            ((ref_n_CHB_addr s' = my_addr s \<and> ref_n_CHB_degree s' = own) \<or>
             (\<exists>c \<in> set cs. ref_n_CHB_addr s' = ch_addr c \<and> ref_n_CHB_degree s' = ch_cons_slot c)) \<and>
            (my_role s = CH \<longrightarrow> my_cons_slot s' = own \<and>
              (my_sync_border s' \<longleftrightarrow> (\<forall>c \<in> set cs. own \<le> ch_cons_slot c \<and> ch_cons_slot c \<le> NUM_CONS_SLOTS)))"
proof -
  let ?cs = "entries (flip_heads (CHs_list s) (CHs_memb s)) (CHs_list s)"
  let ?own = "if my_role s = CH then flip_slot (my_cons_slot s) else NUM_CONS_SLOTS"
  let ?b = "if my_role s = CH then True else my_sync_border s"
  obtain addr deg border where r: "find_ref ?cs (my_addr s) ?own ?b = (addr, deg, border)"
    by (cases "find_ref ?cs (my_addr s) ?own ?b") auto
  have deg: "deg = Min (insert ?own (ch_cons_slot ` set ?cs))"
    using find_ref_degree [of ?cs "my_addr s" ?own ?b] r by simp
  have border: "border \<longleftrightarrow> ?b \<and> (\<forall>c \<in> set ?cs. ?own \<le> ch_cons_slot c \<and> ch_cons_slot c \<le> NUM_CONS_SLOTS)"
    using find_ref_border [of ?cs "my_addr s" ?own ?b] r by simp
  have addr: "(addr = my_addr s \<and> deg = ?own) \<or> (\<exists>c \<in> set ?cs. addr = ch_addr c \<and> deg = ch_cons_slot c)"
    using find_ref_addr [OF r] by auto
  note e = entries_flip_heads [OF assms]
  from deg border addr show ?thesis
    unfolding init_sync_eq [OF r] Let_def e by (simp add: e)
qed

text \<open>A cluster head with the slot \<open>slot\<close> in the convergence that knows the heads 69 and 65 with slots 3 and \<open>b\<close>.\<close>

definition demo_head :: "u8 \<Rightarrow> u8 \<Rightarrow> node" where
  "demo_head slot b = demo_node\<lparr>my_role := CH, my_addr := 66, my_cons_slot := slot, CHs_list := [1, 0],
     CHs_memb := \<lparr>mcount = [1, 1, 0, 0], mmem = [chb_zero\<lparr>ch_addr := 69, ch_cons_slot := 3\<rparr>,
       chb_zero\<lparr>ch_addr := 65, ch_cons_slot := b\<rparr>, chb_zero, chb_zero]\<rparr>\<rparr>"

lemma demo_head_flipped:
  "flipped (CHs_memb (demo_head slot b)) (CHs_list (demo_head slot b)) =
     [chb_zero\<lparr>ch_addr := 65, ch_cons_slot := flip_slot b\<rparr>, chb_zero\<lparr>ch_addr := 69, ch_cons_slot := 3\<rparr>]"
  by (simp add: demo_head_def flipped_def) (simp add: flip_slot_def)

text \<open>
  The head with slot 4 (2 after the mirroring) takes the head 65 in slot 1 as its reference and is no
  border node; the head with slot 5 is its own reference, and a border node unless the head 65 was left
  without a slot.
\<close>

theorem sync_reference_witness:
  "(let s' = init_consensus_synchronization (demo_head 4 5) in
     ref_n_CHB_degree s' = 1 \<and> ref_n_CHB_addr s' = 65 \<and> my_cons_slot s' = 2 \<and> \<not> my_sync_border s' \<and>
     map ch_cons_slot (entries (CHs_memb s') (CHs_list s')) = [1, 3]) \<and>
   (let s' = init_consensus_synchronization (demo_head 5 4) in
     ref_n_CHB_degree s' = 1 \<and> ref_n_CHB_addr s' = 66 \<and> my_sync_border s') \<and>
   \<not> my_sync_border (init_consensus_synchronization (demo_head 5 0))"
proof -
  have s: "in_pool (CHs_memb (demo_head a b)) (CHs_list (demo_head a b))" "my_role (demo_head a b) = CH"
      "my_cons_slot (demo_head a b) = a" "my_addr (demo_head a b) = 66" for a b
    by (simp_all add: demo_head_def in_pool_def)
  note r = sync_reference [OF s(1), unfolded demo_head_flipped Let_def]
  have "ref_n_CHB_degree (init_consensus_synchronization (demo_head 4 5)) = 1 \<and>
    ref_n_CHB_addr (init_consensus_synchronization (demo_head 4 5)) = 65 \<and>
    my_cons_slot (init_consensus_synchronization (demo_head 4 5)) = 2 \<and>
    \<not> my_sync_border (init_consensus_synchronization (demo_head 4 5))"
    using r [of 4 5] s by (auto simp: flip_slot_def chb_zero_def word_le_nat_alt)
  moreover have "map ch_cons_slot (entries (CHs_memb (init_consensus_synchronization (demo_head 4 5)))
      (CHs_list (init_consensus_synchronization (demo_head 4 5)))) = [1, 3]"
    using r [of 4 5] by (simp add: flip_slot_def)
  moreover have "ref_n_CHB_degree (init_consensus_synchronization (demo_head 5 4)) = 1 \<and>
    ref_n_CHB_addr (init_consensus_synchronization (demo_head 5 4)) = 66 \<and>
    my_sync_border (init_consensus_synchronization (demo_head 5 4))"
    using r [of 5 4] s by (auto simp: flip_slot_def chb_zero_def word_le_nat_alt)
  moreover have "\<not> my_sync_border (init_consensus_synchronization (demo_head 5 0))"
    using r [of 5 0] s by (auto simp: flip_slot_def chb_zero_def word_le_nat_alt)
  ultimately show ?thesis by (simp add: Let_def)
qed

text \<open>
  A bridge between two heads acts in the slot of the later one and takes the earlier one as its
  reference, in whatever order its list holds them.
\<close>

lemma bridge_between_two:
  assumes "my_role s = CB" and "CHs_list s = [p, q]" and "in_pool (CHs_memb s) [p, q]"
    and "ch_addr (the_CH s p) \<noteq> ch_addr (the_CH s q)"
    and "flip_slot (ch_cons_slot (the_CH s p)) = a" and "flip_slot (ch_cons_slot (the_CH s q)) = b"
    and "min a b < NUM_CONS_SLOTS"
  shows "ref_n_CHB_degree (init_consensus_synchronization s) = min a b \<and>
     my_cons_slot (init_consensus_synchronization s) = max a b \<and>
     ref_n_CHB_addr (init_consensus_synchronization s) = ch_addr (the_CH s (if a \<le> b then p else q))"
proof -
  let ?cs = "entries (flip_heads [p, q] (CHs_memb s)) [p, q]"
  have cs: "?cs = [(the_CH s p)\<lparr>ch_cons_slot := a\<rparr>, (the_CH s q)\<lparr>ch_cons_slot := b\<rparr>]"
    unfolding entries_flip_heads [OF assms(3)] using assms(5,6) by (simp add: flipped_def the_CH_def)
  have "\<exists>border. find_ref ?cs (my_addr s) NUM_CONS_SLOTS (my_sync_border s) =
      (ch_addr (the_CH s (if a \<le> b then p else q)), min a b, border)"
    unfolding cs using assms(7) by (auto simp: find_ref_def ref_step_def min_def split: if_splits)
  then obtain border where "find_ref ?cs (my_addr s) NUM_CONS_SLOTS (my_sync_border s) =
      (ch_addr (the_CH s (if a \<le> b then p else q)), min a b, border)" ..
  then have r: "find_ref (entries (flip_heads (CHs_list s) (CHs_memb s)) (CHs_list s)) (my_addr s)
      (if my_role s = CH then flip_slot (my_cons_slot s) else NUM_CONS_SLOTS)
      (if my_role s = CH then True else my_sync_border s) =
      (ch_addr (the_CH s (if a \<le> b then p else q)), min a b, border)"
    using assms(1,2) by simp
  have "bridge_slot (ch_addr (the_CH s (if a \<le> b then p else q))) ?cs (flip_slot (my_cons_slot s)) = max a b"
    unfolding cs using assms(4) by (simp add: bridge_slot_def max_def)
  then show ?thesis unfolding init_sync_eq [OF r] using assms(1,2) by simp
qed

definition demo_cb :: node where
  "demo_cb = demo_node\<lparr>my_role := CB, CHs_list := [1, 0],
     CHs_memb := \<lparr>mcount = [1, 1, 0, 0], mmem = [chb_zero\<lparr>ch_addr := 69, ch_cons_slot := 3\<rparr>,
       chb_zero\<lparr>ch_addr := 65, ch_cons_slot := 5\<rparr>, chb_zero, chb_zero]\<rparr>\<rparr>"

lemma bridge_between_two_example:
  "ref_n_CHB_degree (init_consensus_synchronization demo_cb) = 1 \<and>
   my_cons_slot (init_consensus_synchronization demo_cb) = 3"
proof -
  have "ref_n_CHB_degree (init_consensus_synchronization demo_cb) = min 1 3 \<and>
     my_cons_slot (init_consensus_synchronization demo_cb) = max 1 3 \<and>
     ref_n_CHB_addr (init_consensus_synchronization demo_cb) = ch_addr (the_CH demo_cb (if (1::u8) \<le> 3 then 1 else 0))"
    by (rule bridge_between_two) (simp_all add: demo_cb_def in_pool_def the_CH_def flip_slot_def chb_zero_def)
  then show ?thesis by simp
qed

end
