(* ===== verification/Gtsp_Laws.thy ===== *)
theory Gtsp_Laws
  imports Gtsp Cluster_Laws
begin

text \<open>
  What the gradient time synchronization of gtsp.c guarantees: the difference of two clocks that a
  frame shows, the bound on the estimated rates, the condition under which the scan of the neighbours
  fails, and the average to which a node moves its clock.
\<close>

section \<open>Delays in the stack\<close>

text \<open>
  The ticks between two captures of the 16-bit counter. The result is their distance modulo
  \<open>2^16\<close>, but one tick short when the counter has wrapped between the captures, and 65535 for
  captures of the same tick.
\<close>

lemma delta_mac_netw_ticks:
  "uint (get_lg_delta_mac_netw a b) = (uint b - uint a - (if a < b then 0 else 1)) mod 65536"
proof (cases "a < b")
  case True
  then have "uint a \<le> uint b" by (simp add: word_less_def)
  moreover have "uint b < 65536" using uint_lt2p [of b] by simp
  moreover have "0 \<le> uint a" by simp
  ultimately have "(uint b - uint a) mod 65536 = uint b - uint a" by (intro mod_pos_pos_trivial) linarith+
  then show ?thesis using True \<open>uint a \<le> uint b\<close> by (simp add: get_lg_delta_mac_netw_def uint_minus_small)
next
  case False
  have "uint (b + (65535 - a)) = (uint b + (65535 - uint a)) mod 65536"
    by (simp add: uint_word_ariths mod_simps)
  also have "\<dots> = (uint b - uint a - 1 + 65536) mod 65536" by (simp add: algebra_simps)
  also have "\<dots> = (uint b - uint a - 1) mod 65536" by (rule mod_add_self2)
  finally show ?thesis using False by (simp add: get_lg_delta_mac_netw_def)
qed

section \<open>The difference to a neighbour\<close>

text \<open>The two dates are within the overflow threshold of a coarse step that the neighbour has made.\<close>

definition neighbour_wrapped :: "u32 \<Rightarrow> u32 \<Rightarrow> u32 \<Rightarrow> u32 \<Rightarrow> bool" where
  "neighbour_wrapped my_coarse my_fine n_coarse n_fine \<longleftrightarrow>
     uint n_coarse = uint my_coarse + 1 \<and> uint my_fine > 67107863 \<and> uint n_fine < 1000"

lemma sint_of_int_range: "- (2 ^ 31) \<le> i \<Longrightarrow> i < 2 ^ 31 \<Longrightarrow> sint (word_of_int i :: i32) = i"
  by (simp add: signed_of_int signed_take_bit_int_eq_self)

lemma sint_small: "uint (x :: i32) < 2 ^ 31 \<Longrightarrow> sint x = uint x"
  using sint_of_int_range [of "uint x"] uint_ge_0 [of x] by simp

lemma sint_rtimer_diff:
  assumes "uint a < 2 ^ 31" and "uint b < 2 ^ 31"
  shows "sint (rtimer_diff a b) = uint a - uint b"
proof -
  have "rtimer_diff a b = word_of_int (uint a - uint b)" by (simp add: rtimer_diff_def)
  then show ?thesis
    using assms uint_ge_0 [of a] uint_ge_0 [of b] by (simp only: sint_of_int_range)
qed

lemma rtimer_diff_eq_iff:
  assumes "uint a < 2 ^ 31" and "uint b < 2 ^ 31" and "- (2 ^ 31) \<le> i" and "i < 2 ^ 31"
  shows "rtimer_diff a b = word_of_int i \<longleftrightarrow> uint a - uint b = i"
proof
  assume "rtimer_diff a b = word_of_int i"
  then show "uint a - uint b = i" using sint_rtimer_diff [OF assms(1,2)] sint_of_int_range [OF assms(3,4)] by simp
next
  assume "uint a - uint b = i"
  then show "rtimer_diff a b = word_of_int i" by (auto simp: rtimer_diff_def)
qed

text \<open>
  C30: What a frame tells about the neighbour's clock. For two logical dates in range, the pair
  \<open>(coarse_diff, fine_diff)\<close> denotes exactly the time by which this node is ahead of the neighbour,
  except when the neighbour has just made a coarse step and this node has not: there the fine
  difference has the opposite sign.
\<close>

theorem set_diffs_measures_ticks:
  assumes "uint my_fine \<le> 67108863" and "uint n_fine \<le> 67108863"
    and "uint my_coarse < 2 ^ 31" and "uint n_coarse < 2 ^ 31"
    and "n' = set_diffs my_coarse my_fine n_coarse n_fine n"
    and "ahead = ticks my_coarse my_fine - ticks n_coarse n_fine"
  shows "sint (coarse_diff n') * 67108863 + sint (fine_diff n') =
     (if neighbour_wrapped my_coarse my_fine n_coarse n_fine then - ahead else ahead)"
proof -
  let ?M = "67108863 :: u32" and ?cd = "rtimer_diff my_coarse n_coarse"
  have cd: "sint ?cd = uint my_coarse - uint n_coarse" using assms(3,4) by (rule sint_rtimer_diff)
  have m1: "?cd = -1 \<longleftrightarrow> uint n_coarse = uint my_coarse + 1"
    using rtimer_diff_eq_iff [OF assms(3,4), of "-1"] by auto
  have p1: "?cd = 1 \<longleftrightarrow> uint my_coarse = uint n_coarse + 1"
    using rtimer_diff_eq_iff [OF assms(3,4), of 1] by auto
  have thr: "x > ?M - 1000 \<longleftrightarrow> uint x > 67107863" "x < 1000 \<longleftrightarrow> uint x < 1000" for x :: u32
    by (simp_all add: word_less_def)
  have sum: "sint (rtimer_diff ?M x + y) = 67108863 - uint x + uint y"
    if "uint x \<le> 67108863" "uint y \<le> 67108863" for x y :: u32
  proof -
    have "rtimer_diff ?M x + y = word_of_int (67108863 - uint x + uint y)" by (simp add: rtimer_diff_def)
    moreover have "sint (word_of_int (67108863 - uint x + uint y) :: i32) = 67108863 - uint x + uint y"
    proof (rule sint_of_int_range)
      have "0 \<le> uint x" "0 \<le> uint y" by simp_all
      then have "0 \<le> 67108863 - uint x + uint y \<and> 67108863 - uint x + uint y \<le> 134217726" using that by linarith
      then show "- (2 ^ 31) \<le> 67108863 - uint x + uint y" and "67108863 - uint x + uint y < 2 ^ 31" by simp_all
    qed
    ultimately show ?thesis by simp
  qed
  have n': "n' = (if neighbour_wrapped my_coarse my_fine n_coarse n_fine
      then n\<lparr>fine_diff := rtimer_diff ?M my_fine + n_fine, coarse_diff := 0\<rparr>
      else if ?cd = 1 \<and> uint my_fine < 1000 \<and> uint n_fine > 67107863
      then n\<lparr>fine_diff := rtimer_diff ?M n_fine + my_fine, coarse_diff := 0\<rparr>
      else n\<lparr>coarse_diff := ?cd, fine_diff := rtimer_diff my_fine n_fine\<rparr>)"
    unfolding assms(5) set_diffs_def Let_def neighbour_wrapped_def m1 thr ..
  consider (wrapped) "neighbour_wrapped my_coarse my_fine n_coarse n_fine"
    | (mine) "?cd = 1" "uint my_fine < 1000" "uint n_fine > 67107863"
    | (plain) "\<not> neighbour_wrapped my_coarse my_fine n_coarse n_fine"
        "\<not> (?cd = 1 \<and> uint my_fine < 1000 \<and> uint n_fine > 67107863)" by blast
  then show ?thesis
  proof cases
    case wrapped
    then have "n' = n\<lparr>fine_diff := rtimer_diff ?M my_fine + n_fine, coarse_diff := 0\<rparr>"
      by (simp only: n' if_True)
    with wrapped show ?thesis using assms(1,2,6) by (simp add: sum ticks_def neighbour_wrapped_def)
  next
    case mine
    then have "n' = n\<lparr>fine_diff := rtimer_diff ?M n_fine + my_fine, coarse_diff := 0\<rparr>"
      and "\<not> neighbour_wrapped my_coarse my_fine n_coarse n_fine"
      using n' p1 by (simp_all add: neighbour_wrapped_def)
    with mine show ?thesis using assms(1,2,6) p1 by (simp add: sum ticks_def)
  next
    case plain
    then have "n' = n\<lparr>coarse_diff := ?cd, fine_diff := rtimer_diff my_fine n_fine\<rparr>"
      by (simp only: n' if_False)
    with plain show ?thesis
      using assms(1,2,6) cd sint_rtimer_diff [of my_fine n_fine] by (simp add: ticks_def algebra_simps)
  qed
qed

theorem set_diffs_measures_ticks_witness:
  "sint (coarse_diff (set_diffs 7 100 6 67108800 neighbour_zero)) * 67108863 +
     sint (fine_diff (set_diffs 7 100 6 67108800 neighbour_zero)) = 163 \<and>
   sint (coarse_diff (set_diffs 6 67108800 7 100 neighbour_zero)) * 67108863 +
     sint (fine_diff (set_diffs 6 67108800 7 100 neighbour_zero)) = 163"
proof -
  have "sint (coarse_diff (set_diffs 7 100 6 67108800 neighbour_zero)) * 67108863 +
      sint (fine_diff (set_diffs 7 100 6 67108800 neighbour_zero)) =
      (if neighbour_wrapped 7 100 6 67108800 then - 163 else 163)"
    by (rule set_diffs_measures_ticks) (simp_all add: ticks_def)
  moreover have "sint (coarse_diff (set_diffs 6 67108800 7 100 neighbour_zero)) * 67108863 +
      sint (fine_diff (set_diffs 6 67108800 7 100 neighbour_zero)) =
      (if neighbour_wrapped 6 67108800 7 100 then - (- 163) else (- 163))"
    by (rule set_diffs_measures_ticks) (simp_all add: ticks_def)
  ultimately show ?thesis by (simp add: neighbour_wrapped_def)
qed

section \<open>The rate of a neighbour\<close>

lemma convex_bound:
  fixes a b t :: rat
  assumes "\<bar>a\<bar> \<le> t" and "\<bar>b\<bar> \<le> t"
  shows "\<bar>9 / 10 * a + 1 / 10 * b\<bar> \<le> t"
  using assms by (simp add: abs_le_iff)

text \<open>
  The relative rate stays below the drift threshold. In exact arithmetic, a rate of at most
  1/1000 stays so with every frame; a frame that shows a larger drift leaves it unchanged and marks
  the neighbour as jumped.
\<close>

lemma relative_rate_bounded:
  assumes "relative_rate n = Fin r" and "\<bar>r\<bar> \<le> 1 / 1000"
    and "n' = update_relative_rate fp_exact nc nf mc mf n"
  shows "\<exists>r'. relative_rate n' = Fin r' \<and> \<bar>r'\<bar> \<le> 1 / 1000 \<and> (jumped n' \<longrightarrow> r' = r)"
proof -
  obtain c1 dn where dn: "rtimer_lgdates_to_lg_interval nc nf (last_n_coarse n) (last_lg_n_fine n) = (c1, dn)"
    by fastforce
  obtain c2 dm where dm: "rtimer_lgdates_to_lg_interval mc mf (last_my_coarse n) (last_hw_my_fine n) = (c2, dm)"
    by fastforce
  define cur where "cur = d_sub fp_exact (d_div fp_exact (d_of_int fp_exact (uint dn)) (d_of_int fp_exact (uint dm)))
    (d_of_int fp_exact 1)"
  let ?small = "d_less (d_neg (Fin (1 / 1000))) cur \<and> d_less cur (Fin (1 / 1000))"
  have n': "n' = (if ?small
      then n\<lparr>relative_rate := d_add fp_exact (d_mul fp_exact (Fin (9 / 10)) (Fin r))
               (d_mul fp_exact (Fin (1 / 10)) cur), jumped := False\<rparr>
      else n\<lparr>jumped := True\<rparr>)"
    unfolding assms(3) update_relative_rate_def dn dm Let_def prod.case cur_def [symmetric]
    by (simp add: assms(1) GTSP_DRIFT_THRESHOLD_def GTSP_MOVING_ALPHA_def d_of_int_def d_sub_def)
  show ?thesis
  proof (cases ?small)
    case True
    then obtain c where c: "cur = Fin c" "- (1 / 1000) < c" "c < 1 / 1000" by (cases cur) auto
    have "\<bar>9 / 10 * r + 1 / 10 * c\<bar> \<le> 1 / 1000"
      using assms(2) c(2,3) by (intro convex_bound) (simp_all add: abs_le_iff)
    then show ?thesis using True c(1) by (simp add: n')
  next
    case False
    then have "n' = n\<lparr>jumped := True\<rparr>" by (simp only: n' if_False)
    with assms(1,2) show ?thesis by simp
  qed
qed

lemma relative_rate_bounded_example:
  "\<exists>r'. relative_rate (update_relative_rate fp_exact 1 5000 1 5000 neighbour_zero) = Fin r' \<and>
     \<bar>r'\<bar> \<le> 1 / 1000 \<and> (jumped (update_relative_rate fp_exact 1 5000 1 5000 neighbour_zero) \<longrightarrow> r' = 0)"
  by (rule relative_rate_bounded [OF _ _ refl]) (simp_all add: neighbour_zero_def)

section \<open>The scan of the neighbours\<close>

text \<open>The scan changes the flag \<open>synced\<close> only, and does not read it.\<close>

definition meas :: "neighbour \<Rightarrow> neighbour" where
  "meas n = n\<lparr>synced := False\<rparr>"

definition same_meas :: "node \<Rightarrow> node \<Rightarrow> bool" where
  "same_meas s s' \<longleftrightarrow> my_state s' = my_state s \<and> rts s' = rts s \<and> (\<forall>q. meas (nbr s' q) = meas (nbr s q)) \<and>
     length (mmem (neighbour_memb s')) = length (mmem (neighbour_memb s))"

lemma nbr_upd_nbr:
  "nbr (upd_nbr p f s) q = (if q = p \<and> p < length (mmem (neighbour_memb s)) then f (nbr s p) else nbr s q)"
  by (cases "p < length (mmem (neighbour_memb s))") (auto simp: nbr_def upd_nbr_def set_block_def nth_list_update list_update_beyond not_less)

lemma upd_nbr_simps [simp]:
  "my_state (upd_nbr p f s) = my_state s" "rts (upd_nbr p f s) = rts s" "my_addr (upd_nbr p f s) = my_addr s"
  "my_degree (upd_nbr p f s) = my_degree s" "mod_neighbour_list (upd_nbr p f s) = mod_neighbour_list s"
  "neighbour_list (upd_nbr p f s) = neighbour_list s" "ann (upd_nbr p f s) = ann s" "pb (upd_nbr p f s) = pb s"
  "length (mmem (neighbour_memb (upd_nbr p f s))) = length (mmem (neighbour_memb s))"
  "mcount (neighbour_memb (upd_nbr p f s)) = mcount (neighbour_memb s)"
  by (simp_all add: upd_nbr_def set_block_def)

lemma meas_simps [simp]:
  "nb_state (meas n) = nb_state n" "coarse_diff (meas n) = coarse_diff n" "fine_diff (meas n) = fine_diff n"
  "relative_rate (meas n) = relative_rate n" "meas (n\<lparr>synced := b\<rparr>) = meas n"
  by (simp_all add: meas_def)

lemma same_meas_refl [simp]: "same_meas s s"
  by (simp add: same_meas_def)

lemma same_meas_trans: "same_meas s s1 \<Longrightarrow> same_meas s1 s2 \<Longrightarrow> same_meas s s2"
  by (simp add: same_meas_def)

text \<open>The scan as a function of the measurements alone.\<close>

definition coarse_step :: "neighbour \<Rightarrow> gtsp_acc \<Rightarrow> gtsp_acc" where
  "coarse_step n acc =
     (if coarse_diff n = 0 then acc\<lparr>g_coarse_synced_count := g_coarse_synced_count acc + 1\<rparr>
      else acc\<lparr>g_coarse_diff_count := g_coarse_diff_count acc + 1\<rparr>)"

fun scan_meas :: "fp_env \<Rightarrow> neighbour list \<Rightarrow> gtsp_acc \<Rightarrow> gtsp_acc res" where
  "scan_meas fp [] acc = Ok acc"
| "scan_meas fp (n # ns) acc =
     (let acc1 = coarse_step n acc in
      if g_coarse_synced_count acc1 < g_coarse_diff_count acc1 then Fault NullDeref
      else scan_meas fp ns (fst (gtsp_fine_step fp n acc1)))"

definition scanned :: "ptr list \<Rightarrow> node \<Rightarrow> neighbour list" where
  "scanned ps s = filter (\<lambda>n. nb_state n = my_state s) (map (\<lambda>p. meas (nbr s p)) ps)"

lemma scanned_same: "same_meas s s' \<Longrightarrow> scanned ps s' = scanned ps s"
  by (simp add: scanned_def same_meas_def)

lemma fine_step_meas:
  "fst (gtsp_fine_step fp (meas n) acc) = fst (gtsp_fine_step fp n acc)"
  "meas (snd (gtsp_fine_step fp n acc)) = meas n"
  by (simp_all add: gtsp_fine_step_def)

text \<open>The inner search over the whole list leaves the loop variable null, whatever it finds.\<close>

lemma coarse_search_null: "fst (coarse_search all s ns acc) = None"
  by (induction all s ns acc rule: coarse_search.induct) (simp_all add: Let_def)

lemma gtsp_scan_refines:
  "case gtsp_scan e all ps acc s of
     Ok (acc', s') \<Rightarrow> scan_meas (fpe e) (scanned ps s) acc = Ok acc' \<and> same_meas s s'
   | Fault f \<Rightarrow> scan_meas (fpe e) (scanned ps s) acc = Fault f"
proof (induction ps arbitrary: acc s)
  case (Cons p ps)
  let ?n = "nbr s p" and ?acc1 = "coarse_step (nbr s p) acc"
  show ?case
  proof (cases "nb_state ?n = my_state s")
    case False
    then have "gtsp_scan e all (p # ps) acc s = gtsp_scan e all ps acc s" and "scanned (p # ps) s = scanned ps s"
      by (simp_all add: scanned_def)
    with Cons.IH [where s = s and acc = acc] show ?thesis by (simp only:)
  next
    case True
    then have sc: "scanned (p # ps) s = meas ?n # scanned ps s" by (simp add: scanned_def)
    have c: "coarse_step (meas ?n) acc = ?acc1" by (simp add: coarse_step_def)
    show ?thesis
    proof (cases "g_coarse_synced_count ?acc1 < g_coarse_diff_count ?acc1")
      case fault: True
      obtain acc2 where "coarse_search all s all ?acc1 = (None, acc2)"
        using coarse_search_null [of all s all ?acc1] by (cases "coarse_search all s all ?acc1") simp
      then have "gtsp_scan e all (p # ps) acc s = Fault NullDeref"
        using True fault by (auto simp: coarse_step_def Let_def split: if_splits)
      with fault show ?thesis unfolding sc by (simp add: c)
    next
      case False
      obtain acc2 n' where st: "gtsp_fine_step (fpe e) ?n ?acc1 = (acc2, n')"
        by (cases "gtsp_fine_step (fpe e) ?n ?acc1")
      let ?s = "upd_nbr p (\<lambda>_. n') s"
      have "gtsp_scan e all (p # ps) acc s = gtsp_scan e all ps acc2 ?s"
        using True False st by (auto simp: coarse_step_def Let_def split: if_splits)
      moreover have same: "same_meas s ?s"
        using fine_step_meas(2) [of "fpe e" ?n ?acc1] st by (simp add: same_meas_def nbr_upd_nbr)
      moreover have "scan_meas (fpe e) (scanned (p # ps) s) acc = scan_meas (fpe e) (scanned ps s) acc2"
        unfolding sc using False st fine_step_meas(1) [of "fpe e" ?n ?acc1] by (simp add: c)
      ultimately show ?thesis
        using Cons.IH [where s = ?s and acc = acc2] scanned_same [OF same, of ps] same_meas_trans [OF same]
        by (auto split: res.splits)
    qed
  qed
qed (simp add: scanned_def)

definition same_coarse :: "neighbour list \<Rightarrow> nat" where
  "same_coarse ns = length (filter (\<lambda>n. coarse_diff n = 0) ns)"

definition other_coarse :: "neighbour list \<Rightarrow> nat" where
  "other_coarse ns = length (filter (\<lambda>n. coarse_diff n \<noteq> 0) ns)"

lemma scan_meas_offset: "scan_meas fp ns acc = Ok acc' \<Longrightarrow> g_coarse_synced_offset acc' = g_coarse_synced_offset acc"
  by (induction ns arbitrary: acc) (fastforce simp: Let_def coarse_step_def gtsp_fine_step_def split: if_splits)+

lemma gtsp_scan_offset:
  assumes "gtsp_scan e all ps (gtsp_acc_start rate) s = Ok (acc, s1)"
  shows "g_coarse_synced_offset acc = 0" "same_meas s s1"
  using gtsp_scan_refines [where e = e and all = all and ps = ps and s = s and acc = "gtsp_acc_start rate"] assms scan_meas_offset
  by (auto simp: gtsp_acc_start_def)

lemma scan_meas_fault:
  assumes "unat (g_coarse_synced_count acc) = y" and "unat (g_coarse_diff_count acc) = d" and "d \<le> y"
    and "y + d + length ns < 256"
  shows "scan_meas fp ns acc = Fault f \<longleftrightarrow>
     f = NullDeref \<and> (\<exists>k \<le> length ns. y + same_coarse (take k ns) < d + other_coarse (take k ns))"
  using assms
proof (induction ns arbitrary: acc y d)
  case Nil
  then show ?case by (simp add: same_coarse_def other_coarse_def)
next
  case (Cons n ns)
  let ?acc1 = "coarse_step n acc"
  define y' where "y' = (if coarse_diff n = 0 then y + 1 else y)"
  define d' where "d' = (if coarse_diff n = 0 then d else d + 1)"
  have u: "unat (g_coarse_synced_count ?acc1) = y'" "unat (g_coarse_diff_count ?acc1) = d'"
    using Cons.prems by (auto simp: coarse_step_def y'_def d'_def unat_word_ariths)
  have shift: "(\<exists>k \<le> length (n # ns). y + same_coarse (take k (n # ns)) < d + other_coarse (take k (n # ns))) \<longleftrightarrow>
      (\<exists>k \<le> length ns. y' + same_coarse (take k ns) < d' + other_coarse (take k ns))" (is "?L \<longleftrightarrow> ?R")
  proof
    assume ?L
    then obtain k where k: "k \<le> length (n # ns)"
      "y + same_coarse (take k (n # ns)) < d + other_coarse (take k (n # ns))" by blast
    then obtain j where "k = Suc j" using Cons.prems(3) by (cases k) (auto simp: same_coarse_def other_coarse_def)
    with k show ?R by (auto simp: same_coarse_def other_coarse_def y'_def d'_def intro!: exI [of _ j])
  next
    assume ?R
    then obtain k where "k \<le> length ns" "y' + same_coarse (take k ns) < d' + other_coarse (take k ns)" by blast
    then show ?L by (auto simp: same_coarse_def other_coarse_def y'_def d'_def intro!: exI [of _ "Suc k"])
  qed
  show ?case
  proof (cases "y' < d'")
    case True
    then have "scan_meas fp (n # ns) acc = Fault NullDeref" using u by (simp add: Let_def word_less_nat_alt)
    moreover have "\<exists>k \<le> length ns. y' + same_coarse (take k ns) < d' + other_coarse (take k ns)"
      using True by (intro exI [of _ 0]) (simp add: same_coarse_def other_coarse_def)
    ultimately show ?thesis unfolding shift by auto
  next
    case False
    let ?acc2 = "fst (gtsp_fine_step fp n ?acc1)"
    have "scan_meas fp (n # ns) acc = scan_meas fp ns ?acc2" using False u by (simp add: Let_def word_less_nat_alt)
    moreover have "unat (g_coarse_synced_count ?acc2) = y'" "unat (g_coarse_diff_count ?acc2) = d'"
      using u by (simp_all add: gtsp_fine_step_def)
    moreover have "y' + d' + length ns < 256" using Cons.prems(4) by (simp add: y'_def d'_def)
    ultimately show ?thesis unfolding shift using Cons.IH [of ?acc2 y' d'] False by simp
  qed
qed

lemma gtsp_scan_fault:
  assumes "length ps < 256"
  shows "gtsp_scan e all ps (gtsp_acc_start rate) s = Fault f \<longleftrightarrow> f = NullDeref \<and>
      (\<exists>k \<le> length (scanned ps s). same_coarse (take k (scanned ps s)) < other_coarse (take k (scanned ps s)))"
proof -
  let ?acc = "gtsp_acc_start rate"
  have "length (scanned ps s) < 256"
    using assms le_less_trans [OF length_filter_le] by (simp add: scanned_def del: filter_map length_map)
  then have "scan_meas (fpe e) (scanned ps s) ?acc = Fault f \<longleftrightarrow> f = NullDeref \<and>
      (\<exists>k \<le> length (scanned ps s). 0 + same_coarse (take k (scanned ps s)) < 0 + other_coarse (take k (scanned ps s)))"
    by (intro scan_meas_fault) (simp_all add: gtsp_acc_start_def)
  moreover have "gtsp_scan e all ps ?acc s = Fault f \<longleftrightarrow> scan_meas (fpe e) (scanned ps s) ?acc = Fault f"
    using gtsp_scan_refines [where e = e and all = all and ps = ps and s = s and acc = ?acc] by (auto split: res.splits)
  ultimately show ?thesis by simp
qed

text \<open>
  C32: When the clock update crashes. \<open>gtsp_update_rtimer\<close> dereferences a null pointer exactly when, at some point of the list, more of the
  neighbours in the node's state seen so far differ in the coarse time than agree with it. The search for the most frequent difference, which runs then, shares
  its loop variable with the loop around it and leaves it null. The list has fewer than 256 neighbours, so the counters do not wrap.
\<close>

theorem gtsp_null_dereference:
  assumes "length ps < 256"
  shows "gtsp_update_rtimer e ps s = Fault NullDeref \<longleftrightarrow>
    (\<exists>k \<le> length (scanned ps s). same_coarse (take k (scanned ps s)) < other_coarse (take k (scanned ps s)))"
proof (cases "gtsp_scan e ps ps (gtsp_acc_start (rtimer_avg_rate (rts s))) s")
  case (Ok r)
  obtain acc s1 where r: "r = (acc, s1)" by (cases r)
  have "gtsp_update_rtimer e ps s \<noteq> Fault NullDeref"
    unfolding gtsp_update_rtimer_def Ok r
    by (auto simp: bindR_Fault_iff upd_rts_res_def Let_def rtimer_adjust_coarse_count_def adjust_fine_offset_no_null split: if_splits prod.splits)
  then show ?thesis using gtsp_scan_fault [OF assms, of e ps _ s NullDeref] Ok by (metis res.distinct(1))
next
  case (Fault f)
  then show ?thesis using gtsp_scan_fault [OF assms, of e ps _ s f] by (auto simp: gtsp_update_rtimer_def)
qed

definition demo_ahead :: node where
  "demo_ahead = upd_nbr 0 (\<lambda>n. n\<lparr>coarse_diff := 2\<rparr>) demo_node"

theorem gtsp_null_dereference_witness:
  "gtsp_update_rtimer demo_netenv [0, 1, 2] demo_ahead = Fault NullDeref"
proof -
  have "scanned [0, 1, 2] demo_ahead = map (\<lambda>p. meas (nbr demo_ahead p)) [0, 1, 2]"
    by (simp add: scanned_def demo_ahead_def nbr_def upd_nbr_def set_block_def demo_node_def node.defs dev.defs
        demo_dev_def demo_neighbour_def neighbour_zero_def)
  moreover have "coarse_diff (nbr demo_ahead 0) = 2"
    by (simp add: demo_ahead_def nbr_def upd_nbr_def set_block_def demo_node_def node.defs dev.defs)
  ultimately have "\<exists>k \<le> length (scanned [0, 1, 2] demo_ahead).
      same_coarse (take k (scanned [0, 1, 2] demo_ahead)) < other_coarse (take k (scanned [0, 1, 2] demo_ahead))"
    by (intro exI [of _ 1]) (simp add: same_coarse_def other_coarse_def)
  then show ?thesis
    using gtsp_null_dereference [of "[0, 1, 2]" demo_netenv demo_ahead] by simp
qed

section \<open>The average\<close>

text \<open>Every neighbour is in the node's state, at its coarse time and within the jump threshold.\<close>

definition in_agreement :: "ptr list \<Rightarrow> node \<Rightarrow> bool" where
  "in_agreement ps s \<longleftrightarrow> (\<forall>p \<in> set ps. nb_state (nbr s p) = my_state s \<and> coarse_diff (nbr s p) = 0 \<and>
     within_jump (fine_diff (nbr s p)))"

definition sum_diffs :: "neighbour list \<Rightarrow> int" where
  "sum_diffs ns = sum_list (map (\<lambda>n. sint (fine_diff n)) ns)"

definition sum_rates :: "fp_env \<Rightarrow> neighbour list \<Rightarrow> dbl \<Rightarrow> dbl" where
  "sum_rates fp ns rate = fold (\<lambda>n r. d_add fp r (relative_rate n)) ns rate"

lemma sum_diffs_bound:
  "\<forall>n \<in> set ns. within_jump (fine_diff n) \<Longrightarrow> \<bar>sum_diffs ns\<bar> \<le> 99 * int (length ns)"
proof (induction ns)
  case (Cons n ns)
  then have "\<bar>sint (fine_diff n)\<bar> \<le> 99" by (auto simp: within_jump_def)
  with Cons show ?case by (simp add: sum_diffs_def)
qed (simp add: sum_diffs_def)

lemma scan_meas_agreement:
  assumes "\<forall>n \<in> set ns. coarse_diff n = 0 \<and> within_jump (fine_diff n)" and "g_coarse_diff_count acc = 0"
  shows "scan_meas fp ns acc = Ok (acc\<lparr>g_avg_rate := sum_rates fp ns (g_avg_rate acc),
     g_coarse_synced_count := g_coarse_synced_count acc + of_nat (length ns),
     g_fine_synced_offset := g_fine_synced_offset acc + word_of_int (sum_diffs ns),
     g_fine_synced_count := g_fine_synced_count acc + of_nat (length ns)\<rparr>)"
  using assms
proof (induction ns arbitrary: acc)
  case Nil
  then show ?case by (simp add: sum_rates_def sum_diffs_def)
next
  case (Cons n ns)
  let ?acc = "fst (gtsp_fine_step fp n (coarse_step n acc))"
  have acc: "?acc = acc\<lparr>g_avg_rate := d_add fp (g_avg_rate acc) (relative_rate n),
      g_coarse_synced_count := g_coarse_synced_count acc + 1,
      g_fine_synced_offset := g_fine_synced_offset acc + fine_diff n,
      g_fine_synced_count := g_fine_synced_count acc + 1\<rparr>"
    using Cons.prems by (simp add: gtsp_fine_step_def coarse_step_def)
  have "\<not> g_coarse_synced_count (coarse_step n acc) < g_coarse_diff_count (coarse_step n acc)"
    using Cons.prems by (simp add: coarse_step_def)
  then have "scan_meas fp (n # ns) acc = scan_meas fp ns ?acc" by simp
  also have "\<dots> = Ok (?acc\<lparr>g_avg_rate := sum_rates fp ns (g_avg_rate ?acc),
     g_coarse_synced_count := g_coarse_synced_count ?acc + of_nat (length ns),
     g_fine_synced_offset := g_fine_synced_offset ?acc + word_of_int (sum_diffs ns),
     g_fine_synced_count := g_fine_synced_count ?acc + of_nat (length ns)\<rparr>)"
    using Cons.prems by (intro Cons.IH) (simp_all add: acc)
  finally show ?case unfolding acc by (simp add: sum_rates_def sum_diffs_def add.assoc)
qed

lemma fold_shift_nbr:
  "(distinct ps \<longrightarrow> (\<forall>p \<in> set ps. p < length (mmem (neighbour_memb s))) \<longrightarrow>
     (\<forall>q. nbr (fold (\<lambda>p. upd_nbr p g) ps s) q = (if q \<in> set ps then g (nbr s q) else nbr s q))) \<and>
   rts (fold (\<lambda>p. upd_nbr p g) ps s) = rts s"
  by (induction ps arbitrary: s) (auto simp: nbr_upd_nbr)

lemma adjust_coarse_zero: "\<not> scheduler_occupied r \<Longrightarrow> rtimer_adjust_coarse_count 0 r = Ok r"
  by (simp add: rtimer_adjust_coarse_count_def)

lemma sdiv_mean_bound:
  assumes "\<bar>x\<bar> \<le> 99 * k" and "0 \<le> k"
  shows "\<bar>x sdiv (k + 1)\<bar> < (100::int)"
proof -
  have "\<bar>x sdiv (k + 1)\<bar> = \<bar>sgn x\<bar> * (\<bar>x\<bar> div (k + 1))"
    using assms(2) by (simp add: signed_divide_int_def abs_mult pos_imp_zdiv_nonneg_iff)
  also have "\<dots> \<le> \<bar>x\<bar> div (k + 1)"
    using assms(2) by (simp add: abs_sgn_eq pos_imp_zdiv_nonneg_iff)
  also have "\<dots> < 100"
  proof -
    have "\<bar>x\<bar> div (k + 1) \<le> 99 * (k + 1) div (k + 1)" using assms by (intro zdiv_mono1) simp_all
    also have "\<dots> = 99" by (rule nonzero_mult_div_cancel_right) (use assms(2) in simp)
    finally show ?thesis by simp
  qed
  finally show ?thesis .
qed

lemma scan_agreement:
  assumes "in_agreement ps s"
  shows "\<exists>s1. gtsp_scan e all ps (gtsp_acc_start rate) s =
     Ok (\<lparr>g_avg_rate = sum_rates (fpe e) (map (nbr s) ps) rate, g_coarse_diff_count = 0, g_coarse_synced_offset = 0,
          g_coarse_synced_count = of_nat (length ps), g_fine_diff_count = 0,
          g_fine_synced_offset = word_of_int (sum_diffs (map (nbr s) ps)),
          g_fine_synced_count = of_nat (length ps)\<rparr>, s1) \<and> same_meas s s1"
proof -
  let ?ns = "map (\<lambda>p. meas (nbr s p)) ps"
  have sc: "scanned ps s = ?ns" unfolding scanned_def using assms by (simp add: filter_id_conv in_agreement_def)
  have "sum_rates (fpe e) ?ns rate = sum_rates (fpe e) (map (nbr s) ps) rate"
    and "sum_diffs ?ns = sum_diffs (map (nbr s) ps)"
    by (simp_all add: sum_rates_def sum_diffs_def fold_map comp_def)
  then have "scan_meas (fpe e) (scanned ps s) (gtsp_acc_start rate) =
     Ok \<lparr>g_avg_rate = sum_rates (fpe e) (map (nbr s) ps) rate, g_coarse_diff_count = 0, g_coarse_synced_offset = 0,
          g_coarse_synced_count = of_nat (length ps), g_fine_diff_count = 0,
          g_fine_synced_offset = word_of_int (sum_diffs (map (nbr s) ps)),
          g_fine_synced_count = of_nat (length ps)\<rparr>"
    unfolding sc using assms by (subst scan_meas_agreement) (auto simp: in_agreement_def gtsp_acc_start_def)
  then show ?thesis
    using gtsp_scan_refines [where e = e and all = all and ps = ps and s = s and acc = "gtsp_acc_start rate"] by (auto split: res.splits)
qed

lemma same_meas_diff: "same_meas s s1 \<Longrightarrow> fine_diff (nbr s1 p) = fine_diff (nbr s p)"
  by (metis meas_simps(3) same_meas_def)

lemma same_meas_coarse: "same_meas s s1 \<Longrightarrow> coarse_diff (nbr s1 p) = coarse_diff (nbr s p)"
  by (metis meas_simps(2) same_meas_def)

text \<open>
  C23: The gradient step. When all neighbours are in agreement, the scheduler is free, no timer has to be scheduled again, and the coarse
  count does not wrap, \<open>gtsp_update_rtimer\<close> returns with the logical time moved by the mean of the offsets of the neighbours and of the node
  itself, rounded towards zero; the rate is the mean of the rates, and the offset of every neighbour is reduced by exactly that movement. The arithmetic
  may round numbers up to \<open>2 ^ 28\<close> by 8, as binary32 does.
\<close>

theorem gtsp_averages:
  assumes "in_agreement ps s" and "distinct ps" and "\<forall>p \<in> set ps. p < length (mmem (neighbour_memb s))"
    and "ps \<noteq> []" and "length ps < 255" and "\<not> scheduler_occupied (rts s)"
    and "off = sum_diffs (map (nbr s) ps) sdiv (int (length ps) + 1)"
    and "fp_near (fpe e)" and "offset_in_window (fine_offset (rts s))" and "dates_kept (fpe e) (word_of_int off) (rts s)"
    and "1 \<le> uint (coarse_count (rts s))" and "uint (coarse_count (rts s)) + 1 < 2 ^ 32"
  shows "\<exists>s'. gtsp_update_rtimer e ps s = Ok s' \<and> \<bar>off\<bar> < 100 \<and>
     ticks (coarse_count (rts s')) (fine_offset (rts s')) = ticks (coarse_count (rts s)) (fine_offset (rts s)) - off \<and>
     offset_in_window (fine_offset (rts s')) \<and>
     avg_rate (rts s') = d_div (fpe e) (sum_rates (fpe e) (map (nbr s) ps) (rtimer_avg_rate (rts s)))
                  (d_of_int (fpe e) (int (length ps) + 1)) \<and>
     (\<forall>p \<in> set ps. coarse_diff (nbr s' p) = 0 \<and> sint (fine_diff (nbr s' p)) = sint (fine_diff (nbr s p)) - off \<and>
        (synced (nbr s' p) \<longleftrightarrow> \<bar>sint (fine_diff (nbr s' p))\<bar> < 100))"
proof -
  let ?n = "int (length ps)"
  have jump: "\<forall>n \<in> set (map (nbr s) ps). within_jump (fine_diff n)" using assms(1) by (auto simp: in_agreement_def)
  have sum: "\<bar>sum_diffs (map (nbr s) ps)\<bar> \<le> 99 * ?n" using sum_diffs_bound [OF jump] by simp
  have off: "\<bar>off\<bar> < 100" using sdiv_mean_bound [OF sum] assms(7) by simp
  have cnt: "uint (of_nat (length ps) :: u8) = ?n" using assms(5) by (simp add: unsigned_of_nat take_bit_nat_eq_self)
  then have pos: "(0 :: u8) < of_nat (length ps)" using assms(4) by (simp add: word_less_def)
  obtain acc s1 where scan: "gtsp_scan e ps ps (gtsp_acc_start (rtimer_avg_rate (rts s))) s = Ok (acc, s1)"
    and acc: "g_avg_rate acc = sum_rates (fpe e) (map (nbr s) ps) (rtimer_avg_rate (rts s))"
      "g_fine_diff_count acc = 0" "g_fine_synced_offset acc = word_of_int (sum_diffs (map (nbr s) ps))"
      "g_fine_synced_count acc = of_nat (length ps)" and coff: "g_coarse_synced_offset acc = 0" and same: "same_meas s s1"
    using scan_agreement [OF assms(1), where e = e and all = ps and rate = "rtimer_avg_rate (rts s)"] by force
  have "\<bar>sum_diffs (map (nbr s) ps)\<bar> \<le> 99 * 254" using sum assms(5) by linarith
  then have "sint (word_of_int (sum_diffs (map (nbr s) ps)) :: i32) = sum_diffs (map (nbr s) ps)"
    by (intro sint_of_int_range) auto
  then have mean: "s_div (g_fine_synced_offset acc) (uint (g_fine_synced_count acc) + 1) = word_of_int off"
    using acc(3,4) cnt assms(7) by (simp add: s_div_def)
  have rts: "rts s1 = rts s" and len: "length (mmem (neighbour_memb s1)) = length (mmem (neighbour_memb s))"
    using same by (simp_all add: same_meas_def)
  define rate where "rate = d_div (fpe e) (sum_rates (fpe e) (map (nbr s) ps) (rtimer_avg_rate (rts s))) (d_of_int (fpe e) (int (length ps) + 1))"
  define r0 where "r0 = rtimer_set_avg_rate rate (rts s)"
  have r0: "coarse_count r0 = coarse_count (rts s)" "fine_offset r0 = fine_offset (rts s)" "avg_rate r0 = rate"
    "\<not> scheduler_occupied r0" "dates_kept (fpe e) (word_of_int off) r0"
    using assms(6,10) dates_kept_rate [of "fpe e" "word_of_int off" rate "rts s"] by (simp_all add: r0_def rtimer_set_avg_rate_def)
  have soff: "sint (word_of_int off :: i32) = off" using off by (intro sint_of_int_range) auto
  then have "\<bar>sint (word_of_int off :: i32)\<bar> \<le> 33554398" using off by simp
  then have moved: "offset_in_window (fine_offset (shift_offset (fpe e) (word_of_int off) r0))"
    "ticks (coarse_count (shift_offset (fpe e) (word_of_int off) r0)) (fine_offset (shift_offset (fpe e) (word_of_int off) r0)) =
      ticks (coarse_count (rts s)) (fine_offset (rts s)) - off"
    using shift_offset_ticks [of "fpe e" r0 "word_of_int off"] assms(8,9,11,12) r0 soff by simp_all
  define r where "r = (shift_offset (fpe e) (word_of_int off) r0)\<lparr>scheduler_fine_offset_ref := fine_offset (shift_offset (fpe e) (word_of_int off) r0)\<rparr>"
  have adj: "rtimer_adjust_fine_offset (fpe e) (word_of_int off) (rtimer_set_avg_rate rate (rts s)) = Ok r"
    using adjust_fine_offset_quiet [OF r0(4,5)] by (simp add: r_def r0_def)
  have rr: "avg_rate r = rate" "coarse_count r = coarse_count (shift_offset (fpe e) (word_of_int off) r0)"
    "fine_offset r = fine_offset (shift_offset (fpe e) (word_of_int off) r0)" using r0(3) by (simp_all add: r_def)
  let ?s2 = "s1\<lparr>rts := r\<rparr>" and ?shift = "shift_nbr 0 (word_of_int off)"
  let ?s' = "fold (\<lambda>p. upd_nbr p ?shift) ps ?s2"
  have upd: "gtsp_update_rtimer e ps s = Ok ?s'"
    unfolding gtsp_update_rtimer_def scan
    using rts adjust_coarse_zero [OF assms(6)] mean acc(1,2,4) coff pos cnt adj rate_def
    by (simp add: upd_rts_res_def upd_rts_def)
  have nb: "nbr ?s' p = ?shift (nbr s1 p)" if "p \<in> set ps" for p
    using fold_shift_nbr [of ps ?s2 ?shift] assms(2,3) len that by (simp add: nbr_def)
  have diff: "sint (fine_diff (nbr ?s' p)) = sint (fine_diff (nbr s p)) - off" if p: "p \<in> set ps" for p
  proof -
    have "fine_diff (nbr ?s' p) = word_of_int (sint (fine_diff (nbr s p)) - off)"
      using nb [OF p] same_meas_diff [OF same, of p] by (simp add: shift_nbr_def)
    moreover have "\<bar>sint (fine_diff (nbr s p))\<bar> < 100" using jump p by (auto simp: within_jump_def)
    then have "- (2 ^ 31) \<le> sint (fine_diff (nbr s p)) - off" "sint (fine_diff (nbr s p)) - off < 2 ^ 31"
      using off by auto
    ultimately show ?thesis by (simp only: sint_of_int_range)
  qed
  have "synced (nbr ?s' p) \<longleftrightarrow> \<bar>sint (fine_diff (nbr ?s' p))\<bar> < 100" if p: "p \<in> set ps" for p
    unfolding nb [OF p] by (auto simp: shift_nbr_def within_jump_def)
  moreover have "rts ?s' = r" using fold_shift_nbr [of ps ?s2 ?shift] by simp
  moreover have "coarse_diff (nbr ?s' p) = 0" if p: "p \<in> set ps" for p
    unfolding nb [OF p] using p assms(1) same_meas_coarse [OF same, of p] by (simp add: shift_nbr_def in_agreement_def)
  ultimately show ?thesis using upd off diff moved rr unfolding rate_def by (intro exI [of _ ?s']) auto
qed

text \<open>Three neighbours at 40, -20 and 12 ticks: the clock moves by 8.\<close>

definition demo_close :: node where
  "demo_close = upd_nbr 0 (\<lambda>n. n\<lparr>fine_diff := 40\<rparr>) (upd_nbr 1 (\<lambda>n. n\<lparr>fine_diff := - 20\<rparr>)
     (upd_nbr 2 (\<lambda>n. n\<lparr>fine_diff := 12\<rparr>) demo_node))"

lemma demo_close_nbrs:
  "nbr demo_close 0 = (demo_neighbour 70 5)\<lparr>fine_diff := 40\<rparr>"
  "nbr demo_close (Suc 0) = (demo_neighbour 71 9)\<lparr>fine_diff := - 20\<rparr>"
  "nbr demo_close 2 = (demo_neighbour 72 2)\<lparr>fine_diff := 12\<rparr>"
  "my_state demo_close = 0" "length (mmem (neighbour_memb demo_close)) = 64" "rts demo_close = rts demo_node"
  by (simp_all add: demo_close_def nbr_def upd_nbr_def set_block_def demo_node_def node.defs dev.defs)

theorem gtsp_averages_witness:
  "\<exists>s'. gtsp_update_rtimer demo_netenv [0, 1, 2] demo_close = Ok s' \<and> sint (fine_diff (nbr s' 1)) = - 28 \<and>
     ticks (coarse_count (rts s')) (fine_offset (rts s')) = ticks (coarse_count (rts demo_close)) (fine_offset (rts demo_close)) - 8"
proof -
  have "\<exists>s'. gtsp_update_rtimer demo_netenv [0, 1, 2] demo_close = Ok s' \<and> \<bar>8 :: int\<bar> < 100 \<and>
     ticks (coarse_count (rts s')) (fine_offset (rts s')) = ticks (coarse_count (rts demo_close)) (fine_offset (rts demo_close)) - 8 \<and>
     offset_in_window (fine_offset (rts s')) \<and>
     avg_rate (rts s') = d_div (fpe demo_netenv) (sum_rates (fpe demo_netenv) (map (nbr demo_close) [0, 1, 2]) (rtimer_avg_rate (rts demo_close)))
                  (d_of_int (fpe demo_netenv) (int (length [0 :: nat, 1, 2]) + 1)) \<and>
     (\<forall>p \<in> set [0, 1, 2]. coarse_diff (nbr s' p) = 0 \<and> sint (fine_diff (nbr s' p)) = sint (fine_diff (nbr demo_close p)) - 8 \<and>
        (synced (nbr s' p) \<longleftrightarrow> \<bar>sint (fine_diff (nbr s' p))\<bar> < 100))"
  proof (rule gtsp_averages)
    show "in_agreement [0, 1, 2] demo_close"
      by (simp add: in_agreement_def demo_close_nbrs demo_neighbour_def neighbour_zero_def within_jump_def)
    show "8 = sum_diffs (map (nbr demo_close) [0, 1, 2]) sdiv (int (length [0::nat, 1, 2]) + 1)"
      by (simp add: sum_diffs_def demo_close_nbrs)
    show "\<not> scheduler_occupied (rts demo_close)" by code_simp
    show "fp_near (fpe demo_netenv)" using fp_near_exact by (simp add: demo_netenv_def)
    show "offset_in_window (fine_offset (rts demo_close))" by code_simp
    show "dates_kept (fpe demo_netenv) (word_of_int 8) (rts demo_close)" unfolding dates_kept_def by (rule disjI2) code_simp
    show "1 \<le> uint (coarse_count (rts demo_close))" "uint (coarse_count (rts demo_close)) + 1 < 2 ^ 32" by code_simp+
  qed (simp_all add: demo_close_nbrs)
  then show ?thesis by (auto simp: demo_close_nbrs)
qed

end
