(* ===== verification/CSync_Enter.thy ===== *)
theory CSync_Enter
  imports Cluster
begin

text \<open>
  The state entries \<open>enter_*\<close>, which are timer callbacks, the two resets and \<open>csync_print_status\<close> of
  \<^verbatim>\<open>src/examples/c-sync/c-sync.c\<close>, and the expiry of timer 0 (the macro \<open>RTIMER0_HF_CALLBACK\<close> of
  \<^verbatim>\<open>src/core/sys/rtimer.h\<close>), which calls them. C-sync uses timer 0 only, so the parameter \<^verbatim>\<open>rt\<close> of an
  entry is always the array of timers.
\<close>

section \<open>State entries\<close>

definition enter_election_revelation :: "node \<Rightarrow> node" where
  "enter_election_revelation s =
     (let s1 = broadcast_announcement_stop s;
          s2 = upd_anns (announcement_remove_value discovery_announcement) s1;
          s3 = set_schedule_ref s2;
          s4 = s3\<lparr>my_state := ELECTION_REVELATION, sync_LC_addr := my_addr s3\<rparr>
      in poll_c_gtsp_process s4)"

definition enter_election_declaration :: "'e cenv_scheme \<Rightarrow> node \<Rightarrow> node" where
  "enter_election_declaration e s =
     (let s1 = polite_announcement_cancel s;
          s2 = upd_anns (announcement_remove_value revelation_announcement) s1;
          s3 = csync_update_placing e s2;
          s4 = polite_announcement_set_interval (POLITE_INTERVAL * ucast (my_placing s3)) s3;
          s5 = set_schedule_ref s4;
          s6 = (if TEST_BYZ e
                then s5\<lparr>my_role := if my_addr s5 = 69 \<or> my_addr s5 = 65 then CH else CM\<rparr> else s5);
          s7 = (if MOD_NEIGHBOURS e \<and> MOD_TYPE e = 2
                then if my_addr s6 \<in> {62, 71, 69, 64, 51}
                     then s6\<lparr>my_role := CH, my_degree := my_degree s6 + 2\<rparr>
                     else s6\<lparr>my_role := CM\<rparr>
                else s6);
          s8 = s7\<lparr>my_state := ELECTION_DECLARATION\<rparr>
      in poll_c_gtsp_process s8)"

definition enter_connection_revelation :: "node \<Rightarrow> node" where
  "enter_connection_revelation s =
     (let s1 = (polite_announcement_cancel s)\<lparr>radio_on := False\<rparr>;
          s2 = upd_anns (announcement_remove_value declaration_announcement) s1;
          s3 = set_schedule_ref s2
      in poll_c_gtsp_process (s3\<lparr>my_state := CONNECTION_REVELATION\<rparr>))"

definition enter_connection_declaration :: "node \<Rightarrow> node" where
  "enter_connection_declaration s =
     (let s1 = polite_announcement_cancel s;
          s2 = upd_anns (announcement_remove_value revelation_announcement) s1;
          s3 = s2\<lparr>pb := packetbuf_set_attr ATTR_DOAES 0 (pb s2), llsec_inits := llsec_inits s2 + 1\<rparr>;
          s4 = set_schedule_ref s3
      in poll_c_gtsp_process (s4\<lparr>my_state := CONNECTION_DECLARATION\<rparr>))"

definition enter_convergence :: "node \<Rightarrow> node" where
  "enter_convergence s =
     (let s1 = polite_announcement_cancel s;
          s2 = upd_anns (announcement_remove_value declaration_announcement) s1;
          s3 = set_schedule_ref s2
      in poll_c_gtsp_process (s3\<lparr>my_state := CONSENSUS_CONVERGENCE\<rparr>))"

definition enter_consensus_revelation :: "node \<Rightarrow> node" where
  "enter_consensus_revelation s =
     (let s1 = polite_announcement_cancel s;
          s2 = upd_anns (announcement_remove_value convergence_announcement) s1;
          s3 = (polite_announcement_set_interval (POLITE_INTERVAL * ucast (my_placing s2)) s2)\<lparr>radio_on := True\<rparr>;
          s4 = set_schedule_ref s3
      in poll_c_gtsp_process (s4\<lparr>my_state := CONSENSUS_REVELATION\<rparr>))"

definition enter_convergence_slot :: "node \<Rightarrow> node" where
  "enter_convergence_slot s =
     (let s1 = polite_announcement_cancel s
      in if my_cons_slot s1 < NUM_CONS_SLOTS
         then poll_c_gtsp_process (s1\<lparr>convergence_complete := True\<rparr>)
         else enter_consensus_revelation s1)"

definition enter_consensus_synchronization :: "node \<Rightarrow> node" where
  "enter_consensus_synchronization s =
     (let s1 = polite_announcement_cancel s;
          s2 = upd_anns (announcement_remove_value revelation_announcement) s1;
          s3 = set_schedule_ref s2
      in poll_c_gtsp_process (s3\<lparr>my_state := CONSENSUS_SYNCHRONIZATION\<rparr>))"

definition enter_byzantine_consensus :: "node \<Rightarrow> node" where
  "enter_byzantine_consensus s =
     poll_c_gtsp_process (s\<lparr>temp_state := if my_sync_border s then BYZANTINE_CONSENSUS else my_state s\<rparr>)"

definition leds_off_all :: "node \<Rightarrow> node" where
  "leds_off_all s =
     (let s1 = s\<lparr>led := (led s)\<lparr>led_green := False\<rparr>\<rparr>
      in if uint (cons_ctrl_counter s1) + 1 \<ge> uint NUM_CONS_CTRL_ITERATIONS
         then s1\<lparr>led := (led s1)\<lparr>led_red := False, led_blue := False\<rparr>\<rparr> else s1)"

definition enter_idle :: "'e cenv_scheme \<Rightarrow> node \<Rightarrow> node" where
  "enter_idle e s =
     (if TEST_GTSP e then
        poll_c_gtsp_process ((set_schedule_ref (broadcast_announcement_stop s))\<lparr>radio_on := False, my_state := IDLE\<rparr>)
      else
        let s1 = polite_announcement_stop s;
            s2 = (upd_anns (announcement_remove_value synchronization_announcement) s1)\<lparr>radio_on := False\<rparr>;
            s3 = leds_off_all (set_schedule_ref s2)
        in poll_c_gtsp_process (s3\<lparr>my_state := IDLE\<rparr>))"

text \<open>\<^verbatim>\<open>ref_n_CHB_degree - 1 < NUM_CONS_SLOTS\<close> is a comparison of signed integers.\<close>

definition enter_synchronization_slot :: "'e cenv_scheme \<Rightarrow> node \<Rightarrow> node" where
  "enter_synchronization_slot e s =
     (let s1 = polite_announcement_cancel s
      in if uint (ref_n_CHB_degree s1) - 1 < uint NUM_CONS_SLOTS then poll_c_gtsp_process s1 else enter_idle e s1)"

definition enter_discovery :: "'e cenv_scheme \<Rightarrow> node \<Rightarrow> node" where
  "enter_discovery e s =
     (if TEST_GTSP e then
        (poll_c_gtsp_process (set_schedule_ref (broadcast_announcement_stop s)))\<lparr>my_state := DISCOVERY\<rparr>
      else poll_c_gtsp_process (set_schedule_ref (polite_announcement_stop s)))"

section \<open>Expiry of timer 0\<close>

definition call_func :: "'e cenv_scheme \<Rightarrow> rtimer_callback_t \<Rightarrow> node \<Rightarrow> node res" where
  "call_func e cb s = (case cb of
       cb_null \<Rightarrow> Fault NullDeref
     | cb_election_revelation \<Rightarrow> Ok (enter_election_revelation s)
     | cb_election_declaration \<Rightarrow> Ok (enter_election_declaration e s)
     | cb_connection_revelation \<Rightarrow> Ok (enter_connection_revelation s)
     | cb_connection_declaration \<Rightarrow> Ok (enter_connection_declaration s)
     | cb_convergence \<Rightarrow> Ok (enter_convergence s)
     | cb_convergence_slot \<Rightarrow> Ok (enter_convergence_slot s)
     | cb_consensus_revelation \<Rightarrow> Ok (enter_consensus_revelation s)
     | cb_consensus_synchronization \<Rightarrow> Ok (enter_consensus_synchronization s)
     | cb_synchronization_slot \<Rightarrow> Ok (enter_synchronization_slot e s)
     | cb_idle \<Rightarrow> Ok (enter_idle e s)
     | cb_discovery \<Rightarrow> Ok (enter_discovery e s))"

definition hf_due :: "u16 \<Rightarrow> rtimer_t \<Rightarrow> bool" where
  "hf_due taccr0 t \<longleftrightarrow>
     (rt_ta t \<le> taccr0 - RTIMER_AB_UPDATE \<or>
      (rt_ta t \<le> taccr0 - 2 * RTIMER_AB_UPDATE \<and> rt_tb t > 2048)) \<and> rt_state t = RTIMER_SCHEDULED"

definition rtimer0_hf_callback :: "'e cenv_scheme \<Rightarrow> u16 \<Rightarrow> node \<Rightarrow> node res" where
  "rtimer0_hf_callback e taccr0 s =
     (if hf_due taccr0 (rt0 s) then
        let s1 = upd_rts (\<lambda>r. r\<lparr>TBCCTL4_CCIE := False\<rparr>) (set_timer_state RTIMER_JUST_EXPIRED s) in
        bindR (upd_rts_res (rtimer_lf_update (fpe e)) s1) (\<lambda>s2.
        bindR (call_func e (rt_func (rt0 s2)) s2) (\<lambda>s3.
          Ok (set_timer_state RTIMER_INACTIVE s3)))
      else Ok s)"

section \<open>Resets\<close>

definition reset_c_gtsp :: "'e cenv_scheme \<Rightarrow> node \<Rightarrow> node" where
  "reset_c_gtsp e s =
     (let s1 = s\<lparr>neighbour_memb := memb_init neighbour_zero (neighbour_memb s), neighbour_list := []\<rparr>;
          s2 = (if MOD_NEIGHBOURS e
                then s1\<lparr>mod_neighbour_memb := memb_init neighbour_zero (mod_neighbour_memb s1),
                        mod_neighbour_list := []\<rparr> else s1);
          s3 = s2\<lparr>ref_n_CHB_degree := 0, ref_n_CHB_addr := 0\<rparr>;
          s4 = upd_rts (\<lambda>r. r\<lparr>coarse_schedule_ref := 0, fine_schedule_ref := 0, rt := [rtimer_zero, rtimer_zero]\<rparr>) s3;
          s5 = upd_anns announcement_init s4;
          s6 = s5\<lparr>synced_counter := 0, my_addr := linkaddr_node_addr s5\<rparr>;
          s7 = s6\<lparr>my_degree := if MOD_NEIGHBOURS e \<and> check_mod_neighbours e (my_addr s6) (my_addr s6) then 1 else 0,
                  my_state := DISCOVERY, my_placing := 0, my_role := CH, soft_reset_count := 0\<rparr>
      in s7\<lparr>CHs_memb := memb_init chb_zero (CHs_memb s7), CBs_memb := memb_init chb_zero (CBs_memb s7),
            CHs_list := [], CBs_list := [], bl_memb := memb_init 0 (bl_memb s7), blacklist := []\<rparr>)"

definition register_announcements :: "'e cenv_scheme \<Rightarrow> ann_sys \<Rightarrow> ann_sys" where
  "register_announcements e a =
     (let a1 = announcement_add_value discovery_announcement
                 (announcement_register (fpe e) discovery_announcement 0 recv_discovery a)
      in if TEST_GTSP e then a1
         else announcement_register (fpe e) synchronization_announcement 4 recv_synchronization
               (announcement_register (fpe e) convergence_announcement 3 recv_convergence
                 (announcement_register (fpe e) declaration_announcement 2 recv_declaration
                   (announcement_register (fpe e) revelation_announcement 1 recv_revelation a1))))"

definition soft_reset :: "'e cenv_scheme \<Rightarrow> node \<Rightarrow> node res" where
  "soft_reset e s =
     (let s1 = (upd_anns announcement_init s)\<lparr>my_state := DISCOVERY\<rparr>;
          s2 = upd_rts (\<lambda>r. r\<lparr>coarse_schedule_ref := 0, fine_schedule_ref := 0, rt := [rtimer_zero, rtimer_zero]\<rparr>) s1;
          s3 = s2\<lparr>synced_counter := 0, my_proactive_slot := 1, my_cons_slot := 1,
                  my_cons_rate := d_of_int (fpe e) 1, my_slot_ack := 0, this_sync_slot := 1,
                  my_sync_border := False, cons_ctrl_counter := 0, msg_count := 0,
                  soft_reset_count := soft_reset_count s2 + 1, radio_on := True\<rparr>;
          s4 = upd_anns (register_announcements e) s3
      in broadcast_announcement_init LOGICAL_CHANNEL (MIN_INTERVAL e) (MIN_INTERVAL e) (MAX_INTERVAL e) s4)"

section \<open>Status\<close>

text \<open>The effects of \<open>csync_print_status\<close> besides its output.\<close>

definition csync_print_status :: "node \<Rightarrow> node res" where
  "csync_print_status s =
     (if my_state s = ELECTION_REVELATION then
        Ok (s\<lparr>led := \<lparr>led_red = False, led_green = True, led_blue = False\<rparr>\<rparr>)
      else if my_state s = CONNECTION_REVELATION then
        (case my_role s of
           CM \<Rightarrow> if CHs_list s = [] then Fault NullDeref else Ok s
         | CH \<Rightarrow> Ok (s\<lparr>led := (led s)\<lparr>led_red := True\<rparr>\<rparr>)
         | CB \<Rightarrow> Ok s)
      else if my_state s = CONSENSUS_CONVERGENCE then
        (if my_role s = CB then Ok (s\<lparr>led := (led s)\<lparr>led_blue := True\<rparr>\<rparr>) else Ok s)
      else if my_state s = CONSENSUS_SYNCHRONIZATION then
        Ok (s\<lparr>sync_LC_addr := fold (\<lambda>p lc. if my_cons_slot s \<le> ch_cons_slot (the_CH s p) \<and> my_role s = CH
                                         then ch_addr (the_CH s p) else lc)
                              (CHs_list s) (sync_LC_addr s)\<rparr>)
      else Ok s)"

end
