(* ===== verification/Received.thy ===== *)
theory Received
  imports CSync_Enter
begin

text \<open>
  The handlers of received announcements, \<^verbatim>\<open>src/core/net/c-sync/received_*_announcement.c\<close>, and the
  path from a frame in the packet buffer to a handler. The parameter \<^verbatim>\<open>last_event\<close> of the handlers is
  never read and is left out. A write through the result of a failed \<open>memb_alloc\<close> is
  \<open>Fault NullDeref\<close>, and \<^verbatim>\<open>list_push(*temp_val, temp_memb)\<close>, which links the pool itself into the list
  of cluster heads, sets \<open>pool_linked\<close>.
\<close>

section \<open>Shared steps\<close>

text \<open>The neighbour precedes this node in the election.\<close>

definition outranks :: "neighbour \<Rightarrow> node \<Rightarrow> bool" where
  "outranks n s \<longleftrightarrow> nb_degree n > my_degree s \<or> (nb_degree n = my_degree s \<and> nb_addr n > my_addr s)"

text \<open>The common beginning of the handlers: weak signals and unsynchronized neighbours are ignored.\<close>

definition with_synced_neighbour ::
  "'e cenv_scheme \<Rightarrow> u16 \<Rightarrow> announcement_value \<Rightarrow> timesync_frame_t \<Rightarrow> (ptr \<Rightarrow> node \<Rightarrow> node res) \<Rightarrow> node \<Rightarrow> node res" where
  "with_synced_neighbour e from av sf k s =
     bindR (add_to_neighbour e from (av_instr av) (av_degree av) sf s) (\<lambda>(r, s1).
       case r of None \<Rightarrow> Ok s1 | Some p \<Rightarrow> if \<not> synced (nbr s1 p) then Ok s1 else k p s1)"

text \<open>The request for timer 0 with the date of the announcement, which is kept for one pass.\<close>

definition adopt_date ::
  "'e cenv_scheme \<Rightarrow> announcement_value \<Rightarrow> rtimer_callback_t \<Rightarrow> (node \<Rightarrow> node res) \<Rightarrow> node \<Rightarrow> node res" where
  "adopt_date e av func k =
     if_schedule e RTIMER_DATE (av_date_coarse av) (av_date_fine av) func
       (\<lambda>s. k (set_timer_state RTIMER_SINGLEPASS s)) Ok"

text \<open>Leaving DISCOVERY late: periodic broadcasts stop, polite ones start.\<close>

definition join_polite :: "node \<Rightarrow> node" where
  "join_polite s =
     polite_announcement_init LOGICAL_CHANNEL 0 PA_RESILIENCE_MAX_SEND_DUPS PA_REGULAR_MAX_RECV_DUPS
       (upd_anns (announcement_remove_value discovery_announcement) (broadcast_announcement_stop s))"

definition set_slot_of :: "u16 \<Rightarrow> u8 \<Rightarrow> node \<Rightarrow> node" where
  "set_slot_of addr slot s =
     fold (\<lambda>p s. if ch_addr (the_CH s p) = addr
                 then (upd_CH p (\<lambda>c. c\<lparr>ch_cons_slot := slot\<rparr>) s)\<lparr>my_cons_slot := slot\<rparr> else s)
       (CHs_list s) s"

text \<open>
  A late node takes a block for a head from the pool and writes into it, but then links the pool instead
  of the block: the list now begins with the pool, whose \<^verbatim>\<open>size\<close> is overwritten by the link.
\<close>

definition push_pool_as_head :: "announcement_value \<Rightarrow> node \<Rightarrow> node res" where
  "push_pool_as_head av s = (case memb_alloc (CHs_memb s) of
       (None, _) \<Rightarrow> Fault NullDeref
     | (Some p, m) \<Rightarrow>
         Ok (s\<lparr>CHs_memb := set_block p (\<lambda>c. c\<lparr>n_CHB_addr_A := av_ref_addr av, ch_cons_slot := av_degree av\<rparr>) m,
                pool_linked := True\<rparr>))"

section \<open>DISCOVERY announcements\<close>

definition discovery_switch :: "'e cenv_scheme \<Rightarrow> ptr \<Rightarrow> announcement_value \<Rightarrow> node \<Rightarrow> node res" where
  "discovery_switch e a av s =
     (let next_func = (if TEST_GTSP e then cb_idle else cb_election_revelation);
          s1 = (if \<not> csync_all_synced e s
                then (upd_anns (announcement_set_instr a DISCOVERY) s)\<lparr>synced_counter := 0\<rparr> else s)
      in if av_instr av = my_state s1 \<and> DISCOVERY = announcement_get_instr a (ann s1) \<and>
            synced_counter s1 \<ge> MAX_RX_SYNC_DISCOVERY
         then if_schedule e RTIMER_INTERVAL_NOW 0 DISC_TO_EREV_INTERVAL next_func
                (\<lambda>s2. Ok (announce_rt0_date a (upd_anns (announcement_set_instr a DISC_TO_EREV) s2))) Ok s1
         else if av_instr av = DISC_TO_EREV then
           if rtimer_compare 0 (av_date_coarse av) (av_date_fine av) (rts s1) = 1
           then if_schedule e RTIMER_DATE (av_date_coarse av) (av_date_fine av) next_func
                  (\<lambda>s2. Ok (upd_anns (announcement_set_instr a DISC_TO_EREV)
                          (upd_anns (announcement_set_date_fine a (av_date_fine av))
                            (upd_anns (announcement_set_date_coarse a (av_date_coarse av)) s2))))
                  (\<lambda>s2. Ok ((upd_anns (announcement_set_instr a DISCOVERY)
                           (set_timer_state RTIMER_INACTIVE s2))\<lparr>synced_counter := 0\<rparr>)) s1
           else Ok s1
         else Ok s1)"

definition received_discovery_announcement ::
  "'e cenv_scheme \<Rightarrow> ptr \<Rightarrow> u16 \<Rightarrow> announcement_value \<Rightarrow> timesync_frame_t \<Rightarrow> node \<Rightarrow> node res" where
  "received_discovery_announcement e a from av sf s =
     (if rssi_ok (packetbuf_attr ATTR_RSSI (pb s)) then
        bindR (add_to_neighbour e from (av_instr av) (av_degree av) sf s) (\<lambda>(r, s1).
          case r of
            None \<Rightarrow> Ok s1
          | Some p \<Rightarrow>
              let s2 = (if synced (nbr s1 p) then s1\<lparr>synced_counter := synced_counter s1 + 1\<rparr> else s1)
              in if my_state s2 = DISCOVERY then discovery_switch e a av s2 else Ok s2)
      else Ok s)"

section \<open>REVELATION announcements\<close>

definition revelation_in_discovery :: "'e cenv_scheme \<Rightarrow> ptr \<Rightarrow> announcement_value \<Rightarrow> node \<Rightarrow> node res" where
  "revelation_in_discovery e p av s =
     (if av_instr av = ELECTION_REVELATION then
        let s1 = polite_announcement_cancel s in
        if outranks (nbr s1 p) s1
        then adopt_date e av cb_connection_revelation (\<lambda>s2. Ok (enter_election_revelation s2)) s1
        else Ok s1
      else if av_instr av = CONNECTION_REVELATION then
        adopt_date e av cb_consensus_synchronization
          (\<lambda>s2. Ok (enter_connection_revelation (join_polite s2))) (s\<lparr>my_role := CM\<rparr>)
      else if av_instr av = CONSENSUS_REVELATION then
        adopt_date e av cb_consensus_synchronization
          (\<lambda>s2. let s3 = join_polite s2 in
             if CHs_list s3 \<noteq> []
             then Ok (enter_consensus_revelation (set_slot_of (nb_addr (nbr s3 p)) (av_degree av) s3))
             else bindR (push_pool_as_head av s3)
                    (\<lambda>s4. Ok (enter_consensus_revelation (s4\<lparr>my_cons_slot := av_degree av\<rparr>)))) (s\<lparr>my_role := CM\<rparr>)
      else Ok s)"

definition revelation_in_convergence :: "'e cenv_scheme \<Rightarrow> ptr \<Rightarrow> announcement_value \<Rightarrow> node \<Rightarrow> node res" where
  "revelation_in_convergence e p av s =
     (if av_instr av = CONSENSUS_REVELATION then
        adopt_date e av cb_consensus_synchronization
          (\<lambda>s1. let s2 = (if my_role s1 = CH \<and> CBs_list s1 = []
                          then set_slot_of (nb_addr (nbr s1 p)) (av_degree av) (snd (handle_lists av p s1)) else s1)
                in Ok (enter_consensus_revelation (s2\<lparr>my_cons_slot := NUM_CONS_SLOTS + 1, my_slot_ack := 0\<rparr>)))
          (polite_announcement_cancel s)
      else Ok s)"

definition revelation_switch :: "'e cenv_scheme \<Rightarrow> ptr \<Rightarrow> announcement_value \<Rightarrow> node \<Rightarrow> node res" where
  "revelation_switch e p av s =
     (if my_state s = DISCOVERY then revelation_in_discovery e p av s
      else if my_state s = ELECTION_REVELATION then
        Ok (if av_instr av = my_state s \<and> outranks (nbr s p) s then polite_announcement_cancel s else s)
      else if my_state s = CONNECTION_REVELATION then
        Ok (if av_instr av = my_state s \<and> my_role s = CB \<and> outranks (nbr s p) s
            then snd (handle_lists av p s) else s)
      else if my_state s = CONSENSUS_CONVERGENCE then revelation_in_convergence e p av s
      else if my_state s = CONSENSUS_REVELATION then
        Ok (if av_instr av = my_state s \<and> my_role s = CM
            then set_slot_of (nb_addr (nbr s p)) (av_degree av) s else s)
      else Ok s)"

definition received_revelation_announcement ::
  "'e cenv_scheme \<Rightarrow> ptr \<Rightarrow> u16 \<Rightarrow> announcement_value \<Rightarrow> timesync_frame_t \<Rightarrow> node \<Rightarrow> node res" where
  "received_revelation_announcement e a from av sf s =
     (if rssi_ok (packetbuf_attr ATTR_RSSI (pb s))
      then with_synced_neighbour e from av sf (\<lambda>p. revelation_switch e p av) s else Ok s)"

section \<open>DECLARATION announcements\<close>

text \<open>
  The test code that renames the neighbour before a second call of \<open>handle_lists\<close>: in each group of
  two addresses, one stands for the other at the given nodes.
\<close>

definition swap_addr :: "(u16 \<Rightarrow> bool) \<Rightarrow> u16 \<Rightarrow> u16 \<Rightarrow> ptr \<Rightarrow> announcement_value \<times> node \<Rightarrow> announcement_value \<times> node" where
  "swap_addr here x y p avs = (case avs of (av, s) \<Rightarrow>
     if nb_addr (nbr s p) = x \<and> here (my_addr s)
     then (av\<lparr>av_ref_addr := y\<rparr>, upd_nbr p (\<lambda>n. n\<lparr>nb_addr := y\<rparr>) s)
     else if nb_addr (nbr s p) = y \<and> here (my_addr s)
     then (av\<lparr>av_ref_addr := x\<rparr>, upd_nbr p (\<lambda>n. n\<lparr>nb_addr := x\<rparr>) s)
     else avs)"

definition byz_rename :: "'e cenv_scheme \<Rightarrow> ptr \<Rightarrow> announcement_value \<times> node \<Rightarrow> announcement_value \<times> node" where
  "byz_rename e p avs =
     (if TEST_BYZ e
      then case swap_addr (\<lambda>m. m = 66 \<or> m = 64) 69 65 p avs of (av, s) \<Rightarrow> (av, snd (handle_lists av p s))
      else avs)"

definition chain_rename :: "'e cenv_scheme \<Rightarrow> ptr \<Rightarrow> announcement_value \<times> node \<Rightarrow> announcement_value \<times> node" where
  "chain_rename e p avs =
     (if MOD_NEIGHBOURS e \<and> MOD_TYPE e = 2
      then let avs1 = swap_addr (\<lambda>m. m = 70) 71 62 p avs;
               avs2 = swap_addr (\<lambda>m. m = 66) 69 71 p avs1;
               avs3 = swap_addr (\<lambda>m. m = 76) 69 64 p avs2;
               avs4 = swap_addr (\<lambda>m. m = 56) 64 51 p avs3
           in case avs4 of (av, s) \<Rightarrow> (av, snd (handle_lists av p s))
      else avs)"

definition declaration_in_election :: "'e cenv_scheme \<Rightarrow> ptr \<Rightarrow> ptr \<Rightarrow> announcement_value \<Rightarrow> node \<Rightarrow> node res" where
  "declaration_in_election e a p av s =
     (if av_instr av = my_state s then
        if outranks (nbr s p) s then
          case handle_lists av p (polite_announcement_cancel s) of (r, s1) \<Rightarrow>
          bindR (if r = 0 then announcement_bump e a s1 else Ok s1) (\<lambda>s2.
            Ok (snd (chain_rename e p (byz_rename e p (av, s2)))))
        else Ok s
      else if av_instr av = CONNECTION_DECLARATION then
        adopt_date e av cb_convergence
          (\<lambda>s1. Ok (enter_connection_revelation (s1\<lparr>CHs_list := []\<rparr>))) (polite_announcement_cancel s)
      else Ok s)"

definition declaration_in_discovery :: "'e cenv_scheme \<Rightarrow> ptr \<Rightarrow> announcement_value \<Rightarrow> node \<Rightarrow> node res" where
  "declaration_in_discovery e p av s =
     (let s1 = join_polite (s\<lparr>my_role := CM\<rparr>) in
      if av_instr av = CONNECTION_DECLARATION then
        Ok (poll_c_gtsp_process (s1\<lparr>my_state := CONNECTION_DECLARATION\<rparr>))
      else if av_instr av = ELECTION_DECLARATION then
        if_schedule e RTIMER_DATE (av_date_coarse av) (av_date_fine av) cb_connection_revelation
          (\<lambda>s2. Ok (enter_election_declaration e (set_timer_state RTIMER_SINGLEPASS (snd (handle_lists av p s2)))))
          Ok (polite_announcement_cancel s1)
      else Ok s1)"

definition declaration_switch :: "'e cenv_scheme \<Rightarrow> ptr \<Rightarrow> ptr \<Rightarrow> announcement_value \<Rightarrow> node \<Rightarrow> node res" where
  "declaration_switch e a p av s =
     (if my_state s = DISCOVERY then declaration_in_discovery e p av s
      else if my_state s = ELECTION_REVELATION then
        if av_instr av = ELECTION_DECLARATION
        then adopt_date e av cb_connection_revelation (\<lambda>s1. Ok (enter_election_declaration e s1))
               (polite_announcement_cancel s)
        else Ok s
      else if my_state s = ELECTION_DECLARATION then declaration_in_election e a p av s
      else if my_state s = CONNECTION_DECLARATION then
        Ok (if av_instr av = my_state s \<and> my_role s = CH then snd (handle_lists av p s) else s)
      else Ok s)"

definition received_declaration_announcement ::
  "'e cenv_scheme \<Rightarrow> ptr \<Rightarrow> u16 \<Rightarrow> announcement_value \<Rightarrow> timesync_frame_t \<Rightarrow> node \<Rightarrow> node res" where
  "received_declaration_announcement e a from av sf s =
     (if rssi_ok (packetbuf_attr ATTR_RSSI (pb s))
      then with_synced_neighbour e from av sf (\<lambda>p. declaration_switch e a p av) s else Ok s)"

end
