(* ===== verification/Neighbour_Laws.thy ===== *)
theory Neighbour_Laws
  imports Received Gtsp_Laws
begin

text \<open>
  What the neighbour table of c-sync.c guarantees: measuring a neighbour and moving the clock change
  nothing else, every received frame keeps the table consistent, the reset establishes it, and the
  placing of a node counts the neighbours that precede it in the election.
\<close>

section \<open>What measuring and moving the clock leave alone\<close>

text \<open>Only the clock and the measurements in the neighbour table change.\<close>

definition same_table :: "node \<Rightarrow> node \<Rightarrow> bool" where
  "same_table s s' \<longleftrightarrow> (\<exists>r m. s' = s\<lparr>rts := r, neighbour_memb := m\<rparr> \<and> mcount m = mcount (neighbour_memb s) \<and>
     length (mmem m) = length (mmem (neighbour_memb s)) \<and> (\<forall>q. nb_addr (mmem m ! q) = nb_addr (nbr s q)))"

lemma same_table_refl [simp]: "same_table s s"
  unfolding same_table_def by (intro exI [of _ "rts s"] exI [of _ "neighbour_memb s"]) (simp add: nbr_def)

lemma same_table_trans:
  assumes "same_table s s1" and "same_table s1 s2"
  shows "same_table s s2"
proof -
  from assms(1) obtain r m where 1: "s1 = s\<lparr>rts := r, neighbour_memb := m\<rparr>" "mcount m = mcount (neighbour_memb s)"
    "length (mmem m) = length (mmem (neighbour_memb s))" "\<forall>q. nb_addr (mmem m ! q) = nb_addr (nbr s q)"
    unfolding same_table_def by blast
  from assms(2) obtain r' m' where 2: "s2 = s1\<lparr>rts := r', neighbour_memb := m'\<rparr>" "mcount m' = mcount (neighbour_memb s1)"
    "length (mmem m') = length (mmem (neighbour_memb s1))" "\<forall>q. nb_addr (mmem m' ! q) = nb_addr (nbr s1 q)"
    unfolding same_table_def by blast
  show ?thesis unfolding same_table_def
    using 1 2 by (intro exI [of _ r'] exI [of _ m']) (simp add: nbr_def)
qed

lemma same_table_rts: "same_table s (s\<lparr>rts := r\<rparr>)"
  unfolding same_table_def by (intro exI [of _ r] exI [of _ "neighbour_memb s"]) (simp add: nbr_def)

lemma same_table_upd_nbr:
  assumes "nb_addr (f (nbr s p)) = nb_addr (nbr s p)"
  shows "same_table s (upd_nbr p f s)"
  unfolding same_table_def
proof (intro exI conjI allI)
  show "upd_nbr p f s = s\<lparr>rts := rts s, neighbour_memb := neighbour_memb (upd_nbr p f s)\<rparr>"
    by (simp add: upd_nbr_def)
  show "nb_addr (mmem (neighbour_memb (upd_nbr p f s)) ! q) = nb_addr (nbr s q)" for q
    using nbr_upd_nbr [of p f s q] assms by (simp add: nbr_def)
qed simp_all

lemma same_table_fold:
  "(\<And>n. nb_addr (f n) = nb_addr n) \<Longrightarrow> same_table s (fold (\<lambda>p. upd_nbr p f) ps s)"
proof (induction ps arbitrary: s)
  case (Cons p ps)
  then show ?case using same_table_trans [OF same_table_upd_nbr [of f s p] Cons.IH] by simp
qed simp

lemma same_table_upd_rts_res: "upd_rts_res f s = Ok s' \<Longrightarrow> same_table s s'"
  using same_table_rts by (auto simp: upd_rts_res_def res_iff)

lemma same_table_upd_rts: "same_table s (upd_rts f s)"
  using same_table_rts by (simp add: upd_rts_def)

lemma set_diffs_addr [simp]: "nb_addr (set_diffs a b c d n) = nb_addr n"
  by (simp add: set_diffs_def Let_def)

lemma update_relative_rate_addr [simp]: "nb_addr (update_relative_rate fp a b c d n) = nb_addr n"
  by (simp add: update_relative_rate_def Let_def case_prod_beta)

lemma gtsp_measure_addr: "gtsp_measure fp sf rx new st a b r n = (r', n') \<Longrightarrow> nb_addr n' = nb_addr n"
  by (auto simp: gtsp_measure_def Let_def case_prod_beta)

lemma gtsp_recv_table:
  assumes "gtsp_recv e p sf new s = Ok s'"
  shows "same_table s s'"
proof -
  obtain st now r n_now where cap: "capture_stamps (fpe e) (rts s) = Ok (st, now, r)"
    and sn: "rtimer_stamps_to_now (fpe e) (sf_ta sf) (sf_tb sf) (sf_ta_compare sf) (sf_tb_compare sf) (sf_clock_rate sf) = Some n_now"
    using assms by (auto simp: gtsp_recv_def res_iff)
  obtain r1 n where g: "gtsp_measure (fpe e) sf (packetbuf_attr ATTR_TIMESTAMP (pb s)) new st now n_now r (nbr s p) = (r1, n)"
    by (cases "gtsp_measure (fpe e) sf (packetbuf_attr ATTR_TIMESTAMP (pb s)) new st now n_now r (nbr s p)")
  have s': "s' = upd_nbr p (\<lambda>_. n) (s\<lparr>rts := r1\<rparr>)" using assms cap sn g by (simp add: gtsp_recv_def)
  have "nb_addr n = nb_addr (nbr (s\<lparr>rts := r1\<rparr>) p)" using gtsp_measure_addr [OF g] by (simp add: nbr_def)
  from same_table_trans [OF same_table_rts same_table_upd_nbr [OF this]] show ?thesis unfolding s' .
qed

lemma gtsp_scan_table: "gtsp_scan e all ps acc s = Ok (acc', s') \<Longrightarrow> same_table s s'"
proof (induction ps arbitrary: acc s)
  case (Cons p ps)
  let ?n = "nbr s p" and ?acc1 = "coarse_step (nbr s p) acc"
  show ?case
  proof (cases "nb_state ?n = my_state s")
    case False
    then have "gtsp_scan e all ps acc s = Ok (acc', s')" using Cons.prems by simp
    then show ?thesis by (rule Cons.IH)
  next
    case True
    have "\<not> g_coarse_synced_count ?acc1 < g_coarse_diff_count ?acc1"
    proof
      assume "g_coarse_synced_count ?acc1 < g_coarse_diff_count ?acc1"
      moreover obtain acc2 where "coarse_search all s all ?acc1 = (None, acc2)"
        using coarse_search_null [of all s all ?acc1] by (cases "coarse_search all s all ?acc1") simp
      ultimately show False using Cons.prems True by (auto simp: coarse_step_def Let_def split: if_splits)
    qed
    moreover obtain acc2 n' where st: "gtsp_fine_step (fpe e) ?n ?acc1 = (acc2, n')"
      by (cases "gtsp_fine_step (fpe e) ?n ?acc1")
    ultimately have "gtsp_scan e all ps acc2 (upd_nbr p (\<lambda>_. n') s) = Ok (acc', s')"
      using Cons.prems True by (auto simp: coarse_step_def Let_def split: if_splits)
    then have "same_table (upd_nbr p (\<lambda>_. n') s) s'" by (rule Cons.IH)
    moreover have "nb_addr n' = nb_addr ?n" using st by (auto simp: gtsp_fine_step_def split: if_splits)
    ultimately show ?thesis using same_table_trans [OF same_table_upd_nbr [of "\<lambda>_. n'" s p]] by blast
  qed
qed simp

lemma gtsp_update_rtimer_table:
  assumes "gtsp_update_rtimer e ps s = Ok s'"
  shows "same_table s s'"
proof -
  obtain acc s1 s2 where 1: "gtsp_scan e ps ps (gtsp_acc_start (rtimer_avg_rate (rts s))) s = Ok (acc, s1)"
    "upd_rts_res (rtimer_adjust_coarse_count (g_coarse_synced_offset acc)) s1 = Ok s2"
    using assms by (auto simp: gtsp_update_rtimer_def res_iff)
  let ?off = "s_div (g_fine_synced_offset acc) (uint (g_fine_synced_count acc) + 1)"
  let ?move = "if g_fine_synced_count acc > g_fine_diff_count acc
      then (?off, upd_rts (rtimer_set_avg_rate (d_div (fpe e) (g_avg_rate acc)
              (d_of_int (fpe e) (uint (g_fine_synced_count acc) + uint (g_fine_diff_count acc) + 1)))) s2)
      else if my_state s2 = DISCOVERY
      then (snd (group_scan (map (nbr s2) ps) (g_fine_synced_count acc, ?off)), s2)
      else (?off, s2)"
  obtain off s3 where move: "?move = (off, s3)" by (cases ?move)
  then have 2: "same_table s2 s3" using same_table_upd_rts by (auto split: if_splits)
  from assms obtain s4 where 3: "upd_rts_res (rtimer_adjust_fine_offset (fpe e) off) s3 = Ok s4"
    "s' = fold (\<lambda>p. upd_nbr p (shift_nbr (g_coarse_synced_offset acc) off)) ps s4"
    unfolding gtsp_update_rtimer_def 1 bindR.simps prod.case Let_def move by (auto simp: 1(2) move res_iff)
  have "same_table s4 s'" unfolding 3(2) by (rule same_table_fold) (simp add: shift_nbr_def)
  then show ?thesis
    using same_table_trans gtsp_scan_table [OF 1(1)] same_table_upd_rts_res [OF 1(2)] 2
      same_table_upd_rts_res [OF 3(1)] by blast
qed

lemma known_neighbour_table:
  assumes "known_neighbour e p state degree sf s = Ok (r, s')"
  shows "r = Some p \<and> same_table s s'"
proof -
  obtain s1 where 1: "gtsp_recv e p sf False s = Ok s1" using assms by (auto simp: known_neighbour_def res_iff)
  define st where "st = (if state = DISC_TO_EREV \<or> state = CONVERGENCE_PROACTIVE then state - 1 else state)"
  let ?s2 = "upd_nbr p (\<lambda>n. n\<lparr>nb_state := st\<rparr>) s1"
  show ?thesis
  proof (cases "my_state s1 = IDLE")
    case True
    then show ?thesis using assms 1 gtsp_recv_table [OF 1] by (simp add: known_neighbour_def)
  next
    case False
    then obtain s3 where 3: "(if (my_state ?s2 < CONSENSUS_SYNCHRONIZATION \<and> st = my_state ?s2) \<or> my_state ?s2 = DISCOVERY
        then gtsp_update_rtimer e (nbr_list e ?s2) ?s2 else Ok ?s2) = Ok s3"
      and r: "r = Some p" and s': "s' = (if my_state s3 < CONNECTION_DECLARATION
                                 then upd_nbr p (\<lambda>n. n\<lparr>nb_degree := degree\<rparr>) s3 else s3)"
      using assms 1 unfolding known_neighbour_def st_def [symmetric] Let_def by (auto simp: res_iff)
    have "same_table ?s2 s3" using 3 gtsp_update_rtimer_table by (auto split: if_splits)
    moreover have "same_table s1 ?s2" by (rule same_table_upd_nbr) simp
    moreover have "same_table s3 s'" unfolding s' using same_table_upd_nbr [of "\<lambda>n. n\<lparr>nb_degree := degree\<rparr>" s3 p] by simp
    ultimately show ?thesis using r same_table_trans gtsp_recv_table [OF 1] by blast
  qed
qed

section \<open>The neighbour table\<close>

text \<open>
  The two lists share the pool: exactly their blocks are in use, no address occurs twice, the list that
  counts holds exactly the neighbours that the topology lets through, and the degree is its length.
\<close>

definition table_inv :: "'e cenv_scheme \<Rightarrow> node \<Rightarrow> bool" where
  "table_inv e s \<longleftrightarrow>
     memb_ok (neighbour_memb s) \<and> mnum (neighbour_memb s) = MAX_DEGREE \<and>
     distinct (mod_neighbour_list s @ neighbour_list s) \<and>
     set (mod_neighbour_list s @ neighbour_list s) = memb_used (neighbour_memb s) \<and>
     inj_on (\<lambda>p. nb_addr (nbr s p)) (memb_used (neighbour_memb s)) \<and>
     (if MOD_NEIGHBOURS e
      then (\<forall>p \<in> set (mod_neighbour_list s). check_mod_neighbours e (my_addr s) (nb_addr (nbr s p))) \<and>
           (\<forall>p \<in> set (neighbour_list s). \<not> check_mod_neighbours e (my_addr s) (nb_addr (nbr s p)))
      else mod_neighbour_list s = []) \<and>
     unat (my_degree s) = length (nbr_list e s)"

lemma same_table_inv:
  assumes "same_table s s'" and "table_inv e s"
  shows "table_inv e s'"
proof -
  from assms(1) obtain r m where s': "s' = s\<lparr>rts := r, neighbour_memb := m\<rparr>" and c: "mcount m = mcount (neighbour_memb s)"
    and l: "length (mmem m) = length (mmem (neighbour_memb s))" and a: "\<forall>q. nb_addr (mmem m ! q) = nb_addr (nbr s q)"
    unfolding same_table_def by blast
  have "memb_used m = memb_used (neighbour_memb s)" "memb_ok m = memb_ok (neighbour_memb s)"
    using c l by (simp_all add: memb_used_def memb_ok_def)
  moreover have "(\<lambda>p. nb_addr (nbr s' p)) = (\<lambda>p. nb_addr (nbr s p))" using s' a by (simp add: nbr_def)
  moreover have "nbr_list e s' = nbr_list e s" using s' by (simp add: nbr_list_def)
  ultimately show ?thesis using assms(2) s' c a unfolding table_inv_def nbr_def by simp
qed

lemma same_table_lists:
  "same_table s s' \<Longrightarrow> nbr_list e s' = nbr_list e s \<and> nb_addr (nbr s' p) = nb_addr (nbr s p) \<and>
     neighbour_list s' = neighbour_list s \<and> mod_neighbour_list s' = mod_neighbour_list s \<and> my_addr s' = my_addr s \<and>
     my_degree s' = my_degree s"
  unfolding same_table_def by (auto simp: nbr_list_def nbr_def)

text \<open>The table with a new block that no list links yet.\<close>

definition table_but :: "'e cenv_scheme \<Rightarrow> ptr \<Rightarrow> u16 \<Rightarrow> node \<Rightarrow> bool" where
  "table_but e p addr s \<longleftrightarrow>
     memb_ok (neighbour_memb s) \<and> mnum (neighbour_memb s) = MAX_DEGREE \<and>
     distinct (mod_neighbour_list s @ neighbour_list s) \<and> p \<notin> set (mod_neighbour_list s @ neighbour_list s) \<and>
     insert p (set (mod_neighbour_list s @ neighbour_list s)) = memb_used (neighbour_memb s) \<and>
     inj_on (\<lambda>p. nb_addr (nbr s p)) (memb_used (neighbour_memb s)) \<and> nb_addr (nbr s p) = addr \<and>
     (if MOD_NEIGHBOURS e
      then (\<forall>p \<in> set (mod_neighbour_list s). check_mod_neighbours e (my_addr s) (nb_addr (nbr s p))) \<and>
           (\<forall>p \<in> set (neighbour_list s). \<not> check_mod_neighbours e (my_addr s) (nb_addr (nbr s p)))
      else mod_neighbour_list s = []) \<and>
     unat (my_degree s) = length (nbr_list e s)"

lemma alloc_table_but:
  assumes inv: "table_inv e s" and a: "memb_alloc (neighbour_memb s) = (Some p, m)"
    and new: "\<forall>q \<in> set (mod_neighbour_list s @ neighbour_list s). nb_addr (nbr s q) \<noteq> addr"
    and f: "\<And>n. nb_addr (f n) = addr"
  shows "table_but e p addr (upd_nbr p f (s\<lparr>neighbour_memb := m\<rparr>))"
proof -
  let ?s = "upd_nbr p f (s\<lparr>neighbour_memb := m\<rparr>)"
  have ok: "memb_ok (neighbour_memb s)" using inv by (simp add: table_inv_def)
  note al = mb.alloc_Some [OF ok a] and mem = memb_alloc_Some [OF a]
  have lists: "mod_neighbour_list ?s = mod_neighbour_list s" "neighbour_list ?s = neighbour_list s"
    "my_addr ?s = my_addr s" "my_degree ?s = my_degree s" by simp_all
  have used: "memb_used (neighbour_memb ?s) = insert p (memb_used (neighbour_memb s))"
    using al by (simp add: upd_nbr_def)
  have fresh: "p \<notin> set (mod_neighbour_list s @ neighbour_list s)" using al inv by (auto simp: table_inv_def)
  have p: "p < length (mmem m)" using al mem by (simp add: memb_ok_def)
  have nb: "nbr ?s q = (if q = p then f (nbr (s\<lparr>neighbour_memb := m\<rparr>) p) else nbr s q)" for q
    using nbr_upd_nbr [of p f "s\<lparr>neighbour_memb := m\<rparr>" q] p mem by (simp add: nbr_def)
  have at_p: "nb_addr (nbr ?s p) = addr" by (simp add: nb f)
  have eq: "nbr ?s q = nbr s q" if "q \<in> set (mod_neighbour_list s @ neighbour_list s)" for q
    using that fresh nb by auto
  have eqs: "\<forall>q \<in> set (mod_neighbour_list s). nbr ?s q = nbr s q" "\<forall>q \<in> set (neighbour_list s). nbr ?s q = nbr s q"
    using eq by auto
  have set: "set (mod_neighbour_list s @ neighbour_list s) = memb_used (neighbour_memb s)"
    and inj: "inj_on (\<lambda>p. nb_addr (nbr s p)) (memb_used (neighbour_memb s))"
    using inv by (simp_all add: table_inv_def)
  have "inj_on (\<lambda>p. nb_addr (nbr ?s p)) (insert p (memb_used (neighbour_memb s)))"
  proof (rule inj_onI)
    fix x y
    assume "x \<in> insert p (memb_used (neighbour_memb s))" "y \<in> insert p (memb_used (neighbour_memb s))"
      "nb_addr (nbr ?s x) = nb_addr (nbr ?s y)"
    then show "x = y" using inj at_p eq new unfolding set [symmetric] inj_on_def by (metis insertE)
  qed
  moreover have "if MOD_NEIGHBOURS e
      then (\<forall>p \<in> set (mod_neighbour_list s). check_mod_neighbours e (my_addr s) (nb_addr (nbr ?s p))) \<and>
           (\<forall>p \<in> set (neighbour_list s). \<not> check_mod_neighbours e (my_addr s) (nb_addr (nbr ?s p)))
      else mod_neighbour_list s = []"
    using inv eqs by (simp add: table_inv_def)
  moreover have "memb_ok (neighbour_memb ?s)" "mnum (neighbour_memb ?s) = mnum (neighbour_memb s)"
    using al mem by (simp_all add: upd_nbr_def set_block_ok)
  ultimately show ?thesis
    using inv fresh at_p used set unfolding table_but_def table_inv_def lists nbr_list_def by simp
qed

text \<open>The new block enters the list that the topology chooses.\<close>

lemma table_but_counted:
  assumes t: "table_but e p addr s" and c: "MOD_NEIGHBOURS e \<longrightarrow> check_mod_neighbours e (my_addr s) addr"
    and s': "s' = (if MOD_NEIGHBOURS e then s\<lparr>my_degree := my_degree s + 1, mod_neighbour_list := seq_add p (mod_neighbour_list s)\<rparr>
       else s\<lparr>my_degree := my_degree s + 1, neighbour_list := seq_add p (neighbour_list s)\<rparr>)"
  shows "table_inv e s' \<and> p \<in> set (nbr_list e s') \<and> nb_addr (nbr s' p) = addr"
proof -
  have "length (nbr_list e s) \<le> length (mod_neighbour_list s @ neighbour_list s)" by (simp add: nbr_list_def)
  also have "\<dots> = card (set (mod_neighbour_list s @ neighbour_list s))"
    using t distinct_card [of "mod_neighbour_list s @ neighbour_list s"] unfolding table_but_def by metis
  also have "\<dots> \<le> card (memb_used (neighbour_memb s))"
    using t card_mono [OF finite_memb_used, of "set (mod_neighbour_list s @ neighbour_list s)" "neighbour_memb s"]
    unfolding table_but_def by blast
  also have "\<dots> \<le> MAX_DEGREE" using t card_mono [OF _ memb_used_bound, of "neighbour_memb s"]
    unfolding table_but_def by simp
  finally have "unat (my_degree s) \<le> MAX_DEGREE" using t by (simp add: table_but_def)
  then have deg: "unat (my_degree s + 1) = unat (my_degree s) + 1" by (simp add: unat_word_ariths)
  have nb: "nbr s' = nbr s" using s' by (auto simp: nbr_def fun_eq_iff)
  have p: "p \<notin> set (mod_neighbour_list s)" "p \<notin> set (neighbour_list s)" using t by (auto simp: table_but_def)
  show ?thesis
    using t c deg p unfolding table_inv_def table_but_def nb unfolding s'
    by (auto simp: seq_add_def nbr_list_def)
qed

lemma table_but_other:
  assumes t: "table_but e p addr s" and c: "MOD_NEIGHBOURS e" "\<not> check_mod_neighbours e (my_addr s) addr"
    and s': "s' = s\<lparr>neighbour_list := seq_add p (neighbour_list s)\<rparr>"
  shows "table_inv e s'"
proof -
  have nb: "nbr s' = nbr s" using s' by (auto simp: nbr_def fun_eq_iff)
  have p: "p \<notin> set (mod_neighbour_list s)" "p \<notin> set (neighbour_list s)" using t by (auto simp: table_but_def)
  show ?thesis
    using t c p unfolding table_inv_def table_but_def nb unfolding s'
    by (auto simp: seq_add_def nbr_list_def)
qed

lemma table_but_same:
  assumes "same_table s s'" and "table_but e p addr s"
  shows "table_but e p addr s'"
proof -
  from assms(1) obtain r m where s': "s' = s\<lparr>rts := r, neighbour_memb := m\<rparr>" and c: "mcount m = mcount (neighbour_memb s)"
    and l: "length (mmem m) = length (mmem (neighbour_memb s))" and a: "\<forall>q. nb_addr (mmem m ! q) = nb_addr (nbr s q)"
    unfolding same_table_def by blast
  have "memb_used m = memb_used (neighbour_memb s)" "memb_ok m = memb_ok (neighbour_memb s)"
    using c l by (simp_all add: memb_used_def memb_ok_def)
  moreover have "(\<lambda>p. nb_addr (nbr s' p)) = (\<lambda>p. nb_addr (nbr s p))" using s' a by (simp add: nbr_def)
  moreover have "nbr_list e s' = nbr_list e s" using s' by (simp add: nbr_list_def)
  ultimately show ?thesis using assms(2) s' c a unfolding table_but_def nbr_def by simp
qed

lemma fill_neighbour_addr [simp]: "nb_addr (fill_neighbour addr st d ms n) = addr"
  by (simp add: fill_neighbour_def Let_def)

lemma table_inv_anns [simp]: "table_inv e (upd_anns f s) = table_inv e s"
  by (simp add: table_inv_def upd_anns_def nbr_def nbr_list_def)

lemma nbr_anns [simp]: "nbr (upd_anns f s) p = nbr s p" "nbr_list e (upd_anns f s) = nbr_list e s"
  by (simp_all add: upd_anns_def nbr_def nbr_list_def)

text \<open>What the result of the function says about the table.\<close>

definition table_result :: "'e cenv_scheme \<Rightarrow> u16 \<Rightarrow> ptr option \<Rightarrow> node \<Rightarrow> bool" where
  "table_result e addr r s \<longleftrightarrow>
     (case r of None \<Rightarrow> True | Some p \<Rightarrow> p \<in> set (nbr_list e s) \<and> nb_addr (nbr s p) = addr)"

lemma new_neighbour_inv:
  assumes inv: "table_inv e s" and r: "new_neighbour e addr state degree sf s = Ok (r, s')"
    and new: "\<forall>q \<in> set (mod_neighbour_list s @ neighbour_list s). nb_addr (nbr s q) \<noteq> addr"
  shows "table_inv e s' \<and> table_result e addr r s'"
proof (cases "memb_alloc (neighbour_memb s)")
  case (Pair o1 m)
  show ?thesis
  proof (cases o1)
    case None
    then have "m = neighbour_memb s" using Pair memb_alloc_None by blast
    then show ?thesis using None Pair r inv by (simp add: new_neighbour_def table_result_def)
  next
    case (Some p)
    let ?s1 = "upd_nbr p (fill_neighbour addr state degree (my_state s)) (s\<lparr>neighbour_memb := m\<rparr>)"
    obtain s2 where 2: "gtsp_recv e p sf True ?s1 = Ok s2"
      using r Pair Some by (auto simp: new_neighbour_def Let_def res_iff)
    have "table_but e p addr ?s1" using inv Pair Some new by (intro alloc_table_but) simp_all
    then have b: "table_but e p addr s2" using table_but_same [OF gtsp_recv_table [OF 2]] by blast
    show ?thesis
    proof (cases "MOD_NEIGHBOURS e \<and> \<not> check_mod_neighbours e (my_addr s2) addr")
      case True
      then have "r = None \<and> s' = s2\<lparr>neighbour_list := seq_add p (neighbour_list s2)\<rparr>"
        using r Pair Some 2 by (simp add: new_neighbour_def Let_def)
      then show ?thesis using table_but_other [OF b, of s'] True by (simp add: table_result_def)
    next
      case False
      let ?s4 = "if MOD_NEIGHBOURS e
        then s2\<lparr>my_degree := my_degree s2 + 1, mod_neighbour_list := seq_add p (mod_neighbour_list s2)\<rparr>
        else s2\<lparr>my_degree := my_degree s2 + 1, neighbour_list := seq_add p (neighbour_list s2)\<rparr>"
      have "r = Some p \<and> s' = upd_anns (announcement_set_degree discovery_announcement (my_degree ?s4)) ?s4"
        using r Pair Some 2 False by (simp add: new_neighbour_def Let_def split: if_splits)
      then show ?thesis using table_but_counted [OF b _ refl] False by (simp add: table_result_def del: if_split)
    qed
  qed
qed

lemma find_Some_mem: "List.find P xs = Some x \<Longrightarrow> x \<in> set xs \<and> P x"
  by (induction xs) (auto split: if_splits)

lemma add_to_neighbour_inv:
  assumes inv: "table_inv e s" and r: "add_to_neighbour e addr state degree sf s = Ok (r, s')"
  shows "table_inv e s' \<and> table_result e addr r s'"
proof -
  have known: "table_inv e s' \<and> table_result e addr r s'"
    if "p \<in> set (nbr_list e s)" "nb_addr (nbr s p) = addr" "known_neighbour e p state degree sf s = Ok (r, s')" for p
  proof -
    from known_neighbour_table [OF that(3)] have "r = Some p" "same_table s s'" by simp_all
    with same_table_inv [OF _ inv] same_table_lists [of s s' e p] that(1,2) show ?thesis by (simp add: table_result_def)
  qed
  show ?thesis
  proof (cases "MOD_NEIGHBOURS e")
    case False
    then have [simp]: "mod_neighbour_list s = []" "nbr_list e s = neighbour_list s"
      using inv by (simp_all add: table_inv_def nbr_list_def)
    show ?thesis
    proof (cases "List.find (\<lambda>p. nb_addr (nbr s p) = addr) (neighbour_list s)")
      case None
      then have "new_neighbour e addr state degree sf s = Ok (r, s')" using r False by (simp add: add_to_neighbour_def)
      then show ?thesis using new_neighbour_inv [OF inv] None by (auto simp: find_None_iff)
    next
      case (Some p)
      then show ?thesis using r False known [of p] find_Some_mem [OF Some] by (simp add: add_to_neighbour_def)
    qed
  next
    case True
    let ?f = "List.find (\<lambda>p. nb_addr (nbr s p) = addr \<and> check_mod_neighbours e (my_addr s) (nb_addr (nbr s p)))
               (mod_neighbour_list s)"
    show ?thesis
    proof (cases ?f)
      case (Some p)
      then show ?thesis using r True known [of p] find_Some_mem [OF Some] by (simp add: add_to_neighbour_def nbr_list_def)
    next
      case no: None
      then have mods: "\<forall>q \<in> set (mod_neighbour_list s). nb_addr (nbr s q) \<noteq> addr"
        using inv True by (auto simp: find_None_iff table_inv_def)
      show ?thesis
      proof (cases "List.find (\<lambda>p. nb_addr (nbr s p) = addr) (neighbour_list s)")
        case None
        then have "new_neighbour e addr state degree sf s = Ok (r, s')"
          using r True no by (simp add: add_to_neighbour_def)
        moreover have "\<forall>q \<in> set (mod_neighbour_list s @ neighbour_list s). nb_addr (nbr s q) \<noteq> addr"
          using None mods by (auto simp: find_None_iff)
        ultimately show ?thesis by (rule new_neighbour_inv [OF inv])
      next
        case (Some p)
        then obtain s1 where "gtsp_recv e p sf False s = Ok s1" "r = None" "s' = s1"
          using r True no by (auto simp: add_to_neighbour_def res_iff)
        then show ?thesis using same_table_inv [OF gtsp_recv_table inv] by (simp add: table_result_def)
      qed
    qed
  qed
qed

text \<open>
  C26: The neighbour table stays consistent. Whatever frame arrives, after \<open>add_to_neighbour\<close> the
  blocks in use are exactly those of the two lists, no address is stored twice, the list that counts
  holds exactly the neighbours that the topology allows, and the degree of the node is its length. A
  neighbour that is returned is in that list and has the address of the sender.
\<close>

theorem add_to_neighbour_keeps_table:
  assumes "table_inv e s" and "add_to_neighbour e addr state degree sf s = Ok (r, s')"
  shows "table_inv e s' \<and> (\<forall>p. r = Some p \<longrightarrow> p \<in> set (nbr_list e s') \<and> nb_addr (nbr s' p) = addr)"
  using add_to_neighbour_inv [OF assms] by (cases r) (simp_all add: table_result_def)

text \<open>Node 69 of the third topology hears node 75 for the first time.\<close>

definition demo_cenv :: cenv where
  "demo_cenv = netenv.extend demo_netenv (cenv.fields True 3 False False False)"

definition demo_table :: node where
  "demo_table = demo_node\<lparr>my_degree := 2, mod_neighbour_list := [0, 1], neighbour_list := [2]\<rparr>"

lemma demo_table_inv: "table_inv demo_cenv demo_table"
proof -
  have used: "memb_used (neighbour_memb demo_table) = {0, 1, 2}"
  proof -
    define cs where "cs = [1, 1, 1] @ replicate 61 (0 :: u8)"
    have "cs ! i = (if i < 3 then 1 else 0)" if "i < 64" for i
      using that by (auto simp: cs_def nth_append nth_Cons' less_Suc_eq numeral_3_eq_3)
    moreover have "length cs = 64" by (simp add: cs_def)
    moreover have "mcount (neighbour_memb demo_table) = cs"
      by (simp add: demo_table_def demo_node_def node.defs dev.defs cs_def)
    ultimately have "memb_used (neighbour_memb demo_table) = {i. i < 3}" by (auto simp: memb_used_def split: if_splits)
    moreover have "{i :: nat. i < 3} = {0, 1, 2}" by (auto simp: less_Suc_eq numeral_3_eq_3)
    ultimately show ?thesis by (simp only:)
  qed
  show ?thesis unfolding table_inv_def used
    by (simp add: demo_table_def demo_node_def node.defs dev.defs memb_ok_def demo_cenv_def netenv.defs cenv.defs
        nbr_def nbr_list_def demo_neighbour_def neighbour_zero_def check_mod_neighbours_def topology_def topology_3_def)
qed

theorem add_to_neighbour_keeps_table_witness:
  "case add_to_neighbour demo_cenv 75 0 3 demo_sf demo_table of
     Ok (r, s') \<Rightarrow> r = Some 3 \<and> table_inv demo_cenv s' | Fault _ \<Rightarrow> False"
proof -
  have "case add_to_neighbour demo_cenv 75 0 3 demo_sf demo_table of Ok (r, s') \<Rightarrow> r = Some 3 | Fault _ \<Rightarrow> False"
    by code_simp
  then obtain s' where "add_to_neighbour demo_cenv 75 0 3 demo_sf demo_table = Ok (Some 3, s')"
    by (auto split: res.splits)
  with add_to_neighbour_keeps_table [OF demo_table_inv this] show ?thesis by simp
qed

section \<open>The reset\<close>

lemma topology_irreflexive: "list_all (\<lambda>(a, ns). a \<notin> set ns) (topology mt)"
  by (simp add: topology_def topology_1a_def topology_1b_def topology_1c_def topology_2_def topology_3_def)

lemma check_mod_neighbours_irreflexive: "\<not> check_mod_neighbours e a a"
proof -
  have "a \<notin> set ns" if "map_of (topology (MOD_TYPE e)) a = Some ns" for ns
    using map_of_SomeD [OF that] topology_irreflexive [of "MOD_TYPE e"] by (auto simp: list_all_iff)
  then show ?thesis by (auto simp: check_mod_neighbours_def split: option.splits)
qed

lemma memb_init_mnum: "mnum (memb_init z m) = mnum m"
  by (simp add: memb_init_def)

text \<open>
  The reset establishes the invariant of the neighbour table, with degree 0: no topology lists a
  node as its own neighbour. The node starts as a cluster head in DISCOVERY with no heads and no bridges.
\<close>

lemma reset_establishes_table:
  assumes "mnum (neighbour_memb s) = MAX_DEGREE" and "MOD_NEIGHBOURS e \<or> mod_neighbour_list s = []"
  shows "table_inv e (reset_c_gtsp e s) \<and> my_degree (reset_c_gtsp e s) = 0 \<and>
     my_state (reset_c_gtsp e s) = DISCOVERY \<and> my_role (reset_c_gtsp e s) = CH \<and>
     CHs_list (reset_c_gtsp e s) = [] \<and> memb_used (CHs_memb (reset_c_gtsp e s)) = {} \<and>
     CBs_list (reset_c_gtsp e s) = [] \<and> memb_used (CBs_memb (reset_c_gtsp e s)) = {}"
  using assms
  by (auto simp: reset_c_gtsp_def Let_def upd_rts_def upd_anns_def table_inv_def nbr_list_def
      check_mod_neighbours_irreflexive memb_init_used memb_init_ok memb_init_mnum)

lemma reset_establishes_table_example:
  "mnum (neighbour_memb demo_node) = MAX_DEGREE \<and> my_degree demo_node = 5 \<and> my_degree (reset_c_gtsp demo_cenv demo_node) = 0"
proof -
  have "mnum (neighbour_memb demo_node) = MAX_DEGREE" "my_degree demo_node = 5" "MOD_NEIGHBOURS demo_cenv"
    by (simp_all add: demo_node_def node.defs dev.defs demo_cenv_def netenv.defs cenv.defs)
  then show ?thesis using reset_establishes_table [of demo_node demo_cenv] by simp
qed

section \<open>Placing\<close>

text \<open>What one neighbour adds to the placing of the node.\<close>

definition lead :: "u8 \<Rightarrow> u16 \<Rightarrow> neighbour \<Rightarrow> nat" where
  "lead my_deg my_ad n =
     (if nb_degree n > my_deg then unat (nb_degree n) - unat my_deg
      else if nb_degree n = my_deg \<and> nb_addr n > my_ad then 1 else 0)"

lemma placing_step_lead:
  "placing_step my_deg my_ad (nb_degree n) (nb_addr n) placing = placing + of_nat (lead my_deg my_ad n)"
proof (cases "nb_degree n > my_deg")
  case True
  then have "unat my_deg \<le> unat (nb_degree n)" by (simp add: word_less_nat_alt)
  then show ?thesis using True by (simp add: placing_step_def lead_def of_nat_diff)
qed (simp add: placing_step_def lead_def)

lemma placing_fold:
  "fold (\<lambda>p. placing_step d a (nb_degree (f p)) (nb_addr (f p))) ps x = x + of_nat (sum_list (map (\<lambda>p. lead d a (f p)) ps))"
  by (induction ps arbitrary: x) (simp_all add: placing_step_lead add.assoc)

lemma lead_zero_iff: "lead (my_degree s) (my_addr s) n = 0 \<longleftrightarrow> \<not> outranks n s"
  by (auto simp: lead_def outranks_def word_less_nat_alt)

text \<open>
  The placing decides who speaks first. It is the number of ranks by which the neighbours precede
  the node, modulo 256; as long as that number is below 256, it is zero exactly for a node that no
  neighbour outranks, that is for the node that will be elected.
\<close>

lemma placing_zero_iff_first:
  assumes "sum_list (map (\<lambda>p. lead (my_degree s) (my_addr s) (nbr s p)) (nbr_list e s)) < 256"
  shows "unat (my_placing (csync_update_placing e s)) =
       sum_list (map (\<lambda>p. lead (my_degree s) (my_addr s) (nbr s p)) (nbr_list e s)) \<and>
     (my_placing (csync_update_placing e s) = 0 \<longleftrightarrow> (\<forall>p \<in> set (nbr_list e s). \<not> outranks (nbr s p) s))"
proof -
  let ?sum = "sum_list (map (\<lambda>p. lead (my_degree s) (my_addr s) (nbr s p)) (nbr_list e s))"
  have p: "my_placing (csync_update_placing e s) = of_nat ?sum"
    using placing_fold [of "my_degree s" "my_addr s" "nbr s" "nbr_list e s" 0] by (simp add: csync_update_placing_def)
  have u: "unat (my_placing (csync_update_placing e s)) = ?sum"
    unfolding p using assms by (simp add: unat_of_nat)
  have "?sum = 0 \<longleftrightarrow> (\<forall>p \<in> set (nbr_list e s). lead (my_degree s) (my_addr s) (nbr s p) = 0)"
    by (auto simp: sum_list_eq_0_iff)
  with u show ?thesis by (metis lead_zero_iff unat_eq_zero)
qed

lemma placing_zero_iff_first_example:
  "unat (my_placing (csync_update_placing demo_cenv demo_table)) = 10 \<and>
   (my_placing (csync_update_placing demo_cenv demo_table) = 0 \<longleftrightarrow>
      (\<forall>p \<in> set (nbr_list demo_cenv demo_table). \<not> outranks (nbr demo_table p) demo_table))"
proof -
  have "nbr_list demo_cenv demo_table = [0, 1]" "my_degree demo_table = 2" "my_addr demo_table = 69"
    "nbr demo_table 0 = demo_neighbour 70 5" "nbr demo_table (Suc 0) = demo_neighbour 71 9"
    by (simp_all add: nbr_list_def demo_cenv_def netenv.defs cenv.defs demo_table_def demo_node_def node.defs dev.defs nbr_def)
  then have "sum_list (map (\<lambda>p. lead (my_degree demo_table) (my_addr demo_table) (nbr demo_table p)) (nbr_list demo_cenv demo_table)) = 10"
    by (simp add: lead_def demo_neighbour_def)
  with placing_zero_iff_first [of demo_table demo_cenv] show ?thesis by simp
qed

section \<open>Frames that do not count\<close>

text \<open>
  The signal threshold. A handler looks at a frame only when its signal strength, as a signed
  number, is between -80 and -1 dBm: the comparison with the negative threshold is made on unsigned
  values, so a strength of 0 or more is rejected.
\<close>

lemma rssi_range: "rssi_ok r \<longleftrightarrow> - 80 \<le> sint r \<and> sint r < 0"
proof -
  have u: "uint (- 80 :: u16) = 65456" by simp
  have b: "0 \<le> uint r" "uint r < 65536" using uint_lt2p [of r] by simp_all
  have s: "sint r = (if uint r < 32768 then uint r else uint r - 65536)"
  proof (cases "uint r < 32768")
    case True
    have "- 32768 \<le> uint r" using b by linarith
    with True have "signed_take_bit 15 (uint r) = uint r" by (intro signed_take_bit_int_eq_self) simp_all
    then have "sint (word_of_int (uint r) :: u16) = uint r" unfolding signed_of_int by simp
    then show ?thesis using True by simp
  next
    case False
    have "signed_take_bit 15 (uint r - 65536) = uint r - 65536"
      using False b by (intro signed_take_bit_int_eq_self) auto
    then have "sint (word_of_int (uint r - 65536) :: u16) = uint r - 65536" unfolding signed_of_int by simp
    moreover have "(65536 :: u16) = 0" by (simp add: word_uint_eq_iff)
    then have "word_of_int (uint r - 65536) = r" by simp
    ultimately show ?thesis using False by (simp only: if_False)
  qed
  show ?thesis unfolding rssi_ok_def word_le_def u s using b by auto
qed

end
