(* ===== verification/Received_Sync.thy ===== *)
theory Received_Sync
  imports Received
begin

text \<open>
  The handlers of CONVERGENCE and SYNCHRONIZATION announcements
  (\<^verbatim>\<open>src/core/net/c-sync/received_convergence_announcement.c\<close> and
  \<^verbatim>\<open>received_synchronization_announcement.c\<close>), and the dispatch of a received frame to the five
  handlers.
\<close>

section \<open>CONVERGENCE announcements\<close>

text \<open>The role of the sender: what the two lists say, the list of bridges last.\<close>

definition mark_sender :: "'e cenv_scheme \<Rightarrow> ptr \<Rightarrow> role_t \<Rightarrow> (node \<Rightarrow> ptr \<Rightarrow> chb) \<Rightarrow> ptr list \<Rightarrow> role_t \<times> node \<Rightarrow> role_t \<times> node" where
  "mark_sender e p role entry ps rs =
     fold (\<lambda>q (r, s). if ch_addr (entry s q) = nb_addr (nbr s p)
                      then (role, update_neighbour_role e (nb_addr (nbr s p)) role
                                    (upd_nbr p (\<lambda>n. n\<lparr>nb_role := role\<rparr>) s))
                      else (r, s)) ps rs"

definition sender_role :: "'e cenv_scheme \<Rightarrow> ptr \<Rightarrow> node \<Rightarrow> role_t \<times> node" where
  "sender_role e p s =
     (let (r1, s1) = mark_sender e p CH the_CH (CHs_list s) (CM, s)
      in mark_sender e p CB the_CB (CBs_list s1) (r1, s1))"

text \<open>A bridge acknowledges the slot of a head once.\<close>

fun ack_loop :: "'e cenv_scheme \<Rightarrow> ptr \<Rightarrow> ptr \<Rightarrow> announcement_value \<Rightarrow> ptr list \<Rightarrow> node \<Rightarrow> node res" where
  "ack_loop e a p av [] s = Ok s"
| "ack_loop e a p av (q # qs) s =
     bindR (if ch_addr (the_CH s q) = nb_addr (nbr s p) \<and> ch_cons_slot (the_CH s q) = 0 \<and>
               my_cons_slot s = av_degree av \<and> my_slot_ack s = 0
            then announcement_bump e a
                   (upd_anns (\<lambda>an. announcement_set_ref_addr a (nb_addr (nbr s p))
                        (announcement_set_degree a (av_degree av) (announcement_set_instr a (av_instr av) an)))
                     (upd_CH q (\<lambda>c. c\<lparr>ch_cons_slot := av_degree av\<rparr>) (s\<lparr>my_slot_ack := 1\<rparr>)))
            else Ok s)
       (ack_loop e a p av qs)"

text \<open>A head notes the slot of the head that the bridge names.\<close>

definition note_slot :: "u16 \<Rightarrow> u8 \<Rightarrow> node \<Rightarrow> node" where
  "note_slot addr slot s =
     fold (\<lambda>p s. if ch_addr (the_CH s p) = addr then upd_CH p (\<lambda>c. c\<lparr>ch_cons_slot := slot\<rparr>) s else s)
       (CHs_list s) s"

definition convergence_in_convergence :: "'e cenv_scheme \<Rightarrow> ptr \<Rightarrow> ptr \<Rightarrow> announcement_value \<Rightarrow> node \<Rightarrow> node res" where
  "convergence_in_convergence e a p av s =
     (if av_instr av = my_state s \<or> av_instr av = CONVERGENCE_PROACTIVE then
        case sender_role e p s of (role_sender, s1) \<Rightarrow>
        if role_sender = CM then
          Ok (if my_role s1 = CH \<and> CBs_list s1 = [] then snd (handle_lists av p s1) else s1)
        else if my_role s1 = CB then ack_loop e a p av (CHs_list s1) s1
        else if my_role s1 = CH then
          if av_ref_addr av = my_addr s1
          then Ok (s1\<lparr>my_cons_slot := av_degree av, my_slot_ack := 1\<rparr>)
          else Ok (note_slot (av_ref_addr av) (av_degree av) (polite_announcement_cancel s1))
        else Ok s1
      else Ok s)"

text \<open>A cluster head that hears of the convergence too late becomes a common node.\<close>

definition give_up_head :: "ptr \<Rightarrow> announcement_value \<Rightarrow> node \<Rightarrow> node" where
  "give_up_head p av s =
     (if my_role s = CH then snd (handle_lists av p (s\<lparr>my_role := CM, CBs_list := []\<rparr>)) else s)"

definition convergence_switch :: "'e cenv_scheme \<Rightarrow> ptr \<Rightarrow> ptr \<Rightarrow> announcement_value \<Rightarrow> node \<Rightarrow> node res" where
  "convergence_switch e a p av s =
     (if my_state s = CONNECTION_DECLARATION then
        if av_instr av = CONSENSUS_CONVERGENCE
        then adopt_date e av cb_consensus_revelation (\<lambda>s1. Ok (enter_convergence (give_up_head p av s1)))
               (polite_announcement_cancel s)
        else Ok s
      else if my_state s = CONSENSUS_CONVERGENCE then convergence_in_convergence e a p av s
      else if my_state s = CONSENSUS_SYNCHRONIZATION then
        if av_instr av = CONSENSUS_CONVERGENCE
        then adopt_date e av cb_consensus_revelation
               (\<lambda>s1. Ok (enter_discovery e (give_up_head p av (s1\<lparr>ref_n_CHB_degree := NUM_CONS_SLOTS + 3\<rparr>))))
               ((polite_announcement_cancel s)\<lparr>my_sync_border := False\<rparr>)
        else Ok s
      else Ok s)"

definition received_convergence_announcement ::
  "'e cenv_scheme \<Rightarrow> ptr \<Rightarrow> u16 \<Rightarrow> announcement_value \<Rightarrow> timesync_frame_t \<Rightarrow> node \<Rightarrow> node res" where
  "received_convergence_announcement e a from av sf s =
     (if rssi_ok (packetbuf_attr ATTR_RSSI (pb s))
      then with_synced_neighbour e from av sf (\<lambda>p. convergence_switch e a p av) s else Ok s)"

section \<open>SYNCHRONIZATION announcements\<close>

definition blacklisted :: "u16 \<Rightarrow> node \<Rightarrow> bool" where
  "blacklisted addr s \<longleftrightarrow> list_ex (\<lambda>q. mmem (bl_memb s) ! q = addr) (blacklist s)"

text \<open>The announcement is passed on: dates and reference, with or without the slot.\<close>

definition relay_dates :: "announcement_value \<Rightarrow> node \<Rightarrow> node" where
  "relay_dates av = upd_anns (\<lambda>an.
     announcement_set_ref_addr synchronization_announcement (av_ref_addr av)
       (announcement_set_date_fine synchronization_announcement (av_date_fine av)
         (announcement_set_date_coarse synchronization_announcement (av_date_coarse av) an)))"

definition relay_all :: "announcement_value \<Rightarrow> node \<Rightarrow> node" where
  "relay_all av s = relay_dates av (upd_anns (announcement_set_degree synchronization_announcement (av_degree av)) s)"

text \<open>The neighbour is put on the blacklist and the Byzantine consensus is started.\<close>

definition blacklist_neighbour :: "ptr \<Rightarrow> node \<Rightarrow> node res" where
  "blacklist_neighbour p s = (case memb_alloc (bl_memb s) of
       (None, _) \<Rightarrow> Fault NullDeref
     | (Some q, m) \<Rightarrow>
         Ok (enter_byzantine_consensus
              (s\<lparr>bl_memb := set_block q (\<lambda>_. nb_addr (nbr s p)) m, blacklist := seq_push q (blacklist s),
                 my_sync_border := True\<rparr>)))"

definition too_far :: "neighbour \<Rightarrow> bool" where
  "too_far n \<longleftrightarrow> sint (fine_diff n) > BYZANTINE_FINE_DIFF \<or> sint (coarse_diff n) > BYZANTINE_COARSE_DIFF"

definition close_enough :: "neighbour \<Rightarrow> bool" where
  "close_enough n \<longleftrightarrow> sint (fine_diff n) < BYZANTINE_FINE_DIFF \<and> sint (coarse_diff n) < BYZANTINE_COARSE_DIFF"

definition sync_as_bridge :: "'e cenv_scheme \<Rightarrow> ptr \<Rightarrow> announcement_value \<Rightarrow> node \<Rightarrow> node res" where
  "sync_as_bridge e p av s =
     (if my_cons_slot s > this_sync_slot s then
        if close_enough (nbr s p)
        then bindR (csync_trusted_synchronization e p (av_ref_addr av) (av_cons_rate av) s)
               (\<lambda>s1. Ok (relay_all av (s1\<lparr>my_sync_border := True\<rparr>)))
        else blacklist_neighbour p s
      else if my_cons_slot s = this_sync_slot s then
        if too_far (nbr s p) then blacklist_neighbour p s
        else Ok (relay_all av ((polite_announcement_cancel s)\<lparr>my_sync_border := True\<rparr>))
      else Ok (relay_all av s))"

definition sync_as_head :: "'e cenv_scheme \<Rightarrow> ptr \<Rightarrow> announcement_value \<Rightarrow> node \<Rightarrow> node res" where
  "sync_as_head e p av s =
     (let s1 = relay_dates av s in
      if this_sync_slot s1 = my_cons_slot s1 \<and> \<not> my_sync_border s1 then
        bindR (csync_trusted_synchronization e p (av_ref_addr av) (av_cons_rate av) s1) (\<lambda>s2.
        bindR (announcement_bump e synchronization_announcement s2) (\<lambda>s3.
          Ok (s3\<lparr>my_sync_border := True\<rparr>)))
      else csync_trusted_synchronization e p (av_ref_addr av) (av_cons_rate av) s1)"

text \<open>A vote of the Byzantine consensus about the time of this node.\<close>

definition sync_byzantine :: "'e cenv_scheme \<Rightarrow> ptr \<Rightarrow> announcement_value \<Rightarrow> u16 \<Rightarrow> node \<Rightarrow> node res" where
  "sync_byzantine e p av byzantine_threshold s =
     (if too_far (nbr s p) then
        if my_cons_slot s = this_sync_slot s then
          bindR (csync_trusted_synchronization e p (av_ref_addr av) (av_cons_rate av) (s\<lparr>msg_count := msg_count s + 1\<rparr>))
            (\<lambda>s1. let s2 = (relay_all av s1)\<lparr>my_sync_border := True\<rparr> in
                  if ucast (msg_count s2) > byzantine_threshold
                  then Ok ((polite_announcement_cancel s2)\<lparr>my_sync_border := False\<rparr>)
                  else Ok (enter_byzantine_consensus (s2\<lparr>my_sync_border := True\<rparr>)))
        else
          bindR (csync_trusted_synchronization e p (av_ref_addr av) (av_cons_rate av) s)
            (\<lambda>s1. Ok ((relay_all av s1)\<lparr>my_sync_border := True\<rparr>))
      else Ok s)"

definition sync_in_synchronization :: "'e cenv_scheme \<Rightarrow> ptr \<Rightarrow> announcement_value \<Rightarrow> u16 \<Rightarrow> node \<Rightarrow> node res" where
  "sync_in_synchronization e p av byzantine_threshold s =
     (if av_instr av = my_state s then
        if blacklisted (nb_addr (nbr s p)) s then Ok s
        else (case my_role s of
            CB \<Rightarrow> sync_as_bridge e p av s
          | CH \<Rightarrow> sync_as_head e p av s
          | CM \<Rightarrow> if this_sync_slot s = my_cons_slot s
                 then csync_trusted_synchronization e p (av_ref_addr av) (av_cons_rate av) (relay_dates av s)
                 else Ok s)
      else if av_instr av = BYZANTINE_CONSENSUS then
        if blacklisted (nb_addr (nbr s p)) s then Ok s else sync_byzantine e p av byzantine_threshold s
      else Ok s)"

definition sync_in_discovery :: "'e cenv_scheme \<Rightarrow> ptr \<Rightarrow> announcement_value \<Rightarrow> node \<Rightarrow> node res" where
  "sync_in_discovery e p av s =
     adopt_date e av cb_idle
       (\<lambda>s1. if CHs_list s1 \<noteq> [] then
          bindR (push_pool_as_head av s1) (\<lambda>s2.
          bindR (csync_trusted_synchronization e p (av_ref_addr av) (av_cons_rate av) (s2\<lparr>my_cons_slot := av_degree av\<rparr>))
            (\<lambda>s3. Ok (relay_all av (s3\<lparr>my_sync_border := False\<rparr>))))
        else Ok s1)
       (join_polite (s\<lparr>my_role := CM\<rparr>))"

definition sync_in_revelation :: "'e cenv_scheme \<Rightarrow> ptr \<Rightarrow> announcement_value \<Rightarrow> node \<Rightarrow> node res" where
  "sync_in_revelation e p av s =
     (if av_instr av = CONSENSUS_SYNCHRONIZATION then
        adopt_date e av cb_idle
          (\<lambda>s1. Ok (enter_consensus_synchronization
             (if my_role s1 = CH \<and> CBs_list s1 = []
              then note_slot (nb_addr (nbr s1 p)) (av_degree av) (snd (handle_lists av p s1)) else s1)))
          (polite_announcement_cancel s)
      else Ok s)"

definition received_synchronization_announcement ::
  "'e cenv_scheme \<Rightarrow> ptr \<Rightarrow> u16 \<Rightarrow> announcement_value \<Rightarrow> timesync_frame_t \<Rightarrow> node \<Rightarrow> node res" where
  "received_synchronization_announcement e a from av sf s =
     (let byzantine_threshold = ucast (my_degree s div 2) + 1 in
      if rssi_ok (packetbuf_attr ATTR_RSSI (pb s)) \<and> av_ref_addr av \<noteq> my_addr s
      then with_synced_neighbour e from av sf (\<lambda>p s1.
             if my_state s1 = DISCOVERY then sync_in_discovery e p av s1
             else if my_state s1 = CONSENSUS_REVELATION then sync_in_revelation e p av s1
             else if my_state s1 = CONSENSUS_SYNCHRONIZATION then sync_in_synchronization e p av byzantine_threshold s1
             else Ok s1) s
      else Ok s)"

section \<open>From a frame to a handler\<close>

text \<open>
  When the pool of heads has been linked into the list, the \<^verbatim>\<open>size\<close> of the pool is a pointer and what the
  list functions and \<open>memb_alloc\<close> read and write depends on the layout of the memory. The handler that
  linked it is modelled to its end; the next one is a fault of the model.
\<close>

definition call_handler ::
  "'e cenv_scheme \<Rightarrow> u16 \<Rightarrow> timesync_frame_t \<Rightarrow> u16 \<Rightarrow> announcement_value \<Rightarrow> node \<Rightarrow> node res" where
  "call_handler e from sf ident av s = (if pool_linked s then Fault BadNode else
     case announcement_heard ident (ann s) of
       None \<Rightarrow> Ok s
     | Some (a, recv_discovery) \<Rightarrow> received_discovery_announcement e a from av sf s
     | Some (a, recv_revelation) \<Rightarrow> received_revelation_announcement e a from av sf s
     | Some (a, recv_declaration) \<Rightarrow> received_declaration_announcement e a from av sf s
     | Some (a, recv_convergence) \<Rightarrow> received_convergence_announcement e a from av sf s
     | Some (a, recv_synchronization) \<Rightarrow> received_synchronization_announcement e a from av sf s)"

text \<open>A frame on the polite channel and on the broadcast channel.\<close>

definition polite_recv :: "'e cenv_scheme \<Rightarrow> u16 \<Rightarrow> node \<Rightarrow> node res" where
  "polite_recv e from s = bindR (ip_recv_dups e s) (adv_packet_received e (call_handler e from))"

definition broadcast_recv :: "'e cenv_scheme \<Rightarrow> u16 \<Rightarrow> node \<Rightarrow> node res" where
  "broadcast_recv e from s = adv_packet_received e (call_handler e from) s"

end
