(* ===== verification/CSync_Process.thy ===== *)
theory CSync_Process
  imports Received_Sync
begin

text \<open>
  The process \<open>c_gtsp_process\<close> of \<^verbatim>\<open>src/examples/c-sync/c-sync.c\<close>. The thread is a state machine: it
  runs from one \<open>PROCESS_YIELD\<close> to the next, and the point where it waits is a value of \<open>yield_point\<close>.
  Each definition below is the code from a point of the thread to the next yield; \<open>thread_resume\<close>
  continues the thread at the yield where it waits.
\<close>

datatype yield_point =
    Y_DISCOVERY | Y_CLUSTERING | Y_GTSP_IDLE | Y_CONV_SLOT | Y_CONV_END | Y_CONS_REVELATION
  | Y_SYNC_SLOT | Y_BYZANTINE | Y_SYNC_END | Y_IDLE

type_synonym yielded = "(yield_point \<times> node) res"

section \<open>Announcing\<close>

text \<open>The block of \<open>announcement_set_*\<close> calls that the phases share.\<close>

definition announce ::
  "'e cenv_scheme \<Rightarrow> ptr \<Rightarrow> u8 \<Rightarrow> u8 \<Rightarrow> dbl \<Rightarrow> u16 option \<Rightarrow> node \<Rightarrow> node" where
  "announce e a instr degree rate ref_addr s =
     (let s1 = upd_anns (announcement_set_degree a degree) (upd_anns (announcement_set_instr a instr) s);
          s2 = announce_rt0_date a s1;
          s3 = upd_anns (announcement_set_cons_rate a rate) s2
      in case ref_addr of None \<Rightarrow> s3 | Some r \<Rightarrow> upd_anns (announcement_set_ref_addr a r) s3)"

definition add_and_bump :: "'e cenv_scheme \<Rightarrow> ptr \<Rightarrow> node \<Rightarrow> node res" where
  "add_and_bump e a s = announcement_bump e a (upd_anns (announcement_add_value a) s)"

section \<open>Clustering\<close>

text \<open>The cases of the \<^verbatim>\<open>switch\<close> in the order of the source; a case falls into the next one.\<close>

definition case_connection_declaration :: "'e cenv_scheme \<Rightarrow> node \<Rightarrow> node res" where
  "case_connection_declaration e =
     if_schedule e RTIMER_INTERVAL_REF 0 (REGULAR_SLOT_INTERVAL e) cb_convergence
       (\<lambda>s. bindR (csync_print_status s) (\<lambda>s1.
          if my_role s1 = CH then Ok (s1\<lparr>radio_on := True\<rparr>)
          else if my_role s1 = CB
          then add_and_bump e declaration_announcement
                 (announce e declaration_announcement (my_state s1) (ref_n_CHB_degree s1) (d_of_int (fpe e) 1)
                    (Some (ref_n_CHB_addr s1)) s1)
          else Ok s1)) Ok"

text \<open>A common node that hears two heads or more becomes a bridge between the first two.\<close>

definition become_bridge :: "'e cenv_scheme \<Rightarrow> node \<Rightarrow> node res" where
  "become_bridge e s = (case CHs_list s of
       p # q # _ \<Rightarrow>
         let s1 = s\<lparr>radio_on := True, my_role := CB\<rparr>;
             s2 = s1\<lparr>my_placing := my_placing s1 - csync_CHB_placing s1\<rparr>;
             s3 = polite_announcement_set_interval (POLITE_INTERVAL * ucast (my_placing s2)) s2;
             s4 = announce e revelation_announcement (my_state s3) (my_degree s3) (d_of_int (fpe e) 1) None s3;
             s5 = s4\<lparr>ref_n_CHB_addr := ch_addr (the_CH s4 p) + ch_addr (the_CH s4 q),
                     ref_n_CHB_degree := ch_degree (the_CH s4 p) + ch_degree (the_CH s4 q)\<rparr>;
             s6 = s5\<lparr>pb := packetbuf_set_attr ATTR_DOAES 1
                            (packetbuf_set_attr ATTR_XORPLAINTEXT_B (ch_addr (the_CH s5 q))
                              (packetbuf_set_attr ATTR_XORPLAINTEXT_A (ch_addr (the_CH s5 p)) (pb s5))),
                     llsec_inits := llsec_inits s5 + 1\<rparr>
         in add_and_bump e revelation_announcement
              (upd_anns (announcement_set_ref_addr revelation_announcement (ref_n_CHB_addr s6)) s6)
     | _ \<Rightarrow> Ok s)"

definition case_connection_revelation :: "'e cenv_scheme \<Rightarrow> node \<Rightarrow> node res" where
  "case_connection_revelation e s =
     bindR (if_schedule e RTIMER_INTERVAL_REF 0 (REGULAR_SLOT_INTERVAL e) cb_connection_declaration
              (\<lambda>s1. bindR (csync_print_status s1) (\<lambda>s2.
                 if length (CHs_list s2) > 1 \<and> my_role s2 = CM then become_bridge e s2 else Ok s2)) Ok s)
       (\<lambda>s3. if rt_func (rt0 s3) = cb_convergence
              then case_connection_declaration e (set_timer_state RTIMER_SINGLEPASS s3) else Ok s3)"

definition case_election_declaration :: "'e cenv_scheme \<Rightarrow> node \<Rightarrow> node res" where
  "case_election_declaration e =
     if_schedule e RTIMER_INTERVAL_REF 0 (REGULAR_SLOT_INTERVAL e) cb_connection_revelation
       (\<lambda>s. bindR (csync_print_status s) (\<lambda>s1.
          add_and_bump e declaration_announcement
            (announce e declaration_announcement (my_state s1) (my_degree s1) (d_of_int (fpe e) 1)
               (Some (my_addr s1)) s1)))
       (case_connection_revelation e)"

definition case_election_revelation :: "'e cenv_scheme \<Rightarrow> node \<Rightarrow> node res" where
  "case_election_revelation e =
     if_schedule e RTIMER_INTERVAL_REF 0 (REGULAR_SLOT_INTERVAL e) cb_election_declaration
       (\<lambda>s. bindR (csync_print_status (polite_announcement_init LOGICAL_CHANNEL 0
                    PA_RESILIENCE_MAX_SEND_DUPS PA_REGULAR_MAX_RECV_DUPS s)) (\<lambda>s1.
          add_and_bump e revelation_announcement
            (announce e revelation_announcement (my_state s1) (my_degree s1) (d_of_int (fpe e) 1)
               (Some (my_addr s1)) s1)))
       (case_election_declaration e)"

definition cluster_switch :: "'e cenv_scheme \<Rightarrow> node \<Rightarrow> node res" where
  "cluster_switch e s =
     (if my_state s = ELECTION_REVELATION then case_election_revelation e s
      else if my_state s = ELECTION_DECLARATION then case_election_declaration e s
      else if my_state s = CONNECTION_REVELATION then case_connection_revelation e s
      else if my_state s = CONNECTION_DECLARATION then case_connection_declaration e s
      else Ok s)"

section \<open>The start of a round\<close>

definition round_start :: "'e cenv_scheme \<Rightarrow> node \<Rightarrow> yielded" where
  "round_start e s =
     bindR (soft_reset e s) (\<lambda>s1. bindR (csync_print_status s1) (\<lambda>s2. Ok (Y_DISCOVERY, s2)))"

section \<open>Synchronization\<close>

text \<open>The loop over the synchronization slots: \<open>None\<close> as the yield point means that it ended.\<close>

lemma schedule_node_fields:
  assumes "schedule e timer interval c f func s = Ok (b, s1)"
  shows "\<exists>r. s1 = s\<lparr>rts := r\<rparr>"
  using assms unfolding schedule_def res_iff by (elim exE conjE) (simp split: prod.splits, blast)

lemma schedule_keeps_slots:
  assumes "schedule e timer interval c f func s = Ok (b, s1)"
  shows "my_cons_slot s1 = my_cons_slot s" and "ref_n_CHB_degree s1 = ref_n_CHB_degree s"
    and "cons_ctrl_counter s1 = cons_ctrl_counter s"
  using schedule_node_fields [OF assms] by auto

lemma slot_step_decreases:
  assumes "uint (x :: u8) \<le> 6"
  shows "7 - unat (x + 1) < 7 - unat x"
proof -
  have "int (unat x) \<le> 6" using assms by simp
  then have "unat x \<le> 6" by linarith
  then have "unat (x + 1) = unat x + 1" by (simp add: unat_word_ariths)
  with \<open>unat x \<le> 6\<close> show ?thesis by simp
qed

function sync_loop :: "'e cenv_scheme \<Rightarrow> node \<Rightarrow> (bool \<times> node) res" where
  "sync_loop e s =
     (if uint (ref_n_CHB_degree s) - 1 \<le> uint NUM_CONS_SLOTS then
        bindR (schedule e 0 RTIMER_INTERVAL_REF 0 (cons_ctrl_slots e (uint (ref_n_CHB_degree s) - 1))
                 cb_synchronization_slot s) (\<lambda>(b, s1).
          if b then
            if uint (ref_n_CHB_degree s1) - 1 < uint NUM_CONS_SLOTS then Ok (True, s1)
            else sync_loop e (s1\<lparr>ref_n_CHB_degree := ref_n_CHB_degree s1 + 1\<rparr>)
          else sync_loop e (s1\<lparr>ref_n_CHB_degree := ref_n_CHB_degree s1 + 1, radio_on := True\<rparr>))
      else Ok (False, s))"
  by pat_completeness auto
termination
  by (relation "measure (\<lambda>(e, s). 7 - unat (ref_n_CHB_degree s))")
    (auto simp: schedule_keeps_slots intro!: slot_step_decreases)

declare sync_loop.simps [simp del]

text \<open>The beginning of an iteration: the first one saves the slots, the next ones restore them.\<close>

definition sync_prepare :: "node \<Rightarrow> node" where
  "sync_prepare s =
     (if cons_ctrl_counter s > 0 then
        let s1 = s\<lparr>my_state := CONSENSUS_SYNCHRONIZATION\<rparr>;
            s2 = (if my_role s1 \<noteq> CM then s1\<lparr>radio_on := True\<rparr> else s1);
            s3 = s2\<lparr>my_proactive_slot := saved_proactive_slot s2, my_cons_slot := saved_cons_slot s2,
                    my_slot_ack := saved_slot_ack s2, this_sync_slot := 1,
                    my_sync_border := saved_sync_border s2\<rparr>;
            s4 = upd_CHs (\<lambda>c. c\<lparr>ch_cons_slot := flip_slot (ch_cons_slot c)\<rparr>) s3
        in polite_announcement_init LOGICAL_CHANNEL (ucast (my_placing s4))
             PA_RESILIENCE_MAX_SEND_DUPS PA_REGULAR_MAX_RECV_DUPS s4
      else s\<lparr>saved_proactive_slot := my_proactive_slot s, saved_cons_slot := my_cons_slot s,
             saved_slot_ack := my_slot_ack s, saved_sync_border := my_sync_border s\<rparr>)"

definition sync_begin :: "'e cenv_scheme \<Rightarrow> node \<Rightarrow> node res" where
  "sync_begin e s =
     bindR (csync_print_status (init_consensus_synchronization s)) (\<lambda>s1.
       let s2 = (case my_role s1 of
                   CH \<Rightarrow> polite_announcement_set_interval 0 s1
                 | CB \<Rightarrow> polite_announcement_set_interval (POLITE_INTERVAL * ucast (my_placing s1)) s1
                 | CM \<Rightarrow> s1);
           s3 = announce e synchronization_announcement (my_state s2) (my_cons_slot s2) (d_of_int (fpe e) 1)
                  (Some (my_addr s2)) s2;
           s4 = upd_anns (announcement_add_value synchronization_announcement) s3
       in Ok (s4\<lparr>radio_on := False\<rparr>))"

text \<open>The loop over the iterations; after the last one a new round starts.\<close>

definition next_iteration :: "node \<Rightarrow> node" where
  "next_iteration s = s\<lparr>cons_ctrl_counter := cons_ctrl_counter s + 1\<rparr>"

definition sync_after_loop :: "bool \<times> node \<Rightarrow> yield_point option \<times> node" where
  "sync_after_loop r = (case r of (waiting, s) \<Rightarrow>
     if waiting then (Some Y_SYNC_SLOT, s)
     else if uint (ref_n_CHB_degree s) - 2 \<le> uint NUM_CONS_SLOTS then (Some Y_SYNC_END, s)
     else (None, s))"

text \<open>One iteration up to its first yield; \<open>None\<close> as the yield point means that it ended.\<close>

definition sync_iteration :: "'e cenv_scheme \<Rightarrow> node \<Rightarrow> (yield_point option \<times> node) res" where
  "sync_iteration e s =
     if_schedule e RTIMER_INTERVAL_REF 0 (cons_ctrl_slots e (uint NUM_CONS_SLOTS)) cb_idle
       (\<lambda>s1. bindR (sync_begin e s1) (\<lambda>s2. bindR (sync_loop e s2) (\<lambda>r. Ok (sync_after_loop r))))
       (\<lambda>s1. Ok (None, s1)) (sync_prepare s)"

lemma sync_loop_counter:
  "sync_loop e s = Ok (b, s') \<Longrightarrow> cons_ctrl_counter s' = cons_ctrl_counter s"
proof (induction e s arbitrary: b s' rule: sync_loop.induct)
  case (1 e s)
  show ?case
  proof (cases "uint (ref_n_CHB_degree s) - 1 \<le> uint NUM_CONS_SLOTS")
    case False
    with 1(3) show ?thesis by (simp add: sync_loop.simps [of e s])
  next
    case True
    let ?sch = "schedule e 0 RTIMER_INTERVAL_REF 0 (cons_ctrl_slots e (uint (ref_n_CHB_degree s) - 1))
                 cb_synchronization_slot s"
    obtain c s1 where sch: "?sch = Ok (c, s1)"
      using True 1(3) by (cases ?sch) (auto simp: sync_loop.simps [of e s])
    note step = 1(3) [unfolded sync_loop.simps [of e s]]
    show ?thesis
    proof (cases c)
      case ok: True
      show ?thesis
      proof (cases "uint (ref_n_CHB_degree s1) - 1 < uint NUM_CONS_SLOTS")
        case wait: True
        with True sch ok step schedule_keeps_slots [OF sch] show ?thesis by simp
      next
        case False
        with True sch ok step have
          "sync_loop e (s1\<lparr>ref_n_CHB_degree := ref_n_CHB_degree s1 + 1\<rparr>) = Ok (b, s')" by simp
        from 1(1) [OF True sch _ ok False this] schedule_keeps_slots [OF sch] show ?thesis by simp
      qed
    next
      case False
      with True sch step have
        "sync_loop e (s1\<lparr>ref_n_CHB_degree := ref_n_CHB_degree s1 + 1, radio_on := True\<rparr>) = Ok (b, s')" by simp
      from 1(2) [OF True sch _ False this] schedule_keeps_slots [OF sch] show ?thesis by simp
    qed
  qed
qed

text \<open>None of the steps of an iteration touches the iteration counter.\<close>

lemma upd_simps_counter [simp]:
  "cons_ctrl_counter (upd_CH p f s) = cons_ctrl_counter s"
  "cons_ctrl_counter (upd_anns g s) = cons_ctrl_counter s"
  "cons_ctrl_counter (upd_rts h s) = cons_ctrl_counter s"
  by (simp_all add: upd_CH_def upd_anns_def upd_rts_def)

lemma upd_CHs_counter [simp]: "cons_ctrl_counter (upd_CHs f s) = cons_ctrl_counter s"
proof -
  have "cons_ctrl_counter (fold (\<lambda>p. upd_CH p f) ps s) = cons_ctrl_counter s" for ps
    by (induction ps arbitrary: s) simp_all
  then show ?thesis by (simp add: upd_CHs_def)
qed

lemma print_status_counter: "csync_print_status s = Ok s' \<Longrightarrow> cons_ctrl_counter s' = cons_ctrl_counter s"
  by (auto simp: csync_print_status_def split: if_splits role_t.splits)

lemma announce_counter [simp]: "cons_ctrl_counter (announce e a i d r x s) = cons_ctrl_counter s"
  by (simp add: announce_def announce_rt0_date_def Let_def split: option.split)

lemma init_sync_counter [simp]: "cons_ctrl_counter (init_consensus_synchronization s) = cons_ctrl_counter s"
  by (simp add: init_consensus_synchronization_def Let_def case_prod_beta)

lemma polite_counter [simp]:
  "cons_ctrl_counter (polite_announcement_init ch i a b s) = cons_ctrl_counter s"
  "cons_ctrl_counter (polite_announcement_set_interval i s) = cons_ctrl_counter s"
  by (simp_all add: polite_announcement_init_def polite_announcement_set_interval_def ipolite_open_def)

lemma sync_prepare_counter [simp]: "cons_ctrl_counter (sync_prepare s) = cons_ctrl_counter s"
  by (simp add: sync_prepare_def Let_def)

lemma sync_begin_counter:
  assumes "sync_begin e s = Ok s'"
  shows "cons_ctrl_counter s' = cons_ctrl_counter s"
proof -
  obtain s1 where s1: "csync_print_status (init_consensus_synchronization s) = Ok s1"
    using assms by (auto simp: sync_begin_def res_iff)
  then show ?thesis
    using assms print_status_counter [OF s1] by (cases "my_role s1") (auto simp: sync_begin_def Let_def)
qed

lemma sync_iteration_counter:
  assumes "sync_iteration e s = Ok (y, s')"
  shows "cons_ctrl_counter s' = cons_ctrl_counter s"
proof -
  let ?sch = "schedule e 0 RTIMER_INTERVAL_REF 0 (cons_ctrl_slots e (uint NUM_CONS_SLOTS)) cb_idle (sync_prepare s)"
  obtain b s1 where sch: "?sch = Ok (b, s1)"
    using assms by (cases ?sch) (auto simp: sync_iteration_def if_schedule_def)
  have s1: "cons_ctrl_counter s1 = cons_ctrl_counter s"
    using schedule_keeps_slots [OF sch] by simp
  show ?thesis
  proof (cases b)
    case False
    then show ?thesis using assms sch s1 by (simp add: sync_iteration_def if_schedule_def)
  next
    case True
    then obtain s2 c s3 where "sync_begin e s1 = Ok s2" "sync_loop e s2 = Ok (c, s3)"
        "sync_after_loop (c, s3) = (y, s')"
      using assms sch by (auto simp: sync_iteration_def if_schedule_def res_iff)
    then show ?thesis using s1 sync_begin_counter sync_loop_counter
      by (fastforce simp: sync_after_loop_def split: if_splits)
  qed
qed

lemma counter_decreases:
  assumes "(c :: u8) < 3"
  shows "3 - unat (c + 1) < 3 - unat c"
proof -
  have "unat c < 3" using assms by (simp add: word_less_nat_alt)
  then have "unat (c + 1) = unat c + 1" by (simp add: unat_word_ariths)
  with \<open>unat c < 3\<close> show ?thesis by simp
qed

function sync_iterations :: "'e cenv_scheme \<Rightarrow> node \<Rightarrow> yielded" where
  "sync_iterations e s =
     (if cons_ctrl_counter s < NUM_CONS_CTRL_ITERATIONS then
        bindR (sync_iteration e s) (\<lambda>(y, s1).
          case y of Some yp \<Rightarrow> Ok (yp, s1) | None \<Rightarrow> sync_iterations e (next_iteration s1))
      else round_start e s)"
  by pat_completeness auto
termination
  by (relation "measure (\<lambda>(e, s). 3 - unat (cons_ctrl_counter s))")
    (auto simp: next_iteration_def sync_iteration_counter intro!: counter_decreases)

declare sync_iterations.simps [simp del]

text \<open>After a yield in a synchronization slot: the announcement goes out in the node's own slot.\<close>

definition byz_inject :: "'e cenv_scheme \<Rightarrow> node \<Rightarrow> node res" where
  "byz_inject e s =
     (if TEST_BYZ e \<and> (my_addr s = 69 \<or> my_addr s = 65) then
        (case CHs_list s of
           [] \<Rightarrow> Fault NullDeref
         | p # _ \<Rightarrow>
             if my_cons_slot s \<le> ch_cons_slot (the_CH s p)
             then bindR (upd_rts_res (rtimer_adjust_fine_offset (fpe e) 10000) s) (\<lambda>s1.
                    Ok (upd_anns (announcement_set_date_fine synchronization_announcement (time_fine_lg (rt0 s1))) s1))
             else Ok s)
      else Ok s)"

definition send_in_slot :: "'e cenv_scheme \<Rightarrow> node \<Rightarrow> node res" where
  "send_in_slot e s =
     bindR (byz_inject e (upd_anns (announcement_set_degree synchronization_announcement (my_cons_slot s)) s)) (\<lambda>s1.
     bindR (announcement_bump e synchronization_announcement
              (upd_anns (announcement_set_cons_rate synchronization_announcement (my_cons_rate s1)) s1)) (\<lambda>s2.
       Ok (s2\<lparr>my_sync_border := False\<rparr>)))"

definition byz_quorum :: "node \<Rightarrow> bool" where
  "byz_quorum s \<longleftrightarrow> uint (msg_count s) < uint (my_degree s) div 2 + 1"

definition byz_announce :: "'e cenv_scheme \<Rightarrow> node \<Rightarrow> node" where
  "byz_announce e s =
     announce e synchronization_announcement BYZANTINE_CONSENSUS (my_cons_slot s) (my_cons_rate s) None s"

text \<open>One iteration of the Byzantine loop up to its yield.\<close>

definition byz_step :: "'e cenv_scheme \<Rightarrow> node \<Rightarrow> node res" where
  "byz_step e s =
     (let s1 = polite_announcement_set_interval (BYZANTINE_INTERVAL e (uint (my_placing s))) s;
          s2 = (if msg_count s1 > 1
                then upd_anns (announcement_add_value synchronization_announcement) (byz_announce e s1) else s1)
      in if my_role s2 = CB
         then announcement_bump e synchronization_announcement
                (upd_anns (announcement_set_instr synchronization_announcement BYZANTINE_CONSENSUS)
                  (s2\<lparr>temp_state := BYZANTINE_CONSENSUS\<rparr>))
         else Ok s2)"

definition sync_continue :: "'e cenv_scheme \<Rightarrow> node \<Rightarrow> yielded" where
  "sync_continue e s =
     bindR (sync_loop e (s\<lparr>ref_n_CHB_degree := ref_n_CHB_degree s + 1\<rparr>)) (\<lambda>r.
       case sync_after_loop r of
         (Some y, s1) \<Rightarrow> Ok (y, s1)
       | (None, s1) \<Rightarrow> sync_iterations e (next_iteration s1))"

definition byz_loop :: "'e cenv_scheme \<Rightarrow> node \<Rightarrow> yielded" where
  "byz_loop e s =
     (if TEST_BYZ e \<and> byz_quorum s then bindR (byz_step e s) (\<lambda>s1. Ok (Y_BYZANTINE, s1)) else sync_continue e s)"

definition resume_sync_slot :: "'e cenv_scheme \<Rightarrow> node \<Rightarrow> yielded" where
  "resume_sync_slot e s =
     (let s1 = s\<lparr>radio_on := True, this_sync_slot := ref_n_CHB_degree s\<rparr> in
      if my_sync_border s1 \<and> this_sync_slot s1 = my_cons_slot s1
      then bindR (send_in_slot e s1) (byz_loop e)
      else sync_continue e s1)"

definition resume_byzantine :: "'e cenv_scheme \<Rightarrow> node \<Rightarrow> yielded" where
  "resume_byzantine e s =
     bindR (if my_sync_border s \<and> byz_quorum s
            then announcement_bump e synchronization_announcement (byz_announce e s) else Ok s) (byz_loop e)"

definition resume_sync_end :: "'e cenv_scheme \<Rightarrow> node \<Rightarrow> yielded" where
  "resume_sync_end e s =
     if_schedule e RTIMER_DATE (announcement_get_date_coarse synchronization_announcement (ann s))
       (announcement_get_date_fine synchronization_announcement (ann s) + IDLE_SLOT_INTERVAL) cb_discovery
       (\<lambda>s1. bindR (csync_print_status s1) (\<lambda>s2.
          bindR (if IDLE_BROADCAST e
                 then broadcast_announcement_init LOGICAL_CHANNEL (MIN_INTERVAL e) (MIN_INTERVAL e) (MAX_INTERVAL e)
                        (upd_anns (announcement_add_value discovery_announcement)
                          (announce e discovery_announcement (my_state s2) (cons_ctrl_counter s2) (d_of_int (fpe e) 1)
                             (Some (my_addr s2)) (s2\<lparr>radio_on := True\<rparr>)))
                 else Ok s2) (\<lambda>s3. Ok (Y_IDLE, s3))))
       (\<lambda>s1. sync_iterations e (next_iteration s1)) s"

definition leave_idle :: "'e cenv_scheme \<Rightarrow> node \<Rightarrow> node" where
  "leave_idle e s =
     (if IDLE_BROADCAST e
      then upd_anns (announcement_remove_value discovery_announcement) (broadcast_announcement_stop s) else s)"

definition resume_idle :: "'e cenv_scheme \<Rightarrow> node \<Rightarrow> yielded" where
  "resume_idle e s = sync_iterations e (next_iteration (leave_idle e s))"

section \<open>Convergence\<close>

definition conv_done :: "'e cenv_scheme \<Rightarrow> node \<Rightarrow> yielded" where
  "conv_done e s = (if my_cons_slot s \<le> NUM_CONS_SLOTS then Ok (Y_CONV_END, s) else sync_iterations e s)"

definition resume_conv_end :: "'e cenv_scheme \<Rightarrow> node \<Rightarrow> yielded" where
  "resume_conv_end e =
     if_schedule e RTIMER_INTERVAL_REF 0 (REGULAR_SLOT_INTERVAL e) cb_consensus_synchronization
       (\<lambda>s1. bindR (csync_print_status s1) (\<lambda>s2.
          bindR (if my_role s2 = CH
                 then add_and_bump e revelation_announcement
                        (announce e revelation_announcement (my_state s2) (my_cons_slot s2) (d_of_int (fpe e) 1) None s2)
                 else Ok s2) (\<lambda>s3. Ok (Y_CONS_REVELATION, s3))))
       (sync_iterations e)"

text \<open>The heads that have no slot yet.\<close>

definition open_heads :: "node \<Rightarrow> nat" where
  "open_heads s = length (filter (\<lambda>p. ch_cons_slot (the_CH s p) = 0) (CHs_list s))"

text \<open>What a node does at the beginning of a convergence slot that was scheduled.\<close>

definition conv_slot_send :: "'e cenv_scheme \<Rightarrow> node \<Rightarrow> node res" where
  "conv_slot_send e s =
     (if my_role s = CB then Ok (s\<lparr>my_slot_ack := 0\<rparr>)
      else if my_role s = CH \<and> my_slot_ack s = 0 \<and> (open_heads s \<le> 1 \<or> my_cons_slot s = my_proactive_slot s)
      then
        let s1 = (if open_heads s > 1
                  then polite_announcement_set_interval (proactive_interval e (my_placing s))
                         (upd_anns (announcement_set_instr convergence_announcement CONVERGENCE_PROACTIVE) s)
                  else s)
        in announcement_bump e convergence_announcement
             (upd_anns (announcement_set_degree convergence_announcement (my_cons_slot s1)) s1)
      else Ok s)"

function conv_loop :: "'e cenv_scheme \<Rightarrow> node \<Rightarrow> yielded" where
  "conv_loop e s =
     (if my_cons_slot s \<le> NUM_CONS_SLOTS then
        if my_role s = CH \<and> CHs_list s = [] then conv_done e (s\<lparr>radio_on := False\<rparr>)
        else
          bindR (schedule e 0 RTIMER_INTERVAL_REF 0 (cons_ctrl_slots e (uint (my_cons_slot s))) cb_convergence_slot s)
            (\<lambda>(b, s1).
              if b then
                bindR (conv_slot_send e s1) (\<lambda>s2.
                  if my_cons_slot s2 < NUM_CONS_SLOTS then Ok (Y_CONV_SLOT, s2) else conv_done e s2)
              else conv_loop e (s1\<lparr>my_cons_slot := my_cons_slot s1 + 1\<rparr>))
      else conv_done e s)"
  by pat_completeness auto
termination
proof (relation "measure (\<lambda>(e, s). 7 - unat (my_cons_slot s))", goal_cases)
  case (2 e s x b s1)
  have "my_cons_slot s1 = my_cons_slot s" using 2 by (auto simp: schedule_keeps_slots)
  moreover have "uint (my_cons_slot s) \<le> 6" using 2(1) by (simp add: word_le_def)
  ultimately show ?case by (simp add: slot_step_decreases)
qed simp

declare conv_loop.simps [simp del]

definition resume_conv_slot :: "'e cenv_scheme \<Rightarrow> node \<Rightarrow> yielded" where
  "resume_conv_slot e s =
     (let s1 = (if my_role s = CB
                then s\<lparr>my_slot_ack := fold (\<lambda>p ack. ack * ch_cons_slot (the_CH s p)) (CHs_list s) (my_slot_ack s)\<rparr>
                else s)
      in if my_slot_ack s1 \<noteq> 0 then
           if_schedule e RTIMER_INTERVAL_REF 0 (cons_ctrl_slots e (uint NUM_CONS_SLOTS)) cb_consensus_revelation
             (conv_done e)
             (\<lambda>s2. conv_loop e (s2\<lparr>my_cons_slot := my_cons_slot s2 + 1\<rparr>)) (s1\<lparr>radio_on := False\<rparr>)
         else conv_loop e (s1\<lparr>my_cons_slot := my_cons_slot s1 + 1\<rparr>))"

definition conv_prepare :: "node \<Rightarrow> node" where
  "conv_prepare s =
     (let s1 = s\<lparr>led := (led s)\<lparr>led_green := True\<rparr>\<rparr> in
      if cons_ctrl_counter s1 > 0 then
        let s2 = s1\<lparr>my_state := CONSENSUS_CONVERGENCE\<rparr>;
            s3 = (if my_role s2 \<noteq> CM then s2\<lparr>radio_on := True\<rparr> else s2);
            s4 = s3\<lparr>my_proactive_slot := 1, my_cons_slot := 1, my_slot_ack := 0, this_sync_slot := 1,
                    my_sync_border := False\<rparr>;
            s5 = upd_CHs (\<lambda>c. c\<lparr>ch_cons_slot := 0\<rparr>) s4
        in polite_announcement_init LOGICAL_CHANNEL (ucast (my_placing s5))
             PA_RESILIENCE_MAX_SEND_DUPS PA_REGULAR_MAX_RECV_DUPS s5
      else s1)"

definition conv_announce :: "'e cenv_scheme \<Rightarrow> node \<Rightarrow> node" where
  "conv_announce e s =
     (let s1 = upd_anns (announcement_add_value convergence_announcement)
                 (upd_anns (announcement_set_cons_rate convergence_announcement (d_of_int (fpe e) 1))
                   (announce_rt0_date convergence_announcement s))
      in case my_role s1 of
           CH \<Rightarrow> let s2 = init_consensus_convergence s1;
                     s3 = s2\<lparr>my_placing := csync_CHB_placing s2\<rparr>
                 in polite_announcement_set_interval (POLITE_INTERVAL * ucast (my_placing s3)) s3
         | CB \<Rightarrow> polite_announcement_set_interval 0 s1
         | CM \<Rightarrow> s1)"

definition conv_start :: "'e cenv_scheme \<Rightarrow> node \<Rightarrow> yielded" where
  "conv_start e s =
     if_schedule e RTIMER_INTERVAL_REF 0 (cons_ctrl_slots e (uint NUM_CONS_SLOTS)) cb_consensus_revelation
       (\<lambda>s1. bindR (csync_print_status s1) (\<lambda>s2.
          let s3 = conv_announce e s2 in if my_role s3 \<noteq> CM then conv_loop e s3 else conv_done e s3))
       (conv_done e) (conv_prepare s)"

section \<open>The test mode without clusters\<close>

definition gtsp_idle_body :: "'e cenv_scheme \<Rightarrow> node \<Rightarrow> node res" where
  "gtsp_idle_body e s =
     bindR (csync_print_status s) (\<lambda>s1.
       if IDLE_BROADCAST e
       then broadcast_announcement_init LOGICAL_CHANNEL (MIN_INTERVAL e) (MIN_INTERVAL e) (MAX_INTERVAL e)
              (upd_anns (announcement_add_value discovery_announcement)
                (announce e discovery_announcement (my_state s1) (cons_ctrl_counter s1) (d_of_int (fpe e) 1)
                   (Some (my_addr s1)) (s1\<lparr>radio_on := True\<rparr>)))
       else Ok s1)"

text \<open>The loop runs while the counter is zero, so a failed request ends it.\<close>

definition gtsp_idle :: "'e cenv_scheme \<Rightarrow> node \<Rightarrow> yielded" where
  "gtsp_idle e s =
     (if my_state s = IDLE \<and> cons_ctrl_counter s < 1 then
        if_schedule e RTIMER_INTERVAL_REF 0 IDLE_SLOT_INTERVAL cb_discovery
          (\<lambda>s1. bindR (gtsp_idle_body e s1) (\<lambda>s2. Ok (Y_GTSP_IDLE, s2)))
          (\<lambda>s1. round_start e (next_iteration s1)) s
      else round_start e s)"

definition resume_gtsp_idle :: "'e cenv_scheme \<Rightarrow> node \<Rightarrow> yielded" where
  "resume_gtsp_idle e s = gtsp_idle e (next_iteration (leave_idle e s))"

section \<open>The thread\<close>

definition clustering :: "'e cenv_scheme \<Rightarrow> node \<Rightarrow> yielded" where
  "clustering e s =
     (if my_state s < CONSENSUS_CONVERGENCE
      then bindR (cluster_switch e s) (\<lambda>s1. Ok (Y_CLUSTERING, s1))
      else if TEST_GTSP e then gtsp_idle e s
      else conv_start e s)"

definition thread_start :: "'e cenv_scheme \<Rightarrow> node \<Rightarrow> yielded" where
  "thread_start e s = round_start e (reset_c_gtsp e s)"

definition thread_resume :: "'e cenv_scheme \<Rightarrow> yield_point \<Rightarrow> node \<Rightarrow> yielded" where
  "thread_resume e y s = (case y of
       Y_DISCOVERY \<Rightarrow> clustering e s
     | Y_CLUSTERING \<Rightarrow> clustering e s
     | Y_GTSP_IDLE \<Rightarrow> resume_gtsp_idle e s
     | Y_CONV_SLOT \<Rightarrow> resume_conv_slot e s
     | Y_CONV_END \<Rightarrow> resume_conv_end e s
     | Y_CONS_REVELATION \<Rightarrow> sync_iterations e s
     | Y_SYNC_SLOT \<Rightarrow> resume_sync_slot e s
     | Y_BYZANTINE \<Rightarrow> resume_byzantine e s
     | Y_SYNC_END \<Rightarrow> resume_sync_end e s
     | Y_IDLE \<Rightarrow> resume_idle e s)"

end
