(* ===== verification/Bounded_Queue.thy ===== *)
theory Bounded_Queue
  imports Prelude
begin

text \<open>
  The bounded first-in first-out queue, the contract of the two ring buffers of the system: the byte
  ring of \<^verbatim>\<open>src/core/lib/ringbuf.c\<close> and the event ring of \<^verbatim>\<open>src/core/sys/process.c\<close>. \<open>ring xs f n\<close> is
  the sequence of the \<open>n\<close> elements of the array \<open>xs\<close> that start at index \<open>f\<close> and wrap around; the
  locale \<open>bounded_queue\<close> is the interface its users rely on.
\<close>

section \<open>Sequences in a circular array\<close>

definition ring :: "'a list \<Rightarrow> nat \<Rightarrow> nat \<Rightarrow> 'a list" where
  "ring xs f n = map (\<lambda>i. xs ! ((f + i) mod length xs)) [0..<n]"

lemma length_ring [simp]: "length (ring xs f n) = n"
  by (simp add: ring_def)

lemma ring_0 [simp]: "ring xs f 0 = []"
  by (simp add: ring_def)

lemma mod_add_inj:
  fixes i j f N :: nat
  assumes "(f + i) mod N = (f + j) mod N" and "i < N" and "j < N"
  shows "i = j"
proof -
  have "j \<le> i \<Longrightarrow> i < N \<Longrightarrow> (f + i) mod N = (f + j) mod N \<Longrightarrow> i = j" for i j
    using mod_eq_dvd_iff_nat [of "f + j" "f + i" N] nat_dvd_not_less [of "i - j" N] by fastforce
  from this [of j i] this [of i j] show ?thesis using assms by (cases "j \<le> i") auto
qed

lemma ring_put:
  assumes "n < length xs"
  shows "ring (xs[(f + n) mod length xs := x]) f (Suc n) = ring xs f n @ [x]"
proof -
  let ?N = "length xs"
  have pos: "0 < ?N" using assms by linarith
  have "xs[(f + n) mod ?N := x] ! ((f + i) mod ?N) = xs ! ((f + i) mod ?N)" if "i < n" for i
  proof -
    have "(f + n) mod ?N \<noteq> (f + i) mod ?N" using mod_add_inj [of f n ?N i] that assms by auto
    then show ?thesis by simp
  qed
  with pos show ?thesis by (simp add: ring_def)
qed

lemma ring_get:
  assumes "f < length xs"
  shows "ring xs f (Suc n) = xs ! f # ring xs (Suc f mod length xs) n"
proof -
  have "xs ! ((f + Suc i) mod length xs) = xs ! ((Suc f mod length xs + i) mod length xs)" for i
    by (simp add: mod_add_left_eq)
  then have "map (\<lambda>i. xs ! ((f + i) mod length xs)) (map Suc [0..<n]) =
      map (\<lambda>i. xs ! ((Suc f mod length xs + i) mod length xs)) [0..<n]" by simp
  then show ?thesis using assms unfolding ring_def
    by (simp add: upt_conv_Cons map_Suc_upt [symmetric] del: upt_Suc map_map)
qed

section \<open>The interface of a bounded queue\<close>

text \<open>
  \<open>put\<close> returns the code \<open>ok\<close> when it stored the element; \<open>get\<close> returns the element it took, or
  \<open>None\<close> when there is none.
\<close>

primrec put_all :: "('a \<Rightarrow> 'q \<Rightarrow> int \<times> 'q) \<Rightarrow> 'a list \<Rightarrow> 'q \<Rightarrow> int list \<times> 'q" where
  "put_all put [] q = ([], q)"
| "put_all put (x # xs) q =
     (case put x q of (r, q1) \<Rightarrow> case put_all put xs q1 of (rs, q2) \<Rightarrow> (r # rs, q2))"

primrec get_n :: "('q \<Rightarrow> 'a option \<times> 'q) \<Rightarrow> nat \<Rightarrow> 'q \<Rightarrow> 'a option list \<times> 'q" where
  "get_n get 0 q = ([], q)"
| "get_n get (Suc n) q =
     (case get q of (r, q1) \<Rightarrow> case get_n get n q1 of (rs, q2) \<Rightarrow> (r # rs, q2))"

lemma length_put_all: "length (fst (put_all put xs q)) = length xs"
  by (induction xs arbitrary: q) (auto simp: case_prod_beta)

locale bounded_queue =
  fixes invar :: "'q \<Rightarrow> bool"
    and put :: "'a \<Rightarrow> 'q \<Rightarrow> int \<times> 'q"
    and get :: "'q \<Rightarrow> 'a option \<times> 'q"
    and elems :: "'q \<Rightarrow> 'a list"
    and cap :: "'q \<Rightarrow> nat"
    and ok :: int
  assumes put_stored: "invar q \<Longrightarrow> length (elems q) < cap q \<Longrightarrow> put x q = (r, q') \<Longrightarrow>
      r = ok \<and> elems q' = elems q @ [x] \<and> cap q' = cap q \<and> invar q'"
    and put_refused: "invar q \<Longrightarrow> length (elems q) = cap q \<Longrightarrow> put x q = (r, q') \<Longrightarrow>
      r \<noteq> ok \<and> q' = q"
    and get_empty: "invar q \<Longrightarrow> elems q = [] \<Longrightarrow> get q = (None, q)"
    and get_first: "invar q \<Longrightarrow> elems q = x # xs \<Longrightarrow> get q = (y, q') \<Longrightarrow>
      y = Some x \<and> elems q' = xs \<and> cap q' = cap q \<and> invar q'"
    and elems_cap: "invar q \<Longrightarrow> length (elems q) \<le> cap q"
begin

text \<open>A burst longer than the free room: the first elements are stored, the others are refused.\<close>

lemma put_all_elems:
  assumes "invar q"
  shows "\<exists>q' rs. put_all put xs q = (replicate (min (length xs) (cap q - length (elems q))) ok @ rs, q') \<and>
      ok \<notin> set rs \<and> elems q' = elems q @ take (cap q - length (elems q)) xs \<and> cap q' = cap q \<and> invar q'"
  using assms
proof (induction xs arbitrary: q)
  case Nil
  then show ?case by auto
next
  case (Cons x xs)
  obtain r q1 where p: "put x q = (r, q1)" by fastforce
  show ?case
  proof (cases "length (elems q) < cap q")
    case True
    from put_stored [OF Cons.prems True p] Cons.IH [of q1] True p show ?thesis
      by (auto simp: take_Cons' Suc_diff_Suc [symmetric])
  next
    case False
    with elems_cap [OF Cons.prems] have "length (elems q) = cap q" by simp
    with put_refused [OF Cons.prems this p] Cons.IH [of q] Cons.prems p show ?thesis by auto
  qed
qed

lemma get_n_elems:
  assumes "invar q" and "n \<le> length (elems q)"
  shows "\<exists>q'. get_n get n q = (map Some (take n (elems q)), q') \<and>
      elems q' = drop n (elems q) \<and> cap q' = cap q \<and> invar q'"
  using assms
proof (induction n arbitrary: q)
  case 0
  then show ?case by simp
next
  case (Suc n)
  then obtain x xs where e: "elems q = x # xs" by (cases "elems q") auto
  obtain r q1 where g: "get q = (r, q1)" by fastforce
  from get_first [OF Suc.prems(1) e g] Suc.IH [of q1] Suc.prems(2) e g show ?case by auto
qed

text \<open>What goes into an empty queue that has room for it comes out in the same order.\<close>

lemma put_all_get_n:
  assumes "invar q" and "elems q = []" and "length xs \<le> cap q"
  shows "\<exists>q1 q2. put_all put xs q = (replicate (length xs) ok, q1) \<and>
      get_n get (length xs) q1 = (map Some xs, q2) \<and> elems q2 = [] \<and> invar q2"
proof -
  from put_all_elems [OF assms(1), of xs] assms obtain q1 rs where
    p: "put_all put xs q = (replicate (length xs) ok @ rs, q1)" "elems q1 = xs" "invar q1"
    by (auto simp: min_def)
  from p(1) length_put_all [of put xs q] have "rs = []" by simp
  with p get_n_elems [of q1 "length xs"] show ?thesis by auto
qed

end

end
