(* ===== verification/Process.thy ===== *)
theory Process
  imports Bounded_Queue Linked_List
begin

text \<open>
  The process kernel \<^verbatim>\<open>src/core/sys/process.c\<close>. The fields of \<^verbatim>\<open>struct process\<close> are maps from process
  pointers, so that the list of processes can change while a loop walks it.

  The protothread of a process is a parameter of the kernel: \<open>T p lc ev data\<close> is the program that
  the thread of \<open>p\<close> runs when it is called at the local continuation \<open>lc\<close>. A program is a sequence of
  calls of the kernel and of accesses to the rest of the memory (a value of type \<open>'a\<close>), which ends in
  a new local continuation and a return code. A thread may call the kernel that calls threads, so the
  functions that call threads take fuel; the run that needs more fuel is the fault \<open>Diverge\<close>. The
  number of events is that of the Sky platform, \<^verbatim>\<open>src/platform/sky/contiki-conf.h\<close>.
\<close>

unbundle bit_operations_syntax

section \<open>Processes, events and threads\<close>

definition PROCESS_CONF_NUMEVENTS :: nat where "PROCESS_CONF_NUMEVENTS = 8"

definition PROCESS_STATE_NONE :: u8 where "PROCESS_STATE_NONE = 0"
definition PROCESS_STATE_RUNNING :: u8 where "PROCESS_STATE_RUNNING = 1"
definition PROCESS_STATE_CALLED :: u8 where "PROCESS_STATE_CALLED = 2"

definition PROCESS_ERR_OK :: int where "PROCESS_ERR_OK = 0"
definition PROCESS_ERR_FULL :: int where "PROCESS_ERR_FULL = 1"

definition PROCESS_EVENT_INIT :: u8 where "PROCESS_EVENT_INIT = 0x81"
definition PROCESS_EVENT_POLL :: u8 where "PROCESS_EVENT_POLL = 0x82"
definition PROCESS_EVENT_EXIT :: u8 where "PROCESS_EVENT_EXIT = 0x83"
definition PROCESS_EVENT_EXITED :: u8 where "PROCESS_EVENT_EXITED = 0x87"
definition PROCESS_EVENT_TIMER :: u8 where "PROCESS_EVENT_TIMER = 0x88"
definition PROCESS_EVENT_MAX :: u8 where "PROCESS_EVENT_MAX = 0x8a"

datatype ptret = PT_WAITING | PT_YIELDED | PT_EXITED | PT_ENDED

record event_data =
  ev_ev :: u8
  ev_data :: "ptr option"
  ev_p :: "ptr option"

record kernel =
  pnext :: heap
  pstate :: "ptr \<Rightarrow> u8"
  needspoll :: "ptr \<Rightarrow> bool"
  plc :: "ptr \<Rightarrow> u16"
  process_list :: "ptr option"
  process_current :: "ptr option"
  lastevent :: u8
  nevents :: u8
  fevent :: u8
  events :: "event_data list"
  poll_requested :: bool

text \<open>
  The programs of threads: \<open>Get\<close> and \<open>Put\<close> are the accesses to the memory outside the kernel,
  \<open>Context\<close> is the assignment of \<^verbatim>\<open>PROCESS_CONTEXT_BEGIN\<close> and \<^verbatim>\<open>PROCESS_CONTEXT_END\<close>, the others are
  the functions of the kernel. \<open>Hang\<close> is a thread that never returns.
\<close>

datatype 'a prog =
    Ret u16 ptret
  | Hang
  | Get "'a \<Rightarrow> 'a prog"
  | Put 'a "'a prog"
  | Current "ptr option \<Rightarrow> 'a prog"
  | Context "ptr option" "'a prog"
  | Alloc_Event "u8 \<Rightarrow> 'a prog"
  | Post "ptr option" u8 "ptr option" "int \<Rightarrow> 'a prog"
  | Poll "ptr option" "'a prog"
  | Start ptr "ptr option" "'a prog"
  | Exit ptr "'a prog"
  | Post_Synch ptr u8 "ptr option" "'a prog"

type_synonym 'a world = "kernel \<times> 'a"
type_synonym 'a threads = "ptr \<Rightarrow> (u16 \<Rightarrow> u8 \<Rightarrow> ptr option \<Rightarrow> 'a prog) option"

section \<open>The operations that call no thread\<close>

definition process_alloc_event :: "kernel \<Rightarrow> u8 \<times> kernel" where
  "process_alloc_event k = (lastevent k, k\<lparr>lastevent := lastevent k + 1\<rparr>)"

definition process_init :: "kernel \<Rightarrow> kernel" where
  "process_init k = k\<lparr>lastevent := PROCESS_EVENT_MAX, nevents := 0, fevent := 0,
     process_current := None, process_list := None\<rparr>"

definition process_is_running :: "kernel \<Rightarrow> ptr \<Rightarrow> bool" where
  "process_is_running k p \<longleftrightarrow> pstate k p \<noteq> PROCESS_STATE_NONE"

definition process_nevents :: "kernel \<Rightarrow> int" where
  "process_nevents k = uint (nevents k) + (if poll_requested k then 1 else 0)"

definition process_poll :: "ptr option \<Rightarrow> kernel \<Rightarrow> kernel" where
  "process_poll p k = (case p of
       None \<Rightarrow> k
     | Some q \<Rightarrow>
         if pstate k q = PROCESS_STATE_RUNNING \<or> pstate k q = PROCESS_STATE_CALLED then
           k\<lparr>needspoll := (needspoll k)(q := True), poll_requested := True\<rparr>
         else k)"

definition process_post :: "ptr option \<Rightarrow> u8 \<Rightarrow> ptr option \<Rightarrow> kernel \<Rightarrow> int \<times> kernel" where
  "process_post p ev data k =
     (if unat (nevents k) = PROCESS_CONF_NUMEVENTS then (PROCESS_ERR_FULL, k)
      else
        let snum = unat (fevent k + nevents k) mod PROCESS_CONF_NUMEVENTS in
        (PROCESS_ERR_OK, k\<lparr>events := (events k)[snum := \<lparr>ev_ev = ev, ev_data = data, ev_p = p\<rparr>],
                           nevents := nevents k + 1\<rparr>))"

text \<open>The first statements of \<open>do_event\<close>: the oldest event leaves the queue.\<close>

definition take_event :: "kernel \<Rightarrow> event_data option \<times> kernel" where
  "take_event k =
     (if 0 < nevents k then
        (Some (events k ! unat (fevent k)),
         k\<lparr>fevent := of_nat (Suc (unat (fevent k)) mod PROCESS_CONF_NUMEVENTS), nevents := nevents k - 1\<rparr>)
      else (None, k))"

text \<open>The loop \<^verbatim>\<open>for(q = process_list; q != p && q != NULL; q = q->next);\<close>, which decides whether
  \<open>p\<close> is on the list, and the loop that takes \<open>p\<close> out of the list.\<close>

partial_function (option) find_process :: "heap \<Rightarrow> ptr option \<Rightarrow> ptr \<Rightarrow> ptr option option" where
  "find_process h q p = (case q of
       None \<Rightarrow> Some None
     | Some r \<Rightarrow> if r = p then Some (Some r) else find_process h (h r) p)"

partial_function (option) unlink_loop :: "heap \<Rightarrow> ptr option \<Rightarrow> ptr \<Rightarrow> heap option" where
  "unlink_loop h q p = (case q of
       None \<Rightarrow> Some h
     | Some r \<Rightarrow> if h r = Some p then Some (h(r := h p)) else unlink_loop h (h r) p)"

declare find_process.simps [code] unlink_loop.simps [code]

definition unlink_process :: "ptr \<Rightarrow> kernel \<Rightarrow> kernel res" where
  "unlink_process p k =
     (if process_list k = Some p then Ok (k\<lparr>process_list := pnext k p\<rparr>)
      else bindR (from_option Diverge (unlink_loop (pnext k) (process_list k) p))
             (\<lambda>h. Ok (k\<lparr>pnext := h\<rparr>)))"

section \<open>The operations that call threads\<close>

text \<open>
  \<open>cf\<close> is \<open>call_process\<close> and \<open>xf\<close> is \<open>exit_process\<close>, with the fuel that is left.
\<close>

type_synonym 'a call = "ptr \<Rightarrow> u8 \<Rightarrow> ptr option \<Rightarrow> 'a world \<Rightarrow> 'a world res"
type_synonym 'a exiter = "ptr \<Rightarrow> ptr option \<Rightarrow> 'a world \<Rightarrow> 'a world res"

definition process_post_synch :: "'a call \<Rightarrow> ptr \<Rightarrow> u8 \<Rightarrow> ptr option \<Rightarrow> 'a world \<Rightarrow> 'a world res" where
  "process_post_synch cf p ev data w =
     (let caller = process_current (fst w) in
      bindR (cf p ev data w) (\<lambda>(k, a). Ok (k\<lparr>process_current := caller\<rparr>, a)))"

definition process_start :: "'a call \<Rightarrow> ptr \<Rightarrow> ptr option \<Rightarrow> 'a world \<Rightarrow> 'a world res" where
  "process_start cf p data w =
     (case w of (k, a) \<Rightarrow>
        bindR (from_option Diverge (find_process (pnext k) (process_list k) p)) (\<lambda>q.
          if q = Some p then Ok w
          else process_post_synch cf p PROCESS_EVENT_INIT data
            (k\<lparr>pnext := (pnext k)(p := process_list k), process_list := Some p,
               pstate := (pstate k)(p := PROCESS_STATE_RUNNING), plc := (plc k)(p := 0)\<rparr>, a)))"

definition process_exit :: "'a exiter \<Rightarrow> ptr \<Rightarrow> 'a world \<Rightarrow> 'a world res" where
  "process_exit xf p w = xf p (process_current (fst w)) w"

primrec exec :: "'a call \<Rightarrow> 'a exiter \<Rightarrow> 'a prog \<Rightarrow> 'a world \<Rightarrow> ((u16 \<times> ptret) \<times> 'a world) res" where
  "exec cf xf (Ret l r) w = Ok ((l, r), w)"
| "exec cf xf Hang w = Fault Diverge"
| "exec cf xf (Get f) w = exec cf xf (f (snd w)) w"
| "exec cf xf (Put a c) w = exec cf xf c (fst w, a)"
| "exec cf xf (Current f) w = exec cf xf (f (process_current (fst w))) w"
| "exec cf xf (Context p c) w = exec cf xf c ((fst w)\<lparr>process_current := p\<rparr>, snd w)"
| "exec cf xf (Alloc_Event f) w =
     exec cf xf (f (fst (process_alloc_event (fst w)))) (snd (process_alloc_event (fst w)), snd w)"
| "exec cf xf (Post p ev d f) w =
     exec cf xf (f (fst (process_post p ev d (fst w)))) (snd (process_post p ev d (fst w)), snd w)"
| "exec cf xf (Poll p c) w = exec cf xf c (process_poll p (fst w), snd w)"
| "exec cf xf (Start p d c) w = bindR (process_start cf p d w) (exec cf xf c)"
| "exec cf xf (Exit p c) w = bindR (process_exit xf p w) (exec cf xf c)"
| "exec cf xf (Post_Synch p ev d c) w = bindR (process_post_synch cf p ev d w) (exec cf xf c)"

text \<open>
  The bodies of \<open>call_process\<close>, \<open>exit_process\<close> and the loop of \<open>exit_process\<close> that tells all other
  processes (\<open>nf\<close> is the rest of that loop). \<open>exit_process\<close> calls the thread of the exiting process
  directly, without the test and the update of its state.
\<close>

type_synonym 'a notifier = "ptr option \<Rightarrow> ptr \<Rightarrow> 'a world \<Rightarrow> 'a world res"

definition call_body :: "'a threads \<Rightarrow> 'a call \<Rightarrow> 'a exiter \<Rightarrow> 'a call" where
  "call_body T cf xf p ev data w = (case w of (k, a) \<Rightarrow>
     if pstate k p AND PROCESS_STATE_RUNNING \<noteq> 0 then
       (case T p of
          None \<Rightarrow> Ok w
        | Some thread \<Rightarrow>
            bindR (exec cf xf (thread (plc k p) ev data)
                    (k\<lparr>process_current := Some p, pstate := (pstate k)(p := PROCESS_STATE_CALLED)\<rparr>, a))
              (\<lambda>((l, ret), (k1, a1)).
                 let k2 = k1\<lparr>plc := (plc k1)(p := l)\<rparr> in
                 if ret = PT_EXITED \<or> ret = PT_ENDED \<or> ev = PROCESS_EVENT_EXIT then
                   xf p (Some p) (k2, a1)
                 else Ok (k2\<lparr>pstate := (pstate k2)(p := PROCESS_STATE_RUNNING)\<rparr>, a1)))
     else Ok w)"

definition notify_body :: "'a call \<Rightarrow> 'a notifier \<Rightarrow> 'a notifier" where
  "notify_body cf nf q p w = (case q of
       None \<Rightarrow> Ok w
     | Some r \<Rightarrow> bindR (if p \<noteq> r then cf r PROCESS_EVENT_EXITED (Some p) w else Ok w)
                  (\<lambda>w1. nf (pnext (fst w1) r) p w1))"

definition last_call :: "'a threads \<Rightarrow> 'a call \<Rightarrow> 'a exiter \<Rightarrow> 'a exiter" where
  "last_call T cf xf p from w = (case T p of
       None \<Rightarrow> Ok w
     | Some thread \<Rightarrow>
         if from \<noteq> Some p then
           bindR (exec cf xf (thread (plc (fst w) p) PROCESS_EVENT_EXIT None)
                    ((fst w)\<lparr>process_current := Some p\<rparr>, snd w))
             (\<lambda>((l, ret), (k, a)). Ok (k\<lparr>plc := (plc k)(p := l)\<rparr>, a))
         else Ok w)"

definition exit_body :: "'a threads \<Rightarrow> 'a call \<Rightarrow> 'a exiter \<Rightarrow> 'a notifier \<Rightarrow> 'a exiter" where
  "exit_body T cf xf nf p from w = (case w of (k, a) \<Rightarrow>
     bindR (from_option Diverge (find_process (pnext k) (process_list k) p)) (\<lambda>q.
       if q = None then Ok w
       else
         let old_current = process_current k in
         bindR
           (if process_is_running k p then
              bindR (nf (process_list k) p (k\<lparr>pstate := (pstate k)(p := PROCESS_STATE_NONE)\<rparr>, a))
                (last_call T cf xf p from)
            else Ok w)
           (\<lambda>(k1, a1). bindR (unlink_process p k1) (\<lambda>k2.
              Ok (k2\<lparr>process_current := old_current\<rparr>, a1)))))"

fun call_process :: "'a threads \<Rightarrow> nat \<Rightarrow> 'a call"
  and exit_process :: "'a threads \<Rightarrow> nat \<Rightarrow> 'a exiter"
  and notify_loop :: "'a threads \<Rightarrow> nat \<Rightarrow> 'a notifier" where
  "call_process T 0 = (\<lambda>p ev data w. Fault Diverge)"
| "call_process T (Suc n) = call_body T (call_process T n) (exit_process T n)"
| "exit_process T 0 = (\<lambda>p from w. Fault Diverge)"
| "exit_process T (Suc n) =
     exit_body T (call_process T n) (exit_process T n) (notify_loop T n)"
| "notify_loop T 0 = (\<lambda>q p w. Fault Diverge)"
| "notify_loop T (Suc n) = notify_body (call_process T n) (notify_loop T n)"

fun poll_loop :: "'a threads \<Rightarrow> nat \<Rightarrow> ptr option \<Rightarrow> 'a world \<Rightarrow> 'a world res" where
  "poll_loop T 0 p w = Fault Diverge"
| "poll_loop T (Suc n) None w = Ok w"
| "poll_loop T (Suc n) (Some p) (k, a) =
     bindR (if needspoll k p then
              call_process T n p PROCESS_EVENT_POLL None
                (k\<lparr>pstate := (pstate k)(p := PROCESS_STATE_RUNNING), needspoll := (needspoll k)(p := False)\<rparr>, a)
            else Ok (k, a))
       (\<lambda>w1. poll_loop T n (pnext (fst w1) p) w1)"

definition do_poll :: "'a threads \<Rightarrow> nat \<Rightarrow> 'a world \<Rightarrow> 'a world res" where
  "do_poll T n w = (case w of (k, a) \<Rightarrow>
     poll_loop T n (process_list k) (k\<lparr>poll_requested := False\<rparr>, a))"

fun broadcast_loop :: "'a threads \<Rightarrow> nat \<Rightarrow> u8 \<Rightarrow> ptr option \<Rightarrow> ptr option \<Rightarrow> 'a world \<Rightarrow> 'a world res" where
  "broadcast_loop T 0 ev data p w = Fault Diverge"
| "broadcast_loop T (Suc n) ev data None w = Ok w"
| "broadcast_loop T (Suc n) ev data (Some p) w =
     bindR (if poll_requested (fst w) then do_poll T n w else Ok w) (\<lambda>w1.
       bindR (call_process T n p ev data w1) (\<lambda>w2.
         broadcast_loop T n ev data (pnext (fst w2) p) w2))"

definition do_event :: "'a threads \<Rightarrow> nat \<Rightarrow> 'a world \<Rightarrow> 'a world res" where
  "do_event T n w = (case w of (k, a) \<Rightarrow>
     (case take_event k of
        (None, k1) \<Rightarrow> Ok (k1, a)
      | (Some e, k1) \<Rightarrow>
          (case ev_p e of
             None \<Rightarrow> broadcast_loop T n (ev_ev e) (ev_data e) (process_list k1) (k1, a)
           | Some receiver \<Rightarrow>
               let k2 = (if ev_ev e = PROCESS_EVENT_INIT then
                           k1\<lparr>pstate := (pstate k1)(receiver := PROCESS_STATE_RUNNING)\<rparr>
                         else k1)
               in call_process T n receiver (ev_ev e) (ev_data e) (k2, a))))"

definition process_run :: "'a threads \<Rightarrow> nat \<Rightarrow> 'a world \<Rightarrow> (int \<times> 'a world) res" where
  "process_run T n w =
     bindR (if poll_requested (fst w) then do_poll T n w else Ok w) (\<lambda>w1.
       bindR (do_event T n w1) (\<lambda>w2. Ok (process_nevents (fst w2), w2)))"

end
