(* ===== verification/Process_Laws.thy ===== *)
theory Process_Laws
  imports Process
begin

text \<open>
  The process kernel keeps its invariants whatever the threads do. The locales \<open>kernel_calls\<close> and
  \<open>kernel_invariant\<close> ask only that the elementary updates of the kernel keep a predicate; every
  operation that calls threads then keeps it, for all threads and all fuel. They are interpreted for
  the well-formedness of the kernel and for the order of the event queue.
\<close>

section \<open>Invariants of the elementary updates\<close>

abbreviation wkeeps :: "(kernel \<Rightarrow> bool) \<Rightarrow> ('a world \<Rightarrow> 'a world res) \<Rightarrow> bool" where
  "wkeeps I f \<equiv> keeps (\<lambda>w. I (fst w)) f"

lemma wkeepsD: "wkeeps I f \<Longrightarrow> I k \<Longrightarrow> f (k, a) = Ok w \<Longrightarrow> I (fst w)"
  using keepsD [of "\<lambda>w. I (fst w)" f "(k, a)" w] by simp

locale kernel_calls =
  fixes I :: "kernel \<Rightarrow> bool"
  assumes post: "I k \<Longrightarrow> I (snd (process_post r ev d k))"
    and poll: "I k \<Longrightarrow> I (process_poll r k)"
    and alloc_event: "I k \<Longrightarrow> I (snd (process_alloc_event k))"
    and current: "I k \<Longrightarrow> I (k\<lparr>process_current := c\<rparr>)"
    and state: "I k \<Longrightarrow> s \<in> {PROCESS_STATE_NONE, PROCESS_STATE_RUNNING, PROCESS_STATE_CALLED} \<Longrightarrow>
      I (k\<lparr>pstate := (pstate k)(p := s)\<rparr>)"
    and cont: "I k \<Longrightarrow> I (k\<lparr>plc := f\<rparr>)"
    and polled: "I k \<Longrightarrow> I (k\<lparr>needspoll := (needspoll k)(p := False)\<rparr>)"
    and unrequested: "I k \<Longrightarrow> I (k\<lparr>poll_requested := False\<rparr>)"
    and pushed: "I k \<Longrightarrow> find_process (pnext k) (process_list k) p = Some q \<Longrightarrow> q \<noteq> Some p \<Longrightarrow>
      I (k\<lparr>pnext := (pnext k)(p := process_list k), process_list := Some p\<rparr>)"
    and unlinked: "I k \<Longrightarrow> unlink_process p k = Ok k' \<Longrightarrow> I k'"
begin

lemma synch_keeps:
  assumes "\<And>p ev d. wkeeps I (cf p ev d)"
  shows "wkeeps I (process_post_synch cf p ev d)"
  by (rule keepsI) (auto simp: process_post_synch_def Let_def res_iff intro!: current dest: keepsD [OF assms])

lemma start_keeps:
  assumes "\<And>p ev d. wkeeps I (cf p ev d)"
  shows "wkeeps I (process_start cf p d)"
proof (rule keepsI)
  fix w w' :: "'a world"
  assume i: "I (fst w)" and r: "process_start cf p d w = Ok w'"
  obtain k a where w: "w = (k, a)" by (cases w)
  from r w obtain q where q: "find_process (pnext k) (process_list k) p = Some q"
    by (auto simp: process_start_def res_iff)
  show "I (fst w')"
  proof (cases "q = Some p")
    case True
    with r w q i show ?thesis by (simp add: process_start_def)
  next
    case False
    let ?k = "k\<lparr>pnext := (pnext k)(p := process_list k), process_list := Some p\<rparr>"
    have "I (?k\<lparr>pstate := (pstate ?k)(p := PROCESS_STATE_RUNNING), plc := (plc k)(p := 0)\<rparr>)"
      using pushed [OF _ q False] i w by (intro cont state) simp_all
    moreover have "process_post_synch cf p PROCESS_EVENT_INIT d
        (?k\<lparr>pstate := (pstate ?k)(p := PROCESS_STATE_RUNNING), plc := (plc k)(p := 0)\<rparr>, a) = Ok w'"
      using r w q False by (simp add: process_start_def)
    ultimately show ?thesis by (rule wkeepsD [OF synch_keeps [OF assms]])
  qed
qed

lemma exec_keeps:
  assumes cf: "\<And>p ev d. wkeeps I (cf p ev d)" and xf: "\<And>p from. wkeeps I (xf p from)"
  shows "I (fst w) \<Longrightarrow> exec cf xf c w = Ok (r, w') \<Longrightarrow> I (fst w')"
proof (induction c arbitrary: w)
  case (Start p d c)
  from Start.prems obtain w1 where 1: "process_start cf p d w = Ok w1" and "exec cf xf c w1 = Ok (r, w')"
    by (auto simp: res_iff)
  with Start.IH keepsD [OF start_keeps [OF cf] Start.prems(1) 1] show ?case by simp
next
  case (Exit p c)
  from Exit.prems obtain w1 where 1: "xf p (process_current (fst w)) w = Ok w1" and "exec cf xf c w1 = Ok (r, w')"
    by (auto simp: res_iff process_exit_def)
  with Exit.IH keepsD [OF xf Exit.prems(1) 1] show ?case by simp
next
  case (Post_Synch p ev d c)
  from Post_Synch.prems obtain w1 where 1: "process_post_synch cf p ev d w = Ok w1"
    and "exec cf xf c w1 = Ok (r, w')" by (auto simp: res_iff)
  with Post_Synch.IH keepsD [OF synch_keeps [OF cf] Post_Synch.prems(1) 1] show ?case by simp
next
  case (Context p c)
  show ?case by (rule Context.IH [of "((fst w)\<lparr>process_current := p\<rparr>, snd w)"]) 
      (use Context.prems in \<open>auto intro: current\<close>)
next
  case (Alloc_Event f)
  show ?case
    by (rule Alloc_Event.IH [of _ "(snd (process_alloc_event (fst w)), snd w)"])
      (use Alloc_Event.prems in \<open>auto intro: alloc_event\<close>)
next
  case (Post p ev d f)
  show ?case
    by (rule Post.IH [of _ "(snd (process_post p ev d (fst w)), snd w)"]) (use Post.prems in \<open>auto intro: post\<close>)
next
  case (Poll p c)
  show ?case by (rule Poll.IH [of "(process_poll p (fst w), snd w)"]) (use Poll.prems in \<open>auto intro: poll\<close>)
next
  case (Get f)
  show ?case by (rule Get.IH [of "f (snd w)" w]) (use Get.prems in auto)
next
  case (Current f)
  show ?case by (rule Current.IH [of "f (process_current (fst w))" w]) (use Current.prems in auto)
next
  case (Put a c)
  show ?case by (rule Put.IH [of "(fst w, a)"]) (use Put.prems in auto)
qed auto

lemma call_body_keeps:
  assumes cf: "\<And>p ev d. wkeeps I (cf p ev d)" and xf: "\<And>p from. wkeeps I (xf p from)"
  shows "wkeeps I (call_body T cf xf p ev d)"
proof (rule keepsI)
  fix w w' :: "'a world"
  assume i: "I (fst w)" and r: "call_body T cf xf p ev d w = Ok w'"
  obtain k a where w: "w = (k, a)" by (cases w)
  let ?k = "k\<lparr>process_current := Some p, pstate := (pstate k)(p := PROCESS_STATE_CALLED)\<rparr>"
  have k: "I ?k" using state [OF current [of k "Some p"], of PROCESS_STATE_CALLED p] i w by simp
  show "I (fst w')"
  proof (cases "pstate k p AND PROCESS_STATE_RUNNING \<noteq> 0 \<and> T p \<noteq> None")
    case False
    with r w i show ?thesis by (auto simp: call_body_def split: if_splits)
  next
    case True
    then obtain th l ret k1 a1 where e: "exec cf xf (th (plc k p) ev d) (?k, a) = Ok ((l, ret), (k1, a1))"
      and r': "(let k2 = k1\<lparr>plc := (plc k1)(p := l)\<rparr> in
          if ret = PT_EXITED \<or> ret = PT_ENDED \<or> ev = PROCESS_EVENT_EXIT then xf p (Some p) (k2, a1)
          else Ok (k2\<lparr>pstate := (pstate k2)(p := PROCESS_STATE_RUNNING)\<rparr>, a1)) = Ok w'"
      using r w by (auto simp: call_body_def res_iff)
    have 2: "I (k1\<lparr>plc := (plc k1)(p := l)\<rparr>)" using exec_keeps [OF cf xf _ e] k by (auto intro: cont)
    from r' show ?thesis
      using keepsD [OF xf, of "(k1\<lparr>plc := (plc k1)(p := l)\<rparr>, a1)" p "Some p" w'] 2
        state [OF 2, of PROCESS_STATE_RUNNING p] by (auto simp: Let_def split: if_splits)
  qed
qed

lemma last_call_keeps:
  assumes cf: "\<And>p ev d. wkeeps I (cf p ev d)" and xf: "\<And>p from. wkeeps I (xf p from)"
  shows "wkeeps I (last_call T cf xf p from)"
proof (rule keepsI)
  fix w w' :: "'a world"
  assume i: "I (fst w)" and r: "last_call T cf xf p from w = Ok w'"
  show "I (fst w')"
  proof (cases "T p = None \<or> from = Some p")
    case True
    with r i show ?thesis by (auto simp: last_call_def split: option.splits)
  next
    case False
    then obtain th l ret k a where
      e: "exec cf xf (th (plc (fst w) p) PROCESS_EVENT_EXIT None) ((fst w)\<lparr>process_current := Some p\<rparr>, snd w) =
        Ok ((l, ret), (k, a))" and "w' = (k\<lparr>plc := (plc k)(p := l)\<rparr>, a)"
      using r by (auto simp: last_call_def res_iff)
    with exec_keeps [OF cf xf _ e] current [OF i] show ?thesis by (auto intro: cont)
  qed
qed

lemma exit_body_keeps:
  assumes cf: "\<And>p ev d. wkeeps I (cf p ev d)" and xf: "\<And>p from. wkeeps I (xf p from)"
    and nf: "\<And>q p. wkeeps I (nf q p)"
  shows "wkeeps I (exit_body T cf xf nf p from)"
proof (rule keepsI)
  fix w w' :: "'a world"
  assume i: "I (fst w)" and r: "exit_body T cf xf nf p from w = Ok w'"
  obtain k a where w: "w = (k, a)" by (cases w)
  let ?run = "if process_is_running k p then
      bindR (nf (process_list k) p (k\<lparr>pstate := (pstate k)(p := PROCESS_STATE_NONE)\<rparr>, a))
        (last_call T cf xf p from)
    else Ok w"
  have run: "I (fst w1)" if run1: "?run = Ok w1" for w1
  proof (cases "process_is_running k p")
    case True
    then obtain w2 where "nf (process_list k) p (k\<lparr>pstate := (pstate k)(p := PROCESS_STATE_NONE)\<rparr>, a) = Ok w2"
      and l: "last_call T cf xf p from w2 = Ok w1" using run1 by (auto simp: res_iff)
    then have "I (fst w2)" using wkeepsD [OF nf] state [of k PROCESS_STATE_NONE p] i w by simp
    then show ?thesis using keepsD [OF last_call_keeps [OF cf xf] _ l] by simp
  next
    case False
    with run1 i show ?thesis by simp
  qed
  from r w consider "w' = w" | k1 a1 k2 where "?run = Ok (k1, a1)" "unlink_process p k1 = Ok k2"
      "w' = (k2\<lparr>process_current := process_current k\<rparr>, a1)"
    by (auto simp: exit_body_def res_iff Let_def split: if_splits)
  then show "I (fst w')"
  proof cases
    case 2
    then show ?thesis using current [OF unlinked [OF run [OF 2(1)]]] by simp
  qed (simp add: i)
qed

lemma notify_body_keeps:
  assumes cf: "\<And>p ev d. wkeeps I (cf p ev d)" and nf: "\<And>q p. wkeeps I (nf q p)"
  shows "wkeeps I (notify_body cf nf q p)"
proof (cases q)
  case None
  then show ?thesis by (simp add: notify_body_def keeps_def)
next
  case (Some r)
  have "wkeeps I (\<lambda>w. if p \<noteq> r then cf r PROCESS_EVENT_EXITED (Some p) w else Ok w)"
    by (intro keeps_rules cf)
  moreover have "wkeeps I (\<lambda>w1. nf (pnext (fst w1) r) p w1)" using nf unfolding keeps_def by blast
  ultimately show ?thesis using Some by (simp add: notify_body_def [abs_def] keeps_bind)
qed

lemma calls_keep:
  "wkeeps I (call_process T n p ev d)"
  "wkeeps I (exit_process T n p from)"
  "wkeeps I (notify_loop T n q p)"
proof -
  have "(\<forall>p ev d. wkeeps I (call_process T n p ev d)) \<and> (\<forall>p from. wkeeps I (exit_process T n p from)) \<and>
      (\<forall>q p. wkeeps I (notify_loop T n q p))"
  proof (induction n)
    case 0
    then show ?case by (simp add: keeps_def)
  next
    case (Suc n)
    then show ?case by (simp add: call_body_keeps exit_body_keeps notify_body_keeps)
  qed
  then show "wkeeps I (call_process T n p ev d)" "wkeeps I (exit_process T n p from)"
    "wkeeps I (notify_loop T n q p)" by blast+
qed

lemma poll_loop_keeps: "wkeeps I (poll_loop T n q)"
proof (induction n arbitrary: q)
  case 0
  then show ?case by (simp add: keeps_def)
next
  case (Suc n)
  show ?case
  proof (rule keepsI)
    fix w w' :: "'a world"
    assume i: "I (fst w)" and r: "poll_loop T (Suc n) q w = Ok w'"
    obtain k a where w: "w = (k, a)" by (cases w)
    show "I (fst w')"
    proof (cases q)
      case None
      with r i show ?thesis by simp
    next
      case (Some p)
      let ?k = "k\<lparr>pstate := (pstate k)(p := PROCESS_STATE_RUNNING), needspoll := (needspoll k)(p := False)\<rparr>"
      have k: "I ?k" using polled [OF state [of k PROCESS_STATE_RUNNING p], of p] i w by simp
      from Some r w obtain w1 where
        "(if needspoll k p then call_process T n p PROCESS_EVENT_POLL None (?k, a) else Ok (k, a)) = Ok w1"
        and 1: "poll_loop T n (pnext (fst w1) p) w1 = Ok w'" by (auto simp: res_iff)
      then have "I (fst w1)" 
        using wkeepsD [OF calls_keep(1) k, of T n p PROCESS_EVENT_POLL None a w1] i w by (auto split: if_splits)
      then show ?thesis using keepsD [OF Suc.IH _ 1] by simp
    qed
  qed
qed

lemma do_poll_keeps: "wkeeps I (do_poll T n)"
  by (rule keepsI) (auto simp: do_poll_def dest!: wkeepsD [OF poll_loop_keeps unrequested, rotated])

lemma broadcast_loop_keeps: "wkeeps I (broadcast_loop T n ev d q)"
proof (induction n arbitrary: q)
  case 0
  then show ?case by (simp add: keeps_def)
next
  case (Suc n)
  have poll: "wkeeps I (\<lambda>w. if poll_requested (fst w) then do_poll T n w else Ok w)"
    by (intro keeps_rules do_poll_keeps)
  have rest: "wkeeps I (\<lambda>w2. broadcast_loop T n ev d (pnext (fst w2) p) w2)" for p
    using Suc.IH unfolding keeps_def by blast
  have "wkeeps I (broadcast_loop T (Suc n) ev d (Some p))" for p
    using keeps_bind [OF poll keeps_bind [OF calls_keep(1) rest]] by (simp add: keeps_def)
  moreover have "wkeeps I (broadcast_loop T (Suc n) ev d None)" by (simp add: keeps_def)
  ultimately show ?case by (cases q) (simp_all del: broadcast_loop.simps)
qed

end

text \<open>An invariant of the whole kernel is also kept when an event leaves the queue.\<close>

locale kernel_invariant = kernel_calls +
  assumes taken: "I k \<Longrightarrow> I (snd (take_event k))"
begin

lemma do_event_keeps: "wkeeps I (do_event T n)"
proof (rule keepsI)
  fix w w' :: "'a world"
  assume i: "I (fst w)" and r: "do_event T n w = Ok w'"
  obtain k a e k1 where w: "w = (k, a)" and t: "take_event k = (e, k1)" by (cases w, cases "take_event (fst w)") auto
  have 1: "I k1" using taken [of k] i w t by simp
  show "I (fst w')"
  proof (cases e)
    case None
    with r w t 1 show ?thesis by (auto simp: do_event_def)
  next
    case (Some d)
    show ?thesis
    proof (cases "ev_p d")
      case None
      with r w t Some have "broadcast_loop T n (ev_ev d) (ev_data d) (process_list k1) (k1, a) = Ok w'"
        by (simp add: do_event_def)
      then show ?thesis by (rule wkeepsD [OF broadcast_loop_keeps 1])
    next
      case (Some p)
      let ?k = "if ev_ev d = PROCESS_EVENT_INIT then k1\<lparr>pstate := (pstate k1)(p := PROCESS_STATE_RUNNING)\<rparr> else k1"
      have "call_process T n p (ev_ev d) (ev_data d) (?k, a) = Ok w'"
        using r w t \<open>e = Some d\<close> Some by (simp add: do_event_def Let_def)
      moreover have "I ?k" using 1 state [of k1 PROCESS_STATE_RUNNING p] by simp
      ultimately show ?thesis using wkeepsD [OF calls_keep(1)] by metis
    qed
  qed
qed

lemma run_keeps:
  assumes "I (fst w)" and "process_run T n w = Ok (r, w')"
  shows "I (fst w')"
proof -
  have "wkeeps I (\<lambda>w. if poll_requested (fst w) then do_poll T n w else Ok w)"
    by (intro keeps_rules do_poll_keeps)
  note k = keepsD [OF keeps_bind [OF this do_event_keeps [of T n]] assms(1)]
  show ?thesis by (rule k) (use assms(2) in \<open>auto simp: process_run_def res_iff\<close>)
qed

end

section \<open>The invariant of the kernel\<close>

definition kernel_ok :: "kernel \<Rightarrow> bool" where
  "kernel_ok k \<longleftrightarrow> (\<exists>ps. chain (pnext k) (process_list k) ps) \<and>
     length (events k) = PROCESS_CONF_NUMEVENTS \<and> unat (fevent k) < PROCESS_CONF_NUMEVENTS \<and>
     unat (nevents k) \<le> PROCESS_CONF_NUMEVENTS \<and>
     (\<forall>p. pstate k p \<in> {PROCESS_STATE_NONE, PROCESS_STATE_RUNNING, PROCESS_STATE_CALLED})"

lemma find_process_chain:
  "chain h l xs \<Longrightarrow> find_process h l p = Some (if p \<in> set xs then Some p else None)"
proof (induction xs arbitrary: l)
  case Nil
  then show ?case by (simp add: find_process.simps)
next
  case (Cons x xs)
  then show ?case by (auto simp: find_process.simps [of h "Some x" p])
qed

lemma unlink_loop_chain:
  assumes "chain h l (pre @ q # xs)" and "p \<notin> set (pre @ [q])"
  shows "\<exists>h'. unlink_loop h (Some q) p = Some h' \<and> chain h' l (pre @ q # remove1 p xs)"
  using assms
proof (induction xs arbitrary: pre q)
  case Nil
  then have "h q = None" using chain_snoc [of h l pre q] by simp
  with Nil show ?case by (simp add: unlink_loop.simps [of h "Some q" p] unlink_loop.simps [of h None p])
next
  case (Cons x xs)
  have hq: "h q = Some x" using chain_split [OF Cons.prems(1)] by simp
  show ?case
  proof (cases "x = p")
    case True
    have "chain h (h p) xs" using chain_split [of h l "pre @ [q]" x xs] Cons.prems(1) True by simp
    moreover have "q \<notin> set xs" using chain_distinct [OF Cons.prems(1)] by auto
    ultimately have "chain (h(q := h p)) l (pre @ q # xs)" by (rule chain_splice [OF Cons.prems(1)])
    with True hq show ?thesis by (simp add: unlink_loop.simps [of h "Some q" p])
  next
    case False
    with Cons.IH [of "pre @ [q]" x] Cons.prems hq show ?thesis
      by (simp add: unlink_loop.simps [of h "Some q" p])
  qed
qed

text \<open>Taking a process out of the list always ends, and removes exactly that process.\<close>

lemma unlink_process_chain:
  assumes "chain (pnext k) (process_list k) ps"
  shows "\<exists>h l. unlink_process p k = Ok (k\<lparr>pnext := h, process_list := l\<rparr>) \<and> chain h l (remove1 p ps)"
proof (cases ps)
  case Nil
  with assms show ?thesis
    by (auto simp: unlink_process_def unlink_loop.simps intro!: exI [of _ "pnext k"] exI [of _ None])
next
  case (Cons x xs)
  show ?thesis
  proof (cases "x = p")
    case True
    with Cons assms have "unlink_process p k = Ok (k\<lparr>pnext := pnext k, process_list := pnext k p\<rparr>) \<and>
        chain (pnext k) (pnext k p) (remove1 p ps)" by (simp add: unlink_process_def)
    then show ?thesis by blast
  next
    case False
    have l: "process_list k = Some x" using Cons assms by simp
    from unlink_loop_chain [of "pnext k" "process_list k" "[]" x xs p] Cons assms False l obtain h where
      h: "unlink_loop (pnext k) (Some x) p = Some h" "chain h (Some x) (x # remove1 p xs)" by auto
    have "k\<lparr>pnext := h\<rparr> = k\<lparr>pnext := h, process_list := Some x\<rparr>" using l by simp
    with h(1) l False have "unlink_process p k = Ok (k\<lparr>pnext := h, process_list := Some x\<rparr>)"
      by (simp add: unlink_process_def)
    moreover have "chain h (Some x) (remove1 p ps)" using h(2) False Cons by simp
    ultimately show ?thesis by blast
  qed
qed

lemma process_post_ok:
  assumes "kernel_ok k"
  shows "kernel_ok (snd (process_post p ev d k))"
proof (cases "unat (nevents k) = PROCESS_CONF_NUMEVENTS")
  case True
  with assms show ?thesis by (simp add: process_post_def)
next
  case False
  with assms have "unat (nevents k) < 8" by (simp add: kernel_ok_def PROCESS_CONF_NUMEVENTS_def)
  then have "unat (nevents k + 1) = Suc (unat (nevents k))" by (simp add: unat_word_ariths)
  with False assms show ?thesis
    by (simp add: process_post_def kernel_ok_def PROCESS_CONF_NUMEVENTS_def Let_def)
qed

lemma take_event_ok:
  assumes "kernel_ok k"
  shows "kernel_ok (snd (take_event k))"
proof (cases "0 < nevents k")
  case True
  have "unat (nevents k - 1) = unat (nevents k) - 1" using True by (simp add: unat_minus_one word_greater_zero_iff)
  with True assms show ?thesis
    by (auto simp: take_event_def kernel_ok_def PROCESS_CONF_NUMEVENTS_def unat_of_nat)
qed (use assms in \<open>simp add: take_event_def\<close>)

interpretation ki: kernel_invariant kernel_ok
proof unfold_locales
  fix k p q
  assume k: "kernel_ok k" and f: "find_process (pnext k) (process_list k) p = Some q" and q: "q \<noteq> Some p"
  then obtain ps where ps: "chain (pnext k) (process_list k) ps" by (auto simp: kernel_ok_def)
  then have "p \<notin> set ps" using find_process_chain [of _ _ ps p] f q by (auto split: if_splits)
  then have "chain ((pnext k)(p := process_list k)) (Some p) (p # ps)" using ps by simp
  then show "kernel_ok (k\<lparr>pnext := (pnext k)(p := process_list k), process_list := Some p\<rparr>)"
    using k unfolding kernel_ok_def by (auto simp del: chain.simps fun_upd_apply)
next
  fix k p k'
  assume k: "kernel_ok k" and u: "unlink_process p k = Ok k'"
  then obtain ps where "chain (pnext k) (process_list k) ps" by (auto simp: kernel_ok_def)
  from unlink_process_chain [OF this, of p] k u show "kernel_ok k'" by (auto simp: kernel_ok_def)
qed (simp_all add: process_post_ok take_event_ok, auto simp: kernel_ok_def process_poll_def
     process_alloc_event_def split: option.splits)

section \<open>The event queue\<close>

definition event_queue :: "kernel \<Rightarrow> event_data list" where
  "event_queue k = ring (events k) (unat (fevent k)) (unat (nevents k))"

definition post_event :: "event_data \<Rightarrow> kernel \<Rightarrow> int \<times> kernel" where
  "post_event e k = process_post (ev_p e) (ev_ev e) (ev_data e) k"

lemma post_event_room:
  assumes k: "kernel_ok k" and n: "unat (nevents k) < PROCESS_CONF_NUMEVENTS"
  shows "fst (post_event e k) = PROCESS_ERR_OK" and "event_queue (snd (post_event e k)) = event_queue k @ [e]"
proof -
  have e: "\<lparr>ev_ev = ev_ev e, ev_data = ev_data e, ev_p = ev_p e\<rparr> = e" by simp
  have 8: "unat (nevents k) < 8" "unat (fevent k) < 8" "length (events k) = 8"
    using k n by (auto simp: kernel_ok_def PROCESS_CONF_NUMEVENTS_def)
  then have "unat (nevents k + 1) = Suc (unat (nevents k))"
    and "unat (fevent k + nevents k) = unat (fevent k) + unat (nevents k)" by (simp_all add: unat_word_ariths)
  with 8 ring_put [of "unat (nevents k)" "events k" "unat (fevent k)" e]
  show "event_queue (snd (post_event e k)) = event_queue k @ [e]"
    by (simp add: post_event_def process_post_def event_queue_def PROCESS_CONF_NUMEVENTS_def Let_def e)
  show "fst (post_event e k) = PROCESS_ERR_OK"
    using 8 by (simp add: post_event_def process_post_def PROCESS_CONF_NUMEVENTS_def Let_def)
qed

lemma take_event_Cons:
  assumes k: "kernel_ok k" and q: "event_queue k = e # es"
  shows "fst (take_event k) = Some e" and "event_queue (snd (take_event k)) = es"
proof -
  have 8: "unat (fevent k) < 8" "length (events k) = 8"
    using k by (auto simp: kernel_ok_def PROCESS_CONF_NUMEVENTS_def)
  from q obtain n where n: "unat (nevents k) = Suc n" by (cases "unat (nevents k)") (auto simp: event_queue_def)
  then have pos: "0 < nevents k" by (simp add: word_greater_zero_iff unat_gt_0 [symmetric])
  have "unat (nevents k - 1) = n" using n pos by (simp add: unat_minus_one word_greater_zero_iff)
  moreover have "unat (of_nat (Suc (unat (fevent k)) mod 8) :: u8) = Suc (unat (fevent k)) mod 8"
    by (simp add: unat_of_nat)
  ultimately show "fst (take_event k) = Some e" and "event_queue (snd (take_event k)) = es"
    using q n pos 8 ring_get [of "unat (fevent k)" "events k" n]
    by (simp_all add: take_event_def event_queue_def PROCESS_CONF_NUMEVENTS_def)
qed

interpretation eq: bounded_queue kernel_ok post_event take_event event_queue
  "\<lambda>k. PROCESS_CONF_NUMEVENTS" PROCESS_ERR_OK
proof unfold_locales
  fix k k' :: kernel and e r
  assume "kernel_ok k" and "length (event_queue k) < PROCESS_CONF_NUMEVENTS" and "post_event e k = (r, k')"
  then show "r = PROCESS_ERR_OK \<and> event_queue k' = event_queue k @ [e] \<and>
      PROCESS_CONF_NUMEVENTS = PROCESS_CONF_NUMEVENTS \<and> kernel_ok k'"
    using post_event_room [of k e] process_post_ok [of k "ev_p e" "ev_ev e" "ev_data e"]
    by (auto simp: event_queue_def post_event_def)
next
  fix k k' :: kernel and e r
  assume "length (event_queue k) = PROCESS_CONF_NUMEVENTS" and "post_event e k = (r, k')"
  then show "r \<noteq> PROCESS_ERR_OK \<and> k' = k"
    by (auto simp: event_queue_def post_event_def process_post_def PROCESS_ERR_OK_def PROCESS_ERR_FULL_def)
next
  fix k :: kernel
  assume "event_queue k = []"
  then have "length (event_queue k) = 0" by simp
  then show "take_event k = (None, k)" by (simp add: event_queue_def take_event_def unat_eq_0)
next
  fix k k' :: kernel and e es y
  assume "kernel_ok k" and "event_queue k = e # es" and "take_event k = (y, k')"
  then show "y = Some e \<and> event_queue k' = es \<and> PROCESS_CONF_NUMEVENTS = PROCESS_CONF_NUMEVENTS \<and> kernel_ok k'"
    using take_event_Cons [of k e es] take_event_ok [of k] by auto
next
  show "kernel_ok k \<Longrightarrow> length (event_queue k) \<le> PROCESS_CONF_NUMEVENTS" for k
    by (simp add: kernel_ok_def event_queue_def)
qed

text \<open>Whatever the threads do while they are called, the events that wait keep their order.\<close>

definition queue_from :: "event_data list \<Rightarrow> kernel \<Rightarrow> bool" where
  "queue_from es k \<longleftrightarrow> kernel_ok k \<and> (\<exists>zs. event_queue k = es @ zs)"

lemma process_post_queue:
  assumes "kernel_ok k"
  shows "\<exists>zs. event_queue (snd (process_post p ev d k)) = event_queue k @ zs"
proof (cases "unat (nevents k) = PROCESS_CONF_NUMEVENTS")
  case True
  then show ?thesis by (simp add: process_post_def)
next
  case False
  with assms have "unat (nevents k) < PROCESS_CONF_NUMEVENTS" by (simp add: kernel_ok_def)
  from post_event_room(2) [OF assms this, of "\<lparr>ev_ev = ev, ev_data = d, ev_p = p\<rparr>"] show ?thesis
    by (auto simp: post_event_def)
qed

lemma event_queue_updates [simp]:
  "event_queue (k\<lparr>process_current := c\<rparr>) = event_queue k" "event_queue (k\<lparr>pstate := f\<rparr>) = event_queue k"
  "event_queue (k\<lparr>plc := g\<rparr>) = event_queue k" "event_queue (k\<lparr>needspoll := h\<rparr>) = event_queue k"
  "event_queue (k\<lparr>poll_requested := b\<rparr>) = event_queue k" "event_queue (k\<lparr>pnext := n\<rparr>) = event_queue k"
  "event_queue (k\<lparr>process_list := l\<rparr>) = event_queue k" "event_queue (k\<lparr>lastevent := e\<rparr>) = event_queue k"
  by (simp_all add: event_queue_def)

lemma unlink_process_queue: "unlink_process p k = Ok k' \<Longrightarrow> event_queue k' = event_queue k"
  by (auto simp: unlink_process_def res_iff split: if_splits)

interpretation qf: kernel_calls "queue_from es" for es
proof unfold_locales
  fix k r ev d
  assume "queue_from es k"
  then show "queue_from es (snd (process_post r ev d k))"
    using process_post_queue [of k r ev d] process_post_ok [of k r ev d] by (auto simp: queue_from_def)
next
  fix k p q
  assume "queue_from es k" and "find_process (pnext k) (process_list k) p = Some q" and "q \<noteq> Some p"
  then show "queue_from es (k\<lparr>pnext := (pnext k)(p := process_list k), process_list := Some p\<rparr>)"
    using ki.pushed by (simp add: queue_from_def)
next
  fix k p k'
  assume "queue_from es k" and "unlink_process p k = Ok k'"
  then show "queue_from es k'" using ki.unlinked unlink_process_queue by (auto simp: queue_from_def)
qed (use ki.poll ki.alloc_event ki.current ki.state ki.cont ki.polled ki.unrequested in
     \<open>auto simp: queue_from_def process_poll_def process_alloc_event_def split: option.splits\<close>)

lemma take_event_queue: "kernel_ok k \<Longrightarrow> event_queue (snd (take_event k)) = tl (event_queue k)"
  by (cases "event_queue k") (simp_all add: take_event_Cons eq.get_empty)

lemma do_event_queue:
  assumes ok: "kernel_ok (fst w)" and r: "do_event T n w = Ok w'"
  shows "\<exists>zs. event_queue (fst w') = tl (event_queue (fst w)) @ zs"
proof -
  obtain k a e k1 where w: "w = (k, a)" and t: "take_event k = (e, k1)"
    by (cases w, cases "take_event (fst w)") auto
  have 1: "queue_from (tl (event_queue k)) k1"
    using take_event_ok [of k] take_event_queue [of k] ok w t by (auto simp: queue_from_def)
  have "queue_from (tl (event_queue k)) (fst w')"
  proof (cases e)
    case None
    with r w t 1 show ?thesis by (auto simp: do_event_def)
  next
    case (Some x)
    show ?thesis
    proof (cases "ev_p x")
      case None
      with Some r w t have "broadcast_loop T n (ev_ev x) (ev_data x) (process_list k1) (k1, a) = Ok w'"
        by (simp add: do_event_def)
      then show ?thesis by (rule wkeepsD [OF qf.broadcast_loop_keeps 1])
    next
      case (Some p)
      let ?k = "if ev_ev x = PROCESS_EVENT_INIT then k1\<lparr>pstate := (pstate k1)(p := PROCESS_STATE_RUNNING)\<rparr> else k1"
      have "call_process T n p (ev_ev x) (ev_data x) (?k, a) = Ok w'"
        using r w t \<open>e = Some x\<close> Some by (simp add: do_event_def Let_def)
      moreover have "queue_from (tl (event_queue k)) ?k"
        using 1 qf.state [OF 1, of PROCESS_STATE_RUNNING p] by simp
      ultimately show ?thesis using wkeepsD [OF qf.calls_keep(1)] by metis
    qed
  qed
  then show ?thesis using w by (simp add: queue_from_def)
qed

lemma process_run_queue:
  assumes ok: "kernel_ok (fst w)" and r: "process_run T n w = Ok (c, w')"
  shows "\<exists>zs. event_queue (fst w') = tl (event_queue (fst w)) @ zs"
proof -
  from r obtain w1 where 1: "(if poll_requested (fst w) then do_poll T n w else Ok w) = Ok w1"
    and 2: "do_event T n w1 = Ok w'" by (auto simp: process_run_def res_iff)
  have "queue_from (event_queue (fst w)) (fst w)" using ok by (simp add: queue_from_def)
  then have "queue_from (event_queue (fst w)) (fst w1)"
    using 1 keepsD [OF qf.do_poll_keeps, of _ w T n w1] by (auto split: if_splits)
  then obtain zs where "kernel_ok (fst w1)" and "event_queue (fst w1) = event_queue (fst w) @ zs"
    by (auto simp: queue_from_def)
  with do_event_queue [OF _ 2] show ?thesis by (cases "event_queue (fst w)") auto
qed

section \<open>Reachable states\<close>

text \<open>
  The states of a system with the threads \<open>T\<close>: after \<open>process_init\<close>, any sequence of calls of the
  kernel from the main loop and of posts, polls and memory accesses from interrupts.
\<close>

inductive kernel_reach :: "'a threads \<Rightarrow> 'a world \<Rightarrow> bool" for T where
  reach_init: "length (events k) = PROCESS_CONF_NUMEVENTS \<Longrightarrow> (\<And>p. pstate k p = PROCESS_STATE_NONE) \<Longrightarrow>
    kernel_reach T (process_init k, a)"
| reach_run: "kernel_reach T w \<Longrightarrow> process_run T n w = Ok (r, w') \<Longrightarrow> kernel_reach T w'"
| reach_start: "kernel_reach T w \<Longrightarrow> process_start (call_process T n) p d w = Ok w' \<Longrightarrow> kernel_reach T w'"
| reach_exit: "kernel_reach T w \<Longrightarrow> process_exit (exit_process T n) p w = Ok w' \<Longrightarrow> kernel_reach T w'"
| reach_synch: "kernel_reach T w \<Longrightarrow> process_post_synch (call_process T n) p ev d w = Ok w' \<Longrightarrow> kernel_reach T w'"
| reach_post: "kernel_reach T (k, a) \<Longrightarrow> kernel_reach T (snd (process_post r ev d k), a)"
| reach_poll: "kernel_reach T (k, a) \<Longrightarrow> kernel_reach T (process_poll r k, a)"
| reach_memory: "kernel_reach T (k, a) \<Longrightarrow> kernel_reach T (k, a')"

lemma process_init_ok:
  "length (events k) = PROCESS_CONF_NUMEVENTS \<Longrightarrow> (\<And>p. pstate k p = PROCESS_STATE_NONE) \<Longrightarrow>
   kernel_ok (process_init k)"
  by (auto simp: kernel_ok_def process_init_def PROCESS_CONF_NUMEVENTS_def intro: exI [of _ "[]"])

lemma kernel_reach_ok: "kernel_reach T w \<Longrightarrow> kernel_ok (fst w)"
proof (induction rule: kernel_reach.induct)
  case (reach_start w n p d w')
  then show ?case using keepsD [OF ki.start_keeps [OF ki.calls_keep(1)]] by fastforce
next
  case (reach_exit w n p w')
  then show ?case using keepsD [OF ki.calls_keep(2)] by (fastforce simp: process_exit_def)
next
  case (reach_synch w n p ev d w')
  then show ?case using keepsD [OF ki.synch_keeps [OF ki.calls_keep(1)]] by fastforce
qed (auto intro: ki.run_keeps process_post_ok ki.poll process_init_ok)

text \<open>
  C36: In every reachable state of the kernel, whatever the threads of the processes do (they may post,
  poll, start and end processes, themselves included, while the kernel walks its list), the list of
  processes is finite and holds no process twice, the queue holds at most its eight events and its
  read index lies inside the array, and every process is in one of the three states.
\<close>

theorem kernel_reachable_wellformed:
  assumes "kernel_reach T (k, a)"
  shows "(\<exists>ps. chain (pnext k) (process_list k) ps \<and> distinct ps) \<and>
    length (event_queue k) \<le> PROCESS_CONF_NUMEVENTS \<and> unat (fevent k) < length (events k) \<and>
    pstate k p \<in> {PROCESS_STATE_NONE, PROCESS_STATE_RUNNING, PROCESS_STATE_CALLED}"
proof -
  have k: "kernel_ok k" using kernel_reach_ok [OF assms] by simp
  then obtain ps where "chain (pnext k) (process_list k) ps" by (auto simp: kernel_ok_def)
  then have "\<exists>ps. chain (pnext k) (process_list k) ps \<and> distinct ps" using chain_distinct by blast
  with k eq.elems_cap [OF k] show ?thesis by (simp add: kernel_ok_def)
qed

definition boot_kernel :: kernel where
  "boot_kernel = \<lparr>pnext = \<lambda>p. None, pstate = \<lambda>p. PROCESS_STATE_NONE, needspoll = \<lambda>p. False,
     plc = \<lambda>p. 0, process_list = None, process_current = None, lastevent = 0, nevents = 0, fevent = 0,
     events = replicate PROCESS_CONF_NUMEVENTS \<lparr>ev_ev = 0, ev_data = None, ev_p = None\<rparr>,
     poll_requested = False\<rparr>"

lemma boot_kernel_ok: "kernel_ok boot_kernel"
  by (auto simp: kernel_ok_def boot_kernel_def PROCESS_CONF_NUMEVENTS_def intro: exI [of _ "[]"])

lemma res_case_Ok: "(case r of Ok x \<Rightarrow> P x | Fault _ \<Rightarrow> False) \<Longrightarrow> \<exists>x. r = Ok x \<and> P x"
  by (cases r) auto

text \<open>Process 1 ends the process 2 when it is polled, process 2 restarts process 1 when it ends.\<close>

definition demo_threads :: "nat threads" where
  "demo_threads p = (if p = 1 then Some (\<lambda>l ev d. if ev = PROCESS_EVENT_POLL then Exit 2 (Ret l PT_ENDED) else Ret l PT_YIELDED)
     else if p = 2 then Some (\<lambda>l ev d. if ev = PROCESS_EVENT_EXIT then Start 1 None (Ret l PT_ENDED) else Ret l PT_YIELDED)
     else None)"

definition demo_run :: "nat world res" where
  "demo_run =
     bindR (process_start (call_process demo_threads 9) 2 None (process_init boot_kernel, 0)) (\<lambda>w1.
     bindR (process_start (call_process demo_threads 9) 1 None w1) (\<lambda>w2.
     bindR (process_run demo_threads 9 (process_poll (Some 1) (fst w2), snd w2)) (\<lambda>(r, w3). Ok w3)))"

theorem kernel_reachable_wellformed_witness:
  "case demo_run of
     Ok w \<Rightarrow> process_list (fst w) = None \<and> (\<exists>ps. chain (pnext (fst w)) (process_list (fst w)) ps \<and> distinct ps)
   | Fault _ \<Rightarrow> False"
proof -
  have run: "case demo_run of Ok w \<Rightarrow> process_list (fst w) = None | Fault _ \<Rightarrow> False" by code_simp
  then obtain w where w: "demo_run = Ok w" by (auto dest: res_case_Ok)
  then obtain w1 w2 r where
    s: "process_start (call_process demo_threads 9) 2 None (process_init boot_kernel, 0) = Ok w1"
       "process_start (call_process demo_threads 9) 1 None w1 = Ok w2"
       "process_run demo_threads 9 (process_poll (Some 1) (fst w2), snd w2) = Ok (r, w)"
    by (auto simp: demo_run_def res_iff)
  have "kernel_reach demo_threads (process_init boot_kernel, 0)"
    by (rule reach_init) (simp_all add: boot_kernel_def)
  from reach_start [OF reach_start [OF this s(1)] s(2)] have "kernel_reach demo_threads (fst w2, snd w2)" by simp
  then have "kernel_reach demo_threads (fst w, snd w)" using reach_run [OF reach_poll s(3)] by simp
  note 1 = kernel_reachable_wellformed [OF this, of 0]
  have "process_list (fst w) = None" using run unfolding w res.case .
  with 1 show ?thesis unfolding w res.case by blast
qed

text \<open>
  C38: The event queue of the kernel is a bounded first-in first-out queue, across its wrap-around: a
  post appends the event, or returns \<open>PROCESS_ERR_FULL\<close> and changes nothing when eight events wait,
  and a run of the scheduler, whatever threads it calls, takes exactly the oldest event out and leaves
  the others in their order, before the ones that were posted in the meantime.
\<close>

theorem process_events_fifo:
  assumes "kernel_ok k"
  shows "(if length (event_queue k) < PROCESS_CONF_NUMEVENTS then
       fst (process_post p ev d k) = PROCESS_ERR_OK \<and>
       event_queue (snd (process_post p ev d k)) = event_queue k @ [\<lparr>ev_ev = ev, ev_data = d, ev_p = p\<rparr>]
     else process_post p ev d k = (PROCESS_ERR_FULL, k)) \<and>
    (case process_run T n (k, a) of
       Ok (r, w) \<Rightarrow> \<exists>zs. event_queue (fst w) = tl (event_queue k) @ zs
     | Fault _ \<Rightarrow> True)"
proof -
  let ?e = "\<lparr>ev_ev = ev, ev_data = d, ev_p = p\<rparr>"
  have post: "process_post p ev d k = post_event ?e k" by (simp add: post_event_def)
  have "if length (event_queue k) < PROCESS_CONF_NUMEVENTS then
       fst (process_post p ev d k) = PROCESS_ERR_OK \<and> event_queue (snd (process_post p ev d k)) = event_queue k @ [?e]
     else process_post p ev d k = (PROCESS_ERR_FULL, k)"
  proof (cases "length (event_queue k) < PROCESS_CONF_NUMEVENTS")
    case True
    then have "unat (nevents k) < PROCESS_CONF_NUMEVENTS" by (simp add: event_queue_def)
    with True post_event_room [OF assms] show ?thesis unfolding post by simp
  next
    case False
    then have "unat (nevents k) = PROCESS_CONF_NUMEVENTS" using assms by (simp add: event_queue_def kernel_ok_def)
    with False show ?thesis by (simp add: process_post_def)
  qed
  moreover have "case process_run T n (k, a) of
       Ok (r, w) \<Rightarrow> \<exists>zs. event_queue (fst w) = tl (event_queue k) @ zs | Fault _ \<Rightarrow> True"
    using process_run_queue [of "(k, a)" T n] assms by (auto split: res.split)
  ultimately show ?thesis by blast
qed

theorem process_events_fifo_witness:
  "event_queue (snd (process_post (Some 4) 7 None boot_kernel)) = [\<lparr>ev_ev = 7, ev_data = None, ev_p = Some 4\<rparr>]"
proof -
  from process_events_fifo [OF boot_kernel_ok, of "Some 4" 7 None demo_threads 1 0] show ?thesis
    by (simp add: event_queue_def boot_kernel_def PROCESS_CONF_NUMEVENTS_def)
qed

end
