(* ===== verification/Process_Progress.thy ===== *)
theory Process_Progress
  imports Process_Laws
begin

text \<open>
  Progress of the process kernel. The walks over the list of processes may not end when threads start
  and end processes while they run; for quiet threads, which only work, wait and post, they are shown
  to return and to visit the processes one after the other, so that every event that was posted is
  delivered.
\<close>

section \<open>Threads that only work, wait and post\<close>

primrec quiet :: "'a prog \<Rightarrow> bool" where
  "quiet (Ret l r) \<longleftrightarrow> r = PT_WAITING \<or> r = PT_YIELDED"
| "quiet Hang \<longleftrightarrow> False"
| "quiet (Get f) \<longleftrightarrow> (\<forall>a. quiet (f a))"
| "quiet (Put a c) \<longleftrightarrow> quiet c"
| "quiet (Current f) \<longleftrightarrow> (\<forall>p. quiet (f p))"
| "quiet (Context p c) \<longleftrightarrow> quiet c"
| "quiet (Alloc_Event f) \<longleftrightarrow> (\<forall>e. quiet (f e))"
| "quiet (Post p ev d f) \<longleftrightarrow> ev \<noteq> PROCESS_EVENT_EXIT \<and> (\<forall>r. quiet (f r))"
| "quiet (Poll p c) \<longleftrightarrow> quiet c"
| "quiet (Start p d c) \<longleftrightarrow> False"
| "quiet (Exit p c) \<longleftrightarrow> False"
| "quiet (Post_Synch p ev d c) \<longleftrightarrow> False"

definition quiet_threads :: "'a threads \<Rightarrow> bool" where
  "quiet_threads T \<longleftrightarrow> (\<forall>p th l ev d. T p = Some th \<longrightarrow> quiet (th l ev d))"

definition no_exit :: "kernel \<Rightarrow> bool" where
  "no_exit k \<longleftrightarrow> (\<forall>e \<in> set (events k). ev_ev e \<noteq> PROCESS_EVENT_EXIT)"

text \<open>What the run of a quiet program leaves: the list of processes, and no exit event in the queue.\<close>

definition calm :: "kernel \<Rightarrow> kernel \<Rightarrow> bool" where
  "calm k k' \<longleftrightarrow> pnext k' = pnext k \<and> process_list k' = process_list k \<and> (no_exit k \<longrightarrow> no_exit k')"

lemma calm_trans: "calm k k1 \<Longrightarrow> calm k1 k2 \<Longrightarrow> calm k k2"
  by (simp add: calm_def)

lemma calm_refl [simp]: "calm k k"
  by (simp add: calm_def)

lemma calm_post: "ev \<noteq> PROCESS_EVENT_EXIT \<Longrightarrow> calm k (snd (process_post p ev d k))"
  by (auto simp: calm_def no_exit_def process_post_def Let_def dest: set_update_subset_insert [THEN subsetD])

lemma calm_poll: "calm k (process_poll p k)"
  by (simp add: calm_def no_exit_def process_poll_def split: option.split)

lemma calm_updates [simp]:
  "calm k (k\<lparr>process_current := c\<rparr>)" "calm k (snd (process_alloc_event k))"
  "calm k (k\<lparr>pstate := f\<rparr>)" "calm k (k\<lparr>plc := g\<rparr>)" "calm k (k\<lparr>needspoll := h\<rparr>)"
  "calm k (k\<lparr>poll_requested := b\<rparr>)" "calm k (snd (take_event k))"
  by (simp_all add: calm_def no_exit_def process_alloc_event_def take_event_def)

lemma exec_quiet_indep: "quiet c \<Longrightarrow> exec cf xf c w = exec cf' xf' c w"
  by (induction c arbitrary: w) auto

lemma exec_quiet:
  "quiet c \<Longrightarrow> \<exists>l r w'. exec cf xf c w = Ok ((l, r), w') \<and> (r = PT_WAITING \<or> r = PT_YIELDED) \<and>
     calm (fst w) (fst w')"
proof (induction c arbitrary: w)
  case (Post p ev d f)
  let ?w = "(snd (process_post p ev d (fst w)), snd w)" and ?c = "f (fst (process_post p ev d (fst w)))"
  from Post.IH [of ?c ?w] Post.prems obtain l r w' where
    "exec cf xf ?c ?w = Ok ((l, r), w')" "r = PT_WAITING \<or> r = PT_YIELDED" "calm (fst ?w) (fst w')" by auto
  with calm_trans [OF calm_post] Post.prems show ?case by (metis exec.simps(8) fst_conv quiet.simps(8))
next
  case (Poll p c)
  from Poll.IH [of "(process_poll p (fst w), snd w)"] Poll.prems calm_trans [OF calm_poll]
  show ?case by (metis exec.simps(9) fst_conv quiet.simps(9))
next
  case (Context p c)
  from Context.IH [of "((fst w)\<lparr>process_current := p\<rparr>, snd w)"] Context.prems calm_trans [OF calm_updates(1)]
  show ?case by (metis exec.simps(6) fst_conv quiet.simps(6))
next
  case (Alloc_Event f)
  let ?w = "(snd (process_alloc_event (fst w)), snd w)" and ?c = "f (fst (process_alloc_event (fst w)))"
  from Alloc_Event.IH [of ?c ?w] Alloc_Event.prems obtain l r w' where
    "exec cf xf ?c ?w = Ok ((l, r), w')" "r = PT_WAITING \<or> r = PT_YIELDED" "calm (fst ?w) (fst w')" by auto
  with calm_trans [OF calm_updates(2)] show ?case by (metis exec.simps(7) fst_conv)
next
  case (Put a c)
  then show ?case using Put.IH [of "(fst w, a)"] by simp
qed auto

text \<open>The call of a quiet thread needs one unit of fuel; \<open>deliver\<close> is its result.\<close>

definition deliver :: "'a threads \<Rightarrow> ptr \<Rightarrow> u8 \<Rightarrow> ptr option \<Rightarrow> 'a world \<Rightarrow> 'a world" where
  "deliver T p ev d w = (case call_process T 1 p ev d w of Ok w' \<Rightarrow> w' | Fault _ \<Rightarrow> w)"

lemma call_quiet_ex:
  assumes T: "quiet_threads T" and ev: "ev \<noteq> PROCESS_EVENT_EXIT"
  shows "\<exists>w'. (\<forall>n. call_process T (Suc n) p ev d w = Ok w') \<and> calm (fst w) (fst w')"
proof -
  obtain k a where w: "w = (k, a)" by (cases w)
  show ?thesis
  proof (cases "pstate k p AND PROCESS_STATE_RUNNING \<noteq> 0 \<and> T p \<noteq> None")
    case False
    with w have "call_process T (Suc n) p ev d w = Ok w" for n by (auto simp: call_body_def)
    then show ?thesis by (intro exI [of _ w]) simp
  next
    case True
    then obtain th where th: "T p = Some th" by blast
    let ?k = "k\<lparr>process_current := Some p, pstate := (pstate k)(p := PROCESS_STATE_CALLED)\<rparr>"
    have q: "quiet (th (plc k p) ev d)" using T th by (auto simp: quiet_threads_def)
    obtain l r k' a' where "exec (\<lambda>p ev d w. Fault Diverge) (\<lambda>p from w. Fault Diverge) (th (plc k p) ev d) (?k, a) =
        Ok ((l, r), (k', a'))"
      and r: "r = PT_WAITING \<or> r = PT_YIELDED" and c: "calm ?k k'" using exec_quiet [OF q] by fastforce
    then have e: "exec cf xf (th (plc k p) ev d) (?k, a) = Ok ((l, r), (k', a'))" for cf xf
      using exec_quiet_indep [OF q] by metis
    let ?k' = "k'\<lparr>plc := (plc k')(p := l), pstate := (pstate k')(p := PROCESS_STATE_RUNNING)\<rparr>"
    have "call_process T (Suc n) p ev d w = Ok (?k', a')" for n
      using True th ev w r by (auto simp: call_body_def e Let_def)
    moreover have "calm k ?k'" using c by (simp add: calm_def no_exit_def)
    ultimately show ?thesis using w by (metis fst_conv)
  qed
qed

lemma call_quiet:
  assumes "quiet_threads T" and "ev \<noteq> PROCESS_EVENT_EXIT"
  shows "call_process T (Suc n) p ev d w = Ok (deliver T p ev d w)"
    and "calm (fst w) (fst (deliver T p ev d w))"
proof -
  obtain w' where w': "\<And>n. call_process T (Suc n) p ev d w = Ok w'" "calm (fst w) (fst w')"
    using call_quiet_ex [OF assms, of p d w] by blast
  have "deliver T p ev d w = w'" using w'(1) [of 0] by (simp add: deliver_def)
  with w' show "call_process T (Suc n) p ev d w = Ok (deliver T p ev d w)"
    and "calm (fst w) (fst (deliver T p ev d w))" by simp_all
qed

section \<open>Polling\<close>

lemma two_units: "x + Suc y < n \<Longrightarrow> \<exists>m. n = Suc (Suc m)"
  by presburger

fun poll_one :: "'a threads \<Rightarrow> 'a world \<Rightarrow> ptr \<Rightarrow> 'a world" where
  "poll_one T (k, a) p =
     (if needspoll k p then
        deliver T p PROCESS_EVENT_POLL None
          (k\<lparr>pstate := (pstate k)(p := PROCESS_STATE_RUNNING), needspoll := (needspoll k)(p := False)\<rparr>, a)
      else (k, a))"

lemma poll_not_exit: "PROCESS_EVENT_POLL \<noteq> PROCESS_EVENT_EXIT"
  by (simp add: PROCESS_EVENT_POLL_def PROCESS_EVENT_EXIT_def)

lemma poll_one_calm: "quiet_threads T \<Longrightarrow> calm (fst w) (fst (poll_one T w p))"
proof (cases w)
  case (Pair k a)
  let ?k = "k\<lparr>pstate := (pstate k)(p := PROCESS_STATE_RUNNING), needspoll := (needspoll k)(p := False)\<rparr>"
  have "calm k ?k" by (simp add: calm_def no_exit_def)
  moreover assume "quiet_threads T"
  note call_quiet(2) [OF this poll_not_exit, of "(?k, a)" p None]
  ultimately show ?thesis using Pair calm_trans by auto
qed

lemma poll_loop_quiet:
  assumes T: "quiet_threads T"
  shows "chain (pnext (fst w)) q ps \<Longrightarrow> length ps < n \<Longrightarrow>
    poll_loop T n q w = Ok (foldl (poll_one T) w ps) \<and> calm (fst w) (fst (foldl (poll_one T) w ps))"
proof (induction ps arbitrary: n q w)
  case Nil
  then show ?case by (cases n) simp_all
next
  case (Cons p ps)
  obtain m where n: "n = Suc (Suc m)"
    using Cons.prems(2) two_units [of 0 "length ps" n] by auto
  obtain k a where w: "w = (k, a)" by (cases w)
  have q: "q = Some p" and rest: "chain (pnext (fst w)) (pnext (fst w) p) ps" using Cons.prems(1) by auto
  note c = poll_one_calm [OF T, of w p]
  have "poll_loop T n q w = poll_loop T (Suc m) (pnext (fst (poll_one T w p)) p) (poll_one T w p)"
    by (simp add: n q w call_quiet(1) [OF T poll_not_exit] del: call_process.simps)
  moreover have "poll_loop T (Suc m) (pnext (fst (poll_one T w p)) p) (poll_one T w p) =
      Ok (foldl (poll_one T) (poll_one T w p) ps) \<and>
      calm (fst (poll_one T w p)) (fst (foldl (poll_one T) (poll_one T w p) ps))"
    by (rule Cons.IH) (use rest c Cons.prems(2) n in \<open>auto simp: calm_def\<close>)
  ultimately show ?case using calm_trans [OF c] by simp
qed

lemma do_poll_quiet:
  assumes "quiet_threads T" and "chain (pnext k) (process_list k) ps" and "length ps < n"
  shows "do_poll T n (k, a) = Ok (foldl (poll_one T) (k\<lparr>poll_requested := False\<rparr>, a) ps)"
    and "calm k (fst (foldl (poll_one T) (k\<lparr>poll_requested := False\<rparr>, a) ps))"
  using poll_loop_quiet [OF assms(1), of "(k\<lparr>poll_requested := False\<rparr>, a)" "process_list k" ps n] assms(2,3)
    calm_trans [OF calm_updates(6) [of k False]] by (auto simp: do_poll_def)

section \<open>Every run of the scheduler returns\<close>

text \<open>\<open>quietly ps k\<close>: the processes of the kernel are \<open>ps\<close> and no exit event waits.\<close>

definition quietly :: "ptr list \<Rightarrow> kernel \<Rightarrow> bool" where
  "quietly ps k \<longleftrightarrow> chain (pnext k) (process_list k) ps \<and> kernel_ok k \<and> no_exit k"

lemma quietly_calm: "quietly ps k \<Longrightarrow> calm k k' \<Longrightarrow> kernel_ok k' \<Longrightarrow> quietly ps k'"
  by (simp add: quietly_def calm_def)

lemma poll_step_quiet:
  assumes "quiet_threads T" and "quietly ps (fst w)" and "length ps < n"
  shows "\<exists>w'. (if poll_requested (fst w) then do_poll T n w else Ok w) = Ok w' \<and> quietly ps (fst w') \<and>
    calm (fst w) (fst w')"
proof (cases "poll_requested (fst w)")
  case True
  obtain k a where w: "w = (k, a)" by (cases w)
  note p = do_poll_quiet [OF assms(1), of k ps n a]
  have "chain (pnext k) (process_list k) ps" "kernel_ok k" using assms(2) w by (auto simp: quietly_def)
  with p True assms(2,3) w wkeepsD [OF ki.do_poll_keeps, of k T n a] show ?thesis
    using quietly_calm by auto
qed (use assms in auto)

lemma broadcast_loop_quiet:
  assumes T: "quiet_threads T" and ev: "ev \<noteq> PROCESS_EVENT_EXIT"
  shows "quietly ps (fst w) \<Longrightarrow> chain (pnext (fst w)) q qs \<Longrightarrow> length ps + length qs < n \<Longrightarrow>
    \<exists>w'. broadcast_loop T n ev d q w = Ok w' \<and> quietly ps (fst w')"
proof (induction qs arbitrary: n q w)
  case Nil
  then show ?case by (cases n) auto
next
  case (Cons p qs)
  obtain m where n: "n = Suc (Suc m)"
    using Cons.prems(3) two_units [of "length ps" "length qs" n] by auto
  obtain w1 where w1: "(if poll_requested (fst w) then do_poll T (Suc m) w else Ok w) = Ok w1"
    "quietly ps (fst w1)" "calm (fst w) (fst w1)"
    using poll_step_quiet [OF T Cons.prems(1), of "Suc m"] Cons.prems(3) n by auto
  note c = call_quiet(1) [OF T ev, of m p d w1] call_quiet(2) [OF T ev, of w1 p d]
  have "kernel_ok (fst (deliver T p ev d w1))"
    using keepsD [OF ki.calls_keep(1) _ c(1)] w1(2) by (simp add: quietly_def)
  then have w2: "quietly ps (fst (deliver T p ev d w1))" using quietly_calm [OF w1(2) c(2)] by simp
  have "chain (pnext (fst (deliver T p ev d w1))) (pnext (fst (deliver T p ev d w1)) p) qs"
    using Cons.prems(2) w1(3) c(2) by (simp add: calm_def)
  from Cons.IH [OF w2 this, of "Suc m"] Cons.prems(2,3) n w1(1) c(1) show ?case
    by (auto simp del: call_process.simps)
qed

lemma do_event_quiet:
  assumes T: "quiet_threads T" and w: "quietly ps (fst w)" and n: "2 * length ps < n"
  shows "\<exists>w'. do_event T n w = Ok w' \<and> quietly ps (fst w')"
proof -
  obtain k a e k1 where k: "w = (k, a)" and t: "take_event k = (e, k1)" by (cases w, cases "take_event (fst w)") auto
  have "calm k k1" using calm_updates(7) [of k] t by simp
  moreover have "kernel_ok k1" using take_event_ok [of k] w k t by (simp add: quietly_def)
  ultimately have 1: "quietly ps k1" using quietly_calm [of ps k] w k by simp
  show ?thesis
  proof (cases e)
    case None
    with k t 1 show ?thesis by (auto simp: do_event_def)
  next
    case (Some x)
    then have "x \<in> set (events k)" using t w k
      by (auto simp: take_event_def quietly_def kernel_ok_def split: if_splits)
    then have ev: "ev_ev x \<noteq> PROCESS_EVENT_EXIT" using w k by (auto simp: quietly_def no_exit_def)
    show ?thesis
    proof (cases "ev_p x")
      case None
      with Some k t broadcast_loop_quiet [OF T ev, of ps "(k1, a)" "process_list k1" ps n "ev_data x"] 1 n
      show ?thesis by (simp add: do_event_def quietly_def)
    next
      case (Some p)
      obtain m where m: "n = Suc m" using n by (cases n) auto
      let ?k = "if ev_ev x = PROCESS_EVENT_INIT then k1\<lparr>pstate := (pstate k1)(p := PROCESS_STATE_RUNNING)\<rparr> else k1"
      have "kernel_ok ?k" using 1 ki.state [of k1 PROCESS_STATE_RUNNING p] by (simp add: quietly_def)
      then have 2: "quietly ps ?k" using quietly_calm [OF 1, of ?k] by simp
      note c = call_quiet(1) [OF T ev, of m p "ev_data x" "(?k, a)"]
        call_quiet(2) [OF T ev, of "(?k, a)" p "ev_data x"]
      have "kernel_ok (fst (deliver T p (ev_ev x) (ev_data x) (?k, a)))"
        using keepsD [OF ki.calls_keep(1) _ c(1)] 2 by (simp add: quietly_def)
      then have "quietly ps (fst (deliver T p (ev_ev x) (ev_data x) (?k, a)))"
        using quietly_calm [OF 2] c(2) by simp
      moreover have "do_event T n w = Ok (deliver T p (ev_ev x) (ev_data x) (?k, a))"
        using c(1) k t Some \<open>e = Some x\<close> m by (simp add: do_event_def Let_def del: call_process.simps)
      ultimately show ?thesis by blast
    qed
  qed
qed

lemma process_run_quiet:
  assumes T: "quiet_threads T" and w: "quietly ps (fst w)" and n: "2 * length ps < n"
  shows "\<exists>r w'. process_run T n w = Ok (r, w') \<and> quietly ps (fst w')"
proof -
  obtain w1 where w1: "(if poll_requested (fst w) then do_poll T n w else Ok w) = Ok w1" "quietly ps (fst w1)"
    using poll_step_quiet [OF T w, of n] n by auto
  from do_event_quiet [OF T w1(2) n] obtain w2 where "do_event T n w1 = Ok w2" "quietly ps (fst w2)" by blast
  with w1(1) show ?thesis by (auto simp: process_run_def)
qed

section \<open>Every event is delivered\<close>

primrec run_n :: "'a threads \<Rightarrow> nat \<Rightarrow> nat \<Rightarrow> 'a world \<Rightarrow> 'a world res" where
  "run_n T n 0 w = Ok w"
| "run_n T n (Suc i) w = bindR (process_run T n w) (\<lambda>(r, w1). run_n T n i w1)"

text \<open>
  C37: With threads that only work, wait and post, the scheduler never hangs and every event that was
  posted is delivered: an event with \<open>i\<close> events before it in the queue is the next one to be delivered
  after \<open>i\<close> runs of \<open>process_run\<close>, each of which returns, whatever the threads post and poll meanwhile.
  The fuel covers one walk of the list for the delivery and one for the polls in each of its steps.
\<close>

theorem posted_event_delivered:
  assumes "quiet_threads T" and "quietly ps k" and "2 * length ps < n" and "event_queue k = es @ e # fs"
  shows "\<exists>w zs. run_n T n (length es) (k, a) = Ok w \<and> event_queue (fst w) = e # fs @ zs \<and>
    fst (take_event (fst w)) = Some e \<and> (\<exists>w'. do_event T n w = Ok w')"
  using assms(2,4)
proof (induction es arbitrary: k a fs)
  case Nil
  then have "kernel_ok k" by (simp add: quietly_def)
  with Nil take_event_Cons(1) [of k e fs] do_event_quiet [OF assms(1), of ps "(k, a)" n] assms(3)
  show ?case by auto
next
  case (Cons x es)
  obtain r k1 a1 where 1: "process_run T n (k, a) = Ok (r, (k1, a1))" and q: "quietly ps k1"
    using process_run_quiet [OF assms(1), of ps "(k, a)" n] Cons.prems(1) assms(3) by auto
  have "kernel_ok k" using Cons.prems(1) by (simp add: quietly_def)
  with process_run_queue [OF _ 1] Cons.prems(2) obtain zs where "event_queue k1 = es @ e # fs @ zs" by auto
  from Cons.IH [OF q this, of a1] 1 show ?case by auto
qed

text \<open>A thread that counts its events, and posts one to itself.\<close>

definition echo_thread :: "nat threads" where
  "echo_thread p = (if p = 1 then
     Some (\<lambda>l ev d. Get (\<lambda>c. Put (Suc c) (Post (Some 1) 7 None (\<lambda>r. Ret l PT_YIELDED)))) else None)"

definition echo_kernel :: kernel where
  "echo_kernel = boot_kernel\<lparr>process_list := Some 1, pstate := (\<lambda>p. PROCESS_STATE_NONE)(1 := PROCESS_STATE_RUNNING),
     events := [\<lparr>ev_ev = 7, ev_data = None, ev_p = Some 1\<rparr>, \<lparr>ev_ev = 9, ev_data = None, ev_p = None\<rparr>] @
       replicate 6 \<lparr>ev_ev = 0, ev_data = None, ev_p = None\<rparr>, nevents := 2\<rparr>"

theorem posted_event_delivered_witness:
  "\<exists>w zs. run_n echo_thread 4 1 (echo_kernel, 0) = Ok w \<and>
     event_queue (fst w) = \<lparr>ev_ev = 9, ev_data = None, ev_p = None\<rparr> # zs"
proof -
  have "quiet_threads echo_thread"
    by (auto simp: quiet_threads_def echo_thread_def PROCESS_EVENT_EXIT_def split: if_splits)
  moreover have "quietly [1] echo_kernel"
    by (auto simp: quietly_def echo_kernel_def boot_kernel_def kernel_ok_def no_exit_def
        PROCESS_CONF_NUMEVENTS_def PROCESS_EVENT_EXIT_def intro!: exI [of _ "[1]"])
  moreover have "event_queue echo_kernel = [\<lparr>ev_ev = 7, ev_data = None, ev_p = Some 1\<rparr>] @
      \<lparr>ev_ev = 9, ev_data = None, ev_p = None\<rparr> # []"
    by (simp add: event_queue_def echo_kernel_def boot_kernel_def ring_def upt_rec)
  ultimately have "\<exists>w zs. run_n echo_thread 4 (length [\<lparr>ev_ev = 7, ev_data = None, ev_p = Some (1 :: nat)\<rparr>]) (echo_kernel, 0) = Ok w \<and>
      event_queue (fst w) = \<lparr>ev_ev = 9, ev_data = None, ev_p = None\<rparr> # [] @ zs \<and>
      fst (take_event (fst w)) = Some \<lparr>ev_ev = 9, ev_data = None, ev_p = None\<rparr> \<and> (\<exists>w'. do_event echo_thread 4 w = Ok w')"
    by (intro posted_event_delivered) auto
  then show ?thesis by auto
qed

end
