(* ===== verification/Timer.thy ===== *)
theory Timer
  imports Prelude
begin

text \<open>
  The timers of \<^verbatim>\<open>src/core/sys/timer.c\<close> on the 32-bit clock of the platform. The argument \<open>now\<close> is the
  value that \<^verbatim>\<open>clock_time()\<close> returns. All sums and differences wrap around.
\<close>

section \<open>The operations of timer.c\<close>

record timer =
  tstart :: u32
  tinterval :: u32

definition timer_set :: "u32 \<Rightarrow> timer \<Rightarrow> u32 \<Rightarrow> timer" where
  "timer_set now t i = t\<lparr>tinterval := i, tstart := now\<rparr>"

definition timer_reset :: "timer \<Rightarrow> timer" where
  "timer_reset t = t\<lparr>tstart := tstart t + tinterval t\<rparr>"

definition timer_restart :: "u32 \<Rightarrow> timer \<Rightarrow> timer" where
  "timer_restart now t = t\<lparr>tstart := now\<rparr>"

definition timer_expired :: "u32 \<Rightarrow> timer \<Rightarrow> bool" where
  "timer_expired now t \<longleftrightarrow> (let diff = (now - tstart t) + 1 in tinterval t < diff)"

definition timer_remaining :: "u32 \<Rightarrow> timer \<Rightarrow> u32" where
  "timer_remaining now t = tstart t + tinterval t - now"

section \<open>Expiry across the wrap-around of the clock\<close>

text \<open>The clock \<open>d\<close> ticks after the start of the timer.\<close>

lemma timer_expired_elapsed:
  assumes "d < 2 ^ 32"
  shows "timer_expired (tstart t + of_nat d) t \<longleftrightarrow> unat (tinterval t) \<le> d \<and> d \<noteq> 2 ^ 32 - 1"
proof -
  have "unat (of_nat d + 1 :: u32) = (if d = 2 ^ 32 - 1 then 0 else Suc d)"
    using assms by (simp add: unat_word_ariths unat_of_nat)
  then show ?thesis by (simp add: timer_expired_def Let_def word_less_nat_alt less_Suc_eq_le)
qed

lemma timer_remaining_elapsed:
  assumes "d \<le> unat (tinterval t)"
  shows "unat (timer_remaining (tstart t + of_nat d) t) = unat (tinterval t) - d"
proof -
  have d: "d < 2 ^ 32" using assms unat_bound_pow [of "tinterval t"] by simp
  have "timer_remaining (tstart t + of_nat d) t = tinterval t - of_nat d"
    by (simp add: timer_remaining_def)
  moreover have "(of_nat d :: u32) \<le> tinterval t"
    using assms d by (simp add: word_le_nat_alt unat_of_nat)
  ultimately show ?thesis using d by (simp add: unat_sub unat_of_nat)
qed

section \<open>Properties of timers\<close>

text \<open>
  A timer set at any clock value, also when its expiry lies beyond the wrap-around of the 32-bit
  clock, is expired exactly from \<open>interval\<close> ticks after its start on, for the \<open>2 ^ 32 - 2\<close> ticks that the
  comparison distinguishes, and until then \<open>timer_remaining\<close> is the number of ticks that are left. One
  tick before the clock has gone round the comparison wraps and the timer counts as not expired.
\<close>

lemma timer_expires_after_interval:
  fixes s i :: u32
  assumes "d < 2 ^ 32"
  shows "timer_expired (s + of_nat d) (timer_set s t i) = (unat i \<le> d \<and> d \<noteq> 2 ^ 32 - 1) \<and>
    (if d \<le> unat i then unat (timer_remaining (s + of_nat d) (timer_set s t i)) = unat i - d else True)"
  using timer_expired_elapsed [OF assms, of "timer_set s t i"] timer_remaining_elapsed [of d "timer_set s t i"]
  by (simp add: timer_set_def)

lemma timer_expires_after_interval_example:
  "timer_expired (0xFFFFFFF0 + 32) (timer_set 0xFFFFFFF0 \<lparr>tstart = 0, tinterval = 0\<rparr> 32) \<and>
   \<not> timer_expired (0xFFFFFFF0 + 31) (timer_set 0xFFFFFFF0 \<lparr>tstart = 0, tinterval = 0\<rparr> 32)"
  using timer_expires_after_interval [of 32 "0xFFFFFFF0" "\<lparr>tstart = 0, tinterval = 0\<rparr>" 32]
    timer_expires_after_interval [of 31 "0xFFFFFFF0" "\<lparr>tstart = 0, tinterval = 0\<rparr>" 32] by simp

text \<open>A periodic timer that is reset keeps its phase: the resets add up to multiples of the interval.\<close>

lemma timer_reset_phase: "tstart ((timer_reset ^^ n) t) = tstart t + of_nat n * tinterval t"
proof -
  have "tstart ((timer_reset ^^ n) t) = tstart t + of_nat n * tinterval t \<and> tinterval ((timer_reset ^^ n) t) = tinterval t"
    by (induction n) (simp_all add: timer_reset_def algebra_simps)
  then show ?thesis by blast
qed

end
