(* ===== verification/Etimer.thy ===== *)
theory Etimer
  imports Timer Process
begin

text \<open>
  The event timers of \<^verbatim>\<open>src/core/sys/etimer.c\<close>, as programs of the process kernel. The memory of the
  component is a record, its last argument \<open>c\<close> is the rest of the program. \<open>clock_trace\<close> holds the
  values that the calls of \<^verbatim>\<open>clock_time()\<close> return, one after the other. The loops walk a linked list, so
  they take fuel and hang when it is used up.
\<close>

section \<open>The state of etimer.c\<close>

record etimers =
  et_timer :: "ptr \<Rightarrow> timer"
  et_next :: heap
  et_p :: "ptr \<Rightarrow> ptr option"
  timerlist :: "ptr option"
  next_expiration :: u32
  clock_trace :: "nat \<Rightarrow> u32"
  clock_reads :: nat

definition etimer_process :: ptr where "etimer_process = 1"

type_synonym 'b eprog = "'b etimers_scheme prog"

definition clock_time :: "(u32 \<Rightarrow> 'b eprog) \<Rightarrow> 'b eprog" where
  "clock_time c = Get (\<lambda>m. Put (m\<lparr>clock_reads := Suc (clock_reads m)\<rparr>) (c (clock_trace m (clock_reads m))))"

definition modify :: "('a \<Rightarrow> 'a) \<Rightarrow> 'a prog \<Rightarrow> 'a prog" where
  "modify f c = Get (\<lambda>m. Put (f m) c)"

section \<open>The operations of etimer.c\<close>

definition distance :: "'b etimers_scheme \<Rightarrow> u32 \<Rightarrow> ptr \<Rightarrow> u32" where
  "distance m now t = tstart (et_timer m t) + tinterval (et_timer m t) - now"

fun min_loop :: "nat \<Rightarrow> 'b etimers_scheme \<Rightarrow> u32 \<Rightarrow> ptr option \<Rightarrow> u32 \<Rightarrow> u32 option" where
  "min_loop 0 m now t tdist = None"
| "min_loop (Suc n) m now None tdist = Some tdist"
| "min_loop (Suc n) m now (Some t) tdist =
     min_loop n m now (et_next m t) (if distance m now t < tdist then distance m now t else tdist)"

definition update_time :: "nat \<Rightarrow> 'b eprog \<Rightarrow> 'b eprog" where
  "update_time n c = Get (\<lambda>m. case timerlist m of
       None \<Rightarrow> modify (\<lambda>m. m\<lparr>next_expiration := 0\<rparr>) c
     | Some t \<Rightarrow> clock_time (\<lambda>now.
         case min_loop n m now (et_next m t) (distance m now t) of
           None \<Rightarrow> Hang
         | Some tdist \<Rightarrow> modify (\<lambda>m. m\<lparr>next_expiration := now + tdist\<rparr>) c))"

definition etimer_request_poll :: "'b eprog \<Rightarrow> 'b eprog" where
  "etimer_request_poll c = Poll (Some etimer_process) c"

text \<open>The test of \<open>add_timer\<close> whether the timer is on the list.\<close>

fun on_list :: "nat \<Rightarrow> heap \<Rightarrow> ptr option \<Rightarrow> ptr \<Rightarrow> bool option" where
  "on_list 0 h t x = None"
| "on_list (Suc n) h None x = Some False"
| "on_list (Suc n) h (Some t) x = (if t = x then Some True else on_list n h (h t) x)"

definition add_timer :: "nat \<Rightarrow> ptr \<Rightarrow> 'b eprog \<Rightarrow> 'b eprog" where
  "add_timer n et c = etimer_request_poll (Get (\<lambda>m.
     case (if et_p m et \<noteq> None then on_list n (et_next m) (timerlist m) et else Some False) of
       None \<Rightarrow> Hang
     | Some True \<Rightarrow> Current (\<lambda>p. modify (\<lambda>m. m\<lparr>et_p := (et_p m)(et := p)\<rparr>) (update_time n c))
     | Some False \<Rightarrow> Current (\<lambda>p.
         modify (\<lambda>m. m\<lparr>et_p := (et_p m)(et := p), et_next := (et_next m)(et := timerlist m),
                       timerlist := Some et\<rparr>) (update_time n c))))"

definition on_timer :: "ptr \<Rightarrow> (timer \<Rightarrow> timer) \<Rightarrow> 'b etimers_scheme \<Rightarrow> 'b etimers_scheme" where
  "on_timer et f m = m\<lparr>et_timer := (et_timer m)(et := f (et_timer m et))\<rparr>"

definition etimer_set :: "nat \<Rightarrow> ptr \<Rightarrow> u32 \<Rightarrow> 'b eprog \<Rightarrow> 'b eprog" where
  "etimer_set n et i c =
     clock_time (\<lambda>now. modify (on_timer et (\<lambda>t. timer_set now t i)) (add_timer n et c))"

definition etimer_reset_with_new_interval :: "nat \<Rightarrow> ptr \<Rightarrow> u32 \<Rightarrow> 'b eprog \<Rightarrow> 'b eprog" where
  "etimer_reset_with_new_interval n et i c =
     modify (on_timer et timer_reset) (modify (on_timer et (\<lambda>t. t\<lparr>tinterval := i\<rparr>)) (add_timer n et c))"

definition etimer_reset :: "nat \<Rightarrow> ptr \<Rightarrow> 'b eprog \<Rightarrow> 'b eprog" where
  "etimer_reset n et c = modify (on_timer et timer_reset) (add_timer n et c)"

definition etimer_restart :: "nat \<Rightarrow> ptr \<Rightarrow> 'b eprog \<Rightarrow> 'b eprog" where
  "etimer_restart n et c = clock_time (\<lambda>now. modify (on_timer et (timer_restart now)) (add_timer n et c))"

text \<open>\<open>timediff\<close> is a signed \<^verbatim>\<open>int\<close> that is added to the unsigned start time.\<close>

definition etimer_adjust :: "nat \<Rightarrow> ptr \<Rightarrow> int \<Rightarrow> 'b eprog \<Rightarrow> 'b eprog" where
  "etimer_adjust n et timediff c =
     modify (on_timer et (\<lambda>t. t\<lparr>tstart := tstart t + word_of_int timediff\<rparr>)) (update_time n c)"

definition etimer_expired :: "'b etimers_scheme \<Rightarrow> ptr \<Rightarrow> bool" where
  "etimer_expired m et \<longleftrightarrow> et_p m et = None"

definition etimer_expiration_time :: "'b etimers_scheme \<Rightarrow> ptr \<Rightarrow> u32" where
  "etimer_expiration_time m et = tstart (et_timer m et) + tinterval (et_timer m et)"

definition etimer_start_time :: "'b etimers_scheme \<Rightarrow> ptr \<Rightarrow> u32" where
  "etimer_start_time m et = tstart (et_timer m et)"

definition etimer_pending :: "'b etimers_scheme \<Rightarrow> bool" where
  "etimer_pending m \<longleftrightarrow> timerlist m \<noteq> None"

definition etimer_next_expiration_time :: "'b etimers_scheme \<Rightarrow> u32" where
  "etimer_next_expiration_time m = (if etimer_pending m then next_expiration m else 0)"

text \<open>The loop \<^verbatim>\<open>for(t = timerlist; t != NULL && t->next != et; t = t->next);\<close>\<close>

fun before_loop :: "nat \<Rightarrow> heap \<Rightarrow> ptr option \<Rightarrow> ptr \<Rightarrow> ptr option option" where
  "before_loop 0 h t et = None"
| "before_loop (Suc n) h None et = Some None"
| "before_loop (Suc n) h (Some t) et = (if h t = Some et then Some (Some t) else before_loop n h (h t) et)"

definition stopped :: "ptr \<Rightarrow> 'b etimers_scheme \<Rightarrow> 'b etimers_scheme" where
  "stopped et m = m\<lparr>et_next := (et_next m)(et := None), et_p := (et_p m)(et := None)\<rparr>"

definition etimer_stop :: "nat \<Rightarrow> ptr \<Rightarrow> 'b eprog \<Rightarrow> 'b eprog" where
  "etimer_stop n et c = Get (\<lambda>m.
     if timerlist m = Some et then
       modify (\<lambda>m. m\<lparr>timerlist := et_next m et\<rparr>) (update_time n (modify (stopped et) c))
     else case before_loop n (et_next m) (timerlist m) et of
       None \<Rightarrow> Hang
     | Some None \<Rightarrow> modify (stopped et) c
     | Some (Some t) \<Rightarrow>
         modify (\<lambda>m. m\<lparr>et_next := (et_next m)(t := et_next m et)\<rparr>) (update_time n (modify (stopped et) c)))"

section \<open>The event timer process\<close>

text \<open>The two loops of the branch for \<^verbatim>\<open>PROCESS_EVENT_EXITED\<close>.\<close>

fun drop_head :: "nat \<Rightarrow> 'b etimers_scheme \<Rightarrow> ptr option \<Rightarrow> 'b etimers_scheme option" where
  "drop_head 0 m p = None"
| "drop_head (Suc n) m p = (case timerlist m of
       None \<Rightarrow> Some m
     | Some t \<Rightarrow> if et_p m t = p then drop_head n (m\<lparr>timerlist := et_next m t\<rparr>) p else Some m)"

fun drop_rest :: "nat \<Rightarrow> 'b etimers_scheme \<Rightarrow> ptr \<Rightarrow> ptr option \<Rightarrow> 'b etimers_scheme option" where
  "drop_rest 0 m t p = None"
| "drop_rest (Suc n) m t p = (case et_next m t of
       None \<Rightarrow> Some m
     | Some u \<Rightarrow>
         if et_p m u = p then drop_rest n (m\<lparr>et_next := (et_next m)(t := et_next m u)\<rparr>) t p
         else drop_rest n m u p)"

definition process_exited :: "nat \<Rightarrow> ptr option \<Rightarrow> 'b eprog \<Rightarrow> 'b eprog" where
  "process_exited n p c = Get (\<lambda>m. case drop_head n m p of
       None \<Rightarrow> Hang
     | Some m1 \<Rightarrow> (case timerlist m1 of
           None \<Rightarrow> Put m1 c
         | Some t \<Rightarrow> (case drop_rest n m1 t p of None \<Rightarrow> Hang | Some m2 \<Rightarrow> Put m2 c)))"

text \<open>The loop from the label \<^verbatim>\<open>again\<close> on; \<open>u\<close> is the timer before \<open>t\<close>.\<close>

definition unlink_timer :: "ptr option \<Rightarrow> ptr \<Rightarrow> 'b etimers_scheme \<Rightarrow> 'b etimers_scheme" where
  "unlink_timer u t m =
     (let m1 = m\<lparr>et_p := (et_p m)(t := None)\<rparr>;
          m2 = (case u of
                  None \<Rightarrow> m1\<lparr>timerlist := et_next m1 t\<rparr>
                | Some v \<Rightarrow> m1\<lparr>et_next := (et_next m1)(v := et_next m1 t)\<rparr>)
      in m2\<lparr>et_next := (et_next m2)(t := None)\<rparr>)"

fun expire_loop :: "nat \<Rightarrow> ptr option \<Rightarrow> ptr option \<Rightarrow> 'b eprog \<Rightarrow> 'b eprog" where
  "expire_loop 0 u t c = Hang"
| "expire_loop (Suc n) u None c = c"
| "expire_loop (Suc n) u (Some t) c =
     clock_time (\<lambda>now. Get (\<lambda>m.
       if timer_expired now (et_timer m t) then
         Post (et_p m t) PROCESS_EVENT_TIMER (Some t) (\<lambda>r.
           if r = PROCESS_ERR_OK then
             modify (unlink_timer u t) (update_time n (Get (\<lambda>m. expire_loop n None (timerlist m) c)))
           else etimer_request_poll (Get (\<lambda>m. expire_loop n (Some t) (et_next m t) c)))
       else expire_loop n (Some t) (et_next m t) c))"

text \<open>The thread: local continuation 0 is its start, 1 the yield at the head of its loop.\<close>

definition etimer_thread :: "nat \<Rightarrow> u16 \<Rightarrow> u8 \<Rightarrow> ptr option \<Rightarrow> 'b eprog" where
  "etimer_thread n lc ev data =
     (if lc = 0 then modify (\<lambda>m. m\<lparr>timerlist := None\<rparr>) (Ret 1 PT_YIELDED)
      else if ev = PROCESS_EVENT_EXITED then process_exited n data (Ret 1 PT_YIELDED)
      else if ev \<noteq> PROCESS_EVENT_POLL then Ret 1 PT_YIELDED
      else Get (\<lambda>m. expire_loop n None (timerlist m) (Ret 1 PT_YIELDED)))"

end
