(* ===== verification/Etimer_Laws.thy ===== *)
theory Etimer_Laws
  imports Etimer Process_Laws
begin

text \<open>
  What the event timers promise: the next expiration is the earliest one, a poll of the event timer
  process posts the events of the expired timers and keeps the others, also when the clock ticks during
  the poll, and
  the exit of a process stops its timers.
\<close>

section \<open>Running the programs\<close>

lemma exec_modify [simp]: "exec cf xf (modify f c) w = exec cf xf c (fst w, f (snd w))"
  by (simp add: modify_def)

lemma exec_clock_time [simp]:
  "exec cf xf (clock_time c) w = exec cf xf (c (clock_trace (snd w) (clock_reads (snd w))))
     (fst w, (snd w)\<lparr>clock_reads := Suc (clock_reads (snd w))\<rparr>)"
  by (simp add: clock_time_def)

lemma exec_request_poll [simp]:
  "exec cf xf (etimer_request_poll c) w = exec cf xf c (process_poll (Some etimer_process) (fst w), snd w)"
  by (simp add: etimer_request_poll_def)

section \<open>The earliest expiration\<close>

definition nearest :: "'b etimers_scheme \<Rightarrow> u32 \<Rightarrow> u32 \<Rightarrow> ptr list \<Rightarrow> u32" where
  "nearest m now d ts = foldl (\<lambda>d t. min d (distance m now t)) d ts"

lemma min_loop_chain:
  "chain (et_next m) t ts \<Longrightarrow> length ts < n \<Longrightarrow> min_loop n m now t d = Some (nearest m now d ts)"
proof (induction ts arbitrary: n t d)
  case Nil
  then show ?case by (cases n) (auto simp: nearest_def)
next
  case (Cons x ts)
  obtain m' where n: "n = Suc m'" using Cons.prems(2) by (cases n) auto
  have "(if distance m now x < d then distance m now x else d) = min d (distance m now x)"
    by (auto simp: min_def)
  with Cons n show ?case by (auto simp: nearest_def)
qed

lemma nearest_Min: "nearest m now d ts = Min (insert d (distance m now ` set ts))"
proof (induction ts arbitrary: d)
  case (Cons t ts)
  have "nearest m now d (t # ts) = nearest m now (min d (distance m now t)) ts" by (simp add: nearest_def)
  also have "\<dots> = Min (insert (min d (distance m now t)) (distance m now ` set ts))" by (rule Cons.IH)
  also have "\<dots> = Min (insert d (insert (distance m now t) (distance m now ` set ts)))"
    by (cases "set ts = {}") (auto simp: min.assoc)
  finally show ?case by simp
qed (simp add: nearest_def)

fun timed :: "ptr list \<Rightarrow> 'b etimers_scheme \<Rightarrow> 'b etimers_scheme" where
  "timed [] m = m\<lparr>next_expiration := 0\<rparr>"
| "timed (t # ts) m =
     (let now = clock_trace m (clock_reads m) in
      m\<lparr>clock_reads := Suc (clock_reads m), next_expiration := now + nearest m now (distance m now t) ts\<rparr>)"

lemma update_time_chain:
  assumes "chain (et_next m) (timerlist m) ts" and "length ts \<le> n"
  shows "exec cf xf (update_time n c) (k, m) = exec cf xf c (k, timed ts m)"
proof (cases ts)
  case Nil
  with assms show ?thesis by (simp add: update_time_def)
next
  case (Cons t us)
  with assms have l: "timerlist m = Some t" and "chain (et_next m) (et_next m t) us" "length us < n" by auto
  note min_loop_chain [OF this(2,3), of "clock_trace m (clock_reads m)" "distance m (clock_trace m (clock_reads m)) t"]
  with l Cons show ?thesis by (simp add: update_time_def Let_def)
qed

lemma timed_simps [simp]:
  "et_next (timed ts m) = et_next m" "timerlist (timed ts m) = timerlist m" "et_p (timed ts m) = et_p m"
  "et_timer (timed ts m) = et_timer m" "clock_trace (timed ts m) = clock_trace m"
  "etimers.more (timed ts m) = etimers.more m"
  by (cases ts; simp add: Let_def)+

lemma timed_reads: "clock_reads m \<le> clock_reads (timed ts m)"
  by (cases ts) (simp_all add: Let_def)

section \<open>Polling the event timer process\<close>

definition timer_event :: "'b etimers_scheme \<Rightarrow> ptr \<Rightarrow> event_data" where
  "timer_event m t = \<lparr>ev_ev = PROCESS_EVENT_TIMER, ev_data = Some t, ev_p = et_p m t\<rparr>"

abbreviation expired_at :: "u32 \<Rightarrow> 'b etimers_scheme \<Rightarrow> ptr \<Rightarrow> bool" where
  "expired_at now m t \<equiv> timer_expired now (et_timer m t)"

text \<open>
  The loop reads the clock anew for every timer; \<open>expired_read m j t\<close> tells whether \<open>t\<close> has expired at the
  \<open>j\<close>-th reading from now on.
\<close>

definition expired_read :: "'b etimers_scheme \<Rightarrow> nat \<Rightarrow> ptr \<Rightarrow> bool" where
  "expired_read m j t \<longleftrightarrow> expired_at (clock_trace m (clock_reads m + j)) m t"

lemma expired_read_later [simp]:
  "expired_read (m\<lparr>clock_reads := clock_reads m + i\<rparr>) j t = expired_read m (i + j) t"
  "expired_read (m\<lparr>clock_reads := Suc (clock_reads m)\<rparr>) j t = expired_read m (Suc j) t"
  by (simp_all add: expired_read_def add.assoc)

text \<open>The timers before the first expired one are passed over.\<close>

lemma expire_loop_skip:
  assumes "\<forall>j < length zs. \<not> expired_read m j (zs ! j)" and "chain (et_next m) t (zs @ ys)"
  shows "exec cf xf (expire_loop (length zs + n) u t c) (k, m) =
    exec cf xf (expire_loop n (if zs = [] then u else Some (last zs)) (if zs = [] then t else et_next m (last zs)) c)
      (k, m\<lparr>clock_reads := clock_reads m + length zs\<rparr>)"
  using assms
proof (induction zs arbitrary: u t m)
  case Nil
  then show ?case by simp
next
  case (Cons z zs)
  have t: "t = Some z" and ch: "chain (et_next m) (et_next m z) (zs @ ys)" using Cons.prems(2) by auto
  have z: "\<not> expired_read m 0 z" and zs: "\<forall>j < length zs. \<not> expired_read m (Suc j) (zs ! j)"
    using Cons.prems(1) by fastforce+
  let ?m = "m\<lparr>clock_reads := Suc (clock_reads m)\<rparr>"
  have "exec cf xf (expire_loop (length (z # zs) + n) u t c) (k, m) =
      exec cf xf (expire_loop (length zs + n) (Some z) (et_next m z) c) (k, ?m)"
    using z t by (simp add: expired_read_def)
  also have "\<dots> = exec cf xf (expire_loop n (if zs = [] then Some z else Some (last zs))
        (if zs = [] then et_next m z else et_next m (last zs)) c) (k, ?m\<lparr>clock_reads := clock_reads ?m + length zs\<rparr>)"
    using Cons.IH [of ?m "et_next m z" "Some z"] zs ch by (simp split: if_splits)
  finally show ?case by (simp split: if_splits)
qed

lemma process_poll_twice: "process_poll p (process_poll p k) = process_poll p k"
  by (auto simp: process_poll_def split: option.split)

text \<open>With a full event queue every expired timer stays on the list and asks for another poll.\<close>

lemma expire_loop_full:
  assumes "unat (nevents k) = PROCESS_CONF_NUMEVENTS" and "chain (et_next m) t ys" and "length ys < n"
  shows "exec cf xf (expire_loop n u t c) (k, m) =
    exec cf xf c (if \<exists>j < length ys. expired_read m j (ys ! j) then process_poll (Some etimer_process) k else k,
      m\<lparr>clock_reads := clock_reads m + length ys\<rparr>)"
  using assms
proof (induction ys arbitrary: n u t m k)
  case Nil
  then show ?case by (cases n) auto
next
  case (Cons y ys)
  obtain n' where n: "n = Suc n'" using Cons.prems(3) by (cases n) auto
  have t: "t = Some y" and ch: "chain (et_next m) (et_next m y) ys" using Cons.prems(2) by auto
  let ?m = "m\<lparr>clock_reads := Suc (clock_reads m)\<rparr>"
  let ?k = "if expired_read m 0 y then process_poll (Some etimer_process) k else k"
  let ?later = "\<exists>j < length ys. expired_read m (Suc j) (ys ! j)"
  have full: "unat (nevents ?k) = PROCESS_CONF_NUMEVENTS"
    using Cons.prems(1) by (simp add: process_poll_def)
  have "exec cf xf (expire_loop n u t c) (k, m) = exec cf xf (expire_loop n' (Some y) (et_next m y) c) (?k, ?m)"
    using Cons.prems(1) t n
    by (simp add: expired_read_def process_post_def PROCESS_ERR_OK_def PROCESS_ERR_FULL_def)
  also have "\<dots> = exec cf xf c (if ?later then process_poll (Some etimer_process) ?k else ?k,
      ?m\<lparr>clock_reads := clock_reads ?m + length ys\<rparr>)"
    using Cons.IH [of ?k ?m "et_next m y" n' "Some y"] Cons.prems(3) ch full n by simp
  also have "(if ?later then process_poll (Some etimer_process) ?k else ?k) =
      (if expired_read m 0 y \<or> ?later then process_poll (Some etimer_process) k else k)"
    by (cases ?later; cases "expired_read m 0 y") (simp_all only: if_True if_False simp_thms process_poll_twice)
  also have "(expired_read m 0 y \<or> ?later) = (\<exists>j < length (y # ys). expired_read m j ((y # ys) ! j))"
    by (simp add: Ex_less_Suc2)
  finally show ?case by simp
qed

text \<open>Posting the event of the first expired timer takes it off the list.\<close>

lemma unlink_timer_chain:
  assumes "chain (et_next m) (timerlist m) (zs @ t # ys)"
  shows "chain (et_next (unlink_timer (if zs = [] then None else Some (last zs)) t m))
    (timerlist (unlink_timer (if zs = [] then None else Some (last zs)) t m)) (zs @ ys)"
proof (cases zs rule: rev_cases)
  case Nil
  with assms chain_distinct [OF assms] show ?thesis by (simp add: unlink_timer_def Let_def)
next
  case (snoc as z)
  have d: "distinct (as @ z # t # ys)" using chain_distinct [OF assms] snoc by simp
  have "chain (et_next m) (et_next m t) ys" using chain_split [OF assms] .
  moreover have "z \<notin> set ys" using d by simp
  ultimately have "chain ((et_next m)(z := et_next m t)) (timerlist m) (as @ z # ys)"
    using chain_splice [of "et_next m" "timerlist m" as z "t # ys"] assms snoc by simp
  moreover have "t \<notin> set (as @ z # ys)" using d by auto
  ultimately have "chain ((et_next m)(z := et_next m t, t := None)) (timerlist m) (as @ z # ys)"
    by (simp only: chain_upd_notin not_False_eq_True)
  with snoc show ?thesis by (simp add: unlink_timer_def Let_def)
qed

lemma unlink_timer_simps [simp]:
  "et_p (unlink_timer u t m) = (et_p m)(t := None)" "et_timer (unlink_timer u t m) = et_timer m"
  "clock_trace (unlink_timer u t m) = clock_trace m" "clock_reads (unlink_timer u t m) = clock_reads m"
  by (simp_all add: unlink_timer_def Let_def split: option.split)

lemma expire_loop_post:
  assumes ch: "chain (et_next m) (timerlist m) (zs @ t # ys)"
    and zs: "\<forall>j < length zs. \<not> expired_read m j (zs ! j)" and t: "expired_read m (length zs) t"
    and k: "kernel_ok k" and room: "unat (nevents k) < PROCESS_CONF_NUMEVENTS"
    and n: "length (zs @ ys) \<le> n"
  shows "\<exists>m'. exec cf xf (expire_loop (length zs + Suc n) None (timerlist m) c) (k, m) =
      exec cf xf (expire_loop n None (timerlist m') c) (snd (post_event (timer_event m t) k), m') \<and>
    chain (et_next m') (timerlist m') (zs @ ys) \<and> et_p m' = (et_p m)(t := None) \<and>
    et_timer m' = et_timer m \<and> clock_trace m' = clock_trace m \<and> clock_reads m + length zs < clock_reads m'"
proof -
  let ?u = "if zs = [] then None else Some (last zs)"
  let ?r = "m\<lparr>clock_reads := clock_reads m + length zs\<rparr>"
  let ?r1 = "?r\<lparr>clock_reads := Suc (clock_reads ?r)\<rparr>"
  let ?m = "unlink_timer ?u t ?r1"
  have cur: "(if zs = [] then timerlist m else et_next m (last zs)) = Some t"
  proof (cases zs rule: rev_cases)
    case (snoc as z)
    then have "chain (et_next m) (timerlist m) (as @ z # t # ys)" using ch by simp
    from chain_split [OF this] snoc show ?thesis by simp
  qed (use ch in simp)
  have "post_event (timer_event m t) k = process_post (et_p m t) PROCESS_EVENT_TIMER (Some t) k"
    by (simp add: post_event_def timer_event_def)
  with post_event_room(1) [OF k room, of "timer_event m t"]
  have ok: "fst (process_post (et_p m t) PROCESS_EVENT_TIMER (Some t) k) = PROCESS_ERR_OK"
    and post: "snd (process_post (et_p m t) PROCESS_EVENT_TIMER (Some t) k) = snd (post_event (timer_event m t) k)"
    by simp_all
  have un: "chain (et_next ?m) (timerlist ?m) (zs @ ys)"
    using unlink_timer_chain [of ?r1 zs t ys] ch by simp
  have "exec cf xf (expire_loop (length zs + Suc n) None (timerlist m) c) (k, m) =
      exec cf xf (expire_loop (Suc n) ?u (Some t) c) (k, ?r)"
    using expire_loop_skip [OF zs ch, of cf xf "Suc n" None c k] cur by simp
  also have "\<dots> = exec cf xf (update_time n (Get (\<lambda>m. expire_loop n None (timerlist m) c)))
      (snd (post_event (timer_event m t) k), ?m)"
    using t ok by (simp add: post expired_read_def)
  also have "\<dots> = exec cf xf (expire_loop n None (timerlist (timed (zs @ ys) ?m)) c)
      (snd (post_event (timer_event m t) k), timed (zs @ ys) ?m)"
    using update_time_chain [OF un n] by simp
  finally have run: "exec cf xf (expire_loop (length zs + Suc n) None (timerlist m) c) (k, m) =
      exec cf xf (expire_loop n None (timerlist (timed (zs @ ys) ?m)) c)
      (snd (post_event (timer_event m t) k), timed (zs @ ys) ?m)" .
  show ?thesis
  proof (rule exI [of _ "timed (zs @ ys) ?m"], intro conjI run)
    show "clock_reads m + length zs < clock_reads (timed (zs @ ys) ?m)"
      using timed_reads [of ?m "zs @ ys"] by (simp del: timed.simps)
  qed (use un in simp_all)
qed

definition expired_timers :: "u32 \<Rightarrow> 'b etimers_scheme \<Rightarrow> ptr list \<Rightarrow> ptr list" where
  "expired_timers now m ts = filter (expired_at now m) ts"

definition room :: "kernel \<Rightarrow> nat" where
  "room k = PROCESS_CONF_NUMEVENTS - length (event_queue k)"

text \<open>What the poll leaves when the timers \<open>ps\<close> have been posted.\<close>

definition posted :: "ptr list \<Rightarrow> ptr list \<Rightarrow> kernel \<Rightarrow> 'b etimers_scheme \<Rightarrow> kernel \<Rightarrow> 'b etimers_scheme \<Rightarrow> bool" where
  "posted ts ps k m k' m' \<longleftrightarrow>
     event_queue k' = event_queue k @ map (timer_event m) ps \<and>
     chain (et_next m') (timerlist m') (filter (\<lambda>t. t \<notin> set ps) ts) \<and>
     (\<forall>t. et_p m' t = (if t \<in> set ps then None else et_p m t)) \<and> et_timer m' = et_timer m \<and>
     kernel_ok k' \<and> pstate k' = pstate k"

lemma room_post:
  assumes "kernel_ok k" and "0 < room k"
  shows "unat (nevents k) < PROCESS_CONF_NUMEVENTS" and "kernel_ok (snd (post_event e k))"
    and "event_queue (snd (post_event e k)) = event_queue k @ [e]" and "room (snd (post_event e k)) = room k - 1"
    and "pstate (snd (post_event e k)) = pstate k"
proof -
  show n: "unat (nevents k) < PROCESS_CONF_NUMEVENTS" using assms(2) by (simp add: room_def event_queue_def)
  show "kernel_ok (snd (post_event e k))" using process_post_ok [OF assms(1)] by (simp add: post_event_def)
  show q: "event_queue (snd (post_event e k)) = event_queue k @ [e]" by (rule post_event_room(2) [OF assms(1) n])
  show "room (snd (post_event e k)) = room k - 1" by (simp add: room_def q)
  show "pstate (snd (post_event e k)) = pstate k" by (simp add: post_event_def process_post_def Let_def)
qed

lemma posted_none:
  assumes "chain (et_next m) (timerlist m) ts" and "kernel_ok k"
  shows "posted ts [] k m k (m\<lparr>clock_reads := r\<rparr>)"
    and "posted ts [] k m (process_poll (Some etimer_process) k) (m\<lparr>clock_reads := r\<rparr>)"
  using assms ki.poll [OF assms(2), of "Some etimer_process"]
  by (auto simp: posted_def process_poll_def)

lemma posted_Cons:
  assumes p: "posted (zs @ ys) ps k1 m1 k' m'" and ts: "distinct (zs @ t # ys)" "set ps \<subseteq> set (zs @ ys)"
    and q: "event_queue k1 = event_queue k @ [timer_event m t]" and e: "et_p m1 = (et_p m)(t := None)"
    and "et_timer m1 = et_timer m" and "pstate k1 = pstate k"
  shows "posted (zs @ t # ys) (t # ps) k m k' m'"
proof -
  have t: "t \<notin> set ps" using ts by auto
  have "map (timer_event m1) ps = map (timer_event m) ps"
    using t e by (auto simp: timer_event_def)
  moreover have "filter (\<lambda>x. x \<notin> set (t # ps)) xs = filter (\<lambda>x. x \<notin> set ps) xs" if "t \<notin> set xs" for xs
    using that by (induction xs) auto
  from this [of zs] this [of ys] ts have
    "filter (\<lambda>x. x \<notin> set (t # ps)) (zs @ t # ys) = filter (\<lambda>x. x \<notin> set ps) (zs @ ys)" by simp
  moreover have "(if x \<in> set ps then None else et_p m1 x) = (if x \<in> set (t # ps) then None else et_p m x)" for x
    using e by simp
  ultimately show ?thesis using p q assms(6,7) unfolding posted_def by simp
qed

text \<open>
  The promise of a poll. The clock may tick at every reading: \<open>seen\<close> are the values that it had during the
  poll. Every timer that was posted had expired at one of them; a timer that stays on the list had not
  expired at one of them, or the event queue is full and the process will be polled again.
\<close>

definition seen :: "'b etimers_scheme \<Rightarrow> 'b etimers_scheme \<Rightarrow> u32 set" where
  "seen m m' = clock_trace m ` {clock_reads m..<clock_reads m'}"

definition poll_promise ::
  "ptr list \<Rightarrow> ptr list \<Rightarrow> kernel \<Rightarrow> 'b etimers_scheme \<Rightarrow> kernel \<Rightarrow> 'b etimers_scheme \<Rightarrow> bool" where
  "poll_promise ts ps k m k' m' \<longleftrightarrow>
     posted ts ps k m k' m' \<and> distinct ps \<and> set ps \<subseteq> set ts \<and> clock_reads m \<le> clock_reads m' \<and>
     (\<forall>t \<in> set ps. \<exists>now \<in> seen m m'. expired_at now m t) \<and>
     (\<forall>t \<in> set ts - set ps. (\<exists>now \<in> seen m m'. \<not> expired_at now m t) \<or>
        (room k' = 0 \<and> process_poll (Some etimer_process) k' = k')) \<and>
     (\<forall>now. (\<forall>t \<in> set ts. \<forall>x \<in> seen m m'. expired_at x m t = expired_at now m t) \<longrightarrow>
        ps = take (room k) (expired_timers now m ts) \<and>
        (room k < length (expired_timers now m ts) \<longrightarrow> process_poll (Some etimer_process) k' = k'))"

lemma poll_promiseD:
  assumes "poll_promise ts ps k m k' m'"
  shows "posted ts ps k m k' m'" and "distinct ps" and "set ps \<subseteq> set ts" and "clock_reads m \<le> clock_reads m'"
    and "\<And>t. t \<in> set ps \<Longrightarrow> \<exists>now \<in> seen m m'. expired_at now m t"
    and "\<And>t. t \<in> set ts \<Longrightarrow> t \<notin> set ps \<Longrightarrow> (\<exists>now \<in> seen m m'. \<not> expired_at now m t) \<or>
        (room k' = 0 \<and> process_poll (Some etimer_process) k' = k')"
    and "\<And>now. \<forall>t \<in> set ts. \<forall>x \<in> seen m m'. expired_at x m t = expired_at now m t \<Longrightarrow>
        ps = take (room k) (expired_timers now m ts) \<and>
        (room k < length (expired_timers now m ts) \<longrightarrow> process_poll (Some etimer_process) k' = k')"
  using assms unfolding poll_promise_def by (elim conjE, assumption | elim conjE, blast)+

lemma seen_read: "j < length zs \<Longrightarrow> clock_trace m (clock_reads m + j) \<in> seen m (m\<lparr>clock_reads := clock_reads m + length zs\<rparr>)"
  by (simp add: seen_def)

lemma poll_promise_full:
  assumes "chain (et_next m) (timerlist m) ts" and "kernel_ok k" and "room k = 0"
  shows "poll_promise ts [] k m
    (if \<exists>j < length ts. expired_read m j (ts ! j) then process_poll (Some etimer_process) k else k)
    (m\<lparr>clock_reads := clock_reads m + length ts\<rparr>)"
proof -
  let ?k = "if \<exists>j < length ts. expired_read m j (ts ! j) then process_poll (Some etimer_process) k else k"
  let ?m = "m\<lparr>clock_reads := clock_reads m + length ts\<rparr>"
  have p: "posted ts [] k m ?k ?m" using posted_none [OF assms(1,2)] by simp
  have r: "room ?k = 0" using assms(3) by (simp add: room_def event_queue_def process_poll_def)
  have stay: "(\<exists>now \<in> seen m ?m. \<not> expired_at now m t) \<or> process_poll (Some etimer_process) ?k = ?k"
    if "t \<in> set ts" for t
    using that process_poll_twice seen_read [of _ ts m] by (auto simp: in_set_conv_nth expired_read_def)
  have ask: "process_poll (Some etimer_process) ?k = ?k"
    if "\<forall>t \<in> set ts. \<forall>x \<in> seen m ?m. expired_at x m t = expired_at now m t" "expired_timers now m ts \<noteq> []" for now
  proof -
    from that(2) obtain j where "j < length ts" "expired_at now m (ts ! j)"
      by (auto simp: expired_timers_def filter_empty_conv in_set_conv_nth)
    then have "\<exists>j < length ts. expired_read m j (ts ! j)"
      using that(1) seen_read [of j ts m] by (auto simp: expired_read_def)
    then show ?thesis using process_poll_twice by simp
  qed
  have "\<forall>t \<in> set ts - set []. (\<exists>now \<in> seen m ?m. \<not> expired_at now m t) \<or>
      (room ?k = 0 \<and> process_poll (Some etimer_process) ?k = ?k)"
    using stay r by blast
  moreover have "\<forall>now. (\<forall>t \<in> set ts. \<forall>x \<in> seen m ?m. expired_at x m t = expired_at now m t) \<longrightarrow>
        [] = take (room k) (expired_timers now m ts) \<and>
        (room k < length (expired_timers now m ts) \<longrightarrow> process_poll (Some etimer_process) ?k = ?k)"
    using ask unfolding assms(3) take_0 length_greater_0_conv by blast
  ultimately show ?thesis unfolding poll_promise_def using p by (intro conjI) (assumption | simp only: list.set ball_empty distinct.simps empty_subsetI | simp)+
qed

lemma poll_promise_none:
  assumes "chain (et_next m) (timerlist m) ts" and "kernel_ok k" and ts: "\<forall>j < length ts. \<not> expired_read m j (ts ! j)"
  shows "poll_promise ts [] k m k (m\<lparr>clock_reads := clock_reads m + length ts\<rparr>)"
proof -
  let ?m = "m\<lparr>clock_reads := clock_reads m + length ts\<rparr>"
  have stay: "\<exists>now \<in> seen m ?m. \<not> expired_at now m t" if "t \<in> set ts" for t
    using that ts seen_read [of _ ts m] by (auto simp: in_set_conv_nth expired_read_def)
  then have "expired_timers now m ts = []"
    if "\<forall>t \<in> set ts. \<forall>x \<in> seen m ?m. expired_at x m t = expired_at now m t" for now
    using that by (force simp: expired_timers_def filter_empty_conv)
  then show ?thesis unfolding poll_promise_def using posted_none(1) [OF assms(1,2)] stay by auto
qed

lemma poll_promise_Cons:
  assumes p: "poll_promise (zs @ ys) ps k1 m1 k' m'" and d: "distinct (zs @ t # ys)" and r: "0 < room k"
    and zs: "\<forall>j < length zs. \<not> expired_read m j (zs ! j)" and t: "expired_read m (length zs) t"
    and k1: "event_queue k1 = event_queue k @ [timer_event m t]" "room k1 = room k - 1" "pstate k1 = pstate k"
    and m1: "et_p m1 = (et_p m)(t := None)" "et_timer m1 = et_timer m" "clock_trace m1 = clock_trace m"
      "clock_reads m + length zs < clock_reads m1"
  shows "poll_promise (zs @ t # ys) (t # ps) k m k' m'"
proof -
  have sub: "set ps \<subseteq> set (zs @ ys)" and le: "clock_reads m1 \<le> clock_reads m'" using poll_promiseD(3,4) [OF p] .
  then have seen: "seen m1 m' \<subseteq> seen m m'" and t_seen: "clock_trace m (clock_reads m + length zs) \<in> seen m m'"
    and z_seen: "\<And>j. j < length zs \<Longrightarrow> clock_trace m (clock_reads m + j) \<in> seen m m'"
    using m1(3,4) by (auto simp: seen_def)
  have posted: "posted (zs @ t # ys) (t # ps) k m k' m'"
    by (rule posted_Cons [OF poll_promiseD(1) [OF p] d sub k1(1) m1(1,2) k1(3)])
  have order: "t # ps = take (room k) (expired_timers now m (zs @ t # ys)) \<and>
      (room k < length (expired_timers now m (zs @ t # ys)) \<longrightarrow> process_poll (Some etimer_process) k' = k')"
    if s: "\<forall>x \<in> set (zs @ t # ys). \<forall>y \<in> seen m m'. expired_at y m x = expired_at now m x" for now
  proof -
    have "\<forall>z \<in> set zs. \<not> expired_at now m z"
      using zs z_seen s by (fastforce simp: in_set_conv_nth expired_read_def)
    moreover have "expired_at now m t" using t t_seen s by (auto simp: expired_read_def)
    ultimately have es: "expired_timers now m (zs @ t # ys) = t # expired_timers now m1 (zs @ ys)"
      using m1(2) by (simp add: expired_timers_def filter_empty_conv)
    have "\<forall>x \<in> set (zs @ ys). \<forall>y \<in> seen m1 m'. expired_at y m1 x = expired_at now m1 x"
      using s seen m1(2) by auto
    from poll_promiseD(7) [OF p this] show ?thesis unfolding es using r k1(2) by (cases "room k") auto
  qed
  have at: "\<forall>x \<in> set (t # ps). \<exists>now \<in> seen m m'. expired_at now m x"
    using poll_promiseD(5) [OF p] t t_seen seen m1(2) by (fastforce simp: expired_read_def)
  have stay: "\<forall>x \<in> set (zs @ t # ys) - set (t # ps). (\<exists>now \<in> seen m m'. \<not> expired_at now m x) \<or>
        (room k' = 0 \<and> process_poll (Some etimer_process) k' = k')"
  proof
    fix x assume "x \<in> set (zs @ t # ys) - set (t # ps)"
    then have "x \<in> set (zs @ ys)" "x \<notin> set ps" by auto
    from poll_promiseD(6) [OF p this] seen show "(\<exists>now \<in> seen m m'. \<not> expired_at now m x) \<or>
        (room k' = 0 \<and> process_poll (Some etimer_process) k' = k')" unfolding m1(2) by blast
  qed
  have "distinct (t # ps)" and "set (t # ps) \<subseteq> set (zs @ t # ys)" and "clock_reads m \<le> clock_reads m'"
    using poll_promiseD(2) [OF p] d sub le m1(4) by auto
  with posted order at stay show ?thesis unfolding poll_promise_def by blast
qed

lemma first_expired:
  obtains (none) "\<forall>j < length ts. \<not> expired_read m j (ts ! j)"
    | (first) zs t ys where "ts = zs @ t # ys" and "\<forall>j < length zs. \<not> expired_read m j (zs ! j)"
        and "expired_read m (length zs) t"
proof (cases "\<exists>j < length ts. expired_read m j (ts ! j)")
  case True
  define j where "j = (LEAST j. expired_read m j (ts ! j) \<and> j < length ts)"
  from True have j: "expired_read m j (ts ! j)" "j < length ts"
    unfolding j_def by (metis (mono_tags, lifting) LeastI)+
  have "\<not> expired_read m i (ts ! i)" if "i < j" for i
    using not_less_Least [of i "\<lambda>j. expired_read m j (ts ! j) \<and> j < length ts"] that j(2) by (auto simp: j_def)
  with first [of "take j ts" "ts ! j" "drop (Suc j) ts"] j show thesis by (simp add: id_take_nth_drop)
qed (use none in blast)

lemma expire_loop_posted:
  assumes "chain (et_next m) (timerlist m) ts" and "kernel_ok k" and "Suc (length ts) * Suc (length ts) \<le> n"
  shows "\<exists>k' m' ps. exec cf xf (expire_loop n None (timerlist m) c) (k, m) = exec cf xf c (k', m') \<and>
    poll_promise ts ps k m k' m'"
  using assms
proof (induction "length ts" arbitrary: ts m k n rule: less_induct)
  case less
  have len: "length ts < n" using less.prems(3) by (auto simp: algebra_simps)
  show ?case
  proof (cases "room k = 0")
    case True
    then have "unat (nevents k) = PROCESS_CONF_NUMEVENTS"
      using less.prems(2) by (simp add: room_def event_queue_def kernel_ok_def)
    from expire_loop_full [OF this less.prems(1) len, of cf xf None c] poll_promise_full [OF less.prems(1,2) True]
    show ?thesis by blast
  next
    case False
    show ?thesis
    proof (cases rule: first_expired [of ts m])
      case none
      obtain n' where n: "n = length ts + Suc n'" using len by (auto simp: less_iff_Suc_add)
      have "(if ts = [] then timerlist m else et_next m (last ts)) = None"
        using less.prems(1) chain_snoc [of "et_next m" "timerlist m" "butlast ts" "last ts"] by (cases "ts = []") auto
      with expire_loop_skip [OF none, of "timerlist m" "[]" cf xf "Suc n'" None c k] less.prems(1) n
      have "exec cf xf (expire_loop n None (timerlist m) c) (k, m) =
          exec cf xf c (k, m\<lparr>clock_reads := clock_reads m + length ts\<rparr>)" by simp
      with poll_promise_none [OF less.prems(1,2) none] show ?thesis by blast
    next
      case (first zs t ys)
      let ?k = "snd (post_event (timer_event m t) k)"
      from False have room: "0 < room k" by simp
      note r = room_post [OF less.prems(2) room]
      have "Suc (length (zs @ ys)) * Suc (length (zs @ ys)) + Suc (length (zs @ ys)) + 1 + Suc (length (zs @ ys)) \<le> n"
        using less.prems(3) first(1) by (simp add: algebra_simps)
      moreover define n' where "n' = n - Suc (length zs)"
      ultimately have n: "n = length zs + Suc n'"
        and n': "Suc (length (zs @ ys)) * Suc (length (zs @ ys)) \<le> n'" "length (zs @ ys) \<le> n'"
        by simp_all
      have ch: "chain (et_next m) (timerlist m) (zs @ t # ys)" using less.prems(1) first(1) by simp
      from expire_loop_post [OF ch first(2,3) less.prems(2) r(1) n'(2), of cf xf c] obtain m1 where
        run: "exec cf xf (expire_loop n None (timerlist m) c) (k, m) =
          exec cf xf (expire_loop n' None (timerlist m1) c) (?k, m1)"
        and ch1: "chain (et_next m1) (timerlist m1) (zs @ ys)" and m1: "et_p m1 = (et_p m)(t := None)"
          "et_timer m1 = et_timer m" "clock_trace m1 = clock_trace m" "clock_reads m + length zs < clock_reads m1"
        unfolding n by blast
      have "length (zs @ ys) < length ts" by (simp add: first(1))
      from less.hyps [OF this ch1 r(2) n'(1)] obtain k' m' ps where
        rest: "exec cf xf (expire_loop n' None (timerlist m1) c) (?k, m1) = exec cf xf c (k', m')"
        and p: "poll_promise (zs @ ys) ps ?k m1 k' m'" by blast
      have "poll_promise ts (t # ps) k m k' m'"
        unfolding first(1) by (rule poll_promise_Cons [OF p chain_distinct [OF ch] room first(2,3) r(3,4,5) m1])
      with run rest show ?thesis by (intro exI conjI) (assumption | simp)+
    qed
  qed
qed

text \<open>
  C39: When the event timer process is polled, it posts \<open>PROCESS_EVENT_TIMER\<close> for expired timers to the
  processes that own them, each timer once and at most as many as the event queue has room for; exactly
  these leave the list and are marked as expired, and all other timers stay on the list in their order.
  The clock may tick while the list is walked. A timer is posted only if it had expired at one of the
  times that the poll read, and it stays only if it had not expired at one of them, or because the event
  queue is full, and then the process has asked to be polled again. When no timer of the list expires
  between these readings, the posted timers are the expired ones in the order of the list, cut to the
  room in the queue, and the process is polled again if one is left. The thread returns: the fuel
  \<open>(length ts + 1) ^ 2\<close> covers the restarts at \<^verbatim>\<open>again\<close>.
\<close>

theorem etimer_poll_posts_expired:
  assumes "chain (et_next m) (timerlist m) ts" and "kernel_ok k"
    and "Suc (length ts) * Suc (length ts) \<le> n"
  shows "\<exists>k' m' ps. exec cf xf (etimer_thread n 1 PROCESS_EVENT_POLL d) (k, m) = Ok ((1, PT_YIELDED), (k', m')) \<and>
    distinct ps \<and> set ps \<subseteq> set ts \<and> kernel_ok k' \<and>
    event_queue k' = event_queue k @
      map (\<lambda>t. \<lparr>ev_ev = PROCESS_EVENT_TIMER, ev_data = Some t, ev_p = et_p m t\<rparr>) ps \<and>
    chain (et_next m') (timerlist m') (filter (\<lambda>t. t \<notin> set ps) ts) \<and>
    (\<forall>t. etimer_expired m' t = (t \<in> set ps \<or> etimer_expired m t)) \<and>
    (\<forall>t \<in> set ps. \<exists>now \<in> seen m m'. timer_expired now (et_timer m t)) \<and>
    (\<forall>t \<in> set ts - set ps. (\<exists>now \<in> seen m m'. \<not> timer_expired now (et_timer m t)) \<or>
       (length (event_queue k') = PROCESS_CONF_NUMEVENTS \<and> process_poll (Some etimer_process) k' = k')) \<and>
    (\<forall>now es. (\<forall>t \<in> set ts. \<forall>x \<in> seen m m'. timer_expired x (et_timer m t) = timer_expired now (et_timer m t)) \<and>
         es = filter (\<lambda>t. timer_expired now (et_timer m t)) ts \<longrightarrow>
       ps = take (PROCESS_CONF_NUMEVENTS - length (event_queue k)) es \<and>
       (ps \<noteq> es \<longrightarrow> process_poll (Some etimer_process) k' = k'))"
proof -
  from expire_loop_posted [OF assms, of cf xf "Ret 1 PT_YIELDED"] obtain k' m' ps where
    run: "exec cf xf (expire_loop n None (timerlist m) (Ret 1 PT_YIELDED)) (k, m) = Ok ((1, PT_YIELDED), (k', m'))"
    and p: "poll_promise ts ps k m k' m'" by auto
  note d = poll_promiseD [OF p]
  note posted = d(1)
  then have "kernel_ok k'" by (simp add: posted_def)
  then have "length (event_queue k') \<le> PROCESS_CONF_NUMEVENTS" by (simp add: event_queue_def kernel_ok_def)
  then have full: "length (event_queue k') = PROCESS_CONF_NUMEVENTS" if "room k' = 0"
    using that by (simp add: room_def)
  have order: "ps = take (PROCESS_CONF_NUMEVENTS - length (event_queue k)) es \<and>
      (ps \<noteq> es \<longrightarrow> process_poll (Some etimer_process) k' = k')"
    if "\<forall>t \<in> set ts. \<forall>x \<in> seen m m'. expired_at x m t = expired_at now m t" "es = filter (expired_at now m) ts" for now es
  proof -
    from d(7) [OF that(1)] have "ps = take (room k) es" "room k < length es \<longrightarrow> process_poll (Some etimer_process) k' = k'"
      unfolding that(2) expired_timers_def by blast+
    then show ?thesis by (cases "room k < length es") (auto simp: room_def)
  qed
  show ?thesis
  proof (intro exI [of _ k'] exI [of _ m'] exI [of _ ps] conjI)
    show "exec cf xf (etimer_thread n 1 PROCESS_EVENT_POLL d) (k, m) = Ok ((1, PT_YIELDED), (k', m'))"
      using run by (simp add: etimer_thread_def PROCESS_EVENT_POLL_def PROCESS_EVENT_EXITED_def)
    show "\<forall>t \<in> set ts - set ps. (\<exists>now \<in> seen m m'. \<not> expired_at now m t) \<or>
       (length (event_queue k') = PROCESS_CONF_NUMEVENTS \<and> process_poll (Some etimer_process) k' = k')"
    proof
      fix t assume "t \<in> set ts - set ps"
      then have "t \<in> set ts" and "t \<notin> set ps" by simp_all
      from d(6) [OF this] full show "(\<exists>now \<in> seen m m'. \<not> expired_at now m t) \<or>
        (length (event_queue k') = PROCESS_CONF_NUMEVENTS \<and> process_poll (Some etimer_process) k' = k')" by blast
    qed
    show "event_queue k' = event_queue k @
        map (\<lambda>t. \<lparr>ev_ev = PROCESS_EVENT_TIMER, ev_data = Some t, ev_p = et_p m t\<rparr>) ps"
      using posted by (simp add: posted_def timer_event_def [abs_def])
    show "\<forall>t. etimer_expired m' t = (t \<in> set ps \<or> etimer_expired m t)"
      using posted by (simp add: posted_def etimer_expired_def)
    show "chain (et_next m') (timerlist m') (filter (\<lambda>t. t \<notin> set ps) ts)" and "kernel_ok k'"
      using posted by (simp_all add: posted_def)
    show "distinct ps" and "set ps \<subseteq> set ts" and "\<forall>t \<in> set ps. \<exists>now \<in> seen m m'. expired_at now m t"
      using d(2,3,5) by blast+
  qed (use order in blast)
qed

definition demo_timers :: etimers where
  "demo_timers = \<lparr>et_timer = (\<lambda>t. if t = 10 then \<lparr>tstart = 100, tinterval = 50\<rparr> else \<lparr>tstart = 120, tinterval = 5\<rparr>),
     et_next = (\<lambda>t. if t = 10 then Some 20 else None), et_p = (\<lambda>t. Some 3), timerlist = Some 10,
     next_expiration = 0, clock_trace = (\<lambda>i. 130), clock_reads = 0\<rparr>"

text \<open>The same timers with a clock that ticks after its second reading.\<close>

definition ticking_timers :: etimers where
  "ticking_timers = demo_timers\<lparr>clock_trace := (\<lambda>i. if i < 2 then 130 else 131)\<rparr>"

theorem etimer_poll_posts_expired_witness:
  "\<exists>k' m'. exec (call_process (\<lambda>p. None) 0) (exit_process (\<lambda>p. None) 0)
       (etimer_thread 9 1 PROCESS_EVENT_POLL None) (boot_kernel, ticking_timers) = Ok ((1, PT_YIELDED), (k', m')) \<and>
     event_queue k' = [\<lparr>ev_ev = PROCESS_EVENT_TIMER, ev_data = Some 20, ev_p = Some 3\<rparr>] \<and>
     chain (et_next m') (timerlist m') [10]"
proof -
  have ok: "kernel_ok boot_kernel" by (rule boot_kernel_ok)
  have q: "event_queue boot_kernel = []" by (simp add: event_queue_def boot_kernel_def)
  have "chain (et_next ticking_timers) (timerlist ticking_timers) [10, 20]" by (simp add: ticking_timers_def demo_timers_def)
  from etimer_poll_posts_expired [OF this ok, of 9 "call_process (\<lambda>p. None) 0" "exit_process (\<lambda>p. None) 0" None]
  obtain k' m' ps where run: "exec (call_process (\<lambda>p. None) 0) (exit_process (\<lambda>p. None) 0)
       (etimer_thread 9 1 PROCESS_EVENT_POLL None) (boot_kernel, ticking_timers) = Ok ((1, PT_YIELDED), (k', m'))"
    and ev: "event_queue k' = map (\<lambda>t. \<lparr>ev_ev = PROCESS_EVENT_TIMER, ev_data = Some t, ev_p = et_p ticking_timers t\<rparr>) ps"
    and ch: "chain (et_next m') (timerlist m') (filter (\<lambda>t. t \<notin> set ps) [10, 20])"
    and ord: "\<forall>now es. (\<forall>t \<in> set [10, 20]. \<forall>x \<in> seen ticking_timers m'.
          timer_expired x (et_timer ticking_timers t) = timer_expired now (et_timer ticking_timers t)) \<and>
         es = filter (\<lambda>t. timer_expired now (et_timer ticking_timers t)) [10, 20] \<longrightarrow>
       ps = take PROCESS_CONF_NUMEVENTS es"
    unfolding q by auto
  have e: "timer_expired x (et_timer ticking_timers t) = (t \<noteq> 10)" if "x = 130 \<or> x = 131" for x t
    using that by (auto simp: ticking_timers_def demo_timers_def timer_expired_def Let_def)
  have "x = 130 \<or> x = 131" if "x \<in> seen ticking_timers m'" for x
    using that by (auto simp: seen_def ticking_timers_def demo_timers_def)
  then have "ps = take PROCESS_CONF_NUMEVENTS (filter (\<lambda>t. timer_expired 130 (et_timer ticking_timers t)) [10, 20])"
    using e by (intro ord [rule_format]) auto
  then have "ps = [20]" using e [of 130] by (simp add: PROCESS_CONF_NUMEVENTS_def)
  with run ev ch show ?thesis by (intro exI [of _ k'] exI [of _ m']) (simp add: ticking_timers_def demo_timers_def)
qed

section \<open>The timers of a process that exits\<close>

lemma drop_head_chain:
  "chain (et_next m) (timerlist m) ts \<Longrightarrow> length ts < n \<Longrightarrow>
   \<exists>l. drop_head n m p = Some (m\<lparr>timerlist := l\<rparr>) \<and> chain (et_next m) l (dropWhile (\<lambda>t. et_p m t = p) ts)"
proof (induction ts arbitrary: n m)
  case Nil
  then show ?case by (cases n) (auto intro: exI [of _ None])
next
  case (Cons t ts)
  obtain n' where n: "n = Suc n'" using Cons.prems(2) by (cases n) auto
  have t: "timerlist m = Some t" using Cons.prems(1) by simp
  show ?case
  proof (cases "et_p m t = p")
    case True
    with Cons.IH [of "m\<lparr>timerlist := et_next m t\<rparr>" n'] Cons.prems n t show ?thesis by auto
  next
    case False
    with n t Cons.prems(1) have "drop_head n m p = Some (m\<lparr>timerlist := Some t\<rparr>)" by simp
    with False Cons.prems(1) t show ?thesis by auto
  qed
qed

lemma drop_rest_chain:
  assumes "chain (et_next m) l (xs @ t # ts)" and "length ts < n"
  shows "\<exists>h. drop_rest n m t p = Some (m\<lparr>et_next := h\<rparr>) \<and> chain h l (xs @ t # filter (\<lambda>t. et_p m t \<noteq> p) ts)"
  using assms
proof (induction ts arbitrary: n m t xs)
  case Nil
  then have "et_next m t = None" using chain_snoc by blast
  with Nil show ?case by (cases n) (auto intro: exI [of _ "et_next m"])
next
  case (Cons u ts)
  obtain n' where n: "n = Suc n'" using Cons.prems(2) by (cases n) auto
  have u: "et_next m t = Some u" and ch: "chain (et_next m) (et_next m u) ts"
    using chain_split [OF Cons.prems(1)] by auto
  show ?case
  proof (cases "et_p m u = p")
    case True
    let ?m = "m\<lparr>et_next := (et_next m)(t := et_next m u)\<rparr>"
    have "t \<notin> set ts" using chain_distinct [OF Cons.prems(1)] by auto
    from chain_splice [OF Cons.prems(1) ch this] Cons.IH [of ?m xs t n'] Cons.prems(2) n u True
    show ?thesis by (auto simp del: fun_upd_apply)
  next
    case False
    with Cons.IH [of m "xs @ [t]" u n'] Cons.prems n u show ?thesis by auto
  qed
qed

lemma filter_dropWhile: "filter (\<lambda>x. \<not> P x) (dropWhile P xs) = filter (\<lambda>x. \<not> P x) xs"
  by (induction xs) auto

text \<open>
  When a process exits, the event timer process takes exactly the timers of that process off its
  list; the timers of the other processes keep their order, and no event is posted.
\<close>

lemma etimer_exit_stops_timers:
  assumes "chain (et_next m) (timerlist m) ts" and "length ts < n"
  shows "\<exists>m'. exec cf xf (etimer_thread n 1 PROCESS_EVENT_EXITED p) (k, m) = Ok ((1, PT_YIELDED), (k, m')) \<and>
    chain (et_next m') (timerlist m') (filter (\<lambda>t. et_p m t \<noteq> p) ts) \<and> et_p m' = et_p m"
proof -
  let ?ds = "dropWhile (\<lambda>t. et_p m t = p) ts"
  obtain l where l: "drop_head n m p = Some (m\<lparr>timerlist := l\<rparr>)" "chain (et_next m) l ?ds"
    using drop_head_chain [OF assms] by blast
  have fil: "filter (\<lambda>t. et_p m t \<noteq> p) ?ds = filter (\<lambda>t. et_p m t \<noteq> p) ts" by (rule filter_dropWhile)
  have run: "exec cf xf (etimer_thread n 1 PROCESS_EVENT_EXITED p) (k, m) =
      exec cf xf (process_exited n p (Ret 1 PT_YIELDED)) (k, m)" by (simp add: etimer_thread_def)
  show ?thesis
  proof (cases ?ds)
    case Nil
    then have "l = None" using l(2) unfolding Nil by simp
    then show ?thesis using run l(1) fil unfolding Nil by (auto simp: process_exited_def)
  next
    case (Cons t us)
    then have t: "l = Some t" and p: "et_p m t \<noteq> p" using l(2) hd_dropWhile [of "\<lambda>t. et_p m t = p" ts] by auto
    have "length us < n"
      using Cons length_dropWhile_le [of "\<lambda>t. et_p m t = p" ts] assms(2) by simp
    from drop_rest_chain [of "m\<lparr>timerlist := l\<rparr>" l "[]" t us n p] this l(2) Cons obtain h where
      "drop_rest n (m\<lparr>timerlist := l\<rparr>) t p = Some (m\<lparr>timerlist := l, et_next := h\<rparr>)"
      "chain h l (t # filter (\<lambda>t. et_p m t \<noteq> p) us)" by auto
    moreover have "filter (\<lambda>t. et_p m t \<noteq> p) ts = t # filter (\<lambda>t. et_p m t \<noteq> p) us"
      using fil Cons p by simp
    ultimately show ?thesis using run l t by (auto simp: process_exited_def)
  qed
qed

lemma etimer_exit_stops_timers_example:
  "\<exists>m'. exec (call_process (\<lambda>p. None) 0) (exit_process (\<lambda>p. None) 0)
       (etimer_thread 3 1 PROCESS_EVENT_EXITED (Some 3)) (boot_kernel, demo_timers) = Ok ((1, PT_YIELDED), (boot_kernel, m')) \<and>
     timerlist m' = None"
proof -
  have "chain (et_next demo_timers) (timerlist demo_timers) [10, 20]" and "length [10 :: nat, 20] < 3"
    and "filter (\<lambda>t. et_p demo_timers t \<noteq> Some 3) [10, 20] = []"
    by (simp_all add: demo_timers_def)
  with etimer_exit_stops_timers [OF this(1,2), of "call_process (\<lambda>p. None) 0" "exit_process (\<lambda>p. None) 0" "Some 3" boot_kernel]
  show ?thesis by auto
qed

section \<open>Setting and stopping a timer\<close>

text \<open>Every timer on the list has an owner, unless it was set outside all processes.\<close>

definition timers_ok :: "'b etimers_scheme \<Rightarrow> ptr list \<Rightarrow> bool" where
  "timers_ok m ts \<longleftrightarrow> chain (et_next m) (timerlist m) ts \<and> (\<forall>t \<in> set ts. et_p m t \<noteq> None)"

lemma on_list_chain: "chain h t ts \<Longrightarrow> length ts < n \<Longrightarrow> on_list n h t x = Some (x \<in> set ts)"
proof (induction ts arbitrary: n t)
  case Nil
  then show ?case by (cases n) auto
next
  case (Cons y ts)
  then show ?case by (cases n) auto
qed

lemma add_timer_chain:
  assumes m: "timers_ok m ts" and n: "length ts < n" and p: "process_current k \<noteq> None"
  shows "\<exists>m' us. exec cf xf (add_timer n et c) (k, m) = exec cf xf c (process_poll (Some etimer_process) k, timed us m') \<and>
    us = (if et \<in> set ts then ts else et # ts) \<and> timers_ok m' us \<and>
    et_p m' = (et_p m)(et := process_current k) \<and> et_timer m' = et_timer m \<and> clock_trace m' = clock_trace m \<and>
    etimers.more m' = etimers.more m"
proof -
  have ch: "chain (et_next m) (timerlist m) ts" using m by (simp add: timers_ok_def)
  have cur: "process_current (process_poll q k) = process_current k" for q
    by (simp add: process_poll_def split: option.split)
  let ?m0 = "m\<lparr>et_p := (et_p m)(et := process_current k)\<rparr>"
  show ?thesis
  proof (cases "et \<in> set ts")
    case True
    then have "et_p m et \<noteq> None" using m by (simp add: timers_ok_def)
    then have "exec cf xf (add_timer n et c) (k, m) =
        exec cf xf (update_time n c) (process_poll (Some etimer_process) k, ?m0)"
      using on_list_chain [OF ch n, of et] True by (simp add: add_timer_def cur)
    also have "\<dots> = exec cf xf c (process_poll (Some etimer_process) k, timed ts ?m0)"
      by (rule update_time_chain) (use ch n in simp_all)
    finally show ?thesis using True m p by (intro exI [of _ ?m0] exI [of _ ts]) (simp add: timers_ok_def)
  next
    case False
    let ?m = "?m0\<lparr>et_next := (et_next m)(et := timerlist m), timerlist := Some et\<rparr>"
    have ch': "chain (et_next ?m) (timerlist ?m) (et # ts)" using ch False by simp
    have "exec cf xf (add_timer n et c) (k, m) =
        exec cf xf (update_time n c) (process_poll (Some etimer_process) k, ?m)"
      using on_list_chain [OF ch n, of et] False by (simp add: add_timer_def cur)
    also have "\<dots> = exec cf xf c (process_poll (Some etimer_process) k, timed (et # ts) ?m)"
      by (rule update_time_chain [OF ch']) (use n in simp)
    finally show ?thesis using False m p ch'
      by (intro exI [of _ ?m] exI [of _ "et # ts"]) (simp add: timers_ok_def del: chain.simps timed.simps)
  qed
qed

lemma etimer_set_run:
  assumes "timers_ok m ts" and "length ts < n" and "process_current k = Some p"
    and "clock_trace m = (\<lambda>i. now)"
  shows "\<exists>m' us. exec cf xf (etimer_set n et i c) (k, m) = exec cf xf c (process_poll (Some etimer_process) k, m') \<and>
    timers_ok m' us \<and> set us = insert et (set ts) \<and> distinct us \<and>
    et_p m' = (et_p m)(et := Some p) \<and> et_timer m' = (et_timer m)(et := \<lparr>tstart = now, tinterval = i\<rparr>) \<and>
    etimer_next_expiration_time m' - now = Min ((\<lambda>t. etimer_expiration_time m' t - now) ` set us) \<and>
    etimers.more m' = etimers.more m"
proof -
  let ?m = "on_timer et (\<lambda>t. timer_set now t i) (m\<lparr>clock_reads := Suc (clock_reads m)\<rparr>)"
  have "timers_ok ?m ts" using assms(1) by (simp add: timers_ok_def on_timer_def)
  from add_timer_chain [OF this assms(2), of k cf xf et c] assms(3) obtain m' us where
    run: "exec cf xf (add_timer n et c) (k, ?m) = exec cf xf c (process_poll (Some etimer_process) k, timed us m')"
    and us: "us = (if et \<in> set ts then ts else et # ts)" and ok: "timers_ok m' us"
    and m': "et_p m' = (et_p m)(et := Some p)" "et_timer m' = et_timer ?m" "clock_trace m' = clock_trace m"
      "etimers.more m' = etimers.more m"
    by (auto simp: on_timer_def)
  have tm: "et_timer m' = (et_timer m)(et := \<lparr>tstart = now, tinterval = i\<rparr>)"
  proof -
    have "timer_set now t i = \<lparr>tstart = now, tinterval = i\<rparr>" for t :: timer by (simp add: timer_set_def)
    then show ?thesis using m'(2) by (simp add: on_timer_def)
  qed
  have "chain (et_next m') (timerlist m') us" using ok by (simp add: timers_ok_def)
  then have dist: "distinct us" by (rule chain_distinct)
  obtain t vs where tv: "us = t # vs" using us by (cases us) (auto split: if_splits)
  then have l: "timerlist m' = Some t" using \<open>chain (et_next m') (timerlist m') us\<close> by simp
  have "etimer_next_expiration_time (timed us m') - now = nearest m' now (distance m' now t) vs"
    using l assms(4) m'(3) unfolding tv by (simp add: etimer_next_expiration_time_def etimer_pending_def Let_def)
  also have "\<dots> = Min (distance m' now ` set us)" by (simp add: nearest_Min tv)
  also have "distance m' now ` set us = (\<lambda>t. etimer_expiration_time (timed us m') t - now) ` set us"
    by (simp add: distance_def etimer_expiration_time_def)
  finally have "etimer_next_expiration_time (timed us m') - now = Min ((\<lambda>t. etimer_expiration_time (timed us m') t - now) ` set us)" .
  moreover have "exec cf xf (etimer_set n et i c) (k, m) = exec cf xf c (process_poll (Some etimer_process) k, timed us m')"
    using run assms(4) by (simp add: etimer_set_def)
  moreover have "timers_ok (timed us m') us" using ok by (simp add: timers_ok_def)
  moreover have "set us = insert et (set ts)" using us by auto
  ultimately show ?thesis using dist m'(1,4) tm by (intro exI [of _ "timed us m'"] exI [of _ us]) simp
qed

text \<open>
  After \<open>etimer_set\<close> from a process the timer is on the list exactly once, is owned by the process
  and not expired, holds the new interval from the present time on, every other timer is unchanged,
  and \<open>next_expiration\<close> is the earliest expiration time of all timers, counted from the present time
  across the wrap-around of the clock.
\<close>

lemma etimer_set_schedules:
  assumes "timers_ok m ts" and "length ts < n" and "process_current k = Some p"
    and "clock_trace m = (\<lambda>i. now)"
  shows "\<exists>m' us. exec cf xf (etimer_set n et i c) (k, m) = exec cf xf c (process_poll (Some etimer_process) k, m') \<and>
    timers_ok m' us \<and> set us = insert et (set ts) \<and> distinct us \<and>
    et_p m' = (et_p m)(et := Some p) \<and> et_timer m' = (et_timer m)(et := \<lparr>tstart = now, tinterval = i\<rparr>) \<and>
    etimer_next_expiration_time m' - now = Min ((\<lambda>t. etimer_expiration_time m' t - now) ` set us)"
  using etimer_set_run [OF assms, of cf xf et i c] by blast

lemma etimer_set_schedules_example:
  "\<exists>m' us. exec (call_process (\<lambda>p. None) 0) (exit_process (\<lambda>p. None) 0) (etimer_set 3 30 7 (Ret 0 PT_YIELDED))
       (boot_kernel\<lparr>process_current := Some 5\<rparr>, demo_timers) =
       Ok ((0, PT_YIELDED), (process_poll (Some etimer_process) (boot_kernel\<lparr>process_current := Some 5\<rparr>), m')) \<and>
     timers_ok m' us \<and> set us = {30, 10, 20} \<and> et_p m' 30 = Some 5"
proof -
  have "timers_ok demo_timers [10, 20]" and "clock_trace demo_timers = (\<lambda>i. 130)"
    by (simp_all add: timers_ok_def demo_timers_def)
  from etimer_set_schedules [OF this(1) _ _ this(2), of 3 "boot_kernel\<lparr>process_current := Some 5\<rparr>" 5
      "call_process (\<lambda>p. None) 0" "exit_process (\<lambda>p. None) 0" 30 7 "Ret 0 PT_YIELDED"]
  show ?thesis by auto
qed

text \<open>
  A timer that is set outside all processes has no owner, so the next \<open>etimer_set\<close> does not look for it
  on the list and makes the list cyclic: the walk of \<open>update_time\<close> never ends.
\<close>

lemma min_loop_cycle: "et_next m t = Some t \<Longrightarrow> min_loop n m now (Some t) d = None"
  by (induction n arbitrary: d) auto

lemma etimer_set_twice_without_process:
  assumes "process_current k = None" and "timerlist m = None" and "et_p m et = None"
  shows "exec cf xf (etimer_set (Suc n) et i (etimer_set (Suc n) et j c)) (k, m) = Fault Diverge"
  using assms
  by (simp add: etimer_set_def add_timer_def update_time_def process_poll_def on_timer_def min_loop_cycle)

end
