(* ===== verification/Ctimer.thy ===== *)
theory Ctimer
  imports Etimer_Laws
begin

text \<open>
  The callback timers of \<^verbatim>\<open>src/core/sys/ctimer.c\<close>. A callback timer holds an event timer that belongs to
  the process \<open>ctimer_process\<close>; when the event of that timer arrives the process takes the callback
  timer off its list and calls its function in the context of the process that set it. The functions
  are a parameter: \<open>cb f ptr c\<close> is the program of the function \<open>f\<close> called with \<open>ptr\<close>, followed by \<open>c\<close>.
\<close>

section \<open>The state of ctimer.c\<close>

record ctimers = etimers +
  ct_next :: heap
  ct_p :: "ptr \<Rightarrow> ptr option"
  ct_f :: "ptr \<Rightarrow> nat option"
  ct_ptr :: "ptr \<Rightarrow> ptr option"
  ctimer_list :: "ptr option"
  initialized :: bool

type_synonym 'b cprog = "'b ctimers_scheme prog"

definition ctimer_process :: ptr where "ctimer_process = 2"

text \<open>The address \<^verbatim>\<open>&c->etimer\<close>: the field follows the pointer \<^verbatim>\<open>next\<close>, of two bytes.\<close>

definition etimer_of :: "ptr \<Rightarrow> ptr" where
  "etimer_of c = c + 2"

section \<open>The operations of ctimer.c\<close>

definition ct_list :: "(heap \<times> ptr option) option \<Rightarrow> 'b cprog \<Rightarrow> 'b cprog" where
  "ct_list r c = (case r of
       None \<Rightarrow> Hang
     | Some (h, l) \<Rightarrow> modify (\<lambda>m. m\<lparr>ct_next := h, ctimer_list := l\<rparr>) c)"

definition ct_add :: "ptr \<Rightarrow> 'b cprog \<Rightarrow> 'b cprog" where
  "ct_add t c = Get (\<lambda>m. ct_list (list_add (ct_next m) (ctimer_list m) t) c)"

definition ct_remove :: "ptr \<Rightarrow> 'b cprog \<Rightarrow> 'b cprog" where
  "ct_remove t c = Get (\<lambda>m. ct_list (list_remove (ct_next m) (ctimer_list m) t) c)"

definition ctimer_init :: "'b cprog \<Rightarrow> 'b cprog" where
  "ctimer_init c = modify (\<lambda>m. m\<lparr>initialized := False, ctimer_list := list_init (ctimer_list m)\<rparr>)
     (Start ctimer_process None c)"

text \<open>\<^verbatim>\<open>PROCESS_CONTEXT_BEGIN(p)\<close> and \<^verbatim>\<open>PROCESS_CONTEXT_END(p)\<close> around a statement.\<close>

definition in_context :: "ptr option \<Rightarrow> ('a prog \<Rightarrow> 'a prog) \<Rightarrow> 'a prog \<Rightarrow> 'a prog" where
  "in_context p stm c = Current (\<lambda>tmp. Context p (stm (Context tmp c)))"

definition ctimer_set_with_process ::
  "nat \<Rightarrow> ptr \<Rightarrow> u32 \<Rightarrow> nat option \<Rightarrow> ptr option \<Rightarrow> ptr option \<Rightarrow> 'b cprog \<Rightarrow> 'b cprog" where
  "ctimer_set_with_process n t i f ptr p c =
     modify (\<lambda>m. m\<lparr>ct_p := (ct_p m)(t := p), ct_f := (ct_f m)(t := f), ct_ptr := (ct_ptr m)(t := ptr)\<rparr>)
       (Get (\<lambda>m.
          if initialized m then
            in_context (Some ctimer_process) (etimer_set n (etimer_of t) i) (ct_add t c)
          else
            modify (on_timer (etimer_of t) (\<lambda>x. x\<lparr>tinterval := i\<rparr>)) (ct_add t c)))"

definition ctimer_set :: "nat \<Rightarrow> ptr \<Rightarrow> u32 \<Rightarrow> nat option \<Rightarrow> ptr option \<Rightarrow> 'b cprog \<Rightarrow> 'b cprog" where
  "ctimer_set n t i f ptr c = Current (\<lambda>p. ctimer_set_with_process n t i f ptr p c)"

definition ctimer_reset :: "nat \<Rightarrow> ptr \<Rightarrow> 'b cprog \<Rightarrow> 'b cprog" where
  "ctimer_reset n t c = Get (\<lambda>m.
     if initialized m then in_context (Some ctimer_process) (etimer_reset n (etimer_of t)) (ct_add t c)
     else ct_add t c)"

definition ctimer_restart :: "nat \<Rightarrow> ptr \<Rightarrow> 'b cprog \<Rightarrow> 'b cprog" where
  "ctimer_restart n t c = Get (\<lambda>m.
     if initialized m then in_context (Some ctimer_process) (etimer_restart n (etimer_of t)) (ct_add t c)
     else ct_add t c)"

definition ctimer_stop :: "nat \<Rightarrow> ptr \<Rightarrow> 'b cprog \<Rightarrow> 'b cprog" where
  "ctimer_stop n t c = Get (\<lambda>m.
     if initialized m then etimer_stop n (etimer_of t) (ct_remove t c)
     else modify (stopped (etimer_of t)) (ct_remove t c))"

definition ctimer_expired :: "nat \<Rightarrow> 'b ctimers_scheme \<Rightarrow> ptr \<Rightarrow> bool option" where
  "ctimer_expired n m t =
     (if initialized m then Some (etimer_expired m (etimer_of t))
      else map_option Not (on_list n (ct_next m) (ctimer_list m) t))"

section \<open>The callback timer process\<close>

text \<open>The loop that sets the event timers of the callback timers that were set before the process ran.\<close>

fun start_loop :: "nat \<Rightarrow> ptr option \<Rightarrow> 'b cprog \<Rightarrow> 'b cprog" where
  "start_loop 0 t c = Hang"
| "start_loop (Suc n) None c = c"
| "start_loop (Suc n) (Some t) c = Get (\<lambda>m.
     etimer_set n (etimer_of t) (tinterval (et_timer m (etimer_of t)))
       (Get (\<lambda>m. start_loop n (ct_next m t) c)))"

fun fire_loop ::
  "(nat \<Rightarrow> ptr option \<Rightarrow> 'b cprog \<Rightarrow> 'b cprog) \<Rightarrow> nat \<Rightarrow> ptr option \<Rightarrow> ptr option \<Rightarrow> 'b cprog \<Rightarrow> 'b cprog" where
  "fire_loop cb 0 t data c = Hang"
| "fire_loop cb (Suc n) None data c = c"
| "fire_loop cb (Suc n) (Some t) data c = Get (\<lambda>m.
     if Some (etimer_of t) = data then
       ct_remove t (Get (\<lambda>m. in_context (ct_p m t)
         (\<lambda>e. Get (\<lambda>m. case ct_f m t of None \<Rightarrow> e | Some f \<Rightarrow> cb f (ct_ptr m t) e)) c))
     else fire_loop cb n (ct_next m t) data c)"

definition ctimer_thread ::
  "(nat \<Rightarrow> ptr option \<Rightarrow> 'b cprog \<Rightarrow> 'b cprog) \<Rightarrow> nat \<Rightarrow> u16 \<Rightarrow> u8 \<Rightarrow> ptr option \<Rightarrow> 'b cprog" where
  "ctimer_thread cb n lc ev data =
     (if lc = 0 then
        Get (\<lambda>m. start_loop n (ctimer_list m) (modify (\<lambda>m. m\<lparr>initialized := True\<rparr>) (Ret 1 PT_YIELDED)))
      else if ev = PROCESS_EVENT_TIMER then
        Get (\<lambda>m. fire_loop cb n (ctimer_list m) data (Ret 1 PT_YIELDED))
      else Ret 1 PT_YIELDED)"

section \<open>Laws\<close>

lemma exec_in_context [simp]:
  "exec cf xf (in_context p stm c) w =
     exec cf xf (stm (Context (process_current (fst w)) c)) ((fst w)\<lparr>process_current := p\<rparr>, snd w)"
  by (simp add: in_context_def)

lemma exec_ct_add:
  assumes "chain (ct_next m) (ctimer_list m) cs"
  obtains h l where "\<And>c. exec cf xf (ct_add t c) (k, m) = exec cf xf c (k, m\<lparr>ct_next := h, ctimer_list := l\<rparr>)"
    and "chain h l (remove1 t cs @ [t])"
  using list_add_chain [OF assms, of t] by (auto simp: ct_add_def ct_list_def seq_add_def)

lemma exec_ct_remove:
  assumes "chain (ct_next m) (ctimer_list m) cs"
  obtains h l where "\<And>c. exec cf xf (ct_remove t c) (k, m) = exec cf xf c (k, m\<lparr>ct_next := h, ctimer_list := l\<rparr>)"
    and "chain h l (remove1 t cs)"
  using list_remove_chain [OF assms, of t] by (auto simp: ct_remove_def ct_list_def)

lemma fire_loop_other:
  assumes "chain (ct_next m) t cs" and "\<forall>x \<in> set cs. Some (etimer_of x) \<noteq> d" and "length cs < n"
  shows "exec cf xf (fire_loop cb n t d c) (k, m) = exec cf xf c (k, m)"
  using assms
proof (induction cs arbitrary: t n)
  case Nil
  then show ?case by (cases n) auto
next
  case (Cons x cs)
  then show ?case by (cases n) auto
qed

lemma fire_loop_skip:
  assumes "chain (ct_next m) t (xs @ y # ys)"
  shows "exec cf xf (fire_loop cb (length xs + Suc n) t (Some (etimer_of y)) c) (k, m) =
    exec cf xf (fire_loop cb (Suc n) (Some y) (Some (etimer_of y)) c) (k, m)"
  using assms chain_distinct [OF assms]
proof (induction xs arbitrary: t)
  case Nil
  then show ?case by simp
next
  case (Cons x xs)
  then have "t = Some x" and "chain (ct_next m) (ct_next m x) (xs @ y # ys)" and "x \<noteq> y" by auto
  with Cons show ?case by (simp add: etimer_of_def del: fire_loop.simps(3)) (simp add: etimer_of_def)
qed

lemma ctimer_thread_fires:
  assumes "chain (ct_next m) (ctimer_list m) cs" and "length cs < n" and "t \<in> set cs"
  shows "\<exists>h l. exec cf xf (ctimer_thread cb n 1 PROCESS_EVENT_TIMER (Some (etimer_of t))) (k, m) =
        exec cf xf (case ct_f m t of
             None \<Rightarrow> Context (process_current k) (Ret 1 PT_YIELDED)
           | Some f \<Rightarrow> cb f (ct_ptr m t) (Context (process_current k) (Ret 1 PT_YIELDED)))
          (k\<lparr>process_current := ct_p m t\<rparr>, m\<lparr>ct_next := h, ctimer_list := l\<rparr>) \<and>
        chain h l (remove1 t cs)"
proof -
  obtain xs ys where cs: "cs = xs @ t # ys" using assms(3) by (meson split_list)
  let ?c = "Ret 1 PT_YIELDED" and ?d = "Some (etimer_of t)"
  obtain n' where n: "n = length xs + Suc n'"
    using assms(2) cs by (metis add_Suc_right length_append less_iff_Suc_add list.size(4) add.assoc add_Suc)
  have "chain (ct_next m) (ctimer_list m) (xs @ t # ys)" using assms(1) cs by simp
  from fire_loop_skip [OF this, of cf xf cb n' ?c k]
  have run: "exec cf xf (ctimer_thread cb n 1 PROCESS_EVENT_TIMER ?d) (k, m) =
      exec cf xf (ct_remove t (Get (\<lambda>m. in_context (ct_p m t)
         (\<lambda>e. Get (\<lambda>m. case ct_f m t of None \<Rightarrow> e | Some f \<Rightarrow> cb f (ct_ptr m t) e)) ?c))) (k, m)"
    by (simp add: ctimer_thread_def n)
  from exec_ct_remove [OF assms(1)] obtain h l where
    "\<And>c. exec cf xf (ct_remove t c) (k, m) = exec cf xf c (k, m\<lparr>ct_next := h, ctimer_list := l\<rparr>)"
    and "chain h l (remove1 t cs)" by metis
  with run show ?thesis by (auto split: option.split)
qed

lemma ctimer_thread_ignores:
  assumes "chain (ct_next m) (ctimer_list m) cs" and "length cs < n"
    and "ev \<noteq> PROCESS_EVENT_TIMER \<or> (\<forall>t \<in> set cs. d \<noteq> Some (etimer_of t))"
  shows "exec cf xf (ctimer_thread cb n 1 ev d) (k, m) = Ok ((1, PT_YIELDED), (k, m))"
proof (cases "ev = PROCESS_EVENT_TIMER")
  case True
  then have "\<forall>x \<in> set cs. Some (etimer_of x) \<noteq> d" using assms(3) by auto
  from fire_loop_other [OF assms(1) this assms(2), of cf xf cb "Ret 1 PT_YIELDED" k] True
  show ?thesis by (simp add: ctimer_thread_def)
qed (simp add: ctimer_thread_def)

text \<open>
  C40: When the event of the event timer of a callback timer arrives, the callback process takes that
  timer off its list and then runs its function exactly once, with its argument and in the context of
  the process that set it, and restores the context afterwards; the other callback timers keep their
  order. Any other event changes nothing: neither one that is not a timer event, whatever its data, nor
  a timer event whose data is not the event timer of a callback timer on the list.
\<close>

theorem ctimer_fires:
  assumes "chain (ct_next m) (ctimer_list m) cs" and "length cs < n"
  shows "(\<forall>t \<in> set cs. ev = PROCESS_EVENT_TIMER \<and> d = Some (etimer_of t) \<longrightarrow>
      (\<exists>h l. exec cf xf (ctimer_thread cb n 1 ev d) (k, m) =
        exec cf xf (case ct_f m t of
             None \<Rightarrow> Context (process_current k) (Ret 1 PT_YIELDED)
           | Some f \<Rightarrow> cb f (ct_ptr m t) (Context (process_current k) (Ret 1 PT_YIELDED)))
          (k\<lparr>process_current := ct_p m t\<rparr>, m\<lparr>ct_next := h, ctimer_list := l\<rparr>) \<and>
        chain h l (remove1 t cs))) \<and>
    (ev \<noteq> PROCESS_EVENT_TIMER \<or> d \<notin> (Some \<circ> etimer_of) ` set cs \<longrightarrow>
      exec cf xf (ctimer_thread cb n 1 ev d) (k, m) = Ok ((1, PT_YIELDED), (k, m)))"
proof (intro conjI ballI impI)
  fix t assume "t \<in> set cs" and "ev = PROCESS_EVENT_TIMER \<and> d = Some (etimer_of t)"
  then show "\<exists>h l. exec cf xf (ctimer_thread cb n 1 ev d) (k, m) =
        exec cf xf (case ct_f m t of
             None \<Rightarrow> Context (process_current k) (Ret 1 PT_YIELDED)
           | Some f \<Rightarrow> cb f (ct_ptr m t) (Context (process_current k) (Ret 1 PT_YIELDED)))
          (k\<lparr>process_current := ct_p m t\<rparr>, m\<lparr>ct_next := h, ctimer_list := l\<rparr>) \<and>
        chain h l (remove1 t cs)"
    using ctimer_thread_fires [OF assms] by blast
next
  assume "ev \<noteq> PROCESS_EVENT_TIMER \<or> d \<notin> (Some \<circ> etimer_of) ` set cs"
  then have "ev \<noteq> PROCESS_EVENT_TIMER \<or> (\<forall>t \<in> set cs. d \<noteq> Some (etimer_of t))" by auto
  then show "exec cf xf (ctimer_thread cb n 1 ev d) (k, m) = Ok ((1, PT_YIELDED), (k, m))"
    by (rule ctimer_thread_ignores [OF assms])
qed

text \<open>Two callback timers; the function 9 of the first one stores its argument as the next expiration.\<close>

definition demo_ctimers :: ctimers where
  "demo_ctimers = \<lparr>et_timer = (\<lambda>t. \<lparr>tstart = 100, tinterval = 20\<rparr>), et_next = (\<lambda>t. if t = 12 then Some 22 else None),
     et_p = (\<lambda>t. Some 2), timerlist = Some 12, next_expiration = 0, clock_trace = (\<lambda>i. 130), clock_reads = 0,
     ct_next = (\<lambda>t. if t = 10 then Some 20 else None), ct_p = (\<lambda>t. Some 5),
     ct_f = (\<lambda>t. if t = 10 then Some 9 else None), ct_ptr = (\<lambda>t. Some 77), ctimer_list = Some 10,
     initialized = True\<rparr>"

definition demo_callback :: "nat \<Rightarrow> ptr option \<Rightarrow> ctimers prog \<Rightarrow> ctimers prog" where
  "demo_callback f arg c = modify (\<lambda>m. m\<lparr>next_expiration := of_nat (f + (case arg of None \<Rightarrow> 0 | Some a \<Rightarrow> a))\<rparr>) c"

theorem ctimer_fires_witness:
  "\<exists>m'. exec (call_process (\<lambda>p. None) 0) (exit_process (\<lambda>p. None) 0)
       (ctimer_thread demo_callback 3 1 PROCESS_EVENT_TIMER (Some (etimer_of 10))) (boot_kernel, demo_ctimers) =
       Ok ((1, PT_YIELDED), (boot_kernel, m')) \<and>
     next_expiration m' = 86 \<and> ctimer_list m' = Some 20 \<and>
     exec (call_process (\<lambda>p. None) 0) (exit_process (\<lambda>p. None) 0)
       (ctimer_thread demo_callback 3 1 PROCESS_EVENT_POLL (Some (etimer_of 10))) (boot_kernel, demo_ctimers) =
       Ok ((1, PT_YIELDED), (boot_kernel, demo_ctimers))"
proof -
  let ?cf = "call_process (\<lambda>p. None) 0" and ?xf = "exit_process (\<lambda>p. None) 0"
  have "chain (ct_next demo_ctimers) (ctimer_list demo_ctimers) [10, 20]" and "length [10 :: nat, 20] < 3"
    by (simp_all add: demo_ctimers_def)
  note fires = ctimer_fires [OF this, of _ _ ?cf ?xf demo_callback boot_kernel]
  from fires [of PROCESS_EVENT_POLL "Some (etimer_of 10)"] have other:
    "exec ?cf ?xf (ctimer_thread demo_callback 3 1 PROCESS_EVENT_POLL (Some (etimer_of 10))) (boot_kernel, demo_ctimers) =
       Ok ((1, PT_YIELDED), (boot_kernel, demo_ctimers))"
    by (simp add: PROCESS_EVENT_POLL_def PROCESS_EVENT_TIMER_def)
  from fires [of PROCESS_EVENT_TIMER "Some (etimer_of 10)"] obtain h l where
    run: "exec (call_process (\<lambda>p. None) 0) (exit_process (\<lambda>p. None) 0)
       (ctimer_thread demo_callback 3 1 PROCESS_EVENT_TIMER (Some (etimer_of 10))) (boot_kernel, demo_ctimers) =
      exec (call_process (\<lambda>p. None) 0) (exit_process (\<lambda>p. None) 0)
       (demo_callback 9 (Some 77) (Context None (Ret 1 PT_YIELDED)))
       (boot_kernel\<lparr>process_current := Some 5\<rparr>, demo_ctimers\<lparr>ct_next := h, ctimer_list := l\<rparr>)"
    and ch: "chain h l [20]"
    by (auto simp: demo_ctimers_def boot_kernel_def)
  have "l = Some 20" using ch by simp
  moreover have "boot_kernel\<lparr>process_current := None\<rparr> = boot_kernel" by (simp add: boot_kernel_def)
  ultimately show ?thesis using other unfolding run by (simp add: demo_callback_def)
qed

text \<open>
  After \<open>ctimer_set\<close> the callback timer is on the list of the callback process exactly once, behind the
  others, with the function, the argument and the calling process; its event timer runs with the new
  interval and belongs to the callback process, and the caller is the current process again.
\<close>

lemma ctimer_set_arms:
  assumes "chain (ct_next m) (ctimer_list m) cs" and "timers_ok m ts" and "length ts < n"
    and "initialized m" and "clock_trace m = (\<lambda>i. now)"
  shows "\<exists>m' us. exec cf xf (ctimer_set n t i f ptr c) (k, m) =
      exec cf xf c ((process_poll (Some etimer_process) (k\<lparr>process_current := Some ctimer_process\<rparr>))
        \<lparr>process_current := process_current k\<rparr>, m') \<and>
    chain (ct_next m') (ctimer_list m') (remove1 t cs @ [t]) \<and> timers_ok m' us \<and>
    set us = insert (etimer_of t) (set ts) \<and> et_p m' (etimer_of t) = Some ctimer_process \<and>
    et_timer m' (etimer_of t) = \<lparr>tstart = now, tinterval = i\<rparr> \<and>
    ct_f m' t = f \<and> ct_ptr m' t = ptr \<and> ct_p m' t = process_current k"
proof -
  let ?m = "m\<lparr>ct_p := (ct_p m)(t := process_current k), ct_f := (ct_f m)(t := f), ct_ptr := (ct_ptr m)(t := ptr)\<rparr>"
  let ?k = "k\<lparr>process_current := Some ctimer_process\<rparr>" and ?c = "Context (process_current k) (ct_add t c)"
  have ok: "timers_ok ?m ts" "clock_trace ?m = (\<lambda>i. now)" using assms(2,5) by (simp_all add: timers_ok_def)
  have p: "process_current ?k = Some ctimer_process" by simp
  obtain m1 us where
    run: "exec cf xf (etimer_set n (etimer_of t) i ?c) (?k, ?m) =
      exec cf xf ?c (process_poll (Some etimer_process) ?k, m1)"
    and m1: "timers_ok m1 us" "set us = insert (etimer_of t) (set ts)"
      "et_p m1 = (et_p ?m)(etimer_of t := Some ctimer_process)"
      "et_timer m1 = (et_timer ?m)(etimer_of t := \<lparr>tstart = now, tinterval = i\<rparr>)"
      "etimers.more m1 = etimers.more ?m"
    using etimer_set_run [OF ok(1) assms(3) p ok(2), of cf xf "etimer_of t" i ?c] by blast
  have ct: "ct_next m1 = ct_next m" "ctimer_list m1 = ctimer_list m" "ct_f m1 t = f" "ct_ptr m1 t = ptr"
      "ct_p m1 t = process_current k"
    using m1(5) by (cases m1; cases m; simp)+
  with assms(1) have "chain (ct_next m1) (ctimer_list m1) cs" by simp
  from exec_ct_add [OF this] obtain h l where
    add: "exec cf xf (ct_add t c) ((process_poll (Some etimer_process) ?k)\<lparr>process_current := process_current k\<rparr>, m1) =
      exec cf xf c ((process_poll (Some etimer_process) ?k)\<lparr>process_current := process_current k\<rparr>,
        m1\<lparr>ct_next := h, ctimer_list := l\<rparr>)" and ch: "chain h l (remove1 t cs @ [t])" by metis
  have "exec cf xf (ctimer_set n t i f ptr c) (k, m) =
      exec cf xf c ((process_poll (Some etimer_process) ?k)\<lparr>process_current := process_current k\<rparr>,
        m1\<lparr>ct_next := h, ctimer_list := l\<rparr>)"
    using run add assms(4) by (simp add: ctimer_set_def ctimer_set_with_process_def)
  moreover have "timers_ok (m1\<lparr>ct_next := h, ctimer_list := l\<rparr>) us" using m1(1) by (simp add: timers_ok_def)
  ultimately show ?thesis using ch m1(2,3,4) ct
    by (intro exI [of _ "m1\<lparr>ct_next := h, ctimer_list := l\<rparr>"] exI [of _ us]) simp
qed

lemma ctimer_set_arms_example:
  "\<exists>m' us. exec (call_process (\<lambda>p. None) 0) (exit_process (\<lambda>p. None) 0) (ctimer_set 3 10 40 (Some 8) None (Ret 0 PT_YIELDED))
       (boot_kernel, demo_ctimers) =
       Ok ((0, PT_YIELDED), ((process_poll (Some etimer_process) (boot_kernel\<lparr>process_current := Some ctimer_process\<rparr>))
          \<lparr>process_current := None\<rparr>, m')) \<and>
     chain (ct_next m') (ctimer_list m') [20, 10] \<and> timers_ok m' us \<and> set us = {12, 22}"
proof -
  have "chain (ct_next demo_ctimers) (ctimer_list demo_ctimers) [10, 20]" and "timers_ok demo_ctimers [12, 22]"
    and "initialized demo_ctimers" and "clock_trace demo_ctimers = (\<lambda>i. 130)"
    by (simp_all add: timers_ok_def demo_ctimers_def)
  from ctimer_set_arms [OF this(1,2) _ this(3,4), of 3 "call_process (\<lambda>p. None) 0" "exit_process (\<lambda>p. None) 0"
      10 40 "Some 8" None "Ret 0 PT_YIELDED" boot_kernel]
  show ?thesis by (auto simp: etimer_of_def boot_kernel_def)
qed

end
