(* ===== verification/Ringbuf.thy ===== *)
theory Ringbuf
  imports Bounded_Queue
begin

text \<open>
  The byte ring \<^verbatim>\<open>src/core/lib/ringbuf.c\<close>. The expressions \<^verbatim>\<open>(put_ptr - get_ptr) & mask\<close> are computed
  in \<open>int\<close>, where the difference can be negative. An access outside the array is a fault.
\<close>

unbundle bit_operations_syntax

section \<open>The operations of ringbuf.c\<close>

record ringbuf =
  rdata :: "u8 list"
  rmask :: u8
  put_ptr :: u8
  get_ptr :: u8

definition ringbuf_init :: "u8 list \<Rightarrow> u8 \<Rightarrow> ringbuf" where
  "ringbuf_init dataptr sz = \<lparr>rdata = dataptr, rmask = sz - 1, put_ptr = 0, get_ptr = 0\<rparr>"

definition ringbuf_elements :: "ringbuf \<Rightarrow> int" where
  "ringbuf_elements r = (uint (put_ptr r) - uint (get_ptr r)) AND uint (rmask r)"

definition ringbuf_put :: "u8 \<Rightarrow> ringbuf \<Rightarrow> (int \<times> ringbuf) res" where
  "ringbuf_put c r =
     (if (uint (put_ptr r) - uint (get_ptr r)) AND uint (rmask r) = uint (rmask r) then Ok (0, r)
      else if unat (put_ptr r) < length (rdata r) then
        Ok (1, r\<lparr>rdata := (rdata r)[unat (put_ptr r) := c],
                 put_ptr := (put_ptr r + 1) AND rmask r\<rparr>)
      else Fault OutOfBounds)"

definition ringbuf_get :: "ringbuf \<Rightarrow> (int \<times> ringbuf) res" where
  "ringbuf_get r =
     (if 0 < (uint (put_ptr r) - uint (get_ptr r)) AND uint (rmask r) then
        if unat (get_ptr r) < length (rdata r) then
          Ok (uint (rdata r ! unat (get_ptr r)), r\<lparr>get_ptr := (get_ptr r + 1) AND rmask r\<rparr>)
        else Fault OutOfBounds
      else Ok (-1, r))"

definition ringbuf_size :: "ringbuf \<Rightarrow> int" where
  "ringbuf_size r = uint (rmask r) + 1"

section \<open>A ring whose size is a power of two\<close>

fun ring_exp :: "nat \<Rightarrow> ringbuf \<Rightarrow> bool" where
  "ring_exp k r \<longleftrightarrow> k \<le> 8 \<and> unat (rmask r) = 2 ^ k - 1 \<and> length (rdata r) = 2 ^ k \<and>
     unat (put_ptr r) < 2 ^ k \<and> unat (get_ptr r) < 2 ^ k"

definition ringbuf_ok :: "ringbuf \<Rightarrow> bool" where
  "ringbuf_ok r \<longleftrightarrow> (\<exists>k. ring_exp k r)"

definition ringbuf_seq :: "ringbuf \<Rightarrow> u8 list" where
  "ringbuf_seq r = ring (rdata r) (unat (get_ptr r)) (nat (ringbuf_elements r))"

lemma and_mask_nat: 
  fixes m :: u8
  assumes "unat m = 2 ^ k - 1" 
  shows "unat (x AND m) = unat x mod 2 ^ k" and "i AND uint m = i mod 2 ^ k"
proof -
  have m: "uint m = mask k" 
    using assms by (simp add: mask_eq_exp_minus_1 uint_nat of_nat_diff)
  show "i AND uint m = i mod 2 ^ k" for i by (simp add: m take_bit_eq_mask [symmetric] take_bit_eq_mod)
  show "unat (x AND m) = unat x mod 2 ^ k"
  proof -
    have "unat m = mask k" using assms by (simp add: mask_eq_exp_minus_1)
    then show ?thesis by (simp add: unsigned_and_eq take_bit_eq_mask [symmetric] take_bit_eq_mod)
  qed
qed

lemma ring_next:
  assumes "ring_exp k r" and "unat p < 2 ^ k"
  shows "unat ((p + 1) AND rmask r) = Suc (unat p) mod 2 ^ k"
proof -
  have k: "(2::nat) ^ k dvd 2 ^ 8" using assms(1) by (intro le_imp_power_dvd) simp
  have "unat (p + 1) = Suc (unat p) mod 2 ^ 8" by (simp add: unat_word_ariths)
  then show ?thesis using and_mask_nat(1) [of "rmask r" k "p + 1"] assms(1) k by (simp add: mod_mod_cancel)
qed

lemma ringbuf_elements_mod:
  assumes "ring_exp k r"
  shows "ringbuf_elements r = (int (unat (put_ptr r)) - int (unat (get_ptr r))) mod 2 ^ k"
  using and_mask_nat(2) [of "rmask r" k] assms by (simp add: ringbuf_elements_def)

lemma put_ptr_ring:
  assumes "ring_exp k r"
  shows "(unat (get_ptr r) + nat (ringbuf_elements r)) mod 2 ^ k = unat (put_ptr r)"
proof -
  have "int (unat (put_ptr r)) < int (2 ^ k)" using assms by (simp only: of_nat_less_iff ring_exp.simps)
  then have "int ((unat (get_ptr r) + nat (ringbuf_elements r)) mod 2 ^ k) = int (unat (put_ptr r))"
    using assms by (simp add: ringbuf_elements_mod [OF assms] zmod_int mod_add_right_eq)
  then show ?thesis by linarith
qed


lemma ringbuf_elements_bound:
  assumes "ring_exp k r"
  shows "0 \<le> ringbuf_elements r" and "nat (ringbuf_elements r) < 2 ^ k"
proof -
  have "0 \<le> ringbuf_elements r \<and> ringbuf_elements r < 2 ^ k"
    by (simp add: ringbuf_elements_mod [OF assms])
  then show "0 \<le> ringbuf_elements r" and "nat (ringbuf_elements r) < 2 ^ k"
    by (auto simp: nat_less_iff)
qed

lemma elements_determined:
  assumes "ring_exp k r" and "n < 2 ^ k" and "(unat (get_ptr r) + n) mod 2 ^ k = unat (put_ptr r)"
  shows "nat (ringbuf_elements r) = n"
  using mod_add_inj [of "unat (get_ptr r)" "nat (ringbuf_elements r)" "2 ^ k" n]
    put_ptr_ring [OF assms(1)] assms ringbuf_elements_bound [OF assms(1)] by simp

lemma uint_mask_exp: "ring_exp k r \<Longrightarrow> uint (rmask r) = 2 ^ k - 1"
  by (simp add: uint_nat of_nat_diff)

lemma ringbuf_put_full:
  assumes "ring_exp k r" and "nat (ringbuf_elements r) = 2 ^ k - 1"
  shows "ringbuf_put c r = Ok (0, r)"
proof -
  have "ringbuf_elements r = uint (rmask r)"
    using assms ringbuf_elements_bound(1) [OF assms(1)] uint_mask_exp [OF assms(1)]
    by (metis nat_eq_iff2 of_nat_1 of_nat_diff of_nat_numeral of_nat_power one_le_numeral one_le_power int_nat_eq)
  then show ?thesis by (simp add: ringbuf_put_def ringbuf_elements_def)
qed

lemma ringbuf_put_room:
  assumes "ring_exp k r" and "Suc (nat (ringbuf_elements r)) < 2 ^ k"
  shows "\<exists>r'. ringbuf_put c r = Ok (1, r') \<and> ring_exp k r' \<and> rmask r' = rmask r \<and>
    ringbuf_seq r' = ringbuf_seq r @ [c]"
proof -
  let ?n = "nat (ringbuf_elements r)" and ?f = "unat (get_ptr r)"
  let ?r = "r\<lparr>rdata := (rdata r)[unat (put_ptr r) := c], put_ptr := (put_ptr r + 1) AND rmask r\<rparr>"
  have "ringbuf_elements r \<noteq> uint (rmask r)"
  proof
    assume "ringbuf_elements r = uint (rmask r)"
    then have "int (Suc ?n) = 2 ^ k" using uint_mask_exp [OF assms(1)] by simp
    with assms(2) show False by (metis less_irrefl of_nat_eq_iff of_nat_numeral of_nat_power)
  qed
  then have put: "ringbuf_put c r = Ok (1, ?r)"
    using assms(1) by (auto simp: ringbuf_put_def ringbuf_elements_def)
  have next': "unat ((put_ptr r + 1) AND rmask r) = Suc (unat (put_ptr r)) mod 2 ^ k"
    using ring_next [OF assms(1)] assms(1) by simp
  then have e: "ring_exp k ?r" using assms(1) by simp
  have "(?f + Suc ?n) mod 2 ^ k = unat (put_ptr ?r)"
    using put_ptr_ring [OF assms(1)] mod_Suc_eq [of "?f + ?n" "2 ^ k"] next' by simp
  then have "nat (ringbuf_elements ?r) = Suc ?n"
    using elements_determined [OF e, of "Suc ?n"] assms(2) by simp
  moreover have "ring ((rdata r)[unat (put_ptr r) := c]) ?f (Suc ?n) = ring (rdata r) ?f ?n @ [c]"
    using ring_put [of ?n "rdata r" ?f c] put_ptr_ring [OF assms(1)] assms
      ringbuf_elements_bound(2) [OF assms(1)] by simp
  ultimately show ?thesis using put e by (simp add: ringbuf_seq_def)
qed

lemma ringbuf_get_room:
  assumes "ring_exp k r" and "ringbuf_seq r = x # xs"
  shows "\<exists>r'. ringbuf_get r = Ok (uint x, r') \<and> ring_exp k r' \<and> rmask r' = rmask r \<and> ringbuf_seq r' = xs"
proof -
  let ?f = "unat (get_ptr r)"
  let ?r = "r\<lparr>get_ptr := (get_ptr r + 1) AND rmask r\<rparr>"
  obtain n where n: "nat (ringbuf_elements r) = Suc n"
    using assms(2) by (cases "nat (ringbuf_elements r)") (auto simp: ringbuf_seq_def)
  have next': "unat ((get_ptr r + 1) AND rmask r) = Suc ?f mod 2 ^ k"
    using ring_next [OF assms(1)] assms(1) by simp
  then have e: "ring_exp k ?r" using assms(1) by simp
  have "(Suc ?f mod 2 ^ k + n) mod 2 ^ k = unat (put_ptr r)"
    using put_ptr_ring [OF assms(1)] n by (simp add: mod_add_left_eq)
  then have "nat (ringbuf_elements ?r) = n"
    using elements_determined [OF e, of n] next' ringbuf_elements_bound(2) [OF assms(1)] n by simp
  then have "rdata r ! ?f = x" and "ringbuf_seq ?r = xs"
    using assms ring_get [of ?f "rdata r" n] n next' by (auto simp: ringbuf_seq_def)
  moreover have "0 < ringbuf_elements r" using n by linarith
  then have "ringbuf_get r = Ok (uint (rdata r ! ?f), ?r)"
    using assms(1) by (simp add: ringbuf_get_def ringbuf_elements_def)
  ultimately show ?thesis using e by auto
qed


lemma ringbuf_get_empty: "ringbuf_ok r \<Longrightarrow> ringbuf_seq r = [] \<Longrightarrow> ringbuf_get r = Ok (-1, r)"
proof -
  assume "ringbuf_ok r" and e: "ringbuf_seq r = []"
  then have "0 \<le> ringbuf_elements r" using ringbuf_elements_bound(1) by (auto simp: ringbuf_ok_def)
  moreover have "length (ringbuf_seq r) = 0" using e by simp
  ultimately have "ringbuf_elements r = 0" by (simp add: ringbuf_seq_def)
  then show ?thesis by (simp add: ringbuf_get_def ringbuf_elements_def)
qed

lemma ringbuf_elements_length: "ringbuf_ok r \<Longrightarrow> ringbuf_elements r = int (length (ringbuf_seq r))"
  using ringbuf_elements_bound(1) by (auto simp: ringbuf_ok_def ringbuf_seq_def)

lemma ringbuf_put_cases:
  assumes "ringbuf_ok r"
  shows "length (ringbuf_seq r) < unat (rmask r) \<Longrightarrow>
      \<exists>r'. ringbuf_put c r = Ok (1, r') \<and> ringbuf_ok r' \<and> rmask r' = rmask r \<and> ringbuf_seq r' = ringbuf_seq r @ [c]"
    and "length (ringbuf_seq r) = unat (rmask r) \<Longrightarrow> ringbuf_put c r = Ok (0, r)"
    and "length (ringbuf_seq r) \<le> unat (rmask r)"
proof -
  obtain k where k: "ring_exp k r" using assms by (auto simp: ringbuf_ok_def)
  then have m: "unat (rmask r) = 2 ^ k - 1" by simp
  show "length (ringbuf_seq r) \<le> unat (rmask r)"
    unfolding ringbuf_seq_def length_ring using ringbuf_elements_bound(2) [OF k] m by linarith
  show "ringbuf_put c r = Ok (0, r)" if "length (ringbuf_seq r) = unat (rmask r)"
    using ringbuf_put_full [OF k] that m by (simp add: ringbuf_seq_def)
  show "\<exists>r'. ringbuf_put c r = Ok (1, r') \<and> ringbuf_ok r' \<and> rmask r' = rmask r \<and> ringbuf_seq r' = ringbuf_seq r @ [c]"
    if "length (ringbuf_seq r) < unat (rmask r)"
  proof -
    have "Suc (nat (ringbuf_elements r)) < 2 ^ k"
      using that m unfolding ringbuf_seq_def length_ring by linarith
    from ringbuf_put_room [OF k this] show ?thesis unfolding ringbuf_ok_def by blast
  qed
qed

lemma ringbuf_get_Cons:
  assumes "ringbuf_ok r" and "ringbuf_seq r = x # xs"
  shows "\<exists>r'. ringbuf_get r = Ok (uint x, r') \<and> ringbuf_ok r' \<and> rmask r' = rmask r \<and> ringbuf_seq r' = xs"
proof -
  obtain k where "ring_exp k r" using assms by (auto simp: ringbuf_ok_def)
  from ringbuf_get_room [OF this assms(2)] show ?thesis unfolding ringbuf_ok_def by blast
qed

section \<open>The byte ring is a bounded queue\<close>

definition rb_put :: "u8 \<Rightarrow> ringbuf \<Rightarrow> int \<times> ringbuf" where
  "rb_put c r = (case ringbuf_put c r of Ok p \<Rightarrow> p | Fault _ \<Rightarrow> (-1, r))"

definition rb_get :: "ringbuf \<Rightarrow> u8 option \<times> ringbuf" where
  "rb_get r = (case ringbuf_get r of
       Ok (i, r') \<Rightarrow> (if i < 0 then None else Some (word_of_int i), r')
     | Fault _ \<Rightarrow> (None, r))"

interpretation rb: bounded_queue ringbuf_ok rb_put rb_get ringbuf_seq "\<lambda>r. unat (rmask r)" 1
proof unfold_locales
  fix q :: ringbuf and x r q'
  assume ok: "ringbuf_ok q" and len: "length (ringbuf_seq q) < unat (rmask q)"
    and p: "rb_put x q = (r, q')"
  from ringbuf_put_cases(1) [OF ok len, of x] p
  show "r = 1 \<and> ringbuf_seq q' = ringbuf_seq q @ [x] \<and> unat (rmask q') = unat (rmask q) \<and> ringbuf_ok q'"
    by (auto simp: rb_put_def)
next
  fix q :: ringbuf and x r q'
  assume "ringbuf_ok q" and "length (ringbuf_seq q) = unat (rmask q)" and "rb_put x q = (r, q')"
  with ringbuf_put_cases(2) [of q x] show "r \<noteq> 1 \<and> q' = q" by (auto simp: rb_put_def)
next
  fix q :: ringbuf
  assume "ringbuf_ok q" and "ringbuf_seq q = []"
  then show "rb_get q = (None, q)" by (simp add: rb_get_def ringbuf_get_empty)
next
  fix q :: ringbuf and x xs y q'
  assume "ringbuf_ok q" and "ringbuf_seq q = x # xs" and "rb_get q = (y, q')"
  with ringbuf_get_Cons [of q x xs]
  show "y = Some x \<and> ringbuf_seq q' = xs \<and> unat (rmask q') = unat (rmask q) \<and> ringbuf_ok q'"
    by (auto simp: rb_get_def)
next
  show "ringbuf_ok q \<Longrightarrow> length (ringbuf_seq q) \<le> unat (rmask q)" for q
    by (rule ringbuf_put_cases(3))
qed

lemma ringbuf_init_ok:
  assumes "k \<le> 8" and "length xs = 2 ^ k"
  shows "ringbuf_ok (ringbuf_init xs (of_nat (2 ^ k)))" and "ringbuf_seq (ringbuf_init xs (of_nat (2 ^ k))) = []"
    and "unat (rmask (ringbuf_init xs (of_nat (2 ^ k)))) = 2 ^ k - 1"
proof -
  have "(k = 0 \<or> k = 1 \<or> k = 2 \<or> k = 3 \<or> k = 4 \<or> k = 5 \<or> k = 6 \<or> k = 7 \<or> k = 8)"
    using assms(1) by presburger
  then show m: "unat (rmask (ringbuf_init xs (of_nat (2 ^ k)))) = 2 ^ k - 1"
    by (elim disjE) (simp_all add: ringbuf_init_def)
  then have "ring_exp k (ringbuf_init xs (of_nat (2 ^ k)))"
    using assms by (simp add: ringbuf_init_def)
  then show "ringbuf_ok (ringbuf_init xs (of_nat (2 ^ k)))" unfolding ringbuf_ok_def by blast
  show "ringbuf_seq (ringbuf_init xs (of_nat (2 ^ k))) = []"
    by (simp add: ringbuf_seq_def ringbuf_elements_def ringbuf_init_def)
qed

section \<open>Properties of the byte ring\<close>

text \<open>
  The ring buffer is a bounded first-in first-out queue of \<open>ringbuf_size - 1\<close> bytes that never
  accesses memory outside its array: a put stores the byte behind the others and returns 1, or
  returns 0 and changes nothing exactly when the queue is full; a get returns and removes the oldest
  byte, or returns -1 when there is none; \<open>ringbuf_elements\<close> is the number of bytes stored.
\<close>

lemma ringbuf_is_bounded_fifo:
  assumes "ringbuf_ok r"
  shows "ringbuf_elements r = int (length (ringbuf_seq r)) \<and>
    ((\<exists>r'. ringbuf_put c r = Ok (1, r') \<and> ringbuf_ok r' \<and> ringbuf_seq r' = ringbuf_seq r @ [c] \<and>
         ringbuf_elements r < ringbuf_size r - 1) \<or>
      ringbuf_put c r = Ok (0, r) \<and> ringbuf_elements r = ringbuf_size r - 1) \<and>
    (ringbuf_seq r = [] \<and> ringbuf_get r = Ok (-1, r) \<or>
      (\<exists>x xs r'. ringbuf_seq r = x # xs \<and> ringbuf_get r = Ok (uint x, r') \<and> ringbuf_ok r' \<and>
         ringbuf_seq r' = xs))"
proof (intro conjI)
  show len: "ringbuf_elements r = int (length (ringbuf_seq r))"
    by (rule ringbuf_elements_length [OF assms])
  have sz: "ringbuf_size r - 1 = int (unat (rmask r))" by (simp add: ringbuf_size_def)
  note put = ringbuf_put_cases [OF assms]
  show "(\<exists>r'. ringbuf_put c r = Ok (1, r') \<and> ringbuf_ok r' \<and> ringbuf_seq r' = ringbuf_seq r @ [c] \<and>
           ringbuf_elements r < ringbuf_size r - 1) \<or>
         ringbuf_put c r = Ok (0, r) \<and> ringbuf_elements r = ringbuf_size r - 1"
  proof (cases "length (ringbuf_seq r) < unat (rmask r)")
    case True
    then have "ringbuf_elements r < ringbuf_size r - 1" unfolding len sz by (simp only: of_nat_less_iff)
    with put(1) [OF True, of c] show ?thesis by blast
  next
    case False
    then have eq: "length (ringbuf_seq r) = unat (rmask r)" using put(3) by linarith
    show ?thesis using put(2) [OF eq, of c] unfolding len sz eq by blast
  qed
  show "ringbuf_seq r = [] \<and> ringbuf_get r = Ok (-1, r) \<or>
      (\<exists>x xs r'. ringbuf_seq r = x # xs \<and> ringbuf_get r = Ok (uint x, r') \<and> ringbuf_ok r' \<and>
         ringbuf_seq r' = xs)"
    using ringbuf_get_empty [OF assms] ringbuf_get_Cons [OF assms] by (cases "ringbuf_seq r") blast+
qed

lemma ringbuf_is_bounded_fifo_example:
  "\<exists>r'. ringbuf_put 9 \<lparr>rdata = [5, 6, 7, 8], rmask = 3, put_ptr = 1, get_ptr = 3\<rparr> = Ok (1, r') \<and>
     ringbuf_seq r' = [8, 5, 9]"
proof -
  let ?r = "\<lparr>rdata = [5, 6, 7, 8], rmask = 3, put_ptr = 1, get_ptr = 3\<rparr>"
  have "ring_exp 2 ?r" by simp
  then have "ringbuf_ok ?r" unfolding ringbuf_ok_def by blast
  moreover have "ringbuf_seq ?r = [8, 5]" by code_simp
  moreover have "ringbuf_elements ?r \<noteq> ringbuf_size ?r - 1" by code_simp
  ultimately show ?thesis using ringbuf_is_bounded_fifo [of ?r 9] by auto
qed

text \<open>
  Bytes put into a freshly initialised ring whose array has \<open>2 ^ k\<close> bytes, at most \<open>2 ^ k - 1\<close> of
  them, are all accepted and come out in the order in which they went in.
\<close>

lemma ringbuf_roundtrip:
  assumes "k \<le> 8" and "length a = 2 ^ k" and "length xs \<le> 2 ^ k - 1"
  shows "\<exists>r1 r2. put_all rb_put xs (ringbuf_init a (of_nat (2 ^ k))) = (replicate (length xs) 1, r1) \<and>
           get_n rb_get (length xs) r1 = (map Some xs, r2) \<and> ringbuf_seq r2 = []"
  using rb.put_all_get_n [OF ringbuf_init_ok(1,2) [OF assms(1,2)], of xs]
    ringbuf_init_ok(3) [OF assms(1,2)] assms(3) by auto

lemma ringbuf_roundtrip_example:
  "\<exists>r1 r2. put_all rb_put [7, 8, 9] (ringbuf_init [0, 0, 0, 0] 4) = ([1, 1, 1], r1) \<and>
     get_n rb_get 3 r1 = ([Some 7, Some 8, Some 9], r2) \<and> ringbuf_seq r2 = []"
  using ringbuf_roundtrip [of 2 "[0, 0, 0, 0]" "[7, 8, 9]"] by (simp add: numeral_3_eq_3)

end
