(* ===== verification/Crc16.thy ===== *)
theory Crc16
  imports Prelude
begin

text \<open>
  The checksum \<^verbatim>\<open>src/core/lib/crc16.c\<close>: the byte-wise update \<open>crc16_add\<close> and the sum over a buffer.
  The reference is the definition of a cyclic redundancy check as a shift register that takes one
  bit at a time, with the bits of the CCITT polynomial in reflected order.
\<close>

unbundle bit_operations_syntax

section \<open>The operations of crc16.c\<close>

definition crc16_add :: "u8 \<Rightarrow> u16 \<Rightarrow> u16" where
  "crc16_add b acc =
     (let acc = acc XOR ucast b;
          acc = drop_bit 8 acc OR push_bit 8 acc;
          acc = acc XOR push_bit 4 (acc AND 0xff00);
          acc = acc XOR drop_bit 4 (drop_bit 8 acc);
          acc = acc XOR drop_bit 5 (acc AND 0xff00)
      in acc)"

text \<open>The loop reads \<open>len\<close> bytes of \<open>data\<close>; a negative \<open>len\<close> reads none.\<close>

fun crc16_data :: "u8 list \<Rightarrow> int \<Rightarrow> u16 \<Rightarrow> u16 res" where
  "crc16_data data len acc =
     (if len \<le> 0 then Ok acc
      else case data of
        [] \<Rightarrow> Fault OutOfBounds
      | b # bs \<Rightarrow> crc16_data bs (len - 1) (crc16_add b acc))"

section \<open>The shift register\<close>

definition crc_shift :: "u16 \<Rightarrow> u16" where
  "crc_shift r = (if bit r 0 then drop_bit 1 r XOR 0x8408 else drop_bit 1 r)"

definition crc_byte :: "u8 \<Rightarrow> u16 \<Rightarrow> u16" where
  "crc_byte b r = (crc_shift ^^ 8) (r XOR ucast b)"

lemma below_16:
  "(n :: nat) < 16 \<Longrightarrow> n = 0 \<or> n = 1 \<or> n = 2 \<or> n = 3 \<or> n = 4 \<or> n = 5 \<or> n = 6 \<or> n = 7 \<or> n = 8 \<or> n = 9 \<or>
     n = 10 \<or> n = 11 \<or> n = 12 \<or> n = 13 \<or> n = 14 \<or> n = 15"
  by presburger

lemma bit_above_16: "16 \<le> n \<Longrightarrow> \<not> bit (x :: u16) n"
  using bit_imp_le_length [of x n] by auto

lemma bit_8408: "bit (0x8408 :: u16) n \<longleftrightarrow> n = 3 \<or> n = 10 \<or> n = 15"
proof (cases "n < 16")
  case True
  then show ?thesis by (elim below_16 [THEN disjE] disjE) simp_all
next
  case False
  then show ?thesis using bit_above_16 [of n "0x8408"] by auto
qed

lemma bit_ff00: "bit (0xff00 :: u16) n \<longleftrightarrow> 8 \<le> n \<and> n < 16"
proof (cases "n < 16")
  case True
  then show ?thesis by (elim below_16 [THEN disjE] disjE) simp_all
next
  case False
  then show ?thesis using bit_above_16 [of n "0xff00"] by auto
qed

lemma bit_crc_shift:
  "bit (crc_shift r) n \<longleftrightarrow> (bit r (Suc n) \<noteq> (bit r 0 \<and> (n = 3 \<or> n = 10 \<or> n = 15)))"
proof -
  have "bit (drop_bit 1 r XOR 0x8408) n \<longleftrightarrow> bit r (Suc n) \<noteq> (n = 3 \<or> n = 10 \<or> n = 15)"
    unfolding bit_xor_iff bit_drop_bit_eq bit_8408 by simp
  then show ?thesis by (auto simp: crc_shift_def bit_drop_bit_eq)
qed

lemma u16_eqI: "(\<And>n. n < 16 \<Longrightarrow> bit (x :: u16) n = bit y n) \<Longrightarrow> x = y"
  by (rule bit_word_eqI) simp

lemma crc16_add_crc_byte: "crc16_add b r = crc_byte b r"
proof (rule u16_eqI)
  fix n :: nat
  assume n: "n < 16"
  define x where "x = r XOR ucast b"
  have unroll: "crc_byte b r =
      crc_shift (crc_shift (crc_shift (crc_shift (crc_shift (crc_shift (crc_shift (crc_shift x)))))))"
    by (simp add: crc_byte_def x_def eval_nat_numeral)
  show "bit (crc16_add b r) n = bit (crc_byte b r) n"
    using below_16 [OF n] unfolding unroll crc16_add_def x_def [symmetric] Let_def
    by (elim disjE) (simp_all add: bit_crc_shift bit_xor_iff bit_or_iff bit_and_iff bit_drop_bit_eq
        bit_push_bit_iff bit_ff00 bit_above_16, simp_all add: eval_nat_numeral, argo+)
qed

section \<open>The register loses no information\<close>

lemma crc_shift_inj: "inj crc_shift"
proof (rule injI, rule u16_eqI)
  fix x y :: u16 and n :: nat
  assume eq: "crc_shift x = crc_shift y"
  have "bit (crc_shift r) 15 = bit r 0" for r by (simp add: bit_crc_shift bit_above_16)
  then have 0: "bit x 0 = bit y 0" using eq by metis
  show "bit x n = bit y n"
  proof (cases n)
    case (Suc m)
    with eq 0 show ?thesis using bit_crc_shift [of x m] bit_crc_shift [of y m] by (metis (full_types))
  qed (simp add: 0)
qed

lemma crc_shift_xor: "crc_shift (x XOR y) = crc_shift x XOR crc_shift y"
  by (rule u16_eqI) (auto simp: bit_crc_shift bit_xor_iff)

lemma crc_shift_funpow_xor: "(crc_shift ^^ n) (x XOR y) = (crc_shift ^^ n) x XOR (crc_shift ^^ n) y"
  by (induction n) (simp_all add: crc_shift_xor)

lemma crc_shift_push: "n \<le> 8 \<Longrightarrow> (crc_shift ^^ n) (push_bit 8 (ucast (b :: u8))) = push_bit (8 - n) (ucast b)"
proof (induction n)
  case (Suc n)
  then have "(crc_shift ^^ Suc n) (push_bit 8 (ucast b)) = crc_shift (push_bit (8 - n) (ucast b))" by simp
  also have "\<dots> = push_bit (8 - Suc n) (ucast b)"
  proof (rule u16_eqI)
    fix i :: nat
    assume "i < 16"
    moreover have "\<not> bit b (8 + n)" using bit_imp_le_length [of b "8 + n"] by auto
    ultimately show "bit (crc_shift (push_bit (8 - n) (ucast b))) i = bit (push_bit (8 - Suc n) (ucast b) :: u16) i"
      using Suc.prems by (cases "i = 15") (auto simp: bit_crc_shift bit_push_bit_iff bit_ucast_iff Suc_diff_le)
  qed
  finally show ?case .
qed simp

lemma crc_byte_pair:
  "crc_byte b (crc_byte a r) = (crc_shift ^^ 16) (r XOR (ucast a XOR push_bit 8 (ucast b)))"
proof -
  have "(crc_shift ^^ 8) (push_bit 8 (ucast b)) = ucast b" using crc_shift_push [of 8 b] by simp
  then have "crc_byte a r XOR ucast b = (crc_shift ^^ 8) ((r XOR ucast a) XOR push_bit 8 (ucast b))"
    by (simp only: crc_byte_def crc_shift_funpow_xor)
  then have "crc_byte b (crc_byte a r) = (crc_shift ^^ (8 + 8)) ((r XOR ucast a) XOR push_bit 8 (ucast b))"
    by (simp only: crc_byte_def funpow_add o_apply)
  then show ?thesis by (simp add: xor.assoc)
qed

lemma byte_pair_inj:
  fixes a b a' b' :: u8
  assumes "(ucast a XOR push_bit 8 (ucast b) :: u16) = ucast a' XOR push_bit 8 (ucast b')"
  shows "a = a' \<and> b = b'"
proof -
  have bits: "bit (ucast a XOR push_bit 8 (ucast b) :: u16) n \<longleftrightarrow>
      n < 16 \<and> (if n < 8 then bit a n else bit b (n - 8))" for a b :: u8 and n
    using bit_imp_le_length [of a n] by (auto simp: bit_xor_iff bit_push_bit_iff bit_ucast_iff)
  have "bit a n = bit a' n" if "n < 8" for n
    using bits [of a b n] bits [of a' b' n] assms that by simp
  moreover have "bit b n = bit b' n" if "n < 8" for n
    using bits [of a b "n + 8"] bits [of a' b' "n + 8"] assms that by simp
  ultimately show ?thesis by (auto intro: bit_word_eqI)
qed

lemma crc16_data_fold: "crc16_data (xs @ ys) (int (length xs)) acc = Ok (foldl (\<lambda>r b. crc_byte b r) acc xs)"
  by (induction xs arbitrary: acc) (simp_all add: crc16_add_crc_byte)

lemma foldl_crc_inj: "foldl (\<lambda>r b. crc_byte b r) r xs = foldl (\<lambda>r b. crc_byte b r) s xs \<Longrightarrow> r = s"
proof (induction xs arbitrary: r s)
  case (Cons b xs)
  then have "(crc_shift ^^ 8) (r XOR ucast b) = (crc_shift ^^ 8) (s XOR ucast b)"
    by (auto simp: crc_byte_def)
  then have "r XOR ucast b = s XOR ucast b" using inj_fn [OF crc_shift_inj] by (auto dest: injD)
  then have "(r XOR ucast b) XOR ucast b = (s XOR ucast b) XOR ucast b" by simp
  then show ?case by (simp add: xor.assoc)
qed simp

section \<open>Properties of the checksum\<close>

text \<open>
  The byte-wise checksum is the cyclic redundancy check that shifts the bits of the data through
  the register one at a time: over the first \<open>length xs\<close> bytes of a buffer \<open>crc16_data\<close> returns the
  state of the shift register after those bytes.
\<close>

lemma crc16_data_is_shift_register:
  "crc16_data (xs @ ys) (int (length xs)) acc =
     Ok (foldl (\<lambda>r b. (crc_shift ^^ 8) (r XOR ucast b)) acc xs)"
  using crc16_data_fold by (simp add: crc_byte_def)

text \<open>
  The checksum detects every error that is confined to two neighbouring bytes: two buffers that
  differ in these bytes only have different checksums, whatever the initial value.
\<close>

lemma crc16_detects_burst:
  assumes "(a, b) \<noteq> (a', b')"
  shows "crc16_data (xs @ [a, b] @ ys) (int (length xs + 2 + length ys)) acc \<noteq>
         crc16_data (xs @ [a', b'] @ ys) (int (length xs + 2 + length ys)) acc"
proof
  let ?f = "foldl (\<lambda>r b. crc_byte b r)" and ?p = "\<lambda>a b :: u8. ucast a XOR push_bit 8 (ucast b) :: u16"
  let ?r = "?f acc xs"
  assume "crc16_data (xs @ [a, b] @ ys) (int (length xs + 2 + length ys)) acc =
          crc16_data (xs @ [a', b'] @ ys) (int (length xs + 2 + length ys)) acc"
  then have "?f (crc_byte b (crc_byte a ?r)) ys = ?f (crc_byte b' (crc_byte a' ?r)) ys"
    using crc16_data_fold [of "xs @ [a, b] @ ys" "[]" acc] crc16_data_fold [of "xs @ [a', b'] @ ys" "[]" acc]
    by simp
  then have "(crc_shift ^^ 16) (?r XOR ?p a b) = (crc_shift ^^ 16) (?r XOR ?p a' b')"
    by (auto dest: foldl_crc_inj simp: crc_byte_pair)
  then have "?r XOR ?p a b = ?r XOR ?p a' b'" using inj_fn [OF crc_shift_inj] by (auto dest: injD)
  then have "?r XOR (?r XOR ?p a b) = ?r XOR (?r XOR ?p a' b')" by simp
  then have "?p a b = ?p a' b'" by (simp add: xor.assoc [symmetric])
  then show False using byte_pair_inj assms by blast
qed

lemma crc16_detects_burst_example:
  "crc16_data [1, 2, 3, 4] 4 0 \<noteq> crc16_data [1, 7, 3, 4] 4 0"
  using crc16_detects_burst [of 2 3 7 3 "[1]" "[4]" 0] by simp

end
