(* ===== verification/CSync_Tables.thy ===== *)
theory CSync_Tables
  imports CSync_Process
begin

text \<open>
  What the steps of C-sync leave alone: the neighbour table, the lists of cluster heads and bridges and
  the blacklist (\<open>tables\<close>) are not touched by the announcement senders, the timers, the state entries and
  the assignments to the other variables. The lemmas are collected in \<open>tables_simps\<close>.
\<close>

section \<open>The tables of a node\<close>

text \<open>The part of the state that the invariants speak about.\<close>

definition tables :: "node \<Rightarrow> (neighbour memb \<times> ptr list \<times> ptr list \<times> u16 \<times> u8) \<times>
    (chb memb \<times> ptr list \<times> chb memb \<times> ptr list \<times> u16 memb \<times> ptr list \<times> bool)" where
  "tables s = ((neighbour_memb s, neighbour_list s, mod_neighbour_list s, my_addr s, my_degree s),
     (CHs_memb s, CHs_list s, CBs_memb s, CBs_list s, bl_memb s, blacklist s, pool_linked s))"

named_theorems tables_simps

lemma tables_updates [tables_simps]:
  "tables (upd_anns f s) = tables s"
  "tables (upd_rts g s) = tables s"
  "tables (set_timer_state st s) = tables s"
  "tables (announce_rt0_date a s) = tables s"
  "tables (set_schedule_ref s) = tables s"
  "tables (poll_c_gtsp_process s) = tables s"
  by (simp_all add: tables_def upd_anns_def upd_rts_def set_timer_state_def announce_rt0_date_def
      set_schedule_ref_def poll_c_gtsp_process_def)

lemma tables_senders [tables_simps]:
  "tables (polite_announcement_cancel s) = tables s"
  "tables (polite_announcement_stop s) = tables s"
  "tables (polite_announcement_set_interval i s) = tables s"
  "tables (polite_announcement_init ch i a b s) = tables s"
  "tables (broadcast_announcement_stop s) = tables s"
  by (simp_all add: tables_def polite_announcement_cancel_def polite_announcement_stop_def
      polite_announcement_set_interval_def polite_announcement_init_def broadcast_announcement_stop_def
      ipolite_cancel_def ipolite_close_def ipolite_open_def)

lemma tables_fields [tables_simps]:
  "tables (s\<lparr>my_state := x1\<rparr>) = tables s" "tables (s\<lparr>my_placing := x2\<rparr>) = tables s"
  "tables (s\<lparr>my_role := x3\<rparr>) = tables s" "tables (s\<lparr>my_proactive_slot := x4\<rparr>) = tables s"
  "tables (s\<lparr>my_cons_slot := x5\<rparr>) = tables s" "tables (s\<lparr>this_sync_slot := x6\<rparr>) = tables s"
  "tables (s\<lparr>my_slot_ack := x7\<rparr>) = tables s" "tables (s\<lparr>my_sync_border := x8\<rparr>) = tables s"
  "tables (s\<lparr>cons_ctrl_counter := x9\<rparr>) = tables s" "tables (s\<lparr>ref_n_CHB_degree := y1\<rparr>) = tables s"
  "tables (s\<lparr>ref_n_CHB_addr := y2\<rparr>) = tables s" "tables (s\<lparr>synced_counter := y3\<rparr>) = tables s"
  "tables (s\<lparr>msg_count := y4\<rparr>) = tables s" "tables (s\<lparr>temp_state := y5\<rparr>) = tables s"
  "tables (s\<lparr>my_cons_rate := y6\<rparr>) = tables s" "tables (s\<lparr>sync_LC_addr := y7\<rparr>) = tables s"
  "tables (s\<lparr>saved_proactive_slot := z1\<rparr>) = tables s" "tables (s\<lparr>saved_cons_slot := z2\<rparr>) = tables s"
  "tables (s\<lparr>saved_slot_ack := z3\<rparr>) = tables s" "tables (s\<lparr>saved_sync_border := z4\<rparr>) = tables s"
  "tables (s\<lparr>convergence_complete := z5\<rparr>) = tables s" "tables (s\<lparr>soft_reset_count := z6\<rparr>) = tables s"
  "tables (s\<lparr>radio_on := z7\<rparr>) = tables s" "tables (s\<lparr>led := z8\<rparr>) = tables s"
  "tables (s\<lparr>llsec_inits := z9\<rparr>) = tables s" "tables (s\<lparr>rts := w1\<rparr>) = tables s"
  "tables (s\<lparr>pb := w2\<rparr>) = tables s"
  by (simp_all add: tables_def)

lemma tables_entries [tables_simps]:
  "tables (enter_election_revelation s) = tables s"
  "tables (enter_connection_revelation s) = tables s"
  "tables (enter_connection_declaration s) = tables s"
  "tables (enter_convergence s) = tables s"
  "tables (enter_consensus_revelation s) = tables s"
  "tables (enter_convergence_slot s) = tables s"
  "tables (enter_consensus_synchronization s) = tables s"
  "tables (enter_byzantine_consensus s) = tables s"
  "tables (enter_idle e s) = tables s"
  "tables (enter_synchronization_slot e s) = tables s"
  "tables (enter_discovery e s) = tables s"
  by (simp_all add: enter_election_revelation_def enter_connection_revelation_def enter_connection_declaration_def
     enter_convergence_def enter_consensus_revelation_def enter_convergence_slot_def enter_consensus_synchronization_def
     enter_byzantine_consensus_def enter_idle_def enter_synchronization_slot_def enter_discovery_def leds_off_all_def
     Let_def tables_simps)

lemma tables_steps [tables_simps]:
  "tables (join_polite s) = tables s"
  "tables (announce e a i d r x s) = tables s"
  "tables (relay_dates av s) = tables s"
  "tables (relay_all av s) = tables s"
  "tables (next_iteration s) = tables s"
  "tables (leave_idle e s) = tables s"
  "tables (byz_announce e s) = tables s"
  by (simp_all add: join_polite_def announce_def relay_dates_def relay_all_def next_iteration_def leave_idle_def
      byz_announce_def Let_def tables_simps split: option.split)

text \<open>The operations of the device change nothing but the device.\<close>

lemma tables_more: "dev.more s' = dev.more s \<Longrightarrow> tables s' = tables s"
  by (cases s, cases s') (simp add: tables_def)

lemma random_mod_tables: "random_mod i s = Ok (r, s') \<Longrightarrow> tables s' = tables s"
  by (auto simp: random_mod_def random_rand_def tables_def res_iff split: list.splits if_splits)

lemma sync_send_at_tables: "sync_send_at e off s = Ok s' \<Longrightarrow> tables s' = tables s"
  by (auto simp: sync_send_at_def tables_def res_iff)

lemma broadcast_send_tables: "broadcast_send e s = Ok (b, s') \<Longrightarrow> tables s' = tables s"
  by (auto simp: broadcast_send_def tables_def res_iff)

lemma queuebuf_new_tables: "queuebuf_new_from_packetbuf s = Ok (q, s') \<Longrightarrow> tables s' = tables s"
  by (auto simp: queuebuf_new_from_packetbuf_def tables_def res_iff split: list.splits bool.splits)

lemma set_timers_tables:
  assumes "set_timers s = Ok s'"
  shows "tables s' = tables s"
proof -
  obtain r s1 where "random_mod (ba_current_interval s) (s\<lparr>ba_interval_timer := Some (ba_current_interval s)\<rparr>) = Ok (r, s1)"
    "s' = s1\<lparr>ba_send_timer := Some r\<rparr>"
    using assms by (auto simp: set_timers_def res_iff)
  then show ?thesis using random_mod_tables by (fastforce simp: tables_def)
qed

lemma ipolite_send_tables:
  assumes "ipolite_send e i h sf s = Ok (b, s')"
  shows "tables s' = tables s"
proof -
  define s2 where "s2 = (if ip_q s \<noteq> None then s\<lparr>ip_q := None, ip_t := None\<rparr> else s)\<lparr>ip_dups := 0, ip_hdrsize := h\<rparr>"
  have s2: "tables s2 = tables s" by (simp add: s2_def tables_def)
  show ?thesis
  proof (cases "i = 0")
    case True
    then obtain s3 where "sync_send_at e sf s2 = Ok s3"
      "broadcast_send e (s3\<lparr>pb := packetbuf_set_attr ATTR_PACKET_TYPE PACKET_TYPE_TIMESTAMP (pb s3)\<rparr>) = Ok (b, s')"
      using assms by (auto simp: ipolite_send_def s2_def Let_def res_iff)
    then show ?thesis using s2 sync_send_at_tables broadcast_send_tables by (metis tables_fields(27))
  next
    case False
    then obtain q s3 where q: "queuebuf_new_from_packetbuf s2 = Ok (q, s3)"
      and rest: "(if q \<noteq> None then
               bindR (random_mod i (s3\<lparr>ip_q := q, ip_syncframe := sf\<rparr>)) (\<lambda>(r, s5).
                 Ok (True, s5\<lparr>ip_t := Some (i + r)\<rparr>))
             else Ok (False, s3\<lparr>ip_q := q\<rparr>)) = Ok (b, s')"
      using assms by (auto simp: ipolite_send_def s2_def Let_def res_iff)
    have s3: "tables s3 = tables s" using queuebuf_new_tables [OF q] s2 by simp
    show ?thesis
    proof (cases q)
      case None
      then show ?thesis using rest s3 by (auto simp: tables_def)
    next
      case (Some x)
      then obtain r s5 where "random_mod i (s3\<lparr>ip_q := q, ip_syncframe := sf\<rparr>) = Ok (r, s5)"
        "s' = s5\<lparr>ip_t := Some (i + r)\<rparr>"
        using rest by (auto simp: res_iff)
      then show ?thesis using random_mod_tables [of i "s3\<lparr>ip_q := q, ip_syncframe := sf\<rparr>" r s5] s3
        by (simp add: tables_def)
    qed
  qed
qed

lemma pa_send_adv_tables:
  assumes "pa_send_adv e i s = Ok s'"
  shows "tables s' = tables s"
proof -
  obtain num s1 where b: "build_adv e (announcement_data (ann s)) s = Ok (num, s1)"
    using assms by (auto simp: pa_send_adv_def res_iff)
  have s1: "tables s1 = tables s" using b by (auto simp: build_adv_def Let_def res_iff tables_def)
  define b where "b = packetbuf_set_datalen (announcement_datalength e num + of_nat (sz_sync e)) (pb s1)"
  show ?thesis
  proof (cases "num > 0")
    case True
    then obtain x where "ipolite_send e i (ucast (packetbuf_datalen b)) (unat (announcement_datalength e num)) (s1\<lparr>pb := b\<rparr>) = Ok (x, s')"
      using assms \<open>build_adv e _ s = _\<close> by (auto simp: pa_send_adv_def b_def Let_def res_iff)
    from ipolite_send_tables [OF this] s1 show ?thesis by (simp add: tables_def)
  next
    case False
    then have "s' = s1\<lparr>pb := b\<rparr>" using assms \<open>build_adv e _ s = _\<close> by (simp add: pa_send_adv_def b_def Let_def)
    then show ?thesis using s1 by (simp add: tables_def)
  qed
qed

lemma announcement_bump_tables:
  assumes "announcement_bump e a s = Ok s'"
  shows "tables s' = tables s"
  using assms pa_send_adv_tables [of e "pa_interval s" "s\<lparr>pa_send_dups := 0\<rparr>" s'] set_timers_tables [of s s']
  by (auto simp: announcement_bump_def run_observer_pa_def run_observer_ba_def broadcast_announcement_continue_def
      tables_def split: option.splits ann_observer.splits)

end
