(* ===== verification/CSync_Invariant.thy ===== *)
theory CSync_Invariant
  imports CSync_Tables Neighbour_Laws
begin

text \<open>
  Invariants of a C-sync node. The locale \<open>node_invariant\<close> lists what a predicate on the node state has
  to promise about the few functions that write the tables; its lemmas show that then every entry of the
  program keeps it: the timer callbacks, the five handlers of received announcements, the reception of a
  frame and every continuation of the thread \<open>c_gtsp_process\<close>.
\<close>

section \<open>What an invariant of a node has to promise\<close>

locale node_invariant =
  fixes e :: "'e cenv_scheme" and I :: "node \<Rightarrow> bool"
  assumes frame: "tables s' = tables s \<Longrightarrow> I s \<Longrightarrow> I s'"
    and measured: "same_table s s' \<Longrightarrow> I s \<Longrightarrow> I s'"
    and neighbour_added: "I s \<Longrightarrow> add_to_neighbour e addr state degree sf s = Ok (r, s') \<Longrightarrow> I s'"
    and declared: "I s \<Longrightarrow> I (enter_election_declaration e s)"
    and listed: "I s \<Longrightarrow> I (snd (handle_lists av p s))"
    and head_written: "I s \<Longrightarrow> I (upd_CH p f s)"
    and heads_dropped: "I s \<Longrightarrow> I (s\<lparr>CHs_list := []\<rparr>)"
    and bridges_dropped: "I s \<Longrightarrow> I (s\<lparr>CBs_list := []\<rparr>)"
    and heads_rebuilt: "I s \<Longrightarrow> I (init_consensus_convergence s)"
    and pool_pushed: "I s \<Longrightarrow> push_pool_as_head av s = Ok s' \<Longrightarrow> I s'"
    and blacklisted_one: "I s \<Longrightarrow> blacklist_neighbour p s = Ok s' \<Longrightarrow> I s'"
    and byz_renamed: "I s \<Longrightarrow> I (snd (byz_rename e p (av, s)))"
    and chain_renamed: "I s \<Longrightarrow> I (snd (chain_rename e p (av, s)))"
begin

lemma framed: "I s \<Longrightarrow> tables s' = tables s \<Longrightarrow> I s'"
  by (rule frame)

lemma fixed_iff: "tables s' = tables s \<Longrightarrow> I s' = I s"
  using frame by metis

lemma keeps_framed: "(\<And>s s'. f s = Ok s' \<Longrightarrow> tables s' = tables s) \<Longrightarrow> keeps I f"
  by (rule keepsI) (metis frame)

lemma keeps_bump [keeps_rules]: "keeps I (announcement_bump e' a)"
  by (rule keeps_framed) (rule announcement_bump_tables)

lemma schedule_keeps: "keeps_snd I (schedule e' t i c f func)"
proof (rule keeps_sndI)
  fix s y s'
  assume "I s" "schedule e' t i c f func s = Ok (y, s')"
  then obtain r where "s' = s\<lparr>rts := r\<rparr>" using schedule_node_fields [of e' t i c f func s y s'] by blast
  then show "I s'" using \<open>I s\<close> by (simp add: fixed_iff [OF tables_fields(26)])
qed

lemma if_schedule_keeps [keeps_rules]:
  "keeps I yes \<Longrightarrow> keeps I no \<Longrightarrow> keeps I (if_schedule e' i c f func yes no)"
  unfolding if_schedule_def
  by (rule keeps_bind_snd [OF schedule_keeps]) (rule keeps_if)

lemma if_schedule_keeps_snd [keeps_rules]:
  "keeps_snd I yes \<Longrightarrow> keeps_snd I no \<Longrightarrow> keeps_snd I (if_schedule e' i c f func yes no)"
  unfolding if_schedule_def
  by (rule keeps_snd_bind_snd [OF schedule_keeps]) (rule keeps_snd_if)

lemma print_status_keeps [keeps_rules]: "keeps I csync_print_status"
  by (rule keeps_framed)
    (auto simp: csync_print_status_def tables_simps split: if_splits role_t.splits)

lemma upd_rts_res_keeps [keeps_rules]: "keeps I (upd_rts_res f)"
  by (rule keeps_framed) (auto simp: upd_rts_res_def res_iff tables_simps)

lemma broadcast_init_keeps [keeps_rules]: "keeps I (broadcast_announcement_init ch i mn mx)"
proof (rule keeps_framed)
  fix s s' :: node
  let ?s = "s\<lparr>ba_open := Some ch, ba_current_interval := i, ba_min_interval := mn,
       ba_max_interval := mx, ann := announcement_register_observer_callback observer_ba (ann s)\<rparr>"
  assume "broadcast_announcement_init ch i mn mx s = Ok s'"
  then have "set_timers ?s = Ok s'" by (simp add: broadcast_announcement_init_def)
  from set_timers_tables [OF this] show "tables s' = tables s" by (simp add: tables_def)
qed

lemma upd_CHs_keeps: "I s \<Longrightarrow> I (upd_CHs f s)"
proof -
  have "I s \<Longrightarrow> I (fold (\<lambda>p. upd_CH p f) ps s)" for ps
    by (induction ps arbitrary: s) (simp_all add: head_written)
  then show "I s \<Longrightarrow> I (upd_CHs f s)" by (simp add: upd_CHs_def)
qed

lemma set_slot_of_keeps: "I s \<Longrightarrow> I (set_slot_of addr slot s)"
proof -
  have "I s \<Longrightarrow> I (fold (\<lambda>p s. if ch_addr (the_CH s p) = addr
      then (upd_CH p (\<lambda>c. c\<lparr>ch_cons_slot := slot\<rparr>) s)\<lparr>my_cons_slot := slot\<rparr> else s) ps s)" for ps
  proof (induction ps arbitrary: s)
    case (Cons p ps)
    have "I ((upd_CH p (\<lambda>c. c\<lparr>ch_cons_slot := slot\<rparr>) s)\<lparr>my_cons_slot := slot\<rparr>)"
      using head_written [OF Cons.prems] by (rule framed) (simp add: tables_simps)
    then show ?case using Cons by simp
  qed simp
  then show "I s \<Longrightarrow> I (set_slot_of addr slot s)" by (simp add: set_slot_of_def)
qed

lemma note_slot_keeps: "I s \<Longrightarrow> I (note_slot addr slot s)"
proof -
  have "I s \<Longrightarrow> I (fold (\<lambda>p s. if ch_addr (the_CH s p) = addr then upd_CH p (\<lambda>c. c\<lparr>ch_cons_slot := slot\<rparr>) s else s) ps s)" for ps
    by (induction ps arbitrary: s) (simp_all add: head_written)
  then show "I s \<Longrightarrow> I (note_slot addr slot s)" by (simp add: note_slot_def)
qed

lemma init_synchronization_keeps: "I s \<Longrightarrow> I (init_consensus_synchronization s)"
proof -
  assume s: "I s"
  let ?s1 = "upd_CHs (\<lambda>c. c\<lparr>ch_cons_slot := flip_slot (ch_cons_slot c)\<rparr>) (s\<lparr>my_cons_slot := flip_slot (my_cons_slot s)\<rparr>)"
  have "I (s\<lparr>my_cons_slot := flip_slot (my_cons_slot s)\<rparr>)" using s by (rule framed) (simp add: tables_simps)
  then have "I ?s1" by (rule upd_CHs_keeps)
  then show "I (init_consensus_synchronization s)"
    by (rule framed) (simp add: init_consensus_synchronization_def Let_def case_prod_beta tables_simps)
qed

lemmas stable = tables_updates [THEN fixed_iff] tables_senders [THEN fixed_iff] tables_fields [THEN fixed_iff]
  tables_entries [THEN fixed_iff] tables_steps [THEN fixed_iff]

lemmas kept = declared listed head_written heads_dropped bridges_dropped heads_rebuilt upd_CHs_keeps
  set_slot_of_keeps note_slot_keeps init_synchronization_keeps

lemma placing_keeps: "I (csync_update_placing e' s) = I s"
  by (simp add: csync_update_placing_def stable)

lemma adopt_date_keeps [keeps_rules]: "keeps I k \<Longrightarrow> keeps I (adopt_date e' av func k)"
  unfolding adopt_date_def
  by (intro keeps_rules keeps_comp [of I "set_timer_state RTIMER_SINGLEPASS"]) (simp_all add: stable)

lemma with_synced_neighbour_keeps [keeps_rules]:
  assumes "\<And>p. keeps I (k p)"
  shows "keeps I (with_synced_neighbour e from av sf k)"
  unfolding with_synced_neighbour_def
proof (rule keeps_bind_snd)
  show "keeps_snd I (add_to_neighbour e from (av_instr av) (av_degree av) sf)"
    by (rule keeps_sndI) (rule neighbour_added)
  show "keeps I (\<lambda>s'. case r of None \<Rightarrow> Ok s' | Some p \<Rightarrow> if \<not> synced (nbr s' p) then Ok s' else k p s')" for r
  proof (cases r)
    case (Some p)
    have "keeps I (\<lambda>s'. if \<not> synced (nbr s' p) then Ok s' else k p s')"
      by (intro keeps_if keeps_Ok(2) assms)
    with Some show ?thesis by simp
  qed (simp add: keeps_Ok(2))
qed

lemma trusted_rate_keeps: "keeps_snd I (trusted_rate e' p c r)"
proof (rule keeps_sndI)
  fix s y s'
  assume s: "I s" and r: "trusted_rate e' p c r s = Ok (y, s')"
  have "tables s' = tables s"
    using r by (auto simp: trusted_rate_def Let_def tables_simps split: role_t.splits option.splits if_splits)
  with s show "I s'" by (rule framed)
qed

lemma trusted_keeps [keeps_rules]: "keeps I (csync_trusted_synchronization e' p c r)"
proof (rule keepsI)
  fix s s'
  assume s: "I s" and r: "csync_trusted_synchronization e' p c r s = Ok s'"
  let ?d = "fine_diff (nbr s p)"
  obtain go s1 where 1: "trusted_rate e' p c r s = Ok (go, s1)"
    and rest: "(if go then bindR (upd_rts_res (rtimer_adjust_fine_offset (fpe e') ?d) s1) (\<lambda>s2.
            Ok (fold (\<lambda>q. upd_nbr q (\<lambda>nn. nn\<lparr>fine_diff := fine_diff nn - ?d\<rparr>)) (nbr_list e' s2) s2)) else Ok s1) = Ok s'"
    using r by (auto simp: csync_trusted_synchronization_def Let_def res_iff)
  have s1: "I s1" using keeps_sndD [OF trusted_rate_keeps s 1] .
  show "I s'"
  proof (cases go)
    case True
    then obtain s2 where 2: "upd_rts_res (rtimer_adjust_fine_offset (fpe e') ?d) s1 = Ok s2"
      and s': "s' = fold (\<lambda>q. upd_nbr q (\<lambda>nn. nn\<lparr>fine_diff := fine_diff nn - ?d\<rparr>)) (nbr_list e' s2) s2"
      using rest by (auto simp: res_iff)
    have "I s2" using keepsD [OF upd_rts_res_keeps s1 2] .
    moreover have "same_table s2 s'" unfolding s' by (rule same_table_fold) simp
    ultimately show ?thesis using measured by blast
  qed (use rest s1 in simp)
qed

subsection \<open>Timer callbacks and handlers\<close>

lemma call_func_keeps [keeps_rules]: "keeps I (call_func e cb)"
  by (rule keepsI) (cases cb; auto simp: call_func_def stable declared)

lemma discovery_keeps [keeps_rules]: "keeps I (discovery_switch e a av)"
proof -
  define nf where "nf = (if TEST_GTSP e then cb_idle else cb_election_revelation)"
  define g where "g s = (if \<not> csync_all_synced e s
                then (upd_anns (announcement_set_instr a DISCOVERY) s)\<lparr>synced_counter := 0\<rparr> else s)" for s
  have "keeps I (\<lambda>s. discovery_switch e a av s)"
    unfolding discovery_switch_def Let_def nf_def [symmetric] g_def [symmetric]
    by (intro keeps_if keeps_rules keeps_comp [of I g]) (simp_all add: g_def stable)
  then show ?thesis .
qed

lemma received_discovery_keeps [keeps_rules]: "keeps I (received_discovery_announcement e a from av sf)"
proof -
  have add: "keeps_snd I (add_to_neighbour e from (av_instr av) (av_degree av) sf)"
    by (rule keeps_sndI) (rule neighbour_added)
  define g where "g p s = (if synced (nbr s p) then s\<lparr>synced_counter := synced_counter s + 1\<rparr> else s)" for p s
  have g: "I s \<Longrightarrow> I (g p s)" for p s by (simp add: g_def stable)
  have "keeps I (\<lambda>s1. case r of None \<Rightarrow> Ok s1
        | Some p \<Rightarrow> if my_state (g p s1) = DISCOVERY then discovery_switch e a av (g p s1) else Ok (g p s1))" for r
  proof (cases r)
    case (Some p)
    have "keeps I (\<lambda>s1. if my_state (g p s1) = DISCOVERY then discovery_switch e a av (g p s1) else Ok (g p s1))"
      by (intro keeps_if keeps_comp [of I "g p"] keeps_rules g)
    with Some show ?thesis by simp
  qed (simp add: keeps_Ok(2))
  then have "keeps I (\<lambda>s. received_discovery_announcement e a from av sf s)"
    unfolding received_discovery_announcement_def Let_def g_def [symmetric]
    by (intro keeps_if keeps_rules keeps_bind_snd [OF add])
  then show ?thesis .
qed

lemma push_pool_keeps [keeps_rules]: "keeps I (push_pool_as_head av)"
  by (rule keepsI) (rule pool_pushed)

lemma revelation_in_discovery_keeps [keeps_rules]: "keeps I (revelation_in_discovery e p av)"
proof -
  have 1: "keeps I (\<lambda>s2. Ok (enter_election_revelation s2))"
    "keeps I (\<lambda>s2. Ok (enter_connection_revelation (join_polite s2)))"
    by (simp_all add: keeps_def stable)
  have 2: "keeps I (\<lambda>s2. let s3 = join_polite s2 in
             if CHs_list s3 \<noteq> []
             then Ok (enter_consensus_revelation (set_slot_of (nb_addr (nbr s3 p)) (av_degree av) s3))
             else bindR (push_pool_as_head av s3)
                    (\<lambda>s4. Ok (enter_consensus_revelation (s4\<lparr>my_cons_slot := av_degree av\<rparr>))))"
    unfolding Let_def
    by (intro keeps_if keeps_bind keeps_Ok_fun keeps_comp [of I join_polite] push_pool_keeps) (simp_all add: stable kept)
  have "keeps I (\<lambda>s. revelation_in_discovery e p av s)"
    unfolding revelation_in_discovery_def Let_def [of "polite_announcement_cancel _"]
    by (intro keeps_if keeps_comp [of I polite_announcement_cancel] keeps_comp [of I "\<lambda>s. s\<lparr>my_role := CM\<rparr>"]
        adopt_date_keeps 1 2 keeps_Ok_fun keeps_Ok) (simp_all add: stable)
  then show ?thesis .
qed

lemma revelation_in_convergence_keeps [keeps_rules]: "keeps I (revelation_in_convergence e p av)"
proof -
  have 1: "keeps I (\<lambda>s1. let s2 = (if my_role s1 = CH \<and> CBs_list s1 = []
                          then set_slot_of (nb_addr (nbr s1 p)) (av_degree av) (snd (handle_lists av p s1)) else s1)
                in Ok (enter_consensus_revelation (s2\<lparr>my_cons_slot := NUM_CONS_SLOTS + 1, my_slot_ack := 0\<rparr>)))"
    by (simp add: keeps_def stable kept)
  have "keeps I (\<lambda>s. revelation_in_convergence e p av s)"
    unfolding revelation_in_convergence_def
    by (intro keeps_if keeps_comp [of I polite_announcement_cancel] adopt_date_keeps 1 keeps_Ok) (simp_all add: stable)
  then show ?thesis .
qed

lemma received_revelation_keeps [keeps_rules]: "keeps I (received_revelation_announcement e a from av sf)"
proof -
  have "keeps I (\<lambda>s. revelation_switch e p av s)" for p
    unfolding revelation_switch_def
    by (intro keeps_if keeps_rules) (simp_all add: stable kept)
  then have "keeps I (\<lambda>s. received_revelation_announcement e a from av sf s)"
    unfolding received_revelation_announcement_def by (intro keeps_if keeps_rules)
  then show ?thesis .
qed

lemma declaration_in_election_keeps [keeps_rules]: "keeps I (declaration_in_election e a p av)"
proof -
  have 1: "keeps I (\<lambda>s1. Ok (enter_connection_revelation (s1\<lparr>CHs_list := []\<rparr>)))"
    by (simp add: keeps_def stable kept)
  have rename: "I s \<Longrightarrow> I (snd (chain_rename e p (byz_rename e p (av, s))))" for s
    using chain_renamed [OF byz_renamed [of s p av], of p "fst (byz_rename e p (av, s))"] by simp
  have 2: "keeps I (\<lambda>s. case handle_lists av p (polite_announcement_cancel s) of (r, s1) \<Rightarrow>
          bindR (if r = 0 then announcement_bump e a s1 else Ok s1) (\<lambda>s2.
            Ok (snd (chain_rename e p (byz_rename e p (av, s2))))))"
  proof (rule keepsI)
    fix s s'
    assume s: "I s" and r: "(case handle_lists av p (polite_announcement_cancel s) of (r, s1) \<Rightarrow>
          bindR (if r = 0 then announcement_bump e a s1 else Ok s1) (\<lambda>s2.
            Ok (snd (chain_rename e p (byz_rename e p (av, s2)))))) = Ok s'"
    obtain r1 s1 where h: "handle_lists av p (polite_announcement_cancel s) = (r1, s1)"
      by (cases "handle_lists av p (polite_announcement_cancel s)")
    obtain s2 where 2: "(if r1 = 0 then announcement_bump e a s1 else Ok s1) = Ok s2"
      and s': "s' = snd (chain_rename e p (byz_rename e p (av, s2)))"
      using r h by (auto simp: res_iff)
    have "I s1" using listed [of "polite_announcement_cancel s" av p] s h by (simp add: stable)
    then have "I s2" using 2 keepsD [OF keeps_bump] by (auto split: if_splits)
    then show "I s'" unfolding s' by (rule rename)
  qed
  have "keeps I (\<lambda>s. declaration_in_election e a p av s)"
    unfolding declaration_in_election_def
    by (intro keeps_if 2 adopt_date_keeps keeps_comp [of I polite_announcement_cancel] 1 keeps_Ok) (simp add: stable)
  then show ?thesis .
qed

lemma declaration_in_discovery_keeps [keeps_rules]: "keeps I (declaration_in_discovery e p av)"
proof -
  define g where "g s = join_polite (s\<lparr>my_role := CM\<rparr>)" for s
  have "keeps I (\<lambda>s. declaration_in_discovery e p av s)"
    unfolding declaration_in_discovery_def Let_def g_def [symmetric]
    by (intro keeps_if keeps_comp [of I "\<lambda>s. polite_announcement_cancel (g s)"] keeps_rules)
      (simp_all add: g_def stable kept)
  then show ?thesis .
qed

lemma received_declaration_keeps [keeps_rules]: "keeps I (received_declaration_announcement e a from av sf)"
proof -
  have 1: "keeps I (\<lambda>s1. Ok (enter_election_declaration e s1))" by (simp add: keeps_def declared)
  have "keeps I (\<lambda>s. declaration_switch e a p av s)" for p
    unfolding declaration_switch_def
    by (intro keeps_if keeps_comp [of I polite_announcement_cancel] adopt_date_keeps 1 declaration_in_discovery_keeps
        declaration_in_election_keeps keeps_Ok keeps_Ok_fun) (simp_all add: stable kept)
  then have "keeps I (\<lambda>s. received_declaration_announcement e a from av sf s)"
    unfolding received_declaration_announcement_def by (intro keeps_if with_synced_neighbour_keeps keeps_Ok)
  then show ?thesis .
qed

lemma mark_sender_keeps:
  assumes "I (snd rs)"
  shows "I (snd (mark_sender e' p role entry ps rs))"
proof -
  have role: "same_table s (update_neighbour_role e' addr r s)" for addr r s
  proof -
    have "same_table s (fold (\<lambda>k s. if nb_addr (nbr s k) = addr \<and>
                     (MOD_NEIGHBOURS e' \<longrightarrow> check_mod_neighbours e' (my_addr s) (nb_addr (nbr s k)))
                 then (if r = CH then upd_nbr k (\<lambda>n. n\<lparr>nb_role := CH\<rparr>) s
                       else if r = CB then upd_nbr k (\<lambda>n. n\<lparr>nb_role := CB\<rparr>) s
                       else s)
                 else s) qs s)" for qs
    proof (induction qs arbitrary: s)
      case (Cons k qs)
      have "same_table s (upd_nbr k (\<lambda>n. n\<lparr>nb_role := x\<rparr>) s)" for x by (rule same_table_upd_nbr) simp
      then show ?case using same_table_trans Cons.IH by (simp, blast)
    qed simp
    then show ?thesis by (simp add: update_neighbour_role_def)
  qed
  show ?thesis unfolding mark_sender_def using assms
  proof (induction ps arbitrary: rs)
    case (Cons q ps)
    obtain r s where rs: "rs = (r, s)" by (cases rs)
    let ?s = "upd_nbr p (\<lambda>n. n\<lparr>nb_role := role\<rparr>) s"
    have "same_table s ?s" by (rule same_table_upd_nbr) simp
    then have "I (update_neighbour_role e' (nb_addr (nbr s p)) role ?s)"
      using measured role Cons.prems rs by (metis snd_conv)
    then show ?case using Cons rs by simp
  qed simp
qed

lemma sender_role_keeps: "I s \<Longrightarrow> I (snd (sender_role e' p s))"
  using mark_sender_keeps [OF mark_sender_keeps [of "(CM, s)"]]
  by (simp add: sender_role_def Let_def case_prod_beta)

lemma ack_loop_keeps: "keeps I (ack_loop e' a p av qs)"
proof (induction qs)
  case Nil
  then show ?case by (simp add: keeps_Ok)
next
  case (Cons q qs)
  have "keeps I (\<lambda>s. announcement_bump e' a
                   (upd_anns (\<lambda>an. announcement_set_ref_addr a (nb_addr (nbr s p))
                        (announcement_set_degree a (av_degree av) (announcement_set_instr a (av_instr av) an)))
                     (upd_CH q (\<lambda>c. c\<lparr>ch_cons_slot := av_degree av\<rparr>) (s\<lparr>my_slot_ack := 1\<rparr>))))"
    by (rule keeps_comp [OF _ keeps_bump]) (simp add: stable kept)
  then have "keeps I (\<lambda>s. ack_loop e' a p av (q # qs) s)"
    unfolding ack_loop.simps by (intro keeps_bind keeps_if Cons.IH keeps_Ok)
  then show ?case .
qed

lemma convergence_in_convergence_keeps [keeps_rules]: "keeps I (convergence_in_convergence e a p av)"
proof (rule keepsI)
  fix s s'
  assume s: "I s" and r: "convergence_in_convergence e a p av s = Ok s'"
  obtain role s1 where sr: "sender_role e p s = (role, s1)" by (cases "sender_role e p s")
  have s1: "I s1" using sender_role_keeps [OF s, of e p] sr by simp
  show "I s'"
    using r s s1 keepsD [OF ack_loop_keeps s1]
    by (auto simp: convergence_in_convergence_def sr stable kept split: if_splits)
qed

lemma give_up_head_keeps: "I s \<Longrightarrow> I (give_up_head p av s)"
proof -
  assume "I s"
  then have "I ((s\<lparr>CBs_list := []\<rparr>)\<lparr>my_role := CM\<rparr>)" using bridges_dropped by (simp only: stable)
  moreover have "(s\<lparr>CBs_list := []\<rparr>)\<lparr>my_role := CM\<rparr> = s\<lparr>my_role := CM, CBs_list := []\<rparr>" by simp
  ultimately have "I (s\<lparr>my_role := CM, CBs_list := []\<rparr>)" by simp
  with \<open>I s\<close> show "I (give_up_head p av s)" by (simp add: give_up_head_def listed)
qed

lemma received_convergence_keeps [keeps_rules]: "keeps I (received_convergence_announcement e a from av sf)"
proof -
  define g where "g s = (polite_announcement_cancel s)\<lparr>my_sync_border := False\<rparr>" for s :: node
  have 1: "keeps I (\<lambda>s1. Ok (enter_convergence (give_up_head p av s1)))"
    "keeps I (\<lambda>s1. Ok (enter_discovery e (give_up_head p av (s1\<lparr>ref_n_CHB_degree := NUM_CONS_SLOTS + 3\<rparr>))))" for p
    by (simp_all add: keeps_def stable give_up_head_keeps)
  have "keeps I (\<lambda>s. convergence_switch e a p av s)" for p
    unfolding convergence_switch_def g_def [symmetric]
    by (intro keeps_if keeps_comp [of I polite_announcement_cancel] keeps_comp [of I g] adopt_date_keeps 1
        convergence_in_convergence_keeps keeps_Ok) (simp_all add: g_def stable)
  then have "keeps I (\<lambda>s. received_convergence_announcement e a from av sf s)"
    unfolding received_convergence_announcement_def by (intro keeps_if with_synced_neighbour_keeps keeps_Ok)
  then show ?thesis .
qed

lemma trusted_then:
  assumes "\<And>s. I s \<Longrightarrow> I (g s)" and "\<And>s. I s \<Longrightarrow> I (h s)"
  shows "keeps I (\<lambda>s. bindR (csync_trusted_synchronization e' p c r (h s)) (\<lambda>s1. Ok (g s1)))"
  using assms by (intro keeps_bind keeps_comp [of I h] trusted_keeps keeps_Ok_fun) simp_all

lemma blacklist_keeps [keeps_rules]: "keeps I (blacklist_neighbour p)"
  by (rule keepsI) (rule blacklisted_one)

lemma sync_as_bridge_keeps [keeps_rules]: "keeps I (sync_as_bridge e p av)"
proof -
  have "keeps I (\<lambda>s. sync_as_bridge e p av s)"
    unfolding sync_as_bridge_def
    by (intro keeps_if trusted_then [of _ "\<lambda>s. s"] blacklist_keeps keeps_Ok_fun) (simp_all add: stable)
  then show ?thesis .
qed

lemma sync_as_head_keeps [keeps_rules]: "keeps I (sync_as_head e p av)"
proof -
  have "keeps I (\<lambda>s. sync_as_head e p av s)"
    unfolding sync_as_head_def Let_def
    by (intro keeps_if keeps_bind keeps_comp [of I "relay_dates av"] trusted_keeps keeps_bump keeps_Ok_fun)
      (simp_all add: stable)
  then show ?thesis .
qed

lemma sync_byzantine_keeps [keeps_rules]: "keeps I (sync_byzantine e p av th)"
proof -
  have 1: "keeps I (\<lambda>s1. let s2 = (relay_all av s1)\<lparr>my_sync_border := True\<rparr> in
                  if ucast (msg_count s2) > th
                  then Ok ((polite_announcement_cancel s2)\<lparr>my_sync_border := False\<rparr>)
                  else Ok (enter_byzantine_consensus (s2\<lparr>my_sync_border := True\<rparr>)))"
    unfolding Let_def by (intro keeps_if keeps_Ok_fun) (simp_all add: stable)
  define g where "g s = s\<lparr>msg_count := msg_count s + 1\<rparr>" for s :: node
  have "keeps I (\<lambda>s. sync_byzantine e p av th s)"
    unfolding sync_byzantine_def g_def [symmetric]
    by (intro keeps_if keeps_bind keeps_comp [of I g] trusted_keeps 1 keeps_Ok keeps_Ok_fun)
      (simp_all add: stable g_def)
  then show ?thesis .
qed

lemma keeps_role:
  assumes "keeps I f" and "keeps I g" and "keeps I h"
  shows "keeps I (\<lambda>s. case my_role s of CM \<Rightarrow> f s | CH \<Rightarrow> g s | CB \<Rightarrow> h s)"
  by (rule keepsI) (use assms in \<open>auto split: role_t.splits dest: keepsD\<close>)

lemma sync_in_synchronization_keeps [keeps_rules]: "keeps I (sync_in_synchronization e p av th)"
proof -
  have "keeps I (\<lambda>s. sync_in_synchronization e p av th s)"
    unfolding sync_in_synchronization_def
    by (intro keeps_if keeps_role keeps_comp [of I "relay_dates av"] trusted_keeps sync_as_bridge_keeps
        sync_as_head_keeps sync_byzantine_keeps keeps_Ok) (simp_all add: stable)
  then show ?thesis .
qed

lemma received_synchronization_keeps [keeps_rules]: "keeps I (received_synchronization_announcement e a from av sf)"
proof -
  define g where "g s = join_polite (s\<lparr>my_role := CM\<rparr>)" for s
  have g: "I s \<Longrightarrow> I (g s)" for s by (simp add: g_def stable)
  define h where "h s = s\<lparr>my_cons_slot := av_degree av\<rparr>" for s :: node
  have h: "I s \<Longrightarrow> I (h s)" for s by (simp add: h_def stable)
  have 1: "keeps I (\<lambda>s. sync_in_discovery e p av s)" for p
    unfolding sync_in_discovery_def g_def [symmetric] h_def [symmetric]
    by (intro keeps_comp [of I g] adopt_date_keeps keeps_if keeps_bind keeps_comp [of I h] trusted_keeps push_pool_keeps
        keeps_Ok keeps_Ok_fun g h) (simp_all add: stable)
  have 2: "keeps I (\<lambda>s. sync_in_revelation e p av s)" for p
    unfolding sync_in_revelation_def
    by (intro keeps_if keeps_comp [of I polite_announcement_cancel] adopt_date_keeps keeps_Ok keeps_Ok_fun)
      (simp_all add: stable kept)
  have 3: "keeps I (\<lambda>s1. if my_state s1 = DISCOVERY then sync_in_discovery e p av s1
             else if my_state s1 = CONSENSUS_REVELATION then sync_in_revelation e p av s1
             else if my_state s1 = CONSENSUS_SYNCHRONIZATION then sync_in_synchronization e p av th s1
             else Ok s1)" for p th
    by (intro keeps_if 1 2 sync_in_synchronization_keeps keeps_Ok)
  show ?thesis
  proof (rule keepsI)
    fix s s'
    assume s: "I s" and r: "received_synchronization_announcement e a from av sf s = Ok s'"
    show "I s'"
    proof (cases "rssi_ok (packetbuf_attr ATTR_RSSI (pb s)) \<and> av_ref_addr av \<noteq> my_addr s")
      case True
      with r show ?thesis unfolding received_synchronization_announcement_def Let_def
        by (simp only: True if_True simp_thms) (rule keepsD [OF with_synced_neighbour_keeps [OF 3] s])
    next
      case False
      with r s show ?thesis unfolding received_synchronization_announcement_def Let_def by (simp only: if_False res.inject)
    qed
  qed
qed

lemma call_handler_keeps [keeps_rules]: "keeps I (call_handler e from sf ident av)"
proof (rule keepsI)
  fix s s'
  assume s: "I s" and r: "call_handler e from sf ident av s = Ok s'"
  show "I s'"
  proof (cases "announcement_heard ident (ann s)")
    case None
    then show ?thesis using r s by (simp add: call_handler_def split: if_splits)
  next
    case (Some ak)
    obtain a k where ak: "ak = (a, k)" by (cases ak)
    show ?thesis
      using r s Some ak keepsD [OF received_discovery_keeps s] keepsD [OF received_revelation_keeps s]
        keepsD [OF received_declaration_keeps s] keepsD [OF received_convergence_keeps s]
        keepsD [OF received_synchronization_keeps s]
      by (cases k) (simp_all add: call_handler_def split: if_splits)
  qed
qed

lemma adv_loop_keeps: "(\<And>ident av. keeps I (heard ident av)) \<Longrightarrow> keeps I (adv_loop e' heard n p)"
proof (induction n arbitrary: p)
  case 0
  then show ?case by (simp add: keeps_Ok)
next
  case (Suc n)
  show ?case
  proof (rule keepsI)
    fix s s'
    assume s: "I s" and "adv_loop e' heard (Suc n) p s = Ok s'"
    then obtain bs s1 where "heard (fst (dec_data e' bs)) (snd (dec_data e' bs)) s = Ok s1"
      and "adv_loop e' heard n (p + sz_data e') s1 = Ok s'"
      by (auto simp: res_iff Let_def)
    then show "I s'" using keepsD [OF Suc.prems s] keepsD [OF Suc.IH [OF Suc.prems]] by blast
  qed
qed

lemma broadcast_recv_keeps: "keeps I (broadcast_recv e from)"
proof (rule keepsI)
  fix s s'
  assume s: "I s" and "broadcast_recv e from s = Ok s'"
  then show "I s'" using keepsD [OF adv_loop_keeps [OF call_handler_keeps] s]
    unfolding broadcast_recv_def adv_packet_received_def Let_def
    by (auto simp: res_iff split: if_splits)
qed

lemma polite_recv_keeps: "keeps I (polite_recv e from)"
proof -
  have 1: "keeps I (ip_recv_dups e)"
  proof (rule keeps_framed)
    fix s s' :: node
    assume "ip_recv_dups e s = Ok s'"
    then show "tables s' = tables s"
      by (auto simp: ip_recv_dups_def res_iff Let_def adv_packet_dropped_def tables_def split: if_splits)
  qed
  have "keeps I (\<lambda>s. polite_recv e from s)"
    unfolding polite_recv_def broadcast_recv_def [symmetric] by (intro keeps_bind 1 broadcast_recv_keeps)
  then show ?thesis .
qed

lemma rtimer0_keeps: "keeps I (rtimer0_hf_callback e taccr0)"
proof (rule keepsI)
  fix s s'
  assume s: "I s" and r: "rtimer0_hf_callback e taccr0 s = Ok s'"
  show "I s'"
  proof (cases "hf_due taccr0 (rt0 s)")
    case True
    let ?s1 = "upd_rts (\<lambda>r. r\<lparr>TBCCTL4_CCIE := False\<rparr>) (set_timer_state RTIMER_JUST_EXPIRED s)"
    have s1: "I ?s1" using s by (simp add: stable)
    obtain s2 s3 where 2: "upd_rts_res (rtimer_lf_update (fpe e)) ?s1 = Ok s2"
      and 3: "call_func e (rt_func (rt0 s2)) s2 = Ok s3" and s': "s' = set_timer_state RTIMER_INACTIVE s3"
      using r True by (auto simp: rtimer0_hf_callback_def res_iff Let_def)
    have "I s3" using keepsD [OF call_func_keeps keepsD [OF upd_rts_res_keeps s1 2] 3] .
    then show ?thesis by (simp add: s' stable)
  qed (use r s in \<open>simp add: rtimer0_hf_callback_def\<close>)
qed

subsection \<open>The thread\<close>

lemma add_and_bump_keeps: "keeps I (\<lambda>s. add_and_bump e' a (g s))" if "\<And>s. I s \<Longrightarrow> I (g s)"
  unfolding add_and_bump_def by (rule keeps_comp [OF _ keeps_bump]) (simp add: stable that)

lemma connection_declaration_keeps [keeps_rules]: "keeps I (case_connection_declaration e)"
  unfolding case_connection_declaration_def
  by (intro if_schedule_keeps keeps_bind keeps_if print_status_keeps add_and_bump_keeps keeps_Ok keeps_Ok_fun)
    (simp_all add: stable)

lemma become_bridge_keeps [keeps_rules]: "keeps I (become_bridge e)"
proof (rule keepsI)
  fix s s'
  assume s: "I s" and r: "become_bridge e s = Ok s'"
  show "I s'"
  proof (cases "\<exists>p q qs. CHs_list s = p # q # qs")
    case True
    then obtain p q qs where l: "CHs_list s = p # q # qs" by blast
    have let_step: "(let x = t in F x) = Ok s' \<Longrightarrow> I t \<Longrightarrow> (\<And>x. I x \<Longrightarrow> F x = Ok s' \<Longrightarrow> I s') \<Longrightarrow> I s'"
      for t F by (simp add: Let_def)
    show ?thesis
      by (rule r [unfolded become_bridge_def l list.case, THEN let_step], simp add: stable s,
          (erule let_step, simp add: stable)+, rule keepsD [OF add_and_bump_keeps [of "\<lambda>s. s"]])
        (simp_all add: stable)
  next
    case False
    then have "become_bridge e s = Ok s" by (auto simp: become_bridge_def split: list.splits)
    with r s show ?thesis by simp
  qed
qed

lemma connection_revelation_keeps [keeps_rules]: "keeps I (case_connection_revelation e)"
proof -
  have "keeps I (\<lambda>s. case_connection_revelation e s)"
    unfolding case_connection_revelation_def
    by (intro if_schedule_keeps keeps_bind keeps_if print_status_keeps become_bridge_keeps
        keeps_comp [of I "set_timer_state RTIMER_SINGLEPASS"] connection_declaration_keeps keeps_Ok)
      (simp add: stable)
  then show ?thesis .
qed

lemma election_declaration_keeps [keeps_rules]: "keeps I (case_election_declaration e)"
  unfolding case_election_declaration_def
  by (intro if_schedule_keeps keeps_bind print_status_keeps add_and_bump_keeps connection_revelation_keeps)
    (simp add: stable)

lemma election_revelation_keeps [keeps_rules]: "keeps I (case_election_revelation e)"
  unfolding case_election_revelation_def
  by (intro if_schedule_keeps keeps_bind keeps_comp [OF _ print_status_keeps] add_and_bump_keeps
      election_declaration_keeps) (simp_all add: stable)

lemma cluster_switch_keeps: "keeps I (cluster_switch e)"
proof -
  have "keeps I (\<lambda>s. cluster_switch e s)"
    unfolding cluster_switch_def
    by (intro keeps_if election_revelation_keeps election_declaration_keeps connection_revelation_keeps
        connection_declaration_keeps keeps_Ok)
  then show ?thesis .
qed

lemma soft_reset_keeps: "keeps I (soft_reset e)"
proof -
  have "keeps I (\<lambda>s. soft_reset e s)"
    unfolding soft_reset_def Let_def
    by (rule keeps_comp [OF _ broadcast_init_keeps]) (simp add: stable)
  then show ?thesis .
qed

lemma round_start_keeps: "keeps_snd I (round_start e)"
proof -
  have "keeps_snd I (\<lambda>s. round_start e s)"
    unfolding round_start_def
    by (intro keeps_snd_bind soft_reset_keeps print_status_keeps keeps_snd_Ok) simp
  then show ?thesis .
qed

lemma sync_loop_keeps: "I s \<Longrightarrow> sync_loop e s = Ok (b, s') \<Longrightarrow> I s'"
proof (induction e s arbitrary: b s' rule: sync_loop.induct)
  case (1 e s)
  show ?case
  proof (cases "uint (ref_n_CHB_degree s) - 1 \<le> uint NUM_CONS_SLOTS")
    case False
    with 1(3,4) show ?thesis by (simp add: sync_loop.simps [of e s])
  next
    case True
    let ?sch = "schedule e 0 RTIMER_INTERVAL_REF 0 (cons_ctrl_slots e (uint (ref_n_CHB_degree s) - 1))
                 cb_synchronization_slot s"
    obtain c s1 where sch: "?sch = Ok (c, s1)"
      using True 1(4) by (cases ?sch) (auto simp: sync_loop.simps [of e s])
    have s1: "I s1" using keeps_sndD [OF schedule_keeps 1(3) sch] .
    then have s2: "I (s1\<lparr>ref_n_CHB_degree := x\<rparr>)" "I (s1\<lparr>ref_n_CHB_degree := x, radio_on := True\<rparr>)" for x
      by (simp_all add: stable)
    note step = 1(4) [unfolded sync_loop.simps [of e s]]
    show ?thesis
    proof (cases c)
      case ok: True
      show ?thesis
      proof (cases "uint (ref_n_CHB_degree s1) - 1 < uint NUM_CONS_SLOTS")
        case wait: True
        with True sch ok step s1 show ?thesis by simp
      next
        case False
        with True sch ok step have
          "sync_loop e (s1\<lparr>ref_n_CHB_degree := ref_n_CHB_degree s1 + 1\<rparr>) = Ok (b, s')" by simp
        from 1(1) [OF True sch _ ok False s2(1) this] show ?thesis by simp
      qed
    next
      case False
      with True sch step have
        "sync_loop e (s1\<lparr>ref_n_CHB_degree := ref_n_CHB_degree s1 + 1, radio_on := True\<rparr>) = Ok (b, s')" by simp
      from 1(2) [OF True sch _ False s2(2) this] show ?thesis by simp
    qed
  qed
qed

lemma sync_prepare_keeps: "I s \<Longrightarrow> I (sync_prepare s)"
  by (simp add: sync_prepare_def Let_def stable kept)

lemma keeps_role_fun:
  "(\<And>s. I s \<Longrightarrow> I (f s)) \<Longrightarrow> (\<And>s. I s \<Longrightarrow> I (g s)) \<Longrightarrow> (\<And>s. I s \<Longrightarrow> I (h s)) \<Longrightarrow> I s \<Longrightarrow>
   I (case my_role s of CM \<Rightarrow> f s | CH \<Rightarrow> g s | CB \<Rightarrow> h s)"
  by (cases "my_role s") simp_all

lemma sync_begin_keeps: "keeps I (sync_begin e)"
proof -
  have "keeps I (\<lambda>s. sync_begin e s)"
    unfolding sync_begin_def Let_def
    by (intro keeps_bind keeps_comp [OF _ print_status_keeps] keeps_Ok_fun)
      (auto simp: stable kept intro: keeps_role_fun)
  then show ?thesis .
qed

lemma sync_after_loop_keeps: "I (snd r) \<Longrightarrow> I (snd (sync_after_loop r))"
  by (cases r) (simp add: sync_after_loop_def)

lemma sync_iteration_keeps: "keeps_snd I (sync_iteration e)"
proof -
  have loop: "keeps_snd I (\<lambda>s2. bindR (sync_loop e s2) (\<lambda>r. Ok (sync_after_loop r)))"
  proof (rule keeps_sndI)
    fix s y s'
    assume s: "I s" and "bindR (sync_loop e s) (\<lambda>r. Ok (sync_after_loop r)) = Ok (y, s')"
    then obtain b s1 where "sync_loop e s = Ok (b, s1)" and y: "sync_after_loop (b, s1) = (y, s')"
      by (auto simp: res_iff)
    then have "I s1" using sync_loop_keeps [OF s] by blast
    then show "I s'" using sync_after_loop_keeps [of "(b, s1)"] y by simp
  qed
  have "keeps_snd I (\<lambda>s. sync_iteration e s)"
    unfolding sync_iteration_def
    by (intro keeps_snd_comp [of I sync_prepare] if_schedule_keeps_snd keeps_snd_bind sync_begin_keeps loop
        keeps_snd_Ok sync_prepare_keeps)
  then show ?thesis .
qed

lemma sync_iterations_keeps: "keeps_snd I (sync_iterations e)"
proof (rule keeps_sndI)
  fix s y s'
  assume "I s" and "sync_iterations e s = Ok (y, s')"
  moreover have "e' = e \<Longrightarrow> I s \<Longrightarrow> sync_iterations e' s = Ok (y, s') \<Longrightarrow> I s'" for e'
  proof (induction e' s arbitrary: y s' rule: sync_iterations.induct)
    case (1 e' s)
    note e' = 1(2) and s = 1(3) and r = 1(4) [unfolded 1(2) sync_iterations.simps [of e s]]
    show ?case
    proof (cases "cons_ctrl_counter s < NUM_CONS_CTRL_ITERATIONS")
      case False
      then show ?thesis using r keeps_sndD [OF round_start_keeps s] by simp
    next
      case True
      then obtain z s1 where it: "sync_iteration e s = Ok (z, s1)"
        using r by (cases "sync_iteration e s") auto
      have s1: "I (next_iteration s1)" "I s1"
        using keeps_sndD [OF sync_iteration_keeps s it] by (simp_all add: stable)
      show ?thesis
      proof (cases z)
        case None
        then have "sync_iterations e' (next_iteration s1) = Ok (y, s')" using r True it e' by simp
        from 1(1) [OF True _ _ None e' s1(1) this] it e' show ?thesis by simp
      next
        case (Some yp)
        then show ?thesis using r True it s1 by simp
      qed
    qed
  qed
  ultimately show "I s'" by simp
qed

lemma byz_inject_keeps: "keeps I (byz_inject e)"
proof (rule keepsI)
  fix s s'
  assume s: "I s" and r: "byz_inject e s = Ok s'"
  show "I s'"
    using r s keepsD [OF upd_rts_res_keeps s]
    by (auto simp: byz_inject_def res_iff stable split: if_splits list.splits)
qed

lemma send_in_slot_keeps: "keeps I (send_in_slot e)"
proof -
  have "keeps I (\<lambda>s. send_in_slot e s)"
    unfolding send_in_slot_def
    by (intro keeps_bind keeps_comp [OF _ byz_inject_keeps] keeps_comp [OF _ keeps_bump] keeps_Ok_fun)
      (simp_all add: stable)
  then show ?thesis .
qed

lemma byz_step_keeps: "keeps I (byz_step e)"
proof -
  define g where "g s = (let s1 = polite_announcement_set_interval (BYZANTINE_INTERVAL e (uint (my_placing s))) s in
      if msg_count s1 > 1
      then upd_anns (announcement_add_value synchronization_announcement) (byz_announce e s1) else s1)" for s
  have step: "byz_step e s = (if my_role (g s) = CB
         then announcement_bump e synchronization_announcement
                (upd_anns (announcement_set_instr synchronization_announcement BYZANTINE_CONSENSUS)
                  ((g s)\<lparr>temp_state := BYZANTINE_CONSENSUS\<rparr>))
         else Ok (g s))" for s by (simp add: byz_step_def g_def Let_def)
  have "keeps I (\<lambda>s. byz_step e s)" unfolding step
    by (intro keeps_if keeps_comp [OF _ keeps_bump] keeps_Ok_fun) (simp_all add: g_def Let_def stable)
  then show ?thesis .
qed

lemma sync_continue_keeps: "keeps_snd I (sync_continue e)"
proof (rule keeps_sndI)
  fix s y s'
  assume s: "I s" and r: "sync_continue e s = Ok (y, s')"
  let ?s = "s\<lparr>ref_n_CHB_degree := ref_n_CHB_degree s + 1\<rparr>"
  obtain b s1 where loop: "sync_loop e ?s = Ok (b, s1)"
    using r by (auto simp: sync_continue_def res_iff)
  have "I s1" using sync_loop_keeps [OF _ loop] s by (simp add: stable)
  moreover obtain z s2 where z: "sync_after_loop (b, s1) = (z, s2)" by (cases "sync_after_loop (b, s1)")
  ultimately have s2: "I s2" using sync_after_loop_keeps [of "(b, s1)"] by simp
  show "I s'"
  proof (cases z)
    case None
    then have "sync_iterations e (next_iteration s2) = Ok (y, s')" using r loop z by (simp add: sync_continue_def)
    from keeps_sndD [OF sync_iterations_keeps _ this] s2 show ?thesis by (simp add: stable)
  next
    case (Some yp)
    then show ?thesis using r loop z s2 by (simp add: sync_continue_def)
  qed
qed

lemma byz_loop_keeps: "keeps_snd I (byz_loop e)"
proof -
  have "keeps_snd I (\<lambda>s. byz_loop e s)"
    unfolding byz_loop_def
    by (intro keeps_snd_if keeps_snd_bind byz_step_keeps keeps_snd_Ok sync_continue_keeps)
  then show ?thesis .
qed

lemma resume_sync_slot_keeps: "keeps_snd I (resume_sync_slot e)"
proof -
  define g where "g s = s\<lparr>radio_on := True, this_sync_slot := ref_n_CHB_degree s\<rparr>" for s :: node
  have "keeps_snd I (\<lambda>s. resume_sync_slot e s)"
    unfolding resume_sync_slot_def Let_def g_def [symmetric]
    by (intro keeps_snd_if keeps_snd_bind keeps_comp [of I g] keeps_snd_comp [of I g] send_in_slot_keeps byz_loop_keeps
        sync_continue_keeps) (simp_all add: g_def stable)
  then show ?thesis .
qed

lemma resume_byzantine_keeps: "keeps_snd I (resume_byzantine e)"
proof -
  have "keeps_snd I (\<lambda>s. resume_byzantine e s)"
    unfolding resume_byzantine_def
    by (intro keeps_snd_bind keeps_if keeps_comp [of I "byz_announce e"] keeps_bump keeps_Ok byz_loop_keeps)
      (simp add: stable)
  then show ?thesis .
qed

lemma idle_broadcast_keeps:
  "keeps I (\<lambda>s2. if IDLE_BROADCAST e
                 then broadcast_announcement_init LOGICAL_CHANNEL (MIN_INTERVAL e) (MIN_INTERVAL e) (MAX_INTERVAL e)
                        (upd_anns (announcement_add_value discovery_announcement)
                          (announce e discovery_announcement (my_state s2) (cons_ctrl_counter s2) (d_of_int (fpe e) 1)
                             (Some (my_addr s2)) (s2\<lparr>radio_on := True\<rparr>)))
                 else Ok s2)"
  by (intro keeps_if keeps_comp [OF _ broadcast_init_keeps] keeps_Ok) (simp add: stable)

lemma resume_sync_end_keeps: "keeps_snd I (resume_sync_end e)"
proof (rule keeps_sndI)
  fix s y s'
  assume s: "I s" and r: "resume_sync_end e s = Ok (y, s')"
  have 1: "keeps_snd I (\<lambda>s1. sync_iterations e (next_iteration s1))"
    by (rule keeps_snd_comp [OF _ sync_iterations_keeps]) (simp add: stable)
  have "keeps_snd I (if_schedule e RTIMER_DATE c f cb_discovery
       (\<lambda>s1. bindR (csync_print_status s1) (\<lambda>s2.
          bindR (if IDLE_BROADCAST e
                 then broadcast_announcement_init LOGICAL_CHANNEL (MIN_INTERVAL e) (MIN_INTERVAL e) (MAX_INTERVAL e)
                        (upd_anns (announcement_add_value discovery_announcement)
                          (announce e discovery_announcement (my_state s2) (cons_ctrl_counter s2) (d_of_int (fpe e) 1)
                             (Some (my_addr s2)) (s2\<lparr>radio_on := True\<rparr>)))
                 else Ok s2) (\<lambda>s3. Ok (Y_IDLE, s3))))
       (\<lambda>s1. sync_iterations e (next_iteration s1)))" for c f
    by (intro if_schedule_keeps_snd keeps_snd_bind print_status_keeps idle_broadcast_keeps 1 keeps_snd_Ok)
  from keeps_sndD [OF this s r [unfolded resume_sync_end_def]] show "I s'" .
qed

lemma resume_idle_keeps: "keeps_snd I (resume_idle e)"
proof -
  have "keeps_snd I (\<lambda>s. resume_idle e s)"
    unfolding resume_idle_def by (rule keeps_snd_comp [OF _ sync_iterations_keeps]) (simp add: stable)
  then show ?thesis .
qed

lemma conv_done_keeps: "keeps_snd I (conv_done e)"
proof -
  have "keeps_snd I (\<lambda>s. conv_done e s)"
    unfolding conv_done_def by (intro keeps_snd_if keeps_snd_Ok sync_iterations_keeps)
  then show ?thesis .
qed

lemma resume_conv_end_keeps: "keeps_snd I (resume_conv_end e)"
  unfolding resume_conv_end_def
  by (intro if_schedule_keeps_snd keeps_snd_bind print_status_keeps keeps_if add_and_bump_keeps sync_iterations_keeps
      keeps_Ok keeps_snd_Ok) (simp_all add: stable)

lemma conv_slot_send_keeps: "keeps I (conv_slot_send e)"
  by (rule keepsI)
    (auto simp: conv_slot_send_def Let_def stable dest!: keepsD [OF keeps_bump, rotated] split: if_splits)

lemma conv_loop_keeps: "I s \<Longrightarrow> conv_loop e s = Ok (y, s') \<Longrightarrow> I s'"
proof (induction s rule: measure_induct_rule [of "\<lambda>s. 7 - unat (my_cons_slot s)"])
  case (less s)
  note s = less.prems(1) and r = less.prems(2) [unfolded conv_loop.simps [of e s]]
  show ?case
  proof (cases "my_cons_slot s \<le> NUM_CONS_SLOTS \<and> \<not> (my_role s = CH \<and> CHs_list s = [])")
    case False
    have radio: "I (s\<lparr>radio_on := False\<rparr>)" using s by (simp add: stable)
    show ?thesis
    proof (cases "my_cons_slot s \<le> NUM_CONS_SLOTS")
      case True
      with False r have "conv_done e (s\<lparr>radio_on := False\<rparr>) = Ok (y, s')" by simp
      from keeps_sndD [OF conv_done_keeps radio this] show ?thesis .
    next
      case no: False
      with r have "conv_done e s = Ok (y, s')" by simp
      from keeps_sndD [OF conv_done_keeps s this] show ?thesis .
    qed
  next
    case True
    let ?sch = "schedule e 0 RTIMER_INTERVAL_REF 0 (cons_ctrl_slots e (uint (my_cons_slot s))) cb_convergence_slot s"
    obtain b s1 where sch: "?sch = Ok (b, s1)" using True r by (cases ?sch) auto
    have s1: "I s1" using keeps_sndD [OF schedule_keeps s sch] .
    have slot: "my_cons_slot s1 = my_cons_slot s" using schedule_keeps_slots [OF sch] by simp
    show ?thesis
    proof (cases b)
      case yes: True
      then obtain s2 where 2: "conv_slot_send e s1 = Ok s2"
        and 3: "(if my_cons_slot s2 < NUM_CONS_SLOTS then Ok (Y_CONV_SLOT, s2) else conv_done e s2) = Ok (y, s')"
        using r True sch by (auto simp: res_iff)
      have "I s2" using keepsD [OF conv_slot_send_keeps s1 2] .
      then show ?thesis using 3 keeps_sndD [OF conv_done_keeps] by (auto split: if_splits)
    next
      case False
      then have "conv_loop e (s1\<lparr>my_cons_slot := my_cons_slot s1 + 1\<rparr>) = Ok (y, s')" using r True sch by auto
      moreover have "uint (my_cons_slot s) \<le> 6" using True by (simp add: word_le_def)
      ultimately show ?thesis
        using less.IH [of "s1\<lparr>my_cons_slot := my_cons_slot s1 + 1\<rparr>"] s1 slot by (simp add: stable slot_step_decreases)
    qed
  qed
qed

lemma resume_conv_slot_keeps: "keeps_snd I (resume_conv_slot e)"
proof -
  define g where "g s = (if my_role s = CB
      then s\<lparr>my_slot_ack := fold (\<lambda>p ack. ack * ch_cons_slot (the_CH s p)) (CHs_list s) (my_slot_ack s)\<rparr> else s)" for s
  have g: "I s \<Longrightarrow> I (g s)" for s by (simp add: g_def stable)
  have loop: "keeps_snd I (conv_loop e)" by (rule keeps_sndI) (rule conv_loop_keeps)
  have next_slot: "keeps_snd I (\<lambda>s. conv_loop e (s\<lparr>my_cons_slot := my_cons_slot s + 1\<rparr>))"
    by (rule keeps_snd_comp [OF _ loop]) (simp add: stable)
  have "keeps_snd I (\<lambda>s. resume_conv_slot e s)"
    unfolding resume_conv_slot_def Let_def g_def [symmetric]
    by (intro keeps_snd_if keeps_snd_comp [OF _ if_schedule_keeps_snd [OF conv_done_keeps next_slot]]
        keeps_snd_comp [of I g, OF _ next_slot]) (simp_all add: g stable)
  then show ?thesis .
qed

lemma conv_start_keeps: "keeps_snd I (conv_start e)"
proof -
  have prep: "I s \<Longrightarrow> I (conv_prepare s)" for s
    by (simp add: conv_prepare_def Let_def stable kept)
  have ann: "I s \<Longrightarrow> I (conv_announce e s)" for s
    by (auto simp: conv_announce_def Let_def stable kept split: role_t.split)
  have loop: "keeps_snd I (conv_loop e)" by (rule keeps_sndI) (rule conv_loop_keeps)
  have body: "keeps_snd I (\<lambda>s2. let s3 = conv_announce e s2 in if my_role s3 \<noteq> CM then conv_loop e s3 else conv_done e s3)"
    unfolding Let_def by (intro keeps_snd_if keeps_snd_comp [of I "conv_announce e"] ann loop conv_done_keeps)
  have "keeps_snd I (\<lambda>s. conv_start e s)"
    unfolding conv_start_def
    by (intro keeps_snd_comp [of I conv_prepare] if_schedule_keeps_snd keeps_snd_bind print_status_keeps body
        conv_done_keeps prep)
  then show ?thesis .
qed

lemma gtsp_idle_keeps: "keeps_snd I (gtsp_idle e)"
proof -
  have body: "keeps I (gtsp_idle_body e)"
  proof -
    have "keeps I (\<lambda>s. gtsp_idle_body e s)"
      unfolding gtsp_idle_body_def by (intro keeps_bind print_status_keeps idle_broadcast_keeps)
    then show ?thesis .
  qed
  have "keeps_snd I (\<lambda>s. gtsp_idle e s)"
    unfolding gtsp_idle_def
    by (intro keeps_snd_if if_schedule_keeps_snd keeps_snd_bind body keeps_snd_Ok round_start_keeps
        keeps_snd_comp [of I next_iteration]) (simp_all add: stable)
  then show ?thesis .
qed

lemma clustering_keeps: "keeps_snd I (clustering e)"
proof -
  have "keeps_snd I (\<lambda>s. clustering e s)"
    unfolding clustering_def
    by (intro keeps_snd_if keeps_snd_bind cluster_switch_keeps keeps_snd_Ok gtsp_idle_keeps conv_start_keeps)
  then show ?thesis .
qed

lemma thread_resume_keeps: "keeps_snd I (thread_resume e y)"
proof -
  have "keeps_snd I (\<lambda>s. resume_gtsp_idle e s)"
    unfolding resume_gtsp_idle_def by (rule keeps_snd_comp [OF _ gtsp_idle_keeps]) (simp add: stable)
  then have "keeps_snd I (\<lambda>s. thread_resume e y s)"
    unfolding thread_resume_def
    using clustering_keeps resume_conv_slot_keeps resume_conv_end_keeps sync_iterations_keeps resume_sync_slot_keeps
      resume_byzantine_keeps resume_sync_end_keeps resume_idle_keeps
    by (cases y) (simp_all only: yield_point.case)
  then show ?thesis .
qed

end

end
