(* ===== verification/CSync_Reach.thy ===== *)
theory CSync_Reach
  imports CSync_Invariant Cluster_Laws
begin

text \<open>
  The states that a C-sync node can reach, and two invariants of them: the neighbour table (in the builds
  without the test code that forges addresses or degrees) and the lists of cluster heads, bridges and
  blacklisted nodes (in every build). Both are interpretations of \<open>node_invariant\<close>.
\<close>

section \<open>The neighbour table is an invariant\<close>

text \<open>The builds without the test code that renames neighbours or adds to the degree.\<close>

definition regular_build :: "'e cenv_scheme \<Rightarrow> bool" where
  "regular_build e \<longleftrightarrow> \<not> TEST_BYZ e \<and> \<not> (MOD_NEIGHBOURS e \<and> MOD_TYPE e = 2)"

lemma table_inv_tables: "fst (tables s') = fst (tables s) \<Longrightarrow> table_inv e s' = table_inv e s"
  by (simp add: tables_def table_inv_def nbr_def nbr_list_def)

lemma table_inv_degree:
  assumes "table_inv e s"
  shows "unat (my_degree s) \<le> MAX_DEGREE"
proof -
  have d: "distinct (nbr_list e s)" "set (nbr_list e s) \<subseteq> memb_used (neighbour_memb s)"
    using assms by (auto simp: table_inv_def nbr_list_def)
  have "length (nbr_list e s) = card (set (nbr_list e s))" using d(1) by (simp add: distinct_card)
  also have "\<dots> \<le> card {..<mnum (neighbour_memb s)}"
    using d(2) memb_used_bound [of "neighbour_memb s"] by (intro card_mono) auto
  finally show ?thesis using assms by (simp add: table_inv_def)
qed

lemma handle_lists_table: "fst (tables (snd (handle_lists av p s))) = fst (tables s)"
  by (simp add: handle_lists_def Let_def tables_def case_prod_beta split: option.split)

lemma init_convergence_table: "fst (tables (init_consensus_convergence s)) = fst (tables s)"
  by (simp add: init_consensus_convergence_def Let_def tables_def upd_anns_def case_prod_beta)

lemma blacklist_table: "blacklist_neighbour p s = Ok s' \<Longrightarrow> fst (tables s') = fst (tables s)"
  by (auto simp: blacklist_neighbour_def tables_def enter_byzantine_consensus_def poll_c_gtsp_process_def
      split: prod.splits option.splits)

lemma push_pool_table: "push_pool_as_head av s = Ok s' \<Longrightarrow> fst (tables s') = fst (tables s)"
  by (auto simp: push_pool_as_head_def tables_def split: prod.splits option.splits)

lemma regular_declaration:
  assumes "regular_build e"
  shows "tables (enter_election_declaration e s) = tables s"
proof -
  have off: "TEST_BYZ e = False" "(MOD_NEIGHBOURS e \<and> MOD_TYPE e = 2) = False"
    using assms by (auto simp: regular_build_def)
  show ?thesis unfolding enter_election_declaration_def csync_update_placing_def off if_False Let_def
    by (simp add: tables_simps)
qed

interpretation ti: node_invariant e "\<lambda>s. regular_build e \<longrightarrow> table_inv e s" for e :: "'e cenv_scheme"
proof (unfold_locales, goal_cases)
  case (1 s' s)
  then show ?case using table_inv_tables [of s' s e] by simp
next
  case (2 s s')
  then show ?case using same_table_inv by blast
next
  case (3 s addr state degree sf r s')
  then show ?case using add_to_neighbour_inv by blast
next
  case (4 s)
  then show ?case using table_inv_tables [of "enter_election_declaration e s" s e] regular_declaration [of e s] by simp
next
  case (5 s av p)
  then show ?case using table_inv_tables [OF handle_lists_table, of e av p s] by simp
next
  case (6 s p f)
  then show ?case using table_inv_tables [of "upd_CH p f s" s e] by (simp add: tables_def upd_CH_def)
next
  case (7 s)
  then show ?case using table_inv_tables [of "s\<lparr>CHs_list := []\<rparr>" s e] by (simp add: tables_def)
next
  case (8 s)
  then show ?case using table_inv_tables [of "s\<lparr>CBs_list := []\<rparr>" s e] by (simp add: tables_def)
next
  case (9 s)
  then show ?case using table_inv_tables [OF init_convergence_table, of e s] by simp
next
  case (10 s av s')
  then show ?case using table_inv_tables [OF push_pool_table, of av s s' e] by simp
next
  case (11 s p s')
  then show ?case using table_inv_tables [OF blacklist_table, of p s s' e] by simp
next
  case (12 s p av)
  then show ?case by (simp add: byz_rename_def regular_build_def)
next
  case (13 s p av)
  then show ?case by (simp add: chain_rename_def regular_build_def)
qed

section \<open>The lists of heads, bridges and blacklisted nodes\<close>

definition pool_sub :: "nat \<Rightarrow> 'a memb \<Rightarrow> ptr list \<Rightarrow> bool" where
  "pool_sub n m ps \<longleftrightarrow> memb_ok m \<and> mnum m = n \<and> distinct ps \<and> set ps \<subseteq> memb_used m"

definition lists_inv :: "node \<Rightarrow> bool" where
  "lists_inv s \<longleftrightarrow>
     pool_sub NUM_CH_MAX (CHs_memb s) (CHs_list s) \<and>
     pool_sub NUM_CB_MAX (CBs_memb s) (CBs_list s) \<and> length (CBs_list s) \<le> NUM_CH_MAX \<and>
     pool_sub NUM_BL_MAX (bl_memb s) (blacklist s)"

lemma pool_sub_length: "pool_sub n m ps \<Longrightarrow> length ps \<le> n"
  unfolding pool_sub_def
  by (metis card_lessThan card_mono distinct_card finite_lessThan memb_used_bound subset_trans)

lemma pool_sub_set_block [simp]: "pool_sub n (set_block p f m) ps = pool_sub n m ps"
  using set_block_ok [of m p f] by (auto simp: pool_sub_def memb_ok_def set_block_def memb_used_def)

lemma pool_sub_Nil: "pool_sub n m ps \<Longrightarrow> pool_sub n m []"
  by (simp add: pool_sub_def)

lemma pool_sub_alloc:
  assumes "pool_sub n m ps" and "memb_alloc m = (Some p, m')"
  shows "pool_sub n m' ps" and "p \<notin> set ps" and "p \<in> memb_used m'"
  using mb.alloc_Some [of m p m'] assms by (auto simp: pool_sub_def)

lemma pool_sub_push:
  assumes "pool_sub n m ps" and "memb_alloc m = (Some p, m')"
  shows "pool_sub n m' (seq_push p ps)"
  using pool_sub_alloc [OF assms] by (auto simp: pool_sub_def seq_push_def)

lemma pool_sub_drop_last:
  assumes "pool_sub n m ps" and "ps \<noteq> []"
  shows "pool_sub n (snd (memb_free m (last ps))) (butlast ps)"
proof -
  have d: "distinct (butlast ps)" "last ps \<notin> set (butlast ps)"
    using assms distinct_butlast distinct_butlast_last by (auto simp: pool_sub_def)
  have "set (butlast ps) \<subseteq> set ps" by (auto dest: in_set_butlastD)
  then show ?thesis using assms(1) d mb.free_used [of m "last ps"] by (auto simp: pool_sub_def)
qed

lemma set_seq_insert: "set (seq_insert q p ps) \<subseteq> insert p (set ps)"
  by (induction ps) auto

lemma distinct_seq_insert: "distinct ps \<Longrightarrow> p \<notin> set ps \<Longrightarrow> distinct (seq_insert q p ps)"
proof (induction ps)
  case (Cons x ps)
  then show ?case using set_seq_insert [of q p ps] by auto
qed simp

lemma length_seq_insert: "length (seq_insert q p ps) \<le> Suc (length ps)"
  by (induction ps) auto

lemma place_at_pool:
  assumes "pool_sub n m ps" and "p \<notin> set ps" and "p \<in> memb_used m"
  shows "pool_sub n m (place_at k p ps) \<and> length (place_at k p ps) \<le> Suc (length ps)"
proof (cases "k = 1")
  case True
  then show ?thesis using assms by (auto simp: place_at_def seq_push_def pool_sub_def)
next
  case False
  show ?thesis
  proof (cases "find_before ps k")
    case None
    then show ?thesis using False assms(1) by (simp add: place_at_def)
  next
    case (Some q)
    then have "place_at k p ps = seq_insert q p ps" using False by (simp add: place_at_def)
    then show ?thesis
      using assms set_seq_insert [of q p ps] distinct_seq_insert [of ps p q] length_seq_insert [of q p ps]
      by (auto simp: pool_sub_def)
  qed
qed

lemma alloc_slot_pool:
  assumes "pool_sub n m ps" and "length ps \<le> NUM_CH_MAX" and "alloc_slot stopped ps m = Some (ps1, m1, r)"
  shows "case r of None \<Rightarrow> pool_sub n m1 ps1 \<and> length ps1 \<le> NUM_CH_MAX
    | Some p \<Rightarrow> pool_sub n m1 ps1 \<and> p \<notin> set ps1 \<and> p \<in> memb_used m1 \<and> length ps1 < NUM_CH_MAX"
proof (cases "length ps < NUM_CH_MAX")
  case True
  then have a: "memb_alloc m = (r, m1)" "ps1 = ps" using assms(3) by (auto simp: alloc_slot_def split: prod.splits)
  show ?thesis
  proof (cases r)
    case None
    then have "m1 = m" using a memb_alloc_None by blast
    with None a assms show ?thesis by simp
  next
    case (Some p)
    then show ?thesis using a True pool_sub_alloc [OF assms(1), of p m1] by simp
  qed
next
  case False
  let ?m = "snd (memb_free m (last ps))"
  have ne: "ps \<noteq> []" using False by auto
  have a: "memb_alloc ?m = (r, m1)" "ps1 = butlast ps"
    using assms(3) False by (auto simp: alloc_slot_def split: prod.splits if_splits)
  note sub = pool_sub_drop_last [OF assms(1) ne]
  have len: "length (butlast ps) < NUM_CH_MAX" using assms(2) ne by (cases ps) auto
  show ?thesis
  proof (cases r)
    case None
    then have "m1 = ?m" using a memb_alloc_None by blast
    with None a sub len show ?thesis by simp
  next
    case (Some p)
    then show ?thesis using a len pool_sub_alloc [OF sub, of p m1] by simp
  qed
qed

lemma insert_entry_pool:
  assumes "pool_sub n m ps" and "length ps \<le> NUM_CH_MAX" and "insert_entry nb c ps m = (ps', m')"
  shows "pool_sub n m' ps' \<and> length ps' \<le> NUM_CH_MAX"
proof (cases "find_position m nb ps 1")
  case (Inl u)
  then show ?thesis using assms by (simp add: insert_entry_def)
next
  case (Inr pq)
  obtain k stopped where pq: "pq = (k, stopped)" by (cases pq)
  show ?thesis
  proof (cases "alloc_slot stopped ps m")
    case None
    then show ?thesis using assms Inr pq by (simp add: insert_entry_def)
  next
    case (Some x)
    obtain ps1 m1 r where x: "x = (ps1, m1, r)" by (cases x)
    note al = alloc_slot_pool [OF assms(1,2) Some [unfolded x]]
    show ?thesis
    proof (cases r)
      case None
      then show ?thesis using assms(3) Inr pq Some x al by (simp add: insert_entry_def)
    next
      case r: (Some p)
      then have "ps' = place_at k p ps1" "m' = set_block p (\<lambda>_. c) m1"
        using assms(3) Inr pq Some x by (simp_all add: insert_entry_def)
      then show ?thesis using al r place_at_pool [of n m1 ps1 p k] by simp
    qed
  qed
qed

lemma handle_lists_lists:
  assumes "lists_inv s"
  shows "lists_inv (snd (handle_lists av p s))"
proof (cases "my_state s = ELECTION_DECLARATION \<or> my_state s = CONSENSUS_CONVERGENCE")
  case heads: True
  have sub: "pool_sub NUM_CH_MAX (CHs_memb s) (CHs_list s)" using assms by (simp add: lists_inv_def)
  note len = pool_sub_length [OF sub]
  show ?thesis
  proof (cases "CHs_list s = []")
    case True
    show ?thesis
    proof (cases "memb_alloc (CHs_memb s)")
      case (Pair r m1)
      then show ?thesis
      proof (cases r)
        case None
        then have "m1 = CHs_memb s" using Pair memb_alloc_None by blast
        then show ?thesis using assms heads True Pair None by (auto simp: handle_lists_def Let_def lists_inv_def)
      next
        case (Some q)
        then have "pool_sub NUM_CH_MAX m1 (seq_push q [])" using pool_sub_push [OF sub] Pair True by simp
        then show ?thesis using assms heads True Pair Some by (auto simp: handle_lists_def Let_def lists_inv_def)
      qed
    qed
  next
    case False
    let ?i = "insert_entry (nbr s p) (fill_chb (my_role s) (my_addr s) (my_degree s) av (nbr s p)) (CHs_list s) (CHs_memb s)"
    obtain ps m where i: "?i = (ps, m)" by (cases ?i)
    from insert_entry_pool [OF sub len i] show ?thesis
      using assms heads False i by (auto simp: handle_lists_def Let_def lists_inv_def)
  qed
next
  case other: False
  have sub: "pool_sub NUM_CB_MAX (CBs_memb s) (CBs_list s)" and len: "length (CBs_list s) \<le> NUM_CH_MAX"
    using assms by (simp_all add: lists_inv_def)
  show ?thesis
  proof (cases "my_state s = CONNECTION_DECLARATION")
    case False
    then show ?thesis using other assms by (simp add: handle_lists_def Let_def)
  next
    case bridges: True
    show ?thesis
    proof (cases "CBs_list s = []")
      case True
      show ?thesis
      proof (cases "memb_alloc (CBs_memb s)")
        case (Pair r m1)
        then show ?thesis
        proof (cases r)
          case None
          then have "m1 = CBs_memb s" using Pair memb_alloc_None by blast
          then show ?thesis using assms bridges True Pair None by (auto simp: handle_lists_def Let_def lists_inv_def)
        next
          case (Some q)
          then have "pool_sub NUM_CB_MAX m1 (seq_push q [])" using pool_sub_push [OF sub] Pair True by simp
          then show ?thesis
            using assms bridges True Pair Some by (auto simp: handle_lists_def Let_def lists_inv_def seq_push_def)
        qed
      qed
    next
      case False
      let ?i = "insert_entry (nbr s p) (fill_chb (my_role s) (my_addr s) (my_degree s) av (nbr s p)) (CBs_list s) (CBs_memb s)"
      obtain ps m where i: "?i = (ps, m)" by (cases ?i)
      from insert_entry_pool [OF sub len i] show ?thesis
        using assms bridges False i by (auto simp: handle_lists_def Let_def lists_inv_def)
    qed
  qed
qed

lemma heads_of_bridges_pool:
  "pool_sub n m ps \<Longrightarrow> heads_of_bridges bs ps m = (c, ps', m') \<Longrightarrow> pool_sub n m' ps'"
proof (induction bs arbitrary: ps m)
  case (Cons b bs)
  show ?case
  proof (cases "find_head (n_CHB_addr_A b) ps m")
    case (Some p)
    then have "heads_of_bridges bs ps (set_block p (\<lambda>c. c\<lparr>n_CHB_addr_B := ch_addr b\<rparr>) m) = (c, ps', m')"
      using Cons.prems(2) by simp
    from Cons.IH [OF _ this] Cons.prems(1) show ?thesis by simp
  next
    case None
    show ?thesis
    proof (cases "memb_alloc m")
      case (Pair r m1)
      show ?thesis
      proof (cases r)
        case none: None
        then have "m1 = m" using Pair memb_alloc_None by blast
        then show ?thesis using Cons.prems None none Pair by simp
      next
        case (Some p)
        then have "pool_sub n m1 (seq_push p ps)" using pool_sub_push [OF Cons.prems(1)] Pair by simp
        then have "pool_sub n (set_block p f m1) (seq_push p ps)" for f by simp
        from Cons.IH [OF this] show ?thesis using Cons.prems(2) None Some Pair by simp
      qed
    qed
  qed
qed simp

lemma lists_inv_tables: "snd (tables s') = snd (tables s) \<Longrightarrow> lists_inv s' = lists_inv s"
  by (simp add: tables_def lists_inv_def)

lemma init_convergence_lists:
  assumes "lists_inv s"
  shows "lists_inv (init_consensus_convergence s)"
proof -
  let ?h = "heads_of_bridges (map (the_CB s) (CBs_list s)) [] (memb_init chb_zero (CHs_memb s))"
  obtain c ps m where h: "?h = (c, ps, m)" by (cases ?h)
  have "mnum (CHs_memb s) = NUM_CH_MAX" using assms by (simp add: lists_inv_def pool_sub_def)
  then have "pool_sub NUM_CH_MAX (memb_init chb_zero (CHs_memb s)) []"
    unfolding pool_sub_def memb_init_mnum by (simp add: memb_init_ok)
  from heads_of_bridges_pool [OF this h] have "lists_inv (s\<lparr>CHs_list := ps, CHs_memb := m\<rparr>)"
    using assms by (simp add: lists_inv_def)
  then show ?thesis using h by (simp add: init_consensus_convergence_def Let_def upd_anns_def lists_inv_def)
qed

lemma same_table_lists_inv: "same_table s s' \<Longrightarrow> snd (tables s') = snd (tables s)"
  unfolding same_table_def by (auto simp: tables_def)

lemma new_neighbour_lists:
  assumes "new_neighbour e addr state degree sf s = Ok (r, s')"
  shows "snd (tables s') = snd (tables s)"
proof (cases "memb_alloc (neighbour_memb s)")
  case (Pair o1 m)
  show ?thesis
  proof (cases o1)
    case None
    then show ?thesis using Pair assms by (auto simp: new_neighbour_def tables_def)
  next
    case (Some p)
    define s1 where "s1 = upd_nbr p (fill_neighbour addr state degree (my_state s)) (s\<lparr>neighbour_memb := m\<rparr>)"
    have s1: "snd (tables s1) = snd (tables s)" by (simp add: s1_def tables_def upd_nbr_def)
    obtain s2 where g: "gtsp_recv e p sf True s1 = Ok s2"
      using assms Some Pair by (auto simp: new_neighbour_def s1_def Let_def res_iff)
    have "snd (tables s') = snd (tables s2)"
      using assms Some Pair g
      by (auto simp: new_neighbour_def s1_def [symmetric] Let_def tables_def upd_anns_def split: if_splits)
    then show ?thesis using s1 same_table_lists_inv [OF gtsp_recv_table [OF g]] by simp
  qed
qed

lemma add_to_neighbour_lists:
  assumes "add_to_neighbour e addr state degree sf s = Ok (r, s')"
  shows "snd (tables s') = snd (tables s)"
proof -
  consider (known) p where "known_neighbour e p state degree sf s = Ok (r, s')"
    | (other) p where "gtsp_recv e p sf False s = Ok s'"
    | (new) "new_neighbour e addr state degree sf s = Ok (r, s')"
    using assms by (auto simp: add_to_neighbour_def res_iff split: if_splits option.splits)
  then show ?thesis
  proof cases
    case known
    then show ?thesis using known_neighbour_table same_table_lists_inv by blast
  next
    case other
    then show ?thesis using gtsp_recv_table same_table_lists_inv by blast
  next
    case new
    then show ?thesis by (rule new_neighbour_lists)
  qed
qed

lemma blacklist_lists:
  assumes "lists_inv s" and "blacklist_neighbour p s = Ok s'"
  shows "lists_inv s'"
proof (cases "memb_alloc (bl_memb s)")
  case (Pair r m)
  then obtain q where q: "r = Some q" using assms(2) by (cases r) (simp_all add: blacklist_neighbour_def)
  have sub: "pool_sub NUM_BL_MAX (bl_memb s) (blacklist s)" using assms(1) by (simp add: lists_inv_def)
  have "pool_sub NUM_BL_MAX m (seq_push q (blacklist s))" using pool_sub_push [OF sub] Pair q by simp
  then show ?thesis using assms Pair q
    by (auto simp: blacklist_neighbour_def lists_inv_def enter_byzantine_consensus_def poll_c_gtsp_process_def)
qed

lemma swap_addr_lists: "lists_inv (snd avs) \<Longrightarrow> lists_inv (snd (swap_addr h x y p avs))"
  by (cases avs) (simp add: swap_addr_def lists_inv_def upd_nbr_def)

lemma election_declaration_lists: "snd (tables (enter_election_declaration e s)) = snd (tables s)"
proof -
  have degree: "snd (tables (s\<lparr>my_degree := d\<rparr>)) = snd (tables s)" for d s by (simp add: tables_def)
  show ?thesis
    by (simp add: enter_election_declaration_def Let_def csync_update_placing_def tables_simps degree cong: if_cong)
qed

text \<open>The lists are in order as long as the pool of heads has not been linked into one of them.\<close>

definition lists_ok :: "node \<Rightarrow> bool" where
  "lists_ok s \<longleftrightarrow> pool_linked s \<or> lists_inv s"

lemma lists_ok_tables: "snd (tables s') = snd (tables s) \<Longrightarrow> lists_ok s' = lists_ok s"
  using lists_inv_tables [of s' s] by (simp add: lists_ok_def tables_def)

lemma lists_okI: "lists_ok s \<Longrightarrow> pool_linked s' = pool_linked s \<Longrightarrow> (lists_inv s \<Longrightarrow> lists_inv s') \<Longrightarrow> lists_ok s'"
  by (auto simp: lists_ok_def)

lemma handle_lists_pool [simp]: "pool_linked (snd (handle_lists av p s)) = pool_linked s"
  by (simp add: handle_lists_def Let_def case_prod_beta split: option.split)

lemma init_convergence_pool [simp]: "pool_linked (init_consensus_convergence s) = pool_linked s"
  by (simp add: init_consensus_convergence_def Let_def case_prod_beta upd_anns_def)

lemma swap_addr_pool [simp]: "pool_linked (snd (swap_addr P a b p x)) = pool_linked (snd x)"
  by (simp add: swap_addr_def Let_def case_prod_beta upd_nbr_def)

interpretation li: node_invariant e lists_ok for e :: "'e cenv_scheme"
proof (unfold_locales, goal_cases)
  case (1 s' s)
  then show ?case using lists_ok_tables [of s' s] by simp
next
  case (2 s s')
  then show ?case using lists_ok_tables [OF same_table_lists_inv] by blast
next
  case (3 s addr state degree sf r s')
  then show ?case using lists_ok_tables [OF add_to_neighbour_lists] by blast
next
  case (4 s)
  then show ?case using lists_ok_tables [OF election_declaration_lists] by blast
next
  case (5 s av p)
  then show ?case by (rule lists_okI) (simp_all add: handle_lists_lists)
next
  case (6 s p f)
  then show ?case by (simp add: lists_ok_def lists_inv_def upd_CH_def)
next
  case (7 s)
  then show ?case by (auto simp: lists_ok_def lists_inv_def intro: pool_sub_Nil)
next
  case (8 s)
  then show ?case by (auto simp: lists_ok_def lists_inv_def intro: pool_sub_Nil)
next
  case (9 s)
  then show ?case by (rule lists_okI) (simp_all add: init_convergence_lists)
next
  case (10 s av s')
  then show ?case by (auto simp: lists_ok_def push_pool_as_head_def split: prod.splits option.splits)
next
  case (11 s p s')
  then show ?case
    by (elim lists_okI) (auto simp: blacklist_neighbour_def enter_byzantine_consensus_def poll_c_gtsp_process_def
        split: prod.splits option.splits intro: blacklist_lists)
next
  case (12 s p av)
  then show ?case
    by (rule lists_okI) (use handle_lists_lists swap_addr_lists [of "(av, s)"] in \<open>simp_all add: byz_rename_def case_prod_beta\<close>)
next
  case (13 s p av)
  then show ?case
    by (rule lists_okI) (use handle_lists_lists in \<open>simp_all add: chain_rename_def Let_def case_prod_beta swap_addr_lists\<close>)
qed

section \<open>Reachable states\<close>

definition boot_node :: "'e cenv_scheme \<Rightarrow> node \<Rightarrow> bool" where
  "boot_node e s \<longleftrightarrow> mnum (neighbour_memb s) = MAX_DEGREE \<and> mnum (CHs_memb s) = NUM_CH_MAX \<and>
     mnum (CBs_memb s) = NUM_CB_MAX \<and> mnum (bl_memb s) = NUM_BL_MAX \<and> (MOD_NEIGHBOURS e \<or> mod_neighbour_list s = []) \<and>
     \<not> pool_linked s"

text \<open>
  A node that has linked the pool of heads into the list is a reachable state, but the model does not
  follow it any further, see \<open>call_handler\<close>.
\<close>

inductive csync_reach :: "'e cenv_scheme \<Rightarrow> yield_point \<Rightarrow> node \<Rightarrow> bool" for e where
  started: "boot_node e s \<Longrightarrow> thread_start e s = Ok (y, s') \<Longrightarrow> csync_reach e y s'"
| resumed: "csync_reach e y s \<Longrightarrow> \<not> pool_linked s \<Longrightarrow> thread_resume e y s = Ok (y', s') \<Longrightarrow> csync_reach e y' s'"
| expired: "csync_reach e y s \<Longrightarrow> \<not> pool_linked s \<Longrightarrow> rtimer0_hf_callback e taccr0 s = Ok s' \<Longrightarrow> csync_reach e y s'"
| polite: "csync_reach e y s \<Longrightarrow> \<not> pool_linked s \<Longrightarrow> polite_recv e from s = Ok s' \<Longrightarrow> csync_reach e y s'"
| broadcast: "csync_reach e y s \<Longrightarrow> \<not> pool_linked s \<Longrightarrow> broadcast_recv e from s = Ok s' \<Longrightarrow> csync_reach e y s'"
| device: "csync_reach e y s \<Longrightarrow> dev.more s' = dev.more s \<Longrightarrow> csync_reach e y s'"

inductive_cases csync_reach_cases: "csync_reach e y s"

context node_invariant
begin

lemma reachable:
  assumes start: "\<And>s. boot_node e s \<Longrightarrow> I (reset_c_gtsp e s)" and r: "csync_reach e y s"
  shows "I s"
  using r
proof induction
  case (started s y s')
  from keeps_sndD [OF round_start_keeps start [OF started(1)] started(2) [unfolded thread_start_def]] show ?case .
next
  case (resumed y s y' s')
  then show ?case using keeps_sndD [OF thread_resume_keeps] by blast
next
  case (expired y s taccr0 s')
  then show ?case using keepsD [OF rtimer0_keeps] by blast
next
  case (polite y s "from" s')
  then show ?case using keepsD [OF polite_recv_keeps] by blast
next
  case (broadcast y s "from" s')
  then show ?case using keepsD [OF broadcast_recv_keeps] by blast
next
  case (device y s s')
  then show ?case using frame [OF tables_more] by blast
qed

end

lemma boot_lists: "boot_node e s \<Longrightarrow> lists_ok (reset_c_gtsp e s)"
  by (simp add: lists_ok_def boot_node_def lists_inv_def pool_sub_def reset_c_gtsp_def Let_def upd_rts_def upd_anns_def
      memb_init_ok memb_init_mnum)

lemma boot_table: "boot_node e s \<Longrightarrow> table_inv e (reset_c_gtsp e s)"
  by (auto simp: boot_node_def reset_c_gtsp_def Let_def upd_rts_def upd_anns_def table_inv_def nbr_list_def
      check_mod_neighbours_irreflexive memb_init_used memb_init_ok memb_init_mnum)

section \<open>Properties of reachable states\<close>

text \<open>
  The block that a late node takes for its head is lost: it is in use, and not on the list, which
  begins with the pool instead.
\<close>

lemma push_pool_loses_block:
  assumes "lists_inv s" and "push_pool_as_head av s = Ok s'"
  shows "pool_linked s' \<and> CHs_list s' = CHs_list s \<and>
    (\<exists>p \<in> memb_used (CHs_memb s'). p \<notin> set (CHs_list s') \<and> n_CHB_addr_A (the_CH s' p) = av_ref_addr av)"
proof -
  from assms(2) obtain p m where a: "memb_alloc (CHs_memb s) = (Some p, m)"
    by (cases "memb_alloc (CHs_memb s)") (auto simp: push_pool_as_head_def split: option.splits)
  have s': "s' = s\<lparr>CHs_memb := set_block p (\<lambda>c. c\<lparr>n_CHB_addr_A := av_ref_addr av, ch_cons_slot := av_degree av\<rparr>) m,
      pool_linked := True\<rparr>" using assms(2) a by (simp add: push_pool_as_head_def)
  have ok: "memb_ok (CHs_memb s)" "set (CHs_list s) \<subseteq> memb_used (CHs_memb s)"
    using assms(1) by (simp_all add: lists_inv_def pool_sub_def)
  note i = memb_alloc_Some [OF a]
  have "p < length (mmem m)" using i(1,4) memb_alloc_ok [OF ok(1) a] by (simp add: memb_ok_def)
  moreover have "p \<in> memb_used m" using memb_alloc_used [OF a] by simp
  moreover have "memb_used (set_block p f m) = memb_used m" for f by (simp add: set_block_def memb_used_def)
  moreover have "p \<notin> set (CHs_list s)" using i(2) ok(2) by blast
  ultimately show ?thesis by (auto simp: s' the_CH_def intro!: bexI [of _ p])
qed

text \<open>
  C3: Whatever frames a node receives, whenever its timer expires and its thread runs, the lists of
  cluster heads, of bridges and of blacklisted nodes stay proper lists of blocks of their pools that are
  in use, with at most four heads and four bridges, until a handler for a late node links the pool of
  heads itself into the list; that state is reached, and not followed any further. In the builds
  without the test code the neighbour table stays consistent in every state, so the degree of the node is
  the number of its neighbours and at most 64.
\<close>

theorem reachable_node_wellformed:
  assumes "csync_reach e y s"
  shows "(pool_linked s \<or> lists_inv s \<and> length (CHs_list s) \<le> NUM_CH_MAX \<and> length (CBs_list s) \<le> NUM_CH_MAX) \<and>
    (regular_build e \<longrightarrow> table_inv e s \<and> unat (my_degree s) \<le> MAX_DEGREE)"
proof -
  have lists: "lists_ok s" by (rule li.reachable [OF boot_lists assms])
  have table: "regular_build e \<longrightarrow> table_inv e s" by (rule ti.reachable [OF _ assms]) (simp add: boot_table)
  then have "regular_build e \<longrightarrow> unat (my_degree s) \<le> MAX_DEGREE" using table_inv_degree by blast
  with lists table show ?thesis using pool_sub_length by (auto simp: lists_ok_def lists_inv_def)
qed

text \<open>A node starts, and its thread goes on from the first yield.\<close>

definition demo_boot :: node where
  "demo_boot = demo_node\<lparr>rnds := [5, 9]\<rparr>"

theorem reachable_node_wellformed_witness:
  "case thread_start demo_cenv demo_boot of
     Ok (y, s) \<Rightarrow> (case thread_resume demo_cenv y s of
        Ok (y', s') \<Rightarrow> lists_inv s' \<and> table_inv demo_cenv s' | Fault _ \<Rightarrow> False)
   | Fault _ \<Rightarrow> False"
proof -
  have run: "case thread_start demo_cenv demo_boot of
     Ok (y, s) \<Rightarrow> \<not> pool_linked s \<and>
       (case thread_resume demo_cenv y s of Ok (y', s') \<Rightarrow> \<not> pool_linked s' | Fault _ \<Rightarrow> False) | Fault _ \<Rightarrow> False"
    by code_simp
  then obtain y s where 1: "thread_start demo_cenv demo_boot = Ok (y, s)" by (auto split: res.splits)
  then obtain y' s' where 2: "thread_resume demo_cenv y s = Ok (y', s')" "\<not> pool_linked s" "\<not> pool_linked s'"
    using run by (cases "thread_resume demo_cenv y s") auto
  have "boot_node demo_cenv demo_boot"
    by (simp add: boot_node_def demo_boot_def demo_node_def node.defs dev.defs demo_cenv_def netenv.defs cenv.defs)
  then have "csync_reach demo_cenv y' s'" using 1 2 csync_reach.intros(1,2) by blast
  moreover have "regular_build demo_cenv"
    by (simp add: regular_build_def demo_cenv_def netenv.defs cenv.defs)
  ultimately show ?thesis using reachable_node_wellformed [of demo_cenv y' s'] 1 2 by simp
qed

section \<open>The iterations of the synchronization\<close>






end
