(* ===== verification/Frame802154.thy ===== *)
theory Frame802154
  imports Packetbuf
begin

unbundle bit_operations_syntax

text \<open>
  The IEEE 802.15.4 header of \<^verbatim>\<open>src/core/net/mac/frame802154.c\<close>: building it from a \<^verbatim>\<open>frame802154_t\<close> and
  parsing it. The options that select the auxiliary security header with the preprocessor are the record
  \<open>frame_opts\<close>; a link-layer address has two bytes (\<^verbatim>\<open>LINKADDR_SIZE\<close>).

  A pointer that walks through an array is the part of the array that lies before it and the part from
  it on: the builder moves a pair (bytes written, rest of the buffer), the parser the rest of the
  received bytes. A walk beyond the array is \<open>Fault OutOfBounds\<close>.
\<close>

section \<open>Data\<close>

record frame_opts =
  USES_AUX_HEADER :: bool
  USES_EXPLICIT_KEYS :: bool

abbreviation FRAME802154_ACKFRAME :: u8 where "FRAME802154_ACKFRAME \<equiv> 2"
abbreviation FRAME802154_NOADDR :: u8 where "FRAME802154_NOADDR \<equiv> 0"
abbreviation FRAME802154_SHORTADDRMODE :: u8 where "FRAME802154_SHORTADDRMODE \<equiv> 2"
abbreviation FRAME802154_LONGADDRMODE :: u8 where "FRAME802154_LONGADDRMODE \<equiv> 3"
abbreviation FRAME802154_BROADCASTPANDID :: u16 where "FRAME802154_BROADCASTPANDID \<equiv> 0xFFFF"
abbreviation FRAME802154_IEEE802154_2006 :: u8 where "FRAME802154_IEEE802154_2006 \<equiv> 1"
abbreviation FRAME802154_IEEE802154E_2012 :: u8 where "FRAME802154_IEEE802154E_2012 \<equiv> 2"

record frame802154_fcf =
  frame_type :: u8
  security_enabled :: u8
  frame_pending :: u8
  ack_required :: u8
  panid_compression :: u8
  sequence_number_suppression :: u8
  ie_list_present :: u8
  dest_addr_mode :: u8
  frame_version :: u8
  src_addr_mode :: u8

record frame802154_aux_hdr =
  security_level :: u8
  key_id_mode :: u8
  frame_counter_suppression :: u8
  frame_counter_size :: u8
  frame_counter :: "u8 list"
  key_source :: "u8 list"
  key_index :: u8

text \<open>\<open>payload\<close> is the offset of the payload behind the start of the frame.\<close>

record frame802154 =
  dest_addr :: "u8 list"
  src_addr :: "u8 list"
  fcf :: frame802154_fcf
  seq :: u8
  dest_pid :: u16
  src_pid :: u16
  aux_hdr :: frame802154_aux_hdr
  payload :: nat
  payload_len :: int

record field_length =
  seqno_len :: nat
  dest_pid_len :: nat
  dest_addr_len :: nat
  src_pid_len :: nat
  src_addr_len :: nat
  aux_sec_len :: nat

section \<open>Lengths\<close>

definition addr_len :: "u8 \<Rightarrow> nat" where
  "addr_len mode =
     (if mode = FRAME802154_SHORTADDRMODE then 2 else if mode = FRAME802154_LONGADDRMODE then 8 else 0)"

definition get_key_id_len :: "u8 \<Rightarrow> nat" where
  "get_key_id_len mode = (if mode = 1 then 1 else if mode = 2 then 5 else if mode = 3 then 9 else 0)"

text \<open>Whether the frame has a source PAN ID and a destination PAN ID.\<close>

definition frame802154_has_panid :: "frame802154_fcf \<Rightarrow> bool \<times> bool" where
  "frame802154_has_panid f =
     (let d = dest_addr_mode f; s = src_addr_mode f; pc = panid_compression f in
      if frame_version f = FRAME802154_IEEE802154E_2012 then
        (pc = 0 \<and>
           ((d = FRAME802154_NOADDR \<and> s = FRAME802154_LONGADDRMODE) \<or>
            (d = FRAME802154_NOADDR \<and> s = FRAME802154_SHORTADDRMODE) \<or>
            (d = FRAME802154_SHORTADDRMODE \<and> s = FRAME802154_SHORTADDRMODE) \<or>
            (d = FRAME802154_SHORTADDRMODE \<and> s = FRAME802154_LONGADDRMODE) \<or>
            (d = FRAME802154_LONGADDRMODE \<and> s = FRAME802154_SHORTADDRMODE)),
         (d = FRAME802154_NOADDR \<and> s = FRAME802154_NOADDR \<and> pc = 1) \<or>
         (d \<noteq> FRAME802154_NOADDR \<and> s = FRAME802154_NOADDR \<and> pc = 0) \<or>
         (d = FRAME802154_LONGADDRMODE \<and> s = FRAME802154_LONGADDRMODE \<and> pc = 0) \<or>
         ((d = FRAME802154_SHORTADDRMODE \<and> s \<noteq> FRAME802154_NOADDR) \<or>
          (d \<noteq> FRAME802154_NOADDR \<and> s = FRAME802154_SHORTADDRMODE)))
      else if frame_type f \<noteq> FRAME802154_ACKFRAME then
        (pc = 0 \<and> s AND 3 \<noteq> 0, d AND 3 \<noteq> 0)
      else (False, False))"

definition aux_len :: "frame_opts \<Rightarrow> frame802154 \<Rightarrow> nat" where
  "aux_len opts p =
     (if USES_AUX_HEADER opts \<and> security_enabled (fcf p) AND 1 \<noteq> 0 then
        1 + (if frame_counter_suppression (aux_hdr p) = 0
             then if frame_counter_size (aux_hdr p) = 1 then 5 else 4 else 0)
          + (if USES_EXPLICIT_KEYS opts then get_key_id_len (key_id_mode (aux_hdr p)) else 0)
      else 0)"

text \<open>\<open>field_len\<close> also sets the compression bit of the frame, for versions before 2012.\<close>

definition compress :: "frame802154 \<Rightarrow> frame802154" where
  "compress p =
     (if frame_version (fcf p) < FRAME802154_IEEE802154E_2012
      then p\<lparr>fcf := (fcf p)\<lparr>panid_compression :=
             if dest_addr_mode (fcf p) AND 3 \<noteq> 0 \<and> src_addr_mode (fcf p) AND 3 \<noteq> 0 \<and> src_pid p = dest_pid p
             then 1 else 0\<rparr>\<rparr>
      else p)"

definition field_len :: "frame_opts \<Rightarrow> frame802154 \<Rightarrow> frame802154 \<times> field_length" where
  "field_len opts p =
     (let p1 = compress p;
          (has_src_panid, has_dest_panid) = frame802154_has_panid (fcf p1)
      in (p1, \<lparr>seqno_len = (if sequence_number_suppression (fcf p1) AND 1 = 0 then 1 else 0),
               dest_pid_len = (if has_dest_panid then 2 else 0),
               dest_addr_len = addr_len (dest_addr_mode (fcf p1) AND 3),
               src_pid_len = (if has_src_panid then 2 else 0),
               src_addr_len = addr_len (src_addr_mode (fcf p1) AND 3),
               aux_sec_len = aux_len opts p1\<rparr>))"

definition frame802154_hdrlen :: "frame_opts \<Rightarrow> frame802154 \<Rightarrow> nat \<times> frame802154" where
  "frame802154_hdrlen opts p =
     (case field_len opts p of (p1, l) \<Rightarrow>
        (2 + seqno_len l + dest_pid_len l + dest_addr_len l + src_pid_len l + src_addr_len l + aux_sec_len l, p1))"

section \<open>Addresses and PAN IDs\<close>

definition frame802154_check_dest_panid :: "u16 \<Rightarrow> frame802154 \<Rightarrow> bool" where
  "frame802154_check_dest_panid mac_pan_id f \<longleftrightarrow>
     \<not> (snd (frame802154_has_panid (fcf f)) \<and> dest_pid f \<noteq> mac_pan_id \<and> dest_pid f \<noteq> FRAME802154_BROADCASTPANDID)"

fun all_ff :: "nat \<Rightarrow> u8 list \<Rightarrow> bool" where
  "all_ff 0 addr = True"
| "all_ff (Suc i) addr = (if addr ! i \<noteq> 0xff then False else all_ff i addr)"

definition frame802154_is_broadcast_addr :: "u8 \<Rightarrow> u8 list \<Rightarrow> bool" where
  "frame802154_is_broadcast_addr mode addr = all_ff (if mode = FRAME802154_SHORTADDRMODE then 2 else 8) addr"

text \<open>One half of \<open>frame802154_extract_linkaddr\<close>: \<open>None\<close> for an address of a size that is not handled.\<close>

definition extract_addr :: "u8 \<Rightarrow> u8 list \<Rightarrow> u8 list option" where
  "extract_addr mode addr =
     (let len = (if mode \<noteq> 0 then if mode = FRAME802154_SHORTADDRMODE then 2 else 8 else 0 :: nat) in
      if len = 0 \<or> frame802154_is_broadcast_addr mode addr then Some [0, 0]
      else if len \<noteq> 2 then None
      else Some (take 2 addr))"

text \<open>The addresses that are stored; the destination is reached only when the source could be handled.\<close>

definition frame802154_extract_linkaddr :: "frame802154 \<Rightarrow> bool \<times> u8 list option \<times> u8 list option" where
  "frame802154_extract_linkaddr f =
     (case extract_addr (src_addr_mode (fcf f)) (src_addr f) of
        None \<Rightarrow> (False, None, None)
      | Some a \<Rightarrow>
          (case extract_addr (dest_addr_mode (fcf f)) (dest_addr f) of
             None \<Rightarrow> (False, Some a, None)
           | Some d \<Rightarrow> (True, Some a, Some d)))"

section \<open>Building a header\<close>

definition frame802154_create_fcf :: "frame802154_fcf \<Rightarrow> u8 \<times> u8" where
  "frame802154_create_fcf f =
     ((frame_type f AND 7) OR push_bit 3 (security_enabled f AND 1) OR push_bit 4 (frame_pending f AND 1) OR
        push_bit 5 (ack_required f AND 1) OR push_bit 6 (panid_compression f AND 1),
      (sequence_number_suppression f AND 1) OR push_bit 1 (ie_list_present f AND 1) OR
        push_bit 2 (dest_addr_mode f AND 3) OR push_bit 4 (frame_version f AND 3) OR push_bit 6 (src_addr_mode f AND 3))"

text \<open>
  Writing bytes at the position, copying the first \<open>n\<close> bytes of an array to it, and skipping a byte that
  is not written; the buffer has that byte, since the length of the header counts it.
\<close>

type_synonym cursor = "u8 list \<times> u8 list"

definition put :: "u8 list \<Rightarrow> cursor \<Rightarrow> cursor res" where
  "put bs c = (case c of (before, rest) \<Rightarrow>
     if length bs \<le> length rest then Ok (before @ bs, drop (length bs) rest) else Fault OutOfBounds)"

definition put_from :: "nat \<Rightarrow> u8 list \<Rightarrow> cursor \<Rightarrow> cursor res" where
  "put_from n bs c = (if n \<le> length bs then put (take n bs) c else Fault OutOfBounds)"

definition skip :: "cursor \<Rightarrow> cursor res" where
  "skip c = (case c of (before, b # rest) \<Rightarrow> Ok (before @ [b], rest) | (before, []) \<Rightarrow> Fault OutOfBounds)"

text \<open>The loop \<^verbatim>\<open>for(c = len; c > 0; c--) buf[pos++] = addr[c - 1];\<close>\<close>

fun put_addr :: "u8 list \<Rightarrow> nat \<Rightarrow> cursor \<Rightarrow> cursor res" where
  "put_addr addr 0 c = Ok c"
| "put_addr addr (Suc n) c = bindR (put [addr ! n] c) (put_addr addr n)"

definition pid_bytes :: "u16 \<Rightarrow> u8 list" where
  "pid_bytes pid = [ucast (pid AND 0xff), ucast (drop_bit 8 pid AND 0xff)]"

definition scf_byte :: "frame_opts \<Rightarrow> frame802154_aux_hdr \<Rightarrow> u8" where
  "scf_byte opts a =
     security_level a OR (if USES_EXPLICIT_KEYS opts then push_bit 3 (key_id_mode a) else 0) OR
     push_bit 5 (frame_counter_suppression a) OR push_bit 6 (frame_counter_size a)"

definition create_aux :: "frame_opts \<Rightarrow> frame802154_aux_hdr \<Rightarrow> cursor \<Rightarrow> cursor res" where
  "create_aux opts a =
     run [put [scf_byte opts a],
          (\<lambda>c. if frame_counter_suppression a = 0
               then bindR (put_from 4 (frame_counter a) c)
                      (\<lambda>c1. if frame_counter_size a = 1 then skip c1 else Ok c1)
               else Ok c),
          (\<lambda>c. if USES_EXPLICIT_KEYS opts \<and> key_id_mode a \<noteq> 0
               then bindR (put_from ((unat (key_id_mode a) - 1) * 4) (key_source a) c) (put [key_index a])
               else Ok c)]"

text \<open>The result is the length of the header, the buffer and the frame with its compression bit set.\<close>

definition frame802154_create ::
  "frame_opts \<Rightarrow> frame802154 \<Rightarrow> u8 list \<Rightarrow> (nat \<times> u8 list \<times> frame802154) res" where
  "frame802154_create opts p buf =
     (case field_len opts p of (p1, l) \<Rightarrow>
      case frame802154_create_fcf (fcf p1) of (b0, b1) \<Rightarrow>
      bindR (run [put [b0, b1],
                  (\<lambda>c. if seqno_len l = 1 then put [seq p1] c else Ok c),
                  (\<lambda>c. if dest_pid_len l = 2 then put (pid_bytes (dest_pid p1)) c else Ok c),
                  put_addr (dest_addr p1) (dest_addr_len l),
                  (\<lambda>c. if src_pid_len l = 2 then put (pid_bytes (src_pid p1)) c else Ok c),
                  put_addr (src_addr p1) (src_addr_len l),
                  (\<lambda>c. if USES_AUX_HEADER opts \<and> aux_sec_len l \<noteq> 0 then create_aux opts (aux_hdr p1) c else Ok c)]
               ([], buf))
        (\<lambda>(done, rest). Ok (length done, done @ rest, p1)))"

section \<open>Parsing a header\<close>

definition frame802154_parse_fcf :: "u8 \<Rightarrow> u8 \<Rightarrow> frame802154_fcf" where
  "frame802154_parse_fcf d0 d1 =
     \<lparr>frame_type = d0 AND 7, security_enabled = drop_bit 3 d0 AND 1, frame_pending = drop_bit 4 d0 AND 1,
      ack_required = drop_bit 5 d0 AND 1, panid_compression = drop_bit 6 d0 AND 1,
      sequence_number_suppression = d1 AND 1, ie_list_present = drop_bit 1 d1 AND 1,
      dest_addr_mode = drop_bit 2 d1 AND 3, frame_version = drop_bit 4 d1 AND 3,
      src_addr_mode = drop_bit 6 d1 AND 3\<rparr>"

text \<open>Reading the next bytes.\<close>

definition get :: "nat \<Rightarrow> u8 list \<Rightarrow> (u8 list \<Rightarrow> u8 list \<Rightarrow> 'a res) \<Rightarrow> 'a res" where
  "get n p k = (if n \<le> length p then k (take n p) (drop n p) else Fault OutOfBounds)"

definition pid_of :: "u8 list \<Rightarrow> u16" where
  "pid_of bs = ucast (bs ! 0) + push_bit 8 (ucast (bs ! 1))"

text \<open>The address field: a short one clears the two bytes of a link-layer address first.\<close>

definition parse_addr :: "u8 \<Rightarrow> u8 list \<Rightarrow> u8 list \<Rightarrow> (u8 list \<times> u8 list) res" where
  "parse_addr mode addr p =
     (if mode = FRAME802154_SHORTADDRMODE then get 2 p (\<lambda>bs p1. Ok (p1, addr[0 := bs ! 1, 1 := bs ! 0]))
      else if mode = FRAME802154_LONGADDRMODE then get 8 p (\<lambda>bs p1. Ok (p1, rev bs @ drop 8 addr))
      else Ok (p, addr))"

definition parse_seq :: "u8 list \<Rightarrow> frame802154 \<Rightarrow> (u8 list \<times> frame802154) res" where
  "parse_seq p pf =
     (if sequence_number_suppression (fcf pf) = 0 then get 1 p (\<lambda>bs p1. Ok (p1, pf\<lparr>seq := bs ! 0\<rparr>)) else Ok (p, pf))"

definition parse_dest :: "bool \<Rightarrow> u8 list \<Rightarrow> frame802154 \<Rightarrow> (u8 list \<times> frame802154) res" where
  "parse_dest has_dest_panid p pf =
     (if dest_addr_mode (fcf pf) \<noteq> 0 then
        bindR (if has_dest_panid then get 2 p (\<lambda>bs p1. Ok (p1, pf\<lparr>dest_pid := pid_of bs\<rparr>))
               else Ok (p, pf\<lparr>dest_pid := 0\<rparr>)) (\<lambda>(p1, pf1).
        bindR (parse_addr (dest_addr_mode (fcf pf)) (dest_addr pf1) p1) (\<lambda>(p2, a). Ok (p2, pf1\<lparr>dest_addr := a\<rparr>)))
      else Ok (p, pf\<lparr>dest_addr := (dest_addr pf)[0 := 0, 1 := 0], dest_pid := 0\<rparr>))"

definition parse_src :: "bool \<Rightarrow> bool \<Rightarrow> u8 list \<Rightarrow> frame802154 \<Rightarrow> (u8 list \<times> frame802154) res" where
  "parse_src has_src_panid has_dest_panid p pf =
     (if src_addr_mode (fcf pf) \<noteq> 0 then
        bindR (if has_src_panid
               then get 2 p (\<lambda>bs p1. Ok (p1, if has_dest_panid then pf\<lparr>src_pid := pid_of bs\<rparr>
                                              else pf\<lparr>src_pid := pid_of bs, dest_pid := pid_of bs\<rparr>))
               else Ok (p, pf\<lparr>src_pid := dest_pid pf\<rparr>)) (\<lambda>(p1, pf1).
        bindR (parse_addr (src_addr_mode (fcf pf)) (src_addr pf1) p1) (\<lambda>(p2, a). Ok (p2, pf1\<lparr>src_addr := a\<rparr>)))
      else Ok (p, pf\<lparr>src_addr := (src_addr pf)[0 := 0, 1 := 0], src_pid := 0\<rparr>))"

definition parse_counter :: "u8 list \<Rightarrow> frame802154_aux_hdr \<Rightarrow> (u8 list \<times> frame802154_aux_hdr) res" where
  "parse_counter p a =
     (if frame_counter_suppression a = 0
      then get 4 p (\<lambda>bs p1.
             if frame_counter_size a = 1 then get 1 p1 (\<lambda>_ p2. Ok (p2, a\<lparr>frame_counter := bs\<rparr>))
             else Ok (p1, a\<lparr>frame_counter := bs\<rparr>))
      else Ok (p, a))"

definition parse_key :: "frame_opts \<Rightarrow> u8 list \<Rightarrow> frame802154_aux_hdr \<Rightarrow> (u8 list \<times> frame802154_aux_hdr) res" where
  "parse_key opts p a =
     (if USES_EXPLICIT_KEYS opts \<and> key_id_mode a \<noteq> 0
      then let n = (unat (key_id_mode a) - 1) * 4 in
           get n p (\<lambda>bs p1. get 1 p1 (\<lambda>ib p2. Ok (p2, a\<lparr>key_source := bs @ drop n (key_source a), key_index := ib ! 0\<rparr>)))
      else Ok (p, a))"

definition parse_scf :: "frame_opts \<Rightarrow> u8 \<Rightarrow> frame802154_aux_hdr \<Rightarrow> frame802154_aux_hdr" where
  "parse_scf opts b a =
     (let a1 = a\<lparr>security_level := b AND 7\<rparr>;
          a2 = (if USES_EXPLICIT_KEYS opts then a1\<lparr>key_id_mode := drop_bit 3 b AND 3\<rparr> else a1)
      in a2\<lparr>frame_counter_suppression := drop_bit 5 b, frame_counter_size := drop_bit 6 b\<rparr>)"

definition parse_aux :: "frame_opts \<Rightarrow> u8 list \<Rightarrow> frame802154 \<Rightarrow> (u8 list \<times> frame802154) res" where
  "parse_aux opts p pf =
     (if USES_AUX_HEADER opts \<and> security_enabled (fcf pf) \<noteq> 0 then
        get 1 p (\<lambda>bs p1.
          bindR (parse_counter p1 (parse_scf opts (bs ! 0) (aux_hdr pf))) (\<lambda>(p2, a).
          bindR (parse_key opts p2 a) (\<lambda>(p3, a1). Ok (p3, pf\<lparr>aux_hdr := a1\<rparr>))))
      else Ok (p, pf))"

text \<open>
  The whole parser: \<open>dat\<close> is the memory from the start of the frame on, \<open>len\<close> the length of the frame.
\<close>

definition frame802154_parse ::
  "frame_opts \<Rightarrow> u8 list \<Rightarrow> int \<Rightarrow> frame802154 \<Rightarrow> (nat \<times> frame802154) res" where
  "frame802154_parse opts dat len pf =
     (if len < 2 then Ok (0, pf)
      else get 2 dat (\<lambda>bs p.
        let f = frame802154_parse_fcf (bs ! 0) (bs ! 1);
            (has_src_panid, has_dest_panid) = frame802154_has_panid f
        in bindR (parse_seq p (pf\<lparr>fcf := f\<rparr>)) (\<lambda>(p1, pf1).
           bindR (parse_dest has_dest_panid p1 pf1) (\<lambda>(p2, pf2).
           bindR (parse_src has_src_panid has_dest_panid p2 pf2) (\<lambda>(p3, pf3).
           bindR (parse_aux opts p3 pf3) (\<lambda>(p4, pf4).
             let c = length dat - length p4 in
             Ok (if int c > len then 0 else c, pf4\<lparr>payload_len := len - int c, payload := c\<rparr>)))))))"

end
