(* ===== verification/Frame_Laws.thy ===== *)
theory Frame_Laws
  imports Frame802154
begin

text \<open>
  What the builder and the parser of \<^verbatim>\<open>src/core/net/mac/frame802154.c\<close> guarantee: every field of a header
  survives (the round trip), with two exceptions that are shown by example, and the parser never leaves
  the memory it was given nor accepts a header that is longer than the frame.
\<close>

section \<open>The control field survives\<close>

definition fcf_ok :: "frame802154_fcf \<Rightarrow> bool" where
  "fcf_ok f \<longleftrightarrow> frame_type f < 8 \<and> security_enabled f < 2 \<and> frame_pending f < 2 \<and> ack_required f < 2 \<and>
     panid_compression f < 2 \<and> sequence_number_suppression f < 2 \<and> ie_list_present f < 2 \<and>
     dest_addr_mode f < 4 \<and> frame_version f < 4 \<and> src_addr_mode f < 4"

lemma masks: "(7 :: u8) = mask 3" "(3 :: u8) = mask 2" "(1 :: u8) = mask 1"
  by (simp_all add: mask_eq_exp_minus_1)

lemma and_mask_small:
  "(x :: u8) < 2 \<Longrightarrow> x AND 1 = x" "(x :: u8) < 4 \<Longrightarrow> x AND 3 = x" "(x :: u8) < 8 \<Longrightarrow> x AND 7 = x"
  using less_mask_eq [of x 1] less_mask_eq [of x 2] less_mask_eq [of x 3] by (simp_all add: mask_eq_exp_minus_1)

lemma below_8: "(n :: nat) < 8 \<Longrightarrow> n = 0 \<or> n = 1 \<or> n = 2 \<or> n = 3 \<or> n = 4 \<or> n = 5 \<or> n = 6 \<or> n = 7"
  by presburger

lemma u8_eqI: "(\<And>n. n = 0 \<or> n = 1 \<or> n = 2 \<or> n = 3 \<or> n = 4 \<or> n = 5 \<or> n = 6 \<or> n = 7 \<Longrightarrow> bit x n = bit y n) \<Longrightarrow>
    x = (y :: u8)"
  by (rule bit_word_eqI) (use below_8 in auto)

lemma bit_twice: "bit ((x :: u8) * 2) 1 = bit x 0" "bit (x * 2) (Suc 0) = bit x 0"
  using bit_double_iff [of x 1] by (simp_all add: mult.commute)

lemma unpack_first:
  fixes a b c d k :: u8
  defines "w \<equiv> (a AND mask 3) OR push_bit 3 (b AND mask 1) OR push_bit 4 (c AND mask 1) OR
      push_bit 5 (d AND mask 1) OR push_bit 6 (k AND mask 1)"
  shows "w AND mask 3 = a AND mask 3" and "drop_bit 3 w AND mask 1 = b AND mask 1"
    and "drop_bit 4 w AND mask 1 = c AND mask 1" and "drop_bit 5 w AND mask 1 = d AND mask 1"
    and "drop_bit 6 w AND mask 1 = k AND mask 1"
  unfolding w_def by (rule u8_eqI; elim disjE; simp add: bit_simps bit_twice)+

lemma unpack_second:
  fixes a b c d k :: u8
  defines "w \<equiv> (a AND mask 1) OR push_bit 1 (b AND mask 1) OR push_bit 2 (c AND mask 2) OR
      push_bit 4 (d AND mask 2) OR push_bit 6 (k AND mask 2)"
  shows "w AND mask 1 = a AND mask 1" and "drop_bit 1 w AND mask 1 = b AND mask 1"
    and "drop_bit 2 w AND mask 2 = c AND mask 2" and "drop_bit 4 w AND mask 2 = d AND mask 2"
    and "drop_bit 6 w AND mask 2 = k AND mask 2"
  unfolding w_def by (rule u8_eqI; elim disjE; simp add: bit_simps bit_twice)+

lemma parse_create_fcf:
  assumes "fcf_ok f" and "frame802154_create_fcf f = (b0, b1)"
  shows "frame802154_parse_fcf b0 b1 = f"
proof -
  have "frame802154_parse_fcf b0 b1 =
    \<lparr>frame_type = frame_type f AND 7, security_enabled = security_enabled f AND 1,
     frame_pending = frame_pending f AND 1, ack_required = ack_required f AND 1,
     panid_compression = panid_compression f AND 1,
     sequence_number_suppression = sequence_number_suppression f AND 1, ie_list_present = ie_list_present f AND 1,
     dest_addr_mode = dest_addr_mode f AND 3, frame_version = frame_version f AND 3,
     src_addr_mode = src_addr_mode f AND 3\<rparr>"
    using assms(2) unpack_first unpack_second
    unfolding frame802154_parse_fcf_def frame802154_create_fcf_def masks by auto
  with assms(1) show ?thesis by (simp add: fcf_ok_def and_mask_small)
qed

section \<open>The bytes of a header\<close>

definition seq_field :: "frame802154 \<Rightarrow> u8 list" where
  "seq_field p = (if sequence_number_suppression (fcf p) AND 1 = 0 then [seq p] else [])"

definition pid_field :: "bool \<Rightarrow> u16 \<Rightarrow> u8 list" where
  "pid_field b pid = (if b then pid_bytes pid else [])"

definition addr_field :: "u8 \<Rightarrow> u8 list \<Rightarrow> u8 list" where
  "addr_field mode addr = rev (take (addr_len (mode AND 3)) addr)"

text \<open>The security header of a frame whose counter has the four bytes that the code supports.\<close>

definition aux_field :: "frame_opts \<Rightarrow> frame802154 \<Rightarrow> u8 list" where
  "aux_field opts p =
     (if USES_AUX_HEADER opts \<and> security_enabled (fcf p) AND 1 \<noteq> 0
      then [scf_byte opts (aux_hdr p)] @
           (if frame_counter_suppression (aux_hdr p) = 0 then frame_counter (aux_hdr p) else []) @
           (if USES_EXPLICIT_KEYS opts \<and> key_id_mode (aux_hdr p) \<noteq> 0
            then take ((unat (key_id_mode (aux_hdr p)) - 1) * 4) (key_source (aux_hdr p)) @ [key_index (aux_hdr p)] else [])
      else [])"

definition addr_bytes :: "frame802154 \<Rightarrow> u8 list" where
  "addr_bytes p = (case frame802154_has_panid (fcf p) of (has_src, has_dest) \<Rightarrow>
     pid_field has_dest (dest_pid p) @ addr_field (dest_addr_mode (fcf p)) (dest_addr p) @
     pid_field has_src (src_pid p) @ addr_field (src_addr_mode (fcf p)) (src_addr p))"

definition header_bytes :: "frame_opts \<Rightarrow> frame802154 \<Rightarrow> u8 list" where
  "header_bytes opts p = (case frame802154_create_fcf (fcf p) of (b0, b1) \<Rightarrow>
     [b0, b1] @ seq_field p @ addr_bytes p @ aux_field opts p)"

text \<open>What the builder needs of a frame; the arrays have the sizes of their declarations.\<close>

definition arrays_ok :: "frame802154 \<Rightarrow> bool" where
  "arrays_ok p \<longleftrightarrow> length (dest_addr p) = 8 \<and> length (src_addr p) = 8 \<and>
     length (frame_counter (aux_hdr p)) = 4 \<and> length (key_source (aux_hdr p)) = 8"

lemma put_Ok: "put bs (b, r) = Ok (b', r') \<Longrightarrow> b' = b @ bs"
  by (simp add: put_def split: if_splits)

lemma put_from_Ok: "put_from n bs (b, r) = Ok (b', r') \<Longrightarrow> b' = b @ take n bs"
  using put_Ok by (auto simp: put_from_def split: if_splits)

lemma put_addr_Ok: "put_addr a n (b, r) = Ok (b', r') \<Longrightarrow> n \<le> length a \<Longrightarrow> b' = b @ rev (take n a)"
proof (induction n arbitrary: b r)
  case (Suc n)
  obtain b1 r1 where 1: "put [a ! n] (b, r) = Ok (b1, r1)" "put_addr a n (b1, r1) = Ok (b', r')"
    using Suc.prems(1) by (auto simp: res_iff)
  have "b' = b1 @ rev (take n a)" using Suc.IH [OF 1(2)] Suc.prems(2) by simp
  then show ?case using put_Ok [OF 1(1)] Suc.prems(2) by (simp add: take_Suc_conv_app_nth)
qed simp

lemma create_aux_Ok:
  assumes "create_aux opts a (b, r) = Ok (b', r')" and "frame_counter_size a \<noteq> 1" and "length (frame_counter a) = 4"
  shows "b' = b @ [scf_byte opts a] @ (if frame_counter_suppression a = 0 then frame_counter a else []) @
     (if USES_EXPLICIT_KEYS opts \<and> key_id_mode a \<noteq> 0
      then take ((unat (key_id_mode a) - 1) * 4) (key_source a) @ [key_index a] else [])"
proof -
  obtain b1 r1 b2 r2 where 1: "put [scf_byte opts a] (b, r) = Ok (b1, r1)"
    and 2: "(if frame_counter_suppression a = 0 then put_from 4 (frame_counter a) (b1, r1) else Ok (b1, r1)) = Ok (b2, r2)"
    and 3: "(if USES_EXPLICIT_KEYS opts \<and> key_id_mode a \<noteq> 0
        then bindR (put_from ((unat (key_id_mode a) - 1) * 4) (key_source a) (b2, r2)) (put [key_index a])
        else Ok (b2, r2)) = Ok (b', r')"
  proof -
    obtain c1 c2 where c: "put [scf_byte opts a] (b, r) = Ok c1"
      "(if frame_counter_suppression a = 0
        then bindR (put_from 4 (frame_counter a) c1) (\<lambda>c. if frame_counter_size a = 1 then skip c else Ok c)
        else Ok c1) = Ok c2"
      "(if USES_EXPLICIT_KEYS opts \<and> key_id_mode a \<noteq> 0
        then bindR (put_from ((unat (key_id_mode a) - 1) * 4) (key_source a) c2) (put [key_index a])
        else Ok c2) = Ok (b', r')"
      using assms(1) unfolding create_aux_def run.simps bindR_Ok_right bindR_Ok_iff by (auto simp only: res.inject)
    have "(if frame_counter_suppression a = 0 then put_from 4 (frame_counter a) c1 else Ok c1) = Ok c2"
      using c(2) assms(2) by (cases "frame_counter_suppression a = 0") simp_all
    with c(1,3) that show ?thesis by (cases c1, cases c2) (simp only:)
  qed
  have "b2 = b1 @ (if frame_counter_suppression a = 0 then frame_counter a else [])"
    using 2 put_from_Ok [of 4 "frame_counter a" b1 r1 b2 r2] assms(3) by (auto split: if_splits)
  moreover have "b' = b2 @ (if USES_EXPLICIT_KEYS opts \<and> key_id_mode a \<noteq> 0
      then take ((unat (key_id_mode a) - 1) * 4) (key_source a) @ [key_index a] else [])"
  proof (cases "USES_EXPLICIT_KEYS opts \<and> key_id_mode a \<noteq> 0")
    case True
    then obtain b3 r3 where "put_from ((unat (key_id_mode a) - 1) * 4) (key_source a) (b2, r2) = Ok (b3, r3)"
      "put [key_index a] (b3, r3) = Ok (b', r')" using 3 by (auto simp: res_iff)
    with True show ?thesis using put_from_Ok put_Ok by fastforce
  next
    case False
    then have "b' = b2" using 3 by (simp only: if_False res.inject prod.inject)
    with False show ?thesis by (simp only: if_False append_Nil2)
  qed
  ultimately show ?thesis using put_Ok [OF 1] by simp
qed

lemma addr_len_le: "addr_len m \<le> 8"
  by (simp add: addr_len_def)

lemma if_put_Ok: "(if c then put bs (b, r) else Ok (b, r)) = Ok (b', r') \<Longrightarrow> b' = b @ (if c then bs else [])"
  using put_Ok by (auto split: if_splits)

text \<open>The rest of the buffer is never changed.\<close>

definition at_rest :: "u8 list \<Rightarrow> cursor \<Rightarrow> bool" where
  "at_rest buf c \<longleftrightarrow> snd c = drop (length (fst c)) buf"

lemma put_rest [keeps_rules]: "keeps (at_rest buf) (put bs)"
  by (rule keepsI) (auto simp: at_rest_def put_def add.commute split: if_splits)

lemma put_from_rest [keeps_rules]: "keeps (at_rest buf) (put_from n bs)"
  using put_rest [of buf "take n bs"] by (auto simp: keeps_def put_from_def)

lemma skip_rest [keeps_rules]: "keeps (at_rest buf) skip"
proof (rule keepsI)
  fix c c'
  assume r: "at_rest buf c" and s: "skip c = Ok c'"
  obtain before b rest where c: "c = (before, b # rest)"
    using s by (cases c; cases "snd c") (auto simp: skip_def)
  then have "drop (length before) buf = b # rest" using r by (simp add: at_rest_def)
  then have "drop (Suc (length before)) buf = rest" by (metis drop_Suc list.sel(3) tl_drop)
  with s c show "at_rest buf c'" by (auto simp: skip_def at_rest_def)
qed

lemma put_addr_rest [keeps_rules]: "keeps (at_rest buf) (put_addr a n)"
proof (induction n)
  case (Suc n)
  have "keeps (at_rest buf) (\<lambda>c. bindR (put [a ! n] c) (put_addr a n))" by (intro keeps_bind put_rest Suc.IH)
  then show ?case by (simp add: keeps_def)
qed (simp add: keeps_Ok)

lemma create_aux_rest [keeps_rules]: "keeps (at_rest buf) (create_aux opts a)"
  unfolding create_aux_def
  by (rule keeps_run) (auto intro!: keeps_if keeps_bind put_rest put_from_rest skip_rest keeps_Ok)

lemma create_bytes:
  assumes "frame802154_create opts p buf = Ok (n, buf', p1)" and "arrays_ok p" and "frame_counter_size (aux_hdr p) \<noteq> 1"
  shows "p1 = compress p \<and> n = length (header_bytes opts p1) \<and> buf' = header_bytes opts p1 @ drop n buf"
proof -
  obtain l where l: "field_len opts p = (compress p, l)" 
    by (cases "frame802154_has_panid (fcf (compress p))") (auto simp: field_len_def Let_def)
  let ?q = "compress p"
  obtain hs hd where h: "frame802154_has_panid (fcf ?q) = (hs, hd)" by (cases "frame802154_has_panid (fcf ?q)")
  have lens: "seqno_len l = (if sequence_number_suppression (fcf ?q) AND 1 = 0 then 1 else 0)"
    "dest_pid_len l = (if hd then 2 else 0)" "dest_addr_len l = addr_len (dest_addr_mode (fcf ?q) AND 3)"
    "src_pid_len l = (if hs then 2 else 0)" "src_addr_len l = addr_len (src_addr_mode (fcf ?q) AND 3)"
    "aux_sec_len l = aux_len opts ?q"
    using l h by (auto simp: field_len_def Let_def)
  obtain c0 c1 where c: "frame802154_create_fcf (fcf ?q) = (c0, c1)" by (cases "frame802154_create_fcf (fcf ?q)")
  have arr: "length (dest_addr ?q) = 8" "length (src_addr ?q) = 8" "length (frame_counter (aux_hdr ?q)) = 4"
    "frame_counter_size (aux_hdr ?q) \<noteq> 1"
    using assms(2,3) by (simp_all add: arrays_ok_def compress_def)
  have aux: "USES_AUX_HEADER opts \<and> aux_sec_len l \<noteq> 0 \<longleftrightarrow> USES_AUX_HEADER opts \<and> security_enabled (fcf ?q) AND 1 \<noteq> 0"
    by (simp add: lens aux_len_def)
  obtain d1 r1 d2 r2 d3 r3 d4 r4 d5 r5 d6 r6 d7 r7 where
    s1: "put [c0, c1] ([], buf) = Ok (d1, r1)" and
    s2: "(if seqno_len l = 1 then put [seq ?q] (d1, r1) else Ok (d1, r1)) = Ok (d2, r2)" and
    s3: "(if dest_pid_len l = 2 then put (pid_bytes (dest_pid ?q)) (d2, r2) else Ok (d2, r2)) = Ok (d3, r3)" and
    s4: "put_addr (dest_addr ?q) (dest_addr_len l) (d3, r3) = Ok (d4, r4)" and
    s5: "(if src_pid_len l = 2 then put (pid_bytes (src_pid ?q)) (d4, r4) else Ok (d4, r4)) = Ok (d5, r5)" and
    s6: "put_addr (src_addr ?q) (src_addr_len l) (d5, r5) = Ok (d6, r6)" and
    s7: "(if USES_AUX_HEADER opts \<and> aux_sec_len l \<noteq> 0 then create_aux opts (aux_hdr ?q) (d6, r6) else Ok (d6, r6)) = Ok (d7, r7)" and
    out: "n = length d7" "buf' = d7 @ r7" "p1 = ?q"
    using assms(1) unfolding frame802154_create_def l prod.case c
    by (auto simp only: prod.case run.simps bindR_Ok_right bindR_Ok_iff split_paired_Ex res.inject prod.inject)
  have e1: "d1 = [c0, c1]" using put_Ok [OF s1] by simp
  have e2: "d2 = d1 @ seq_field ?q" using if_put_Ok [OF s2] by (simp add: lens seq_field_def split: if_splits)
  have e3: "d3 = d2 @ pid_field hd (dest_pid ?q)" using if_put_Ok [OF s3] by (simp add: lens pid_field_def split: if_splits)
  have e4: "d4 = d3 @ addr_field (dest_addr_mode (fcf ?q)) (dest_addr ?q)"
    using put_addr_Ok [OF s4] addr_len_le arr by (simp add: lens addr_field_def)
  have e5: "d5 = d4 @ pid_field hs (src_pid ?q)" using if_put_Ok [OF s5] by (simp add: lens pid_field_def split: if_splits)
  have e6: "d6 = d5 @ addr_field (src_addr_mode (fcf ?q)) (src_addr ?q)"
    using put_addr_Ok [OF s6] addr_len_le arr by (simp add: lens addr_field_def)
  have e7: "d7 = d6 @ aux_field opts ?q"
    using s7 create_aux_Ok [of opts "aux_hdr ?q" d6 r6 d7 r7] arr unfolding aux aux_field_def by (auto split: if_splits)
  have "r7 = drop (length d7) buf"
  proof -
    have 1: "at_rest buf (d1, r1)" using keepsD [OF put_rest _ s1] by (simp add: at_rest_def)
    have 2: "at_rest buf (d2, r2)" using 1 s2 keepsD [OF put_rest 1] by (auto split: if_splits)
    have 3: "at_rest buf (d3, r3)" using 2 s3 keepsD [OF put_rest 2] by (auto split: if_splits)
    have 4: "at_rest buf (d4, r4)" using keepsD [OF put_addr_rest 3 s4] .
    have 5: "at_rest buf (d5, r5)" using 4 s5 keepsD [OF put_rest 4] by (auto split: if_splits)
    have 6: "at_rest buf (d6, r6)" using keepsD [OF put_addr_rest 5 s6] .
    have "at_rest buf (d7, r7)" using 6 s7 keepsD [OF create_aux_rest 6] by (auto split: if_splits)
    then show ?thesis by (simp add: at_rest_def)
  qed
  then show ?thesis using out c h e1 e2 e3 e4 e5 e6 e7 by (simp add: addr_bytes_def header_bytes_def)
qed

section \<open>Reading the bytes back\<close>

lemma get_append: "length bs = n \<Longrightarrow> get n (bs @ rest) k = k bs rest"
  by (auto simp: get_def)

lemma pid_of_bytes [simp]: "pid_of (pid_bytes pid) = pid"
proof -
  have "pid_bytes pid = enc_u16 pid"
    unfolding pid_bytes_def enc_u16_def by (auto intro!: u8_eqI simp: bit_simps)
  then show ?thesis using dec_enc_u16 [of pid] by (simp add: pid_of_def dec_u16_def)
qed

lemma length_pid_bytes [simp]: "length (pid_bytes pid) = 2"
  by (simp add: pid_bytes_def)

lemma unpack_scf:
  fixes a b c :: u8
  defines "w \<equiv> (a AND mask 3) OR push_bit 3 (b AND mask 2) OR push_bit 5 (c AND mask 1)"
  shows "w AND mask 3 = a AND mask 3" and "drop_bit 3 w AND mask 2 = b AND mask 2"
    and "drop_bit 5 w = c AND mask 1" and "drop_bit 6 w = 0"
  unfolding w_def by (rule u8_eqI; elim disjE; simp add: bit_simps bit_twice)+

text \<open>The frames whose header survives.\<close>

definition frame_ok :: "frame_opts \<Rightarrow> frame802154 \<Rightarrow> bool" where
  "frame_ok opts p \<longleftrightarrow> arrays_ok p \<and> fcf_ok (fcf p) \<and>
     \<not> (frame_version (fcf p) = FRAME802154_IEEE802154E_2012 \<and> dest_addr_mode (fcf p) = FRAME802154_NOADDR \<and>
        src_addr_mode (fcf p) = FRAME802154_NOADDR \<and> panid_compression (fcf p) = 1) \<and>
     (let a = aux_hdr p in security_level a < 8 \<and> key_id_mode a < 4 \<and> frame_counter_suppression a < 2 \<and>
        frame_counter_size a = 0)"

text \<open>What the parser has to recover of the address fields.\<close>

definition same_addr :: "u8 \<Rightarrow> u8 list \<Rightarrow> u8 list \<Rightarrow> bool" where
  "same_addr mode a b \<longleftrightarrow> take (addr_len mode) a = take (addr_len mode) b"

lemma parse_addr_field:
  assumes "mode < 4" and "length a = 8" and "length b = 8"
  shows "\<exists>c. parse_addr mode b (addr_field mode a @ rest) = Ok (rest, c) \<and> same_addr mode c a \<and> length c = 8"
proof -
  have m: "mode AND 3 = mode" using assms(1) by (rule and_mask_small)
  consider "mode = 2" | "mode = 3" | "mode \<noteq> 2" "mode \<noteq> 3" by blast
  then show ?thesis
  proof cases
    case 1
    obtain x y xs where a: "a = x # y # xs" using assms(2) by (auto simp: length_Suc_conv numeral_eq_Suc)
    obtain x' y' ys where b: "b = x' # y' # ys" using assms(3) by (auto simp: length_Suc_conv numeral_eq_Suc)
    show ?thesis using 1 a b assms(3)
      by (simp add: parse_addr_def addr_field_def m addr_len_def get_def same_addr_def)
  next
    case 2
    then show ?thesis using assms(2,3)
      by (simp add: parse_addr_def addr_field_def m addr_len_def get_def same_addr_def)
  next
    case 3
    then show ?thesis using assms(3)
      by (simp add: parse_addr_def addr_field_def m addr_len_def same_addr_def)
  qed
qed

lemma has_panid_modes:
  assumes "frame802154_has_panid f = (spn, dpn)" and "fcf_ok f"
    and "\<not> (frame_version f = FRAME802154_IEEE802154E_2012 \<and> dest_addr_mode f = FRAME802154_NOADDR \<and>
        src_addr_mode f = FRAME802154_NOADDR \<and> panid_compression f = 1)"
  shows "spn \<Longrightarrow> src_addr_mode f \<noteq> 0" and "dpn \<Longrightarrow> dest_addr_mode f \<noteq> 0"
  using assms by (auto simp: frame802154_has_panid_def Let_def split: if_splits)

lemma parse_dest_field:
  assumes d: "dest_addr_mode (fcf pf) < 4" and len: "length (dest_addr pf) = 8" "length a = 8"
    and dpn: "dpn \<Longrightarrow> dest_addr_mode (fcf pf) \<noteq> 0"
  shows "\<exists>c pid. parse_dest dpn (pid_field dpn dp @ addr_field (dest_addr_mode (fcf pf)) a @ rest) pf =
      Ok (rest, pf\<lparr>dest_addr := c, dest_pid := pid\<rparr>) \<and> same_addr (dest_addr_mode (fcf pf)) c a \<and> length c = 8 \<and>
      pid = (if dpn then dp else 0)"
proof -
  let ?m = "dest_addr_mode (fcf pf)"
  obtain c where c: "parse_addr ?m (dest_addr pf) (addr_field ?m a @ rest) = Ok (rest, c)" "same_addr ?m c a" "length c = 8"
    using parse_addr_field [OF d len(2,1)] by blast
  show ?thesis
  proof (cases "?m = 0")
    case True
    then have "\<not> dpn" using dpn by blast
    then show ?thesis using True len
      by (intro exI [of _ "(dest_addr pf)[0 := 0, 1 := 0]"] exI [of _ 0])
        (simp add: parse_dest_def pid_field_def addr_field_def addr_len_def same_addr_def)
  next
    case False
    have "parse_dest dpn (pid_field dpn dp @ addr_field ?m a @ rest) pf =
        Ok (rest, pf\<lparr>dest_pid := if dpn then dp else 0, dest_addr := c\<rparr>)"
      using False c by (cases dpn) (simp_all add: parse_dest_def pid_field_def get_append)
    then show ?thesis using c(2,3) by (intro exI [of _ c] exI [of _ "if dpn then dp else 0"]) simp
  qed
qed

lemma parse_src_field:
  assumes d: "src_addr_mode (fcf pf) < 4" and len: "length (src_addr pf) = 8" "length a = 8"
    and spn: "spn \<Longrightarrow> src_addr_mode (fcf pf) \<noteq> 0"
  shows "\<exists>c spid dpid. parse_src spn dpn (pid_field spn sp @ addr_field (src_addr_mode (fcf pf)) a @ rest) pf =
      Ok (rest, pf\<lparr>src_addr := c, src_pid := spid, dest_pid := dpid\<rparr>) \<and>
      same_addr (src_addr_mode (fcf pf)) c a \<and>
      spid = (if src_addr_mode (fcf pf) = 0 then 0 else if spn then sp else dest_pid pf) \<and>
      dpid = (if spn \<and> \<not> dpn then sp else dest_pid pf)"
proof -
  let ?m = "src_addr_mode (fcf pf)"
  obtain c where c: "parse_addr ?m (src_addr pf) (addr_field ?m a @ rest) = Ok (rest, c)" "same_addr ?m c a"
    using parse_addr_field [OF d len(2,1)] by blast
  show ?thesis
  proof (cases "?m = 0")
    case True
    then have "\<not> spn" using spn by blast
    then show ?thesis using True
      by (intro exI [of _ "(src_addr pf)[0 := 0, 1 := 0]"] exI [of _ 0] exI [of _ "dest_pid pf"])
        (simp add: parse_src_def pid_field_def addr_field_def addr_len_def same_addr_def)
  next
    case False
    have "parse_src spn dpn (pid_field spn sp @ addr_field ?m a @ rest) pf =
        Ok (rest, pf\<lparr>src_addr := c, src_pid := if spn then sp else dest_pid pf,
          dest_pid := if spn \<and> \<not> dpn then sp else dest_pid pf\<rparr>)"
      using False c by (cases spn; cases dpn) (simp_all add: parse_src_def pid_field_def get_append)
    then show ?thesis using c(2) False
      by (intro exI [of _ c] exI [of _ "if spn then sp else dest_pid pf"] exI [of _ "if spn \<and> \<not> dpn then sp else dest_pid pf"])
        simp
  qed
qed

text \<open>The security header: what is read is what was written.\<close>

definition same_aux :: "frame_opts \<Rightarrow> frame802154_aux_hdr \<Rightarrow> frame802154_aux_hdr \<Rightarrow> bool" where
  "same_aux opts a b \<longleftrightarrow> security_level a = security_level b \<and>
     frame_counter_suppression a = frame_counter_suppression b \<and> frame_counter_size a = frame_counter_size b \<and>
     (frame_counter_suppression b = 0 \<longrightarrow> frame_counter a = frame_counter b) \<and>
     (USES_EXPLICIT_KEYS opts \<longrightarrow> key_id_mode a = key_id_mode b \<and>
        (key_id_mode b \<noteq> 0 \<longrightarrow> key_index a = key_index b \<and>
           take ((unat (key_id_mode b) - 1) * 4) (key_source a) = take ((unat (key_id_mode b) - 1) * 4) (key_source b)))"

lemma scf_fields:
  assumes "security_level a < 8" "key_id_mode a < 4" "frame_counter_suppression a < 2" "frame_counter_size a = 0"
  shows "scf_byte opts a AND 7 = security_level a"
    and "drop_bit 3 (scf_byte opts a) AND 3 = (if USES_EXPLICIT_KEYS opts then key_id_mode a else 0)"
    and "drop_bit 5 (scf_byte opts a) = frame_counter_suppression a" and "drop_bit 6 (scf_byte opts a) = 0"
proof -
  let ?k = "if USES_EXPLICIT_KEYS opts then key_id_mode a else 0"
  have k: "?k < 4" using assms(2) by simp
  have m: "security_level a AND mask 3 = security_level a" "?k AND mask 2 = ?k"
    "frame_counter_suppression a AND mask 1 = frame_counter_suppression a"
    using less_mask_eq [of "security_level a" 3] less_mask_eq [of ?k 2] less_mask_eq [of "frame_counter_suppression a" 1]
      assms k by simp_all
  have b: "scf_byte opts a = (security_level a AND mask 3) OR push_bit 3 (?k AND mask 2) OR
      push_bit 5 (frame_counter_suppression a AND mask 1)"
    unfolding m by (simp add: scf_byte_def assms(4))
  note u = unpack_scf [of "security_level a" ?k "frame_counter_suppression a", folded b, unfolded m]
  show "scf_byte opts a AND 7 = security_level a" using u(1) by (simp add: mask_eq_exp_minus_1)
  show "drop_bit 3 (scf_byte opts a) AND 3 = ?k" using u(2) by (simp add: mask_eq_exp_minus_1)
  show "drop_bit 5 (scf_byte opts a) = frame_counter_suppression a" "drop_bit 6 (scf_byte opts a) = 0"
    using u(3,4) by simp_all
qed

lemma parse_aux_field:
  assumes sec: "security_enabled (fcf p) < 2" "security_enabled (fcf pf) = security_enabled (fcf p)"
    and a: "security_level (aux_hdr p) < 8" "key_id_mode (aux_hdr p) < 4" "frame_counter_suppression (aux_hdr p) < 2"
      "frame_counter_size (aux_hdr p) = 0" "length (frame_counter (aux_hdr p)) = 4" "length (key_source (aux_hdr p)) = 8"
  shows "\<exists>c. parse_aux opts (aux_field opts p @ rest) pf = Ok (rest, pf\<lparr>aux_hdr := c\<rparr>) \<and>
     (USES_AUX_HEADER opts \<and> security_enabled (fcf p) \<noteq> 0 \<longrightarrow> same_aux opts c (aux_hdr p))"
proof (cases "USES_AUX_HEADER opts \<and> security_enabled (fcf p) \<noteq> 0")
  case False
  moreover have "security_enabled (fcf p) AND 1 = security_enabled (fcf p)" using sec(1) by (rule and_mask_small)
  ultimately show ?thesis using sec(2) by (intro exI [of _ "aux_hdr pf"]) (auto simp: parse_aux_def aux_field_def)
next
  case True
  have sec1: "security_enabled (fcf p) AND 1 = security_enabled (fcf p)" using sec(1) by (rule and_mask_small)
  let ?a = "aux_hdr p" and ?b = "scf_byte opts (aux_hdr p)"
  note f = scf_fields [OF a(1-4), of opts]
  let ?key = "USES_EXPLICIT_KEYS opts \<and> key_id_mode ?a \<noteq> 0" and ?n = "(unat (key_id_mode ?a) - 1) * 4"
  define cnt where "cnt = (if frame_counter_suppression ?a = 0 then frame_counter ?a else [])"
  define kb where "kb = (if ?key then take ?n (key_source ?a) @ [key_index ?a] else [])"
  define a3 where "a3 = parse_scf opts ?b (aux_hdr pf)"
  define a4 where "a4 = (if frame_counter_suppression ?a = 0 then a3\<lparr>frame_counter := frame_counter ?a\<rparr> else a3)"
  have a3: "frame_counter_suppression a3 = frame_counter_suppression ?a" "frame_counter_size a3 = 0"
    "security_level a3 = security_level ?a" "USES_EXPLICIT_KEYS opts \<Longrightarrow> key_id_mode a3 = key_id_mode ?a"
    by (simp_all add: a3_def parse_scf_def Let_def f)
  have bytes: "aux_field opts p = [?b] @ cnt @ kb" using True sec1 by (simp add: aux_field_def cnt_def kb_def)
  have counter: "parse_counter (cnt @ kb @ rest) a3 = Ok (kb @ rest, a4)"
    using a(5) a3 by (simp add: parse_counter_def cnt_def a4_def get_append)
  have "unat (key_id_mode ?a) < 4" using a(2) by (simp add: word_less_nat_alt)
  then have n: "?n \<le> 8" by simp
  define a5 where "a5 = (if ?key then a4\<lparr>key_source := take ?n (key_source ?a) @ drop ?n (key_source a4), key_index := key_index ?a\<rparr> else a4)"
  have a4: "USES_EXPLICIT_KEYS opts \<Longrightarrow> key_id_mode a4 = key_id_mode ?a" using a3 by (simp add: a4_def)
  have key: "parse_key opts (kb @ rest) a4 = Ok (rest, a5)"
    using n a(6) a4 by (auto simp: parse_key_def kb_def a5_def Let_def get_append get_def)
  have "parse_aux opts (aux_field opts p @ rest) pf = Ok (rest, pf\<lparr>aux_hdr := a5\<rparr>)"
    using True sec(2) counter key unfolding bytes
    by (simp add: parse_aux_def get_def a3_def)
  moreover have "same_aux opts a5 ?a"
    using a3 a(4,6) n by (auto simp: same_aux_def a5_def a4_def min_def)
  ultimately show ?thesis by blast
qed

section \<open>Properties of the header\<close>

lemma compress_ok: "frame_ok opts p \<Longrightarrow> frame_ok opts (compress p)"
  by (auto simp: compress_def frame_ok_def fcf_ok_def arrays_ok_def)

text \<open>What the parser finds in a header, whatever follows it.\<close>

definition recovers :: "frame_opts \<Rightarrow> frame802154 \<Rightarrow> frame802154 \<Rightarrow> bool" where
  "recovers opts q p1 \<longleftrightarrow>
    fcf q = fcf p1 \<and> (sequence_number_suppression (fcf p1) = 0 \<longrightarrow> seq q = seq p1) \<and>
    same_addr (dest_addr_mode (fcf p1)) (dest_addr q) (dest_addr p1) \<and>
    same_addr (src_addr_mode (fcf p1)) (src_addr q) (src_addr p1) \<and>
    (snd (frame802154_has_panid (fcf p1)) \<longrightarrow> dest_pid q = dest_pid p1) \<and>
    (fst (frame802154_has_panid (fcf p1)) \<longrightarrow> src_pid q = src_pid p1) \<and>
    (USES_AUX_HEADER opts \<and> security_enabled (fcf p1) \<noteq> 0 \<longrightarrow> same_aux opts (aux_hdr q) (aux_hdr p1))"

lemma parse_header:
  assumes ok: "frame_ok opts p1" and len: "int (length (header_bytes opts p1)) \<le> len" and pf: "arrays_ok pf"
  shows "\<exists>q. frame802154_parse opts (header_bytes opts p1 @ rest) len pf = Ok (length (header_bytes opts p1), q) \<and>
    payload q = length (header_bytes opts p1) \<and> payload_len q = len - int (length (header_bytes opts p1)) \<and>
    recovers opts q p1"
proof -
  obtain b0 b1 where fcf: "frame802154_create_fcf (fcf p1) = (b0, b1)" by (cases "frame802154_create_fcf (fcf p1)")
  let ?n = "length (header_bytes opts p1)"
  have q: "fcf_ok (fcf p1)" "arrays_ok p1" using ok by (simp_all add: frame_ok_def)
  note f = parse_create_fcf [OF q(1) fcf]
  obtain spn dpn where h: "frame802154_has_panid (fcf p1) = (spn, dpn)" by (cases "frame802154_has_panid (fcf p1)")
  have modes: "spn \<Longrightarrow> src_addr_mode (fcf p1) \<noteq> 0" "dpn \<Longrightarrow> dest_addr_mode (fcf p1) \<noteq> 0"
    using has_panid_modes [OF h q(1)] ok unfolding frame_ok_def by blast+
  define pf0 where "pf0 = pf\<lparr>fcf := fcf p1\<rparr>"
  let ?tail = "aux_field opts p1 @ rest"
  let ?srcb = "pid_field spn (src_pid p1) @ addr_field (src_addr_mode (fcf p1)) (src_addr p1)"
  let ?dstb = "pid_field dpn (dest_pid p1) @ addr_field (dest_addr_mode (fcf p1)) (dest_addr p1)"
  have supp: "sequence_number_suppression (fcf p1) AND 1 = sequence_number_suppression (fcf p1)"
    using q(1) by (simp add: fcf_ok_def and_mask_small)
  define pf1 where "pf1 = (if sequence_number_suppression (fcf p1) = 0 then pf0\<lparr>seq := seq p1\<rparr> else pf0)"
  have s1: "parse_seq (seq_field p1 @ r) pf0 = Ok (r, pf1)" for r
    using supp by (simp add: parse_seq_def seq_field_def pf0_def pf1_def get_def)
  have pf1: "fcf pf1 = fcf p1" "length (dest_addr pf1) = 8" "length (src_addr pf1) = 8"
    using pf by (simp_all add: pf1_def pf0_def arrays_ok_def)
  obtain d dp where s2: "parse_dest dpn (?dstb @ ?srcb @ ?tail) pf1 = Ok (?srcb @ ?tail, pf1\<lparr>dest_addr := d, dest_pid := dp\<rparr>)"
    and d: "same_addr (dest_addr_mode (fcf p1)) d (dest_addr p1)" "dp = (if dpn then dest_pid p1 else 0)"
    using parse_dest_field [of pf1 "dest_addr p1" dpn "dest_pid p1" "?srcb @ ?tail"] pf1 q(1,2) modes
    unfolding append_assoc pf1(1) by (auto simp: fcf_ok_def arrays_ok_def)
  let ?pf2 = "pf1\<lparr>dest_addr := d, dest_pid := dp\<rparr>"
  obtain a sp dp' where s3: "parse_src spn dpn (?srcb @ ?tail) ?pf2 = Ok (?tail, ?pf2\<lparr>src_addr := a, src_pid := sp, dest_pid := dp'\<rparr>)"
    and a: "same_addr (src_addr_mode (fcf p1)) a (src_addr p1)" "spn \<Longrightarrow> sp = src_pid p1" "dpn \<Longrightarrow> dp' = dp"
    using parse_src_field [of ?pf2 "src_addr p1" spn dpn "src_pid p1" ?tail] pf1 q(1,2) modes
    unfolding append_assoc by (auto simp: fcf_ok_def arrays_ok_def)
  let ?pf3 = "?pf2\<lparr>src_addr := a, src_pid := sp, dest_pid := dp'\<rparr>"
  obtain x where s4: "parse_aux opts ?tail ?pf3 = Ok (rest, ?pf3\<lparr>aux_hdr := x\<rparr>)"
    and x: "USES_AUX_HEADER opts \<and> security_enabled (fcf p1) \<noteq> 0 \<longrightarrow> same_aux opts x (aux_hdr p1)"
    using parse_aux_field [of p1 ?pf3 opts rest] q ok pf1(1) by (auto simp: frame_ok_def fcf_ok_def arrays_ok_def Let_def)
  have body: "header_bytes opts p1 @ rest = [b0, b1] @ seq_field p1 @ ?dstb @ ?srcb @ ?tail"
    by (simp add: header_bytes_def fcf addr_bytes_def h)
  have n2: "2 \<le> ?n" by (simp add: header_bytes_def fcf)
  have "get 2 (header_bytes opts p1 @ rest) k = k [b0, b1] (seq_field p1 @ ?dstb @ ?srcb @ ?tail)" for k :: "u8 list \<Rightarrow> u8 list \<Rightarrow> (nat \<times> frame802154) res"
    unfolding body by (simp add: get_def)
  then have "frame802154_parse opts (header_bytes opts p1 @ rest) len pf =
      Ok (?n, (?pf3\<lparr>aux_hdr := x\<rparr>)\<lparr>payload_len := len - int ?n, payload := ?n\<rparr>)"
    using s1 [of "?dstb @ ?srcb @ ?tail"] s2 s3 s4 n2 len
    by (simp add: frame802154_parse_def f h pf0_def [symmetric] Let_def)
  moreover have "recovers opts (?pf3\<lparr>aux_hdr := x\<rparr>) p1" using d a x pf1(1) h by (auto simp: pf1_def recovers_def)
  ultimately show ?thesis by (auto simp: recovers_def)
qed

section \<open>The length of the header\<close>

lemma length_addr_field: "length a = 8 \<Longrightarrow> length (addr_field m a) = addr_len (m AND 3)"
  using addr_len_le [of "m AND 3"] by (simp add: addr_field_def)

lemma key_id_length: "(m :: u8) < 4 \<Longrightarrow> get_key_id_len m = (if m \<noteq> 0 then (unat m - 1) * 4 + 1 else 0)"
proof -
  assume "m < 4"
  then have "unat m < 4" by (simp add: word_less_nat_alt)
  then consider "unat m = 0" | "unat m = 1" | "unat m = 2" | "unat m = 3" by linarith
  then have "m = 0 \<or> m = 1 \<or> m = 2 \<or> m = 3" by cases (simp_all add: word_unat_eq_iff)
  then show ?thesis by (auto simp: get_key_id_len_def)
qed

lemma hdrlen_bytes:
  assumes "frame_ok opts p"
  shows "frame802154_hdrlen opts p = (length (header_bytes opts (compress p)), compress p)"
proof -
  let ?q = "compress p"
  obtain spn dpn where h: "frame802154_has_panid (fcf ?q) = (spn, dpn)" by (cases "frame802154_has_panid (fcf ?q)")
  obtain c0 c1 where c: "frame802154_create_fcf (fcf ?q) = (c0, c1)" by (cases "frame802154_create_fcf (fcf ?q)")
  have arr: "length (dest_addr ?q) = 8" "length (src_addr ?q) = 8" "length (frame_counter (aux_hdr ?q)) = 4"
    "length (key_source (aux_hdr ?q)) = 8" "key_id_mode (aux_hdr ?q) < 4" "frame_counter_size (aux_hdr ?q) = 0"
    using compress_ok [OF assms] by (simp_all add: frame_ok_def arrays_ok_def Let_def)
  have "unat (key_id_mode (aux_hdr ?q)) < 4" using arr(5) by (simp add: word_less_nat_alt)
  then have "(unat (key_id_mode (aux_hdr ?q)) - 1) * 4 \<le> 8" by simp
  then have "length (aux_field opts ?q) = aux_len opts ?q"
    using arr key_id_length [OF arr(5)] by (auto simp: aux_field_def aux_len_def)
  then show ?thesis
    using h c arr(1,2) length_addr_field
    by (simp add: frame802154_hdrlen_def field_len_def Let_def header_bytes_def addr_bytes_def pid_field_def seq_field_def)
qed

text \<open>A step of the builder that writes \<open>n\<close> bytes succeeds when the buffer has room for them.\<close>

definition fits :: "nat \<Rightarrow> (cursor \<Rightarrow> cursor res) \<Rightarrow> bool" where
  "fits n f \<longleftrightarrow> (\<forall>b r. n \<le> length r \<longrightarrow> (\<exists>b' r'. f (b, r) = Ok (b', r') \<and> length r' = length r - n))"

lemma fitsD: "fits n f \<Longrightarrow> n \<le> length r \<Longrightarrow> \<exists>b' r'. f (b, r) = Ok (b', r')"
  unfolding fits_def by blast

lemma fits_put: "fits (length bs) (put bs)"
  by (simp add: fits_def put_def)

lemma fits_put_from: "n \<le> length bs \<Longrightarrow> fits n (put_from n bs)"
  by (simp add: fits_def put_from_def put_def min_def)

lemma fits_Ok: "fits 0 Ok"
  by (simp add: fits_def)

lemma fits_bind: "fits n f \<Longrightarrow> fits m g \<Longrightarrow> fits (n + m) (\<lambda>c. bindR (f c) g)"
proof (unfold fits_def, intro allI impI)
  fix b r :: "u8 list"
  assume f: "\<forall>b r. n \<le> length r \<longrightarrow> (\<exists>b' r'. f (b, r) = Ok (b', r') \<and> length r' = length r - n)"
    and g: "\<forall>b r. m \<le> length r \<longrightarrow> (\<exists>b' r'. g (b, r) = Ok (b', r') \<and> length r' = length r - m)" and r: "n + m \<le> length r"
  obtain b1 r1 where 1: "f (b, r) = Ok (b1, r1)" "length r1 = length r - n" using f r by (meson add_leD1)
  with r g [rule_format, of r1 b1] show "\<exists>b' r'. bindR (f (b, r)) g = Ok (b', r') \<and> length r' = length r - (n + m)" by auto
qed

lemma fits_if: "(c \<Longrightarrow> fits n f) \<Longrightarrow> (\<not> c \<Longrightarrow> fits m g) \<Longrightarrow> fits (if c then n else m) (\<lambda>x. if c then f x else g x)"
  by simp

lemma fits_run: "list_all2 fits ns fs \<Longrightarrow> fits (sum_list ns) (run fs)"
proof (induction rule: list_all2_induct)
  case (Cons n ns f fs)
  then show ?case using fits_bind [of n f "sum_list ns" "run fs"] by (simp add: fits_def)
qed (simp add: fits_def)

lemma fits_put_addr: "fits n (put_addr a n)"
proof (induction n)
  case (Suc n)
  show ?case using fits_bind [OF fits_put [of "[a ! n]"] Suc.IH] by (simp add: fits_def)
qed (simp add: fits_def)

lemma fits_create_aux:
  assumes "length (frame_counter a) = 4" and "length (key_source a) = 8" and "key_id_mode a < 4" and "frame_counter_size a \<noteq> 1"
  shows "fits (1 + (if frame_counter_suppression a = 0 then 4 else 0) +
     (if USES_EXPLICIT_KEYS opts then get_key_id_len (key_id_mode a) else 0)) (create_aux opts a)"
proof -
  let ?k = "USES_EXPLICIT_KEYS opts \<and> key_id_mode a \<noteq> 0" and ?n = "(unat (key_id_mode a) - 1) * 4"
  have n: "?n \<le> length (key_source a)"
    using assms(2,3) by (simp add: word_less_nat_alt)
  have 1: "fits (if frame_counter_suppression a = 0 then 4 else 0)
      (\<lambda>c. if frame_counter_suppression a = 0
        then bindR (put_from 4 (frame_counter a) c) (\<lambda>c1. if frame_counter_size a = 1 then skip c1 else Ok c1)
        else Ok c)"
    using fits_put_from [of 4 "frame_counter a"] fits_Ok assms(1,4) by simp
  have 2: "fits (if ?k then ?n + 1 else 0)
      (\<lambda>c. if ?k then bindR (put_from ?n (key_source a) c) (put [key_index a]) else Ok c)"
    using fits_if [of ?k "?n + 1"] fits_bind [OF fits_put_from [OF n] fits_put [of "[key_index a]"]] fits_Ok by simp
  have "list_all2 fits [1, if frame_counter_suppression a = 0 then 4 else 0, if ?k then ?n + 1 else 0]
    [put [scf_byte opts a],
     \<lambda>c. if frame_counter_suppression a = 0
        then bindR (put_from 4 (frame_counter a) c) (\<lambda>c1. if frame_counter_size a = 1 then skip c1 else Ok c1)
        else Ok c,
     \<lambda>c. if ?k then bindR (put_from ?n (key_source a) c) (put [key_index a]) else Ok c]"
    using 1 2 fits_put [of "[scf_byte opts a]"] by simp
  from fits_run [OF this] have "fits (1 + (if frame_counter_suppression a = 0 then 4 else 0) + (if ?k then ?n + 1 else 0)) (create_aux opts a)"
    unfolding create_aux_def by (simp only: sum_list.Cons sum_list.Nil add_0_right add.assoc)
  moreover have "(if USES_EXPLICIT_KEYS opts then get_key_id_len (key_id_mode a) else 0) = (if ?k then ?n + 1 else 0)"
    unfolding key_id_length [OF assms(3)] by simp
  ultimately show ?thesis by (simp only:)
qed

lemma create_returns:
  assumes ok: "frame_ok opts p" and room: "fst (frame802154_hdrlen opts p) \<le> length buf"
  shows "\<exists>buf' p1. frame802154_create opts p buf = Ok (fst (frame802154_hdrlen opts p), buf', p1)"
proof -
  obtain q l where l: "field_len opts p = (q, l)" by (cases "field_len opts p")
  then have q: "q = compress p" by (auto simp: field_len_def Let_def split: prod.splits)
  obtain c0 c1 where c: "frame802154_create_fcf (fcf q) = (c0, c1)" by (cases "frame802154_create_fcf (fcf q)")
  have a: "length (frame_counter (aux_hdr q)) = 4" "length (key_source (aux_hdr q)) = 8" "key_id_mode (aux_hdr q) < 4"
    "frame_counter_size (aux_hdr q) \<noteq> 1"
    using compress_ok [OF ok] q by (simp_all add: frame_ok_def arrays_ok_def Let_def)
  have pid: "fits (dest_pid_len l) (\<lambda>c. if dest_pid_len l = 2 then put (pid_bytes (dest_pid q)) c else Ok c)"
    "fits (src_pid_len l) (\<lambda>c. if src_pid_len l = 2 then put (pid_bytes (src_pid q)) c else Ok c)"
    "fits (seqno_len l) (\<lambda>c. if seqno_len l = 1 then put [seq q] c else Ok c)"
    using l fits_put [of "pid_bytes (dest_pid q)"] fits_put [of "pid_bytes (src_pid q)"] fits_put [of "[seq q]"] fits_Ok
    by (auto simp: field_len_def Let_def split: prod.splits)
  have len: "aux_sec_len l = aux_len opts q" using l by (auto simp: field_len_def Let_def split: prod.splits)
  have aux: "fits (aux_sec_len l) (\<lambda>c. if USES_AUX_HEADER opts \<and> aux_sec_len l \<noteq> 0 then create_aux opts (aux_hdr q) c else Ok c)"
    using fits_create_aux [OF a, of opts] a(4) fits_Ok unfolding len aux_len_def by auto
  define steps where "steps = [put [c0, c1],
     (\<lambda>c. if seqno_len l = 1 then put [seq q] c else Ok c),
     (\<lambda>c. if dest_pid_len l = 2 then put (pid_bytes (dest_pid q)) c else Ok c),
     put_addr (dest_addr q) (dest_addr_len l),
     (\<lambda>c. if src_pid_len l = 2 then put (pid_bytes (src_pid q)) c else Ok c),
     put_addr (src_addr q) (src_addr_len l),
     (\<lambda>c. if USES_AUX_HEADER opts \<and> aux_sec_len l \<noteq> 0 then create_aux opts (aux_hdr q) c else Ok c)]"
  have "list_all2 fits [2, seqno_len l, dest_pid_len l, dest_addr_len l, src_pid_len l, src_addr_len l, aux_sec_len l] steps"
    unfolding steps_def using pid aux fits_put [of "[c0, c1]"] fits_put_addr by (simp add: numeral_2_eq_2)
  note s = fits_run [OF this]
  have r: "frame802154_create opts p buf = bindR (run steps ([], buf)) (\<lambda>(done, rest). Ok (length done, done @ rest, q))"
    unfolding frame802154_create_def l prod.case c steps_def ..
  obtain b' r' where "run steps ([], buf) = Ok (b', r')" using fitsD [OF s, of buf "[]"] room by (auto simp: frame802154_hdrlen_def l add.assoc)
  with r obtain n buf' where r: "frame802154_create opts p buf = Ok (n, buf', q)" by simp
  have "n = fst (frame802154_hdrlen opts p)"
    using create_bytes [OF r] hdrlen_bytes [OF ok] ok q by (simp add: frame_ok_def Let_def)
  with r show ?thesis by blast
qed

section \<open>Round trip and safety\<close>

text \<open>
  C5: A header that the program builds is understood by the program. For every frame whose fields fit
  their bits (and that is not a 2012 frame without addresses but with the compression bit, and has a
  frame counter of four bytes) the builder returns when the buffer has the room that \<open>frame802154_hdrlen\<close>
  announces, it changes nothing behind the header, and the parser finds the same length and recovers the
  control field, the sequence number, the PAN IDs, the addresses and the security header.
\<close>

theorem frame802154_round_trip:
  assumes "frame_ok opts p" and "fst (frame802154_hdrlen opts p) \<le> length buf"
    and "int (fst (frame802154_hdrlen opts p)) \<le> len" and "arrays_ok pf"
  shows "\<exists>n buf' p1 q. frame802154_create opts p buf = Ok (n, buf', p1) \<and> n = fst (frame802154_hdrlen opts p) \<and>
    drop n buf' = drop n buf \<and> frame802154_parse opts buf' len pf = Ok (n, q) \<and>
    payload q = n \<and> payload_len q = len - int n \<and>
    fcf q = fcf p1 \<and> (sequence_number_suppression (fcf p) = 0 \<longrightarrow> seq q = seq p) \<and>
    same_addr (dest_addr_mode (fcf p)) (dest_addr q) (dest_addr p) \<and>
    same_addr (src_addr_mode (fcf p)) (src_addr q) (src_addr p) \<and>
    (snd (frame802154_has_panid (fcf p1)) \<longrightarrow> dest_pid q = dest_pid p) \<and>
    (fst (frame802154_has_panid (fcf p1)) \<longrightarrow> src_pid q = src_pid p) \<and>
    (USES_AUX_HEADER opts \<and> security_enabled (fcf p) \<noteq> 0 \<longrightarrow> same_aux opts (aux_hdr q) (aux_hdr p))"
proof -
  obtain n buf' p1 where r: "frame802154_create opts p buf = Ok (n, buf', p1)" and n: "n = fst (frame802154_hdrlen opts p)"
    using create_returns [OF assms(1,2)] by blast
  have "frame_counter_size (aux_hdr p) \<noteq> 1" "arrays_ok p" using assms(1) by (simp_all add: frame_ok_def Let_def)
  with create_bytes [OF r] have c: "p1 = compress p" "n = length (header_bytes opts p1)"
    "buf' = header_bytes opts p1 @ drop n buf" by blast+
  have "dest_addr_mode (fcf p1) = dest_addr_mode (fcf p)" "src_addr_mode (fcf p1) = src_addr_mode (fcf p)"
    "dest_addr p1 = dest_addr p" "src_addr p1 = src_addr p" "dest_pid p1 = dest_pid p" "src_pid p1 = src_pid p"
    "sequence_number_suppression (fcf p1) = sequence_number_suppression (fcf p)"
    "security_enabled (fcf p1) = security_enabled (fcf p)" "aux_hdr p1 = aux_hdr p" "seq p1 = seq p"
    using c(1) by (simp_all add: compress_def)
  moreover have "frame_ok opts p1" using compress_ok [OF assms(1)] c(1) by simp
  moreover have "int (length (header_bytes opts p1)) \<le> len" using assms(3) c(2) n by simp
  then obtain q where "frame802154_parse opts buf' len pf = Ok (n, q)" "payload q = n" "payload_len q = len - int n"
    "recovers opts q p1"
    using parse_header [of opts p1 len pf "drop n buf"] calculation assms(4) unfolding c(3) c(2) [symmetric] by blast
  moreover have "drop n buf' = drop n buf" using c(2,3) by simp
  ultimately show ?thesis
    using r n unfolding recovers_def by (intro exI [of _ n] exI [of _ buf'] exI [of _ p1] exI [of _ q]) simp
qed

text \<open>A data frame of 2006 with short addresses in one PAN.\<close>

definition demo_opts :: frame_opts where
  "demo_opts = \<lparr>USES_AUX_HEADER = True, USES_EXPLICIT_KEYS = True\<rparr>"

definition demo_frame :: frame802154 where
  "demo_frame = \<lparr>dest_addr = [0x12, 0x34, 0, 0, 0, 0, 0, 0], src_addr = [0x56, 0x78, 0, 0, 0, 0, 0, 0],
     fcf = \<lparr>frame_type = 1, security_enabled = 1, frame_pending = 0, ack_required = 1, panid_compression = 0,
       sequence_number_suppression = 0, ie_list_present = 0, dest_addr_mode = 2, frame_version = 1, src_addr_mode = 2\<rparr>,
     seq = 7, dest_pid = 0xABCD, src_pid = 0xABCD,
     aux_hdr = \<lparr>security_level = 5, key_id_mode = 1, frame_counter_suppression = 0, frame_counter_size = 0,
       frame_counter = [1, 2, 3, 4], key_source = [0, 0, 0, 0, 0, 0, 0, 0], key_index = 9\<rparr>,
     payload = 0, payload_len = 0\<rparr>"

definition blank_frame :: frame802154 where
  "blank_frame = \<lparr>dest_addr = replicate 8 0, src_addr = replicate 8 0,
     fcf = \<lparr>frame_type = 0, security_enabled = 0, frame_pending = 0, ack_required = 0, panid_compression = 0,
       sequence_number_suppression = 0, ie_list_present = 0, dest_addr_mode = 0, frame_version = 0, src_addr_mode = 0\<rparr>,
     seq = 0, dest_pid = 0, src_pid = 0,
     aux_hdr = \<lparr>security_level = 0, key_id_mode = 0, frame_counter_suppression = 0, frame_counter_size = 0,
       frame_counter = replicate 4 0, key_source = replicate 8 0, key_index = 0\<rparr>,
     payload = 0, payload_len = 0\<rparr>"

theorem frame802154_round_trip_witness:
  "case frame802154_create demo_opts demo_frame (replicate 30 0) of
     Ok (n, buf', p1) \<Rightarrow> n = 15 \<and> (\<exists>q. frame802154_parse demo_opts buf' 30 blank_frame = Ok (15, q) \<and> seq q = 7 \<and>
        fcf q = fcf p1)
   | Fault _ \<Rightarrow> False"
proof -
  have ok: "frame_ok demo_opts demo_frame"
    by (simp add: frame_ok_def demo_frame_def arrays_ok_def fcf_ok_def)
  have n: "fst (frame802154_hdrlen demo_opts demo_frame) = 15" by code_simp
  have pf: "arrays_ok blank_frame" by (simp add: arrays_ok_def blank_frame_def)
  from frame802154_round_trip [OF ok, of "replicate 30 0" 30 blank_frame] pf show ?thesis
    unfolding n by (auto simp: demo_frame_def)
qed

text \<open>
  The two exceptions of the round trip. The parser does not mask the two bits of the frame counter, so a
  counter of five bytes is taken for a suppressed one; and it does not read the destination PAN ID of a
  2012 frame without addresses, which the builder writes when the compression bit is set.
\<close>

lemma five_byte_counter_lost:
  "(let p = demo_frame\<lparr>aux_hdr := (aux_hdr demo_frame)\<lparr>frame_counter_size := 1\<rparr>\<rparr> in
    case frame802154_create demo_opts p (replicate 30 0) of
     Ok (n, buf', p1) \<Rightarrow> (case frame802154_parse demo_opts buf' 30 blank_frame of
        Ok (m, q) \<Rightarrow> n = 16 \<and> m = 11 \<and> True
      | Fault _ \<Rightarrow> False)
   | Fault _ \<Rightarrow> False)"
  by code_simp

lemma addressless_pan_lost:
  "(let p = demo_frame\<lparr>fcf := (fcf demo_frame)\<lparr>frame_version := 2, dest_addr_mode := 0, src_addr_mode := 0,
        panid_compression := 1, security_enabled := 0\<rparr>\<rparr> in
    case frame802154_create demo_opts p (replicate 30 0) of
     Ok (n, buf', p1) \<Rightarrow> (case frame802154_parse demo_opts buf' 30 blank_frame of
        Ok (m, q) \<Rightarrow> n = 5 \<and> m = 3 | Fault _ \<Rightarrow> False)
   | Fault _ \<Rightarrow> False)"
  by code_simp

text \<open>The longest header: 23 bytes, and 15 more for the security header.\<close>

definition max_header :: "frame_opts \<Rightarrow> nat" where
  "max_header opts = (if USES_AUX_HEADER opts then 38 else 23)"

text \<open>A step of the parser that stays in the memory: it reads at most \<open>k\<close> bytes.\<close>

definition walk :: "nat \<Rightarrow> nat \<Rightarrow> (u8 list \<times> 'a) res \<Rightarrow> bool" where
  "walk L k r \<longleftrightarrow> (\<exists>q x. r = Ok (q, x) \<and> L - k \<le> length q \<and> length q \<le> L)"

lemma walk_Ok: "walk (length p) k (Ok (p, x))"
  by (simp add: walk_def)

lemma walk_get: "n \<le> length p \<Longrightarrow> n \<le> k \<Longrightarrow> walk (length p - n) (k - n) (f (take n p) (drop n p)) \<Longrightarrow> walk (length p) k (get n p f)"
  by (auto simp: walk_def get_def)

lemma walk_get_Ok: "n \<le> length p \<Longrightarrow> n \<le> k \<Longrightarrow> walk (length p) k (get n p (\<lambda>bs q. Ok (q, g bs)))"
  by (auto simp: walk_def get_def)

lemma walk_bind:
  assumes "walk L a r" and "\<And>q x. L - a \<le> length q \<Longrightarrow> walk (length q) b (g q x)" and "a + b \<le> k"
  shows "walk L k (bindR r (\<lambda>(q, x). g q x))"
proof -
  obtain q x where r: "r = Ok (q, x)" and q: "L - a \<le> length q" "length q \<le> L" using assms(1) by (auto simp: walk_def)
  obtain q' y where "g q x = Ok (q', y)" "length q - b \<le> length q'" "length q' \<le> length q"
    using assms(2) [OF q(1), of x] unfolding walk_def by blast
  then show ?thesis using r q assms(3) by (auto simp: walk_def)
qed

lemma walk_if: "(c \<Longrightarrow> walk L k r) \<Longrightarrow> (\<not> c \<Longrightarrow> walk L k r') \<Longrightarrow> walk L k (if c then r else r')"
  by simp

lemma walk_addr: "8 \<le> length p \<Longrightarrow> walk (length p) 8 (parse_addr m b p)"
  unfolding parse_addr_def by (intro walk_if walk_get_Ok walk_Ok) simp_all

lemma walk_seq: "1 \<le> length p \<Longrightarrow> walk (length p) 1 (parse_seq p pf)"
  unfolding parse_seq_def by (intro walk_if walk_get_Ok walk_Ok) simp_all

lemma walk_dest: "10 \<le> length p \<Longrightarrow> walk (length p) 10 (parse_dest dpn p pf)"
  unfolding parse_dest_def
  by (intro walk_if walk_Ok walk_bind [where a = 2 and b = 8] walk_bind [where a = 8 and b = 0] walk_get_Ok walk_addr) simp_all

lemma walk_src: "10 \<le> length p \<Longrightarrow> walk (length p) 10 (parse_src spn dpn p pf)"
  unfolding parse_src_def
  by (intro walk_if walk_Ok walk_bind [where a = 2 and b = 8] walk_bind [where a = 8 and b = 0] walk_get_Ok walk_addr) simp_all

lemma walk_counter: "5 \<le> length p \<Longrightarrow> walk (length p) 5 (parse_counter p a)"
  unfolding parse_counter_def
  by (intro walk_if walk_get walk_Ok) (auto simp: walk_def get_def)

lemma walk_key: "key_id_mode a < 4 \<or> \<not> USES_EXPLICIT_KEYS opts \<Longrightarrow> 9 \<le> length p \<Longrightarrow> walk (length p) 9 (parse_key opts p a)"
proof -
  assume a: "key_id_mode a < 4 \<or> \<not> USES_EXPLICIT_KEYS opts" and p: "9 \<le> length p"
  have "(unat (key_id_mode a) - 1) * 4 \<le> 8" if "key_id_mode a < 4" using that by (simp add: word_less_nat_alt)
  then show ?thesis using a p by (auto simp: parse_key_def Let_def walk_def get_def)
qed

lemma key_mode_small: "USES_EXPLICIT_KEYS opts \<Longrightarrow> key_id_mode (parse_scf opts b a) < 4"
proof -
  have "x AND 3 < 4" for x :: u8 using and_mask_less' [of 2 x] by (simp add: mask_eq_exp_minus_1)
  then show "USES_EXPLICIT_KEYS opts \<Longrightarrow> ?thesis" by (simp add: parse_scf_def Let_def)
qed

lemma counter_keeps_mode: "parse_counter p a = Ok (q, a') \<Longrightarrow> key_id_mode a' = key_id_mode a"
  by (auto simp: parse_counter_def get_def split: if_splits)

lemma walk_aux:
  assumes "USES_AUX_HEADER opts \<Longrightarrow> 15 \<le> length p"
  shows "walk (length p) (if USES_AUX_HEADER opts then 15 else 0) (parse_aux opts p pf)"
proof (cases "USES_AUX_HEADER opts \<and> security_enabled (fcf pf) \<noteq> 0")
  case True
  let ?a = "parse_scf opts (take 1 p ! 0) (aux_hdr pf)"
  have len: "15 \<le> length p" using True assms by simp
  obtain q a where c: "parse_counter (drop 1 p) ?a = Ok (q, a)" "length (drop 1 p) - 5 \<le> length q" "length q \<le> length (drop 1 p)"
  proof -
    have "5 \<le> length (drop 1 p)" using len by simp
    from walk_counter [OF this, of ?a] that show ?thesis unfolding walk_def by blast
  qed
  have "key_id_mode a < 4 \<or> \<not> USES_EXPLICIT_KEYS opts"
    using counter_keeps_mode [OF c(1)] key_mode_small [of opts] by auto
  then have "walk (length q) 9 (parse_key opts q a)" using walk_key c len by simp
  then show ?thesis using True c len by (auto simp: walk_def parse_aux_def get_def)
next
  case False
  then have "parse_aux opts p pf = Ok (p, pf)" unfolding parse_aux_def by (simp only: if_False)
  then show ?thesis by (simp add: walk_Ok)
qed

text \<open>
  C6: Parsing is safe. Whatever bytes the radio delivers, the parser returns without reading outside the
  memory as long as a header of the largest size fits behind the start of the frame, and it never
  reports a header that is longer than the frame: a frame that ends within its header gives 0.
\<close>

theorem frame802154_parse_safe:
  assumes "max_header opts \<le> length dat"
  shows "\<exists>n q. frame802154_parse opts dat len pf = Ok (n, q) \<and> (n = 0 \<or> int n \<le> len) \<and> n \<le> max_header opts \<and>
    (2 \<le> len \<longrightarrow> payload q \<le> max_header opts \<and> n = (if int (payload q) \<le> len then payload q else 0))"
proof (cases "len < 2")
  case True
  then show ?thesis by (simp add: frame802154_parse_def)
next
  case False
  let ?f = "frame802154_parse_fcf (take 2 dat ! 0) (take 2 dat ! 1)"
  obtain spn dpn where h: "frame802154_has_panid ?f = (spn, dpn)" by (cases "frame802154_has_panid ?f")
  let ?x = "if USES_AUX_HEADER opts then 15 else 0 :: nat"
  have L: "23 + ?x = max_header opts" "23 + ?x \<le> length dat" 
    using assms by (cases "USES_AUX_HEADER opts"; simp add: max_header_def)+
  have "walk (length (drop 2 dat)) (21 + ?x)
      (bindR (parse_seq (drop 2 dat) (pf\<lparr>fcf := ?f\<rparr>)) (\<lambda>(p1, pf1).
       bindR (parse_dest dpn p1 pf1) (\<lambda>(p2, pf2).
       bindR (parse_src spn dpn p2 pf2) (\<lambda>(p3, pf3). parse_aux opts p3 pf3))))"
    using L
    by (intro walk_bind [where a = 1 and b = "20 + ?x"] walk_bind [where a = 10 and b = "10 + ?x"]
        walk_bind [where a = 10 and b = ?x] walk_seq walk_dest walk_src walk_aux) (auto split: if_splits)
  then obtain p4 pf4 where w: "(bindR (parse_seq (drop 2 dat) (pf\<lparr>fcf := ?f\<rparr>)) (\<lambda>(p1, pf1).
       bindR (parse_dest dpn p1 pf1) (\<lambda>(p2, pf2).
       bindR (parse_src spn dpn p2 pf2) (\<lambda>(p3, pf3). parse_aux opts p3 pf3)))) = Ok (p4, pf4)"
    and l: "length dat - 2 - (21 + ?x) \<le> length p4" by (auto simp: walk_def)
  let ?c = "length dat - length p4"
  have "frame802154_parse opts dat len pf =
      Ok (if int ?c > len then 0 else ?c, pf4\<lparr>payload_len := len - int ?c, payload := ?c\<rparr>)"
    using False L w unfolding frame802154_parse_def get_def Let_def h prod.case
    by (auto simp: res_iff split: prod.splits)
  moreover have "?c \<le> max_header opts" using l L by simp
  ultimately show ?thesis by auto
qed

theorem frame802154_parse_safe_witness:
  "\<exists>n q. frame802154_parse demo_opts (replicate 40 0xff) 20 blank_frame = Ok (n, q) \<and> (n = 0 \<or> int n \<le> 20)"
proof -
  have "max_header demo_opts \<le> length (replicate 40 (0xff :: u8))" by (simp add: max_header_def)
  from frame802154_parse_safe [OF this, of 20 blank_frame] show ?thesis by blast
qed

end
