(* ===== verification/Framer802154.thy ===== *)
theory Framer802154
  imports Frame_Laws
begin

unbundle bit_operations_syntax

text \<open>
  The framer of C-sync, \<^verbatim>\<open>src/core/net/mac/framer-802154.c\<close>: it puts an IEEE 802.15.4 header in front of the
  packet in the packet buffer, with the addresses and attributes of the packet, and takes it off again.
  The build options are the record \<open>framer_opts\<close>; the random number that initialises the sequence number
  is a parameter, and so is the content of the local variable \<^verbatim>\<open>frame\<close> before \<open>parse\<close> fills it.
\<close>

section \<open>Operations\<close>

record framer_opts =
  hdr_opts :: frame_opts
  FRAME802154_VERSION :: u8
  FRAME802154_SUPPR_SEQNO :: u8
  USES_FRAME_COUNTER :: bool

record framer =
  mac_pan_id :: u16
  mac_dsn :: u8
  fr_initialized :: bool

definition frame802154_get_pan_id :: "framer \<Rightarrow> u16" where
  "frame802154_get_pan_id fs = mac_pan_id fs"

definition frame802154_set_pan_id :: "u16 \<Rightarrow> framer \<Rightarrow> framer" where
  "frame802154_set_pan_id pan_id fs = fs\<lparr>mac_pan_id := pan_id\<rparr>"

abbreviation FRAMER_FAILED :: int where "FRAMER_FAILED \<equiv> -1"

text \<open>The control field of an outgoing frame, addresses apart.\<close>

definition out_fcf :: "framer_opts \<Rightarrow> pbuf \<Rightarrow> frame802154_fcf" where
  "out_fcf fo b =
     (let bc = packetbuf_holds_broadcast b in
      \<lparr>frame_type = ucast (packetbuf_attr ATTR_FRAME_TYPE b),
       security_enabled = (if USES_AUX_HEADER (hdr_opts fo) \<and> packetbuf_attr ATTR_SECURITY_LEVEL b \<noteq> 0 then 1 else 0),
       frame_pending = ucast (packetbuf_attr ATTR_PENDING b),
       ack_required = (if bc then 0 else ucast (packetbuf_attr ATTR_MAC_ACK b)),
       panid_compression = 0,
       sequence_number_suppression =
         (if bc then if FRAME802154_VERSION fo \<ge> FRAME802154_IEEE802154E_2012 then 1 else 0 else FRAME802154_SUPPR_SEQNO fo),
       ie_list_present = 0, dest_addr_mode = FRAME802154_SHORTADDRMODE, frame_version = FRAME802154_VERSION fo,
       src_addr_mode = FRAME802154_SHORTADDRMODE\<rparr>)"

definition aux_zero :: frame802154_aux_hdr where
  "aux_zero = \<lparr>security_level = 0, key_id_mode = 0, frame_counter_suppression = 0, frame_counter_size = 0,
     frame_counter = replicate 4 0, key_source = replicate 8 0, key_index = 0\<rparr>"

definition out_aux :: "framer_opts \<Rightarrow> pbuf \<Rightarrow> frame802154_aux_hdr" where
  "out_aux fo b =
     (if USES_AUX_HEADER (hdr_opts fo) then
        let a = aux_zero\<lparr>security_level := ucast (packetbuf_attr ATTR_SECURITY_LEVEL b)\<rparr>;
            a1 = (if USES_FRAME_COUNTER fo
                  then a\<lparr>frame_counter := enc_u16 (packetbuf_attr ATTR_FRAME_COUNTER_BYTES_0_1 b) @
                           enc_u16 (packetbuf_attr ATTR_FRAME_COUNTER_BYTES_2_3 b)\<rparr>
                  else a\<lparr>frame_counter_suppression := 1, frame_counter_size := 1\<rparr>)
        in if USES_EXPLICIT_KEYS (hdr_opts fo)
           then a1\<lparr>key_id_mode := ucast (packetbuf_attr ATTR_KEY_ID_MODE b), key_index := ucast (packetbuf_attr ATTR_KEY_INDEX b),
                   key_source := enc_u16 (packetbuf_attr ATTR_KEY_SOURCE_BYTES_0_1 b) @ replicate 6 0\<rparr>
           else a1
      else aux_zero)"

text \<open>A link-layer address in the eight bytes of the frame structure.\<close>

definition addr8 :: "u16 \<Rightarrow> u8 list" where
  "addr8 a = enc_u16 a @ replicate 6 0"

definition out_frame :: "framer_opts \<Rightarrow> framer \<Rightarrow> u8 \<Rightarrow> pbuf \<Rightarrow> frame802154" where
  "out_frame fo fs sq b =
     \<lparr>dest_addr = (if packetbuf_holds_broadcast b then [0xff, 0xff] @ replicate 6 0 else addr8 (packetbuf_addr ADDR_RECEIVER b)),
      src_addr = addr8 (packetbuf_addr ADDR_SENDER b), fcf = out_fcf fo b, seq = sq,
      dest_pid = frame802154_get_pan_id fs, src_pid = frame802154_get_pan_id fs, aux_hdr = out_aux fo b,
      payload = packetbuf_dataptr b, payload_len = sint (packetbuf_datalen b)\<rparr>"

text \<open>The sequence number: the one of the packet, or the next one of the framer.\<close>

definition out_seq :: "framer \<Rightarrow> pbuf \<Rightarrow> u8 \<times> framer \<times> pbuf" where
  "out_seq fs b =
     (if packetbuf_attr ATTR_MAC_SEQNO b \<noteq> 0 then (ucast (packetbuf_attr ATTR_MAC_SEQNO b), fs, b)
      else let d = (if mac_dsn fs = 0 then mac_dsn fs + 1 else mac_dsn fs)
           in (d, fs\<lparr>mac_dsn := d + 1\<rparr>, packetbuf_set_attr ATTR_MAC_SEQNO (ucast d) b))"

definition create_frame ::
  "framer_opts \<Rightarrow> u16 \<Rightarrow> bool \<Rightarrow> framer \<Rightarrow> pbuf \<Rightarrow> (int \<times> framer \<times> pbuf) res" where
  "create_frame fo rnd do_create fs b =
     (if frame802154_get_pan_id fs = 0xffff then Ok (-1, fs, b)
      else
        let fs1 = (if \<not> fr_initialized fs then fs\<lparr>fr_initialized := True, mac_dsn := ucast (rnd AND 0xff)\<rparr> else fs);
            (sq, fs2, b1) = (if do_create then out_seq fs1 b else (0, fs1, b));
            (hdr_len, p) = frame802154_hdrlen (hdr_opts fo) (out_frame fo fs2 sq b1)
        in if \<not> do_create then Ok (int hdr_len, fs2, b1)
           else bindR (packetbuf_hdralloc (of_nat hdr_len) b1) (\<lambda>(room, b2).
             if room then
               bindR (frame802154_create (hdr_opts fo) p (pb_data b2)) (\<lambda>(n, mem, _).
                 Ok (int hdr_len, fs2, b2\<lparr>pb_data := mem\<rparr>))
             else Ok (FRAMER_FAILED, fs2, b2)))"

definition framer_hdr_length :: "framer_opts \<Rightarrow> u16 \<Rightarrow> framer \<Rightarrow> pbuf \<Rightarrow> (int \<times> framer \<times> pbuf) res" where
  "framer_hdr_length fo rnd fs b = create_frame fo rnd False fs b"

definition framer_create :: "framer_opts \<Rightarrow> u16 \<Rightarrow> framer \<Rightarrow> pbuf \<Rightarrow> (int \<times> framer \<times> pbuf) res" where
  "framer_create fo rnd fs b = create_frame fo rnd True fs b"

text \<open>The attributes that \<open>parse\<close> takes from a frame, after the addresses.\<close>

definition in_security :: "framer_opts \<Rightarrow> frame802154 \<Rightarrow> pbuf \<Rightarrow> pbuf" where
  "in_security fo f b =
     (if USES_AUX_HEADER (hdr_opts fo) \<and> security_enabled (fcf f) \<noteq> 0 then
        let a = aux_hdr f;
            b1 = packetbuf_set_attr ATTR_SECURITY_LEVEL (ucast (security_level a)) b;
            b2 = (if USES_FRAME_COUNTER fo
                  then packetbuf_set_attr ATTR_FRAME_COUNTER_BYTES_2_3 (dec_u16 (drop 2 (frame_counter a)))
                         (packetbuf_set_attr ATTR_FRAME_COUNTER_BYTES_0_1 (dec_u16 (frame_counter a)) b1)
                  else b1)
        in if USES_EXPLICIT_KEYS (hdr_opts fo)
           then packetbuf_set_attr ATTR_KEY_SOURCE_BYTES_0_1 (dec_u16 (key_source a))
                  (packetbuf_set_attr ATTR_KEY_INDEX (ucast (key_index a))
                    (packetbuf_set_attr ATTR_KEY_ID_MODE (ucast (key_id_mode a)) b2))
           else b2
      else b)"

definition in_attrs :: "framer_opts \<Rightarrow> frame802154 \<Rightarrow> pbuf \<Rightarrow> pbuf" where
  "in_attrs fo f b =
     (let b1 = packetbuf_set_addr ADDR_SENDER (dec_u16 (src_addr f)) b;
          b2 = packetbuf_set_attr ATTR_PENDING (ucast (frame_pending (fcf f))) b1;
          b3 = packetbuf_set_attr ATTR_MAC_SEQNO
                 (if sequence_number_suppression (fcf f) = 0 then ucast (seq f) else 0xffff) b2
      in in_security fo f (packetbuf_set_attr ATTR_PACKET_ID (ucast (seq f)) b3))"

definition framer_parse :: "framer_opts \<Rightarrow> frame802154 \<Rightarrow> framer \<Rightarrow> pbuf \<Rightarrow> (int \<times> pbuf) res" where
  "framer_parse fo pf fs b =
     bindR (frame802154_parse (hdr_opts fo) (drop (packetbuf_dataptr b) (pb_data b)) (sint (packetbuf_datalen b)) pf)
       (\<lambda>(hdr_len, f).
         if hdr_len = 0 then Ok (FRAMER_FAILED, b)
         else case packetbuf_hdrreduce (of_nat hdr_len) b of (reduced, b1) \<Rightarrow>
           if \<not> reduced then Ok (FRAMER_FAILED, b1)
           else
             let b2 = packetbuf_set_attr ATTR_FRAME_TYPE (ucast (frame_type (fcf f))) b1 in
             if dest_addr_mode (fcf f) \<noteq> 0 \<and> dest_pid f \<noteq> frame802154_get_pan_id fs \<and> dest_pid f \<noteq> FRAME802154_BROADCASTPANDID
             then Ok (FRAMER_FAILED, b2)
             else
               let b3 = (if dest_addr_mode (fcf f) \<noteq> 0 \<and> \<not> frame802154_is_broadcast_addr (dest_addr_mode (fcf f)) (dest_addr f)
                         then packetbuf_set_addr ADDR_RECEIVER (dec_u16 (dest_addr f)) b2 else b2)
               in Ok (int hdr_len, in_attrs fo f b3))"

end
