(* ===== verification/Queuebuf.thy ===== *)
theory Queuebuf
  imports Packetbuf Memb
begin

text \<open>
  Queue buffers, \<^verbatim>\<open>src/core/net/queuebuf.c\<close> without swap files (\<^verbatim>\<open>QUEUEBUFRAM_CONF_NUM\<close> is not set):
  a pool of handles and a pool of data blocks. A handle holds the number of its data block; both pools
  and the packet buffer are fields of the state, so that the layers above share them.
\<close>

section \<open>Operations\<close>

record qbuf =
  ram_ptr :: "nat option"

record qbuf_data =
  qd_data :: "u8 list"
  qd_len :: u16
  qd_attrs :: "pb_attr \<Rightarrow> u16"
  qd_addrs :: "nat \<Rightarrow> u16"

record qnet =
  qpb :: pbuf
  bufmem :: "qbuf memb"
  buframmem :: "qbuf_data memb"

definition set_blk :: "nat \<Rightarrow> 'a \<Rightarrow> 'a memb \<Rightarrow> 'a memb" where
  "set_blk i x m = m\<lparr>mmem := (mmem m)[i := x]\<rparr>"

definition qbuf_zero :: qbuf where
  "qbuf_zero = \<lparr>ram_ptr = None\<rparr>"

definition qbuf_data_zero :: qbuf_data where
  "qbuf_data_zero = \<lparr>qd_data = replicate PACKETBUF_SIZE 0, qd_len = 0, qd_attrs = (\<lambda>_. 0), qd_addrs = (\<lambda>_. 0)\<rparr>"

definition qbuf_init :: "'s qnet_scheme \<Rightarrow> 's qnet_scheme" where
  "qbuf_init s = s\<lparr>buframmem := memb_init qbuf_data_zero (buframmem s), bufmem := memb_init qbuf_zero (bufmem s)\<rparr>"

definition qbuf_numfree :: "'s qnet_scheme \<Rightarrow> nat" where
  "qbuf_numfree s = memb_numfree (bufmem s)"

text \<open>The data block of a handle; following a null pointer is a fault.\<close>

definition qbuf_load_to_ram :: "nat \<Rightarrow> 's qnet_scheme \<Rightarrow> nat res" where
  "qbuf_load_to_ram q s = from_option NullDeref (ram_ptr (mmem (bufmem s) ! q))"

text \<open>\<open>packetbuf_copyto\<close> and \<open>packetbuf_attr_copyto\<close> into a data block.\<close>

definition qbuf_fill :: "nat \<Rightarrow> 's qnet_scheme \<Rightarrow> 's qnet_scheme res" where
  "qbuf_fill r s =
     bindR (packetbuf_copyto (qpb s)) (\<lambda>bs.
     let d = mmem (buframmem s) ! r in
     bindR (put_bytes 0 bs (qd_data d)) (\<lambda>mem.
       Ok (s\<lparr>buframmem := set_blk r (d\<lparr>qd_data := mem, qd_len := of_nat (length bs)\<rparr>) (buframmem s)\<rparr>)))"

definition qbuf_fill_attr :: "nat \<Rightarrow> 's qnet_scheme \<Rightarrow> 's qnet_scheme" where
  "qbuf_fill_attr r s =
     (case packetbuf_attr_copyto (qpb s) of (attrs, addrs) \<Rightarrow>
        s\<lparr>buframmem := set_blk r ((mmem (buframmem s) ! r)\<lparr>qd_attrs := attrs, qd_addrs := addrs\<rparr>) (buframmem s)\<rparr>)"

definition qbuf_new_from_packetbuf :: "'s qnet_scheme \<Rightarrow> (nat option \<times> 's qnet_scheme) res" where
  "qbuf_new_from_packetbuf s =
     (case memb_alloc (bufmem s) of
        (None, m) \<Rightarrow> Ok (None, s\<lparr>bufmem := m\<rparr>)
      | (Some q, m) \<Rightarrow>
          (case memb_alloc (buframmem s) of
             (None, rm) \<Rightarrow> Ok (None, s\<lparr>bufmem := snd (memb_free (set_blk q \<lparr>ram_ptr = None\<rparr> m) q), buframmem := rm\<rparr>)
           | (Some r, rm) \<Rightarrow>
               bindR (qbuf_fill r (s\<lparr>bufmem := set_blk q \<lparr>ram_ptr = Some r\<rparr> m, buframmem := rm\<rparr>)) (\<lambda>s1.
                 Ok (Some q, qbuf_fill_attr r s1))))"

definition qbuf_update_attr_from_packetbuf :: "nat \<Rightarrow> 's qnet_scheme \<Rightarrow> 's qnet_scheme res" where
  "qbuf_update_attr_from_packetbuf q s = bindR (qbuf_load_to_ram q s) (\<lambda>r. Ok (qbuf_fill_attr r s))"

definition qbuf_update_from_packetbuf :: "nat \<Rightarrow> 's qnet_scheme \<Rightarrow> 's qnet_scheme res" where
  "qbuf_update_from_packetbuf q s = bindR (qbuf_load_to_ram q s) (\<lambda>r. qbuf_fill r (qbuf_fill_attr r s))"

text \<open>\<open>memb_free\<close> of a pointer that is null leaves the pool alone.\<close>

definition memb_free_ptr :: "'a memb \<Rightarrow> nat option \<Rightarrow> 'a memb" where
  "memb_free_ptr m p = (case p of None \<Rightarrow> m | Some i \<Rightarrow> snd (memb_free m i))"

definition qbuf_free :: "nat \<Rightarrow> 's qnet_scheme \<Rightarrow> 's qnet_scheme" where
  "qbuf_free q s =
     (if memb_inmemb (bufmem s) q
      then s\<lparr>buframmem := memb_free_ptr (buframmem s) (ram_ptr (mmem (bufmem s) ! q)), bufmem := snd (memb_free (bufmem s) q)\<rparr>
      else s)"

definition qbuf_to_packetbuf :: "nat \<Rightarrow> 's qnet_scheme \<Rightarrow> 's qnet_scheme res" where
  "qbuf_to_packetbuf q s =
     (if memb_inmemb (bufmem s) q then
        bindR (qbuf_load_to_ram q s) (\<lambda>r.
        let d = mmem (buframmem s) ! r in
        bindR (packetbuf_copyfrom (qd_data d) (qd_len d) (qpb s)) (\<lambda>(l, b).
          Ok (s\<lparr>qpb := packetbuf_attr_copyfrom (qd_attrs d) (qd_addrs d) b\<rparr>)))
      else Ok s)"

definition qbuf_dataptr :: "nat \<Rightarrow> 's qnet_scheme \<Rightarrow> u8 list option res" where
  "qbuf_dataptr q s =
     (if memb_inmemb (bufmem s) q
      then bindR (qbuf_load_to_ram q s) (\<lambda>r. Ok (Some (qd_data (mmem (buframmem s) ! r)))) else Ok None)"

definition qbuf_datalen :: "nat \<Rightarrow> 's qnet_scheme \<Rightarrow> int res" where
  "qbuf_datalen q s = bindR (qbuf_load_to_ram q s) (\<lambda>r. Ok (sint (qd_len (mmem (buframmem s) ! r))))"

definition qbuf_addr :: "nat \<Rightarrow> nat \<Rightarrow> 's qnet_scheme \<Rightarrow> u16 res" where
  "qbuf_addr q type s = bindR (qbuf_load_to_ram q s) (\<lambda>r. Ok (qd_addrs (mmem (buframmem s) ! r) type))"

definition qbuf_attr :: "nat \<Rightarrow> pb_attr \<Rightarrow> 's qnet_scheme \<Rightarrow> u16 res" where
  "qbuf_attr q type s = bindR (qbuf_load_to_ram q s) (\<lambda>r. Ok (qd_attrs (mmem (buframmem s) ! r) type))"

end
