(* ===== verification/Rdc.thy ===== *)
theory Rdc
  imports Framer802154 Queuebuf
begin

text \<open>
  The radio duty cycling layer of C-sync, \<^verbatim>\<open>src/core/net/mac/csyncrdc-framer.c\<close>: it frames the packet in
  the packet buffer, hands it to the radio and reports the outcome to the layer above.

  The radio is a parameter: each transmission has a result, and \<open>send_list\<close> takes the results of its
  transmissions as a list (one that is too short is \<open>Fault EnvExhausted\<close>). The bytes that are handed to the
  radio are recorded, latest first. The callback of the layer above is a parameter too, a function of the whole state.
\<close>

section \<open>State\<close>

datatype radio_tx = RADIO_TX_OK | RADIO_TX_ERR | RADIO_TX_COLLISION | RADIO_TX_NOACK

datatype mac_status = MAC_TX_OK | MAC_TX_COLLISION | MAC_TX_NOACK | MAC_TX_DEFERRED | MAC_TX_ERR | MAC_TX_ERR_FATAL

record rdc = qnet +
  rdc_framer :: framer
  rdc_rnds :: "u16 list"
  rdc_air :: "u8 list list"
  rdc_on :: bool
  linkaddr_node_addr :: u16

type_synonym 's mac_callback = "mac_status \<Rightarrow> int \<Rightarrow> 's \<Rightarrow> 's res"

text \<open>The next random number.\<close>

definition take_rnd :: "'s rdc_scheme \<Rightarrow> (u16 \<times> 's rdc_scheme) res" where
  "take_rnd s = (case rdc_rnds s of [] \<Rightarrow> Fault EnvExhausted | r # rs \<Rightarrow> Ok (r, s\<lparr>rdc_rnds := rs\<rparr>))"

section \<open>Operations\<close>

text \<open>\<^verbatim>\<open>NETSTACK_FRAMER.create()\<close>: the framer draws a random number when it is used for the first time.\<close>

definition framer_call :: "framer_opts \<Rightarrow> 's rdc_scheme \<Rightarrow> (int \<times> 's rdc_scheme) res" where
  "framer_call fo s =
     bindR (if \<not> fr_initialized (rdc_framer s) \<and> frame802154_get_pan_id (rdc_framer s) \<noteq> 0xffff then take_rnd s else Ok (0, s))
       (\<lambda>(rnd, s1).
     bindR (framer_create fo rnd (rdc_framer s1) (qpb s1)) (\<lambda>(h, fs, b).
       Ok (h, s1\<lparr>rdc_framer := fs, qpb := b\<rparr>)))"

text \<open>\<^verbatim>\<open>NETSTACK_RADIO.send(packetbuf_hdrptr(), packetbuf_totlen())\<close> with the status of its result.\<close>

definition mac_of_radio :: "radio_tx \<Rightarrow> mac_status" where
  "mac_of_radio r = (case r of RADIO_TX_OK \<Rightarrow> MAC_TX_OK | RADIO_TX_COLLISION \<Rightarrow> MAC_TX_COLLISION
     | RADIO_TX_NOACK \<Rightarrow> MAC_TX_NOACK | RADIO_TX_ERR \<Rightarrow> MAC_TX_ERR)"

definition radio_send :: "'s rdc_scheme \<Rightarrow> 's rdc_scheme res" where
  "radio_send s =
     bindR (get_bytes 0 (unat (packetbuf_totlen (qpb s))) (pb_data (qpb s))) (\<lambda>bs. Ok (s\<lparr>rdc_air := bs # rdc_air s\<rparr>))"

definition send_one_packet ::
  "framer_opts \<Rightarrow> 's rdc_scheme mac_callback \<Rightarrow> radio_tx \<Rightarrow> 's rdc_scheme \<Rightarrow> (bool \<times> 's rdc_scheme) res" where
  "send_one_packet fo sent r s =
     bindR (framer_call fo (s\<lparr>qpb := packetbuf_set_addr ADDR_SENDER (linkaddr_node_addr s) (qpb s)\<rparr>)) (\<lambda>(h, s1).
     bindR (if h < 0 then Ok (MAC_TX_ERR_FATAL, s1) else bindR (radio_send s1) (\<lambda>s2. Ok (mac_of_radio r, s2))) (\<lambda>(ret, s2).
     bindR (sent ret 1 s2) (\<lambda>s3. Ok (ret = MAC_TX_OK, s3))))"

definition rdc_send_packet ::
  "framer_opts \<Rightarrow> 's rdc_scheme mac_callback \<Rightarrow> radio_tx \<Rightarrow> 's rdc_scheme \<Rightarrow> 's rdc_scheme res" where
  "rdc_send_packet fo sent r s = bindR (send_one_packet fo sent r s) (\<lambda>(ok, s1). Ok s1)"

text \<open>
  The loop of \<open>send_list\<close>: \<open>nxt\<close> and \<open>buf\<close> read the fields \<^verbatim>\<open>next\<close> and \<^verbatim>\<open>buf\<close> of a list entry. The next
  pointer is read before the packet is sent.
\<close>

definition load_buf :: "nat option \<Rightarrow> 's qnet_scheme \<Rightarrow> 's qnet_scheme res" where
  "load_buf q s = (case q of None \<Rightarrow> Ok s | Some i \<Rightarrow> qbuf_to_packetbuf i s)"

fun send_list ::
  "framer_opts \<Rightarrow> 's rdc_scheme mac_callback \<Rightarrow> (nat \<Rightarrow> 's rdc_scheme \<Rightarrow> nat option) \<Rightarrow> (nat \<Rightarrow> 's rdc_scheme \<Rightarrow> nat option) \<Rightarrow>
    radio_tx list \<Rightarrow> nat option \<Rightarrow> 's rdc_scheme \<Rightarrow> 's rdc_scheme res" where
  "send_list fo sent nxt buf rs None s = Ok s"
| "send_list fo sent nxt buf [] (Some p) s = Fault EnvExhausted"
| "send_list fo sent nxt buf (r # rs) (Some p) s =
     (let next = nxt p s in
      bindR (load_buf (buf p s) s) (\<lambda>s1.
      bindR (send_one_packet fo sent r s1) (\<lambda>(ok, s2).
        if \<not> ok then Ok s2 else send_list fo sent nxt buf rs next s2)))"

definition rdc_packet_input ::
  "framer_opts \<Rightarrow> frame802154 \<Rightarrow> ('s rdc_scheme \<Rightarrow> 's rdc_scheme res) \<Rightarrow> 's rdc_scheme \<Rightarrow> 's rdc_scheme res" where
  "rdc_packet_input fo pf mac_input s =
     bindR (framer_parse fo pf (rdc_framer s) (qpb s)) (\<lambda>(h, b).
       let s1 = s\<lparr>qpb := b\<rparr> in if h < 0 then Ok s1 else mac_input s1)"

definition rdc_turn_on :: "'s rdc_scheme \<Rightarrow> 's rdc_scheme" where
  "rdc_turn_on s = s\<lparr>rdc_on := True\<rparr>"

definition rdc_turn_off :: "bool \<Rightarrow> 's rdc_scheme \<Rightarrow> 's rdc_scheme" where
  "rdc_turn_off keep_radio_on s = (if keep_radio_on then s\<lparr>rdc_on := True\<rparr> else s\<lparr>rdc_on := False\<rparr>)"

definition rdc_init :: "'s rdc_scheme \<Rightarrow> 's rdc_scheme" where
  "rdc_init s = rdc_turn_on s"

end
