(* ===== verification/Csma.thy ===== *)
theory Csma
  imports Rdc
begin

text \<open>
  Medium access, \<^verbatim>\<open>src/core/net/mac/csma.c\<close>: a queue of packets per neighbour, random backoff after a
  collision, retransmission, and a report to the layer above when a packet is done.

  Neighbours, packets and their metadata are blocks of pools, pointers are block numbers, and the linked
  lists are sequences of pointers. The timer of a neighbour is the delay with which it was set, or \<open>None\<close>
  when it does not run. The callbacks that the layer above passes are a parameter \<open>cb\<close> that gives the
  function of a function pointer; it may change the whole state.
\<close>

section \<open>State\<close>

record csma_opts =
  CSMA_MIN_BE :: u8
  CSMA_MAX_BE :: u8
  CSMA_MAX_BACKOFF :: u8
  CSMA_MAX_MAX_FRAME_RETRIES :: u8
  CSMA_BACKOFF_PERIOD :: nat

text \<open>The values of the build of C-sync.\<close>

definition csync_csma :: csma_opts where
  "csync_csma = \<lparr>CSMA_MIN_BE = 0, CSMA_MAX_BE = 4, CSMA_MAX_BACKOFF = 5, CSMA_MAX_MAX_FRAME_RETRIES = 2, CSMA_BACKOFF_PERIOD = 1\<rparr>"

record qbuf_metadata =
  md_sent :: "nat option"
  md_cptr :: nat
  max_transmissions :: u8

record rdc_buf_list =
  rb_buf :: "nat option"
  rb_ptr :: "nat option"

record neighbor_queue =
  nq_addr :: u16
  transmit_timer :: "u32 option"
  transmissions :: u8
  collisions :: u8
  queued_packet_list :: "nat list"

record csma = rdc +
  neighbor_memb :: "neighbor_queue memb"
  packet_memb :: "rdc_buf_list memb"
  metadata_memb :: "qbuf_metadata memb"
  neighbor_list :: "nat list"
  csma_initialized :: bool
  csma_seqno :: u16

type_synonym 's upper = "nat \<Rightarrow> nat \<Rightarrow> 's mac_callback"

abbreviation PACKET_TYPE_ACK :: u16 where "PACKET_TYPE_ACK \<equiv> 1"

definition nbq :: "nat \<Rightarrow> 's csma_scheme \<Rightarrow> neighbor_queue" where
  "nbq n s = mmem (neighbor_memb s) ! n"

definition pkt :: "nat \<Rightarrow> 's csma_scheme \<Rightarrow> rdc_buf_list" where
  "pkt p s = mmem (packet_memb s) ! p"

definition upd_nbq :: "nat \<Rightarrow> (neighbor_queue \<Rightarrow> neighbor_queue) \<Rightarrow> 's csma_scheme \<Rightarrow> 's csma_scheme" where
  "upd_nbq n f s = s\<lparr>neighbor_memb := set_blk n (f (nbq n s)) (neighbor_memb s)\<rparr>"

definition mac_call_sent_callback :: "'s upper \<Rightarrow> nat option \<Rightarrow> nat \<Rightarrow> 's mac_callback" where
  "mac_call_sent_callback cb sent ptr status num_tx s =
     (case sent of None \<Rightarrow> Ok s | Some f \<Rightarrow> cb f ptr status num_tx s)"

section \<open>Finding a queue\<close>

fun find_nbq :: "u16 \<Rightarrow> nat list \<Rightarrow> 's csma_scheme \<Rightarrow> nat option" where
  "find_nbq addr [] s = None"
| "find_nbq addr (n # ns) s = (if nq_addr (nbq n s) = addr then Some n else find_nbq addr ns s)"

definition neighbor_queue_from_addr :: "u16 \<Rightarrow> 's csma_scheme \<Rightarrow> nat option" where
  "neighbor_queue_from_addr addr s = find_nbq addr (neighbor_list s) s"

text \<open>\<open>list_head\<close>, and the field \<^verbatim>\<open>next\<close> of a packet in the queue of \<open>n\<close>: \<open>list_remove\<close> nullifies it.\<close>

definition list_hd :: "'a list \<Rightarrow> 'a option" where
  "list_hd xs = (case xs of [] \<Rightarrow> None | x # _ \<Rightarrow> Some x)"

fun succ_in :: "'a list \<Rightarrow> 'a \<Rightarrow> 'a option" where
  "succ_in [] x = None"
| "succ_in (y # ys) x = (if y = x then list_hd ys else succ_in ys x)"

definition pkt_next :: "nat \<Rightarrow> nat \<Rightarrow> 's csma_scheme \<Rightarrow> nat option" where
  "pkt_next n p s = succ_in (queued_packet_list (nbq n s)) p"

section \<open>Backoff\<close>

definition max_delay :: "csma_opts \<Rightarrow> u8 \<Rightarrow> u32" where
  "max_delay co coll = of_nat ((2 ^ unat (min coll (CSMA_MAX_BE co)) - 1) * CSMA_BACKOFF_PERIOD co)"

definition schedule_transmission :: "csma_opts \<Rightarrow> nat \<Rightarrow> 's csma_scheme \<Rightarrow> 's csma_scheme res" where
  "schedule_transmission co n s =
     (let delay = max_delay co (collisions (nbq n s)) in
      bindR (if delay > 0 then bindR (take_rnd s) (\<lambda>(r, s1). Ok (ucast r mod delay, s1)) else Ok (delay, s)) (\<lambda>(d, s1).
        Ok (upd_nbq n (\<lambda>q. q\<lparr>transmit_timer := Some d\<rparr>) s1)))"

section \<open>The end of a transmission\<close>

text \<open>The three releases of \<open>free_packet\<close>: the queue buffer, the metadata and the packet.\<close>

definition release_packet :: "nat \<Rightarrow> 's csma_scheme \<Rightarrow> 's csma_scheme" where
  "release_packet p s =
     (let s1 = (case rb_buf (pkt p s) of None \<Rightarrow> s | Some b \<Rightarrow> qbuf_free b s);
          s2 = s1\<lparr>metadata_memb := memb_free_ptr (metadata_memb s1) (rb_ptr (pkt p s1))\<rparr>
      in s2\<lparr>packet_memb := snd (memb_free (packet_memb s2) p)\<rparr>)"

definition release_neighbor :: "nat \<Rightarrow> 's csma_scheme \<Rightarrow> 's csma_scheme" where
  "release_neighbor n s =
     s\<lparr>neighbor_list := remove1 n (neighbor_list s), neighbor_memb := snd (memb_free (neighbor_memb s) n)\<rparr>"

definition free_packet :: "csma_opts \<Rightarrow> nat \<Rightarrow> nat \<Rightarrow> 's csma_scheme \<Rightarrow> 's csma_scheme res" where
  "free_packet co n p s =
     (let s1 = release_packet p (upd_nbq n (\<lambda>q. q\<lparr>queued_packet_list := remove1 p (queued_packet_list q)\<rparr>) s)
      in if queued_packet_list (nbq n s1) \<noteq> []
         then schedule_transmission co n (upd_nbq n (\<lambda>q. q\<lparr>transmissions := 0, collisions := CSMA_MIN_BE co\<rparr>) s1)
         else Ok (release_neighbor n (upd_nbq n (\<lambda>q. q\<lparr>transmit_timer := None\<rparr>) s1)))"

definition the_metadata :: "nat \<Rightarrow> 's csma_scheme \<Rightarrow> qbuf_metadata res" where
  "the_metadata p s = bindR (from_option NullDeref (rb_ptr (pkt p s))) (\<lambda>m. Ok (mmem (metadata_memb s) ! m))"

definition tx_done :: "csma_opts \<Rightarrow> 's csma_scheme upper \<Rightarrow> mac_status \<Rightarrow> nat \<Rightarrow> nat \<Rightarrow> 's csma_scheme \<Rightarrow> 's csma_scheme res" where
  "tx_done co cb status p n s =
     bindR (the_metadata p s) (\<lambda>md.
     let ntx = transmissions (nbq n s) in
     bindR (free_packet co n p s) (mac_call_sent_callback cb (md_sent md) (md_cptr md) status (uint ntx)))"

definition rexmit :: "csma_opts \<Rightarrow> nat \<Rightarrow> nat \<Rightarrow> 's csma_scheme \<Rightarrow> 's csma_scheme res" where
  "rexmit co p n s =
     bindR (schedule_transmission co n s) (\<lambda>s1.
     bindR (from_option NullDeref (rb_buf (pkt p s1))) (\<lambda>b. qbuf_update_attr_from_packetbuf b s1))"

definition collision ::
  "csma_opts \<Rightarrow> 's csma_scheme upper \<Rightarrow> nat \<Rightarrow> nat \<Rightarrow> int \<Rightarrow> 's csma_scheme \<Rightarrow> 's csma_scheme res" where
  "collision co cb p n num s =
     bindR (the_metadata p s) (\<lambda>md.
     let s1 = upd_nbq n (\<lambda>q. q\<lparr>collisions := collisions q + word_of_int num\<rparr>) s;
         s2 = (if CSMA_MAX_BACKOFF co < collisions (nbq n s1)
               then upd_nbq n (\<lambda>q. q\<lparr>collisions := CSMA_MIN_BE co, transmissions := transmissions q + 1\<rparr>) s1 else s1)
     in if max_transmissions md \<le> transmissions (nbq n s2) then tx_done co cb MAC_TX_COLLISION p n s2 else rexmit co p n s2)"

definition noack ::
  "csma_opts \<Rightarrow> 's csma_scheme upper \<Rightarrow> nat \<Rightarrow> nat \<Rightarrow> int \<Rightarrow> 's csma_scheme \<Rightarrow> 's csma_scheme res" where
  "noack co cb p n num s =
     bindR (the_metadata p s) (\<lambda>md.
     let s1 = upd_nbq n (\<lambda>q. q\<lparr>collisions := CSMA_MIN_BE co, transmissions := transmissions q + word_of_int num\<rparr>) s
     in if max_transmissions md \<le> transmissions (nbq n s1) then tx_done co cb MAC_TX_NOACK p n s1 else rexmit co p n s1)"

definition tx_ok ::
  "csma_opts \<Rightarrow> 's csma_scheme upper \<Rightarrow> nat \<Rightarrow> nat \<Rightarrow> int \<Rightarrow> 's csma_scheme \<Rightarrow> 's csma_scheme res" where
  "tx_ok co cb p n num s =
     tx_done co cb MAC_TX_OK p n
       (upd_nbq n (\<lambda>q. q\<lparr>collisions := CSMA_MIN_BE co, transmissions := transmissions q + word_of_int num\<rparr>) s)"

text \<open>The packet that a report is about: the first one of the queue with the sequence number of the packet buffer.\<close>

fun find_sent :: "nat list \<Rightarrow> 's csma_scheme \<Rightarrow> nat option res" where
  "find_sent [] s = Ok None"
| "find_sent (p # ps) s =
     bindR (from_option NullDeref (rb_buf (pkt p s))) (\<lambda>b.
     bindR (qbuf_attr b ATTR_MAC_SEQNO s) (\<lambda>v.
       if v = packetbuf_attr ATTR_MAC_SEQNO (qpb s) then Ok (Some p) else find_sent ps s))"

definition packet_sent :: "csma_opts \<Rightarrow> 's csma_scheme upper \<Rightarrow> nat \<Rightarrow> 's csma_scheme mac_callback" where
  "packet_sent co cb n status num s =
     bindR (find_sent (queued_packet_list (nbq n s)) s) (\<lambda>f.
       case f of None \<Rightarrow> Ok s
       | Some p \<Rightarrow>
           if rb_ptr (pkt p s) = None then Ok s
           else (case status of
                   MAC_TX_OK \<Rightarrow> tx_ok co cb p n num s
                 | MAC_TX_NOACK \<Rightarrow> noack co cb p n num s
                 | MAC_TX_COLLISION \<Rightarrow> collision co cb p n num s
                 | MAC_TX_DEFERRED \<Rightarrow> Ok s
                 | _ \<Rightarrow> tx_done co cb status p n s))"

section \<open>Transmission\<close>

definition transmit_packet_list ::
  "csma_opts \<Rightarrow> framer_opts \<Rightarrow> 's csma_scheme upper \<Rightarrow> radio_tx list \<Rightarrow> nat \<Rightarrow> 's csma_scheme \<Rightarrow> 's csma_scheme res" where
  "transmit_packet_list co fo cb rs n s =
     (case list_hd (queued_packet_list (nbq n s)) of
        None \<Rightarrow> Ok s
      | Some p \<Rightarrow> send_list fo (packet_sent co cb n) (pkt_next n) (\<lambda>p s. rb_buf (pkt p s)) rs (Some p) s)"

text \<open>The timer of a neighbour fires: it no longer runs when its function is called.\<close>

definition csma_timer_fires ::
  "csma_opts \<Rightarrow> framer_opts \<Rightarrow> 's csma_scheme upper \<Rightarrow> radio_tx list \<Rightarrow> nat \<Rightarrow> 's csma_scheme \<Rightarrow> 's csma_scheme res" where
  "csma_timer_fires co fo cb rs n s =
     transmit_packet_list co fo cb rs n (upd_nbq n (\<lambda>q. q\<lparr>transmit_timer := None\<rparr>) s)"

section \<open>Accepting a packet\<close>

definition next_seqno :: "'s csma_scheme \<Rightarrow> 's csma_scheme res" where
  "next_seqno s =
     bindR (if csma_initialized s then Ok s
            else bindR (take_rnd s) (\<lambda>(r, s1). Ok (s1\<lparr>csma_initialized := True, csma_seqno := r\<rparr>))) (\<lambda>s1.
     let sq = (if csma_seqno s1 = 0 then csma_seqno s1 + 1 else csma_seqno s1)
     in Ok (s1\<lparr>csma_seqno := sq + 1, qpb := packetbuf_set_attr ATTR_MAC_SEQNO sq (qpb s1)\<rparr>))"

definition get_nbq :: "csma_opts \<Rightarrow> u16 \<Rightarrow> 's csma_scheme \<Rightarrow> nat option \<times> 's csma_scheme" where
  "get_nbq co addr s =
     (case neighbor_queue_from_addr addr s of
        Some n \<Rightarrow> (Some n, s)
      | None \<Rightarrow>
          (case memb_alloc (neighbor_memb s) of
             (None, m) \<Rightarrow> (None, s\<lparr>neighbor_memb := m\<rparr>)
           | (Some n, m) \<Rightarrow>
               let s1 = upd_nbq n (\<lambda>q. q\<lparr>nq_addr := addr, transmissions := 0, collisions := CSMA_MIN_BE co,
                          queued_packet_list := []\<rparr>) (s\<lparr>neighbor_memb := m\<rparr>)
               in (Some n, s1\<lparr>neighbor_list := neighbor_list s1 @ [n]\<rparr>)))"

text \<open>The nested allocations; what was allocated is given back when a later one fails.\<close>

definition alloc_packet :: "'s csma_scheme \<Rightarrow> (nat option \<times> 's csma_scheme) res" where
  "alloc_packet s =
     (case memb_alloc (packet_memb s) of
        (None, pm) \<Rightarrow> Ok (None, s\<lparr>packet_memb := pm\<rparr>)
      | (Some p, pm) \<Rightarrow>
          (case memb_alloc (metadata_memb s) of
             (None, mm) \<Rightarrow>
               let pm1 = set_blk p ((mmem pm ! p)\<lparr>rb_ptr := None\<rparr>) pm
               in Ok (None, s\<lparr>packet_memb := snd (memb_free pm1 p), metadata_memb := mm\<rparr>)
           | (Some m, mm) \<Rightarrow>
               let s1 = s\<lparr>packet_memb := set_blk p ((mmem pm ! p)\<lparr>rb_ptr := Some m\<rparr>) pm, metadata_memb := mm\<rparr> in
               bindR (qbuf_new_from_packetbuf s1) (\<lambda>(b, s2).
                 let pm2 = set_blk p ((pkt p s2)\<lparr>rb_buf := b\<rparr>) (packet_memb s2) in
                 if b \<noteq> None then Ok (Some p, s2\<lparr>packet_memb := pm2\<rparr>)
                 else Ok (None, s2\<lparr>packet_memb := snd (memb_free pm2 p), metadata_memb := snd (memb_free (metadata_memb s2) m)\<rparr>))))"

definition fill_metadata :: "csma_opts \<Rightarrow> nat option \<Rightarrow> nat \<Rightarrow> nat \<Rightarrow> 's csma_scheme \<Rightarrow> 's csma_scheme" where
  "fill_metadata co sent ptr p s =
     (case rb_ptr (pkt p s) of
        None \<Rightarrow> s
      | Some m \<Rightarrow>
          let a = packetbuf_attr ATTR_MAX_MAC_TRANSMISSIONS (qpb s);
              mx = (if a = 0 then CSMA_MAX_MAX_FRAME_RETRIES co + 1 else ucast a)
          in s\<lparr>metadata_memb := set_blk m \<lparr>md_sent = sent, md_cptr = ptr, max_transmissions = mx\<rparr> (metadata_memb s)\<rparr>)"

definition enqueue :: "csma_opts \<Rightarrow> nat \<Rightarrow> nat \<Rightarrow> 's csma_scheme \<Rightarrow> 's csma_scheme res" where
  "enqueue co n p s =
     (let s1 = upd_nbq n (\<lambda>q. q\<lparr>queued_packet_list :=
                 (if packetbuf_attr ATTR_PACKET_TYPE (qpb s) = PACKET_TYPE_ACK
                  then p # remove1 p (queued_packet_list q) else remove1 p (queued_packet_list q) @ [p])\<rparr>) s
      in if list_hd (queued_packet_list (nbq n s1)) = Some p then schedule_transmission co n s1 else Ok s1)"

definition csma_send_packet ::
  "csma_opts \<Rightarrow> 's csma_scheme upper \<Rightarrow> nat option \<Rightarrow> nat \<Rightarrow> 's csma_scheme \<Rightarrow> 's csma_scheme res" where
  "csma_send_packet co cb sent ptr s =
     (let addr = packetbuf_addr ADDR_RECEIVER (qpb s) in
      bindR (next_seqno s) (\<lambda>s1.
      case get_nbq co addr s1 of
        (None, s2) \<Rightarrow> mac_call_sent_callback cb sent ptr MAC_TX_ERR 1 s2
      | (Some n, s2) \<Rightarrow>
          if length (queued_packet_list (nbq n s2)) < mnum (packet_memb s2) then
            bindR (alloc_packet s2) (\<lambda>(r, s3).
              case r of
                Some p \<Rightarrow> enqueue co n p (fill_metadata co sent ptr p s3)
              | None \<Rightarrow>
                  let s4 = (if queued_packet_list (nbq n s3) = [] then release_neighbor n s3 else s3)
                  in mac_call_sent_callback cb sent ptr MAC_TX_ERR 1 s4)
          else mac_call_sent_callback cb sent ptr MAC_TX_ERR 1 s2))"

section \<open>The rest of the driver\<close>

definition csma_input_packet :: "('s csma_scheme \<Rightarrow> 's csma_scheme res) \<Rightarrow> 's csma_scheme \<Rightarrow> 's csma_scheme res" where
  "csma_input_packet llsec_input s = llsec_input s"

definition csma_turn_on :: "'s csma_scheme \<Rightarrow> 's csma_scheme" where
  "csma_turn_on s = rdc_turn_on s"

definition csma_turn_off :: "bool \<Rightarrow> 's csma_scheme \<Rightarrow> 's csma_scheme" where
  "csma_turn_off keep_radio_on s = rdc_turn_off keep_radio_on s"

definition neighbor_zero :: neighbor_queue where
  "neighbor_zero = \<lparr>nq_addr = 0, transmit_timer = None, transmissions = 0, collisions = 0, queued_packet_list = []\<rparr>"

definition csma_init :: "'s csma_scheme \<Rightarrow> 's csma_scheme" where
  "csma_init s = s\<lparr>packet_memb := memb_init \<lparr>rb_buf = None, rb_ptr = None\<rparr> (packet_memb s),
     metadata_memb := memb_init \<lparr>md_sent = None, md_cptr = 0, max_transmissions = 0\<rparr> (metadata_memb s),
     neighbor_memb := memb_init neighbor_zero (neighbor_memb s)\<rparr>"

end
