(* ===== verification/Framer_Laws.thy ===== *)
theory Framer_Laws
  imports Framer802154
begin

text \<open>
  What the framer promises: the header it creates has the announced length, creation fails only for lack of
  room or before the node is associated, and the parser of the receiver recovers the addresses, the
  attributes and the payload that the sender put into its packet buffer.
\<close>

section \<open>Room for a header\<close>

lemma hdralloc_room:
  assumes ok: "pbuf_ok b" and gap: "pb_bufptr b = 0" and sz: "sz < 256" and r: "packetbuf_hdralloc (of_nat sz) b = Ok (True, b')"
  shows "\<exists>mem. b' = b\<lparr>pb_data := mem, pb_hdrlen := pb_hdrlen b + of_nat sz\<rparr> \<and> length mem = PACKETBUF_SIZE \<and>
    sz + unat (pb_hdrlen b) + unat (pb_buflen b) \<le> PACKETBUF_SIZE \<and>
    take (unat (pb_hdrlen b) + unat (pb_buflen b)) (drop sz mem) = pb_header b @ pb_payload b"
proof -
  let ?h = "unat (pb_hdrlen b)" and ?n = "unat (pb_buflen b)"
  have tot: "unat (packetbuf_totlen b) = ?h + ?n" using packetbuf_totlen_eq [OF ok] gap by simp
  have bound: "?h + ?n \<le> 128" "length (pb_data b) = 128" using ok gap by (simp_all add: pbuf_ok_def)
  have sz16: "unat (of_nat sz :: u16) = sz" using sz by (simp add: unat_of_nat)
  have "unat (of_nat sz + packetbuf_totlen b) = sz + (?h + ?n)" using sz bound tot sz16 by (simp add: unat_word_ariths)
  then have fits: "sz + (?h + ?n) \<le> 128"
    using r by (auto simp: packetbuf_hdralloc_def word_less_nat_alt split: if_splits)
  obtain mem where m: "shift_right sz (?h + ?n) (pb_data b) = Ok mem" "length mem = 128"
    "take (?h + ?n) (drop sz mem) = take (?h + ?n) (pb_data b)"
    using shift_right_eq [of "?h + ?n" sz "pb_data b"] fits bound by auto
  have "(ucast (of_nat sz :: u16) :: u8) = of_nat sz" 
    using sz by (simp add: word_unat_eq_iff unat_ucast_mod unat_of_nat)
  then have "b' = b\<lparr>pb_data := mem, pb_hdrlen := pb_hdrlen b + of_nat sz\<rparr>"
    using r m(1) by (auto simp: packetbuf_hdralloc_def sz16 tot split: if_splits)
  moreover have "take (?h + ?n) (pb_data b) = pb_header b @ pb_payload b"
    using packetbuf_dataptr_eq [OF ok] gap by (simp add: pb_header_def pb_payload_def take_add)
  ultimately show ?thesis using m fits by (intro exI [of _ mem]) (simp add: add.assoc)
qed

section \<open>The size of a header\<close>

lemma header_small:
  assumes "frame_ok opts p"
  shows "length (header_bytes opts p) < 256"
proof -
  have "aux_len opts q \<le> 15" for q by (simp add: aux_len_def get_key_id_len_def)
  moreover have "unat (key_id_mode (aux_hdr p)) < 4" using assms by (simp add: frame_ok_def Let_def word_less_nat_alt)
  ultimately have "length (aux_field opts p) \<le> 15"
    using assms by (auto simp: aux_field_def frame_ok_def arrays_ok_def)
  moreover have "length (addr_bytes p) \<le> 20"
  proof -
    have pid: "length (pid_field c pid) \<le> 2" for c pid by (simp add: pid_field_def)
    have addr: "length (addr_field m a) \<le> 8" for m a using addr_len_le [of "m AND 3"] by (simp add: addr_field_def)
    obtain x y where "frame802154_has_panid (fcf p) = (x, y)" by (cases "frame802154_has_panid (fcf p)")
    then show ?thesis
      using pid [of y "dest_pid p"] pid [of x "src_pid p"] addr [of "dest_addr_mode (fcf p)" "dest_addr p"]
        addr [of "src_addr_mode (fcf p)" "src_addr p"]
      by (simp add: addr_bytes_def)
  qed
  moreover have "length (seq_field p) \<le> 1" by (simp add: seq_field_def)
  ultimately show ?thesis by (simp add: header_bytes_def split: prod.splits)
qed

section \<open>From packet to packet\<close>

text \<open>A build and a packet whose attributes fit the fields of the header.\<close>

definition sendable :: "framer_opts \<Rightarrow> pbuf \<Rightarrow> bool" where
  "sendable fo b \<longleftrightarrow> pbuf_ok b \<and> pb_bufptr b = 0 \<and>
     packetbuf_attr ATTR_FRAME_TYPE b < 8 \<and> packetbuf_attr ATTR_PENDING b < 2 \<and> packetbuf_attr ATTR_MAC_ACK b < 2 \<and>
     FRAME802154_VERSION fo < 4 \<and> FRAME802154_SUPPR_SEQNO fo < 2 \<and>
     (USES_AUX_HEADER (hdr_opts fo) \<longrightarrow> USES_FRAME_COUNTER fo \<and> packetbuf_attr ATTR_SECURITY_LEVEL b < 8 \<and>
        packetbuf_attr ATTR_KEY_ID_MODE b < 4)"

lemma ucast_small: "(x :: u16) < 256 \<Longrightarrow> unat (ucast x :: u8) = unat x"
  by (simp add: unat_ucast_mod word_less_nat_alt)

lemma ucast_below:
  fixes x :: u16
  shows "x < 2 \<Longrightarrow> (ucast x :: u8) < 2" and "x < 4 \<Longrightarrow> (ucast x :: u8) < 4" and "x < 8 \<Longrightarrow> (ucast x :: u8) < 8"
  using ucast_small [of x] by (simp_all add: word_less_nat_alt)

lemma ucast_ucast_small: "(x :: u16) < 256 \<Longrightarrow> ucast (ucast x :: u8) = x"
  using ucast_small [of x] by (simp add: word_unat_eq_iff)

lemma ucast_up_down: "ucast (ucast (x :: u8) :: u16) = x"
  using unat_bound_pow [of x] by (simp add: word_unat_eq_iff unat_ucast_mod)

lemma length_addr8 [simp]: "length (addr8 a) = 8"
  by (simp add: addr8_def)

lemma out_frame_ok:
  assumes "sendable fo b"
  shows "frame_ok (hdr_opts fo) (out_frame fo fs sq b)"
proof -
  have "fcf_ok (out_fcf fo b)"
    using assms ucast_below [of "packetbuf_attr ATTR_FRAME_TYPE b"] ucast_below [of "packetbuf_attr ATTR_PENDING b"]
      ucast_below [of "packetbuf_attr ATTR_MAC_ACK b"]
    by (simp add: fcf_ok_def out_fcf_def Let_def sendable_def)
  moreover have "security_level (out_aux fo b) < 8 \<and> key_id_mode (out_aux fo b) < 4 \<and>
      frame_counter_suppression (out_aux fo b) < 2 \<and> frame_counter_size (out_aux fo b) = 0 \<and>
      length (frame_counter (out_aux fo b)) = 4 \<and> length (key_source (out_aux fo b)) = 8"
    using assms ucast_below [of "packetbuf_attr ATTR_SECURITY_LEVEL b"] ucast_below [of "packetbuf_attr ATTR_KEY_ID_MODE b"]
    by (simp add: out_aux_def Let_def aux_zero_def sendable_def)
  ultimately show ?thesis
    by (simp add: frame_ok_def arrays_ok_def out_frame_def out_fcf_def Let_def)
qed

text \<open>The frame that is handed to the radio: the bytes from the header pointer on.\<close>

definition on_air :: "pbuf \<Rightarrow> u8 list" where
  "on_air b = take (unat (packetbuf_totlen b)) (pb_data b)"

lemma set_seq_simps [simp]:
  "pb_header (packetbuf_set_attr a v b) = pb_header b" "pb_payload (packetbuf_set_attr a v b) = pb_payload b"
  "pbuf_ok (packetbuf_set_attr a v b) = pbuf_ok b" "pb_bufptr (packetbuf_set_attr a v b) = pb_bufptr b"
  "pb_hdrlen (packetbuf_set_attr a v b) = pb_hdrlen b" "pb_buflen (packetbuf_set_attr a v b) = pb_buflen b"
  "packetbuf_addr k (packetbuf_set_attr a v b) = packetbuf_addr k b"
  "packetbuf_holds_broadcast (packetbuf_set_attr a v b) = packetbuf_holds_broadcast b"
  "packetbuf_attr x (packetbuf_set_attr a v b) = (if x = a then v else packetbuf_attr x b)"
  by (simp_all add: packetbuf_set_attr_def pb_header_def pb_payload_def packetbuf_dataptr_def packetbuf_hdrlen_def
      pbuf_ok_def packetbuf_addr_def packetbuf_holds_broadcast_def packetbuf_attr_def)

lemma compress_fields [simp]:
  "seq (compress p) = seq p" "dest_addr (compress p) = dest_addr p" "src_addr (compress p) = src_addr p"
  "dest_pid (compress p) = dest_pid p" "src_pid (compress p) = src_pid p"
  "frame_type (fcf (compress p)) = frame_type (fcf p)" "frame_pending (fcf (compress p)) = frame_pending (fcf p)"
  "dest_addr_mode (fcf (compress p)) = dest_addr_mode (fcf p)" "src_addr_mode (fcf (compress p)) = src_addr_mode (fcf p)"
  "sequence_number_suppression (fcf (compress p)) = sequence_number_suppression (fcf p)"
  by (simp_all add: compress_def)

lemma short_has_dest_panid:
  assumes "dest_addr_mode f = 2" and "src_addr_mode f = 2" and "frame_type f \<noteq> 2 \<or> frame_version f = 2"
  shows "snd (frame802154_has_panid f)"
  using assms by (auto simp: frame802154_has_panid_def Let_def)

lemma out_frame_seqno: "out_frame fo fs sq (packetbuf_set_attr ATTR_MAC_SEQNO v b) = out_frame fo fs sq b"
  by (simp add: out_frame_def out_fcf_def out_aux_def Let_def packetbuf_dataptr_def packetbuf_hdrlen_def packetbuf_datalen_def)

lemma sendable_seqno: "sendable fo (packetbuf_set_attr ATTR_MAC_SEQNO v b) = sendable fo b"
  by (simp add: sendable_def)

text \<open>What \<open>create\<close> leaves in the buffer.\<close>

lemma framer_create_eq:
  assumes s: "sendable fo b" and r: "framer_create fo rnd fs b = Ok (h, fs', b')" and h: "h \<noteq> FRAMER_FAILED"
  shows "\<exists>sq p. p = compress (out_frame fo fs' sq b) \<and> frame_ok (hdr_opts fo) p \<and>
    h = int (length (header_bytes (hdr_opts fo) p)) \<and> sq = ucast (packetbuf_attr ATTR_MAC_SEQNO b') \<and>
    on_air b' = header_bytes (hdr_opts fo) p @ pb_header b @ pb_payload b \<and>
    unat (packetbuf_totlen b') = length (on_air b') \<and> length (on_air b') \<le> PACKETBUF_SIZE \<and> mac_pan_id fs' = mac_pan_id fs"
proof -
  define fs1 where "fs1 = (if \<not> fr_initialized fs then fs\<lparr>fr_initialized := True, mac_dsn := ucast (rnd AND 0xff)\<rparr> else fs)"
  obtain sq fs2 b1 where sq: "out_seq fs1 b = (sq, fs2, b1)" by (cases "out_seq fs1 b")
  define p where "p = out_frame fo fs2 sq b1"
  have pan: "mac_pan_id fs2 = mac_pan_id fs"
    using sq by (auto simp: out_seq_def fs1_def Let_def split: if_splits)
  have b1: "sendable fo b1" "pb_header b1 = pb_header b" "pb_payload b1 = pb_payload b" "p = out_frame fo fs2 sq b"
    "pb_hdrlen b1 = pb_hdrlen b" "pb_buflen b1 = pb_buflen b" "pb_bufptr b1 = 0" "pbuf_ok b1"
  proof -
    have "b1 = b \<or> (\<exists>v. b1 = packetbuf_set_attr ATTR_MAC_SEQNO v b)"
      using sq by (auto simp: out_seq_def Let_def split: if_splits)
    then show "sendable fo b1" "pb_header b1 = pb_header b" "pb_payload b1 = pb_payload b" "p = out_frame fo fs2 sq b"
      "pb_hdrlen b1 = pb_hdrlen b" "pb_buflen b1 = pb_buflen b" "pb_bufptr b1 = 0" "pbuf_ok b1"
      using s sendable_seqno by (auto simp: p_def out_frame_seqno) (auto simp: sendable_def)
  qed
  have seqno: "sq = ucast (packetbuf_attr ATTR_MAC_SEQNO b1)"
    using sq by (auto simp: out_seq_def Let_def ucast_up_down split: if_splits)
  let ?o = "hdr_opts fo" and ?q = "compress p"
  let ?n = "length (header_bytes ?o ?q)"
  have ok: "frame_ok ?o p" unfolding p_def by (rule out_frame_ok [OF b1(1)])
  have n: "frame802154_hdrlen ?o p = (?n, ?q)" by (rule hdrlen_bytes [OF ok])
  from r h sq n obtain b2 n' mem p' where room: "packetbuf_hdralloc (of_nat ?n) b1 = Ok (True, b2)"
    and c: "frame802154_create ?o ?q (pb_data b2) = Ok (n', mem, p')"
    and out: "h = int ?n" "fs' = fs2" "b' = b2\<lparr>pb_data := mem\<rparr>"
  proof -
    have pan: "frame802154_get_pan_id fs \<noteq> 0xffff"
      using r h by (auto simp: framer_create_def create_frame_def)
    have run: "bindR (packetbuf_hdralloc (of_nat ?n) b1) (\<lambda>(room, b2).
             if room then
               bindR (frame802154_create ?o ?q (pb_data b2)) (\<lambda>(n, mem, _).
                 Ok (int ?n, fs2, b2\<lparr>pb_data := mem\<rparr>))
             else Ok (FRAMER_FAILED, fs2, b2)) = Ok (h, fs', b')"
      using r pan n sq unfolding framer_create_def create_frame_def Let_def fs1_def [symmetric] p_def by simp
    then obtain room b2 where a: "packetbuf_hdralloc (of_nat ?n) b1 = Ok (room, b2)" by (auto simp: res_iff)
    with run h have room "frame802154_create ?o ?q (pb_data b2) \<noteq> Fault e" for e by (auto split: if_splits)
    with a run that show ?thesis
      by (cases "frame802154_create ?o ?q (pb_data b2)") auto
  qed
  have okq: "frame_ok ?o ?q" by (rule compress_ok [OF ok])
  have idem: "compress ?q = ?q" by (simp add: compress_def)
  have c': "n' = ?n" "mem = header_bytes ?o ?q @ drop ?n (pb_data b2)"
    using create_bytes [OF c] okq idem by (simp_all add: frame_ok_def Let_def)
  have small: "?n < 256" using header_small [OF okq] .
  from hdralloc_room [OF b1(8,7) small room] obtain m where m: "b2 = b1\<lparr>pb_data := m, pb_hdrlen := pb_hdrlen b1 + of_nat ?n\<rparr>"
    "length m = PACKETBUF_SIZE" "?n + unat (pb_hdrlen b1) + unat (pb_buflen b1) \<le> PACKETBUF_SIZE"
    "take (unat (pb_hdrlen b1) + unat (pb_buflen b1)) (drop ?n m) = pb_header b1 @ pb_payload b1" by blast
  have hl: "unat (pb_hdrlen b1 + of_nat ?n) = unat (pb_hdrlen b1) + ?n"
    using m(3) small by (simp add: unat_word_ariths unat_of_nat)
  have tot: "unat (packetbuf_totlen b') = ?n + (unat (pb_hdrlen b1) + unat (pb_buflen b1))"
  proof -
    have "length mem = 128" using c' m by simp
    then have "pbuf_ok b'" using out(3) m hl b1(7) by (simp add: pbuf_ok_def)
    from packetbuf_totlen_eq [OF this] show ?thesis using out(3) m(1) hl b1(7) by simp
  qed
  have air: "on_air b' = header_bytes ?o ?q @ pb_header b @ pb_payload b"
    unfolding on_air_def tot using out(3) c'(2) m(1,4) b1(2,3) by simp
  have "length (on_air b') = unat (packetbuf_totlen b')"
    unfolding on_air_def using tot out(3) c' m(1,2,3) by simp
  moreover have "packetbuf_attr ATTR_MAC_SEQNO b' = packetbuf_attr ATTR_MAC_SEQNO b1"
    by (simp add: out(3) m(1) packetbuf_attr_def)
  ultimately show ?thesis
    using out(1,2) air b1(4) okq m(3) tot seqno pan by (intro exI [of _ sq] exI [of _ ?q]) simp
qed

lemma in_security_simps [simp]:
  "pb_payload (in_security fo f b) = pb_payload b" "packetbuf_addr k (in_security fo f b) = packetbuf_addr k b"
  "packetbuf_attr ATTR_FRAME_TYPE (in_security fo f b) = packetbuf_attr ATTR_FRAME_TYPE b"
  "packetbuf_attr ATTR_PENDING (in_security fo f b) = packetbuf_attr ATTR_PENDING b"
  "packetbuf_attr ATTR_MAC_SEQNO (in_security fo f b) = packetbuf_attr ATTR_MAC_SEQNO b"
  by (simp_all add: in_security_def Let_def)

lemma set_addr_simps [simp]:
  "pb_payload (packetbuf_set_addr k v b) = pb_payload b"
  "packetbuf_addr i (packetbuf_set_addr k v b) = (if i = k then v else packetbuf_addr i b)"
  "packetbuf_attr a (packetbuf_set_addr k v b) = packetbuf_attr a b"
  by (simp_all add: packetbuf_set_addr_def pb_payload_def packetbuf_dataptr_def packetbuf_hdrlen_def packetbuf_addr_def
      packetbuf_attr_def)

lemma short_addr:
  assumes "same_addr 2 a (addr8 x)"
  shows "dec_u16 a = x" and "frame802154_is_broadcast_addr 2 a \<longleftrightarrow> x = 0xffff"
proof -
  have t: "take 2 a = enc_u16 x" using assms by (simp add: same_addr_def addr_len_def addr8_def)
  then obtain r where a: "a = enc_u16 x @ r" by (metis append_take_drop_id)
  show "dec_u16 a = x" using dec_enc_u16 [of x] by (simp add: a dec_u16_def enc_u16_def)
  have "frame802154_is_broadcast_addr 2 a \<longleftrightarrow> enc_u16 x = [0xff, 0xff]"
    by (auto simp: frame802154_is_broadcast_addr_def a enc_u16_def numeral_2_eq_2)
  also have "[0xff, 0xff] = enc_u16 0xffff" by (simp add: enc_u16_def)
  also have "enc_u16 x = enc_u16 0xffff \<longleftrightarrow> x = 0xffff" by (metis dec_enc_u16)
  finally show "frame802154_is_broadcast_addr 2 a \<longleftrightarrow> x = 0xffff" .
qed

text \<open>The length of the header depends on the attributes of the packet only.\<close>

lemma hdrlen_cong:
  assumes "fcf (compress p) = fcf (compress p')" and "aux_hdr p = aux_hdr p'"
  shows "fst (frame802154_hdrlen opts p) = fst (frame802154_hdrlen opts p')"
proof -
  have "aux_hdr (compress q) = aux_hdr q" for q by (simp add: compress_def)
  with assms show ?thesis
    by (simp add: frame802154_hdrlen_def field_len_def aux_len_def Let_def case_prod_beta)
qed

lemma out_frame_hdrlen:
  "fst (frame802154_hdrlen opts (out_frame fo fs sq b)) = fst (frame802154_hdrlen opts (out_frame fo fs' sq' b))"
  by (rule hdrlen_cong) (simp_all add: compress_def out_frame_def)

lemma framer_hdr_length_eq:
  assumes "mac_pan_id fs \<noteq> 0xffff"
  shows "\<exists>fs0. framer_hdr_length fo rnd fs b = Ok (int (fst (frame802154_hdrlen (hdr_opts fo) (out_frame fo fs sq b))), fs0, b)"
  using assms out_frame_hdrlen [of "hdr_opts fo" fo _ _ b fs sq]
  by (auto simp: framer_hdr_length_def create_frame_def Let_def frame802154_get_pan_id_def case_prod_beta)

lemma framer_create_returns:
  assumes s: "sendable fo b" and pan: "mac_pan_id fs \<noteq> 0xffff" and hl: "framer_hdr_length fo rnd fs b = Ok (n, fs0, b0)"
    and room: "n + int (unat (packetbuf_totlen b)) \<le> int PACKETBUF_SIZE"
  shows "\<exists>fs' b'. framer_create fo rnd fs b = Ok (n, fs', b')"
proof -
  define fs1 where "fs1 = (if \<not> fr_initialized fs then fs\<lparr>fr_initialized := True, mac_dsn := ucast (rnd AND 0xff)\<rparr> else fs)"
  obtain sq fs2 b1 where sq: "out_seq fs1 b = (sq, fs2, b1)" by (cases "out_seq fs1 b")
  define p where "p = out_frame fo fs2 sq b1"
  let ?o = "hdr_opts fo"
  have b1: "sendable fo b1" "p = out_frame fo fs2 sq b" "pbuf_ok b1" "pb_bufptr b1 = 0" "packetbuf_totlen b1 = packetbuf_totlen b"
  proof -
    have "b1 = b \<or> (\<exists>v. b1 = packetbuf_set_attr ATTR_MAC_SEQNO v b)"
      using sq by (auto simp: out_seq_def Let_def split: if_splits)
    then show "sendable fo b1" "p = out_frame fo fs2 sq b" "pbuf_ok b1" "pb_bufptr b1 = 0" "packetbuf_totlen b1 = packetbuf_totlen b"
      using s sendable_seqno by (auto simp: p_def out_frame_seqno packetbuf_totlen_def packetbuf_hdrlen_def packetbuf_datalen_def) (auto simp: sendable_def)
  qed
  obtain m q where m: "frame802154_hdrlen ?o p = (m, q)" by (cases "frame802154_hdrlen ?o p")
  have ok: "frame_ok ?o p" unfolding p_def by (rule out_frame_ok [OF b1(1)])
  from hdrlen_bytes [OF ok] m have q: "q = compress p" "m = length (header_bytes ?o q)" by simp_all
  have okq: "frame_ok ?o q" using compress_ok [OF ok] q by simp
  have n: "n = int m"
    using framer_hdr_length_eq [OF pan, of fo rnd b sq] hl out_frame_hdrlen [of ?o fo fs sq b fs2 sq] m b1(2) by simp
  have small: "m < 256" using header_small [OF okq] q(2) by simp
  have tot: "unat (packetbuf_totlen b) = unat (pb_hdrlen b1) + unat (pb_buflen b1)"
    using packetbuf_totlen_eq [OF b1(3)] b1(4,5) by simp
  have "m + unat (pb_hdrlen b1) + unat (pb_buflen b1) \<le> PACKETBUF_SIZE"
    using room unfolding n tot by linarith
  moreover have "unat (of_nat m :: u16) = m" using small by (simp add: unat_of_nat)
  ultimately obtain b2 where b2: "packetbuf_hdralloc (of_nat m) b1 = Ok (True, b2)" "pbuf_ok b2"
    using hdralloc_keeps_packet [OF b1(3,4), of "of_nat m"] small by auto
  have "m = fst (frame802154_hdrlen ?o q)" using hdrlen_bytes [OF okq] q by (simp add: compress_def)
  moreover have "m \<le> length (pb_data b2)" using room b2(2) unfolding n pbuf_ok_def by linarith
  ultimately obtain buf' p1 where "frame802154_create ?o q (pb_data b2) = Ok (m, buf', p1)"
    using create_returns [OF okq] by metis
  then show ?thesis
    using pan m sq b2(1) n unfolding framer_create_def create_frame_def Let_def fs1_def [symmetric]
    by (simp add: frame802154_get_pan_id_def p_def)
qed

text \<open>What the receiver finds in a frame that was created.\<close>

lemma framer_delivers:
  assumes "sendable fo b" and "framer_create fo rnd fs b = Ok (h, fs', b')" and "h \<noteq> FRAMER_FAILED"
    and "packetbuf_attr ATTR_FRAME_TYPE b \<noteq> 2 \<or> FRAME802154_VERSION fo = 2"
    and "length (pb_data rb) = PACKETBUF_SIZE" and "packetbuf_copyfrom (on_air b') (packetbuf_totlen b') rb = Ok (l, rb')"
    and "mac_pan_id rfs = mac_pan_id fs" and "arrays_ok pf"
  shows "\<exists>rb''. framer_parse fo pf rfs rb' = Ok (h, rb'') \<and> pb_payload rb'' = pb_header b @ pb_payload b \<and>
    packetbuf_addr ADDR_SENDER rb'' = packetbuf_addr ADDR_SENDER b \<and>
    packetbuf_addr ADDR_RECEIVER rb'' =
      (if packetbuf_addr ADDR_RECEIVER b = 0xffff then 0 else packetbuf_addr ADDR_RECEIVER b) \<and>
    packetbuf_attr ATTR_FRAME_TYPE rb'' = packetbuf_attr ATTR_FRAME_TYPE b \<and>
    packetbuf_attr ATTR_PENDING rb'' = packetbuf_attr ATTR_PENDING b \<and>
    (sequence_number_suppression (out_fcf fo b) = 0 \<longrightarrow>
       packetbuf_attr ATTR_MAC_SEQNO rb'' = ucast (ucast (packetbuf_attr ATTR_MAC_SEQNO b') :: u8))"
proof -
  obtain sq p where p: "p = compress (out_frame fo fs' sq b)" "frame_ok (hdr_opts fo) p"
    and h: "h = int (length (header_bytes (hdr_opts fo) p))" and sq: "sq = ucast (packetbuf_attr ATTR_MAC_SEQNO b')"
    and air: "on_air b' = header_bytes (hdr_opts fo) p @ pb_header b @ pb_payload b"
    and tot: "unat (packetbuf_totlen b') = length (on_air b')" "length (on_air b') \<le> PACKETBUF_SIZE"
    and pan: "mac_pan_id fs' = mac_pan_id fs"
    using framer_create_eq [OF assms(1-3)] by blast
  let ?hb = "header_bytes (hdr_opts fo) p" and ?len = "packetbuf_totlen b'"
  let ?n = "length ?hb"
  let ?r = "(packetbuf_clear rb)\<lparr>pb_data := on_air b' @ drop (unat ?len) (pb_data rb), pb_buflen := ?len\<rparr>"
  have "packetbuf_copyfrom (on_air b') ?len rb = Ok (unat ?len, ?r)"
    by (rule copyfrom_eq [OF assms(5)]) (use tot in linarith)+
  then have rb': "rb' = ?r" using assms(6) by (simp only: res.inject prod.inject)
  have ok: "pbuf_ok ?r" using tot assms(5) by (simp add: pbuf_ok_def packetbuf_clear_def packetbuf_attr_clear_def)
  have ptr: "packetbuf_dataptr ?r = 0"
    using packetbuf_dataptr_eq [OF ok] by (simp add: packetbuf_clear_def packetbuf_attr_clear_def)
  have dl: "packetbuf_datalen ?r = ?len" by (simp add: packetbuf_datalen_def)
  have slen: "sint ?len = int (length (on_air b'))"
  proof -
    have u: "uint ?len = int (unat ?len)" by simp
    have "uint ?len < 32768" unfolding u using tot by linarith
    then have "sint ?len = uint ?len" 
      using signed_take_bit_int_eq_self [of 15 "uint ?len"] uint_ge_0 [of ?len] by (simp add: sint_uint)
    then show ?thesis unfolding u using tot(1) by simp
  qed
  have nle: "int ?n \<le> sint ?len" using slen air by simp
  obtain q where q: "frame802154_parse (hdr_opts fo) (?hb @ (pb_header b @ pb_payload b) @ drop (unat ?len) (pb_data rb)) (sint ?len) pf = Ok (?n, q)"
    and rec: "recovers (hdr_opts fo) q p"
    using parse_header [OF p(2) nle assms(8)] by blast
  have n0: "0 < ?n" "?n < 256" using header_small [OF p(2)] by (simp_all add: header_bytes_def split: prod.splits)
  have n16: "unat (of_nat ?n :: u16) = ?n" using n0 by (simp add: unat_of_nat)
  have le: "of_nat ?n \<le> pb_buflen ?r" using n16 tot(1) air by (simp add: word_le_nat_alt)
  define b1 where "b1 = snd (packetbuf_hdrreduce (of_nat ?n) ?r)"
  have red: "packetbuf_hdrreduce (of_nat ?n) ?r = (True, b1)"
    using le by (simp add: b1_def packetbuf_hdrreduce_def not_less)
  have "pb_payload ?r = on_air b'" using ptr tot by (simp add: pb_payload_def)
  then have pay: "pb_payload b1 = pb_header b @ pb_payload b"
    using hdrreduce_payload [OF ok le] air n16 by (simp add: b1_def)
  have addr1: "packetbuf_addr k b1 = 0" for k
    by (simp add: b1_def packetbuf_hdrreduce_def packetbuf_addr_def packetbuf_clear_def packetbuf_attr_clear_def)
  have f: "frame_type (fcf p) = ucast (packetbuf_attr ATTR_FRAME_TYPE b)" "frame_version (fcf p) = FRAME802154_VERSION fo"
    "frame_pending (fcf p) = ucast (packetbuf_attr ATTR_PENDING b)"
    using p(1) by (simp_all add: out_frame_def out_fcf_def Let_def compress_def)
  have modes: "dest_addr_mode (fcf q) = 2" "src_addr_mode (fcf q) = 2" "fcf q = fcf p"
    using rec p(1) by (simp_all add: recovers_def out_frame_def out_fcf_def Let_def)
  have small: "packetbuf_attr ATTR_FRAME_TYPE b < 8" "packetbuf_attr ATTR_PENDING b < 2"
    using assms(1) by (simp_all add: sendable_def)
  have "frame_type (fcf p) \<noteq> 2 \<or> frame_version (fcf p) = 2"
  proof -
    have "ucast (packetbuf_attr ATTR_FRAME_TYPE b) = (2 :: u8) \<Longrightarrow> packetbuf_attr ATTR_FRAME_TYPE b = 2"
      using ucast_small [of "packetbuf_attr ATTR_FRAME_TYPE b"] small(1)
      by (simp add: word_unat_eq_iff word_less_nat_alt)
    then show ?thesis using assms(4) f(1,2) by auto
  qed
  then have "dest_pid q = mac_pan_id rfs"
    using short_has_dest_panid [of "fcf p"] rec modes p(1) assms(7) pan
    by (simp add: recovers_def out_frame_def frame802154_get_pan_id_def)
  moreover have src: "dec_u16 (src_addr q) = packetbuf_addr ADDR_SENDER b"
    using rec p(1) short_addr [of "src_addr q" "packetbuf_addr ADDR_SENDER b"] modes
    by (simp add: recovers_def out_frame_def out_fcf_def Let_def)
  moreover have "same_addr 2 (dest_addr q) (addr8 (if packetbuf_holds_broadcast b then 0xffff else packetbuf_addr ADDR_RECEIVER b))"
    using rec p(1) by (auto simp: recovers_def out_frame_def out_fcf_def Let_def addr8_def enc_u16_def same_addr_def addr_len_def)
  note dst = short_addr [OF this]
  ultimately have parse: "framer_parse fo pf rfs rb' =
      Ok (h, in_attrs fo q (if packetbuf_addr ADDR_RECEIVER b = 0xffff \<or> packetbuf_holds_broadcast b
         then packetbuf_set_attr ATTR_FRAME_TYPE (ucast (frame_type (fcf q))) b1
         else packetbuf_set_addr ADDR_RECEIVER (packetbuf_addr ADDR_RECEIVER b)
                (packetbuf_set_attr ATTR_FRAME_TYPE (ucast (frame_type (fcf q))) b1)))"
    using q red n0 h modes unfolding rb' framer_parse_def ptr dl
    by (auto simp: air frame802154_get_pan_id_def Let_def)
  have "ucast (frame_type (fcf q)) = packetbuf_attr ATTR_FRAME_TYPE b" "ucast (frame_pending (fcf q)) = packetbuf_attr ATTR_PENDING b"
    using modes(3) f small ucast_ucast_small [of "packetbuf_attr ATTR_FRAME_TYPE b"] ucast_ucast_small [of "packetbuf_attr ATTR_PENDING b"]
    by (simp_all add: word_less_nat_alt)
  moreover have "sequence_number_suppression (out_fcf fo b) = 0 \<longrightarrow> seq q = sq \<and> sequence_number_suppression (fcf q) = 0"
    using rec p(1) by (simp add: recovers_def out_frame_def)
  moreover have "packetbuf_holds_broadcast b \<longleftrightarrow> packetbuf_addr ADDR_RECEIVER b = 0"
    by (simp add: packetbuf_holds_broadcast_def packetbuf_addr_def)
  ultimately show ?thesis
    unfolding parse using pay addr1 src sq by (auto simp: in_attrs_def Let_def)
qed

text \<open>
  C7: A packet crosses the air unchanged. When the header that \<open>hdr_length\<close> announces fits into the packet
  buffer, an associated node frames its packet, and when a node of the same PAN receives the bytes that go out, the receiver's framer removes exactly the header that was
  added: it finds the packet (with the headers of the upper layers) and its sender, receiver, frame
  type, pending bit and the low byte of its sequence number. The broadcast address stays the null
  address, and a unicast address 0xFFFF cannot be told from it.
\<close>

theorem framer_round_trip:
  assumes "sendable fo b" and "mac_pan_id fs \<noteq> 0xffff"
    and "framer_hdr_length fo rnd fs b = Ok (n, fs0, b0)" and "n + int (unat (packetbuf_totlen b)) \<le> int PACKETBUF_SIZE"
    and "packetbuf_attr ATTR_FRAME_TYPE b \<noteq> 2 \<or> FRAME802154_VERSION fo = 2"
    and "length (pb_data rb) = PACKETBUF_SIZE" and "mac_pan_id rfs = mac_pan_id fs" and "arrays_ok pf"
  shows "\<exists>fs' b' l rb' rb''. framer_create fo rnd fs b = Ok (n, fs', b') \<and>
    packetbuf_copyfrom (on_air b') (packetbuf_totlen b') rb = Ok (l, rb') \<and>
    framer_parse fo pf rfs rb' = Ok (n, rb'') \<and> pb_payload rb'' = pb_header b @ pb_payload b \<and>
    packetbuf_addr ADDR_SENDER rb'' = packetbuf_addr ADDR_SENDER b \<and>
    packetbuf_addr ADDR_RECEIVER rb'' =
      (if packetbuf_addr ADDR_RECEIVER b = 0xffff then 0 else packetbuf_addr ADDR_RECEIVER b) \<and>
    packetbuf_attr ATTR_FRAME_TYPE rb'' = packetbuf_attr ATTR_FRAME_TYPE b \<and>
    packetbuf_attr ATTR_PENDING rb'' = packetbuf_attr ATTR_PENDING b \<and>
    (sequence_number_suppression (out_fcf fo b) = 0 \<longrightarrow>
       packetbuf_attr ATTR_MAC_SEQNO rb'' = ucast (ucast (packetbuf_attr ATTR_MAC_SEQNO b') :: u8))"
proof -
  obtain fs' b' where c: "framer_create fo rnd fs b = Ok (n, fs', b')" using framer_create_returns [OF assms(1-4)] by blast
  have n: "n \<noteq> FRAMER_FAILED" using framer_hdr_length_eq [OF assms(2), of fo rnd b 0] assms(3) by auto
  have air: "length (on_air b') = unat (packetbuf_totlen b')" "unat (packetbuf_totlen b') \<le> PACKETBUF_SIZE"
    using framer_create_eq [OF assms(1) c n] by (elim exE conjE, simp only:)+
  obtain l rb' where r: "packetbuf_copyfrom (on_air b') (packetbuf_totlen b') rb = Ok (l, rb')"
    using copyfrom_eq [OF assms(6) air(2,1)] by blast
  note d = framer_delivers [OF assms(1) c n assms(5,6) r assms(7,8)]
  show ?thesis
    by (rule exI [of _ fs'], rule exI [of _ b'], rule exI [of _ l], rule exI [of _ rb'], rule ex_forward [OF d])
      (rule conjI [OF c conjI [OF r]])
qed

text \<open>A broadcast of three bytes.\<close>

definition demo_framer_opts :: framer_opts where
  "demo_framer_opts = \<lparr>hdr_opts = \<lparr>USES_AUX_HEADER = False, USES_EXPLICIT_KEYS = False\<rparr>,
     FRAME802154_VERSION = FRAME802154_IEEE802154_2006, FRAME802154_SUPPR_SEQNO = 0, USES_FRAME_COUNTER = False\<rparr>"

definition demo_framer :: framer where
  "demo_framer = \<lparr>mac_pan_id = 0xABCD, mac_dsn = 0, fr_initialized = False\<rparr>"

definition demo_pb :: pbuf where
  "demo_pb = packetbuf_set_addr ADDR_SENDER 69 (packetbuf_set_attr ATTR_FRAME_TYPE 1
     \<lparr>pb_data = [7, 8, 9] @ replicate 125 0, pb_buflen = 3, pb_bufptr = 0, pb_hdrlen = 0, pb_attrs = (\<lambda>_. 0), pb_addrs = (\<lambda>_. 0)\<rparr>)"

theorem framer_round_trip_witness:
  "case framer_create demo_framer_opts 300 demo_framer demo_pb of
     Ok (h, fs', b') \<Rightarrow> (case packetbuf_copyfrom (on_air b') (packetbuf_totlen b') demo_pb of
        Ok (l, rb') \<Rightarrow> (\<exists>rb''. framer_parse demo_framer_opts blank_frame demo_framer rb' = Ok (h, rb'') \<and>
          pb_payload rb'' = [7, 8, 9] \<and> packetbuf_addr ADDR_SENDER rb'' = 69)
      | Fault _ \<Rightarrow> False)
   | Fault _ \<Rightarrow> False"
proof -
  obtain fs0 where h: "framer_hdr_length demo_framer_opts 300 demo_framer demo_pb = Ok (9, fs0, demo_pb)"
  proof -
    have "fst (frame802154_hdrlen (hdr_opts demo_framer_opts) (out_frame demo_framer_opts demo_framer 0 demo_pb)) = 9"
      by code_simp
    then show ?thesis
      using that framer_hdr_length_eq [of demo_framer demo_framer_opts 300 demo_pb 0] by (auto simp: demo_framer_def)
  qed
  have s: "sendable demo_framer_opts demo_pb"
    by (simp add: sendable_def demo_framer_opts_def demo_pb_def pbuf_ok_def packetbuf_set_addr_def packetbuf_set_attr_def packetbuf_attr_def)
  have pb: "unat (packetbuf_totlen demo_pb) = 3" "pb_header demo_pb @ pb_payload demo_pb = [7, 8, 9]"
    "packetbuf_addr ADDR_SENDER demo_pb = 69" "length (pb_data demo_pb) = PACKETBUF_SIZE" by code_simp+
  have arr: "arrays_ok blank_frame" by (simp add: arrays_ok_def blank_frame_def)
  have ft: "packetbuf_attr ATTR_FRAME_TYPE demo_pb \<noteq> 2 \<or> FRAME802154_VERSION demo_framer_opts = 2"
    by (simp add: demo_pb_def)
  have pan: "mac_pan_id demo_framer \<noteq> 0xffff" by (simp add: demo_framer_def)
  show ?thesis
    using framer_round_trip [OF s pan h _ ft pb(4) refl arr] pb by auto
qed

text \<open>
  A node that is not associated with a PAN sends nothing: \<open>create\<close> refuses, and the packet is untouched.
\<close>

lemma framer_create_unassociated:
  "mac_pan_id fs = 0xffff \<Longrightarrow> framer_create fo rnd fs b = Ok (FRAMER_FAILED, fs, b)"
  by (simp add: framer_create_def create_frame_def frame802154_get_pan_id_def)

end
