(* ===== verification/Queuebuf_Laws.thy ===== *)
theory Queuebuf_Laws
  imports Queuebuf
begin

text \<open>
  The pools of queue buffers keep packets: the interface \<open>packet_store\<close> is a finite map from handles to
  packets with a capacity, and the operations of \<^verbatim>\<open>queuebuf.c\<close> implement it.
\<close>

section \<open>Blocks of a pool\<close>

lemma set_blk_simps [simp]:
  "mcount (set_blk i x m) = mcount m" "mmem (set_blk i x m) = (mmem m)[i := x]" "memb_used (set_blk i x m) = memb_used m"
  "memb_ok (set_blk i x m) = memb_ok m"
  by (simp_all add: set_blk_def memb_used_def memb_ok_def)

lemma used_block: "memb_ok m \<Longrightarrow> i \<in> memb_used m \<Longrightarrow> i < length (mmem m)"
  by (simp add: memb_ok_def memb_used_def)

lemma memb_free_ptr_simps [simp]:
  "memb_free_ptr m None = m" "memb_free_ptr m (Some i) = snd (memb_free m i)"
  by (simp_all add: memb_free_ptr_def)

section \<open>The packets in store\<close>

type_synonym held_packet = "u8 list \<times> (pb_attr \<Rightarrow> u16) \<times> (nat \<Rightarrow> u16)"

definition packet_in :: "pbuf \<Rightarrow> held_packet" where
  "packet_in b = (pb_header b @ pb_payload b, pb_attrs b, pb_addrs b)"

definition block_packet :: "qbuf_data \<Rightarrow> held_packet" where
  "block_packet d = (take (unat (qd_len d)) (qd_data d), qd_attrs d, qd_addrs d)"

definition blk_of :: "'s qnet_scheme \<Rightarrow> nat \<Rightarrow> nat" where
  "blk_of s q = the (ram_ptr (mmem (bufmem s) ! q))"

definition held :: "'s qnet_scheme \<Rightarrow> nat \<Rightarrow> held_packet option" where
  "held s q = (if q \<in> memb_used (bufmem s) then Some (block_packet (mmem (buframmem s) ! blk_of s q)) else None)"

definition block_ok :: "qbuf_data \<Rightarrow> bool" where
  "block_ok d \<longleftrightarrow> length (qd_data d) = PACKETBUF_SIZE \<and> unat (qd_len d) \<le> PACKETBUF_SIZE"

text \<open>Every handle in use owns one data block of its own, and no other data block is in use.\<close>

definition qnet_ok :: "'s qnet_scheme \<Rightarrow> bool" where
  "qnet_ok s \<longleftrightarrow> memb_ok (bufmem s) \<and> memb_ok (buframmem s) \<and> mnum (bufmem s) = mnum (buframmem s) \<and>
     (\<forall>q \<in> memb_used (bufmem s). ram_ptr (mmem (bufmem s) ! q) \<noteq> None) \<and>
     inj_on (blk_of s) (memb_used (bufmem s)) \<and> blk_of s ` memb_used (bufmem s) = memb_used (buframmem s) \<and>
     (\<forall>d \<in> set (mmem (buframmem s)). block_ok d) \<and>
     (\<forall>h \<in> set (mmem (bufmem s)). \<forall>r. ram_ptr h = Some r \<longrightarrow> r < mnum (buframmem s)) \<and> pbuf_ok (qpb s)"

lemma dom_held: "dom (held s) = memb_used (bufmem s)"
  by (auto simp: held_def split: if_splits)

lemma qnet_okD:
  assumes "qnet_ok s"
  shows "memb_ok (bufmem s)" and "memb_ok (buframmem s)" and "mnum (bufmem s) = mnum (buframmem s)"
    and "inj_on (blk_of s) (memb_used (bufmem s))" and "blk_of s ` memb_used (bufmem s) = memb_used (buframmem s)"
    and "pbuf_ok (qpb s)"
  using assms by (auto simp: qnet_ok_def)

lemma load_used:
  assumes "qnet_ok s" and "q \<in> memb_used (bufmem s)"
  shows "qbuf_load_to_ram q s = Ok (blk_of s q)" and "ram_ptr (mmem (bufmem s) ! q) = Some (blk_of s q)"
    and "blk_of s q \<in> memb_used (buframmem s)" and "blk_of s q < length (mmem (buframmem s))"
    and "block_ok (mmem (buframmem s) ! blk_of s q)" and "q < length (mmem (bufmem s))" and "q < mnum (bufmem s)"
proof -
  from assms obtain r where "ram_ptr (mmem (bufmem s) ! q) = Some r" by (auto simp: qnet_ok_def)
  then show r: "qbuf_load_to_ram q s = Ok (blk_of s q)" "ram_ptr (mmem (bufmem s) ! q) = Some (blk_of s q)"
    by (simp_all add: qbuf_load_to_ram_def blk_of_def)
  show u: "blk_of s q \<in> memb_used (buframmem s)" using assms by (auto simp: qnet_ok_def)
  then show l: "blk_of s q < length (mmem (buframmem s))" using used_block qnet_okD(2) [OF assms(1)] by blast
  then show "block_ok (mmem (buframmem s) ! blk_of s q)" using assms(1) by (simp add: qnet_ok_def)
  show "q < length (mmem (bufmem s))" using used_block qnet_okD(1) assms by blast
  show "q < mnum (bufmem s)" using assms(2) memb_used_bound by blast
qed

lemma copyto_ok:
  assumes "pbuf_ok b"
  shows "packetbuf_copyto b = Ok (pb_header b @ pb_payload b)" and "length (pb_header b @ pb_payload b) \<le> PACKETBUF_SIZE"
proof -
  have "unat (ucast (pb_hdrlen b) + pb_buflen b :: u16) = unat (pb_hdrlen b) + unat (pb_buflen b)"
    using assms by (simp add: pbuf_ok_def unat_word_ariths)
  then have "\<not> 128 < (ucast (pb_hdrlen b) + pb_buflen b :: u16)" using assms by (simp add: word_less_nat_alt pbuf_ok_def)
  then show "packetbuf_copyto b = Ok (pb_header b @ pb_payload b)"
    using assms packetbuf_dataptr_eq [OF assms]
    by (simp add: packetbuf_copyto_def get_bytes_def pbuf_ok_def pb_header_def pb_payload_def)
  show "length (pb_header b @ pb_payload b) \<le> PACKETBUF_SIZE"
    using assms by (auto simp: pbuf_ok_def pb_header_def pb_payload_def min_def)
qed

text \<open>Writing the packet buffer into a block.\<close>

lemma qbuf_fill_eq:
  assumes "pbuf_ok (qpb s)" and "block_ok (mmem (buframmem s) ! r)" and "r < length (mmem (buframmem s))"
  shows "\<exists>d. qbuf_fill r s = Ok (s\<lparr>buframmem := set_blk r d (buframmem s)\<rparr>) \<and> block_ok d \<and>
     take (unat (qd_len d)) (qd_data d) = pb_header (qpb s) @ pb_payload (qpb s) \<and>
     qd_attrs d = qd_attrs (mmem (buframmem s) ! r) \<and> qd_addrs d = qd_addrs (mmem (buframmem s) ! r)"
proof -
  define bs where "bs = pb_header (qpb s) @ pb_payload (qpb s)"
  let ?d = "mmem (buframmem s) ! r"
  let ?d' = "?d\<lparr>qd_data := bs @ drop (length bs) (qd_data ?d), qd_len := of_nat (length bs)\<rparr>"
  have bs: "packetbuf_copyto (qpb s) = Ok bs" "length bs \<le> 128" using copyto_ok [OF assms(1)] by (simp_all add: bs_def)
  then have n: "unat (of_nat (length bs) :: u16) = length bs" by (simp add: unat_of_nat)
  have "put_bytes 0 bs (qd_data ?d) = Ok (bs @ drop (length bs) (qd_data ?d))"
    using bs(2) assms(2) by (simp add: put_bytes_def block_ok_def)
  then have "qbuf_fill r s = Ok (s\<lparr>buframmem := set_blk r ?d' (buframmem s)\<rparr>)"
    by (simp add: qbuf_fill_def bs(1) Let_def)
  moreover have "block_ok ?d'" using bs(2) n assms(2) by (simp add: block_ok_def)
  ultimately show ?thesis unfolding bs_def [symmetric] using n by (intro exI [of _ ?d']) simp
qed

lemma fill_attr_eq:
  "qbuf_fill_attr r s = s\<lparr>buframmem := set_blk r ((mmem (buframmem s) ! r)\<lparr>qd_attrs := pb_attrs (qpb s), qd_addrs := pb_addrs (qpb s)\<rparr>) (buframmem s)\<rparr>"
  by (simp add: qbuf_fill_attr_def packetbuf_attr_copyto_def)

text \<open>Replacing the data block of a handle.\<close>

lemma set_block_held:
  assumes "qnet_ok s" and "q \<in> memb_used (bufmem s)" and "block_ok d"
  shows "qnet_ok (s\<lparr>buframmem := set_blk (blk_of s q) d (buframmem s)\<rparr>)"
    and "held (s\<lparr>buframmem := set_blk (blk_of s q) d (buframmem s)\<rparr>) = (held s)(q \<mapsto> block_packet d)"
proof -
  let ?s = "s\<lparr>buframmem := set_blk (blk_of s q) d (buframmem s)\<rparr>"
  have b: "blk_of ?s = blk_of s" by (simp add: blk_of_def fun_eq_iff)
  have "\<forall>x \<in> set ((mmem (buframmem s))[blk_of s q := d]). block_ok x"
    using assms(1,3) set_update_subset_insert by (fastforce simp: qnet_ok_def)
  with assms(1) show "qnet_ok ?s" unfolding qnet_ok_def b by simp
  show "held ?s = (held s)(q \<mapsto> block_packet d)"
  proof
    fix p
    show "held ?s p = ((held s)(q \<mapsto> block_packet d)) p"
    proof (cases "p \<in> memb_used (bufmem s) \<and> p \<noteq> q")
      case True
      then have "blk_of s p \<noteq> blk_of s q" using qnet_okD(4) [OF assms(1)] assms(2) by (auto dest: inj_onD)
      with True show ?thesis by (simp add: held_def b)
    next
      case False
      then have "p = q \<or> p \<noteq> q \<and> p \<notin> memb_used (bufmem s)" by blast
      then show ?thesis using assms(2) load_used(4) [OF assms(1,2)] by (elim disjE) (simp_all add: held_def b)
    qed
  qed
qed

section \<open>The interface of a packet store\<close>

text \<open>
  What the layers above rely on: a store keeps a finite map from handles to packets. \<open>buf\<close> is the
  packet buffer that all operations share.
\<close>

locale packet_store =
  fixes invar :: "'s \<Rightarrow> bool"
    and store :: "'s \<Rightarrow> nat \<Rightarrow> held_packet option"
    and room :: "'s \<Rightarrow> nat"
    and buf :: "'s \<Rightarrow> pbuf"
    and new :: "'s \<Rightarrow> (nat option \<times> 's) res"
    and release :: "nat \<Rightarrow> 's \<Rightarrow> 's"
    and load :: "nat \<Rightarrow> 's \<Rightarrow> 's res"
    and update_attr :: "nat \<Rightarrow> 's \<Rightarrow> 's res"
  assumes new_cases: "invar s \<Longrightarrow>
      (card (dom (store s)) < room s \<and> (\<exists>q s'. new s = Ok (Some q, s') \<and> invar s' \<and> store s q = None \<and>
         store s' = (store s)(q \<mapsto> packet_in (buf s)) \<and> buf s' = buf s \<and> room s' = room s)) \<or>
      (card (dom (store s)) = room s \<and> (\<exists>s'. new s = Ok (None, s') \<and> invar s' \<and> store s' = store s \<and> buf s' = buf s \<and> room s' = room s))"
    and release_store: "invar s \<Longrightarrow> store s q \<noteq> None \<Longrightarrow>
      invar (release q s) \<and> store (release q s) = (store s)(q := None) \<and> buf (release q s) = buf s \<and> room (release q s) = room s"
    and load_packet: "invar s \<Longrightarrow> store s q = Some (bs, attrs, addrs) \<Longrightarrow>
      \<exists>s'. load q s = Ok s' \<and> invar s' \<and> store s' = store s \<and> room s' = room s \<and> packet_in (buf s') = (bs, attrs, addrs) \<and>
         pb_header (buf s') = [] \<and> pb_bufptr (buf s') = 0"
    and update_attr_store: "invar s \<Longrightarrow> store s q = Some (bs, attrs, addrs) \<Longrightarrow>
      \<exists>s'. update_attr q s = Ok s' \<and> invar s' \<and> store s' = (store s)(q \<mapsto> (bs, pb_attrs (buf s), pb_addrs (buf s))) \<and>
         buf s' = buf s \<and> room s' = room s"

context packet_store
begin

text \<open>A saved packet is there until it is released, and loading it gives it back.\<close>

lemma new_then_load:
  assumes "invar s" and "new s = Ok (Some q, s1)"
  shows "\<exists>s2. load q s1 = Ok s2 \<and> packet_in (buf s2) = packet_in (buf s)"
proof -
  from new_cases [OF assms(1)] assms(2) have 1: "invar s1" "store s1 q = Some (packet_in (buf s))" by auto
  obtain bs attrs addrs where "packet_in (buf s) = (bs, attrs, addrs)" by (cases "packet_in (buf s)")
  with load_packet [OF 1(1), of q bs attrs addrs] 1(2) show ?thesis by auto
qed

lemma new_release:
  assumes "invar s" and "new s = Ok (Some q, s1)"
  shows "store (release q s1) = store s"
proof -
  from new_cases [OF assms(1)] assms(2) have "invar s1" "store s q = None" "store s1 = (store s)(q \<mapsto> packet_in (buf s))"
    by auto
  then show ?thesis using release_store [of s1 q] by (auto simp: fun_eq_iff)
qed

lemma new_fails_iff: "invar s \<Longrightarrow> (\<exists>s'. new s = Ok (None, s')) \<longleftrightarrow> card (dom (store s)) = room s"
  using new_cases [of s] by auto

end

section \<open>Queue buffers are a packet store\<close>

lemma free_slot:
  assumes "qnet_ok s" and "memb_alloc (bufmem s) = (Some q, m)"
  shows "\<exists>r rm. memb_alloc (buframmem s) = (Some r, rm)"
proof -
  have i: "q < mnum (bufmem s)" "q \<notin> memb_used (bufmem s)" using memb_alloc_Some [OF assms(2)] by auto
  have "memb_used (bufmem s) \<subset> {..<mnum (bufmem s)}" using memb_used_bound i by blast
  then have "card (memb_used (bufmem s)) < mnum (bufmem s)" using psubset_card_mono [of "{..<mnum (bufmem s)}"] by simp
  moreover have "card (memb_used (buframmem s)) = card (memb_used (bufmem s))"
    using card_image [OF qnet_okD(4) [OF assms(1)]] qnet_okD(5) [OF assms(1)] by simp
  ultimately show ?thesis
    using mb.alloc_succeeds [OF qnet_okD(2) [OF assms(1)]] qnet_okD(3) [OF assms(1)] by simp
qed

lemma qbuf_alloc_ok:
  assumes "qnet_ok s" and "memb_alloc (bufmem s) = (Some q, m)" and "memb_alloc (buframmem s) = (Some r, rm)"
  defines "t \<equiv> s\<lparr>bufmem := set_blk q \<lparr>ram_ptr = Some r\<rparr> m, buframmem := rm\<rparr>"
  shows "qnet_ok t" and "blk_of t q = r" and "q \<in> memb_used (bufmem t)" and "\<And>p. p \<noteq> q \<Longrightarrow> held t p = held s p"
    and "held s q = None"
proof -
  note i = memb_alloc_Some [OF assms(2)] and j = memb_alloc_Some [OF assms(3)]
  note u = memb_alloc_used [OF assms(2)] and v = memb_alloc_used [OF assms(3)]
  have ok: "memb_ok m" "memb_ok rm" using memb_alloc_ok assms(2,3) qnet_okD(1,2) [OF assms(1)] by blast+
  have q: "q < length (mmem m)" using i(1,4) ok(1) by (simp add: memb_ok_def)
  show b: "blk_of t q = r" using q by (simp add: blk_of_def t_def)
  have b': "blk_of t p = blk_of s p" if "p \<noteq> q" for p using that i(3) by (simp add: blk_of_def t_def)
  show h: "q \<in> memb_used (bufmem t)" "held s q = None" using u i(2) by (simp_all add: t_def held_def)
  show "held t p = held s p" if "p \<noteq> q" for p
    using that b' [OF that] u j(3) by (simp add: held_def t_def)
  have img: "blk_of t ` memb_used (bufmem s) = memb_used (buframmem s)"
    using i(2) b' qnet_okD(5) [OF assms(1)] by (metis (no_types, lifting) image_cong)
  have inj: "inj_on (blk_of t) (memb_used (bufmem s))"
    using qnet_okD(4) [OF assms(1)] i(2) b' by (metis (no_types, lifting) inj_on_cong)
  have inj': "inj_on (blk_of t) (insert q (memb_used (bufmem s)))"
    unfolding inj_on_insert b using inj img i(2) j(2) by auto
  have ptr: "ram_ptr (mmem (bufmem t) ! p) \<noteq> None" if "p \<in> insert q (memb_used (bufmem s))" for p
    using that q i(3) assms(1) by (cases "p = q") (auto simp: t_def qnet_ok_def)
  show "qnet_ok t"
    unfolding qnet_ok_def
  proof (intro conjI)
    show "memb_ok (bufmem t)" "memb_ok (buframmem t)" "mnum (bufmem t) = mnum (buframmem t)"
      using ok i(4) j(4) qnet_okD(3) [OF assms(1)] by (simp_all add: t_def)
    show "\<forall>q\<in>memb_used (bufmem t). ram_ptr (mmem (bufmem t) ! q) \<noteq> None" using ptr u by (simp add: t_def)
    show "inj_on (blk_of t) (memb_used (bufmem t))" using inj' u by (simp add: t_def)
    show "blk_of t ` memb_used (bufmem t) = memb_used (buframmem t)" using img b u v by (simp add: t_def)
    show "Ball (set (mmem (buframmem t))) block_ok" using assms(1) j(3) by (simp add: t_def qnet_ok_def)
    have "set (mmem (bufmem t)) \<subseteq> insert \<lparr>ram_ptr = Some r\<rparr> (set (mmem (bufmem s)))"
      using i(3) set_update_subset_insert by (fastforce simp: t_def)
    moreover have "mnum (buframmem t) = mnum (buframmem s)" using j(4) by (simp add: t_def)
    ultimately show "\<forall>h\<in>set (mmem (bufmem t)). \<forall>r. ram_ptr h = Some r \<longrightarrow> r < mnum (buframmem t)"
      using assms(1) j(1) by (fastforce simp: qnet_ok_def)
    show "pbuf_ok (qpb t)" using qnet_okD(6) [OF assms(1)] by (simp add: t_def)
  qed
qed

lemma qbuf_new_ok:
  assumes "qnet_ok s" and "memb_alloc (bufmem s) = (Some q, m)"
  shows "\<exists>s'. qbuf_new_from_packetbuf s = Ok (Some q, s') \<and> qnet_ok s' \<and> held s q = None \<and>
     held s' = (held s)(q \<mapsto> packet_in (qpb s)) \<and> qpb s' = qpb s \<and> mnum (bufmem s') = mnum (bufmem s) \<and>
     (\<exists>x y. s' = s\<lparr>bufmem := x, buframmem := y\<rparr>)"
proof -
  obtain r rm where r: "memb_alloc (buframmem s) = (Some r, rm)" using free_slot [OF assms] by blast
  define t where "t = s\<lparr>bufmem := set_blk q \<lparr>ram_ptr = Some r\<rparr> m, buframmem := rm\<rparr>"
  note a = qbuf_alloc_ok [OF assms r, folded t_def]
  note u = load_used [OF a(1,3), unfolded a(2)]
  have pb: "qpb t = qpb s" "pbuf_ok (qpb t)" using qnet_okD(6) [OF assms(1)] by (simp_all add: t_def)
  obtain d where d: "qbuf_fill r t = Ok (t\<lparr>buframmem := set_blk r d (buframmem t)\<rparr>)" "block_ok d"
    "take (unat (qd_len d)) (qd_data d) = pb_header (qpb s) @ pb_payload (qpb s)"
    using qbuf_fill_eq [OF pb(2) u(5,4)] pb(1) by auto
  let ?d = "d\<lparr>qd_attrs := pb_attrs (qpb s), qd_addrs := pb_addrs (qpb s)\<rparr>"
  have fill: "qbuf_fill_attr r (t\<lparr>buframmem := set_blk r d (buframmem t)\<rparr>) = t\<lparr>buframmem := set_blk r ?d (buframmem t)\<rparr>"
    using u(4) pb(1) by (simp add: fill_attr_eq set_blk_def)
  have ok: "block_ok ?d" using d(2) by (simp add: block_ok_def)
  note b = set_block_held [OF a(1,3) ok, unfolded a(2)]
  have "qbuf_new_from_packetbuf s = Ok (Some q, t\<lparr>buframmem := set_blk r ?d (buframmem t)\<rparr>)"
    using assms(2) r d(1) fill by (simp add: qbuf_new_from_packetbuf_def t_def [symmetric])
  moreover have "block_packet ?d = packet_in (qpb s)" using d(3) by (simp add: block_packet_def packet_in_def)
  then have "held (t\<lparr>buframmem := set_blk r ?d (buframmem t)\<rparr>) = (held s)(q \<mapsto> packet_in (qpb s))"
    using b(2) a(4) by (auto simp: fun_eq_iff)
  moreover have "mnum m = mnum (bufmem s)" using memb_alloc_Some(4) [OF assms(2)] .
  moreover have "\<exists>x y. t\<lparr>buframmem := set_blk r ?d (buframmem t)\<rparr> = s\<lparr>bufmem := x, buframmem := y\<rparr>"
    by (simp add: t_def) blast
  ultimately show ?thesis using b(1) a(5) pb(1) by (intro exI conjI) (assumption | simp add: t_def)+
qed

lemma qbuf_new_full:
  assumes "qnet_ok s" and "memb_alloc (bufmem s) = (None, m)"
  shows "qbuf_new_from_packetbuf s = Ok (None, s)"
  using assms(2) memb_alloc_None [OF assms(2)] by (simp add: qbuf_new_from_packetbuf_def)

lemma qbuf_free_ok:
  assumes "qnet_ok s" and q: "q \<in> memb_used (bufmem s)"
  shows "qnet_ok (qbuf_free q s)" and "held (qbuf_free q s) = (held s)(q := None)"
    and "\<exists>x y. qbuf_free q s = s\<lparr>bufmem := x, buframmem := y\<rparr>" and "mnum (bufmem (qbuf_free q s)) = mnum (bufmem s)"
proof -
  let ?t = "qbuf_free q s" and ?r = "blk_of s q"
  note ok = qnet_okD [OF assms(1)] and u = load_used [OF assms]
  have t: "?t = s\<lparr>bufmem := snd (memb_free (bufmem s) q), buframmem := snd (memb_free (buframmem s) ?r)\<rparr>"
    using u(2,7) by (simp add: qbuf_free_def memb_inmemb_def)
  then show "\<exists>x y. ?t = s\<lparr>bufmem := x, buframmem := y\<rparr>" by blast
  have b: "blk_of ?t = blk_of s" by (simp add: t blk_of_def fun_eq_iff)
  have used: "memb_used (bufmem ?t) = memb_used (bufmem s) - {q}" "memb_used (buframmem ?t) = memb_used (buframmem s) - {?r}"
    using memb_free_used [OF ok(1)] memb_free_used [OF ok(2)] by (simp_all add: t)
  show "held ?t = (held s)(q := None)"
    unfolding held_def b used by (simp add: t fun_eq_iff)
  show "mnum (bufmem ?t) = mnum (bufmem s)" by (simp add: t)
  show "qnet_ok ?t"
    unfolding qnet_ok_def b used
  proof (intro conjI)
    show "\<forall>p\<in>memb_used (bufmem s) - {q}. ram_ptr (mmem (bufmem ?t) ! p) \<noteq> None" using assms by (simp add: t qnet_ok_def)
    show "inj_on (blk_of s) (memb_used (bufmem s) - {q})" using ok(4) by (rule inj_on_subset) blast
    show "blk_of s ` (memb_used (bufmem s) - {q}) = memb_used (buframmem s) - {?r}"
      using inj_on_image_set_diff [OF ok(4), of "memb_used (bufmem s)" "{q}"] ok(5) q by simp
    show "Ball (set (mmem (buframmem ?t))) block_ok" using assms by (simp add: t qnet_ok_def)
    show "\<forall>h\<in>set (mmem (bufmem ?t)). \<forall>r. ram_ptr h = Some r \<longrightarrow> r < mnum (buframmem ?t)"
      using assms by (simp add: t qnet_ok_def)
  qed (use ok(3,6) memb_free_ok [OF ok(1)] memb_free_ok [OF ok(2)] in \<open>simp_all add: t\<close>)
qed

lemma qbuf_update_attr_ok:
  assumes "qnet_ok s" and q: "q \<in> memb_used (bufmem s)" and "held s q = Some (bs, attrs, addrs)"
  shows "\<exists>s'. qbuf_update_attr_from_packetbuf q s = Ok s' \<and> qnet_ok s' \<and>
     held s' = (held s)(q \<mapsto> (bs, pb_attrs (qpb s), pb_addrs (qpb s))) \<and> (\<exists>y. s' = s\<lparr>buframmem := y\<rparr>)"
proof -
  note u = load_used [OF assms(1,2)]
  let ?d = "(mmem (buframmem s) ! blk_of s q)\<lparr>qd_attrs := pb_attrs (qpb s), qd_addrs := pb_addrs (qpb s)\<rparr>"
  have ok: "block_ok ?d" using u(5) by (simp add: block_ok_def)
  have "block_packet ?d = (bs, pb_attrs (qpb s), pb_addrs (qpb s))"
    using assms(2,3) by (simp add: held_def block_packet_def)
  then show ?thesis
    using set_block_held [OF assms(1,2) ok] u(1) by (auto simp: qbuf_update_attr_from_packetbuf_def fill_attr_eq)
qed

text \<open>Writing the whole packet buffer into a handle in use replaces its packet and no other.\<close>

lemma qbuf_update_ok:
  assumes "qnet_ok s" and q: "q \<in> memb_used (bufmem s)"
  shows "\<exists>s'. qbuf_update_from_packetbuf q s = Ok s' \<and> qnet_ok s' \<and>
     held s' = (held s)(q \<mapsto> packet_in (qpb s)) \<and> (\<exists>y. s' = s\<lparr>buframmem := y\<rparr>)"
proof -
  note u = load_used [OF assms]
  let ?r = "blk_of s q"
  let ?d = "(mmem (buframmem s) ! ?r)\<lparr>qd_attrs := pb_attrs (qpb s), qd_addrs := pb_addrs (qpb s)\<rparr>"
  let ?t = "s\<lparr>buframmem := set_blk ?r ?d (buframmem s)\<rparr>"
  have ok: "block_ok ?d" using u(5) by (simp add: block_ok_def)
  have "pbuf_ok (qpb ?t)" and "mmem (buframmem ?t) ! ?r = ?d" and "?r < length (mmem (buframmem ?t))"
    using qnet_okD(6) [OF assms(1)] u(4) by simp_all
  with qbuf_fill_eq [of ?t ?r] ok obtain d where
    d: "qbuf_fill ?r ?t = Ok (?t\<lparr>buframmem := set_blk ?r d (buframmem ?t)\<rparr>)" "block_ok d"
      "take (unat (qd_len d)) (qd_data d) = pb_header (qpb s) @ pb_payload (qpb s)"
      "qd_attrs d = pb_attrs (qpb s)" "qd_addrs d = pb_addrs (qpb s)" by auto
  have twice: "set_blk ?r d (set_blk ?r ?d (buframmem s)) = set_blk ?r d (buframmem s)" by (simp add: set_blk_def)
  have "block_packet d = packet_in (qpb s)" using d(3,4,5) by (simp add: block_packet_def packet_in_def)
  then show ?thesis
    using set_block_held [OF assms d(2)] u(1) d(1) by (auto simp: qbuf_update_from_packetbuf_def fill_attr_eq twice)
qed

lemma qnet_ok_pb: "qnet_ok (s\<lparr>qpb := b\<rparr>) \<longleftrightarrow> qnet_ok s \<and> pbuf_ok b" if "pbuf_ok (qpb s)"
  using that unfolding qnet_ok_def blk_of_def by auto

lemma held_pb [simp]: "held (s\<lparr>qpb := b\<rparr>) = held s"
  by (simp add: held_def blk_of_def fun_eq_iff)

lemma copyfrom_prefix:
  assumes "length (pb_data b) = PACKETBUF_SIZE" and "unat len \<le> PACKETBUF_SIZE" and "unat len \<le> length frame"
  shows "packetbuf_copyfrom frame len b = Ok (unat len, (packetbuf_clear b)\<lparr>pb_data := take (unat len) frame @ drop (unat len) (pb_data b), pb_buflen := len\<rparr>)"
  using assms by (simp add: packetbuf_copyfrom_def get_bytes_def put_bytes_def Let_def
      packetbuf_clear_def packetbuf_attr_clear_def min_def)

lemma qbuf_load_ok:
  assumes "qnet_ok s" and q: "q \<in> memb_used (bufmem s)" and h: "held s q = Some (bs, attrs, addrs)"
  shows "\<exists>b. qbuf_to_packetbuf q s = Ok (s\<lparr>qpb := b\<rparr>) \<and> pbuf_ok b \<and> packet_in b = (bs, attrs, addrs) \<and>
    pb_header b = [] \<and> pb_bufptr b = 0"
proof -
  note u = load_used [OF assms(1,2)]
  let ?d = "mmem (buframmem s) ! blk_of s q" and ?b = "qpb s"
  let ?n = "unat (qd_len ?d)"
  let ?c = "(packetbuf_clear ?b)\<lparr>pb_data := take ?n (qd_data ?d) @ drop ?n (pb_data ?b), pb_buflen := qd_len ?d\<rparr>"
  have d: "bs = take ?n (qd_data ?d)" "attrs = qd_attrs ?d" "addrs = qd_addrs ?d"
    using q h by (simp_all add: held_def block_packet_def)
  have n: "?n \<le> PACKETBUF_SIZE" "?n \<le> length (qd_data ?d)" "length (pb_data ?b) = PACKETBUF_SIZE"
    using u(5) qnet_okD(6) [OF assms(1)] by (simp_all add: block_ok_def pbuf_ok_def)
  let ?b' = "packetbuf_attr_copyfrom (qd_attrs ?d) (qd_addrs ?d) ?c"
  have load: "qbuf_to_packetbuf q s = Ok (s\<lparr>qpb := ?b'\<rparr>)"
    using u(1,7) copyfrom_prefix [OF n(3,1,2)] by (simp add: qbuf_to_packetbuf_def memb_inmemb_def Let_def)
  have ok: "pbuf_ok ?b'"
    using n by (simp add: pbuf_ok_def packetbuf_attr_copyfrom_def packetbuf_clear_def packetbuf_attr_clear_def)
  have ptr: "packetbuf_dataptr ?b' = 0"
    using packetbuf_dataptr_eq [OF ok] by (simp add: packetbuf_attr_copyfrom_def packetbuf_clear_def packetbuf_attr_clear_def)
  have hdr: "pb_header ?b' = []" "pb_bufptr ?b' = 0"
    by (simp_all add: pb_header_def packetbuf_attr_copyfrom_def packetbuf_clear_def packetbuf_attr_clear_def)
  have "pb_payload ?b' = bs"
    unfolding pb_payload_def ptr using n d(1) by (simp add: packetbuf_attr_copyfrom_def packetbuf_clear_def packetbuf_attr_clear_def)
  then have "packet_in ?b' = (bs, attrs, addrs)"
    using hdr(1) d(2,3) by (simp add: packet_in_def packetbuf_attr_copyfrom_def)
  with load ok hdr show ?thesis by (intro exI [of _ ?b']) simp
qed

text \<open>Loading through a handle that is not in use does no harm.\<close>

lemma qbuf_load_any:
  assumes "qnet_ok s" and "qbuf_to_packetbuf q s = Ok s'"
  shows "\<exists>b. s' = s\<lparr>qpb := b\<rparr> \<and> pbuf_ok b"
proof (cases "memb_inmemb (bufmem s) q")
  case False
  with assms have "s' = s" by (simp add: qbuf_to_packetbuf_def)
  then show ?thesis using qnet_okD(6) [OF assms(1)] by (intro exI [of _ "qpb s"]) simp
next
  case True
  then obtain r where r: "ram_ptr (mmem (bufmem s) ! q) = Some r"
    using assms(2) by (auto simp: qbuf_to_packetbuf_def qbuf_load_to_ram_def res_iff)
  have "q < length (mmem (bufmem s))" using True qnet_okD(1) [OF assms(1)] by (simp add: memb_inmemb_def memb_ok_def)
  then have "r < mnum (buframmem s)" using assms(1) r by (auto simp: qnet_ok_def)
  then have d: "block_ok (mmem (buframmem s) ! r)" using assms(1) by (simp add: qnet_ok_def memb_ok_def)
  let ?d = "mmem (buframmem s) ! r"
  let ?n = "unat (qd_len ?d)"
  have n: "?n \<le> PACKETBUF_SIZE" "?n \<le> length (qd_data ?d)" "length (pb_data (qpb s)) = PACKETBUF_SIZE"
    using d qnet_okD(6) [OF assms(1)] by (simp_all add: block_ok_def pbuf_ok_def)
  let ?b = "packetbuf_attr_copyfrom (qd_attrs ?d) (qd_addrs ?d)
    ((packetbuf_clear (qpb s))\<lparr>pb_data := take ?n (qd_data ?d) @ drop ?n (pb_data (qpb s)), pb_buflen := qd_len ?d\<rparr>)"
  have "s' = s\<lparr>qpb := ?b\<rparr>"
    using assms(2) True r copyfrom_prefix [OF n(3,1,2)] by (simp add: qbuf_to_packetbuf_def qbuf_load_to_ram_def Let_def)
  moreover have "pbuf_ok ?b"
    using n by (simp add: pbuf_ok_def packetbuf_attr_copyfrom_def packetbuf_clear_def packetbuf_attr_clear_def)
  ultimately show ?thesis by blast
qed

interpretation qb: packet_store qnet_ok held "\<lambda>s. mnum (bufmem s)" qpb qbuf_new_from_packetbuf qbuf_free qbuf_to_packetbuf
  qbuf_update_attr_from_packetbuf
proof unfold_locales
  fix s :: "'s qnet_scheme"
  assume ok: "qnet_ok s"
  show "(card (dom (held s)) < mnum (bufmem s) \<and> (\<exists>q s'. qbuf_new_from_packetbuf s = Ok (Some q, s') \<and> qnet_ok s' \<and> held s q = None \<and>
         held s' = (held s)(q \<mapsto> packet_in (qpb s)) \<and> qpb s' = qpb s \<and> mnum (bufmem s') = mnum (bufmem s))) \<or>
      (card (dom (held s)) = mnum (bufmem s) \<and> (\<exists>s'. qbuf_new_from_packetbuf s = Ok (None, s') \<and> qnet_ok s' \<and> held s' = held s \<and> qpb s' = qpb s \<and> mnum (bufmem s') = mnum (bufmem s)))"
  proof (cases "memb_alloc (bufmem s)")
    case (Pair r m)
    show ?thesis
    proof (cases r)
      case None
      with Pair have "card (dom (held s)) = mnum (bufmem s)"
        using memb_alloc_None(2) [of "bufmem s" m] by (simp add: dom_held)
      then show ?thesis using qbuf_new_full [OF ok] Pair None ok by blast
    next
      case (Some q)
      note i = memb_alloc_Some [OF Pair [unfolded Some]]
      have "memb_used (bufmem s) \<subset> {..<mnum (bufmem s)}" using memb_used_bound i(1,2) by blast
      then have "card (dom (held s)) < mnum (bufmem s)"
        using psubset_card_mono [of "{..<mnum (bufmem s)}"] by (simp add: dom_held)
      then show ?thesis using qbuf_new_ok [OF ok Pair [unfolded Some]] by blast
    qed
  qed
next
  fix s :: "'s qnet_scheme" and q
  assume ok: "qnet_ok s" and "held s q \<noteq> None"
  then have q: "q \<in> memb_used (bufmem s)" by (auto simp: held_def split: if_splits)
  from qbuf_free_ok [OF ok q] show "qnet_ok (qbuf_free q s) \<and> held (qbuf_free q s) = (held s)(q := None) \<and>
      qpb (qbuf_free q s) = qpb s \<and> mnum (bufmem (qbuf_free q s)) = mnum (bufmem s)" by auto
next
  fix s :: "'s qnet_scheme" and q bs attrs addrs
  assume ok: "qnet_ok s" and h: "held s q = Some (bs, attrs, addrs)"
  then have q: "q \<in> memb_used (bufmem s)" by (auto simp: held_def split: if_splits)
  from qbuf_load_ok [OF ok q h] qnet_ok_pb [OF qnet_okD(6) [OF ok]] ok
  show "\<exists>s'. qbuf_to_packetbuf q s = Ok s' \<and> qnet_ok s' \<and> held s' = held s \<and> mnum (bufmem s') = mnum (bufmem s) \<and>
      packet_in (qpb s') = (bs, attrs, addrs) \<and> pb_header (qpb s') = [] \<and> pb_bufptr (qpb s') = 0" by auto
  from qbuf_update_attr_ok [OF ok q h]
  show "\<exists>s'. qbuf_update_attr_from_packetbuf q s = Ok s' \<and> qnet_ok s' \<and>
      held s' = (held s)(q \<mapsto> (bs, pb_attrs (qpb s), pb_addrs (qpb s))) \<and> qpb s' = qpb s \<and> mnum (bufmem s') = mnum (bufmem s)"
    by auto
qed

section \<open>Properties of the store\<close>

text \<open>What other users of the pool may do while the packet of handle \<open>q\<close> is queued.\<close>

inductive others_use :: "nat \<Rightarrow> 's qnet_scheme \<Rightarrow> 's qnet_scheme \<Rightarrow> bool" for q where
  others_done: "others_use q s s"
| others_new: "qbuf_new_from_packetbuf s = Ok (r, s1) \<Longrightarrow> others_use q s1 s' \<Longrightarrow> others_use q s s'"
| others_free: "p \<noteq> q \<Longrightarrow> p \<in> memb_used (bufmem s) \<Longrightarrow> others_use q (qbuf_free p s) s' \<Longrightarrow> others_use q s s'"
| others_load: "p \<in> memb_used (bufmem s) \<Longrightarrow> qbuf_to_packetbuf p s = Ok s1 \<Longrightarrow> others_use q s1 s' \<Longrightarrow> others_use q s s'"
| others_update_attr: "p \<noteq> q \<Longrightarrow> p \<in> memb_used (bufmem s) \<Longrightarrow> qbuf_update_attr_from_packetbuf p s = Ok s1 \<Longrightarrow>
    others_use q s1 s' \<Longrightarrow> others_use q s s'"
| others_update: "p \<noteq> q \<Longrightarrow> p \<in> memb_used (bufmem s) \<Longrightarrow> qbuf_update_from_packetbuf p s = Ok s1 \<Longrightarrow>
    others_use q s1 s' \<Longrightarrow> others_use q s s'"
| others_pb: "pbuf_ok b \<Longrightarrow> others_use q (s\<lparr>qpb := b\<rparr>) s' \<Longrightarrow> others_use q s s'"

lemma used_held: "p \<in> memb_used (bufmem s) \<longleftrightarrow> (\<exists>bs attrs addrs. held s p = Some (bs, attrs, addrs))"
  by (auto simp: held_def block_packet_def)

lemma others_use_keeps:
  assumes "others_use q s s'" and "qnet_ok s" and "held s q = Some x"
  shows "qnet_ok s' \<and> held s' q = Some x"
  using assms
proof (induction rule: others_use.induct)
  case (others_new s r s1 s')
  from qb.new_cases [OF others_new.prems(1)] others_new.hyps(1) others_new.prems
  have "qnet_ok s1 \<and> held s1 q = Some x" by (auto simp: fun_upd_def)
  with others_new.IH show ?case by blast
next
  case (others_free p s s')
  with qb.release_store [OF others_free.prems(1), of p] show ?case by (auto simp: used_held)
next
  case (others_load p s s1 s')
  from others_load.hyps(1) obtain bs attrs addrs where "held s p = Some (bs, attrs, addrs)" by (auto simp: used_held)
  with qb.load_packet [OF others_load.prems(1), of p] others_load.hyps(2) others_load.prems
  have "qnet_ok s1 \<and> held s1 q = Some x" by auto
  with others_load.IH show ?case by blast
next
  case (others_update_attr p s s1 s')
  from others_update_attr.hyps(2) obtain bs attrs addrs where "held s p = Some (bs, attrs, addrs)" by (auto simp: used_held)
  with qb.update_attr_store [OF others_update_attr.prems(1), of p] others_update_attr.hyps(1,3) others_update_attr.prems
  have "qnet_ok s1 \<and> held s1 q = Some x" by auto
  with others_update_attr.IH show ?case by blast
next
  case (others_update p s s1 s')
  from qbuf_update_ok [OF others_update.prems(1) others_update.hyps(2)] others_update.hyps(1,3) others_update.prems
  have "qnet_ok s1 \<and> held s1 q = Some x" by auto
  with others_update.IH show ?case by blast
next
  case (others_pb b s s')
  then show ?case using qnet_ok_pb [OF qnet_okD(6) [OF others_pb.prems(1)], of b] by simp
qed simp

text \<open>
  C20: A queued packet comes back as it was. Whatever packets are saved, loaded and released in
  between, whatever other queue buffers are overwritten (their attributes only, or the whole packet), and whatever happens to the packet buffer, loading a queue buffer restores the data (header
  and payload), the attributes and the addresses that the packet buffer had when it was saved. Saving fails exactly when all
  buffers are in use, and releasing the buffer again leaves the other packets as they were.
\<close>

theorem queued_packet_survives:
  assumes "qnet_ok s" and "qbuf_new_from_packetbuf s = Ok (r, s1)"
  shows "(r = None \<longleftrightarrow> card (memb_used (bufmem s)) = mnum (bufmem s)) \<and>
    (\<forall>q. r = Some q \<longrightarrow> held (qbuf_free q s1) = held s \<and>
      (\<forall>s2. others_use q s1 s2 \<longrightarrow> (\<exists>s3. qbuf_to_packetbuf q s2 = Ok s3 \<and> packet_in (qpb s3) = packet_in (qpb s))))"
proof (intro conjI allI impI)
  show "r = None \<longleftrightarrow> card (memb_used (bufmem s)) = mnum (bufmem s)"
    using qb.new_cases [OF assms(1)] assms(2) by (auto simp: dom_held)
next
  fix q assume r: "r = Some q"
  show "held (qbuf_free q s1) = held s" using qb.new_release [OF assms(1)] assms(2) r by simp
  fix s2 assume o2: "others_use q s1 s2"
  obtain bs attrs addrs where p: "packet_in (qpb s) = (bs, attrs, addrs)" by (cases "packet_in (qpb s)")
  from qb.new_cases [OF assms(1)] assms(2) r p have "qnet_ok s1" "held s1 q = Some (bs, attrs, addrs)" by auto
  with others_use_keeps [OF o2] qb.load_packet [of s2 q bs attrs addrs]
  show "\<exists>s3. qbuf_to_packetbuf q s2 = Ok s3 \<and> packet_in (qpb s3) = packet_in (qpb s)" by (auto simp: p)
qed

definition demo_qnet :: qnet where
  "demo_qnet = qbuf_init \<lparr>qpb = \<lparr>pb_data = [7, 8, 9] @ replicate 125 0, pb_buflen = 2, pb_bufptr = 0, pb_hdrlen = 1,
     pb_attrs = (\<lambda>_. 5), pb_addrs = (\<lambda>_. 69)\<rparr>, bufmem = \<lparr>mcount = [0, 0], mmem = [qbuf_zero, qbuf_zero]\<rparr>,
     buframmem = \<lparr>mcount = [0, 0], mmem = [qbuf_data_zero, qbuf_data_zero]\<rparr>\<rparr>"

lemma memb_init_blocks: "mmem (memb_init z m) = replicate (mnum m) z" "mnum (memb_init z m) = mnum m"
  by (simp_all add: memb_init_def)

lemma qbuf_init_ok:
  assumes "mnum (bufmem s) = mnum (buframmem s)" and "pbuf_ok (qpb s)"
  shows "qnet_ok (qbuf_init s)"
proof -
  have "block_ok qbuf_data_zero" by (simp add: block_ok_def qbuf_data_zero_def)
  with assms show ?thesis by (simp add: qnet_ok_def qbuf_init_def memb_init_ok memb_init_used memb_init_blocks qbuf_zero_def)
qed

text \<open>
  In the witness a second packet is saved after the first one, the packet buffer is cleared, and the
  second queue buffer is overwritten with it.
\<close>

definition demo_others :: "qnet \<Rightarrow> qnet res" where
  "demo_others s = bindR (qbuf_new_from_packetbuf s) (\<lambda>(r, s1).
     case r of None \<Rightarrow> Ok s1
     | Some p \<Rightarrow> qbuf_update_from_packetbuf p (s1\<lparr>qpb := packetbuf_clear (qpb s1)\<rparr>))"

theorem queued_packet_survives_witness:
  "\<exists>q s1 s2 s3. qbuf_new_from_packetbuf demo_qnet = Ok (Some q, s1) \<and> demo_others s1 = Ok s2 \<and>
     map_option fst (held s2 (Suc q)) = Some [] \<and>
     qbuf_to_packetbuf q s2 = Ok s3 \<and> fst (packet_in (qpb s3)) = [7, 8, 9]"
proof -
  have ok: "qnet_ok demo_qnet"
    unfolding demo_qnet_def by (rule qbuf_init_ok) (simp_all add: pbuf_ok_def)
  have d: "fst (packet_in (qpb demo_qnet)) = [7, 8, 9]" by code_simp
  have "case qbuf_new_from_packetbuf demo_qnet of Fault _ \<Rightarrow> False | Ok rs \<Rightarrow> fst rs = Some 0 \<and>
      (case qbuf_new_from_packetbuf (snd rs) of Fault _ \<Rightarrow> False | Ok rt \<Rightarrow> fst rt = Some 1)" by code_simp
  then obtain rs rt where "qbuf_new_from_packetbuf demo_qnet = Ok rs" "fst rs = Some 0"
      "qbuf_new_from_packetbuf (snd rs) = Ok rt" "fst rt = Some 1"
    by (auto split: res.splits)
  then obtain q s1 t where n: "qbuf_new_from_packetbuf demo_qnet = Ok (Some q, s1)" and q: "q = 0"
      and t: "qbuf_new_from_packetbuf s1 = Ok (Some 1, t)" by (metis prod.collapse)
  let ?u = "t\<lparr>qpb := packetbuf_clear (qpb t)\<rparr>"
  have s1: "qnet_ok s1" using qb.new_cases [OF ok] n by auto
  then have ok_t: "qnet_ok t" and held_t: "held t 1 \<noteq> None" using qb.new_cases [OF s1] t by auto
  have clear: "pbuf_ok (packetbuf_clear (qpb t))"
    using packetbuf_clear_ok qnet_okD(6) [OF ok_t] by (simp add: pbuf_ok_def)
  then have ok_u: "qnet_ok ?u" using qnet_ok_pb [OF qnet_okD(6) [OF ok_t]] ok_t by simp
  have used: "1 \<in> memb_used (bufmem ?u)" using held_t by (auto simp: held_def split: if_splits)
  from qbuf_update_ok [OF ok_u used] obtain s2 where
    s2: "qbuf_update_from_packetbuf 1 ?u = Ok s2" "held s2 1 = Some (packet_in (packetbuf_clear (qpb t)))" by auto
  have "others_use q s1 s2"
    by (rule others_new [OF t], rule others_pb [OF clear], rule others_update [OF _ used s2(1) others_done]) (simp add: q)
  with queued_packet_survives [OF ok n] obtain s3 where "qbuf_to_packetbuf q s2 = Ok s3"
      "packet_in (qpb s3) = packet_in (qpb demo_qnet)" by auto
  moreover have "demo_others s1 = Ok s2" using t s2(1) by (simp add: demo_others_def)
  moreover have "fst (packet_in (packetbuf_clear (qpb t))) = []"
    by (simp add: packet_in_def pb_header_def pb_payload_def packetbuf_clear_def packetbuf_attr_clear_def)
  ultimately show ?thesis using n d s2(2) q by (intro exI conjI) (assumption | simp)+
qed

end
