(* ===== verification/Rdc_Laws.thy ===== *)
theory Rdc_Laws
  imports Rdc Framer_Laws Queuebuf_Laws
begin

text \<open>
  The radio layer leaves the packet buffer well-formed, keeps the attributes of a packet that has a
  sequence number, and hands the layer above a status that is never \<open>MAC_TX_DEFERRED\<close>.
\<close>

section \<open>The framer keeps the packet buffer well-formed\<close>

definition cursor_len :: "nat \<Rightarrow> cursor \<Rightarrow> bool" where
  "cursor_len k c \<longleftrightarrow> length (fst c) + length (snd c) = k"

lemma put_len [keeps_rules]: "keeps (cursor_len k) (put bs)"
  by (rule keepsI) (auto simp: cursor_len_def put_def split: if_splits prod.splits)

lemma put_from_len [keeps_rules]: "keeps (cursor_len k) (put_from n bs)"
  using put_len [of k "take n bs"] by (auto simp: keeps_def put_from_def)

lemma skip_len [keeps_rules]: "keeps (cursor_len k) skip"
  by (rule keepsI) (auto simp: cursor_len_def skip_def split: list.splits prod.splits)

lemma put_addr_len [keeps_rules]: "keeps (cursor_len k) (put_addr a n)"
proof (induction n)
  case (Suc n)
  have "keeps (cursor_len k) (\<lambda>c. bindR (put [a ! n] c) (put_addr a n))" by (intro keeps_bind put_len Suc.IH)
  then show ?case by (simp add: keeps_def)
qed (simp add: keeps_Ok)

lemma create_aux_len [keeps_rules]: "keeps (cursor_len k) (create_aux opts a)"
  unfolding create_aux_def
  by (rule keeps_run) (auto intro!: keeps_if keeps_bind put_len put_from_len skip_len keeps_Ok)

lemma create_length:
  assumes "frame802154_create opts p buf = Ok (n, buf', p1)"
  shows "length buf' = length buf"
proof -
  obtain q l where l: "field_len opts p = (q, l)" by (cases "field_len opts p")
  obtain b0 b1 where c: "frame802154_create_fcf (fcf q) = (b0, b1)" by (cases "frame802154_create_fcf (fcf q)")
  define steps where "steps = [put [b0, b1],
                  (\<lambda>c. if seqno_len l = 1 then put [seq q] c else Ok c),
                  (\<lambda>c. if dest_pid_len l = 2 then put (pid_bytes (dest_pid q)) c else Ok c),
                  put_addr (dest_addr q) (dest_addr_len l),
                  (\<lambda>c. if src_pid_len l = 2 then put (pid_bytes (src_pid q)) c else Ok c),
                  put_addr (src_addr q) (src_addr_len l),
                  (\<lambda>c. if USES_AUX_HEADER opts \<and> aux_sec_len l \<noteq> 0 then create_aux opts (aux_hdr q) c else Ok c)]"
  have k: "keeps (cursor_len (length buf)) (run steps)"
    unfolding steps_def by (rule keeps_run) (auto intro!: keeps_if put_len put_addr_len create_aux_len keeps_Ok)
  have "frame802154_create opts p buf = bindR (run steps ([], buf)) (\<lambda>(done, rest). Ok (length done, done @ rest, q))"
    unfolding frame802154_create_def l prod.case c steps_def ..
  with assms obtain d r where "run steps ([], buf) = Ok (d, r)" "buf' = d @ r" by (auto simp: res_iff)
  with keepsD [OF k, of "([], buf)" "(d, r)"] show ?thesis by (simp add: cursor_len_def)
qed

lemma hdrlen_small: "fst (frame802154_hdrlen opts p) < 256"
proof -
  obtain q l where l: "field_len opts p = (q, l)" by (cases "field_len opts p")
  have "seqno_len l \<le> 1" "dest_pid_len l \<le> 2" "src_pid_len l \<le> 2" "dest_addr_len l \<le> 8" "src_addr_len l \<le> 8" "aux_sec_len l \<le> 15"
    using l addr_len_le by (auto simp: field_len_def Let_def aux_len_def get_key_id_len_def split: prod.splits)
  then show ?thesis by (simp add: frame802154_hdrlen_def l)
qed

lemma hdralloc_ok:
  assumes ok: "pbuf_ok b" and sz: "sz < 256" and r: "packetbuf_hdralloc (of_nat sz) b = Ok (room, b')"
  shows "pbuf_ok b' \<and> pb_attrs b' = pb_attrs b \<and> pb_addrs b' = pb_addrs b \<and> (pb_bufptr b = 0 \<longrightarrow> pb_bufptr b' = 0)"
proof (cases room)
  case False
  then have "b' = b" using r by (auto simp: packetbuf_hdralloc_def res_iff split: if_splits)
  then show ?thesis using ok by simp
next
  case True
  let ?t = "unat (pb_bufptr b) + unat (pb_hdrlen b) + unat (pb_buflen b)"
  have tot: "unat (packetbuf_totlen b) = ?t" by (rule packetbuf_totlen_eq [OF ok])
  have sz16: "unat (of_nat sz :: u16) = sz" using sz by (simp add: unat_of_nat)
  have bound: "?t \<le> 128" "length (pb_data b) = 128" using ok by (simp_all add: pbuf_ok_def)
  have sum: "unat (of_nat sz + packetbuf_totlen b) = sz + ?t" using sz bound tot sz16 by (simp add: unat_word_ariths)
  then have fits: "sz + ?t \<le> 128"
    using r True by (auto simp: packetbuf_hdralloc_def word_less_nat_alt res_iff split: if_splits)
  obtain mem where m: "shift_right sz ?t (pb_data b) = Ok mem" "length mem = 128"
    using shift_right_eq [of ?t sz "pb_data b"] fits bound by auto
  then have b': "b' = b\<lparr>pb_data := mem, pb_hdrlen := pb_hdrlen b + ucast (of_nat sz :: u16)\<rparr>"
    using r True by (auto simp: packetbuf_hdralloc_def sz16 tot res_iff split: if_splits)
  have "unat (ucast (of_nat sz :: u16) :: u8) = sz" using sz sz16 by (simp add: unat_ucast_mod)
  then have "unat (pb_hdrlen b + ucast (of_nat sz :: u16)) = unat (pb_hdrlen b) + sz"
    using fits by (simp add: unat_word_ariths)
  then show ?thesis using fits m b' by (simp add: pbuf_ok_def)
qed

lemma framer_create_ok:
  assumes ok: "pbuf_ok b" and r: "framer_create fo rnd fs b = Ok (h, fs', b')"
  shows "pbuf_ok b'" and "pb_attrs b ATTR_MAC_SEQNO \<noteq> 0 \<Longrightarrow> pb_attrs b' = pb_attrs b"
proof -
  have "pbuf_ok b' \<and> (pb_attrs b ATTR_MAC_SEQNO \<noteq> 0 \<longrightarrow> pb_attrs b' = pb_attrs b)"
  proof (cases "frame802154_get_pan_id fs = 0xffff")
    case True
    then show ?thesis using r ok by (simp add: framer_create_def create_frame_def)
  next
    case False
    define fs1 where "fs1 = (if \<not> fr_initialized fs then fs\<lparr>fr_initialized := True, mac_dsn := ucast (rnd AND 0xff)\<rparr> else fs)"
    obtain sq fs2 b1 where seq: "out_seq fs1 b = (sq, fs2, b1)" by (cases "out_seq fs1 b")
    then have b1: "pbuf_ok b1" "pb_attrs b ATTR_MAC_SEQNO \<noteq> 0 \<longrightarrow> pb_attrs b1 = pb_attrs b"
      using ok by (auto simp: out_seq_def Let_def packetbuf_attr_def split: if_splits)
    obtain n p where n: "frame802154_hdrlen (hdr_opts fo) (out_frame fo fs2 sq b1) = (n, p)"
      by (cases "frame802154_hdrlen (hdr_opts fo) (out_frame fo fs2 sq b1)")
    have small: "n < 256" using hdrlen_small [of "hdr_opts fo" "out_frame fo fs2 sq b1"] n by simp
    have run: "bindR (packetbuf_hdralloc (of_nat n) b1) (\<lambda>(room, b2).
             if room then
               bindR (frame802154_create (hdr_opts fo) p (pb_data b2)) (\<lambda>(m, mem, _).
                 Ok (int n, fs2, b2\<lparr>pb_data := mem\<rparr>))
             else Ok (FRAMER_FAILED, fs2, b2)) = Ok (h, fs', b')"
      using r False n seq unfolding framer_create_def create_frame_def Let_def fs1_def [symmetric] by simp
    then obtain room b2 where a: "packetbuf_hdralloc (of_nat n) b1 = Ok (room, b2)" by (auto simp: res_iff)
    note b2 = hdralloc_ok [OF b1(1) small a]
    show ?thesis
    proof (cases room)
      case False
      then show ?thesis using run a b1 b2 by simp
    next
      case True
      then obtain m mem p' where c: "frame802154_create (hdr_opts fo) p (pb_data b2) = Ok (m, mem, p')" and "b' = b2\<lparr>pb_data := mem\<rparr>"
        using run a by (auto simp: res_iff)
      with b1 b2 create_length [OF c] show ?thesis by (simp add: pbuf_ok_def)
    qed
  qed
  then show "pbuf_ok b'" "pb_attrs b ATTR_MAC_SEQNO \<noteq> 0 \<Longrightarrow> pb_attrs b' = pb_attrs b" by simp_all
qed

section \<open>One packet\<close>

lemma framer_call_ok:
  assumes "framer_call fo s = Ok (h, s')" and "pbuf_ok (qpb s)"
  shows "\<exists>fs rs b. s' = s\<lparr>rdc_framer := fs, rdc_rnds := rs, qpb := b\<rparr> \<and> pbuf_ok b \<and>
    (pb_attrs (qpb s) ATTR_MAC_SEQNO \<noteq> 0 \<longrightarrow> pb_attrs b = pb_attrs (qpb s))"
proof -
  from assms(1) obtain rnd s1 fs b where
    r: "(if \<not> fr_initialized (rdc_framer s) \<and> frame802154_get_pan_id (rdc_framer s) \<noteq> 0xffff then take_rnd s else Ok (0, s)) = Ok (rnd, s1)"
    and c: "framer_create fo rnd (rdc_framer s1) (qpb s1) = Ok (h, fs, b)" and s': "s' = s1\<lparr>rdc_framer := fs, qpb := b\<rparr>"
    unfolding framer_call_def by (auto simp: res_iff)
  have "\<exists>rs. s1 = s\<lparr>rdc_rnds := rs\<rparr>"
  proof (cases "\<not> fr_initialized (rdc_framer s) \<and> frame802154_get_pan_id (rdc_framer s) \<noteq> 0xffff")
    case True
    with r have "take_rnd s = Ok (rnd, s1)" by simp
    then show ?thesis by (auto simp: take_rnd_def split: list.splits)
  next
    case False
    with r have "s1 = s" by simp
    then show ?thesis by (intro exI [of _ "rdc_rnds s"]) simp
  qed
  then obtain rs where s1: "s1 = s\<lparr>rdc_rnds := rs\<rparr>" ..
  have "pbuf_ok b" "pb_attrs (qpb s) ATTR_MAC_SEQNO \<noteq> 0 \<longrightarrow> pb_attrs b = pb_attrs (qpb s)"
    using framer_create_ok [OF _ c] assms(2) by (simp_all add: s1)
  then show ?thesis using s' s1 by (intro exI [of _ fs] exI [of _ rs] exI [of _ b]) simp
qed

text \<open>What the callback finds: the packet buffer with the frame, and a status that is never deferred.\<close>

lemma send_one_packet_eq:
  assumes "send_one_packet fo sent r s = Ok (ok, s')" and "pbuf_ok (qpb s)"
  shows "\<exists>fs rs b air st. pbuf_ok b \<and> (pb_attrs (qpb s) ATTR_MAC_SEQNO \<noteq> 0 \<longrightarrow> pb_attrs b = pb_attrs (qpb s)) \<and>
    sent st 1 (s\<lparr>rdc_framer := fs, rdc_rnds := rs, qpb := b, rdc_air := air\<rparr>) = Ok s' \<and> st \<noteq> MAC_TX_DEFERRED \<and>
    (st = mac_of_radio r \<or> st = MAC_TX_ERR_FATAL) \<and> (ok \<longleftrightarrow> st = MAC_TX_OK)"
proof -
  let ?s = "s\<lparr>qpb := packetbuf_set_addr ADDR_SENDER (linkaddr_node_addr s) (qpb s)\<rparr>"
  from assms(1) obtain h s1 st s2 where c: "framer_call fo ?s = Ok (h, s1)"
    and rd: "(if h < 0 then Ok (MAC_TX_ERR_FATAL, s1) else bindR (radio_send s1) (\<lambda>s2. Ok (mac_of_radio r, s2))) = Ok (st, s2)"
    and cb: "sent st 1 s2 = Ok s'" and ok: "ok \<longleftrightarrow> st = MAC_TX_OK"
    unfolding send_one_packet_def by (auto simp: res_iff simp del: if_split)
  have pb: "pbuf_ok (qpb ?s)" "pb_attrs (qpb ?s) = pb_attrs (qpb s)"
    using assms(2) by (simp_all add: packetbuf_set_addr_def pbuf_ok_def)
  from framer_call_ok [OF c pb(1), unfolded pb(2)] obtain fs rs b where s1: "s1 = ?s\<lparr>rdc_framer := fs, rdc_rnds := rs, qpb := b\<rparr>"
    and b: "pbuf_ok b" "pb_attrs (qpb s) ATTR_MAC_SEQNO \<noteq> 0 \<longrightarrow> pb_attrs b = pb_attrs (qpb s)" by blast
  have "(\<exists>air. s2 = s1\<lparr>rdc_air := air\<rparr>) \<and> st \<noteq> MAC_TX_DEFERRED \<and> (st = mac_of_radio r \<or> st = MAC_TX_ERR_FATAL)"
  proof (cases "h < 0")
    case True
    with rd have "s2 = s1" "st = MAC_TX_ERR_FATAL" by simp_all
    then show ?thesis by (auto intro: exI [of _ "rdc_air s1"])
  next
    case False
    with rd show ?thesis by (auto simp: res_iff radio_send_def mac_of_radio_def split: radio_tx.splits)
  qed
  then obtain air where "s2 = s1\<lparr>rdc_air := air\<rparr>" "st \<noteq> MAC_TX_DEFERRED" "st = mac_of_radio r \<or> st = MAC_TX_ERR_FATAL" by blast
  with cb b ok show ?thesis
    by (intro exI [of _ fs] exI [of _ rs] exI [of _ b] exI [of _ air] exI [of _ st]) (simp add: s1)
qed

end
