(* ===== verification/Csma_Laws.thy ===== *)
theory Csma_Laws
  imports Csma Rdc_Laws
begin

text \<open>
  The invariant \<open>csma_ok\<close> of medium access: every packet in use is in one queue of one neighbour and owns
  one queue buffer and one metadata block; every neighbour in use has a packet and a running timer.
  The reports of the radio and the transmission of a queue keep it.
\<close>

section \<open>Queues of pointers\<close>

text \<open>
  \<open>Q n\<close> is the queue of the block \<open>n\<close>, \<open>A n\<close> its address, \<open>nl\<close> the list of the neighbours and \<open>U\<close> the packets in
  the queues: every packet is in one queue, and a block that is not on the list has none.
\<close>

definition queues_ok :: "nat \<Rightarrow> (nat \<Rightarrow> nat list) \<Rightarrow> (nat \<Rightarrow> u16) \<Rightarrow> nat list \<Rightarrow> nat set \<Rightarrow> bool" where
  "queues_ok N Q A nl U \<longleftrightarrow> distinct nl \<and> set nl \<subseteq> {..<N} \<and> inj_on A (set nl) \<and>
     (\<forall>n < N. n \<notin> set nl \<longrightarrow> Q n = []) \<and> (\<forall>n < N. distinct (Q n)) \<and>
     (\<forall>n < N. \<forall>m < N. n \<noteq> m \<longrightarrow> set (Q n) \<inter> set (Q m) = {}) \<and> (\<Union>n < N. set (Q n)) = U"

lemma queues_ok_cong:
  assumes "\<And>n. n < N \<Longrightarrow> Q n = Q' n" and "\<And>n. n \<in> set nl \<Longrightarrow> A n = A' n"
  shows "queues_ok N Q A nl U = queues_ok N Q' A' nl U"
proof -
  have "inj_on A (set nl) = inj_on A' (set nl)" using assms(2) by (rule inj_on_cong)
  moreover have "(\<Union>n < N. set (Q n)) = (\<Union>n < N. set (Q' n))" using assms(1) by simp
  ultimately show ?thesis using assms(1) unfolding queues_ok_def by (simp cong: conj_cong)
qed

lemma queues_ok_disjoint: "queues_ok N Q A nl U \<Longrightarrow> n < N \<Longrightarrow> m < N \<Longrightarrow> n \<noteq> m \<Longrightarrow> set (Q n) \<inter> set (Q m) = {}"
  by (simp add: queues_ok_def)

lemma queues_ok_remove:
  assumes "queues_ok N Q A nl U" and "n < N" and "p \<in> set (Q n)"
  shows "queues_ok N (Q(n := remove1 p (Q n))) A nl (U - {p})"
proof -
  let ?R = "Q(n := remove1 p (Q n))"
  have q: "distinct (Q n)" "n \<in> set nl" using assms by (auto simp: queues_ok_def)
  have s: "set (remove1 p (Q n)) = set (Q n) - {p}" using q(1) by simp
  have "p \<notin> set (Q m)" if "m < N" "m \<noteq> n" for m using queues_ok_disjoint [OF assms(1,2)] assms(3) that by blast
  then have "(\<Union>m < N. set (?R m)) = (\<Union>m < N. set (Q m)) - {p}"
    using s assms(2) by (auto simp: fun_upd_def split: if_splits)
  moreover have "set (?R m) \<subseteq> set (Q m)" for m using s by auto
  then have "set (?R k) \<inter> set (?R m) = {}" if "k < N" "m < N" "k \<noteq> m" for k m
    using queues_ok_disjoint [OF assms(1) that] by blast
  ultimately show ?thesis using assms q unfolding queues_ok_def by (simp add: distinct_remove1)
qed

lemma queues_ok_add:
  assumes "queues_ok N Q A nl U" and "n \<in> set nl" and "p \<notin> U" and "set ps = insert p (set (Q n))" and "distinct ps"
  shows "queues_ok N (Q(n := ps)) A nl (insert p U)"
proof -
  have n: "n < N" using assms(1,2) by (auto simp: queues_ok_def)
  have p: "p \<notin> set (Q m)" if "m < N" for m using assms(1,3) that by (auto simp: queues_ok_def)
  have "(\<Union>m < N. set ((Q(n := ps)) m)) = insert p (\<Union>m < N. set (Q m))"
    using assms(4) n by (auto simp: fun_upd_def split: if_splits)
  then show ?thesis using assms n p unfolding queues_ok_def by auto
qed

lemma queues_ok_drop:
  assumes "queues_ok N Q A nl U" and "Q n = []"
  shows "queues_ok N Q A (remove1 n nl) U"
  using assms unfolding queues_ok_def by (auto intro: inj_on_subset)

lemma queues_ok_new:
  assumes "queues_ok N Q A nl U" and "n < N" and "n \<notin> set nl" and "a \<notin> A ` set nl"
  shows "queues_ok N (Q(n := [])) (A(n := a)) (nl @ [n]) U"
proof -
  have Q: "Q n = []" using assms by (auto simp: queues_ok_def)
  have "inj_on (A(n := a)) (insert n (set nl))"
    using assms by (auto simp: queues_ok_def inj_on_def)
  moreover have "Q(n := []) = Q" using Q by auto
  ultimately show ?thesis using assms unfolding queues_ok_def by auto
qed

section \<open>Well-formed states\<close>

definition queue :: "nat \<Rightarrow> 's csma_scheme \<Rightarrow> nat list" where
  "queue n s = queued_packet_list (nbq n s)"

text \<open>The packets \<open>X\<close> are allocated but in no queue.\<close>

definition q_ok :: "nat \<Rightarrow> nat set \<Rightarrow> 's csma_scheme \<Rightarrow> bool" where
  "q_ok N X s \<longleftrightarrow> memb_ok (neighbor_memb s) \<and> mnum (neighbor_memb s) = N \<and> memb_used (neighbor_memb s) = set (neighbor_list s) \<and>
     X \<subseteq> memb_used (packet_memb s) \<and>
     queues_ok N (\<lambda>n. queue n s) (\<lambda>n. nq_addr (nbq n s)) (neighbor_list s) (memb_used (packet_memb s) - X)"

lemma no_blocks: "mnum m = mnum m' \<Longrightarrow> mcount m = [] \<longleftrightarrow> mcount m' = []"
  by (metis length_0_conv)

definition pk_ok :: "'s csma_scheme \<Rightarrow> bool" where
  "pk_ok s \<longleftrightarrow> qnet_ok s \<and> memb_ok (packet_memb s) \<and> memb_ok (metadata_memb s) \<and>
     mnum (packet_memb s) = mnum (metadata_memb s) \<and> mcount (packet_memb s) \<noteq> [] \<and>
     (\<forall>p \<in> memb_used (packet_memb s). \<exists>m b bs attrs addrs. pkt p s = \<lparr>rb_buf = Some b, rb_ptr = Some m\<rparr> \<and>
        held s b = Some (bs, attrs, addrs) \<and> attrs ATTR_MAC_SEQNO \<noteq> 0) \<and>
     inj_on (\<lambda>p. rb_buf (pkt p s)) (memb_used (packet_memb s)) \<and> inj_on (\<lambda>p. rb_ptr (pkt p s)) (memb_used (packet_memb s)) \<and>
     (\<lambda>p. rb_ptr (pkt p s)) ` memb_used (packet_memb s) = Some ` memb_used (metadata_memb s)"

text \<open>The timer of every neighbour with packets runs, those of \<open>E\<close> apart.\<close>

definition armed :: "nat set \<Rightarrow> 's csma_scheme \<Rightarrow> bool" where
  "armed E s \<longleftrightarrow> (\<forall>n \<in> set (neighbor_list s) - E. transmit_timer (nbq n s) \<noteq> None)"

definition busy :: "nat set \<Rightarrow> 's csma_scheme \<Rightarrow> bool" where
  "busy E s \<longleftrightarrow> (\<forall>n \<in> set (neighbor_list s) - E. queue n s \<noteq> [])"

definition csma_ok :: "nat \<Rightarrow> 's csma_scheme \<Rightarrow> bool" where
  "csma_ok N s \<longleftrightarrow> q_ok N {} s \<and> pk_ok s \<and> busy {} s \<and> armed {} s"

section \<open>Updates of a neighbour\<close>

lemma nbq_upd [simp]:
  "n < length (mmem (neighbor_memb s)) \<Longrightarrow> nbq m (upd_nbq n f s) = (if m = n then f (nbq n s) else nbq m s)"
  by (simp add: nbq_def upd_nbq_def)

lemma upd_nbq_simps [simp]:
  "neighbor_list (upd_nbq n f s) = neighbor_list s" "packet_memb (upd_nbq n f s) = packet_memb s"
  "metadata_memb (upd_nbq n f s) = metadata_memb s" "bufmem (upd_nbq n f s) = bufmem s" "buframmem (upd_nbq n f s) = buframmem s"
  "qpb (upd_nbq n f s) = qpb s" "pkt p (upd_nbq n f s) = pkt p s" "rdc_rnds (upd_nbq n f s) = rdc_rnds s"
  "memb_used (neighbor_memb (upd_nbq n f s)) = memb_used (neighbor_memb s)" "memb_ok (neighbor_memb (upd_nbq n f s)) = memb_ok (neighbor_memb s)"
  "mcount (neighbor_memb (upd_nbq n f s)) = mcount (neighbor_memb s)" "length (mmem (neighbor_memb (upd_nbq n f s))) = length (mmem (neighbor_memb s))"
  by (simp_all add: upd_nbq_def pkt_def)

lemma qnet_ok_cong:
  assumes "bufmem t = bufmem s" and "buframmem t = buframmem s" and "qpb t = qpb s"
  shows "qnet_ok t = qnet_ok s" and "held t = held s"
proof -
  have b: "blk_of t = blk_of s" using assms(1) by (simp add: blk_of_def fun_eq_iff)
  then show "qnet_ok t = qnet_ok s" using assms by (simp add: qnet_ok_def)
  show "held t = held s" using assms b by (simp add: held_def fun_eq_iff)
qed

lemma pk_ok_cong:
  fixes s t :: "'s csma_scheme"
  assumes "bufmem t = bufmem s" and "buframmem t = buframmem s" and "qpb t = qpb s" and "packet_memb t = packet_memb s"
    and "metadata_memb t = metadata_memb s"
  shows "pk_ok t = pk_ok s"
proof -
  have "pkt p t = pkt p s" for p using assms(4) by (simp add: pkt_def)
  then show ?thesis using qnet_ok_cong [OF assms(1-3)] assms(4,5) by (simp add: pk_ok_def)
qed

lemma pk_ok_upd [simp]: "pk_ok (upd_nbq n f s) = pk_ok s"
  by (rule pk_ok_cong) simp_all

lemma q_ok_block: "q_ok N X s \<Longrightarrow> n < N \<Longrightarrow> n < length (mmem (neighbor_memb s))"
  by (simp add: q_ok_def memb_ok_def)

lemma q_ok_member: "q_ok N X s \<Longrightarrow> n \<in> set (neighbor_list s) \<Longrightarrow> n < N"
  using memb_used_bound unfolding q_ok_def by blast

lemma queue_upd: "q_ok N X s \<Longrightarrow> n < N \<Longrightarrow> queue m (upd_nbq n f s) = (if m = n then queued_packet_list (f (nbq n s)) else queue m s)"
  using q_ok_block [of N X s n] by (simp add: queue_def)

text \<open>Updates that leave the address and the queue alone.\<close>

lemma q_ok_upd_other:
  assumes "q_ok N X s" and "n < N" and "nq_addr (f (nbq n s)) = nq_addr (nbq n s)"
    and "queued_packet_list (f (nbq n s)) = queued_packet_list (nbq n s)"
  shows "q_ok N X (upd_nbq n f s)" and "queue m (upd_nbq n f s) = queue m s"
proof -
  note l = q_ok_block [OF assms(1,2)]
  show q: "queue m (upd_nbq n f s) = queue m s" for m using l assms(4) by (simp add: queue_def)
  have a: "nq_addr (nbq m (upd_nbq n f s)) = nq_addr (nbq m s)" for m using l assms(3) by simp
  show "q_ok N X (upd_nbq n f s)" using assms(1) by (simp add: q_ok_def q a)
qed

lemma timer_upd:
  assumes "n < length (mmem (neighbor_memb s))" and "armed (insert n E) s" and "transmit_timer (f (nbq n s)) \<noteq> None"
  shows "armed E (upd_nbq n f s)"
  using assms by (auto simp: armed_def)

section \<open>Releasing and scheduling\<close>

lemma csma_ext_simps [simp]:
  "nbq n (s\<lparr>rdc_rnds := rs\<rparr>) = nbq n s" "pkt p (s\<lparr>rdc_rnds := rs\<rparr>) = pkt p s" "queue n (s\<lparr>rdc_rnds := rs\<rparr>) = queue n s"
  "nbq n (s\<lparr>bufmem := x\<rparr>) = nbq n s" "nbq n (s\<lparr>buframmem := y\<rparr>) = nbq n s" "nbq n (s\<lparr>qpb := b\<rparr>) = nbq n s"
  "nbq n (s\<lparr>metadata_memb := mm\<rparr>) = nbq n s" "nbq n (s\<lparr>packet_memb := pm\<rparr>) = nbq n s" "nbq n (s\<lparr>neighbor_list := nl\<rparr>) = nbq n s"
  "pkt p (s\<lparr>bufmem := x\<rparr>) = pkt p s" "pkt p (s\<lparr>buframmem := y\<rparr>) = pkt p s" "pkt p (s\<lparr>qpb := b\<rparr>) = pkt p s"
  "pkt p (s\<lparr>metadata_memb := mm\<rparr>) = pkt p s" "pkt p (s\<lparr>neighbor_list := nl\<rparr>) = pkt p s" "pkt p (s\<lparr>neighbor_memb := nm\<rparr>) = pkt p s"
  by (simp_all add: nbq_def pkt_def queue_def)

lemma schedule_eq:
  assumes "schedule_transmission co n s = Ok s'"
  shows "\<exists>d rs. s' = upd_nbq n (\<lambda>q. q\<lparr>transmit_timer := Some d\<rparr>) (s\<lparr>rdc_rnds := rs\<rparr>)"
proof -
  from assms obtain d t where t: "s' = upd_nbq n (\<lambda>q. q\<lparr>transmit_timer := Some d\<rparr>) t"
    and c: "t = s \<or> (\<exists>r. take_rnd s = Ok (r, t))"
    by (auto simp: schedule_transmission_def Let_def res_iff split: if_splits)
  have "\<exists>rs. t = s\<lparr>rdc_rnds := rs\<rparr>"
    using c
  proof
    assume "t = s" then show ?thesis by (intro exI [of _ "rdc_rnds s"]) simp
  qed (auto simp: take_rnd_def split: list.splits)
  with t show ?thesis by blast
qed

lemma q_ok_rnds [simp]: "q_ok N X (s\<lparr>rdc_rnds := rs\<rparr>) = q_ok N X s" "pk_ok (s\<lparr>rdc_rnds := rs\<rparr>) = pk_ok s"
  "armed E (s\<lparr>rdc_rnds := rs\<rparr>) = armed E s"
  by (simp_all add: q_ok_def pk_ok_cong [of "s\<lparr>rdc_rnds := rs\<rparr>" s] armed_def)

lemma schedule_ok:
  assumes "schedule_transmission co n s = Ok s'" and "q_ok N X s" and "n < N" and "armed (insert n E) s"
  shows "q_ok N X s' \<and> pk_ok s' = pk_ok s \<and> armed E s' \<and> queue m s' = queue m s \<and> neighbor_list s' = neighbor_list s \<and> qpb s' = qpb s"
proof -
  obtain d rs where s': "s' = upd_nbq n (\<lambda>q. q\<lparr>transmit_timer := Some d\<rparr>) (s\<lparr>rdc_rnds := rs\<rparr>)" using schedule_eq [OF assms(1)] by blast
  have q: "q_ok N X (s\<lparr>rdc_rnds := rs\<rparr>)" using assms(2) by simp
  note l = q_ok_block [OF q assms(3)]
  show ?thesis
    unfolding s' using q_ok_upd_other [OF q assms(3), of "\<lambda>q. q\<lparr>transmit_timer := Some d\<rparr>"]
      timer_upd [OF l, of E "\<lambda>q. q\<lparr>transmit_timer := Some d\<rparr>"] assms(4) by simp
qed

text \<open>The blocks of a packet go back to their pools.\<close>

lemma release_packet_eq:
  assumes "pk_ok s" and "p \<in> memb_used (packet_memb s)" and "pkt p s = \<lparr>rb_buf = Some b, rb_ptr = Some m\<rparr>"
  shows "\<exists>x y. qbuf_free b s = s\<lparr>bufmem := x, buframmem := y\<rparr> \<and>
    release_packet p s = s\<lparr>bufmem := x, buframmem := y, metadata_memb := snd (memb_free (metadata_memb s) m),
      packet_memb := snd (memb_free (packet_memb s) p)\<rparr>"
proof -
  have q: "qnet_ok s" and "held s b \<noteq> None" using assms by (fastforce simp: pk_ok_def)+
  then have "b \<in> memb_used (bufmem s)" by (auto simp: used_held)
  then obtain x y where "qbuf_free b s = s\<lparr>bufmem := x, buframmem := y\<rparr>" using qbuf_free_ok(3) [OF q] by blast
  then show ?thesis using assms(3) by (intro exI [of _ x] exI [of _ y]) (simp add: release_packet_def Let_def)
qed

lemma release_packet_ok:
  assumes "pk_ok s" and "p \<in> memb_used (packet_memb s)"
  defines "t \<equiv> release_packet p s"
  shows "pk_ok t" and "memb_used (packet_memb t) = memb_used (packet_memb s) - {p}" and "neighbor_list t = neighbor_list s"
    and "neighbor_memb t = neighbor_memb s" and "qpb t = qpb s" and "nbq n t = nbq n s"
proof -
  let ?U = "memb_used (packet_memb s)"
  obtain b m bs attrs addrs where p: "pkt p s = \<lparr>rb_buf = Some b, rb_ptr = Some m\<rparr>" and h: "held s b = Some (bs, attrs, addrs)"
    using assms(1,2) by (fastforce simp: pk_ok_def)
  have ok: "qnet_ok s" "memb_ok (packet_memb s)" "memb_ok (metadata_memb s)" "mnum (packet_memb s) = mnum (metadata_memb s)"
    "inj_on (\<lambda>p. rb_buf (pkt p s)) ?U" "inj_on (\<lambda>p. rb_ptr (pkt p s)) ?U"
    "(\<lambda>p. rb_ptr (pkt p s)) ` ?U = Some ` memb_used (metadata_memb s)"
    using assms(1) by (simp_all add: pk_ok_def)
  from release_packet_eq [OF assms(1,2) p] obtain x y where f: "qbuf_free b s = s\<lparr>bufmem := x, buframmem := y\<rparr>" and
    t: "t = s\<lparr>bufmem := x, buframmem := y, metadata_memb := snd (memb_free (metadata_memb s) m),
      packet_memb := snd (memb_free (packet_memb s) p)\<rparr>" unfolding t_def by blast
  have b: "b \<in> memb_used (bufmem s)" using h by (auto simp: used_held)
  have fr: "qnet_ok (qbuf_free b s)" "held (qbuf_free b s) = (held s)(b := None)" using qbuf_free_ok [OF ok(1) b] by blast+
  have same: "bufmem t = bufmem (qbuf_free b s)" "buframmem t = buframmem (qbuf_free b s)" "qpb t = qpb (qbuf_free b s)"
    by (simp_all add: t f)
  note tq = qnet_ok_cong [OF same, unfolded fr(2)]
  show used: "memb_used (packet_memb t) = ?U - {p}" using memb_free_used [OF ok(2)] by (simp add: t)
  have um: "memb_used (metadata_memb t) = memb_used (metadata_memb s) - {m}" using memb_free_used [OF ok(3)] by (simp add: t)
  have pk: "pkt k t = pkt k s" for k by (simp add: t pkt_def)
  have "held t b' = held s b'" if "k \<in> ?U - {p}" "pkt k s = \<lparr>rb_buf = Some b', rb_ptr = m'\<rparr>" for k b' m'
    using inj_onD [OF ok(5), of k p] that assms(2) p tq(2) by auto
  then have "\<forall>k \<in> ?U - {p}. \<exists>m b bs attrs addrs. pkt k t = \<lparr>rb_buf = Some b, rb_ptr = Some m\<rparr> \<and>
        held t b = Some (bs, attrs, addrs) \<and> attrs ATTR_MAC_SEQNO \<noteq> 0"
    using assms(1) unfolding pk_ok_def pk by fastforce
  moreover have "(\<lambda>k. rb_ptr (pkt k s)) ` (?U - {p}) = Some ` (memb_used (metadata_memb s) - {m})"
    using inj_on_image_set_diff [OF ok(6), of ?U "{p}"] assms(2) ok(7) p by (auto simp: image_set_diff)
  moreover have "mcount (packet_memb t) \<noteq> []"
    using assms(1) no_blocks [of "packet_memb t" "packet_memb s"] by (simp add: pk_ok_def t)
  ultimately show "pk_ok t"
    unfolding pk_ok_def used um pk using ok fr(1) tq(1)
    by (auto simp: t memb_free_ok intro: inj_on_subset)
  show "neighbor_list t = neighbor_list s" "neighbor_memb t = neighbor_memb s" "qpb t = qpb s" "nbq n t = nbq n s"
    by (simp_all add: t)
qed

lemma q_ok_cong:
  assumes "neighbor_memb t = neighbor_memb s" and "neighbor_list t = neighbor_list s" and "packet_memb t = packet_memb s"
  shows "q_ok N X t = q_ok N X s" and "armed E t = armed E s" and "busy E t = busy E s" and "queue n t = queue n s" and "nbq n t = nbq n s"
proof -
  have n: "nbq n t = nbq n s" for n using assms(1) by (simp add: nbq_def)
  then show "nbq n t = nbq n s" .
  show "q_ok N X t = q_ok N X s" using assms n by (simp add: q_ok_def queue_def)
  show "armed E t = armed E s" "busy E t = busy E s" "queue n t = queue n s" using assms n by (simp_all add: armed_def busy_def queue_def)
qed

lemma unqueue_ok:
  assumes "q_ok N X s" and "n < N" and "p \<in> set (queue n s)" and "p \<notin> X"
  defines "t \<equiv> upd_nbq n (\<lambda>q. q\<lparr>queued_packet_list := remove1 p (queued_packet_list q)\<rparr>) s"
  shows "q_ok N (insert p X) t" and "queue n t = remove1 p (queue n s)" and "m \<noteq> n \<Longrightarrow> queue m t = queue m s"
    and "armed E t = armed E s"
proof -
  note l = q_ok_block [OF assms(1,2)]
  have Q: "queue m t = ((\<lambda>n. queue n s)(n := remove1 p (queue n s))) m" for m
    using l by (simp add: t_def queue_def)
  have A: "nq_addr (nbq m t) = nq_addr (nbq m s)" "transmit_timer (nbq m t) = transmit_timer (nbq m s)" for m using l by (simp_all add: t_def)
  have q: "queues_ok N (\<lambda>n. queue n s) (\<lambda>n. nq_addr (nbq n s)) (neighbor_list s) (memb_used (packet_memb s) - X)"
    using assms(1) by (simp add: q_ok_def)
  then have "p \<in> memb_used (packet_memb s) - X" using assms(2,3) unfolding queues_ok_def by blast
  moreover have d: "memb_used (packet_memb s) - insert p X = memb_used (packet_memb s) - X - {p}" by blast
  have "queues_ok N (\<lambda>n. queue n t) (\<lambda>n. nq_addr (nbq n t)) (neighbor_list s) (memb_used (packet_memb s) - insert p X)"
    using queues_ok_remove [OF q assms(2,3)] unfolding Q A d by (simp add: fun_upd_def)
  ultimately show "q_ok N (insert p X) t" using assms(1) by (simp add: q_ok_def) (simp add: t_def)
  show "queue n t = remove1 p (queue n s)" "m \<noteq> n \<Longrightarrow> queue m t = queue m s" using Q by simp_all
  show "armed E t = armed E s" using A by (simp add: armed_def) (simp add: t_def)
qed

lemma q_ok_released:
  assumes "q_ok N (insert p X) s" and "p \<notin> X" and "neighbor_list t = neighbor_list s" and "neighbor_memb t = neighbor_memb s"
    and "memb_used (packet_memb t) = memb_used (packet_memb s) - {p}"
  shows "q_ok N X t"
proof -
  have n: "nbq n t = nbq n s" "queue n t = queue n s" for n using assms(4) by (simp_all add: nbq_def queue_def)
  have "memb_used (packet_memb t) - X = memb_used (packet_memb s) - insert p X" using assms(5) by blast
  then show ?thesis using assms by (auto simp: q_ok_def n)
qed

lemma release_neighbor_ok:
  assumes "q_ok N X s" and "n < N" and "queue n s = []"
  defines "t \<equiv> release_neighbor n s"
  shows "q_ok N X t" and "pk_ok t = pk_ok s" and "armed (insert n E) s \<Longrightarrow> armed E t" and "busy (insert n E) s \<Longrightarrow> busy E t"
    and "queue m t = queue m s"
proof -
  have d: "distinct (neighbor_list s)" "memb_ok (neighbor_memb s)" using assms(1) by (simp_all add: q_ok_def queues_ok_def)
  have n: "nbq m t = nbq m s" for m by (simp add: t_def release_neighbor_def nbq_def)
  then show q: "queue m t = queue m s" for m by (simp add: queue_def)
  have l: "neighbor_list t = remove1 n (neighbor_list s)" "packet_memb t = packet_memb s" by (simp_all add: t_def release_neighbor_def)
  have u: "memb_used (neighbor_memb t) = memb_used (neighbor_memb s) - {n}" "memb_ok (neighbor_memb t)" "mnum (neighbor_memb t) = mnum (neighbor_memb s)"
    using memb_free_used [OF d(2)] memb_free_ok [OF d(2)] by (simp_all add: t_def release_neighbor_def)
  show "q_ok N X t"
    using assms(1) queues_ok_drop [of N "\<lambda>n. queue n s" _ "neighbor_list s" _ n] assms(3) u d by (simp add: q_ok_def q n l)
  show "pk_ok t = pk_ok s" by (rule pk_ok_cong) (simp_all add: t_def release_neighbor_def)
  have s: "set (neighbor_list t) = set (neighbor_list s) - {n}" using d l by simp
  show "armed (insert n E) s \<Longrightarrow> armed E t" "busy (insert n E) s \<Longrightarrow> busy E t"
    unfolding armed_def busy_def s by (auto simp: n q)
qed

lemma free_packet_ok:
  assumes "free_packet co n p s = Ok s'" and ok: "q_ok N {} s" "pk_ok s" "busy {} s" "armed {n} s" and n: "n < N"
    and p: "p \<in> set (queue n s)"
  shows "csma_ok N s'" and "qpb s' = qpb s"
proof -
  let ?u = "upd_nbq n (\<lambda>q. q\<lparr>queued_packet_list := remove1 p (queued_packet_list q)\<rparr>) s"
  note u = unqueue_ok [OF ok(1) n p, simplified]
  have pu: "p \<in> memb_used (packet_memb ?u)" using u(1) by (simp add: q_ok_def)
  have pk: "pk_ok ?u" using ok(2) by simp
  define t where "t = release_packet p ?u"
  note r = release_packet_ok [OF pk pu, folded t_def]
  have q: "q_ok N {} t" by (rule q_ok_released [OF u(1) _ r(3,4,2)]) simp
  have Q: "queue m t = queue m ?u" for m using r(6) by (simp add: queue_def)
  have arm: "armed {n} t" using u(4) [of "{n}"] ok(4) r(3,6) by (simp add: armed_def)
  have bsy: "busy {n} t" using ok(3) u(3) Q r(3) by (simp add: busy_def)
  have run: "(if queue n t \<noteq> []
         then schedule_transmission co n (upd_nbq n (\<lambda>q. q\<lparr>transmissions := 0, collisions := CSMA_MIN_BE co\<rparr>) t)
         else Ok (release_neighbor n (upd_nbq n (\<lambda>q. q\<lparr>transmit_timer := None\<rparr>) t))) = Ok s'"
    using assms(1) by (simp add: free_packet_def Let_def t_def [symmetric] queue_def)
  have "csma_ok N s' \<and> qpb s' = qpb s"
  proof (cases "queue n t = []")
    case False
    let ?v = "upd_nbq n (\<lambda>q. q\<lparr>transmissions := 0, collisions := CSMA_MIN_BE co\<rparr>) t"
    have v: "q_ok N {} ?v" "queue m ?v = queue m t" for m
      using q_ok_upd_other [OF q n, of "\<lambda>q. q\<lparr>transmissions := 0, collisions := CSMA_MIN_BE co\<rparr>"] by simp_all
    have "armed (insert n {}) ?v" using arm by (simp add: armed_def q_ok_block [OF q n])
    with schedule_ok [OF _ v(1) n] run False have "q_ok N {} s'" "pk_ok s' = pk_ok ?v" "armed {} s'" "neighbor_list s' = neighbor_list ?v"
      "qpb s' = qpb ?v" "\<And>m. queue m s' = queue m ?v" by auto
    moreover have "busy {} s'" using calculation(4,6) v(2) bsy False by (auto simp: busy_def)
    ultimately show ?thesis using r(1,5) by (simp add: csma_ok_def)
  next
    case True
    let ?v = "upd_nbq n (\<lambda>q. q\<lparr>transmit_timer := None\<rparr>) t"
    have v: "q_ok N {} ?v" "queue m ?v = queue m t" for m
      using q_ok_upd_other [OF q n, of "\<lambda>q. q\<lparr>transmit_timer := None\<rparr>"] by simp_all
    have arm': "armed (insert n {}) ?v" using arm by (auto simp: armed_def q_ok_block [OF q n])
    have bsy': "busy (insert n {}) ?v" using bsy v(2) by (simp add: busy_def)
    from run True have s': "s' = release_neighbor n ?v" by simp
    note w = release_neighbor_ok [OF v(1) n, unfolded v(2), OF True]
    have "qpb s' = qpb s" using r(5) by (simp add: s' release_neighbor_def)
    with w(1-4) arm' bsy' r(1) show ?thesis by (simp add: s' csma_ok_def)
  qed
  then show "csma_ok N s'" "qpb s' = qpb s" by simp_all
qed

section \<open>Reports of the radio\<close>

text \<open>What the layer above may do in its callback: whatever keeps the state well-formed.\<close>

definition upper_ok :: "nat \<Rightarrow> 's csma_scheme upper \<Rightarrow> bool" where
  "upper_ok N cb \<longleftrightarrow> (\<forall>f ptr st k s s'. csma_ok N s \<longrightarrow> cb f ptr st k s = Ok s' \<longrightarrow> csma_ok N s')"

lemma call_sent_ok:
  "upper_ok N cb \<Longrightarrow> csma_ok N s \<Longrightarrow> mac_call_sent_callback cb f ptr st k s = Ok s' \<Longrightarrow> csma_ok N s'"
  unfolding upper_ok_def mac_call_sent_callback_def by (cases f) auto

text \<open>The state while a packet of \<open>n\<close> is being transmitted: only the timer of \<open>n\<close> may have stopped.\<close>

definition sending_ok :: "nat \<Rightarrow> nat \<Rightarrow> 's csma_scheme \<Rightarrow> bool" where
  "sending_ok N n s \<longleftrightarrow> q_ok N {} s \<and> pk_ok s \<and> busy {} s \<and> armed {n} s \<and> n < N"

lemma csma_ok_sending: "csma_ok N s \<Longrightarrow> n < N \<Longrightarrow> sending_ok N n s"
  by (auto simp: csma_ok_def sending_ok_def armed_def)

lemma sending_upd:
  assumes "sending_ok N n s" and "nq_addr (f (nbq n s)) = nq_addr (nbq n s)" and "queued_packet_list (f (nbq n s)) = queued_packet_list (nbq n s)"
  shows "sending_ok N n (upd_nbq n f s)" and "queue m (upd_nbq n f s) = queue m s"
proof -
  have ok: "q_ok N {} s" "n < N" using assms(1) by (simp_all add: sending_ok_def)
  note u = q_ok_upd_other [OF ok, of f, OF assms(2,3)]
  show "queue m (upd_nbq n f s) = queue m s" by (rule u)
  show "sending_ok N n (upd_nbq n f s)"
    using assms(1) u q_ok_block [OF ok] by (auto simp: sending_ok_def busy_def armed_def)
qed

lemma tx_done_ok:
  assumes "tx_done co cb st p n s = Ok s'" and "sending_ok N n s" and "p \<in> set (queue n s)" and "upper_ok N cb"
  shows "csma_ok N s'"
proof -
  obtain md :: qbuf_metadata and t where t: "free_packet co n p s = Ok t"
    and c: "mac_call_sent_callback cb (md_sent md) (md_cptr md) st (uint (transmissions (nbq n s))) t = Ok s'"
    using assms(1) unfolding tx_done_def Let_def bindR_Ok_iff by blast
  have "csma_ok N t" using free_packet_ok(1) [OF t] assms(2,3) by (simp add: sending_ok_def)
  then show ?thesis using call_sent_ok [OF assms(4) _ c] by blast
qed

lemma pk_ok_packet:
  assumes "pk_ok s" and "p \<in> memb_used (packet_memb s)"
  obtains b m bs attrs addrs where "pkt p s = \<lparr>rb_buf = Some b, rb_ptr = Some m\<rparr>" "held s b = Some (bs, attrs, addrs)"
    "attrs ATTR_MAC_SEQNO \<noteq> 0" "b \<in> memb_used (bufmem s)" "qnet_ok s"
proof -
  from assms obtain b m bs attrs addrs where "pkt p s = \<lparr>rb_buf = Some b, rb_ptr = Some m\<rparr>" "held s b = Some (bs, attrs, addrs)"
    "attrs ATTR_MAC_SEQNO \<noteq> 0" unfolding pk_ok_def by blast
  moreover have "b \<in> memb_used (bufmem s)" "qnet_ok s" using calculation(2) assms(1) by (auto simp: used_held pk_ok_def)
  ultimately show ?thesis by (rule that)
qed

lemma queued_used:
  assumes "q_ok N X s" and "n < N" and "p \<in> set (queue n s)"
  shows "p \<in> memb_used (packet_memb s)" and "n \<in> set (neighbor_list s)"
  using assms unfolding q_ok_def queues_ok_def by (blast, force)

lemma update_attr_pk:
  assumes "pk_ok s" and "p \<in> memb_used (packet_memb s)" and "rb_buf (pkt p s) = Some b"
    and "pb_attrs (qpb s) ATTR_MAC_SEQNO \<noteq> 0" and "qbuf_update_attr_from_packetbuf b s = Ok s'"
  shows "pk_ok s' \<and> (\<exists>y. s' = s\<lparr>buframmem := y\<rparr>)"
proof -
  let ?U = "memb_used (packet_memb s)"
  obtain b' m bs attrs addrs where p': "pkt p s = \<lparr>rb_buf = Some b', rb_ptr = Some m\<rparr>"
    "held s b' = Some (bs, attrs, addrs)" "attrs ATTR_MAC_SEQNO \<noteq> 0" "b' \<in> memb_used (bufmem s)" "qnet_ok s"
    by (rule pk_ok_packet [OF assms(1,2)])
  have "b' = b" using assms(3) p'(1) by simp
  note p = p' [unfolded this]
  from qbuf_update_attr_ok [OF p(5,4,2)] assms(5) obtain y where q: "qnet_ok s'"
    "held s' = (held s)(b \<mapsto> (bs, pb_attrs (qpb s), pb_addrs (qpb s)))" and s': "s' = s\<lparr>buframmem := y\<rparr>" by auto
  have f: "packet_memb s' = packet_memb s" "metadata_memb s' = metadata_memb s" "pkt k s' = pkt k s" for k by (simp_all add: s')
  have "\<exists>m b bs attrs addrs. pkt k s = \<lparr>rb_buf = Some b, rb_ptr = Some m\<rparr> \<and> held s' b = Some (bs, attrs, addrs) \<and> attrs ATTR_MAC_SEQNO \<noteq> 0"
    if k: "k \<in> ?U" for k
  proof -
    obtain b' m' bs' attrs' addrs' where "pkt k s = \<lparr>rb_buf = Some b', rb_ptr = Some m'\<rparr>"
      "held s b' = Some (bs', attrs', addrs')" "attrs' ATTR_MAC_SEQNO \<noteq> 0" "b' \<in> memb_used (bufmem s)" "qnet_ok s"
      by (rule pk_ok_packet [OF assms(1) k])
    then show ?thesis using q(2) assms(4) by (cases "b' = b") auto
  qed
  then have "pk_ok s'" using assms(1) q(1) unfolding pk_ok_def f by blast
  with s' show ?thesis by blast
qed

lemma rexmit_ok:
  assumes "rexmit co p n s = Ok s'" and "sending_ok N n s" and "p \<in> set (queue n s)" and "pb_attrs (qpb s) ATTR_MAC_SEQNO \<noteq> 0"
  shows "csma_ok N s'"
proof -
  have ok: "q_ok N {} s" "pk_ok s" "busy {} s" "armed (insert n {}) s" "n < N" using assms(2) by (simp_all add: sending_ok_def)
  obtain t b where t: "schedule_transmission co n s = Ok t" "rb_buf (pkt p t) = Some b" "qbuf_update_attr_from_packetbuf b t = Ok s'"
    using assms(1) by (auto simp: rexmit_def res_iff)
  note u = schedule_ok [OF t(1) ok(1,5,4)]
  have pk: "pk_ok t" "q_ok N {} t" "n < N" "p \<in> set (queue n t)" "pb_attrs (qpb t) ATTR_MAC_SEQNO \<noteq> 0" using u ok assms(3,4) by auto
  from update_attr_pk [OF pk(1) queued_used(1) [OF pk(2-4)] t(2) pk(5) t(3)] obtain y where
    "pk_ok s'" and s': "s' = t\<lparr>buframmem := y\<rparr>" by blast
  moreover have "q_ok N {} s' = q_ok N {} t" "armed {} s' = armed {} t" "busy {} s' = busy {} t"
    by (rule q_ok_cong; simp add: s')+
  moreover have "busy {} t" using u ok(3) by (simp add: busy_def)
  ultimately show ?thesis using u by (simp add: csma_ok_def)
qed

text \<open>A failed attempt ends in a retransmission or in the report of the failure.\<close>

lemma collision_ok:
  assumes "collision co cb p n k s = Ok s'" and "sending_ok N n s" and "p \<in> set (queue n s)" and "upper_ok N cb"
    and "pb_attrs (qpb s) ATTR_MAC_SEQNO \<noteq> 0"
  shows "csma_ok N s'"
proof -
  let ?s1 = "upd_nbq n (\<lambda>q. q\<lparr>collisions := collisions q + word_of_int k\<rparr>) s"
  let ?s2 = "if CSMA_MAX_BACKOFF co < collisions (nbq n ?s1)
               then upd_nbq n (\<lambda>q. q\<lparr>collisions := CSMA_MIN_BE co, transmissions := transmissions q + 1\<rparr>) ?s1 else ?s1"
  have 1: "sending_ok N n ?s1" "queue m ?s1 = queue m s" for m
    using sending_upd [OF assms(2), of "\<lambda>q. q\<lparr>collisions := collisions q + word_of_int k\<rparr>"] by simp_all
  have 2: "sending_ok N n ?s2" "queue m ?s2 = queue m s" "qpb ?s2 = qpb s" for m
    using sending_upd [OF 1(1), of "\<lambda>q. q\<lparr>collisions := CSMA_MIN_BE co, transmissions := transmissions q + 1\<rparr>"] 1 by simp_all
  have "tx_done co cb MAC_TX_COLLISION p n ?s2 = Ok s' \<or> rexmit co p n ?s2 = Ok s'"
    using assms(1) by (auto simp: collision_def Let_def res_iff split: if_splits)
  then show ?thesis
  proof
    assume "tx_done co cb MAC_TX_COLLISION p n ?s2 = Ok s'"
    from tx_done_ok [OF this 2(1) _ assms(4)] show ?thesis using assms(3) 2(2) by simp
  next
    assume "rexmit co p n ?s2 = Ok s'"
    from rexmit_ok [OF this 2(1)] show ?thesis using assms(3,5) unfolding 2(2,3) by simp
  qed
qed

lemma noack_ok:
  assumes "noack co cb p n k s = Ok s'" and "sending_ok N n s" and "p \<in> set (queue n s)" and "upper_ok N cb"
    and "pb_attrs (qpb s) ATTR_MAC_SEQNO \<noteq> 0"
  shows "csma_ok N s'"
proof -
  let ?f = "\<lambda>q. q\<lparr>collisions := CSMA_MIN_BE co, transmissions := transmissions q + word_of_int k\<rparr>"
  have 1: "sending_ok N n (upd_nbq n ?f s)" "queue m (upd_nbq n ?f s) = queue m s" for m
    using sending_upd [OF assms(2), of ?f] by simp_all
  have "tx_done co cb MAC_TX_NOACK p n (upd_nbq n ?f s) = Ok s' \<or> rexmit co p n (upd_nbq n ?f s) = Ok s'"
    using assms(1) by (auto simp: noack_def Let_def res_iff split: if_splits)
  then show ?thesis
  proof
    assume "tx_done co cb MAC_TX_NOACK p n (upd_nbq n ?f s) = Ok s'"
    from tx_done_ok [OF this 1(1) _ assms(4)] show ?thesis using assms(3) 1(2) by simp
  next
    assume "rexmit co p n (upd_nbq n ?f s) = Ok s'"
    from rexmit_ok [OF this 1(1)] show ?thesis using assms(3,5) 1(2) by simp
  qed
qed

lemma tx_ok_ok:
  assumes "tx_ok co cb p n k s = Ok s'" and "sending_ok N n s" and "p \<in> set (queue n s)" and "upper_ok N cb"
  shows "csma_ok N s'"
proof -
  let ?f = "\<lambda>q. q\<lparr>collisions := CSMA_MIN_BE co, transmissions := transmissions q + word_of_int k\<rparr>"
  have 1: "sending_ok N n (upd_nbq n ?f s)" "queue m (upd_nbq n ?f s) = queue m s" for m
    using sending_upd [OF assms(2), of ?f] by simp_all
  show ?thesis using tx_done_ok [OF _ 1(1) _ assms(4)] assms(1,3) 1(2) by (auto simp: tx_ok_def)
qed

text \<open>Which packet a report is about.\<close>

lemma qbuf_attr_held:
  assumes "qnet_ok s" and "held s b = Some (bs, attrs, addrs)"
  shows "qbuf_attr b x s = Ok (attrs x)"
proof -
  have b: "b \<in> memb_used (bufmem s)" using assms(2) by (auto simp: used_held)
  then show ?thesis using load_used(1) [OF assms(1) b] assms(2) by (simp add: qbuf_attr_def held_def block_packet_def)
qed

lemma find_sent_ok:
  assumes "pk_ok s" and "set ps \<subseteq> memb_used (packet_memb s)"
  shows "\<exists>f. find_sent ps s = Ok f \<and>
    (case f of Some p \<Rightarrow> p \<in> set ps \<and> pb_attrs (qpb s) ATTR_MAC_SEQNO \<noteq> 0 \<and> rb_ptr (pkt p s) \<noteq> None
     | None \<Rightarrow> (\<forall>p \<in> set ps. \<forall>b bs attrs addrs. rb_buf (pkt p s) = Some b \<longrightarrow> held s b = Some (bs, attrs, addrs) \<longrightarrow>
         attrs ATTR_MAC_SEQNO \<noteq> pb_attrs (qpb s) ATTR_MAC_SEQNO))"
  using assms(2)
proof (induction ps)
  case (Cons p ps)
  then have "p \<in> memb_used (packet_memb s)" by simp
  then obtain b m bs attrs addrs where p: "pkt p s = \<lparr>rb_buf = Some b, rb_ptr = Some m\<rparr>"
    "held s b = Some (bs, attrs, addrs)" "attrs ATTR_MAC_SEQNO \<noteq> 0" "b \<in> memb_used (bufmem s)" "qnet_ok s"
    by (rule pk_ok_packet [OF assms(1)])
  have "qbuf_attr b ATTR_MAC_SEQNO s = Ok (attrs ATTR_MAC_SEQNO)"
    by (rule qbuf_attr_held [OF p(5,2)])
  moreover obtain f where "find_sent ps s = Ok f" "case f of Some p \<Rightarrow> p \<in> set ps \<and> pb_attrs (qpb s) ATTR_MAC_SEQNO \<noteq> 0 \<and> rb_ptr (pkt p s) \<noteq> None
     | None \<Rightarrow> (\<forall>p \<in> set ps. \<forall>b bs attrs addrs. rb_buf (pkt p s) = Some b \<longrightarrow> held s b = Some (bs, attrs, addrs) \<longrightarrow>
         attrs ATTR_MAC_SEQNO \<noteq> pb_attrs (qpb s) ATTR_MAC_SEQNO)" using Cons by auto
  ultimately show ?case using p by (cases "attrs ATTR_MAC_SEQNO = pb_attrs (qpb s) ATTR_MAC_SEQNO") (auto simp: packetbuf_attr_def split: option.splits)
qed simp

lemma packet_sent_ok:
  assumes "packet_sent co cb n st k s = Ok s'" and "sending_ok N n s" and "upper_ok N cb" and "st \<noteq> MAC_TX_DEFERRED"
  shows "csma_ok N s' \<or> s' = s \<and> find_sent (queue n s) s = Ok None"
proof -
  have ok: "q_ok N {} s" "pk_ok s" "n < N" using assms(2) by (simp_all add: sending_ok_def)
  have sub: "set (queue n s) \<subseteq> memb_used (packet_memb s)" using queued_used(1) [OF ok(1,3)] by blast
  obtain f where f: "find_sent (queue n s) s = Ok f" "\<And>p. f = Some p \<Longrightarrow> p \<in> set (queue n s) \<and> pb_attrs (qpb s) ATTR_MAC_SEQNO \<noteq> 0 \<and> rb_ptr (pkt p s) \<noteq> None"
    using find_sent_ok [OF ok(2) sub] by (auto split: option.splits)
  show ?thesis
  proof (cases f)
    case None
    then show ?thesis using assms(1) f(1) by (simp add: packet_sent_def queue_def)
  next
    case (Some p)
    note p = f(2) [OF Some]
    have "tx_ok co cb p n k s = Ok s' \<or> noack co cb p n k s = Ok s' \<or> collision co cb p n k s = Ok s' \<or> tx_done co cb st p n s = Ok s'"
      using assms(1,4) f(1) Some p by (simp add: packet_sent_def queue_def split: mac_status.splits)
    then show ?thesis
      using tx_ok_ok [OF _ assms(2) _ assms(3)] noack_ok [OF _ assms(2) _ assms(3)] collision_ok [OF _ assms(2) _ assms(3)]
        tx_done_ok [OF _ assms(2) _ assms(3)] p by blast
  qed
qed

section \<open>Transmitting a queue\<close>

text \<open>Changes below the medium access layer.\<close>

lemma below_ok:
  assumes "pbuf_ok b"
  shows "q_ok N X (s\<lparr>rdc_framer := fs, rdc_rnds := rs, qpb := b, rdc_air := air\<rparr>) = q_ok N X s"
    and "pk_ok s \<Longrightarrow> pk_ok (s\<lparr>rdc_framer := fs, rdc_rnds := rs, qpb := b, rdc_air := air\<rparr>)"
    and "armed E (s\<lparr>rdc_framer := fs, rdc_rnds := rs, qpb := b, rdc_air := air\<rparr>) = armed E s"
    and "busy E (s\<lparr>rdc_framer := fs, rdc_rnds := rs, qpb := b, rdc_air := air\<rparr>) = busy E s"
    and "held (s\<lparr>rdc_framer := fs, rdc_rnds := rs, qpb := b, rdc_air := air\<rparr>) = held s"
    and "queue n (s\<lparr>rdc_framer := fs, rdc_rnds := rs, qpb := b, rdc_air := air\<rparr>) = queue n s"
    and "pkt p (s\<lparr>rdc_framer := fs, rdc_rnds := rs, qpb := b, rdc_air := air\<rparr>) = pkt p s"
proof -
  let ?t = "s\<lparr>rdc_framer := fs, rdc_rnds := rs, qpb := b, rdc_air := air\<rparr>"
  show "q_ok N X ?t = q_ok N X s" "armed E ?t = armed E s" "busy E ?t = busy E s" "queue n ?t = queue n s"
    by (rule q_ok_cong; simp)+
  have h: "held ?t = held (s\<lparr>qpb := b\<rparr>)" "qnet_ok ?t = qnet_ok (s\<lparr>qpb := b\<rparr>)"
    by (rule qnet_ok_cong; simp)+
  then show "held ?t = held s" by simp
  show p: "pkt p ?t = pkt p s" for p by (simp add: pkt_def)
  show "pk_ok ?t" if "pk_ok s"
  proof -
    have "qnet_ok s" using that by (simp add: pk_ok_def)
    then have "qnet_ok ?t" using h(2) qnet_ok_pb [OF qnet_okD(6)] assms by blast
    then show ?thesis using that unfolding pk_ok_def p h(1) held_pb by simp
  qed
qed

lemma sending_below:
  assumes "sending_ok N n s" and "pbuf_ok b"
  shows "sending_ok N n (s\<lparr>rdc_framer := fs, rdc_rnds := rs, qpb := b, rdc_air := air\<rparr>)"
  using assms(1) by (simp add: sending_ok_def below_ok [OF assms(2)])

lemma csma_below:
  assumes "csma_ok N s" and "pbuf_ok b"
  shows "csma_ok N (s\<lparr>rdc_framer := fs, rdc_rnds := rs, qpb := b, rdc_air := air\<rparr>)"
  using assms(1) by (simp add: csma_ok_def below_ok [OF assms(2)])

lemma pb_below: "s\<lparr>qpb := b\<rparr> = s\<lparr>rdc_framer := rdc_framer s, rdc_rnds := rdc_rnds s, qpb := b, rdc_air := rdc_air s\<rparr>"
  by simp

lemma load_buf_any:
  assumes "qnet_ok s" and "load_buf q s = Ok s'"
  shows "\<exists>b. s' = s\<lparr>qpb := b\<rparr> \<and> pbuf_ok b"
proof (cases q)
  case None
  then show ?thesis using assms qnet_okD(6) [OF assms(1)] by (intro exI [of _ "qpb s"]) (simp add: load_buf_def)
next
  case (Some i)
  then show ?thesis using assms qbuf_load_any by (simp add: load_buf_def)
qed

lemma send_one_keeps:
  assumes "send_one_packet fo (packet_sent co cb n) r s = Ok (ok, s')" and "csma_ok N s" and "n < N" and "upper_ok N cb"
  shows "csma_ok N s'"
proof -
  have "pbuf_ok (qpb s)" using assms(2) by (simp add: csma_ok_def pk_ok_def qnet_ok_def)
  from send_one_packet_eq [OF assms(1) this] obtain fs rs b air st where b: "pbuf_ok b" and
    c: "packet_sent co cb n st 1 (s\<lparr>rdc_framer := fs, rdc_rnds := rs, qpb := b, rdc_air := air\<rparr>) = Ok s'" "st \<noteq> MAC_TX_DEFERRED" by blast
  let ?t = "s\<lparr>rdc_framer := fs, rdc_rnds := rs, qpb := b, rdc_air := air\<rparr>"
  have t: "csma_ok N ?t" by (rule csma_below [OF assms(2) b])
  from packet_sent_ok [OF c(1) csma_ok_sending [OF t assms(3)] assms(4) c(2)] t show ?thesis by blast
qed

lemma send_list_keeps:
  assumes "send_list fo (packet_sent co cb n) nxt buf rs q s = Ok s'" and "csma_ok N s" and "n < N" and "upper_ok N cb"
  shows "csma_ok N s'"
  using assms(1,2)
proof (induction rs arbitrary: q s)
  case Nil
  then show ?case by (cases q) simp_all
next
  case (Cons r rs)
  show ?case
  proof (cases q)
    case None
    then show ?thesis using Cons.prems by simp
  next
    case (Some p)
    then obtain s1 ok s2 where l: "load_buf (buf p s) s = Ok s1" and o: "send_one_packet fo (packet_sent co cb n) r s1 = Ok (ok, s2)"
      and rest: "(if \<not> ok then Ok s2 else send_list fo (packet_sent co cb n) nxt buf rs (nxt p s) s2) = Ok s'"
      using Cons.prems(1) by (auto simp: res_iff Let_def)
    have "qnet_ok s" using Cons.prems(2) by (simp add: csma_ok_def pk_ok_def)
    from load_buf_any [OF this l] obtain b where "s1 = s\<lparr>qpb := b\<rparr>" "pbuf_ok b" by blast
    then have "csma_ok N s1" using csma_below [OF Cons.prems(2)] pb_below by metis
    then have "csma_ok N s2" using send_one_keeps [OF o] assms(3,4) by blast
    then show ?thesis using rest Cons.IH by (cases ok) auto
  qed
qed

text \<open>The first packet of the queue is found by the report, so the timer runs again or the queue is gone.\<close>

lemma transmit_ok:
  assumes "transmit_packet_list co fo cb rs n s = Ok s'" and "sending_ok N n s" and "n \<in> set (neighbor_list s)" and "upper_ok N cb"
  shows "csma_ok N s'"
proof -
  have ok: "q_ok N {} s" "pk_ok s" "busy {} s" "n < N" using assms(2) by (simp_all add: sending_ok_def)
  have "queue n s \<noteq> []" using ok(3) assms(3) by (simp add: busy_def)
  then obtain p ps where Q: "queue n s = p # ps" by (cases "queue n s") auto
  then obtain r rs' where rs: "rs = r # rs'"
    using assms(1) by (cases rs) (simp_all add: transmit_packet_list_def queue_def list_hd_def)
  have run: "send_list fo (packet_sent co cb n) (pkt_next n) (\<lambda>p s. rb_buf (pkt p s)) (r # rs') (Some p) s = Ok s'"
    using assms(1) Q by (simp add: transmit_packet_list_def queue_def list_hd_def rs)
  then obtain s1 okb s2 where l: "load_buf (rb_buf (pkt p s)) s = Ok s1"
    and o: "send_one_packet fo (packet_sent co cb n) r s1 = Ok (okb, s2)"
    and rest: "(if \<not> okb then Ok s2 else send_list fo (packet_sent co cb n) (pkt_next n) (\<lambda>p s. rb_buf (pkt p s)) rs' (pkt_next n p s) s2) = Ok s'"
    by (auto simp: res_iff Let_def)
  have p: "p \<in> memb_used (packet_memb s)" using queued_used(1) [OF ok(1,4)] Q by simp
  obtain b m bs attrs addrs where pk: "pkt p s = \<lparr>rb_buf = Some b, rb_ptr = Some m\<rparr>" "held s b = Some (bs, attrs, addrs)"
    "attrs ATTR_MAC_SEQNO \<noteq> 0" "b \<in> memb_used (bufmem s)" "qnet_ok s"
    by (rule pk_ok_packet [OF ok(2) p])
  from qbuf_load_ok [OF pk(5,4,2)] l pk(1) obtain pb where s1: "s1 = s\<lparr>qpb := pb\<rparr>" "pbuf_ok pb" "packet_in pb = (bs, attrs, addrs)"
    by (auto simp: load_buf_def)
  have attrs: "pb_attrs (qpb s1) = attrs" using s1(1,3) by (simp add: packet_in_def)
  have "pbuf_ok (qpb s1)" using s1 by simp
  from send_one_packet_eq [OF o this] pk(3) attrs obtain fs rr b' air st where b': "pbuf_ok b'" "pb_attrs b' = attrs" and
    c: "packet_sent co cb n st 1 (s1\<lparr>rdc_framer := fs, rdc_rnds := rr, qpb := b', rdc_air := air\<rparr>) = Ok s2" "st \<noteq> MAC_TX_DEFERRED" by auto
  let ?t = "s\<lparr>rdc_framer := fs, rdc_rnds := rr, qpb := b', rdc_air := air\<rparr>"
  have t: "s1\<lparr>rdc_framer := fs, rdc_rnds := rr, qpb := b', rdc_air := air\<rparr> = ?t" by (simp add: s1(1))
  note bl = below_ok [OF b'(1), where s = s and fs = fs and rs = rr and air = air]
  have sub: "set (queue n ?t) \<subseteq> memb_used (packet_memb ?t)" using queued_used(1) [OF ok(1,4)] bl(6) by auto
  have "find_sent (queue n ?t) ?t \<noteq> Ok None"
  proof
    assume "find_sent (queue n ?t) ?t = Ok None"
    with find_sent_ok [OF _ sub] bl(2) ok(2) have
      "\<forall>p \<in> set (queue n ?t). \<forall>b bs attrs addrs. rb_buf (pkt p ?t) = Some b \<longrightarrow> held ?t b = Some (bs, attrs, addrs) \<longrightarrow>
         attrs ATTR_MAC_SEQNO \<noteq> pb_attrs (qpb ?t) ATTR_MAC_SEQNO" by auto
    then show False using Q pk(1,2) b'(2) unfolding bl by simp
  qed
  with packet_sent_ok [OF c(1) [unfolded t] sending_below [OF assms(2) b'(1)] assms(4) c(2)] have "csma_ok N s2" by blast
  then show ?thesis using rest send_list_keeps [OF _ _ ok(4) assms(4)] by (cases okb) auto
qed

lemma timer_fires_ok:
  assumes "csma_timer_fires co fo cb rs n s = Ok s'" and "csma_ok N s" and "n \<in> set (neighbor_list s)" and "upper_ok N cb"
  shows "csma_ok N s'"
proof -
  have "q_ok N {} s" using assms(2) by (simp add: csma_ok_def)
  then have n: "n < N" using q_ok_member assms(3) by blast
  have "sending_ok N n (upd_nbq n (\<lambda>q. q\<lparr>transmit_timer := None\<rparr>) s)"
    using sending_upd(1) [OF csma_ok_sending [OF assms(2) n], of "\<lambda>q. q\<lparr>transmit_timer := None\<rparr>"] by simp
  then show ?thesis using transmit_ok [of co fo cb rs n] assms(1,3,4) by (simp add: csma_timer_fires_def)
qed

end
