(* ===== verification/Csma_Send_Laws.thy ===== *)
theory Csma_Send_Laws
  imports Csma_Laws "HOL-Library.Sublist"
begin

text \<open>
  Packets that are given to medium access: the queues as a function \<open>pending\<close> from receivers to lists of packets,
  what an accepted and a refused packet do to it, and the reachable states.
\<close>

section \<open>Accepting packets\<close>

lemma next_seqno_eq:
  assumes "next_seqno s = Ok s'"
  shows "\<exists>i sq rs v. v \<noteq> 0 \<and>
    s' = s\<lparr>csma_initialized := i, rdc_rnds := rs, csma_seqno := sq, qpb := packetbuf_set_attr ATTR_MAC_SEQNO v (qpb s)\<rparr>"
proof -
  have "\<exists>i q rs. (if csma_initialized s then Ok s
            else bindR (take_rnd s) (\<lambda>(r, s1). Ok (s1\<lparr>csma_initialized := True, csma_seqno := r\<rparr>))) =
      Ok (s\<lparr>csma_initialized := i, csma_seqno := q, rdc_rnds := rs\<rparr>)"
  proof (cases "csma_initialized s")
    case True
    then show ?thesis by (intro exI [of _ True] exI [of _ "csma_seqno s"] exI [of _ "rdc_rnds s"]) simp
  next
    case False
    then obtain r t where t: "take_rnd s = Ok (r, t)" using assms by (auto simp: next_seqno_def res_iff)
    then obtain rs where "t = s\<lparr>rdc_rnds := rs\<rparr>" by (auto simp: take_rnd_def split: list.splits)
    then show ?thesis using False t by (intro exI [of _ True] exI [of _ r] exI [of _ rs]) simp
  qed
  then obtain i q rs where s1: "(if csma_initialized s then Ok s
            else bindR (take_rnd s) (\<lambda>(r, s1). Ok (s1\<lparr>csma_initialized := True, csma_seqno := r\<rparr>))) =
      Ok (s\<lparr>csma_initialized := i, csma_seqno := q, rdc_rnds := rs\<rparr>)" by blast
  let ?v = "if q = 0 then q + 1 else q"
  have "s' = s\<lparr>csma_initialized := i, rdc_rnds := rs, csma_seqno := ?v + 1, qpb := packetbuf_set_attr ATTR_MAC_SEQNO ?v (qpb s)\<rparr>"
    using assms unfolding next_seqno_def s1 by (cases "q = 0") (auto simp: Let_def)
  moreover have "?v \<noteq> 0" by simp
  ultimately show ?thesis by blast
qed

lemma next_seqno_ok:
  assumes "next_seqno s = Ok s'" and "csma_ok N s"
  shows "csma_ok N s'" and "pb_attrs (qpb s') ATTR_MAC_SEQNO \<noteq> 0" and "neighbor_list s' = neighbor_list s" and "nbq n s' = nbq n s"
    and "packet_memb s' = packet_memb s" and "neighbor_memb s' = neighbor_memb s" and "held s' = held s"
proof -
  from next_seqno_eq [OF assms(1)] obtain i sq rs v where v: "v \<noteq> 0" and
    s': "s' = s\<lparr>csma_initialized := i, rdc_rnds := rs, csma_seqno := sq, qpb := packetbuf_set_attr ATTR_MAC_SEQNO v (qpb s)\<rparr>" by blast
  let ?b = "packetbuf_set_attr ATTR_MAC_SEQNO v (qpb s)"
  let ?t = "s\<lparr>rdc_framer := rdc_framer s, rdc_rnds := rs, qpb := ?b, rdc_air := rdc_air s\<rparr>"
  have b: "pbuf_ok ?b" using assms(2) by (simp add: csma_ok_def pk_ok_def qnet_ok_def)
  have t: "csma_ok N ?t" by (rule csma_below [OF assms(2) b])
  have "q_ok N {} s' = q_ok N {} ?t" "busy {} s' = busy {} ?t" "armed {} s' = armed {} ?t" by (rule q_ok_cong; simp add: s')+
  moreover have "pk_ok s' = pk_ok ?t" by (rule pk_ok_cong) (simp_all add: s')
  ultimately show "csma_ok N s'" using t by (simp add: csma_ok_def)
  show "pb_attrs (qpb s') ATTR_MAC_SEQNO \<noteq> 0" using v by (simp add: s' packetbuf_set_attr_def)
  show "held s' = held s" by (simp add: s' held_def blk_of_def fun_eq_iff)
  show "neighbor_list s' = neighbor_list s" "nbq n s' = nbq n s" "packet_memb s' = packet_memb s" "neighbor_memb s' = neighbor_memb s"
    by (simp_all add: s' nbq_def)
qed

lemma find_nbq_ok:
  "find_nbq addr ns s = (case find (\<lambda>n. nq_addr (nbq n s) = addr) ns of None \<Rightarrow> None | Some n \<Rightarrow> Some n)"
  by (induction ns) auto

lemma from_addr_Some:
  "neighbor_queue_from_addr addr s = Some n \<Longrightarrow> n \<in> set (neighbor_list s) \<and> nq_addr (nbq n s) = addr"
  by (auto simp: neighbor_queue_from_addr_def find_nbq_ok find_Some_iff split: option.splits)

lemma from_addr_None:
  "neighbor_queue_from_addr addr s = None \<longleftrightarrow> (\<forall>n \<in> set (neighbor_list s). nq_addr (nbq n s) \<noteq> addr)"
  by (auto simp: neighbor_queue_from_addr_def find_nbq_ok find_None_iff find_Some_iff split: option.splits)

text \<open>The queue of a receiver: an existing one, or an empty one of a new neighbour.\<close>

lemma get_nbq_ok:
  assumes "get_nbq co addr s = (Some n, s')" and "csma_ok N s"
  shows "n < N \<and> n \<in> set (neighbor_list s') \<and> nq_addr (nbq n s') = addr \<and> q_ok N {} s' \<and> pk_ok s' = pk_ok s \<and>
    busy {n} s' \<and> armed {n} s' \<and> packet_memb s' = packet_memb s \<and> held s' = held s \<and> qpb s' = qpb s \<and>
    (queue n s' \<noteq> [] \<longrightarrow> s' = s) \<and> (queue n s' = [] \<longrightarrow> neighbor_list s' = neighbor_list s @ [n] \<and> n \<notin> set (neighbor_list s)) \<and>
    (\<forall>m. m \<noteq> n \<longrightarrow> nbq m s' = nbq m s)"
proof (cases "neighbor_queue_from_addr addr s")
  case (Some k)
  then have "k = n" "s' = s" using assms(1) by (simp_all add: get_nbq_def)
  then show ?thesis
    using from_addr_Some [OF Some] assms(2) q_ok_member by (auto simp: csma_ok_def busy_def armed_def)
next
  case None
  then obtain m where a: "memb_alloc (neighbor_memb s) = (Some n, m)" and
    s': "s' = (let s1 = upd_nbq n (\<lambda>q. q\<lparr>nq_addr := addr, transmissions := 0, collisions := CSMA_MIN_BE co, queued_packet_list := []\<rparr>) (s\<lparr>neighbor_memb := m\<rparr>)
      in s1\<lparr>neighbor_list := neighbor_list s1 @ [n]\<rparr>)"
    using assms(1) by (auto simp: get_nbq_def Let_def split: option.splits prod.splits)
  have ok: "q_ok N {} s" "busy {} s" "armed {} s" using assms(2) by (simp_all add: csma_ok_def)
  note i = memb_alloc_Some [OF a] and u = memb_alloc_used [OF a]
  have nm: "memb_ok (neighbor_memb s)" "mnum (neighbor_memb s) = N" "memb_used (neighbor_memb s) = set (neighbor_list s)"
    using ok(1) by (simp_all add: q_ok_def)
  have n: "n < N" "n \<notin> set (neighbor_list s)" using i nm by simp_all
  have okm: "memb_ok m" by (rule memb_alloc_ok [OF nm(1) a])
  have l: "n < length (mmem m)" using okm i nm n by (simp add: memb_ok_def)
  have blk: "nbq k s' = (if k = n then (nbq n s)\<lparr>nq_addr := addr, transmissions := 0, collisions := CSMA_MIN_BE co, queued_packet_list := []\<rparr> else nbq k s)" for k
    using l i(3) by (simp add: s' Let_def nbq_def upd_nbq_def)
  have f: "neighbor_list s' = neighbor_list s @ [n]" "packet_memb s' = packet_memb s" "held s' = held s" "qpb s' = qpb s"
    by (simp_all add: s' Let_def held_def blk_of_def upd_nbq_def fun_eq_iff)
  have g: "memb_used (neighbor_memb s') = insert n (memb_used (neighbor_memb s))" "memb_ok (neighbor_memb s')" "mnum (neighbor_memb s') = N"
    using u okm i(4) nm by (simp_all add: s' Let_def upd_nbq_def)
  have "addr \<notin> (\<lambda>k. nq_addr (nbq k s)) ` set (neighbor_list s)" using None from_addr_None by blast
  then have q: "queues_ok N ((\<lambda>k. queue k s)(n := [])) ((\<lambda>k. nq_addr (nbq k s))(n := addr)) (neighbor_list s @ [n]) (memb_used (packet_memb s))"
    using queues_ok_new [OF _ n] ok(1) by (simp add: q_ok_def)
  have "(\<lambda>k. queue k s') = (\<lambda>k. queue k s)(n := [])" "(\<lambda>k. nq_addr (nbq k s')) = (\<lambda>k. nq_addr (nbq k s))(n := addr)"
    by (simp_all add: queue_def blk fun_eq_iff)
  with q have "q_ok N {} s'" using g f nm by (simp add: q_ok_def)
  moreover have "pk_ok s' = pk_ok s" by (rule pk_ok_cong) (simp_all add: s' Let_def upd_nbq_def)
  moreover have "busy {n} s'" "armed {n} s'" "queue n s' = []" using ok(2,3) f(1) by (auto simp: busy_def armed_def queue_def blk)
  ultimately show ?thesis using n f blk by simp
qed

lemma get_nbq_None:
  assumes "get_nbq co addr s = (None, s')"
  shows "s' = s" and "memb_used (neighbor_memb s) = {..<mnum (neighbor_memb s)}" and "neighbor_queue_from_addr addr s = None"
proof -
  from assms obtain m where a: "memb_alloc (neighbor_memb s) = (None, m)" and s': "s' = s\<lparr>neighbor_memb := m\<rparr>"
    and "neighbor_queue_from_addr addr s = None"
    by (auto simp: get_nbq_def Let_def split: option.splits prod.splits)
  with memb_alloc_None [OF a] show "s' = s" "memb_used (neighbor_memb s) = {..<mnum (neighbor_memb s)}" "neighbor_queue_from_addr addr s = None"
    by simp_all
qed

text \<open>The nested allocations: a packet with its metadata and its queue buffer, or nothing.\<close>

lemma alloc_packet_None:
  assumes "alloc_packet s = Ok (None, s')" and "pk_ok s"
  shows "pk_ok s'" and "held s' = held s" and "memb_used (packet_memb s') = memb_used (packet_memb s)"
    and "memb_used (metadata_memb s') = memb_used (metadata_memb s)" and "memb_used (bufmem s') = memb_used (bufmem s)"
    and "neighbor_memb s' = neighbor_memb s" and "neighbor_list s' = neighbor_list s" and "qpb s' = qpb s"
    and "mnum (packet_memb s') = mnum (packet_memb s)"
    and "memb_used (packet_memb s) = {..<mnum (packet_memb s)} \<or> memb_used (bufmem s) = {..<mnum (bufmem s)}"
    and "k \<in> memb_used (packet_memb s) \<Longrightarrow> pkt k s' = pkt k s" and "mmem (metadata_memb s') = mmem (metadata_memb s)"
proof -
  let ?U = "memb_used (packet_memb s)"
  have ok: "qnet_ok s" "memb_ok (packet_memb s)" "memb_ok (metadata_memb s)" "mnum (packet_memb s) = mnum (metadata_memb s)"
    using assms(2) by (simp_all add: pk_ok_def)
  have "s' = s \<and> ?U = {..<mnum (packet_memb s)} \<or>
    (\<exists>p pm mm. s' = s\<lparr>packet_memb := pm, metadata_memb := mm\<rparr> \<and> memb_used pm = ?U \<and> memb_ok pm \<and> mnum pm = mnum (packet_memb s) \<and>
      memb_used mm = memb_used (metadata_memb s) \<and> memb_ok mm \<and> mnum mm = mnum (metadata_memb s) \<and> mmem mm = mmem (metadata_memb s) \<and>
      p \<notin> ?U \<and> (\<forall>k. k \<noteq> p \<longrightarrow> mmem pm ! k = mmem (packet_memb s) ! k) \<and> memb_used (bufmem s) = {..<mnum (bufmem s)})"
  proof (cases "memb_alloc (packet_memb s)")
    case (Pair r pm)
    show ?thesis
    proof (cases r)
      case None
      then show ?thesis using assms(1) Pair memb_alloc_None [of "packet_memb s" pm] by (simp add: alloc_packet_def)
    next
      case (Some p)
      note a = Pair [unfolded Some]
      note i = memb_alloc_Some [OF a] and u = memb_alloc_used [OF a]
      have okp: "memb_ok pm" by (rule memb_alloc_ok [OF ok(2) a])
      have "card ?U < mnum (packet_memb s)"
        using psubset_card_mono [of "{..<mnum (packet_memb s)}" ?U] memb_used_bound i(1,2) by auto
      moreover have "card ?U = card (memb_used (metadata_memb s))"
        using card_image [of "\<lambda>p. rb_ptr (pkt p s)" ?U] card_image [of Some "memb_used (metadata_memb s)"] assms(2)
        by (simp add: pk_ok_def)
      ultimately obtain m mm where b: "memb_alloc (metadata_memb s) = (Some m, mm)"
        using mb.alloc_succeeds [OF ok(3)] ok(4) by auto
      note j = memb_alloc_Some [OF b] and v = memb_alloc_used [OF b]
      have okm: "memb_ok mm" by (rule memb_alloc_ok [OF ok(3) b])
      let ?pm1 = "set_blk p ((mmem pm ! p)\<lparr>rb_ptr := Some m\<rparr>) pm"
      let ?s1 = "s\<lparr>packet_memb := ?pm1, metadata_memb := mm\<rparr>"
      from assms(1) a b obtain bo s2 where n: "qbuf_new_from_packetbuf ?s1 = Ok (bo, s2)" and bo: "bo = None" and
        s': "s' = s2\<lparr>packet_memb := snd (memb_free (set_blk p ((pkt p s2)\<lparr>rb_buf := bo\<rparr>) (packet_memb s2)) p), metadata_memb := snd (memb_free (metadata_memb s2) m)\<rparr>"
        by (auto simp: alloc_packet_def Let_def res_iff split: if_splits)
      have q1: "qnet_ok ?s1" using qnet_ok_cong(1) [of ?s1 s] ok(1) by simp
      have s2: "s2 = ?s1" "memb_used (bufmem s) = {..<mnum (bufmem s)}"
      proof -
        obtain mb where mb: "memb_alloc (bufmem ?s1) = (None, mb)"
          using n bo qbuf_new_ok [OF q1] by (cases "memb_alloc (bufmem ?s1)"; cases "fst (memb_alloc (bufmem ?s1))") fastforce+
        show "s2 = ?s1" using qbuf_new_full [OF q1 mb] n by simp
        show "memb_used (bufmem s) = {..<mnum (bufmem s)}" using memb_alloc_None(2) [OF mb] by simp
      qed
      let ?pm2 = "set_blk p ((pkt p s2)\<lparr>rb_buf := bo\<rparr>) ?pm1"
      have s'': "s' = s\<lparr>packet_memb := snd (memb_free ?pm2 p), metadata_memb := snd (memb_free mm m)\<rparr>" by (simp add: s' s2(1))
      have "memb_used (snd (memb_free ?pm2 p)) = ?U" "memb_ok (snd (memb_free ?pm2 p))"
        using memb_free_used [of ?pm2 p] memb_free_ok [of ?pm2 p] okp u i(2) by auto
      moreover have "memb_used (snd (memb_free mm m)) = memb_used (metadata_memb s)" "memb_ok (snd (memb_free mm m))"
        using memb_free_used [OF okm, of m] memb_free_ok [OF okm, of m] v j(2) by auto
      ultimately show ?thesis
        using s'' i j s2(2)
        by (intro disjI2 exI [of _ p] exI [of _ "snd (memb_free ?pm2 p)"] exI [of _ "snd (memb_free mm m)"]) simp
    qed
  qed
  then have same: "held s' = held s" "memb_used (packet_memb s') = ?U" "memb_used (metadata_memb s') = memb_used (metadata_memb s)"
    "memb_used (bufmem s') = memb_used (bufmem s)" "neighbor_memb s' = neighbor_memb s" "neighbor_list s' = neighbor_list s" "qpb s' = qpb s"
    "mnum (packet_memb s') = mnum (packet_memb s)" "mnum (metadata_memb s') = mnum (metadata_memb s)" "qnet_ok s' = qnet_ok s"
    "memb_ok (packet_memb s')" "memb_ok (metadata_memb s')" and mm: "mmem (metadata_memb s') = mmem (metadata_memb s)"
    and pk: "\<And>k. k \<in> ?U \<Longrightarrow> pkt k s' = pkt k s"
    and "?U = {..<mnum (packet_memb s)} \<or> memb_used (bufmem s) = {..<mnum (bufmem s)}"
    using ok qnet_ok_cong [of s' s] by (auto simp: pkt_def) metis
  then show "held s' = held s" "memb_used (packet_memb s') = ?U" "memb_used (metadata_memb s') = memb_used (metadata_memb s)"
    "memb_used (bufmem s') = memb_used (bufmem s)" "neighbor_memb s' = neighbor_memb s" "neighbor_list s' = neighbor_list s" "qpb s' = qpb s"
    "mnum (packet_memb s') = mnum (packet_memb s)" "?U = {..<mnum (packet_memb s)} \<or> memb_used (bufmem s) = {..<mnum (bufmem s)}"
    by blast+
  show "k \<in> ?U \<Longrightarrow> pkt k s' = pkt k s" "mmem (metadata_memb s') = mmem (metadata_memb s)" by (fact pk, fact mm)
  have "inj_on (\<lambda>p. rb_buf (pkt p s')) ?U" "inj_on (\<lambda>p. rb_ptr (pkt p s')) ?U"
    "(\<lambda>p. rb_ptr (pkt p s')) ` ?U = (\<lambda>p. rb_ptr (pkt p s)) ` ?U"
    using assms(2) pk by (auto simp: pk_ok_def inj_on_def image_iff)
  moreover have "mcount (packet_memb s') \<noteq> []" using assms(2) no_blocks [OF same(8)] by (simp add: pk_ok_def)
  ultimately show "pk_ok s'" using assms(2) pk same(10-12) unfolding pk_ok_def same(1-9) by simp
qed

lemma inj_on_upd_insert: "inj_on f U \<Longrightarrow> v \<notin> f ` U \<Longrightarrow> p \<notin> U \<Longrightarrow> inj_on (f(p := v)) (insert p U)"
  by (auto simp: inj_on_def)

lemma alloc_packet_Some:
  assumes "alloc_packet s = Ok (Some p, s')" and "pk_ok s" and "pb_attrs (qpb s) ATTR_MAC_SEQNO \<noteq> 0"
  shows "pk_ok s'" and "memb_used (packet_memb s') = insert p (memb_used (packet_memb s))" and "p \<notin> memb_used (packet_memb s)"
    and "neighbor_memb s' = neighbor_memb s" and "neighbor_list s' = neighbor_list s" and "qpb s' = qpb s"
    and "\<exists>b m. pkt p s' = \<lparr>rb_buf = Some b, rb_ptr = Some m\<rparr> \<and> held s b = None \<and> held s' = (held s)(b \<mapsto> packet_in (qpb s)) \<and> m \<notin> memb_used (metadata_memb s)"
    and "k \<noteq> p \<Longrightarrow> pkt k s' = pkt k s" and "mmem (metadata_memb s') = mmem (metadata_memb s)"
    and "mnum (packet_memb s') = mnum (packet_memb s)" and "rdc_rnds s' = rdc_rnds s"
proof -
  let ?U = "memb_used (packet_memb s)"
  have ok: "qnet_ok s" "memb_ok (packet_memb s)" "memb_ok (metadata_memb s)" "mnum (packet_memb s) = mnum (metadata_memb s)"
    using assms(2) by (simp_all add: pk_ok_def)
  from assms(1) obtain q pm where a: "memb_alloc (packet_memb s) = (Some q, pm)"
    by (auto simp: alloc_packet_def split: prod.splits option.splits)
  with assms(1) obtain m mm where b: "memb_alloc (metadata_memb s) = (Some m, mm)"
    by (auto simp: alloc_packet_def Let_def split: prod.splits option.splits)
  let ?pm1 = "set_blk q ((mmem pm ! q)\<lparr>rb_ptr := Some m\<rparr>) pm"
  let ?s1 = "s\<lparr>packet_memb := ?pm1, metadata_memb := mm\<rparr>"
  from assms(1) a b obtain bo s2 where n: "qbuf_new_from_packetbuf ?s1 = Ok (Some bo, s2)" and q: "q = p" and
    s': "s' = s2\<lparr>packet_memb := set_blk p ((pkt p s2)\<lparr>rb_buf := Some bo\<rparr>) (packet_memb s2)\<rparr>"
    by (auto simp: alloc_packet_def Let_def res_iff split: if_splits)
  note a = a [unfolded q]
  note i = memb_alloc_Some [OF a] and u = memb_alloc_used [OF a] and j = memb_alloc_Some [OF b] and v = memb_alloc_used [OF b]
  have okpm: "memb_ok pm" "memb_ok mm" using memb_alloc_ok [OF ok(2) a] memb_alloc_ok [OF ok(3) b] by simp_all
  have l: "p < length (mmem pm)" using okpm i by (simp add: memb_ok_def)
  have q1: "qnet_ok ?s1" "held ?s1 = held s" using qnet_ok_cong [of ?s1 s] ok(1) by simp_all
  obtain mb where mb: "memb_alloc (bufmem ?s1) = (Some bo, mb)"
    using n qbuf_new_ok [OF q1(1)] qbuf_new_full [OF q1(1)]
    by (cases "memb_alloc (bufmem ?s1)"; cases "fst (memb_alloc (bufmem ?s1))") fastforce+
  from qbuf_new_ok [OF q1(1) mb] n obtain x y where s2: "qnet_ok s2" "held s bo = None"
    "held s2 = (held s)(bo \<mapsto> packet_in (qpb s))" and s2': "s2 = ?s1\<lparr>bufmem := x, buframmem := y\<rparr>"
    by (auto simp: q1(2))
  have p: "pkt k s' = (if k = p then \<lparr>rb_buf = Some bo, rb_ptr = Some m\<rparr> else pkt k s)" for k
    using l i(3) by (simp add: s' s2' pkt_def q)
  have f: "memb_used (packet_memb s') = insert p ?U" "metadata_memb s' = mm" "memb_ok (packet_memb s')" "mnum (packet_memb s') = mnum (packet_memb s)"
    "mnum mm = mnum (metadata_memb s)" using u okpm i(4) j(4) by (simp_all add: s' s2')
  have h: "qnet_ok s'" "held s' = (held s)(bo \<mapsto> packet_in (qpb s))"
    using qnet_ok_cong [of s' s2] s2 by (simp_all add: s')
  show "memb_used (packet_memb s') = insert p ?U" "p \<notin> ?U" "neighbor_memb s' = neighbor_memb s" "neighbor_list s' = neighbor_list s" "qpb s' = qpb s"
    "mmem (metadata_memb s') = mmem (metadata_memb s)" "mnum (packet_memb s') = mnum (packet_memb s)" "rdc_rnds s' = rdc_rnds s"
    using f i(2) j(3) by (simp_all add: s' s2')
  show "k \<noteq> p \<Longrightarrow> pkt k s' = pkt k s" by (simp add: p)
  show "\<exists>b m. pkt p s' = \<lparr>rb_buf = Some b, rb_ptr = Some m\<rparr> \<and> held s b = None \<and> held s' = (held s)(b \<mapsto> packet_in (qpb s)) \<and> m \<notin> memb_used (metadata_memb s)"
    using p [of p] h(2) s2(2) j(2) by auto
  have each: "\<exists>m b bs attrs addrs. pkt k s' = \<lparr>rb_buf = Some b, rb_ptr = Some m\<rparr> \<and> held s' b = Some (bs, attrs, addrs) \<and> attrs ATTR_MAC_SEQNO \<noteq> 0"
    if "k \<in> insert p ?U" for k
  proof (cases "k = p")
    case True
    then show ?thesis using assms(3) h(2) by (simp add: p packet_in_def)
  next
    case False
    with that have k: "k \<in> ?U" by simp
    obtain b' m' bs attrs addrs where "pkt k s = \<lparr>rb_buf = Some b', rb_ptr = Some m'\<rparr>" "held s b' = Some (bs, attrs, addrs)"
      "attrs ATTR_MAC_SEQNO \<noteq> 0" "b' \<in> memb_used (bufmem s)" "qnet_ok s" by (rule pk_ok_packet [OF assms(2) k])
    then show ?thesis using False h(2) s2(2) by (auto simp: p)
  qed
  have nb: "rb_buf (pkt k s) \<noteq> Some bo" "rb_ptr (pkt k s) \<noteq> Some m" if k: "k \<in> ?U" for k
  proof -
    show "rb_buf (pkt k s) \<noteq> Some bo" using pk_ok_packet [OF assms(2) k] s2(2) by (metis option.distinct(1) option.inject rdc_buf_list.select_convs(1))
    have "rb_ptr (pkt k s) \<in> Some ` memb_used (metadata_memb s)" using assms(2) k unfolding pk_ok_def by blast
    then show "rb_ptr (pkt k s) \<noteq> Some m" using j(2) by auto
  qed
  have inj: "inj_on (\<lambda>p. rb_buf (pkt p s)) ?U" "inj_on (\<lambda>p. rb_ptr (pkt p s)) ?U"
    "(\<lambda>p. rb_ptr (pkt p s)) ` ?U = Some ` memb_used (metadata_memb s)" using assms(2) by (simp_all add: pk_ok_def)
  have upd: "(\<lambda>k. rb_buf (pkt k s')) = (\<lambda>k. rb_buf (pkt k s))(p := Some bo)" "(\<lambda>k. rb_ptr (pkt k s')) = (\<lambda>k. rb_ptr (pkt k s))(p := Some m)"
    by (simp_all add: p fun_eq_iff)
  have "inj_on (\<lambda>k. rb_buf (pkt k s')) (insert p ?U)" "inj_on (\<lambda>k. rb_ptr (pkt k s')) (insert p ?U)"
    unfolding upd by (rule inj_on_upd_insert [OF inj(1) _ i(2)] inj_on_upd_insert [OF inj(2) _ i(2)], use nb in fastforce)+
  moreover have "(\<lambda>k. rb_ptr (pkt k s')) ` insert p ?U = Some ` insert m (memb_used (metadata_memb s))"
  proof -
    have "(\<lambda>k. rb_ptr (pkt k s')) ` ?U = (\<lambda>k. rb_ptr (pkt k s)) ` ?U" using i(2) by (intro image_cong) (auto simp: p)
    then show ?thesis using inj(3) by (simp add: p)
  qed
  moreover have "mcount (packet_memb s') \<noteq> []"
    using assms(2) no_blocks [OF f(4)] by (simp add: pk_ok_def)
  ultimately show "pk_ok s'"
    unfolding pk_ok_def using h(1) f okpm v ok(4) each by simp
qed

lemma full_iff: "memb_used m = {..<mnum m} \<longleftrightarrow> memb_numfree m = 0"
proof
  assume "memb_used m = {..<mnum m}"
  then show "memb_numfree m = 0" using memb_numfree_used [of m] by simp
next
  assume "memb_numfree m = 0"
  then have "card (memb_used m) = card {..<mnum m}" using memb_numfree_used [of m] by simp
  then show "memb_used m = {..<mnum m}" using card_subset_eq [OF _ memb_used_bound] by blast
qed

lemma alloc_packet_returns:
  assumes "pk_ok s"
  shows "\<exists>r s'. alloc_packet s = Ok (r, s') \<and> (r = None \<longleftrightarrow> memb_numfree (packet_memb s) = 0 \<or> memb_numfree (bufmem s) = 0)"
proof -
  have "\<exists>r s'. alloc_packet s = Ok (r, s') \<and> (r \<noteq> None \<longrightarrow> memb_numfree (packet_memb s) \<noteq> 0 \<and> memb_numfree (bufmem s) \<noteq> 0)"
  proof (cases "memb_alloc (packet_memb s)")
    case (Pair r pm)
    show ?thesis
    proof (cases r)
      case None
      then show ?thesis using Pair by (simp add: alloc_packet_def)
    next
      case (Some p)
      note a = Pair [unfolded Some]
      have pf: "memb_numfree (packet_memb s) \<noteq> 0" using memb_alloc_Some(1,2) [OF a] unfolding full_iff [symmetric] by blast
      obtain m mm where b: "memb_alloc (metadata_memb s) = (m, mm)" by (cases "memb_alloc (metadata_memb s)")
      show ?thesis
      proof (cases m)
        case None
        then show ?thesis using a b by (simp add: alloc_packet_def Let_def)
      next
        case (Some m')
        let ?s1 = "s\<lparr>packet_memb := set_blk p ((mmem pm ! p)\<lparr>rb_ptr := Some m'\<rparr>) pm, metadata_memb := mm\<rparr>"
        have q: "qnet_ok ?s1" using qnet_ok_cong(1) [of ?s1 s] assms by (simp add: pk_ok_def)
        obtain bo bm where c: "memb_alloc (bufmem ?s1) = (bo, bm)" by (cases "memb_alloc (bufmem ?s1)")
        show ?thesis
        proof (cases bo)
          case None
          then show ?thesis using qbuf_new_full [OF q] a b c \<open>m = Some m'\<close> by (simp add: alloc_packet_def Let_def)
        next
          case (Some b')
          have bf: "memb_numfree (bufmem s) \<noteq> 0" using memb_alloc_Some(1,2) [OF c [unfolded Some]] unfolding full_iff [symmetric] by auto
          from qbuf_new_ok [OF q c [unfolded Some]] obtain s2 where "qbuf_new_from_packetbuf ?s1 = Ok (Some b', s2)" by blast
          then show ?thesis using a b \<open>m = Some m'\<close> pf bf by (simp add: alloc_packet_def Let_def)
        qed
      qed
    qed
  qed
  then obtain r s' where r: "alloc_packet s = Ok (r, s')" "r \<noteq> None \<longrightarrow> memb_numfree (packet_memb s) \<noteq> 0 \<and> memb_numfree (bufmem s) \<noteq> 0" by blast
  moreover have "memb_numfree (packet_memb s) = 0 \<or> memb_numfree (bufmem s) = 0" if "r = None"
    using alloc_packet_None(10) [OF _ assms] r(1) that by (simp add: full_iff)
  ultimately show ?thesis by (intro exI [of _ r] exI [of _ s']) auto
qed

section \<open>What is queued\<close>

text \<open>A queued packet as the layers above see it: its contents, its attributes and addresses, and its metadata.\<close>

type_synonym queued = "held_packet option \<times> qbuf_metadata option"

definition view :: "'s csma_scheme \<Rightarrow> nat \<Rightarrow> queued" where
  "view s p = (case rb_buf (pkt p s) of None \<Rightarrow> None | Some b \<Rightarrow> held s b,
     case rb_ptr (pkt p s) of None \<Rightarrow> None | Some m \<Rightarrow> Some (mmem (metadata_memb s) ! m))"

definition pending :: "'s csma_scheme \<Rightarrow> u16 \<Rightarrow> queued list" where
  "pending s a = (case neighbor_queue_from_addr a s of None \<Rightarrow> [] | Some n \<Rightarrow> map (view s) (queue n s))"

lemma from_addr_iff:
  assumes "q_ok N X s" and "n \<in> set (neighbor_list s)"
  shows "neighbor_queue_from_addr a s = Some n \<longleftrightarrow> nq_addr (nbq n s) = a"
proof
  assume a: "nq_addr (nbq n s) = a"
  then obtain k where k: "neighbor_queue_from_addr a s = Some k" using from_addr_None [of a s] assms(2) by fastforce
  have "inj_on (\<lambda>n. nq_addr (nbq n s)) (set (neighbor_list s))" using assms(1) by (simp add: q_ok_def queues_ok_def)
  then show "neighbor_queue_from_addr a s = Some n" using from_addr_Some [OF k] a assms(2) k by (metis inj_onD)
qed (use from_addr_Some in blast)

lemma view_cong:
  assumes "pkt p t = pkt p s" and "held t = held s" and "metadata_memb t = metadata_memb s"
  shows "view t p = view s p"
  using assms by (simp add: view_def split: option.split)

text \<open>The queue of one receiver changes, the others keep theirs.\<close>

lemma pending_upd:
  assumes ok: "q_ok N X s" "q_ok N Y t" and n: "n \<in> set (neighbor_list t)" "nq_addr (nbq n t) = a"
    and sub: "set (neighbor_list s) \<subseteq> set (neighbor_list t)" "set (neighbor_list t) \<subseteq> insert n (set (neighbor_list s))"
    and same: "\<And>m. m \<in> set (neighbor_list s) \<Longrightarrow> nq_addr (nbq m t) = nq_addr (nbq m s)"
    "\<And>m. m \<in> set (neighbor_list s) \<Longrightarrow> m \<noteq> n \<Longrightarrow> queue m t = queue m s \<and> (\<forall>p \<in> set (queue m s). view t p = view s p)"
  shows "pending t = (pending s)(a := map (view t) (queue n t))"
proof
  fix a'
  show "pending t a' = ((pending s)(a := map (view t) (queue n t))) a'"
  proof (cases "a' = a")
    case True
    then show ?thesis using from_addr_iff [OF ok(2) n(1), of a] n(2) by (simp add: pending_def)
  next
    case False
    show ?thesis
    proof (cases "neighbor_queue_from_addr a' s")
      case None
      then have "neighbor_queue_from_addr a' t = None"
        unfolding from_addr_None using subsetD [OF sub(2)] same(1) n(2) False by (metis insert_iff)
      then show ?thesis using None False by (simp add: pending_def)
    next
      case (Some m)
      note m = from_addr_Some [OF Some]
      then have "m \<noteq> n" using False n(2) same(1) by force
      moreover have "neighbor_queue_from_addr a' t = Some m" using from_addr_iff [OF ok(2)] m sub(1) same(1) by blast
      ultimately show ?thesis using Some False same(2) [of m] m by (simp add: pending_def)
    qed
  qed
qed

lemma pending_cong:
  assumes "neighbor_list t = neighbor_list s" and "\<And>m. m \<in> set (neighbor_list s) \<Longrightarrow> nq_addr (nbq m t) = nq_addr (nbq m s)"
    and "\<And>m. m \<in> set (neighbor_list s) \<Longrightarrow> queue m t = queue m s \<and> (\<forall>p \<in> set (queue m s). view t p = view s p)"
  shows "pending t = pending s"
proof
  fix a
  have "find_nbq a ns t = find_nbq a ns s" if "set ns \<subseteq> set (neighbor_list s)" for ns
    using that assms(2) by (induction ns) auto
  then have f: "neighbor_queue_from_addr a t = neighbor_queue_from_addr a s" using assms(1) by (simp add: neighbor_queue_from_addr_def)
  show "pending t a = pending s a"
  proof (cases "neighbor_queue_from_addr a s")
    case (Some m)
    then show ?thesis using assms(3) [of m] from_addr_Some [OF Some] f by (simp add: pending_def)
  qed (simp add: pending_def f)
qed

section \<open>Sending\<close>

definition new_metadata :: "csma_opts \<Rightarrow> nat option \<Rightarrow> nat \<Rightarrow> pbuf \<Rightarrow> qbuf_metadata" where
  "new_metadata co sent ptr b = \<lparr>md_sent = sent, md_cptr = ptr,
     max_transmissions = (if packetbuf_attr ATTR_MAX_MAC_TRANSMISSIONS b = 0 then CSMA_MAX_MAX_FRAME_RETRIES co + 1
       else ucast (packetbuf_attr ATTR_MAX_MAC_TRANSMISSIONS b))\<rparr>"

lemma fill_metadata_ok:
  assumes "pk_ok s" and "p \<in> memb_used (packet_memb s)" and t_def: "t = fill_metadata co sent ptr p s"
  shows "pk_ok t" and "k \<in> memb_used (packet_memb s) \<Longrightarrow> k \<noteq> p \<Longrightarrow> view t k = view s k"
    and "view t p = (fst (view s p), Some (new_metadata co sent ptr (qpb s)))" and "\<exists>mm. t = s\<lparr>metadata_memb := mm\<rparr>"
proof -
  obtain b m bs attrs addrs where p: "pkt p s = \<lparr>rb_buf = Some b, rb_ptr = Some m\<rparr>" and "held s b = Some (bs, attrs, addrs)"
    "attrs ATTR_MAC_SEQNO \<noteq> 0" "b \<in> memb_used (bufmem s)" "qnet_ok s" by (rule pk_ok_packet [OF assms(1,2)])
  have t: "t = s\<lparr>metadata_memb := set_blk m (new_metadata co sent ptr (qpb s)) (metadata_memb s)\<rparr>"
    unfolding t_def fill_metadata_def new_metadata_def using p by (simp add: Let_def)
  then show "\<exists>mm. t = s\<lparr>metadata_memb := mm\<rparr>" by blast
  have hk: "held t = held s" "qnet_ok t = qnet_ok s" using qnet_ok_cong [of t s] by (simp_all add: t)
  have pk: "pkt k t = pkt k s" for k by (simp add: t)
  show "pk_ok t" using assms(1) unfolding pk_ok_def hk pk by (simp add: t)
  have im: "(\<lambda>p. rb_ptr (pkt p s)) ` memb_used (packet_memb s) = Some ` memb_used (metadata_memb s)"
    and inj: "inj_on (\<lambda>p. rb_ptr (pkt p s)) (memb_used (packet_memb s))" and mm: "memb_ok (metadata_memb s)"
    using assms(1) by (simp_all add: pk_ok_def)
  have "Some m \<in> Some ` memb_used (metadata_memb s)" using im assms(2) p by (metis imageI rdc_buf_list.select_convs(2))
  then have l: "m < length (mmem (metadata_memb s))" using used_block [OF mm] by blast
  show "view t p = (fst (view s p), Some (new_metadata co sent ptr (qpb s)))" using p l by (simp add: view_def pk hk(1)) (simp add: t)
  show "view t k = view s k" if "k \<in> memb_used (packet_memb s)" "k \<noteq> p"
  proof -
    have "rb_ptr (pkt k s) \<noteq> Some m" using inj_onD [OF inj, of k p] that assms(2) p by auto
    then show ?thesis by (simp add: view_def pk hk(1) split: option.split) (auto simp: t)
  qed
qed

lemma alloc_packet_view:
  assumes "alloc_packet s = Ok (r, s')" and "pk_ok s" and "pb_attrs (qpb s) ATTR_MAC_SEQNO \<noteq> 0"
  shows "k \<in> memb_used (packet_memb s) \<Longrightarrow> view s' k = view s k" and "r = Some p \<Longrightarrow> fst (view s' p) = Some (packet_in (qpb s))"
proof -
  show "view s' k = view s k" if k: "k \<in> memb_used (packet_memb s)"
  proof (cases r)
    case None
    note a = alloc_packet_None [OF assms(1) [unfolded None] assms(2)]
    have "pkt k s' = pkt k s" by (rule a(11) [OF k])
    then show ?thesis using a(2,12) by (simp add: view_def split: option.split)
  next
    case (Some p)
    note a = alloc_packet_Some [OF assms(1) [unfolded Some] assms(2,3)]
    obtain b m where bm: "held s b = None" "held s' = (held s)(b \<mapsto> packet_in (qpb s))" using a(7) by blast
    have "k \<noteq> p" using k a(3) by blast
    then have pk: "pkt k s' = pkt k s" using a(8) by simp
    obtain b' m' bs attrs addrs where "pkt k s = \<lparr>rb_buf = Some b', rb_ptr = Some m'\<rparr>" "held s b' = Some (bs, attrs, addrs)"
      "attrs ATTR_MAC_SEQNO \<noteq> 0" "b' \<in> memb_used (bufmem s)" "qnet_ok s" by (rule pk_ok_packet [OF assms(2) k])
    then show ?thesis using bm a(9) by (auto simp: view_def pk)
  qed
  show "fst (view s' p) = Some (packet_in (qpb s))" if "r = Some p"
    using alloc_packet_Some(7) [OF assms(1) [unfolded that] assms(2,3)] by (auto simp: view_def)
qed

lemma held_upd [simp]: "held (upd_nbq n f s) = held s" "held (s\<lparr>rdc_rnds := rs\<rparr>) = held s"
  by (rule qnet_ok_cong; simp)+

text \<open>The timer starts when the packet is the first one of the queue; otherwise it runs already.\<close>

lemma enqueue_ok:
  assumes "enqueue co n p s = Ok s'" and ok: "q_ok N {p} s" "pk_ok s" "busy {n} s" "armed (if queue n s = [] then {n} else {}) s"
    and n: "n \<in> set (neighbor_list s)"
  shows "csma_ok N s'" and "queue m s' = (if m = n then (if packetbuf_attr ATTR_PACKET_TYPE (qpb s) = PACKET_TYPE_ACK
      then p # queue n s else queue n s @ [p]) else queue m s)" and "neighbor_list s' = neighbor_list s"
    and "nq_addr (nbq m s') = nq_addr (nbq m s)" and "view s' k = view s k" and "packet_memb s' = packet_memb s"
proof -
  let ?ps = "if packetbuf_attr ATTR_PACKET_TYPE (qpb s) = PACKET_TYPE_ACK then p # queue n s else queue n s @ [p]"
  let ?t = "upd_nbq n (\<lambda>q. q\<lparr>queued_packet_list := ?ps\<rparr>) s"
  have nN: "n < N" by (rule q_ok_member [OF ok(1) n])
  note l = q_ok_block [OF ok(1) nN]
  have qs: "queues_ok N (\<lambda>n. queue n s) (\<lambda>n. nq_addr (nbq n s)) (neighbor_list s) (memb_used (packet_memb s) - {p})"
    and pu: "p \<in> memb_used (packet_memb s)" using ok(1) by (simp_all add: q_ok_def)
  have "p \<notin> set (queue n s)" using qs nN unfolding queues_ok_def by blast
  then have rm: "remove1 p (queue n s) = queue n s" by (rule remove1_idem)
  have d: "distinct ?ps" "set ?ps = insert p (set (queue n s))" using \<open>p \<notin> set (queue n s)\<close> qs nN by (auto simp: queues_ok_def)
  have t: "upd_nbq n (\<lambda>q. q\<lparr>queued_packet_list := (if packetbuf_attr ATTR_PACKET_TYPE (qpb s) = PACKET_TYPE_ACK
                  then p # remove1 p (queued_packet_list q) else remove1 p (queued_packet_list q) @ [p])\<rparr>) s = ?t"
    using rm by (simp add: upd_nbq_def queue_def)
  have Q: "queue m ?t = (if m = n then ?ps else queue m s)" for m using l by (simp add: queue_def)
  have A: "nq_addr (nbq m ?t) = nq_addr (nbq m s)" "transmit_timer (nbq m ?t) = transmit_timer (nbq m s)" for m using l by simp_all
  have "queues_ok N ((\<lambda>m. queue m s)(n := ?ps)) (\<lambda>m. nq_addr (nbq m s)) (neighbor_list s) (insert p (memb_used (packet_memb s) - {p}))"
    by (rule queues_ok_add [OF qs n _ d(2,1)]) simp
  moreover have "(\<lambda>m. queue m ?t) = (\<lambda>m. queue m s)(n := ?ps)" by (simp add: fun_eq_iff Q)
  ultimately have q: "q_ok N {} ?t" using ok(1) pu by (simp add: q_ok_def A insert_absorb del: nbq_upd)
  have bs: "busy {} ?t" using ok(3) by (auto simp: busy_def Q)
  have ar: "armed (if queue n s = [] then {n} else {}) ?t" using ok(4) unfolding armed_def A by simp
  have run: "(if list_hd ?ps = Some p then schedule_transmission co n ?t else Ok ?t) = Ok s'"
    using assms(1) Q [of n] unfolding enqueue_def Let_def t queue_def [symmetric] by simp
  have vw: "view ?t k = view s k" for k by (rule view_cong) simp_all
  have "csma_ok N s' \<and> (\<forall>m. queue m s' = queue m ?t \<and> nq_addr (nbq m s') = nq_addr (nbq m ?t)) \<and> neighbor_list s' = neighbor_list ?t \<and>
    packet_memb s' = packet_memb ?t \<and> (\<forall>k. view s' k = view ?t k)"
  proof (cases "list_hd ?ps = Some p")
    case True
    then have sc: "schedule_transmission co n ?t = Ok s'" using run by simp
    then obtain dl rs where s': "s' = upd_nbq n (\<lambda>q. q\<lparr>transmit_timer := Some dl\<rparr>) (?t\<lparr>rdc_rnds := rs\<rparr>)" using schedule_eq by blast
    have "armed (insert n {}) ?t" using ar by (auto simp: armed_def split: if_splits)
    note u = schedule_ok [OF sc q nN this]
    have "csma_ok N s'" using u bs ok(2) by (simp add: csma_ok_def busy_def)
    moreover have "nq_addr (nbq m s') = nq_addr (nbq m ?t)" for m using l by (simp add: s')
    moreover have "view s' k = view ?t k" for k by (rule view_cong) (simp_all add: s')
    ultimately show ?thesis using schedule_ok [OF sc q nN \<open>armed (insert n {}) ?t\<close>] by (simp add: s')
  next
    case False
    then have s': "s' = ?t" using run by simp
    from False have "queue n s \<noteq> []" by (auto simp: list_hd_def split: if_splits)
    then have "armed {} ?t" using ar by simp
    then show ?thesis using q bs ok(2) by (simp add: s' csma_ok_def)
  qed
  then show "csma_ok N s'" "queue m s' = (if m = n then ?ps else queue m s)" "neighbor_list s' = neighbor_list s"
    "nq_addr (nbq m s') = nq_addr (nbq m s)" "view s' k = view s k" "packet_memb s' = packet_memb s"
    using Q A vw by simp_all
qed

lemma take_rnd_returns: "rdc_rnds s \<noteq> [] \<Longrightarrow> \<exists>r. take_rnd s = Ok (r, s\<lparr>rdc_rnds := tl (rdc_rnds s)\<rparr>)"
  by (cases "rdc_rnds s") (simp_all add: take_rnd_def)

lemma schedule_returns: "rdc_rnds s \<noteq> [] \<Longrightarrow> \<exists>s'. schedule_transmission co n s = Ok s'"
  using take_rnd_returns [of s] by (auto simp: schedule_transmission_def Let_def)

lemma next_seqno_returns:
  assumes "2 \<le> length (rdc_rnds s)"
  shows "\<exists>s'. next_seqno s = Ok s' \<and> rdc_rnds s' \<noteq> []"
proof (cases "csma_initialized s")
  case True
  then show ?thesis using assms by (auto simp: next_seqno_def Let_def)
next
  case False
  have "tl (rdc_rnds s) \<noteq> []" "rdc_rnds s \<noteq> []" using assms by (auto simp: Suc_le_length_iff numeral_2_eq_2)
  then show ?thesis using False take_rnd_returns [of s] by (auto simp: next_seqno_def Let_def)
qed

lemma next_seqno_pending:
  assumes "next_seqno s = Ok s'"
  shows "pending s' = pending s" and "metadata_memb s' = metadata_memb s" and "bufmem s' = bufmem s"
    and "packet_in (qpb s') = (fst (packet_in (qpb s)), pb_attrs (qpb s'), pb_addrs (qpb s))" and "\<And>x. x \<noteq> ATTR_MAC_SEQNO \<Longrightarrow> pb_attrs (qpb s') x = pb_attrs (qpb s) x"
    and "view s' k = view s k"
proof -
  from next_seqno_eq [OF assms] obtain i sq rs v where
    s': "s' = s\<lparr>csma_initialized := i, rdc_rnds := rs, csma_seqno := sq, qpb := packetbuf_set_attr ATTR_MAC_SEQNO v (qpb s)\<rparr>" by blast
  show "metadata_memb s' = metadata_memb s" "bufmem s' = bufmem s" by (simp_all add: s')
  show "packet_in (qpb s') = (fst (packet_in (qpb s)), pb_attrs (qpb s'), pb_addrs (qpb s))"
    by (simp add: s' packet_in_def packetbuf_set_attr_def pb_header_def pb_payload_def packetbuf_dataptr_def packetbuf_hdrlen_def)
  show "\<And>x. x \<noteq> ATTR_MAC_SEQNO \<Longrightarrow> pb_attrs (qpb s') x = pb_attrs (qpb s) x" by (simp add: s' packetbuf_set_attr_def)
  have q: "neighbor_list s' = neighbor_list s" "nbq m s' = nbq m s" "queue m s' = queue m s" "pkt m s' = pkt m s" for m
    by (simp_all add: s' nbq_def queue_def pkt_def)
  have h: "held s' = held s" by (simp add: s' held_def blk_of_def fun_eq_iff)
  show v: "view s' k = view s k" for k by (rule view_cong) (simp_all add: q h, simp add: s')
  show "pending s' = pending s" by (rule pending_cong) (simp_all add: q v)
qed

lemma get_nbq_pending:
  assumes "get_nbq co a s = (Some n, s')" and "csma_ok N s"
  shows "pending s' = pending s" and "metadata_memb s' = metadata_memb s" and "rdc_rnds s' = rdc_rnds s" and "bufmem s' = bufmem s"
    and "pending s a = map (view s) (queue n s')"
proof -
  have same: "metadata_memb s' = metadata_memb s" "rdc_rnds s' = rdc_rnds s" "bufmem s' = bufmem s"
    using assms(1) by (auto simp: get_nbq_def Let_def upd_nbq_def split: option.splits prod.splits)
  then show "metadata_memb s' = metadata_memb s" "rdc_rnds s' = rdc_rnds s" "bufmem s' = bufmem s" .
  note g = get_nbq_ok [OF assms]
  have ok: "q_ok N {} s" using assms(2) by (simp add: csma_ok_def)
  have v: "view s' k = view s k" for k by (rule view_cong) (use g same in \<open>simp_all add: pkt_def\<close>)
  have "pending s' = pending s \<and> pending s a = map (view s) (queue n s')"
  proof (cases "queue n s' = []")
    case False
    then have e: "s' = s" and n: "n \<in> set (neighbor_list s)" "nq_addr (nbq n s) = a" using g by auto
    have "neighbor_queue_from_addr a s = Some n" using from_addr_iff [OF ok n(1)] n(2) by blast
    then show ?thesis unfolding e by (simp add: pending_def)
  next
    case True
    then have l: "neighbor_list s' = neighbor_list s @ [n]" "n \<notin> set (neighbor_list s)" and nb: "\<And>m. m \<noteq> n \<Longrightarrow> nbq m s' = nbq m s"
      and okn: "q_ok N {} s'" and na: "nq_addr (nbq n s') = a" using g by auto
    have "neighbor_queue_from_addr a s = None"
    proof (rule ccontr)
      assume "neighbor_queue_from_addr a s \<noteq> None"
      then obtain k where k: "k \<in> set (neighbor_list s)" "nq_addr (nbq k s) = a" using from_addr_Some by fastforce
      then have "k \<noteq> n" using l(2) by blast
      then show False using from_addr_iff [OF okn, of k a] from_addr_iff [OF okn, of n a] k l na nb by simp
    qed
    then have e: "pending s a = []" by (simp add: pending_def)
    have nb': "\<And>m. m \<in> set (neighbor_list s) \<Longrightarrow> nbq m s' = nbq m s" using nb l(2) by metis
    have "pending s' = (pending s)(a := map (view s') (queue n s'))"
      by (rule pending_upd [OF ok okn]) (use l nb' na v in \<open>auto simp: queue_def\<close>)
    then show ?thesis using True e by (auto simp: fun_eq_iff)
  qed
  then show "pending s' = pending s" "pending s a = map (view s) (queue n s')" by simp_all
qed

text \<open>Whether a packet for \<open>a\<close> is accepted: a queue for the receiver, a packet and a queue buffer have to be free.\<close>

definition room_for :: "u16 \<Rightarrow> 's csma_scheme \<Rightarrow> bool" where
  "room_for a s \<longleftrightarrow> (neighbor_queue_from_addr a s \<noteq> None \<or> memb_numfree (neighbor_memb s) \<noteq> 0) \<and>
     memb_numfree (packet_memb s) \<noteq> 0 \<and> memb_numfree (bufmem s) \<noteq> 0"

lemma queue_bound: "q_ok N X s \<Longrightarrow> n < N \<Longrightarrow> length (queue n s) \<le> card (memb_used (packet_memb s))"
proof -
  assume "q_ok N X s" "n < N"
  then have "distinct (queue n s)" "set (queue n s) \<subseteq> memb_used (packet_memb s)" by (auto simp: q_ok_def queues_ok_def)
  then show ?thesis by (metis card_mono distinct_card finite_memb_used)
qed

text \<open>The packet that is queued: the contents of the packet buffer with the number it is given.\<close>

definition numbered :: "u16 \<Rightarrow> held_packet \<Rightarrow> held_packet" where
  "numbered v = (\<lambda>(bs, attrs, addrs). (bs, attrs(ATTR_MAC_SEQNO := v), addrs))"

lemma numbered_bytes: "fst (numbered v x) = fst x"
  by (simp add: numbered_def split: prod.split)

lemma enqueue_returns: "rdc_rnds s \<noteq> [] \<Longrightarrow> \<exists>s'. enqueue co n p s = Ok s'"
  by (simp add: enqueue_def Let_def schedule_returns)

lemma send_accepted:
  assumes ok: "csma_ok N s" and r: "2 \<le> length (rdc_rnds s)" and a: "a = packetbuf_addr ADDR_RECEIVER (qpb s)" and room: "room_for a s"
  defines "ack \<equiv> packetbuf_attr ATTR_PACKET_TYPE (qpb s) = PACKET_TYPE_ACK"
  shows "\<exists>s' v. csma_send_packet co cb sent ptr s = Ok s' \<and> csma_ok N s' \<and> v \<noteq> 0 \<and>
    (let x = (Some (numbered v (packet_in (qpb s))), Some (new_metadata co sent ptr (qpb s)))
     in pending s' = (pending s)(a := if ack then x # pending s a else pending s a @ [x]))"
proof -
  obtain s1 where s1: "next_seqno s = Ok s1" "rdc_rnds s1 \<noteq> []" using next_seqno_returns [OF r] by blast
  note o1 = next_seqno_ok [OF s1(1) ok] and p1 = next_seqno_pending [OF s1(1)]
  let ?v = "pb_attrs (qpb s1) ATTR_MAC_SEQNO"
  have na: "neighbor_queue_from_addr a s1 = neighbor_queue_from_addr a s"
    unfolding neighbor_queue_from_addr_def find_nbq_ok o1(3,4) ..
  obtain n s2 where s2: "get_nbq co a s1 = (Some n, s2)"
  proof (cases "get_nbq co a s1")
    case (Pair x s2)
    show ?thesis
    proof (cases x)
      case None
      from get_nbq_None [OF Pair [unfolded None]] room na show ?thesis by (simp add: room_for_def full_iff o1(6))
    qed (use Pair that in blast)
  qed
  note g = get_nbq_ok [OF s2 o1(1)] and p2 = get_nbq_pending [OF s2 o1(1)]
  have pk1: "pk_ok s1" using o1(1) by (simp add: csma_ok_def)
  have pk2: "pk_ok s2" "n < N" "q_ok N {} s2" "packet_memb s2 = packet_memb s" "qpb s2 = qpb s1" "busy {n} s2" "armed {n} s2"
    "n \<in> set (neighbor_list s2)" "nq_addr (nbq n s2) = a" using g pk1 o1(5) by simp_all
  have len: "length (queue n s2) < mnum (packet_memb s2)"
    using queue_bound [OF pk2(3,2)] memb_numfree_used [of "packet_memb s"] room pk2(4) by (simp add: room_for_def)
  have sq: "pb_attrs (qpb s2) ATTR_MAC_SEQNO \<noteq> 0" using o1(2) pk2(5) by simp
  have fr: "memb_numfree (packet_memb s2) \<noteq> 0" "memb_numfree (bufmem s2) \<noteq> 0" using room pk2(4) p2(4) p1(3) by (simp_all add: room_for_def)
  with alloc_packet_returns [OF pk2(1)] obtain p s3 where s3: "alloc_packet s2 = Ok (Some p, s3)" by auto
  note al = alloc_packet_Some [OF s3 pk2(1) sq] and av = alloc_packet_view [OF s3 pk2(1) sq]
  define s4 where "s4 = fill_metadata co sent ptr p s3"
  have "p \<in> memb_used (packet_memb s3)" using al(2) by simp
  note f = fill_metadata_ok [OF al(1) this s4_def]
  obtain mm where s4: "s4 = s3\<lparr>metadata_memb := mm\<rparr>" using f(4) by blast
  have nb: "nbq k s4 = nbq k s2" "queue k s4 = queue k s2" for k using al(4) by (simp_all add: s4 nbq_def queue_def)
  have nl: "neighbor_list s4 = neighbor_list s2" "neighbor_memb s4 = neighbor_memb s2" "packet_memb s4 = packet_memb s3" "qpb s4 = qpb s1"
    using al(4-6) pk2(5) by (simp_all add: s4)
  have d: "memb_used (packet_memb s3) - {p} = memb_used (packet_memb s2)" using al(2,3) by auto
  have q4: "q_ok N {p} s4" using pk2(3) al(2) d unfolding q_ok_def nb nl by simp
  have b4: "busy {n} s4" using pk2(6) unfolding busy_def nb nl .
  have a4: "armed (if queue n s4 = [] then {n} else {}) s4"
  proof (cases "queue n s4 = []")
    case True
    then show ?thesis using pk2(7) unfolding armed_def nb nl by simp
  next
    case False
    then have "s2 = s1" using g nb by simp
    then show ?thesis using False o1(1) unfolding csma_ok_def armed_def nb nl by simp
  qed
  have n4: "n \<in> set (neighbor_list s4)" using pk2(8) nl by simp
  have "rdc_rnds s4 \<noteq> []" using s1(2) p2(3) al(11) by (simp add: s4)
  then obtain s5 where s5: "enqueue co n p s4 = Ok s5" using enqueue_returns by blast
  note e = enqueue_ok [OF s5 q4 f(1) b4 a4 n4]
  have run: "csma_send_packet co cb sent ptr s = Ok s5"
    using s5 s3 len s2 s1 unfolding csma_send_packet_def Let_def a [symmetric] queue_def s4_def by simp
  have used: "set (queue m s2) \<subseteq> memb_used (packet_memb s2)" if "m < N" for m using queued_used(1) [OF pk2(3) that] by blast
  have v2: "view s2 k = view s k" for k using view_cong [of k s2 s1] g p2(2) p1(6) by (simp add: pkt_def)
  have vk: "view s5 k = view s k" if "k \<in> memb_used (packet_memb s2)" for k
  proof -
    have "k \<noteq> p" "k \<in> memb_used (packet_memb s3)" using al(2,3) that by auto
    then show ?thesis using e(5) f(2) av(1) [OF that] v2 by simp
  qed
  have vp: "view s5 p = (Some (numbered ?v (packet_in (qpb s))), Some (new_metadata co sent ptr (qpb s)))"
  proof -
    have "fst (view s3 p) = Some (packet_in (qpb s1))" using av(2) [of p] pk2(5) by simp
    moreover have "packet_in (qpb s1) = numbered ?v (packet_in (qpb s))"
      using p1(4,5) by (auto simp: numbered_def packet_in_def fun_eq_iff)
    moreover have "new_metadata co sent ptr (qpb s3) = new_metadata co sent ptr (qpb s)"
      using p1(5) al(6) pk2(5) by (simp add: new_metadata_def packetbuf_attr_def)
    ultimately show ?thesis using e(5) f(3) by simp
  qed
  have "pending s5 = (pending s2)(a := map (view s5) (queue n s5))"
  proof (rule pending_upd [OF pk2(3)])
    show "q_ok N {} s5" using e(1) by (simp add: csma_ok_def)
    show "nq_addr (nbq n s5) = a" "\<And>m. nq_addr (nbq m s5) = nq_addr (nbq m s2)" using e(4) nb(1) pk2(9) by simp_all
    show "n \<in> set (neighbor_list s5)" "set (neighbor_list s2) \<subseteq> set (neighbor_list s5)" "set (neighbor_list s5) \<subseteq> insert n (set (neighbor_list s2))"
      using e(3) nl(1) pk2(8) by auto
    show "queue m s5 = queue m s2 \<and> (\<forall>p \<in> set (queue m s2). view s5 p = view s2 p)" if "m \<in> set (neighbor_list s2)" "m \<noteq> n" for m
      using e(2) [of m] nb(2) that vk v2 subsetD [OF used [OF q_ok_member [OF pk2(3) that(1)]]] by simp
  qed
  moreover have "map (view s5) (queue n s2) = pending s a"
  proof -
    have "map (view s5) (queue n s2) = map (view s1) (queue n s2)"
      using vk p1(6) subsetD [OF used [OF pk2(2)]] by (intro map_cong) simp_all
    then show ?thesis using p2(5) p1(1) by simp
  qed
  moreover have "packetbuf_attr ATTR_PACKET_TYPE (qpb s4) = PACKET_TYPE_ACK \<longleftrightarrow> ack"
    using p1(5) nl(4) by (simp add: ack_def packetbuf_attr_def)
  ultimately have "pending s5 = (pending s)(a := if ack then view s5 p # pending s a else pending s a @ [view s5 p])"
    using p1(1) p2(1) e(2) [of n] nb(2) by simp
  then show ?thesis
    using run e(1) o1(2) vp by (intro exI [of _ s5] exI [of _ ?v]) (simp add: Let_def)
qed

text \<open>The blocks in use and the queues, which a refused packet leaves alone.\<close>

definition same_load :: "'s csma_scheme \<Rightarrow> 's csma_scheme \<Rightarrow> bool" where
  "same_load s t \<longleftrightarrow> pending t = pending s \<and> neighbor_list t = neighbor_list s \<and>
     memb_used (neighbor_memb t) = memb_used (neighbor_memb s) \<and> memb_used (packet_memb t) = memb_used (packet_memb s) \<and>
     memb_used (metadata_memb t) = memb_used (metadata_memb s) \<and> held t = held s"

lemma release_neighbor_same [simp]:
  "nbq k (release_neighbor n s) = nbq k s" "queue k (release_neighbor n s) = queue k s" "view (release_neighbor n s) k = view s k"
  "held (release_neighbor n s) = held s" "packet_memb (release_neighbor n s) = packet_memb s" "metadata_memb (release_neighbor n s) = metadata_memb s"
  "neighbor_list (release_neighbor n s) = remove1 n (neighbor_list s)"
  "neighbor_memb (release_neighbor n s) = snd (memb_free (neighbor_memb s) n)"
  by (simp_all add: release_neighbor_def nbq_def queue_def view_def pkt_def held_def blk_of_def fun_eq_iff split: option.split)

lemma alloc_refused:
  assumes a: "alloc_packet s2 = Ok (None, s3)" and ok: "q_ok N {} s2" "pk_ok s2" "busy {n} s2" "armed {n} s2" "n < N"
    and q: "queue n s2 \<noteq> [] \<longrightarrow> armed {} s2" and sq: "pb_attrs (qpb s2) ATTR_MAC_SEQNO \<noteq> 0"
  defines "s4 \<equiv> (if queue n s3 = [] then release_neighbor n s3 else s3)"
  shows "csma_ok N s4" and "queue n s2 \<noteq> [] \<Longrightarrow> same_load s2 s4" and "queue n s2 = [] \<Longrightarrow> same_load (release_neighbor n s2) s4"
proof -
  note al = alloc_packet_None [OF a ok(2)] and av = alloc_packet_view(1) [OF a ok(2) sq]
  have nb: "nbq k s3 = nbq k s2" "queue k s3 = queue k s2" for k using al(6) by (simp_all add: nbq_def queue_def)
  have q3: "q_ok N {} s3" using ok(1) unfolding q_ok_def nb al(3,6,7) .
  have ba: "busy {n} s3" "armed {n} s3" "queue n s2 \<noteq> [] \<longrightarrow> armed {} s3" using ok(3,4) q unfolding busy_def armed_def nb al(7) by simp_all
  have used: "set (queue m s2) \<subseteq> memb_used (packet_memb s2)" if "m < N" for m using queued_used(1) [OF ok(1) that] by blast
  have v: "view s3 k = view s2 k" if "k \<in> set (queue m s2)" "m \<in> set (neighbor_list s2)" for k m
    using av used [OF q_ok_member [OF ok(1) that(2)]] that(1) by blast
  show "csma_ok N s4"
  proof (cases "queue n s3 = []")
    case True
    note r = release_neighbor_ok [OF q3 ok(5) True]
    show ?thesis using r(1,2) r(3) [of "{}"] r(4) [of "{}"] ba al(1) True by (simp add: s4_def csma_ok_def)
  next
    case False
    then show ?thesis using q3 ba al(1) nb by (auto simp: s4_def csma_ok_def busy_def)
  qed
  show "same_load s2 s4" if "queue n s2 \<noteq> []"
  proof -
    have "pending s3 = pending s2" by (rule pending_cong) (use nb al(7) v in simp_all)
    then show ?thesis using that al nb by (simp add: s4_def same_load_def)
  qed
  show "same_load (release_neighbor n s2) s4" if e: "queue n s2 = []"
  proof -
    have s4: "s4 = release_neighbor n s3" using e nb by (simp add: s4_def)
    have "pending s4 = pending (release_neighbor n s2)" unfolding s4
    proof (rule pending_cong)
      show "queue m (release_neighbor n s3) = queue m (release_neighbor n s2) \<and>
        (\<forall>p \<in> set (queue m (release_neighbor n s2)). view (release_neighbor n s3) p = view (release_neighbor n s2) p)"
        if "m \<in> set (neighbor_list (release_neighbor n s2))" for m
        using nb v that set_remove1_subset [of n "neighbor_list s2"] by auto
    qed (use nb al(7) in simp_all)
    then show ?thesis using al by (simp add: s4 same_load_def)
  qed
qed

lemma get_nbq_new:
  assumes "get_nbq co a s = (Some n, s')" and "csma_ok N s" and "queue n s' = []"
  shows "same_load s (release_neighbor n s')"
proof -
  note g = get_nbq_ok [OF assms(1,2)] and p = get_nbq_pending [OF assms(1,2)]
  have ok: "q_ok N {} s" "q_ok N {} s'" using assms(2) g by (simp_all add: csma_ok_def)
  have l: "neighbor_list s' = neighbor_list s @ [n]" "n \<notin> set (neighbor_list s)" using g assms(3) by auto
  let ?t = "release_neighbor n s'"
  have nl: "neighbor_list ?t = neighbor_list s" using l by (simp add: remove1_append)
  have nb: "nbq k ?t = nbq k s" "queue k ?t = queue k s" if "k \<in> set (neighbor_list s)" for k
    using g l(2) that by (auto simp: queue_def)
  have v: "view ?t k = view s k" for k
    using view_cong [of k s' s] g p by (simp add: pkt_def)
  have "pending ?t = pending s" by (rule pending_cong) (use nl nb v in simp_all)
  moreover have "memb_used (neighbor_memb ?t) = memb_used (neighbor_memb s)"
    using ok l memb_free_used [of "neighbor_memb s'" n] by (auto simp: q_ok_def)
  ultimately show ?thesis using g p nl by (simp add: same_load_def)
qed

lemma same_load_trans: "same_load r s \<Longrightarrow> same_load s t \<Longrightarrow> same_load r t"
  by (simp add: same_load_def)

lemma send_refused:
  assumes ok: "csma_ok N s" and r: "2 \<le> length (rdc_rnds s)" and a: "a = packetbuf_addr ADDR_RECEIVER (qpb s)" and room: "\<not> room_for a s"
  shows "\<exists>t. csma_send_packet co cb sent ptr s = mac_call_sent_callback cb sent ptr MAC_TX_ERR 1 t \<and> csma_ok N t \<and> same_load s t"
proof -
  obtain s1 where s1: "next_seqno s = Ok s1" "rdc_rnds s1 \<noteq> []" using next_seqno_returns [OF r] by blast
  note o1 = next_seqno_ok [OF s1(1) ok] and p1 = next_seqno_pending [OF s1(1)]
  have l1: "same_load s s1" by (simp add: same_load_def p1(1,2) o1(3,5-7))
  have na: "neighbor_queue_from_addr a s1 = neighbor_queue_from_addr a s"
    unfolding neighbor_queue_from_addr_def find_nbq_ok o1(3,4) ..
  obtain x s2 where s2: "get_nbq co a s1 = (x, s2)" by (cases "get_nbq co a s1")
  show ?thesis
  proof (cases x)
    case None
    then have "s2 = s1" using get_nbq_None s2 by blast
    then have "csma_send_packet co cb sent ptr s = mac_call_sent_callback cb sent ptr MAC_TX_ERR 1 s1"
      using s1 s2 None unfolding csma_send_packet_def Let_def a [symmetric] by simp
    then show ?thesis using o1(1) l1 by blast
  next
    case (Some n)
    note s2 = s2 [unfolded Some]
    note g = get_nbq_ok [OF s2 o1(1)] and p2 = get_nbq_pending [OF s2 o1(1)]
    have pk1: "pk_ok s1" using o1(1) by (simp add: csma_ok_def)
    have pk2: "pk_ok s2" "n < N" "q_ok N {} s2" "busy {n} s2" "armed {n} s2" and qp: "qpb s2 = qpb s1" "packet_memb s2 = packet_memb s"
      using g pk1 o1(5) by simp_all
    have old: "s2 = s1" if "queue n s2 \<noteq> []" using g that by blast
    have full: "memb_numfree (packet_memb s2) = 0 \<or> memb_numfree (bufmem s2) = 0"
    proof -
      have "neighbor_queue_from_addr a s \<noteq> None \<or> memb_numfree (neighbor_memb s) \<noteq> 0"
      proof (cases "neighbor_queue_from_addr a s1")
        case None
        then obtain m where "memb_alloc (neighbor_memb s1) = (Some n, m)" using s2 by (auto simp: get_nbq_def Let_def split: option.splits prod.splits)
        from memb_alloc_Some(1,2) [OF this] show ?thesis unfolding full_iff [symmetric] o1(6) by blast
      qed (use na in simp)
      then show ?thesis using room qp(2) p2(4) p1(3) by (auto simp: room_for_def)
    qed
    show ?thesis
    proof (cases "length (queue n s2) < mnum (packet_memb s2)")
      case False
      then have "queue n s2 \<noteq> []" using pk2(1) by (auto simp: pk_ok_def)
      then have "csma_send_packet co cb sent ptr s = mac_call_sent_callback cb sent ptr MAC_TX_ERR 1 s1"
        using s1 s2 False old unfolding csma_send_packet_def Let_def a [symmetric] queue_def by simp
      then show ?thesis using o1(1) l1 by blast
    next
      case True
      obtain s3 where s3: "alloc_packet s2 = Ok (None, s3)" using alloc_packet_returns [OF pk2(1)] full by auto
      let ?s4 = "if queue n s3 = [] then release_neighbor n s3 else s3"
      have "queue n s2 \<noteq> [] \<longrightarrow> armed {} s2" using old o1(1) by (auto simp: csma_ok_def)
      moreover have "pb_attrs (qpb s2) ATTR_MAC_SEQNO \<noteq> 0" using qp o1(2) by simp
      ultimately have r: "csma_ok N ?s4" "queue n s2 \<noteq> [] \<Longrightarrow> same_load s2 ?s4" "queue n s2 = [] \<Longrightarrow> same_load (release_neighbor n s2) ?s4"
        using alloc_refused [OF s3 pk2(3,1,4,5,2)] by blast+
      have "csma_send_packet co cb sent ptr s = mac_call_sent_callback cb sent ptr MAC_TX_ERR 1 ?s4"
        using s1 s2 s3 True unfolding csma_send_packet_def Let_def a [symmetric] queue_def by simp
      moreover have "same_load s1 ?s4" using r(2,3) old get_nbq_new [OF s2 o1(1)] same_load_trans by metis
      ultimately show ?thesis using r(1) same_load_trans [OF l1] by blast
    qed
  qed
qed

section \<open>The reachable states\<close>

lemma send_ok:
  assumes "csma_send_packet co cb sent ptr s = Ok s'" and "csma_ok N s" and "upper_ok N cb" and "2 \<le> length (rdc_rnds s)"
  shows "csma_ok N s'"
proof (cases "room_for (packetbuf_addr ADDR_RECEIVER (qpb s)) s")
  case True
  from send_accepted [OF assms(2,4) refl this, of co cb sent ptr] assms(1) show ?thesis by auto
next
  case False
  from send_refused [OF assms(2,4) refl this, of co cb sent ptr] obtain t where
    "mac_call_sent_callback cb sent ptr MAC_TX_ERR 1 t = Ok s'" "csma_ok N t" using assms(1) by auto
  then show ?thesis using call_sent_ok [OF assms(3)] by blast
qed

lemma csma_init_ok:
  assumes "qnet_ok s" and "neighbor_list s = []" and "mnum (packet_memb s) = mnum (metadata_memb s)" and "mcount (packet_memb s) \<noteq> []"
  shows "csma_ok (mnum (neighbor_memb s)) (csma_init s)"
proof -
  let ?t = "csma_init s" and ?N = "mnum (neighbor_memb s)"
  have u: "memb_used (neighbor_memb ?t) = {}" "memb_used (packet_memb ?t) = {}" "memb_used (metadata_memb ?t) = {}"
    "memb_ok (neighbor_memb ?t)" "memb_ok (packet_memb ?t)" "memb_ok (metadata_memb ?t)" "neighbor_list ?t = []"
    using assms(2) by (simp_all add: csma_init_def memb_init_ok memb_init_used)
  have m: "mnum (neighbor_memb ?t) = ?N" "mnum (packet_memb ?t) = mnum (packet_memb s)" "mnum (metadata_memb ?t) = mnum (metadata_memb s)"
    by (simp_all add: csma_init_def memb_init_def)
  have Q: "queue n ?t = []" if "n < ?N" for n
    using that by (simp add: csma_init_def queue_def nbq_def memb_init_def neighbor_zero_def)
  have "queues_ok ?N (\<lambda>n. queue n ?t) (\<lambda>n. nq_addr (nbq n ?t)) [] {}" using Q by (simp add: queues_ok_def)
  then have "q_ok ?N {} ?t" using u m by (simp add: q_ok_def)
  moreover have "qnet_ok ?t" using qnet_ok_cong(1) [of ?t s] assms(1) by (simp add: csma_init_def)
  then have "pk_ok ?t" using u m assms(3,4) no_blocks [OF m(2)] by (simp add: pk_ok_def)
  ultimately show ?thesis using u(7) by (simp add: csma_ok_def busy_def armed_def)
qed

text \<open>
  The events of the layer: a packet is given to it, the timer of a neighbour fires, and the layers above and
  below use the packet buffer, the radio and the random numbers.
\<close>

inductive csma_reach :: "csma_opts \<Rightarrow> framer_opts \<Rightarrow> 's csma_scheme upper \<Rightarrow> 's csma_scheme \<Rightarrow> 's csma_scheme \<Rightarrow> bool"
  for co fo cb s0 where
  start: "csma_reach co fo cb s0 (csma_init s0)"
| send: "csma_reach co fo cb s0 s \<Longrightarrow> 2 \<le> length (rdc_rnds s) \<Longrightarrow> csma_send_packet co cb sent ptr s = Ok s' \<Longrightarrow> csma_reach co fo cb s0 s'"
| fire: "csma_reach co fo cb s0 s \<Longrightarrow> n \<in> set (neighbor_list s) \<Longrightarrow> transmit_timer (nbq n s) \<noteq> None \<Longrightarrow>
    csma_timer_fires co fo cb rs n s = Ok s' \<Longrightarrow> csma_reach co fo cb s0 s'"
| around: "csma_reach co fo cb s0 s \<Longrightarrow> pbuf_ok b \<Longrightarrow>
    csma_reach co fo cb s0 (s\<lparr>rdc_framer := fs, rdc_rnds := rs, qpb := b, rdc_air := air\<rparr>)"

lemma csma_reach_ok:
  assumes "csma_reach co fo cb s0 s" and "csma_ok N (csma_init s0)" and "upper_ok N cb"
  shows "csma_ok N s"
  using assms(1)
proof (induction rule: csma_reach.induct)
  case start
  show ?case by (fact assms(2))
next
  case (send s sent ptr s')
  then show ?case using send_ok assms(3) by blast
next
  case (fire s n rs s')
  then show ?case using timer_fires_ok assms(3) by blast
next
  case (around s b fs rs air)
  then show ?case using csma_below by blast
qed

lemma UN_eq_drop: "A \<subseteq> B \<Longrightarrow> (\<And>x. x \<in> B \<Longrightarrow> x \<notin> A \<Longrightarrow> f x = {}) \<Longrightarrow> (\<Union>x \<in> B. f x) = (\<Union>x \<in> A. f x)"
  by blast

lemma q_ok_sets:
  assumes "q_ok N {} s"
  shows "memb_used (neighbor_memb s) = set (neighbor_list s)" and "inj_on (\<lambda>n. nq_addr (nbq n s)) (set (neighbor_list s))"
    and "memb_used (packet_memb s) = (\<Union>n \<in> set (neighbor_list s). set (queued_packet_list (nbq n s)))"
proof -
  have q: "queues_ok N (\<lambda>n. queue n s) (\<lambda>n. nq_addr (nbq n s)) (neighbor_list s) (memb_used (packet_memb s))" using assms by (simp add: q_ok_def)
  then show "inj_on (\<lambda>n. nq_addr (nbq n s)) (set (neighbor_list s))" by (simp add: queues_ok_def)
  show "memb_used (neighbor_memb s) = set (neighbor_list s)" using assms by (simp add: q_ok_def)
  have "(\<Union>n < N. set (queue n s)) = (\<Union>n \<in> set (neighbor_list s). set (queue n s))"
  proof (rule UN_eq_drop)
    show "set (neighbor_list s) \<subseteq> {..<N}" using q by (simp add: queues_ok_def)
    show "set (queue n s) = {}" if "n \<in> {..<N}" "n \<notin> set (neighbor_list s)" for n using q that by (simp add: queues_ok_def)
  qed
  then show "memb_used (packet_memb s) = (\<Union>n \<in> set (neighbor_list s). set (queued_packet_list (nbq n s)))"
    using q by (simp add: queues_ok_def queue_def)
qed

lemma pk_ok_sets:
  assumes "pk_ok s"
  shows "card (memb_used (metadata_memb s)) = card (memb_used (packet_memb s))"
    and "\<forall>p \<in> memb_used (packet_memb s). \<exists>b x. rb_buf (pkt p s) = Some b \<and> held s b = Some x"
    and "inj_on (\<lambda>p. rb_buf (pkt p s)) (memb_used (packet_memb s))"
proof -
  have e: "(\<lambda>p. rb_ptr (pkt p s)) ` memb_used (packet_memb s) = Some ` memb_used (metadata_memb s)"
    "inj_on (\<lambda>p. rb_ptr (pkt p s)) (memb_used (packet_memb s))" using assms by (simp_all add: pk_ok_def)
  show "card (memb_used (metadata_memb s)) = card (memb_used (packet_memb s))"
    using card_image [OF e(2)] card_image [of Some "memb_used (metadata_memb s)"] e(1) by simp
  show "inj_on (\<lambda>p. rb_buf (pkt p s)) (memb_used (packet_memb s))" using assms by (simp add: pk_ok_def)
  show "\<forall>p \<in> memb_used (packet_memb s). \<exists>b x. rb_buf (pkt p s) = Some b \<and> held s b = Some x"
  proof
    fix p
    assume "p \<in> memb_used (packet_memb s)"
    then obtain b m bs attrs addrs where "pkt p s = \<lparr>rb_buf = Some b, rb_ptr = Some m\<rparr>" "held s b = Some (bs, attrs, addrs)"
      "attrs ATTR_MAC_SEQNO \<noteq> 0" "b \<in> memb_used (bufmem s)" "qnet_ok s" by (rule pk_ok_packet [OF assms])
    then show "\<exists>b x. rb_buf (pkt p s) = Some b \<and> held s b = Some x" by simp
  qed
qed

section \<open>Queues of packets\<close>

text \<open>
  What a layer that gives packets to medium access relies on: while there is room a packet joins the queue of its
  receiver, at the end or, when it is urgent, at the front.
\<close>

locale packet_queues =
  fixes invar :: "'s \<Rightarrow> bool"
    and ready :: "'s \<Rightarrow> bool"
    and contents :: "'s \<Rightarrow> 'a \<Rightarrow> 'q list"
    and room :: "'a \<Rightarrow> 's \<Rightarrow> bool"
    and dest :: "'s \<Rightarrow> 'a"
    and urgent :: "'s \<Rightarrow> bool"
    and stored :: "'s \<Rightarrow> 'q \<Rightarrow> bool"
    and send :: "'s \<Rightarrow> 's res"
  assumes accepted: "invar s \<Longrightarrow> ready s \<Longrightarrow> room (dest s) s \<Longrightarrow>
    \<exists>s' x. send s = Ok s' \<and> invar s' \<and> stored s x \<and>
      contents s' = (contents s)(dest s := if urgent s then x # contents s (dest s) else contents s (dest s) @ [x])"
begin

lemma nothing_overtaken:
  assumes "invar s" and "ready s" and "room (dest s) s"
  shows "\<exists>s'. send s = Ok s' \<and> (\<forall>a. subseq (contents s a) (contents s' a)) \<and>
    length (contents s' (dest s)) = Suc (length (contents s (dest s)))"
  using accepted [OF assms] by (auto simp: subseq_rev_drop_many)

lemma two_in_order:
  assumes "invar s" and "ready s" and "room (dest s) s" and "\<not> urgent s" and "send s = Ok s1"
    and "ready (f s1)" and "room (dest (f s1)) (f s1)" and "\<not> urgent (f s1)" and "dest (f s1) = dest s"
    and "\<And>s. invar s \<Longrightarrow> invar (f s) \<and> contents (f s) = contents s"
  shows "\<exists>s2 x y. send (f s1) = Ok s2 \<and> stored s x \<and> stored (f s1) y \<and> contents s2 (dest s) = contents s (dest s) @ [x, y]"
proof -
  obtain x where x: "invar s1" "stored s x" "contents s1 = (contents s)(dest s := contents s (dest s) @ [x])"
    using accepted [OF assms(1-3)] assms(4,5) by auto
  then have i: "invar (f s1)" "contents (f s1) = contents s1" using assms(10) by blast+
  from accepted [OF i(1) assms(6,7)] assms(8) obtain s2 y where "send (f s1) = Ok s2" "stored (f s1) y"
    "contents s2 = (contents (f s1))(dest (f s1) := contents (f s1) (dest (f s1)) @ [y])" by auto
  then show ?thesis using x i(2) assms(9) by auto
qed

end

definition stored_as :: "csma_opts \<Rightarrow> nat option \<Rightarrow> nat \<Rightarrow> 's csma_scheme \<Rightarrow> queued \<Rightarrow> bool" where
  "stored_as co sent ptr s x \<longleftrightarrow>
     (\<exists>v. v \<noteq> 0 \<and> x = (Some (numbered v (packet_in (qpb s))), Some (new_metadata co sent ptr (qpb s))))"

interpretation cq: packet_queues "csma_ok N" "\<lambda>s. 2 \<le> length (rdc_rnds s)" pending room_for
  "\<lambda>s. packetbuf_addr ADDR_RECEIVER (qpb s)" "\<lambda>s. packetbuf_attr ATTR_PACKET_TYPE (qpb s) = PACKET_TYPE_ACK"
  "stored_as co sent ptr" "csma_send_packet co cb sent ptr"
proof
  fix s :: "'a csma_scheme"
  assume a: "csma_ok N s" "2 \<le> length (rdc_rnds s)" "room_for (packetbuf_addr ADDR_RECEIVER (qpb s)) s"
  show "\<exists>s' x. csma_send_packet co cb sent ptr s = Ok s' \<and> csma_ok N s' \<and> stored_as co sent ptr s x \<and>
      pending s' = (pending s)(packetbuf_addr ADDR_RECEIVER (qpb s) :=
        if packetbuf_attr ATTR_PACKET_TYPE (qpb s) = PACKET_TYPE_ACK then x # pending s (packetbuf_addr ADDR_RECEIVER (qpb s))
        else pending s (packetbuf_addr ADDR_RECEIVER (qpb s)) @ [x])"
    using send_accepted [OF a(1,2) refl a(3), of co cb sent ptr] unfolding Let_def stored_as_def by blast
qed

section \<open>Properties\<close>

text \<open>
  C16: The queues of medium access never leak and never stall. In every state that is reachable by giving it packets,
  by timers that fire with any results of the radio and by whatever happens to the packet buffer meanwhile, the neighbours in use are
  those on the list, with different addresses; each has a packet and a running timer; every packet in use is in one
  queue; and there are as many metadata blocks in use as packets, each packet with a stored copy of its own. The callback of
  the layer above may do anything that keeps this.\<close>

theorem csma_never_stalls:
  assumes "csma_reach co fo cb s0 s" and "qnet_ok s0" and "neighbor_list s0 = []" and "mnum (packet_memb s0) = mnum (metadata_memb s0)"
    and "mcount (packet_memb s0) \<noteq> []" and "upper_ok (mnum (neighbor_memb s0)) cb"
  shows "memb_used (neighbor_memb s) = set (neighbor_list s) \<and> inj_on (\<lambda>n. nq_addr (nbq n s)) (set (neighbor_list s)) \<and>
    (\<forall>n \<in> set (neighbor_list s). queued_packet_list (nbq n s) \<noteq> [] \<and> transmit_timer (nbq n s) \<noteq> None) \<and>
    memb_used (packet_memb s) = (\<Union>n \<in> set (neighbor_list s). set (queued_packet_list (nbq n s))) \<and>
    card (memb_used (metadata_memb s)) = card (memb_used (packet_memb s)) \<and>
    (\<forall>p \<in> memb_used (packet_memb s). \<exists>b x. rb_buf (pkt p s) = Some b \<and> held s b = Some x) \<and>
    inj_on (\<lambda>p. rb_buf (pkt p s)) (memb_used (packet_memb s))"
proof -
  let ?N = "mnum (neighbor_memb s0)"
  have "csma_ok ?N s" by (rule csma_reach_ok [OF assms(1) csma_init_ok [OF assms(2-5)] assms(6)])
  then have ok: "q_ok ?N {} s" "pk_ok s" "busy {} s" "armed {} s" by (simp_all add: csma_ok_def)
  show ?thesis using q_ok_sets [OF ok(1)] pk_ok_sets [OF ok(2)] ok(3,4) by (simp add: busy_def armed_def queue_def)
qed

definition demo_csma :: csma where
  "demo_csma = \<lparr>qpb = \<lparr>pb_data = [7, 8, 9] @ replicate 125 0, pb_buflen = 2, pb_bufptr = 0, pb_hdrlen = 1,
     pb_attrs = (\<lambda>_. 0), pb_addrs = (\<lambda>_. 69)\<rparr>, bufmem = memb_init qbuf_zero \<lparr>mcount = [0, 0], mmem = []\<rparr>,
     buframmem = memb_init qbuf_data_zero \<lparr>mcount = [0, 0], mmem = []\<rparr>,
     rdc_framer = demo_framer, rdc_rnds = [300, 17, 4, 9], rdc_air = [], rdc_on = True, linkaddr_node_addr = 70,
     neighbor_memb = \<lparr>mcount = [0], mmem = []\<rparr>, packet_memb = \<lparr>mcount = [0, 0], mmem = []\<rparr>,
     metadata_memb = \<lparr>mcount = [0, 0], mmem = []\<rparr>, neighbor_list = [], csma_initialized = False, csma_seqno = 0\<rparr>"

lemma demo_csma_ok: "qnet_ok demo_csma" "csma_ok 1 (csma_init demo_csma)"
proof -
  have "qbuf_init demo_csma = demo_csma" by (simp add: qbuf_init_def demo_csma_def memb_init_def)
  then show q: "qnet_ok demo_csma" using qbuf_init_ok [of demo_csma] by (simp add: demo_csma_def pbuf_ok_def memb_init_def)
  show "csma_ok 1 (csma_init demo_csma)" using csma_init_ok [OF q] by (simp add: demo_csma_def)
qed

lemma demo_csma_sends:
  "\<exists>s1. csma_send_packet csync_csma cb (Some 4) 5 (csma_init demo_csma) = Ok s1 \<and> csma_ok 1 s1 \<and>
     neighbor_list s1 = [0] \<and> 2 \<le> length (rdc_rnds s1) \<and> memb_numfree (neighbor_memb s1) = 0 \<and> nq_addr (nbq 0 s1) = 69 \<and>
     queue 0 s1 = [0] \<and> transmissions (nbq 0 s1) = 0 \<and> collisions (nbq 0 s1) = 0 \<and> pbuf_ok (qpb s1) \<and>
     snd (view s1 0) = Some \<lparr>md_sent = Some 4, md_cptr = 5, max_transmissions = 3\<rparr>"
proof -
  let ?s = "csma_init demo_csma"
  have r: "2 \<le> length (rdc_rnds ?s)" "room_for (packetbuf_addr ADDR_RECEIVER (qpb ?s)) ?s" by code_simp+
  from send_accepted [OF demo_csma_ok(2) r(1) refl r(2)] obtain s1 where
    s1: "csma_send_packet csync_csma cb (Some 4) 5 ?s = Ok s1" "csma_ok 1 s1" by blast
  have "case csma_send_packet csync_csma cb (Some 4) 5 ?s of Ok s1 \<Rightarrow>
      neighbor_list s1 = [0] \<and> 2 \<le> length (rdc_rnds s1) \<and> memb_numfree (neighbor_memb s1) = 0 \<and> nq_addr (nbq 0 s1) = 69 \<and>
      queue 0 s1 = [0] \<and> transmissions (nbq 0 s1) = 0 \<and> collisions (nbq 0 s1) = 0 \<and>
      snd (view s1 0) = Some \<lparr>md_sent = Some 4, md_cptr = 5, max_transmissions = 3\<rparr>
    | Fault _ \<Rightarrow> False" by code_simp
  then show ?thesis using s1 by (simp add: csma_ok_def pk_ok_def qnet_ok_def)
qed

lemma silent_upper_ok: "upper_ok N (\<lambda>f ptr st k s. Ok s)"
  by (simp add: upper_ok_def)

theorem csma_never_stalls_witness:
  "case csma_send_packet csync_csma (\<lambda>f ptr st k s. Ok s) (Some 4) 5 (csma_init demo_csma) of
     Ok s \<Rightarrow> neighbor_list s = [0] \<and> transmit_timer (nbq 0 s) \<noteq> None \<and> card (memb_used (metadata_memb s)) = card (memb_used (packet_memb s))
   | Fault _ \<Rightarrow> False"
proof -
  obtain s where s: "csma_send_packet csync_csma (\<lambda>f ptr st k s. Ok s) (Some 4) 5 (csma_init demo_csma) = Ok s" "neighbor_list s = [0]"
    using demo_csma_sends [of "\<lambda>f ptr st k s. Ok s"] by blast
  have "csma_reach csync_csma demo_framer_opts (\<lambda>f ptr st k s. Ok s) demo_csma s"
    by (rule csma_reach.send [OF csma_reach.start _ s(1)]) code_simp
  from csma_never_stalls [OF this demo_csma_ok(1) _ _ _ silent_upper_ok] s show ?thesis
    by (simp add: demo_csma_def)
qed

text \<open>
  C17: While there is room, a packet that is given to medium access is queued: it is stored with the contents, addresses and
  attributes of the packet buffer, a sequence number that is not zero and the callback of the caller; it joins the
  queue of its receiver at the end, an acknowledgement at the front; the queues of all other receivers are unchanged, and no packet
  that was queued before changes its place relative to another.\<close>

theorem csma_send_accepts:
  assumes "csma_ok N s" and "2 \<le> length (rdc_rnds s)" and "room_for (packetbuf_addr ADDR_RECEIVER (qpb s)) s"
  shows "\<exists>s' x. csma_send_packet co cb sent ptr s = Ok s' \<and> csma_ok N s' \<and> stored_as co sent ptr s x \<and>
    pending s' = (pending s)(packetbuf_addr ADDR_RECEIVER (qpb s) :=
      if packetbuf_attr ATTR_PACKET_TYPE (qpb s) = PACKET_TYPE_ACK then x # pending s (packetbuf_addr ADDR_RECEIVER (qpb s))
      else pending s (packetbuf_addr ADDR_RECEIVER (qpb s)) @ [x]) \<and>
    (\<forall>a. subseq (pending s a) (pending s' a))"
  using cq.accepted [OF assms, of co cb sent ptr] cq.nothing_overtaken [OF assms, of co cb sent ptr] by fastforce

theorem csma_send_accepts_witness:
  "case csma_send_packet csync_csma (\<lambda>f ptr st k s. Ok s) (Some 4) 5 (csma_init demo_csma) of
     Ok s \<Rightarrow> map (fst \<circ> the \<circ> fst) (pending s 69) = [[7, 8, 9]] | Fault _ \<Rightarrow> False"
proof -
  let ?s = "csma_init demo_csma"
  have r: "2 \<le> length (rdc_rnds ?s)" "room_for (packetbuf_addr ADDR_RECEIVER (qpb ?s)) ?s" by code_simp+
  from csma_send_accepts [OF demo_csma_ok(2) r, of csync_csma "\<lambda>f ptr st k s. Ok s" "Some 4" 5] obtain s' x where
    s': "csma_send_packet csync_csma (\<lambda>f ptr st k s. Ok s) (Some 4) 5 ?s = Ok s'" and x: "stored_as csync_csma (Some 4) 5 ?s x"
    and p: "pending s' = (pending ?s)(packetbuf_addr ADDR_RECEIVER (qpb ?s) :=
      if packetbuf_attr ATTR_PACKET_TYPE (qpb ?s) = PACKET_TYPE_ACK then x # pending ?s (packetbuf_addr ADDR_RECEIVER (qpb ?s))
      else pending ?s (packetbuf_addr ADDR_RECEIVER (qpb ?s)) @ [x])" by blast
  have c: "packetbuf_addr ADDR_RECEIVER (qpb ?s) = 69" "packetbuf_attr ATTR_PACKET_TYPE (qpb ?s) \<noteq> PACKET_TYPE_ACK" "pending ?s 69 = []"
    "fst (packet_in (qpb ?s)) = [7, 8, 9]" by code_simp+
  then have "map (fst \<circ> the \<circ> fst) (pending s' 69) = [[7, 8, 9]]" using x p by (auto simp: stored_as_def numbered_bytes)
  then show ?thesis using s' by simp
qed

text \<open>
  C18: Without room for it a packet is refused: the layer above gets exactly one report, \<open>MAC_TX_ERR\<close> after one transmission, and gets it in a
  state in which every queue, the list of neighbours, the stored packets and the blocks in use of all pools are as they were before. What was
  allocated on the way has been given back.\<close>

theorem csma_send_refuses:
  assumes "csma_ok N s" and "2 \<le> length (rdc_rnds s)" and "\<not> room_for (packetbuf_addr ADDR_RECEIVER (qpb s)) s"
  shows "\<exists>t. csma_send_packet co cb sent ptr s = mac_call_sent_callback cb sent ptr MAC_TX_ERR 1 t \<and> csma_ok N t \<and>
    pending t = pending s \<and> neighbor_list t = neighbor_list s \<and> held t = held s \<and>
    memb_used (neighbor_memb t) = memb_used (neighbor_memb s) \<and> memb_used (packet_memb t) = memb_used (packet_memb s) \<and>
    memb_used (metadata_memb t) = memb_used (metadata_memb s)"
  using send_refused [OF assms(1,2) refl assms(3), of co cb sent ptr] unfolding same_load_def by blast

theorem csma_send_refuses_witness:
  "case csma_send_packet csync_csma (\<lambda>f ptr st k s. Fault EnvExhausted) (Some 4) 5 (csma_init demo_csma) of
     Ok s \<Rightarrow> csma_send_packet csync_csma (\<lambda>f ptr st k s. if st = MAC_TX_ERR \<and> f = 4 then Fault EnvExhausted else Ok s) (Some 4) 5
       (s\<lparr>qpb := packetbuf_set_addr ADDR_RECEIVER 80 (qpb s)\<rparr>) = Fault EnvExhausted
   | Fault _ \<Rightarrow> False"
proof -
  obtain s where s: "csma_send_packet csync_csma (\<lambda>f ptr st k s. Fault EnvExhausted) (Some 4) 5 (csma_init demo_csma) = Ok s"
    "csma_ok 1 s" "neighbor_list s = [0]" "2 \<le> length (rdc_rnds s)" "memb_numfree (neighbor_memb s) = 0" "nq_addr (nbq 0 s) = 69" "pbuf_ok (qpb s)"
    using demo_csma_sends [of "\<lambda>f ptr st k s. Fault EnvExhausted"] by blast
  let ?b = "packetbuf_set_addr ADDR_RECEIVER 80 (qpb s)"
  let ?t = "s\<lparr>qpb := ?b\<rparr>"
  have b: "pbuf_ok ?b" using s(7) by (simp add: pbuf_ok_def packetbuf_set_addr_def)
  have "csma_ok 1 (s\<lparr>rdc_framer := rdc_framer s, rdc_rnds := rdc_rnds s, qpb := ?b, rdc_air := rdc_air s\<rparr>)" by (rule csma_below [OF s(2) b])
  then have ok: "csma_ok 1 ?t" by simp
  have "\<not> room_for (packetbuf_addr ADDR_RECEIVER (qpb ?t)) ?t"
    using s(3,5,6) by (simp add: room_for_def neighbor_queue_from_addr_def packetbuf_addr_def packetbuf_set_addr_def)
  with csma_send_refuses [OF ok, of csync_csma "\<lambda>f ptr st k s. if st = MAC_TX_ERR \<and> f = 4 then Fault EnvExhausted else Ok s" "Some 4" 5] s(1,4)
  show ?thesis by (auto simp: mac_call_sent_callback_def)
qed

end
