(* ===== verification/Csma_Attempt_Laws.thy ===== *)
theory Csma_Attempt_Laws
  imports Csma_Send_Laws
begin

text \<open>
  The attempts to send a packet: which packet the radio gets, what a failed attempt leaves behind, and how many
  there can be before the layer above gets a report.
\<close>

section \<open>One attempt\<close>

lemma release_packet_view:
  assumes "pk_ok s" and "p \<in> memb_used (packet_memb s)" and k: "k \<in> memb_used (packet_memb s)" "k \<noteq> p"
  shows "view (release_packet p s) k = view s k"
proof -
  obtain b m bs attrs addrs where p: "pkt p s = \<lparr>rb_buf = Some b, rb_ptr = Some m\<rparr>" "held s b = Some (bs, attrs, addrs)"
    "attrs ATTR_MAC_SEQNO \<noteq> 0" "b \<in> memb_used (bufmem s)" "qnet_ok s" by (rule pk_ok_packet [OF assms(1,2)])
  from release_packet_eq [OF assms(1,2) p(1)] obtain x y where f: "qbuf_free b s = s\<lparr>bufmem := x, buframmem := y\<rparr>" and
    t: "release_packet p s = s\<lparr>bufmem := x, buframmem := y, metadata_memb := snd (memb_free (metadata_memb s) m),
      packet_memb := snd (memb_free (packet_memb s) p)\<rparr>" by blast
  have h: "held (release_packet p s) = (held s)(b := None)"
    using qbuf_free_ok(2) [OF p(5,4)] qnet_ok_cong(2) [of "release_packet p s" "qbuf_free b s"] by (simp add: t f)
  have pk: "pkt k (release_packet p s) = pkt k s" "mmem (metadata_memb (release_packet p s)) = mmem (metadata_memb s)" by (simp_all add: t pkt_def)
  have "inj_on (\<lambda>p. rb_buf (pkt p s)) (memb_used (packet_memb s))" using assms(1) by (simp add: pk_ok_def)
  from inj_onD [OF this _ k(1) assms(2)] have "rb_buf (pkt k s) \<noteq> Some b" using k(2) p(1) by auto
  then show ?thesis by (simp add: view_def pk h split: option.split)
qed

lemma pending_drop:
  assumes ok: "q_ok N X s" "q_ok N Y t" and n: "n \<in> set (neighbor_list s)" "nq_addr (nbq n s) = a" and nl: "neighbor_list t = remove1 n (neighbor_list s)"
    and same: "\<And>m. m \<in> set (neighbor_list s) \<Longrightarrow> nq_addr (nbq m t) = nq_addr (nbq m s)"
    "\<And>m. m \<in> set (neighbor_list s) \<Longrightarrow> m \<noteq> n \<Longrightarrow> queue m t = queue m s \<and> (\<forall>p \<in> set (queue m s). view t p = view s p)"
  shows "pending t = (pending s)(a := [])"
proof
  fix a'
  have d: "set (neighbor_list t) = set (neighbor_list s) - {n}" using ok(1) nl by (simp add: q_ok_def queues_ok_def)
  show "pending t a' = ((pending s)(a := [])) a'"
  proof (cases "neighbor_queue_from_addr a' t")
    case None
    have "neighbor_queue_from_addr a' s = None" if "a' \<noteq> a"
      using None d same(1) n(2) that unfolding from_addr_None by auto
    then show ?thesis using None by (simp add: pending_def)
  next
    case (Some m)
    then have m: "m \<in> set (neighbor_list s)" "m \<noteq> n" "nq_addr (nbq m s) = a'" using from_addr_Some [OF Some] d same(1) by auto
    then have s: "neighbor_queue_from_addr a' s = Some m" using from_addr_iff [OF ok(1) m(1)] by blast
    moreover have "a' \<noteq> a" using s m(2) n from_addr_iff [OF ok(1) n(1), of a] by auto
    ultimately show ?thesis using Some same(2) [OF m(1,2)] by (simp add: pending_def)
  qed
qed

text \<open>The first packet of a queue goes; the queue goes with its last packet.\<close>

lemma free_packet_pending:
  assumes run: "free_packet co n p s = Ok s'" and ok: "sending_ok N n s" and q: "queue n s = p # ps"
  shows "csma_ok N s'" and "pending s' = (pending s)(nq_addr (nbq n s) := map (view s) ps)"
proof -
  have o: "q_ok N {} s" "pk_ok s" "busy {} s" "armed {n} s" "n < N" using ok by (simp_all add: sending_ok_def)
  have pq: "p \<in> set (queue n s)" using q by simp
  show c: "csma_ok N s'" by (rule free_packet_ok(1) [OF run o(1-5) pq])
  let ?a = "nq_addr (nbq n s)"
  let ?u = "upd_nbq n (\<lambda>q. q\<lparr>queued_packet_list := remove1 p (queued_packet_list q)\<rparr>) s"
  note u = unqueue_ok [OF o(1,5) pq, simplified]
  have n: "n \<in> set (neighbor_list s)" and pu: "p \<in> memb_used (packet_memb s)" using queued_used [OF o(1,5) pq] by simp_all
  have l: "n < length (mmem (neighbor_memb s))" by (rule q_ok_block [OF o(1,5)])
  define t where "t = release_packet p ?u"
  note r = release_packet_ok [of ?u p, folded t_def]
  have r: "neighbor_list t = neighbor_list s" "nbq m t = nbq m ?u" "neighbor_memb t = neighbor_memb ?u" for m
    using release_packet_ok [of ?u p, folded t_def] o(2) pu by simp_all
  have Q: "queue n t = ps" "m \<noteq> n \<Longrightarrow> queue m t = queue m s" "nq_addr (nbq m t) = nq_addr (nbq m s)" for m
    using u(2,3) q r(2) l by (simp_all add: queue_def)
  have V: "view t k = view s k" if "k \<in> memb_used (packet_memb s)" "k \<noteq> p" for k
  proof -
    have "view t k = view ?u k" unfolding t_def by (rule release_packet_view) (use o(2) pu that in simp_all)
    also have "\<dots> = view s k" by (rule view_cong) simp_all
    finally show ?thesis .
  qed
  have dis: "set (queue m s) \<inter> set (queue n s) = {}" "set (queue m s) \<subseteq> memb_used (packet_memb s)" if "m < N" "m \<noteq> n" for m
    using o(1,5) that queued_used(1) [OF o(1) that(1)] unfolding q_ok_def queues_ok_def by blast+
  have Vm: "view t k = view s k" if "k \<in> set (queue m s)" "m \<in> set (neighbor_list s)" "m \<noteq> n" for k m
    using V dis [OF q_ok_member [OF o(1) that(2)] that(3)] that(1) q by auto
  have Vn: "map (view t) ps = map (view s) ps"
  proof -
    have "distinct (queue n s)" using o(1,5) by (simp add: q_ok_def queues_ok_def)
    then have "p \<notin> set ps" using q by simp
    then show ?thesis using V queued_used(1) [OF o(1,5)] q by (intro map_cong) auto
  qed
  have run': "(if queue n t \<noteq> []
         then schedule_transmission co n (upd_nbq n (\<lambda>q. q\<lparr>transmissions := 0, collisions := CSMA_MIN_BE co\<rparr>) t)
         else Ok (release_neighbor n (upd_nbq n (\<lambda>q. q\<lparr>transmit_timer := None\<rparr>) t))) = Ok s'"
    using run by (simp add: free_packet_def Let_def t_def [symmetric] queue_def)
  have lt: "n < length (mmem (neighbor_memb t))" using l r(3) by simp
  have ok': "q_ok N {} s'" using c by (simp add: csma_ok_def)
  show "pending s' = (pending s)(?a := map (view s) ps)"
  proof (cases "queue n t = []")
    case False
    then obtain d rs where s': "s' = upd_nbq n (\<lambda>q. q\<lparr>transmit_timer := Some d\<rparr>)
        (upd_nbq n (\<lambda>q. q\<lparr>transmissions := 0, collisions := CSMA_MIN_BE co\<rparr>) t\<lparr>rdc_rnds := rs\<rparr>)"
      using run' schedule_eq by fastforce
    have f: "queue m s' = queue m t" "nq_addr (nbq m s') = nq_addr (nbq m t)" "neighbor_list s' = neighbor_list t" for m
      using lt by (simp_all add: s' queue_def)
    have v: "view s' k = view t k" for k by (rule view_cong) (simp_all add: s')
    have "pending s' = (pending s)(?a := map (view s') (queue n s'))"
      by (rule pending_upd [OF o(1) ok']) (use f Q r(1) n v Vm in auto)
    then show ?thesis using f Q(1) v Vn by (simp cong: map_cong)
  next
    case True
    then have s': "s' = release_neighbor n (upd_nbq n (\<lambda>q. q\<lparr>transmit_timer := None\<rparr>) t)" using run' by simp
    have e: "ps = []" using True Q(1) by simp
    have v: "view s' k = view t k" for k unfolding s' by simp (rule view_cong, simp_all)
    have f: "queue m s' = queue m t" "nq_addr (nbq m s') = nq_addr (nbq m t)" "neighbor_list s' = remove1 n (neighbor_list s)" for m
      using lt r(1) by (simp_all add: s' queue_def)
    have "pending s' = (pending s)(?a := [])"
      by (rule pending_drop [OF o(1) ok' n refl f(3)]) (use f Q Vm v in auto)
    then show ?thesis using e by simp
  qed
qed

text \<open>The timer of a neighbour fires: the first packet of its queue is handed to the radio, and the report is about that packet.\<close>

lemma fire_once:
  assumes run: "csma_timer_fires co fo cb (r # rs) n s = Ok s'" and ok: "csma_ok N s" and n: "n \<in> set (neighbor_list s)"
    and q: "queue n s = p # ps"
  shows "\<exists>t st s2. sending_ok N n t \<and> nbq n t = (nbq n s)\<lparr>transmit_timer := None\<rparr> \<and> (\<forall>m. queue m t = queue m s) \<and>
    neighbor_list t = neighbor_list s \<and> (\<forall>k. view t k = view s k) \<and> pending t = pending s \<and> pkt p t = pkt p s \<and> metadata_memb t = metadata_memb s \<and>
    pb_attrs (qpb t) ATTR_MAC_SEQNO \<noteq> 0 \<and> find_sent (queue n t) t = Ok (Some p) \<and>
    packet_sent co cb n st 1 t = Ok s2 \<and> (st = mac_of_radio r \<or> st = MAC_TX_ERR_FATAL) \<and>
    (if st = MAC_TX_OK then send_list fo (packet_sent co cb n) (pkt_next n) (\<lambda>p s. rb_buf (pkt p s)) rs (list_hd ps) s2 = Ok s' else s' = s2)"
proof -
  let ?s = "upd_nbq n (\<lambda>q. q\<lparr>transmit_timer := None\<rparr>) s"
  have q0: "q_ok N {} s" using ok by (simp add: csma_ok_def)
  have nN: "n < N" by (rule q_ok_member [OF q0 n])
  note l = q_ok_block [OF q0 nN]
  have so: "sending_ok N n ?s" using sending_upd(1) [OF csma_ok_sending [OF ok nN], of "\<lambda>q. q\<lparr>transmit_timer := None\<rparr>"] by simp
  have Q: "queue m ?s = queue m s" "nq_addr (nbq m ?s) = nq_addr (nbq m s)" for m using l by (simp_all add: queue_def)
  have sk: "q_ok N {} ?s" "pk_ok ?s" using so by (simp_all add: sending_ok_def)
  have "transmit_packet_list co fo cb (r # rs) n ?s = Ok s'" using run by (simp add: csma_timer_fires_def)
  then have "send_list fo (packet_sent co cb n) (pkt_next n) (\<lambda>p s. rb_buf (pkt p s)) (r # rs) (Some p) ?s = Ok s'"
    using q Q(1) by (simp add: transmit_packet_list_def queue_def list_hd_def)
  moreover have "pkt_next n p ?s = list_hd ps" using q Q(1) by (simp add: pkt_next_def queue_def)
  ultimately obtain s1 okb s2 where ld: "load_buf (rb_buf (pkt p ?s)) ?s = Ok s1"
    and o: "send_one_packet fo (packet_sent co cb n) r s1 = Ok (okb, s2)"
    and rest: "(if \<not> okb then Ok s2 else send_list fo (packet_sent co cb n) (pkt_next n) (\<lambda>p s. rb_buf (pkt p s)) rs (list_hd ps) s2) = Ok s'"
    by (auto simp: res_iff Let_def)
  have p: "p \<in> memb_used (packet_memb ?s)" using queued_used(1) [OF q0 nN] q by simp
  obtain b m bs attrs addrs where pk: "pkt p ?s = \<lparr>rb_buf = Some b, rb_ptr = Some m\<rparr>" "held ?s b = Some (bs, attrs, addrs)"
    "attrs ATTR_MAC_SEQNO \<noteq> 0" "b \<in> memb_used (bufmem ?s)" "qnet_ok ?s"
    by (rule pk_ok_packet [OF sk(2) p])
  from qbuf_load_ok [OF pk(5,4,2)] ld pk(1) obtain pb where s1: "s1 = ?s\<lparr>qpb := pb\<rparr>" "pbuf_ok pb" "packet_in pb = (bs, attrs, addrs)"
    by (auto simp: load_buf_def)
  have "pb_attrs (qpb s1) = attrs" "pbuf_ok (qpb s1)" using s1 by (simp_all add: packet_in_def)
  with send_one_packet_eq [OF o] pk(3) obtain fs rr b' air st where b': "pbuf_ok b'" "pb_attrs b' = attrs" and
    c: "packet_sent co cb n st 1 (s1\<lparr>rdc_framer := fs, rdc_rnds := rr, qpb := b', rdc_air := air\<rparr>) = Ok s2"
       "st = mac_of_radio r \<or> st = MAC_TX_ERR_FATAL" "okb \<longleftrightarrow> st = MAC_TX_OK" by auto
  let ?t = "?s\<lparr>rdc_framer := fs, rdc_rnds := rr, qpb := b', rdc_air := air\<rparr>"
  have t: "s1\<lparr>rdc_framer := fs, rdc_rnds := rr, qpb := b', rdc_air := air\<rparr> = ?t" by (simp add: s1(1))
  note bl = below_ok [OF b'(1), where s = ?s and fs = fs and rs = rr and air = air]
  have "qnet_ok ?t" "held ?t b = Some (bs, attrs, addrs)" using bl(2,5) sk(2) pk(2) by (simp_all add: pk_ok_def)
  then have "qbuf_attr b ATTR_MAC_SEQNO ?t = Ok (attrs ATTR_MAC_SEQNO)" by (rule qbuf_attr_held)
  then have f: "find_sent (queue n ?t) ?t = Ok (Some p)" using q Q(1) b'(2) pk(1) unfolding bl by (simp add: bl packetbuf_attr_def)
  have nt: "nbq m ?t = nbq m ?s" for m by (simp add: nbq_def)
  have v: "view ?t k = view s k" for k by (rule view_cong) (simp_all add: bl(5,7))
  have "pending ?t = pending s" by (rule pending_cong) (use Q bl(6) v nt in simp_all)
  then show ?thesis
    using sending_below [OF so b'(1), where fs = fs and rs = rr and air = air] nt [of n] l bl(5-7) Q v f c [unfolded t] rest pk(3) b'(2)
    by (intro exI [of _ ?t] exI [of _ st] exI [of _ s2]) auto
qed

text \<open>How far a packet has come: failed transmissions, and collisions since the last of them.\<close>

definition csma_opts_ok :: "csma_opts \<Rightarrow> bool" where
  "csma_opts_ok co \<longleftrightarrow> CSMA_MIN_BE co \<le> CSMA_MAX_BACKOFF co \<and> CSMA_MAX_BACKOFF co < 255"

definition trying :: "csma_opts \<Rightarrow> qbuf_metadata \<Rightarrow> neighbor_queue \<Rightarrow> bool" where
  "trying co md q \<longleftrightarrow> collisions q \<le> CSMA_MAX_BACKOFF co \<and> (transmissions q = 0 \<or> transmissions q < max_transmissions md)"

definition budget :: "csma_opts \<Rightarrow> qbuf_metadata \<Rightarrow> neighbor_queue \<Rightarrow> nat" where
  "budget co md q = (unat (max_transmissions md) - unat (transmissions q)) * Suc (unat (CSMA_MAX_BACKOFF co)) - unat (collisions q)"

text \<open>The queue entry after a collision and after a missing acknowledgement.\<close>

definition collided :: "csma_opts \<Rightarrow> neighbor_queue \<Rightarrow> neighbor_queue" where
  "collided co q = (if CSMA_MAX_BACKOFF co < collisions q + 1
     then q\<lparr>collisions := CSMA_MIN_BE co, transmissions := transmissions q + 1\<rparr> else q\<lparr>collisions := collisions q + 1\<rparr>)"

definition unacked :: "csma_opts \<Rightarrow> neighbor_queue \<Rightarrow> neighbor_queue" where
  "unacked co q = q\<lparr>collisions := CSMA_MIN_BE co, transmissions := transmissions q + 1\<rparr>"

lemma u8_succ: "unat x < 255 \<Longrightarrow> unat (x + 1 :: u8) = Suc (unat x)"
  by (simp add: unat_word_ariths)

lemma budget_nat:
  assumes "Suc tr < mx" and "c \<le> B"
  shows "(mx - Suc tr) * Suc B - m < (mx - tr) * Suc B - c"
proof -
  have "mx - tr = Suc (mx - Suc tr)" using assms(1) by simp
  then have "(mx - tr) * Suc B = Suc B + (mx - Suc tr) * Suc B" by (simp only: mult_Suc)
  then show ?thesis using assms(2) by linarith
qed

lemma trying_bound:
  assumes "trying co md q"
  shows "unat (transmissions q + 1) = Suc (unat (transmissions q))"
proof (rule u8_succ)
  have "unat (max_transmissions md) < 2 ^ LENGTH(8)" by (rule unsigned_less)
  then show "unat (transmissions q) < 255" using assms by (auto simp: trying_def word_less_nat_alt)
qed

lemma budget_unacked:
  assumes "csma_opts_ok co" and "trying co md q" and "q' = unacked co q" and "\<not> max_transmissions md \<le> transmissions q'"
  shows "trying co md q' \<and> budget co md q' < budget co md q"
proof -
  have "budget co md q' < budget co md q"
    using budget_nat [of "unat (transmissions q)" "unat (max_transmissions md)" "unat (collisions q)" "unat (CSMA_MAX_BACKOFF co)"]
      assms trying_bound [OF assms(2)] by (simp add: budget_def unacked_def trying_def word_less_nat_alt word_le_nat_alt)
  then show ?thesis using assms by (simp add: unacked_def trying_def csma_opts_ok_def not_le)
qed

lemma budget_collided:
  assumes "csma_opts_ok co" and "trying co md q" and "q' = collided co q" and "\<not> max_transmissions md \<le> transmissions q'"
  shows "trying co md q' \<and> budget co md q' < budget co md q"
proof (cases "CSMA_MAX_BACKOFF co < collisions q + 1")
  case True
  then have "q' = unacked co q" using assms(3) by (simp add: collided_def unacked_def)
  then show ?thesis using budget_unacked assms by blast
next
  case False
  then have q': "q' = q\<lparr>collisions := collisions q + 1\<rparr>" using assms(3) by (simp add: collided_def)
  have "unat (CSMA_MAX_BACKOFF co) < 255" using assms(1) by (simp add: csma_opts_ok_def word_less_nat_alt)
  then have c: "unat (collisions q + 1) = Suc (unat (collisions q))" using assms(2) by (intro u8_succ) (simp add: trying_def word_le_nat_alt)
  define X where "X = (unat (max_transmissions md) - unat (transmissions q)) * Suc (unat (CSMA_MAX_BACKOFF co))"
  have "Suc (unat (CSMA_MAX_BACKOFF co)) \<le> X" using assms(4) mult_le_mono1 [of 1 "unat (max_transmissions md) - unat (transmissions q)" "Suc (unat (CSMA_MAX_BACKOFF co))"]
    unfolding X_def by (simp add: q' word_le_nat_alt del: mult_Suc_right)
  moreover have "unat (collisions q) \<le> unat (CSMA_MAX_BACKOFF co)" using assms(2) by (simp add: trying_def word_le_nat_alt)
  ultimately have "X - Suc (unat (collisions q)) < X - unat (collisions q)" by linarith
  then have "budget co md q' < budget co md q" by (simp add: budget_def q' c X_def del: mult_Suc_right)
  then show ?thesis using assms(2,4) False by (simp add: q' trying_def not_less)
qed

lemma set_blk_twice [simp]: "set_blk i x (set_blk i y m) = set_blk i x m"
  by (simp add: set_blk_def)

lemma schedule_delay:
  assumes "schedule_transmission co n s = Ok s'"
  shows "\<exists>d rs. s' = upd_nbq n (\<lambda>q. q\<lparr>transmit_timer := Some d\<rparr>) (s\<lparr>rdc_rnds := rs\<rparr>) \<and>
    unat d \<le> unat (max_delay co (collisions (nbq n s))) - 1"
proof (cases "max_delay co (collisions (nbq n s)) > 0")
  case True
  let ?m = "max_delay co (collisions (nbq n s))"
  from assms True obtain r t where t: "take_rnd s = Ok (r, t)" "s' = upd_nbq n (\<lambda>q. q\<lparr>transmit_timer := Some (ucast r mod ?m)\<rparr>) t"
    by (auto simp: schedule_transmission_def Let_def res_iff)
  have "unat (ucast r mod ?m :: u32) < unat ?m" using True by (simp add: unat_mod_distrib word_less_nat_alt)
  then have "unat (ucast r mod ?m :: u32) \<le> unat ?m - 1" by simp
  moreover obtain rs where "t = s\<lparr>rdc_rnds := rs\<rparr>" using t(1) by (auto simp: take_rnd_def split: list.splits)
  ultimately show ?thesis using t(2) by blast
next
  case False
  then have "max_delay co (collisions (nbq n s)) = 0" by (simp add: word_less_nat_alt unat_eq_zero)
  then have "s' = upd_nbq n (\<lambda>q. q\<lparr>transmit_timer := Some 0\<rparr>) s" using assms by (simp add: schedule_transmission_def Let_def)
  then show ?thesis by (intro exI [of _ 0] exI [of _ "rdc_rnds s"]) simp
qed

lemma rexmit_eq:
  assumes "rexmit co p n s = Ok s'" and ok: "sending_ok N n s" and p: "p \<in> set (queue n s)" and sq: "pb_attrs (qpb s) ATTR_MAC_SEQNO \<noteq> 0"
  shows "\<exists>d. nbq n s' = (nbq n s)\<lparr>transmit_timer := Some d\<rparr> \<and> unat d \<le> unat (max_delay co (collisions (nbq n s))) - 1"
    and "csma_ok N s'" and "queue m s' = queue m s" and "neighbor_list s' = neighbor_list s" and "snd (view s' k) = snd (view s k)"
proof -
  show "csma_ok N s'" by (rule rexmit_ok [OF assms])
  obtain t b where t: "schedule_transmission co n s = Ok t" "rb_buf (pkt p t) = Some b" "qbuf_update_attr_from_packetbuf b t = Ok s'"
    using assms(1) by (auto simp: rexmit_def res_iff)
  obtain d rs where t': "t = upd_nbq n (\<lambda>q. q\<lparr>transmit_timer := Some d\<rparr>) (s\<lparr>rdc_rnds := rs\<rparr>)"
    and d: "unat d \<le> unat (max_delay co (collisions (nbq n s))) - 1" using schedule_delay [OF t(1)] by blast
  have o: "q_ok N {} s" "pk_ok s" "n < N" using ok by (simp_all add: sending_ok_def)
  have l: "n < length (mmem (neighbor_memb (s\<lparr>rdc_rnds := rs\<rparr>)))" using q_ok_block [OF o(1,3)] by simp
  have "pk_ok t" "p \<in> memb_used (packet_memb t)" "pb_attrs (qpb t) ATTR_MAC_SEQNO \<noteq> 0"
    using o queued_used(1) [OF o(1,3) p] sq by (simp_all add: t')
  from update_attr_pk [OF this(1,2) t(2) this(3) t(3)] obtain y where s': "s' = t\<lparr>buframmem := y\<rparr>" by blast
  have "nbq m s' = (if m = n then (nbq n s)\<lparr>transmit_timer := Some d\<rparr> else nbq m s)" for m
    using l by (simp add: s' t')
  then show "queue m s' = queue m s" "\<exists>d. nbq n s' = (nbq n s)\<lparr>transmit_timer := Some d\<rparr> \<and> unat d \<le> unat (max_delay co (collisions (nbq n s))) - 1"
    using d by (auto simp: queue_def)
  show "neighbor_list s' = neighbor_list s" "snd (view s' k) = snd (view s k)" by (simp_all add: s' t' view_def split: option.split)
qed

text \<open>A failed attempt is reported, or the packet waits for the next one.\<close>

definition waits :: "csma_opts \<Rightarrow> qbuf_metadata \<Rightarrow> nat \<Rightarrow> nat \<Rightarrow> nat \<Rightarrow> 's csma_scheme \<Rightarrow> 's csma_scheme \<Rightarrow> bool" where
  "waits co md N n p s s' \<longleftrightarrow> csma_ok N s' \<and> neighbor_list s' = neighbor_list s \<and> queue n s' = queue n s \<and> snd (view s' p) = Some md \<and>
     (\<exists>d q. nbq n s' = q\<lparr>transmit_timer := Some d\<rparr> \<and> unat d \<le> unat (max_delay co (collisions q)) - 1 \<and> transmissions q < max_transmissions md \<and>
       (let q0 = (nbq n s)\<lparr>transmit_timer := None\<rparr> in q = collided co q0 \<or> q = unacked co q0))"

definition reports :: "qbuf_metadata \<Rightarrow> nat \<Rightarrow> nat \<Rightarrow> 's csma_scheme upper \<Rightarrow> 's csma_scheme \<Rightarrow> 's csma_scheme \<Rightarrow> bool" where
  "reports md N n cb s s' \<longleftrightarrow> (\<exists>st k u. csma_ok N u \<and> st \<noteq> MAC_TX_OK \<and> pending u = (pending s)(nq_addr (nbq n s) := tl (pending s (nq_addr (nbq n s)))) \<and>
     mac_call_sent_callback cb (md_sent md) (md_cptr md) st k u = Ok s')"

lemma tx_done_reports:
  assumes "tx_done co cb st p n t = Ok s'" and ok: "sending_ok N n t" and q: "queue n t = p # ps" and md: "snd (view t p) = Some md" and "st \<noteq> MAC_TX_OK"
  shows "reports md N n cb t s'"
proof -
  have o: "q_ok N {} t" "n < N" using ok by (simp_all add: sending_ok_def)
  have n: "n \<in> set (neighbor_list t)" using queued_used(2) [OF o, of p] q by simp
  have "the_metadata p t = Ok md" using md by (auto simp: the_metadata_def view_def split: option.splits)
  then obtain u where u: "free_packet co n p t = Ok u"
    "mac_call_sent_callback cb (md_sent md) (md_cptr md) st (uint (transmissions (nbq n t))) u = Ok s'"
    using assms(1) by (auto simp: tx_done_def Let_def res_iff)
  note f = free_packet_pending [OF u(1) ok q]
  have "pending t (nq_addr (nbq n t)) = map (view t) (p # ps)" using from_addr_iff [OF o(1) n, of "nq_addr (nbq n t)"] q by (simp add: pending_def)
  then show ?thesis using f u(2) assms(5) unfolding reports_def by (intro exI [of _ st] exI [of _ "uint (transmissions (nbq n t))"] exI [of _ u]) simp
qed

lemma retry_outcome:
  assumes c: "(if max_transmissions md \<le> transmissions (nbq n (upd_nbq n f t)) then tx_done co cb st' p n (upd_nbq n f t)
      else rexmit co p n (upd_nbq n f t)) = Ok s'"
    and t: "sending_ok N n t" and q: "queue n t = p # ps" and md: "snd (view t p) = Some md" and sq: "pb_attrs (qpb t) ATTR_MAC_SEQNO \<noteq> 0"
    and f: "nq_addr (f (nbq n t)) = nq_addr (nbq n t)" "queued_packet_list (f (nbq n t)) = queued_packet_list (nbq n t)"
    and st': "st' \<noteq> MAC_TX_OK"
  shows "reports md N n cb t s' \<or> csma_ok N s' \<and> neighbor_list s' = neighbor_list t \<and> queue n s' = queue n t \<and> snd (view s' p) = Some md \<and>
      transmissions (f (nbq n t)) < max_transmissions md \<and>
      (\<exists>d. nbq n s' = (f (nbq n t))\<lparr>transmit_timer := Some d\<rparr> \<and> unat d \<le> unat (max_delay co (collisions (f (nbq n t)))) - 1)"
proof -
  let ?u = "upd_nbq n f t"
  have u: "sending_ok N n ?u" "queue k ?u = queue k t" for k by (rule sending_upd [OF t, of f, OF f])+
  have l: "n < length (mmem (neighbor_memb t))" using t q_ok_block by (auto simp: sending_ok_def)
  have nu: "nbq n ?u = f (nbq n t)" using l by simp
  have v: "view ?u k = view t k" for k by (rule view_cong) simp_all
  show ?thesis
  proof (cases "max_transmissions md \<le> transmissions (nbq n ?u)")
    case True
    have "nq_addr (nbq k ?u) = nq_addr (nbq k t)" for k using l f(1) by simp
    then have pu: "pending ?u = pending t" by (intro pending_cong) (use u(2) v in simp_all)
    from True have "tx_done co cb st' p n ?u = Ok s'" using c by simp
    from tx_done_reports [OF this u(1) _ _ st'] have "reports md N n cb ?u s'" using u(2) q md v by simp
    then show ?thesis using pu nu f(1) by (simp add: reports_def)
  next
    case False
    then have x: "rexmit co p n ?u = Ok s'" using c by simp
    have "p \<in> set (queue n ?u)" "pb_attrs (qpb ?u) ATTR_MAC_SEQNO \<noteq> 0" using u(2) q sq by simp_all
    note e = rexmit_eq [OF x u(1) this]
    show ?thesis using e u(2) v md nu False by (simp add: not_le)
  qed
qed

lemma failed_attempt:
  assumes run: "csma_timer_fires co fo cb (r # rs) n s = Ok s'" and ok: "csma_ok N s" and n: "n \<in> set (neighbor_list s)"
    and q: "queue n s = p # ps" and md: "snd (view s p) = Some md" and r: "r \<noteq> RADIO_TX_OK"
  shows "reports md N n cb s s' \<or> waits co md N n p s s'"
proof -
  from fire_once [OF run ok n q] obtain t st s2 where t: "sending_ok N n t" "nbq n t = (nbq n s)\<lparr>transmit_timer := None\<rparr>"
    "\<forall>m. queue m t = queue m s" "neighbor_list t = neighbor_list s" "\<forall>k. view t k = view s k" "pending t = pending s"
    "pb_attrs (qpb t) ATTR_MAC_SEQNO \<noteq> 0" "find_sent (queue n t) t = Ok (Some p)" "packet_sent co cb n st 1 t = Ok s2"
    and st: "st = mac_of_radio r \<or> st = MAC_TX_ERR_FATAL"
    and s': "if st = MAC_TX_OK then send_list fo (packet_sent co cb n) (pkt_next n) (\<lambda>p s. rb_buf (pkt p s)) rs (list_hd ps) s2 = Ok s' else s' = s2"
    by blast
  have nst: "st \<noteq> MAC_TX_OK" "st \<noteq> MAC_TX_DEFERRED" using st r by (auto simp: mac_of_radio_def split: radio_tx.splits)
  have run': "packet_sent co cb n st 1 t = Ok s'" using t(9) s' nst by simp
  have qt: "queue n t = p # ps" "snd (view t p) = Some md" using t(3,5) q md by simp_all
  have a: "nq_addr (nbq n t) = nq_addr (nbq n s)" using t(2) by simp
  have rep: "reports md N n cb u s' \<Longrightarrow> nq_addr (nbq n u) = nq_addr (nbq n s) \<Longrightarrow> pending u = pending s \<Longrightarrow> reports md N n cb s s'" for u
    by (simp add: reports_def)
  obtain m where m: "rb_ptr (pkt p t) = Some m" "mmem (metadata_memb t) ! m = md" using qt(2) by (auto simp: view_def split: option.splits)
  have go: "reports md N n cb s s' \<or> waits co md N n p s s'"
    if f: "nq_addr (f (nbq n t)) = nq_addr (nbq n t)" "queued_packet_list (f (nbq n t)) = queued_packet_list (nbq n t)"
      and fq: "f (nbq n t) = collided co (nbq n t) \<or> f (nbq n t) = unacked co (nbq n t)" and st': "st' \<noteq> MAC_TX_OK"
      and c: "(if max_transmissions md \<le> transmissions (nbq n (upd_nbq n f t)) then tx_done co cb st' p n (upd_nbq n f t) else rexmit co p n (upd_nbq n f t)) = Ok s'"
    for f st'
    using retry_outcome [OF c t(1) qt t(7) f st']
  proof (elim disjE)
    assume w: "csma_ok N s' \<and> neighbor_list s' = neighbor_list t \<and> queue n s' = queue n t \<and> snd (view s' p) = Some md \<and>
      transmissions (f (nbq n t)) < max_transmissions md \<and>
      (\<exists>d. nbq n s' = (f (nbq n t))\<lparr>transmit_timer := Some d\<rparr> \<and> unat d \<le> unat (max_delay co (collisions (f (nbq n t)))) - 1)"
    then show ?thesis unfolding waits_def Let_def t(2) [symmetric] using fq t(3,4) by auto
  qed (use rep a t(6) in blast)
  have nN: "n < length (mmem (neighbor_memb t))" using t(1) q_ok_block by (auto simp: sending_ok_def)
  have "collision co cb p n 1 t = Ok s' \<or> noack co cb p n 1 t = Ok s' \<or> tx_done co cb st p n t = Ok s'"
    using run' t(8) m nst by (simp add: packet_sent_def queue_def split: mac_status.splits)
  then show ?thesis
  proof (elim disjE)
    assume "tx_done co cb st p n t = Ok s'"
    from tx_done_reports [OF this t(1) qt nst(1)] show ?thesis using rep a t(6) by blast
  next
    assume "noack co cb p n 1 t = Ok s'"
    then show ?thesis
      using go [of "\<lambda>q. q\<lparr>collisions := CSMA_MIN_BE co, transmissions := transmissions q + 1\<rparr>" MAC_TX_NOACK] m
      by (simp add: noack_def the_metadata_def unacked_def Let_def)
  next
    assume c: "collision co cb p n 1 t = Ok s'"
    let ?f = "collided co"
    have "collision co cb p n 1 t = (if max_transmissions md \<le> transmissions (nbq n (upd_nbq n ?f t)) then tx_done co cb MAC_TX_COLLISION p n (upd_nbq n ?f t)
       else rexmit co p n (upd_nbq n ?f t))"
      using m nN by (simp add: collision_def the_metadata_def collided_def Let_def upd_nbq_def nbq_def)
    then show ?thesis using go [of ?f MAC_TX_COLLISION] c by (simp add: collided_def)
  qed
qed

section \<open>Attempts\<close>

text \<open>
  \<open>failing co fo n s k D t\<close>: from \<open>s\<close> on the timer of \<open>n\<close> fired \<open>k\<close> times, the radio failed each time, and no report was made:
  the runs are those with a layer above that would stop them. \<open>D\<close> is the sum of the delays that were set.
\<close>

abbreviation unreported :: "'s upper" where
  "unreported \<equiv> \<lambda>f ptr st k s. Fault EnvExhausted"

inductive failing :: "csma_opts \<Rightarrow> framer_opts \<Rightarrow> nat \<Rightarrow> 's csma_scheme \<Rightarrow> nat \<Rightarrow> nat \<Rightarrow> 's csma_scheme \<Rightarrow> bool" for co fo n s where
  none: "failing co fo n s 0 0 s"
| again: "failing co fo n s k D t \<Longrightarrow> r \<noteq> RADIO_TX_OK \<Longrightarrow> csma_timer_fires co fo unreported (r # rs) n t = Ok u \<Longrightarrow>
    transmit_timer (nbq n u) = Some d \<Longrightarrow> failing co fo n s (Suc k) (D + unat d) u"

lemma unreported_waits:
  assumes "csma_timer_fires co fo unreported (r # rs) n s = Ok s'" and "csma_ok N s" and "n \<in> set (neighbor_list s)"
    and "queue n s = p # ps" and "snd (view s p) = Some md" and "r \<noteq> RADIO_TX_OK" and "md_sent md \<noteq> None"
  shows "waits co md N n p s s'"
  using failed_attempt [OF assms(1-6)] assms(7) by (auto simp: reports_def mac_call_sent_callback_def)

text \<open>The delay of the \<open>c\<close>-th collision in a row, and the sum of those up to it.\<close>

definition backoff :: "csma_opts \<Rightarrow> nat \<Rightarrow> nat" where
  "backoff co c = unat (max_delay co (of_nat c)) - 1"

definition backoffs :: "csma_opts \<Rightarrow> nat \<Rightarrow> nat" where
  "backoffs co c = (\<Sum>i \<in> {1..c}. backoff co i)"

text \<open>What is left to wait.\<close>

definition patience :: "csma_opts \<Rightarrow> qbuf_metadata \<Rightarrow> neighbor_queue \<Rightarrow> nat" where
  "patience co md q = (unat (max_transmissions md) - unat (transmissions q)) * backoffs co (unat (CSMA_MAX_BACKOFF co)) -
     backoffs co (unat (collisions q))"

lemma backoffs_mono: "c \<le> c' \<Longrightarrow> backoffs co c \<le> backoffs co c'"
  unfolding backoffs_def by (rule sum_mono2) auto

lemma backoffs_Suc: "backoffs co (Suc c) = backoffs co c + backoff co (Suc c)"
  by (simp add: backoffs_def)

lemma patience_nat:
  assumes "Suc tr < mx" and "(x :: nat) \<le> B"
  shows "(mx - Suc tr) * B \<le> (mx - tr) * B - x"
proof -
  have "mx - tr = Suc (mx - Suc tr)" using assms(1) by simp
  then have "(mx - tr) * B = B + (mx - Suc tr) * B" by (simp only: mult_Suc)
  then show ?thesis using assms(2) by linarith
qed

lemma patience_unacked:
  assumes "CSMA_MIN_BE co = 0" and "trying co md q" and "q' = unacked co q" and "transmissions q' < max_transmissions md"
  shows "patience co md q' + (unat (max_delay co (collisions q')) - 1) \<le> patience co md q"
proof -
  have "Suc (unat (transmissions q)) < unat (max_transmissions md)"
    using assms(3,4) trying_bound [OF assms(2)] by (simp add: unacked_def word_less_nat_alt)
  moreover have "backoffs co (unat (collisions q)) \<le> backoffs co (unat (CSMA_MAX_BACKOFF co))"
    using assms(2) by (intro backoffs_mono) (simp add: trying_def word_le_nat_alt)
  moreover have "max_delay co 0 = 0" by (simp add: max_delay_def min_def)
  ultimately show ?thesis
    using patience_nat assms(1,3) trying_bound [OF assms(2)] by (simp add: patience_def unacked_def backoffs_def)
qed

lemma patience_collided:
  assumes "CSMA_MIN_BE co = 0" and "CSMA_MAX_BACKOFF co < 255" and "trying co md q" and "q' = collided co q" and "transmissions q' < max_transmissions md"
  shows "patience co md q' + (unat (max_delay co (collisions q')) - 1) \<le> patience co md q"
proof (cases "CSMA_MAX_BACKOFF co < collisions q + 1")
  case True
  then have "q' = unacked co q" using assms(4) by (simp add: collided_def unacked_def)
  then show ?thesis using patience_unacked assms by blast
next
  case False
  then have q': "q' = q\<lparr>collisions := collisions q + 1\<rparr>" using assms(4) by (simp add: collided_def)
  have "unat (CSMA_MAX_BACKOFF co) < 255" using assms(2) by (simp add: word_less_nat_alt)
  then have c: "unat (collisions q + 1) = Suc (unat (collisions q))" using assms(3) by (intro u8_succ) (simp add: trying_def word_le_nat_alt)
  let ?B = "backoffs co (unat (CSMA_MAX_BACKOFF co))" and ?m = "unat (max_transmissions md) - unat (transmissions q)"
  have "Suc (unat (collisions q)) \<le> unat (CSMA_MAX_BACKOFF co)" using False c by (simp add: word_less_nat_alt not_less)
  then have "backoffs co (Suc (unat (collisions q))) \<le> ?B" by (rule backoffs_mono)
  also have "\<dots> \<le> ?m * ?B"
  proof -
    have "1 \<le> ?m" using assms(5) by (simp add: q' word_less_nat_alt)
    then show ?thesis using mult_le_mono1 [of 1 ?m ?B] by simp
  qed
  finally have le: "backoffs co (Suc (unat (collisions q))) \<le> ?m * ?B" .
  have "of_nat (Suc (unat (collisions q))) = collisions q + 1" by simp
  then have "unat (max_delay co (collisions q + 1)) - 1 = backoff co (Suc (unat (collisions q)))" by (simp only: backoff_def)
  then show ?thesis using le backoffs_Suc [of co "unat (collisions q)"] by (simp add: patience_def q' c)
qed

lemma failing_bounds:
  assumes "failing co fo n s k D t" and ok: "csma_ok N s" and n: "n \<in> set (neighbor_list s)" and q: "queue n s = p # ps"
    and md: "snd (view s p) = Some md" "md_sent md \<noteq> None" and co: "csma_opts_ok co" "CSMA_MIN_BE co = 0" and tr: "trying co md (nbq n s)"
  shows "csma_ok N t \<and> n \<in> set (neighbor_list t) \<and> queue n t = p # ps \<and> snd (view t p) = Some md \<and> trying co md (nbq n t) \<and>
    k + budget co md (nbq n t) \<le> budget co md (nbq n s) \<and> D + patience co md (nbq n t) \<le> patience co md (nbq n s) \<and>
    (0 < k \<longrightarrow> transmissions (nbq n t) < max_transmissions md)"
  using assms(1)
proof (induction rule: failing.induct)
  case none
  then show ?case using assms by simp
next
  case (again k D t r rs u d)
  then have w: "waits co md N n p t u" using unreported_waits [OF again.hyps(3)] md(2) by blast
  let ?q0 = "(nbq n t)\<lparr>transmit_timer := None\<rparr>"
  obtain d' q' where e: "nbq n u = q'\<lparr>transmit_timer := Some d'\<rparr>" "unat d' \<le> unat (max_delay co (collisions q')) - 1"
    "transmissions q' < max_transmissions md" "q' = collided co ?q0 \<or> q' = unacked co ?q0"
    using w by (auto simp: waits_def Let_def)
  have t0: "trying co md ?q0" using again.IH by (simp add: trying_def)
  have b: "trying co md q'" "budget co md q' < budget co md ?q0"
    using e(3,4) budget_collided [OF co(1) t0] budget_unacked [OF co(1) t0] by (auto simp: not_le)
  have pt: "patience co md q' + (unat (max_delay co (collisions q')) - 1) \<le> patience co md ?q0"
    using e(3,4) patience_collided [OF co(2) _ t0] patience_unacked [OF co(2) t0] co(1) by (auto simp: csma_opts_ok_def)
  have eqs: "budget co md (nbq n u) = budget co md q'" "budget co md ?q0 = budget co md (nbq n t)"
    "patience co md (nbq n u) = patience co md q'" "patience co md ?q0 = patience co md (nbq n t)" "d = d'"
    using e(1) again.hyps(4) by (simp_all add: budget_def patience_def)
  have "trying co md (nbq n u)" using b(1) e(1) by (simp add: trying_def)
  moreover have "csma_ok N u" "n \<in> set (neighbor_list u)" "queue n u = p # ps" "snd (view u p) = Some md"
    using w again.IH by (simp_all add: waits_def)
  ultimately show ?case using again.IH b(2) pt e(1-3) eqs by auto
qed

lemma csync_backoffs: "backoffs csync_csma 5 = 36" "csma_opts_ok csync_csma" "CSMA_MIN_BE csync_csma = 0"
  "CSMA_MAX_BACKOFF csync_csma = 5"
proof -
  have "{1..5 :: nat} = {1, 2, 3, 4, 5}" by auto
  then show "backoffs csync_csma 5 = 36" by (simp add: backoffs_def backoff_def max_delay_def csync_csma_def min_def)
qed (simp_all add: csync_csma_def csma_opts_ok_def)

text \<open>
  C19: In the build of C-sync the attempts to send a packet are bounded. From the moment on at which a packet with the default number of
  retransmissions is the first one of its queue, at most 17 attempts fail without a report to the layer above, whatever the radio reports (so the
  18th is the last), and the delays between them add up to at most 108 ticks of the clock.\<close>

theorem csma_attempts_bounded:
  assumes "csma_ok N s" and "n \<in> set (neighbor_list s)" and "queue n s = p # ps" and "snd (view s p) = Some md"
    and "md_sent md \<noteq> None" and "max_transmissions md = 3" and "transmissions (nbq n s) = 0" and "collisions (nbq n s) = 0"
    and "failing csync_csma fo n s k D t"
  shows "k < 18 \<and> D \<le> 108"
proof -
  have tr: "trying csync_csma md (nbq n s)" using assms(7,8) by (simp add: trying_def)
  note b = failing_bounds [OF assms(9,1-5) csync_backoffs(2,3) tr]
  have p: "budget csync_csma md (nbq n s) = 18" "patience csync_csma md (nbq n s) = 108"
    using assms(6-8) csync_backoffs by (simp_all add: budget_def patience_def backoffs_def)
  have "0 < budget csync_csma md (nbq n t)" if "0 < k"
  proof -
    have "unat (transmissions (nbq n t)) < 3" "unat (collisions (nbq n t)) \<le> 5"
      using b that assms(6) csync_backoffs(4) by (auto simp: trying_def word_less_nat_alt word_le_nat_alt)
    then show ?thesis using assms(6) csync_backoffs(4) by (simp add: budget_def)
  qed
  then show ?thesis using b p by (cases "k = 0") auto
qed

theorem csma_attempts_bounded_witness:
  "case csma_send_packet csync_csma unreported (Some 4) 5 (csma_init demo_csma) of
     Ok s \<Rightarrow> (\<exists>D t. failing csync_csma demo_framer_opts 0 s 1 D t \<and> D \<le> 108) | Fault _ \<Rightarrow> False"
proof -
  obtain s where s: "csma_send_packet csync_csma unreported (Some 4) 5 (csma_init demo_csma) = Ok s" "csma_ok 1 s" "neighbor_list s = [0]"
    "queue 0 s = [0]" "transmissions (nbq 0 s) = 0" "collisions (nbq 0 s) = 0"
    "snd (view s 0) = Some \<lparr>md_sent = Some 4, md_cptr = 5, max_transmissions = 3\<rparr>"
    using demo_csma_sends [of unreported] by blast
  have "case csma_send_packet csync_csma unreported (Some 4) 5 (csma_init demo_csma) of
     Ok s \<Rightarrow> (case csma_timer_fires csync_csma demo_framer_opts unreported [RADIO_TX_COLLISION] 0 s of
       Ok u \<Rightarrow> transmit_timer (nbq 0 u) = Some 0 | Fault _ \<Rightarrow> False) | Fault _ \<Rightarrow> False" by code_simp
  then obtain u where u: "csma_timer_fires csync_csma demo_framer_opts unreported [RADIO_TX_COLLISION] 0 s = Ok u"
    "transmit_timer (nbq 0 u) = Some 0" using s(1) by (auto split: res.splits)
  have f: "failing csync_csma demo_framer_opts 0 s (Suc 0) (0 + unat (0 :: u32)) u"
    by (rule failing.again [OF failing.none _ u]) simp
  from csma_attempts_bounded [OF s(2) _ s(4,7) _ _ s(5,6) f] s(3) have "0 + unat (0 :: u32) \<le> 108" by simp
  then show ?thesis using f s(1) by auto
qed

end
