(* ===== verification/Nullsec.thy ===== *)
theory Nullsec
  imports Csma
begin

unbundle bit_operations_syntax

text \<open>
  Link-layer security of C-sync, \<^verbatim>\<open>src/core/net/llsec/nullsec.c\<close>: a packet is combined with a block that the cipher makes
  from the addresses of two cluster heads; the time-sync frame at the end of the packet stays as it is.

  The driver of the cipher is a parameter \<open>aes\<close>, a function of the key and the block (on the Sky it is a unit of the radio chip), and
  so is \<open>sz\<close>, the size of a time-sync frame. Both loops run with a bound of 16 bits; an access outside of the block or
  of the packet buffer is \<open>Fault OutOfBounds\<close>, which comes before the 8-bit counter of the loops could wrap.
\<close>

record nullsec = csma +
  ns_block :: "u8 list"
  do_encrypt_decrypt :: bool

definition ns_key :: "u8 list" where
  "ns_key = [0x00, 0x01, 0x02, 0x03, 0x04, 0x05, 0x06, 0x07, 0x08, 0x09, 0x0A, 0x0B, 0x0C, 0x0D, 0x0E, 0x0F]"

text \<open>The bytes of a 32-bit number in memory, lowest first.\<close>

definition le32 :: "u32 \<Rightarrow> u8 list" where
  "le32 x = [ucast x, ucast (drop_bit 8 x), ucast (drop_bit 16 x), ucast (drop_bit 24 x)]"

definition ns_init :: "(u8 list \<Rightarrow> u8 list \<Rightarrow> u8 list) \<Rightarrow> 's nullsec_scheme \<Rightarrow> 's nullsec_scheme" where
  "ns_init aes s =
     (if packetbuf_attr ATTR_DOAES (qpb s) \<noteq> 0 then
        let joined_xor = ucast (packetbuf_attr ATTR_XORPLAINTEXT_A (qpb s)) * ucast (packetbuf_attr ATTR_XORPLAINTEXT_B (qpb s));
            block = le32 joined_xor @ le32 joined_xor @ le32 joined_xor @ le32 joined_xor
        in s\<lparr>ns_block := aes ns_key block, do_encrypt_decrypt := True\<rparr>
      else s\<lparr>ns_block := replicate 16 0, do_encrypt_decrypt := False\<rparr>)"

text \<open>The loop of \<open>send\<close> and of \<open>input\<close>: \<open>off\<close> is where \<open>data\<close> points to.\<close>

function xor_loop :: "nat \<Rightarrow> u16 \<Rightarrow> nat \<Rightarrow> u8 list \<Rightarrow> u8 list \<Rightarrow> u8 list res" where
  "xor_loop i n off block mem =
     (if i < unat n then
        if i < length block \<and> off + i < length mem
        then xor_loop (Suc i) n off block (mem[off + i := mem ! (off + i) XOR block ! i])
        else Fault OutOfBounds
      else Ok mem)"
  by auto
termination by (relation "measure (\<lambda>(i, n, off, block, mem). length block - i)") auto

definition ns_send ::
  "nat \<Rightarrow> csma_opts \<Rightarrow> 's nullsec_scheme upper \<Rightarrow> nat option \<Rightarrow> nat \<Rightarrow> 's nullsec_scheme \<Rightarrow> 's nullsec_scheme res" where
  "ns_send sz co cb sent ptr s =
     bindR (if do_encrypt_decrypt s
            then bindR (xor_loop 0 (packetbuf_totlen (qpb s) - of_nat sz) 0 (ns_block s) (pb_data (qpb s))) (\<lambda>mem.
                   Ok (s\<lparr>qpb := (qpb s)\<lparr>pb_data := mem\<rparr>\<rparr>))
            else Ok s) (csma_send_packet co cb sent ptr)"

definition ns_input ::
  "nat \<Rightarrow> ('s nullsec_scheme \<Rightarrow> 's nullsec_scheme res) \<Rightarrow> 's nullsec_scheme \<Rightarrow> 's nullsec_scheme res" where
  "ns_input sz network_input s =
     bindR (if do_encrypt_decrypt s
            then bindR (xor_loop 0 (packetbuf_datalen (qpb s) - of_nat sz) (packetbuf_dataptr (qpb s)) (ns_block s) (pb_data (qpb s))) (\<lambda>mem.
                   Ok (s\<lparr>qpb := (qpb s)\<lparr>pb_data := mem\<rparr>\<rparr>))
            else Ok s) network_input"

end
