(* ===== verification/Chameleon.thy ===== *)
theory Chameleon
  imports Packetbuf Linked_List
begin

unbundle bit_operations_syntax

text \<open>
  The packet headers of Rime: the bit-packed encoding of packet attributes (\<^verbatim>\<open>src/core/net/rime/chameleon-bitopt.c\<close>), the
  channels that say which attributes a packet carries (\<^verbatim>\<open>src/core/net/rime/channel.c\<close>) and the calls that select the encoding
  (\<^verbatim>\<open>src/core/net/rime/chameleon.c\<close>).

  A pointer into an array is the array with an offset, and an access outside of it is \<open>Fault OutOfBounds\<close>. The shifts are those of the target,
  whose \<^verbatim>\<open>int\<close> has 16 bits. An attribute list ends where the list ends; the entry
  \<open>PACKETBUF_ATTR_NONE\<close> that closes it in memory is left out. The list of channels is one of the linked-list library, with the fields
  of a channel as functions of its address.
\<close>

section \<open>Bytes of an array\<close>

definition byte_at :: "nat \<Rightarrow> u8 list \<Rightarrow> u8 res" where
  "byte_at i mem = (if i < length mem then Ok (mem ! i) else Fault OutOfBounds)"

definition set_byte :: "nat \<Rightarrow> u8 \<Rightarrow> u8 list \<Rightarrow> u8 list res" where
  "set_byte i v mem = (if i < length mem then Ok (mem[i := v]) else Fault OutOfBounds)"

section \<open>chameleon-bitopt.c\<close>

abbreviation BITOPT_HDR_SIZE :: nat where "BITOPT_HDR_SIZE \<equiv> 2"

definition bitmask :: "u8 list" where
  "bitmask = [0x00, 0x80, 0xc0, 0xe0, 0xf0, 0xf8, 0xfc, 0xfe, 0xff]"

definition le16_write :: "u16 \<Rightarrow> u8 list" where
  "le16_write v = [ucast (v AND 0xff), ucast (drop_bit 8 v)]"

definition le16_read :: "u8 list \<Rightarrow> u16" where
  "le16_read p = push_bit 8 (ucast (p ! 1)) OR ucast (p ! 0)"

definition get_bits_in_byte :: "u8 list \<Rightarrow> nat \<Rightarrow> nat \<Rightarrow> nat \<Rightarrow> u8 res" where
  "get_bits_in_byte mem from bitpos vallen =
     bindR (byte_at from mem) (\<lambda>from0. bindR (byte_at (from + 1) mem) (\<lambda>from1.
       let shifted_val = push_bit 8 (ucast from0) OR ucast from1 :: u16
       in Ok (ucast (drop_bit (8 - vallen) (drop_bit 8 (push_bit bitpos shifted_val) AND ucast (bitmask ! vallen))))))"

text \<open>The two loops \<open>for(i = 0; i < vallen / 8; ++i)\<close>, over what an iteration reads or writes.\<close>

fun get_loop :: "(nat \<Rightarrow> u8 res) \<Rightarrow> nat \<Rightarrow> nat \<Rightarrow> u8 list \<Rightarrow> u8 list res" where
  "get_loop rd i 0 to = Ok to"
| "get_loop rd i (Suc n) to = bindR (rd i) (\<lambda>v. bindR (set_byte i v to) (get_loop rd (Suc i) n))"

definition get_bits :: "u8 list \<Rightarrow> nat \<Rightarrow> nat \<Rightarrow> nat \<Rightarrow> u8 list \<Rightarrow> u8 list res" where
  "get_bits mem from bitpos vallen to =
     (if vallen < 8 then bindR (get_bits_in_byte mem from bitpos vallen) (\<lambda>v. set_byte 0 v to)
      else if bitpos = 0 then
        bindR (get_loop (\<lambda>i. byte_at (from + i) mem) 0 (vallen div 8) to) (\<lambda>to.
          let i = vallen div 8; bits = vallen mod 8
          in if bits \<noteq> 0 then bindR (get_bits_in_byte mem (from + i) 0 bits) (\<lambda>v. set_byte i v to) else Ok to)
      else
        bindR (get_loop (\<lambda>i. get_bits_in_byte mem (from + i) bitpos 8) 0 (vallen div 8) to) (\<lambda>to.
          let i = vallen div 8; bits = vallen mod 8
          in if bits \<noteq> 0 then bindR (get_bits_in_byte mem (from + i) bitpos bits) (\<lambda>v. set_byte i v to) else Ok to))"

definition set_bits_in_byte :: "nat \<Rightarrow> nat \<Rightarrow> u8 \<Rightarrow> nat \<Rightarrow> u8 list \<Rightarrow> u8 list res" where
  "set_bits_in_byte target bitpos val vallen mem =
     (let shifted_val = push_bit (8 - bitpos + 8 - vallen) (ucast val) :: u16
      in bindR (byte_at target mem) (\<lambda>t0.
         bindR (set_byte target (t0 OR ucast (drop_bit 8 shifted_val)) mem) (\<lambda>mem.
         bindR (byte_at (target + 1) mem) (\<lambda>t1.
           set_byte (target + 1) (t1 OR ucast (shifted_val AND 0xff)) mem))))"

fun set_loop :: "(nat \<Rightarrow> u8 \<Rightarrow> u8 list \<Rightarrow> u8 list res) \<Rightarrow> u8 list \<Rightarrow> nat \<Rightarrow> nat \<Rightarrow> u8 list \<Rightarrow> u8 list res" where
  "set_loop wr val i 0 mem = Ok mem"
| "set_loop wr val i (Suc n) mem = bindR (byte_at i val) (\<lambda>v. bindR (wr i v mem) (set_loop wr val (Suc i) n))"

definition set_bits :: "nat \<Rightarrow> nat \<Rightarrow> u8 list \<Rightarrow> nat \<Rightarrow> u8 list \<Rightarrow> u8 list res" where
  "set_bits ptr bitpos val vallen mem =
     (if vallen < 8 then bindR (byte_at 0 val) (\<lambda>v. set_bits_in_byte ptr bitpos v vallen mem)
      else if bitpos = 0 then
        bindR (set_loop (\<lambda>i v. set_byte (ptr + i) v) val 0 (vallen div 8) mem) (\<lambda>mem.
          let i = vallen div 8; bits = vallen mod 8
          in if bits \<noteq> 0
             then bindR (byte_at i val) (\<lambda>v. set_bits_in_byte (ptr + i) 0 (drop_bit (8 - bits) v) bits mem)
             else Ok mem)
      else
        bindR (set_loop (\<lambda>i v. set_bits_in_byte (ptr + i) bitpos v 8) val 0 (vallen div 8) mem) (\<lambda>mem.
          let i = vallen div 8; bits = vallen mod 8
          in if bits \<noteq> 0
             then bindR (byte_at i val) (\<lambda>v. set_bits_in_byte (ptr + i) 0 (drop_bit (8 - bits + bitpos) v) bits mem)
             else Ok mem))"

text \<open>The types below \<open>PACKETBUF_ADDR_FIRST\<close> are attributes, the others addresses.\<close>

datatype hdr_type = Attr pb_attr | Addr nat

type_synonym attrlist = "(hdr_type \<times> u8) list"

fun header_size :: "attrlist \<Rightarrow> nat" where
  "header_size [] = 0"
| "header_size ((type, len) # a) = unat len + header_size a"

section \<open>channel.c\<close>

record channels =
  ch_next :: heap
  channel_list :: "ptr option"
  channelno :: "ptr \<Rightarrow> u16"
  ch_attrlist :: "ptr \<Rightarrow> attrlist"
  ch_hdrsize :: "ptr \<Rightarrow> u8"

definition chameleon_hdrsize :: "attrlist \<Rightarrow> nat" where
  "chameleon_hdrsize attrlist = header_size attrlist"

definition channel_init :: "channels \<Rightarrow> channels" where
  "channel_init s = s\<lparr>channel_list := list_init (channel_list s)\<rparr>"

text \<open>The loop of \<open>channel_lookup\<close> ends when the list is not cyclic.\<close>

partial_function (option) lookup_loop :: "heap \<Rightarrow> (ptr \<Rightarrow> u16) \<Rightarrow> u16 \<Rightarrow> ptr option \<Rightarrow> ptr option option" where
  "lookup_loop h no n c = (case c of
       None \<Rightarrow> Some None
     | Some p \<Rightarrow> if no p = n then Some (Some p) else lookup_loop h no n (list_item_next h c))"

definition channel_lookup :: "u16 \<Rightarrow> channels \<Rightarrow> ptr option res" where
  "channel_lookup n s = from_option Diverge (lookup_loop (ch_next s) (channelno s) n (list_head (channel_list s)))"

definition channel_set_attributes :: "u16 \<Rightarrow> attrlist \<Rightarrow> channels \<Rightarrow> channels res" where
  "channel_set_attributes n attrlist s =
     bindR (channel_lookup n s) (\<lambda>c. Ok (case c of
         None \<Rightarrow> s
       | Some c \<Rightarrow> s\<lparr>ch_attrlist := (ch_attrlist s)(c := attrlist),
                     ch_hdrsize := (ch_hdrsize s)(c := of_nat (chameleon_hdrsize attrlist))\<rparr>))"

definition channel_open :: "ptr \<Rightarrow> u16 \<Rightarrow> channels \<Rightarrow> channels res" where
  "channel_open c n s =
     bindR (from_option Diverge (list_add (ch_next s) (channel_list s) c)) (\<lambda>(h, l).
       Ok (s\<lparr>channelno := (channelno s)(c := n), ch_next := h, channel_list := l\<rparr>))"

definition channel_close :: "ptr \<Rightarrow> channels \<Rightarrow> channels res" where
  "channel_close c s =
     bindR (from_option Diverge (list_remove (ch_next s) (channel_list s) c)) (\<lambda>(h, l).
       Ok (s\<lparr>ch_next := h, channel_list := l\<rparr>))"

section \<open>Headers\<close>

definition hdr_bytes :: "u8 \<Rightarrow> nat" where
  "hdr_bytes hdrsize = unat hdrsize div 8 + (if unat hdrsize mod 8 = 0 then 0 else 1)"

text \<open>What an attribute or an address looks like in memory.\<close>

definition type_bytes :: "pbuf \<Rightarrow> hdr_type \<Rightarrow> u8 list" where
  "type_bytes b type = (case type of Attr t \<Rightarrow> le16_write (packetbuf_attr t b) | Addr t \<Rightarrow> enc_u16 (packetbuf_addr t b))"

fun pack_loop :: "pbuf \<Rightarrow> nat \<Rightarrow> attrlist \<Rightarrow> nat \<Rightarrow> u8 list \<Rightarrow> u8 list res" where
  "pack_loop b hdrptr [] bitptr mem = Ok mem"
| "pack_loop b hdrptr ((type, len) # a) bitptr mem =
     bindR (set_bits (hdrptr + bitptr div 8) (bitptr mod 8) (type_bytes b type) (unat len) mem)
       (pack_loop b hdrptr a (bitptr + unat len))"

definition pack_header :: "channels \<Rightarrow> ptr \<Rightarrow> pbuf \<Rightarrow> (bool \<times> pbuf) res" where
  "pack_header s c b =
     (let hdrbytesize = hdr_bytes (ch_hdrsize s c)
      in bindR (packetbuf_hdralloc (of_nat (hdrbytesize + BITOPT_HDR_SIZE)) b) (\<lambda>(ok, b).
         if \<not> ok then Ok (False, b)
         else bindR (set_byte 0 (ucast (channelno s c AND 0xff)) (pb_data b)) (\<lambda>mem.
              bindR (set_byte 1 (ucast (drop_bit 8 (channelno s c) AND 0xff)) mem) (\<lambda>mem.
              bindR (put_bytes BITOPT_HDR_SIZE (replicate hdrbytesize 0) mem) (\<lambda>mem.
              bindR (pack_loop b BITOPT_HDR_SIZE (ch_attrlist s c) 0 mem) (\<lambda>mem.
                Ok (True, b\<lparr>pb_data := mem\<rparr>)))))))"

text \<open>
  The variable \<open>addr\<close> that an address is read into is not initialised: \<open>junk bitptr\<close> is what it holds in the iteration
  at \<open>bitptr\<close>.
\<close>

fun unpack_loop :: "(nat \<Rightarrow> u8 list) \<Rightarrow> nat \<Rightarrow> attrlist \<Rightarrow> nat \<Rightarrow> pbuf \<Rightarrow> pbuf res" where
  "unpack_loop junk hdrptr [] bitptr b = Ok b"
| "unpack_loop junk hdrptr ((type, len) # a) bitptr b =
     bindR (case type of
         Addr t \<Rightarrow> bindR (get_bits (pb_data b) (hdrptr + bitptr div 8) (bitptr mod 8) (unat len) (junk bitptr)) (\<lambda>addr.
           Ok (packetbuf_set_addr t (dec_u16 addr) b))
       | Attr t \<Rightarrow> bindR (get_bits (pb_data b) (hdrptr + bitptr div 8) (bitptr mod 8) (unat len) [0, 0]) (\<lambda>buffer.
           Ok (packetbuf_set_attr t (le16_read buffer) b)))
       (unpack_loop junk hdrptr a (bitptr + unat len))"

definition unpack_header :: "(nat \<Rightarrow> u8 list) \<Rightarrow> channels \<Rightarrow> pbuf \<Rightarrow> (ptr option \<times> pbuf) res" where
  "unpack_header junk s b =
     (let hdr = packetbuf_dataptr b; (ok, b1) = packetbuf_hdrreduce (of_nat BITOPT_HDR_SIZE) b
      in if \<not> ok then Ok (None, b1)
         else bindR (byte_at (hdr + 1) (pb_data b1)) (\<lambda>ch1. bindR (byte_at hdr (pb_data b1)) (\<lambda>ch0.
              bindR (channel_lookup (push_bit 8 (ucast ch1) + ucast ch0) s) (\<lambda>c. case c of
                  None \<Rightarrow> Ok (None, b1)
                | Some c \<Rightarrow>
                    let hdrptr = packetbuf_dataptr b1;
                        (ok, b2) = packetbuf_hdrreduce (of_nat (hdr_bytes (ch_hdrsize s c))) b1
                    in if \<not> ok then Ok (None, b2)
                       else bindR (unpack_loop junk hdrptr (ch_attrlist s c) 0 b2) (\<lambda>b3. Ok (Some c, b3))))))"

section \<open>chameleon.c\<close>

definition chameleon_init :: "channels \<Rightarrow> channels" where
  "chameleon_init s = channel_init s"

abbreviation ATTR_CHANNEL :: pb_attr where "ATTR_CHANNEL \<equiv> ATTR_OTHER 1"

definition chameleon_parse :: "(nat \<Rightarrow> u8 list) \<Rightarrow> channels \<Rightarrow> pbuf \<Rightarrow> (ptr option \<times> pbuf) res" where
  "chameleon_parse junk s b =
     bindR (unpack_header junk s b) (\<lambda>(c, b). case c of
         None \<Rightarrow> Ok (None, b)
       | Some p \<Rightarrow> Ok (c, packetbuf_set_attr ATTR_CHANNEL (channelno s p) b))"

definition chameleon_create :: "channels \<Rightarrow> ptr \<Rightarrow> pbuf \<Rightarrow> (bool \<times> pbuf) res" where
  "chameleon_create s c b =
     bindR (pack_header s c b) (\<lambda>(ret, b). Ok (ret, packetbuf_set_attr ATTR_CHANNEL (channelno s c) b))"

end
