(* ===== verification/Rime.thy ===== *)
theory Rime
  imports Nullsec Chameleon
begin

text \<open>
  The network layer of C-sync: \<^verbatim>\<open>src/core/net/rime/rime.c\<close>, anonymous broadcast (\<^verbatim>\<open>src/core/net/rime/abc.c\<close>) and identified broadcast
  (\<^verbatim>\<open>src/core/net/rime/broadcast.c\<close>), over link-layer security and CSMA.

  The first field of a \<open>broadcast_conn\<close> is its \<open>abc_conn\<close>, whose first field is its \<open>channel\<close>, so all three have the same address. The
  field \<open>u\<close> of an \<open>abc_conn\<close> points to the callbacks of broadcast, or to callbacks of another client; the functions of the clients are
  parameters (\<open>clients\<close>), where \<open>None\<close> is a null pointer.
\<close>

datatype abc_callbacks = BroadcastCallbacks | ClientCallbacks nat

record rime = nullsec +
  rchans :: channels
  abc_u :: "ptr \<Rightarrow> abc_callbacks"
  broadcast_u :: "ptr \<Rightarrow> nat"

record 's clients =
  abc_recv_fn :: "nat \<Rightarrow> (ptr \<Rightarrow> 's \<Rightarrow> 's res) option"
  abc_sent_fn :: "nat \<Rightarrow> (ptr \<Rightarrow> 's mac_callback) option"
  broadcast_recv_fn :: "nat \<Rightarrow> (ptr \<Rightarrow> u16 \<Rightarrow> 's \<Rightarrow> 's res) option"
  broadcast_sent_fn :: "nat \<Rightarrow> (ptr \<Rightarrow> 's mac_callback) option"

definition on_chans :: "(channels \<Rightarrow> channels res) \<Rightarrow> 's rime_scheme \<Rightarrow> 's rime_scheme res" where
  "on_chans f s = bindR (f (rchans s)) (\<lambda>ch. Ok (s\<lparr>rchans := ch\<rparr>))"

section \<open>Callbacks of broadcast.c\<close>

definition recv_from_abc :: "'s rime_scheme clients \<Rightarrow> ptr \<Rightarrow> 's rime_scheme \<Rightarrow> 's rime_scheme res" where
  "recv_from_abc cl c s =
     (let sender = packetbuf_addr ADDR_SENDER (qpb s)
      in case broadcast_recv_fn cl (broadcast_u s c) of None \<Rightarrow> Ok s | Some recv \<Rightarrow> recv c sender s)"

definition sent_by_abc :: "'s rime_scheme clients \<Rightarrow> ptr \<Rightarrow> 's rime_scheme mac_callback" where
  "sent_by_abc cl c status num_tx s =
     (case broadcast_sent_fn cl (broadcast_u s c) of None \<Rightarrow> Ok s | Some sent \<Rightarrow> sent c status num_tx s)"

section \<open>abc.c\<close>

definition ABC_ATTRIBUTES :: attrlist where
  "ABC_ATTRIBUTES = []"

definition abc_open :: "ptr \<Rightarrow> u16 \<Rightarrow> abc_callbacks \<Rightarrow> 's rime_scheme \<Rightarrow> 's rime_scheme res" where
  "abc_open c n callbacks s =
     bindR (on_chans (channel_open c n) s) (\<lambda>s.
       on_chans (channel_set_attributes n ABC_ATTRIBUTES) (s\<lparr>abc_u := (abc_u s)(c := callbacks)\<rparr>))"

definition abc_close :: "ptr \<Rightarrow> 's rime_scheme \<Rightarrow> 's rime_scheme res" where
  "abc_close c s = on_chans (channel_close c) s"

definition abc_input :: "'s rime_scheme clients \<Rightarrow> ptr \<Rightarrow> 's rime_scheme \<Rightarrow> 's rime_scheme res" where
  "abc_input cl c s = (case abc_u s c of
       BroadcastCallbacks \<Rightarrow> recv_from_abc cl c s
     | ClientCallbacks u \<Rightarrow> (case abc_recv_fn cl u of None \<Rightarrow> Ok s | Some recv \<Rightarrow> recv c s))"

definition abc_sent :: "'s rime_scheme clients \<Rightarrow> ptr \<Rightarrow> 's rime_scheme mac_callback" where
  "abc_sent cl c status num_tx s = (case abc_u s c of
       BroadcastCallbacks \<Rightarrow> sent_by_abc cl c status num_tx s
     | ClientCallbacks u \<Rightarrow> (case abc_sent_fn cl u of None \<Rightarrow> Ok s | Some sent \<Rightarrow> sent c status num_tx s))"

section \<open>rime.c\<close>

definition rime_input :: "(nat \<Rightarrow> u8 list) \<Rightarrow> 's rime_scheme clients \<Rightarrow> 's rime_scheme \<Rightarrow> 's rime_scheme res" where
  "rime_input junk cl s =
     bindR (chameleon_parse junk (rchans s) (qpb s)) (\<lambda>(c, b). case c of
         None \<Rightarrow> Ok (s\<lparr>qpb := b\<rparr>)
       | Some c \<Rightarrow> abc_input cl c (s\<lparr>qpb := b\<rparr>))"

definition rime_init :: "'s rime_scheme \<Rightarrow> 's rime_scheme" where
  "rime_init s =
     (let s = qbuf_init s; s = s\<lparr>qpb := packetbuf_clear (qpb s)\<rparr>
      in s\<lparr>rchans := chameleon_init (rchans s)\<rparr>)"

text \<open>The statuses differ in what is printed only.\<close>

definition rime_packet_sent :: "'s rime_scheme clients \<Rightarrow> ptr \<Rightarrow> 's rime_scheme mac_callback" where
  "rime_packet_sent cl ptr status num_tx s = abc_sent cl ptr status num_tx s"

text \<open>The layers below call a function by its number; the only one they are handed is \<open>packet_sent\<close>.\<close>

definition PACKET_SENT :: nat where "PACKET_SENT = 1"

definition rime_upper :: "'s rime_scheme clients \<Rightarrow> 's rime_scheme upper" where
  "rime_upper cl f ptr = rime_packet_sent cl ptr"

definition rime_output ::
  "nat \<Rightarrow> csma_opts \<Rightarrow> 's rime_scheme clients \<Rightarrow> ptr \<Rightarrow> 's rime_scheme \<Rightarrow> (bool \<times> 's rime_scheme) res" where
  "rime_output sz co cl c s =
     bindR (chameleon_create (rchans s) c (qpb s)) (\<lambda>(ok, b).
       if ok then bindR (packetbuf_compact b) (\<lambda>b.
                  bindR (ns_send sz co (rime_upper cl) (Some PACKET_SENT) c (s\<lparr>qpb := b\<rparr>)) (\<lambda>s. Ok (True, s)))
       else Ok (False, s\<lparr>qpb := b\<rparr>))"

section \<open>Sending\<close>

definition abc_send ::
  "nat \<Rightarrow> csma_opts \<Rightarrow> 's rime_scheme clients \<Rightarrow> ptr \<Rightarrow> 's rime_scheme \<Rightarrow> (bool \<times> 's rime_scheme) res" where
  "abc_send sz co cl c s = rime_output sz co cl c s"

text \<open>The attributes of a broadcast: the sender, and what the security of C-sync is initialised from.\<close>

definition BROADCAST_ATTRIBUTES :: attrlist where
  "BROADCAST_ATTRIBUTES =
     [(Addr ADDR_SENDER, 16), (Attr ATTR_DOAES, 8), (Attr ATTR_XORPLAINTEXT_A, 16), (Attr ATTR_XORPLAINTEXT_B, 16)] @ ABC_ATTRIBUTES"

definition broadcast_open :: "ptr \<Rightarrow> u16 \<Rightarrow> nat \<Rightarrow> 's rime_scheme \<Rightarrow> 's rime_scheme res" where
  "broadcast_open c channel u s =
     bindR (abc_open c channel BroadcastCallbacks s) (\<lambda>s.
       on_chans (channel_set_attributes channel BROADCAST_ATTRIBUTES) (s\<lparr>broadcast_u := (broadcast_u s)(c := u)\<rparr>))"

definition broadcast_close :: "ptr \<Rightarrow> 's rime_scheme \<Rightarrow> 's rime_scheme res" where
  "broadcast_close c s = abc_close c s"

definition broadcast_send_conn ::
  "nat \<Rightarrow> csma_opts \<Rightarrow> 's rime_scheme clients \<Rightarrow> ptr \<Rightarrow> 's rime_scheme \<Rightarrow> (bool \<times> 's rime_scheme) res" where
  "broadcast_send_conn sz co cl c s =
     abc_send sz co cl c (s\<lparr>qpb := packetbuf_set_addr ADDR_SENDER (linkaddr_node_addr s) (qpb s)\<rparr>)"

end
