(* ===== verification/Chameleon_Laws.thy ===== *)
theory Chameleon_Laws
  imports Chameleon Framer_Laws
begin

unbundle bit_operations_syntax

text \<open>
  Laws of the packet headers. An array of bytes is read as a sequence of bits, the highest bit of a byte first (\<open>bitat\<close>). Each
  function of \<^verbatim>\<open>chameleon-bitopt.c\<close> is described by the bits it reads or adds, so that the loops over the attributes come down to
  the concatenation \<open>hdr_bits\<close> of the bits of the values. From this follows that a header is undone at the receiver, for every list of attributes that
  are sent whole, or in at most 8 bits that hold their value. The last section is about the table of channels.
\<close>

section \<open>Bits of an array\<close>

definition bitat :: "u8 list \<Rightarrow> nat \<Rightarrow> bool" where
  "bitat mem k = bit (mem ! (k div 8)) (7 - k mod 8)"

lemma bitat_at: "j < 8 \<Longrightarrow> bitat mem (8 * i + j) = bit (mem ! i) (7 - j)"
  by (simp add: bitat_def)

lemma bit_nth: "n < 8 \<Longrightarrow> bit (mem ! i) n = bitat mem (8 * i + (7 - n))"
proof -
  assume n: "n < 8"
  then have "7 - (7 - n) = n" by simp
  then show ?thesis using bitat_at [of "7 - n" mem i] n by simp
qed

lemma bitat_shift: "bitat mem (8 * i + k) = bit (mem ! (i + k div 8)) (7 - k mod 8)"
  by (simp add: bitat_def)

lemma bitmask_bit: "vallen \<le> 8 \<Longrightarrow> bit (bitmask ! vallen) n \<longleftrightarrow> n < 8 \<and> 8 \<le> n + vallen"
proof -
  assume "vallen \<le> 8"
  then have "vallen \<in> {0,1,2,3,4,5,6,7,8}" by auto
  moreover have "n < 8 \<Longrightarrow> n \<in> {0,1,2,3,4,5,6,7}" by auto
  ultimately show ?thesis
    by (cases "n < 8") (auto simp: bitmask_def bit_simps)
qed

lemma get_bits_in_byte_eq:
  assumes "fr + 1 < length mem" and "bitpos < 8" and "vallen \<le> 8"
  shows "\<exists>v. get_bits_in_byte mem fr bitpos vallen = Ok v \<and>
    (\<forall>n. bit v n \<longleftrightarrow> n < vallen \<and> bitat mem (8 * fr + bitpos + (vallen - 1 - n)))"
proof -
  let ?sv = "push_bit 8 (ucast (mem ! fr)) OR ucast (mem ! (fr + 1)) :: u16"
  let ?v = "ucast (drop_bit (8 - vallen) (drop_bit 8 (push_bit bitpos ?sv) AND ucast (bitmask ! vallen))) :: u8"
  have r: "get_bits_in_byte mem fr bitpos vallen = Ok ?v"
    using assms by (simp add: get_bits_in_byte_def byte_at_def Let_def)
  have "bit ?v n \<longleftrightarrow> n < vallen \<and> bitat mem (8 * fr + bitpos + (vallen - 1 - n))" for n
  proof (cases "n < vallen")
    case True
    let ?k = "bitpos + (vallen - 1 - n)"
    have v: "bit (ucast (drop_bit (8 - vallen) (drop_bit 8 (push_bit bitpos x) AND ucast (bitmask ! vallen))) :: u8) n \<longleftrightarrow> bit x (15 - ?k)" for x :: u16
    proof -
      have "8 - vallen + n + 8 - bitpos = 15 - ?k" "15 - ?k < 16" "8 - vallen + n < 8" "bitpos \<le> 8 - vallen + n + 8" using True assms by auto
      then show ?thesis using assms(2,3) by (auto simp: bit_simps bitmask_bit ac_simps)
    qed
    have q: "bitat mem (8 * fr + ?k) = (if ?k < 8 then bit (mem ! fr) (7 - ?k) else bit (mem ! (fr + 1)) (15 - ?k))"
      using bitat_at [of ?k mem fr] bitat_at [of "?k - 8" mem "fr + 1"] True assms by (auto simp: not_less)
    have "bit ?sv (15 - ?k) = (if ?k < 8 then bit (mem ! fr) (7 - ?k) else bit (mem ! (fr + 1)) (15 - ?k))"
      using True assms by (auto simp: bit_simps dest: bit_imp_le_length)
    then have "bit ?v n \<longleftrightarrow> bitat mem (8 * fr + ?k)" unfolding v q .
    with True show ?thesis by (simp only: simp_thms add.assoc)
  next
    case False
    then show ?thesis using assms by (auto simp: bit_simps bitmask_bit)
  qed
  then show ?thesis using r by blast
qed

lemma bit_below: "unat (v :: 'a::len word) < 2 ^ n \<Longrightarrow> bit v m \<Longrightarrow> m < n"
proof (rule ccontr)
  assume v: "unat v < 2 ^ n" "bit v m" and "\<not> m < n"
  have "take_bit n (unat v) = unat v" using v(1) by (simp add: take_bit_nat_eq_self)
  moreover have "bit (unat v) m" using v(2) by (simp add: bit_unsigned_iff bit_imp_le_length)
  ultimately show False using \<open>\<not> m < n\<close> by (metis bit_take_bit_iff)
qed

lemma set_bits_in_byte_eq:
  assumes "t + 1 < length mem" and "bitpos < 8" and "vallen \<le> 8" and small: "\<And>n. bit val n \<Longrightarrow> n < vallen"
  shows "\<exists>mem'. set_bits_in_byte t bitpos val vallen mem = Ok mem' \<and> length mem' = length mem \<and>
    (\<forall>k < 8 * length mem. bitat mem' k \<longleftrightarrow> bitat mem k \<or>
       8 * t + bitpos \<le> k \<and> k < 8 * t + bitpos + vallen \<and> bit val (vallen - 1 - (k - (8 * t + bitpos))))"
proof -
  let ?sh = "16 - (bitpos + vallen)"
  let ?sv = "push_bit ?sh (ucast val) :: u16"
  let ?m = "mem[t := mem ! t OR ucast (drop_bit 8 ?sv), t + 1 := mem ! (t + 1) OR ucast (?sv AND 0xff)]"
  have r: "set_bits_in_byte t bitpos val vallen mem = Ok ?m"
    using assms(1-3) by (simp add: set_bits_in_byte_def byte_at_def set_byte_def Let_def)
  have sv: "bit ?sv m \<longleftrightarrow> m < 16 \<and> ?sh \<le> m \<and> bit val (m - ?sh)" for m
    by (auto simp: bit_simps)
  have "bitat ?m k \<longleftrightarrow> bitat mem k \<or>
       8 * t + bitpos \<le> k \<and> k < 8 * t + bitpos + vallen \<and> bit val (vallen - 1 - (k - (8 * t + bitpos)))" (is "_ \<longleftrightarrow> _ \<or> ?R k")
    if k: "k < 8 * length mem" for k
  proof -
    define i j where "i = k div 8" and "j = k mod 8"
    have kij: "k = 8 * i + j" and j: "j < 8" and i: "i < length mem" using k by (auto simp: i_def j_def)
    consider "i = t" | "i = t + 1" | "i \<noteq> t" "i \<noteq> t + 1" by blast
    then show ?thesis
    proof cases
      case 1
      have "bit ?sv (15 - j) \<longleftrightarrow> ?R k"
      proof -
        have "15 - j - ?sh = vallen - 1 - (k - (8 * t + bitpos))" if "bitpos \<le> j" "j < bitpos + vallen" using that 1 kij j assms(2,3) by auto
        moreover have "?sh \<le> 15 - j \<longleftrightarrow> j < bitpos + vallen" using j assms(2,3) by auto
        moreover have "bitpos \<le> j" if "j < bitpos + vallen" "bit val (15 - j - ?sh)" using small [OF that(2)] that(1) j assms(2,3) by linarith
        ultimately show ?thesis unfolding sv using 1 kij j by (auto simp: ac_simps)
      qed
      moreover have "bit (ucast (drop_bit 8 ?sv) :: u8) (7 - j) = bit ?sv (15 - j)" using j by (simp only: bit_ucast_iff bit_drop_bit_eq comp_def) (auto simp: le_diff_conv2)
      ultimately show ?thesis unfolding kij bitat_at [OF j] using 1 assms(1) by (simp add: bit_or_iff)
    next
      case 2
      have "bit ?sv (7 - j) \<longleftrightarrow> ?R k"
      proof -
        have "7 - j - ?sh = vallen - 1 - (k - (8 * t + bitpos))" if "8 + j < bitpos + vallen" using that 2 kij j assms(2,3) by auto
        moreover have "?sh \<le> 7 - j \<longleftrightarrow> 8 + j < bitpos + vallen" using j assms(2,3) by auto
        ultimately show ?thesis unfolding sv using 2 kij j assms(2) by (auto simp: ac_simps)
      qed
      moreover have "bit (ucast (?sv AND 0xff) :: u8) (7 - j) = bit ?sv (7 - j)"
      proof -
        have "(0xff :: u16) = mask 8" by (simp add: mask_eq_exp_minus_1)
        then show ?thesis using j by (simp only: bit_ucast_iff bit_and_iff bit_mask_iff) auto
      qed
      ultimately show ?thesis unfolding kij bitat_at [OF j] using 2 assms(1) by (simp add: bit_or_iff)
    next
      case 3
      then have out: "\<not> (8 * t + bitpos \<le> k \<and> k < 8 * t + bitpos + vallen)" using kij j assms(2,3) by auto
      have "?m ! i = mem ! i" using 3 by simp
      then have "bitat ?m k = bitat mem k" unfolding kij bitat_at [OF j] by (rule arg_cong)
      with out show ?thesis by blast
    qed
  qed
  then show ?thesis using r by auto
qed

lemma set_byte_eq:
  assumes "t < length mem" and "\<And>k. 8 * t \<le> k \<Longrightarrow> k < 8 * t + 8 \<Longrightarrow> \<not> bitat mem k"
  shows "\<exists>mem'. set_byte t val mem = Ok mem' \<and> length mem' = length mem \<and>
    (\<forall>k < 8 * length mem. bitat mem' k \<longleftrightarrow> bitat mem k \<or> 8 * t \<le> k \<and> k < 8 * t + 8 \<and> bit val (7 - (k - 8 * t)))"
proof -
  have "bitat (mem[t := val]) k \<longleftrightarrow> bitat mem k \<or> 8 * t \<le> k \<and> k < 8 * t + 8 \<and> bit val (7 - (k - 8 * t))" for k
  proof -
    define i j where "i = k div 8" and "j = k mod 8"
    have kij: "k = 8 * i + j" and j: "j < 8" by (auto simp: i_def j_def)
    show ?thesis using assms(2) [of k] assms(1) j unfolding kij bitat_at [OF j] by (cases "i = t") auto
  qed
  then show ?thesis using assms(1) by (simp add: set_byte_def)
qed

text \<open>The bits of a value of \<open>L\<close> bits, in the order in which they are sent.\<close>

definition val_bit :: "u8 list \<Rightarrow> nat \<Rightarrow> nat \<Rightarrow> bool" where
  "val_bit val L j = (if L < 8 then bit (val ! 0) (L - 1 - j) else bitat val j)"

lemma set_loop_eq:
  assumes wr: "\<And>i v mem. length mem = N \<Longrightarrow> i < m \<Longrightarrow> (\<And>k. p + 8 * i \<le> k \<Longrightarrow> k < p + 8 * i + 8 \<Longrightarrow> \<not> bitat mem k) \<Longrightarrow>
      \<exists>mem'. wr i v mem = Ok mem' \<and> length mem' = N \<and>
        (\<forall>k < 8 * N. bitat mem' k \<longleftrightarrow> bitat mem k \<or> p + 8 * i \<le> k \<and> k < p + 8 * i + 8 \<and> bit v (7 - (k - (p + 8 * i))))"
    and "m \<le> length val" and "p + 8 * m \<le> 8 * N"
  shows "i + n = m \<Longrightarrow> length mem = N \<Longrightarrow> (\<And>k. p + 8 * i \<le> k \<Longrightarrow> k < p + 8 * m \<Longrightarrow> \<not> bitat mem k) \<Longrightarrow>
    \<exists>mem'. set_loop wr val i n mem = Ok mem' \<and> length mem' = N \<and>
      (\<forall>k < 8 * N. bitat mem' k \<longleftrightarrow> bitat mem k \<or> p + 8 * i \<le> k \<and> k < p + 8 * m \<and> bitat val (k - p))"
proof (induction n arbitrary: i mem)
  case 0
  then show ?case by auto
next
  case (Suc n)
  have i: "i < m" using Suc.prems(1) by simp
  then obtain m1 where m1: "wr i (val ! i) mem = Ok m1" "length m1 = N"
      "\<And>k. k < 8 * N \<Longrightarrow> bitat m1 k \<longleftrightarrow> bitat mem k \<or> p + 8 * i \<le> k \<and> k < p + 8 * i + 8 \<and> bit (val ! i) (7 - (k - (p + 8 * i)))"
    using wr [OF Suc.prems(2), of i "val ! i"] Suc.prems(3) by auto
  have "\<not> bitat m1 k" if "p + 8 * Suc i \<le> k" "k < p + 8 * m" for k
    using that m1(3) [of k] Suc.prems(3) [of k] assms(3) by auto
  with Suc.IH [of "Suc i" m1] Suc.prems(1) m1(2) obtain m2 where
    m2: "set_loop wr val (Suc i) n m1 = Ok m2" "length m2 = N"
      "\<And>k. k < 8 * N \<Longrightarrow> bitat m2 k \<longleftrightarrow> bitat m1 k \<or> p + 8 * Suc i \<le> k \<and> k < p + 8 * m \<and> bitat val (k - p)" by auto
  have "bitat m2 k \<longleftrightarrow> bitat mem k \<or> p + 8 * i \<le> k \<and> k < p + 8 * m \<and> bitat val (k - p)" if k: "k < 8 * N" for k
  proof (cases "p + 8 * i \<le> k \<and> k < p + 8 * i + 8")
    case True
    let ?j = "k - (p + 8 * i)"
    have "k - p = 8 * i + ?j" "?j < 8" using True by auto
    then have "bitat val (k - p) = bit (val ! i) (7 - ?j)" using bitat_at [of ?j val i] by simp
    then show ?thesis using m1(3) [OF k] m2(3) [OF k] True i by auto
  next
    case False
    then show ?thesis using m1(3) [OF k] m2(3) [OF k] i by auto
  qed
  then show ?case using m1(1) m2(1,2) i assms(2) by (simp add: byte_at_def)
qed

definition storable :: "u8 list \<Rightarrow> nat \<Rightarrow> bool" where
  "storable val L \<longleftrightarrow> L < 8 \<and> val \<noteq> [] \<and> unat (val ! 0) < 2 ^ L \<or> 8 \<le> L \<and> L mod 8 = 0 \<and> L div 8 \<le> length val"

lemma set_bits_eq:
  assumes "bitpos < 8" and st: "storable val L" and room: "ptr + L div 8 + 1 < length mem"
    and zero: "\<And>k. 8 * ptr + bitpos \<le> k \<Longrightarrow> k < 8 * ptr + bitpos + L \<Longrightarrow> \<not> bitat mem k"
  shows "\<exists>mem'. set_bits ptr bitpos val L mem = Ok mem' \<and> length mem' = length mem \<and>
    (\<forall>k < 8 * length mem. bitat mem' k \<longleftrightarrow> bitat mem k \<or>
       8 * ptr + bitpos \<le> k \<and> k < 8 * ptr + bitpos + L \<and> val_bit val L (k - (8 * ptr + bitpos)))"
proof (cases "L < 8")
  case True
  then have v: "val \<noteq> []" "unat (val ! 0) < 2 ^ L" using st by (auto simp: storable_def)
  have "\<And>n. bit (val ! 0) n \<Longrightarrow> n < L" using bit_below [OF v(2)] .
  with set_bits_in_byte_eq [of ptr mem bitpos L "val ! 0"] True assms(1) room v(1) show ?thesis
    by (simp add: set_bits_def byte_at_def val_bit_def)
next
  case False
  then have L: "L mod 8 = 0" "L div 8 \<le> length val" "8 * (L div 8) = L" using st by (auto simp: storable_def)
  define p where "p = 8 * ptr + bitpos"
  have z: "\<And>k. p + 8 * 0 \<le> k \<Longrightarrow> k < p + 8 * (L div 8) \<Longrightarrow> \<not> bitat mem k" using zero L(3) by (simp add: p_def)
  have fit: "p + 8 * (L div 8) \<le> 8 * length mem" using room assms(1) by (simp add: p_def)
  have whole: ?thesis if r: "set_bits ptr bitpos val L mem = set_loop wr val 0 (L div 8) mem"
    and wr: "\<And>i v m. length m = length mem \<Longrightarrow> i < L div 8 \<Longrightarrow> (\<And>k. p + 8 * i \<le> k \<Longrightarrow> k < p + 8 * i + 8 \<Longrightarrow> \<not> bitat m k) \<Longrightarrow>
      \<exists>m'. wr i v m = Ok m' \<and> length m' = length mem \<and>
        (\<forall>k < 8 * length mem. bitat m' k \<longleftrightarrow> bitat m k \<or> p + 8 * i \<le> k \<and> k < p + 8 * i + 8 \<and> bit v (7 - (k - (p + 8 * i))))" for wr
  proof -
    have "\<exists>mem'. set_loop wr val 0 (L div 8) mem = Ok mem' \<and> length mem' = length mem \<and>
      (\<forall>k < 8 * length mem. bitat mem' k \<longleftrightarrow> bitat mem k \<or> p + 8 * 0 \<le> k \<and> k < p + 8 * (L div 8) \<and> bitat val (k - p))"
      by (rule set_loop_eq [OF wr L(2) fit _ _ z]) simp_all
    then show ?thesis using L(3) False unfolding r p_def [symmetric] val_bit_def by simp
  qed
  show ?thesis
  proof (cases "bitpos = 0")
    case True
    have e: "8 * (ptr + i) = p + 8 * i" for i using True by (simp add: p_def)
    show ?thesis
    proof (rule whole)
      show "set_bits ptr bitpos val L mem = set_loop (\<lambda>i. set_byte (ptr + i)) val 0 (L div 8) mem"
        using True False L(1) by (simp add: set_bits_def)
      show "\<exists>m'. set_byte (ptr + i) v m = Ok m' \<and> length m' = length mem \<and>
          (\<forall>k < 8 * length mem. bitat m' k \<longleftrightarrow> bitat m k \<or> p + 8 * i \<le> k \<and> k < p + 8 * i + 8 \<and> bit v (7 - (k - (p + 8 * i))))"
        if "length m = length mem" "i < L div 8" "\<And>k. p + 8 * i \<le> k \<Longrightarrow> k < p + 8 * i + 8 \<Longrightarrow> \<not> bitat m k" for i v m
        using set_byte_eq [of "ptr + i" m v, unfolded e] that room by simp
    qed
  next
    case nz: False
    have e: "8 * (ptr + i) + bitpos = p + 8 * i" for i by (simp add: p_def)
    show ?thesis
    proof (rule whole)
      show "set_bits ptr bitpos val L mem = set_loop (\<lambda>i v. set_bits_in_byte (ptr + i) bitpos v 8) val 0 (L div 8) mem"
        using nz False L(1) by (simp add: set_bits_def)
      show "\<exists>m'. set_bits_in_byte (ptr + i) bitpos v 8 m = Ok m' \<and> length m' = length mem \<and>
          (\<forall>k < 8 * length mem. bitat m' k \<longleftrightarrow> bitat m k \<or> p + 8 * i \<le> k \<and> k < p + 8 * i + 8 \<and> bit v (7 - (k - (p + 8 * i))))"
        if "length m = length mem" "i < L div 8" for i v m
        using set_bits_in_byte_eq [of "ptr + i" m bitpos 8 v, unfolded e] that assms(1) room bit_imp_le_length [of v] by simp
    qed
  qed
qed

lemma get_loop_eq:
  "i + n \<le> length to \<Longrightarrow> (\<And>j. i \<le> j \<Longrightarrow> j < i + n \<Longrightarrow> rd j = Ok (v j)) \<Longrightarrow>
   get_loop rd i n to = Ok (take i to @ map v [i..<i + n] @ drop (i + n) to)"
proof (induction n arbitrary: i to)
  case 0
  then show ?case by simp
next
  case (Suc n)
  let ?to = "to[i := v i]"
  have "get_loop rd (Suc i) n ?to = Ok (take (Suc i) ?to @ map v [Suc i..<Suc i + n] @ drop (Suc i + n) ?to)"
    using Suc.prems by (intro Suc.IH) simp_all
  moreover have "take (Suc i) ?to = take i to @ [v i]" using Suc.prems(1) by (simp add: take_Suc_conv_app_nth)
  moreover have "drop (Suc i + n) ?to = drop (i + Suc n) to" by (simp add: drop_update_cancel)
  moreover have "[i..<i + Suc n] = i # [Suc i..<Suc i + n]" by (simp add: upt_conv_Cons)
  moreover have "rd i = Ok (v i)" using Suc.prems(2) by simp
  ultimately show ?case using Suc.prems(1) by (simp add: set_byte_def)
qed

lemma get_bits_eq:
  assumes "bitpos < 8" and st: "storable val L" and room: "ptr + L div 8 + 1 < length mem"
    and bits: "\<And>j. j < L \<Longrightarrow> bitat mem (8 * ptr + bitpos + j) = val_bit val L j" and "0 < length to" and "L div 8 \<le> length to"
  shows "get_bits mem ptr bitpos L to = Ok (if L < 8 then to[0 := val ! 0] else take (L div 8) val @ drop (L div 8) to)"
proof (cases "L < 8")
  case True
  then have v: "unat (val ! 0) < 2 ^ L" using st by (auto simp: storable_def)
  obtain x where x: "get_bits_in_byte mem ptr bitpos L = Ok x"
      "\<And>n. bit x n \<longleftrightarrow> n < L \<and> bitat mem (8 * ptr + bitpos + (L - 1 - n))"
    using get_bits_in_byte_eq [of ptr mem bitpos L] True assms(1) room by auto
  have "x = val ! 0"
  proof (rule bit_word_eqI)
    fix n
    show "bit x n = bit (val ! 0) n"
    proof (cases "n < L")
      case less: True
      then have "L - 1 - (L - 1 - n) = n" by simp
      then show ?thesis using x(2) [of n] bits [of "L - 1 - n"] less True by (simp add: val_bit_def)
    next
      case False
      then show ?thesis using x(2) bit_below [OF v] by blast
    qed
  qed
  then show ?thesis using True x(1) assms(5) by (simp add: get_bits_def set_byte_def)
next
  case False
  then have L: "L mod 8 = 0" "L div 8 \<le> length val" "8 * (L div 8) = L" using st by (auto simp: storable_def)
  have byte: "bitat mem (8 * (ptr + i) + bitpos + j) = bit (val ! i) (7 - j)" if "i < L div 8" "j < 8" for i j
  proof -
    have "8 * i + j < L" using that L(3) by linarith
    then show ?thesis using bits [of "8 * i + j"] False bitat_at [OF that(2), of val i] by (simp add: val_bit_def algebra_simps)
  qed
  have vals: "take (L div 8) val = map (\<lambda>i. val ! i) [0..<0 + L div 8]" using L(2) by (simp add: list_eq_iff_nth_eq)
  have whole: ?thesis if r: "get_bits mem ptr bitpos L to = get_loop rd 0 (L div 8) to" and rd: "\<And>i. i < L div 8 \<Longrightarrow> rd i = Ok (val ! i)" for rd
    using get_loop_eq [of 0 "L div 8" to rd "\<lambda>i. val ! i"] rd assms(6) False unfolding r vals by simp
  show ?thesis
  proof (cases "bitpos = 0")
    case True
    show ?thesis
    proof (rule whole)
      show "get_bits mem ptr bitpos L to = get_loop (\<lambda>i. byte_at (ptr + i) mem) 0 (L div 8) to"
        using True False L(1) by (simp add: get_bits_def)
      fix i
      assume i: "i < L div 8"
      have "mem ! (ptr + i) = val ! i"
      proof (rule bit_word_eqI)
        fix n
        assume "n < LENGTH(8)"
        then show "bit (mem ! (ptr + i)) n = bit (val ! i) n"
          using byte [OF i, of "7 - n"] bit_nth [of n mem "ptr + i"] True by simp
      qed
      then show "byte_at (ptr + i) mem = Ok (val ! i)" using i room by (simp add: byte_at_def)
    qed
  next
    case nz: False
    show ?thesis
    proof (rule whole)
      show "get_bits mem ptr bitpos L to = get_loop (\<lambda>i. get_bits_in_byte mem (ptr + i) bitpos 8) 0 (L div 8) to"
        using nz False L(1) by (simp add: get_bits_def)
      fix i
      assume i: "i < L div 8"
      obtain x where x: "get_bits_in_byte mem (ptr + i) bitpos 8 = Ok x"
          "\<And>n. bit x n \<longleftrightarrow> n < 8 \<and> bitat mem (8 * (ptr + i) + bitpos + (8 - 1 - n))"
        using get_bits_in_byte_eq [of "ptr + i" mem bitpos 8] assms(1) room i by auto
      have "x = val ! i"
      proof (rule bit_word_eqI)
        fix n
        assume "n < LENGTH(8)"
        then show "bit x n = bit (val ! i) n" using x(2) [of n] byte [OF i, of "7 - n"] by simp
      qed
      then show "get_bits_in_byte mem (ptr + i) bitpos 8 = Ok (val ! i)" using x(1) by simp
    qed
  qed
qed

section \<open>The loops over the attributes\<close>

fun hdr_bits :: "pbuf \<Rightarrow> attrlist \<Rightarrow> bool list" where
  "hdr_bits b [] = []"
| "hdr_bits b ((type, len) # a) = map (val_bit (type_bytes b type) (unat len)) [0..<unat len] @ hdr_bits b a"

lemma length_hdr_bits [simp]: "length (hdr_bits b a) = header_size a"
  by (induction b a rule: hdr_bits.induct) auto

text \<open>What can be sent in a header: an address as a whole, an attribute as a whole or in at most 8 bits if its value needs no more.\<close>

fun fits :: "pbuf \<Rightarrow> hdr_type \<times> u8 \<Rightarrow> bool" where
  "fits b (Addr t, len) \<longleftrightarrow> len = 16"
| "fits b (Attr t, len) \<longleftrightarrow> len = 16 \<or> len \<le> 8 \<and> unat (packetbuf_attr t b) < 2 ^ unat len"

lemma ucast_ff: "ucast ((x :: u16) AND 0xff) = (ucast x :: u8)"
proof -
  have ff: "(0xff :: u16) = mask 8" by (simp add: mask_eq_exp_minus_1)
  show ?thesis
    unfolding ff by (rule bit_word_eqI) (auto simp only: bit_ucast_iff bit_and_iff bit_mask_iff, simp_all add: bit_imp_possible_bit)
qed

lemma le16_write_eq: "le16_write x = enc_u16 x"
  by (simp add: le16_write_def enc_u16_def ucast_ff)

lemma type_bytes_eq: "type_bytes b type = enc_u16 (case type of Attr t \<Rightarrow> packetbuf_attr t b | Addr t \<Rightarrow> packetbuf_addr t b)"
  by (simp add: type_bytes_def le16_write_eq split: hdr_type.split)

lemma fits_storable:
  assumes "fits b (type, len)"
  shows "storable (type_bytes b type) (unat len)"
proof (cases "len = 16")
  case True
  then show ?thesis by (simp add: storable_def type_bytes_eq)
next
  case False
  then obtain t where t: "type = Attr t" "unat len \<le> 8" "unat (packetbuf_attr t b) < 2 ^ unat len"
    using assms by (cases type) (auto simp: word_le_nat_alt)
  show ?thesis
  proof (cases "unat len = 8")
    case True
    then show ?thesis by (simp add: storable_def type_bytes_eq)
  next
    case False
    have "unat (ucast (packetbuf_attr t b) :: u8) \<le> unat (packetbuf_attr t b)" by (simp add: unat_ucast_mod)
    then show ?thesis using t False by (simp add: storable_def type_bytes_eq enc_u16_def)
  qed
qed

lemma pack_loop_eq:
  "(\<And>x. x \<in> set a \<Longrightarrow> fits b x) \<Longrightarrow> 8 * hdrptr + bitptr + header_size a + 8 < 8 * length mem \<Longrightarrow>
   (\<And>k. 8 * hdrptr + bitptr \<le> k \<Longrightarrow> k < 8 * hdrptr + bitptr + header_size a \<Longrightarrow> \<not> bitat mem k) \<Longrightarrow>
   \<exists>mem'. pack_loop b hdrptr a bitptr mem = Ok mem' \<and> length mem' = length mem \<and>
    (\<forall>k < 8 * length mem. bitat mem' k \<longleftrightarrow> bitat mem k \<or>
       8 * hdrptr + bitptr \<le> k \<and> k < 8 * hdrptr + bitptr + header_size a \<and> hdr_bits b a ! (k - (8 * hdrptr + bitptr)))"
proof (induction b hdrptr a bitptr mem rule: pack_loop.induct)
  case (1 b hdrptr bitptr mem)
  then show ?case by auto
next
  case (2 b hdrptr type len a bitptr mem)
  define p L where "p = 8 * hdrptr + bitptr" and "L = unat len"
  have pp: "8 * (hdrptr + bitptr div 8) + bitptr mod 8 = p" by (simp add: p_def)
  have size: "header_size ((type, len) # a) = L + header_size a" by (simp add: L_def)
  have room: "hdrptr + bitptr div 8 + L div 8 + 1 < length mem" using "2.prems"(2) size by (simp add: L_def)
  have "storable (type_bytes b type) L" unfolding L_def by (rule fits_storable) (simp add: "2.prems"(1))
  from set_bits_eq [OF _ this room, of "bitptr mod 8"] obtain m1 where
    m1: "set_bits (hdrptr + bitptr div 8) (bitptr mod 8) (type_bytes b type) L mem = Ok m1" "length m1 = length mem"
      "\<And>k. k < 8 * length mem \<Longrightarrow> bitat m1 k \<longleftrightarrow> bitat mem k \<or> p \<le> k \<and> k < p + L \<and> val_bit (type_bytes b type) L (k - p)"
    unfolding pp using "2.prems"(3) size by (auto simp: p_def)
  have "\<exists>m2. pack_loop b hdrptr a (bitptr + unat len) m1 = Ok m2 \<and> length m2 = length m1 \<and>
    (\<forall>k < 8 * length m1. bitat m2 k \<longleftrightarrow> bitat m1 k \<or>
       8 * hdrptr + (bitptr + unat len) \<le> k \<and> k < 8 * hdrptr + (bitptr + unat len) + header_size a \<and> hdr_bits b a ! (k - (8 * hdrptr + (bitptr + unat len))))"
  proof (rule "2.IH" [OF m1(1) [unfolded L_def]])
    show "fits b x" if "x \<in> set a" for x using that "2.prems"(1) by simp
    show "8 * hdrptr + (bitptr + unat len) + header_size a + 8 < 8 * length m1" using "2.prems"(2) m1(2) by simp
    show "\<not> bitat m1 k" if "8 * hdrptr + (bitptr + unat len) \<le> k" "k < 8 * hdrptr + (bitptr + unat len) + header_size a" for k
      using that m1(3) [of k] "2.prems"(2,3) by (simp add: p_def L_def)
  qed
  then obtain m2 where m2: "pack_loop b hdrptr a (bitptr + unat len) m1 = Ok m2" "length m2 = length mem"
      "\<And>k. k < 8 * length mem \<Longrightarrow> bitat m2 k \<longleftrightarrow> bitat m1 k \<or> p + L \<le> k \<and> k < p + L + header_size a \<and> hdr_bits b a ! (k - (p + L))"
    using m1(2) by (auto simp: p_def L_def add.assoc)
  have "bitat m2 k \<longleftrightarrow> bitat mem k \<or> p \<le> k \<and> k < p + (L + header_size a) \<and> hdr_bits b ((type, len) # a) ! (k - p)" if "k < 8 * length mem" for k
    using m1(3) [OF that] m2(3) [OF that] by (auto simp: nth_append L_def [symmetric])
  then show ?case using m1(1) m2(1,2) unfolding size p_def [symmetric] by (simp add: L_def)
qed

lemma dec_u16_or: "dec_u16 bs = ucast (bs ! 0) OR push_bit 8 (ucast (bs ! 1))"
proof -
  have "and (ucast (bs ! 0)) (push_bit 8 (ucast (bs ! 1))) = (0 :: u16)"
    by (rule bit_word_eqI) (auto simp: bit_simps dest: bit_imp_le_length)
  then show ?thesis by (simp add: dec_u16_def disjunctive_add_eq_or)
qed

lemma le16_read_eq: "le16_read bs = dec_u16 bs"
  by (simp add: le16_read_def dec_u16_or or.commute)

text \<open>What \<open>unpack_loop\<close> takes over from the packet buffer in which the header was made.\<close>

fun take_over :: "pbuf \<Rightarrow> attrlist \<Rightarrow> pbuf \<Rightarrow> pbuf" where
  "take_over b0 [] b = b"
| "take_over b0 ((Attr t, len) # a) b = take_over b0 a (packetbuf_set_attr t (packetbuf_attr t b0) b)"
| "take_over b0 ((Addr t, len) # a) b = take_over b0 a (packetbuf_set_addr t (packetbuf_addr t b0) b)"

lemma small_attr:
  assumes "unat (x :: u16) < 2 ^ n" and "n \<le> 8"
  shows "dec_u16 [ucast x, 0] = x"
proof -
  have "bit x m \<Longrightarrow> m < 8" for m using bit_below [OF assms(1), of m] assms(2) by simp
  then show ?thesis unfolding dec_u16_or by (intro bit_word_eqI) (auto simp: bit_simps)
qed

lemma unpack_loop_eq:
  "(\<And>x. x \<in> set a \<Longrightarrow> fits b0 x) \<Longrightarrow> (\<And>k. length (junk k) = 2) \<Longrightarrow> 8 * hdrptr + bitptr + header_size a + 8 < 8 * length (pb_data b) \<Longrightarrow>
   (\<And>k. k < header_size a \<Longrightarrow> bitat (pb_data b) (8 * hdrptr + bitptr + k) = hdr_bits b0 a ! k) \<Longrightarrow>
   unpack_loop junk hdrptr a bitptr b = Ok (take_over b0 a b)"
proof (induction junk hdrptr a bitptr b rule: unpack_loop.induct)
  case (1 junk hdrptr bitptr b)
  then show ?case by simp
next
  case (2 junk hdrptr type len a bitptr b)
  define p L where "p = 8 * hdrptr + bitptr" and "L = unat len"
  have pp: "8 * (hdrptr + bitptr div 8) + bitptr mod 8 = p" by (simp add: p_def)
  have size: "header_size ((type, len) # a) = L + header_size a" by (simp add: L_def)
  have room: "hdrptr + bitptr div 8 + L div 8 + 1 < length (pb_data b)" using "2.prems"(3) size by (simp add: L_def)
  have f: "fits b0 (type, len)" by (simp add: "2.prems"(1))
  have field: "bitat (pb_data b) (p + j) = val_bit (type_bytes b0 type) L j" if "j < L" for j
    using "2.prems"(4) [of j] that by (simp add: p_def L_def nth_append)
  have rest: "bitat (pb_data b) (8 * hdrptr + (bitptr + unat len) + k) = hdr_bits b0 a ! k" if "k < header_size a" for k
    using "2.prems"(4) [of "L + k"] that by (simp add: L_def nth_append add.assoc)
  have got: "get_bits (pb_data b) (hdrptr + bitptr div 8) (bitptr mod 8) L to =
      Ok (if L < 8 then to[0 := type_bytes b0 type ! 0] else take (L div 8) (type_bytes b0 type) @ drop (L div 8) to)"
    if "length to = 2" for to
  proof (rule get_bits_eq [OF _ fits_storable [OF f, folded L_def] room])
    show "L div 8 \<le> length to" using f that by (cases type) (auto simp: L_def word_le_nat_alt)
  qed (use that field pp in simp_all)
  show ?case
  proof (cases type)
    case (Addr t)
    then have L: "L = 16" using f by (simp add: L_def)
    have "get_bits (pb_data b) (hdrptr + bitptr div 8) (bitptr mod 8) L (junk bitptr) = Ok (enc_u16 (packetbuf_addr t b0))"
      using got [of "junk bitptr"] "2.prems"(2) L Addr by (simp add: type_bytes_eq)
    moreover have "unpack_loop junk hdrptr a (bitptr + unat len) (packetbuf_set_addr t (packetbuf_addr t b0) b) =
        Ok (take_over b0 a (packetbuf_set_addr t (packetbuf_addr t b0) b))"
      using "2.prems"(1,2,3) rest Addr calculation by (intro "2.IH") (auto simp: L_def packetbuf_set_addr_def add.assoc)
    ultimately show ?thesis using Addr by (simp add: L_def)
  next
    case (Attr t)
    have "\<exists>bs. get_bits (pb_data b) (hdrptr + bitptr div 8) (bitptr mod 8) L [0, 0] = Ok bs \<and> le16_read bs = packetbuf_attr t b0"
    proof (cases "L = 16")
      case True
      then show ?thesis using got [of "[0, 0]"] Attr by (simp add: type_bytes_eq le16_read_eq)
    next
      case False
      then have "L \<le> 8" "unat (packetbuf_attr t b0) < 2 ^ L" using f Attr by (auto simp: L_def word_le_nat_alt)
      then show ?thesis using got [of "[0, 0]"] Attr small_attr [of "packetbuf_attr t b0" L]
        by (cases "L = 8") (auto simp: type_bytes_eq le16_read_eq enc_u16_def)
    qed
    then obtain bs where bs: "get_bits (pb_data b) (hdrptr + bitptr div 8) (bitptr mod 8) (unat len) [0, 0] = Ok bs" "le16_read bs = packetbuf_attr t b0"
      by (auto simp: L_def)
    moreover have "unpack_loop junk hdrptr a (bitptr + unat len) (packetbuf_set_attr t (packetbuf_attr t b0) b) =
        Ok (take_over b0 a (packetbuf_set_attr t (packetbuf_attr t b0) b))"
      using "2.prems"(1,2,3) rest Attr bs by (intro "2.IH") (auto simp: packetbuf_set_attr_def add.assoc)
    ultimately show ?thesis using Attr by simp
  qed
qed

section \<open>Headers\<close>

lemma same_byte: "(\<And>k. 8 * i \<le> k \<Longrightarrow> k < 8 * i + 8 \<Longrightarrow> bitat m k = bitat m' k) \<Longrightarrow> m ! i = m' ! i"
proof (rule bit_word_eqI)
  fix n
  assume eq: "\<And>k. 8 * i \<le> k \<Longrightarrow> k < 8 * i + 8 \<Longrightarrow> bitat m k = bitat m' k" and "n < LENGTH(8)"
  then have n: "n < 8" by simp
  show "bit (m ! i) n = bit (m' ! i) n" unfolding bit_nth [OF n] by (rule eq) simp_all
qed

lemma hdr_bits_cong:
  "pb_attrs b = pb_attrs b' \<Longrightarrow> pb_addrs b = pb_addrs b' \<Longrightarrow> type_bytes b = type_bytes b' \<and> hdr_bits b a = hdr_bits b' a \<and> fits b = fits b'"
proof -
  assume s: "pb_attrs b = pb_attrs b'" "pb_addrs b = pb_addrs b'"
  have t: "type_bytes b = type_bytes b'" by (rule ext) (simp add: type_bytes_def s packetbuf_attr_def packetbuf_addr_def split: hdr_type.split)
  moreover have "hdr_bits b a = hdr_bits b' a" by (induction a) (auto simp: t)
  moreover have "fits b x = fits b' x" for x by (cases x; cases "fst x") (auto simp: s packetbuf_attr_def)
  ultimately show ?thesis by blast
qed

lemma header_payload:
  assumes "pbuf_ok b" and "pb_bufptr b = 0"
  shows "pb_header b @ pb_payload b = take (unat (pb_hdrlen b) + unat (pb_buflen b)) (pb_data b)"
  using packetbuf_dataptr_eq [OF assms(1)] assms(2) by (simp add: pb_header_def pb_payload_def take_add)

lemma hdr_bytes_eq: "n < 256 \<Longrightarrow> n \<le> 8 * hdr_bytes (of_nat n) \<and> hdr_bytes (of_nat n) \<le> 32"
  by (auto simp: hdr_bytes_def unat_of_nat)

text \<open>The loop fills the room between the channel number and the old packet.\<close>

lemma pack_bytes:
  assumes fits: "\<And>x. x \<in> set a \<Longrightarrow> fits b x" and n: "header_size a \<le> 8 * n" and pre: "length pre = 2" and rest: "2 \<le> length rest"
  shows "\<exists>hb. pack_loop b 2 a 0 (pre @ replicate n 0 @ rest) = Ok (pre @ hb @ rest) \<and> length hb = n \<and>
    (\<forall>k < header_size a. bitat hb k = hdr_bits b a ! k)"
proof -
  let ?m = "pre @ replicate n 0 @ rest"
  have zero: "\<not> bitat ?m k" if "8 * 2 + 0 \<le> k" "k < 8 * 2 + 0 + header_size a" for k
  proof -
    have "2 \<le> k div 8" "k div 8 - 2 < n" using that n by auto
    then have "?m ! (k div 8) = 0" using pre by (simp add: nth_append)
    then show ?thesis by (simp add: bitat_def)
  qed
  from pack_loop_eq [of a b 2 0 ?m, OF fits _ zero] obtain m where
    m: "pack_loop b 2 a 0 ?m = Ok m" "length m = length ?m"
      "\<And>k. k < 8 * length ?m \<Longrightarrow> bitat m k \<longleftrightarrow> bitat ?m k \<or> 16 \<le> k \<and> k < 16 + header_size a \<and> hdr_bits b a ! (k - 16)"
    using n pre rest by auto
  have same: "m ! i = ?m ! i" if "i < 2 \<or> n + 2 \<le> i" "i < length ?m" for i
  proof (rule same_byte)
    fix k
    assume "8 * i \<le> k" "k < 8 * i + 8"
    then show "bitat m k = bitat ?m k" using m(3) [of k] that n by auto
  qed
  have "take 2 m = pre"
  proof (rule nth_equalityI)
    show "length (take 2 m) = length pre" using m(2) pre by simp
    then show "take 2 m ! i = pre ! i" if "i < length (take 2 m)" for i
      using same [of i] that pre by (simp add: nth_append)
  qed
  moreover have "drop (n + 2) m = rest"
  proof (rule nth_equalityI)
    show "length (drop (n + 2) m) = length rest" using m(2) pre by simp
    then show "drop (n + 2) m ! i = rest ! i" if "i < length (drop (n + 2) m)" for i
      using same [of "n + 2 + i"] that pre by (simp add: nth_append)
  qed
  moreover have "m = take 2 m @ take n (drop 2 m) @ drop (n + 2) m"
    by (metis append_take_drop_id drop_drop)
  ultimately have split: "m = pre @ take n (drop 2 m) @ rest" by simp
  have "bitat (take n (drop 2 m)) k = hdr_bits b a ! k" if "k < header_size a" for k
  proof -
    have "take n (drop 2 m) ! (k div 8) = m ! (2 + k div 8)" using that n m(2) pre by simp
    moreover have "(16 + k) div 8 = 2 + k div 8" "(16 + k) mod 8 = k mod 8" by presburger+
    ultimately have "bitat (take n (drop 2 m)) k = bitat m (16 + k)" by (simp add: bitat_def)
    then show ?thesis using m(3) [of "16 + k"] zero [of "16 + k"] that n pre by simp
  qed
  then show ?thesis using m(1,2) split pre by (intro exI [of _ "take n (drop 2 m)"]) simp
qed

lemma pack_header_eq:
  assumes ok: "pbuf_ok b" and gap: "pb_bufptr b = 0" and fits: "\<And>x. x \<in> set (ch_attrlist s c) \<Longrightarrow> fits b x"
    and size: "header_size (ch_attrlist s c) < 256" "ch_hdrsize s c = of_nat (header_size (ch_attrlist s c))"
  shows "if hdr_bytes (ch_hdrsize s c) + 2 + length (pb_header b @ pb_payload b) \<le> PACKETBUF_SIZE
    then \<exists>b' hb. pack_header s c b = Ok (True, b') \<and> pbuf_ok b' \<and> pb_bufptr b' = 0 \<and>
      pb_attrs b' = pb_attrs b \<and> pb_addrs b' = pb_addrs b \<and>
      pb_header b' @ pb_payload b' = enc_u16 (channelno s c) @ hb @ pb_header b @ pb_payload b \<and>
      length hb = hdr_bytes (ch_hdrsize s c) \<and>
      (\<forall>k < header_size (ch_attrlist s c). bitat hb k = hdr_bits b (ch_attrlist s c) ! k)
    else pack_header s c b = Ok (False, b)"
proof -
  let ?a = "ch_attrlist s c" and ?h = "unat (pb_hdrlen b)" and ?n = "unat (pb_buflen b)"
  define n where "n = hdr_bytes (ch_hdrsize s c)"
  have n: "header_size ?a \<le> 8 * n" "n \<le> 32" using hdr_bytes_eq [OF size(1)] by (simp_all add: n_def size(2))
  have len: "length (pb_header b @ pb_payload b) = ?h + ?n"
    unfolding header_payload [OF ok gap] using ok by (simp add: pbuf_ok_def)
  have sz: "unat (of_nat (n + 2) :: u16) = n + 2" using n by (simp only: unat_of_nat) simp
  note keep = hdralloc_keeps_packet [OF ok gap, of "of_nat (n + 2)", unfolded sz]
  show ?thesis
  proof (cases "n + 2 + length (pb_header b @ pb_payload b) \<le> PACKETBUF_SIZE")
    case False
    then have "packetbuf_hdralloc (of_nat (n + 2)) b = Ok (False, b)" using keep n unfolding len by (simp add: add.assoc del: of_nat_add split: if_splits)
    then show ?thesis using False unfolding n_def [symmetric] by (simp add: pack_header_def n_def [symmetric] Let_def del: of_nat_add)
  next
    case True
    then obtain b1 where al: "packetbuf_hdralloc (of_nat (n + 2)) b = Ok (True, b1)" using keep n unfolding len by (auto simp: add.assoc simp del: of_nat_add split: if_splits)
    from hdralloc_room [OF ok gap _ al] n obtain mem where
      b1: "b1 = b\<lparr>pb_data := mem, pb_hdrlen := pb_hdrlen b + of_nat (n + 2)\<rparr>" "length mem = 128" "n + 2 + ?h + ?n \<le> 128"
        "take (?h + ?n) (drop (n + 2) mem) = pb_header b @ pb_payload b" by (auto simp del: of_nat_add)
    let ?pre = "[ucast (channelno s c AND 0xff), ucast (drop_bit 8 (channelno s c) AND 0xff)]"
    have cong: "hdr_bits b1 ?a = hdr_bits b ?a" "fits b1 = fits b" using hdr_bits_cong [of b1 b ?a] b1(1) by simp_all
    have "2 \<le> length (drop (n + 2) mem)" using b1(2) n by simp
    from pack_bytes [of ?a b1 n ?pre "drop (n + 2) mem"] \<open>2 \<le> length (drop (n + 2) mem)\<close> obtain hb where
      hb: "pack_loop b1 2 ?a 0 (?pre @ replicate n 0 @ drop (n + 2) mem) = Ok (?pre @ hb @ drop (n + 2) mem)" "length hb = n"
        "\<And>k. k < header_size ?a \<Longrightarrow> bitat hb k = hdr_bits b ?a ! k" using fits cong n by auto
    let ?b = "b1\<lparr>pb_data := ?pre @ hb @ drop (n + 2) mem\<rparr>"
    have put: "put_bytes 2 (replicate n 0) (mem[0 := ?pre ! 0, 1 := ?pre ! 1]) = Ok (?pre @ replicate n 0 @ drop (n + 2) mem)"
    proof -
      obtain x y z where "mem = x # y # z" using b1(2) by (cases mem; cases "tl mem") auto
      then show ?thesis using b1(2) n by (simp add: put_bytes_def)
    qed
    have "mem \<noteq> []" using b1(2) by auto
    have r: "pack_header s c b = Ok (True, ?b)"
      using al put hb(1) b1(1,2) \<open>mem \<noteq> []\<close> by (simp add: pack_header_def n_def [symmetric] Let_def set_byte_def del: of_nat_add)
    have hl: "unat (pb_hdrlen b + of_nat (n + 2)) = n + 2 + ?h"
    proof -
      have "unat (of_nat (n + 2) :: u8) = n + 2" using n by (simp only: unat_of_nat) simp
      then show ?thesis using b1(3) by (simp only: unat_word_ariths) simp
    qed
    have ok': "pbuf_ok ?b" using hl b1 gap hb(2) n(2) by (simp add: pbuf_ok_def)
    have "pb_header ?b @ pb_payload ?b = ?pre @ hb @ take (?h + ?n) (drop (n + 2) mem)"
      using header_payload [OF ok'] b1(1) gap hl hb(2) by simp
    then have "pb_header ?b @ pb_payload ?b = enc_u16 (channelno s c) @ hb @ pb_header b @ pb_payload b"
      using b1(4) by (simp add: enc_u16_def ucast_ff)
    then show ?thesis using True r ok' hb b1(1) gap unfolding n_def [symmetric] by (auto intro!: exI [of _ ?b] exI [of _ hb])
  qed
qed

lemma take_over_keeps:
  "pb_data (take_over b0 a b) = pb_data b" "pb_bufptr (take_over b0 a b) = pb_bufptr b"
  "pb_buflen (take_over b0 a b) = pb_buflen b" "pb_hdrlen (take_over b0 a b) = pb_hdrlen b"
  by (induction b0 a b rule: take_over.induct) (simp_all add: packetbuf_set_attr_def packetbuf_set_addr_def)

lemma take_over_attr:
  "packetbuf_attr t (take_over b0 a b) = (if \<exists>len. (Attr t, len) \<in> set a then packetbuf_attr t b0 else packetbuf_attr t b)"
  by (induction b0 a b rule: take_over.induct) (auto simp: packetbuf_set_attr_def packetbuf_set_addr_def packetbuf_attr_def)

lemma take_over_addr:
  "packetbuf_addr t (take_over b0 a b) = (if \<exists>len. (Addr t, len) \<in> set a then packetbuf_addr t b0 else packetbuf_addr t b)"
  by (induction b0 a b rule: take_over.induct) (auto simp: packetbuf_set_attr_def packetbuf_set_addr_def packetbuf_addr_def)

lemma lookup_loop_chain: "chain h l xs \<Longrightarrow> lookup_loop h no n l = Some (find (\<lambda>p. no p = n) xs)"
  by (induction xs arbitrary: l) (auto simp: lookup_loop.simps list_item_next_def)

lemma channel_lookup_find:
  "chain (ch_next s) (channel_list s) xs \<Longrightarrow> channel_lookup n s = Ok (find (\<lambda>p. channelno s p = n) xs)"
  by (simp add: channel_lookup_def list_head_def lookup_loop_chain)

lemma hdrreduce_two:
  assumes ok: "pbuf_ok b" and pay: "pb_payload b = x @ y" and sz: "length x < 2 ^ 16"
  shows "\<exists>b'. packetbuf_hdrreduce (of_nat (length x)) b = (True, b') \<and> pbuf_ok b' \<and> pb_payload b' = y \<and> pb_data b' = pb_data b \<and>
    packetbuf_dataptr b' = packetbuf_dataptr b + length x \<and> pb_attrs b' = pb_attrs b \<and> pb_addrs b' = pb_addrs b"
proof -
  let ?sz = "of_nat (length x) :: u16"
  have u: "unat ?sz = length x" using sz by (simp add: unat_of_nat)
  have len: "length x + length y = unat (pb_buflen b)"
    using arg_cong [OF pay, of length] ok packetbuf_dataptr_eq [OF ok] by (simp add: pb_payload_def pbuf_ok_def min_def split: if_splits)
  have le: "?sz \<le> pb_buflen b" using len u by (simp add: word_le_nat_alt)
  let ?b = "b\<lparr>pb_bufptr := pb_bufptr b + ?sz, pb_buflen := pb_buflen b - ?sz\<rparr>"
  have r: "packetbuf_hdrreduce ?sz b = (True, ?b)" using le by (simp add: packetbuf_hdrreduce_def not_less)
  have ok': "pbuf_ok ?b" using packetbuf_hdrreduce_ok [OF ok, of ?sz] r by simp
  have "unat (pb_bufptr b + ?sz) = unat (pb_bufptr b) + length x"
    using ok len u by (simp add: unat_word_ariths pbuf_ok_def)
  then have "packetbuf_dataptr ?b = packetbuf_dataptr b + length x"
    using packetbuf_dataptr_eq [OF ok] packetbuf_dataptr_eq [OF ok'] by simp
  then show ?thesis using r ok' hdrreduce_payload [OF ok le] pay u by auto
qed

lemma payload_byte: "pbuf_ok b \<Longrightarrow> i < length (pb_payload b) \<Longrightarrow>
  packetbuf_dataptr b + i < length (pb_data b) \<and> pb_data b ! (packetbuf_dataptr b + i) = pb_payload b ! i"
  by (auto simp: pb_payload_def)

lemma unpack_header_eq:
  assumes ok: "pbuf_ok b" and pay: "pb_payload b = enc_u16 no @ hb @ rest"
    and look: "channel_lookup no s = Ok (Some c)" and hb: "length hb = hdr_bytes (ch_hdrsize s c)"
    and size: "header_size (ch_attrlist s c) < 256" "ch_hdrsize s c = of_nat (header_size (ch_attrlist s c))"
    and fits: "\<And>x. x \<in> set (ch_attrlist s c) \<Longrightarrow> fits b0 x" and junk: "\<And>k. length (junk k) = 2"
    and bits: "\<And>k. k < header_size (ch_attrlist s c) \<Longrightarrow> bitat hb k = hdr_bits b0 (ch_attrlist s c) ! k"
    and room: "packetbuf_dataptr b + 2 + length hb + 1 < PACKETBUF_SIZE"
  shows "\<exists>b'. unpack_header junk s b = Ok (Some c, take_over b0 (ch_attrlist s c) b') \<and> pbuf_ok b' \<and> pb_payload b' = rest \<and>
    pb_attrs b' = pb_attrs b \<and> pb_addrs b' = pb_addrs b"
proof -
  let ?a = "ch_attrlist s c" and ?p = "packetbuf_dataptr b"
  have n: "header_size ?a \<le> 8 * length hb" "length hb \<le> 32" using hdr_bytes_eq [OF size(1)] hb by (simp_all add: size(2))
  obtain b1 where b1: "packetbuf_hdrreduce 2 b = (True, b1)" "pbuf_ok b1" "pb_payload b1 = hb @ rest" "pb_data b1 = pb_data b"
      "packetbuf_dataptr b1 = ?p + 2" "pb_attrs b1 = pb_attrs b" "pb_addrs b1 = pb_addrs b"
    using hdrreduce_two [OF ok pay] by auto
  obtain b2 where b2: "packetbuf_hdrreduce (of_nat (length hb)) b1 = (True, b2)" "pbuf_ok b2" "pb_payload b2 = rest" "pb_data b2 = pb_data b"
      "pb_attrs b2 = pb_attrs b" "pb_addrs b2 = pb_addrs b"
    using hdrreduce_two [OF b1(2,3)] n(2) b1(4-7) by auto
  have ch: "byte_at (Suc ?p) (pb_data b1) = Ok (enc_u16 no ! 1)" "byte_at ?p (pb_data b1) = Ok (enc_u16 no ! 0)"
    using payload_byte [OF ok, of 0] payload_byte [OF ok, of 1] by (simp_all add: byte_at_def b1(4) pay enc_u16_def)
  have no: "push_bit 8 (ucast (enc_u16 no ! 1)) + ucast (enc_u16 no ! 0) = no"
    using dec_enc_u16 [of no] by (simp add: dec_u16_def add.commute)
  have "unpack_loop junk (?p + 2) ?a 0 b2 = Ok (take_over b0 ?a b2)"
  proof (rule unpack_loop_eq)
    show "8 * (?p + 2) + 0 + header_size ?a + 8 < 8 * length (pb_data b2)" using room n ok b2(4) by (simp add: pbuf_ok_def)
    fix k
    assume k: "k < header_size ?a"
    then have "k div 8 < length hb" using n by auto
    then have "pb_data b ! (?p + 2 + k div 8) = hb ! (k div 8)"
      using payload_byte [OF b1(2), of "k div 8"] by (simp add: b1(3-5) nth_append)
    then show "bitat (pb_data b2) (8 * (?p + 2) + 0 + k) = hdr_bits b0 ?a ! k"
      using bits [OF k] unfolding b2(4) add_0_right bitat_shift by (simp add: bitat_def)
  qed (use fits junk in auto)
  then show ?thesis using b1(1,5) b2 ch no look hb by (auto simp: unpack_header_def Let_def)
qed

section \<open>The table of channels\<close>

text \<open>\<open>channels_are s xs\<close>: the channels \<open>xs\<close> are open, the oldest one first.\<close>

definition channels_are :: "channels \<Rightarrow> ptr list \<Rightarrow> bool" where
  "channels_are s xs \<longleftrightarrow> chain (ch_next s) (channel_list s) xs"

lemma channel_init_none: "channels_are (channel_init s) []"
  by (simp add: channels_are_def channel_init_def list_init_def)

lemma find_none: "(\<And>x. x \<in> set xs \<Longrightarrow> \<not> P x) \<Longrightarrow> find P (xs @ ys) = find P ys"
  by (induction xs) auto

lemma channel_open_set:
  assumes "channels_are s xs" and "\<And>p. p \<in> set xs \<Longrightarrow> p \<noteq> c \<Longrightarrow> channelno s p \<noteq> n"
  shows "\<exists>s'. channel_open c n s = Ok s' \<and> channels_are s' (seq_add c xs) \<and> channelno s' = (channelno s)(c := n) \<and>
    ch_attrlist s' = ch_attrlist s \<and> ch_hdrsize s' = ch_hdrsize s \<and> channel_lookup n s' = Ok (Some c)"
proof -
  obtain h l where r: "list_add (ch_next s) (channel_list s) c = Some (h, l)" "chain h l (seq_add c xs)"
    using list_add_chain [of "ch_next s" "channel_list s" xs c] assms(1) by (auto simp: channels_are_def)
  let ?s = "s\<lparr>channelno := (channelno s)(c := n), ch_next := h, channel_list := l\<rparr>"
  have d: "distinct xs" using assms(1) chain_distinct by (auto simp: channels_are_def)
  have "find (\<lambda>p. channelno ?s p = n) (seq_add c xs) = Some c"
    unfolding seq_add_def by (subst find_none) (use assms(2) d in \<open>auto simp: set_remove1_eq\<close>)
  then show ?thesis using r channel_lookup_find [of ?s "seq_add c xs" n] by (auto simp: channel_open_def channels_are_def)
qed

lemma channel_close_set:
  assumes "channels_are s xs"
  shows "\<exists>s'. channel_close c s = Ok s' \<and> channels_are s' (remove1 c xs) \<and> channelno s' = channelno s \<and>
    ch_attrlist s' = ch_attrlist s \<and> ch_hdrsize s' = ch_hdrsize s"
  using list_remove_chain [of "ch_next s" "channel_list s" xs c] assms by (auto simp: channels_are_def channel_close_def)

lemma channel_attributes_set:
  assumes "channels_are s xs" and "channel_lookup n s = Ok (Some c)"
  shows "\<exists>s'. channel_set_attributes n a s = Ok s' \<and> channels_are s' xs \<and> channelno s' = channelno s \<and>
    ch_attrlist s' = (ch_attrlist s)(c := a) \<and> ch_hdrsize s' = (ch_hdrsize s)(c := of_nat (header_size a)) \<and> channel_lookup n s' = Ok (Some c)"
  using assms by (simp add: channel_set_attributes_def chameleon_hdrsize_def channels_are_def channel_lookup_def)

section \<open>Properties\<close>

text \<open>
  \<open>same_channel s c s' c'\<close>: the second node finds, under the number of the channel \<open>c\<close> of the first node, a channel with the same
  attributes. \<open>restored a no b rb rb'\<close>: the packet buffer \<open>rb'\<close> holds the packet of \<open>b\<close> as its data; the listed attributes and
  addresses are those of \<open>b\<close>, the channel is \<open>no\<close>, and the other attributes and addresses are those of \<open>rb\<close>.
\<close>

definition same_channel :: "channels \<Rightarrow> ptr \<Rightarrow> channels \<Rightarrow> ptr \<Rightarrow> bool" where
  "same_channel s c s' c' \<longleftrightarrow> channel_lookup (channelno s c) s' = Ok (Some c') \<and> channelno s' c' = channelno s c \<and>
     ch_attrlist s' c' = ch_attrlist s c \<and> ch_hdrsize s' c' = ch_hdrsize s c"

definition restored :: "attrlist \<Rightarrow> u16 \<Rightarrow> pbuf \<Rightarrow> pbuf \<Rightarrow> pbuf \<Rightarrow> bool" where
  "restored a no b rb rb' \<longleftrightarrow> pb_payload rb' = pb_header b @ pb_payload b \<and>
     (\<forall>t. packetbuf_attr t rb' = (if t = ATTR_CHANNEL then no
        else if \<exists>len. (Attr t, len) \<in> set a then packetbuf_attr t b else packetbuf_attr t rb)) \<and>
     (\<forall>t. packetbuf_addr t rb' = (if \<exists>len. (Addr t, len) \<in> set a then packetbuf_addr t b else packetbuf_addr t rb))"

definition well_sized :: "channels \<Rightarrow> ptr \<Rightarrow> bool" where
  "well_sized s c \<longleftrightarrow> header_size (ch_attrlist s c) < 256 \<and> ch_hdrsize s c = of_nat (header_size (ch_attrlist s c))"

lemma set_attr_keeps:
  "pb_header (packetbuf_set_attr t v b) = pb_header b" "pb_payload (packetbuf_set_attr t v b) = pb_payload b"
  "pbuf_ok (packetbuf_set_attr t v b) = pbuf_ok b" "pb_bufptr (packetbuf_set_attr t v b) = pb_bufptr b"
  "pb_addrs (packetbuf_set_attr t v b) = pb_addrs b" "packetbuf_addr k (packetbuf_set_attr t v b) = packetbuf_addr k b"
  "packetbuf_attr u (packetbuf_set_attr t v b) = (if u = t then v else packetbuf_attr u b)"
  by (simp_all add: pb_header_def pb_payload_def packetbuf_set_attr_def packetbuf_dataptr_def packetbuf_hdrlen_def pbuf_ok_def
      packetbuf_addr_def packetbuf_attr_def)

lemma header_parsed:
  assumes "same_channel s c s' c'" and "well_sized s c" and "\<And>x. x \<in> set (ch_attrlist s c) \<Longrightarrow> fits b x"
    and "pbuf_ok rb" and "packetbuf_dataptr rb + 2 + hdr_bytes (ch_hdrsize s c) + 1 < PACKETBUF_SIZE" and "\<And>k. length (junk k) = 2"
    and pay: "pb_payload rb = enc_u16 (channelno s c) @ hb @ pb_header b @ pb_payload b"
    and hb: "length hb = hdr_bytes (ch_hdrsize s c)" "\<And>k. k < header_size (ch_attrlist s c) \<Longrightarrow> bitat hb k = hdr_bits b (ch_attrlist s c) ! k"
  shows "\<exists>rb'. chameleon_parse junk s' rb = Ok (Some c', rb') \<and> pbuf_ok rb' \<and> restored (ch_attrlist s c) (channelno s c) b rb rb'"
proof -
  have ch: "channel_lookup (channelno s c) s' = Ok (Some c')" "channelno s' c' = channelno s c"
      "ch_attrlist s' c' = ch_attrlist s c" "ch_hdrsize s' c' = ch_hdrsize s c" using assms(1) by (simp_all add: same_channel_def)
  from unpack_header_eq [OF assms(4) pay ch(1), of b junk] obtain rb1 where
    r: "unpack_header junk s' rb = Ok (Some c', take_over b (ch_attrlist s c) rb1)" "pbuf_ok rb1" "pb_payload rb1 = pb_header b @ pb_payload b"
      "pb_attrs rb1 = pb_attrs rb" "pb_addrs rb1 = pb_addrs rb"
    using hb assms(2,3,5,6) ch by (auto simp: well_sized_def)
  let ?t = "take_over b (ch_attrlist s c) rb1"
  have t: "pbuf_ok ?t" "pb_payload ?t = pb_payload rb1"
    using r(2) by (simp_all add: pb_payload_def packetbuf_dataptr_def packetbuf_hdrlen_def pbuf_ok_def take_over_keeps)
  have "packetbuf_attr u rb1 = packetbuf_attr u rb" "packetbuf_addr k rb1 = packetbuf_addr k rb" for u k
    using r(4,5) by (simp_all add: packetbuf_attr_def packetbuf_addr_def)
  then have "restored (ch_attrlist s c) (channelno s c) b rb (packetbuf_set_attr ATTR_CHANNEL (channelno s c) ?t)"
    using r(3) t(2) by (simp add: restored_def set_attr_keeps take_over_attr take_over_addr)
  moreover have "chameleon_parse junk s' rb = Ok (Some c', packetbuf_set_attr ATTR_CHANNEL (channelno s c) ?t)"
    using r(1) ch(2) by (simp add: chameleon_parse_def)
  ultimately show ?thesis using t(1) by (simp add: set_attr_keeps)
qed

lemma header_created:
  assumes "pbuf_ok b" and "pb_bufptr b = 0" and fits: "\<And>x. x \<in> set (ch_attrlist s c) \<Longrightarrow> fits b x" and size: "well_sized s c"
    and room: "hdr_bytes (ch_hdrsize s c) + 2 + length (pb_header b @ pb_payload b) \<le> PACKETBUF_SIZE"
  shows "\<exists>b' hb. chameleon_create s c b = Ok (True, b') \<and> pbuf_ok b' \<and> pb_bufptr b' = 0 \<and> pb_addrs b' = pb_addrs b \<and>
    (\<forall>t. packetbuf_attr t b' = (if t = ATTR_CHANNEL then channelno s c else packetbuf_attr t b)) \<and>
    pb_header b' @ pb_payload b' = enc_u16 (channelno s c) @ hb @ pb_header b @ pb_payload b \<and> length hb = hdr_bytes (ch_hdrsize s c) \<and>
    (\<forall>k < header_size (ch_attrlist s c). bitat hb k = hdr_bits b (ch_attrlist s c) ! k)"
proof -
  from pack_header_eq [OF assms(1,2) fits, of s c] size room obtain b1 hb where
    b1: "pack_header s c b = Ok (True, b1)" "pbuf_ok b1" "pb_bufptr b1 = 0" "pb_attrs b1 = pb_attrs b" "pb_addrs b1 = pb_addrs b"
      "pb_header b1 @ pb_payload b1 = enc_u16 (channelno s c) @ hb @ pb_header b @ pb_payload b"
    and hb: "length hb = hdr_bytes (ch_hdrsize s c)" "\<And>k. k < header_size (ch_attrlist s c) \<Longrightarrow> bitat hb k = hdr_bits b (ch_attrlist s c) ! k"
    by (auto simp: well_sized_def split: if_splits)
  let ?b = "packetbuf_set_attr ATTR_CHANNEL (channelno s c) b1"
  have "chameleon_create s c b = Ok (True, ?b)" using b1(1) by (simp add: chameleon_create_def)
  moreover have "packetbuf_attr t b1 = packetbuf_attr t b" for t using b1(4) by (simp add: packetbuf_attr_def)
  ultimately show ?thesis using b1 hb by (intro exI [of _ ?b] exI [of _ hb]) (simp add: set_attr_keeps)
qed

text \<open>
  C9: A packet header is undone at the receiver. Both nodes have opened a channel with the same number and the same attribute list, and
  every value is sent whole or fits into its at most 8 bits. When the packet and the header fit into the packet buffer,
  \<open>chameleon_create\<close> succeeds, and when the bytes it made arrive as the data of the receiver's packet buffer, with the header not at the very end of
  it, \<open>chameleon_parse\<close> finds the channel, leaves exactly the packet that was sent as the data, and sets each listed attribute and
  address to the sender's value, \<open>PACKETBUF_ATTR_CHANNEL\<close> to the number of the channel, and changes no other.
  When they do not fit, \<open>chameleon_create\<close> reports it and leaves the packet as it was.\<close>

theorem chameleon_round_trip:
  assumes "pbuf_ok b" and "pb_bufptr b = 0" and "\<forall>x \<in> set (ch_attrlist s c). fits b x" and "well_sized s c" and "same_channel s c s' c'"
    and "pbuf_ok rb" and "packetbuf_dataptr rb + 2 + hdr_bytes (ch_hdrsize s c) + 1 < PACKETBUF_SIZE" and "\<forall>k. length (junk k) = 2"
  shows "if hdr_bytes (ch_hdrsize s c) + 2 + length (pb_header b @ pb_payload b) \<le> PACKETBUF_SIZE
    then \<exists>b'. chameleon_create s c b = Ok (True, b') \<and> pbuf_ok b' \<and> (pb_payload rb = pb_header b' @ pb_payload b' \<longrightarrow>
      (\<exists>rb'. chameleon_parse junk s' rb = Ok (Some c', rb') \<and> pbuf_ok rb' \<and> restored (ch_attrlist s c) (channelno s c) b rb rb'))
    else \<exists>b'. chameleon_create s c b = Ok (False, b') \<and> pb_header b' @ pb_payload b' = pb_header b @ pb_payload b"
proof (cases "hdr_bytes (ch_hdrsize s c) + 2 + length (pb_header b @ pb_payload b) \<le> PACKETBUF_SIZE")
  case False
  then have "pack_header s c b = Ok (False, b)" using pack_header_eq [OF assms(1,2), of s c] assms(3,4) by (auto simp: well_sized_def split: if_splits)
  then show ?thesis using False by (simp add: chameleon_create_def set_attr_keeps)
next
  case True
  have fits: "\<And>x. x \<in> set (ch_attrlist s c) \<Longrightarrow> fits b x" using assms(3) by blast
  from header_created [OF assms(1,2) fits assms(4) True] obtain b' hb where
    b': "chameleon_create s c b = Ok (True, b')" "pbuf_ok b'" "pb_header b' @ pb_payload b' = enc_u16 (channelno s c) @ hb @ pb_header b @ pb_payload b"
      "length hb = hdr_bytes (ch_hdrsize s c)" "\<And>k. k < header_size (ch_attrlist s c) \<Longrightarrow> bitat hb k = hdr_bits b (ch_attrlist s c) ! k" by blast
  have "\<exists>rb'. chameleon_parse junk s' rb = Ok (Some c', rb') \<and> pbuf_ok rb' \<and> restored (ch_attrlist s c) (channelno s c) b rb rb'"
    if "pb_payload rb = pb_header b' @ pb_payload b'"
    by (rule header_parsed [OF assms(5,4) fits assms(6,7)]) (use that b' assms(8) in auto)
  then show ?thesis using True b'(1,2) by auto
qed

definition demo_channels :: channels where
  "demo_channels = \<lparr>ch_next = (\<lambda>_. None), channel_list = Some 4, channelno = (\<lambda>_. 129),
     ch_attrlist = (\<lambda>_. [(Attr ATTR_PACKET_TYPE, 3), (Addr ADDR_SENDER, 16), (Attr ATTR_PACKET_ID, 5)]), ch_hdrsize = (\<lambda>_. 24)\<rparr>"

definition demo_out :: pbuf where
  "demo_out = \<lparr>pb_data = [7, 8] @ replicate 126 0, pb_buflen = 2, pb_bufptr = 0, pb_hdrlen = 0, pb_attrs = (\<lambda>_. 4), pb_addrs = (\<lambda>_. 513)\<rparr>"

definition demo_in :: pbuf where
  "demo_in = \<lparr>pb_data = [129, 0, 0x80, 0x20, 0x44, 7, 8] @ replicate 121 0, pb_buflen = 7, pb_bufptr = 0, pb_hdrlen = 0, pb_attrs = (\<lambda>_. 0), pb_addrs = (\<lambda>_. 0)\<rparr>"

theorem chameleon_round_trip_witness:
  "\<exists>rb'. chameleon_parse (\<lambda>_. [170, 187]) demo_channels demo_in = Ok (Some 4, rb') \<and> pb_payload rb' = [7, 8] \<and>
     packetbuf_attr ATTR_PACKET_TYPE rb' = 4 \<and> packetbuf_attr ATTR_PACKET_ID rb' = 4 \<and> packetbuf_addr ADDR_SENDER rb' = 513 \<and>
     packetbuf_attr ATTR_RSSI rb' = 0"
proof -
  have ok: "pbuf_ok demo_out" "pb_bufptr demo_out = 0" "pbuf_ok demo_in" "\<forall>x \<in> set (ch_attrlist demo_channels 4). fits demo_out x" "well_sized demo_channels 4"
    by (simp_all add: pbuf_ok_def demo_out_def demo_in_def demo_channels_def well_sized_def packetbuf_attr_def)
  have look: "same_channel demo_channels 4 demo_channels 4"
    using channel_lookup_find [of demo_channels "[4]" 129] by (simp add: same_channel_def demo_channels_def)
  have bytes: "(case chameleon_create demo_channels 4 demo_out of Ok (r, b) \<Rightarrow> pb_header b @ pb_payload b | Fault e \<Rightarrow> []) = pb_payload demo_in"
    by code_simp
  have rest: "pb_header demo_out @ pb_payload demo_out = [7, 8]" "packetbuf_dataptr demo_in = 0" "hdr_bytes (ch_hdrsize demo_channels 4) = 3"
    by code_simp+
  from chameleon_round_trip [OF ok(1,2,4,5) look ok(3), of "\<lambda>_. [170, 187]"] bytes rest
  obtain rb' where "chameleon_parse (\<lambda>_. [170, 187]) demo_channels demo_in = Ok (Some 4, rb')"
    "restored (ch_attrlist demo_channels 4) (channelno demo_channels 4) demo_out demo_in rb'" by auto
  then show ?thesis using rest(1)
    by (intro exI [of _ rb']) (auto simp: restored_def demo_channels_def packetbuf_attr_def packetbuf_addr_def demo_out_def demo_in_def)
qed

text \<open>
  A value of more than 8 bits whose length is no multiple of 8 is not read back: \<open>set_bits\<close> takes its last bits from the upper
  end of the byte, and with \<open>bitpos\<close> not 0 it also writes them at the wrong place. A value that does not fit its length is written over the attribute
  in front of it.
\<close>

lemma long_value_lost:
  "bindR (set_bits 0 0 (le16_write 0x0a55) 12 (replicate 4 0)) (\<lambda>mem. get_bits mem 0 0 12 [0, 0]) = Ok (le16_write 0x0055)"
  "bindR (set_bits 0 4 (le16_write 0x0a55) 12 (replicate 4 0)) (\<lambda>mem. get_bits mem 0 4 12 [0, 0]) = Ok (le16_write 0x0055)"
  by code_simp+

lemma large_value_overwrites:
  "bindR (set_bits 0 3 [5] 1 (replicate 2 0)) (\<lambda>mem. get_bits mem 0 0 3 [0, 0]) = Ok [2, 0]"
  by code_simp

end
