(* ===== verification/Aes128.thy ===== *)
theory Aes128
  imports Prelude
begin

unbundle bit_operations_syntax

text \<open>
  The software cipher, \<^verbatim>\<open>src/core/lib/aes-128.c\<close>: key schedule and encryption of a block of 16 bytes. The
  state and the round keys are lists of bytes; assignments to array elements are list updates.
\<close>

section \<open>The tables and the field\<close>

definition sbox :: "u8 list" where
  "sbox =
    [0x63, 0x7c, 0x77, 0x7b, 0xf2, 0x6b, 0x6f, 0xc5, 0x30, 0x01, 0x67, 0x2b, 0xfe, 0xd7, 0xab, 0x76,
     0xca, 0x82, 0xc9, 0x7d, 0xfa, 0x59, 0x47, 0xf0, 0xad, 0xd4, 0xa2, 0xaf, 0x9c, 0xa4, 0x72, 0xc0,
     0xb7, 0xfd, 0x93, 0x26, 0x36, 0x3f, 0xf7, 0xcc, 0x34, 0xa5, 0xe5, 0xf1, 0x71, 0xd8, 0x31, 0x15,
     0x04, 0xc7, 0x23, 0xc3, 0x18, 0x96, 0x05, 0x9a, 0x07, 0x12, 0x80, 0xe2, 0xeb, 0x27, 0xb2, 0x75,
     0x09, 0x83, 0x2c, 0x1a, 0x1b, 0x6e, 0x5a, 0xa0, 0x52, 0x3b, 0xd6, 0xb3, 0x29, 0xe3, 0x2f, 0x84,
     0x53, 0xd1, 0x00, 0xed, 0x20, 0xfc, 0xb1, 0x5b, 0x6a, 0xcb, 0xbe, 0x39, 0x4a, 0x4c, 0x58, 0xcf,
     0xd0, 0xef, 0xaa, 0xfb, 0x43, 0x4d, 0x33, 0x85, 0x45, 0xf9, 0x02, 0x7f, 0x50, 0x3c, 0x9f, 0xa8,
     0x51, 0xa3, 0x40, 0x8f, 0x92, 0x9d, 0x38, 0xf5, 0xbc, 0xb6, 0xda, 0x21, 0x10, 0xff, 0xf3, 0xd2,
     0xcd, 0x0c, 0x13, 0xec, 0x5f, 0x97, 0x44, 0x17, 0xc4, 0xa7, 0x7e, 0x3d, 0x64, 0x5d, 0x19, 0x73,
     0x60, 0x81, 0x4f, 0xdc, 0x22, 0x2a, 0x90, 0x88, 0x46, 0xee, 0xb8, 0x14, 0xde, 0x5e, 0x0b, 0xdb,
     0xe0, 0x32, 0x3a, 0x0a, 0x49, 0x06, 0x24, 0x5c, 0xc2, 0xd3, 0xac, 0x62, 0x91, 0x95, 0xe4, 0x79,
     0xe7, 0xc8, 0x37, 0x6d, 0x8d, 0xd5, 0x4e, 0xa9, 0x6c, 0x56, 0xf4, 0xea, 0x65, 0x7a, 0xae, 0x08,
     0xba, 0x78, 0x25, 0x2e, 0x1c, 0xa6, 0xb4, 0xc6, 0xe8, 0xdd, 0x74, 0x1f, 0x4b, 0xbd, 0x8b, 0x8a,
     0x70, 0x3e, 0xb5, 0x66, 0x48, 0x03, 0xf6, 0x0e, 0x61, 0x35, 0x57, 0xb9, 0x86, 0xc1, 0x1d, 0x9e,
     0xe1, 0xf8, 0x98, 0x11, 0x69, 0xd9, 0x8e, 0x94, 0x9b, 0x1e, 0x87, 0xe9, 0xce, 0x55, 0x28, 0xdf,
     0x8c, 0xa1, 0x89, 0x0d, 0xbf, 0xe6, 0x42, 0x68, 0x41, 0x99, 0x2d, 0x0f, 0xb0, 0x54, 0xbb, 0x16]"

definition galois_mul2 :: "u8 \<Rightarrow> u8" where
  "galois_mul2 value = push_bit 1 value XOR (drop_bit 7 value * 0x1b)"

definition sub :: "u8 \<Rightarrow> u8" where
  "sub x = sbox ! unat x"

section \<open>Key schedule\<close>

text \<open>The bytes 4 to 15 of a round key: \<open>k\<close> holds the bytes before \<open>j\<close>.\<close>

fun key_loop :: "nat \<Rightarrow> u8 list \<Rightarrow> u8 list \<Rightarrow> u8 list" where
  "key_loop 0 prev k = k"
| "key_loop (Suc n) prev k = (let j = length k in key_loop n prev (k @ [prev ! j XOR k ! (j - 4)]))"

definition next_key :: "u8 \<Rightarrow> u8 list \<Rightarrow> u8 list" where
  "next_key rcon prev = key_loop 12 prev
     [sub (prev ! 13) XOR prev ! 0 XOR rcon, sub (prev ! 14) XOR prev ! 1, sub (prev ! 15) XOR prev ! 2, sub (prev ! 12) XOR prev ! 3]"

fun key_rounds :: "nat \<Rightarrow> u8 \<Rightarrow> u8 list \<Rightarrow> u8 list list" where
  "key_rounds 0 rcon prev = [prev]"
| "key_rounds (Suc n) rcon prev = prev # key_rounds n (galois_mul2 rcon) (next_key rcon prev)"

definition aes_set_key :: "u8 list \<Rightarrow> u8 list list" where
  "aes_set_key key = key_rounds 10 0x01 key"

section \<open>Encryption\<close>

definition add_round_key :: "u8 list \<Rightarrow> u8 list \<Rightarrow> u8 list" where
  "add_round_key k st = map (\<lambda>i. st ! i XOR k ! i) [0..<16]"

definition byte_sub :: "u8 list \<Rightarrow> u8 list" where
  "byte_sub st = map (\<lambda>i. sub (st ! i)) [0..<16]"

definition shift_row :: "u8 list \<Rightarrow> u8 list" where
  "shift_row st =
     (let buf1 = st ! 1; st = st[1 := st ! 5]; st = st[5 := st ! 9]; st = st[9 := st ! 13]; st = st[13 := buf1];
          buf1 = st ! 2; buf2 = st ! 6; st = st[2 := st ! 10]; st = st[6 := st ! 14]; st = st[10 := buf1]; st = st[14 := buf2];
          buf1 = st ! 15; st = st[15 := st ! 11]; st = st[11 := st ! 7]; st = st[7 := st ! 3]; st = st[3 := buf1]
      in st)"

definition mix_column :: "nat \<Rightarrow> u8 list \<Rightarrow> u8 list" where
  "mix_column i st =
     (let buf4 = 4 * i;
          buf1 = st ! buf4 XOR st ! (buf4 + 1) XOR st ! (buf4 + 2) XOR st ! (buf4 + 3);
          buf2 = st ! buf4;
          buf3 = galois_mul2 (st ! buf4 XOR st ! (buf4 + 1));
          st = st[buf4 := st ! buf4 XOR buf3 XOR buf1];
          buf3 = galois_mul2 (st ! (buf4 + 1) XOR st ! (buf4 + 2));
          st = st[buf4 + 1 := st ! (buf4 + 1) XOR buf3 XOR buf1];
          buf3 = galois_mul2 (st ! (buf4 + 2) XOR st ! (buf4 + 3));
          st = st[buf4 + 2 := st ! (buf4 + 2) XOR buf3 XOR buf1];
          buf3 = galois_mul2 (st ! (buf4 + 3) XOR buf2)
      in st[buf4 + 3 := st ! (buf4 + 3) XOR buf3 XOR buf1])"

definition mix_columns :: "u8 list \<Rightarrow> u8 list" where
  "mix_columns st = fold mix_column [0, 1, 2, 3] st"

fun aes_rounds :: "nat \<Rightarrow> u8 list list \<Rightarrow> u8 list \<Rightarrow> u8 list" where
  "aes_rounds round [] st = st"
| "aes_rounds round (k # ks) st =
     (let st = shift_row (byte_sub st);
          st = (if round < 10 then mix_columns st else st)
      in aes_rounds (Suc round) ks (add_round_key k st))"

definition aes_encrypt :: "u8 list list \<Rightarrow> u8 list \<Rightarrow> u8 list" where
  "aes_encrypt round_keys st = aes_rounds 1 (tl round_keys) (add_round_key (hd round_keys) st)"

definition aes_128_set_padded_key :: "(u8 list \<Rightarrow> 'a) \<Rightarrow> u8 list \<Rightarrow> 'a res" where
  "aes_128_set_padded_key set_key key =
     (if 16 < length key then Fault OutOfBounds else Ok (set_key (key @ replicate (16 - length key) 0)))"

end
