(* ===== verification/Aes128_Laws.thy ===== *)
theory Aes128_Laws
  imports Aes128
begin

unbundle bit_operations_syntax

text \<open>
  The cipher of FIPS 197 as a reference: the field of 256 elements, the state as a matrix and the key schedule as a sequence
  of words. The code computes the same function, its table is the one of the standard, and it maps blocks one to one.
\<close>

section \<open>The field of 256 elements\<close>

definition xtime :: "u8 \<Rightarrow> u8" where
  "xtime b = (if bit b 7 then push_bit 1 b XOR 0x1b else push_bit 1 b)"

fun gmul_loop :: "nat \<Rightarrow> u8 \<Rightarrow> u8 \<Rightarrow> u8" where
  "gmul_loop 0 a b = 0"
| "gmul_loop (Suc n) a b = (if bit a 0 then b else 0) XOR gmul_loop n (drop_bit 1 a) (xtime b)"

definition gmul :: "u8 \<Rightarrow> u8 \<Rightarrow> u8" where
  "gmul = gmul_loop 8"

lemma galois_mul2_xtime: "galois_mul2 x = xtime x"
proof -
  have "drop_bit 7 x = (if bit x 7 then 1 else 0)"
  proof (rule bit_word_eqI)
    fix n :: nat
    assume "n < LENGTH(8)"
    then show "bit (drop_bit 7 x) n = bit (if bit x 7 then 1 else 0 :: u8) n"
      by (cases n) (auto simp: bit_simps dest: bit_imp_le_length)
  qed
  then show ?thesis by (simp add: galois_mul2_def xtime_def)
qed

lemma xtime_xor: "xtime (x XOR y) = xtime x XOR xtime y"
  by (simp add: xtime_def bit_simps ac_simps)

lemma gmul_1_2_3: "gmul 1 b = b" "gmul 2 b = xtime b" "gmul 3 b = xtime b XOR b"
proof -
  have z: "gmul_loop n 0 b = 0" for n b by (induction n arbitrary: b) simp_all
  have d: "drop_bit 1 (3 :: u8) = 1" "drop_bit 1 (2 :: u8) = 1" "drop_bit 1 (1 :: u8) = 0" by code_simp+
  have e: "gmul = gmul_loop (Suc (Suc 6))" by (simp add: gmul_def)
  show "gmul 1 b = b" "gmul 2 b = xtime b" "gmul 3 b = xtime b XOR b"
    unfolding e gmul_loop.simps d by (simp_all add: z ac_simps)
qed

section \<open>The reference cipher\<close>

text \<open>FIPS 197: the state has four rows and columns, the key schedule is a sequence of 44 words.\<close>

type_synonym aes_state = "nat \<Rightarrow> nat \<Rightarrow> u8"

definition of_bytes :: "u8 list \<Rightarrow> aes_state" where
  "of_bytes bs = (\<lambda>r c. bs ! (r + 4 * c))"

definition to_bytes :: "aes_state \<Rightarrow> u8 list" where
  "to_bytes s = map (\<lambda>i. s (i mod 4) (i div 4)) [0..<16]"

fun fips_rcon :: "nat \<Rightarrow> u8" where
  "fips_rcon 0 = 1"
| "fips_rcon (Suc n) = gmul 2 (fips_rcon n)"

fun fips_word :: "u8 list \<Rightarrow> nat \<Rightarrow> nat \<Rightarrow> u8" where
  "fips_word key i r =
     (if i < 4 then key ! (4 * i + r)
      else fips_word key (i - 4) r XOR
        (if i mod 4 = 0 then sub (fips_word key (i - 1) ((r + 1) mod 4)) XOR (if r = 0 then fips_rcon (i div 4 - 1) else 0)
         else fips_word key (i - 1) r))"

declare fips_word.simps [simp del]

definition SubBytes :: "aes_state \<Rightarrow> aes_state" where
  "SubBytes s = (\<lambda>r c. sub (s r c))"

definition ShiftRows :: "aes_state \<Rightarrow> aes_state" where
  "ShiftRows s = (\<lambda>r c. s r ((c + r) mod 4))"

definition mix_matrix :: "nat \<Rightarrow> nat \<Rightarrow> u8" where
  "mix_matrix r k = [2, 3, 1, 1] ! ((k + 4 - r) mod 4)"

definition MixColumns :: "aes_state \<Rightarrow> aes_state" where
  "MixColumns s = (\<lambda>r c. gmul (mix_matrix r 0) (s 0 c) XOR gmul (mix_matrix r 1) (s 1 c) XOR
     gmul (mix_matrix r 2) (s 2 c) XOR gmul (mix_matrix r 3) (s 3 c))"

definition AddRoundKey :: "u8 list \<Rightarrow> nat \<Rightarrow> aes_state \<Rightarrow> aes_state" where
  "AddRoundKey key i s = (\<lambda>r c. s r c XOR fips_word key (4 * i + c) r)"

definition fips_cipher :: "u8 list \<Rightarrow> aes_state \<Rightarrow> aes_state" where
  "fips_cipher key s = AddRoundKey key 10 (ShiftRows (SubBytes
     (fold (\<lambda>i s. AddRoundKey key i (MixColumns (ShiftRows (SubBytes s)))) [1..<10] (AddRoundKey key 0 s))))"

section \<open>The steps\<close>

lemma sixteen:
  assumes "length (st :: u8 list) = 16"
  obtains a0 a1 a2 a3 a4 a5 a6 a7 a8 a9 a10 a11 a12 a13 a14 a15 where
    "st = [a0, a1, a2, a3, a4, a5, a6, a7, a8, a9, a10, a11, a12, a13, a14, a15]"
  using assms by (auto simp: numeral_eq_Suc length_Suc_conv)

lemma cells: "[0..<16] = [0, 1, 2, 3, 4, 5, 6, 7, 8, 9, 10, 11, 12, 13, 14, 15 :: nat]"
  by (simp add: upt_rec)

lemma shift_row_eq: "length st = 16 \<Longrightarrow> shift_row st = to_bytes (ShiftRows (of_bytes st))"
  by (erule sixteen) (simp add: shift_row_def to_bytes_def ShiftRows_def of_bytes_def cells)

lemma byte_sub_eq: "byte_sub st = to_bytes (SubBytes (of_bytes st))"
  by (simp add: byte_sub_def to_bytes_def SubBytes_def of_bytes_def)

text \<open>The code shares the sum of the column between its four bytes.\<close>

lemma mix_byte:
  "a XOR xtime (a XOR b) XOR (a XOR b XOR c XOR d) = gmul 2 a XOR gmul 3 b XOR gmul 1 c XOR gmul 1 d"
  "b XOR xtime (b XOR c) XOR (a XOR b XOR c XOR d) = gmul 1 a XOR gmul 2 b XOR gmul 3 c XOR gmul 1 d"
  "c XOR xtime (c XOR d) XOR (a XOR b XOR c XOR d) = gmul 1 a XOR gmul 1 b XOR gmul 2 c XOR gmul 3 d"
  "d XOR xtime (d XOR a) XOR (a XOR b XOR c XOR d) = gmul 3 a XOR gmul 1 b XOR gmul 1 c XOR gmul 2 d"
  unfolding gmul_1_2_3 xtime_xor by (simp_all add: ac_simps)

lemma mix_column_eq:
  assumes "4 * i + 3 < length st" and "st ! (4 * i) = a" "st ! (4 * i + 1) = b" "st ! (4 * i + 2) = c" "st ! (4 * i + 3) = d"
  shows "mix_column i st = st[4 * i := gmul 2 a XOR gmul 3 b XOR gmul 1 c XOR gmul 1 d, 4 * i + 1 := gmul 1 a XOR gmul 2 b XOR gmul 3 c XOR gmul 1 d,
     4 * i + 2 := gmul 1 a XOR gmul 1 b XOR gmul 2 c XOR gmul 3 d, 4 * i + 3 := gmul 3 a XOR gmul 1 b XOR gmul 1 c XOR gmul 2 d]"
  unfolding mix_byte [symmetric] using assms by (simp add: mix_column_def Let_def galois_mul2_xtime)

lemma mix_columns_eq:
  assumes "length st = 16"
  shows "mix_columns st = to_bytes (MixColumns (of_bytes st))"
  using assms
  by (elim sixteen) (simp add: mix_columns_def mix_column_eq [OF _ refl refl refl refl] to_bytes_def MixColumns_def of_bytes_def cells mix_matrix_def)

lemma of_to_bytes: "r < 4 \<Longrightarrow> c < 4 \<Longrightarrow> of_bytes (to_bytes s) r c = s r c"
  by (simp add: of_bytes_def to_bytes_def)

section \<open>The key schedule\<close>

lemma key_loop_spec:
  "4 \<le> length k \<Longrightarrow> length (key_loop n prev k) = length k + n \<and> take (length k) (key_loop n prev k) = k \<and>
    (\<forall>j. length k \<le> j \<longrightarrow> j < length k + n \<longrightarrow> key_loop n prev k ! j = prev ! j XOR key_loop n prev k ! (j - 4))"
proof (induction n arbitrary: k)
  case (Suc n)
  let ?x = "prev ! length k XOR k ! (length k - 4)"
  let ?R = "key_loop n prev (k @ [?x])"
  have R: "key_loop (Suc n) prev k = ?R" by (simp add: Let_def)
  have ih: "length ?R = length k + Suc n" "take (Suc (length k)) ?R = k @ [?x]"
    "\<forall>j. Suc (length k) \<le> j \<longrightarrow> j < length k + Suc n \<longrightarrow> ?R ! j = prev ! j XOR ?R ! (j - 4)"
    using Suc.IH [of "k @ [?x]"] Suc.prems by auto
  have p: "?R ! j = (k @ [?x]) ! j" if "j \<le> length k" for j
    using that arg_cong [OF ih(2), of "\<lambda>l. l ! j"] by (simp only: nth_take less_Suc_eq_le)
  have "?R ! j = prev ! j XOR ?R ! (j - 4)" if "length k \<le> j" "j < length k + Suc n" for j
  proof (cases "j = length k")
    case True
    moreover have "length k - 4 < length k" using Suc.prems by simp
    ultimately show ?thesis using p [of j] p [of "j - 4"] by (simp add: nth_append)
  qed (use ih(3) that in simp)
  moreover have "take (length k) ?R = k" using arg_cong [OF ih(2), of "take (length k)"] by (simp add: min_def)
  ultimately show ?case unfolding R using ih(1) by simp
qed simp

lemma next_key_spec:
  "length (next_key rcon prev) = 16" "next_key rcon prev ! 0 = sub (prev ! 13) XOR prev ! 0 XOR rcon"
  "next_key rcon prev ! 1 = sub (prev ! 14) XOR prev ! 1" "next_key rcon prev ! 2 = sub (prev ! 15) XOR prev ! 2"
  "next_key rcon prev ! 3 = sub (prev ! 12) XOR prev ! 3"
  "4 \<le> j \<Longrightarrow> j < 16 \<Longrightarrow> next_key rcon prev ! j = prev ! j XOR next_key rcon prev ! (j - 4)"
proof -
  let ?k = "[sub (prev ! 13) XOR prev ! 0 XOR rcon, sub (prev ! 14) XOR prev ! 1, sub (prev ! 15) XOR prev ! 2, sub (prev ! 12) XOR prev ! 3]"
  have four: "length ?k = 4" by simp
  have s: "length (next_key rcon prev) = 16 \<and> take 4 (next_key rcon prev) = ?k \<and>
    (\<forall>j. 4 \<le> j \<longrightarrow> j < 16 \<longrightarrow> next_key rcon prev ! j = prev ! j XOR next_key rcon prev ! (j - 4))"
    using key_loop_spec [of ?k 12 prev] unfolding next_key_def four by simp
  then show "length (next_key rcon prev) = 16" "4 \<le> j \<Longrightarrow> j < 16 \<Longrightarrow> next_key rcon prev ! j = prev ! j XOR next_key rcon prev ! (j - 4)" by blast+
  have "next_key rcon prev ! i = ?k ! i" if "i < 4" for i
    using that s arg_cong [of "take 4 (next_key rcon prev)" ?k "\<lambda>l. l ! i"] by (metis nth_take)
  from this [of 0] this [of 1] this [of 2] this [of 3] show "next_key rcon prev ! 0 = sub (prev ! 13) XOR prev ! 0 XOR rcon"
    "next_key rcon prev ! 1 = sub (prev ! 14) XOR prev ! 1" "next_key rcon prev ! 2 = sub (prev ! 15) XOR prev ! 2"
    "next_key rcon prev ! 3 = sub (prev ! 12) XOR prev ! 3" by simp_all
qed

definition round_key_ok :: "u8 list \<Rightarrow> nat \<Rightarrow> u8 list \<Rightarrow> bool" where
  "round_key_ok key i k \<longleftrightarrow> length k = 16 \<and> (\<forall>c < 4. \<forall>r < 4. k ! (4 * c + r) = fips_word key (4 * i + c) r)"

lemma word_step:
  "fips_word key (4 * Suc i) r = fips_word key (4 * i) r XOR sub (fips_word key (4 * i + 3) ((r + 1) mod 4)) XOR (if r = 0 then fips_rcon i else 0)"
  "c \<noteq> 0 \<Longrightarrow> c < 4 \<Longrightarrow> fips_word key (4 * Suc i + c) r = fips_word key (4 * i + c) r XOR fips_word key (4 * Suc i + (c - 1)) r"
proof -
  have "4 * Suc i - 1 = 4 * i + 3" "4 * Suc i - 4 = 4 * i" by simp_all
  then show "fips_word key (4 * Suc i) r = fips_word key (4 * i) r XOR sub (fips_word key (4 * i + 3) ((r + 1) mod 4)) XOR (if r = 0 then fips_rcon i else 0)"
    by (subst fips_word.simps) (simp add: ac_simps)
  assume c: "c \<noteq> 0" "c < 4"
  then have "4 * Suc i + c - 1 = 4 * Suc i + (c - 1)" "4 * Suc i + c - 4 = 4 * i + c" "(4 * Suc i + c) mod 4 \<noteq> 0" by (simp_all add: mod_Suc) presburger
  then show "fips_word key (4 * Suc i + c) r = fips_word key (4 * i + c) r XOR fips_word key (4 * Suc i + (c - 1)) r"
    by (subst fips_word.simps) simp
qed

lemma next_key_ok:
  assumes "round_key_ok key i prev"
  shows "round_key_ok key (Suc i) (next_key (fips_rcon i) prev)"
proof -
  let ?n = "next_key (fips_rcon i) prev"
  have prev: "prev ! (4 * c + r) = fips_word key (4 * i + c) r" if "c < 4" "r < 4" for c r using assms that by (simp add: round_key_ok_def)
  have zero: "?n ! r = fips_word key (4 * Suc i) r" if "r < 4" for r
  proof -
    have p: "prev ! 12 = fips_word key (4 * i + 3) 0" "prev ! 13 = fips_word key (4 * i + 3) 1" "prev ! 14 = fips_word key (4 * i + 3) 2"
      "prev ! 15 = fips_word key (4 * i + 3) 3" "prev ! 0 = fips_word key (4 * i) 0" "prev ! 1 = fips_word key (4 * i) 1"
      "prev ! 2 = fips_word key (4 * i) 2" "prev ! 3 = fips_word key (4 * i) 3"
      using prev [of 3 0] prev [of 3 1] prev [of 3 2] prev [of 3 3] prev [of 0 0] prev [of 0 1] prev [of 0 2] prev [of 0 3] by (simp_all add: eval_nat_numeral)
    from that consider "r = 0" | "r = 1" | "r = 2" | "r = 3" by linarith
    then show ?thesis unfolding word_step(1)
      by cases (simp_all add: next_key_spec [unfolded One_nat_def] p [unfolded One_nat_def] ac_simps flip: numeral_2_eq_2 numeral_3_eq_3)
  qed
  have "?n ! (4 * c + r) = fips_word key (4 * Suc i + c) r" if "c < 4" "r < 4" for c r
    using that
  proof (induction c)
    case 0
    then show ?case using zero by simp
  next
    case (Suc c)
    have "?n ! (4 * Suc c + r) = prev ! (4 * Suc c + r) XOR ?n ! (4 * c + r)" using next_key_spec(6) [of "4 * Suc c + r"] Suc.prems by simp
    then show ?case using prev [of "Suc c" r] Suc word_step(2) [of "Suc c"] by simp
  qed
  then show ?thesis by (simp add: round_key_ok_def next_key_spec(1))
qed

lemma key_rounds_ok:
  assumes "round_key_ok key i prev" and "rcon = fips_rcon i"
  shows "length (key_rounds n rcon prev) = Suc n \<and> (\<forall>j \<le> n. round_key_ok key (i + j) (key_rounds n rcon prev ! j))"
  using assms
proof (induction n arbitrary: i rcon prev)
  case (Suc n)
  have r: "galois_mul2 rcon = fips_rcon (Suc i)" using Suc.prems(2) by (simp add: galois_mul2_xtime gmul_1_2_3)
  have k: "round_key_ok key (Suc i) (next_key rcon prev)" using next_key_ok [OF Suc.prems(1)] Suc.prems(2) by simp
  note ih = Suc.IH [OF k r]
  have "round_key_ok key (i + j) (key_rounds (Suc n) rcon prev ! j)" if "j \<le> Suc n" for j
  proof (cases j)
    case (Suc m)
    then show ?thesis using ih that by simp
  qed (use Suc.prems(1) in simp)
  then show ?case using ih by simp
qed simp

section \<open>Encryption\<close>

lemma length_to_bytes [simp]: "length (to_bytes s) = 16"
  by (simp add: to_bytes_def)

lemma to_of_bytes: "length st = 16 \<Longrightarrow> to_bytes (of_bytes st) = st"
  by (erule sixteen) (simp add: to_bytes_def of_bytes_def cells)

text \<open>Two states are the same when they agree on the four rows and columns; every step only looks there.\<close>

definition same_state :: "aes_state \<Rightarrow> aes_state \<Rightarrow> bool" where
  "same_state s t \<longleftrightarrow> (\<forall>r < 4. \<forall>c < 4. s r c = t r c)"

lemma same_bytes: "same_state s t \<longleftrightarrow> to_bytes s = to_bytes t"
proof
  assume "to_bytes s = to_bytes t"
  then show "same_state s t" unfolding same_state_def by (metis of_to_bytes)
qed (simp add: same_state_def to_bytes_def)

lemma same_of_to: "same_state (of_bytes (to_bytes s)) s"
  by (simp add: same_state_def of_to_bytes)

lemma same_steps:
  assumes "same_state s t"
  shows "same_state (SubBytes s) (SubBytes t)" and "same_state (ShiftRows s) (ShiftRows t)"
    and "same_state (MixColumns s) (MixColumns t)" and "same_state (AddRoundKey key i s) (AddRoundKey key i t)"
  using assms by (simp_all add: same_state_def SubBytes_def ShiftRows_def MixColumns_def AddRoundKey_def)

lemma add_round_key_eq:
  assumes "round_key_ok key i k"
  shows "add_round_key k st = to_bytes (AddRoundKey key i (of_bytes st))"
proof (rule nth_equalityI)
  fix j
  assume "j < length (add_round_key k st)"
  then have j: "j < 16" by (simp add: add_round_key_def)
  then have "j div 4 < 4" "j mod 4 < 4" by simp_all
  then have "k ! (4 * (j div 4) + j mod 4) = fips_word key (4 * i + j div 4) (j mod 4)" using assms unfolding round_key_ok_def by blast
  then show "add_round_key k st ! j = to_bytes (AddRoundKey key i (of_bytes st)) ! j"
    using j by (simp add: add_round_key_def to_bytes_def AddRoundKey_def of_bytes_def)
qed (simp add: add_round_key_def)

lemma round_eq:
  assumes "st = to_bytes s"
  shows "shift_row (byte_sub st) = to_bytes (ShiftRows (SubBytes s))"
    and "mix_columns (shift_row (byte_sub st)) = to_bytes (MixColumns (ShiftRows (SubBytes s)))"
proof -
  have "byte_sub st = to_bytes (SubBytes s)"
    unfolding byte_sub_eq assms same_bytes [symmetric] by (intro same_steps same_of_to)
  then have "shift_row (byte_sub st) = to_bytes (ShiftRows (of_bytes (to_bytes (SubBytes s))))" by (simp add: shift_row_eq)
  also have "\<dots> = to_bytes (ShiftRows (SubBytes s))" unfolding same_bytes [symmetric] by (intro same_steps same_of_to)
  finally show r: "shift_row (byte_sub st) = to_bytes (ShiftRows (SubBytes s))" .
  show "mix_columns (shift_row (byte_sub st)) = to_bytes (MixColumns (ShiftRows (SubBytes s)))"
    unfolding r by (simp add: mix_columns_eq same_bytes [symmetric]) (intro same_steps same_of_to)
qed

lemma add_key_to_bytes:
  "round_key_ok key i k \<Longrightarrow> add_round_key k (to_bytes s) = to_bytes (AddRoundKey key i s)"
  using add_round_key_eq same_steps(4) [OF same_of_to] by (simp add: same_bytes [symmetric])

lemma aes_rounds_eq:
  assumes "\<forall>j < length ks. round_key_ok key (i + j) (ks ! j)" and "i + length ks = 11" and "ks \<noteq> []"
  shows "aes_rounds i ks (to_bytes s) = to_bytes (AddRoundKey key 10 (ShiftRows (SubBytes
     (fold (\<lambda>i s. AddRoundKey key i (MixColumns (ShiftRows (SubBytes s)))) [i..<10] s))))"
  using assms
proof (induction ks arbitrary: i s)
  case (Cons k ks)
  have k: "round_key_ok key i k" using Cons.prems(1) by auto
  show ?case
  proof (cases ks)
    case Nil
    then have "i = 10" using Cons.prems(2) by simp
    then show ?thesis using Nil k by (simp add: round_eq [OF refl] add_key_to_bytes Let_def)
  next
    case (Cons k' ks')
    then have i: "i < 10" "ks \<noteq> []" using Cons.prems(2) by auto
    have ks: "\<forall>j < length ks. round_key_ok key (Suc i + j) (ks ! j)" using Cons.prems(1) by fastforce
    have "aes_rounds i (k # ks) (to_bytes s) = aes_rounds (Suc i) ks (to_bytes (AddRoundKey key i (MixColumns (ShiftRows (SubBytes s)))))"
      using i k by (simp add: round_eq(2) [OF refl] add_key_to_bytes Let_def)
    also have "\<dots> = to_bytes (AddRoundKey key 10 (ShiftRows (SubBytes (fold (\<lambda>i s. AddRoundKey key i (MixColumns (ShiftRows (SubBytes s)))) [Suc i..<10]
         (AddRoundKey key i (MixColumns (ShiftRows (SubBytes s))))))))"
      using Cons.IH [OF ks _ i(2)] Cons.prems(2) by simp
    finally show ?thesis using i by (simp add: upt_rec)
  qed
qed simp

lemma aes_encrypt_fips:
  assumes "length key = 16" and "length st = 16"
  shows "aes_encrypt (aes_set_key key) st = to_bytes (fips_cipher key (of_bytes st))"
proof -
  have k0: "round_key_ok key 0 key" using assms(1) by (simp add: round_key_ok_def fips_word.simps)
  note ks = key_rounds_ok [OF k0, of 1 10, simplified]
  let ?ks = "key_rounds 10 1 key"
  have h: "hd ?ks = key" "?ks = key # tl ?ks" by (simp_all add: numeral_eq_Suc)
  have t: "\<forall>j < length (tl ?ks). round_key_ok key (1 + j) (tl ?ks ! j)" "1 + length (tl ?ks) = 11" "tl ?ks \<noteq> []"
    using ks by (auto simp: nth_tl simp flip: length_greater_0_conv)
  have "add_round_key key st = to_bytes (AddRoundKey key 0 (of_bytes st))" by (rule add_round_key_eq [OF k0])
  then show ?thesis
    using aes_rounds_eq [OF t, of "AddRoundKey key 0 (of_bytes st)"] h(1) by (simp add: aes_encrypt_def aes_set_key_def fips_cipher_def)
qed

section \<open>Decryption is possible\<close>

lemma MixColumns_twice:
  assumes "r < 4"
  shows "MixColumns (MixColumns s) r c = xtime (xtime (s r c)) XOR s r c XOR xtime (xtime (s ((r + 2) mod 4) c))"
proof -
  from assms consider "r = 0" | "r = 1" | "r = 2" | "r = 3" by linarith
  then show ?thesis
    by cases (simp_all add: MixColumns_def mix_matrix_def gmul_1_2_3 xtime_xor ac_simps flip: numeral_2_eq_2 numeral_3_eq_3)
qed

lemma MixColumns_four:
  assumes "r < 4"
  shows "MixColumns (MixColumns (MixColumns (MixColumns s))) r c = s r c"
proof -
  have "(r + 2) mod 4 < 4" "((r + 2) mod 4 + 2) mod 4 = r" using assms by (simp_all add: mod_simps)
  then show ?thesis using assms by (simp add: MixColumns_twice xtime_xor ac_simps)
qed

lemma ShiftRows_four: "same_state (ShiftRows (ShiftRows (ShiftRows (ShiftRows s)))) s"
proof -
  have "((((c + r) mod 4 + r) mod 4 + r) mod 4 + r) mod 4 = c" if "c < 4" for c r :: nat
  proof -
    have "((((c + r) mod 4 + r) mod 4 + r) mod 4 + r) mod 4 = (c + r + r + r + r) mod 4" by (simp only: mod_simps)
    also have "c + r + r + r + r = c + 4 * r" by simp
    finally have "((((c + r) mod 4 + r) mod 4 + r) mod 4 + r) mod 4 = (c + 4 * r) mod 4" .
    then show ?thesis using that by simp
  qed
  then show ?thesis by (simp add: same_state_def ShiftRows_def)
qed

fun split_ok :: "nat \<Rightarrow> u8 list \<Rightarrow> bool" where
  "split_ok 0 xs = (length xs \<le> 1)"
| "split_ok (Suc n) xs = (split_ok n (filter (\<lambda>x. bit x n) xs) \<and> split_ok n (filter (\<lambda>x. \<not> bit x n) xs))"

lemma split_ok_distinct: "split_ok n xs \<Longrightarrow> distinct xs"
proof (induction n arbitrary: xs)
  case 0
  then show ?case by (cases xs) simp_all
next
  case (Suc n)
  then have d: "distinct (filter (\<lambda>x. bit x n) xs)" "distinct (filter (\<lambda>x. \<not> bit x n) xs)" by simp_all
  show ?case
  proof (rule ccontr)
    assume "\<not> distinct xs"
    then obtain us y vs ws where "xs = us @ [y] @ vs @ [y] @ ws" using not_distinct_decomp by blast
    then show False using d by (cases "bit y n") auto
  qed
qed

lemma sub_inj: "sub x = sub y \<Longrightarrow> x = y"
proof -
  have "split_ok 8 sbox" "length sbox = 256" by code_simp+
  then have d: "distinct sbox" "length sbox = 256" using split_ok_distinct by blast+
  have "unat x < 2 ^ LENGTH(8)" "unat y < 2 ^ LENGTH(8)" by (rule unsigned_less)+
  then have "unat x < length sbox" "unat y < length sbox" using d(2) by simp_all
  then have "sub x = sub y \<Longrightarrow> unat x = unat y" using d(1) by (simp add: sub_def nth_eq_iff_index_eq)
  then show "sub x = sub y \<Longrightarrow> x = y" by (simp add: word_unat_eq_iff)
qed

lemma steps_inj:
  assumes "same_state (f s) (f t)" and "f = SubBytes \<or> f = ShiftRows \<or> f = MixColumns \<or> f = AddRoundKey key i"
  shows "same_state s t"
  using assms(2)
proof (elim disjE)
  assume "f = SubBytes"
  then show ?thesis using assms(1) sub_inj by (auto simp: same_state_def SubBytes_def)
next
  assume "f = AddRoundKey key i"
  then show ?thesis using assms(1) by (simp add: same_state_def AddRoundKey_def) (metis bit.xor_left_self xor.commute)
next
  assume f: "f = ShiftRows"
  have "same_state (f (f (f (f s)))) (f (f (f (f t))))" using same_steps(2) assms(1) f by blast
  then show ?thesis using ShiftRows_four [of s] ShiftRows_four [of t] f by (simp add: same_state_def)
next
  assume f: "f = MixColumns"
  have "same_state (f (f (f (f s)))) (f (f (f (f t))))" using same_steps(3) assms(1) f by blast
  then show ?thesis using MixColumns_four f by (simp add: same_state_def)
qed

lemma round_inj:
  assumes "same_state (AddRoundKey key i (MixColumns (ShiftRows (SubBytes s)))) (AddRoundKey key i (MixColumns (ShiftRows (SubBytes t))))"
  shows "same_state s t"
proof -
  from assms have "same_state (MixColumns (ShiftRows (SubBytes s))) (MixColumns (ShiftRows (SubBytes t)))"
    by (rule steps_inj [where f = "AddRoundKey key i" and key = key and i = i]) simp
  then have "same_state (ShiftRows (SubBytes s)) (ShiftRows (SubBytes t))" by (rule steps_inj [where f = MixColumns]) simp
  then have "same_state (SubBytes s) (SubBytes t)" by (rule steps_inj [where f = ShiftRows]) simp
  then show ?thesis by (rule steps_inj [where f = SubBytes]) simp
qed

lemma fips_cipher_inj:
  assumes "same_state (fips_cipher key s) (fips_cipher key t)"
  shows "same_state s t"
proof -
  let ?R = "\<lambda>i s. AddRoundKey key i (MixColumns (ShiftRows (SubBytes s)))"
  have rounds: "same_state (fold ?R is s) (fold ?R is t) \<Longrightarrow> same_state s t" for "is" s t
    by (induction "is" arbitrary: s t) (auto dest: round_inj)
  let ?s = "fold ?R [1..<10] (AddRoundKey key 0 s)" and ?t = "fold ?R [1..<10] (AddRoundKey key 0 t)"
  have "same_state (AddRoundKey key 10 (ShiftRows (SubBytes ?s))) (AddRoundKey key 10 (ShiftRows (SubBytes ?t)))"
    using assms unfolding fips_cipher_def .
  then have "same_state (ShiftRows (SubBytes ?s)) (ShiftRows (SubBytes ?t))" by (rule steps_inj [where f = "AddRoundKey key 10" and key = key and i = 10]) simp
  then have "same_state (SubBytes ?s) (SubBytes ?t)" by (rule steps_inj [where f = ShiftRows]) simp
  then have "same_state ?s ?t" by (rule steps_inj [where f = SubBytes]) simp
  then have "same_state (AddRoundKey key 0 s) (AddRoundKey key 0 t)" by (rule rounds)
  then show ?thesis by (rule steps_inj [where f = "AddRoundKey key 0" and key = key and i = 0]) simp
qed

section \<open>The table\<close>

text \<open>The affine transformation of FIPS 197, 5.1.1, and a function that undoes it.\<close>

definition rotl8 :: "nat \<Rightarrow> u8 \<Rightarrow> u8" where
  "rotl8 k y = push_bit k y OR drop_bit (8 - k) y"

definition affine :: "u8 \<Rightarrow> u8" where
  "affine y = y XOR rotl8 1 y XOR rotl8 2 y XOR rotl8 3 y XOR rotl8 4 y XOR 0x63"

definition unaffine :: "u8 \<Rightarrow> u8" where
  "unaffine s = rotl8 1 s XOR rotl8 3 s XOR rotl8 6 s XOR 0x05"

definition sbox_entry :: "u8 \<Rightarrow> u8 \<Rightarrow> bool" where
  "sbox_entry x s \<longleftrightarrow> (let y = unaffine s in affine y = s \<and> (x = 0 \<and> y = 0 \<or> gmul x y = 1))"

fun entries_from :: "nat \<Rightarrow> u8 list \<Rightarrow> bool" where
  "entries_from i [] = True"
| "entries_from i (s # ss) = (sbox_entry (of_nat i) s \<and> entries_from (Suc i) ss)"

lemma entries_nth: "entries_from i ss \<Longrightarrow> j < length ss \<Longrightarrow> sbox_entry (of_nat (i + j)) (ss ! j)"
proof (induction ss arbitrary: i j)
  case (Cons s ss)
  show ?case
  proof (cases j)
    case (Suc m)
    then show ?thesis using Cons.IH [of "Suc i" m] Cons.prems by (simp add: ac_simps)
  qed (use Cons.prems in simp)
qed simp

lemma entries_append: "entries_from i (xs @ ys) \<longleftrightarrow> entries_from i xs \<and> entries_from (i + length xs) ys"
  by (induction xs arbitrary: i) auto

lemma sbox_part_0: "entries_from 0 (take 32 (drop 0 sbox))"
  by code_simp

lemma sbox_part_1: "entries_from 32 (take 32 (drop 32 sbox))"
  by code_simp

lemma sbox_part_2: "entries_from 64 (take 32 (drop 64 sbox))"
  by code_simp

lemma sbox_part_3: "entries_from 96 (take 32 (drop 96 sbox))"
  by code_simp

lemma sbox_part_4: "entries_from 128 (take 32 (drop 128 sbox))"
  by code_simp

lemma sbox_part_5: "entries_from 160 (take 32 (drop 160 sbox))"
  by code_simp

lemma sbox_part_6: "entries_from 192 (take 32 (drop 192 sbox))"
  by code_simp

lemma sbox_part_7: "entries_from 224 (take 32 (drop 224 sbox))"
  by code_simp

lemma drop_take_32: "32 \<le> length xs \<Longrightarrow> entries_from i (take 32 xs) \<Longrightarrow> entries_from (i + 32) (drop 32 xs) \<Longrightarrow> entries_from i xs"
  using entries_append [of i "take 32 xs" "drop 32 xs"] by (simp add: min_def)

lemma sbox_entries: "entries_from 0 sbox" "length sbox = 256"
proof -
  show l: "length sbox = 256" by code_simp
  have "entries_from 224 (drop 224 sbox)" using sbox_part_7 l by simp
  then have "entries_from 192 (drop 192 sbox)" using sbox_part_6 drop_take_32 [of "drop 192 sbox" 192] l by simp
  then have "entries_from 160 (drop 160 sbox)" using sbox_part_5 drop_take_32 [of "drop 160 sbox" 160] l by simp
  then have "entries_from 128 (drop 128 sbox)" using sbox_part_4 drop_take_32 [of "drop 128 sbox" 128] l by simp
  then have "entries_from 96 (drop 96 sbox)" using sbox_part_3 drop_take_32 [of "drop 96 sbox" 96] l by simp
  then have "entries_from 64 (drop 64 sbox)" using sbox_part_2 drop_take_32 [of "drop 64 sbox" 64] l by simp
  then have "entries_from 32 (drop 32 sbox)" using sbox_part_1 drop_take_32 [of "drop 32 sbox" 32] l by simp
  then show "entries_from 0 sbox" using sbox_part_0 drop_take_32 [of sbox 0] l by simp
qed

lemma sub_entry: "sbox_entry x (sub x)"
proof -
  have "unat x < 2 ^ LENGTH(8)" by (rule unsigned_less)
  then show ?thesis using entries_nth [OF sbox_entries(1), of "unat x"] sbox_entries(2) by (simp add: sub_def)
qed

lemma length_sixteen: "length [0, 1, 2, 3, 4, 5, 6, 7, 8, 9, 10, 11, 12, 13, 14, 15 :: u8] = 16"
  by simp

section \<open>Properties\<close>

text \<open>
  C22: The cipher is the one of FIPS 197: for every key and block of 16 bytes, \<open>encrypt\<close> with the round keys that \<open>set_key\<close> computes
  gives the bytes of the cipher of the standard, with the state as a matrix, the key schedule as a sequence of 44 words, and the columns
  multiplied by a matrix over the field of 256 elements; and every entry of the table of the code is the affine transformation of the inverse in
  that field.\<close>

theorem aes_is_fips197:
  assumes "length key = 16" and "length st = 16"
  shows "aes_encrypt (aes_set_key key) st = to_bytes (fips_cipher key (of_bytes st)) \<and>
    (\<forall>x. \<exists>y. (x = 0 \<and> y = 0 \<or> gmul x y = 1) \<and> sbox ! unat x = affine y)"
  using aes_encrypt_fips [OF assms] sub_entry unfolding sbox_entry_def Let_def sub_def by metis

theorem aes_is_fips197_witness:
  "aes_encrypt (aes_set_key [0, 1, 2, 3, 4, 5, 6, 7, 8, 9, 10, 11, 12, 13, 14, 15]) (replicate 16 7) =
     to_bytes (fips_cipher [0, 1, 2, 3, 4, 5, 6, 7, 8, 9, 10, 11, 12, 13, 14, 15] (of_bytes (replicate 16 7))) \<and>
   (\<exists>y. gmul 0x53 y = 1 \<and> sbox ! 0x53 = affine y)"
proof -
  have u: "unat (0x53 :: u8) = 0x53" "(0x53 :: u8) \<noteq> 0" by simp_all
  show ?thesis using aes_is_fips197 [of "[0, 1, 2, 3, 4, 5, 6, 7, 8, 9, 10, 11, 12, 13, 14, 15]" "replicate 16 7"] u by (metis (no_types, lifting) length_replicate length_sixteen)
qed

text \<open>
  For every key, encryption maps the blocks of 16 bytes one to one onto the blocks of 16 bytes: every block can be decrypted, and
  there is one block for every ciphertext.\<close>

lemma aes_encrypt_bijective:
  assumes "length key = 16"
  shows "bij_betw (aes_encrypt (aes_set_key key)) {st. length st = 16} {st. length st = 16}"
proof -
  let ?B = "{st :: u8 list. length st = 16}" and ?e = "aes_encrypt (aes_set_key key)"
  have "finite {xs. set xs \<subseteq> (UNIV :: u8 set) \<and> length xs = 16}" by (rule finite_lists_length_eq) simp
  then have fin: "finite ?B" by simp
  have len: "?e ` ?B \<subseteq> ?B" using aes_encrypt_fips [OF assms] by auto
  have "inj_on ?e ?B"
  proof (rule inj_onI)
    fix st st'
    assume st: "st \<in> ?B" "st' \<in> ?B" and e: "?e st = ?e st'"
    have "same_state (fips_cipher key (of_bytes st)) (fips_cipher key (of_bytes st'))"
      using e st aes_encrypt_fips [OF assms] by (simp add: same_bytes)
    then have "to_bytes (of_bytes st) = to_bytes (of_bytes st')" using fips_cipher_inj same_bytes by blast
    then show "st = st'" using to_of_bytes st by simp
  qed
  then show ?thesis using endo_inj_surj [OF fin len] by (simp add: bij_betw_def)
qed

lemma aes_encrypt_bijective_example:
  "aes_encrypt (aes_set_key (replicate 16 1)) (replicate 16 0) \<noteq> aes_encrypt (aes_set_key (replicate 16 1)) (replicate 16 2) \<and>
   (\<exists>st. length st = 16 \<and> aes_encrypt (aes_set_key (replicate 16 1)) st = replicate 16 0)"
proof -
  let ?e = "aes_encrypt (aes_set_key (replicate 16 1))"
  have b: "bij_betw ?e {st. length st = 16} {st. length st = 16}" by (rule aes_encrypt_bijective) simp
  have "replicate 16 0 \<noteq> (replicate 16 2 :: u8 list)" by (simp add: replicate_eq_replicate)
  then have "?e (replicate 16 0) \<noteq> ?e (replicate 16 2)" using inj_onD [OF bij_betw_imp_inj_on [OF b]] by fastforce
  moreover have "replicate 16 0 \<in> ?e ` {st. length st = 16}" using bij_betw_imp_surj_on [OF b] by simp
  ultimately show ?thesis by auto
qed

end
