(* ===== verification/Nullsec_Laws.thy ===== *)
theory Nullsec_Laws
  imports Nullsec Csma_Send_Laws Aes128_Laws
begin

unbundle bit_operations_syntax

text \<open>
  What one node scrambles another one that knows the same two addresses restores, as long as the packet has at most 16 bytes in
  front of its time-sync frame; a longer or a shorter packet makes the loop leave the block.
\<close>

section \<open>The loop\<close>

definition crypt :: "nat \<Rightarrow> u8 list \<Rightarrow> u8 list \<Rightarrow> u8 list" where
  "crypt n block bs = map (\<lambda>j. if j < n then bs ! j XOR block ! j else bs ! j) [0..<length bs]"

lemma length_crypt [simp]: "length (crypt n block bs) = length bs"
  by (simp add: crypt_def)

lemma crypt_twice: "crypt n block (crypt n block bs) = bs"
  by (rule nth_equalityI) (simp_all add: crypt_def xor.assoc)

lemma crypt_rest: "drop n (crypt n block bs) = drop n bs"
  by (rule nth_equalityI) (simp_all add: crypt_def)

lemma xor_loop_eq:
  assumes "unat n \<le> length block" and "off + unat n \<le> length mem" and "i \<le> unat n"
  shows "xor_loop i n off block mem = Ok (map (\<lambda>j. if off + i \<le> j \<and> j < off + unat n then mem ! j XOR block ! (j - off) else mem ! j) [0..<length mem])"
  using assms
proof (induction "unat n - i" arbitrary: i mem)
  case 0
  then have "i = unat n" by simp
  then show ?case by (auto intro!: nth_equalityI)
next
  case (Suc d)
  then have i: "i < unat n" by simp
  let ?m = "mem[off + i := mem ! (off + i) XOR block ! i]"
  have "xor_loop i n off block mem = xor_loop (Suc i) n off block ?m" using i Suc.prems by simp
  also have "\<dots> = Ok (map (\<lambda>j. if off + Suc i \<le> j \<and> j < off + unat n then ?m ! j XOR block ! (j - off) else ?m ! j) [0..<length ?m])"
    using Suc.hyps(1) [of "Suc i" ?m] Suc.hyps(2) Suc.prems i by simp
  also have "map (\<lambda>j. if off + Suc i \<le> j \<and> j < off + unat n then ?m ! j XOR block ! (j - off) else ?m ! j) [0..<length ?m] =
      map (\<lambda>j. if off + i \<le> j \<and> j < off + unat n then mem ! j XOR block ! (j - off) else mem ! j) [0..<length mem]"
    using i Suc.prems(2) by (intro map_cong) (auto simp: nth_list_update)
  finally show ?case .
qed

declare xor_loop.simps [simp del]

lemma xor_loop_fault: "i \<le> length block \<Longrightarrow> length block < unat n \<Longrightarrow> xor_loop i n off block mem = Fault OutOfBounds"
proof (induction "length block - i" arbitrary: i mem)
  case 0
  then show ?case by (simp add: xor_loop.simps [of i])
next
  case (Suc d)
  then have "Suc i \<le> length block" "d = length block - Suc i" by simp_all
  then show ?case using Suc.hyps(1) [of "Suc i"] Suc.prems by (simp add: xor_loop.simps [of i])
qed

text \<open>The loop on a part of the memory.\<close>

lemma xor_loop_part:
  assumes "unat n \<le> length block" and "unat n \<le> len" and "off + len \<le> length mem"
  shows "\<exists>mem'. xor_loop 0 n off block mem = Ok mem' \<and> length mem' = length mem \<and>
    take len (drop off mem') = crypt (unat n) block (take len (drop off mem))"
proof -
  let ?m = "map (\<lambda>j. if off + 0 \<le> j \<and> j < off + unat n then mem ! j XOR block ! (j - off) else mem ! j) [0..<length mem]"
  have "xor_loop 0 n off block mem = Ok ?m" by (rule xor_loop_eq) (use assms in simp_all)
  moreover have "take len (drop off ?m) = crypt (unat n) block (take len (drop off mem))"
    by (rule nth_equalityI) (use assms in \<open>auto simp: crypt_def\<close>)
  ultimately show ?thesis by simp
qed

section \<open>Block ciphers\<close>

text \<open>What this layer relies on: the driver turns a block into a block.\<close>

locale block_cipher =
  fixes aes :: "u8 list \<Rightarrow> u8 list \<Rightarrow> u8 list"
  assumes length_block: "length key = 16 \<Longrightarrow> length block = 16 \<Longrightarrow> length (aes key block) = 16"
begin

lemma ns_init_block: "length (ns_block (ns_init aes s)) = 16"
  using length_block [of ns_key] by (simp add: ns_init_def Let_def le32_def ns_key_def)

text \<open>Both sides get the same block, in whatever order they name the two addresses.\<close>

lemma ns_init_symmetric:
  assumes "packetbuf_attr ATTR_DOAES (qpb s) \<noteq> 0" and "packetbuf_attr ATTR_DOAES (qpb t) \<noteq> 0"
    and "packetbuf_attr ATTR_XORPLAINTEXT_A (qpb t) = packetbuf_attr ATTR_XORPLAINTEXT_B (qpb s)"
    and "packetbuf_attr ATTR_XORPLAINTEXT_B (qpb t) = packetbuf_attr ATTR_XORPLAINTEXT_A (qpb s)"
  shows "ns_block (ns_init aes t) = ns_block (ns_init aes s)"
  using assms by (simp add: ns_init_def Let_def mult.commute)

end

interpretation sw: block_cipher "\<lambda>key. aes_encrypt (aes_set_key key)"
  by unfold_locales (simp add: aes_encrypt_fips)

section \<open>Sending and receiving\<close>

lemma whole_packet:
  assumes "pbuf_ok b" and "pb_bufptr b = 0"
  shows "pb_header b @ pb_payload b = take (unat (packetbuf_totlen b)) (pb_data b)"
    and "unat (packetbuf_totlen b) = length (pb_header b @ pb_payload b)" and "unat (packetbuf_totlen b) \<le> length (pb_data b)"
proof -
  have b: "unat (pb_hdrlen b) + unat (pb_buflen b) \<le> 128" "length (pb_data b) = 128" using assms by (simp_all add: pbuf_ok_def)
  have t: "unat (packetbuf_totlen b) = unat (pb_hdrlen b) + unat (pb_buflen b)" using packetbuf_totlen_eq [OF assms(1)] assms(2) by simp
  have d: "packetbuf_dataptr b = unat (pb_hdrlen b)" using packetbuf_dataptr_eq [OF assms(1)] assms(2) by simp
  show "unat (packetbuf_totlen b) \<le> length (pb_data b)" using b t by simp
  show "pb_header b @ pb_payload b = take (unat (packetbuf_totlen b)) (pb_data b)" by (simp add: pb_header_def pb_payload_def t d take_add)
  show "unat (packetbuf_totlen b) = length (pb_header b @ pb_payload b)" using b t d by (simp add: pb_header_def pb_payload_def)
qed

lemma bound_eq: "sz \<le> unat (x :: u16) \<Longrightarrow> unat (x - of_nat sz) = unat x - sz"
  by (metis le_unat_uoi unat_sub word_le_nat_alt)

lemma csma_data:
  assumes "csma_ok N s" and "length mem = length (pb_data (qpb s))"
  shows "csma_ok N (s\<lparr>qpb := (qpb s)\<lparr>pb_data := mem\<rparr>\<rparr>)"
proof -
  have "pbuf_ok (qpb s)" using assms(1) by (simp add: csma_ok_def pk_ok_def qnet_ok_def)
  then have "pbuf_ok ((qpb s)\<lparr>pb_data := mem\<rparr>)" using assms(2) by (simp add: pbuf_ok_def)
  from csma_below [OF assms(1) this] show ?thesis using pb_below by metis
qed

lemma room_for_pb: "room_for a (s\<lparr>qpb := b\<rparr>) = room_for a s"
  by (simp add: room_for_def neighbor_queue_from_addr_def find_nbq_ok)

lemma ns_send_queues:
  assumes ok: "csma_ok N s" "2 \<le> length (rdc_rnds s)" "room_for (packetbuf_addr ADDR_RECEIVER (qpb s)) s" "pb_bufptr (qpb s) = 0"
    and ns: "do_encrypt_decrypt s" "length (ns_block s) = 16"
    and bs: "bs = pb_header (qpb s) @ pb_payload (qpb s)" "sz \<le> length bs" "length bs \<le> sz + 16"
  shows "\<exists>s' x. ns_send sz co cb sent ptr s = Ok s' \<and> csma_ok N s' \<and> fst (the (fst x)) = crypt (length bs - sz) (ns_block s) bs \<and>
    pending s' = (pending s)(packetbuf_addr ADDR_RECEIVER (qpb s) :=
      if packetbuf_attr ATTR_PACKET_TYPE (qpb s) = PACKET_TYPE_ACK then x # pending s (packetbuf_addr ADDR_RECEIVER (qpb s))
      else pending s (packetbuf_addr ADDR_RECEIVER (qpb s)) @ [x])"
proof -
  have pb: "pbuf_ok (qpb s)" using ok(1) by (simp add: csma_ok_def pk_ok_def qnet_ok_def)
  note w = whole_packet [OF pb ok(4), folded bs(1)]
  let ?n = "packetbuf_totlen (qpb s) - of_nat sz"
  have n: "unat ?n = length bs - sz" using bound_eq w(2) bs(2) by simp
  have n16: "length bs - sz \<le> 16" using bs(3) by simp
  from xor_loop_part [of ?n "ns_block s" "length bs" 0 "pb_data (qpb s)"] obtain mem where
    m: "xor_loop 0 ?n 0 (ns_block s) (pb_data (qpb s)) = Ok mem" "length mem = length (pb_data (qpb s))"
    "take (length bs) mem = crypt (length bs - sz) (ns_block s) (take (length bs) (pb_data (qpb s)))"
    using n n16 ns(2) w(2,3) by auto
  let ?b = "(qpb s)\<lparr>pb_data := mem\<rparr>"
  let ?t = "s\<lparr>qpb := ?b\<rparr>"
  have t: "csma_ok N ?t" by (rule csma_data [OF ok(1) m(2)])
  have "pbuf_ok ?b" using pb m(2) by (simp add: pbuf_ok_def)
  moreover have tot: "packetbuf_totlen ?b = packetbuf_totlen (qpb s)" by (simp add: packetbuf_totlen_def packetbuf_hdrlen_def packetbuf_datalen_def)
  ultimately have "pb_header ?b @ pb_payload ?b = take (length bs) mem" using whole_packet(1) [of ?b] ok(4) w(2) by simp
  moreover have "take (length bs) (pb_data (qpb s)) = bs" unfolding w(2) [symmetric] by (rule w(1) [symmetric])
  ultimately have c: "fst (packet_in ?b) = crypt (length bs - sz) (ns_block s) bs" using m(3) by (simp add: packet_in_def)
  have same: "room_for (packetbuf_addr ADDR_RECEIVER (qpb ?t)) ?t" "packetbuf_addr ADDR_RECEIVER ?b = packetbuf_addr ADDR_RECEIVER (qpb s)"
    "packetbuf_attr ATTR_PACKET_TYPE ?b = packetbuf_attr ATTR_PACKET_TYPE (qpb s)"
    using ok(3) by (simp_all add: room_for_pb packetbuf_addr_def packetbuf_attr_def)
  have "view ?t k = view s k" for k by (rule view_cong) simp_all
  then have pt: "pending ?t = pending s" by (intro pending_cong) (simp_all add: queue_def)
  have "ns_send sz co cb sent ptr s = csma_send_packet co cb sent ptr ?t" using m(1) ns(1) by (simp add: ns_send_def)
  moreover obtain s' x where "csma_send_packet co cb sent ptr ?t = Ok s'" "csma_ok N s'" "stored_as co sent ptr ?t x"
    "pending s' = (pending s)(packetbuf_addr ADDR_RECEIVER (qpb s) :=
      if packetbuf_attr ATTR_PACKET_TYPE (qpb s) = PACKET_TYPE_ACK then x # pending s (packetbuf_addr ADDR_RECEIVER (qpb s))
      else pending s (packetbuf_addr ADDR_RECEIVER (qpb s)) @ [x])"
    using cq.accepted [OF t _ same(1), of co cb sent ptr] ok(2) same(2,3) pt by auto
  moreover have "fst (the (fst x)) = crypt (length bs - sz) (ns_block s) bs"
    using calculation(4) c by (auto simp: stored_as_def numbered_bytes)
  ultimately show ?thesis by (intro exI [of _ s'] exI [of _ x]) simp
qed

lemma ns_input_restores:
  assumes ok: "pbuf_ok (qpb t)" and ns: "do_encrypt_decrypt t" "length (ns_block t) = 16"
    and bs: "pb_payload (qpb t) = crypt (length bs - sz) (ns_block t) bs" "sz \<le> length bs" "length bs \<le> sz + 16"
  shows "\<exists>b. ns_input sz net t = net (t\<lparr>qpb := b\<rparr>) \<and> pbuf_ok b \<and> pb_payload b = bs \<and> pb_attrs b = pb_attrs (qpb t) \<and> pb_addrs b = pb_addrs (qpb t) \<and>
    packetbuf_dataptr b = packetbuf_dataptr (qpb t)"
proof -
  let ?b = "qpb t" and ?off = "packetbuf_dataptr (qpb t)"
  have l: "length bs = length (pb_payload ?b)" using bs(1) by simp
  have fit: "?off + unat (pb_buflen ?b) \<le> length (pb_data ?b)" using ok packetbuf_dataptr_eq [OF ok] by (simp add: pbuf_ok_def)
  then have len: "unat (pb_buflen ?b) = length bs" using l by (simp add: pb_payload_def)
  let ?n = "packetbuf_datalen ?b - of_nat sz"
  have n: "unat ?n = length bs - sz" using bound_eq len bs(2) by (simp add: packetbuf_datalen_def)
  have n16: "length bs - sz \<le> 16" using bs(3) by simp
  from xor_loop_part [of ?n "ns_block t" "length bs" ?off "pb_data ?b"] obtain mem where
    m: "xor_loop 0 ?n ?off (ns_block t) (pb_data ?b) = Ok mem" "length mem = length (pb_data ?b)"
    "take (length bs) (drop ?off mem) = crypt (length bs - sz) (ns_block t) (pb_payload ?b)"
    using n n16 ns(2) fit len by (auto simp: pb_payload_def)
  let ?b' = "?b\<lparr>pb_data := mem\<rparr>"
  have "pb_payload ?b' = take (length bs) (drop ?off mem)" using len by (simp add: pb_payload_def packetbuf_dataptr_def packetbuf_hdrlen_def)
  then have "pb_payload ?b' = bs" using m(3) bs(1) crypt_twice by simp
  then show ?thesis using m(1,2) ns(1) ok by (intro exI [of _ ?b']) (simp add: ns_input_def pbuf_ok_def packetbuf_dataptr_def packetbuf_hdrlen_def)
qed

text \<open>The loop leaves the block when there are more than 16 bytes in front of the time-sync frame, or less than a time-sync frame.\<close>

lemma ns_send_overrun:
  assumes "do_encrypt_decrypt s" and "length (ns_block s) = 16" and "sz + 16 < 2 ^ 15"
    and "unat (packetbuf_totlen (qpb s)) < sz \<or> sz + 16 < unat (packetbuf_totlen (qpb s))" and "unat (packetbuf_totlen (qpb s)) \<le> 2 ^ 15"
  shows "ns_send sz co cb sent ptr s = Fault OutOfBounds"
proof -
  let ?n = "packetbuf_totlen (qpb s) - of_nat sz"
  have "16 < unat ?n"
  proof (cases "unat (packetbuf_totlen (qpb s)) < sz")
    case True
    have "unat (of_nat sz :: u16) = sz" using assms(3) by (simp add: unat_of_nat)
    then have "unat ?n = 2 ^ 16 + unat (packetbuf_totlen (qpb s)) - sz"
      using True assms(3) by (simp add: unat_sub_if')
    then show ?thesis using True assms(3) by simp
  next
    case False
    then show ?thesis using bound_eq [of sz "packetbuf_totlen (qpb s)"] assms(4) by simp
  qed
  then show ?thesis using xor_loop_fault [of 0 "ns_block s" ?n] assms(1,2) by (simp add: ns_send_def)
qed

section \<open>Properties\<close>

text \<open>
  C21: Scrambling is undone at the receiver. Two nodes have initialised link-layer security from packet buffers that name the same two
  addresses, in opposite order, with any cipher that turns blocks of 16 bytes into such blocks. When the first one sends a packet with at most 16
  bytes in front of its time-sync frame, the packet is queued for its receiver with these bytes combined with the block and the time-sync
  frame as it is, and when the bytes arrive at the other
  node, the network layer there is called with exactly the bytes that were sent.\<close>

theorem llsec_round_trip:
  assumes "block_cipher aes"
    and "packetbuf_attr ATTR_DOAES (qpb s0) \<noteq> 0" and "packetbuf_attr ATTR_DOAES (qpb t0) \<noteq> 0"
    and "packetbuf_attr ATTR_XORPLAINTEXT_A (qpb t0) = packetbuf_attr ATTR_XORPLAINTEXT_B (qpb s0)"
    and "packetbuf_attr ATTR_XORPLAINTEXT_B (qpb t0) = packetbuf_attr ATTR_XORPLAINTEXT_A (qpb s0)"
    and "s = (ns_init aes s0)\<lparr>qpb := b\<rparr>" and "csma_ok N s" and "2 \<le> length (rdc_rnds s)"
    and "room_for (packetbuf_addr ADDR_RECEIVER b) s" and "pb_bufptr b = 0"
    and "sz \<le> length (pb_header b @ pb_payload b)" and "length (pb_header b @ pb_payload b) \<le> sz + 16"
  shows "\<exists>s' x. ns_send sz co cb sent ptr s = Ok s' \<and> csma_ok N s' \<and>
    pending s' = (pending s)(packetbuf_addr ADDR_RECEIVER b :=
      if packetbuf_attr ATTR_PACKET_TYPE b = PACKET_TYPE_ACK then x # pending s (packetbuf_addr ADDR_RECEIVER b)
      else pending s (packetbuf_addr ADDR_RECEIVER b) @ [x]) \<and>
    fst (the (fst x)) = crypt (length (pb_header b @ pb_payload b) - sz) (ns_block s) (pb_header b @ pb_payload b) \<and>
    drop (length (pb_header b @ pb_payload b) - sz) (fst (the (fst x))) = drop (length (pb_header b @ pb_payload b) - sz) (pb_header b @ pb_payload b) \<and>
    (\<forall>rb. pbuf_ok rb \<longrightarrow> pb_payload rb = fst (the (fst x)) \<longrightarrow>
      (\<exists>rb'. ns_input sz net ((ns_init aes t0)\<lparr>qpb := rb\<rparr>) = net ((ns_init aes t0)\<lparr>qpb := rb'\<rparr>) \<and>
        pb_payload rb' = pb_header b @ pb_payload b))"
proof -
  let ?bs = "pb_header b @ pb_payload b"
  have on: "do_encrypt_decrypt (ns_init aes s0)" using assms(2) by (simp add: ns_init_def Let_def)
  have blk: "ns_block s = ns_block (ns_init aes s0)" "length (ns_block s) = 16" "do_encrypt_decrypt s" "qpb s = b"
    using assms(6) on by (simp_all add: block_cipher.ns_init_block [OF assms(1)])
  have t: "ns_block (ns_init aes t0) = ns_block s" "do_encrypt_decrypt (ns_init aes t0)"
    using block_cipher.ns_init_symmetric [OF assms(1-5)] blk(1) assms(3) by (simp_all add: ns_init_def Let_def)
  from ns_send_queues [OF assms(7,8) _ _ blk(3,2) refl, unfolded blk(4), OF assms(9,10,11,12), of co cb sent ptr] obtain s' x where
    s': "ns_send sz co cb sent ptr s = Ok s'" "csma_ok N s'" "fst (the (fst x)) = crypt (length ?bs - sz) (ns_block s) ?bs"
    "pending s' = (pending s)(packetbuf_addr ADDR_RECEIVER b :=
      if packetbuf_attr ATTR_PACKET_TYPE b = PACKET_TYPE_ACK then x # pending s (packetbuf_addr ADDR_RECEIVER b)
      else pending s (packetbuf_addr ADDR_RECEIVER b) @ [x])" by blast
  have "\<exists>rb'. ns_input sz net ((ns_init aes t0)\<lparr>qpb := rb\<rparr>) = net ((ns_init aes t0)\<lparr>qpb := rb'\<rparr>) \<and> pb_payload rb' = ?bs"
    if "pbuf_ok rb" "pb_payload rb = fst (the (fst x))" for rb
    using ns_input_restores [of "(ns_init aes t0)\<lparr>qpb := rb\<rparr>" ?bs sz net] that t blk(2) s'(3) assms(11,12) by auto
  then show ?thesis using s' crypt_rest by (intro exI [of _ s'] exI [of _ x]) simp
qed

definition demo_packet :: pbuf where
  "demo_packet = \<lparr>pb_data = [7, 8, 9] @ replicate 125 0, pb_buflen = 2, pb_bufptr = 0, pb_hdrlen = 1, pb_attrs = (\<lambda>_. 5), pb_addrs = (\<lambda>_. 69)\<rparr>"

definition demo_received :: pbuf where
  "demo_received = \<lparr>pb_data = [30, 9, 9] @ replicate 125 0, pb_buflen = 3, pb_bufptr = 0, pb_hdrlen = 0, pb_attrs = (\<lambda>_. 5), pb_addrs = (\<lambda>_. 69)\<rparr>"

definition demo_nullsec :: nullsec where
  "demo_nullsec = csma_init (csma.extend (demo_csma\<lparr>qpb := demo_packet\<rparr>) (nullsec.fields (replicate 16 0) False))"

lemma add_round_key_cipher: "block_cipher add_round_key"
  by unfold_locales (simp add: add_round_key_def)

lemma demo_nullsec_ok: "csma_ok 1 demo_nullsec"
proof -
  let ?s = "csma.extend (demo_csma\<lparr>qpb := demo_packet\<rparr>) (nullsec.fields (replicate 16 0) False)"
  have "qbuf_init ?s = ?s" by (simp add: qbuf_init_def demo_csma_def memb_init_def csma.defs nullsec.defs)
  then have "qnet_ok ?s" using qbuf_init_ok [of ?s] by (simp add: demo_csma_def demo_packet_def pbuf_ok_def memb_init_def csma.defs nullsec.defs)
  then show ?thesis using csma_init_ok [of ?s] by (simp add: demo_nullsec_def demo_csma_def csma.defs nullsec.defs)
qed

theorem llsec_round_trip_witness:
  "\<exists>s' x rb'. ns_send 1 csync_csma (\<lambda>f ptr st k s. Ok s) (Some 4) 5 ((ns_init add_round_key demo_nullsec)\<lparr>qpb := demo_packet\<rparr>) = Ok s' \<and>
     pending s' 69 = [x] \<and>
     ns_input 1 Ok ((ns_init add_round_key demo_nullsec)\<lparr>qpb := demo_received\<rparr>) = Ok ((ns_init add_round_key demo_nullsec)\<lparr>qpb := rb'\<rparr>) \<and>
     pb_payload rb' = [7, 8, 9]"
proof -
  let ?i = "ns_init add_round_key demo_nullsec"
  let ?s = "?i\<lparr>qpb := demo_packet\<rparr>"
  have q: "qpb demo_nullsec = demo_packet" by (simp add: demo_nullsec_def csma_init_def demo_csma_def csma.defs nullsec.defs)
  have a: "packetbuf_attr x demo_packet = 5" "packetbuf_addr k demo_packet = 69" for x k
    by (simp_all add: packetbuf_attr_def packetbuf_addr_def demo_packet_def)
  have same: "csma_ok 1 ?s \<longleftrightarrow> csma_ok 1 demo_nullsec" "room_for 69 ?s = room_for 69 demo_nullsec" "rdc_rnds ?s = rdc_rnds demo_nullsec" "pending ?s 69 = pending demo_nullsec 69"
  proof -
    have f: "neighbor_memb ?s = neighbor_memb demo_nullsec" "neighbor_list ?s = neighbor_list demo_nullsec" "packet_memb ?s = packet_memb demo_nullsec"
      "metadata_memb ?s = metadata_memb demo_nullsec" "bufmem ?s = bufmem demo_nullsec" "buframmem ?s = buframmem demo_nullsec" "qpb ?s = qpb demo_nullsec"
      "rdc_rnds ?s = rdc_rnds demo_nullsec"
      using q by (simp_all add: ns_init_def Let_def)
    note c = q_ok_cong [OF f(1-3)] and p = pk_ok_cong [OF f(5-7,3,4)] and h = qnet_ok_cong(2) [OF f(5-7)]
    show "csma_ok 1 ?s \<longleftrightarrow> csma_ok 1 demo_nullsec" by (simp add: csma_ok_def c p)
    show "rdc_rnds ?s = rdc_rnds demo_nullsec" by (rule f(8))
    show "room_for 69 ?s = room_for 69 demo_nullsec" unfolding room_for_def neighbor_queue_from_addr_def find_nbq_ok c f ..
    have pk: "pkt k ?s = pkt k demo_nullsec" for k by (simp only: pkt_def f(3))
    have "view ?s k = view demo_nullsec k" for k by (rule view_cong [OF pk h f(4)])
    then have "pending ?s = pending demo_nullsec" by (intro pending_cong) (use f(2) c in simp_all)
    then show "pending ?s 69 = pending demo_nullsec 69" by simp
  qed
  have d: "room_for 69 demo_nullsec" "2 \<le> length (rdc_rnds demo_nullsec)" "pending demo_nullsec 69 = []" by code_simp+
  have bs: "pb_header demo_packet @ pb_payload demo_packet = [7, 8, 9]" "pb_payload demo_received = [30, 9, 9]"
    "crypt 2 (ns_block (ns_init add_round_key demo_nullsec)) [7, 8, 9] = [30, 9, 9]" by code_simp+
  have r: "pbuf_ok demo_received" by (simp add: demo_received_def pbuf_ok_def)
  have ok: "csma_ok 1 ?s" "2 \<le> length (rdc_rnds ?s)" "room_for (packetbuf_addr ADDR_RECEIVER demo_packet) ?s" "pb_bufptr demo_packet = 0"
    using demo_nullsec_ok d same a by (simp_all add: demo_packet_def)
  from llsec_round_trip [OF add_round_key_cipher, of demo_nullsec demo_nullsec ?s demo_packet 1 1 csync_csma "\<lambda>f ptr st k s. Ok s" "Some 4" 5 Ok] ok a bs(1) q
  obtain s' x where s': "ns_send 1 csync_csma (\<lambda>f ptr st k s. Ok s) (Some 4) 5 ?s = Ok s'"
    and p: "pending s' = (pending ?s)(69 := pending ?s 69 @ [x])" and x: "fst (the (fst x)) = crypt (Suc (Suc 0)) (ns_block ?i) [7, 8, 9]"
    and restored: "\<And>rb. pbuf_ok rb \<Longrightarrow> pb_payload rb = fst (the (fst x)) \<Longrightarrow>
      \<exists>rb'. ns_input 1 Ok (?i\<lparr>qpb := rb\<rparr>) = Ok (?i\<lparr>qpb := rb'\<rparr>) \<and> pb_payload rb' = [7, 8, 9]"
    by auto
  have "fst (the (fst x)) = [30, 9, 9]" using x bs(3) by (simp add: numeral_2_eq_2)
  then show ?thesis using s' p restored [OF r] bs(2) same(4) d(3) by auto
qed

lemma ns_send_overrun_example:
  "ns_send 8 csync_csma (\<lambda>f ptr st k s. Ok s) None 5 (demo_nullsec\<lparr>do_encrypt_decrypt := True, ns_block := replicate 16 0,
     qpb := demo_packet\<lparr>pb_buflen := 29\<rparr>\<rparr>) = Fault OutOfBounds"
proof -
  have "unat (packetbuf_totlen (demo_packet\<lparr>pb_buflen := 29\<rparr>)) = 30" by code_simp
  then show ?thesis by (intro ns_send_overrun) simp_all
qed

end
