(* ===== verification/Rime_Laws.thy ===== *)
theory Rime_Laws
  imports Rime Chameleon_Laws Nullsec_Laws
begin

text \<open>
  Laws of the network layer. The open connections are the channels of a list with different numbers; opening and closing one leaves the others
  alone. A broadcast is followed from \<open>broadcast_send\<close> through the header, link-layer security and the queues of CSMA, and from the bytes that
  arrive at another node through link-layer security and \<open>chameleon_parse\<close> to the receive function of the connection there. The laws of the packet queues
  (\<open>cq\<close>), of link-layer security and of the headers carry the proof.
\<close>

section \<open>Connections\<close>

text \<open>\<open>listens s c n u\<close>: the connection \<open>c\<close> is open on the channel \<open>n\<close> with the callbacks \<open>u\<close>, and packets of the channel go to it.\<close>

definition listens :: "'s rime_scheme \<Rightarrow> ptr \<Rightarrow> u16 \<Rightarrow> nat \<Rightarrow> bool" where
  "listens s c n u \<longleftrightarrow> channel_lookup n (rchans s) = Ok (Some c) \<and> channelno (rchans s) c = n \<and>
     ch_attrlist (rchans s) c = BROADCAST_ATTRIBUTES \<and> ch_hdrsize (rchans s) c = 56 \<and>
     abc_u s c = BroadcastCallbacks \<and> broadcast_u s c = u"

text \<open>The open channels, with different numbers.\<close>

definition conns_ok :: "'s rime_scheme \<Rightarrow> ptr list \<Rightarrow> bool" where
  "conns_ok s xs \<longleftrightarrow> channels_are (rchans s) xs \<and> inj_on (channelno (rchans s)) (set xs)"

lemma rime_init_conns: "conns_ok (rime_init s) []"
  by (simp add: conns_ok_def rime_init_def Let_def chameleon_init_def channel_init_none)

lemma find_unique: "inj_on f (set xs) \<Longrightarrow> x \<in> set xs \<Longrightarrow> f x = n \<Longrightarrow> find (\<lambda>p. f p = n) xs = Some x"
  by (induction xs) (auto simp: inj_on_def)

lemma lookup_member:
  assumes "conns_ok s xs" and "c \<in> set xs" and "channelno (rchans s) c = n"
  shows "channel_lookup n (rchans s) = Ok (Some c)"
  using assms channel_lookup_find [of "rchans s" xs n] find_unique [of "channelno (rchans s)" xs c n]
  by (simp add: conns_ok_def channels_are_def)

lemma lookup_absent:
  assumes "conns_ok s xs" and "\<And>p. p \<in> set xs \<Longrightarrow> channelno (rchans s) p \<noteq> n"
  shows "channel_lookup n (rchans s) = Ok None"
  using assms channel_lookup_find [of "rchans s" xs n] by (simp add: conns_ok_def channels_are_def find_None_iff)

lemma broadcast_header_size: "header_size BROADCAST_ATTRIBUTES = 56"
  by (simp add: BROADCAST_ATTRIBUTES_def ABC_ATTRIBUTES_def)

lemma broadcast_open_eq:
  assumes "conns_ok s xs" and "\<And>p. p \<in> set xs \<Longrightarrow> p \<noteq> c \<Longrightarrow> channelno (rchans s) p \<noteq> n"
  shows "\<exists>s'. broadcast_open c n u s = Ok s' \<and> conns_ok s' (seq_add c xs) \<and> channelno (rchans s') = (channelno (rchans s))(c := n) \<and>
    ch_attrlist (rchans s') = (ch_attrlist (rchans s))(c := BROADCAST_ATTRIBUTES) \<and> ch_hdrsize (rchans s') = (ch_hdrsize (rchans s))(c := 56) \<and>
    abc_u s' = (abc_u s)(c := BroadcastCallbacks) \<and> broadcast_u s' = (broadcast_u s)(c := u) \<and> qpb s' = qpb s"
proof -
  have x: "channels_are (rchans s) xs" "distinct xs" using assms(1) chain_distinct by (auto simp: conns_ok_def channels_are_def)
  obtain c1 where c1: "channel_open c n (rchans s) = Ok c1" "channels_are c1 (seq_add c xs)" "channelno c1 = (channelno (rchans s))(c := n)"
      "ch_attrlist c1 = ch_attrlist (rchans s)" "ch_hdrsize c1 = ch_hdrsize (rchans s)" "channel_lookup n c1 = Ok (Some c)"
    using channel_open_set [OF x(1), of c n] assms(2) by auto
  obtain c2 where c2: "channel_set_attributes n ABC_ATTRIBUTES c1 = Ok c2" "channels_are c2 (seq_add c xs)" "channelno c2 = channelno c1"
      "ch_attrlist c2 = (ch_attrlist c1)(c := ABC_ATTRIBUTES)" "ch_hdrsize c2 = (ch_hdrsize c1)(c := of_nat (header_size ABC_ATTRIBUTES))"
      "channel_lookup n c2 = Ok (Some c)"
    using channel_attributes_set [OF c1(2,6)] by blast
  obtain c3 where c3: "channel_set_attributes n BROADCAST_ATTRIBUTES c2 = Ok c3" "channels_are c3 (seq_add c xs)" "channelno c3 = channelno c2"
      "ch_attrlist c3 = (ch_attrlist c2)(c := BROADCAST_ATTRIBUTES)" "ch_hdrsize c3 = (ch_hdrsize c2)(c := of_nat (header_size BROADCAST_ATTRIBUTES))"
    using channel_attributes_set [OF c2(2,6)] by blast
  have "inj_on (channelno c3) (set (seq_add c xs))"
    using assms x(2) by (auto simp: inj_on_def seq_add_def set_remove1_eq c1(3) c2(3) c3(3) conns_ok_def)
  then show ?thesis using c1 c2 c3
    by (simp add: broadcast_open_def abc_open_def on_chans_def conns_ok_def broadcast_header_size)
qed

lemma broadcast_close_eq:
  assumes "conns_ok s xs"
  shows "\<exists>s'. broadcast_close c s = Ok s' \<and> conns_ok s' (remove1 c xs) \<and> channelno (rchans s') = channelno (rchans s) \<and>
    ch_attrlist (rchans s') = ch_attrlist (rchans s) \<and> ch_hdrsize (rchans s') = ch_hdrsize (rchans s) \<and>
    abc_u s' = abc_u s \<and> broadcast_u s' = broadcast_u s"
proof -
  obtain c1 where "channel_close c (rchans s) = Ok c1" "channels_are c1 (remove1 c xs)" "channelno c1 = channelno (rchans s)"
      "ch_attrlist c1 = ch_attrlist (rchans s)" "ch_hdrsize c1 = ch_hdrsize (rchans s)"
    using channel_close_set [of "rchans s" xs c] assms by (auto simp: conns_ok_def)
  moreover have "inj_on (channelno (rchans s)) (set (remove1 c xs))"
    using assms set_remove1_subset [of c xs] by (auto simp: conns_ok_def intro: inj_on_subset)
  ultimately show ?thesis by (simp add: broadcast_close_def abc_close_def on_chans_def conns_ok_def)
qed

section \<open>Through the stack\<close>

text \<open>Link-layer security carries a packet to a node with the same block, or with none, whether it is switched on or off.\<close>

definition carries :: "nat \<Rightarrow> nat \<Rightarrow> 's nullsec_scheme \<Rightarrow> bool" where
  "carries sz n s \<longleftrightarrow> (if do_encrypt_decrypt s then length (ns_block s) = 16 \<and> sz \<le> n \<and> n \<le> sz + 16 else True)"

lemma ns_carries:
  assumes ok: "csma_ok N s" "2 \<le> length (rdc_rnds s)" "room_for (packetbuf_addr ADDR_RECEIVER (qpb s)) s" "pb_bufptr (qpb s) = 0"
    and bs: "bs = pb_header (qpb s) @ pb_payload (qpb s)" and c: "carries sz (length bs) s"
  shows "\<exists>s' x. ns_send sz co cb sent ptr s = Ok s' \<and> csma_ok N s' \<and>
    pending s' = (pending s)(packetbuf_addr ADDR_RECEIVER (qpb s) :=
      if packetbuf_attr ATTR_PACKET_TYPE (qpb s) = PACKET_TYPE_ACK then x # pending s (packetbuf_addr ADDR_RECEIVER (qpb s))
      else pending s (packetbuf_addr ADDR_RECEIVER (qpb s)) @ [x]) \<and>
    fst (the (fst x)) = (if do_encrypt_decrypt s then crypt (length bs - sz) (ns_block s) bs else bs) \<and>
    (\<forall>(t :: 'd nullsec_scheme) net. ns_block t = ns_block s \<longrightarrow> do_encrypt_decrypt t = do_encrypt_decrypt s \<longrightarrow> pbuf_ok (qpb t) \<longrightarrow> pb_payload (qpb t) = fst (the (fst x)) \<longrightarrow>
      (\<exists>b. ns_input sz net t = net (t\<lparr>qpb := b\<rparr>) \<and> pbuf_ok b \<and> pb_payload b = bs \<and> pb_attrs b = pb_attrs (qpb t) \<and> pb_addrs b = pb_addrs (qpb t) \<and>
        packetbuf_dataptr b = packetbuf_dataptr (qpb t)))"
proof (cases "do_encrypt_decrypt s")
  case True
  then have c': "length (ns_block s) = 16" "sz \<le> length bs" "length bs \<le> sz + 16" using c by (simp_all add: carries_def)
  from ns_send_queues [OF ok True c'(1) bs c'(2,3), of co cb sent ptr] obtain s' x where
    r: "ns_send sz co cb sent ptr s = Ok s'" "csma_ok N s'" "fst (the (fst x)) = crypt (length bs - sz) (ns_block s) bs"
    "pending s' = (pending s)(packetbuf_addr ADDR_RECEIVER (qpb s) :=
      if packetbuf_attr ATTR_PACKET_TYPE (qpb s) = PACKET_TYPE_ACK then x # pending s (packetbuf_addr ADDR_RECEIVER (qpb s))
      else pending s (packetbuf_addr ADDR_RECEIVER (qpb s)) @ [x])" by blast
  have "\<exists>b. ns_input sz net t = net (t\<lparr>qpb := b\<rparr>) \<and> pbuf_ok b \<and> pb_payload b = bs \<and> pb_attrs b = pb_attrs (qpb t) \<and> pb_addrs b = pb_addrs (qpb t) \<and>
        packetbuf_dataptr b = packetbuf_dataptr (qpb t)"
    if "ns_block t = ns_block s" "do_encrypt_decrypt t = do_encrypt_decrypt s" "pbuf_ok (qpb t)" "pb_payload (qpb t) = fst (the (fst x))"
    for t :: "'d nullsec_scheme" and net :: "'d nullsec_scheme \<Rightarrow> 'd nullsec_scheme res"
    by (rule ns_input_restores) (use that True c' r(3) in auto)
  then show ?thesis using r True by (intro exI [of _ s'] exI [of _ x]) simp
next
  case False
  have pb: "pbuf_ok (qpb s)" using ok(1) by (simp add: csma_ok_def pk_ok_def qnet_ok_def)
  obtain s' x where
    r: "csma_send_packet co cb sent ptr s = Ok s'" "csma_ok N s'" "stored_as co sent ptr s x"
    "pending s' = (pending s)(packetbuf_addr ADDR_RECEIVER (qpb s) :=
      if packetbuf_attr ATTR_PACKET_TYPE (qpb s) = PACKET_TYPE_ACK then x # pending s (packetbuf_addr ADDR_RECEIVER (qpb s))
      else pending s (packetbuf_addr ADDR_RECEIVER (qpb s)) @ [x])"
    using cq.accepted [OF ok(1) _ ok(3), of co cb sent ptr] ok(2) by auto
  have x: "fst (the (fst x)) = bs" using r(3) bs by (auto simp: stored_as_def numbered_bytes packet_in_def)
  have "\<exists>b. ns_input sz net t = net (t\<lparr>qpb := b\<rparr>) \<and> pbuf_ok b \<and> pb_payload b = bs \<and> pb_attrs b = pb_attrs (qpb t) \<and> pb_addrs b = pb_addrs (qpb t) \<and>
        packetbuf_dataptr b = packetbuf_dataptr (qpb t)"
    if "do_encrypt_decrypt t = do_encrypt_decrypt s" "pbuf_ok (qpb t)" "pb_payload (qpb t) = fst (the (fst x))"
    for t :: "'d nullsec_scheme" and net :: "'d nullsec_scheme \<Rightarrow> 'd nullsec_scheme res"
    using that False x by (intro exI [of _ "qpb t"]) (simp add: ns_input_def)
  then show ?thesis using r(1,2,4) False x by (intro exI [of _ s'] exI [of _ x]) (simp add: ns_send_def)
qed

lemma broadcast_fits:
  assumes "packetbuf_attr ATTR_DOAES b < 256" and "x \<in> set BROADCAST_ATTRIBUTES"
  shows "fits b x"
  using assms by (auto simp: BROADCAST_ATTRIBUTES_def ABC_ATTRIBUTES_def word_less_nat_alt)

lemma csma_packet:
  assumes "csma_ok N s" and "pbuf_ok b"
  shows "csma_ok N (s\<lparr>qpb := b\<rparr>)"
  using csma_below [OF assms] pb_below by metis

lemma pending_pb: "pending (s\<lparr>qpb := b\<rparr>) = pending s"
proof -
  have "view (s\<lparr>qpb := b\<rparr>) k = view s k" for k by (rule view_cong) simp_all
  then show ?thesis by (intro pending_cong) (simp_all add: queue_def)
qed

lemma set_addr_keeps:
  "pb_header (packetbuf_set_addr t v b) = pb_header b" "pb_payload (packetbuf_set_addr t v b) = pb_payload b"
  "pbuf_ok (packetbuf_set_addr t v b) = pbuf_ok b" "pb_bufptr (packetbuf_set_addr t v b) = pb_bufptr b"
  "packetbuf_attr u (packetbuf_set_addr t v b) = packetbuf_attr u b"
  "packetbuf_addr k (packetbuf_set_addr t v b) = (if k = t then v else packetbuf_addr k b)"
  by (simp_all add: pb_header_def pb_payload_def packetbuf_set_addr_def packetbuf_dataptr_def packetbuf_hdrlen_def pbuf_ok_def
      packetbuf_addr_def packetbuf_attr_def)

lemma broadcast_channel:
  assumes "listens s c n u"
  shows "well_sized (rchans s) c" "hdr_bytes (ch_hdrsize (rchans s) c) = 7" "ch_attrlist (rchans s) c = BROADCAST_ATTRIBUTES" "channelno (rchans s) c = n"
  using assms by (simp_all add: listens_def well_sized_def broadcast_header_size hdr_bytes_def)

text \<open>The header of a broadcast has whole bytes only.\<close>

definition broadcast_frame :: "u16 \<Rightarrow> pbuf \<Rightarrow> u8 list" where
  "broadcast_frame n b = enc_u16 n @ enc_u16 (packetbuf_addr ADDR_SENDER b) @ [ucast (packetbuf_attr ATTR_DOAES b)] @
     enc_u16 (packetbuf_attr ATTR_XORPLAINTEXT_A b) @ enc_u16 (packetbuf_attr ATTR_XORPLAINTEXT_B b) @ pb_header b @ pb_payload b"

lemma bitat_append: "bitat (xs @ ys) k = (if k < 8 * length xs then bitat xs k else bitat ys (k - 8 * length xs))"
proof (cases "k < 8 * length xs")
  case True
  then have "k div 8 < length xs" by auto
  then show ?thesis using True by (simp add: bitat_def nth_append)
next
  case False
  then obtain j where j: "k = 8 * length xs + j" by (metis le_iff_add not_less)
  show ?thesis by (simp add: j bitat_def nth_append)
qed

lemma hdr_bits_whole:
  "(\<And>t len. (t, len) \<in> set a \<Longrightarrow> len = 8 \<or> len = 16) \<Longrightarrow> k < header_size a \<Longrightarrow>
   hdr_bits b a ! k = bitat (concat (map (\<lambda>(t, len). take (unat len div 8) (type_bytes b t)) a)) k"
proof (induction b a arbitrary: k rule: hdr_bits.induct)
  case (2 b type len a)
  have len: "len = 8 \<or> len = 16" using "2.prems"(1) by auto
  let ?x = "take (unat len div 8) (type_bytes b type)"
  have l: "8 * length ?x = unat len" using len by (auto simp: type_bytes_eq)
  let ?f = "\<lambda>(t, len). take (unat len div 8) (type_bytes b t)"
  have cc: "bitat (concat (map ?f ((type, len) # a))) k = (if k < unat len then bitat ?x k else bitat (concat (map ?f a)) (k - unat len))"
    by (simp only: list.map concat.simps prod.case bitat_append l)
  show ?case
  proof (cases "k < unat len")
    case True
    then have "k div 8 < unat len div 8" using len by auto
    then have "val_bit (type_bytes b type) (unat len) k = bitat ?x k" using len by (auto simp: val_bit_def bitat_def)
    then show ?thesis unfolding cc using True by (simp add: nth_append)
  next
    case False
    have "hdr_bits b a ! (k - unat len) = bitat (concat (map ?f a)) (k - unat len)"
      using "2.prems" False by (intro "2.IH") auto
    then show ?thesis unfolding cc using False by (simp add: nth_append)
  qed
qed simp

lemma same_bits: "length xs = n \<Longrightarrow> length ys = n \<Longrightarrow> (\<And>k. k < 8 * n \<Longrightarrow> bitat xs k = bitat ys k) \<Longrightarrow> xs = ys"
  by (rule nth_equalityI) (auto intro: same_byte)

lemma broadcast_bytes:
  assumes "length hb = 7" and "\<And>k. k < 56 \<Longrightarrow> bitat hb k = hdr_bits b BROADCAST_ATTRIBUTES ! k"
  shows "enc_u16 n @ hb @ pb_header b @ pb_payload b = broadcast_frame n b"
proof -
  let ?w = "concat (map (\<lambda>(t, len). take (unat len div 8) (type_bytes b t)) BROADCAST_ATTRIBUTES)"
  have w: "?w = enc_u16 (packetbuf_addr ADDR_SENDER b) @ [ucast (packetbuf_attr ATTR_DOAES b)] @
      enc_u16 (packetbuf_attr ATTR_XORPLAINTEXT_A b) @ enc_u16 (packetbuf_attr ATTR_XORPLAINTEXT_B b)"
    by (simp add: BROADCAST_ATTRIBUTES_def ABC_ATTRIBUTES_def type_bytes_eq enc_u16_def)
  have "hdr_bits b BROADCAST_ATTRIBUTES ! k = bitat ?w k" if "k < 56" for k
    by (rule hdr_bits_whole) (use that broadcast_header_size in \<open>auto simp: BROADCAST_ATTRIBUTES_def ABC_ATTRIBUTES_def\<close>)
  then have "hb = ?w" using assms by (intro same_bits [of _ 7]) (simp_all add: w)
  then show ?thesis by (simp add: broadcast_frame_def w)
qed

text \<open>The bytes that \<open>broadcast_send\<close> hands to link-layer security, and what the receiver makes of them.\<close>

lemma rime_input_delivers:
  assumes t: "listens t c' n u'" and aes: "packetbuf_attr ATTR_DOAES b0 < 256" and b: "b = packetbuf_set_addr ADDR_SENDER me b0"
    and rb: "pbuf_ok (qpb t)" "packetbuf_dataptr (qpb t) + 10 < PACKETBUF_SIZE" and junk: "\<And>k. length (junk k) = 2"
    and pay: "pb_payload (qpb t) = enc_u16 n @ hb @ pb_header b0 @ pb_payload b0"
    and hb: "length hb = 7" "\<And>k. k < 56 \<Longrightarrow> bitat hb k = hdr_bits b BROADCAST_ATTRIBUTES ! k"
  shows "\<exists>rb. rime_input junk cl t =
      (case broadcast_recv_fn cl u' of None \<Rightarrow> Ok (t\<lparr>qpb := rb\<rparr>) | Some recv \<Rightarrow> recv c' me (t\<lparr>qpb := rb\<rparr>)) \<and>
    pb_payload rb = pb_header b0 @ pb_payload b0 \<and>
    (\<forall>a \<in> {ATTR_DOAES, ATTR_XORPLAINTEXT_A, ATTR_XORPLAINTEXT_B}. packetbuf_attr a rb = packetbuf_attr a b0)"
proof -
  note ch = broadcast_channel [OF t]
  have fits: "\<And>x. x \<in> set BROADCAST_ATTRIBUTES \<Longrightarrow> fits b x" using broadcast_fits [of b] aes b by (simp add: set_addr_keeps)
  have same: "same_channel (rchans t) c' (rchans t) c'" using t by (simp add: same_channel_def listens_def)
  have "\<exists>rb'. chameleon_parse junk (rchans t) (qpb t) = Ok (Some c', rb') \<and> pbuf_ok rb' \<and>
      restored (ch_attrlist (rchans t) c') (channelno (rchans t) c') b (qpb t) rb'"
    by (rule header_parsed [OF same ch(1) _ rb(1)]) (use fits rb junk pay hb ch b in \<open>simp_all add: broadcast_header_size set_addr_keeps\<close>)
  then obtain rb' where r: "chameleon_parse junk (rchans t) (qpb t) = Ok (Some c', rb')" "restored BROADCAST_ATTRIBUTES n b (qpb t) rb'"
    using ch by auto
  have "packetbuf_addr ADDR_SENDER rb' = me" "pb_payload rb' = pb_header b0 @ pb_payload b0"
    "\<forall>a \<in> {ATTR_DOAES, ATTR_XORPLAINTEXT_A, ATTR_XORPLAINTEXT_B}. packetbuf_attr a rb' = packetbuf_attr a b0"
    using r(2) by (auto simp: restored_def BROADCAST_ATTRIBUTES_def b set_addr_keeps)
  then show ?thesis using r t by (intro exI [of _ rb']) (simp add: rime_input_def abc_input_def recv_from_abc_def listens_def split: option.split)
qed

lemma broadcast_send_eq:
  assumes s: "listens s c n u" "pbuf_ok (qpb s)" "pb_bufptr (qpb s) = 0" "packetbuf_attr ATTR_DOAES (qpb s) < 256"
    and room: "9 + length (pb_header (qpb s) @ pb_payload (qpb s)) \<le> PACKETBUF_SIZE"
  shows "\<exists>b hb. broadcast_send_conn sz co cl c s =
      bindR (ns_send sz co (rime_upper cl) (Some PACKET_SENT) c (s\<lparr>qpb := b\<rparr>)) (\<lambda>s. Ok (True, s)) \<and> pbuf_ok b \<and> pb_bufptr b = 0 \<and>
    packetbuf_addr ADDR_RECEIVER b = packetbuf_addr ADDR_RECEIVER (qpb s) \<and>
    packetbuf_attr ATTR_PACKET_TYPE b = packetbuf_attr ATTR_PACKET_TYPE (qpb s) \<and>
    pb_header b @ pb_payload b = enc_u16 n @ hb @ pb_header (qpb s) @ pb_payload (qpb s) \<and> length hb = 7 \<and>
    (\<forall>k < 56. bitat hb k = hdr_bits (packetbuf_set_addr ADDR_SENDER (linkaddr_node_addr s) (qpb s)) BROADCAST_ATTRIBUTES ! k)"
proof -
  let ?b = "packetbuf_set_addr ADDR_SENDER (linkaddr_node_addr s) (qpb s)"
  note ch = broadcast_channel [OF s(1)]
  have fits: "x \<in> set (ch_attrlist (rchans s) c) \<Longrightarrow> fits ?b x" for x using s(4) broadcast_fits [of ?b x] ch(3) by (simp add: set_addr_keeps)
  from header_created [of ?b "rchans s" c, OF _ _ fits ch(1)] s(2,3) room ch(2-4) obtain b hb where
    b: "chameleon_create (rchans s) c ?b = Ok (True, b)" "pbuf_ok b" "pb_bufptr b = 0" "pb_addrs b = pb_addrs ?b"
      "\<And>t. packetbuf_attr t b = (if t = ATTR_CHANNEL then n else packetbuf_attr t ?b)"
      "pb_header b @ pb_payload b = enc_u16 n @ hb @ pb_header (qpb s) @ pb_payload (qpb s)" "length hb = 7"
      "\<And>k. k < 56 \<Longrightarrow> bitat hb k = hdr_bits ?b BROADCAST_ATTRIBUTES ! k"
    by (auto simp: set_addr_keeps broadcast_header_size)
  have "packetbuf_addr ADDR_RECEIVER b = packetbuf_addr ADDR_RECEIVER (qpb s)"
    using b(4) by (simp add: packetbuf_addr_def packetbuf_set_addr_def)
  moreover have "packetbuf_compact b = Ok b" using b(3) by (simp add: packetbuf_compact_def)
  ultimately show ?thesis using b
    by (intro exI [of _ b] exI [of _ hb]) (simp add: broadcast_send_conn_def abc_send_def rime_output_def set_addr_keeps)
qed

section \<open>Properties\<close>

text \<open>
  C8: A broadcast reaches its peers through the whole stack. A node sends on an open broadcast connection; its packet has room for the header of 9 bytes, and
  security is switched off, or has a block of 16 bytes and the packet with its header has a time-sync frame and at most 16 bytes in front of it.
  Then the packet is accepted and queued at CSMA with the state of CSMA well formed. When the queued bytes arrive at a node with the same block that listens on the
  channel, link-layer security and Rime there call the receive function of the connection that listens, with the sender's address, and with
  a packet buffer that holds exactly the data that was sent and the attributes that security is initialised from.\<close>

theorem broadcast_delivered:
  fixes s :: "'s rime_scheme" and t :: "'t rime_scheme"
  assumes "listens s c n u" and "csma_ok N s" and "2 \<le> length (rdc_rnds s)" and "room_for (packetbuf_addr ADDR_RECEIVER (qpb s)) s"
    and "pb_bufptr (qpb s) = 0" and "packetbuf_attr ATTR_DOAES (qpb s) < 256"
    and "9 + length (pb_header (qpb s) @ pb_payload (qpb s)) \<le> PACKETBUF_SIZE"
    and "carries sz (9 + length (pb_header (qpb s) @ pb_payload (qpb s))) s"
    and "listens t c' n u'" and "ns_block t = ns_block s" and "do_encrypt_decrypt t = do_encrypt_decrypt s" and "\<forall>k. length (junk k) = 2"
  shows "\<exists>s' x. broadcast_send_conn sz co cl c s = Ok (True, s') \<and> csma_ok N s' \<and>
    pending s' = (pending s)(packetbuf_addr ADDR_RECEIVER (qpb s) :=
      if packetbuf_attr ATTR_PACKET_TYPE (qpb s) = PACKET_TYPE_ACK then x # pending s (packetbuf_addr ADDR_RECEIVER (qpb s))
      else pending s (packetbuf_addr ADDR_RECEIVER (qpb s)) @ [x]) \<and>
    fst (the (fst x)) = (let f = broadcast_frame n (packetbuf_set_addr ADDR_SENDER (linkaddr_node_addr s) (qpb s))
      in if do_encrypt_decrypt s then crypt (length f - sz) (ns_block s) f else f) \<and>
    (\<forall>rb. pbuf_ok rb \<longrightarrow> packetbuf_dataptr rb + 10 < PACKETBUF_SIZE \<longrightarrow> pb_payload rb = fst (the (fst x)) \<longrightarrow>
      (\<exists>rb'. ns_input sz (rime_input junk cl') (t\<lparr>qpb := rb\<rparr>) = (case broadcast_recv_fn cl' u' of
          None \<Rightarrow> Ok (t\<lparr>qpb := rb'\<rparr>) | Some recv \<Rightarrow> recv c' (linkaddr_node_addr s) (t\<lparr>qpb := rb'\<rparr>)) \<and>
        pb_payload rb' = pb_header (qpb s) @ pb_payload (qpb s) \<and>
        (\<forall>a \<in> {ATTR_DOAES, ATTR_XORPLAINTEXT_A, ATTR_XORPLAINTEXT_B}. packetbuf_attr a rb' = packetbuf_attr a (qpb s))))"
proof -
  let ?b = "packetbuf_set_addr ADDR_SENDER (linkaddr_node_addr s) (qpb s)" and ?bs = "pb_header (qpb s) @ pb_payload (qpb s)"
  have pb: "pbuf_ok (qpb s)" using assms(2) by (simp add: csma_ok_def pk_ok_def qnet_ok_def)
  from broadcast_send_eq [OF assms(1) pb assms(5,6,7), of sz co cl] obtain b hb where
    r: "broadcast_send_conn sz co cl c s = bindR (ns_send sz co (rime_upper cl) (Some PACKET_SENT) c (s\<lparr>qpb := b\<rparr>)) (\<lambda>s. Ok (True, s))"
    and b: "pbuf_ok b" "pb_bufptr b = 0" "packetbuf_addr ADDR_RECEIVER b = packetbuf_addr ADDR_RECEIVER (qpb s)"
      "packetbuf_attr ATTR_PACKET_TYPE b = packetbuf_attr ATTR_PACKET_TYPE (qpb s)" "pb_header b @ pb_payload b = enc_u16 n @ hb @ ?bs" "length hb = 7"
      "\<And>k. k < 56 \<Longrightarrow> bitat hb k = hdr_bits ?b BROADCAST_ATTRIBUTES ! k" by blast
  have len: "carries sz (length (enc_u16 n @ hb @ ?bs)) (s\<lparr>qpb := b\<rparr>)" using assms(8) b(6) by (simp add: carries_def)
  have q: "qpb (s\<lparr>qpb := b\<rparr>) = b" "rdc_rnds (s\<lparr>qpb := b\<rparr>) = rdc_rnds s" "ns_block (s\<lparr>qpb := b\<rparr>) = ns_block s"
    "do_encrypt_decrypt (s\<lparr>qpb := b\<rparr>) = do_encrypt_decrypt s" by simp_all
  from ns_carries [where s = "s\<lparr>qpb := b\<rparr>", unfolded q room_for_pb pending_pb b(3,4),
      OF csma_packet [OF assms(2) b(1)] assms(3,4) b(2) b(5) [symmetric] len, of co "rime_upper cl" "Some PACKET_SENT" c]
  obtain s' x where s': "ns_send sz co (rime_upper cl) (Some PACKET_SENT) c (s\<lparr>qpb := b\<rparr>) = Ok s'" "csma_ok N s'"
    "pending s' = (pending s)(packetbuf_addr ADDR_RECEIVER (qpb s) :=
      if packetbuf_attr ATTR_PACKET_TYPE (qpb s) = PACKET_TYPE_ACK then x # pending s (packetbuf_addr ADDR_RECEIVER (qpb s))
      else pending s (packetbuf_addr ADDR_RECEIVER (qpb s)) @ [x])"
    "fst (the (fst x)) = (if do_encrypt_decrypt s then crypt (length (enc_u16 n @ hb @ ?bs) - sz) (ns_block s) (enc_u16 n @ hb @ ?bs) else enc_u16 n @ hb @ ?bs)"
    and carried: "\<And>(q :: 't rime_scheme) net. ns_block q = ns_block s \<Longrightarrow> do_encrypt_decrypt q = do_encrypt_decrypt s \<Longrightarrow> pbuf_ok (qpb q) \<Longrightarrow> pb_payload (qpb q) = fst (the (fst x)) \<Longrightarrow>
      \<exists>b. ns_input sz net q = net (q\<lparr>qpb := b\<rparr>) \<and> pbuf_ok b \<and> pb_payload b = enc_u16 n @ hb @ ?bs \<and> pb_attrs b = pb_attrs (qpb q) \<and> pb_addrs b = pb_addrs (qpb q) \<and>
        packetbuf_dataptr b = packetbuf_dataptr (qpb q)"
    by blast
  have "\<exists>rb'. ns_input sz (rime_input junk cl') (t\<lparr>qpb := rb\<rparr>) = (case broadcast_recv_fn cl' u' of
          None \<Rightarrow> Ok (t\<lparr>qpb := rb'\<rparr>) | Some recv \<Rightarrow> recv c' (linkaddr_node_addr s) (t\<lparr>qpb := rb'\<rparr>)) \<and> pb_payload rb' = ?bs \<and>
        (\<forall>a \<in> {ATTR_DOAES, ATTR_XORPLAINTEXT_A, ATTR_XORPLAINTEXT_B}. packetbuf_attr a rb' = packetbuf_attr a (qpb s))"
    if rb: "pbuf_ok rb" "packetbuf_dataptr rb + 10 < PACKETBUF_SIZE" "pb_payload rb = fst (the (fst x))" for rb
  proof -
    from carried [of "t\<lparr>qpb := rb\<rparr>" "rime_input junk cl'"] rb assms(10,11) obtain b1 where
      b1: "ns_input sz (rime_input junk cl') (t\<lparr>qpb := rb\<rparr>) = rime_input junk cl' (t\<lparr>qpb := b1\<rparr>)" "pbuf_ok b1" "pb_payload b1 = enc_u16 n @ hb @ ?bs"
        "packetbuf_dataptr b1 = packetbuf_dataptr rb" by auto
    have "listens (t\<lparr>qpb := b1\<rparr>) c' n u'" using assms(9) by (simp add: listens_def)
    moreover have e: "t\<lparr>qpb := b1, qpb := y\<rparr> = t\<lparr>qpb := y\<rparr>" for y by simp
    ultimately show ?thesis
      using rime_input_delivers [of "t\<lparr>qpb := b1\<rparr>" c' n u' "qpb s" ?b "linkaddr_node_addr s" junk hb cl', unfolded e] assms(6) b1 rb(2) b(6,7) assms(12) by auto
  qed
  moreover have "enc_u16 n @ hb @ ?bs = broadcast_frame n ?b" using broadcast_bytes [OF b(6), of ?b n] b(7) by (simp only: set_addr_keeps)
  ultimately show ?thesis using r s' by (intro exI [of _ s'] exI [of _ x]) (auto simp: Let_def)
qed

text \<open>
  C11: Opening a broadcast connection on a channel that no other connection uses makes packets of the channel go to it, and every
  other connection keeps its channel and its callbacks; closing it takes the channel away, with every other connection as it was.\<close>

theorem broadcast_connections:
  assumes "conns_ok s xs" and "\<forall>p \<in> set xs. p \<noteq> c \<longrightarrow> channelno (rchans s) p \<noteq> n"
  shows "\<exists>s1 s2. broadcast_open c n u s = Ok s1 \<and> conns_ok s1 (seq_add c xs) \<and> listens s1 c n u \<and>
    broadcast_close c s1 = Ok s2 \<and> conns_ok s2 (remove1 c xs) \<and> channel_lookup n (rchans s2) = Ok None \<and>
    (\<forall>p m v. p \<noteq> c \<longrightarrow> listens s p m v \<longrightarrow> listens s1 p m v \<and> listens s2 p m v)"
proof -
  have x: "distinct xs" using assms(1) chain_distinct by (auto simp: conns_ok_def channels_are_def)
  obtain s1 where s1: "broadcast_open c n u s = Ok s1" "conns_ok s1 (seq_add c xs)" "channelno (rchans s1) = (channelno (rchans s))(c := n)"
      "ch_attrlist (rchans s1) = (ch_attrlist (rchans s))(c := BROADCAST_ATTRIBUTES)" "ch_hdrsize (rchans s1) = (ch_hdrsize (rchans s))(c := 56)"
      "abc_u s1 = (abc_u s)(c := BroadcastCallbacks)" "broadcast_u s1 = (broadcast_u s)(c := u)"
    using broadcast_open_eq [OF assms(1), of c n u] assms(2) by auto
  obtain s2 where s2: "broadcast_close c s1 = Ok s2" "conns_ok s2 (remove1 c (seq_add c xs))" "channelno (rchans s2) = channelno (rchans s1)"
      "ch_attrlist (rchans s2) = ch_attrlist (rchans s1)" "ch_hdrsize (rchans s2) = ch_hdrsize (rchans s1)" "abc_u s2 = abc_u s1" "broadcast_u s2 = broadcast_u s1"
    using broadcast_close_eq [OF s1(2), of c] by auto
  have rest: "remove1 c (seq_add c xs) = remove1 c xs" using x by (auto simp: seq_add_def remove1_append)
  have "channel_lookup n (rchans s1) = Ok (Some c)" by (rule lookup_member [OF s1(2)]) (simp_all add: seq_add_def s1(3))
  moreover have "channel_lookup n (rchans s2) = Ok None"
    by (rule lookup_absent [OF s2(2)]) (use assms(2) x in \<open>auto simp: rest s2(3) s1(3) set_remove1_eq\<close>)
  moreover have "listens s1 p m v \<and> listens s2 p m v" if "p \<noteq> c" "listens s p m v" for p m v
  proof -
    have m: "channelno (rchans s) p = m" using that(2) by (simp add: listens_def)
    have "find (\<lambda>q. channelno (rchans s) q = m) xs = Some p"
      using that(2) assms(1) channel_lookup_find [of "rchans s" xs m] by (simp add: listens_def conns_ok_def channels_are_def)
    then have "p \<in> set xs" by (auto simp: find_Some_iff)
    then have "channel_lookup m (rchans s1) = Ok (Some p)" "channel_lookup m (rchans s2) = Ok (Some p)"
      using that(1) m x by (auto intro!: lookup_member [OF s1(2)] lookup_member [OF s2(2)] simp: seq_add_def rest s1(3) s2(3) set_remove1_eq)
    then show ?thesis using that s1 s2 by (simp add: listens_def)
  qed
  ultimately show ?thesis using s1 s2 rest by (intro exI [of _ s1] exI [of _ s2]) (auto simp: listens_def)
qed

text \<open>
  C10: With security switched on, \<open>broadcast_send\<close> leaves the memory of the block for every packet with more than 7 bytes in front of its time-sync frame, because
  the header takes 9 of the 16 bytes that security can combine. A packet with an announcement is such a packet: the count of the announcements and the
  identifier, instruction, degree, dates and reference address of one announcement alone take 16 bytes.\<close>

theorem secured_broadcast_overrun:
  assumes "listens s c n u" and "pbuf_ok (qpb s)" and "pb_bufptr (qpb s) = 0" and "packetbuf_attr ATTR_DOAES (qpb s) < 256"
    and "9 + length (pb_header (qpb s) @ pb_payload (qpb s)) \<le> PACKETBUF_SIZE" and "do_encrypt_decrypt s" and "length (ns_block s) = 16"
    and "sz + 7 < length (pb_header (qpb s) @ pb_payload (qpb s))"
  shows "broadcast_send_conn sz co cl c s = Fault OutOfBounds"
proof -
  obtain b hb where r: "broadcast_send_conn sz co cl c s = bindR (ns_send sz co (rime_upper cl) (Some PACKET_SENT) c (s\<lparr>qpb := b\<rparr>)) (\<lambda>s. Ok (True, s))"
    and b: "pbuf_ok b" "pb_bufptr b = 0" "pb_header b @ pb_payload b = enc_u16 n @ hb @ pb_header (qpb s) @ pb_payload (qpb s)" "length hb = 7"
    using broadcast_send_eq [OF assms(1-5), of sz co cl] by blast
  have "unat (packetbuf_totlen b) = 9 + length (pb_header (qpb s) @ pb_payload (qpb s))"
    using whole_packet(2) [OF b(1,2)] arg_cong [OF b(3), of length] b(4) by simp
  then have "ns_send sz co (rime_upper cl) (Some PACKET_SENT) c (s\<lparr>qpb := b\<rparr>) = Fault OutOfBounds"
    using assms(5-8) by (intro ns_send_overrun) simp_all
  then show ?thesis using r by simp
qed

section \<open>Witnesses\<close>

definition demo_rime :: rime where
  "demo_rime = csma_init (nullsec.extend (csma.extend (demo_csma\<lparr>qpb := demo_packet\<rparr>) (nullsec.fields (replicate 16 1) True))
     (rime.fields \<lparr>ch_next = (\<lambda>_. None), channel_list = None, channelno = (\<lambda>_. 0), ch_attrlist = (\<lambda>_. []), ch_hdrsize = (\<lambda>_. 0)\<rparr>
       (\<lambda>_. ClientCallbacks 0) (\<lambda>_. 0)))"

definition demo_conn :: rime where
  "demo_conn = demo_rime\<lparr>rchans := \<lparr>ch_next = (\<lambda>_. None), channel_list = Some 3, channelno = (\<lambda>_. 128), ch_attrlist = (\<lambda>_. BROADCAST_ATTRIBUTES), ch_hdrsize = (\<lambda>_. 56)\<rparr>,
     abc_u := (\<lambda>_. BroadcastCallbacks), broadcast_u := (\<lambda>_. 6)\<rparr>"

definition demo_arrived :: pbuf where
  "demo_arrived = \<lparr>pb_data = [129, 1, 71, 1, 4, 4, 1, 4, 1, 6, 9, 9] @ replicate 116 0, pb_buflen = 12, pb_bufptr = 0, pb_hdrlen = 0, pb_attrs = (\<lambda>_. 0), pb_addrs = (\<lambda>_. 0)\<rparr>"

theorem broadcast_connections_witness:
  "\<exists>s1 s2. broadcast_open 3 128 6 demo_rime = Ok s1 \<and> listens s1 3 128 6 \<and> broadcast_close 3 s1 = Ok s2 \<and> channel_lookup 128 (rchans s2) = Ok None"
proof -
  have "conns_ok demo_rime []" by (simp add: conns_ok_def channels_are_def demo_rime_def csma_init_def csma.defs nullsec.defs rime.defs)
  from broadcast_connections [OF this, of 3 128 6] show ?thesis by auto
qed

lemma demo_conn_ok: "csma_ok 1 demo_conn" "listens demo_conn 3 128 6"
proof -
  let ?s = "nullsec.extend (csma.extend (demo_csma\<lparr>qpb := demo_packet\<rparr>) (nullsec.fields (replicate 16 1) True))
     (rime.fields \<lparr>ch_next = (\<lambda>_. None), channel_list = Some 3, channelno = (\<lambda>_. 128), ch_attrlist = (\<lambda>_. BROADCAST_ATTRIBUTES), ch_hdrsize = (\<lambda>_. 56)\<rparr>
       (\<lambda>_. BroadcastCallbacks) (\<lambda>_. 6))"
  have c: "demo_conn = csma_init ?s" by (simp add: demo_conn_def demo_rime_def csma_init_def demo_csma_def csma.defs nullsec.defs rime.defs)
  have "qbuf_init ?s = ?s" by (simp add: qbuf_init_def demo_csma_def memb_init_def csma.defs nullsec.defs rime.defs)
  then have "qnet_ok ?s" using qbuf_init_ok [of ?s] by (simp add: demo_csma_def demo_packet_def pbuf_ok_def memb_init_def csma.defs nullsec.defs rime.defs)
  then show "csma_ok 1 demo_conn" using csma_init_ok [of ?s] unfolding c by (simp add: demo_csma_def csma.defs nullsec.defs rime.defs)
  show "listens demo_conn 3 128 6"
    using channel_lookup_find [of "rchans demo_conn" "[3]" 128] by (simp add: listens_def demo_conn_def)
qed

theorem broadcast_delivered_witness:
  "\<exists>s' x rb'. broadcast_send_conn 1 csync_csma \<lparr>abc_recv_fn = (\<lambda>_. None), abc_sent_fn = (\<lambda>_. None), broadcast_recv_fn = (\<lambda>_. None), broadcast_sent_fn = (\<lambda>_. None)\<rparr> 3 demo_conn = Ok (True, s') \<and>
     pending s' 69 = [x] \<and> fst (the (fst x)) = [129, 1, 71, 1, 4, 4, 1, 4, 1, 6, 9, 9] \<and>
     ns_input 1 (rime_input (\<lambda>_. [0, 0]) \<lparr>abc_recv_fn = (\<lambda>_. None), abc_sent_fn = (\<lambda>_. None),
         broadcast_recv_fn = (\<lambda>u. Some (\<lambda>c addr s. Ok (s\<lparr>qpb := packetbuf_set_addr 2 addr (qpb s)\<rparr>))), broadcast_sent_fn = (\<lambda>_. None)\<rparr>)
       (demo_conn\<lparr>qpb := demo_arrived\<rparr>) = Ok (demo_conn\<lparr>qpb := packetbuf_set_addr 2 70 rb'\<rparr>) \<and> pb_payload rb' = [7, 8, 9] \<and> packetbuf_attr ATTR_DOAES rb' = 5"
  (is "\<exists>s' x rb'. broadcast_send_conn 1 csync_csma ?cl 3 demo_conn = _ \<and> _ \<and> _ \<and> ns_input 1 (rime_input ?junk ?rc) _ = _ \<and> _ \<and> _")
proof -
  have q: "qpb demo_conn = demo_packet" "linkaddr_node_addr demo_conn = 70" "do_encrypt_decrypt demo_conn" "ns_block demo_conn = replicate 16 1"
    by (simp_all add: demo_conn_def demo_rime_def csma_init_def demo_csma_def csma.defs nullsec.defs rime.defs)
  have a: "packetbuf_attr y demo_packet = 5" "packetbuf_addr k demo_packet = 69" for y k
    by (simp_all add: packetbuf_attr_def packetbuf_addr_def demo_packet_def)
  have d: "room_for 69 demo_conn" "2 \<le> length (rdc_rnds demo_conn)" "pending demo_conn 69 = []" by code_simp+
  have bs: "pb_header demo_packet @ pb_payload demo_packet = [7, 8, 9]" by code_simp
  have f: "(let f = broadcast_frame 128 (packetbuf_set_addr ADDR_SENDER 70 demo_packet) in crypt (length f - 1) (replicate 16 1) f) =
      [129, 1, 71, 1, 4, 4, 1, 4, 1, 6, 9, 9]" by code_simp
  have r: "pbuf_ok demo_arrived" "pb_payload demo_arrived = [129, 1, 71, 1, 4, 4, 1, 4, 1, 6, 9, 9]" "packetbuf_dataptr demo_arrived = 0" by code_simp+
  have h: "2 \<le> length (rdc_rnds demo_conn)" "room_for (packetbuf_addr ADDR_RECEIVER (qpb demo_conn)) demo_conn" "pb_bufptr (qpb demo_conn) = 0"
    "packetbuf_attr ATTR_DOAES (qpb demo_conn) < 256" "9 + length (pb_header (qpb demo_conn) @ pb_payload (qpb demo_conn)) \<le> PACKETBUF_SIZE"
    "carries 1 (9 + length (pb_header (qpb demo_conn) @ pb_payload (qpb demo_conn))) demo_conn" "\<forall>k. length (?junk k) = 2"
    unfolding q(1) a bs using d q by (simp_all add: carries_def demo_packet_def)
  note bd = broadcast_delivered [OF demo_conn_ok(2,1) h(1-6) demo_conn_ok(2) refl refl h(7), of csync_csma ?cl ?rc]
  from bd [unfolded q(1,2) a bs] obtain s' x where s': "broadcast_send_conn 1 csync_csma ?cl 3 demo_conn = Ok (True, s')"
      "pending s' = (pending demo_conn)(69 := if (5 :: u16) = PACKET_TYPE_ACK then x # pending demo_conn 69 else pending demo_conn 69 @ [x])"
      "fst (the (fst x)) = (let f = broadcast_frame 128 (packetbuf_set_addr ADDR_SENDER 70 demo_packet)
        in if do_encrypt_decrypt demo_conn then crypt (length f - 1) (ns_block demo_conn) f else f)"
    and get: "\<And>rb. pbuf_ok rb \<Longrightarrow> packetbuf_dataptr rb + 10 < PACKETBUF_SIZE \<Longrightarrow> pb_payload rb = fst (the (fst x)) \<Longrightarrow>
      \<exists>rb'. ns_input 1 (rime_input ?junk ?rc) (demo_conn\<lparr>qpb := rb\<rparr>) = (case broadcast_recv_fn ?rc 6 of
          None \<Rightarrow> Ok (demo_conn\<lparr>qpb := rb'\<rparr>) | Some recv \<Rightarrow> recv 3 70 (demo_conn\<lparr>qpb := rb'\<rparr>)) \<and>
        pb_payload rb' = [7, 8, 9] \<and> (\<forall>a \<in> {ATTR_DOAES, ATTR_XORPLAINTEXT_A, ATTR_XORPLAINTEXT_B}. packetbuf_attr a rb' = 5)"
    by blast
  have x: "fst (the (fst x)) = [129, 1, 71, 1, 4, 4, 1, 4, 1, 6, 9, 9]" using s'(3) q(3,4) f by (simp add: Let_def)
  obtain rb' where "ns_input 1 (rime_input ?junk ?rc) (demo_conn\<lparr>qpb := demo_arrived\<rparr>) = Ok (demo_conn\<lparr>qpb := packetbuf_set_addr 2 70 rb'\<rparr>)"
      "pb_payload rb' = [7, 8, 9]" "packetbuf_attr ATTR_DOAES rb' = 5"
    using get [of demo_arrived] r x by auto
  then show ?thesis using s'(1,2) x d(3) by (intro exI [of _ s'] exI [of _ x] exI [of _ rb']) simp
qed

theorem secured_broadcast_overrun_witness:
  "broadcast_send_conn 1 csync_csma \<lparr>abc_recv_fn = (\<lambda>_. None), abc_sent_fn = (\<lambda>_. None), broadcast_recv_fn = (\<lambda>_. None), broadcast_sent_fn = (\<lambda>_. None)\<rparr>
     3 (demo_conn\<lparr>qpb := demo_packet\<lparr>pb_buflen := 16\<rparr>\<rparr>) = Fault OutOfBounds"
proof (rule secured_broadcast_overrun)
  let ?b = "demo_packet\<lparr>pb_buflen := 16\<rparr>"
  show "listens (demo_conn\<lparr>qpb := ?b\<rparr>) 3 128 6" using demo_conn_ok(2) by (simp add: listens_def)
  have "length (pb_header ?b @ pb_payload ?b) = 17" by code_simp
  then show "9 + length (pb_header (qpb (demo_conn\<lparr>qpb := ?b\<rparr>)) @ pb_payload (qpb (demo_conn\<lparr>qpb := ?b\<rparr>))) \<le> PACKETBUF_SIZE"
    "1 + 7 < length (pb_header (qpb (demo_conn\<lparr>qpb := ?b\<rparr>)) @ pb_payload (qpb (demo_conn\<lparr>qpb := ?b\<rparr>)))" by simp_all
qed (simp_all add: pbuf_ok_def demo_packet_def packetbuf_attr_def demo_conn_def demo_rime_def csma_init_def csma.defs nullsec.defs rime.defs)

end
