(* ===== verification/Clock.thy ===== *)
theory Clock
  imports CSync_Enter Etimer
begin

text \<open>
  The clock of the platform, \<^verbatim>\<open>src/cpu/msp430/f1xxx/clock.c\<close>: the ticks and seconds that \<open>clock_time\<close> and \<open>clock_seconds\<close> report, the
  interrupt handlers of the timers A and B, which also drive the real-time timer and stamp the frames of the radio, and the
  calibration of the oscillator.

  What the hardware shows is an argument: the interrupt vector, the capture registers, the level of the pin SFD, and the values that the
  successive reads of the counter of timer B return. A handler runs to its end before the next one starts. The constants are those of the build of
  C-sync: timer B counts 524288 times a second, and there are 128 ticks a second.
\<close>

section \<open>State\<close>

abbreviation ETIMER_RESOLUTION :: u16 where "ETIMER_RESOLUTION \<equiv> 4096"
abbreviation CLOCK_CONF_SECOND :: u32 where "CLOCK_CONF_SECOND \<equiv> 128"
abbreviation MAX_TICKS :: u32 where "MAX_TICKS \<equiv> 0x7FFFFFFF"
abbreviation DELTA :: u16 where "DELTA \<equiv> 128"

record clock =
  seconds :: u32
  ticks :: u32
  TBCCR2 :: u16
  TACCR0 :: u16
  last_tbcrr0 :: u16
  cc2420_sfd_counter :: u8
  cc2420_sfd_start_time :: u16
  cc2420_sfd_end_time :: u16
  DCOCTL :: u8
  BCSCTL1 :: u8

definition CLOCK_LT :: "u16 \<Rightarrow> u16 \<Rightarrow> bool" where
  "CLOCK_LT a b \<longleftrightarrow> sint (a - b) < 0"

section \<open>The oscillator\<close>

text \<open>One capture is what \<open>TBCCR6\<close> holds when the flag is set.\<close>

definition dco_slower :: "clock \<Rightarrow> clock" where
  "dco_slower c = (let c = c\<lparr>DCOCTL := DCOCTL c - 1\<rparr> in if DCOCTL c = 0xFF then c\<lparr>BCSCTL1 := BCSCTL1 c - 1\<rparr> else c)"

definition dco_faster :: "clock \<Rightarrow> clock" where
  "dco_faster c = (let c = c\<lparr>DCOCTL := DCOCTL c + 1\<rparr> in if DCOCTL c = 0 then c\<lparr>BCSCTL1 := BCSCTL1 c + 1\<rparr> else c)"

fun msp430_sync_dco :: "u16 \<Rightarrow> u16 list \<Rightarrow> clock \<Rightarrow> clock res" where
  "msp430_sync_dco oldcapture [] c = Fault EnvExhausted"
| "msp430_sync_dco oldcapture (cap # caps) c =
     (let compare = cap - oldcapture
      in if DELTA = compare then Ok c
         else if DELTA < compare then msp430_sync_dco cap caps (dco_slower c)
         else msp430_sync_dco cap caps (dco_faster c))"

text \<open>\<open>XT2OFF | DIVA_3\<close> is \<open>0xB0\<close>.\<close>

definition clock_init :: "u16 list \<Rightarrow> clock \<Rightarrow> rtimer_sys \<Rightarrow> (clock \<times> rtimer_sys) res" where
  "clock_init caps c r =
     bindR (msp430_sync_dco 0 caps (c\<lparr>BCSCTL1 := 0xB0\<rparr>)) (\<lambda>c.
       Ok (c\<lparr>TBCCR2 := ETIMER_RESOLUTION, TACCR0 := RTIMER_AB_UPDATE, last_tbcrr0 := 0, seconds := 0, ticks := 0\<rparr>,
           rtimer_init (r\<lparr>clock_occupied := False, clock_priority := False\<rparr>)))"

section \<open>Interrupts of timer A\<close>

definition timera0 :: "u16 \<Rightarrow> clock \<Rightarrow> clock" where
  "timera0 tbccr0 c = c\<lparr>last_tbcrr0 := tbccr0, TACCR0 := TACCR0 c + RTIMER_AB_UPDATE\<rparr>"

definition timera1 :: "fp_env \<Rightarrow> u16 \<Rightarrow> snapshot \<Rightarrow> rtimer_sys \<Rightarrow> rtimer_sys res" where
  "timera1 fp taiv sn r =
     (if taiv = 4 then rtimer_lf_callback fp sn r
      else if taiv = 10 then rtimer_lf_overflow fp r
      else Ok r)"

section \<open>Interrupts of timer B\<close>

definition sfd_interrupt :: "bool \<Rightarrow> u16 \<Rightarrow> clock \<Rightarrow> clock" where
  "sfd_interrupt sfd_is_1 tbccr1 c =
     (if sfd_is_1 then c\<lparr>cc2420_sfd_counter := cc2420_sfd_counter c + 1, cc2420_sfd_start_time := tbccr1\<rparr>
      else c\<lparr>cc2420_sfd_counter := 0, cc2420_sfd_end_time := tbccr1\<rparr>)"

definition tick :: "clock \<Rightarrow> clock" where
  "tick c =
     (let c = c\<lparr>TBCCR2 := TBCCR2 c + ETIMER_RESOLUTION, ticks := ticks c + 1\<rparr>
      in if ticks c mod CLOCK_CONF_SECOND = 0 then c\<lparr>seconds := seconds c + 1\<rparr> else c)"

text \<open>The loop of the tick interrupt, over the values that \<open>read_tbr\<close> returns.\<close>

fun tick_loop :: "u16 list \<Rightarrow> clock \<Rightarrow> clock res" where
  "tick_loop [] c = Fault EnvExhausted"
| "tick_loop (tbr # reads) c = (if \<not> CLOCK_LT tbr (TBCCR2 c) then tick_loop reads (tick c) else Ok c)"

definition etimer_due :: "'b etimers_scheme \<Rightarrow> clock \<Rightarrow> bool" where
  "etimer_due m c \<longleftrightarrow> etimer_pending m \<and> etimer_next_expiration_time m - ticks c - 1 > MAX_TICKS"

definition rtimer1_hf_callback :: "'e cenv_scheme \<Rightarrow> u16 \<Rightarrow> node \<Rightarrow> node res" where
  "rtimer1_hf_callback e taccr0 s =
     (if hf_due taccr0 (rt (rts s) ! 1) then
        let s1 = upd_rts (\<lambda>r. (set_rt 1 (\<lambda>t. t\<lparr>rt_state := RTIMER_JUST_EXPIRED\<rparr>) r)\<lparr>TBCCTL5_CCIE := False\<rparr>) s
        in bindR (upd_rts_res (rtimer_lf_update (fpe e)) s1) (\<lambda>s2.
           bindR (call_func e (rt_func (rt (rts s2) ! 1)) s2) (\<lambda>s3.
             Ok (upd_rts (set_rt 1 (\<lambda>t. t\<lparr>rt_state := RTIMER_INACTIVE\<rparr>)) s3)))
      else Ok s)"

text \<open>
  The first component of the result says whether \<open>etimer_request_poll\<close> is called. \<open>m\<close> is the state of the event timers, \<open>n\<close> the node with its
  real-time timers.
\<close>

record irq_input =
  iv :: u16
  pin_sfd :: bool
  i_TBCCR1 :: u16
  tbr_reads :: "u16 list"

definition timerb1 :: "'e cenv_scheme \<Rightarrow> irq_input \<Rightarrow> 'b etimers_scheme \<Rightarrow> clock \<Rightarrow> node \<Rightarrow> (bool \<times> clock \<times> node) res" where
  "timerb1 e i m c n =
     (if iv i = 2 then Ok (False, sfd_interrupt (pin_sfd i) (i_TBCCR1 i) c, n)
      else if iv i = 4 then bindR (tick_loop (tbr_reads i) c) (\<lambda>c. Ok (etimer_due m c, c, n))
      else if iv i = 8 then bindR (rtimer0_hf_callback e (TACCR0 c) n) (\<lambda>n. Ok (False, c, n))
      else if iv i = 10 then bindR (rtimer1_hf_callback e (TACCR0 c) n) (\<lambda>n. Ok (False, c, n))
      else Ok (False, c, n))"

section \<open>Reading the clock\<close>

text \<open>A variable that a handler changes is read twice until both reads agree; the argument holds the values of successive reads.\<close>

fun read_twice :: "u32 list \<Rightarrow> u32 res" where
  "read_twice (t1 # t2 # reads) = (if t1 = t2 then Ok t1 else read_twice reads)"
| "read_twice _ = Fault EnvExhausted"

definition clock_time_now :: "u32 list \<Rightarrow> u32 res" where
  "clock_time_now reads = read_twice reads"

definition clock_seconds :: "u32 list \<Rightarrow> u32 res" where
  "clock_seconds reads = read_twice reads"

definition clock_get_last_tbccr0 :: "clock \<Rightarrow> u16" where
  "clock_get_last_tbccr0 c = last_tbcrr0 c"

end
