(* ===== verification/Clock_Laws.thy ===== *)
theory Clock_Laws
  imports Clock
begin

text \<open>
  Laws of the clock. \<open>clock_at N c\<close> says that the clock has counted \<open>N\<close> ticks since it was initialised; ticks, seconds and the
  compare register are then determined, up to their widths. Time is counted in units of timer B, whose counter shows it modulo \<open>2 ^ 16\<close>.
\<close>

section \<open>Ticks\<close>

definition clock_at :: "nat \<Rightarrow> clock \<Rightarrow> bool" where
  "clock_at N c \<longleftrightarrow> ticks c = of_nat N \<and> seconds c = of_nat (N div 128) \<and> TBCCR2 c = of_nat (4096 * (N + 1))"

lemma clock_init_at: "clock_init caps c r = Ok (c', r') \<Longrightarrow> clock_at 0 c'"
  by (auto simp: clock_init_def clock_at_def res_iff)

lemma tick_at:
  assumes "clock_at N c"
  shows "clock_at (Suc N) (tick c)"
proof -
  have c: "ticks c = of_nat N" "seconds c = of_nat (N div 128)" "TBCCR2 c = of_nat (4096 * (N + 1))"
    using assms by (simp_all add: clock_at_def)
  have "unat (of_nat (Suc N) :: u32) mod 128 = Suc N mod 128"
    by (simp only: unat_of_nat) (simp add: mod_mod_cancel)
  then have "unat (ticks c + 1) mod 128 = Suc N mod 128" using c(1) by (simp add: add.commute)
  then have m: "(ticks c + 1) mod CLOCK_CONF_SECOND = 0 \<longleftrightarrow> Suc N mod 128 = 0"
    by (simp add: word_unat_eq_iff unat_mod_distrib)
  have "Suc N div 128 = (if Suc N mod 128 = 0 then Suc (N div 128) else N div 128)" by (rule div_Suc)
  with c m show ?thesis by (auto simp: clock_at_def tick_def Let_def algebra_simps)
qed

lemma clock_lt_time:
  assumes "t < b + 2 ^ 15" and "b \<le> t + 2 ^ 15"
  shows "CLOCK_LT (of_nat t) (of_nat b) \<longleftrightarrow> t < b"
proof -
  let ?d = "int t - int b"
  have "(of_nat t - of_nat b :: u16) = word_of_int ?d" by simp
  moreover have "sint (word_of_int ?d :: u16) = ?d"
    using assms by (simp only: sint_sbintrunc') (simp add: signed_take_bit_int_eq_self_iff)
  ultimately show ?thesis unfolding CLOCK_LT_def by simp
qed

text \<open>
  The loop of the tick interrupt brings the clock up to the time of its last read, when no read is more than half a round of the
  counter behind the compare register: \<open>K\<close> iterations catch up with \<open>4096 * K\<close> units.
\<close>

lemma tick_loop_at:
  "clock_at N c \<Longrightarrow> sorted ts \<Longrightarrow> (\<And>t. t \<in> set ts \<Longrightarrow> 4096 * N \<le> t \<and> t < 4096 * (N + 1) + 2 ^ 15 \<and> t < 4096 * (N + length ts)) \<Longrightarrow> ts \<noteq> [] \<Longrightarrow>
   \<exists>c' t. tick_loop (map of_nat ts) c = Ok c' \<and> t \<in> set ts \<and> clock_at (t div 4096) c'"
proof (induction ts arbitrary: N c)
  case (Cons t ts)
  have b: "4096 * N \<le> t" "t < 4096 * (N + 1) + 2 ^ 15" "t < 4096 * (N + 1 + length ts)" using Cons.prems(3) [of t] by simp_all
  have lt: "CLOCK_LT (of_nat t) (TBCCR2 c) \<longleftrightarrow> t < 4096 * (N + 1)"
    using clock_lt_time [of t "4096 * (N + 1)"] b Cons.prems(1) by (simp add: clock_at_def)
  show ?case
  proof (cases "t < 4096 * (N + 1)")
    case True
    then have "t div 4096 = N" using b(1) by simp
    then show ?thesis using True lt Cons.prems(1) by (intro exI [of _ c] exI [of _ t]) simp
  next
    case False
    then have "ts \<noteq> []" using b(3) by auto
    moreover have "4096 * Suc N \<le> u \<and> u < 4096 * (Suc N + 1) + 2 ^ 15 \<and> u < 4096 * (Suc N + length ts)" if "u \<in> set ts" for u
      using Cons.prems(2) Cons.prems(3) [of u] that False by auto
    ultimately obtain c' u where "tick_loop (map of_nat ts) (tick c) = Ok c'" "u \<in> set ts" "clock_at (u div 4096) c'"
      using Cons.IH [OF tick_at [OF Cons.prems(1)]] Cons.prems(2) by auto
    then show ?thesis using False lt by auto
  qed
qed simp

lemma etimer_due_iff:
  "etimer_due m c \<longleftrightarrow> etimer_pending m \<and> (let d = unat (next_expiration m - ticks c) in d = 0 \<or> 2 ^ 31 < d)"
proof -
  let ?d = "next_expiration m - ticks c"
  have "(?d - 1 > MAX_TICKS) \<longleftrightarrow> unat ?d = 0 \<or> 2 ^ 31 < unat ?d"
  proof (cases "?d = 0")
    case False
    then have "unat (?d - 1) = unat ?d - 1" "0 < unat ?d" by (simp_all add: unat_minus_one unat_gt_0)
    then show ?thesis by (auto simp: word_less_nat_alt)
  next
    case True
    have "unat (- 1 :: u32) = 2 ^ 32 - 1" by (simp add: unsigned_minus_1_eq_mask mask_eq_exp_minus_1)
    then show ?thesis using True by (simp add: word_less_nat_alt)
  qed
  then show ?thesis by (auto simp: etimer_due_def etimer_next_expiration_time_def Let_def)
qed

section \<open>The oscillator\<close>

text \<open>The two registers are stepped as one number of 16 bits.\<close>

definition dco :: "clock \<Rightarrow> u16" where
  "dco c = push_bit 8 (ucast (BCSCTL1 c)) + ucast (DCOCTL c)"

lemma unat_dco: "unat (dco c) = 256 * unat (BCSCTL1 c) + unat (DCOCTL c)"
proof -
  have "unat (ucast (BCSCTL1 c) :: u16) = unat (BCSCTL1 c)" "unat (ucast (DCOCTL c) :: u16) = unat (DCOCTL c)" by (simp_all add: unat_ucast_up)
  moreover have "unat (BCSCTL1 c) < 256" "unat (DCOCTL c) < 256" using unat_bound_pow [of "BCSCTL1 c"] unat_bound_pow [of "DCOCTL c"] by simp_all
  ultimately show ?thesis by (simp add: dco_def unat_word_ariths push_bit_eq_mult)
qed

lemma dco_faster_eq: "dco (dco_faster c) = dco c + 1"
proof (cases "DCOCTL c = 0xFF")
  case True
  have "unat (dco (dco_faster c)) = 256 * ((unat (BCSCTL1 c) + 1) mod 256)"
    using True by (simp add: unat_dco) (simp add: dco_faster_def Let_def unat_word_ariths)
  also have "\<dots> = (256 * unat (BCSCTL1 c) + 256) mod 65536" using mod_mult_mult1 [of 256 "unat (BCSCTL1 c) + 1" 256] by (simp add: add.commute)
  also have "\<dots> = unat (dco c + 1)" using True by (simp add: unat_word_ariths unat_dco) (simp only: add.commute)
  finally show ?thesis by (simp only: word_unat_eq_iff)
next
  case False
  then have d: "DCOCTL c + 1 \<noteq> 0" using eq_neg_iff_add_eq_0 [of "DCOCTL c" 1] by auto
  then have "unat (DCOCTL c + 1) = unat (DCOCTL c) + 1" using unatSuc [of "DCOCTL c"] by (simp add: add.commute)
  then have "unat (dco (dco_faster c)) = unat (dco c) + 1"
    using d by (simp add: unat_dco) (simp add: dco_faster_def Let_def)
  then show ?thesis using unat_bound_pow [of "dco (dco_faster c)"] by (simp add: word_unat_eq_iff unat_word_ariths)
qed

lemma dco_slower_eq: "dco (dco_slower c) = dco c - 1"
proof -
  have "DCOCTL (dco_faster (dco_slower c)) = DCOCTL c \<and> BCSCTL1 (dco_faster (dco_slower c)) = BCSCTL1 c"
    by (auto simp: dco_faster_def dco_slower_def Let_def)
  then have "dco (dco_faster (dco_slower c)) = dco c" by (simp add: dco_def)
  then show ?thesis by (simp add: dco_faster_eq eq_diff_eq)
qed

text \<open>When the calibration returns, the last two captures are \<open>DELTA\<close> apart, and the registers have moved by one step per earlier capture.\<close>

lemma sync_dco_calibrates:
  "msp430_sync_dco old caps c = Ok c' \<Longrightarrow> \<exists>k < length caps. caps ! k - (old # caps) ! k = DELTA \<and>
     dco c' = dco c + of_int (sum_list (map (\<lambda>j. if DELTA < caps ! j - (old # caps) ! j then - 1 else 1) [0..<k]))"
proof (induction old caps c rule: msp430_sync_dco.induct)
  case (2 old cap caps c)
  show ?case
  proof (cases "cap - old = DELTA")
    case True
    then show ?thesis using "2.prems" by (intro exI [of _ 0]) (simp add: Let_def)
  next
    case False
    let ?c = "if DELTA < cap - old then dco_slower c else dco_faster c"
    have r: "msp430_sync_dco cap caps ?c = Ok c'" using "2.prems" False by (auto simp: Let_def)
    have "\<exists>k < length caps. caps ! k - (cap # caps) ! k = DELTA \<and>
        dco c' = dco ?c + of_int (sum_list (map (\<lambda>j. if DELTA < caps ! j - (cap # caps) ! j then - 1 else 1) [0..<k]))"
      using "2.IH" [OF refl] False r by (cases "DELTA < cap - old") auto
    then obtain k where k: "k < length caps" "caps ! k - (cap # caps) ! k = DELTA"
        "dco c' = dco ?c + of_int (sum_list (map (\<lambda>j. if DELTA < caps ! j - (cap # caps) ! j then - 1 else 1) [0..<k]))" by blast
    have "[0..<Suc k] = 0 # map Suc [0..<k]" by (simp add: map_Suc_upt upt_conv_Cons del: upt_Suc)
    moreover have "dco ?c = dco c + of_int (if DELTA < cap - old then - 1 else 1)" by (simp add: dco_faster_eq dco_slower_eq)
    ultimately show ?thesis using k by (intro exI [of _ "Suc k"]) (simp add: comp_def)
  qed
qed simp

section \<open>Properties\<close>

text \<open>An interrupt that is half a round of the counter late is lost: the loop takes the compare register for a later date.\<close>

lemma late_tick_lost:
  assumes "clock_at N c" and "4096 * (N + 1) + 2 ^ 15 \<le> t" and "t < 4096 * (N + 1) + 2 ^ 16"
  shows "tick_loop (of_nat t # reads) c = Ok c"
proof -
  let ?b = "4096 * (N + 1)"
  have e: "of_nat (?b + 2 ^ 16) = (of_nat ?b :: u16)" by (simp only: of_nat_add) simp
  have "CLOCK_LT (of_nat t) (of_nat ?b)" unfolding e [symmetric] by (subst clock_lt_time) (use assms(2,3) in simp_all)
  then show ?thesis using assms(1) by (simp add: clock_at_def)
qed

text \<open>
  C24: The clock keeps the time of the hardware. When the clock has counted \<open>N\<close> ticks, the tick interrupt is handled less than half a round of the
  counter after it was due, and the counter does not go backwards, the handler returns with the clock at the tick of the time that
  its last read of the counter showed: ticks and seconds are that time divided by their lengths, in their widths, and nothing else of the node changes.
  A poll of the event timers is requested exactly when one is pending whose expiry is not more than \<open>2 ^ 31 - 1\<close> ticks ago and not in the future.\<close>

theorem clock_keeps_time:
  assumes "clock_at N c" and "iv i = 4" and "tbr_reads i = map of_nat ts" and "sorted ts" and "9 \<le> length ts"
    and "\<forall>t \<in> set ts. 4096 * N \<le> t \<and> t < 4096 * (N + 1) + 2 ^ 15"
  shows "\<exists>poll c' t. timerb1 e i m c n = Ok (poll, c', n) \<and> t \<in> set ts \<and> clock_at (t div 4096) c' \<and>
    ticks c' = of_nat (t div 4096) \<and> seconds c' = of_nat (t div 524288) \<and>
    poll = (etimer_pending m \<and> (let d = unat (next_expiration m - of_nat (t div 4096)) in d = 0 \<or> 2 ^ 31 < d))"
proof -
  have "\<exists>c' t. tick_loop (map of_nat ts) c = Ok c' \<and> t \<in> set ts \<and> clock_at (t div 4096) c'"
    by (rule tick_loop_at [OF assms(1,4)]) (use assms(5,6) in fastforce)+
  then obtain c' t where c': "tick_loop (map of_nat ts) c = Ok c'" "t \<in> set ts" "clock_at (t div 4096) c'" by blast
  then have "ticks c' = of_nat (t div 4096)" "seconds c' = of_nat (t div 524288)" by (simp_all add: clock_at_def div_mult2_eq [symmetric])
  then show ?thesis using c' assms(2,3) etimer_due_iff [of m c'] by (intro exI [of _ "etimer_due m c'"] exI [of _ c'] exI [of _ t]) (simp add: timerb1_def)
qed

definition demo_clock :: clock where
  "demo_clock = \<lparr>seconds = 0, ticks = 127, TBCCR2 = 0, TACCR0 = 0, last_tbcrr0 = 0, cc2420_sfd_counter = 0, cc2420_sfd_start_time = 0,
     cc2420_sfd_end_time = 0, DCOCTL = 0, BCSCTL1 = 0\<rparr>"

theorem clock_keeps_time_witness:
  "\<forall>e m n. \<exists>poll c'. timerb1 e \<lparr>iv = 4, pin_sfd = False, i_TBCCR1 = 0, tbr_reads = map of_nat (replicate 9 529288)\<rparr> m demo_clock n = Ok (poll, c', n) \<and>
     ticks c' = 129 \<and> seconds c' = 1"
proof (intro allI)
  fix e m n
  let ?i = "\<lparr>iv = 4, pin_sfd = False, i_TBCCR1 = 0, tbr_reads = map of_nat (replicate 9 529288)\<rparr>"
  have at: "clock_at 127 demo_clock" by (simp add: clock_at_def demo_clock_def)
  have h: "iv ?i = 4" "tbr_reads ?i = map of_nat (replicate 9 529288)" "sorted (replicate 9 (529288 :: nat))" "9 \<le> length (replicate 9 (529288 :: nat))"
    "\<forall>t \<in> set (replicate 9 (529288 :: nat)). 4096 * 127 \<le> t \<and> t < 4096 * (127 + 1) + 2 ^ 15" by simp_all
  from clock_keeps_time [OF at h, of e m n] obtain poll c' t where "timerb1 e ?i m demo_clock n = Ok (poll, c', n)" "t \<in> set (replicate 9 529288)"
    "ticks c' = of_nat (t div 4096)" "seconds c' = of_nat (t div 524288)" by blast
  then show "\<exists>poll c'. timerb1 e ?i m demo_clock n = Ok (poll, c', n) \<and> ticks c' = 129 \<and> seconds c' = 1"
    by (intro exI [of _ poll] exI [of _ c']) simp
qed

end
