(* ===== verification/CC2420.thy ===== *)
theory CC2420
  imports Rdc
begin

unbundle bit_operations_syntax

text \<open>
  The radio driver, \<^verbatim>\<open>src/dev/cc2420/cc2420.c\<close> with the numbers of \<^verbatim>\<open>cc2420_const.h\<close>. The driver talks to the chip over a serial bus. The chip is not
  modelled: the commands that the driver gives are recorded in \<open>bus\<close>, oldest first, and what the chip answers is an input, one list for each kind of
  answer: status bytes, registers, received bytes, bytes of its memory, the levels of its pins, and the values that the reads of the
  timer and of the variable \<open>cc2420_sfd_start_time\<close>, which the capture interrupt writes, return. A list that is used up is \<open>Fault EnvExhausted\<close>.

  The build is the one of C-sync: packets have a type attribute, \<^verbatim>\<open>CC2420_CONF_SFD_TIMESTAMPS\<close> is 1, a second has 512 units of the timer that
  \<open>RTIMER_NOW()\<close> reads, and automatic acknowledgement is an option \<open>autoack\<close> of \<open>cc2420_init\<close>. The counters of \<^verbatim>\<open>rimestats\<close> and the energy accounting,
  which nothing here reads, are left out, and so are the delays.
\<close>

section \<open>The bus\<close>

datatype cc2420_register =
    SNOP | SXOSCON | SRXON | STXON | STXONCCA | SRFOFF | SFLUSHRX | SFLUSHTX | SAES
  | MDMCTRL0 | MDMCTRL1 | RSSI_REG | TXCTRL | RXCTRL1 | FSCTRL | SECCTRL0 | SECCTRL1 | IOCFG0

datatype cmd =
    Strobe cc2420_register | GetReg cc2420_register | SetReg cc2420_register u16
  | ReadRam u16 nat | WriteRam u16 "u8 list" | WriteFifo "u8 list" | GetRx nat
  | FifopInt bool | FifopClear | FifopInit | ArchInit | ResetChip

abbreviation CC2420RAM_TXFIFO :: u16 where "CC2420RAM_TXFIFO \<equiv> 0x000"
abbreviation CC2420RAM_KEY0 :: u16 where "CC2420RAM_KEY0 \<equiv> 0x100"
abbreviation CC2420RAM_SABUF :: u16 where "CC2420RAM_SABUF \<equiv> 0x120"
abbreviation CC2420RAM_IEEEADDR :: u16 where "CC2420RAM_IEEEADDR \<equiv> 0x160"
abbreviation CC2420RAM_PANID :: u16 where "CC2420RAM_PANID \<equiv> 0x168"
abbreviation CC2420RAM_SHORTADDR :: u16 where "CC2420RAM_SHORTADDR \<equiv> 0x16A"

abbreviation XOSC16M_STABLE :: nat where "XOSC16M_STABLE \<equiv> 6"
abbreviation ENC_BUSY :: nat where "ENC_BUSY \<equiv> 4"
abbreviation TX_ACTIVE :: nat where "TX_ACTIVE \<equiv> 3"
abbreviation RSSI_VALID :: nat where "RSSI_VALID \<equiv> 1"

abbreviation FOOTER_LEN :: nat where "FOOTER_LEN \<equiv> 2"
abbreviation CC2420_MAX_PACKET_LEN :: nat where "CC2420_MAX_PACKET_LEN \<equiv> 127"
abbreviation RSSI_OFFSET :: int where "RSSI_OFFSET \<equiv> - 45"
abbreviation LOOP_20_SYMBOLS :: nat where "LOOP_20_SYMBOLS \<equiv> 800"
abbreviation AUTOACK :: u16 where "AUTOACK \<equiv> 0x0010"
abbreviation AUTOCRC :: u16 where "AUTOCRC \<equiv> 0x0020"
abbreviation ADR_DECODE :: u16 where "ADR_DECODE \<equiv> 0x0800"
abbreviation RXBPF_LOCUR :: u16 where "RXBPF_LOCUR \<equiv> 0x2000"
abbreviation ATTR_RADIO_TXPOWER :: pb_attr where "ATTR_RADIO_TXPOWER \<equiv> ATTR_OTHER 6"
abbreviation ATTR_LINK_QUALITY :: pb_attr where "ATTR_LINK_QUALITY \<equiv> ATTR_OTHER 3"
abbreviation TYPE_TIMESTAMP :: u16 where "TYPE_TIMESTAMP \<equiv> 4"

record radio =
  locked :: u8
  lock_on :: bool
  lock_off :: bool
  receive_on :: bool
  channel :: int
  poll_mode :: bool
  send_on_cca :: bool
  cc2420_last_rssi :: u8
  cc2420_last_correlation :: u8
  last_packet_timestamp :: u16
  process_polled :: bool
  rpb :: pbuf
  bus :: "cmd list"
  in_status :: "u8 list"
  in_reg :: "u16 list"
  in_rx :: "u8 list"
  in_ram :: "u8 list"
  in_now :: "u16 list"
  in_sfd_time :: "u16 list"
  in_sfd :: "bool list"
  in_fifop :: "bool list"
  in_fifo :: "bool list"
  in_cca :: "bool list"

text \<open>The next answer of a kind: \<open>upd\<close> stores the rest of the list.\<close>

definition next_in :: "'a list \<Rightarrow> ('a list \<Rightarrow> radio) \<Rightarrow> ('a \<times> radio) res" where
  "next_in xs upd = (case xs of [] \<Rightarrow> Fault EnvExhausted | x # rest \<Rightarrow> Ok (x, upd rest))"

definition take_in :: "nat \<Rightarrow> 'a list \<Rightarrow> ('a list \<Rightarrow> radio) \<Rightarrow> ('a list \<times> radio) res" where
  "take_in n xs upd = (if n \<le> length xs then Ok (take n xs, upd (drop n xs)) else Fault EnvExhausted)"

definition emit :: "cmd \<Rightarrow> radio \<Rightarrow> radio" where
  "emit c s = s\<lparr>bus := bus s @ [c]\<rparr>"

definition strobe :: "cc2420_register \<Rightarrow> radio \<Rightarrow> radio" where
  "strobe regname s = emit (Strobe regname) s"

definition getreg :: "cc2420_register \<Rightarrow> radio \<Rightarrow> (u16 \<times> radio) res" where
  "getreg regname s = next_in (in_reg s) (\<lambda>rest. emit (GetReg regname) (s\<lparr>in_reg := rest\<rparr>))"

definition setreg :: "cc2420_register \<Rightarrow> u16 \<Rightarrow> radio \<Rightarrow> radio" where
  "setreg regname value s = emit (SetReg regname value) s"

text \<open>The loops have an 8-bit counter, so they do not end for a count of 256 or more.\<close>

definition read_ram :: "u16 \<Rightarrow> nat \<Rightarrow> radio \<Rightarrow> (u8 list \<times> radio) res" where
  "read_ram adr count s =
     (if 255 < count then Fault Diverge
      else take_in count (in_ram s) (\<lambda>rest. emit (ReadRam adr count) (s\<lparr>in_ram := rest\<rparr>)))"

datatype write_ram_order = WRITE_RAM_IN_ORDER | WRITE_RAM_REVERSE

definition write_ram :: "u8 list \<Rightarrow> u16 \<Rightarrow> nat \<Rightarrow> write_ram_order \<Rightarrow> radio \<Rightarrow> radio res" where
  "write_ram buffer adr count order s =
     (if 255 < count \<and> order = WRITE_RAM_IN_ORDER then Fault Diverge
      else bindR (get_bytes 0 (count mod 256) buffer) (\<lambda>bs.
        Ok (emit (WriteRam adr (case order of WRITE_RAM_IN_ORDER \<Rightarrow> bs | WRITE_RAM_REVERSE \<Rightarrow> rev bs)) s)))"

definition write_fifo_buf :: "u8 list \<Rightarrow> u16 \<Rightarrow> radio \<Rightarrow> radio res" where
  "write_fifo_buf buffer count s =
     (if 255 < count then Fault Diverge
      else bindR (get_bytes 0 (unat count) buffer) (\<lambda>bs. Ok (emit (WriteFifo bs) s)))"

definition get_status :: "radio \<Rightarrow> (u8 \<times> radio) res" where
  "get_status s = next_in (in_status s) (\<lambda>rest. emit (Strobe SNOP) (s\<lparr>in_status := rest\<rparr>))"

definition getrxdata :: "nat \<Rightarrow> radio \<Rightarrow> (u8 list \<times> radio) res" where
  "getrxdata count s =
     (if 255 < count then Fault Diverge
      else take_in count (in_rx s) (\<lambda>rest. emit (GetRx count) (s\<lparr>in_rx := rest\<rparr>)))"

definition flushrx :: "radio \<Rightarrow> radio res" where
  "flushrx s = bindR (getrxdata 1 s) (\<lambda>(dummy, s). Ok (strobe SFLUSHRX (strobe SFLUSHRX s)))"

text \<open>\<open>RTIMER_NOW()\<close>, and the comparison of dates of 16 bits.\<close>

definition radio_now :: "radio \<Rightarrow> (u16 \<times> radio) res" where
  "radio_now s = next_in (in_now s) (\<lambda>rest. s\<lparr>in_now := rest\<rparr>)"

definition RTIMER_CLOCK_LT :: "u16 \<Rightarrow> u16 \<Rightarrow> bool" where
  "RTIMER_CLOCK_LT a b \<longleftrightarrow> sint (a - b) < 0"

section \<open>Waiting\<close>

text \<open>\<open>wanted\<close> says which status ends the loop; it also ends 51 units of the timer, a tenth of a second, after \<open>t0\<close>.\<close>

lemma get_status_less: "get_status s = Ok (st, s') \<Longrightarrow> length (in_status s') < length (in_status s)"
  by (auto simp: get_status_def next_in_def emit_def split: list.splits)

lemma radio_now_status: "radio_now s = Ok (t, s') \<Longrightarrow> in_status s' = in_status s"
  by (auto simp: radio_now_def next_in_def split: list.splits)

function wait_loop :: "(u8 \<Rightarrow> bool) \<Rightarrow> u16 \<Rightarrow> radio \<Rightarrow> radio res" where
  "wait_loop wanted t0 s =
     bindR (get_status s) (\<lambda>(st, s1).
       if wanted st then Ok s1
       else bindR (radio_now s1) (\<lambda>(now, s2). if RTIMER_CLOCK_LT now (t0 + 51) then wait_loop wanted t0 s2 else Ok s2))"
  by auto
termination
  by (relation "measure (\<lambda>(wanted, t0, s). length (in_status s))") (auto dest!: get_status_less radio_now_status)

declare wait_loop.simps [simp del]

definition wait_for_status :: "nat \<Rightarrow> radio \<Rightarrow> radio res" where
  "wait_for_status status_bit s = bindR (radio_now s) (\<lambda>(t0, s). wait_loop (\<lambda>st. bit st status_bit) t0 s)"

definition wait_for_transmission :: "radio \<Rightarrow> radio res" where
  "wait_for_transmission s = bindR (radio_now s) (\<lambda>(t0, s). wait_loop (\<lambda>st. \<not> bit st TX_ACTIVE) t0 s)"

section \<open>On, off and the lock\<close>

definition radio_on :: "radio \<Rightarrow> radio" where
  "radio_on s =
     (let s = (if \<not> poll_mode s then emit (FifopInt True) s else s)
      in (strobe SRXON s)\<lparr>receive_on := True\<rparr>)"

definition fifop_is_1 :: "radio \<Rightarrow> (bool \<times> radio) res" where
  "fifop_is_1 s = next_in (in_fifop s) (\<lambda>rest. s\<lparr>in_fifop := rest\<rparr>)"

definition radio_off :: "radio \<Rightarrow> radio res" where
  "radio_off s =
     bindR (wait_for_transmission (s\<lparr>receive_on := False\<rparr>)) (\<lambda>s.
     let s = strobe SRFOFF s; s = (if \<not> poll_mode s then emit (FifopInt False) s else s)
     in bindR (fifop_is_1 s) (\<lambda>(fifop, s). if \<not> fifop then flushrx s else Ok s))"

definition GET_LOCK :: "radio \<Rightarrow> radio" where
  "GET_LOCK s = s\<lparr>locked := locked s + 1\<rparr>"

definition RELEASE_LOCK :: "radio \<Rightarrow> radio res" where
  "RELEASE_LOCK s =
     bindR (if locked s = 1 then
              let s = (if lock_on s then (radio_on s)\<lparr>lock_on := False\<rparr> else s)
              in if lock_off s then bindR (radio_off s) (\<lambda>s. Ok (s\<lparr>lock_off := False\<rparr>)) else Ok s
            else Ok s)
       (\<lambda>s. Ok (s\<lparr>locked := locked s - 1\<rparr>))"

text \<open>A body between \<open>GET_LOCK\<close> and \<open>RELEASE_LOCK\<close>, and its result.\<close>

definition with_lock :: "(radio \<Rightarrow> ('a \<times> radio) res) \<Rightarrow> radio \<Rightarrow> ('a \<times> radio) res" where
  "with_lock f s = bindR (f (GET_LOCK s)) (\<lambda>(x, s). bindR (RELEASE_LOCK s) (\<lambda>s. Ok (x, s)))"

definition locked_do :: "(radio \<Rightarrow> radio res) \<Rightarrow> radio \<Rightarrow> radio res" where
  "locked_do f s = bindR (f (GET_LOCK s)) RELEASE_LOCK"

section \<open>Security\<close>

definition init_security :: "radio \<Rightarrow> radio" where
  "init_security s = setreg SECCTRL1 0 (setreg SECCTRL0 0 s)"

definition cc2420_set_key :: "u8 list \<Rightarrow> radio \<Rightarrow> radio res" where
  "cc2420_set_key key = locked_do (write_ram key CC2420RAM_KEY0 16 WRITE_RAM_REVERSE)"

function busy_loop :: "radio \<Rightarrow> radio res" where
  "busy_loop s = bindR (get_status s) (\<lambda>(st, s). if bit st ENC_BUSY then busy_loop s else Ok s)"
  by auto
termination by (relation "measure (\<lambda>s. length (in_status s))") (auto dest: get_status_less)

declare busy_loop.simps [simp del]

definition cc2420_encrypt :: "u8 list \<Rightarrow> radio \<Rightarrow> (u8 list \<times> radio) res" where
  "cc2420_encrypt plaintext = with_lock (\<lambda>s.
     bindR (write_ram plaintext CC2420RAM_SABUF 16 WRITE_RAM_IN_ORDER s) (\<lambda>s.
     bindR (busy_loop (strobe SAES s)) (read_ram CC2420RAM_SABUF 16)))"

section \<open>Power, channel and modes\<close>

definition set_txpower :: "u8 \<Rightarrow> radio \<Rightarrow> radio res" where
  "set_txpower pw s =
     bindR (getreg TXCTRL s) (\<lambda>(reg, s). Ok (setreg TXCTRL ((reg AND 0xffe0) OR (ucast pw AND 0x1f)) s))"

definition cc2420_set_txpower :: "u8 \<Rightarrow> radio \<Rightarrow> radio res" where
  "cc2420_set_txpower pw = locked_do (set_txpower pw)"

definition cc2420_get_txpower :: "radio \<Rightarrow> (u16 \<times> radio) res" where
  "cc2420_get_txpower = with_lock (\<lambda>s. bindR (getreg TXCTRL s) (\<lambda>(reg, s). Ok (reg AND 0x001f, s)))"

definition cc2420_get_channel :: "radio \<Rightarrow> int" where
  "cc2420_get_channel s = channel s"

definition cc2420_set_channel :: "int \<Rightarrow> radio \<Rightarrow> radio res" where
  "cc2420_set_channel c = locked_do (\<lambda>s.
     bindR (wait_for_transmission (s\<lparr>channel := c\<rparr>)) (\<lambda>s.
     let s = setreg FSCTRL (word_of_int (5 * (c - 11) + 357 + 0x4000)) s
     in Ok (if receive_on s then strobe SRXON s else s)))"

definition cc2420_set_pan_addr :: "u16 \<Rightarrow> u16 \<Rightarrow> u8 list option \<Rightarrow> radio \<Rightarrow> radio res" where
  "cc2420_set_pan_addr pan addr ieee_addr = locked_do (\<lambda>s.
     bindR (write_ram (enc_u16 pan) CC2420RAM_PANID 2 WRITE_RAM_IN_ORDER s) (\<lambda>s.
     bindR (write_ram (enc_u16 addr) CC2420RAM_SHORTADDR 2 WRITE_RAM_IN_ORDER s) (\<lambda>s.
       case ieee_addr of None \<Rightarrow> Ok s | Some a \<Rightarrow> write_ram a CC2420RAM_IEEEADDR 8 WRITE_RAM_REVERSE s)))"

definition get_cca_threshold :: "radio \<Rightarrow> (int \<times> radio) res" where
  "get_cca_threshold = with_lock (\<lambda>s. bindR (getreg RSSI_REG s) (\<lambda>(reg, s). Ok (sint (ucast (drop_bit 8 reg) :: u8), s)))"

definition cc2420_set_cca_threshold :: "int \<Rightarrow> radio \<Rightarrow> radio res" where
  "cc2420_set_cca_threshold value = locked_do (\<lambda>s. Ok (setreg RSSI_REG (push_bit 8 (word_of_int value)) s))"

definition set_auto_ack :: "bool \<Rightarrow> radio \<Rightarrow> radio res" where
  "set_auto_ack enable = locked_do (\<lambda>s. bindR (getreg MDMCTRL0 s) (\<lambda>(reg, s).
     Ok (setreg MDMCTRL0 (if enable then reg OR AUTOACK else reg AND NOT AUTOACK) s)))"

definition set_frame_filtering :: "bool \<Rightarrow> radio \<Rightarrow> radio res" where
  "set_frame_filtering enable = locked_do (\<lambda>s. bindR (getreg MDMCTRL0 s) (\<lambda>(reg, s).
     Ok (setreg MDMCTRL0 (if enable then reg OR ADR_DECODE else reg AND NOT ADR_DECODE) s)))"

definition set_poll_mode :: "bool \<Rightarrow> radio \<Rightarrow> radio res" where
  "set_poll_mode enable = locked_do (\<lambda>s.
     let s = s\<lparr>poll_mode := enable\<rparr>
     in Ok (if enable then emit (FifopInt False) (emit FifopClear s)
            else emit FifopClear (emit (FifopInt True) (emit FifopInit s))))"

definition set_send_on_cca :: "bool \<Rightarrow> radio \<Rightarrow> radio" where
  "set_send_on_cca enable s = s\<lparr>send_on_cca := enable\<rparr>"

definition cc2420_off :: "radio \<Rightarrow> radio res" where
  "cc2420_off s =
     (if \<not> receive_on s then Ok s
      else if locked s \<noteq> 0 then Ok (s\<lparr>lock_off := True\<rparr>)
      else locked_do (\<lambda>s. bindR (get_status s) (\<lambda>(st, s).
        if bit st TX_ACTIVE then Ok (s\<lparr>lock_off := True\<rparr>) else radio_off s)) s)"

definition cc2420_on :: "radio \<Rightarrow> radio res" where
  "cc2420_on s =
     (if receive_on s then Ok s
      else if locked s \<noteq> 0 then Ok (s\<lparr>lock_on := True\<rparr>)
      else locked_do (\<lambda>s. Ok (radio_on s)) s)"

text \<open>\<open>CORR_THR(20)\<close> is \<open>0x500\<close>, \<open>FIFOP_THR(127)\<close> is \<open>0x7f\<close>. The process of the driver is started last.\<close>

definition cc2420_init :: "bool \<Rightarrow> int \<Rightarrow> int \<Rightarrow> radio \<Rightarrow> radio res" where
  "cc2420_init autoack chan cca_thresh s =
     run [up (emit ArchInit), up (emit (FifopInt False)), up (emit FifopInit), up (emit ResetChip), up (strobe SXOSCON),
          wait_for_status XOSC16M_STABLE, set_auto_ack autoack, set_frame_filtering autoack,
          \<lambda>s. bindR (getreg MDMCTRL0 s) (\<lambda>(reg, s). Ok (setreg MDMCTRL0 (reg OR AUTOCRC) s)),
          up (setreg MDMCTRL1 0x500),
          \<lambda>s. bindR (getreg RXCTRL1 s) (\<lambda>(reg, s). Ok (setreg RXCTRL1 (reg OR RXBPF_LOCUR) s)),
          up (setreg IOCFG0 0x7f), up init_security,
          cc2420_set_pan_addr 0xffff 0x0000 None, cc2420_set_channel chan, cc2420_set_cca_threshold cca_thresh,
          flushrx, set_poll_mode False] s"

section \<open>Sending\<close>

definition sfd_is_1 :: "radio \<Rightarrow> (bool \<times> radio) res" where
  "sfd_is_1 s = next_in (in_sfd s) (\<lambda>rest. s\<lparr>in_sfd := rest\<rparr>)"

definition sfd_start_time :: "radio \<Rightarrow> (u16 \<times> radio) res" where
  "sfd_start_time s = next_in (in_sfd_time s) (\<lambda>rest. s\<lparr>in_sfd_time := rest\<rparr>)"

text \<open>The loop that waits for the start of the frame: the value is whether the pin was seen high.\<close>

fun sfd_wait :: "nat \<Rightarrow> radio \<Rightarrow> (bool \<times> radio) res" where
  "sfd_wait 0 s = Ok (False, s)"
| "sfd_wait (Suc i) s = bindR (sfd_is_1 s) (\<lambda>(high, s). if high then Ok (True, s) else sfd_wait i s)"

text \<open>The two places where \<open>cc2420_transmit\<close> changes the power, and its two ways to start a transmission.\<close>

definition tx_set_power :: "radio \<Rightarrow> (u16 \<times> radio) res" where
  "tx_set_power s =
     (if 0 < packetbuf_attr ATTR_RADIO_TXPOWER (rpb s) then
        bindR (cc2420_get_txpower s) (\<lambda>(txpower, s).
        bindR (set_txpower (ucast (packetbuf_attr ATTR_RADIO_TXPOWER (rpb s) - 1)) s) (\<lambda>s. Ok (txpower, s)))
      else Ok (0, s))"

definition tx_restore_power :: "u16 \<Rightarrow> radio \<Rightarrow> radio res" where
  "tx_restore_power txpower s =
     (if 0 < packetbuf_attr ATTR_RADIO_TXPOWER (rpb s) then set_txpower (ucast (txpower AND 0xff)) s else Ok s)"

definition tx_start :: "radio \<Rightarrow> radio res" where
  "tx_start s =
     (if send_on_cca s then bindR (wait_for_status RSSI_VALID (strobe SRXON s)) (\<lambda>s. Ok (strobe STXONCCA s))
      else Ok (strobe STXON s))"

text \<open>The body of the loop once the pin is high: the time stamp, the check that this frame is ours, and the wait for its end.\<close>

definition tx_stamp :: "u16 \<Rightarrow> radio \<Rightarrow> radio res" where
  "tx_stamp plen s =
     bindR (sfd_start_time s) (\<lambda>(sfd_timestamp, s).
       if packetbuf_attr ATTR_PACKET_TYPE (rpb s) = TYPE_TIMESTAMP
       then write_ram (enc_u16 sfd_timestamp) (CC2420RAM_TXFIFO + plen - 1) 2 WRITE_RAM_IN_ORDER s
       else Ok s)"

definition tx_started :: "u16 \<Rightarrow> u16 \<Rightarrow> radio \<Rightarrow> (radio_tx \<times> radio) res" where
  "tx_started txpower plen s =
     bindR (tx_stamp plen s) (\<lambda>s.
     bindR (get_status s) (\<lambda>(st, s).
       if \<not> bit st TX_ACTIVE then Ok (RADIO_TX_COLLISION, s)
       else
         bindR (wait_for_transmission s) (\<lambda>s.
         bindR (if receive_on s then Ok s else radio_off s) (\<lambda>s.
         bindR (tx_restore_power txpower s) (\<lambda>s. Ok (RADIO_TX_OK, s))))))"

definition cc2420_transmit :: "u16 \<Rightarrow> radio \<Rightarrow> (radio_tx \<times> radio) res" where
  "cc2420_transmit plen = with_lock (\<lambda>s.
     bindR (tx_set_power s) (\<lambda>(txpower, s).
     bindR (tx_start s) (\<lambda>s.
     bindR (sfd_wait LOOP_20_SYMBOLS s) (\<lambda>(high, s).
       if high then tx_started txpower plen s
       else bindR (tx_restore_power txpower s) (\<lambda>s. Ok (RADIO_TX_COLLISION, s))))))"

definition cc2420_prepare :: "u8 list \<Rightarrow> u16 \<Rightarrow> radio \<Rightarrow> radio res" where
  "cc2420_prepare bytes plen = locked_do (\<lambda>s.
     let total_len = ucast (plen + 2) :: u8
     in bindR (write_fifo_buf [total_len] 1 (strobe SFLUSHTX s)) (write_fifo_buf bytes plen))"

definition cc2420_send :: "u8 list \<Rightarrow> u16 \<Rightarrow> radio \<Rightarrow> (radio_tx \<times> radio) res" where
  "cc2420_send bytes plen s = bindR (cc2420_prepare bytes plen s) (cc2420_transmit plen)"

section \<open>Receiving\<close>

definition cc2420_interrupt :: "radio \<Rightarrow> radio res" where
  "cc2420_interrupt s =
     bindR (sfd_start_time ((emit FifopClear s)\<lparr>process_polled := True\<rparr>)) (\<lambda>(t, s). Ok (s\<lparr>last_packet_timestamp := t\<rparr>))"

definition fifo_is_1 :: "radio \<Rightarrow> (bool \<times> radio) res" where
  "fifo_is_1 s = next_in (in_fifo s) (\<lambda>rest. s\<lparr>in_fifo := rest\<rparr>)"

text \<open>
  The part of \<open>cc2420_read\<close> for a good length: the value is what is written to the buffer and the length that is returned. First what the
  driver keeps of a footer with a good checksum, then the look at what is left in the queue of the chip.
\<close>

definition keep_footer :: "u8 list \<Rightarrow> radio \<Rightarrow> radio" where
  "keep_footer footer s =
     (let s = s\<lparr>cc2420_last_rssi := footer ! 0 + word_of_int RSSI_OFFSET, cc2420_last_correlation := footer ! 1 AND 0x7f\<rparr>
      in if \<not> poll_mode s
         then s\<lparr>rpb := packetbuf_set_attr ATTR_LINK_QUALITY (ucast (cc2420_last_correlation s))
                  (packetbuf_set_attr ATTR_RSSI (scast (cc2420_last_rssi s)) (rpb s))\<rparr>
         else s)"

definition check_rxfifo :: "radio \<Rightarrow> radio res" where
  "check_rxfifo s =
     (if \<not> poll_mode s then
        bindR (fifop_is_1 s) (\<lambda>(fifop, s).
          if fifop then bindR (fifo_is_1 s) (\<lambda>(fifo, s). if \<not> fifo then flushrx s else Ok (s\<lparr>process_polled := True\<rparr>))
          else Ok s)
      else Ok s)"

definition read_frame :: "u8 \<Rightarrow> radio \<Rightarrow> ((u8 list \<times> nat) \<times> radio) res" where
  "read_frame len s =
     bindR (getrxdata (unat len - FOOTER_LEN) s) (\<lambda>(buf, s).
     bindR (getrxdata FOOTER_LEN s) (\<lambda>(footer, s).
     let (len, s) = (if bit (footer ! 1) 7 then (unat len, keep_footer footer s) else (FOOTER_LEN, s))
     in bindR (check_rxfifo s) (\<lambda>s. Ok ((buf, len - FOOTER_LEN), s))))"

definition cc2420_read :: "u16 \<Rightarrow> radio \<Rightarrow> ((u8 list \<times> nat) \<times> radio) res" where
  "cc2420_read bufsize s =
     bindR (fifop_is_1 s) (\<lambda>(fifop, s).
       if \<not> fifop then Ok (([], 0), s)
       else with_lock (\<lambda>s.
         bindR (getrxdata 1 s) (\<lambda>(bs, s).
           let len = hd bs
           in if CC2420_MAX_PACKET_LEN < unat len \<or> unat len \<le> FOOTER_LEN \<or> unat bufsize < unat len - FOOTER_LEN
              then bindR (flushrx s) (\<lambda>s. Ok (([], 0), s))
              else read_frame len s)) s)"

text \<open>
  What the process of the driver does when it is polled; the input function of the layer above is a parameter. In poll mode the event is ignored.
\<close>

definition cc2420_process :: "(radio \<Rightarrow> radio res) \<Rightarrow> radio \<Rightarrow> radio res" where
  "cc2420_process rdc_input s =
     (let s = s\<lparr>process_polled := False\<rparr> in
      if poll_mode s then Ok s
      else
        let s = s\<lparr>rpb := packetbuf_set_attr ATTR_TIMESTAMP (last_packet_timestamp s) (packetbuf_clear (rpb s))\<rparr>
        in bindR (cc2420_read (of_nat PACKETBUF_SIZE) s) (\<lambda>((buf, len), s).
           bindR (put_bytes (packetbuf_dataptr (rpb s)) buf (pb_data (rpb s))) (\<lambda>mem.
             rdc_input (s\<lparr>rpb := packetbuf_set_datalen (of_nat len) ((rpb s)\<lparr>pb_data := mem\<rparr>)\<rparr>))))"

section \<open>Measuring\<close>

definition cca_is_1 :: "radio \<Rightarrow> (bool \<times> radio) res" where
  "cca_is_1 s = next_in (in_cca s) (\<lambda>rest. s\<lparr>in_cca := rest\<rparr>)"

definition cc2420_rssi :: "radio \<Rightarrow> (int \<times> radio) res" where
  "cc2420_rssi s =
     (if locked s \<noteq> 0 then Ok (0, s)
      else with_lock (\<lambda>s.
        let radio_was_off = \<not> receive_on s
        in bindR (if radio_was_off then cc2420_on s else Ok s) (\<lambda>s.
           bindR (wait_for_status RSSI_VALID s) (\<lambda>s.
           bindR (getreg RSSI_REG s) (\<lambda>(reg, s).
           let rssi = sint (ucast reg :: u8) + RSSI_OFFSET
           in bindR (if radio_was_off then cc2420_off s else Ok s) (\<lambda>s. Ok (rssi, s)))))) s)"

definition cc2420_cca :: "radio \<Rightarrow> (bool \<times> radio) res" where
  "cc2420_cca s =
     (if locked s \<noteq> 0 then Ok (True, s)
      else
        let s = GET_LOCK s; radio_was_off = \<not> receive_on s
        in bindR (if radio_was_off then cc2420_on s else Ok s) (\<lambda>s.
           if \<not> receive_on s
           then bindR (RELEASE_LOCK s) (\<lambda>s. bindR (if radio_was_off then cc2420_off s else Ok s) (\<lambda>s. Ok (True, s)))
           else
             bindR (wait_for_status RSSI_VALID s) (\<lambda>s.
             bindR (cca_is_1 s) (\<lambda>(cca, s).
             bindR (if radio_was_off then cc2420_off s else Ok s) (\<lambda>s.
             bindR (RELEASE_LOCK s) (\<lambda>s. Ok (cca, s)))))))"

definition cc2420_receiving_packet :: "radio \<Rightarrow> (bool \<times> radio) res" where
  "cc2420_receiving_packet = sfd_is_1"

definition pending_packet :: "radio \<Rightarrow> (bool \<times> radio) res" where
  "pending_packet = fifop_is_1"

section \<open>Parameters\<close>

text \<open>\<open>RADIO_PARAM_OTHER\<close> stands for the numbers that are not in the list.\<close>

datatype radio_param =
    RADIO_PARAM_POWER_MODE | RADIO_PARAM_CHANNEL | RADIO_PARAM_PAN_ID | RADIO_PARAM_16BIT_ADDR | RADIO_PARAM_RX_MODE | RADIO_PARAM_TX_MODE
  | RADIO_PARAM_TXPOWER | RADIO_PARAM_CCA_THRESHOLD | RADIO_PARAM_RSSI | RADIO_PARAM_LAST_RSSI | RADIO_PARAM_LAST_LINK_QUALITY
  | RADIO_PARAM_64BIT_ADDR | RADIO_PARAM_LAST_PACKET_TIMESTAMP
  | RADIO_CONST_CHANNEL_MIN | RADIO_CONST_CHANNEL_MAX | RADIO_CONST_TXPOWER_MIN | RADIO_CONST_TXPOWER_MAX
  | RADIO_PARAM_OTHER nat

datatype radio_result = RADIO_RESULT_OK | RADIO_RESULT_NOT_SUPPORTED | RADIO_RESULT_INVALID_VALUE | RADIO_RESULT_ERROR

abbreviation OUTPUT_POWER_MAX :: int where "OUTPUT_POWER_MAX \<equiv> 0"
abbreviation OUTPUT_POWER_MIN :: int where "OUTPUT_POWER_MIN \<equiv> - 25"

definition output_power :: "(int \<times> u8) list" where
  "output_power = [(0, 31), (- 1, 27), (- 3, 23), (- 5, 19), (- 7, 15), (- 10, 11), (- 15, 7), (- 25, 3)]"

definition power_of_level :: "u16 \<Rightarrow> int" where
  "power_of_level v =
     (case filter (\<lambda>(pw, config). unat config \<le> unat v) output_power of [] \<Rightarrow> OUTPUT_POWER_MIN | (pw, config) # rest \<Rightarrow> pw)"

text \<open>The last entry before the first one, the entry 0 apart, that is lower than \<open>value\<close>.\<close>

definition level_of_power :: "int \<Rightarrow> u8" where
  "level_of_power value = snd (output_power ! length (takeWhile (\<lambda>(pw, config). \<not> pw < value) (tl output_power)))"

definition radio_get_value :: "radio_param \<Rightarrow> bool \<Rightarrow> radio \<Rightarrow> ((radio_result \<times> int option) \<times> radio) res" where
  "radio_get_value param nonnull s =
     (let ok = (\<lambda>v s. Ok ((RADIO_RESULT_OK, Some v), s)) in
      if \<not> nonnull then Ok ((RADIO_RESULT_INVALID_VALUE, None), s)
      else case param of
        RADIO_PARAM_POWER_MODE \<Rightarrow> ok (of_bool (receive_on s)) s
      | RADIO_PARAM_CHANNEL \<Rightarrow> ok (cc2420_get_channel s) s
      | RADIO_PARAM_RX_MODE \<Rightarrow>
          bindR (getreg MDMCTRL0 s) (\<lambda>(reg1, s).
          bindR (getreg MDMCTRL0 s) (\<lambda>(reg2, s).
            ok (of_bool (reg1 AND ADR_DECODE \<noteq> 0) + 2 * of_bool (reg2 AND AUTOACK \<noteq> 0) + 4 * of_bool (poll_mode s)) s))
      | RADIO_PARAM_TX_MODE \<Rightarrow> ok (of_bool (send_on_cca s)) s
      | RADIO_PARAM_TXPOWER \<Rightarrow> bindR (cc2420_get_txpower s) (\<lambda>(v, s). ok (power_of_level v) s)
      | RADIO_PARAM_CCA_THRESHOLD \<Rightarrow> bindR (get_cca_threshold s) (\<lambda>(v, s). ok (v + RSSI_OFFSET) s)
      | RADIO_PARAM_RSSI \<Rightarrow> bindR (cc2420_rssi s) (\<lambda>(v, s). ok v s)
      | RADIO_PARAM_LAST_RSSI \<Rightarrow> ok (sint (cc2420_last_rssi s)) s
      | RADIO_PARAM_LAST_LINK_QUALITY \<Rightarrow> ok (uint (cc2420_last_correlation s)) s
      | RADIO_CONST_CHANNEL_MIN \<Rightarrow> ok 11 s
      | RADIO_CONST_CHANNEL_MAX \<Rightarrow> ok 26 s
      | RADIO_CONST_TXPOWER_MIN \<Rightarrow> ok OUTPUT_POWER_MIN s
      | RADIO_CONST_TXPOWER_MAX \<Rightarrow> ok OUTPUT_POWER_MAX s
      | _ \<Rightarrow> Ok ((RADIO_RESULT_NOT_SUPPORTED, None), s))"

definition radio_set_value :: "radio_param \<Rightarrow> int \<Rightarrow> radio \<Rightarrow> (radio_result \<times> radio) res" where
  "radio_set_value param value s =
     (let ok = (\<lambda>s. Ok (RADIO_RESULT_OK, s)); invalid = Ok (RADIO_RESULT_INVALID_VALUE, s) in
      case param of
        RADIO_PARAM_POWER_MODE \<Rightarrow>
          if value = 1 then bindR (cc2420_on s) ok else if value = 0 then bindR (cc2420_off s) ok else invalid
      | RADIO_PARAM_CHANNEL \<Rightarrow> if value < 11 \<or> 26 < value then invalid else bindR (cc2420_set_channel value s) ok
      | RADIO_PARAM_RX_MODE \<Rightarrow>
          if value AND NOT 7 \<noteq> 0 then invalid
          else bindR (set_frame_filtering (bit value 0) s) (\<lambda>s. bindR (set_auto_ack (bit value 1) s) (\<lambda>s. bindR (set_poll_mode (bit value 2) s) ok))
      | RADIO_PARAM_TX_MODE \<Rightarrow> if value AND NOT 1 \<noteq> 0 then invalid else ok (set_send_on_cca (bit value 0) s)
      | RADIO_PARAM_TXPOWER \<Rightarrow>
          if value < OUTPUT_POWER_MIN \<or> OUTPUT_POWER_MAX < value then invalid
          else bindR (cc2420_set_txpower (level_of_power value) s) ok
      | RADIO_PARAM_CCA_THRESHOLD \<Rightarrow> bindR (cc2420_set_cca_threshold (value - RSSI_OFFSET) s) ok
      | _ \<Rightarrow> Ok (RADIO_RESULT_NOT_SUPPORTED, s))"

text \<open>\<open>dest\<close> says whether the pointer is not null.\<close>

definition radio_get_object :: "radio_param \<Rightarrow> bool \<Rightarrow> nat \<Rightarrow> radio \<Rightarrow> ((radio_result \<times> u16 option) \<times> radio) res" where
  "radio_get_object param dest sz s =
     (if param = RADIO_PARAM_LAST_PACKET_TIMESTAMP then
        if sz \<noteq> 2 \<or> \<not> dest then Ok ((RADIO_RESULT_INVALID_VALUE, None), s)
        else bindR (sfd_start_time s) (\<lambda>(t, s). Ok ((RADIO_RESULT_OK, Some t), s))
      else Ok ((RADIO_RESULT_NOT_SUPPORTED, None), s))"

definition radio_set_object :: "radio_param \<Rightarrow> radio \<Rightarrow> (radio_result \<times> radio) res" where
  "radio_set_object param s = Ok (RADIO_RESULT_NOT_SUPPORTED, s)"

end
