(* ===== verification/CC2420_Laws.thy ===== *)
theory CC2420_Laws
  imports CC2420 Adv_Laws
begin

unbundle bit_operations_syntax

text \<open>
  The laws of the radio driver: every entry point gives back the lock; what a sender puts into the queue of its chip, with the time of the start of
  the frame in the last two bytes of a packet that wants one, is what the process of a receiver hands to the layer above; reading never writes more
  than the caller's buffer holds; the tables of the parameters are inverse to each other. And what goes wrong: a failed transmission and a
  measurement of the signal strength leave a radio that was off running, a radio that is off finds the channel always clear, the power of a packet
  stays set after a collision, and frames that are too long are not refused.
\<close>

section \<open>The queue for frames to send\<close>

text \<open>
  What the chip does with the commands is in its data sheet: \<open>txfifo\<close> is what its queue for frames to send, the first 128 bytes of its memory, holds
  after the commands on the bus. \<open>radio_frame\<close> collects what most operations leave alone.
\<close>

fun tx_apply :: "cmd \<Rightarrow> u8 list \<Rightarrow> u8 list" where
  "tx_apply (Strobe r) f = (if r = SFLUSHTX then [] else f)"
| "tx_apply (WriteFifo bs) f = f @ bs"
| "tx_apply (WriteRam adr bs) f = (if unat adr < 128 then take (unat adr) f @ bs @ drop (unat adr + length bs) f else f)"
| "tx_apply c f = f"

definition txfifo :: "radio \<Rightarrow> u8 list" where
  "txfifo s = fold tx_apply (bus s) []"

definition radio_frame :: "radio \<Rightarrow> u8 \<times> bool \<times> bool \<times> pbuf \<times> u16 list \<times> u8 list" where
  "radio_frame s = (locked s, lock_on s, lock_off s, rpb s, in_sfd_time s, txfifo s)"

named_theorems frame

lemma next_in_Ok [res_iff]: "next_in xs upd = Ok r \<longleftrightarrow> (\<exists>x rest. xs = x # rest \<and> r = (x, upd rest))"
  by (auto simp: next_in_def split: list.splits)

lemma take_in_Ok [res_iff]: "take_in n xs upd = Ok r \<longleftrightarrow> n \<le> length xs \<and> r = (take n xs, upd (drop n xs))"
  by (auto simp: take_in_def)

lemma emit_fields [simp]:
  "locked (emit c s) = locked s" "rpb (emit c s) = rpb s" "poll_mode (emit c s) = poll_mode s"
  "lock_on (emit c s) = lock_on s" "lock_off (emit c s) = lock_off s" "receive_on (emit c s) = receive_on s"
  "in_sfd_time (emit c s) = in_sfd_time s"
  "txfifo (emit c s) = tx_apply c (txfifo s)"
  by (simp_all add: emit_def txfifo_def)

lemma txfifo_fields [simp]:
  "txfifo (s\<lparr>locked := a\<rparr>) = txfifo s" "txfifo (s\<lparr>lock_on := b\<rparr>) = txfifo s" "txfifo (s\<lparr>lock_off := b\<rparr>) = txfifo s"
  "txfifo (s\<lparr>receive_on := b\<rparr>) = txfifo s" "txfifo (s\<lparr>channel := c\<rparr>) = txfifo s" "txfifo (s\<lparr>in_status := i\<rparr>) = txfifo s"
  "txfifo (s\<lparr>in_reg := j\<rparr>) = txfifo s" "txfifo (s\<lparr>in_rx := i\<rparr>) = txfifo s" "txfifo (s\<lparr>in_ram := i\<rparr>) = txfifo s"
  "txfifo (s\<lparr>in_now := j\<rparr>) = txfifo s" "txfifo (s\<lparr>in_sfd_time := j\<rparr>) = txfifo s" "txfifo (s\<lparr>in_sfd := k\<rparr>) = txfifo s"
  "txfifo (s\<lparr>in_fifop := k\<rparr>) = txfifo s" "txfifo (s\<lparr>in_fifo := k\<rparr>) = txfifo s" "txfifo (s\<lparr>in_cca := k\<rparr>) = txfifo s"
  "txfifo (s\<lparr>process_polled := b\<rparr>) = txfifo s" "txfifo (s\<lparr>rpb := p\<rparr>) = txfifo s" "txfifo (s\<lparr>poll_mode := b\<rparr>) = txfifo s"
  by (simp_all add: txfifo_def)

lemma getreg_frame [frame]: "getreg r s = Ok (v, s') \<Longrightarrow> radio_frame s' = radio_frame s"
  by (auto simp: getreg_def res_iff radio_frame_def)

lemma setreg_frame [simp]: "radio_frame (setreg r v s) = radio_frame s"
  by (simp add: setreg_def radio_frame_def)

lemma strobe_frame [simp]: "r \<noteq> SFLUSHTX \<Longrightarrow> radio_frame (strobe r s) = radio_frame s"
  by (simp add: strobe_def radio_frame_def)

lemma emit_frame [simp]: "tx_apply c (txfifo s) = txfifo s \<Longrightarrow> radio_frame (emit c s) = radio_frame s"
  by (simp add: radio_frame_def)

lemma radio_on_frame [simp]: "radio_frame (radio_on s) = radio_frame s"
  by (simp add: radio_on_def Let_def radio_frame_def strobe_def)

lemma flags_frame [simp]:
  "radio_frame (s\<lparr>receive_on := b\<rparr>) = radio_frame s" "radio_frame (s\<lparr>channel := c\<rparr>) = radio_frame s"
  "radio_frame (s\<lparr>process_polled := b\<rparr>) = radio_frame s" "radio_frame (s\<lparr>poll_mode := b\<rparr>) = radio_frame s"
  by (simp_all add: radio_frame_def)

lemma read_ram_frame [frame]: "read_ram a n s = Ok (v, s') \<Longrightarrow> radio_frame s' = radio_frame s"
  by (auto simp: read_ram_def res_iff radio_frame_def split: if_splits)

lemma write_ram_frame [frame]: "write_ram b a n ord s = Ok s' \<Longrightarrow> 128 \<le> unat a \<Longrightarrow> radio_frame s' = radio_frame s"
  by (auto simp: write_ram_def res_iff radio_frame_def split: if_splits)

lemma get_status_frame [frame]: "get_status s = Ok (v, s') \<Longrightarrow> radio_frame s' = radio_frame s"
  by (auto simp: get_status_def res_iff radio_frame_def)

lemma getrxdata_frame [frame]: "getrxdata n s = Ok (v, s') \<Longrightarrow> radio_frame s' = radio_frame s"
  by (auto simp: getrxdata_def res_iff radio_frame_def split: if_splits)

lemma radio_now_frame [frame]: "radio_now s = Ok (t, s') \<Longrightarrow> radio_frame s' = radio_frame s"
  by (auto simp: radio_now_def res_iff radio_frame_def)

lemma pins_frame [frame]:
  "fifop_is_1 s = Ok (b, s') \<Longrightarrow> radio_frame s' = radio_frame s"
  "fifo_is_1 s = Ok (b, s') \<Longrightarrow> radio_frame s' = radio_frame s"
  "sfd_is_1 s = Ok (b, s') \<Longrightarrow> radio_frame s' = radio_frame s"
  "cca_is_1 s = Ok (b, s') \<Longrightarrow> radio_frame s' = radio_frame s"
  by (auto simp: fifop_is_1_def fifo_is_1_def sfd_is_1_def cca_is_1_def res_iff radio_frame_def)

lemma flushrx_frame [frame]: "flushrx s = Ok s' \<Longrightarrow> radio_frame s' = radio_frame s"
  by (auto simp: flushrx_def res_iff dest!: frame)

lemma wait_loop_keeps:
  assumes "wait_loop w t0 s = Ok s'"
    and st: "\<And>s st s'. get_status s = Ok (st, s') \<Longrightarrow> v s' = v s" and now: "\<And>s t s'. radio_now s = Ok (t, s') \<Longrightarrow> v s' = v s"
  shows "v s' = v s"
  using assms(1)
proof (induction w t0 s rule: wait_loop.induct)
  case (1 w t0 s)
  from "1.prems" obtain st s1 where 2: "get_status s = Ok (st, s1)"
    and r: "(if w st then Ok s1 else bindR (radio_now s1) (\<lambda>(now, s2). if RTIMER_CLOCK_LT now (t0 + 51) then wait_loop w t0 s2 else Ok s2)) = Ok s'"
    by (subst (asm) wait_loop.simps) (auto simp: res_iff)
  show ?case
  proof (cases "w st")
    case True
    with r st [OF 2] show ?thesis by simp
  next
    case False
    with r obtain t s2 where 3: "radio_now s1 = Ok (t, s2)"
      and r2: "(if RTIMER_CLOCK_LT t (t0 + 51) then wait_loop w t0 s2 else Ok s2) = Ok s'" by (auto simp: res_iff)
    with "1.IH" [OF 2 refl False 3 refl] st [OF 2] now [OF 3] show ?thesis by (auto split: if_splits)
  qed
qed

lemma wait_loop_frame [frame]: "wait_loop w t0 s = Ok s' \<Longrightarrow> radio_frame s' = radio_frame s"
  by (erule wait_loop_keeps) (auto dest: frame)

lemma waits_frame [frame]:
  "wait_for_status b s = Ok s' \<Longrightarrow> radio_frame s' = radio_frame s"
  "wait_for_transmission s = Ok s' \<Longrightarrow> radio_frame s' = radio_frame s"
  by (auto simp: wait_for_status_def wait_for_transmission_def res_iff dest!: frame)

lemma busy_loop_frame [frame]: "busy_loop s = Ok s' \<Longrightarrow> radio_frame s' = radio_frame s"
proof (induction s rule: busy_loop.induct)
  case (1 s)
  from "1.prems" obtain st s1 where st: "get_status s = Ok (st, s1)" and r: "(if bit st ENC_BUSY then busy_loop s1 else Ok s1) = Ok s'"
    by (subst (asm) busy_loop.simps) (auto simp: res_iff)
  with "1.IH" [OF st refl] get_status_frame [OF st] show ?case by (auto split: if_splits)
qed

lemma radio_off_frame [frame]: "radio_off s = Ok s' \<Longrightarrow> radio_frame s' = radio_frame s"
  by (auto simp: radio_off_def res_iff Let_def dest!: frame split: if_splits)

lemma sfd_wait_frame [frame]: "sfd_wait n s = Ok (b, s') \<Longrightarrow> radio_frame s' = radio_frame s"
  by (induction n arbitrary: s) (auto simp: res_iff dest!: frame split: if_splits)

section \<open>The lock\<close>

text \<open>
  A driver that nobody uses has no lock and no pending order to turn the radio on or off. An operation is neutral when it gives back
  every lock that it takes and leaves an idle driver idle.
\<close>

lemma RELEASE_LOCK_Ok:
  assumes "RELEASE_LOCK s = Ok s'"
  shows "locked s' = locked s - 1" "rpb s' = rpb s" "in_sfd_time s' = in_sfd_time s" "txfifo s' = txfifo s" "locked s = 1 \<Longrightarrow> \<not> lock_on s' \<and> \<not> lock_off s'"
proof -
  define s0 where "s0 = (if lock_on s then (radio_on s)\<lparr>lock_on := False\<rparr> else s)"
  have s0: "locked s0 = locked s" "rpb s0 = rpb s" "in_sfd_time s0 = in_sfd_time s" "txfifo s0 = txfifo s" "\<not> lock_on s0" "lock_off s0 = lock_off s"
    using radio_on_frame [of s] by (auto simp: s0_def radio_frame_def)
  from assms obtain s1 where s1: "(if locked s = 1 then if lock_off s0 then bindR (radio_off s0) (\<lambda>s. Ok (s\<lparr>lock_off := False\<rparr>)) else Ok s0 else Ok s) = Ok s1"
    and s': "s' = s1\<lparr>locked := locked s1 - 1\<rparr>"
    unfolding RELEASE_LOCK_def Let_def s0_def [symmetric] res_iff by auto
  have "locked s1 = locked s \<and> rpb s1 = rpb s \<and> in_sfd_time s1 = in_sfd_time s \<and> txfifo s1 = txfifo s \<and> (locked s = 1 \<longrightarrow> \<not> lock_on s1 \<and> \<not> lock_off s1)"
  proof (cases "locked s = 1 \<and> lock_off s0")
    case True
    with s1 obtain s2 where "radio_off s0 = Ok s2" "s1 = s2\<lparr>lock_off := False\<rparr>" by (auto simp: res_iff)
    then show ?thesis using radio_off_frame [of s0 s2] s0 by (simp add: radio_frame_def)
  next
    case False
    with s1 s0 show ?thesis by (auto split: if_splits)
  qed
  with s' show "locked s' = locked s - 1" "rpb s' = rpb s" "in_sfd_time s' = in_sfd_time s" "txfifo s' = txfifo s" "locked s = 1 \<Longrightarrow> \<not> lock_on s' \<and> \<not> lock_off s'"
    by simp_all
qed

lemma GET_LOCK_fields [simp]:
  "locked (GET_LOCK s) = locked s + 1" "rpb (GET_LOCK s) = rpb s" "txfifo (GET_LOCK s) = txfifo s"
  "lock_on (GET_LOCK s) = lock_on s" "lock_off (GET_LOCK s) = lock_off s" "receive_on (GET_LOCK s) = receive_on s"
  "poll_mode (GET_LOCK s) = poll_mode s" "in_sfd_time (GET_LOCK s) = in_sfd_time s"
  by (simp_all add: GET_LOCK_def)

definition radio_idle :: "radio \<Rightarrow> bool" where
  "radio_idle s \<longleftrightarrow> locked s = 0 \<and> \<not> lock_on s \<and> \<not> lock_off s"

definition lock_neutral :: "radio \<Rightarrow> radio \<Rightarrow> bool" where
  "lock_neutral s s' \<longleftrightarrow> locked s' = locked s \<and> (radio_idle s \<longrightarrow> radio_idle s')"

lemma frame_neutral: "radio_frame s' = radio_frame s \<Longrightarrow> lock_neutral s s'"
  by (simp add: radio_frame_def lock_neutral_def radio_idle_def)

lemma neutral_refl [simp]: "lock_neutral s s"
  by (simp add: lock_neutral_def)

lemma neutral_trans: "lock_neutral s s1 \<Longrightarrow> lock_neutral s1 s2 \<Longrightarrow> lock_neutral s s2"
  by (simp add: lock_neutral_def)

lemma with_lock_neutral:
  assumes r: "with_lock f s = Ok (x, s')" and f: "\<And>x s1. f (GET_LOCK s) = Ok (x, s1) \<Longrightarrow> locked s1 = locked s + 1"
  shows "lock_neutral s s'"
proof -
  from r obtain s1 where s1: "f (GET_LOCK s) = Ok (x, s1)" and s': "RELEASE_LOCK s1 = Ok s'"
    by (auto simp: with_lock_def res_iff)
  from f [OF s1] RELEASE_LOCK_Ok [OF s'] show ?thesis by (auto simp: lock_neutral_def radio_idle_def)
qed

lemma locked_do_neutral:
  assumes r: "locked_do f s = Ok s'" and f: "\<And>s1. f (GET_LOCK s) = Ok s1 \<Longrightarrow> locked s1 = locked s + 1"
  shows "lock_neutral s s'"
proof -
  from r obtain s1 where s1: "f (GET_LOCK s) = Ok s1" and s': "RELEASE_LOCK s1 = Ok s'"
    by (auto simp: locked_do_def res_iff)
  from f [OF s1] RELEASE_LOCK_Ok [OF s'] show ?thesis by (auto simp: lock_neutral_def radio_idle_def)
qed

named_theorems neutral

lemma frame_locked: "radio_frame s' = radio_frame s \<Longrightarrow> locked s' = locked s"
  by (simp add: radio_frame_def)

lemma neutral_locked: "lock_neutral s s' \<Longrightarrow> locked s' = locked s"
  by (simp add: lock_neutral_def)

lemma locked_simps [simp]:
  "locked (strobe r s) = locked s" "locked (setreg r v s) = locked s" "locked (radio_on s) = locked s"
  "locked (init_security s) = locked s" "locked (keep_footer f s) = locked s" "locked (set_send_on_cca e s) = locked s"
  by (simp_all add: strobe_def setreg_def radio_on_def init_security_def keep_footer_def set_send_on_cca_def Let_def)

lemma write_ram_locked: "write_ram b a n ord s = Ok s' \<Longrightarrow> locked s' = locked s"
  by (auto simp: write_ram_def res_iff split: if_splits)

lemma write_fifo_buf_locked: "write_fifo_buf b n s = Ok s' \<Longrightarrow> locked s' = locked s"
  by (auto simp: write_fifo_buf_def res_iff split: if_splits)

lemma set_txpower_frame [frame]: "set_txpower p s = Ok s' \<Longrightarrow> radio_frame s' = radio_frame s"
  by (auto simp: set_txpower_def res_iff dest!: frame)

lemma tx_restore_power_frame [frame]: "tx_restore_power p s = Ok s' \<Longrightarrow> radio_frame s' = radio_frame s"
  by (auto simp: tx_restore_power_def dest!: frame split: if_splits)

lemma tx_start_frame [frame]: "tx_start s = Ok s' \<Longrightarrow> radio_frame s' = radio_frame s"
  by (auto simp: tx_start_def res_iff dest!: frame split: if_splits)

lemma check_rxfifo_frame [frame]: "check_rxfifo s = Ok s' \<Longrightarrow> radio_frame s' = radio_frame s"
  by (auto simp: check_rxfifo_def res_iff dest!: frame split: if_splits)

lemmas locks = frame [THEN frame_locked] write_ram_locked write_fifo_buf_locked

lemma set_key_neutral [neutral]: "cc2420_set_key k s = Ok s' \<Longrightarrow> lock_neutral s s'"
  unfolding cc2420_set_key_def by (erule locked_do_neutral) (auto dest: locks)

lemma encrypt_neutral [neutral]: "cc2420_encrypt p s = Ok (c, s') \<Longrightarrow> lock_neutral s s'"
  unfolding cc2420_encrypt_def by (erule with_lock_neutral) (auto simp: res_iff dest!: locks)

lemma set_txpower_neutral [neutral]: "cc2420_set_txpower p s = Ok s' \<Longrightarrow> lock_neutral s s'"
  unfolding cc2420_set_txpower_def by (erule locked_do_neutral) (auto dest: locks)

lemma get_txpower_neutral [neutral]: "cc2420_get_txpower s = Ok (p, s') \<Longrightarrow> lock_neutral s s'"
  unfolding cc2420_get_txpower_def by (erule with_lock_neutral) (auto simp: res_iff dest!: locks)

lemma set_channel_neutral [neutral]: "cc2420_set_channel c s = Ok s' \<Longrightarrow> lock_neutral s s'"
  unfolding cc2420_set_channel_def by (erule locked_do_neutral) (auto simp: res_iff Let_def dest!: locks)

lemma set_pan_addr_neutral [neutral]: "cc2420_set_pan_addr p a i s = Ok s' \<Longrightarrow> lock_neutral s s'"
  unfolding cc2420_set_pan_addr_def by (erule locked_do_neutral) (auto simp: res_iff dest!: locks split: option.splits)

lemma cca_threshold_neutral [neutral]:
  "get_cca_threshold s = Ok (v, s') \<Longrightarrow> lock_neutral s s'"
  "cc2420_set_cca_threshold w s = Ok s' \<Longrightarrow> lock_neutral s s'"
  unfolding get_cca_threshold_def cc2420_set_cca_threshold_def
  by (erule with_lock_neutral locked_do_neutral; auto simp: res_iff dest!: locks)+

lemma modes_neutral [neutral]:
  "set_auto_ack e s = Ok s' \<Longrightarrow> lock_neutral s s'"
  "set_frame_filtering e s = Ok s' \<Longrightarrow> lock_neutral s s'"
  "set_poll_mode e s = Ok s' \<Longrightarrow> lock_neutral s s'"
  unfolding set_auto_ack_def set_frame_filtering_def set_poll_mode_def
  by (erule locked_do_neutral; auto simp: res_iff Let_def dest!: locks split: if_splits)+

lemma flags_neutral:
  "locked s \<noteq> 0 \<Longrightarrow> lock_neutral s (s\<lparr>lock_on := b\<rparr>)" "locked s \<noteq> 0 \<Longrightarrow> lock_neutral s (s\<lparr>lock_off := b\<rparr>)"
  by (simp_all add: lock_neutral_def radio_idle_def)

lemma on_neutral [neutral]: "cc2420_on s = Ok s' \<Longrightarrow> lock_neutral s s'"
  unfolding cc2420_on_def by (auto split: if_splits intro: flags_neutral) (erule locked_do_neutral, auto)

lemma off_neutral [neutral]: "cc2420_off s = Ok s' \<Longrightarrow> lock_neutral s s'"
  unfolding cc2420_off_def
  by (auto split: if_splits intro: flags_neutral) (erule locked_do_neutral, auto simp: res_iff dest!: locks split: if_splits)

lemma tx_set_power_neutral [neutral]: "tx_set_power s = Ok (p, s') \<Longrightarrow> lock_neutral s s'"
  by (auto simp: tx_set_power_def res_iff intro: neutral_trans dest!: neutral frame [THEN frame_neutral] split: if_splits)

lemma sfd_start_time_Ok [res_iff]:
  "sfd_start_time s = Ok (t, s') \<longleftrightarrow> in_sfd_time s \<noteq> [] \<and> t = hd (in_sfd_time s) \<and> s' = s\<lparr>in_sfd_time := tl (in_sfd_time s)\<rparr>"
  by (cases "in_sfd_time s") (auto simp: sfd_start_time_def res_iff)

lemma tx_stamp_locked: "tx_stamp n s = Ok s' \<Longrightarrow> locked s' = locked s"
  by (auto simp: tx_stamp_def res_iff dest!: locks split: if_splits)

lemma tx_started_locked: "tx_started p n s = Ok (r, s') \<Longrightarrow> locked s' = locked s"
  by (auto simp: tx_started_def res_iff dest!: locks tx_stamp_locked split: if_splits)

lemma transmit_neutral [neutral]: "cc2420_transmit n s = Ok (r, s') \<Longrightarrow> lock_neutral s s'"
  unfolding cc2420_transmit_def
  by (erule with_lock_neutral)
     (auto simp: res_iff dest!: locks tx_started_locked tx_set_power_neutral [THEN neutral_locked] split: if_splits)

lemma prepare_neutral [neutral]: "cc2420_prepare b n s = Ok s' \<Longrightarrow> lock_neutral s s'"
  unfolding cc2420_prepare_def by (erule locked_do_neutral) (auto simp: res_iff Let_def dest!: locks)

lemma send_neutral [neutral]: "cc2420_send b n s = Ok (r, s') \<Longrightarrow> lock_neutral s s'"
  by (auto simp: cc2420_send_def res_iff intro: neutral_trans dest!: neutral)

lemma read_frame_locked: "read_frame l s = Ok (r, s') \<Longrightarrow> locked s' = locked s"
  by (auto simp: read_frame_def res_iff Let_def dest!: locks split: if_splits)

lemma read_neutral [neutral]:
  assumes "cc2420_read n s = Ok (r, s')"
  shows "lock_neutral s s'"
proof -
  from assms obtain b s1 where b: "fifop_is_1 s = Ok (b, s1)" by (auto simp: cc2420_read_def res_iff)
  have "lock_neutral s1 s'"
  proof (cases b)
    case True
    with assms b show ?thesis
      by (auto simp: cc2420_read_def) (erule with_lock_neutral, auto simp: res_iff Let_def dest!: locks read_frame_locked split: if_splits)
  next
    case False
    with assms b show ?thesis by (auto simp: cc2420_read_def)
  qed
  then show ?thesis using frame_neutral [OF pins_frame(1) [OF b]] neutral_trans by blast
qed

lemma rssi_neutral [neutral]: "cc2420_rssi s = Ok (r, s') \<Longrightarrow> lock_neutral s s'"
  unfolding cc2420_rssi_def Let_def
  by (auto split: if_splits)
     (erule with_lock_neutral, auto simp: res_iff dest!: locks neutral [THEN neutral_locked] split: if_splits)

section \<open>Every entry point\<close>

lemma cca_neutral [neutral]:
  assumes r: "cc2420_cca s = Ok (b, s')"
  shows "lock_neutral s s'"
proof (cases "locked s = 0")
  case True
  define off where "off = (\<not> receive_on (GET_LOCK s))"
  from r True obtain s1 where s1: "(if off then cc2420_on (GET_LOCK s) else Ok (GET_LOCK s)) = Ok s1"
    and b: "(if \<not> receive_on s1
             then bindR (RELEASE_LOCK s1) (\<lambda>s. bindR (if off then cc2420_off s else Ok s) (\<lambda>s. Ok (True, s)))
             else bindR (wait_for_status RSSI_VALID s1) (\<lambda>s. bindR (cca_is_1 s) (\<lambda>(cca, s).
                  bindR (if off then cc2420_off s else Ok s) (\<lambda>s. bindR (RELEASE_LOCK s) (\<lambda>s. Ok (cca, s)))))) = Ok (b, s')"
    unfolding cc2420_cca_def Let_def off_def [symmetric] by (auto simp only: res_iff if_True if_False simp_thms)
  have l1: "locked s1 = 1" using s1 True by (auto dest!: neutral [THEN neutral_locked] split: if_splits)
  show ?thesis
  proof (cases "receive_on s1")
    case on: True
    with b obtain s2 s3 s4 where "wait_for_status RSSI_VALID s1 = Ok s2" "cca_is_1 s2 = Ok (b, s3)"
      "(if off then cc2420_off s3 else Ok s3) = Ok s4" and rel: "RELEASE_LOCK s4 = Ok s'" by (auto simp: res_iff)
    with l1 have "locked s4 = 1" by (auto dest!: locks neutral [THEN neutral_locked] split: if_splits)
    with RELEASE_LOCK_Ok [OF rel] True show ?thesis by (simp add: lock_neutral_def radio_idle_def)
  next
    case False
    with b obtain s2 where rel: "RELEASE_LOCK s1 = Ok s2" and s': "(if off then cc2420_off s2 else Ok s2) = Ok s'"
      by (auto simp: res_iff)
    with l1 RELEASE_LOCK_Ok [OF rel] True have "lock_neutral s s2" by (simp add: lock_neutral_def radio_idle_def)
    moreover have "lock_neutral s2 s'" using s' by (auto dest: neutral split: if_splits)
    ultimately show ?thesis by (rule neutral_trans)
  qed
next
  case False
  with r show ?thesis by (simp add: cc2420_cca_def)
qed

lemmas neutrals = neutral frame [THEN frame_neutral]

lemma get_value_neutral [neutral]: "radio_get_value p nn s = Ok (v, s') \<Longrightarrow> lock_neutral s s'"
  unfolding radio_get_value_def Let_def
  by (auto simp: res_iff intro: neutral_trans dest!: neutrals split: if_splits radio_param.splits)

lemma send_on_cca_neutral [simp]: "lock_neutral s (set_send_on_cca b s)"
  by (simp add: lock_neutral_def radio_idle_def set_send_on_cca_def)

lemma set_value_neutral [neutral]: "radio_set_value p v s = Ok (r, s') \<Longrightarrow> lock_neutral s s'"
  unfolding radio_set_value_def Let_def
  by (auto simp: res_iff intro: neutral_trans dest!: neutrals split: if_splits radio_param.splits)

lemma get_object_neutral [neutral]: "radio_get_object p d n s = Ok (r, s') \<Longrightarrow> lock_neutral s s'"
  by (auto simp: radio_get_object_def res_iff lock_neutral_def radio_idle_def split: if_splits)

lemma interrupt_neutral [neutral]: "cc2420_interrupt s = Ok s' \<Longrightarrow> lock_neutral s s'"
  by (auto simp: cc2420_interrupt_def res_iff lock_neutral_def radio_idle_def)

lemma process_neutral:
  assumes r: "cc2420_process input s = Ok s'" and i: "\<And>s s'. input s = Ok s' \<Longrightarrow> lock_neutral s s'"
  shows "lock_neutral s s'"
proof (cases "poll_mode s")
  case True
  with r show ?thesis by (auto simp: cc2420_process_def lock_neutral_def radio_idle_def)
next
  case False
  with r obtain buf len s1 mem where
    s1: "cc2420_read (of_nat PACKETBUF_SIZE) (s\<lparr>process_polled := False, rpb := packetbuf_set_attr ATTR_TIMESTAMP (last_packet_timestamp s) (packetbuf_clear (rpb s))\<rparr>) = Ok ((buf, len), s1)"
    and s': "input (s1\<lparr>rpb := packetbuf_set_datalen (of_nat len) ((rpb s1)\<lparr>pb_data := mem\<rparr>)\<rparr>) = Ok s'"
    by (auto simp: cc2420_process_def Let_def res_iff)
  from read_neutral [OF s1] i [OF s'] show ?thesis by (simp add: lock_neutral_def radio_idle_def)
qed

lemma run_neutral:
  assumes "run fs s = Ok s'" "\<And>f s s'. f \<in> set fs \<Longrightarrow> f s = Ok s' \<Longrightarrow> lock_neutral s s'"
  shows "lock_neutral s s'"
  using assms
proof (induction fs arbitrary: s)
  case (Cons f fs)
  then obtain s1 where "f s = Ok s1" "run fs s1 = Ok s'" by (auto simp: res_iff)
  have "lock_neutral s s1" using Cons.prems(2) [of f s s1] \<open>f s = Ok s1\<close> by simp
  moreover have "lock_neutral s1 s'" by (rule Cons.IH [OF \<open>run fs s1 = Ok s'\<close>]) (meson Cons.prems(2) list.set_intros(2))
  ultimately show ?case by (blast intro: neutral_trans)
qed simp

lemma up_neutral: "up f s = Ok s' \<Longrightarrow> radio_frame (f s) = radio_frame s \<Longrightarrow> lock_neutral s s'"
  by (auto simp: up_def intro: frame_neutral)

lemma init_security_frame [simp]: "radio_frame (init_security s) = radio_frame s"
  by (simp add: init_security_def)

lemma init_neutral [neutral]: "cc2420_init a c t s = Ok s' \<Longrightarrow> lock_neutral s s'"
  unfolding cc2420_init_def
  by (erule run_neutral)
     (auto elim!: up_neutral dest: neutral simp: res_iff dest!: frame [THEN frame_neutral] intro: neutral_trans [OF _ frame_neutral [OF setreg_frame]])

datatype radio_call =
    Call_init bool int int | Call_prepare "u8 list" u16 | Call_transmit u16 | Call_send "u8 list" u16 | Call_read u16 | Call_cca
  | Call_receiving_packet | Call_pending_packet | Call_on | Call_off
  | Call_get_value radio_param bool | Call_set_value radio_param int | Call_get_object radio_param bool nat | Call_set_object radio_param
  | Call_set_key "u8 list" | Call_encrypt "u8 list" | Call_set_pan_addr u16 u16 "u8 list option" | Call_interrupt

fun radio_call_do :: "radio_call \<Rightarrow> radio \<Rightarrow> radio res" where
  "radio_call_do (Call_init a c t) s = cc2420_init a c t s"
| "radio_call_do (Call_prepare b n) s = cc2420_prepare b n s"
| "radio_call_do (Call_transmit n) s = bindR (cc2420_transmit n s) (Ok \<circ> snd)"
| "radio_call_do (Call_send b n) s = bindR (cc2420_send b n s) (Ok \<circ> snd)"
| "radio_call_do (Call_read n) s = bindR (cc2420_read n s) (Ok \<circ> snd)"
| "radio_call_do Call_cca s = bindR (cc2420_cca s) (Ok \<circ> snd)"
| "radio_call_do Call_receiving_packet s = bindR (cc2420_receiving_packet s) (Ok \<circ> snd)"
| "radio_call_do Call_pending_packet s = bindR (pending_packet s) (Ok \<circ> snd)"
| "radio_call_do Call_on s = cc2420_on s"
| "radio_call_do Call_off s = cc2420_off s"
| "radio_call_do (Call_get_value p nn) s = bindR (radio_get_value p nn s) (Ok \<circ> snd)"
| "radio_call_do (Call_set_value p v) s = bindR (radio_set_value p v s) (Ok \<circ> snd)"
| "radio_call_do (Call_get_object p d n) s = bindR (radio_get_object p d n s) (Ok \<circ> snd)"
| "radio_call_do (Call_set_object p) s = bindR (radio_set_object p s) (Ok \<circ> snd)"
| "radio_call_do (Call_set_key k) s = cc2420_set_key k s"
| "radio_call_do (Call_encrypt p) s = bindR (cc2420_encrypt p s) (Ok \<circ> snd)"
| "radio_call_do (Call_set_pan_addr p a i) s = cc2420_set_pan_addr p a i s"
| "radio_call_do Call_interrupt s = cc2420_interrupt s"

lemma radio_call_neutral: "radio_call_do c s = Ok s' \<Longrightarrow> lock_neutral s s'"
  by (cases c) (auto simp: res_iff cc2420_receiving_packet_def pending_packet_def radio_set_object_def
      dest!: neutral frame [THEN frame_neutral])

text \<open>
  C13: From an idle driver, after any sequence of calls of its entry points, its interrupt included, that return, the driver is idle again: nobody holds the
  lock and no order to turn the radio on or off is pending, whatever the chip answers.
\<close>

theorem radio_lock_released:
  assumes "radio_idle s" "run (map radio_call_do cs) s = Ok s'"
  shows "radio_idle s'"
proof -
  have "lock_neutral s s'" using assms(2) by (rule run_neutral) (auto dest: radio_call_neutral)
  with assms(1) show ?thesis by (simp add: lock_neutral_def)
qed

section \<open>Sending\<close>

lemma with_lock_Ok:
  assumes "with_lock f s = Ok (x, s')"
  obtains s1 where "f (GET_LOCK s) = Ok (x, s1)" "txfifo s' = txfifo s1" "rpb s' = rpb s1" "in_sfd_time s' = in_sfd_time s1"
  using assms RELEASE_LOCK_Ok by (auto simp: with_lock_def res_iff)

lemma write_fifo_buf_Ok:
  "write_fifo_buf b n s = Ok s' \<longleftrightarrow> n \<le> 255 \<and> unat n \<le> length b \<and> s' = emit (WriteFifo (take (unat n) b)) s"
  by (auto simp: write_fifo_buf_def res_iff get_bytes_def not_less split: if_splits)

lemma prepare_fifo:
  assumes "cc2420_prepare b n s = Ok s'"
  shows "txfifo s' = ucast (n + 2) # take (unat n) b" "rpb s' = rpb s" "in_sfd_time s' = in_sfd_time s"
proof -
  from assms obtain s1 where s1: "s1 = emit (WriteFifo (take (unat n) b)) (emit (WriteFifo [ucast (n + 2)]) (strobe SFLUSHTX (GET_LOCK s)))"
    and r: "RELEASE_LOCK s1 = Ok s'"
    by (auto simp: cc2420_prepare_def locked_do_def res_iff write_fifo_buf_Ok Let_def)
  then show "txfifo s' = ucast (n + 2) # take (unat n) b" "rpb s' = rpb s" "in_sfd_time s' = in_sfd_time s"
    using RELEASE_LOCK_Ok [OF r] by (simp_all add: strobe_def)
qed

lemma tx_set_power_keeps:
  assumes "tx_set_power s = Ok (p, s')"
  shows "rpb s' = rpb s" "in_sfd_time s' = in_sfd_time s" "txfifo s' = txfifo s"
proof -
  have "rpb s' = rpb s \<and> in_sfd_time s' = in_sfd_time s \<and> txfifo s' = txfifo s"
  proof (cases "0 < packetbuf_attr ATTR_RADIO_TXPOWER (rpb s)")
    case True
    with assms obtain q s1 where q: "cc2420_get_txpower s = Ok (q, s1)"
      and s': "set_txpower (ucast (packetbuf_attr ATTR_RADIO_TXPOWER (rpb s1) - 1)) s1 = Ok s'"
      by (auto simp: tx_set_power_def res_iff)
    from q have "rpb s1 = rpb s \<and> in_sfd_time s1 = in_sfd_time s \<and> txfifo s1 = txfifo s"
      unfolding cc2420_get_txpower_def by (elim with_lock_Ok) (auto simp: res_iff radio_frame_def dest!: frame)
    with set_txpower_frame [OF s'] show ?thesis by (simp add: radio_frame_def)
  next
    case False
    with assms show ?thesis by (simp add: tx_set_power_def)
  qed
  then show "rpb s' = rpb s" "in_sfd_time s' = in_sfd_time s" "txfifo s' = txfifo s" by simp_all
qed

text \<open>What the queue for frames to send holds: the bytes of \<open>b\<close>, the last two of them replaced by a time stamp in a packet of that type.\<close>

definition stamped :: "bool \<Rightarrow> u16 \<Rightarrow> u8 list \<Rightarrow> u8 list" where
  "stamped ts t b = (if ts then take (length b - 2) b @ enc_u16 t else b)"

lemma length_stamped [simp]: "2 \<le> length b \<Longrightarrow> length (stamped ts t b) = length b"
  by (auto simp: stamped_def)

lemma tx_stamp_fifo:
  assumes r: "tx_stamp n s = Ok s'" and f: "txfifo s = l # b" and n: "length b = unat n" "2 \<le> unat n" "unat n \<le> 125"
  shows "txfifo s' = l # stamped (packetbuf_attr ATTR_PACKET_TYPE (rpb s) = TYPE_TIMESTAMP) (hd (in_sfd_time s)) b"
proof (cases "packetbuf_attr ATTR_PACKET_TYPE (rpb s) = TYPE_TIMESTAMP")
  case True
  define t where "t = hd (in_sfd_time s)"
  have a: "unat (n - 1) = unat n - 1" using n(2) by (subst unat_sub) (auto simp: word_le_nat_alt)
  obtain k where k: "unat n = Suc (Suc k)" using n(2) by (metis Suc_1 Suc_le_D Suc_le_mono numeral_2_eq_2)
  from r True have "s' = emit (WriteRam (n - 1) (enc_u16 t)) (s\<lparr>in_sfd_time := tl (in_sfd_time s)\<rparr>)"
    by (auto simp: tx_stamp_def res_iff write_ram_def get_bytes_def t_def split: if_splits)
  then have "txfifo s' = take (unat n - 1) (l # b) @ enc_u16 t @ drop (unat n - 1 + 2) (l # b)"
    using n f by (auto simp: a simp del: take_Cons' drop_Cons')
  also have "\<dots> = l # take k b @ enc_u16 t" using k n(1) by simp
  finally show ?thesis using True k n(1) by (simp add: stamped_def t_def)
next
  case False
  with r f show ?thesis by (auto simp: tx_stamp_def res_iff stamped_def)
qed

lemma transmit_fifo:
  assumes r: "cc2420_transmit n s = Ok (RADIO_TX_OK, s')" and f: "txfifo s = l # b"
    and n: "length b = unat n" "2 \<le> unat n" "unat n \<le> 125"
  shows "txfifo s' = l # stamped (packetbuf_attr ATTR_PACKET_TYPE (rpb s) = TYPE_TIMESTAMP) (hd (in_sfd_time s)) b"
proof -
  from r obtain s0 where body: "bindR (tx_set_power (GET_LOCK s)) (\<lambda>(txpower, s). bindR (tx_start s) (\<lambda>s. bindR (sfd_wait LOOP_20_SYMBOLS s) (\<lambda>(high, s).
       if high then tx_started txpower n s else bindR (tx_restore_power txpower s) (\<lambda>s. Ok (RADIO_TX_COLLISION, s))))) = Ok (RADIO_TX_OK, s0)"
    and s0: "txfifo s' = txfifo s0"
    unfolding cc2420_transmit_def by (elim with_lock_Ok) auto
  then obtain p s1 s2 s3 where s1: "tx_set_power (GET_LOCK s) = Ok (p, s1)" and s2: "tx_start s1 = Ok s2"
    and s3: "sfd_wait LOOP_20_SYMBOLS s2 = Ok (True, s3)" and st: "tx_started p n s3 = Ok (RADIO_TX_OK, s0)"
    by (auto simp: res_iff split: if_splits)
  have k: "rpb s3 = rpb s" "in_sfd_time s3 = in_sfd_time s" "txfifo s3 = txfifo s"
    using tx_set_power_keeps [OF s1] tx_start_frame [OF s2] sfd_wait_frame [OF s3] by (simp_all add: radio_frame_def)
  from st obtain s4 where s4: "tx_stamp n s3 = Ok s4" by (auto simp: tx_started_def res_iff)
  with st have "txfifo s0 = txfifo s4"
    by (auto simp: tx_started_def res_iff radio_frame_def dest!: frame split: if_splits)
  with tx_stamp_fifo [OF s4 _ n] f k s0 show ?thesis by simp
qed

lemma send_fifo:
  assumes "cc2420_send b n s = Ok (RADIO_TX_OK, s')" and n: "length b = unat n" "2 \<le> unat n" "unat n \<le> 125"
  shows "txfifo s' = ucast (n + 2) # stamped (packetbuf_attr ATTR_PACKET_TYPE (rpb s) = TYPE_TIMESTAMP) (hd (in_sfd_time s)) b"
proof -
  from assms obtain s1 where "cc2420_prepare b n s = Ok s1" "cc2420_transmit n s1 = Ok (RADIO_TX_OK, s')"
    by (auto simp: cc2420_send_def res_iff)
  with prepare_fifo transmit_fifo [of n s1 s' "ucast (n + 2)" b] n show ?thesis by simp
qed

section \<open>Receiving\<close>

lemma RELEASE_LOCK_quiet: "locked s = 1 \<Longrightarrow> \<not> lock_on s \<Longrightarrow> \<not> lock_off s \<Longrightarrow> RELEASE_LOCK s = Ok (s\<lparr>locked := 0\<rparr>)"
  by (simp add: RELEASE_LOCK_def Let_def)

lemma getrxdata_bytes: "in_rx s = p @ r \<Longrightarrow> length p \<le> 255 \<Longrightarrow> getrxdata (length p) s = Ok (p, emit (GetRx (length p)) (s\<lparr>in_rx := r\<rparr>))"
  by (simp add: getrxdata_def take_in_def)

text \<open>Never more than \<open>bufsize\<close> bytes are written, and never more than that is reported.\<close>

lemma read_bounded:
  assumes "cc2420_read bufsize s = Ok ((buf, len), s')"
  shows "length buf \<le> unat bufsize" "len \<le> length buf"
proof -
  have "length buf \<le> unat bufsize \<and> len \<le> length buf"
    using assms
    by (auto simp: cc2420_read_def with_lock_def read_frame_def getrxdata_def Let_def res_iff split: if_splits)
  then show "length buf \<le> unat bufsize" "len \<le> length buf" by simp_all
qed

lemma read_good:
  assumes idle: "radio_idle s" and poll: "\<not> poll_mode s"
    and pins: "in_fifop s = True # again # fp" "in_fifo s = True # ff"
    and rx: "in_rx s = l # p @ [f0, f1] @ rest" and l: "unat l = length p + 2" "p \<noteq> []" "length p \<le> 125" "length p \<le> unat bufsize"
    and crc: "bit f1 7"
  shows "\<exists>s'. cc2420_read bufsize s = Ok ((p, length p), s') \<and> radio_idle s' \<and> in_rx s' = rest
    \<and> process_polled s' = (process_polled s \<or> again)
    \<and> rpb s' = packetbuf_set_attr ATTR_LINK_QUALITY (ucast (f1 AND 0x7f)) (packetbuf_set_attr ATTR_RSSI (scast (f0 + word_of_int RSSI_OFFSET)) (rpb s))"
proof -
  have "0 < length p" using l(2) by simp
  then have len: "\<not> (CC2420_MAX_PACKET_LEN < unat l \<or> unat l \<le> FOOTER_LEN \<or> unat bufsize < unat l - FOOTER_LEN)"
    using l by linarith
  define s1 where "s1 = emit (GetRx 1) (GET_LOCK (s\<lparr>in_fifop := again # fp\<rparr>)\<lparr>in_rx := p @ [f0, f1] @ rest\<rparr>)"
  define s3 where "s3 = emit (GetRx 2) ((emit (GetRx (length p)) (s1\<lparr>in_rx := [f0, f1] @ rest\<rparr>))\<lparr>in_rx := rest\<rparr>)"
  have 1: "getrxdata 1 (GET_LOCK (s\<lparr>in_fifop := again # fp\<rparr>)) = Ok ([l], s1)"
    using rx by (simp add: getrxdata_def take_in_def GET_LOCK_def s1_def)
  have 2: "getrxdata (unat l - FOOTER_LEN) s1 = Ok (p, emit (GetRx (length p)) (s1\<lparr>in_rx := [f0, f1] @ rest\<rparr>))"
    using l getrxdata_bytes [of s1 p "[f0, f1] @ rest"] by (simp add: s1_def emit_def)
  have 3: "getrxdata FOOTER_LEN (emit (GetRx (length p)) (s1\<lparr>in_rx := [f0, f1] @ rest\<rparr>)) = Ok ([f0, f1], s3)"
    by (simp add: getrxdata_def take_in_def s3_def emit_def)
  have k: "poll_mode (keep_footer [f0, f1] s3) = False" "in_fifop (keep_footer [f0, f1] s3) = again # fp"
    "in_fifo (keep_footer [f0, f1] s3) = True # ff"
    using poll pins by (simp_all add: s3_def s1_def keep_footer_def Let_def emit_def GET_LOCK_def)
  define s4 where "s4 = (let s = (keep_footer [f0, f1] s3)\<lparr>in_fifop := fp\<rparr> in if again then s\<lparr>in_fifo := ff, process_polled := True\<rparr> else s)"
  have 4: "check_rxfifo (keep_footer [f0, f1] s3) = Ok s4"
    using k by (simp add: check_rxfifo_def fifop_is_1_def fifo_is_1_def next_in_def s4_def Let_def)
  have 5: "read_frame l s1 = Ok ((p, length p), s4)"
    unfolding read_frame_def 2 using 3 4 crc l(1) by (simp add: Let_def)
  have q: "locked s4 = 1" "\<not> lock_on s4" "\<not> lock_off s4" "in_rx s4 = rest" "process_polled s4 = (process_polled s \<or> again)"
    "rpb s4 = packetbuf_set_attr ATTR_LINK_QUALITY (ucast (f1 AND 0x7f)) (packetbuf_set_attr ATTR_RSSI (scast (f0 + word_of_int RSSI_OFFSET)) (rpb s))"
    using idle poll by (simp_all add: s4_def s3_def s1_def keep_footer_def Let_def emit_def GET_LOCK_def radio_idle_def)
  have "cc2420_read bufsize s = Ok ((p, length p), s4\<lparr>locked := 0\<rparr>)"
    using pins(1) RELEASE_LOCK_quiet [OF q(1-3)] len
    by (simp add: cc2420_read_def fifop_is_1_def next_in_def with_lock_def 1 [unfolded One_nat_def] 5 Let_def)
  with q show ?thesis by (simp add: radio_idle_def)
qed

lemma process_delivers:
  assumes idle: "radio_idle s" and poll: "\<not> poll_mode s" and pb: "length (pb_data (rpb s)) = PACKETBUF_SIZE"
    and pins: "in_fifop s = True # again # fp" "in_fifo s = True # ff"
    and rx: "in_rx s = l # p @ [f0, f1] @ rest" and l: "unat l = length p + 2" "p \<noteq> []" "length p \<le> 125"
    and crc: "bit f1 7"
  shows "\<exists>s'. cc2420_process input s = input s' \<and> radio_idle s' \<and> in_rx s' = rest \<and> process_polled s' = again
    \<and> pbuf_ok (rpb s') \<and> pb_payload (rpb s') = p
    \<and> packetbuf_attr ATTR_TIMESTAMP (rpb s') = last_packet_timestamp s
    \<and> packetbuf_attr ATTR_RSSI (rpb s') = scast (f0 + word_of_int RSSI_OFFSET)
    \<and> packetbuf_attr ATTR_LINK_QUALITY (rpb s') = ucast (f1 AND 0x7f)"
proof -
  define b where "b = packetbuf_set_attr ATTR_TIMESTAMP (last_packet_timestamp s) (packetbuf_clear (rpb s))"
  define b1 where "b1 = packetbuf_set_attr ATTR_LINK_QUALITY (ucast (f1 AND 0x7f)) (packetbuf_set_attr ATTR_RSSI (scast (f0 + word_of_int RSSI_OFFSET)) b)"
  define s0 where "s0 = s\<lparr>process_polled := False, rpb := b\<rparr>"
  obtain s1 where s1: "cc2420_read (of_nat PACKETBUF_SIZE) s0 = Ok ((p, length p), s1)" "radio_idle s1" "in_rx s1 = rest"
    "process_polled s1 = again" "rpb s1 = b1"
    using read_good [of s0 again fp ff l p f0 f1 rest "of_nat PACKETBUF_SIZE"] idle poll pins rx l crc
    by (auto simp: s0_def radio_idle_def b1_def)
  define b2 where "b2 = packetbuf_set_datalen (of_nat (length p)) (b1\<lparr>pb_data := p @ drop (length p) (pb_data (rpb s))\<rparr>)"
  have d: "packetbuf_dataptr b1 = 0" "pb_data b1 = pb_data (rpb s)" "pb_bufptr b1 = 0" "pb_hdrlen b1 = 0"
    by (simp_all add: b1_def b_def packetbuf_dataptr_def packetbuf_hdrlen_def packetbuf_set_attr_def packetbuf_clear_def packetbuf_attr_clear_def)
  have n: "unat (of_nat (length p) :: u16) = length p" using l(3) by (simp add: unat_of_nat)
  have "cc2420_process input s = input (s1\<lparr>rpb := b2\<rparr>)"
    using poll s1 l(3) pb d by (simp add: cc2420_process_def Let_def s0_def [symmetric] b_def [symmetric] put_bytes_Ok b2_def)
  moreover have "pbuf_ok b2" "pb_payload b2 = p"
    using d l(3) pb n by (simp_all add: pbuf_ok_def b2_def packetbuf_set_datalen_def pb_payload_def packetbuf_dataptr_def packetbuf_hdrlen_def)
  moreover have "packetbuf_attr ATTR_TIMESTAMP b2 = last_packet_timestamp s"
    "packetbuf_attr ATTR_RSSI b2 = scast (f0 + word_of_int RSSI_OFFSET)" "packetbuf_attr ATTR_LINK_QUALITY b2 = ucast (f1 AND 0x7f)"
    by (simp_all add: b2_def b1_def b_def packetbuf_set_datalen_def packetbuf_attr_def packetbuf_set_attr_def)
  ultimately show ?thesis using s1 by (intro exI [of _ "s1\<lparr>rpb := b2\<rparr>"]) (simp add: radio_idle_def)
qed

text \<open>
  C12: When a node sends a packet of 2 to 125 bytes with success and the bytes in the queue of its chip, with a good checksum, arrive at an idle node, the
  process of that node hands exactly this packet to the layer above, the last two bytes replaced by the time of the start of the frame at
  the sender when the packet is of type time stamp, with the time of the start of the frame at the receiver as its attribute.
\<close>

theorem radio_round_trip:
  assumes sent: "cc2420_send b n s = Ok (RADIO_TX_OK, s')" and n: "length b = unat n" "2 \<le> unat n" "unat n \<le> 125"
    and rcv: "radio_idle r" "\<not> poll_mode r" "length (pb_data (rpb r)) = PACKETBUF_SIZE"
      "in_fifop r = True # again # fp" "in_fifo r = True # ff" "in_rx r = txfifo s' @ [f0, f1] @ rest" "bit f1 7"
  shows "\<exists>r'. cc2420_process input r = input r' \<and> radio_idle r' \<and> in_rx r' = rest \<and> pbuf_ok (rpb r')
    \<and> pb_payload (rpb r') = (if packetbuf_attr ATTR_PACKET_TYPE (rpb s) = TYPE_TIMESTAMP
         then take (length b - 2) b @ enc_u16 (hd (in_sfd_time s)) else b)
    \<and> packetbuf_attr ATTR_TIMESTAMP (rpb r') = last_packet_timestamp r"
proof -
  define p where "p = stamped (packetbuf_attr ATTR_PACKET_TYPE (rpb s) = TYPE_TIMESTAMP) (hd (in_sfd_time s)) b"
  define l where "l = (ucast (n + 2) :: u8)"
  have p: "length p = unat n" using n by (simp add: p_def)
  have "unat l = length p + 2"
    using n p by (simp add: l_def unat_ucast_mod unat_word_ariths)
  moreover have "in_rx r = l # p @ [f0, f1] @ rest" using send_fifo [OF sent n] rcv(6) by (simp add: p_def l_def)
  moreover have "p \<noteq> []" "length p \<le> 125" using p n by auto
  ultimately show ?thesis using process_delivers [OF rcv(1-5) _ _ _ _ rcv(7), of l p f0 rest input] by (auto simp: p_def stamped_def)
qed

section \<open>The receiver of the chip\<close>

text \<open>Whether the receiver of the chip runs after the commands on the bus.\<close>

fun chip_apply :: "cmd \<Rightarrow> bool \<Rightarrow> bool" where
  "chip_apply (Strobe r) b = (if r \<in> {SRXON, STXON} then True else if r = SRFOFF then False else b)"
| "chip_apply c b = b"

definition chip_on :: "radio \<Rightarrow> bool" where
  "chip_on s = fold chip_apply (bus s) False"

definition chip_view :: "radio \<Rightarrow> bool \<times> bool \<times> bool \<times> bool \<times> u8 \<times> bool list" where
  "chip_view s = (chip_on s, receive_on s, lock_on s, lock_off s, locked s, in_cca s)"

named_theorems chip

lemma chip_emit [simp]: "chip_on (emit c s) = chip_apply c (chip_on s)" "in_cca (emit c s) = in_cca s"
  by (simp_all add: chip_on_def emit_def)

lemma chip_fields [simp]:
  "chip_on (s\<lparr>locked := a\<rparr>) = chip_on s" "chip_on (s\<lparr>lock_on := b\<rparr>) = chip_on s" "chip_on (s\<lparr>lock_off := b\<rparr>) = chip_on s"
  "chip_on (s\<lparr>receive_on := b\<rparr>) = chip_on s" "chip_on (s\<lparr>in_status := i\<rparr>) = chip_on s"
  "chip_on (s\<lparr>in_reg := j\<rparr>) = chip_on s" "chip_on (s\<lparr>in_rx := i\<rparr>) = chip_on s" "chip_on (s\<lparr>in_now := j\<rparr>) = chip_on s"
  "chip_on (s\<lparr>in_sfd_time := j\<rparr>) = chip_on s" "chip_on (s\<lparr>in_sfd := k\<rparr>) = chip_on s" "chip_on (s\<lparr>in_fifop := k\<rparr>) = chip_on s"
  by (simp_all add: chip_on_def)

lemma chip_reg [chip]:
  "getreg r s = Ok (v, s') \<Longrightarrow> chip_view s' = chip_view s" "get_status s = Ok (st, s') \<Longrightarrow> chip_view s' = chip_view s"
  "radio_now s = Ok (t, s') \<Longrightarrow> chip_view s' = chip_view s" "write_ram b a n ord s = Ok s' \<Longrightarrow> chip_view s' = chip_view s"
  "getrxdata m s = Ok (bs, s') \<Longrightarrow> chip_view s' = chip_view s" "fifop_is_1 s = Ok (f, s') \<Longrightarrow> chip_view s' = chip_view s"
  "sfd_is_1 s = Ok (f, s') \<Longrightarrow> chip_view s' = chip_view s" "sfd_start_time s = Ok (t, s') \<Longrightarrow> chip_view s' = chip_view s"
  by (auto simp: getreg_def get_status_def radio_now_def write_ram_def getrxdata_def fifop_is_1_def sfd_is_1_def
      res_iff chip_view_def split: if_splits)

lemma chip_setreg [simp]: "chip_view (setreg r v s) = chip_view s"
  by (simp add: setreg_def chip_view_def)

lemma flushrx_chip [chip]: "flushrx s = Ok s' \<Longrightarrow> chip_view s' = chip_view s"
  by (auto simp: flushrx_def res_iff strobe_def chip_view_def dest!: chip)

lemma wait_loop_chip [chip]: "wait_loop w t0 s = Ok s' \<Longrightarrow> chip_view s' = chip_view s"
  by (erule wait_loop_keeps) (auto dest: chip)

lemma waits_chip [chip]:
  "wait_for_status b s = Ok s' \<Longrightarrow> chip_view s' = chip_view s"
  "wait_for_transmission s = Ok s' \<Longrightarrow> chip_view s' = chip_view s"
  by (auto simp: wait_for_status_def wait_for_transmission_def res_iff dest!: chip)

lemma sfd_wait_chip [chip]: "sfd_wait n s = Ok (b, s') \<Longrightarrow> chip_view s' = chip_view s"
  by (induction n arbitrary: s) (auto simp: res_iff dest!: chip simp del: sfd_start_time_Ok split: if_splits)

lemma power_chip [chip]:
  "set_txpower p s = Ok s' \<Longrightarrow> chip_view s' = chip_view s" "tx_restore_power q s = Ok s' \<Longrightarrow> chip_view s' = chip_view s"
  by (auto simp: set_txpower_def tx_restore_power_def res_iff dest!: chip split: if_splits)

lemma radio_on_chip: "chip_view (radio_on s) = (True, True, lock_on s, lock_off s, locked s, in_cca s)"
  by (simp add: radio_on_def Let_def strobe_def chip_view_def)

lemma radio_off_chip: "radio_off s = Ok s' \<Longrightarrow> chip_view s' = (False, False, lock_on s, lock_off s, locked s, in_cca s)"
  by (auto simp: radio_off_def res_iff Let_def strobe_def chip_view_def dest!: chip split: if_splits)

lemma RELEASE_LOCK_chip:
  assumes "RELEASE_LOCK s = Ok s'" "locked s = 1"
  shows "chip_view s' = (if lock_off s then False else lock_on s \<or> chip_on s, if lock_off s then False else lock_on s \<or> receive_on s,
    False, False, 0, in_cca s)"
proof -
  define s0 where "s0 = (if lock_on s then (radio_on s)\<lparr>lock_on := False\<rparr> else s)"
  have s0: "chip_view s0 = (lock_on s \<or> chip_on s, lock_on s \<or> receive_on s, False, lock_off s, 1, in_cca s)"
    using radio_on_chip [of s] assms(2) by (auto simp: s0_def chip_view_def)
  from assms obtain s1 where s1: "(if lock_off s0 then bindR (radio_off s0) (\<lambda>s. Ok (s\<lparr>lock_off := False\<rparr>)) else Ok s0) = Ok s1"
    and s': "s' = s1\<lparr>locked := locked s1 - 1\<rparr>"
    unfolding RELEASE_LOCK_def Let_def s0_def [symmetric] res_iff by auto
  show ?thesis
  proof (cases "lock_off s0")
    case True
    with s1 obtain s2 where "radio_off s0 = Ok s2" "s1 = s2\<lparr>lock_off := False\<rparr>" by (auto simp: res_iff)
    with s' s0 True radio_off_chip [of s0 s2] show ?thesis by (simp add: chip_view_def)
  next
    case False
    with s1 s' s0 show ?thesis by (simp add: chip_view_def)
  qed
qed

lemma on_locked: "locked s = 1 \<Longrightarrow> \<not> receive_on s \<Longrightarrow> cc2420_on s = Ok (s\<lparr>lock_on := True\<rparr>)"
  by (simp add: cc2420_on_def)

lemma off_when_off: "\<not> receive_on s \<Longrightarrow> cc2420_off s = Ok s"
  by (simp add: cc2420_off_def)

lemma off_idle_chip:
  assumes "cc2420_off s = Ok s'" "radio_idle s" "receive_on s"
  shows "chip_view s' = (False, False, False, False, 0, in_cca s)"
proof -
  from assms obtain st s1 s2 where s1: "get_status (GET_LOCK s) = Ok (st, s1)"
    and s2: "(if bit st TX_ACTIVE then Ok (s1\<lparr>lock_off := True\<rparr>) else radio_off s1) = Ok s2" and r: "RELEASE_LOCK s2 = Ok s'"
    by (auto simp: cc2420_off_def locked_do_def radio_idle_def res_iff)
  have c1: "chip_view s1 = (chip_on s, True, False, False, 1, in_cca s)"
    using chip_reg(2) [OF s1] assms(2,3) by (simp add: chip_view_def radio_idle_def GET_LOCK_def)
  show ?thesis
  proof (cases "bit st TX_ACTIVE")
    case True
    with s2 c1 RELEASE_LOCK_chip [OF r] show ?thesis by (auto simp: chip_view_def)
  next
    case False
    with s2 radio_off_chip [of s1 s2] c1 have "chip_view s2 = (False, False, False, False, 1, in_cca s)" by (simp add: chip_view_def)
    with RELEASE_LOCK_chip [OF r] show ?thesis by (simp add: chip_view_def)
  qed
qed

lemma rssi_leaves_radio_on:
  assumes r: "cc2420_rssi s = Ok (v, s')" and s: "radio_idle s" "\<not> receive_on s"
  shows "receive_on s' \<and> chip_on s'"
proof -
  define s1 where "s1 = (GET_LOCK s)\<lparr>lock_on := True\<rparr>"
  have on: "cc2420_on (GET_LOCK s) = Ok s1" using s by (simp add: on_locked s1_def radio_idle_def)
  from r s obtain s2 reg s3 s4 where s2: "wait_for_status RSSI_VALID s1 = Ok s2" and s3: "getreg RSSI_REG s2 = Ok (reg, s3)"
    and s4: "cc2420_off s3 = Ok s4" and rel: "RELEASE_LOCK s4 = Ok s'"
    unfolding cc2420_rssi_def with_lock_def by (auto simp: res_iff Let_def on radio_idle_def)
  have c: "chip_view s3 = chip_view s1" using chip_reg(1) [OF s3] waits_chip(1) [OF s2] by simp
  moreover have c1: "chip_view s1 = (chip_on s, False, True, False, 1, in_cca s)"
    using s by (simp add: s1_def chip_view_def GET_LOCK_def radio_idle_def)
  ultimately have "s4 = s3" using s4 off_when_off [of s3] by (simp add: chip_view_def)
  with c c1 RELEASE_LOCK_chip [OF rel] show ?thesis by (simp add: chip_view_def)
qed

lemma cca_off_is_clear:
  assumes r: "cc2420_cca s = Ok (c, s')" and s: "radio_idle s" "\<not> receive_on s"
  shows "c \<and> in_cca s' = in_cca s \<and> \<not> receive_on s'"
proof -
  define s1 where "s1 = (GET_LOCK s)\<lparr>lock_on := True\<rparr>"
  have on: "cc2420_on (GET_LOCK s) = Ok s1" using s by (simp add: on_locked s1_def radio_idle_def)
  have c1: "chip_view s1 = (chip_on s, False, True, False, 1, in_cca s)"
    using s by (simp add: s1_def chip_view_def GET_LOCK_def radio_idle_def)
  from r s c1 obtain s2 where rel: "RELEASE_LOCK s1 = Ok s2" and off: "cc2420_off s2 = Ok s'" and c
    unfolding cc2420_cca_def by (auto simp: res_iff Let_def on radio_idle_def chip_view_def)
  have c2: "chip_view s2 = (True, True, False, False, 0, in_cca s)" using RELEASE_LOCK_chip [OF rel] c1 by (simp add: chip_view_def)
  then have "radio_idle s2" "receive_on s2" by (simp_all add: chip_view_def radio_idle_def)
  with off_idle_chip [OF off] c2 \<open>c\<close> show ?thesis by (simp add: chip_view_def)
qed

lemma tx_set_power_chip:
  assumes r: "tx_set_power s = Ok (p, s')" and l: "locked s = 1"
  shows "chip_view s' = chip_view s"
proof (cases "0 < packetbuf_attr ATTR_RADIO_TXPOWER (rpb s)")
  case True
  with r obtain q s1 where q: "cc2420_get_txpower s = Ok (q, s1)"
    and s': "set_txpower (ucast (packetbuf_attr ATTR_RADIO_TXPOWER (rpb s1) - 1)) s1 = Ok s'"
    by (auto simp: tx_set_power_def res_iff)
  from q obtain v s0 where s0: "getreg TXCTRL (GET_LOCK s) = Ok (v, s0)" and rel: "RELEASE_LOCK s0 = Ok s1"
    by (auto simp: cc2420_get_txpower_def with_lock_def res_iff)
  have c0: "chip_view s0 = (chip_on s, receive_on s, lock_on s, lock_off s, 2, in_cca s)"
    using chip_reg(1) [OF s0] l by (simp add: chip_view_def GET_LOCK_def)
  then have "s1 = s0\<lparr>locked := locked s0 - 1\<rparr>" using rel by (auto simp: RELEASE_LOCK_def chip_view_def)
  then have "chip_view s1 = chip_view s" using c0 l by (simp add: chip_view_def)
  with power_chip(1) [OF s'] show ?thesis by simp
next
  case False
  with r show ?thesis by (simp add: tx_set_power_def)
qed

lemma tx_start_chip: "tx_start s = Ok s' \<Longrightarrow> chip_view s' = (True, receive_on s, lock_on s, lock_off s, locked s, in_cca s)"
  by (auto simp: tx_start_def res_iff strobe_def chip_view_def dest!: chip split: if_splits)

lemma tx_stamp_chip: "tx_stamp n s = Ok s' \<Longrightarrow> chip_view s' = chip_view s"
  by (auto simp: tx_stamp_def res_iff chip_view_def dest!: chip_reg(4) split: if_splits)

lemma tx_started_chip:
  assumes r: "tx_started p n s = Ok (x, s')" and s: "chip_on s" "\<not> receive_on s"
  shows "chip_view s' = (x = RADIO_TX_COLLISION, False, lock_on s, lock_off s, locked s, in_cca s)"
proof -
  from r obtain s1 st s2 where s1: "tx_stamp n s = Ok s1" and s2: "get_status s1 = Ok (st, s2)"
    and b: "(if \<not> bit st TX_ACTIVE then Ok (RADIO_TX_COLLISION, s2)
      else bindR (wait_for_transmission s2) (\<lambda>s. bindR (if receive_on s then Ok s else radio_off s) (\<lambda>s.
           bindR (tx_restore_power p s) (\<lambda>s. Ok (RADIO_TX_OK, s))))) = Ok (x, s')"
    by (auto simp: tx_started_def res_iff)
  have c2: "chip_view s2 = chip_view s" using tx_stamp_chip [OF s1] chip_reg(2) [OF s2] by simp
  show ?thesis
  proof (cases "bit st TX_ACTIVE")
    case True
    with b obtain s3 s4 where s3: "wait_for_transmission s2 = Ok s3" and s4: "(if receive_on s3 then Ok s3 else radio_off s3) = Ok s4"
      and s': "tx_restore_power p s4 = Ok s'" and x: "x = RADIO_TX_OK" by (auto simp: res_iff)
    have "chip_view s3 = chip_view s" using waits_chip(2) [OF s3] c2 by simp
    with s4 s radio_off_chip [of s3 s4] power_chip(2) [OF s'] x show ?thesis by (simp add: chip_view_def)
  next
    case False
    with b c2 s show ?thesis by (auto simp: chip_view_def)
  qed
qed

text \<open>
  C14: A transmission with the radio off ends with the driver believing that the radio is off; the chip is off after a success, but after
  a collision it goes on receiving.
\<close>

theorem transmit_when_off:
  assumes r: "cc2420_transmit n s = Ok (x, s')" and s: "radio_idle s" "\<not> receive_on s"
  shows "\<not> receive_on s' \<and> (chip_on s' \<longleftrightarrow> x = RADIO_TX_COLLISION)"
proof -
  from r obtain p s1 s2 h s3 s4 where s1: "tx_set_power (GET_LOCK s) = Ok (p, s1)" and s2: "tx_start s1 = Ok s2"
    and s3: "sfd_wait LOOP_20_SYMBOLS s2 = Ok (h, s3)"
    and b: "(if h then tx_started p n s3 else bindR (tx_restore_power p s3) (\<lambda>s. Ok (RADIO_TX_COLLISION, s))) = Ok (x, s4)"
    and rel: "RELEASE_LOCK s4 = Ok s'"
    unfolding cc2420_transmit_def with_lock_def by (auto simp: res_iff)
  have "locked (GET_LOCK s) = 1" using s by (simp add: radio_idle_def)
  from tx_set_power_chip [OF s1 this] tx_start_chip [OF s2] sfd_wait_chip [OF s3] s
  have c3: "chip_view s3 = (True, False, False, False, 1, in_cca s)" by (simp add: chip_view_def GET_LOCK_def radio_idle_def)
  have "chip_view s4 = (x = RADIO_TX_COLLISION, False, False, False, 1, in_cca s)"
  proof (cases h)
    case True
    with b c3 tx_started_chip [of p n s3 x s4] show ?thesis by (simp add: chip_view_def)
  next
    case False
    with b obtain "tx_restore_power p s3 = Ok s4" "x = RADIO_TX_COLLISION" by (auto simp: res_iff)
    with power_chip(2) [of p s3 s4] c3 show ?thesis by simp
  qed
  with RELEASE_LOCK_chip [OF rel] show ?thesis by (simp add: chip_view_def)
qed

section \<open>Parameters\<close>

lemma power_table: "\<forall>v \<in> set [- 25..0]. v \<le> power_of_level (ucast (level_of_power v))
    \<and> (\<forall>(pw, c) \<in> set output_power. v \<le> pw \<longrightarrow> power_of_level (ucast (level_of_power v)) \<le> pw)
    \<and> (ucast (level_of_power v) :: u16) AND 0x1f = ucast (level_of_power v)"
  by code_simp

lemma idle_step: "radio_idle s \<Longrightarrow> f (GET_LOCK s) = Ok (x, s1) \<Longrightarrow> locked s1 = 1 \<Longrightarrow> \<not> lock_on s1 \<Longrightarrow> \<not> lock_off s1 \<Longrightarrow>
    with_lock f s = Ok (x, s1\<lparr>locked := 0\<rparr>)"
  by (simp add: with_lock_def RELEASE_LOCK_quiet)

lemma idle_do: "radio_idle s \<Longrightarrow> f (GET_LOCK s) = Ok s1 \<Longrightarrow> locked s1 = 1 \<Longrightarrow> \<not> lock_on s1 \<Longrightarrow> \<not> lock_off s1 \<Longrightarrow>
    locked_do f s = Ok (s1\<lparr>locked := 0\<rparr>)"
  by (simp add: locked_do_def RELEASE_LOCK_quiet)

lemma txpower_round_trip:
  assumes v: "- 25 \<le> v" "v \<le> 0" and s: "radio_idle s"
    and reg: "in_reg s = r0 # ((r0 AND 0xffe0) OR ucast (level_of_power v)) # rs"
  shows "\<exists>s1 s2 pw. radio_set_value RADIO_PARAM_TXPOWER v s = Ok (RADIO_RESULT_OK, s1)
    \<and> bus s1 = bus s @ [GetReg TXCTRL, SetReg TXCTRL ((r0 AND 0xffe0) OR ucast (level_of_power v))]
    \<and> radio_get_value RADIO_PARAM_TXPOWER True s1 = Ok ((RADIO_RESULT_OK, Some pw), s2)
    \<and> v \<le> pw \<and> (\<forall>(q, c) \<in> set output_power. v \<le> q \<longrightarrow> pw \<le> q)"
proof -
  define lv where "lv = level_of_power v"
  define r1 where "r1 = (r0 AND 0xffe0) OR (ucast lv :: u16)"
  have "v \<in> set [- 25..0]" using v by simp
  with power_table have t: "v \<le> power_of_level (ucast lv)" "\<forall>(pw, c) \<in> set output_power. v \<le> pw \<longrightarrow> power_of_level (ucast lv) \<le> pw"
    and m: "(ucast lv :: u16) AND 0x1f = ucast lv" by (simp_all add: lv_def)
  have m1: "r1 AND 0x1f = ucast lv" using m by (simp add: r1_def bit.conj_disj_distrib2 and.assoc)
  define s1 where "s1 = s\<lparr>in_reg := r1 # rs, bus := bus s @ [GetReg TXCTRL, SetReg TXCTRL r1]\<rparr>"
  have set: "cc2420_set_txpower lv s = Ok s1"
    using s reg m unfolding cc2420_set_txpower_def
    by (subst idle_do [of s _ "(GET_LOCK s)\<lparr>in_reg := r1 # rs, bus := bus s @ [GetReg TXCTRL, SetReg TXCTRL r1]\<rparr>"])
       (auto simp: set_txpower_def getreg_def next_in_def setreg_def emit_def GET_LOCK_def radio_idle_def r1_def lv_def s1_def)
  define s2 where "s2 = s1\<lparr>in_reg := rs, bus := bus s1 @ [GetReg TXCTRL]\<rparr>"
  have get: "cc2420_get_txpower s1 = Ok (ucast lv, s2)"
    using s m1 unfolding cc2420_get_txpower_def
    by (subst idle_step [of s1 _ "ucast lv" "(GET_LOCK s1)\<lparr>in_reg := rs, bus := bus s1 @ [GetReg TXCTRL]\<rparr>"])
       (auto simp: getreg_def next_in_def emit_def GET_LOCK_def radio_idle_def s1_def s2_def)
  show ?thesis
    using v set get t
    by (intro exI [of _ s1] exI [of _ s2] exI [of _ "power_of_level (ucast lv)"])
       (simp add: radio_set_value_def radio_get_value_def lv_def [symmetric], simp add: s1_def r1_def)
qed

lemma threshold_word: "\<forall>v \<in> set [- 128..127]. sint (ucast (drop_bit 8 (push_bit 8 (word_of_int v) :: u16)) :: u8) = v"
  by code_simp

lemma cca_threshold_round_trip:
  assumes v: "- 173 \<le> v" "v \<le> 82" and s: "radio_idle s" and reg: "in_reg s = push_bit 8 (word_of_int (v + 45)) # rs"
  shows "\<exists>s1 s2. radio_set_value RADIO_PARAM_CCA_THRESHOLD v s = Ok (RADIO_RESULT_OK, s1)
    \<and> bus s1 = bus s @ [SetReg RSSI_REG (push_bit 8 (word_of_int (v + 45)))]
    \<and> radio_get_value RADIO_PARAM_CCA_THRESHOLD True s1 = Ok ((RADIO_RESULT_OK, Some v), s2)"
proof -
  define w where "w = (push_bit 8 (word_of_int (v + 45)) :: u16)"
  have "v + 45 \<in> set [- 128..127]" unfolding set_upto atLeastAtMost_iff using v by linarith
  with threshold_word have w: "sint (ucast (drop_bit 8 w) :: u8) = v + 45" by (simp only: w_def Ball_def)
  define s1 where "s1 = s\<lparr>bus := bus s @ [SetReg RSSI_REG w]\<rparr>"
  have set: "cc2420_set_cca_threshold (v + 45) s = Ok s1"
    using s unfolding cc2420_set_cca_threshold_def
    by (subst idle_do [of s _ "(GET_LOCK s)\<lparr>bus := bus s @ [SetReg RSSI_REG w]\<rparr>"])
       (auto simp: setreg_def emit_def GET_LOCK_def radio_idle_def s1_def w_def)
  define s2 where "s2 = s1\<lparr>in_reg := rs, bus := bus s1 @ [GetReg RSSI_REG]\<rparr>"
  have get: "get_cca_threshold s1 = Ok (v + 45, s2)"
    using s w reg unfolding get_cca_threshold_def
    by (subst idle_step [of s1 _ "v + 45" "(GET_LOCK s1)\<lparr>in_reg := rs, bus := bus s1 @ [GetReg RSSI_REG]\<rparr>"])
       (auto simp: getreg_def next_in_def emit_def GET_LOCK_def radio_idle_def s1_def s2_def w_def)
  show ?thesis
    using set get by (intro exI [of _ s1] exI [of _ s2]) (simp add: radio_set_value_def radio_get_value_def, simp add: s1_def w_def)
qed

section \<open>Frames that are not delivered, and power\<close>

lemma read_checksum:
  assumes r: "cc2420_read bufsize s = Ok ((buf, len), s')" and f: "in_fifop s = True # fp"
    and rx: "in_rx s = l # p @ [f0, f1] @ rest" and l: "unat l = length p + 2" "p \<noteq> []" "length p \<le> 125" "length p \<le> unat bufsize"
  shows "buf = p \<and> len = (if bit f1 7 then length p else 0)"
proof -
  have "0 < length p" using l(2) by simp
  then have g: "\<not> (CC2420_MAX_PACKET_LEN < unat l \<or> unat l \<le> FOOTER_LEN \<or> unat bufsize < unat l - FOOTER_LEN)"
    using l by linarith
  define s0 where "s0 = GET_LOCK (s\<lparr>in_fifop := fp\<rparr>)"
  have "getrxdata 1 s0 = Ok ([l], emit (GetRx 1) (s0\<lparr>in_rx := p @ [f0, f1] @ rest\<rparr>))"
    using rx by (simp add: getrxdata_def take_in_def GET_LOCK_def s0_def)
  with r f g obtain s2 where fr: "read_frame l (emit (GetRx 1) (s0\<lparr>in_rx := p @ [f0, f1] @ rest\<rparr>)) = Ok ((buf, len), s2)"
    by (auto simp: cc2420_read_def fifop_is_1_def next_in_def with_lock_def Let_def res_iff s0_def [symmetric])
  with l(1,3) show ?thesis
    by (auto simp: read_frame_def getrxdata_def take_in_def emit_def Let_def res_iff split: if_splits)
qed

lemma read_bad_length:
  assumes s: "radio_idle s" and f: "in_fifop s = True # fp" and rx: "in_rx s = l # d # rest"
    and l: "127 < unat l \<or> unat l \<le> 2 \<or> unat bufsize < unat l - 2"
  shows "cc2420_read bufsize s = Ok (([], 0), s\<lparr>in_fifop := fp, in_rx := rest,
    bus := bus s @ [GetRx 1, GetRx 1, Strobe SFLUSHRX, Strobe SFLUSHRX]\<rparr>)"
proof -
  define s0 where "s0 = s\<lparr>in_fifop := fp\<rparr>"
  have "with_lock (\<lambda>s. bindR (getrxdata 1 s) (\<lambda>(bs, s). let len = hd bs in
        if CC2420_MAX_PACKET_LEN < unat len \<or> unat len \<le> FOOTER_LEN \<or> unat bufsize < unat len - FOOTER_LEN
        then bindR (flushrx s) (\<lambda>s. Ok (([], 0), s)) else read_frame len s)) s0
      = Ok (([], 0), (GET_LOCK s0)\<lparr>in_rx := rest, bus := bus s @ [GetRx 1, GetRx 1, Strobe SFLUSHRX, Strobe SFLUSHRX], locked := 0\<rparr>)"
    using l s rx
    by (subst idle_step [of s0 _ "([], 0)" "(GET_LOCK s0)\<lparr>in_rx := rest, bus := bus s @ [GetRx 1, GetRx 1, Strobe SFLUSHRX, Strobe SFLUSHRX]\<rparr>"])
       (auto simp: s0_def GET_LOCK_def radio_idle_def getrxdata_def take_in_def flushrx_def strobe_def emit_def Let_def)
  with f s show ?thesis by (simp add: cc2420_read_def fifop_is_1_def next_in_def s0_def GET_LOCK_def radio_idle_def)
qed

lemma prepare_diverges:
  assumes "255 < n"
  shows "cc2420_prepare b n s = Fault Diverge"
  using assms by (auto simp: cc2420_prepare_def locked_do_def Let_def write_fifo_buf_def get_bytes_def)

lemma prepare_oversize:
  assumes "cc2420_prepare b n s = Ok s'" "127 < unat n"
  shows "128 < length (txfifo s')"
proof -
  from assms(1) have "unat n \<le> length b" by (auto simp: cc2420_prepare_def locked_do_def Let_def res_iff write_fifo_buf_Ok)
  with prepare_fifo(1) [OF assms(1)] assms(2) show ?thesis by simp
qed

text \<open>The last value that the driver wrote to the power register.\<close>

definition txctrl :: "radio \<Rightarrow> u16 option" where
  "txctrl s = fold (\<lambda>c v. case c of SetReg TXCTRL w \<Rightarrow> Some w | _ \<Rightarrow> v) (bus s) None"

lemma collision_keeps_power:
  assumes "tx_started p n s = Ok (RADIO_TX_COLLISION, s')"
  shows "txctrl s' = txctrl s"
  using assms
  by (auto simp: tx_started_def tx_stamp_def write_ram_def get_status_def emit_def txctrl_def res_iff split: if_splits)

text \<open>
  C15: Measuring the signal strength with the radio off leaves the radio on, because the order to turn it on is carried out when the lock is given
  back. Asking whether the channel is clear with the radio off answers yes without looking at the channel.
\<close>

theorem measuring_when_off:
  assumes "cc2420_rssi s = Ok (v, s')" "radio_idle s" "\<not> receive_on s"
    and "cc2420_cca t = Ok (c, t')" "radio_idle t" "\<not> receive_on t"
  shows "receive_on s' \<and> chip_on s' \<and> c \<and> in_cca t' = in_cca t \<and> \<not> receive_on t'"
  using rssi_leaves_radio_on [OF assms(1-3)] cca_off_is_clear [OF assms(4-6)] by simp

section \<open>Samples\<close>

definition sample_radio :: radio where
  "sample_radio = \<lparr>locked = 0, lock_on = False, lock_off = False, receive_on = False, channel = 26, poll_mode = False, send_on_cca = False,
     cc2420_last_rssi = 0, cc2420_last_correlation = 0, last_packet_timestamp = 0, process_polled = False,
     rpb = \<lparr>pb_data = replicate PACKETBUF_SIZE 0, pb_buflen = 0, pb_bufptr = 0, pb_hdrlen = 0, pb_attrs = (\<lambda>_. 0), pb_addrs = (\<lambda>_. 0)\<rparr>,
     bus = [], in_status = [], in_reg = [], in_rx = [], in_ram = [], in_now = [], in_sfd_time = [], in_sfd = [], in_fifop = [], in_fifo = [], in_cca = []\<rparr>"

definition sample_sender :: radio where
  "sample_sender = sample_radio\<lparr>receive_on := True, in_sfd := [True], in_sfd_time := [0x1234], in_status := [8, 0], in_now := [0],
     rpb := packetbuf_set_attr ATTR_PACKET_TYPE TYPE_TIMESTAMP (rpb sample_radio)\<rparr>"

lemma sfd_wait_step: "0 < n \<Longrightarrow> sfd_wait n s = bindR (sfd_is_1 s) (\<lambda>(high, s). if high then Ok (True, s) else sfd_wait (n - 1) s)"
  by (cases n) (simp, simp only: sfd_wait.simps diff_Suc_1)

lemmas radio_eval = locked_do_def with_lock_def GET_LOCK_def RELEASE_LOCK_def Let_def strobe_def emit_def getreg_def setreg_def get_status_def
  next_in_def write_fifo_buf_def write_ram_def get_bytes_def radio_now_def sfd_is_1_def sfd_start_time_def fifop_is_1_def wait_loop.simps
  wait_for_transmission_def wait_for_status_def radio_on_def radio_off_def packetbuf_attr_def

lemma sample_sent:
  "cc2420_send [1, 2, 3, 4] 4 sample_sender = Ok (RADIO_TX_OK, sample_sender\<lparr>in_sfd := [], in_sfd_time := [], in_status := [], in_now := [],
     bus := [Strobe SFLUSHTX, WriteFifo [6], WriteFifo [1, 2, 3, 4], Strobe STXON, WriteRam 3 [0x34, 0x12], Strobe SNOP, Strobe SNOP]\<rparr>)"
  by (simp add: cc2420_send_def cc2420_prepare_def cc2420_transmit_def tx_set_power_def tx_start_def sfd_wait_step tx_started_def tx_stamp_def
      tx_restore_power_def radio_eval sample_sender_def sample_radio_def packetbuf_set_attr_def enc_u16_def)

definition sample_receiver :: radio where
  "sample_receiver = sample_radio\<lparr>receive_on := True, in_fifop := [True, False], in_fifo := [True], last_packet_timestamp := 0x4321,
     in_rx := [6, 1, 2, 0x34, 0x12, 100, 0xb2]\<rparr>"

lemma sample_stamp: "enc_u16 4660 = [0x34, 0x12]"
  by code_simp

theorem radio_round_trip_witness:
  "\<exists>r'. cc2420_process Ok sample_receiver = Ok r' \<and> radio_idle r' \<and> pb_payload (rpb r') = [1, 2, 0x34, 0x12]
     \<and> packetbuf_attr ATTR_TIMESTAMP (rpb r') = 0x4321"
  using radio_round_trip [OF sample_sent, of sample_receiver False "[]" "[]" 100 178 "[]" Ok]
  by (auto simp: sample_receiver_def sample_radio_def radio_idle_def txfifo_def sample_sender_def packetbuf_set_attr_def packetbuf_attr_def sample_stamp)

theorem radio_lock_released_witness:
  "\<exists>s'. run (map radio_call_do [Call_on, Call_set_value RADIO_PARAM_TX_MODE 1]) sample_radio = Ok s' \<and> radio_idle s' \<and> receive_on s' \<and> send_on_cca s'"
proof -
  define s' where "s' = sample_radio\<lparr>receive_on := True, send_on_cca := True, bus := [FifopInt True, Strobe SRXON]\<rparr>"
  have r: "run (map radio_call_do [Call_on, Call_set_value RADIO_PARAM_TX_MODE 1]) sample_radio = Ok s'"
    by (simp add: cc2420_on_def radio_set_value_def set_send_on_cca_def radio_eval sample_radio_def s'_def)
  have "radio_idle sample_radio" by (simp add: radio_idle_def sample_radio_def)
  from radio_lock_released [OF this r] r show ?thesis by (intro exI [of _ s']) (simp add: s'_def)
qed

definition sample_busy :: radio where
  "sample_busy = sample_radio\<lparr>in_sfd := [True], in_sfd_time := [7], in_status := [0]\<rparr>"

theorem transmit_when_off_witness:
  "\<exists>s'. cc2420_transmit 4 sample_busy = Ok (RADIO_TX_COLLISION, s') \<and> \<not> receive_on s' \<and> chip_on s'"
proof -
  define s' where "s' = sample_busy\<lparr>in_sfd := [], in_sfd_time := [], in_status := [], bus := [Strobe STXON, Strobe SNOP]\<rparr>"
  have r: "cc2420_transmit 4 sample_busy = Ok (RADIO_TX_COLLISION, s')"
    by (simp add: cc2420_transmit_def tx_set_power_def tx_start_def sfd_wait_step tx_started_def tx_stamp_def
        radio_eval sample_busy_def sample_radio_def s'_def)
  have "radio_idle sample_busy" "\<not> receive_on sample_busy" by (simp_all add: radio_idle_def sample_radio_def sample_busy_def)
  with transmit_when_off [OF r] r show ?thesis by blast
qed

definition sample_off :: radio where
  "sample_off = sample_radio\<lparr>in_status := [2, 0], in_now := [0], in_reg := [0x00ff], in_fifop := [True], in_cca := [False]\<rparr>"

theorem measuring_when_off_witness:
  "\<exists>s' t'. cc2420_rssi sample_off = Ok (- 46, s') \<and> receive_on s' \<and> cc2420_cca sample_off = Ok (True, t') \<and> in_cca t' = [False]"
proof -
  define s' where "s' = sample_off\<lparr>receive_on := True, in_status := [0], in_now := [], in_reg := [],
    bus := [Strobe SNOP, GetReg RSSI_REG, FifopInt True, Strobe SRXON]\<rparr>"
  define t' where "t' = sample_off\<lparr>in_status := [], in_now := [], in_fifop := [],
    bus := [FifopInt True, Strobe SRXON, Strobe SNOP, Strobe SNOP, Strobe SRFOFF, FifopInt False]\<rparr>"
  have r: "cc2420_rssi sample_off = Ok (- 46, s')"
    by (simp add: cc2420_rssi_def cc2420_on_def cc2420_off_def radio_eval sample_off_def sample_radio_def s'_def)
  have c: "cc2420_cca sample_off = Ok (True, t')"
    by (simp add: cc2420_cca_def cc2420_on_def cc2420_off_def radio_eval sample_off_def sample_radio_def t'_def)
  have "radio_idle sample_off" "\<not> receive_on sample_off" by (simp_all add: radio_idle_def sample_radio_def sample_off_def)
  with measuring_when_off [OF r _ _ c] r c show ?thesis by (intro exI [of _ s'] exI [of _ t']) (simp add: sample_off_def)
qed

end
